(* ===== verification/Afl_Prelude.thy ===== *)
theory Afl_Prelude
  imports Main "HOL-Library.Char_ord" "HOL-Library.List_Lexorder"
begin

text \<open>
  Shared vocabulary of the development: the exceptions of the library, pure results and
  state-passing actions that may throw, the fixed-width integer arithmetic of C++, and the
  ordered containers \<open>std::map\<close> and \<open>std::set\<close> as strictly sorted lists.

  An octet is a HOL \<open>char\<close>: C++ \<open>char\<close> and \<open>uint8_t\<close> are both read through
  \<open>of_char\<close>, and \<open>String_t\<close> (\<open>std::string\<close>) is \<open>string\<close>. The order on strings is
  the lexicographic one on unsigned octets, as \<open>std::char_traits<char>::lt\<close> has it.
\<close>

section \<open>Collections of rules\<close>

named_theorems action_simps \<open>unfolding of results and of state-passing actions\<close>
named_theorems int_simps \<open>unfolding of fixed-width integer arithmetic\<close>
named_theorems wf_rules \<open>preservation of the invariants of containers and databases\<close>

section \<open>Exceptions and results\<close>

text \<open>
  The exceptions the modelled code throws. \<open>Undefined\<close> is not an exception of the
  program: it marks an execution whose behaviour the C++ standard leaves undefined
  (signed overflow, an access outside a vector). \<open>AssertionFailed\<close> marks a failing \<open>assert\<close>,
  which ends the program. \<open>NoReturn\<close> marks a loop that has not ended in the number of rounds
  given to it.
\<close>

datatype exn =
    RemoteErrorException string string
  | InvalidDataException string
  | FileFormatException string
  | FileTooShortException
  | FileProblemException string string
  | UnsupportedException string
  | BadAlloc
  | AssertionFailed
  | RuntimeError string
  | Undefined
  | NoReturn

type_synonym 'a result = "exn + 'a"

type_synonym octet = char

definition rbind :: "'a result \<Rightarrow> ('a \<Rightarrow> 'b result) \<Rightarrow> 'b result" where
  "rbind r f = (case r of Inl e \<Rightarrow> Inl e | Inr x \<Rightarrow> f x)"

lemma rbind_simps [simp]:
  "rbind (Inl e) f = Inl e"
  "rbind (Inr x) f = f x"
  by (simp_all add: rbind_def)

lemma rbind_assoc: "rbind (rbind r f) g = rbind r (\<lambda>x. rbind (f x) g)"
  by (cases r) simp_all

lemma rbind_cong [fundef_cong]:
  "r = r' \<Longrightarrow> (\<And>x. r' = Inr x \<Longrightarrow> f x = g x) \<Longrightarrow> rbind r f = rbind r' g"
  by (cases r') auto

lemma rbind_eq_Inr: "rbind r f = Inr y \<longleftrightarrow> (\<exists>x. r = Inr x \<and> f x = Inr y)"
  by (cases r) simp_all

lemma rbind_split:
  "P (rbind r f) \<longleftrightarrow> (\<forall>e. r = Inl e \<longrightarrow> P (Inl e)) \<and> (\<forall>x. r = Inr x \<longrightarrow> P (f x))"
  by (cases r) simp_all

text \<open>What holds of the value, if there is one.\<close>

definition rall :: "('a \<Rightarrow> bool) \<Rightarrow> 'a result \<Rightarrow> bool" where
  "rall P r \<longleftrightarrow> (\<forall>x. r = Inr x \<longrightarrow> P x)"

lemma rallD: "rall P r \<Longrightarrow> r = Inr x \<Longrightarrow> P x"
  by (simp add: rall_def)

lemma rall_rbind: "(\<And>x. r = Inr x \<Longrightarrow> rall P (f x)) \<Longrightarrow> rall P (rbind r f)"
  by (cases r) (simp_all add: rall_def)

lemma rall_if: "(b \<Longrightarrow> rall P r) \<Longrightarrow> (\<not> b \<Longrightarrow> rall P r') \<Longrightarrow> rall P (if b then r else r')"
  by simp

lemma rall_let: "(\<And>x. rall P (f x)) \<Longrightarrow> rall P (let x = z in f x)"
  by simp

lemma rall_list:
  "(xs = [] \<Longrightarrow> rall P r) \<Longrightarrow> (\<And>y ys. xs = y # ys \<Longrightarrow> rall P (f y ys)) \<Longrightarrow>
   rall P (case xs of [] \<Rightarrow> r | y # ys \<Rightarrow> f y ys)"
  by (cases xs) simp_all

lemma rall_Inl: "rall P (Inl e)"
  by (simp add: rall_def)

lemma rall_Inr: "P x \<Longrightarrow> rall P (Inr x)"
  by (simp add: rall_def)

lemmas rall_rules = rall_rbind rall_if rall_let rall_list rall_Inl rall_Inr

section \<open>State-passing actions that may throw\<close>

text \<open>
  An action runs on a state and gives either an exception or a value, and the state as it
  is at that moment: what was changed before a throw stays changed, as in the code.
\<close>

type_synonym ('s, 'a) action = "'s \<Rightarrow> 'a result \<times> 's"

definition ret :: "'a \<Rightarrow> ('s, 'a) action" where
  "ret x = (\<lambda>s. (Inr x, s))"

definition throw :: "exn \<Rightarrow> ('s, 'a) action" where
  "throw e = (\<lambda>s. (Inl e, s))"

definition lift :: "'a result \<Rightarrow> ('s, 'a) action" where
  "lift r = (\<lambda>s. (r, s))"

definition bind :: "('s, 'a) action \<Rightarrow> ('a \<Rightarrow> ('s, 'b) action) \<Rightarrow> ('s, 'b) action" where
  "bind m f = (\<lambda>s. case m s of (Inl e, s') \<Rightarrow> (Inl e, s') | (Inr x, s') \<Rightarrow> f x s')"

definition gets :: "('s \<Rightarrow> 'a) \<Rightarrow> ('s, 'a) action" where
  "gets f = (\<lambda>s. (Inr (f s), s))"

definition modify :: "('s \<Rightarrow> 's) \<Rightarrow> ('s, unit) action" where
  "modify f = (\<lambda>s. (Inr (), f s))"

text \<open>An action on a part of the state.\<close>

definition zoom :: "('s \<Rightarrow> 'p) \<Rightarrow> ('p \<Rightarrow> 's \<Rightarrow> 's) \<Rightarrow> ('p, 'a) action \<Rightarrow> ('s, 'a) action" where
  "zoom part put m = (\<lambda>s. case m (part s) of (r, p) \<Rightarrow> (r, put p s))"

lemma action_apply [simp]:
  "ret x s = (Inr x, s)"
  "throw e s = (Inl e, s)"
  "lift r s = (r, s)"
  "gets f s = (Inr (f s), s)"
  "modify g s = (Inr (), g s)"
  by (simp_all add: ret_def throw_def lift_def gets_def modify_def)

lemma bind_apply_simps [simp]:
  "bind (ret x) f s = f x s"
  "bind (throw e) f s = (Inl e, s)"
  "bind (lift (Inl e)) f s = (Inl e, s)"
  "bind (lift (Inr x)) f s = f x s"
  "bind (gets g) f s = f (g s) s"
  "bind (modify h) f' s = f' () (h s)"
  by (simp_all add: bind_def)

lemma bind_eval:
  "m s = (Inr x, s') \<Longrightarrow> bind m f s = f x s'"
  "m s = (Inl e, s') \<Longrightarrow> bind m f s = (Inl e, s')"
  by (simp_all add: bind_def)

lemma bind_assoc: "bind (bind m f) g = bind m (\<lambda>x. bind (f x) g)"
  by (rule ext) (auto simp: bind_def split: prod.split sum.split)

lemma bind_ret: "bind (ret x) f = f x"
  by (rule ext) simp

lemma bind_case_prod: "bind (case_prod f p) g = (case p of (x, y) \<Rightarrow> bind (f x y) g)"
  by (cases p) simp

lemmas bind_laws = bind_assoc bind_ret bind_case_prod prod.case

text \<open>
  What an action keeps of the state: \<open>keeps P m\<close> when every run of \<open>m\<close> from a state with
  \<open>P\<close> ends in a state with \<open>P\<close>, whether it throws or not. The rules follow the
  structure of an action, so that invariants of large handlers are proved by
  \<open>intro wf_rules\<close>.
\<close>

definition keeps :: "('s \<Rightarrow> bool) \<Rightarrow> ('s, 'a) action \<Rightarrow> bool" where
  "keeps P m \<longleftrightarrow> (\<forall>s. P s \<longrightarrow> P (snd (m s)))"

lemma keepsD: "keeps P m \<Longrightarrow> P s \<Longrightarrow> P (snd (m s))"
  by (simp add: keeps_def)

lemma keepsI: "(\<And>s. P s \<Longrightarrow> P (snd (m s))) \<Longrightarrow> keeps P m"
  by (simp add: keeps_def)

lemma keeps_ret [wf_rules]: "keeps P (ret x)"
  and keeps_throw [wf_rules]: "keeps P (throw e)"
  and keeps_lift [wf_rules]: "keeps P (lift r)"
  and keeps_gets [wf_rules]: "keeps P (gets f)"
  by (simp_all add: keeps_def)

lemma keeps_bind [wf_rules]:
  assumes "keeps P m" and "\<And>x. keeps P (f x)"
  shows "keeps P (bind m f)"
proof (rule keepsI)
  fix s assume "P s"
  with assms(1) have P: "P (snd (m s))" by (rule keepsD)
  show "P (snd (bind m f s))"
  proof (cases "m s")
    case (Pair r s')
    with P assms(2) show ?thesis by (cases r) (auto simp: bind_def keeps_def)
  qed
qed

lemma keeps_modify: "(\<And>s. P s \<Longrightarrow> P (f s)) \<Longrightarrow> keeps P (modify f)"
  by (simp add: keeps_def)

lemma keeps_if [wf_rules]: "keeps P m \<Longrightarrow> keeps P n \<Longrightarrow> keeps P (if b then m else n)"
  by simp

lemma keeps_option [wf_rules]:
  "keeps P m \<Longrightarrow> (\<And>x. keeps P (f x)) \<Longrightarrow> keeps P (case z of None \<Rightarrow> m | Some x \<Rightarrow> f x)"
  by (cases z) auto

lemma keeps_prod [wf_rules]: "(\<And>x y. keeps P (f x y)) \<Longrightarrow> keeps P (case z of (x, y) \<Rightarrow> f x y)"
  by (cases z) simp

lemma keeps_let [wf_rules]: "(\<And>x. keeps P (f x)) \<Longrightarrow> keeps P (let x = z in f x)"
  by simp

text \<open>A run that returns: no exception, no undefined behaviour, and every loop ends.\<close>

definition runs :: "('s, 'a) action \<Rightarrow> 's \<Rightarrow> ('a \<Rightarrow> 's \<Rightarrow> bool) \<Rightarrow> bool" where
  "runs m s P \<longleftrightarrow> (\<exists>x s'. m s = (Inr x, s') \<and> P x s')"

lemma runs_bind: "runs m s Q \<Longrightarrow> (\<And>x s'. Q x s' \<Longrightarrow> runs (f x) s' P) \<Longrightarrow> runs (bind m f) s P"
  by (auto simp: runs_def bind_def)

lemma runs_mono: "runs m s Q \<Longrightarrow> (\<And>x s'. Q x s' \<Longrightarrow> P x s') \<Longrightarrow> runs m s P"
  by (auto simp: runs_def)

lemma runs_simps [simp]:
  "runs (ret x) s P \<longleftrightarrow> P x s"
  "runs (modify g) s P' \<longleftrightarrow> P' () (g s)"
  "runs (\<lambda>s. (Inr x, s)) s P \<longleftrightarrow> P x s"
  "runs (bind (ret x) f) s Q \<longleftrightarrow> runs (f x) s Q"
  "runs (bind (modify g) f') s Q \<longleftrightarrow> runs (f' ()) (g s) Q"
  "runs (bind (gets h) f'') s Q \<longleftrightarrow> runs (f'' (h s)) s Q"
  by (simp_all add: runs_def)

lemma runs_cond [simp]: "runs (\<lambda>s. if b s then f s else g s) s P \<longleftrightarrow> (if b s then runs f s P else runs g s P)"
  by (simp add: runs_def)

section \<open>Fixed-width integers\<close>

text \<open>
  \<open>int32_t\<close> values are \<open>int\<close>s within \<open>int32_ok\<close>. Conversion of any integer to
  \<open>int32_t\<close> is modulo \<open>2 ^ 32\<close>; arithmetic that leaves the range is undefined in C++,
  so it gives \<open>Undefined\<close>. \<open>size_t\<close> has 64 bits and wraps around.
\<close>

definition INT32_MIN :: int where "INT32_MIN = - 2147483648"
definition INT32_MAX :: int where "INT32_MAX = 2147483647"

definition int32_ok :: "int \<Rightarrow> bool" where
  "int32_ok i \<longleftrightarrow> INT32_MIN \<le> i \<and> i \<le> INT32_MAX"

definition to_int32 :: "int \<Rightarrow> int" where
  "to_int32 i = (i + 2147483648) mod 4294967296 - 2147483648"

definition int32_result :: "int \<Rightarrow> int result" where
  "int32_result i = (if int32_ok i then Inr i else Inl Undefined)"

definition size_mod :: nat where "size_mod = 18446744073709551616"

lemmas int32_defs [int_simps] = INT32_MIN_def INT32_MAX_def int32_ok_def

lemma to_int32_ok: "int32_ok (to_int32 i)"
proof -
  have "0 \<le> (i + 2147483648) mod 4294967296" "(i + 2147483648) mod 4294967296 < 4294967296"
    by simp_all
  then show ?thesis by (simp add: int_simps to_int32_def)
qed

lemma to_int32_id: "int32_ok i \<Longrightarrow> to_int32 i = i"
  by (auto simp: int_simps to_int32_def)

lemma to_int32_eq_iff: "to_int32 i = i \<longleftrightarrow> int32_ok i"
  using to_int32_ok [of i] to_int32_id [of i] by auto

lemma int32_result_eq_Inr: "int32_result i = Inr j \<longleftrightarrow> int32_ok i \<and> j = i"
  by (auto simp: int32_result_def)

section \<open>Lists\<close>

lemma takeWhile_all: "(\<And>x. x \<in> set xs \<Longrightarrow> P x) \<Longrightarrow> takeWhile P xs = xs"
  by (simp add: takeWhile_eq_all_conv)

lemma takeWhile_notin [simp]: "c \<notin> set xs \<Longrightarrow> takeWhile (\<lambda>x. x \<noteq> c) xs = xs"
  by (induction xs) auto

lemma takeWhile_notin_append [simp]: "c \<notin> set xs \<Longrightarrow> takeWhile (\<lambda>x. x \<noteq> c) (xs @ ys) = xs @ takeWhile (\<lambda>x. x \<noteq> c) ys"
  by (induction xs) auto

lemma dropWhile_notin [simp]: "c \<notin> set xs \<Longrightarrow> dropWhile (\<lambda>x. x \<noteq> c) xs = []"
  by (induction xs) auto

lemma dropWhile_notin_append [simp]: "c \<notin> set xs \<Longrightarrow> dropWhile (\<lambda>x. x \<noteq> c) (xs @ ys) = dropWhile (\<lambda>x. x \<noteq> c) ys"
  by (induction xs) auto

lemma sorted_wrt_less_filter: "sorted_wrt (<) xs \<Longrightarrow> sorted_wrt (<) (filter P xs)"
  for xs :: "'a::linorder list"
  by (induction xs) auto

lemma sorted_less_distinct: "sorted_wrt (<) xs \<Longrightarrow> distinct xs" for xs :: "'a::linorder list"
  by (induction xs) auto

lemma sorted_less_unique:
  fixes xs ys :: "'a::linorder list"
  assumes "sorted_wrt (<) xs" "sorted_wrt (<) ys" "set xs = set ys"
  shows "xs = ys"
  using assms by (metis sorted_distinct_set_unique strict_sorted_iff)

lemma assoc_as_map: "distinct (map fst xs) \<Longrightarrow> map (\<lambda>k. (k, the (map_of xs k))) (map fst xs) = xs"
  by (simp add: o_def, rule map_idI) (metis map_of_is_SomeI option.sel prod.collapse)

lemma sorted_assoc_unique:
  fixes xs ys :: "('k::linorder \<times> 'v) list"
  assumes "sorted_wrt (<) (map fst xs)" "sorted_wrt (<) (map fst ys)" "map_of xs = map_of ys"
  shows "xs = ys"
proof -
  have "set (map fst xs) = set (map fst ys)"
    using assms(3) by (metis dom_map_of_conv_image_fst set_map)
  then have "map fst xs = map fst ys" by (rule sorted_less_unique [OF assms(1,2)])
  then show ?thesis using assms assoc_as_map sorted_less_distinct by metis
qed

section \<open>Ordered containers\<close>

text \<open>
  \<open>std::map\<close> is a list of pairs with strictly increasing keys, which is also the order
  its iterators visit; \<open>std::set\<close> is a strictly increasing list.
\<close>

fun map_set :: "'k::linorder \<Rightarrow> 'v \<Rightarrow> ('k \<times> 'v) list \<Rightarrow> ('k \<times> 'v) list" where
  "map_set k v [] = [(k, v)]"
| "map_set k v ((k', v') # m) =
     (if k < k' then (k, v) # (k', v') # m
      else if k = k' then (k, v) # m
      else (k', v') # map_set k v m)"

definition map_erase :: "'k \<Rightarrow> ('k \<times> 'v) list \<Rightarrow> ('k \<times> 'v) list" where
  "map_erase k m = filter (\<lambda>p. fst p \<noteq> k) m"

definition map_wf :: "('k::linorder \<times> 'v) list \<Rightarrow> bool" where
  "map_wf m \<longleftrightarrow> sorted_wrt (<) (map fst m)"

fun set_insert :: "'a::linorder \<Rightarrow> 'a list \<Rightarrow> 'a list" where
  "set_insert x [] = [x]"
| "set_insert x (y # ys) =
     (if x < y then x # y # ys else if x = y then y # ys else y # set_insert x ys)"

definition set_erase :: "'a \<Rightarrow> 'a list \<Rightarrow> 'a list" where
  "set_erase x s = filter (\<lambda>y. y \<noteq> x) s"

definition set_wf :: "'a::linorder list \<Rightarrow> bool" where
  "set_wf s \<longleftrightarrow> sorted_wrt (<) s"

lemma map_of_map_set [simp]: "map_of (map_set k v m) = (map_of m)(k \<mapsto> v)"
  by (induction k v m rule: map_set.induct) (auto simp: fun_upd_twist)

lemma map_set_map_set [simp]: "map_set k v (map_set k w m) = map_set k v m"
  by (induction k w m rule: map_set.induct) auto

lemma map_erase_map_erase [simp]: "map_erase k (map_erase k m) = map_erase k m"
  by (simp add: map_erase_def)

lemma map_of_map_erase [simp]: "map_of (map_erase k m) = (map_of m)(k := None)"
  by (induction m) (auto simp: map_erase_def)

lemma fst_set_map_set [simp]: "fst ` set (map_set k v m) = insert k (fst ` set m)"
  by (induction k v m rule: map_set.induct) auto

lemma fst_set_map_erase [simp]: "fst ` set (map_erase k m) = fst ` set m - {k}"
  by (auto simp: map_erase_def)

lemma map_wf_Nil [simp]: "map_wf []"
  by (simp add: map_wf_def)

lemma map_wf_Cons: "map_wf (p # m) \<longleftrightarrow> (\<forall>q\<in>set m. fst p < fst q) \<and> map_wf m"
  by (simp add: map_wf_def)

lemma map_wf_map_set [wf_rules]: "map_wf m \<Longrightarrow> map_wf (map_set k v m)"
proof (induction k v m rule: map_set.induct)
  case (2 k v k' v' m)
  have "\<forall>q\<in>set (map_set k v m). k' < fst q" if "k' < k"
  proof -
    have "\<forall>x\<in>fst ` set (map_set k v m). k' < x"
      using 2(2) that by (auto simp: map_wf_Cons)
    then show ?thesis by blast
  qed
  with 2 show ?case by (auto simp: map_wf_Cons)
qed (simp add: map_wf_def)

lemma map_wf_map_erase [wf_rules]: "map_wf m \<Longrightarrow> map_wf (map_erase k m)"
  by (induction m) (auto simp: map_wf_Cons map_erase_def)

lemma map_wf_distinct: "map_wf m \<Longrightarrow> distinct (map fst m)"
  unfolding map_wf_def by (rule sorted_less_distinct)

lemma set_set_insert [simp]: "set (set_insert x s) = insert x (set s)"
  by (induction x s rule: set_insert.induct) auto

lemma set_set_erase [simp]: "set (set_erase x s) = set s - {x}"
  by (auto simp: set_erase_def)

lemma set_wf_Nil [simp]: "set_wf []"
  by (simp add: set_wf_def)

lemma set_wf_set_insert [wf_rules]: "set_wf s \<Longrightarrow> set_wf (set_insert x s)"
  unfolding set_wf_def by (induction x s rule: set_insert.induct) auto

lemma set_wf_set_erase [wf_rules]: "set_wf s \<Longrightarrow> set_wf (set_erase x s)"
  unfolding set_wf_def set_erase_def by (rule sorted_wrt_less_filter)

lemma set_wf_filter [wf_rules]: "set_wf s \<Longrightarrow> set_wf (filter P s)"
  unfolding set_wf_def by (rule sorted_wrt_less_filter)

lemma set_insert_not_Nil [simp]: "set_insert x s \<noteq> []"
  by (cases s) auto

lemma map_set_not_Nil [simp]: "map_set k v m \<noteq> []"
  by (induction k v m rule: map_set.induct) auto

lemma set_wf_unique: "set_wf s \<Longrightarrow> set_wf t \<Longrightarrow> set s = set t \<Longrightarrow> s = t"
  unfolding set_wf_def by (rule sorted_less_unique)

text \<open>
  The contract of a dictionary: what a lookup gives after an assignment, and the invariant
  every operation keeps. Clients that only fill a dictionary and look names up rely on this
  much; the ordered map of \<open>std::map\<close> adds removal and iteration in key order.
\<close>

locale dictionary =
  fixes empty :: 'm
    and find :: "'m \<Rightarrow> 'k \<Rightarrow> 'v option"
    and assign :: "'k \<Rightarrow> 'v \<Rightarrow> 'm \<Rightarrow> 'm"
    and invar :: "'m \<Rightarrow> bool"
  assumes find_empty: "find empty k = None"
    and find_assign: "invar m \<Longrightarrow> find (assign k v m) = (find m)(k \<mapsto> v)"
    and invar_empty: "invar empty"
    and invar_assign: "invar m \<Longrightarrow> invar (assign k v m)"
begin

lemma invar_assign_all: "invar m \<Longrightarrow> invar (fold (\<lambda>(k, v). assign k v) kvs m)"
  by (induction kvs arbitrary: m) (auto simp: invar_assign)

lemma find_assign_all:
  "invar m \<Longrightarrow> find (fold (\<lambda>(k, v). assign k v) kvs m) = find m ++ map_of (rev kvs)"
proof (induction kvs arbitrary: m)
  case (Cons kv kvs)
  obtain k v where kv: "kv = (k, v)" by fastforce
  have "find (fold (\<lambda>(k, v). assign k v) kvs (assign k v m)) = (find m)(k \<mapsto> v) ++ map_of (rev kvs)"
    using Cons.IH [of "assign k v m"] Cons.prems by (simp only: invar_assign find_assign)
  also have "\<dots> = find m ++ map_of (rev ((k, v) # kvs))"
    by (rule ext) (simp add: map_add_def map_of_append split: option.split)
  finally show ?case by (simp add: kv)
qed simp

lemma last_assignment_wins:
  "invar m \<Longrightarrow> k \<notin> fst ` set kvs' \<Longrightarrow>
   find (fold (\<lambda>(k, v). assign k v) (kvs @ (k, v) # kvs') m) k = Some v"
proof -
  assume "invar m" and "k \<notin> fst ` set kvs'"
  then have "map_of (rev kvs') k = None" by (simp add: map_of_eq_None_iff)
  with \<open>invar m\<close> show ?thesis
    by (simp add: find_assign_all [of _ "kvs @ (k, v) # kvs'"] map_add_def map_of_append
        del: fold_append fold.simps)
qed

end

locale ordered_map = dictionary empty find assign invar
  for empty :: 'm
    and find :: "'m \<Rightarrow> 'k::linorder \<Rightarrow> 'v option"
    and assign :: "'k \<Rightarrow> 'v \<Rightarrow> 'm \<Rightarrow> 'm"
    and invar :: "'m \<Rightarrow> bool" +
  fixes erase :: "'k \<Rightarrow> 'm \<Rightarrow> 'm"
    and entries :: "'m \<Rightarrow> ('k \<times> 'v) list"
  assumes find_erase: "invar m \<Longrightarrow> find (erase k m) = (find m)(k := None)"
    and invar_erase: "invar m \<Longrightarrow> invar (erase k m)"
    and entries_find: "invar m \<Longrightarrow> map_of (entries m) = find m"
    and entries_sorted: "invar m \<Longrightarrow> sorted_wrt (<) (map fst (entries m))"
    and entries_inj: "entries m = entries m' \<Longrightarrow> m = m'"
begin

lemma find_iff_entry: "invar m \<Longrightarrow> find m k = Some v \<longleftrightarrow> (k, v) \<in> set (entries m)"
  using entries_find entries_sorted
  by (metis map_of_eq_Some_iff sorted_less_distinct)

lemma map_ext:
  assumes "invar m" "invar m'" "find m = find m'"
  shows "m = m'"
proof (rule entries_inj)
  show "entries m = entries m'"
    by (rule sorted_assoc_unique) (simp_all add: assms entries_find entries_sorted)
qed

lemma assign_assign: "invar m \<Longrightarrow> assign k v (assign k w m) = assign k v m"
  by (rule map_ext) (simp_all add: invar_assign find_assign)

lemma erase_assign: "invar m \<Longrightarrow> erase k (assign k v m) = erase k m"
  by (rule map_ext) (simp_all add: invar_assign invar_erase find_assign find_erase)

lemma assign_erase: "invar m \<Longrightarrow> assign k v (erase k m) = assign k v m"
  by (rule map_ext) (simp_all add: invar_assign invar_erase find_assign find_erase)

end

interpretation std_map: ordered_map "[]" map_of map_set map_wf map_erase "\<lambda>m. m"
  by unfold_locales (simp_all add: map_wf_map_set map_wf_map_erase, simp add: map_wf_def)

end
