(* ===== verification/Afl_String.thy ===== *)
theory Afl_String
  imports Afl_Prelude
begin

text \<open>
  Characters and strings: the inline functions of afl/string/char.hpp, the functions of
  afl/string/string.cpp, and the hex digits of afl/string/hex.cpp. A loop that moves an
  index while a condition on the character holds is \<open>scanWhile\<close> (forwards) or
  \<open>scanBack\<close> (backwards); \<open>std::string::find\<close> is \<open>str_find\<close>.
\<close>

section \<open>Characters\<close>

definition charIsUpper :: "char \<Rightarrow> bool" where
  "charIsUpper ch \<longleftrightarrow> CHR ''A'' \<le> ch \<and> ch \<le> CHR ''Z''"

definition charIsLower :: "char \<Rightarrow> bool" where
  "charIsLower ch \<longleftrightarrow> CHR ''a'' \<le> ch \<and> ch \<le> CHR ''z''"

definition charToUpper :: "char \<Rightarrow> char" where
  "charToUpper ch = (if charIsLower ch then char_of (of_char ch - 0x20 :: nat) else ch)"

definition charToLower :: "char \<Rightarrow> char" where
  "charToLower ch = (if charIsUpper ch then char_of (of_char ch + 0x20 :: nat) else ch)"

definition charIsSpace :: "char \<Rightarrow> bool" where
  "charIsSpace ch \<longleftrightarrow> ch = CHR '' '' \<or> ch = CHR 0x09 \<or> ch = CHR 0x0D \<or> ch = CHR 0x0A"

definition charIsDigit :: "char \<Rightarrow> bool" where
  "charIsDigit ch \<longleftrightarrow> CHR ''0'' \<le> ch \<and> ch \<le> CHR ''9''"

definition charIsAlphanumeric :: "char \<Rightarrow> bool" where
  "charIsAlphanumeric ch \<longleftrightarrow> charIsUpper ch \<or> charIsLower ch \<or> charIsDigit ch"

text \<open>A \<open>char\<close> promoted to \<open>int\<close>; \<open>char\<close> is signed.\<close>

definition char_int :: "char \<Rightarrow> int" where
  "char_int ch = (if of_char ch < (128::int) then of_char ch else of_char ch - 256)"

section \<open>Scanning\<close>

definition scanWhile :: "(char \<Rightarrow> bool) \<Rightarrow> string \<Rightarrow> nat \<Rightarrow> nat" where
  "scanWhile P s k = k + length (takeWhile P (drop k s))"

fun scanBack :: "(char \<Rightarrow> bool) \<Rightarrow> string \<Rightarrow> nat \<Rightarrow> nat" where
  "scanBack P s 0 = 0"
| "scanBack P s (Suc n) = (if P (s ! n) then scanBack P s n else Suc n)"

definition substr :: "string \<Rightarrow> nat \<Rightarrow> nat \<Rightarrow> string" where
  "substr s pos len = take len (drop pos s)"

fun is_prefix :: "'a list \<Rightarrow> 'a list \<Rightarrow> bool" where
  "is_prefix [] ys = True"
| "is_prefix (x # xs) [] = False"
| "is_prefix (x # xs) (y # ys) = (x = y \<and> is_prefix xs ys)"

fun str_find :: "string \<Rightarrow> string \<Rightarrow> nat option" where
  "str_find [] sep = (if sep = [] then Some 0 else None)"
| "str_find (c # s) sep =
     (if is_prefix sep (c # s) then Some 0 else map_option Suc (str_find s sep))"

section \<open>Comparison\<close>

fun caseDiff :: "(char \<times> char) list \<Rightarrow> int" where
  "caseDiff [] = 0"
| "caseDiff ((ca, cb) # rest) =
     (if ca \<noteq> cb then
        (let diff = char_int (charToUpper ca) - char_int (charToUpper cb)
         in if diff \<noteq> 0 then diff else caseDiff rest)
      else caseDiff rest)"

definition strCaseCompare :: "string \<Rightarrow> string \<Rightarrow> int" where
  "strCaseCompare a b =
     (let commonLength = min (length a) (length b);
          diff = caseDiff (zip (take commonLength a) (take commonLength b))
      in if diff \<noteq> 0 then diff
         else if length a < length b then -1
         else if length a = length b then 0
         else 1)"

section \<open>Trimming and splitting\<close>

definition strRTrim :: "string \<Rightarrow> string" where
  "strRTrim s = substr s 0 (scanBack charIsSpace s (length s))"

definition strLTrim :: "string \<Rightarrow> string" where
  "strLTrim s = drop (scanWhile charIsSpace s 0) s"

definition strTrim :: "string \<Rightarrow> string" where
  "strTrim s = strLTrim (strRTrim s)"

definition strFirst :: "string \<Rightarrow> string \<Rightarrow> string" where
  "strFirst str sep = (case str_find str sep of None \<Rightarrow> str | Some n \<Rightarrow> substr str 0 n)"

definition strRemove :: "string \<Rightarrow> string \<Rightarrow> bool \<times> string" where
  "strRemove str sep =
     (case str_find str sep of None \<Rightarrow> (False, str) | Some n \<Rightarrow> (True, drop (n + length sep) str))"

definition strSplit :: "string \<Rightarrow> string \<Rightarrow> string \<Rightarrow> string \<Rightarrow> bool \<times> string \<times> string" where
  "strSplit str lhs rhs sep =
     (case str_find str sep of
        None \<Rightarrow> (False, lhs, rhs)
      | Some n \<Rightarrow> (True, substr str 0 n, drop (n + length sep) str))"

section \<open>Case conversion\<close>

definition strLCase :: "string \<Rightarrow> string" where
  "strLCase s = map charToLower s"

definition strUCase :: "string \<Rightarrow> string" where
  "strUCase s = map charToUpper s"

fun ucFirst :: "bool \<Rightarrow> string \<Rightarrow> string" where
  "ucFirst uc [] = []"
| "ucFirst uc (c # s) =
     (if charIsSpace c \<or> c = CHR ''-'' then c # ucFirst True s
      else (if uc then charToUpper c else charToLower c) # ucFirst False s)"

definition strUCFirst :: "string \<Rightarrow> string" where
  "strUCFirst s = ucFirst True s"

fun lcWords :: "bool \<Rightarrow> string \<Rightarrow> string" where
  "lcWords uc [] = []"
| "lcWords uc (c # s) =
     (if charIsSpace c \<or> c = CHR ''-'' then c # lcWords True s
      else (if \<not> uc then charToLower c else c) # lcWords False s)"

definition strLCWords :: "string \<Rightarrow> string" where
  "strLCWords s = lcWords True s"

section \<open>Words\<close>

fun skipWords :: "string \<Rightarrow> nat \<Rightarrow> nat \<Rightarrow> nat" where
  "skipWords s 0 k = k"
| "skipWords s (Suc i) k =
     skipWords s i (scanWhile charIsSpace s (scanWhile (\<lambda>c. \<not> charIsSpace c) s k))"

definition strNthWordStart :: "string \<Rightarrow> nat \<Rightarrow> nat" where
  "strNthWordStart s i = skipWords s i (scanWhile charIsSpace s 0)"

definition strNthWord :: "string \<Rightarrow> nat \<Rightarrow> string" where
  "strNthWord s i =
     (let k = strNthWordStart s i; j = scanWhile (\<lambda>c. \<not> charIsSpace c) s k
      in substr s k (j - k))"

definition strNthWordRest :: "string \<Rightarrow> nat \<Rightarrow> string" where
  "strNthWordRest s i = drop (strNthWordStart s i) s"

section \<open>Hex digits\<close>

definition HEX_DIGITS_UPPER :: string where "HEX_DIGITS_UPPER = ''0123456789ABCDEF''"
definition HEX_DIGITS_LOWER :: string where "HEX_DIGITS_LOWER = ''0123456789abcdef''"

definition getHexDigitValue :: "char \<Rightarrow> int" where
  "getHexDigitValue c =
     (if CHR ''0'' \<le> c \<and> c \<le> CHR ''9'' then of_char c - of_char CHR ''0''
      else if CHR ''A'' \<le> c \<and> c \<le> CHR ''F'' then of_char c - of_char CHR ''A'' + 10
      else if CHR ''a'' \<le> c \<and> c \<le> CHR ''f'' then of_char c - of_char CHR ''a'' + 10
      else -1)"

definition putHexByte :: "string \<Rightarrow> octet \<Rightarrow> string \<Rightarrow> string" where
  "putHexByte s b digits = s @ [digits ! (of_char b div 16 mod 16), digits ! (of_char b mod 16)]"

text \<open>The words of a string, as a reference for \<open>strNthWord\<close>.\<close>

function words :: "string \<Rightarrow> string list" where
  "words s =
     (let t = dropWhile charIsSpace s
      in if t = [] then []
         else takeWhile (\<lambda>c. \<not> charIsSpace c) t # words (dropWhile (\<lambda>c. \<not> charIsSpace c) t))"
  by pat_completeness auto
termination
proof (relation "measure length", simp)
  fix s t :: string
  assume "t = dropWhile charIsSpace s" and "t \<noteq> []"
  then have "\<not> charIsSpace (hd t)" "length t \<le> length s"
    by (auto simp: hd_dropWhile length_dropWhile_le)
  moreover have "length (dropWhile (\<lambda>c. \<not> charIsSpace c) (tl t)) \<le> length (tl t)"
    by (rule length_dropWhile_le)
  ultimately show "(dropWhile (\<lambda>c. \<not> charIsSpace c) t, s) \<in> measure length"
    using \<open>t \<noteq> []\<close> by (cases t) auto
qed

declare words.simps [simp del]

section \<open>Characters: facts\<close>

lemma of_char_int [simp]: "(0::int) \<le> of_char c" "(of_char c :: int) < 256"
proof -
  have "(of_char c :: int) = int (of_char c)" by (simp add: of_nat_of_char)
  moreover have "(of_char c :: nat) < 256" by simp
  ultimately show "(0::int) \<le> of_char c" "(of_char c :: int) < 256" by linarith+
qed

lemma char_eq_nat: "c = d \<longleftrightarrow> (of_char c :: nat) = of_char d"
  by simp

lemma char_int_inj: "char_int a = char_int b \<longleftrightarrow> a = b"
proof
  assume eq: "char_int a = char_int b"
  have "(of_char a :: int) < 256" "(of_char b :: int) < 256"
       "(0::int) \<le> of_char a" "(0::int) \<le> of_char b" by simp_all
  with eq have "(of_char a :: int) = of_char b"
    unfolding char_int_def by (simp only: split: if_splits)
  then show "a = b" by simp
qed simp

section \<open>Scanning and searching: facts\<close>

lemma is_prefix_iff: "is_prefix xs ys \<longleftrightarrow> take (length xs) ys = xs"
  by (induction xs ys rule: is_prefix.induct) auto

lemma is_prefix_append: "is_prefix xs ys \<Longrightarrow> ys = xs @ drop (length xs) ys"
  by (metis append_take_drop_id is_prefix_iff)

lemma str_find_Some:
  "str_find s sep = Some n \<Longrightarrow>
     s = take n s @ sep @ drop (n + length sep) s \<and> n + length sep \<le> length s \<and>
     (\<forall>m<n. \<not> is_prefix sep (drop m s))"
proof (induction s arbitrary: n)
  case Nil
  then show ?case by (simp split: if_splits)
next
  case (Cons c s)
  show ?case
  proof (cases "is_prefix sep (c # s)")
    case True
    with Cons.prems have "n = 0" by simp
    moreover have "take (length sep) (c # s) = sep" using True by (simp add: is_prefix_iff)
    moreover from this have "length sep \<le> length (c # s)" by (metis nat_le_linear take_all)
    ultimately show ?thesis by (metis add_0 append_Nil append_take_drop_id not_less_zero take_0)
  next
    case False
    with Cons.prems obtain k where "str_find s sep = Some k" "n = Suc k" by auto
    with Cons.IH [of k] False show ?thesis by (auto simp: less_Suc_eq_0_disj)
  qed
qed

lemma str_find_None: "str_find s sep = None \<Longrightarrow> \<not> is_prefix sep (drop m s)"
proof (induction s arbitrary: m)
  case Nil
  then show ?case by (cases sep) auto
next
  case (Cons c s)
  then show ?case by (cases m) (auto split: if_splits)
qed

lemma scanBack_le: "scanBack P s n \<le> n"
  by (induction n) (auto simp: le_Suc_eq)

lemma scanBack_skipped: "scanBack P s n \<le> i \<Longrightarrow> i < n \<Longrightarrow> P (s ! i)"
  by (induction n) (auto simp: less_Suc_eq split: if_splits)

lemma scanBack_stop: "scanBack P s n = Suc i \<Longrightarrow> \<not> P (s ! i)"
  by (induction n) (auto split: if_splits)

lemma strLTrim_dropWhile: "strLTrim s = dropWhile charIsSpace s"
  by (simp add: strLTrim_def scanWhile_def dropWhile_eq_drop)

lemma strRTrim_split:
  obtains q where "s = strRTrim s @ q" "\<forall>c\<in>set q. charIsSpace c"
    "strRTrim s \<noteq> [] \<Longrightarrow> \<not> charIsSpace (last (strRTrim s))"
proof
  let ?n = "scanBack charIsSpace s (length s)"
  have le: "?n \<le> length s" by (rule scanBack_le)
  show "s = strRTrim s @ drop ?n s" by (simp add: strRTrim_def substr_def)
  show "\<forall>c\<in>set (drop ?n s). charIsSpace c"
  proof
    fix c assume "c \<in> set (drop ?n s)"
    then obtain i where i: "i < length (drop ?n s)" "drop ?n s ! i = c"
      by (metis in_set_conv_nth)
    then have "s ! (?n + i) = c" "?n + i < length s" using le by auto
    with scanBack_skipped [of charIsSpace s "length s" "?n + i"] show "charIsSpace c" by simp
  qed
  show "\<not> charIsSpace (last (strRTrim s))" if ne: "strRTrim s \<noteq> []"
  proof -
    from ne obtain i where i: "?n = Suc i" by (cases ?n) (auto simp: strRTrim_def substr_def)
    then have "last (strRTrim s) = s ! i" using le
      by (auto simp: strRTrim_def substr_def take_Suc_conv_app_nth)
    with scanBack_stop [OF i] show ?thesis by simp
  qed
qed

section \<open>Words: facts\<close>

lemma drop_scanWhile: "drop (scanWhile P s k) s = dropWhile P (drop k s)"
  by (simp add: scanWhile_def dropWhile_eq_drop add.commute)

lemma strNthWord_takeWhile:
  "strNthWord s i = takeWhile (\<lambda>c. \<not> charIsSpace c) (strNthWordRest s i)"
  by (simp add: strNthWord_def strNthWordRest_def Let_def scanWhile_def substr_def takeWhile_eq_take [symmetric])

lemma words_unfold:
  "words s = (case dropWhile charIsSpace s of [] \<Rightarrow> []
     | c # t \<Rightarrow> takeWhile (\<lambda>c. \<not> charIsSpace c) (c # t) # words (dropWhile (\<lambda>c. \<not> charIsSpace c) (c # t)))"
  by (subst words.simps) (simp only: Let_def split: list.split, simp)

lemma words_Nil [simp]: "words [] = []"
  by (simp add: words_unfold [of "[]"])

lemma drop_skipWords:
  "drop k s = dropWhile charIsSpace t \<Longrightarrow>
   \<exists>u. drop (skipWords s i k) s = dropWhile charIsSpace u \<and> words u = drop i (words t)"
proof (induction s i k arbitrary: t rule: skipWords.induct)
  case (1 s k)
  then show ?case by auto
next
  case (2 s i k)
  let ?w = "dropWhile charIsSpace t"
  let ?u = "dropWhile (\<lambda>c. \<not> charIsSpace c) ?w"
  let ?k = "scanWhile charIsSpace s (scanWhile (\<lambda>c. \<not> charIsSpace c) s k)"
  have "drop ?k s = dropWhile charIsSpace ?u"
    by (simp add: drop_scanWhile 2(2))
  from 2(1) [OF this] obtain u where
    "drop (skipWords s i ?k) s = dropWhile charIsSpace u" "words u = drop i (words ?u)" by blast
  moreover have "words ?u = drop 1 (words t)"
    by (cases ?w) (simp_all add: words_unfold [of t] del: dropWhile_eq_Nil_conv)
  ultimately show ?case by auto
qed

lemma strNthWordRest_words:
  "\<exists>u. strNthWordRest s i = dropWhile charIsSpace u \<and> words u = drop i (words s)"
  using drop_skipWords [of "scanWhile charIsSpace s 0" s s i]
  by (simp add: strNthWordRest_def strNthWordStart_def drop_scanWhile)

section \<open>Comparison: facts\<close>

lemma append_less_append:
  fixes a b c d :: "'a::linorder list"
  shows "length a = length b \<Longrightarrow> a @ c < b @ d \<longleftrightarrow> a < b \<or> a = b \<and> c < d"
  by (induction a b rule: list_induct2) auto

lemma caseDiff_sgn:
  "length a = length b \<Longrightarrow>
     (caseDiff (zip a b) = 0 \<longleftrightarrow> strUCase a = strUCase b) \<and>
     (caseDiff (zip a b) < 0 \<longleftrightarrow> map char_int (strUCase a) < map char_int (strUCase b))"
  by (induction a b rule: list_induct2) (auto simp: strUCase_def char_int_inj)

section \<open>Properties\<close>

text \<open>strSplit cuts the string at the first occurrence of the separator: on success the
  two parts and the separator make up the string and the separator does not start at any
  earlier position; on failure the separator occurs nowhere and both outputs are untouched.\<close>

theorem strSplit_first_occurrence:
  assumes "strSplit str lhs rhs sep = (found, a, b)"
  shows "if found then str = a @ sep @ b \<and> (\<forall>m < length a. \<not> is_prefix sep (drop m str))
         else a = lhs \<and> b = rhs \<and> (\<forall>m. \<not> is_prefix sep (drop m str))"
proof (cases "str_find str sep")
  case None
  with assms str_find_None [OF None] show ?thesis by (auto simp: strSplit_def)
next
  case (Some n)
  from str_find_Some [OF Some] have n: "str = take n str @ sep @ drop (n + length sep) str"
    "length (take n str) = n" "\<forall>m<n. \<not> is_prefix sep (drop m str)" by simp_all
  from Some assms have "found" "a = take n str" "b = drop (n + length sep) str"
    by (simp_all add: strSplit_def substr_def)
  with n show ?thesis by metis
qed

theorem strSplit_first_occurrence_witness:
  "''k=v=w'' = ''k'' @ ''='' @ ''v=w'' \<and> \<not> is_prefix ''='' (drop 0 ''k=v=w'')"
  using strSplit_first_occurrence [of "''k=v=w''" "[]" "[]" "''=''" True "''k''" "''v=w''"]
  by (simp add: strSplit_def substr_def)

text \<open>strTrim removes exactly the surrounding whitespace: the string is its trimmed form
  between two runs of whitespace, and a non-empty trimmed form starts and ends with a
  character that is not whitespace.\<close>

theorem strTrim_correct:
  "\<exists>p q. s = p @ strTrim s @ q \<and> list_all charIsSpace p \<and> list_all charIsSpace q \<and>
     (strTrim s = [] \<or> (\<not> charIsSpace (hd (strTrim s)) \<and> \<not> charIsSpace (last (strTrim s))))"
proof -
  obtain q where q: "s = strRTrim s @ q" "\<forall>c\<in>set q. charIsSpace c"
    and last: "strRTrim s \<noteq> [] \<Longrightarrow> \<not> charIsSpace (last (strRTrim s))"
    using strRTrim_split [of s] by blast
  let ?r = "strRTrim s"
  let ?p = "takeWhile charIsSpace ?r"
  have trim: "strTrim s = dropWhile charIsSpace ?r" by (simp add: strTrim_def strLTrim_dropWhile)
  have "s = ?p @ strTrim s @ q" using q(1) by (simp add: trim flip: append_assoc)
  moreover have "list_all charIsSpace ?p" by (auto simp: list_all_iff dest: set_takeWhileD)
  moreover have "list_all charIsSpace q" using q(2) by (simp add: list_all_iff)
  moreover have "\<not> charIsSpace (hd (strTrim s)) \<and> \<not> charIsSpace (last (strTrim s))"
    if "strTrim s \<noteq> []"
  proof -
    from that have "last (strTrim s) = last ?r" "?r \<noteq> []"
      unfolding trim by (metis last_append takeWhile_dropWhile_id, auto)
    with that last show ?thesis by (simp add: hd_dropWhile trim)
  qed
  ultimately show ?thesis by metis
qed

text \<open>strNthWord gives the i-th maximal run of non-whitespace characters of the string,
  and the empty string when there are fewer words.\<close>

theorem strNthWord_words:
  "strNthWord s i = (if i < length (words s) then words s ! i else [])"
proof -
  obtain u where u: "strNthWordRest s i = dropWhile charIsSpace u" "words u = drop i (words s)"
    using strNthWordRest_words by blast
  have "strNthWord s i = takeWhile (\<lambda>c. \<not> charIsSpace c) (dropWhile charIsSpace u)"
    by (simp add: strNthWord_takeWhile u(1))
  also have "\<dots> = (case words u of [] \<Rightarrow> [] | w # _ \<Rightarrow> w)"
    by (cases "dropWhile charIsSpace u")
      (simp_all add: words_unfold [of u] del: dropWhile_eq_Nil_conv)
  also have "\<dots> = (if i < length (words s) then words s ! i else [])"
    unfolding u(2) by (cases "i < length (words s)") (simp_all add: Cons_nth_drop_Suc [symmetric])
  finally show ?thesis .
qed

lemma strCaseCompare_spec:
  "(strCaseCompare a b = 0 \<longleftrightarrow> strUCase a = strUCase b) \<and>
   (strCaseCompare a b < 0 \<longleftrightarrow> map char_int (strUCase a) < map char_int (strUCase b))"
proof -
  let ?n = "min (length a) (length b)"
  let ?f = "\<lambda>s. map char_int (strUCase s)"
  have inj: "strUCase s = strUCase t \<longleftrightarrow> ?f s = ?f t" for s t
    by (simp add: inj_map_eq_map [of char_int] inj_def char_int_inj)
  have split: "?f a = ?f (take ?n a) @ ?f (drop ?n a)" "?f b = ?f (take ?n b) @ ?f (drop ?n b)"
    by (simp_all add: strUCase_def flip: map_append)
  have len: "length (?f (take ?n a)) = length (?f (take ?n b))" by (simp add: strUCase_def)
  have less: "?f a < ?f b \<longleftrightarrow> ?f (take ?n a) < ?f (take ?n b) \<or>
      ?f (take ?n a) = ?f (take ?n b) \<and> ?f (drop ?n a) < ?f (drop ?n b)"
    using append_less_append [OF len, of "?f (drop ?n a)" "?f (drop ?n b)"]
    by (simp only: split [symmetric])
  have eq: "?f a = ?f b \<longleftrightarrow> ?f (take ?n a) = ?f (take ?n b) \<and> ?f (drop ?n a) = ?f (drop ?n b)"
    using append_eq_append_conv [OF disjI1 [OF len], of "?f (drop ?n a)" "?f (drop ?n b)"]
    by (simp only: split [symmetric])
  let ?d = "caseDiff (zip (take ?n a) (take ?n b))"
  have d: "?d = 0 \<longleftrightarrow> ?f (take ?n a) = ?f (take ?n b)" "?d < 0 \<longleftrightarrow> ?f (take ?n a) < ?f (take ?n b)"
    using caseDiff_sgn [of "take ?n a" "take ?n b"] by (simp_all add: inj)
  show ?thesis
  proof (cases "?d = 0")
    case False
    then have "strCaseCompare a b = ?d" by (simp add: strCaseCompare_def Let_def)
    with False d less eq show ?thesis by (simp add: inj)
  next
    case True
    consider "length a < length b" | "length a = length b" | "length a > length b" by linarith
    then have "?f (drop ?n a) < ?f (drop ?n b) \<longleftrightarrow> length a < length b"
      by cases (auto simp: strUCase_def neq_Nil_conv [symmetric] list_less_def)
    moreover have "?f (drop ?n a) = ?f (drop ?n b) \<longleftrightarrow> length a = length b"
      by (auto simp: strUCase_def dest: arg_cong [where f = length])
    moreover note True d less eq
    ultimately show ?thesis by (simp add: strCaseCompare_def Let_def inj)
  qed
qed

text \<open>strCaseCompare orders strings like the lexicographic order of their upper-cased
  characters: its result is zero exactly for strings equal up to ASCII case, and negative
  exactly when the first string comes first in that order.\<close>

theorem strCaseCompare_order:
  "(strCaseCompare a b = 0 \<longleftrightarrow> strUCase a = strUCase b) \<and>
   (strCaseCompare a b < 0 \<longleftrightarrow> map char_int (strUCase a) < map char_int (strUCase b))"
  by (rule strCaseCompare_spec)

end
