(* ===== verification/Afl_Parse.thy ===== *)
theory Afl_Parse
  imports Afl_String
begin

text \<open>
  Integer parsing: afl/string/parse.cpp and the templates of afl/string/parse.hpp.
  \<open>std::strtol\<close>, \<open>std::strtoul\<close> and \<open>strtoll\<close> of the C library are \<open>c_strtol\<close> and
  \<open>c_strtoul\<close> (with \<open>long\<close> and \<open>long long\<close> of 64 bits, \<open>isspace\<close> of the "C" locale);
  they give the value, the number of characters consumed and whether \<open>errno\<close> becomes
  \<open>ERANGE\<close>. The library's own replacements for compilers without \<open>strtoll\<close> are
  \<open>own_strtoll\<close> and \<open>own_strtoull\<close>. A parse gives \<open>Inr\<close> of the value, or \<open>Inl\<close> of the
  position that the code reports for an invalid string.
\<close>

section \<open>The C library\<close>

text \<open>The characters \<open>c_str()\<close> shows to the C library: up to the first null character.\<close>

definition c_str :: "string \<Rightarrow> string" where
  "c_str s = takeWhile (\<lambda>c. c \<noteq> CHR 0x00) s"

definition c_isspace :: "char \<Rightarrow> bool" where
  "c_isspace c \<longleftrightarrow> c = CHR '' '' \<or> (9 \<le> (of_char c :: nat) \<and> of_char c \<le> (13 :: nat))"

definition dec_value :: "string \<Rightarrow> nat" where
  "dec_value ds = foldl (\<lambda>n c. 10 * n + (of_char c - 48)) 0 ds"

definition LONG_MAX :: int where "LONG_MAX = 9223372036854775807"
definition LONG_MIN :: int where "LONG_MIN = - 9223372036854775808"
definition ULONG_MAX :: nat where "ULONG_MAX = 18446744073709551615"

text \<open>The sign and digits \<open>strtol\<close> recognises: whether there is a minus sign, the position
  of the first digit, and the end of the digits.\<close>

definition strto_subject :: "(char \<Rightarrow> bool) \<Rightarrow> string \<Rightarrow> bool \<times> nat \<times> nat" where
  "strto_subject space c =
     (let k = scanWhile space c 0;
          k' = (if k < length c \<and> (c ! k = CHR ''+'' \<or> c ! k = CHR ''-'') then k + 1 else k)
      in (k < length c \<and> c ! k = CHR ''-'', k', scanWhile charIsDigit c k'))"

definition c_strtol :: "string \<Rightarrow> int \<times> nat \<times> bool" where
  "c_strtol c =
     (case strto_subject c_isspace c of (neg, k, e) \<Rightarrow>
        if e = k then (0, 0, False)
        else (let v = int (dec_value (substr c k (e - k))); x = (if neg then - v else v)
              in if x < LONG_MIN then (LONG_MIN, e, True)
                 else if LONG_MAX < x then (LONG_MAX, e, True)
                 else (x, e, False)))"

definition c_strtoul :: "string \<Rightarrow> nat \<times> nat \<times> bool" where
  "c_strtoul c =
     (case strto_subject c_isspace c of (neg, k, e) \<Rightarrow>
        if e = k then (0, 0, False)
        else (let v = dec_value (substr c k (e - k))
              in if ULONG_MAX < v then (ULONG_MAX, e, True)
                 else (if neg then (size_mod - v) mod size_mod else v, e, False)))"

section \<open>Replacements for the C library\<close>

text \<open>\<open>readDigits\<close> on 64-bit unsigned values; \<open>None\<close> is the return value \<open>false\<close>.\<close>

fun readDigits_loop :: "string \<Rightarrow> nat \<Rightarrow> bool \<Rightarrow> (nat \<times> string) option" where
  "readDigits_loop [] value ok = (if ok then Some (value, []) else None)"
| "readDigits_loop (c # cs) value ok =
     (if CHR ''0'' \<le> c \<and> c \<le> CHR ''9'' then
        (let digit = of_char c - of_char CHR ''0''
         in if ULONG_MAX div 10 < value \<or> ULONG_MAX - 10 * value < digit then None
            else readDigits_loop cs ((10 * value + digit) mod size_mod) True)
      else if ok then Some (value, c # cs) else None)"

definition readDigits :: "string \<Rightarrow> (nat \<times> string) option" where
  "readDigits c = readDigits_loop c 0 False"

definition own_strtoull :: "string \<Rightarrow> nat \<times> nat \<times> bool" where
  "own_strtoull c =
     (let k = scanWhile charIsSpace c 0;
          k' = (if k < length c \<and> c ! k = CHR ''+'' then k + 1 else k)
      in case readDigits (drop k' c) of
           None \<Rightarrow> (0, 0, True)
         | Some (result, rest) \<Rightarrow> (result, length c - length rest, False))"

definition own_strtoll :: "string \<Rightarrow> int \<times> nat \<times> bool" where
  "own_strtoll c =
     (let k = scanWhile charIsSpace c 0;
          negative = (k < length c \<and> c ! k = CHR ''-'');
          k' = (if k < length c \<and> (c ! k = CHR ''+'' \<or> c ! k = CHR ''-'') then k + 1 else k);
          max = 2 ^ 63
      in case readDigits (drop k' c) of
           None \<Rightarrow> (0, 0, True)
         | Some (result, rest) \<Rightarrow>
             if negative then
               (if max < result then (0, 0, True) else (- int result, length c - length rest, False))
             else
               (if max \<le> result then (0, 0, True) else (int result, length c - length rest, False)))"

section \<open>Validation and entry points\<close>

text \<open>\<open>parsePostValidate\<close>: \<open>Inr ()\<close> is \<open>true\<close>, \<open>Inl pos\<close> is \<open>false\<close> with the position set.\<close>

definition parsePostValidate :: "bool \<Rightarrow> string \<Rightarrow> nat \<Rightarrow> bool \<Rightarrow> nat + unit" where
  "parsePostValidate erange c e refuseNegative =
     (if erange \<or> e = 0 then Inl 0
      else if refuseNegative \<and> CHR ''-'' \<in> set (take e c)
        then Inl (length (takeWhile (\<lambda>x. x \<noteq> CHR ''-'') (take e c)))
      else (let e' = scanWhile charIsSpace c e
            in if c = [] \<or> e' < length c then Inl e' else Inr ()))"

definition strToInteger_with :: "(string \<Rightarrow> 'v \<times> nat \<times> bool) \<Rightarrow> bool \<Rightarrow> string \<Rightarrow> nat + 'v" where
  "strToInteger_with conv refuseNegative str =
     (let c = c_str str
      in case conv c of (v, e, erange) \<Rightarrow>
           (case parsePostValidate erange c e refuseNegative of
              Inl pos \<Rightarrow> Inl pos
            | Inr _ \<Rightarrow> Inr v))"

definition strToInteger_long :: "string \<Rightarrow> nat + int" where
  "strToInteger_long = strToInteger_with c_strtol False"

definition strToInteger_ulong :: "string \<Rightarrow> nat + nat" where
  "strToInteger_ulong = strToInteger_with c_strtoul True"

text \<open>The \<open>long long\<close> overloads, with the library's own conversion functions.\<close>

definition strToInteger_longlong :: "string \<Rightarrow> nat + int" where
  "strToInteger_longlong = strToInteger_with own_strtoll False"

definition strToInteger_ulonglong :: "string \<Rightarrow> nat + nat" where
  "strToInteger_ulonglong = strToInteger_with own_strtoull True"

text \<open>The template for \<open>T = int32_t\<close>: parse as \<open>long\<close>, then check that the conversion to
  \<open>int32_t\<close> keeps the value. \<open>strToInteger\<close> is the form without position.\<close>

definition strToInteger_pos :: "string \<Rightarrow> nat + int" where
  "strToInteger_pos str =
     (case strToInteger_long str of
        Inl pos \<Rightarrow> Inl pos
      | Inr tmp \<Rightarrow> if to_int32 tmp \<noteq> tmp then Inl 0 else Inr (to_int32 tmp))"

definition strToInteger :: "string \<Rightarrow> int option" where
  "strToInteger str = (case strToInteger_pos str of Inl _ \<Rightarrow> None | Inr v \<Rightarrow> Some v)"

section \<open>Facts\<close>

lemma dec_value_snoc: "dec_value (ds @ [c]) = 10 * dec_value ds + (of_char c - 48)"
  by (simp add: dec_value_def)

lemma dec_value_Nil [simp]: "dec_value [] = 0"
  by (simp add: dec_value_def)

lemma foldl_dec: "foldl (\<lambda>n c. 10 * n + (of_char c - 48)) v ds = v * 10 ^ length ds + dec_value ds"
proof (induction ds rule: rev_induct)
  case (snoc c ds)
  then show ?case by (simp add: dec_value_snoc algebra_simps)
qed simp

lemma dec_value_append: "dec_value (as @ bs) = dec_value as * 10 ^ length bs + dec_value bs"
  using foldl_dec [of "dec_value as" bs] by (simp add: dec_value_def)

lemma dec_value_Cons: "dec_value (c # cs) = (of_char c - 48) * 10 ^ length cs + dec_value cs"
  using dec_value_append [of "[c]" cs] by (simp add: dec_value_def)

lemma charIsDigit_iff: "charIsDigit c \<longleftrightarrow> 48 \<le> (of_char c :: nat) \<and> of_char c \<le> (57 :: nat)"
  by (simp add: charIsDigit_def less_eq_char_def)

lemma strToInteger_range: "strToInteger s = Some v \<Longrightarrow> int32_ok v"
  by (auto simp: strToInteger_def strToInteger_pos_def to_int32_ok to_int32_eq_iff [symmetric]
      split: sum.splits if_splits)

text \<open>
  The overflow test of \<open>readDigits\<close> is exact: from an accumulated value within 64 bits it
  fails exactly when there is no digit, or when the whole number does not fit.
\<close>

lemma overflow_test:
  fixes v :: nat
  assumes "v < size_mod" "d \<le> 9"
  shows "(ULONG_MAX div 10 < v \<or> ULONG_MAX - 10 * v < d) \<longleftrightarrow> size_mod \<le> 10 * v + d"
  using assms by (simp add: ULONG_MAX_def size_mod_def) arith

lemma readDigits_loop_spec:
  assumes "v < size_mod"
  shows "readDigits_loop cs v ok =
    (let ds = takeWhile charIsDigit cs; n = v * 10 ^ length ds + dec_value ds
     in if (ds = [] \<and> \<not> ok) \<or> size_mod \<le> n then None else Some (n, dropWhile charIsDigit cs))"
  using assms
proof (induction cs v ok rule: readDigits_loop.induct)
  case (1 v ok)
  then show ?case by (simp add: not_le)
next
  case (2 c cs v ok)
  show ?case
  proof (cases "charIsDigit c")
    case False
    with 2(2) show ?thesis by (simp add: charIsDigit_def [symmetric] not_le)
  next
    case True
    let ?d = "of_char c - 48 :: nat"
    let ?ds = "takeWhile charIsDigit cs"
    have d: "?d \<le> 9" using True unfolding charIsDigit_iff by linarith
    have n: "v * 10 ^ length (c # ?ds) + dec_value (c # ?ds)
        = (10 * v + ?d) * 10 ^ length ?ds + dec_value ?ds"
      by (simp add: dec_value_Cons algebra_simps)
    show ?thesis
    proof (cases "size_mod \<le> 10 * v + ?d")
      case over: True
      have "10 * v + ?d \<le> (10 * v + ?d) * 10 ^ length ?ds" by simp
      with over have "size_mod \<le> (10 * v + ?d) * 10 ^ length ?ds + dec_value ?ds" by linarith
      with over n True overflow_test [OF 2(2) d] show ?thesis
        by (simp add: charIsDigit_def [symmetric] Let_def)
    next
      case fits: False
      with 2 n True overflow_test [OF 2(2) d] show ?thesis
        by (simp add: charIsDigit_def [symmetric] Let_def)
    qed
  qed
qed

lemma c_isspace_iff: "c_isspace c \<longleftrightarrow> charIsSpace c \<or> c = CHR 0x0B \<or> c = CHR 0x0C"
  unfolding c_isspace_def charIsSpace_def char_eq_nat by auto

lemma strto_subject_bounds:
  assumes "strto_subject space c = (neg, k, e)"
  shows "k \<le> length c" "e = k + length (takeWhile charIsDigit (drop k c))"
    "length c - length (dropWhile charIsDigit (drop k c)) = e"
proof -
  have "scanWhile space c 0 \<le> length c"
    by (simp add: scanWhile_def length_takeWhile_le)
  with assms show k: "k \<le> length c" and e: "e = k + length (takeWhile charIsDigit (drop k c))"
    by (auto simp: strto_subject_def Let_def scanWhile_def split: if_splits)
  have "length (takeWhile charIsDigit (drop k c)) \<le> length (drop k c)"
    by (rule length_takeWhile_le)
  with k e show "length c - length (dropWhile charIsDigit (drop k c)) = e"
    by (simp add: dropWhile_eq_drop)
qed

lemma own_strtoll_subject:
  "own_strtoll c =
     (case strto_subject charIsSpace c of (neg, k, e) \<Rightarrow>
        (let v = dec_value (substr c k (e - k))
         in if e = k \<or> size_mod \<le> v then (0, 0, True)
            else if neg then (if 2 ^ 63 < v then (0, 0, True) else (- int v, e, False))
            else (if 2 ^ 63 \<le> v then (0, 0, True) else (int v, e, False))))"
proof -
  obtain neg k e where subj: "strto_subject charIsSpace c = (neg, k, e)" by (metis prod_cases3)
  note b = strto_subject_bounds [OF subj]
  have ds: "substr c k (e - k) = takeWhile charIsDigit (drop k c)"
    "e = k \<longleftrightarrow> takeWhile charIsDigit (drop k c) = []"
    by (simp_all add: b(2) substr_def takeWhile_eq_take [symmetric])
  have k: "neg = (scanWhile charIsSpace c 0 < length c \<and> c ! scanWhile charIsSpace c 0 = CHR ''-'')"
    "k = (let k = scanWhile charIsSpace c 0 in
       if k < length c \<and> (c ! k = CHR ''+'' \<or> c ! k = CHR ''-'') then k + 1 else k)"
    using subj by (simp_all add: strto_subject_def Let_def)
  have rd: "readDigits (drop k c) = (if e = k \<or> size_mod \<le> dec_value (substr c k (e - k)) then None
      else Some (dec_value (substr c k (e - k)), dropWhile charIsDigit (drop k c)))"
    by (simp add: readDigits_def readDigits_loop_spec size_mod_def Let_def ds)
  have "own_strtoll c = (case readDigits (drop k c) of None \<Rightarrow> (0, 0, True)
     | Some (result, rest) \<Rightarrow>
         if neg then (if 2 ^ 63 < result then (0, 0, True) else (- int result, length c - length rest, False))
         else (if 2 ^ 63 \<le> result then (0, 0, True) else (int result, length c - length rest, False)))"
    by (simp only: own_strtoll_def Let_def k)
  then show ?thesis unfolding rd by (simp add: subj b(3) Let_def)
qed

section \<open>Properties\<close>

text \<open>the overflow test of readDigits is exact: it returns the value of the leading digits
  and the rest of the input when there is at least one digit and the value fits in 64 bits,
  and fails otherwise; the accumulator never wraps around.\<close>

theorem readDigits_exact:
  "readDigits s =
     (let ds = takeWhile charIsDigit s
      in if ds = [] \<or> 2 ^ 64 \<le> dec_value ds then None
         else Some (dec_value ds, dropWhile charIsDigit s))"
  by (simp add: readDigits_def readDigits_loop_spec size_mod_def Let_def)

text \<open>for input without vertical tabs and form feeds (which only the C library counts as
  whitespace), parsing with the library's own strtoll gives the same result as with the C
  library's, the reported position of an invalid string included.\<close>

theorem own_strtoll_equiv:
  assumes "CHR 0x0B \<notin> set str" "CHR 0x0C \<notin> set str"
  shows "strToInteger_longlong str = strToInteger_with c_strtol False str"
proof -
  define c where "c = c_str str"
  have "set c \<subseteq> set str" by (auto simp: c_def c_str_def dest: set_takeWhileD)
  with assms have "takeWhile c_isspace c = takeWhile charIsSpace c"
    by (intro takeWhile_cong) (auto simp: c_isspace_iff)
  then have space: "scanWhile c_isspace c 0 = scanWhile charIsSpace c 0"
    by (simp add: scanWhile_def)
  then have subj: "strto_subject c_isspace c = strto_subject charIsSpace c"
    by (simp add: strto_subject_def)
  obtain neg k e where se: "strto_subject charIsSpace c = (neg, k, e)" by (metis prod_cases3)
  have validate: "(case conv of (v, e, erange) \<Rightarrow>
      case parsePostValidate erange c e False of Inl pos \<Rightarrow> Inl pos | Inr _ \<Rightarrow> Inr v) = Inl 0"
    if "snd (snd conv) \<or> fst (snd conv) = 0" for conv :: "int \<times> nat \<times> bool"
    using that by (cases conv) (auto simp: parsePostValidate_def)
  have "strToInteger_longlong str = (case own_strtoll c of (v, e, erange) \<Rightarrow>
      case parsePostValidate erange c e False of Inl pos \<Rightarrow> Inl pos | Inr _ \<Rightarrow> Inr v)"
    by (simp add: strToInteger_longlong_def strToInteger_with_def c_def Let_def)
  also have "\<dots> = (case c_strtol c of (v, e, erange) \<Rightarrow>
      case parsePostValidate erange c e False of Inl pos \<Rightarrow> Inl pos | Inr _ \<Rightarrow> Inr v)"
  proof (cases "own_strtoll c = c_strtol c")
    case False
    then have "snd (snd (own_strtoll c)) \<or> fst (snd (own_strtoll c)) = 0"
      "snd (snd (c_strtol c)) \<or> fst (snd (c_strtol c)) = 0"
      by (auto simp: own_strtoll_subject c_strtol_def subj se Let_def LONG_MIN_def LONG_MAX_def
          size_mod_def split: if_splits)
    then show ?thesis by (simp only: validate)
  qed simp
  finally show ?thesis by (simp add: strToInteger_with_def c_def Let_def)
qed

theorem own_strtoll_equiv_witness:
  "strToInteger_longlong ''-9223372036854775808'' = strToInteger_with c_strtol False ''-9223372036854775808''"
  by (rule own_strtoll_equiv) simp_all

end
