(* ===== verification/Afl_Format.thy ===== *)
theory Afl_Format
  imports Afl_Parse
begin

text \<open>
  Typesafe formatting: the format state (afl/string/formatstate.cpp), the formatters for
  strings and integers (afl/string/formattraits.cpp) and the interpreter of format strings
  (afl/string/format.cpp). A format argument is the pair of a stored value and its
  formatting function, that is, a function on the format state that gives a string and
  the state with the condition codes updated.
\<close>

section \<open>Format state\<close>

datatype format_flag =
    AlternateFlag | ZeroPadFlag | LeftJustFlag | BlankFlag | SignFlag | GroupFlag | PrecisionFlag

text \<open>The conditions are numbered as in the code: \<open>ZeroCondition\<close> is 0, \<open>OneCondition\<close> is 1.\<close>

definition ZeroCondition :: nat where "ZeroCondition = 0"
definition OneCondition :: nat where "OneCondition = 1"

record format_state =
  m_code :: char
  m_width :: nat
  m_precision :: nat
  m_flags :: "format_flag set"
  m_conditions :: "nat set"

definition FormatState_init :: format_state where
  "FormatState_init = \<lparr>m_code = CHR 0x00, m_width = 0, m_precision = 0, m_flags = {}, m_conditions = {}\<rparr>"

definition clear :: "format_state \<Rightarrow> format_state" where
  "clear st = st\<lparr>m_code := CHR 0x00, m_width := 0, m_precision := 0, m_flags := {}\<rparr>"

definition hasFlag :: "format_state \<Rightarrow> format_flag \<Rightarrow> bool" where
  "hasFlag st f \<longleftrightarrow> f \<in> m_flags st"

definition setFlag :: "format_flag \<Rightarrow> format_state \<Rightarrow> format_state" where
  "setFlag f st = st\<lparr>m_flags := insert f (m_flags st)\<rparr>"

definition clearFlags :: "format_state \<Rightarrow> format_state" where
  "clearFlags st = st\<lparr>m_flags := {}\<rparr>"

definition hasCondition :: "format_state \<Rightarrow> nat \<Rightarrow> bool" where
  "hasCondition st c \<longleftrightarrow> c \<in> m_conditions st"

definition setCondition :: "nat \<Rightarrow> bool \<Rightarrow> format_state \<Rightarrow> format_state" where
  "setCondition c v st =
     st\<lparr>m_conditions := (if v then insert c (m_conditions st) else m_conditions st - {c})\<rparr>"

text \<open>\<open>setNumberConditions\<close> skips to the first digit other than 0, then counts the digits up
  to the end or a null character; \<open>value\<close> is the last digit.\<close>

definition countDigits :: "string \<Rightarrow> nat \<times> nat" where
  "countDigits s =
     foldl (\<lambda>(value, digits) c.
       if CHR ''0'' \<le> c \<and> c \<le> CHR ''9'' then (of_char c - of_char CHR ''0'', digits + 1)
       else (value, digits)) (0, 0) s"

definition setNumberConditions :: "string \<Rightarrow> format_state \<Rightarrow> format_state" where
  "setNumberConditions data st =
     (let st = setCondition OneCondition False (setCondition ZeroCondition False st);
          p = dropWhile (\<lambda>c. \<not> (CHR ''1'' \<le> c \<and> c \<le> CHR ''9'')) (takeWhile (\<lambda>c. c \<noteq> CHR 0x00) data)
      in case countDigits p of (value, digits) \<Rightarrow>
           if digits = 0 then setCondition ZeroCondition True st
           else if digits = 1 \<and> value = 1 then setCondition OneCondition True st
           else st)"

section \<open>Formatters\<close>

type_synonym format_fun = "format_state \<Rightarrow> string \<times> format_state"

definition formatToString :: "string \<Rightarrow> format_fun" where
  "formatToString str st =
     (let st = (if m_code st = CHR ''d'' \<or> m_code st = CHR ''i'' then setNumberConditions str st else st)
      in if hasFlag st PrecisionFlag \<and> m_precision st < length str
         then (substr str 0 (m_precision st), st) else (str, st))"

definition formatBase :: "char \<Rightarrow> nat" where
  "formatBase typ =
     (if typ = CHR ''o'' then 8 else if typ = CHR ''x'' \<or> typ = CHR ''X'' then 16 else 10)"

function formatDigits :: "char \<Rightarrow> nat \<Rightarrow> string \<Rightarrow> string" where
  "formatDigits typ c p =
     (if c = 0 then p
      else formatDigits typ (c div formatBase typ)
             ((if typ = CHR ''X'' then HEX_DIGITS_UPPER else HEX_DIGITS_LOWER) ! (c mod formatBase typ) # p))"
  by pat_completeness auto
termination
  by (relation "measure (\<lambda>(typ, c, p). c)") (auto simp: formatBase_def)

declare formatDigits.simps [simp del]

definition formatUnsigned :: "nat \<Rightarrow> char \<Rightarrow> string" where
  "formatUnsigned c typ = (let p = formatDigits typ c [] in if p = [] then ''0'' else p)"

fun addGrouping :: "string \<Rightarrow> nat \<Rightarrow> string" where
  "addGrouping s start =
     (if start > 3 then addGrouping (take (start - 3) s @ '','' @ drop (start - 3) s) (start - 3) else s)"

declare addGrouping.simps [simp del]

definition FormatUnsigned_format :: "nat \<Rightarrow> format_fun" where
  "FormatUnsigned_format value st =
     (let st = setCondition OneCondition (value = 1) (setCondition ZeroCondition (value = 0) st)
      in if m_code st = CHR ''c'' then ([char_of value], st)
         else
           (let v = formatUnsigned value (m_code st);
                v = (if hasFlag st PrecisionFlag \<and> length v < m_precision st
                     then replicate (m_precision st - length v) CHR ''0'' @ v else v);
                v = (if hasFlag st GroupFlag then addGrouping v (length v) else v);
                v = (if hasFlag st AlternateFlag then
                       (if m_code st = CHR ''o'' then (if v ! 0 \<noteq> CHR ''0'' then ''0'' @ v else v)
                        else if m_code st = CHR ''x'' then ''0x'' @ v
                        else if m_code st = CHR ''X'' then ''0X'' @ v
                        else v)
                     else v);
                wi = m_width st;
                wi = (if (hasFlag st BlankFlag \<or> hasFlag st SignFlag) \<and> wi > 0 then wi - 1 else wi);
                v = (if length v < wi \<and> hasFlag st ZeroPadFlag
                     then replicate (wi - length v) CHR ''0'' @ v else v);
                v = (if hasFlag st SignFlag then ''+'' @ v
                     else if hasFlag st BlankFlag then '' '' @ v
                     else v)
            in (v, st)))"

definition FormatSigned_format :: "int \<Rightarrow> format_fun" where
  "FormatSigned_format value st =
     (if (m_code st \<noteq> CHR ''d'' \<and> m_code st \<noteq> CHR ''i'') \<or> value \<ge> 0
      then FormatUnsigned_format (nat (value mod int size_mod)) st
      else
        (case FormatUnsigned_format (nat (- value)) (setFlag SignFlag st) of (result, st) \<Rightarrow>
           (case str_find result ''+'' of
              None \<Rightarrow> (result, st)
            | Some t \<Rightarrow> (result[t := CHR ''-''], st))))"

section \<open>Format strings\<close>

fun parseFlags :: "string \<Rightarrow> format_state \<Rightarrow> bool \<Rightarrow> string \<times> format_state \<times> bool" where
  "parseFlags [] st vis = ([], st, vis)"
| "parseFlags (c # p) st vis =
     (if c = CHR ''#'' then parseFlags p (setFlag AlternateFlag st) vis
      else if c = CHR ''0'' then parseFlags p (setFlag ZeroPadFlag st) vis
      else if c = CHR ''-'' then parseFlags p (setFlag LeftJustFlag st) vis
      else if c = CHR '' '' then parseFlags p (setFlag BlankFlag st) vis
      else if c = CHR ''+'' then parseFlags p (setFlag SignFlag st) vis
      else if c = CHR 0x27 then parseFlags p (setFlag GroupFlag st) vis
      else if c = CHR ''!'' then parseFlags p st False
      else (c # p, st, vis))"

fun parseSize :: "string \<Rightarrow> nat \<Rightarrow> string \<times> nat" where
  "parseSize [] n = ([], n)"
| "parseSize (c # p) n =
     (if CHR ''0'' \<le> c \<and> c \<le> CHR ''9''
      then parseSize p ((10 * n + (of_char c - of_char CHR ''0'')) mod size_mod)
      else (c # p, n))"

lemma parseFlags_length: "length (fst (parseFlags p st vis)) \<le> length p"
  by (induction p st vis rule: parseFlags.induct) (auto simp: le_SucI)

lemma parseSize_length: "length (fst (parseSize p n)) \<le> length p"
  by (induction p n rule: parseSize.induct) (auto simp: le_SucI Let_def)

lemma parseSpec_shrinks:
  "(p1, st1, vis1) = parseFlags p st vis \<Longrightarrow> (p2, width) = parseSize p1 0 \<Longrightarrow> p2 \<noteq> [] \<Longrightarrow>
   length p2 - Suc 0 < length p"
  using parseFlags_length [of p st vis] parseSize_length [of p1 0]
  by (cases p2; cases "parseFlags p st vis"; cases "parseSize p1 0") auto

text \<open>A placeholder after its percent sign: the text from the conversion code on, the
  argument index, the state, the show flag and the width.\<close>

function parseSpec :: "string \<Rightarrow> nat \<Rightarrow> format_state \<Rightarrow> bool \<Rightarrow> string \<times> nat \<times> format_state \<times> bool \<times> nat" where
  "parseSpec p argIndex st vis =
     (case parseFlags p st vis of (p1, st1, vis1) \<Rightarrow>
      (case parseSize p1 0 of (p2, width) \<Rightarrow>
         if p2 \<noteq> [] \<and> hd p2 = CHR ''$'' then
           parseSpec (tl p2) width (clearFlags (st1\<lparr>m_width := 0\<rparr>)) vis1
         else
           (let st2 = st1\<lparr>m_width := width\<rparr>
            in if p2 \<noteq> [] \<and> hd p2 = CHR ''.'' then
                 (case parseSize (tl p2) 0 of (p3, prec) \<Rightarrow>
                    (p3, argIndex, setFlag PrecisionFlag (st2\<lparr>m_precision := prec\<rparr>), vis1, width))
               else (p2, argIndex, st2, vis1, width))))"
  by pat_completeness auto
termination
  by (relation "measure (\<lambda>(p, _). length p)") (auto intro: parseSpec_shrinks)

declare parseSpec.simps [simp del]

lemma parseSpec_length: "length (fst (parseSpec p argIndex st vis)) \<le> length p"
proof (induction p argIndex st vis rule: parseSpec.induct)
  case (1 p argIndex st vis)
  obtain p1 st1 vis1 where f: "parseFlags p st vis = (p1, st1, vis1)" by (metis prod_cases3)
  obtain p2 w where z: "parseSize p1 0 = (p2, w)" by fastforce
  have le: "length p1 \<le> length p" "length p2 \<le> length p1"
    using parseFlags_length [of p st vis] parseSize_length [of p1 0] f z by simp_all
  show ?case
  proof (cases "p2 \<noteq> [] \<and> hd p2 = CHR ''$''")
    case True
    have "length (fst (parseSpec (tl p2) w (clearFlags (st1\<lparr>m_width := 0\<rparr>)) vis1)) \<le> length (tl p2)"
      using "1.IH" [OF f [symmetric] refl z [symmetric] True] .
    with True le f z show ?thesis by (subst parseSpec.simps) simp
  next
    case False
    with le f z parseSize_length [of "tl p2" 0] show ?thesis
      by (subst parseSpec.simps) (auto simp: Let_def split: prod.split)
  qed
qed

lemma format_shrinks:
  "(c # q, r) = parseSpec (drop (Suc n) p) argIndex st vis \<Longrightarrow> length q < length p"
  using parseSpec_length [of "drop (Suc n) p" argIndex st vis]
  by (cases "parseSpec (drop (Suc n) p) argIndex st vis") auto

text \<open>\<open>conditionState\<close> and \<open>conditionLevel\<close> are 32-bit unsigned integers. \<open>break\<close> on an
  incomplete placeholder ends the loop at the end of the format string.\<close>

function format_loop :: "string \<Rightarrow> nat \<Rightarrow> nat \<Rightarrow> nat \<Rightarrow> format_state \<Rightarrow> format_fun list \<Rightarrow> string \<Rightarrow> string" where
  "format_loop p argIndex conditionState conditionLevel state args result =
     (case str_find p ''%'' of
        None \<Rightarrow> result @ p
      | Some n \<Rightarrow>
        (case parseSpec (drop (n + 1) p) argIndex (clear state) True of (q, argIndex, state, vis, width) \<Rightarrow>
         (case q of
            [] \<Rightarrow> (if conditionState = 0 then result @ take n p else result)
          | code # q' \<Rightarrow>
             (case (if conditionState = 0 then result @ take n p else result) of result \<Rightarrow>
              if code = CHR ''{'' then
                format_loop q' argIndex
                  (let cs = (conditionState * 2) mod 4294967296;
                       vis = (if hasCondition state (width mod 32) then \<not> vis else vis)
                   in if vis then cs + 1 else cs)
                  ((conditionLevel + 1) mod 4294967296) state args result
              else if code = CHR ''|'' then
                format_loop q' argIndex
                  (if conditionLevel \<noteq> 0
                   then (if even conditionState then conditionState + 1 else conditionState - 1)
                   else conditionState)
                  conditionLevel state args result
              else if code = CHR ''}'' then
                (if conditionState \<noteq> 0
                 then format_loop q' argIndex (conditionState div 2)
                        ((conditionLevel + 4294967295) mod 4294967296) state args result
                 else format_loop q' argIndex conditionState conditionLevel state args result)
              else if conditionState = 0 then
                (case (if code = CHR ''%'' then (''%'', argIndex, state)
                       else if length args \<le> argIndex then (''<invalid>'', argIndex, state)
                       else (case (args ! argIndex) (state\<lparr>m_code := code\<rparr>) of
                               (here, state) \<Rightarrow> (here, argIndex + 1, state))) of (here, argIndex, state) \<Rightarrow>
                   format_loop q' argIndex conditionState conditionLevel state args
                     (if vis then
                        result @
                        (if length here < width then
                           (if hasFlag state LeftJustFlag
                            then here @ replicate (width - length here) CHR '' ''
                            else replicate (width - length here) CHR '' '' @ here)
                         else here)
                      else result))
              else format_loop q' argIndex conditionState conditionLevel state args result))))"
  by pat_completeness auto
termination
  by (relation "measure (\<lambda>(p, _). length p)") (auto dest: format_shrinks)

declare format_loop.simps [simp del]

definition Format :: "string \<Rightarrow> format_fun list \<Rightarrow> string" where
  "Format fmt args = format_loop (c_str fmt) 0 0 0 FormatState_init args []"

text \<open>Decimal numbers, as \<open>Format\<close> writes them.\<close>

definition dec_nat :: "nat \<Rightarrow> string" where
  "dec_nat n = formatUnsigned n CHR ''d''"

definition dec_int :: "int \<Rightarrow> string" where
  "dec_int i = (if i < 0 then ''-'' @ dec_nat (nat (- i)) else dec_nat (nat i))"

section \<open>Facts\<close>

lemmas format_state_simps = FormatState_init_def clear_def hasFlag_def setFlag_def clearFlags_def
  hasCondition_def setCondition_def

lemma str_find_hd: "str_find (c # s) [c] = Some 0"
  by simp

lemma FormatUnsigned_plain:
  "m_flags st = {} \<Longrightarrow> m_width st = 0 \<Longrightarrow> m_code st = CHR ''d'' \<Longrightarrow>
   fst (FormatUnsigned_format n st) = dec_nat n"
  by (simp add: FormatUnsigned_format_def Let_def dec_nat_def format_state_simps)

lemma FormatSigned_plain:
  assumes "m_flags st = {}" "m_width st = 0" "m_code st = CHR ''d''" "i < int size_mod"
  shows "fst (FormatSigned_format i st) = dec_int i"
proof (cases "0 \<le> i")
  case True
  with assms show ?thesis
    by (simp add: FormatSigned_format_def dec_int_def FormatUnsigned_plain)
next
  case False
  with assms show ?thesis
    by (simp add: FormatSigned_format_def dec_int_def FormatUnsigned_format_def Let_def
        dec_nat_def format_state_simps)
qed

lemmas format_eval = Format_def c_str_def format_loop.simps parseSpec.simps format_state_simps case_prod_beta

lemma Format_dec_nat: "Format ''%d'' [FormatUnsigned_format n] = dec_nat n"
  by (simp add: format_eval FormatUnsigned_plain)

lemma Format_dec_int: "i < int size_mod \<Longrightarrow> Format ''%d'' [FormatSigned_format i] = dec_int i"
  by (simp add: format_eval FormatSigned_plain)

lemma Format_bulk:
  "Format (''$%d'' @ [CHR 0x0D, CHR 0x0A]) [FormatUnsigned_format n] = CHR ''$'' # dec_nat n @ [CHR 0x0D, CHR 0x0A]"
  by (simp add: format_eval FormatUnsigned_plain)

lemma Format_array:
  "Format (''*%d'' @ [CHR 0x0D, CHR 0x0A]) [FormatUnsigned_format n] = CHR ''*'' # dec_nat n @ [CHR 0x0D, CHR 0x0A]"
  by (simp add: format_eval FormatUnsigned_plain)

lemma Format_verb:
  "Format ''%s [verb: %s]'' [formatToString a, formatToString b] = a @ '' [verb: '' @ b @ '']''"
  by (simp add: format_eval formatToString_def Let_def)

text \<open>Digits of a number: what \<open>formatDigits\<close> writes in base ten is read back by
  \<open>dec_value\<close>.\<close>

lemma HEX_LOWER_digit: "d < 10 \<Longrightarrow> charIsDigit (HEX_DIGITS_LOWER ! d) \<and> of_char (HEX_DIGITS_LOWER ! d) = d + (48::nat)"
proof -
  assume "d < 10"
  then have "d \<in> {0, 1, 2, 3, 4, 5, 6, 7, 8, 9}" by auto
  then show ?thesis by (auto simp: HEX_DIGITS_LOWER_def charIsDigit_iff)
qed

lemma formatDigits_append: "formatDigits typ c p = formatDigits typ c [] @ p"
proof (induction c arbitrary: p rule: less_induct)
  case (less c)
  show ?case
  proof (cases "c = 0")
    case False
    then have "c div formatBase typ < c" by (simp add: formatBase_def)
    then show ?thesis using False
      by (subst (1 2) formatDigits.simps) (simp add: less [of _ "_ # _"])
  qed (simp add: formatDigits.simps)
qed

lemma formatDigits_step:
  assumes "c \<noteq> 0"
  shows "formatDigits CHR ''d'' c [] = formatDigits CHR ''d'' (c div 10) [] @ [HEX_DIGITS_LOWER ! (c mod 10)]"
proof -
  have "formatDigits CHR ''d'' c [] = formatDigits CHR ''d'' (c div 10) [HEX_DIGITS_LOWER ! (c mod 10)]"
    using assms by (subst formatDigits.simps) (simp add: formatBase_def)
  then show ?thesis by (simp add: formatDigits_append [of _ _ "[_]"])
qed

lemma formatDigits_dec:
  "list_all charIsDigit (formatDigits CHR ''d'' c []) \<and> dec_value (formatDigits CHR ''d'' c []) = c \<and>
   (formatDigits CHR ''d'' c [] = [] \<longleftrightarrow> c = 0)"
proof (induction c rule: less_induct)
  case (less c)
  show ?case
  proof (cases "c = 0")
    case False
    with less [of "c div 10"] HEX_LOWER_digit [of "c mod 10"] show ?thesis
      by (simp add: formatDigits_step dec_value_snoc)
  qed (simp add: formatDigits.simps)
qed

lemma dec_nat_digits: "list_all charIsDigit (dec_nat n)" "dec_value (dec_nat n) = n" "dec_nat n \<noteq> []"
  using formatDigits_dec [of n]
  by (auto simp: dec_nat_def formatUnsigned_def Let_def dec_value_def charIsDigit_iff)

lemma dec_nat_chars: "c \<in> set (dec_nat n) \<Longrightarrow> charIsDigit c"
  using dec_nat_digits(1) [of n] by (simp add: list_all_iff)

lemma takeWhile_digit_dec_nat [simp]: "takeWhile charIsDigit (dec_nat n) = dec_nat n"
  by (rule takeWhile_all) (rule dec_nat_chars)

text \<open>No digit is whitespace, a sign or a null character.\<close>

lemma digit_not: "charIsDigit c \<Longrightarrow> \<not> charIsSpace c \<and> \<not> c_isspace c \<and> c \<noteq> CHR ''-'' \<and> c \<noteq> CHR ''+'' \<and> c \<noteq> CHR 0x00"
  unfolding charIsDigit_iff c_isspace_iff charIsSpace_def char_eq_nat by auto

lemma c_str_dec_int: "c_str (dec_int i) = dec_int i"
  by (auto simp: c_str_def dec_int_def intro!: takeWhile_all dest!: dec_nat_chars digit_not)

lemma strToInteger_dec_int:
  assumes "int32_ok i"
  shows "strToInteger (dec_int i) = Some i"
proof -
  let ?n = "dec_nat (nat \<bar>i\<bar>)"
  have n: "takeWhile c_isspace ?n = []"
    "dec_value ?n = nat \<bar>i\<bar>" "?n \<noteq> []" "?n ! 0 \<noteq> CHR ''-''" "?n ! 0 \<noteq> CHR ''+''"
  proof -
    obtain c cs where c: "?n = c # cs" "charIsDigit c"
      using dec_nat_digits [of "nat \<bar>i\<bar>"] by (cases ?n) auto
    show "takeWhile c_isspace ?n = []" "?n ! 0 \<noteq> CHR ''-''" "?n ! 0 \<noteq> CHR ''+''"
      using c digit_not [OF c(2)] by auto
  qed (simp_all add: dec_nat_digits)
  have di: "dec_int i = (if i < 0 then CHR ''-'' # ?n else ?n)" by (simp add: dec_int_def)
  have subj: "strto_subject c_isspace (dec_int i) = (i < 0, if i < 0 then 1 else 0, length (dec_int i))"
    using n unfolding di
    by (cases "i < 0") (simp_all add: strto_subject_def Let_def scanWhile_def c_isspace_def)
  have range: "LONG_MIN \<le> i" "i \<le> LONG_MAX"
    using assms by (simp_all add: int_simps LONG_MIN_def LONG_MAX_def)
  have "c_strtol (dec_int i) = (i, length (dec_int i), False)"
    using subj n range unfolding di
    by (cases "i < 0") (simp_all add: c_strtol_def Let_def substr_def)
  moreover have "dec_int i \<noteq> []" by (simp add: dec_int_def dec_nat_digits)
  ultimately have "strToInteger_long (dec_int i) = Inr i"
    by (simp add: strToInteger_long_def strToInteger_with_def c_str_dec_int Let_def
        parsePostValidate_def scanWhile_def)
  then show ?thesis using to_int32_id [OF assms]
    by (simp add: strToInteger_def strToInteger_pos_def)
qed

section \<open>Properties\<close>

text \<open>formatting an int32_t with "%d" and parsing the text with strToInteger gives the
  number back, for every number of the type.\<close>

theorem Format_strToInteger_roundtrip:
  assumes "int32_ok i"
  shows "strToInteger (Format ''%d'' [FormatSigned_format i]) = Some i"
proof -
  have "i < int size_mod" using assms by (simp add: int_simps size_mod_def)
  then show ?thesis by (simp add: Format_dec_int strToInteger_dec_int assms)
qed

theorem Format_strToInteger_roundtrip_witness:
  "strToInteger (Format ''%d'' [FormatSigned_format (- 2147483648)]) = Some (- 2147483648)"
  by (rule Format_strToInteger_roundtrip) (simp add: int_simps)

end
