(* ===== verification/Afl_Data.thy ===== *)
theory Afl_Data
  imports Afl_Format
begin

text \<open>
  The data model of afl/data: values (value.hpp and the value classes), segments, segment
  views, name maps with their hash chains, hashes, and the typed access to values.
  A null \<open>Value*\<close> is \<open>None\<close>. Values are owned uniquely by convention, so a value is a
  tree; sharing through \<open>Ref<Hash>\<close> and \<open>Ref<Vector>\<close> is not observable while nobody
  modifies the shared object. \<open>double\<close> is an opaque type; its formatting with "%.25g" and
  its conversion to \<open>int32_t\<close> belong to the platform, together with \<open>std::sort\<close> and
  \<open>std::rand\<close>, which the database uses.
\<close>

record 'f platform =
  formatFloat :: "'f \<Rightarrow> string"
  truncFloat :: "'f \<Rightarrow> int"
  stdSort :: "(string \<Rightarrow> string \<Rightarrow> bool) \<Rightarrow> string list \<Rightarrow> string list"
  stdRand :: nat

text \<open>
  A concrete platform, for evaluating the model: natural numbers as floats, insertion sort, and
  a random number generator that always gives 0.
\<close>

fun insert_by :: "('a \<Rightarrow> 'a \<Rightarrow> bool) \<Rightarrow> 'a \<Rightarrow> 'a list \<Rightarrow> 'a list" where
  "insert_by lt x [] = [x]"
| "insert_by lt x (y # ys) = (if lt y x then y # insert_by lt x ys else x # y # ys)"

definition nat_platform :: "nat platform" where
  "nat_platform = \<lparr>formatFloat = dec_nat, truncFloat = int,
     stdSort = (\<lambda>lt xs. foldr (insert_by lt) xs []), stdRand = 0\<rparr>"

section \<open>Name maps\<close>

text \<open>\<open>NameQuery\<close>'s hash code: the length plus up to five characters from either end.\<close>

definition HASH_MAX :: nat where "HASH_MAX = 64"

definition hash :: "string \<Rightarrow> nat" where
  "hash name =
     (let size = length name; limit = min 5 size
      in foldl (\<lambda>h i. h + of_char (name ! i) + of_char (name ! (size - i - 1))) size [0..<limit] mod HASH_MAX)"

text \<open>The index \<open>nil\<close> is \<open>None\<close>.\<close>

record name_map =
  m_names :: "string list"
  m_hashFirst :: "nat option list"
  m_hashNext :: "nat option list"

definition NameMap_init :: name_map where
  "NameMap_init = \<lparr>m_names = [], m_hashFirst = replicate HASH_MAX None, m_hashNext = []\<rparr>"

partial_function (option) searchChain :: "name_map \<Rightarrow> string \<Rightarrow> nat option \<Rightarrow> nat option option" where
  "searchChain nm name i =
     (case i of
        None \<Rightarrow> Some None
      | Some k \<Rightarrow> if m_names nm ! k = name then Some (Some k) else searchChain nm name (m_hashNext nm ! k))"

definition getIndexByName :: "name_map \<Rightarrow> string \<Rightarrow> nat option" where
  "getIndexByName nm name = the (searchChain nm name (m_hashFirst nm ! hash name))"

definition NameMap_add :: "string \<Rightarrow> name_map \<Rightarrow> nat \<times> name_map" where
  "NameMap_add name nm =
     (let h = hash name; slot = length (m_names nm)
      in (slot, \<lparr>m_names = m_names nm @ [name],
                 m_hashFirst = (m_hashFirst nm)[h := Some slot],
                 m_hashNext = m_hashNext nm @ [m_hashFirst nm ! h]\<rparr>))"

definition addMaybe :: "string \<Rightarrow> name_map \<Rightarrow> nat \<times> name_map" where
  "addMaybe name nm =
     (case getIndexByName nm name of
        None \<Rightarrow> NameMap_add name nm
      | Some i \<Rightarrow> (i, nm))"

definition getNameByIndex :: "name_map \<Rightarrow> nat \<Rightarrow> string" where
  "getNameByIndex nm i = m_names nm ! i"

definition getNumNames :: "name_map \<Rightarrow> nat" where
  "getNumNames nm = length (m_names nm)"

section \<open>Values\<close>

datatype 'f Value =
    StringValue string
  | IntegerValue int
  | FloatValue 'f
  | BooleanValue bool
  | HashValue name_map "'f Value option list"
  | VectorValue "'f Value option list"
  | ErrorValue string string
  | OtherValue

type_synonym 'f segment = "'f Value option list"

section \<open>Segments\<close>

definition Segment_get :: "'f segment \<Rightarrow> nat \<Rightarrow> 'f Value option" where
  "Segment_get seg index = (if index < length seg then seg ! index else None)"

definition makeIndexAccessible :: "nat \<Rightarrow> 'f segment \<Rightarrow> 'f segment" where
  "makeIndexAccessible index seg =
     (if index \<ge> length seg then seg @ replicate (index + 1 - length seg) None else seg)"

definition setNew :: "nat \<Rightarrow> 'f Value option \<Rightarrow> 'f segment \<Rightarrow> 'f segment" where
  "setNew index value seg = (makeIndexAccessible index seg)[index := value]"

definition insertNew :: "nat \<Rightarrow> 'f Value option \<Rightarrow> 'f segment \<Rightarrow> 'f segment" where
  "insertNew index value seg =
     (let seg = (if index > 0 then makeIndexAccessible (index - 1) seg else seg)
      in take index seg @ [value] @ drop index seg)"

definition extractElement :: "nat \<Rightarrow> 'f segment \<Rightarrow> 'f Value option \<times> 'f segment" where
  "extractElement index seg =
     (if index < length seg then (seg ! index, seg[index := None]) else (None, seg))"

definition swapElements :: "nat \<Rightarrow> nat \<Rightarrow> 'f segment \<Rightarrow> 'f segment \<Rightarrow> 'f segment \<times> 'f segment" where
  "swapElements index otherIndex seg other =
     (let seg = makeIndexAccessible index seg; other = makeIndexAccessible otherIndex other
      in (seg[index := other ! otherIndex], other[otherIndex := seg ! index]))"

fun numUsed :: "'f segment \<Rightarrow> nat \<Rightarrow> nat" where
  "numUsed seg 0 = 0"
| "numUsed seg (Suc n) = (if seg ! n = None then numUsed seg n else Suc n)"

definition getNumUsedSlots :: "'f segment \<Rightarrow> nat" where
  "getNumUsedSlots seg = numUsed seg (length seg)"

definition pushBackNew :: "'f Value option \<Rightarrow> 'f segment \<Rightarrow> 'f segment" where
  "pushBackNew value seg = seg @ [value]"

definition pushBackInteger :: "int \<Rightarrow> 'f segment \<Rightarrow> 'f segment" where
  "pushBackInteger value seg = pushBackNew (Some (IntegerValue value)) seg"

definition pushBackString :: "string \<Rightarrow> 'f segment \<Rightarrow> 'f segment" where
  "pushBackString value seg = pushBackNew (Some (StringValue value)) seg"

text \<open>The operations with a precondition that the code asserts give \<open>Undefined\<close> without it.\<close>

definition popBackN :: "nat \<Rightarrow> 'f segment \<Rightarrow> 'f segment result" where
  "popBackN count seg =
     (if count \<le> length seg then Inr (take (length seg - count) seg) else Inl Undefined)"

definition popBack :: "'f segment \<Rightarrow> 'f segment result" where
  "popBack seg = (if seg = [] then Inl Undefined else Inr (butlast seg))"

definition Segment_top :: "nat \<Rightarrow> 'f segment \<Rightarrow> 'f Value option result" where
  "Segment_top ofs seg =
     (if ofs < length seg then Inr (seg ! (length seg - ofs - 1)) else Inl Undefined)"

definition extractTop :: "'f segment \<Rightarrow> ('f Value option \<times> 'f segment) result" where
  "extractTop seg = (if seg = [] then Inl Undefined else Inr (last seg, butlast seg))"

fun transferLoop :: "nat \<Rightarrow> nat \<Rightarrow> 'f segment \<Rightarrow> 'f segment \<Rightarrow> 'f segment \<times> 'f segment" where
  "transferLoop 0 pos seg other = (seg, other)"
| "transferLoop (Suc n) pos seg other =
     (case extractElement pos seg of (v, seg) \<Rightarrow> transferLoop n (pos + 1) seg (pushBackNew v other))"

definition transferLastTo :: "nat \<Rightarrow> 'f segment \<Rightarrow> 'f segment \<Rightarrow> ('f segment \<times> 'f segment) result" where
  "transferLastTo count seg other =
     (if count \<le> length seg
      then (case transferLoop count (length seg - count) seg other of (seg, other) \<Rightarrow>
              rbind (popBackN count seg) (\<lambda>seg. Inr (seg, other)))
      else Inl Undefined)"

section \<open>Hashes\<close>

definition Hash_setNew :: "string \<Rightarrow> 'f Value option \<Rightarrow> name_map \<times> 'f segment \<Rightarrow> name_map \<times> 'f segment" where
  "Hash_setNew key value h =
     (case addMaybe key (fst h) of (index, keys) \<Rightarrow> (keys, setNew index value (snd h)))"

definition Hash_get :: "name_map \<times> 'f segment \<Rightarrow> string \<Rightarrow> 'f Value option" where
  "Hash_get h key =
     (case getIndexByName (fst h) key of None \<Rightarrow> None | Some i \<Rightarrow> Segment_get (snd h) i)"

section \<open>Segment views\<close>

text \<open>A view is the list of the values not yet eaten. \<open>eatString\<close> and \<open>eatInteger\<close> get the
  previous content of the variable: a null value, or an empty view, leaves it unchanged.\<close>

type_synonym 'f view = "'f Value option list"

definition SegmentView_range :: "'f segment \<Rightarrow> nat \<Rightarrow> nat \<Rightarrow> 'f view" where
  "SegmentView_range seg first limit =
     (let index = min (length seg) first; count = min (length seg - index) limit
      in take count (drop index seg))"

definition eat :: "'f view \<Rightarrow> 'f Value option \<times> 'f view" where
  "eat v = (case v of [] \<Rightarrow> (None, []) | x # xs \<Rightarrow> (x, xs))"

section \<open>Access\<close>

definition invalidInteger :: "'a result" where
  "invalidInteger = Inl (InvalidDataException ''Invalid number'')"

fun toInteger :: "'f platform \<Rightarrow> 'f Value option \<Rightarrow> int result" where
  "toInteger pf (Some (StringValue str)) =
     (if str = [] then Inr 0
      else case strToInteger str of Some v \<Rightarrow> Inr v | None \<Rightarrow> invalidInteger)"
| "toInteger pf (Some (IntegerValue iv)) = Inr iv"
| "toInteger pf (Some (FloatValue fv)) = Inr (truncFloat pf fv)"
| "toInteger pf (Some (BooleanValue bv)) = Inr (if bv then 1 else 0)"
| "toInteger pf (Some (HashValue keys values)) = invalidInteger"
| "toInteger pf (Some (VectorValue vv)) = invalidInteger"
| "toInteger pf (Some OtherValue) = invalidInteger"
| "toInteger pf (Some (ErrorValue source str)) = Inl (RemoteErrorException source str)"
| "toInteger pf None = Inr 0"

fun valueToString :: "'f platform \<Rightarrow> 'f Value \<Rightarrow> string result"
  and vectorToString :: "'f platform \<Rightarrow> bool \<Rightarrow> 'f Value option list \<Rightarrow> string result" where
  "valueToString pf (StringValue str) = Inr str"
| "valueToString pf (IntegerValue iv) = Inr (Format ''%d'' [FormatSigned_format iv])"
| "valueToString pf (FloatValue fv) = Inr (formatFloat pf fv)"
| "valueToString pf (BooleanValue bv) = Inr (if bv then ''true'' else ''false'')"
| "valueToString pf (HashValue keys values) = Inr ''<hash>''"
| "valueToString pf (VectorValue vv) = vectorToString pf True vv"
| "valueToString pf (ErrorValue source str) = Inl (RemoteErrorException source str)"
| "valueToString pf OtherValue = Inr ''<value>''"
| "vectorToString pf first [] = Inr []"
| "vectorToString pf first (None # vs) =
     rbind (vectorToString pf False vs) (\<lambda>rest. Inr ((if first then [] else '','') @ rest))"
| "vectorToString pf first (Some v # vs) =
     rbind (valueToString pf v) (\<lambda>here.
     rbind (vectorToString pf False vs) (\<lambda>rest. Inr ((if first then [] else '','') @ here @ rest)))"

definition toString :: "'f platform \<Rightarrow> 'f Value option \<Rightarrow> string result" where
  "toString pf v = (case v of None \<Rightarrow> Inr [] | Some v \<Rightarrow> valueToString pf v)"

text \<open>The remaining visitors ignore every kind of value they do not name; an error value makes
  them throw.\<close>

fun getArraySize :: "'f Value option \<Rightarrow> nat result" where
  "getArraySize (Some (VectorValue vv)) = Inr (length vv)"
| "getArraySize (Some (ErrorValue source str)) = Inl (RemoteErrorException source str)"
| "getArraySize _ = Inr 0"

fun vectorKeys :: "'f platform \<Rightarrow> 'f Value option list \<Rightarrow> string list result" where
  "vectorKeys pf (k # v # vs) =
     rbind (toString pf k) (\<lambda>key. rbind (vectorKeys pf vs) (\<lambda>keys. Inr (key # keys)))"
| "vectorKeys pf _ = Inr []"

fun getHashKeys :: "'f platform \<Rightarrow> 'f Value option \<Rightarrow> string list result" where
  "getHashKeys pf (Some (HashValue keys values)) =
     Inr (map (getNameByIndex keys) [0..<getNumNames keys])"
| "getHashKeys pf (Some (VectorValue vv)) = vectorKeys pf vv"
| "getHashKeys pf (Some (ErrorValue source str)) = Inl (RemoteErrorException source str)"
| "getHashKeys pf _ = Inr []"

fun accessIndex :: "'f Value option \<Rightarrow> nat \<Rightarrow> 'f Value option result" where
  "accessIndex (Some (VectorValue vv)) index = Inr (Segment_get vv index)"
| "accessIndex (Some (ErrorValue source str)) index = Inl (RemoteErrorException source str)"
| "accessIndex _ index = Inr None"

fun vectorFind :: "'f platform \<Rightarrow> 'f Value option list \<Rightarrow> string \<Rightarrow> 'f Value option result" where
  "vectorFind pf (k # v # vs) key =
     rbind (toString pf k) (\<lambda>s. if s = key then Inr v else vectorFind pf vs key)"
| "vectorFind pf _ key = Inr None"

fun accessKey :: "'f platform \<Rightarrow> 'f Value option \<Rightarrow> string \<Rightarrow> 'f Value option result" where
  "accessKey pf (Some (HashValue keys values)) key = Inr (Hash_get (keys, values) key)"
| "accessKey pf (Some (VectorValue vv)) key = vectorFind pf vv key"
| "accessKey pf (Some (ErrorValue source str)) key = Inl (RemoteErrorException source str)"
| "accessKey pf _ key = Inr None"

text \<open>\<open>toIntegerList\<close> and \<open>toStringList\<close> read the elements one by one through \<open>operator[]\<close>.\<close>

fun accessEach :: "('f Value option \<Rightarrow> 'a result) \<Rightarrow> 'f Value option \<Rightarrow> nat list \<Rightarrow> 'a list result" where
  "accessEach conv a [] = Inr []"
| "accessEach conv a (i # is) =
     rbind (accessIndex a i) (\<lambda>v. rbind (conv v) (\<lambda>x.
     rbind (accessEach conv a is) (\<lambda>xs. Inr (x # xs))))"

definition toIntegerList :: "'f platform \<Rightarrow> 'f Value option \<Rightarrow> int list result" where
  "toIntegerList pf a = rbind (getArraySize a) (\<lambda>n. accessEach (toInteger pf) a [0..<n])"

definition toStringList :: "'f platform \<Rightarrow> 'f Value option \<Rightarrow> string list result" where
  "toStringList pf a = rbind (getArraySize a) (\<lambda>n. accessEach (toString pf) a [0..<n])"

definition isError :: "'f Value option \<Rightarrow> (string \<times> string) option" where
  "isError a = (case a of Some (ErrorValue source str) \<Rightarrow> Some (source, str) | _ \<Rightarrow> None)"

section \<open>Typed reading from a view\<close>

definition eatString :: "'f platform \<Rightarrow> 'f view \<Rightarrow> string \<Rightarrow> (string \<times> 'f view) result" where
  "eatString pf v old =
     (case eat v of
        (None, v) \<Rightarrow> Inr (old, v)
      | (Some val, v) \<Rightarrow> rbind (toString pf (Some val)) (\<lambda>s. Inr (s, v)))"

definition eatInteger :: "'f platform \<Rightarrow> 'f view \<Rightarrow> int \<Rightarrow> (int \<times> 'f view) result" where
  "eatInteger pf v old =
     (case eat v of
        (None, v) \<Rightarrow> Inr (old, v)
      | (Some val, v) \<Rightarrow> rbind (toInteger pf (Some val)) (\<lambda>i. Inr (i, v)))"

section \<open>Name maps: invariant\<close>

text \<open>\<open>prevWhere P n\<close> is the greatest index below \<open>n\<close> with \<open>P\<close>. The hash chains are correct when
  the head of a chain is the last name with that hash code, and each link leads to the
  previous one.\<close>

fun prevWhere :: "(nat \<Rightarrow> bool) \<Rightarrow> nat \<Rightarrow> nat option" where
  "prevWhere P 0 = None"
| "prevWhere P (Suc n) = (if P n then Some n else prevWhere P n)"

definition chainAt :: "string list \<Rightarrow> nat \<Rightarrow> nat \<Rightarrow> nat option" where
  "chainAt names h n = prevWhere (\<lambda>j. hash (names ! j) = h) n"

definition nm_wf :: "name_map \<Rightarrow> bool" where
  "nm_wf nm \<longleftrightarrow>
     m_hashFirst nm = map (\<lambda>h. chainAt (m_names nm) h (length (m_names nm))) [0..<HASH_MAX] \<and>
     m_hashNext nm = map (\<lambda>k. chainAt (m_names nm) (hash (m_names nm ! k)) k) [0..<length (m_names nm)]"

definition lastIndex :: "string list \<Rightarrow> string \<Rightarrow> nat option" where
  "lastIndex names name = prevWhere (\<lambda>j. names ! j = name) (length names)"

definition hash_find :: "name_map \<times> 'f segment \<Rightarrow> string \<Rightarrow> 'f Value option option" where
  "hash_find h key = map_option (Segment_get (snd h)) (getIndexByName (fst h) key)"

definition hash_wf :: "name_map \<times> 'f segment \<Rightarrow> bool" where
  "hash_wf h \<longleftrightarrow> nm_wf (fst h) \<and> distinct (m_names (fst h)) \<and> length (snd h) = length (m_names (fst h))"

lemma prevWhere_cong: "(\<And>j. j < n \<Longrightarrow> P j = Q j) \<Longrightarrow> prevWhere P n = prevWhere Q n"
  by (induction n) auto

lemma prevWhere_Some: "prevWhere P n = Some k \<longleftrightarrow> k < n \<and> P k \<and> (\<forall>j. k < j \<and> j < n \<longrightarrow> \<not> P j)"
  by (induction n) (auto simp: less_Suc_eq)

lemma prevWhere_None: "prevWhere P n = None \<longleftrightarrow> (\<forall>j<n. \<not> P j)"
  by (induction n) (auto simp: less_Suc_eq)

lemma hash_lt: "hash name < HASH_MAX"
  by (simp add: hash_def Let_def HASH_MAX_def)

lemma nm_wf_init: "nm_wf NameMap_init"
  by (simp add: nm_wf_def NameMap_init_def chainAt_def map_replicate_const)

lemma nm_wf_unique: "nm_wf a \<Longrightarrow> nm_wf b \<Longrightarrow> m_names a = m_names b \<Longrightarrow> a = b"
  by (cases a; cases b) (simp add: nm_wf_def)

lemma searchChain_wf:
  assumes "nm_wf nm" "n \<le> length (m_names nm)"
  shows "searchChain nm name (chainAt (m_names nm) (hash name) n) =
    Some (prevWhere (\<lambda>j. m_names nm ! j = name) n)"
  using assms(2)
proof (induction n)
  case 0
  then show ?case by (simp add: chainAt_def searchChain.simps)
next
  case (Suc n)
  let ?names = "m_names nm"
  show ?case
  proof (cases "hash (?names ! n) = hash name")
    case True
    then have "chainAt ?names (hash name) (Suc n) = Some n" by (simp add: chainAt_def)
    moreover have "m_hashNext nm ! n = chainAt ?names (hash name) n"
      using assms(1) Suc.prems True by (simp add: nm_wf_def)
    ultimately show ?thesis using Suc by (simp add: searchChain.simps [of nm name "Some n"])
  next
    case False
    then have "?names ! n \<noteq> name" by auto
    with False Suc show ?thesis by (simp add: chainAt_def)
  qed
qed

lemma getIndexByName_wf:
  assumes "nm_wf nm"
  shows "getIndexByName nm name = lastIndex (m_names nm) name"
proof -
  have "m_hashFirst nm ! hash name = chainAt (m_names nm) (hash name) (length (m_names nm))"
    using assms by (simp add: nm_wf_def hash_lt)
  then show ?thesis
    using searchChain_wf [OF assms order_refl, of name] by (simp add: getIndexByName_def lastIndex_def)
qed

lemma chainAt_append: "k \<le> length names \<Longrightarrow> chainAt (names @ ns) h k = chainAt names h k"
  unfolding chainAt_def by (rule prevWhere_cong) (simp add: nth_append)

lemma nm_wf_add:
  assumes "nm_wf nm"
  shows "nm_wf (snd (NameMap_add name nm))"
proof -
  let ?names = "m_names nm"
  let ?n = "length ?names"
  have "chainAt (?names @ [name]) h (Suc ?n) = (if hash name = h then Some ?n else chainAt ?names h ?n)" for h
    using chainAt_append [of ?n ?names "[name]" h] by (simp add: chainAt_def)
  then have "(m_hashFirst nm)[hash name := Some ?n] =
      map (\<lambda>h. chainAt (?names @ [name]) h (Suc ?n)) [0..<HASH_MAX]"
    using assms by (intro nth_equalityI) (auto simp: nm_wf_def nth_list_update)
  moreover have "m_hashNext nm @ [m_hashFirst nm ! hash name] =
      map (\<lambda>k. chainAt (?names @ [name]) (hash ((?names @ [name]) ! k)) k) [0..<Suc ?n]"
    using assms by (simp add: nm_wf_def hash_lt chainAt_append nth_append)
  ultimately show ?thesis
    by (simp add: nm_wf_def NameMap_add_def Let_def)
qed

lemma nm_wf_addMaybe: "nm_wf nm \<Longrightarrow> nm_wf (snd (addMaybe name nm))"
  by (auto simp: addMaybe_def nm_wf_add split: option.split)

lemma lastIndex_None: "lastIndex names name = None \<longleftrightarrow> name \<notin> set names"
  by (auto simp: lastIndex_def prevWhere_None in_set_conv_nth)

lemma lastIndex_Some_nth: "lastIndex names name = Some i \<Longrightarrow> i < length names \<and> names ! i = name"
  by (simp add: lastIndex_def prevWhere_Some)

lemma lastIndex_snoc:
  "lastIndex (names @ [n]) name = (if n = name then Some (length names) else lastIndex names name)"
  by (auto simp: lastIndex_def nth_append intro!: prevWhere_cong)

lemma lastIndex_distinct: "distinct names \<Longrightarrow> i < length names \<Longrightarrow> lastIndex names (names ! i) = Some i"
  by (auto simp: lastIndex_def prevWhere_Some distinct_conv_nth)

section \<open>Hashes as dictionaries\<close>

lemma hash_find_wf:
  "hash_wf h \<Longrightarrow> hash_find h key = map_option (Segment_get (snd h)) (lastIndex (m_names (fst h)) key)"
  by (simp add: hash_find_def hash_wf_def getIndexByName_wf)

lemma hash_wf_init: "hash_wf (NameMap_init, [])"
  by (simp add: hash_wf_def nm_wf_init) (simp add: NameMap_init_def)

lemma Hash_setNew_cases:
  assumes "hash_wf h"
  shows "Hash_setNew key v h =
    (case lastIndex (m_names (fst h)) key of
       None \<Rightarrow> (snd (NameMap_add key (fst h)), snd h @ [v])
     | Some i \<Rightarrow> (fst h, (snd h)[i := v]))"
  using assms lastIndex_Some_nth [of "m_names (fst h)" key]
  by (auto simp: Hash_setNew_def addMaybe_def getIndexByName_wf hash_wf_def NameMap_add_def Let_def
      setNew_def makeIndexAccessible_def list_update_append split: option.split)

lemma hash_wf_setNew:
  assumes "hash_wf h"
  shows "hash_wf (Hash_setNew key v h)"
proof (cases "lastIndex (m_names (fst h)) key")
  case None
  then have "key \<notin> set (m_names (fst h))" by (simp add: lastIndex_None)
  with None assms nm_wf_add [of "fst h" key] show ?thesis
    by (simp add: Hash_setNew_cases hash_wf_def) (simp add: NameMap_add_def Let_def)
next
  case (Some i)
  with assms show ?thesis by (simp add: Hash_setNew_cases hash_wf_def)
qed

lemma hash_find_setNew:
  assumes "hash_wf h"
  shows "hash_find (Hash_setNew key v h) = (hash_find h)(key \<mapsto> v)"
proof
  fix k
  let ?names = "m_names (fst h)"
  show "hash_find (Hash_setNew key v h) k = ((hash_find h)(key \<mapsto> v)) k"
  proof (cases "lastIndex ?names key")
    case None
    have "map_option (Segment_get (snd h @ [v])) (lastIndex ?names k) =
        map_option (Segment_get (snd h)) (lastIndex ?names k)"
      using assms lastIndex_Some_nth [of ?names k]
      by (cases "lastIndex ?names k") (auto simp: Segment_get_def nth_append hash_wf_def)
    with None assms show ?thesis
      by (simp add: hash_find_wf hash_wf_setNew)
        (auto simp: Hash_setNew_cases NameMap_add_def Let_def lastIndex_snoc Segment_get_def hash_wf_def
          nth_append)
  next
    case (Some i)
    then have i: "i < length ?names" "?names ! i = key" by (simp_all add: lastIndex_Some_nth)
    have "lastIndex ?names k = Some j \<Longrightarrow> k \<noteq> key \<Longrightarrow> j \<noteq> i" for j
      using i lastIndex_Some_nth by blast
    with Some i assms show ?thesis
      by (cases "lastIndex ?names k"; simp add: hash_find_wf hash_wf_setNew)
        (auto simp: Hash_setNew_cases Segment_get_def hash_wf_def nth_list_update)
  qed
qed

interpretation hash_dict: dictionary "(NameMap_init, [])" hash_find Hash_setNew hash_wf
  by unfold_locales
    (simp_all add: hash_find_setNew hash_wf_init hash_wf_setNew,
     simp add: hash_find_wf hash_wf_init, simp add: NameMap_init_def lastIndex_def)

section \<open>Segments: facts\<close>

lemma transferLoop_spec:
  "pos + n \<le> length seg \<Longrightarrow>
   transferLoop n pos seg other =
     (take pos seg @ replicate n None @ drop (pos + n) seg, other @ take n (drop pos seg))"
proof (induction n pos seg other rule: transferLoop.induct)
  case (2 n pos seg other)
  then have pos: "pos < length seg" by simp
  have "take (Suc pos) (seg[pos := None]) = take pos seg @ [None]"
    using pos by (simp add: take_Suc_conv_app_nth)
  moreover have "take (Suc n) (drop pos seg) = seg ! pos # take n (drop (Suc pos) seg)"
    using pos by (simp add: Cons_nth_drop_Suc [symmetric])
  ultimately show ?case using 2 pos
    by (simp add: extractElement_def pushBackNew_def)
qed simp


lemma getNumUsedSlots_spec:
  "numUsed seg n \<le> n \<and> (\<forall>i. numUsed seg n \<le> i \<and> i < n \<longrightarrow> seg ! i = None) \<and>
   (numUsed seg n > 0 \<longrightarrow> seg ! (numUsed seg n - 1) \<noteq> None)"
  by (induction n) (auto simp: less_Suc_eq)

section \<open>Properties of the data model\<close>

text \<open>
  C40: A name map finds names. Starting from the empty map and adding any sequence of names,
  duplicates included, the search along the hash chain of a name always ends; it gives the
  index of the last occurrence of the name, and nil exactly for a name never added.
\<close>

theorem NameMap_lookup:
  "let nm = fold (\<lambda>n nm. snd (NameMap_add n nm)) names NameMap_init
   in m_names nm = names
    \<and> searchChain nm name (m_hashFirst nm ! hash name) = Some (getIndexByName nm name)
    \<and> (getIndexByName nm name = None \<longleftrightarrow> name \<notin> set names)
    \<and> (\<forall>i. getIndexByName nm name = Some i \<longleftrightarrow>
           i < length names \<and> names ! i = name \<and> name \<notin> set (drop (i + 1) names))"
proof -
  define nm where "nm = fold (\<lambda>n nm. snd (NameMap_add n nm)) names NameMap_init"
  have "nm_wf m \<Longrightarrow> nm_wf (fold (\<lambda>n nm. snd (NameMap_add n nm)) names m)
      \<and> m_names (fold (\<lambda>n nm. snd (NameMap_add n nm)) names m) = m_names m @ names" for m
  proof (induction names arbitrary: m)
    case (Cons n names)
    then show ?case using Cons.IH [OF nm_wf_add [OF Cons.prems]]
      by (simp add: NameMap_add_def Let_def)
  qed simp
  from this [OF nm_wf_init] have wf: "nm_wf nm" and names: "m_names nm = names"
    by (simp_all add: nm_def NameMap_init_def)
  have chain: "m_hashFirst nm ! hash name = chainAt (m_names nm) (hash name) (length (m_names nm))"
    using wf by (simp add: nm_wf_def hash_lt)
  have last: "lastIndex names name = Some i \<longleftrightarrow>
      i < length names \<and> names ! i = name \<and> name \<notin> set (drop (i + 1) names)" for i
    unfolding lastIndex_def prevWhere_Some in_set_conv_nth
    by (auto simp: all_conj_distrib less_diff_conv nth_append)
      (metis Suc_leI add_Suc le_add_diff_inverse less_diff_conv2 add.commute less_eq_Suc_le)
  show ?thesis
    using searchChain_wf [OF wf order_refl, of name] wf names last
    by (simp add: nm_def [symmetric] Let_def chain getIndexByName_wf lastIndex_None flip: lastIndex_def)
qed

text \<open> A hash is a dictionary. After any sequence of assignments to an empty hash, reading a
  key gives the value assigned to it last, and null for a key never assigned.
\<close>

theorem Hash_set_get:
  "Hash_get (fold (\<lambda>(k, v). Hash_setNew k v) kvs (NameMap_init, [])) key =
   (case map_of (rev kvs) key of None \<Rightarrow> None | Some v \<Rightarrow> v)"
proof -
  have "Hash_get h key = (case hash_find h key of None \<Rightarrow> None | Some v \<Rightarrow> v)" for h :: "name_map \<times> 'a segment"
    by (simp add: Hash_get_def hash_find_def split: option.split)
  then show ?thesis
    by (simp add: hash_dict.find_assign_all [OF hash_dict.invar_empty] hash_dict.find_empty map_add_def
        split: option.split)
qed

text \<open> \<open>transferLastTo\<close> moves the last values of a segment to the end of another one in their
  order, and is within its precondition exactly when the segment has as many.
\<close>

theorem transferLastTo_moves:
  "transferLastTo count seg other =
   (if count \<le> length seg
    then Inr (take (length seg - count) seg, other @ drop (length seg - count) seg)
    else Inl Undefined)"
  by (simp add: transferLastTo_def transferLoop_spec popBackN_def)

end
