(* ===== verification/Afl_Redis.thy ===== *)
theory Afl_Redis
  imports Afl_Data
begin

text \<open>
  The in-memory database of afl/net/redis/internaldatabase.cpp: the kinds of key, the access
  to a key by type, one definition per command, the dispatcher \<open>execute\<close>, and \<open>call\<close>.

  The database is the ordered map \<open>m_data\<close> from names to keys (afl/container/ptrmap.hpp).
  A command is an action on it: a reference to a key, such as \<open>String& sk\<close>, is the content
  that was read, and every change through the reference is written back at once, so what a
  command changed before it throws stays changed. The view of the arguments is passed on
  explicitly. \<open>while (v.size() > 0)\<close> loops are recursions over the view; a variable that
  \<open>v.eat\<close> fills keeps its old content when the argument is null.
  Results that count elements are unbounded, since a database of 2^31 elements is out of
  reach, except where the code casts a size with \<open>int32_t()\<close>.
\<close>

section \<open>Error messages\<close>

definition MISSING_COMMAND :: string where "MISSING_COMMAND = ''Missing command''"
definition INVALID_PARAMETER_COUNT :: string where "INVALID_PARAMETER_COUNT = ''Invalid number of parameters''"
definition INVALID_OPTION :: string where "INVALID_OPTION = ''Invalid option''"
definition INVALID_TYPE :: string where "INVALID_TYPE = ''Invalid type''"
definition INVALID_TYPE_INT :: string where "INVALID_TYPE_INT = ''Invalid type (expect integer)''"
definition INVALID_INDEX :: string where "INVALID_INDEX = ''Invalid index''"
definition INVALID_COMMAND :: string where "INVALID_COMMAND = ''Invalid command''"
definition KEY_NOT_FOUND :: string where "KEY_NOT_FOUND = ''Key not found''"
definition INTERNAL_DATABASE :: string where "INTERNAL_DATABASE = ''<InternalDatabase>''"

section \<open>Keys\<close>

datatype key =
    StringKey string
  | HashKey "(string \<times> string) list"
  | ListKey "string list"
  | SetKey "string list"

type_synonym db = "(string \<times> key) list"

type_synonym 'f reply = "'f Value option"

abbreviation createString :: "string \<Rightarrow> 'f reply" where "createString s \<equiv> Some (StringValue s)"
abbreviation createInteger :: "int \<Rightarrow> 'f reply" where "createInteger i \<equiv> Some (IntegerValue i)"
abbreviation createNull :: "'f reply" where "createNull \<equiv> None"
abbreviation createVector :: "'f segment \<Rightarrow> 'f reply" where "createVector seg \<equiv> Some (VectorValue seg)"

fun getType :: "key \<Rightarrow> string" where
  "getType (StringKey _) = ''string''"
| "getType (HashKey _) = ''hash''"
| "getType (ListKey _) = ''list''"
| "getType (SetKey _) = ''set''"

definition failr :: "string \<Rightarrow> 'a result" where
  "failr msg = Inl (RemoteErrorException INTERNAL_DATABASE msg)"

definition fail :: "string \<Rightarrow> (db, 'a) action" where
  "fail msg = lift (failr msg)"

text \<open>The \<open>dynamic_cast\<close>s to the classes of keys.\<close>

fun as_String :: "key \<Rightarrow> string option" where
  "as_String (StringKey s) = Some s"
| "as_String _ = None"

fun as_Hash :: "key \<Rightarrow> (string \<times> string) list option" where
  "as_Hash (HashKey h) = Some h"
| "as_Hash _ = None"

fun as_List :: "key \<Rightarrow> string list option" where
  "as_List (ListKey l) = Some l"
| "as_List _ = None"

fun as_Set :: "key \<Rightarrow> string list option" where
  "as_Set (SetKey s) = Some s"
| "as_Set _ = None"

text \<open>\<open>Sortable\<close> is the base class of lists and sets; its content is what \<open>getValues\<close> gives.\<close>

fun as_Sortable :: "key \<Rightarrow> string list option" where
  "as_Sortable (ListKey l) = Some l"
| "as_Sortable (SetKey s) = Some s"
| "as_Sortable _ = None"

text \<open>\<open>String::modify\<close>: the new number and the new text of the key.\<close>

definition String_modify :: "string \<Rightarrow> int \<Rightarrow> (int \<times> string) result" where
  "String_modify m_string delta =
     rbind (if m_string = [] then Inr 0
            else case strToInteger m_string of None \<Rightarrow> failr INVALID_TYPE_INT | Some i \<Rightarrow> Inr i) (\<lambda>intVal.
     rbind (int32_result (intVal + delta)) (\<lambda>intVal.
     Inr (intVal, Format ''%d'' [FormatSigned_format intVal])))"

definition convertIndex :: "'a list \<Rightarrow> int \<Rightarrow> nat result" where
  "convertIndex m_list n =
     (if n \<ge> 0 then Inr (nat n)
      else rbind (int32_result (- n)) (\<lambda>m. Inr (nat ((int (length m_list) - m) mod int size_mod))))"

fun getByIndex :: "'a list \<Rightarrow> nat \<Rightarrow> 'a option" where
  "getByIndex [] index = None"
| "getByIndex (x # xs) 0 = Some x"
| "getByIndex (x # xs) (Suc index) = getByIndex xs index"

fun setByIndex :: "'a list \<Rightarrow> nat \<Rightarrow> 'a \<Rightarrow> 'a list option" where
  "setByIndex [] index val = None"
| "setByIndex (x # xs) 0 val = Some (val # xs)"
| "setByIndex (x # xs) (Suc index) val = map_option ((#) x) (setByIndex xs index val)"

definition getRandomElement :: "'f platform \<Rightarrow> string list \<Rightarrow> bool \<Rightarrow> (string \<times> string list) option" where
  "getRandomElement pf m_set remove =
     (if m_set = [] then None
      else let out = m_set ! (stdRand pf mod length m_set)
           in Some (out, if remove then set_erase out m_set else m_set))"

section \<open>Arguments\<close>

definition checkArgumentCount :: "'f view \<Rightarrow> nat \<Rightarrow> (db, unit) action" where
  "checkArgumentCount v need = (if length v \<noteq> need then fail INVALID_PARAMETER_COUNT else ret ())"

definition checkArgumentCountAtLeast :: "'f view \<Rightarrow> nat \<Rightarrow> (db, unit) action" where
  "checkArgumentCountAtLeast v need = (if length v < need then fail INVALID_PARAMETER_COUNT else ret ())"

definition eatS :: "'f platform \<Rightarrow> 'f view \<Rightarrow> string \<Rightarrow> (db, string \<times> 'f view) action" where
  "eatS pf v old = lift (eatString pf v old)"

definition eatI :: "'f platform \<Rightarrow> 'f view \<Rightarrow> int \<Rightarrow> (db, int \<times> 'f view) action" where
  "eatI pf v old = lift (eatInteger pf v old)"

definition matchKey :: "string \<Rightarrow> string \<Rightarrow> bool" where
  "matchKey pat key =
     (case str_find pat ''*'' of
        None \<Rightarrow> pat = key
      | Some n \<Rightarrow>
          let endLength = length pat - n - 1
          in length key \<ge> length pat - 1
           \<and> substr pat 0 n = substr key 0 n
           \<and> substr pat (length pat - endLength) endLength = substr key (length key - endLength) endLength)"

section \<open>Access to keys\<close>

definition get :: "(key \<Rightarrow> 'k option) \<Rightarrow> string \<Rightarrow> (db, 'k option) action" where
  "get cast name =
     bind (gets (\<lambda>m_data. map_of m_data name)) (\<lambda>k.
     case k of
       None \<Rightarrow> ret None
     | Some k \<Rightarrow> (case cast k of None \<Rightarrow> fail INVALID_TYPE | Some tk \<Rightarrow> ret (Some tk)))"

text \<open>Writing through a reference, and \<open>insertNew\<close>, replace the key of that name.\<close>

definition put :: "string \<Rightarrow> key \<Rightarrow> (db, unit) action" where
  "put name k = modify (map_set name k)"

definition getCreate :: "(key \<Rightarrow> 'k option) \<Rightarrow> ('k \<Rightarrow> key) \<Rightarrow> 'k \<Rightarrow> string \<Rightarrow> (db, 'k) action" where
  "getCreate cast mk new name =
     bind (get cast name) (\<lambda>tk.
     case tk of
       None \<Rightarrow> bind (put name (mk new)) (\<lambda>_. ret new)
     | Some tk \<Rightarrow> ret tk)"

abbreviation "getString \<equiv> get as_String"
abbreviation "getHash \<equiv> get as_Hash"
abbreviation "getList \<equiv> get as_List"
abbreviation "getSet \<equiv> get as_Set"
abbreviation "getCreateString \<equiv> getCreate as_String StringKey []"
abbreviation "getCreateHash \<equiv> getCreate as_Hash HashKey []"
abbreviation "getCreateList \<equiv> getCreate as_List ListKey []"
abbreviation "getCreateSet \<equiv> getCreate as_Set SetKey []"

definition eraseKey :: "string \<Rightarrow> (db, bool) action" where
  "eraseKey name =
     bind (gets (\<lambda>m_data. map_of m_data name \<noteq> None)) (\<lambda>found.
     bind (modify (map_erase name)) (\<lambda>_. ret found))"

definition eraseIfEmpty :: "'a list \<Rightarrow> string \<Rightarrow> (db, unit) action" where
  "eraseIfEmpty content name =
     (if content = [] then bind (eraseKey name) (\<lambda>_. ret ()) else ret ())"

definition pushBackStrings :: "string list \<Rightarrow> 'f segment" where
  "pushBackStrings ss = fold pushBackString ss []"

section \<open>String commands\<close>

definition cmd_APPEND :: "'f platform \<Rightarrow> 'f view \<Rightarrow> (db, 'f reply) action" where
  "cmd_APPEND pf v =
     bind (checkArgumentCount v 2) (\<lambda>_.
     bind (eatS pf v []) (\<lambda>(keyArg, v).
     bind (eatS pf v []) (\<lambda>(stringArg, v).
     bind (getCreateString keyArg) (\<lambda>sk.
     bind (put keyArg (StringKey (sk @ stringArg))) (\<lambda>_.
     ret (createInteger (to_int32 (int (length (sk @ stringArg))))))))))"

definition modifyKey :: "string \<Rightarrow> int \<Rightarrow> (db, 'f reply) action" where
  "modifyKey keyArg delta =
     bind (getCreateString keyArg) (\<lambda>sk.
     bind (lift (String_modify sk delta)) (\<lambda>(intVal, m_string).
     bind (put keyArg (StringKey m_string)) (\<lambda>_.
     ret (createInteger intVal))))"

definition cmd_DECR :: "'f platform \<Rightarrow> 'f view \<Rightarrow> (db, 'f reply) action" where
  "cmd_DECR pf v =
     bind (checkArgumentCount v 1) (\<lambda>_.
     bind (eatS pf v []) (\<lambda>(keyArg, v).
     modifyKey keyArg (- 1)))"

definition cmd_DECRBY :: "'f platform \<Rightarrow> 'f view \<Rightarrow> (db, 'f reply) action" where
  "cmd_DECRBY pf v =
     bind (checkArgumentCount v 2) (\<lambda>_.
     bind (eatS pf v []) (\<lambda>(keyArg, v).
     bind (eatI pf v 0) (\<lambda>(intArg, v).
     bind (lift (int32_result (- intArg))) (\<lambda>delta.
     modifyKey keyArg delta))))"

fun del_loop :: "'f platform \<Rightarrow> 'f view \<Rightarrow> string \<Rightarrow> int \<Rightarrow> (db, int) action" where
  "del_loop pf [] keyArg n = ret n"
| "del_loop pf (x # v) keyArg n =
     bind (eatS pf (x # v) keyArg) (\<lambda>(keyArg, _).
     bind (eraseKey keyArg) (\<lambda>erased.
     del_loop pf v keyArg (if erased then n + 1 else n)))"

definition cmd_DEL :: "'f platform \<Rightarrow> 'f view \<Rightarrow> (db, 'f reply) action" where
  "cmd_DEL pf v = bind (del_loop pf v [] 0) (\<lambda>n. ret (createInteger n))"

fun exists_loop :: "'f platform \<Rightarrow> 'f view \<Rightarrow> string \<Rightarrow> int \<Rightarrow> (db, int) action" where
  "exists_loop pf [] keyArg n = ret n"
| "exists_loop pf (x # v) keyArg n =
     bind (eatS pf (x # v) keyArg) (\<lambda>(keyArg, _).
     bind (gets (\<lambda>m_data. map_of m_data keyArg \<noteq> None)) (\<lambda>found.
     exists_loop pf v keyArg (if found then n + 1 else n)))"

definition cmd_EXISTS :: "'f platform \<Rightarrow> 'f view \<Rightarrow> (db, 'f reply) action" where
  "cmd_EXISTS pf v = bind (exists_loop pf v [] 0) (\<lambda>n. ret (createInteger n))"

definition cmd_GET :: "'f platform \<Rightarrow> 'f view \<Rightarrow> (db, 'f reply) action" where
  "cmd_GET pf v =
     bind (checkArgumentCount v 1) (\<lambda>_.
     bind (eatS pf v []) (\<lambda>(keyArg, v).
     bind (getString keyArg) (\<lambda>sk.
     case sk of Some m_string \<Rightarrow> ret (createString m_string) | None \<Rightarrow> ret createNull)))"

definition getRange :: "string \<Rightarrow> int \<Rightarrow> int \<Rightarrow> string result" where
  "getRange m_string beg end1 =
     (let size = to_int32 (int (length m_string))
      in rbind (if beg < 0 then int32_result (beg + size) else Inr beg) (\<lambda>beg.
         rbind (if end1 < 0 then int32_result (end1 + size) else Inr end1) (\<lambda>end1.
         let beg = (if beg < 0 then 0 else beg); end1 = (if end1 < 0 then 0 else end1)
         in rbind (int32_result (end1 + 1)) (\<lambda>end1.
            Inr (if beg \<ge> end1 \<or> beg \<ge> size then []
                 else substr m_string (nat beg) (nat (end1 - beg)))))))"

definition cmd_GETRANGE :: "'f platform \<Rightarrow> 'f view \<Rightarrow> (db, 'f reply) action" where
  "cmd_GETRANGE pf v =
     bind (checkArgumentCount v 3) (\<lambda>_.
     bind (eatS pf v []) (\<lambda>(keyArg, v).
     bind (eatI pf v 0) (\<lambda>(beg, v).
     bind (eatI pf v 0) (\<lambda>(end1, v).
     bind (getString keyArg) (\<lambda>sk.
     case sk of
       Some m_string \<Rightarrow> bind (lift (getRange m_string beg end1)) (\<lambda>s. ret (createString s))
     | None \<Rightarrow> ret createNull)))))"

definition cmd_GETSET :: "'f platform \<Rightarrow> 'f view \<Rightarrow> (db, 'f reply) action" where
  "cmd_GETSET pf v =
     bind (checkArgumentCount v 2) (\<lambda>_.
     bind (eatS pf v []) (\<lambda>(keyArg, v).
     bind (eatS pf v []) (\<lambda>(stringArg, v).
     bind (getString keyArg) (\<lambda>sk.
     let result = (case sk of Some m_string \<Rightarrow> createString m_string | None \<Rightarrow> createNull)
     in bind (getCreateString keyArg) (\<lambda>_.
        bind (put keyArg (StringKey stringArg)) (\<lambda>_.
        ret result))))))"

definition cmd_INCR :: "'f platform \<Rightarrow> 'f view \<Rightarrow> (db, 'f reply) action" where
  "cmd_INCR pf v =
     bind (checkArgumentCount v 1) (\<lambda>_.
     bind (eatS pf v []) (\<lambda>(keyArg, v).
     modifyKey keyArg 1))"

definition cmd_INCRBY :: "'f platform \<Rightarrow> 'f view \<Rightarrow> (db, 'f reply) action" where
  "cmd_INCRBY pf v =
     bind (checkArgumentCount v 2) (\<lambda>_.
     bind (eatS pf v []) (\<lambda>(keyArg, v).
     bind (eatI pf v 0) (\<lambda>(intArg, v).
     modifyKey keyArg intArg)))"

definition setKeyNew :: "string \<Rightarrow> string \<Rightarrow> (db, unit) action" where
  "setKeyNew keyArg stringArg =
     bind (eraseKey keyArg) (\<lambda>_.
     bind (getCreateString keyArg) (\<lambda>_.
     put keyArg (StringKey stringArg)))"

fun mset_loop :: "'f platform \<Rightarrow> 'f view \<Rightarrow> string \<Rightarrow> string \<Rightarrow> (db, unit) action" where
  "mset_loop pf [] keyArg stringArg = ret ()"
| "mset_loop pf [x] keyArg stringArg =
     bind (eatS pf [x] keyArg) (\<lambda>(keyArg, v). setKeyNew keyArg stringArg)"
| "mset_loop pf (x # y # v) keyArg stringArg =
     bind (eatS pf (x # y # v) keyArg) (\<lambda>(keyArg, _).
     bind (eatS pf (y # v) stringArg) (\<lambda>(stringArg, _).
     bind (setKeyNew keyArg stringArg) (\<lambda>_.
     mset_loop pf v keyArg stringArg)))"

definition cmd_MSET :: "'f platform \<Rightarrow> 'f view \<Rightarrow> (db, 'f reply) action" where
  "cmd_MSET pf v =
     bind (if length v mod 2 \<noteq> 0 then fail INVALID_PARAMETER_COUNT else ret ()) (\<lambda>_.
     bind (mset_loop pf v [] []) (\<lambda>_.
     ret (createString ''OK'')))"

definition cmd_SET :: "'f platform \<Rightarrow> 'f view \<Rightarrow> (db, 'f reply) action" where
  "cmd_SET pf v =
     bind (checkArgumentCount v 2) (\<lambda>_.
     bind (eatS pf v []) (\<lambda>(keyArg, v).
     bind (eatS pf v []) (\<lambda>(stringArg, v).
     bind (setKeyNew keyArg stringArg) (\<lambda>_.
     ret (createString ''OK'')))))"

definition cmd_SETNX :: "'f platform \<Rightarrow> 'f view \<Rightarrow> (db, 'f reply) action" where
  "cmd_SETNX pf v =
     bind (checkArgumentCount v 2) (\<lambda>_.
     bind (eatS pf v []) (\<lambda>(keyArg, v).
     bind (eatS pf v []) (\<lambda>(stringArg, v).
     bind (getString keyArg) (\<lambda>sk.
     case sk of
       Some _ \<Rightarrow> ret (createInteger 0)
     | None \<Rightarrow> bind (put keyArg (StringKey stringArg)) (\<lambda>_. ret (createInteger 1))))))"

definition cmd_STRLEN :: "'f platform \<Rightarrow> 'f view \<Rightarrow> (db, 'f reply) action" where
  "cmd_STRLEN pf v =
     bind (checkArgumentCount v 1) (\<lambda>_.
     bind (eatS pf v []) (\<lambda>(keyArg, v).
     bind (getString keyArg) (\<lambda>sk.
     case sk of
       Some m_string \<Rightarrow> ret (createInteger (to_int32 (int (length m_string))))
     | None \<Rightarrow> ret (createInteger 0))))"

section \<open>Key commands\<close>

definition cmd_KEYS :: "'f platform \<Rightarrow> 'f view \<Rightarrow> (db, 'f reply) action" where
  "cmd_KEYS pf v =
     bind (checkArgumentCount v 1) (\<lambda>_.
     bind (eatS pf v []) (\<lambda>(keyArg, v).
     bind (gets (\<lambda>m_data. filter (matchKey keyArg) (map fst m_data))) (\<lambda>keys.
     ret (createVector (pushBackStrings keys)))))"

definition renameKey :: "string \<Rightarrow> string \<Rightarrow> key \<Rightarrow> (db, unit) action" where
  "renameKey keyArg stringArg k =
     bind (modify (map_erase keyArg)) (\<lambda>_. put stringArg k)"

definition cmd_RENAME :: "'f platform \<Rightarrow> 'f view \<Rightarrow> (db, 'f reply) action" where
  "cmd_RENAME pf v =
     bind (checkArgumentCount v 2) (\<lambda>_.
     bind (eatS pf v []) (\<lambda>(keyArg, v).
     bind (eatS pf v []) (\<lambda>(stringArg, v).
     bind (get Some keyArg) (\<lambda>keyIt.
     case keyIt of
       None \<Rightarrow> fail KEY_NOT_FOUND
     | Some k \<Rightarrow> bind (renameKey keyArg stringArg k) (\<lambda>_. ret (createString ''OK''))))))"

definition cmd_RENAMENX :: "'f platform \<Rightarrow> 'f view \<Rightarrow> (db, 'f reply) action" where
  "cmd_RENAMENX pf v =
     bind (checkArgumentCount v 2) (\<lambda>_.
     bind (eatS pf v []) (\<lambda>(keyArg, v).
     bind (eatS pf v []) (\<lambda>(stringArg, v).
     bind (get Some keyArg) (\<lambda>keyIt.
     case keyIt of
       None \<Rightarrow> fail KEY_NOT_FOUND
     | Some k \<Rightarrow>
         bind (get Some stringArg) (\<lambda>newIt.
         case newIt of
           None \<Rightarrow> bind (renameKey keyArg stringArg k) (\<lambda>_. ret (createInteger 1))
         | Some _ \<Rightarrow> ret (createInteger 0))))))"

definition cmd_TYPE :: "'f platform \<Rightarrow> 'f view \<Rightarrow> (db, 'f reply) action" where
  "cmd_TYPE pf v =
     bind (checkArgumentCount v 1) (\<lambda>_.
     bind (eatS pf v []) (\<lambda>(keyArg, v).
     bind (get Some keyArg) (\<lambda>k.
     case k of None \<Rightarrow> ret (createString ''none'') | Some k \<Rightarrow> ret (createString (getType k)))))"

section \<open>Hash commands\<close>

fun hdel_loop :: "'f platform \<Rightarrow> string \<Rightarrow> 'f view \<Rightarrow> string \<Rightarrow> (string \<times> string) list \<Rightarrow> int \<Rightarrow>
    (db, int \<times> (string \<times> string) list) action" where
  "hdel_loop pf keyArg [] fieldArg hk n = ret (n, hk)"
| "hdel_loop pf keyArg (x # v) fieldArg hk n =
     bind (eatS pf (x # v) fieldArg) (\<lambda>(fieldArg, _).
     bind (put keyArg (HashKey (map_erase fieldArg hk))) (\<lambda>_.
     hdel_loop pf keyArg v fieldArg (map_erase fieldArg hk)
       (if map_of hk fieldArg \<noteq> None then n + 1 else n)))"

definition cmd_HDEL :: "'f platform \<Rightarrow> 'f view \<Rightarrow> (db, 'f reply) action" where
  "cmd_HDEL pf v =
     bind (checkArgumentCountAtLeast v 1) (\<lambda>_.
     bind (eatS pf v []) (\<lambda>(keyArg, v).
     bind (getHash keyArg) (\<lambda>hk.
     case hk of
       None \<Rightarrow> ret (createInteger 0)
     | Some hk \<Rightarrow>
         bind (hdel_loop pf keyArg v [] hk 0) (\<lambda>(n, hk).
         bind (eraseIfEmpty hk keyArg) (\<lambda>_.
         ret (createInteger n))))))"

fun hexists_loop :: "'f platform \<Rightarrow> (string \<times> string) list \<Rightarrow> 'f view \<Rightarrow> string \<Rightarrow> int \<Rightarrow> (db, int) action" where
  "hexists_loop pf hk [] keyArg n = ret n"
| "hexists_loop pf hk (x # v) keyArg n =
     bind (eatS pf (x # v) keyArg) (\<lambda>(keyArg, _).
     hexists_loop pf hk v keyArg (if map_of hk keyArg \<noteq> None then n + 1 else n))"

definition cmd_HEXISTS :: "'f platform \<Rightarrow> 'f view \<Rightarrow> (db, 'f reply) action" where
  "cmd_HEXISTS pf v =
     bind (checkArgumentCountAtLeast v 1) (\<lambda>_.
     bind (eatS pf v []) (\<lambda>(keyArg, v).
     bind (getHash keyArg) (\<lambda>hk.
     case hk of
       None \<Rightarrow> ret (createInteger 0)
     | Some hk \<Rightarrow> bind (hexists_loop pf hk v keyArg 0) (\<lambda>n. ret (createInteger n)))))"

definition cmd_HGET :: "'f platform \<Rightarrow> 'f view \<Rightarrow> (db, 'f reply) action" where
  "cmd_HGET pf v =
     bind (checkArgumentCount v 2) (\<lambda>_.
     bind (eatS pf v []) (\<lambda>(keyArg, v).
     bind (eatS pf v []) (\<lambda>(fieldArg, v).
     bind (getHash keyArg) (\<lambda>hk.
     case hk of
       None \<Rightarrow> ret createNull
     | Some hk \<Rightarrow>
         (case map_of hk fieldArg of Some s \<Rightarrow> ret (createString s) | None \<Rightarrow> ret createNull)))))"

definition cmd_HGETALL :: "'f platform \<Rightarrow> 'f view \<Rightarrow> (db, 'f reply) action" where
  "cmd_HGETALL pf v =
     bind (checkArgumentCount v 1) (\<lambda>_.
     bind (eatS pf v []) (\<lambda>(keyArg, v).
     bind (getHash keyArg) (\<lambda>hk.
     ret (createVector (pushBackStrings
       (case hk of None \<Rightarrow> [] | Some hk \<Rightarrow> concat (map (\<lambda>(f, x). [f, x]) hk)))))))"

text \<open>\<open>m_hash[fieldArg]\<close> creates an empty field when there is none.\<close>

definition subscript :: "string \<Rightarrow> (string \<times> string) list \<Rightarrow> (string \<times> string) list" where
  "subscript fieldArg m_hash =
     (case map_of m_hash fieldArg of None \<Rightarrow> map_set fieldArg [] m_hash | Some _ \<Rightarrow> m_hash)"

definition cmd_HINCRBY :: "'f platform \<Rightarrow> 'f view \<Rightarrow> (db, 'f reply) action" where
  "cmd_HINCRBY pf v =
     bind (checkArgumentCount v 3) (\<lambda>_.
     bind (eatS pf v []) (\<lambda>(keyArg, v).
     bind (eatS pf v []) (\<lambda>(fieldArg, v).
     bind (eatI pf v 0) (\<lambda>(intArg, v).
     bind (getCreateHash keyArg) (\<lambda>hk.
     bind (put keyArg (HashKey (subscript fieldArg hk))) (\<lambda>_.
     let stringVal = the (map_of (subscript fieldArg hk) fieldArg)
     in bind (lift (String_modify stringVal intArg)) (\<lambda>(intVal, s).
        bind (put keyArg (HashKey (map_set fieldArg s (subscript fieldArg hk)))) (\<lambda>_.
        ret (createInteger intVal)))))))))"

definition cmd_HKEYS :: "'f platform \<Rightarrow> 'f view \<Rightarrow> (db, 'f reply) action" where
  "cmd_HKEYS pf v =
     bind (checkArgumentCount v 1) (\<lambda>_.
     bind (eatS pf v []) (\<lambda>(keyArg, v).
     bind (getHash keyArg) (\<lambda>hk.
     ret (createVector (pushBackStrings (case hk of None \<Rightarrow> [] | Some hk \<Rightarrow> map fst hk))))))"

definition cmd_HLEN :: "'f platform \<Rightarrow> 'f view \<Rightarrow> (db, 'f reply) action" where
  "cmd_HLEN pf v =
     bind (checkArgumentCount v 1) (\<lambda>_.
     bind (eatS pf v []) (\<lambda>(keyArg, v).
     bind (getHash keyArg) (\<lambda>hk.
     ret (createInteger (case hk of None \<Rightarrow> 0 | Some hk \<Rightarrow> to_int32 (int (length hk)))))))"

fun hmget_loop :: "'f platform \<Rightarrow> (string \<times> string) list \<Rightarrow> 'f view \<Rightarrow> string \<Rightarrow> 'f segment \<Rightarrow>
    (db, 'f segment) action" where
  "hmget_loop pf hk [] fieldArg result = ret result"
| "hmget_loop pf hk (x # v) fieldArg result =
     bind (eatS pf (x # v) fieldArg) (\<lambda>(fieldArg, _).
     hmget_loop pf hk v fieldArg
       (case map_of hk fieldArg of
          Some s \<Rightarrow> pushBackString s result | None \<Rightarrow> pushBackNew None result))"

definition cmd_HMGET :: "'f platform \<Rightarrow> 'f view \<Rightarrow> (db, 'f reply) action" where
  "cmd_HMGET pf v =
     bind (checkArgumentCountAtLeast v 1) (\<lambda>_.
     bind (eatS pf v []) (\<lambda>(keyArg, v).
     bind (getHash keyArg) (\<lambda>hk.
     case hk of
       None \<Rightarrow> ret (createVector [])
     | Some hk \<Rightarrow> bind (hmget_loop pf hk v [] []) (\<lambda>result. ret (createVector result)))))"

fun hmset_loop :: "'f platform \<Rightarrow> string \<Rightarrow> 'f view \<Rightarrow> string \<Rightarrow> string \<Rightarrow> (string \<times> string) list \<Rightarrow>
    (db, unit) action" where
  "hmset_loop pf keyArg [] fieldArg stringArg hk = ret ()"
| "hmset_loop pf keyArg [x] fieldArg stringArg hk =
     bind (eatS pf [x] fieldArg) (\<lambda>(fieldArg, _).
     put keyArg (HashKey (map_set fieldArg stringArg hk)))"
| "hmset_loop pf keyArg (x # y # v) fieldArg stringArg hk =
     bind (eatS pf (x # y # v) fieldArg) (\<lambda>(fieldArg, _).
     bind (eatS pf (y # v) stringArg) (\<lambda>(stringArg, _).
     bind (put keyArg (HashKey (map_set fieldArg stringArg hk))) (\<lambda>_.
     hmset_loop pf keyArg v fieldArg stringArg (map_set fieldArg stringArg hk))))"

definition cmd_HMSET :: "'f platform \<Rightarrow> 'f view \<Rightarrow> (db, 'f reply) action" where
  "cmd_HMSET pf v =
     bind (if length v mod 2 \<noteq> 1 then fail INVALID_PARAMETER_COUNT else ret ()) (\<lambda>_.
     bind (eatS pf v []) (\<lambda>(keyArg, v).
     bind (getCreateHash keyArg) (\<lambda>hk.
     bind (hmset_loop pf keyArg v [] [] hk) (\<lambda>_.
     ret (createString ''OK'')))))"

definition cmd_HSET :: "'f platform \<Rightarrow> 'f view \<Rightarrow> (db, 'f reply) action" where
  "cmd_HSET pf v =
     bind (checkArgumentCount v 3) (\<lambda>_.
     bind (eatS pf v []) (\<lambda>(keyArg, v).
     bind (eatS pf v []) (\<lambda>(fieldArg, v).
     bind (eatS pf v []) (\<lambda>(stringArg, v).
     bind (getCreateHash keyArg) (\<lambda>hk.
     bind (put keyArg (HashKey (map_set fieldArg stringArg hk))) (\<lambda>_.
     ret (createInteger (if map_of hk fieldArg = None then 1 else 0))))))))"

section \<open>List commands\<close>

definition cmd_LINDEX :: "'f platform \<Rightarrow> 'f view \<Rightarrow> (db, 'f reply) action" where
  "cmd_LINDEX pf v =
     bind (checkArgumentCount v 2) (\<lambda>_.
     bind (eatS pf v []) (\<lambda>(keyArg, v).
     bind (eatI pf v 0) (\<lambda>(intArg, v).
     bind (getList keyArg) (\<lambda>lk.
     case lk of
       None \<Rightarrow> ret createNull
     | Some m_list \<Rightarrow>
         bind (lift (convertIndex m_list intArg)) (\<lambda>n.
         case getByIndex m_list n of
           Some result \<Rightarrow> ret (createString result)
         | None \<Rightarrow> ret createNull)))))"

definition cmd_LLEN :: "'f platform \<Rightarrow> 'f view \<Rightarrow> (db, 'f reply) action" where
  "cmd_LLEN pf v =
     bind (checkArgumentCount v 1) (\<lambda>_.
     bind (eatS pf v []) (\<lambda>(keyArg, v).
     bind (getList keyArg) (\<lambda>lk.
     ret (createInteger (case lk of None \<Rightarrow> 0 | Some m_list \<Rightarrow> to_int32 (int (length m_list)))))))"

definition cmd_LPOP :: "'f platform \<Rightarrow> 'f view \<Rightarrow> (db, 'f reply) action" where
  "cmd_LPOP pf v =
     bind (checkArgumentCount v 1) (\<lambda>_.
     bind (eatS pf v []) (\<lambda>(keyArg, v).
     bind (getList keyArg) (\<lambda>lk.
     case lk of
       None \<Rightarrow> ret createNull
     | Some [] \<Rightarrow> ret createNull
     | Some (result # m_list) \<Rightarrow>
         bind (put keyArg (ListKey m_list)) (\<lambda>_.
         bind (eraseIfEmpty m_list keyArg) (\<lambda>_.
         ret (createString result))))))"

fun push_loop :: "(string \<Rightarrow> string list \<Rightarrow> string list) \<Rightarrow> 'f platform \<Rightarrow> string \<Rightarrow> 'f view \<Rightarrow> string \<Rightarrow>
    string list \<Rightarrow> (db, string list) action" where
  "push_loop push pf keyArg [] stringArg m_list = ret m_list"
| "push_loop push pf keyArg (x # v) stringArg m_list =
     bind (eatS pf (x # v) stringArg) (\<lambda>(stringArg, _).
     bind (put keyArg (ListKey (push stringArg m_list))) (\<lambda>_.
     push_loop push pf keyArg v stringArg (push stringArg m_list)))"

definition push_front :: "'a \<Rightarrow> 'a list \<Rightarrow> 'a list" where "push_front x xs = x # xs"
definition push_back :: "'a \<Rightarrow> 'a list \<Rightarrow> 'a list" where "push_back x xs = xs @ [x]"

definition cmd_LPUSH :: "'f platform \<Rightarrow> 'f view \<Rightarrow> (db, 'f reply) action" where
  "cmd_LPUSH pf v =
     bind (checkArgumentCountAtLeast v 2) (\<lambda>_.
     bind (eatS pf v []) (\<lambda>(keyArg, v).
     bind (getCreateList keyArg) (\<lambda>lk.
     bind (push_loop push_front pf keyArg v [] lk) (\<lambda>m_list.
     ret (createInteger (to_int32 (int (length m_list))))))))"

definition cmd_RPUSH :: "'f platform \<Rightarrow> 'f view \<Rightarrow> (db, 'f reply) action" where
  "cmd_RPUSH pf v =
     bind (checkArgumentCountAtLeast v 2) (\<lambda>_.
     bind (eatS pf v []) (\<lambda>(keyArg, v).
     bind (getCreateList keyArg) (\<lambda>lk.
     bind (push_loop push_back pf keyArg v [] lk) (\<lambda>m_list.
     ret (createInteger (to_int32 (int (length m_list))))))))"

lemma getByIndex_nth: "getByIndex xs i = (if i < length xs then Some (xs ! i) else None)"
  by (induction xs i rule: getByIndex.induct) auto

function lrange_loop :: "'a list \<Rightarrow> nat \<Rightarrow> nat \<Rightarrow> 'a list" where
  "lrange_loop m_list i j =
     (if i \<le> j
      then (case getByIndex m_list i of
              None \<Rightarrow> []
            | Some stringArg \<Rightarrow> stringArg # lrange_loop m_list (i + 1) j)
      else [])"
  by auto
termination
  by (relation "measure (\<lambda>(m_list, i, j). length m_list - i)")
    (auto simp: getByIndex_nth split: if_splits)

declare lrange_loop.simps [simp del]

definition cmd_LRANGE :: "'f platform \<Rightarrow> 'f view \<Rightarrow> (db, 'f reply) action" where
  "cmd_LRANGE pf v =
     bind (checkArgumentCount v 3) (\<lambda>_.
     bind (eatS pf v []) (\<lambda>(keyArg, v).
     bind (eatI pf v 0) (\<lambda>(beg, v).
     bind (eatI pf v 0) (\<lambda>(end1, v).
     bind (getList keyArg) (\<lambda>lk.
     case lk of
       None \<Rightarrow> ret (createVector [])
     | Some m_list \<Rightarrow>
         bind (lift (convertIndex m_list beg)) (\<lambda>i.
         bind (lift (convertIndex m_list end1)) (\<lambda>j.
         ret (createVector (pushBackStrings (lrange_loop m_list i j))))))))))"

text \<open>The two loops of LREM; the backward one runs over the reversed list with \<open>++intArg\<close>, the
  forward one with \<open>--intArg\<close>.\<close>

fun lrem_loop :: "int \<Rightarrow> 'a \<Rightarrow> 'a list \<Rightarrow> int \<Rightarrow> 'a list \<times> int" where
  "lrem_loop step stringArg [] intArg = ([], 0)"
| "lrem_loop step stringArg (x # xs) intArg =
     (if x = stringArg
      then (if intArg + step = 0 then (xs, 1)
            else case lrem_loop step stringArg xs (intArg + step) of (ys, n) \<Rightarrow> (ys, n + 1))
      else case lrem_loop step stringArg xs intArg of (ys, n) \<Rightarrow> (x # ys, n))"

definition lrem :: "'a list \<Rightarrow> int \<Rightarrow> 'a \<Rightarrow> 'a list \<times> int" where
  "lrem m_list intArg stringArg =
     (if intArg < 0
      then (case lrem_loop 1 stringArg (rev m_list) intArg of (ys, n) \<Rightarrow> (rev ys, n))
      else lrem_loop (- 1) stringArg m_list intArg)"

definition cmd_LREM :: "'f platform \<Rightarrow> 'f view \<Rightarrow> (db, 'f reply) action" where
  "cmd_LREM pf v =
     bind (checkArgumentCount v 3) (\<lambda>_.
     bind (eatS pf v []) (\<lambda>(keyArg, v).
     bind (eatI pf v 0) (\<lambda>(intArg, v).
     bind (eatS pf v []) (\<lambda>(stringArg, v).
     bind (getList keyArg) (\<lambda>lk.
     case lk of
       None \<Rightarrow> ret (createInteger 0)
     | Some m_list \<Rightarrow>
         (case lrem m_list intArg stringArg of (m_list, result) \<Rightarrow>
            bind (put keyArg (ListKey m_list)) (\<lambda>_.
            ret (createInteger result))))))))"

definition cmd_LSET :: "'f platform \<Rightarrow> 'f view \<Rightarrow> (db, 'f reply) action" where
  "cmd_LSET pf v =
     bind (checkArgumentCount v 3) (\<lambda>_.
     bind (eatS pf v []) (\<lambda>(keyArg, v).
     bind (eatI pf v 0) (\<lambda>(intArg, v).
     bind (eatS pf v []) (\<lambda>(stringArg, v).
     bind (getList keyArg) (\<lambda>lk.
     case lk of
       None \<Rightarrow> fail INVALID_INDEX
     | Some m_list \<Rightarrow>
         bind (lift (convertIndex m_list intArg)) (\<lambda>n.
         case setByIndex m_list n stringArg of
           None \<Rightarrow> fail INVALID_INDEX
         | Some m_list \<Rightarrow>
             bind (put keyArg (ListKey m_list)) (\<lambda>_.
             ret (createString ''OK''))))))))"

fun ltrim_front :: "'a list \<Rightarrow> nat \<Rightarrow> nat \<Rightarrow> 'a list \<times> nat" where
  "ltrim_front [] i j = ([], j)"
| "ltrim_front (x # xs) i j =
     (if i > 0 then ltrim_front xs (i - 1) (if j > 0 then j - 1 else j) else (x # xs, j))"

function ltrim_back :: "'a list \<Rightarrow> nat \<Rightarrow> 'a list" where
  "ltrim_back m_list limit = (if length m_list > limit then ltrim_back (butlast m_list) limit else m_list)"
  by auto
termination by (relation "measure (\<lambda>(m_list, limit). length m_list)") auto

declare ltrim_back.simps [simp del]

definition ltrim :: "'a list \<Rightarrow> nat \<Rightarrow> nat \<Rightarrow> 'a list" where
  "ltrim m_list i j =
     (case ltrim_front m_list i j of (m_list, j) \<Rightarrow> ltrim_back m_list ((j + 1) mod size_mod))"

definition cmd_LTRIM :: "'f platform \<Rightarrow> 'f view \<Rightarrow> (db, 'f reply) action" where
  "cmd_LTRIM pf v =
     bind (checkArgumentCount v 3) (\<lambda>_.
     bind (eatS pf v []) (\<lambda>(keyArg, v).
     bind (eatI pf v 0) (\<lambda>(beg, v).
     bind (eatI pf v 0) (\<lambda>(end1, v).
     bind (getList keyArg) (\<lambda>lk.
     case lk of
       None \<Rightarrow> ret (createString ''OK'')
     | Some m_list \<Rightarrow>
         bind (lift (convertIndex m_list beg)) (\<lambda>i.
         bind (lift (convertIndex m_list end1)) (\<lambda>j.
         let m_list = ltrim m_list i j
         in bind (put keyArg (ListKey m_list)) (\<lambda>_.
            bind (eraseIfEmpty m_list keyArg) (\<lambda>_.
            ret (createString ''OK''))))))))))"

definition cmd_RPOP :: "'f platform \<Rightarrow> 'f view \<Rightarrow> (db, 'f reply) action" where
  "cmd_RPOP pf v =
     bind (checkArgumentCount v 1) (\<lambda>_.
     bind (eatS pf v []) (\<lambda>(keyArg, v).
     bind (getList keyArg) (\<lambda>lk.
     case lk of
       None \<Rightarrow> ret createNull
     | Some m_list \<Rightarrow>
         if m_list = [] then ret createNull
         else bind (put keyArg (ListKey (butlast m_list))) (\<lambda>_.
              bind (eraseIfEmpty (butlast m_list) keyArg) (\<lambda>_.
              ret (createString (last m_list)))))))"

text \<open>In RPOPLPUSH and SMOVE both keys may be the same object: after the destination was
  changed, the source is read again.\<close>

definition cmd_RPOPLPUSH :: "'f platform \<Rightarrow> 'f view \<Rightarrow> (db, 'f reply) action" where
  "cmd_RPOPLPUSH pf v =
     bind (checkArgumentCount v 2) (\<lambda>_.
     bind (eatS pf v []) (\<lambda>(keyArg, v).
     bind (eatS pf v []) (\<lambda>(stringArg, v).
     bind (getList keyArg) (\<lambda>lk.
     case lk of
       None \<Rightarrow> ret createNull
     | Some m_list \<Rightarrow>
         if m_list = [] then ret createNull
         else let result = last m_list
              in bind (getCreateList stringArg) (\<lambda>other.
                 bind (put stringArg (ListKey (push_front result other))) (\<lambda>_.
                 bind (getCreateList keyArg) (\<lambda>m_list.
                 bind (put keyArg (ListKey (butlast m_list))) (\<lambda>_.
                 bind (eraseIfEmpty (butlast m_list) keyArg) (\<lambda>_.
                 ret (createString result))))))))))"

section \<open>Set commands\<close>

fun sadd_loop :: "'f platform \<Rightarrow> string \<Rightarrow> 'f view \<Rightarrow> string \<Rightarrow> string list \<Rightarrow> int \<Rightarrow> (db, int) action" where
  "sadd_loop pf keyArg [] stringArg m_set result = ret result"
| "sadd_loop pf keyArg (x # v) stringArg m_set result =
     bind (eatS pf (x # v) stringArg) (\<lambda>(stringArg, _).
     if stringArg \<notin> set m_set
     then bind (put keyArg (SetKey (set_insert stringArg m_set))) (\<lambda>_.
          sadd_loop pf keyArg v stringArg (set_insert stringArg m_set) (result + 1))
     else sadd_loop pf keyArg v stringArg m_set result)"

definition cmd_SADD :: "'f platform \<Rightarrow> 'f view \<Rightarrow> (db, 'f reply) action" where
  "cmd_SADD pf v =
     bind (checkArgumentCountAtLeast v 2) (\<lambda>_.
     bind (eatS pf v []) (\<lambda>(keyArg, v).
     bind (getCreateSet keyArg) (\<lambda>sk.
     bind (sadd_loop pf keyArg v [] sk 0) (\<lambda>result.
     ret (createInteger result)))))"

definition cmd_SCARD :: "'f platform \<Rightarrow> 'f view \<Rightarrow> (db, 'f reply) action" where
  "cmd_SCARD pf v =
     bind (checkArgumentCount v 1) (\<lambda>_.
     bind (eatS pf v []) (\<lambda>(keyArg, v).
     bind (getSet keyArg) (\<lambda>sk.
     ret (createInteger (case sk of None \<Rightarrow> 0 | Some m_set \<Rightarrow> to_int32 (int (length m_set)))))))"

datatype SetOperation = Union | Intersection | Difference

text \<open>The loop bodies of \<open>executeSetOperation\<close>: erasing from \<open>out\<close> while iterating over it is a
  filter, and inserting the elements of the other set one by one a fold.\<close>

fun combine :: "SetOperation \<Rightarrow> string list \<Rightarrow> string list \<Rightarrow> string list" where
  "combine Difference out s = filter (\<lambda>x. x \<notin> set s) out"
| "combine Intersection out s = filter (\<lambda>x. x \<in> set s) out"
| "combine Union out s = fold set_insert s out"

fun setOperation_loop :: "'f platform \<Rightarrow> SetOperation \<Rightarrow> string \<Rightarrow> string list \<Rightarrow> 'f view \<Rightarrow>
    (db, string list) action" where
  "setOperation_loop pf op key out [] = ret out"
| "setOperation_loop pf op key out (x # v) =
     bind (eatS pf (x # v) key) (\<lambda>(key, _).
     bind (getSet key) (\<lambda>sk.
     setOperation_loop pf op key (combine op out (case sk of None \<Rightarrow> [] | Some s \<Rightarrow> s)) v))"

definition executeSetOperation :: "'f platform \<Rightarrow> SetOperation \<Rightarrow> 'f view \<Rightarrow> (db, string list) action" where
  "executeSetOperation pf op v =
     bind (eatS pf v []) (\<lambda>(key, v).
     bind (getSet key) (\<lambda>sk.
     setOperation_loop pf op key (case sk of None \<Rightarrow> [] | Some s \<Rightarrow> s) v))"

definition setOperation :: "SetOperation \<Rightarrow> 'f platform \<Rightarrow> 'f view \<Rightarrow> (db, 'f reply) action" where
  "setOperation op pf v =
     bind (checkArgumentCountAtLeast v 1) (\<lambda>_.
     bind (executeSetOperation pf op v) (\<lambda>s.
     ret (createVector (pushBackStrings s))))"

definition setOperationStore :: "SetOperation \<Rightarrow> 'f platform \<Rightarrow> 'f view \<Rightarrow> (db, 'f reply) action" where
  "setOperationStore op pf v =
     bind (checkArgumentCountAtLeast v 2) (\<lambda>_.
     bind (eatS pf v []) (\<lambda>(keyArg, v).
     bind (executeSetOperation pf op v) (\<lambda>s.
     bind (getCreateSet keyArg) (\<lambda>_.
     bind (put keyArg (SetKey s)) (\<lambda>_.
     bind (eraseIfEmpty s keyArg) (\<lambda>_.
     ret (createInteger (to_int32 (int (length s))))))))))"

definition cmd_SDIFF :: "'f platform \<Rightarrow> 'f view \<Rightarrow> (db, 'f reply) action" where
  "cmd_SDIFF = setOperation Difference"
definition cmd_SDIFFSTORE :: "'f platform \<Rightarrow> 'f view \<Rightarrow> (db, 'f reply) action" where
  "cmd_SDIFFSTORE = setOperationStore Difference"
definition cmd_SINTER :: "'f platform \<Rightarrow> 'f view \<Rightarrow> (db, 'f reply) action" where
  "cmd_SINTER = setOperation Intersection"
definition cmd_SINTERSTORE :: "'f platform \<Rightarrow> 'f view \<Rightarrow> (db, 'f reply) action" where
  "cmd_SINTERSTORE = setOperationStore Intersection"
definition cmd_SUNION :: "'f platform \<Rightarrow> 'f view \<Rightarrow> (db, 'f reply) action" where
  "cmd_SUNION = setOperation Union"
definition cmd_SUNIONSTORE :: "'f platform \<Rightarrow> 'f view \<Rightarrow> (db, 'f reply) action" where
  "cmd_SUNIONSTORE = setOperationStore Union"

definition cmd_SISMEMBER :: "'f platform \<Rightarrow> 'f view \<Rightarrow> (db, 'f reply) action" where
  "cmd_SISMEMBER pf v =
     bind (checkArgumentCount v 2) (\<lambda>_.
     bind (eatS pf v []) (\<lambda>(keyArg, v).
     bind (eatS pf v []) (\<lambda>(stringArg, v).
     bind (getSet keyArg) (\<lambda>sk.
     ret (createInteger (case sk of None \<Rightarrow> 0 | Some m_set \<Rightarrow> if stringArg \<in> set m_set then 1 else 0))))))"

definition cmd_SMEMBERS :: "'f platform \<Rightarrow> 'f view \<Rightarrow> (db, 'f reply) action" where
  "cmd_SMEMBERS pf v =
     bind (checkArgumentCount v 1) (\<lambda>_.
     bind (eatS pf v []) (\<lambda>(keyArg, v).
     bind (getSet keyArg) (\<lambda>sk.
     ret (createVector (pushBackStrings (case sk of None \<Rightarrow> [] | Some m_set \<Rightarrow> m_set))))))"

definition cmd_SMOVE :: "'f platform \<Rightarrow> 'f view \<Rightarrow> (db, 'f reply) action" where
  "cmd_SMOVE pf v =
     bind (checkArgumentCount v 3) (\<lambda>_.
     bind (eatS pf v []) (\<lambda>(keyArg, v).
     bind (eatS pf v []) (\<lambda>(dest, v).
     bind (eatS pf v []) (\<lambda>(stringArg, v).
     bind (getSet keyArg) (\<lambda>sk.
     case sk of
       None \<Rightarrow> ret (createInteger 0)
     | Some m_set \<Rightarrow>
         if stringArg \<in> set m_set
         then bind (put keyArg (SetKey (set_erase stringArg m_set))) (\<lambda>_.
              bind (getCreateSet dest) (\<lambda>other.
              bind (put dest (SetKey (set_insert stringArg other))) (\<lambda>_.
              bind (getCreateSet keyArg) (\<lambda>m_set.
              bind (eraseIfEmpty m_set keyArg) (\<lambda>_.
              ret (createInteger 1))))))
         else ret (createInteger 0))))))"

text \<open>SPOP and SRANDMEMBER share their code; \<open>remove\<close> is \<open>verb=="SPOP"\<close>.\<close>

definition randomMember :: "bool \<Rightarrow> 'f platform \<Rightarrow> 'f view \<Rightarrow> (db, 'f reply) action" where
  "randomMember remove pf v =
     bind (checkArgumentCount v 1) (\<lambda>_.
     bind (eatS pf v []) (\<lambda>(keyArg, v).
     bind (getSet keyArg) (\<lambda>sk.
     case sk of
       None \<Rightarrow> ret createNull
     | Some m_set \<Rightarrow>
         (case getRandomElement pf m_set remove of
            None \<Rightarrow> ret createNull
          | Some (result, m_set) \<Rightarrow>
              bind (put keyArg (SetKey m_set)) (\<lambda>_.
              bind (eraseIfEmpty m_set keyArg) (\<lambda>_.
              ret (createString result)))))))"

definition cmd_SPOP :: "'f platform \<Rightarrow> 'f view \<Rightarrow> (db, 'f reply) action" where
  "cmd_SPOP = randomMember True"
definition cmd_SRANDMEMBER :: "'f platform \<Rightarrow> 'f view \<Rightarrow> (db, 'f reply) action" where
  "cmd_SRANDMEMBER = randomMember False"

fun srem_loop :: "'f platform \<Rightarrow> string \<Rightarrow> 'f view \<Rightarrow> string \<Rightarrow> string list \<Rightarrow> int \<Rightarrow>
    (db, int \<times> string list) action" where
  "srem_loop pf keyArg [] stringArg m_set result = ret (result, m_set)"
| "srem_loop pf keyArg (x # v) stringArg m_set result =
     bind (eatS pf (x # v) stringArg) (\<lambda>(stringArg, _).
     bind (put keyArg (SetKey (set_erase stringArg m_set))) (\<lambda>_.
     srem_loop pf keyArg v stringArg (set_erase stringArg m_set)
       (if stringArg \<in> set m_set then result + 1 else result)))"

definition cmd_SREM :: "'f platform \<Rightarrow> 'f view \<Rightarrow> (db, 'f reply) action" where
  "cmd_SREM pf v =
     bind (checkArgumentCountAtLeast v 2) (\<lambda>_.
     bind (eatS pf v []) (\<lambda>(keyArg, v).
     bind (getSet keyArg) (\<lambda>sk.
     case sk of
       None \<Rightarrow> ret (createInteger 0)
     | Some m_set \<Rightarrow>
         bind (srem_loop pf keyArg v [] m_set 0) (\<lambda>(result, m_set).
         bind (eraseIfEmpty m_set keyArg) (\<lambda>_.
         ret (createInteger result))))))"

section \<open>SORT\<close>

definition getSortValue :: "db \<Rightarrow> string \<Rightarrow> string \<Rightarrow> string option" where
  "getSortValue m_data originValue pattern =
     (if pattern = ''#'' then Some originValue
      else
        let pattern = (case str_find pattern ''*'' of
              Some n \<Rightarrow> take n pattern @ originValue @ drop (n + 1) pattern
            | None \<Rightarrow> pattern)
        in case str_find pattern ''->'' of
             Some n \<Rightarrow>
               (case map_of m_data (take n pattern) of
                  Some (HashKey m_hash) \<Rightarrow> map_of m_hash (drop (n + 2) pattern)
                | _ \<Rightarrow> None)
           | None \<Rightarrow>
               (case map_of m_data pattern of
                  Some (StringKey m_string) \<Rightarrow> Some m_string
                | _ \<Rightarrow> None))"

text \<open>The text that the sort predicate compares, and its number; \<open>None\<close> where the predicate throws.\<close>

definition sortText :: "db \<Rightarrow> string \<Rightarrow> string \<Rightarrow> string" where
  "sortText m_data pattern a = (case getSortValue m_data a pattern of None \<Rightarrow> [] | Some s \<Rightarrow> s)"

definition sortNumber :: "string \<Rightarrow> int option" where
  "sortNumber s = (if s = [] then Some 0 else strToInteger s)"

definition Sorter :: "db \<Rightarrow> string \<Rightarrow> bool \<Rightarrow> bool \<Rightarrow> string \<Rightarrow> string \<Rightarrow> bool result" where
  "Sorter m_data pattern descending alpha a b =
     (let as = sortText m_data pattern (if descending then b else a);
          bs = sortText m_data pattern (if descending then a else b)
      in if alpha then Inr (as < bs)
         else case (sortNumber as, sortNumber bs) of
                (Some ai, Some bi) \<Rightarrow> Inr (ai < bi)
              | _ \<Rightarrow> failr INVALID_TYPE_INT)"

text \<open>
  \<open>std::sort\<close> with a predicate that may throw. The order of the comparisons is unspecified, but
  a sort of two or more elements passes every element to the predicate, so it throws exactly
  when there are two or more elements and the predicate throws for one of them.
\<close>

definition sortThrowing :: "'f platform \<Rightarrow> (string \<Rightarrow> string \<Rightarrow> bool result) \<Rightarrow> string list \<Rightarrow> string list result" where
  "sortThrowing pf lt xs =
     (if length xs \<ge> 2
      then (case find isl (map (\<lambda>x. lt x x) xs) of
              Some (Inl e) \<Rightarrow> Inl e
            | _ \<Rightarrow> Inr (stdSort pf (\<lambda>a b. lt a b = Inr True) xs))
      else Inr xs)"

record sort_options =
  o_pattern :: string
  o_get :: "string list"
  o_limit :: bool
  o_offset :: int
  o_count :: int
  o_descending :: bool
  o_alpha :: bool
  o_store :: bool
  o_storeKey :: string

definition sort_options_init :: sort_options where
  "sort_options_init = \<lparr>o_pattern = ''#'', o_get = [], o_limit = False, o_offset = 0, o_count = 0,
     o_descending = False, o_alpha = False, o_store = False, o_storeKey = []\<rparr>"

definition argString :: "'f platform \<Rightarrow> 'f Value option \<Rightarrow> string \<Rightarrow> string result" where
  "argString pf x old = rbind (eatString pf [x] old) (\<lambda>(s, _). Inr s)"

definition argInteger :: "'f platform \<Rightarrow> 'f Value option \<Rightarrow> int \<Rightarrow> int result" where
  "argInteger pf x old = rbind (eatInteger pf [x] old) (\<lambda>(i, _). Inr i)"

function sortParse :: "'f platform \<Rightarrow> 'f view \<Rightarrow> sort_options \<Rightarrow> sort_options result" where
  "sortParse pf [] opt = Inr opt"
| "sortParse pf (x # v) opt =
     rbind (argString pf x []) (\<lambda>flag. let flag = strUCase flag in
     if flag = ''BY'' then
       (case v of
          p # v \<Rightarrow> rbind (argString pf p (o_pattern opt)) (\<lambda>pattern. sortParse pf v (opt\<lparr>o_pattern := pattern\<rparr>))
        | [] \<Rightarrow> failr INVALID_PARAMETER_COUNT)
     else if flag = ''LIMIT'' then
       (case v of
          p # q # v \<Rightarrow>
            rbind (argInteger pf p (o_offset opt)) (\<lambda>offset.
            rbind (argInteger pf q (o_count opt)) (\<lambda>count.
            sortParse pf v (opt\<lparr>o_offset := offset, o_count := count, o_limit := True\<rparr>)))
        | _ \<Rightarrow> failr INVALID_PARAMETER_COUNT)
     else if flag = ''GET'' then
       (case v of
          p # v \<Rightarrow> rbind (argString pf p []) (\<lambda>n. sortParse pf v (opt\<lparr>o_get := o_get opt @ [n]\<rparr>))
        | [] \<Rightarrow> failr INVALID_PARAMETER_COUNT)
     else if flag = ''ASC'' then sortParse pf v (opt\<lparr>o_descending := False\<rparr>)
     else if flag = ''DESC'' then sortParse pf v (opt\<lparr>o_descending := True\<rparr>)
     else if flag = ''ALPHA'' then sortParse pf v (opt\<lparr>o_alpha := True\<rparr>)
     else if flag = ''STORE'' then
       (case v of
          p # v \<Rightarrow> rbind (argString pf p (o_storeKey opt)) (\<lambda>k. sortParse pf v (opt\<lparr>o_storeKey := k, o_store := True\<rparr>))
        | [] \<Rightarrow> failr INVALID_PARAMETER_COUNT)
     else failr INVALID_OPTION)"
  by pat_completeness auto
termination by (relation "measure (\<lambda>(pf, v, opt). length v)") auto

text \<open>The output loop: \<open>emit\<close> stands for the body that looks up every GET pattern. An index that is
  negative is outside the vector.\<close>

function sortOutput :: "(string \<Rightarrow> 'a list) \<Rightarrow> string list \<Rightarrow> int \<Rightarrow> int \<Rightarrow> 'a list result" where
  "sortOutput emit values i count =
     (if i < to_int32 (int (length values)) \<and> count > 0
      then if i < 0 then Inl Undefined
           else rbind (sortOutput emit values (i + 1) (count - 1)) (\<lambda>rest.
                Inr (emit (values ! nat i) @ rest))
      else Inr [])"
  by auto
termination by (relation "measure (\<lambda>(emit, values, i, count). nat count)") auto

declare sortOutput.simps [simp del]

definition executeSortOperation :: "'f platform \<Rightarrow> string list option \<Rightarrow> 'f view \<Rightarrow> (db, 'f segment) action" where
  "executeSortOperation pf key v =
     bind (lift (sortParse pf v sort_options_init)) (\<lambda>opt.
     let getPatterns = (if o_get opt = [] then [''#''] else o_get opt);
         originValues = (case key of None \<Rightarrow> [] | Some xs \<Rightarrow> xs)
     in bind (gets (\<lambda>m_data. Sorter m_data (o_pattern opt) (o_descending opt) (o_alpha opt))) (\<lambda>lt.
        bind (lift (sortThrowing pf lt originValues)) (\<lambda>originValues.
        let offset = (if o_limit opt then o_offset opt else 0);
            count = (if o_limit opt then o_count opt else to_int32 (int (length originValues)))
        in if o_store opt
           then bind (eraseKey (o_storeKey opt)) (\<lambda>_.
                if originValues \<noteq> []
                then bind (getCreateList (o_storeKey opt)) (\<lambda>_.
                     bind (gets (\<lambda>m_data. sortOutput (\<lambda>x. map (\<lambda>g. sortText m_data g x) getPatterns)
                       originValues offset count)) (\<lambda>out.
                     bind (lift out) (\<lambda>m_list.
                     bind (put (o_storeKey opt) (ListKey m_list)) (\<lambda>_.
                     ret []))))
                else ret [])
           else bind (gets (\<lambda>m_data. sortOutput (\<lambda>x. map (\<lambda>g. map_option StringValue (getSortValue m_data x g)) getPatterns)
                  originValues offset count)) (\<lambda>out. lift out))))"

definition cmd_SORT :: "'f platform \<Rightarrow> 'f view \<Rightarrow> (db, 'f reply) action" where
  "cmd_SORT pf v =
     bind (checkArgumentCountAtLeast v 1) (\<lambda>_.
     bind (eatS pf v []) (\<lambda>(keyArg, v).
     bind (get as_Sortable keyArg) (\<lambda>key.
     bind (executeSortOperation pf key v) (\<lambda>result.
     ret (createVector result)))))"

section \<open>Dispatch\<close>

definition cmd_PING :: "'f platform \<Rightarrow> 'f view \<Rightarrow> (db, 'f reply) action" where
  "cmd_PING pf v = ret (createString ''PONG'')"

definition execute :: "'f platform \<Rightarrow> string \<Rightarrow> 'f view \<Rightarrow> (db, 'f reply) action" where
  "execute pf verb v =
     (if verb = ''APPEND'' then cmd_APPEND pf v
      else if verb = ''DECR'' then cmd_DECR pf v
      else if verb = ''DECRBY'' then cmd_DECRBY pf v
      else if verb = ''DEL'' then cmd_DEL pf v
      else if verb = ''EXISTS'' then cmd_EXISTS pf v
      else if verb = ''GET'' then cmd_GET pf v
      else if verb = ''GETRANGE'' then cmd_GETRANGE pf v
      else if verb = ''GETSET'' then cmd_GETSET pf v
      else if verb = ''HDEL'' then cmd_HDEL pf v
      else if verb = ''HEXISTS'' then cmd_HEXISTS pf v
      else if verb = ''HGET'' then cmd_HGET pf v
      else if verb = ''HGETALL'' then cmd_HGETALL pf v
      else if verb = ''HINCRBY'' then cmd_HINCRBY pf v
      else if verb = ''HKEYS'' then cmd_HKEYS pf v
      else if verb = ''HLEN'' then cmd_HLEN pf v
      else if verb = ''HMGET'' then cmd_HMGET pf v
      else if verb = ''HMSET'' then cmd_HMSET pf v
      else if verb = ''HSET'' then cmd_HSET pf v
      else if verb = ''INCR'' then cmd_INCR pf v
      else if verb = ''INCRBY'' then cmd_INCRBY pf v
      else if verb = ''KEYS'' then cmd_KEYS pf v
      else if verb = ''LINDEX'' then cmd_LINDEX pf v
      else if verb = ''LLEN'' then cmd_LLEN pf v
      else if verb = ''LPOP'' then cmd_LPOP pf v
      else if verb = ''LPUSH'' then cmd_LPUSH pf v
      else if verb = ''LRANGE'' then cmd_LRANGE pf v
      else if verb = ''LREM'' then cmd_LREM pf v
      else if verb = ''LSET'' then cmd_LSET pf v
      else if verb = ''LTRIM'' then cmd_LTRIM pf v
      else if verb = ''MSET'' then cmd_MSET pf v
      else if verb = ''RENAME'' then cmd_RENAME pf v
      else if verb = ''RENAMENX'' then cmd_RENAMENX pf v
      else if verb = ''RPOP'' then cmd_RPOP pf v
      else if verb = ''RPOPLPUSH'' then cmd_RPOPLPUSH pf v
      else if verb = ''RPUSH'' then cmd_RPUSH pf v
      else if verb = ''SADD'' then cmd_SADD pf v
      else if verb = ''SCARD'' then cmd_SCARD pf v
      else if verb = ''SDIFF'' then cmd_SDIFF pf v
      else if verb = ''SDIFFSTORE'' then cmd_SDIFFSTORE pf v
      else if verb = ''SET'' then cmd_SET pf v
      else if verb = ''SETNX'' then cmd_SETNX pf v
      else if verb = ''SINTER'' then cmd_SINTER pf v
      else if verb = ''SINTERSTORE'' then cmd_SINTERSTORE pf v
      else if verb = ''SISMEMBER'' then cmd_SISMEMBER pf v
      else if verb = ''SMEMBERS'' then cmd_SMEMBERS pf v
      else if verb = ''SMOVE'' then cmd_SMOVE pf v
      else if verb = ''SORT'' then cmd_SORT pf v
      else if verb = ''SPOP'' then cmd_SPOP pf v
      else if verb = ''SRANDMEMBER'' then cmd_SRANDMEMBER pf v
      else if verb = ''SREM'' then cmd_SREM pf v
      else if verb = ''STRLEN'' then cmd_STRLEN pf v
      else if verb = ''SUNION'' then cmd_SUNION pf v
      else if verb = ''SUNIONSTORE'' then cmd_SUNIONSTORE pf v
      else if verb = ''TYPE'' then cmd_TYPE pf v
      else if verb = ''PING'' then cmd_PING pf v
      else fail INVALID_COMMAND)"

text \<open>What \<open>what()\<close> gives for the exceptions derived from \<open>std::runtime_error\<close>.\<close>

fun what :: "exn \<Rightarrow> string option" where
  "what (RemoteErrorException source msg) = Some msg"
| "what (InvalidDataException msg) = Some msg"
| "what (FileFormatException msg) = Some msg"
| "what FileTooShortException = Some ''File too short''"
| "what (RuntimeError msg) = Some msg"
| "what Undefined = None"

definition wrapError :: "string \<Rightarrow> exn \<Rightarrow> exn" where
  "wrapError verb e =
     (case what e of
        None \<Rightarrow> e
      | Some msg \<Rightarrow>
          RuntimeError (Format ''%s [verb: %s]'' [formatToString (c_str msg), formatToString verb]))"

definition call :: "'f platform \<Rightarrow> 'f segment \<Rightarrow> (db, 'f reply) action" where
  "call pf command =
     (case eat command of
        (None, v) \<Rightarrow> fail MISSING_COMMAND
      | (Some x, v) \<Rightarrow>
          bind (lift (toString pf (Some x))) (\<lambda>verb.
          let verb = strUCase verb
          in (\<lambda>m_data. case execute pf verb v m_data of
                (Inl e, m_data) \<Rightarrow> (Inl (wrapError verb e), m_data)
              | (Inr r, m_data) \<Rightarrow> (Inr r, m_data))))"

definition callVoid :: "'f platform \<Rightarrow> 'f segment \<Rightarrow> (db, unit) action" where
  "callVoid pf command = bind (call pf command) (\<lambda>_. ret ())"

end
