(* ===== verification/Afl_Redis_Inv.thy ===== *)
theory Afl_Redis_Inv
  imports Afl_Redis
begin

text \<open>
  The invariant of the database. A database is well-formed when its map is strictly sorted by
  name and every hash and set in it is strictly sorted as well, which is what makes lookup,
  removal and iteration of the ordered containers agree. \<open>db_inv A db0\<close> says more of a run: the
  database is well-formed, and every key outside \<open>A\<close> is as it was in \<open>db0\<close>. One pass over the
  commands with the rules of \<open>wf_rules\<close> gives both the preservation of well-formedness and
  the frame property.
\<close>

fun key_wf :: "key \<Rightarrow> bool" where
  "key_wf (HashKey m_hash) = map_wf m_hash"
| "key_wf (SetKey m_set) = set_wf m_set"
| "key_wf _ = True"

definition db_wf :: "db \<Rightarrow> bool" where
  "db_wf db \<longleftrightarrow> map_wf db \<and> list_all (\<lambda>p. key_wf (snd p)) db"

definition db_inv :: "string set \<Rightarrow> db \<Rightarrow> db \<Rightarrow> bool" where
  "db_inv A db0 db \<longleftrightarrow> db_wf db \<and> (\<forall>k. k \<notin> A \<longrightarrow> map_of db k = map_of db0 k)"

text \<open>The names a command may be given: the texts of its arguments.\<close>

definition args :: "'f platform \<Rightarrow> 'f view \<Rightarrow> string set" where
  "args pf v = {s. \<exists>x\<in>set v. toString pf x = Inr s}"

definition allowed :: "'f platform \<Rightarrow> string set \<Rightarrow> 'f view \<Rightarrow> bool" where
  "allowed pf A v \<longleftrightarrow> [] \<in> A \<and> args pf v \<subseteq> A"

section \<open>Well-formed databases\<close>

lemma db_wf_lookup: "db_wf db \<Longrightarrow> map_of db k = Some x \<Longrightarrow> key_wf x"
  by (fastforce simp: db_wf_def list_all_iff dest: map_of_SomeD)

lemma set_map_set_subset: "set (map_set k v m) \<subseteq> insert (k, v) (set m)"
  by (induction k v m rule: map_set.induct) auto

lemma db_wf_map_set: "db_wf db \<Longrightarrow> key_wf x \<Longrightarrow> db_wf (map_set k x db)"
  using set_map_set_subset [of k x db] by (fastforce simp: db_wf_def list_all_iff map_wf_map_set)

lemma db_wf_map_erase: "db_wf db \<Longrightarrow> db_wf (map_erase k db)"
  by (auto simp: db_wf_def list_all_iff map_wf_map_erase) (auto simp: map_erase_def)

lemma db_inv_map_set: "db_inv A db0 db \<Longrightarrow> k \<in> A \<Longrightarrow> key_wf x \<Longrightarrow> db_inv A db0 (map_set k x db)"
  by (auto simp: db_inv_def db_wf_map_set)

lemma db_inv_map_erase: "db_inv A db0 db \<Longrightarrow> k \<in> A \<Longrightarrow> db_inv A db0 (map_erase k db)"
  by (auto simp: db_inv_def db_wf_map_erase)

lemma db_inv_lookup: "db_inv A db0 db \<Longrightarrow> map_of db k = Some x \<Longrightarrow> key_wf x"
  by (auto simp: db_inv_def intro: db_wf_lookup)

section \<open>Rules for the primitives\<close>

abbreviation kept :: "string set \<Rightarrow> db \<Rightarrow> (db, 'a) action \<Rightarrow> bool" where
  "kept A db0 m \<equiv> keeps (db_inv A db0) m"

lemma kept_bind_gets:
  "(\<And>db. db_inv A db0 db \<Longrightarrow> kept A db0 (f (g db))) \<Longrightarrow> kept A db0 (bind (gets g) f)"
  by (simp add: keeps_def)

lemma kept_fail [wf_rules]: "kept A db0 (fail msg)"
  by (simp add: keeps_def fail_def)

lemma kept_check [wf_rules]: "kept A db0 (checkArgumentCount v n)" "kept A db0 (checkArgumentCountAtLeast v n)"
  by (simp_all add: checkArgumentCount_def checkArgumentCountAtLeast_def wf_rules)

lemma kept_put [wf_rules]: "k \<in> A \<Longrightarrow> key_wf x \<Longrightarrow> kept A db0 (put k x)"
  unfolding put_def by (rule keeps_modify) (rule db_inv_map_set)

lemma kept_modify_erase [wf_rules]: "k \<in> A \<Longrightarrow> kept A db0 (modify (map_erase k))"
  by (rule keeps_modify) (rule db_inv_map_erase)

lemma kept_eraseKey [wf_rules]: "k \<in> A \<Longrightarrow> kept A db0 (eraseKey k)"
  unfolding eraseKey_def by (intro wf_rules)

lemma kept_eraseIfEmpty [wf_rules]: "k \<in> A \<Longrightarrow> kept A db0 (eraseIfEmpty c k)"
  unfolding eraseIfEmpty_def by (intro wf_rules)

text \<open>Reading a key by type: what is read is well-formed.\<close>

definition cast_wf :: "(key \<Rightarrow> 'k option) \<Rightarrow> ('k \<Rightarrow> bool) \<Rightarrow> bool" where
  "cast_wf cast P \<longleftrightarrow> (\<forall>k x. key_wf k \<longrightarrow> cast k = Some x \<longrightarrow> P x)"

lemma cast_wf_rules [wf_rules]:
  "cast_wf as_String (\<lambda>_. True)" "cast_wf as_Hash map_wf" "cast_wf as_List (\<lambda>_. True)"
  "cast_wf as_Set set_wf" "cast_wf as_Sortable (\<lambda>_. True)" "cast_wf Some key_wf"
  unfolding cast_wf_def by (safe; rename_tac k x; case_tac k; simp)+

lemma kept_bind_get:
  assumes "cast_wf cast P" "kept A db0 (f None)" "\<And>x. P x \<Longrightarrow> kept A db0 (f (Some x))"
  shows "kept A db0 (bind (get cast k) f)"
proof (rule keepsI)
  fix db assume db: "db_inv A db0 db"
  show "db_inv A db0 (snd (bind (get cast k) f db))"
  proof (cases "map_of db k")
    case None
    with db assms(2) show ?thesis by (simp add: get_def bind_def keeps_def)
  next
    case (Some x)
    then have "key_wf x" by (rule db_inv_lookup [OF db])
    with Some db assms(1,3) show ?thesis
      by (cases "cast x") (auto simp: get_def bind_def keeps_def fail_def failr_def cast_wf_def)
  qed
qed

lemma kept_bind_getCreate:
  assumes "cast_wf cast P" "k \<in> A" "key_wf (mk new)" "P new" "\<And>x. P x \<Longrightarrow> kept A db0 (f x)"
  shows "kept A db0 (bind (getCreate cast mk new k) f)"
proof -
  have "kept A db0 (bind (get cast k) (\<lambda>tk. case tk of
      None \<Rightarrow> bind (put k (mk new)) (\<lambda>_. f new) | Some tk \<Rightarrow> f tk))"
    by (rule kept_bind_get [OF assms(1)]) (simp_all add: assms wf_rules)
  moreover have "bind (getCreate cast mk new k) f = bind (get cast k) (\<lambda>tk. case tk of
      None \<Rightarrow> bind (put k (mk new)) (\<lambda>_. f new) | Some tk \<Rightarrow> f tk)"
    by (rule ext) (auto simp: getCreate_def bind_def put_def split: prod.split sum.split option.split)
  ultimately show ?thesis by simp
qed

text \<open>Reading an argument: what is read is an allowed name.\<close>

lemma eatString_Cons:
  "eatString pf (x # v) old =
     (case x of None \<Rightarrow> Inr (old, v) | Some y \<Rightarrow> rbind (valueToString pf y) (\<lambda>s. Inr (s, v)))"
  by (simp add: eatString_def eat_def toString_def split: option.split)

lemma eatString_allowed:
  assumes "allowed pf A v" "old \<in> A" "eatString pf v old = Inr (s, v')"
  shows "s \<in> A \<and> allowed pf A v'"
proof (cases v)
  case Nil
  with assms show ?thesis by (auto simp: eatString_def eat_def)
next
  case (Cons x xs)
  with assms show ?thesis
    by (cases x) (auto simp: eatString_Cons allowed_def args_def toString_def rbind_eq_Inr)
qed

lemma eatInteger_allowed:
  "allowed pf A v \<Longrightarrow> eatInteger pf v old = Inr (i, v') \<Longrightarrow> allowed pf A v'"
  by (cases v) (auto simp: eatInteger_def eat_def allowed_def args_def rbind_eq_Inr split: option.splits)

lemma kept_bind_eatS:
  assumes "allowed pf A v" "old \<in> A" "\<And>s v'. s \<in> A \<Longrightarrow> allowed pf A v' \<Longrightarrow> kept A db0 (f s v')"
  shows "kept A db0 (bind (eatS pf v old) (case_prod f))"
proof (cases "eatString pf v old")
  case (Inl e)
  then show ?thesis by (simp add: eatS_def keeps_def)
next
  case (Inr r)
  obtain s v' where "r = (s, v')" by fastforce
  with Inr assms eatString_allowed [OF assms(1,2)] show ?thesis
    by (simp add: eatS_def keeps_def)
qed

lemma kept_bind_eatI:
  assumes "allowed pf A v" "\<And>i v'. allowed pf A v' \<Longrightarrow> kept A db0 (f i v')"
  shows "kept A db0 (bind (eatI pf v old) (case_prod f))"
proof (cases "eatInteger pf v old")
  case (Inl e)
  then show ?thesis by (simp add: eatI_def keeps_def)
next
  case (Inr r)
  obtain i v' where "r = (i, v')" by fastforce
  with Inr assms eatInteger_allowed [OF assms(1)] show ?thesis
    by (simp add: eatI_def keeps_def)
qed

lemma allowed_Nil: "allowed pf A v \<Longrightarrow> [] \<in> A"
  by (simp add: allowed_def)

lemma allowed_tl: "allowed pf A (x # v) \<Longrightarrow> allowed pf A v"
  by (auto simp: allowed_def args_def)

lemma kept_bind_get_case:
  assumes "cast_wf cast P" "kept A db0 m" "\<And>x. P x \<Longrightarrow> kept A db0 (f x)"
  shows "kept A db0 (bind (get cast k) (case_option m f))"
  by (rule kept_bind_get [OF assms(1)]) (simp_all add: assms)

text \<open>The rules in the order in which they are tried.\<close>

lemmas kept_bind_simple = keeps_bind [OF kept_check(1)] keeps_bind [OF kept_check(2)]
  keeps_bind [OF kept_put] keeps_bind [OF kept_modify_erase] keeps_bind [OF kept_eraseKey]
  keeps_bind [OF kept_eraseIfEmpty] keeps_bind [OF keeps_lift] keeps_bind [OF keeps_gets]
  keeps_bind [OF keeps_if [OF kept_fail keeps_ret]]

lemmas kept_rules = kept_bind_get_case kept_bind_get kept_bind_getCreate kept_bind_eatS kept_bind_eatI
  kept_bind_simple kept_put keeps_ret kept_fail keeps_lift
  keeps_if keeps_let cast_wf_rules

lemma map_wf_subscript: "map_wf h \<Longrightarrow> map_wf (subscript f h)"
  by (simp add: subscript_def map_wf_map_set split: option.split)

lemmas content_wf = map_wf_subscript map_wf_map_set map_wf_map_erase set_wf_set_insert set_wf_set_erase

section \<open>Every command keeps the invariant\<close>

lemma kept_modifyKey: "k \<in> A \<Longrightarrow> kept A db0 (modifyKey k d)"
  unfolding modifyKey_def
  by ((rule kept_rules keeps_prod | assumption | simp; fail)+)

lemma kept_setKeyNew: "k \<in> A \<Longrightarrow> kept A db0 (setKeyNew k s)"
  unfolding setKeyNew_def
  by ((rule kept_rules | assumption | simp; fail)+)

lemma kept_renameKey: "k \<in> A \<Longrightarrow> k' \<in> A \<Longrightarrow> key_wf x \<Longrightarrow> kept A db0 (renameKey k k' x)"
  unfolding renameKey_def
  by ((rule kept_rules | assumption | simp; fail)+)

lemma kept_del_loop: "allowed pf A v \<Longrightarrow> k \<in> A \<Longrightarrow> kept A db0 (del_loop pf v k n)"
  by (induction v arbitrary: k n)
    (simp_all only: del_loop.simps, (rule kept_rules | assumption | blast dest: allowed_tl)+)

lemma kept_exists_loop: "allowed pf A v \<Longrightarrow> k \<in> A \<Longrightarrow> kept A db0 (exists_loop pf v k n)"
  by (induction v arbitrary: k n)
    (simp_all only: exists_loop.simps, (rule kept_rules | assumption | blast dest: allowed_tl)+)

lemma kept_mset_loop: "allowed pf A v \<Longrightarrow> k \<in> A \<Longrightarrow> s \<in> A \<Longrightarrow> kept A db0 (mset_loop pf v k s)"
  by (induction pf v k s rule: mset_loop.induct)
    (simp_all only: mset_loop.simps,
     (rule kept_rules keeps_bind [OF kept_setKeyNew] kept_setKeyNew | assumption | blast dest: allowed_tl)+)

lemma kept_hexists_loop: "allowed pf A v \<Longrightarrow> k \<in> A \<Longrightarrow> kept A db0 (hexists_loop pf hk v k n)"
  by (induction v arbitrary: k n)
    (simp_all only: hexists_loop.simps, (rule kept_rules | assumption | blast dest: allowed_tl)+)

lemma kept_hmget_loop: "allowed pf A v \<Longrightarrow> k \<in> A \<Longrightarrow> kept A db0 (hmget_loop pf hk v k r)"
  by (induction v arbitrary: k r)
    (simp_all only: hmget_loop.simps, (rule kept_rules | assumption | blast dest: allowed_tl)+)

lemma kept_hmset_loop:
  "allowed pf A v \<Longrightarrow> k \<in> A \<Longrightarrow> f \<in> A \<Longrightarrow> s \<in> A \<Longrightarrow> map_wf hk \<Longrightarrow> kept A db0 (hmset_loop pf k v f s hk)"
  by (induction pf k v f s hk rule: hmset_loop.induct)
    (simp_all only: hmset_loop.simps,
     (rule kept_rules | assumption | simp add: content_wf; fail | blast dest: allowed_tl intro: map_wf_map_set)+)

lemma kept_push_loop:
  "allowed pf A v \<Longrightarrow> k \<in> A \<Longrightarrow> s \<in> A \<Longrightarrow> kept A db0 (push_loop push pf k v s lk)"
  by (induction v arbitrary: s lk)
    (simp_all only: push_loop.simps, (rule kept_rules | assumption | simp; fail | blast dest: allowed_tl)+)

lemma kept_sadd_loop:
  "allowed pf A v \<Longrightarrow> k \<in> A \<Longrightarrow> s \<in> A \<Longrightarrow> set_wf m \<Longrightarrow> kept A db0 (sadd_loop pf k v s m n)"
  by (induction v arbitrary: s m n)
    (simp_all only: sadd_loop.simps,
     (rule kept_rules | assumption | simp add: content_wf; fail | blast dest: allowed_tl intro: set_wf_set_insert)+)

text \<open>The removal loops also return the content they leave.\<close>

lemma kept_bind_hdel_loop:
  assumes "allowed pf A v" "k \<in> A" "f \<in> A" "map_wf hk"
    and "\<And>n hk. map_wf hk \<Longrightarrow> kept A db0 (g n hk)"
  shows "kept A db0 (bind (hdel_loop pf k v f hk n) (case_prod g))"
  using assms(1-4)
  by (induction v arbitrary: f hk n)
    (simp_all only: hdel_loop.simps bind_laws,
     (rule kept_rules assms(5) | assumption | simp add: content_wf; fail | blast dest: allowed_tl intro: map_wf_map_erase)+)

lemma kept_bind_srem_loop:
  assumes "allowed pf A v" "k \<in> A" "s \<in> A" "set_wf m"
    and "\<And>n m. set_wf m \<Longrightarrow> kept A db0 (g n m)"
  shows "kept A db0 (bind (srem_loop pf k v s m n) (case_prod g))"
  using assms(1-4)
  by (induction v arbitrary: s m n)
    (simp_all only: srem_loop.simps bind_laws,
     (rule kept_rules assms(5) | assumption | simp add: content_wf; fail | blast dest: allowed_tl intro: set_wf_set_erase)+)

text \<open>Set operations give sets.\<close>

lemma set_wf_combine: "set_wf out \<Longrightarrow> set_wf (combine op out s)"
proof (induction op out s rule: combine.induct)
  case (3 out s)
  then show ?case by (simp, induction s arbitrary: out) (simp_all add: set_wf_set_insert)
qed (simp_all add: set_wf_filter)

lemma kept_bind_setOperation_loop:
  assumes "allowed pf A v" "k \<in> A" "set_wf out" and "\<And>s. set_wf s \<Longrightarrow> kept A db0 (g s)"
  shows "kept A db0 (bind (setOperation_loop pf op k out v) g)"
  using assms(1-3)
  by (induction v arbitrary: k out)
    (simp_all only: setOperation_loop.simps bind_laws,
     (rule kept_rules assms(4) | assumption | blast dest: allowed_tl intro: set_wf_combine)+)

lemma kept_bind_executeSetOperation:
  assumes "allowed pf A v" and "\<And>s. set_wf s \<Longrightarrow> kept A db0 (g s)"
  shows "kept A db0 (bind (executeSetOperation pf op v) g)"
  unfolding executeSetOperation_def bind_laws
  by ((rule kept_rules kept_bind_setOperation_loop assms allowed_Nil [OF assms(1)] | assumption | simp; fail)+)

text \<open>The option parser of SORT takes the name of the destination from the arguments.\<close>

lemma allowed_Cons: "allowed pf A (x # v) \<longleftrightarrow> (\<forall>s. toString pf x = Inr s \<longrightarrow> s \<in> A) \<and> allowed pf A v"
  by (auto simp: allowed_def args_def)

lemma argString_allowed:
  "\<forall>s. toString pf x = Inr s \<longrightarrow> s \<in> A \<Longrightarrow> old \<in> A \<Longrightarrow> argString pf x old = Inr s \<Longrightarrow> s \<in> A"
  by (cases x) (auto simp: argString_def rbind_eq_Inr eatString_Cons toString_def)

lemma sortParse_storeKey:
  "allowed pf A v \<Longrightarrow> o_storeKey opt \<in> A \<Longrightarrow> rall (\<lambda>opt. o_storeKey opt \<in> A) (sortParse pf v opt)"
proof (induction v arbitrary: opt rule: measure_induct_rule [where f = length])
  case (less v)
  show ?case
  proof (cases v)
    case Nil
    with less.prems show ?thesis by (simp add: rall_Inr)
  next
    case (Cons x w)
    have IH: "length u < length (x # w) \<Longrightarrow> allowed pf A u \<Longrightarrow> o_storeKey opt \<in> A \<Longrightarrow>
        rall (\<lambda>opt. o_storeKey opt \<in> A) (sortParse pf u opt)" for u opt
      using less.IH Cons by simp
    have w: "allowed pf A w" using less.prems(1) Cons by (simp add: allowed_Cons)
    show ?thesis unfolding Cons sortParse.simps failr_def
      using w less.prems(2)
      by - ((rule rall_rules IH | (auto simp: allowed_Cons intro: argString_allowed; fail))+)
  qed
qed

lemma kept_bind_sortParse:
  assumes "allowed pf A v" "o_storeKey opt \<in> A" "\<And>opt. o_storeKey opt \<in> A \<Longrightarrow> kept A db0 (g opt)"
  shows "kept A db0 (bind (lift (sortParse pf v opt)) g)"
  using assms(3) rallD [OF sortParse_storeKey [OF assms(1,2)]]
  by (cases "sortParse pf v opt") (simp_all add: keeps_def)

lemma kept_eraseIfEmpty_bind: "k \<in> A \<Longrightarrow> kept A db0 m \<Longrightarrow> kept A db0 (bind (eraseIfEmpty c k) (\<lambda>_. m))"
  by (intro wf_rules)

lemma keeps_option_list:
  "keeps P m \<Longrightarrow> keeps P n \<Longrightarrow> (\<And>x xs. keeps P (f x xs)) \<Longrightarrow>
   keeps P (case z of None \<Rightarrow> m | Some [] \<Rightarrow> n | Some (x # xs) \<Rightarrow> f x xs)"
  by (auto split: option.split list.split)

lemma keeps_list:
  "keeps P n \<Longrightarrow> (\<And>x xs. keeps P (f x xs)) \<Longrightarrow> keeps P (case z of [] \<Rightarrow> n | x # xs \<Rightarrow> f x xs)"
  by (cases z) auto

lemmas kept_loops = keeps_bind [OF kept_del_loop] keeps_bind [OF kept_exists_loop] keeps_bind [OF kept_mset_loop]
  keeps_bind [OF kept_hexists_loop] keeps_bind [OF kept_hmget_loop] keeps_bind [OF kept_hmset_loop]
  keeps_bind [OF kept_push_loop] keeps_bind [OF kept_sadd_loop] kept_bind_hdel_loop kept_bind_srem_loop
  kept_bind_executeSetOperation keeps_bind [OF kept_setKeyNew] keeps_bind [OF kept_renameKey] kept_modifyKey

lemma kept_string_commands:
  assumes v: "allowed pf A v"
  shows
    "kept A db0 (cmd_APPEND pf v)"
    "kept A db0 (cmd_DECR pf v)"
    "kept A db0 (cmd_DECRBY pf v)"
    "kept A db0 (cmd_DEL pf v)"
    "kept A db0 (cmd_EXISTS pf v)"
    "kept A db0 (cmd_GET pf v)"
    "kept A db0 (cmd_GETRANGE pf v)"
    "kept A db0 (cmd_GETSET pf v)"
    "kept A db0 (cmd_INCR pf v)"
    "kept A db0 (cmd_INCRBY pf v)"
    "kept A db0 (cmd_MSET pf v)"
    "kept A db0 (cmd_SET pf v)"
    "kept A db0 (cmd_SETNX pf v)"
    "kept A db0 (cmd_STRLEN pf v)"
    "kept A db0 (cmd_KEYS pf v)"
    "kept A db0 (cmd_RENAME pf v)"
    "kept A db0 (cmd_RENAMENX pf v)"
    "kept A db0 (cmd_TYPE pf v)"
  unfolding cmd_APPEND_def cmd_DECR_def cmd_DECRBY_def cmd_DEL_def cmd_EXISTS_def cmd_GET_def cmd_GETRANGE_def cmd_GETSET_def cmd_INCR_def cmd_INCRBY_def cmd_MSET_def cmd_SET_def cmd_SETNX_def cmd_STRLEN_def cmd_KEYS_def cmd_RENAME_def cmd_RENAMENX_def cmd_TYPE_def
  by ((rule kept_rules kept_loops v allowed_Nil [OF v] keeps_prod keeps_list keeps_option | assumption |
      simp add: content_wf; fail)+)

lemma kept_hash_commands:
  assumes v: "allowed pf A v"
  shows
    "kept A db0 (cmd_HDEL pf v)"
    "kept A db0 (cmd_HEXISTS pf v)"
    "kept A db0 (cmd_HGET pf v)"
    "kept A db0 (cmd_HGETALL pf v)"
    "kept A db0 (cmd_HINCRBY pf v)"
    "kept A db0 (cmd_HKEYS pf v)"
    "kept A db0 (cmd_HLEN pf v)"
    "kept A db0 (cmd_HMGET pf v)"
    "kept A db0 (cmd_HMSET pf v)"
    "kept A db0 (cmd_HSET pf v)"
  unfolding cmd_HDEL_def cmd_HEXISTS_def cmd_HGET_def cmd_HGETALL_def cmd_HINCRBY_def cmd_HKEYS_def cmd_HLEN_def cmd_HMGET_def cmd_HMSET_def cmd_HSET_def
  by ((rule kept_rules kept_loops v allowed_Nil [OF v] keeps_prod keeps_list keeps_option | assumption |
      simp add: content_wf; fail)+)

lemma kept_list_commands:
  assumes v: "allowed pf A v"
  shows
    "kept A db0 (cmd_LINDEX pf v)"
    "kept A db0 (cmd_LLEN pf v)"
    "kept A db0 (cmd_LPOP pf v)"
    "kept A db0 (cmd_LPUSH pf v)"
    "kept A db0 (cmd_RPUSH pf v)"
    "kept A db0 (cmd_LRANGE pf v)"
    "kept A db0 (cmd_LREM pf v)"
    "kept A db0 (cmd_LSET pf v)"
    "kept A db0 (cmd_LTRIM pf v)"
    "kept A db0 (cmd_RPOP pf v)"
    "kept A db0 (cmd_RPOPLPUSH pf v)"
  unfolding cmd_LINDEX_def cmd_LLEN_def cmd_LPOP_def cmd_LPUSH_def cmd_RPUSH_def cmd_LRANGE_def cmd_LREM_def cmd_LSET_def cmd_LTRIM_def cmd_RPOP_def cmd_RPOPLPUSH_def
  by ((rule kept_rules kept_loops v allowed_Nil [OF v] keeps_prod keeps_list keeps_option | assumption |
      simp add: content_wf; fail)+)

lemma kept_set_commands:
  assumes v: "allowed pf A v"
  shows
    "kept A db0 (cmd_SADD pf v)"
    "kept A db0 (cmd_SCARD pf v)"
    "kept A db0 (cmd_SISMEMBER pf v)"
    "kept A db0 (cmd_SMEMBERS pf v)"
    "kept A db0 (cmd_SMOVE pf v)"
    "kept A db0 (cmd_SREM pf v)"
    "kept A db0 (cmd_PING pf v)"
  unfolding cmd_SADD_def cmd_SCARD_def cmd_SISMEMBER_def cmd_SMEMBERS_def cmd_SMOVE_def cmd_SREM_def cmd_PING_def
  by ((rule kept_rules kept_loops v allowed_Nil [OF v] keeps_prod keeps_list keeps_option | assumption |
      simp add: content_wf; fail)+)

lemma kept_setOperation: "allowed pf A v \<Longrightarrow> kept A db0 (setOperation op pf v)"
  unfolding setOperation_def
  by ((rule kept_rules kept_loops | assumption)+)

lemma kept_setOperationStore:
  assumes v: "allowed pf A v"
  shows "kept A db0 (setOperationStore op pf v)"
  unfolding setOperationStore_def
  by ((rule kept_rules kept_loops v allowed_Nil [OF v] | assumption | simp; fail)+)

lemma getRandomElement_wf: "set_wf s \<Longrightarrow> getRandomElement pf s rm = Some (x, t) \<Longrightarrow> set_wf t"
  by (auto simp: getRandomElement_def Let_def set_wf_set_erase split: if_splits)

lemma kept_randomMember:
  assumes v: "allowed pf A v"
  shows "kept A db0 (randomMember rm pf v)"
proof -
  have "k \<in> A \<Longrightarrow> set_wf s \<Longrightarrow> kept A db0 (case getRandomElement pf s rm of None \<Rightarrow> ret createNull
      | Some (result, m) \<Rightarrow> bind (put k (SetKey m)) (\<lambda>_. bind (eraseIfEmpty m k) (\<lambda>_. ret (createString result))))" for k s
    using getRandomElement_wf [of s pf rm]
    by (cases "getRandomElement pf s rm") (auto intro!: wf_rules)
  then show ?thesis
    unfolding randomMember_def
    by - ((rule kept_rules v allowed_Nil [OF v] | assumption | blast)+)
qed

lemma kept_SORT:
  assumes v: "allowed pf A v"
  shows "kept A db0 (cmd_SORT pf v)"
  unfolding cmd_SORT_def executeSortOperation_def bind_laws Let_def if_distrib [of "\<lambda>m. bind m _"]
  by ((rule kept_bind_sortParse kept_rules v allowed_Nil [OF v] keeps_bind keeps_gets
        kept_eraseKey | assumption | simp add: sort_options_init_def allowed_Nil [OF v]; fail)+)

lemma kept_execute:
  assumes "allowed pf A v"
  shows "kept A db0 (execute pf verb v)"
  unfolding execute_def cmd_SDIFF_def cmd_SDIFFSTORE_def cmd_SINTER_def cmd_SINTERSTORE_def
    cmd_SUNION_def cmd_SUNIONSTORE_def cmd_SPOP_def cmd_SRANDMEMBER_def
  by (intro keeps_if kept_fail kept_string_commands kept_hash_commands kept_list_commands kept_set_commands
      kept_setOperation kept_setOperationStore kept_randomMember kept_SORT assms)

lemma call_Cons:
  "call pf (Some x # v) =
     bind (lift (valueToString pf x)) (\<lambda>verb m_data.
       case execute pf (strUCase verb) v m_data of
         (Inl e, m_data) \<Rightarrow> (Inl (wrapError (strUCase verb) e), m_data)
       | (Inr r, m_data) \<Rightarrow> (Inr r, m_data))"
  by (simp add: call_def eat_def toString_def Let_def)

lemma kept_call:
  assumes "allowed pf A (tl command)"
  shows "kept A db0 (call pf command)"
proof (cases "eat command")
  case (Pair x v)
  then have v: "v = tl command" by (auto simp: eat_def split: list.splits)
  show ?thesis
  proof (cases x)
    case None
    with Pair show ?thesis by (simp add: call_def kept_fail)
  next
    case (Some y)
    have "kept A db0 (execute pf verb v)" for verb using assms v by (simp add: kept_execute)
    then have "kept A db0 (\<lambda>db. case execute pf verb v db of
        (Inl e, db) \<Rightarrow> (Inl (wrapError verb e), db) | (Inr r, db) \<Rightarrow> (Inr r, db))" for verb
      by (simp add: keeps_def split: prod.split sum.split) (metis snd_conv)
    with Pair Some show ?thesis
      by (simp add: call_def Let_def) (intro keeps_bind keeps_lift)
  qed
qed

section \<open>Properties\<close>

text \<open> The database stays well-formed: whatever the command and its arguments are, and whether
  it succeeds or throws, \<open>call\<close> leaves the map of keys and every hash and set in it strictly
  sorted and free of duplicates.
\<close>

lemma call_db_wf: "db_wf m_data \<Longrightarrow> db_wf (snd (call pf command m_data))"
  using kept_call [of pf UNIV command m_data]
  by (auto simp: keeps_def db_inv_def allowed_def)

text \<open>
  C1: A command changes no other keys: a key is unaffected by a call, even by one that throws,
  unless its name is the text of one of the arguments of the command, or empty (an omitted
  or null name reads as the empty string).
\<close>

theorem call_frame:
  "db_wf m_data \<Longrightarrow> name \<noteq> [] \<Longrightarrow> name \<notin> args pf (tl command) \<Longrightarrow>
   map_of (snd (call pf command m_data)) name = map_of m_data name"
  using kept_call [of pf "insert [] (args pf (tl command))" command m_data]
  by (auto simp: keeps_def db_inv_def allowed_def)

theorem call_frame_witness:
  "map_of (snd (call nat_platform [createString ''rename'', createString ''k'', createString ''l'']
     [(''k'', SetKey [''a'']), (''m'', StringKey ''x'')])) ''m'' = Some (StringKey ''x'')"
  using call_frame [of "[(''k'', SetKey [''a'']), (''m'', StringKey ''x'')]" "''m''" nat_platform
    "[createString ''rename'', createString ''k'', createString ''l'']"]
  by (simp add: db_wf_def map_wf_def set_wf_def args_def toString_def)

end
