(* ===== verification/Afl_Redis_Laws.thy ===== *)
theory Afl_Redis_Laws
  imports Afl_Redis_Inv "HOL-Library.Multiset"
begin

text \<open>
  What the commands of the database do, stated for \<open>call\<close> with the command given as strings, the
  way the clients give it.
\<close>

definition strs :: "string list \<Rightarrow> 'f segment" where
  "strs ss = map createString ss"

section \<open>Evaluation of a call\<close>

lemma strs_simps [simp]: "strs [] = []" "strs (s # ss) = createString s # strs ss"
  by (simp_all add: strs_def)

lemma length_strs [simp]: "length (strs ss) = length ss"
  by (simp add: strs_def)

lemma pushBackStrings_strs: "pushBackStrings ss = (strs ss :: 'f segment)"
proof -
  have "fold pushBackString ss seg = seg @ strs ss" for seg :: "'f segment"
    by (induction ss arbitrary: seg) (simp_all add: pushBackString_def pushBackNew_def)
  then show ?thesis by (simp add: pushBackStrings_def)
qed

lemma eatS_str [simp]: "eatS pf (createString s # v) old = ret (s, v)"
  by (rule ext) (simp add: eatS_def eatString_Cons)

lemma eatI_int [simp]: "eatI pf (createInteger i # v) old = ret (i, v)"
  by (rule ext) (simp add: eatI_def eatInteger_def eat_def)

lemma checkArgumentCount_simps [simp]:
  "length v = n \<Longrightarrow> checkArgumentCount v n = ret ()"
  "length v \<ge> n \<Longrightarrow> checkArgumentCountAtLeast v n = ret ()"
  by (simp_all add: checkArgumentCount_def checkArgumentCountAtLeast_def)

lemma bind_ret_eq [simp]: "bind (ret x) f = f x"
  by (rule bind_ret)

lemma get_apply:
  "get cast name m_data =
     (case map_of m_data name of
        None \<Rightarrow> (Inr None, m_data)
      | Some k \<Rightarrow> (case cast k of None \<Rightarrow> (failr INVALID_TYPE, m_data) | Some x \<Rightarrow> (Inr (Some x), m_data)))"
  by (simp add: get_def fail_def split: option.split)

lemma getCreate_apply:
  "getCreate cast mk new name m_data =
     (case map_of m_data name of
        None \<Rightarrow> (Inr new, map_set name (mk new) m_data)
      | Some k \<Rightarrow> (case cast k of None \<Rightarrow> (failr INVALID_TYPE, m_data) | Some x \<Rightarrow> (Inr x, m_data)))"
  by (simp add: getCreate_def bind_def get_apply put_def failr_def split: option.split)

lemma put_apply: "put name k m_data = (Inr (), map_set name k m_data)"
  by (simp add: put_def)

lemma eraseKey_apply: "eraseKey name m_data = (Inr (map_of m_data name \<noteq> None), map_erase name m_data)"
  by (simp add: eraseKey_def)

lemma eraseIfEmpty_apply:
  "eraseIfEmpty c name m_data = (Inr (), if c = [] then map_erase name m_data else m_data)"
  by (simp add: eraseIfEmpty_def bind_def eraseKey_apply)

lemma fail_apply: "fail msg m_data = (failr msg, m_data)"
  by (simp add: fail_def)

lemmas db_eval = bind_def get_apply getCreate_apply put_apply eraseKey_apply eraseIfEmpty_apply fail_apply
  failr_def

lemma strUCase_verbs [simp]:
  "strUCase ''APPEND'' = ''APPEND''"
  "strUCase ''DECR'' = ''DECR''"
  "strUCase ''DECRBY'' = ''DECRBY''"
  "strUCase ''DEL'' = ''DEL''"
  "strUCase ''EXISTS'' = ''EXISTS''"
  "strUCase ''GET'' = ''GET''"
  "strUCase ''GETRANGE'' = ''GETRANGE''"
  "strUCase ''GETSET'' = ''GETSET''"
  "strUCase ''HDEL'' = ''HDEL''"
  "strUCase ''HEXISTS'' = ''HEXISTS''"
  "strUCase ''HGET'' = ''HGET''"
  "strUCase ''HGETALL'' = ''HGETALL''"
  "strUCase ''HINCRBY'' = ''HINCRBY''"
  "strUCase ''HKEYS'' = ''HKEYS''"
  "strUCase ''HLEN'' = ''HLEN''"
  "strUCase ''HMGET'' = ''HMGET''"
  "strUCase ''HMSET'' = ''HMSET''"
  "strUCase ''HSET'' = ''HSET''"
  "strUCase ''INCR'' = ''INCR''"
  "strUCase ''INCRBY'' = ''INCRBY''"
  "strUCase ''KEYS'' = ''KEYS''"
  "strUCase ''LINDEX'' = ''LINDEX''"
  "strUCase ''LLEN'' = ''LLEN''"
  "strUCase ''LPOP'' = ''LPOP''"
  "strUCase ''LPUSH'' = ''LPUSH''"
  "strUCase ''LRANGE'' = ''LRANGE''"
  "strUCase ''LREM'' = ''LREM''"
  "strUCase ''LSET'' = ''LSET''"
  "strUCase ''LTRIM'' = ''LTRIM''"
  "strUCase ''MSET'' = ''MSET''"
  "strUCase ''RENAME'' = ''RENAME''"
  "strUCase ''RENAMENX'' = ''RENAMENX''"
  "strUCase ''RPOP'' = ''RPOP''"
  "strUCase ''RPOPLPUSH'' = ''RPOPLPUSH''"
  "strUCase ''RPUSH'' = ''RPUSH''"
  "strUCase ''SADD'' = ''SADD''"
  "strUCase ''SCARD'' = ''SCARD''"
  "strUCase ''SDIFF'' = ''SDIFF''"
  "strUCase ''SDIFFSTORE'' = ''SDIFFSTORE''"
  "strUCase ''SET'' = ''SET''"
  "strUCase ''SETNX'' = ''SETNX''"
  "strUCase ''SINTER'' = ''SINTER''"
  "strUCase ''SINTERSTORE'' = ''SINTERSTORE''"
  "strUCase ''SISMEMBER'' = ''SISMEMBER''"
  "strUCase ''SMEMBERS'' = ''SMEMBERS''"
  "strUCase ''SMOVE'' = ''SMOVE''"
  "strUCase ''SORT'' = ''SORT''"
  "strUCase ''SPOP'' = ''SPOP''"
  "strUCase ''SRANDMEMBER'' = ''SRANDMEMBER''"
  "strUCase ''SREM'' = ''SREM''"
  "strUCase ''STRLEN'' = ''STRLEN''"
  "strUCase ''SUNION'' = ''SUNION''"
  "strUCase ''SUNIONSTORE'' = ''SUNIONSTORE''"
  "strUCase ''TYPE'' = ''TYPE''"
  "strUCase ''PING'' = ''PING''"
  by (simp_all add: strUCase_def charToUpper_def charIsLower_def)

lemma execute_verbs [simp]:
  "execute pf ''APPEND'' = cmd_APPEND pf"
  "execute pf ''DECR'' = cmd_DECR pf"
  "execute pf ''DECRBY'' = cmd_DECRBY pf"
  "execute pf ''DEL'' = cmd_DEL pf"
  "execute pf ''EXISTS'' = cmd_EXISTS pf"
  "execute pf ''GET'' = cmd_GET pf"
  "execute pf ''GETRANGE'' = cmd_GETRANGE pf"
  "execute pf ''GETSET'' = cmd_GETSET pf"
  "execute pf ''HDEL'' = cmd_HDEL pf"
  "execute pf ''HEXISTS'' = cmd_HEXISTS pf"
  "execute pf ''HGET'' = cmd_HGET pf"
  "execute pf ''HGETALL'' = cmd_HGETALL pf"
  "execute pf ''HINCRBY'' = cmd_HINCRBY pf"
  "execute pf ''HKEYS'' = cmd_HKEYS pf"
  "execute pf ''HLEN'' = cmd_HLEN pf"
  "execute pf ''HMGET'' = cmd_HMGET pf"
  "execute pf ''HMSET'' = cmd_HMSET pf"
  "execute pf ''HSET'' = cmd_HSET pf"
  "execute pf ''INCR'' = cmd_INCR pf"
  "execute pf ''INCRBY'' = cmd_INCRBY pf"
  "execute pf ''KEYS'' = cmd_KEYS pf"
  "execute pf ''LINDEX'' = cmd_LINDEX pf"
  "execute pf ''LLEN'' = cmd_LLEN pf"
  "execute pf ''LPOP'' = cmd_LPOP pf"
  "execute pf ''LPUSH'' = cmd_LPUSH pf"
  "execute pf ''LRANGE'' = cmd_LRANGE pf"
  "execute pf ''LREM'' = cmd_LREM pf"
  "execute pf ''LSET'' = cmd_LSET pf"
  "execute pf ''LTRIM'' = cmd_LTRIM pf"
  "execute pf ''MSET'' = cmd_MSET pf"
  "execute pf ''RENAME'' = cmd_RENAME pf"
  "execute pf ''RENAMENX'' = cmd_RENAMENX pf"
  "execute pf ''RPOP'' = cmd_RPOP pf"
  "execute pf ''RPOPLPUSH'' = cmd_RPOPLPUSH pf"
  "execute pf ''RPUSH'' = cmd_RPUSH pf"
  "execute pf ''SADD'' = cmd_SADD pf"
  "execute pf ''SCARD'' = cmd_SCARD pf"
  "execute pf ''SDIFF'' = cmd_SDIFF pf"
  "execute pf ''SDIFFSTORE'' = cmd_SDIFFSTORE pf"
  "execute pf ''SET'' = cmd_SET pf"
  "execute pf ''SETNX'' = cmd_SETNX pf"
  "execute pf ''SINTER'' = cmd_SINTER pf"
  "execute pf ''SINTERSTORE'' = cmd_SINTERSTORE pf"
  "execute pf ''SISMEMBER'' = cmd_SISMEMBER pf"
  "execute pf ''SMEMBERS'' = cmd_SMEMBERS pf"
  "execute pf ''SMOVE'' = cmd_SMOVE pf"
  "execute pf ''SORT'' = cmd_SORT pf"
  "execute pf ''SPOP'' = cmd_SPOP pf"
  "execute pf ''SRANDMEMBER'' = cmd_SRANDMEMBER pf"
  "execute pf ''SREM'' = cmd_SREM pf"
  "execute pf ''STRLEN'' = cmd_STRLEN pf"
  "execute pf ''SUNION'' = cmd_SUNION pf"
  "execute pf ''SUNIONSTORE'' = cmd_SUNIONSTORE pf"
  "execute pf ''TYPE'' = cmd_TYPE pf"
  "execute pf ''PING'' = cmd_PING pf"
  by (rule ext; simp add: execute_def)+

definition wrap :: "string \<Rightarrow> 'a result \<times> db \<Rightarrow> 'a result \<times> db" where
  "wrap verb r = (case r of (Inl e, db) \<Rightarrow> (Inl (wrapError verb e), db) | (Inr x, db) \<Rightarrow> (Inr x, db))"

lemma wrap_simps [simp]:
  "wrap verb (Inl e, db) = (Inl (wrapError verb e), db)"
  "wrap verb (Inr x, db) = (Inr x, db)"
  by (simp_all add: wrap_def)

lemma call_verb [simp]:
  "call pf (createString verb # v) m_data = wrap (strUCase verb) (execute pf (strUCase verb) v m_data)"
  by (simp add: call_Cons wrap_def)

lemma wrapError_simps [simp]:
  "wrapError verb (RemoteErrorException src msg) = RuntimeError (c_str msg @ '' [verb: '' @ verb @ '']'')"
  "wrapError verb (InvalidDataException msg) = RuntimeError (c_str msg @ '' [verb: '' @ verb @ '']'')"
  "wrapError verb Undefined = Undefined"
  by (simp_all add: wrapError_def Format_verb)

text \<open> SET and GET. SET replaces whatever the key held by the string; a GET after that gives
  exactly this string and changes nothing.
\<close>

theorem set_get:
  "\<exists>m_data'. call pf (strs [''SET'', k, x]) m_data = (Inr (createString ''OK''), m_data')
     \<and> map_of m_data' = (map_of m_data)(k \<mapsto> StringKey x)
     \<and> call pf (strs [''GET'', k]) m_data' = (Inr (createString x), m_data')"
  by (simp add: cmd_SET_def cmd_GET_def setKeyNew_def db_eval)

section \<open>Numbers\<close>

text \<open> INCRBY on a key that is missing or holds a number. The number it held (0 for a missing or
  empty key) is increased, the new number is returned and stored in decimal, so that
  reading it back gives the same number. If the sum is not an \<open>int32_t\<close>, the addition
  overflows.
\<close>

theorem incrby_number:
  "(case map_of m_data k of None \<Rightarrow> old = 0 | Some (StringKey s) \<Rightarrow> sortNumber s = Some old | _ \<Rightarrow> False) \<Longrightarrow>
   call pf [createString ''INCRBY'', createString k, createInteger d] m_data =
     (if int32_ok (old + d)
      then (Inr (createInteger (old + d)), map_set k (StringKey (dec_int (old + d))) m_data)
      else (Inl Undefined, (case map_of m_data k of None \<Rightarrow> map_set k (StringKey []) m_data | _ \<Rightarrow> m_data)))
   \<and> (int32_ok (old + d) \<longrightarrow> strToInteger (dec_int (old + d)) = Some (old + d))"
proof -
  assume *: "case map_of m_data k of None \<Rightarrow> old = 0 | Some (StringKey s) \<Rightarrow> sortNumber s = Some old | _ \<Rightarrow> False"
  have modify: "String_modify s d = rbind (int32_result (old + d)) (\<lambda>i. Inr (i, dec_int i))"
    if "sortNumber s = Some old" for s
    using that Format_dec_int
    by (auto simp: String_modify_def sortNumber_def int32_result_def int32_defs size_mod_def split: if_splits)
  have "sortNumber [] = Some 0" by (simp add: sortNumber_def)
  with * modify [of "[]"] modify
  show ?thesis
    by (auto simp: cmd_INCRBY_def modifyKey_def db_eval int32_result_def strToInteger_dec_int
        split: option.splits key.splits)
qed

theorem incrby_number_witness:
  "call nat_platform [createString ''INCRBY'', createString ''n'', createInteger 5] [] =
     (Inr (createInteger 5), [(''n'', StringKey ''5'')])"
  using incrby_number [where m_data = "[]" and k = "''n''" and old = 0 and pf = nat_platform and d = 5]
  by (simp add: int32_defs dec_int_def dec_nat_def formatUnsigned_def formatBase_def formatDigits.simps HEX_DIGITS_LOWER_def)

text \<open>
  C39: INCRBY on a key that holds something else is refused without any change: text that is not a
  number with the message for integers, a hash, list or set with the message for types.
\<close>

theorem incrby_error:
  "map_of m_data k = Some x \<Longrightarrow>
   (case x of StringKey s \<Rightarrow> sortNumber s = None | _ \<Rightarrow> True) \<Longrightarrow>
   call pf [createString ''INCRBY'', createString k, createInteger d] m_data =
     (Inl (RuntimeError ((case x of StringKey _ \<Rightarrow> ''Invalid type (expect integer)'' | _ \<Rightarrow> ''Invalid type'')
        @ '' [verb: INCRBY]'')), m_data)"
  by (auto simp: cmd_INCRBY_def modifyKey_def db_eval String_modify_def sortNumber_def c_str_def
      INVALID_TYPE_def INVALID_TYPE_INT_def split: key.splits if_splits)

theorem incrby_error_witness:
  "call nat_platform [createString ''INCRBY'', createString ''n'', createInteger 5] [(''n'', StringKey ''x'')] =
     (Inl (RuntimeError ''Invalid type (expect integer) [verb: INCRBY]''), [(''n'', StringKey ''x'')])"
proof -
  have "sortNumber ''x'' = None" by code_simp
  then show ?thesis
    using incrby_error [of "[(''n'', StringKey ''x'')]" "''n''" "StringKey ''x''" nat_platform 5] by simp
qed

section \<open>Lists\<close>

text \<open>
  The reference: an index counts from the end when it is negative, and a range of indices selects
  the positions between its ends, both included.
\<close>

definition position :: "'a list \<Rightarrow> int \<Rightarrow> int" where
  "position xs i = (if i < 0 then int (length xs) + i else i)"

definition range_of :: "'a list \<Rightarrow> int \<Rightarrow> int \<Rightarrow> 'a list" where
  "range_of xs beg end1 =
     map ((!) xs) (filter (\<lambda>p. position xs beg \<le> int p \<and> int p \<le> position xs end1) [0..<length xs])"

fun remove_first :: "nat \<Rightarrow> 'a \<Rightarrow> 'a list \<Rightarrow> 'a list" where
  "remove_first n x [] = []"
| "remove_first n x (y # ys) =
     (if n > 0 \<and> y = x then remove_first (n - 1) x ys else y # remove_first n x ys)"

lemma convertIndex_position:
  assumes "- int (length xs) \<le> i" "int (length xs) \<le> INT32_MAX"
  shows "convertIndex xs i = Inr (nat (position xs i))" "position xs i \<ge> 0"
proof -
  have "(int (length xs) + i) mod int size_mod = int (length xs) + i" if "i < 0"
    using assms that by (intro mod_pos_pos_trivial) (simp_all add: int_simps size_mod_def)
  then show "convertIndex xs i = Inr (nat (position xs i))" "position xs i \<ge> 0"
    using assms by (auto simp: convertIndex_def position_def int32_result_def int_simps)
qed

lemma lrange_loop_take: "lrange_loop xs i j = take (Suc j - i) (drop i xs)"
proof (induction xs i j rule: lrange_loop.induct)
  case (1 xs i j)
  then show ?case
    by (subst lrange_loop.simps)
      (auto simp: getByIndex_nth Suc_diff_le Cons_nth_drop_Suc [symmetric])
qed

lemma range_of_take:
  assumes "position xs beg \<ge> 0" "position xs end1 \<ge> 0"
  shows "range_of xs beg end1 =
    take (Suc (nat (position xs end1)) - nat (position xs beg)) (drop (nat (position xs beg)) xs)"
proof -
  define i j where "i = nat (position xs beg)" and "j = nat (position xs end1)"
  have "filter (\<lambda>p. i \<le> p \<and> p \<le> j) [0..<n] = [i..<min n (Suc j)]" for n
    by (induction n) (auto simp: min_def not_less_eq_eq le_Suc_eq)
  then have "range_of xs beg end1 = map ((!) xs) [i..<min (length xs) (Suc j)]"
    using assms by (simp add: range_of_def i_def j_def nat_le_iff le_nat_iff)
  also have "\<dots> = take (Suc j - i) (drop i xs)"
    by (rule nth_equalityI) (auto simp: min_def split: if_splits)
  finally show ?thesis by (simp add: i_def j_def)
qed

lemma ltrim_front_drop: "ltrim_front xs i j = (drop i xs, j - min i (length xs))"
  by (induction xs i j rule: ltrim_front.induct) (auto simp: drop_Cons' min_def)

lemma ltrim_back_take: "ltrim_back xs n = take n xs"
proof (induction xs n rule: ltrim_back.induct)
  case (1 xs n)
  then show ?case by (subst ltrim_back.simps) (auto simp: butlast_conv_take min_def)
qed

lemma ltrim_range:
  "i \<le> j \<Longrightarrow> j + 1 < size_mod \<Longrightarrow> ltrim xs i j = take (Suc j - i) (drop i xs)"
  by (cases "i \<le> length xs") (simp_all add: ltrim_def ltrim_front_drop ltrim_back_take min_def Suc_diff_le)

lemma lrem_loop_all: "n \<le> 0 \<Longrightarrow> lrem_loop (- 1) x xs n = (removeAll x xs, int (count_list xs x))"
  by (induction xs arbitrary: n) auto

lemma lrem_loop_first:
  "n > 0 \<Longrightarrow> step = 1 \<or> step = - 1 \<Longrightarrow>
   lrem_loop step x xs (- step * int n) = (remove_first n x xs, int (min n (count_list xs x)))"
proof (induction xs arbitrary: n)
  case (Cons y ys)
  have none: "remove_first 0 x zs = zs" for zs by (induction zs) auto
  show ?case
  proof (cases "y = x")
    case True
    show ?thesis
    proof (cases "n = 1")
      case True
      with \<open>y = x\<close> Cons.prems show ?thesis by (auto simp: none)
    next
      case False
      then have "- step * int n + step = - step * int (n - 1)" "n - 1 > 0"
        using Cons.prems by (auto simp: algebra_simps of_nat_diff)
      with \<open>y = x\<close> Cons.IH [of "n - 1"] Cons.prems False show ?thesis
        by (auto simp: min_def of_nat_diff)
    qed
  next
    case False
    with Cons show ?thesis by auto
  qed
qed simp

lemma cmd_LRANGE_eval:
  "map_of m_data k = Some (ListKey xs) \<Longrightarrow> int (length xs) \<le> INT32_MAX \<Longrightarrow>
   - int (length xs) \<le> beg \<Longrightarrow> - int (length xs) \<le> end1 \<Longrightarrow>
   cmd_LRANGE pf [createString k, createInteger beg, createInteger end1] m_data =
     (Inr (createVector (strs (range_of xs beg end1))), m_data)"
  by (simp add: cmd_LRANGE_def db_eval convertIndex_position range_of_take lrange_loop_take
      pushBackStrings_strs)

text \<open> LRANGE gives exactly the elements whose position lies between the two indices, where a
  negative index counts from the end, as long as no index lies before the first element.
\<close>

theorem lrange_range:
  "map_of m_data k = Some (ListKey xs) \<Longrightarrow> int (length xs) \<le> INT32_MAX \<Longrightarrow>
   - int (length xs) \<le> beg \<Longrightarrow> - int (length xs) \<le> end1 \<Longrightarrow>
   call pf [createString ''LRANGE'', createString k, createInteger beg, createInteger end1] m_data =
     (Inr (createVector (strs (range_of xs beg end1))), m_data)"
  by (simp add: cmd_LRANGE_eval)

theorem lrange_range_witness:
  "call nat_platform [createString ''LRANGE'', createString ''l'', createInteger (- 2), createInteger 7]
     [(''l'', ListKey [''a'', ''b'', ''c''])] =
   (Inr (createVector (strs [''b'', ''c''])), [(''l'', ListKey [''a'', ''b'', ''c''])])"
  using lrange_range [of "[(''l'', ListKey [''a'', ''b'', ''c''])]" "''l''" "[''a'', ''b'', ''c'']"
    "- 2" 7 nat_platform]
  by (simp add: range_of_def position_def int_simps upt_rec)

text \<open> LTRIM keeps exactly what LRANGE would give for the same range, and removes the key when
  that is nothing, for indices that are not before the first element and in order.
\<close>

theorem ltrim_keeps_range:
  "map_of m_data k = Some (ListKey xs) \<Longrightarrow> int (length xs) \<le> INT32_MAX \<Longrightarrow>
   - int (length xs) \<le> beg \<Longrightarrow> - int (length xs) \<le> end1 \<Longrightarrow> end1 \<le> INT32_MAX \<Longrightarrow>
   position xs beg \<le> position xs end1 \<Longrightarrow>
   \<exists>m_data'. call pf [createString ''LTRIM'', createString k, createInteger beg, createInteger end1] m_data =
       (Inr (createString ''OK''), m_data')
     \<and> map_of m_data' = (map_of m_data)(k :=
         (if range_of xs beg end1 = [] then None else Some (ListKey (range_of xs beg end1))))"
proof -
  assume a: "map_of m_data k = Some (ListKey xs)" "int (length xs) \<le> INT32_MAX"
    "- int (length xs) \<le> beg" "- int (length xs) \<le> end1" "end1 \<le> INT32_MAX"
    "position xs beg \<le> position xs end1"
  note pos = convertIndex_position [OF a(3,2)] convertIndex_position [OF a(4,2)]
  have "nat (position xs end1) + 1 < size_mod"
    using a(2,5) by (auto simp: position_def int_simps size_mod_def)
  then have "ltrim xs (nat (position xs beg)) (nat (position xs end1)) = range_of xs beg end1"
    using a(6) by (simp add: ltrim_range range_of_take pos)
  then show ?thesis
    by (auto simp: cmd_LTRIM_def db_eval a(1) pos Let_def)
qed

theorem ltrim_keeps_range_witness:
  "\<exists>m_data'. call nat_platform [createString ''LTRIM'', createString ''l'', createInteger 1, createInteger (- 1)]
       [(''l'', ListKey [''a'', ''b'', ''c''])] = (Inr (createString ''OK''), m_data')
     \<and> map_of m_data' ''l'' = Some (ListKey [''b'', ''c''])"
  using ltrim_keeps_range [of "[(''l'', ListKey [''a'', ''b'', ''c''])]" "''l''" "[''a'', ''b'', ''c'']"
    1 "- 1" nat_platform]
  by (auto simp: range_of_def position_def int_simps upt_rec)

text \<open> LREM removes and counts occurrences: with a positive count the first ones from the front,
  with a negative count the first ones from the back, with 0 all of them.
\<close>

theorem lrem_removes:
  "map_of m_data k = Some (ListKey xs) \<Longrightarrow>
   call pf [createString ''LREM'', createString k, createInteger n, createString x] m_data =
     (let (ys, removed) =
        (if n = 0 then (removeAll x xs, count_list xs x)
         else if n > 0 then (remove_first (nat n) x xs, min (nat n) (count_list xs x))
         else (rev (remove_first (nat (- n)) x (rev xs)), min (nat (- n)) (count_list xs x)))
      in (Inr (createInteger (int removed)), map_set k (ListKey ys) m_data))"
proof -
  have pos: "lrem_loop (- 1) x xs n = (remove_first (nat n) x xs, int (min (nat n) (count_list xs x)))" if "n > 0"
    using lrem_loop_first [of "nat n" "- 1" x xs] that by simp
  have neg: "lrem_loop 1 x (rev xs) n =
      (remove_first (nat (- n)) x (rev xs), int (min (nat (- n)) (count_list xs x)))" if "n < 0"
    using lrem_loop_first [of "nat (- n)" 1 x "rev xs"] that by simp
  assume "map_of m_data k = Some (ListKey xs)"
  then show ?thesis
    using pos neg by (auto simp: cmd_LREM_def db_eval lrem_def lrem_loop_all Let_def)
qed

theorem lrem_removes_witness:
  "call nat_platform [createString ''LREM'', createString ''l'', createInteger (- 1), createString ''a'']
     [(''l'', ListKey [''a'', ''b'', ''a''])] =
   (Inr (createInteger 1), [(''l'', ListKey [''a'', ''b''])])"
  using lrem_removes [of "[(''l'', ListKey [''a'', ''b'', ''a''])]" "''l''" "[''a'', ''b'', ''a'']"
    nat_platform "- 1" "''a''"]
  by (simp add: Let_def)

section \<open>Names\<close>

lemma str_find_single:
  "str_find s [c] = (if c \<in> set s then Some (length (takeWhile (\<lambda>x. x \<noteq> c) s)) else None)"
  by (induction s) auto

lemma matchKey_star:
  assumes "CHR ''*'' \<notin> set a"
  shows "matchKey (a @ CHR ''*'' # b) key \<longleftrightarrow> (\<exists>m. key = a @ m @ b)"
proof
  let ?p = "a @ CHR ''*'' # b"
  have find: "str_find ?p ''*'' = Some (length a)"
  proof -
    have "takeWhile (\<lambda>x. x \<noteq> CHR ''*'') a = a" using assms by (auto intro!: takeWhile_all)
    then show ?thesis by (simp add: str_find_single takeWhile_append)
  qed
  show "\<exists>m. key = a @ m @ b" if "matchKey ?p key"
  proof -
    have "length a + length b \<le> length key" "take (length a) key = a"
      "drop (length key - length b) key = b"
      using that by (auto simp: matchKey_def find substr_def Let_def)
    then have n: "length a \<le> length key - length b" and t: "take (length a) key = a"
      and d: "drop (length key - length b) key = b" by simp_all
    have "take (length key - length b) key = a @ drop (length a) (take (length key - length b) key)"
      using append_take_drop_id [of "length a" "take (length key - length b) key"] n t
      by (simp add: min_def)
    then have "key = a @ drop (length a) (take (length key - length b) key) @ b"
      using append_take_drop_id [of "length key - length b" key] d by (metis append.assoc)
    then show ?thesis by blast
  qed
  show "matchKey ?p key" if "\<exists>m. key = a @ m @ b"
    using that by (auto simp: matchKey_def find substr_def Let_def)
qed

text \<open> KEYS lists, in ascending order and without duplicates, exactly the names that match the
  pattern: a pattern without an asterisk matches itself, any other one matches the names
  that start with what precedes the first asterisk and, without overlap, end with what
  follows it.
\<close>

theorem keys_matching:
  "db_wf m_data \<Longrightarrow>
   \<exists>names. call pf (strs [''KEYS'', pat]) m_data = (Inr (createVector (strs names)), m_data)
     \<and> sorted_wrt (<) names
     \<and> set names = {name \<in> dom (map_of m_data).
         if CHR ''*'' \<in> set pat
         then \<exists>m. name = takeWhile (\<lambda>c. c \<noteq> CHR ''*'') pat @ m @ tl (dropWhile (\<lambda>c. c \<noteq> CHR ''*'') pat)
         else name = pat}"
proof (intro exI conjI)
  assume wf: "db_wf m_data"
  let ?names = "filter (matchKey pat) (map fst m_data)"
  let ?a = "takeWhile (\<lambda>c. c \<noteq> CHR ''*'') pat" and ?b = "tl (dropWhile (\<lambda>c. c \<noteq> CHR ''*'') pat)"
  show "call pf (strs [''KEYS'', pat]) m_data = (Inr (createVector (strs ?names)), m_data)"
    by (simp add: cmd_KEYS_def db_eval pushBackStrings_strs)
  show "sorted_wrt (<) ?names"
    using wf by (intro sorted_wrt_less_filter) (simp add: db_wf_def map_wf_def)
  have star: "matchKey pat name \<longleftrightarrow> (\<exists>m. name = ?a @ m @ ?b)" if "CHR ''*'' \<in> set pat" for name
  proof -
    from that obtain a b where ab: "pat = a @ CHR ''*'' # b" "CHR ''*'' \<notin> set a"
      by (auto dest: split_list_first)
    then have "takeWhile (\<lambda>c. c \<noteq> CHR ''*'') a = a" "dropWhile (\<lambda>c. c \<noteq> CHR ''*'') a = []"
      by (auto intro!: takeWhile_all)
    with ab matchKey_star [OF ab(2)] show ?thesis
      by (simp add: takeWhile_append dropWhile_append)
  qed
  have plain: "matchKey pat name \<longleftrightarrow> name = pat" if "CHR ''*'' \<notin> set pat" for name
    using that by (auto simp: matchKey_def str_find_single)
  show "set ?names = {name \<in> dom (map_of m_data).
      if CHR ''*'' \<in> set pat then \<exists>m. name = ?a @ m @ ?b else name = pat}"
    using star plain by (auto simp: dom_map_of_conv_image_fst)
qed

theorem keys_matching_witness:
  "\<exists>names. call nat_platform (strs [''KEYS'', ''a*b'']) [(''ab'', StringKey []), (''axb'', StringKey []), (''b'', StringKey [])] =
       (Inr (createVector (strs names)), [(''ab'', StringKey []), (''axb'', StringKey []), (''b'', StringKey [])])
     \<and> sorted_wrt (<) names"
  using keys_matching [of "[(''ab'', StringKey []), (''axb'', StringKey []), (''b'', StringKey [])]" nat_platform "''a*b''"]
  by (auto simp: db_wf_def map_wf_def less_list_code)

text \<open> RENAME moves a key, of any type, to the new name, where it replaces what was there;
  renaming a key to its own name changes nothing, and a missing key is an error.
\<close>

theorem rename_moves:
  "fst (call pf (strs [''RENAME'', k, k']) m_data) =
     (if map_of m_data k = None then Inl (RuntimeError ''Key not found [verb: RENAME]'')
      else Inr (createString ''OK''))
   \<and> map_of (snd (call pf (strs [''RENAME'', k, k']) m_data)) =
     (case map_of m_data k of
        None \<Rightarrow> map_of m_data
      | Some x \<Rightarrow> (map_of m_data)(k := None, k' \<mapsto> x))"
  by (cases "map_of m_data k")
    (simp_all add: cmd_RENAME_def renameKey_def db_eval KEY_NOT_FOUND_def c_str_def)

section \<open>Sets\<close>

definition members :: "db \<Rightarrow> string \<Rightarrow> string set" where
  "members m_data k = (case map_of m_data k of Some (SetKey s) \<Rightarrow> set s | _ \<Rightarrow> {})"

definition is_set :: "db \<Rightarrow> string \<Rightarrow> bool" where
  "is_set m_data k \<longleftrightarrow> (case map_of m_data k of None \<Rightarrow> True | Some (SetKey s) \<Rightarrow> True | _ \<Rightarrow> False)"

definition content :: "db \<Rightarrow> string \<Rightarrow> string list" where
  "content m_data k = (case map_of m_data k of Some (SetKey s) \<Rightarrow> s | _ \<Rightarrow> [])"

lemma set_content: "set (content m_data k) = members m_data k"
  by (simp add: content_def members_def split: option.split key.split)

lemma set_wf_content: "db_wf m_data \<Longrightarrow> set_wf (content m_data k)"
  using db_wf_lookup [of m_data k] by (auto simp: content_def split: option.split key.split)

lemma getSet_is_set:
  "is_set m_data k \<Longrightarrow> getSet k m_data =
     (Inr (if map_of m_data k = None then None else Some (content m_data k)), m_data)"
  by (auto simp: is_set_def get_apply content_def split: option.splits key.splits)

lemma getCreateSet_is_set:
  "is_set m_data k \<Longrightarrow> getCreateSet k m_data =
     (Inr (content m_data k), if map_of m_data k = None then map_set k (SetKey []) m_data else m_data)"
  by (auto simp: is_set_def getCreate_apply content_def split: option.splits key.splits)

fun set_op :: "SetOperation \<Rightarrow> 'a set \<Rightarrow> 'a set \<Rightarrow> 'a set" where
  "set_op Union X Y = X \<union> Y"
| "set_op Intersection X Y = X \<inter> Y"
| "set_op Difference X Y = X - Y"

lemma set_fold_set_insert [simp]: "set (fold set_insert ys xs) = set xs \<union> set ys"
  by (induction ys arbitrary: xs) auto

lemma set_combine: "set (combine op xs ys) = set_op op (set xs) (set ys)"
  by (cases op) auto

lemma setOperation_loop_strs:
  "list_all (is_set m_data) ks \<Longrightarrow>
   setOperation_loop pf op k0 out (strs ks) m_data =
     (Inr (fold (\<lambda>k out. combine op out (content m_data k)) ks out), m_data)"
proof (induction ks arbitrary: k0 out)
  case (Cons k ks)
  have "(case (if map_of m_data k = None then None else Some (content m_data k)) of None \<Rightarrow> [] | Some s \<Rightarrow> s)
      = content m_data k"
    by (auto simp: content_def split: option.split)
  with Cons show ?case by (simp add: bind_def [of "getSet k"] getSet_is_set)
qed simp

lemma executeSetOperation_strs:
  assumes "list_all (is_set m_data) (k # ks)"
  shows "executeSetOperation pf op (strs (k # ks)) m_data =
     (Inr (fold (\<lambda>k out. combine op out (content m_data k)) ks (content m_data k)), m_data)"
proof -
  have "(case (if map_of m_data k = None then None else Some (content m_data k)) of None \<Rightarrow> [] | Some s \<Rightarrow> s)
      = content m_data k"
    by (auto simp: content_def split: option.split)
  with assms show ?thesis
    by (simp add: executeSetOperation_def bind_def [of "getSet k"] getSet_is_set setOperation_loop_strs)
qed

lemma fold_combine:
  "set (fold (\<lambda>k out. combine op out (content m_data k)) ks out) =
     fold (\<lambda>k X. set_op op X (members m_data k)) ks (set out)"
  by (induction ks arbitrary: out) (simp_all add: set_combine set_content)

lemma fold_combine_wf:
  "set_wf out \<Longrightarrow> set_wf (fold (\<lambda>k out. combine op out (content m_data k)) ks out)"
  by (induction ks arbitrary: out) (simp_all add: set_wf_combine)

text \<open>
  C3: SUNION, SINTER and SDIFF compute the union, the intersection and the difference of the sets
  of their keys, a missing key being the empty set. The result is in ascending order without
  duplicates, and nothing is changed.
\<close>

theorem set_operations:
  "db_wf m_data \<Longrightarrow> list_all (is_set m_data) (k # ks) \<Longrightarrow>
   \<exists>r. call pf (strs (verb # k # ks)) m_data = (Inr (createVector (strs r)), m_data)
     \<and> sorted_wrt (<) r
     \<and> set r = fold (\<lambda>k X. set_op op X (members m_data k)) ks (members m_data k)"
  if "(verb, op) \<in> {(''SUNION'', Union), (''SINTER'', Intersection), (''SDIFF'', Difference)}"
proof -
  assume wf: "db_wf m_data" and sets: "list_all (is_set m_data) (k # ks)"
  let ?r = "fold (\<lambda>k out. combine op out (content m_data k)) ks (content m_data k)"
  have "setOperation op pf (strs (k # ks)) m_data = (Inr (createVector (strs ?r)), m_data)"
    using executeSetOperation_strs [OF sets, of pf op]
    by (simp add: setOperation_def bind_def pushBackStrings_strs)
  then have "call pf (strs (verb # k # ks)) m_data = (Inr (createVector (strs ?r)), m_data)"
    using that by (auto simp: cmd_SUNION_def cmd_SINTER_def cmd_SDIFF_def)
  moreover have "sorted_wrt (<) ?r"
    using fold_combine_wf [OF set_wf_content [OF wf]] by (simp add: set_wf_def)
  ultimately show ?thesis
    using fold_combine [of op m_data ks "content m_data k"] by (auto simp: set_content)
qed

theorem set_operations_witness:
  "\<exists>r. call nat_platform (strs [''SDIFF'', ''s'', ''t'', ''u'']) [(''s'', SetKey [''a'', ''b'']), (''t'', SetKey [''b''])] =
       (Inr (createVector (strs r)), [(''s'', SetKey [''a'', ''b'']), (''t'', SetKey [''b''])])
     \<and> set r = {''a''}"
  using set_operations [of "''SDIFF''" Difference "[(''s'', SetKey [''a'', ''b'']), (''t'', SetKey [''b''])]"
    "''s''" "[''t'', ''u'']" nat_platform]
  by (auto simp: db_wf_def map_wf_def set_wf_def is_set_def members_def less_list_code)

section \<open>SORT\<close>

text \<open>
  What \<open>std::sort\<close> promises: for a predicate that is a strict weak order on the elements, the
  result is a permutation of them in which no element is less than an earlier one.
\<close>

definition strict_weak_on :: "'a set \<Rightarrow> ('a \<Rightarrow> 'a \<Rightarrow> bool) \<Rightarrow> bool" where
  "strict_weak_on S lt \<longleftrightarrow>
     (\<forall>a\<in>S. \<not> lt a a) \<and>
     (\<forall>a\<in>S. \<forall>b\<in>S. \<forall>c\<in>S. lt a b \<longrightarrow> lt b c \<longrightarrow> lt a c) \<and>
     (\<forall>a\<in>S. \<forall>b\<in>S. \<forall>c\<in>S. \<not> lt a b \<longrightarrow> \<not> lt b c \<longrightarrow> \<not> lt a c)"

definition sort_law :: "'f platform \<Rightarrow> bool" where
  "sort_law pf \<longleftrightarrow> (\<forall>lt xs. strict_weak_on (set xs) lt \<longrightarrow>
     mset (stdSort pf lt xs) = mset xs \<and> sorted_wrt (\<lambda>a b. \<not> lt b a) (stdSort pf lt xs))"

lemma strict_weak_onD:
  assumes "strict_weak_on S lt" "a \<in> S" "b \<in> S"
  shows "lt a b \<Longrightarrow> \<not> lt b a" "c \<in> S \<Longrightarrow> \<not> lt a b \<Longrightarrow> \<not> lt b c \<Longrightarrow> \<not> lt a c"
  using assms unfolding strict_weak_on_def by (blast, blast)

lemma mset_insert_by: "mset (insert_by lt x ys) = add_mset x (mset ys)"
  by (induction ys) auto

lemma sorted_insert_by:
  assumes "strict_weak_on S lt" "insert x (set ys) \<subseteq> S" "sorted_wrt (\<lambda>a b. \<not> lt b a) ys"
  shows "sorted_wrt (\<lambda>a b. \<not> lt b a) (insert_by lt x ys)"
  using assms(2,3)
proof (induction ys)
  case (Cons y ys)
  have S: "x \<in> S" "y \<in> S" "set ys \<subseteq> S" using Cons.prems by auto
  have set: "set (insert_by lt x ys) = insert x (set ys)"
    using mset_insert_by [of lt x ys] by (metis set_mset_add_mset_insert set_mset_mset)
  show ?case
  proof (cases "lt y x")
    case True
    then have "\<not> lt x y" by (rule strict_weak_onD(1) [OF assms(1) S(2,1)])
    with True Cons set show ?thesis by auto
  next
    case False
    then have "\<not> lt z x" if "z \<in> set ys" for z
      using strict_weak_onD(2) [OF assms(1), of z y x] S that Cons.prems(2) False by auto
    with False Cons.prems show ?thesis by auto
  qed
qed simp

lemma sort_law_nat_platform: "sort_law nat_platform"
proof -
  have "mset (foldr (insert_by lt) xs []) = mset xs" for lt :: "string \<Rightarrow> string \<Rightarrow> bool" and xs
    by (induction xs) (simp_all add: mset_insert_by)
  moreover have "sorted_wrt (\<lambda>a b. \<not> lt b a) (foldr (insert_by lt) xs [])"
    if "strict_weak_on S lt" "set xs \<subseteq> S" for S and lt :: "string \<Rightarrow> string \<Rightarrow> bool" and xs
    using that(2)
  proof (induction xs)
    case (Cons x xs)
    then show ?case
      using sorted_insert_by [OF that(1), of x "foldr (insert_by lt) xs []"] calculation [of lt xs]
      by (auto dest: arg_cong [of _ _ set_mset])
  qed simp
  ultimately show ?thesis by (auto simp: sort_law_def nat_platform_def)
qed

text \<open>The order a SORT command asks for.\<close>

definition sort_le :: "db \<Rightarrow> string \<Rightarrow> bool \<Rightarrow> string \<Rightarrow> string \<Rightarrow> bool" where
  "sort_le m_data pattern alpha a b =
     (if alpha then sortText m_data pattern a \<le> sortText m_data pattern b
      else the (sortNumber (sortText m_data pattern a)) \<le> the (sortNumber (sortText m_data pattern b)))"

definition sort_order :: "db \<Rightarrow> string \<Rightarrow> bool \<Rightarrow> bool \<Rightarrow> string \<Rightarrow> string \<Rightarrow> bool" where
  "sort_order m_data pattern desc alpha a b =
     (if desc then sort_le m_data pattern alpha b a else sort_le m_data pattern alpha a b)"

definition sortable_by :: "db \<Rightarrow> string \<Rightarrow> bool \<Rightarrow> string list \<Rightarrow> bool" where
  "sortable_by m_data pattern alpha xs \<longleftrightarrow>
     alpha \<or> list_all (\<lambda>a. sortNumber (sortText m_data pattern a) \<noteq> None) xs"

lemma Sorter_sortable:
  assumes "sortable_by m_data pattern alpha xs" "a \<in> set xs" "b \<in> set xs"
  shows "Sorter m_data pattern desc alpha a b =
    Inr (\<not> sort_order m_data pattern desc alpha b a)"
  using assms by (auto simp: Sorter_def sort_order_def sortable_by_def sort_le_def list_all_iff not_le Let_def
      split: option.split)

lemma sortThrowing_sorts:
  assumes "sort_law pf" "sortable_by m_data pattern alpha xs"
  shows "\<exists>r. sortThrowing pf (Sorter m_data pattern desc alpha) xs = Inr r \<and> mset r = mset xs
    \<and> sorted_wrt (sort_order m_data pattern desc alpha) r"
proof (cases "length xs \<ge> 2")
  case True
  let ?lt = "\<lambda>a b. Sorter m_data pattern desc alpha a b = Inr True"
  let ?r = "stdSort pf ?lt xs"
  note lt = Sorter_sortable [OF assms(2), of _ _ desc]
  have "strict_weak_on (set xs) ?lt"
    unfolding strict_weak_on_def by (auto simp: lt sort_order_def sort_le_def)
  then have r: "mset ?r = mset xs" "sorted_wrt (\<lambda>a b. \<not> ?lt b a) ?r"
    using assms(1) by (auto simp: sort_law_def)
  then have "set ?r = set xs" by (metis set_mset_mset)
  with r(2) have "sorted_wrt (sort_order m_data pattern desc alpha) ?r"
    using sorted_wrt_mono_rel [of ?r "\<lambda>a b. \<not> ?lt b a" "sort_order m_data pattern desc alpha"]
    by (simp add: lt)
  moreover have "find isl (map (\<lambda>x. Sorter m_data pattern desc alpha x x) xs) = None"
    by (auto simp: find_None_iff lt)
  ultimately show ?thesis using True r(1) by (simp add: sortThrowing_def)
next
  case False
  then have "xs = [] \<or> (\<exists>x. xs = [x])" by (cases xs; cases "tl xs") auto
  with False show ?thesis by (auto simp: sortThrowing_def)
qed

lemma to_int32_length: "int (length xs) \<le> INT32_MAX \<Longrightarrow> to_int32 (int (length xs)) = int (length xs)"
  by (rule to_int32_id) (simp add: int_simps)

lemma sortOutput_take:
  "int (length xs) \<le> INT32_MAX \<Longrightarrow>
   sortOutput emit xs (int i) (int c) = Inr (concat (map emit (take c (drop i xs))))"
proof (induction c arbitrary: i)
  case (Suc c)
  have "take (Suc c) (drop i xs) = xs ! i # take c (drop (Suc i) xs)" if "i < length xs"
    using that by (simp add: Cons_nth_drop_Suc [symmetric])
  with Suc show ?case
    using Suc.IH [of "Suc i"] by (subst sortOutput.simps) (simp add: to_int32_length add.commute)
qed (subst sortOutput.simps, simp)

lemma argString_str [simp]: "argString pf (createString s) old = Inr s"
  by (simp add: argString_def eatString_Cons)

lemma sortParse_by:
  "sortParse pf (strs ([''BY'', pat] @ (if alpha then [''ALPHA''] else []) @ (if desc then [''DESC''] else [])))
     sort_options_init = Inr (sort_options_init\<lparr>o_pattern := pat, o_alpha := alpha, o_descending := desc\<rparr>)"
proof -
  have "strUCase ''BY'' = ''BY''" "strUCase ''ALPHA'' = ''ALPHA''" "strUCase ''DESC'' = ''DESC''"
    by (simp_all add: strUCase_def charToUpper_def charIsLower_def)
  then show ?thesis by (cases alpha; cases desc) (simp_all add: sort_options_init_def)
qed

text \<open>
  C2: SORT gives a permutation of the elements of a list or set, in the order asked for: by the
  text or, without ALPHA, the number that the BY pattern gives for an element, descending
  with DESC. It changes nothing. This rests on what \<open>std::sort\<close> promises; every element
  needs a number unless the order is by text.
\<close>

theorem sort_by:
  "sort_law pf \<Longrightarrow> map_of m_data k = Some x \<Longrightarrow> as_Sortable x = Some xs \<Longrightarrow>
   int (length xs) \<le> INT32_MAX \<Longrightarrow> sortable_by m_data pat alpha xs \<Longrightarrow>
   \<exists>r. call pf (strs ([''SORT'', k, ''BY'', pat] @ (if alpha then [''ALPHA''] else []) @ (if desc then [''DESC''] else []))) m_data =
        (Inr (createVector (strs r)), m_data)
     \<and> mset r = mset xs
     \<and> sorted_wrt (sort_order m_data pat desc alpha) r"
proof -
  assume a: "sort_law pf" "map_of m_data k = Some x" "as_Sortable x = Some xs"
    "int (length xs) \<le> INT32_MAX" "sortable_by m_data pat alpha xs"
  obtain r where r: "sortThrowing pf (Sorter m_data pat desc alpha) xs = Inr r" "mset r = mset xs"
    "sorted_wrt (sort_order m_data pat desc alpha) r"
    using sortThrowing_sorts [OF a(1,5)] by blast
  have len: "length r = length xs" using r(2) by (metis size_mset)
  have out: "sortOutput emit r 0 (to_int32 (int (length r))) = Inr (concat (map emit r))" for emit :: "string \<Rightarrow> 'a Value option list"
    using sortOutput_take [of r emit 0 "length r"] a(4) len by (simp add: to_int32_length)
  have "executeSortOperation pf (Some xs)
      (strs ([''BY'', pat] @ (if alpha then [''ALPHA''] else []) @ (if desc then [''DESC''] else []))) m_data =
    (Inr (strs r), m_data)"
    unfolding executeSortOperation_def sortParse_by bind_apply_simps
    by (simp add: sort_options_init_def r(1) out getSortValue_def strs_def Let_def)
  then show ?thesis
    using r(2,3) a(2,3) by (auto simp: cmd_SORT_def db_eval)
qed

theorem sort_by_witness:
  "\<exists>r. call nat_platform (strs [''SORT'', ''l'', ''BY'', ''#'', ''ALPHA'', ''DESC''])
        [(''l'', ListKey [''b'', ''c'', ''a''])] =
      (Inr (createVector (strs r)), [(''l'', ListKey [''b'', ''c'', ''a''])]) \<and> mset r = {#''a'', ''b'', ''c''#}"
  using sort_by [OF sort_law_nat_platform, where m_data = "[(''l'', ListKey [''b'', ''c'', ''a''])]" and
    k = "''l''" and x = "ListKey [''b'', ''c'', ''a'']" and xs = "[''b'', ''c'', ''a'']" and pat = "''#''" and
    alpha = True and desc = True]
  by (auto simp: int_simps sortable_by_def add_mset_commute)

text \<open> SORT without ALPHA of two or more elements, one of which has no number, is refused with the
  message for integers and changes nothing, whatever else the command asks for, a STORE
  included.
\<close>

theorem sort_not_a_number:
  "map_of m_data k = Some x \<Longrightarrow> as_Sortable x = Some xs \<Longrightarrow> length xs \<ge> 2 \<Longrightarrow>
   sortParse pf v sort_options_init = Inr opt \<Longrightarrow> \<not> o_alpha opt \<Longrightarrow>
   \<not> sortable_by m_data (o_pattern opt) False xs \<Longrightarrow>
   call pf (createString ''SORT'' # createString k # v) m_data =
     (Inl (RuntimeError ''Invalid type (expect integer) [verb: SORT]''), m_data)"
proof -
  assume a: "map_of m_data k = Some x" "as_Sortable x = Some xs" "length xs \<ge> 2"
    "sortParse pf v sort_options_init = Inr opt" "\<not> o_alpha opt"
    "\<not> sortable_by m_data (o_pattern opt) False xs"
  let ?lt = "Sorter m_data (o_pattern opt) (o_descending opt) False"
  have self: "?lt y y = (if sortNumber (sortText m_data (o_pattern opt) y) = None
      then failr INVALID_TYPE_INT else Inr False)" for y
    by (auto simp: Sorter_def Let_def split: option.split)
  have "find isl (map (\<lambda>x. ?lt x x) ys) = (if sortable_by m_data (o_pattern opt) False ys then None
      else Some (failr INVALID_TYPE_INT))" for ys
    by (induction ys) (auto simp: self sortable_by_def failr_def)
  with a(3,6) have "sortThrowing pf ?lt xs = failr INVALID_TYPE_INT"
    by (simp add: sortThrowing_def failr_def)
  with a show ?thesis
    by (simp add: cmd_SORT_def executeSortOperation_def db_eval Let_def c_str_def INVALID_TYPE_INT_def)
qed

theorem sort_not_a_number_witness:
  "call nat_platform (createString ''SORT'' # createString ''l'' # []) [(''l'', ListKey [''1'', ''x''])] =
     (Inl (RuntimeError ''Invalid type (expect integer) [verb: SORT]''), [(''l'', ListKey [''1'', ''x''])])"
proof -
  have "\<not> sortable_by [] ''#'' False [''1'', ''x'']" by code_simp
  then show ?thesis
    using sort_not_a_number [where m_data = "[(''l'', ListKey [''1'', ''x''])]" and k = "''l''" and
      x = "ListKey [''1'', ''x'']" and xs = "[''1'', ''x'']" and pf = nat_platform and v = "[]" and
      opt = sort_options_init]
    by (simp add: sortable_by_def sort_options_init_def sortText_def getSortValue_def)
qed

section \<open>Changing lists and sets\<close>

lemma push_loop_strs:
  "push_loop push pf k (strs ss) s0 xs m_data =
     (Inr (fold push ss xs), if ss = [] then m_data else map_set k (ListKey (fold push ss xs)) m_data)"
  by (induction ss arbitrary: s0 xs m_data) (simp_all add: bind_def put_apply)

lemma fold_push_back: "fold push_back ss xs = xs @ ss"
  by (induction ss arbitrary: xs) (simp_all add: push_back_def)

lemma fold_push_front: "fold push_front ss xs = rev ss @ xs"
  by (induction ss arbitrary: xs) (simp_all add: push_front_def)

text \<open> RPUSH appends its values in order, LPUSH puts them in front one after the other, so that
  the last one comes first; both create a missing list and give the new length.
\<close>

theorem push_values:
  "(case map_of m_data k of None \<Rightarrow> xs = [] | Some x \<Rightarrow> x = ListKey xs) \<Longrightarrow> ss \<noteq> [] \<Longrightarrow>
   int (length (xs @ ss)) \<le> INT32_MAX \<Longrightarrow>
   call pf (strs (''RPUSH'' # k # ss)) m_data =
     (Inr (createInteger (int (length (xs @ ss)))), map_set k (ListKey (xs @ ss)) m_data)
   \<and> call pf (strs (''LPUSH'' # k # ss)) m_data =
     (Inr (createInteger (int (length (rev ss @ xs)))), map_set k (ListKey (rev ss @ xs)) m_data)"
  by (cases ss)
    (auto simp: cmd_RPUSH_def cmd_LPUSH_def db_eval push_loop_strs fold_push_back
      fold_push_front push_back_def push_front_def to_int32_id int_simps split: option.splits)

theorem push_values_witness:
  "call nat_platform (strs [''LPUSH'', ''l'', ''a'', ''b'']) [] =
     (Inr (createInteger 2), [(''l'', ListKey [''b'', ''a''])])"
  using push_values [where m_data = "[]" and k = "''l''" and xs = "[]" and ss = "[''a'', ''b'']" and pf = nat_platform]
  by (simp add: int_simps)

lemma sadd_loop_strs:
  "map_of m_data k = Some (SetKey xs) \<Longrightarrow>
   \<exists>m_data' ys. sadd_loop pf k (strs ss) s0 xs n m_data = (Inr (n + int (card (set ss - set xs))), m_data')
     \<and> map_of m_data' = (map_of m_data)(k \<mapsto> SetKey ys) \<and> set ys = set xs \<union> set ss"
proof (induction ss arbitrary: s0 xs n m_data)
  case (Cons s ss)
  show ?case
  proof (cases "s \<in> set xs")
    case True
    obtain m_data' ys where "sadd_loop pf k (strs ss) s xs n m_data = (Inr (n + int (card (set ss - set xs))), m_data')"
      "map_of m_data' = (map_of m_data)(k \<mapsto> SetKey ys)" "set ys = set xs \<union> set ss"
      using Cons.IH [OF Cons.prems] by blast
    with True show ?thesis by (intro exI [of _ m_data'] exI [of _ ys]) (auto simp: insert_Diff_if)
  next
    case False
    have "insert s (set ss) - set xs = insert s (set ss - insert s (set xs))" using False by blast
    then have "card (insert s (set ss) - set xs) = card (set ss - insert s (set xs)) + 1" by simp
    moreover obtain m_data' ys where "sadd_loop pf k (strs ss) s (set_insert s xs) (n + 1)
        (map_set k (SetKey (set_insert s xs)) m_data) = (Inr (n + 1 + int (card (set ss - insert s (set xs)))), m_data')"
      "map_of m_data' = (map_of m_data)(k \<mapsto> SetKey ys)" "set ys = insert s (set xs) \<union> set ss"
      using Cons.IH [of "map_set k (SetKey (set_insert s xs)) m_data" "set_insert s xs" s "n + 1"]
      by (simp only: map_of_map_set fun_upd_same set_set_insert fun_upd_upd) blast
    ultimately show ?thesis using False
      by (intro exI [of _ m_data'] exI [of _ ys]) (simp add: bind_def put_apply)
  qed
qed (simp, metis fun_upd_triv)

lemma srem_loop_strs:
  "map_of m_data k = Some (SetKey xs) \<Longrightarrow>
   \<exists>m_data' ys. srem_loop pf k (strs ss) s0 xs n m_data = (Inr (n + int (card (set ss \<inter> set xs)), ys), m_data')
     \<and> map_of m_data' = (map_of m_data)(k \<mapsto> SetKey ys) \<and> set ys = set xs - set ss"
proof (induction ss arbitrary: s0 xs n m_data)
  case (Cons s ss)
  have "insert s (set ss) \<inter> set xs = insert s (set ss \<inter> (set xs - {s}))" if "s \<in> set xs" using that by blast
  then have "card (insert s (set ss) \<inter> set xs) = card (set ss \<inter> (set xs - {s})) + 1" if "s \<in> set xs"
    using that by simp
  moreover have "set xs - {s} = set xs" if "s \<notin> set xs" using that by simp
  moreover obtain m_data' ys where "srem_loop pf k (strs ss) s (set_erase s xs) (if s \<in> set xs then n + 1 else n)
      (map_set k (SetKey (set_erase s xs)) m_data) =
        (Inr ((if s \<in> set xs then n + 1 else n) + int (card (set ss \<inter> (set xs - {s}))), ys), m_data')"
    "map_of m_data' = (map_of m_data)(k \<mapsto> SetKey ys)" "set ys = set xs - {s} - set ss"
    using Cons.IH [of "map_set k (SetKey (set_erase s xs)) m_data" "set_erase s xs" s
        "if s \<in> set xs then n + 1 else n"]
    by (simp only: map_of_map_set fun_upd_same set_set_erase fun_upd_upd) blast
  ultimately show ?case
    by (intro exI [of _ m_data'] exI [of _ ys]) (cases "s \<in> set xs"; auto simp: bind_def put_apply)
qed (simp, metis fun_upd_triv)

text \<open> SADD adds its values to a set, creating it when it is missing, and gives how many were new;
  SREM removes its values, and the key with them when nothing remains, and gives how many
  there were. Every other key stays as it was.
\<close>

theorem sadd_srem_members:
  "is_set m_data k \<Longrightarrow> ss \<noteq> [] \<Longrightarrow>
   (\<exists>m_data'. call pf (strs (''SADD'' # k # ss)) m_data =
        (Inr (createInteger (int (card (set ss - members m_data k)))), m_data')
      \<and> members m_data' k = members m_data k \<union> set ss
      \<and> (\<forall>k'. k' \<noteq> k \<longrightarrow> map_of m_data' k' = map_of m_data k'))
   \<and> (\<exists>m_data'. call pf (strs (''SREM'' # k # ss)) m_data =
        (Inr (createInteger (int (card (set ss \<inter> members m_data k)))), m_data')
      \<and> members m_data' k = members m_data k - set ss
      \<and> (members m_data' k = {} \<longrightarrow> map_of m_data' k = None)
      \<and> (\<forall>k'. k' \<noteq> k \<longrightarrow> map_of m_data' k' = map_of m_data k'))"
proof (intro conjI)
  assume k: "is_set m_data k" and "ss \<noteq> []"
  then have len: "length ss \<ge> 1" by (cases ss) auto
  let ?db = "if map_of m_data k = None then map_set k (SetKey []) m_data else m_data"
  have "map_of ?db k = Some (SetKey (content m_data k))"
    using k by (auto simp: is_set_def content_def split: option.splits key.splits)
  from sadd_loop_strs [OF this, of pf ss "[]" 0] show "\<exists>m_data'. call pf (strs (''SADD'' # k # ss)) m_data =
        (Inr (createInteger (int (card (set ss - members m_data k)))), m_data')
      \<and> members m_data' k = members m_data k \<union> set ss
      \<and> (\<forall>k'. k' \<noteq> k \<longrightarrow> map_of m_data' k' = map_of m_data k')"
    using len by (auto simp: cmd_SADD_def bind_def getCreateSet_is_set k set_content members_def split: if_splits)
  show "\<exists>m_data'. call pf (strs (''SREM'' # k # ss)) m_data =
        (Inr (createInteger (int (card (set ss \<inter> members m_data k)))), m_data')
      \<and> members m_data' k = members m_data k - set ss
      \<and> (members m_data' k = {} \<longrightarrow> map_of m_data' k = None)
      \<and> (\<forall>k'. k' \<noteq> k \<longrightarrow> map_of m_data' k' = map_of m_data k')"
  proof (cases "map_of m_data k")
    case None
    with len show ?thesis by (simp add: cmd_SREM_def bind_def getSet_is_set k members_def)
  next
    case (Some x)
    then have "map_of m_data k = Some (SetKey (content m_data k))"
      using k by (auto simp: is_set_def content_def split: key.splits)
    from srem_loop_strs [OF this, of pf ss "[]" 0] obtain m_data' ys where
      run: "srem_loop pf k (strs ss) [] (content m_data k) 0 m_data =
        (Inr (int (card (set ss \<inter> members m_data k)), ys), m_data')"
      "map_of m_data' = (map_of m_data)(k \<mapsto> SetKey ys)" and ys: "set ys = members m_data k - set ss"
      by (auto simp: set_content)
    let ?db = "if ys = [] then map_erase k m_data' else m_data'"
    have "call pf (strs (''SREM'' # k # ss)) m_data =
        (Inr (createInteger (int (card (set ss \<inter> members m_data k)))), ?db)"
      using run Some len by (simp add: cmd_SREM_def bind_def getSet_is_set k eraseIfEmpty_apply)
    moreover have "members ?db k = set ys" using run(2) by (auto simp: members_def)
    moreover have "ys = [] \<longleftrightarrow> members m_data k \<subseteq> set ss" using ys by (metis Diff_eq_empty_iff set_empty)
    ultimately show ?thesis using run(2) ys
      by (intro exI [of _ ?db]) auto
  qed
qed

theorem sadd_srem_members_witness:
  "\<exists>m_data'. call nat_platform (strs [''SADD'', ''s'', ''b'', ''a'']) [(''s'', SetKey [''a''])] =
       (Inr (createInteger 1), m_data') \<and> members m_data' ''s'' = {''a'', ''b''}"
  using sadd_srem_members [of "[(''s'', SetKey [''a''])]" "''s''" "[''b'', ''a'']" nat_platform]
  by (auto simp: is_set_def members_def insert_Diff_if)

section \<open>Corner cases\<close>

text \<open>
  Behaviour at the borders that differs from what the comments, or the counterpart commands, say.
  LREM can empty a list without removing its key, although LPOP and RPOP call an empty list
  something that cannot happen.
\<close>

lemma lrem_leaves_empty_list:
  "call nat_platform [createString ''LREM'', createString ''l'', createInteger 0, createString ''a'']
     [(''l'', ListKey [''a''])] = (Inr (createInteger 1), [(''l'', ListKey [])])"
  by (simp add: cmd_LREM_def db_eval lrem_def)

text \<open>LTRIM with a first index after the last one keeps one element, where LRANGE gives none.\<close>

lemma ltrim_inverted_range:
  "call nat_platform [createString ''LTRIM'', createString ''l'', createInteger 2, createInteger 0]
     [(''l'', ListKey [''a'', ''b'', ''c'', ''d''])] = (Inr (createString ''OK''), [(''l'', ListKey [''c''])])
   \<and> call nat_platform [createString ''LRANGE'', createString ''l'', createInteger 2, createInteger 0]
     [(''l'', ListKey [''a'', ''b'', ''c'', ''d''])] =
       (Inr (createVector []), [(''l'', ListKey [''a'', ''b'', ''c'', ''d''])])"
  by (simp add: cmd_LTRIM_def cmd_LRANGE_def db_eval convertIndex_def ltrim_def ltrim_front_drop
      ltrim_back_take lrange_loop_take pushBackStrings_strs Let_def size_mod_def)

text \<open>SMOVE removes the element from its set before it finds that the destination is no set, so the
  element is lost, and an empty set remains.\<close>

lemma smove_loses_element:
  "call nat_platform (strs [''SMOVE'', ''s'', ''t'', ''x'']) [(''s'', SetKey [''x'']), (''t'', StringKey ''y'')] =
     (Inl (RuntimeError ''Invalid type [verb: SMOVE]''), [(''s'', SetKey []), (''t'', StringKey ''y'')])"
  by (simp add: cmd_SMOVE_def db_eval set_erase_def c_str_def INVALID_TYPE_def less_list_code)

text \<open>GETRANGE with the greatest index as its end overflows in \<open>++end\<close>.\<close>

lemma getrange_overflow:
  "call nat_platform [createString ''GETRANGE'', createString ''k'', createInteger 0, createInteger INT32_MAX]
     [(''k'', StringKey ''abc'')] = (Inl Undefined, [(''k'', StringKey ''abc'')])"
  by (simp add: cmd_GETRANGE_def db_eval getRange_def int32_result_def int_simps to_int32_def Let_def)

text \<open>SORT with LIMIT 0 0 and STORE creates an empty list; with a negative offset it reads before the
  first element.\<close>

lemma sort_store_empty_list:
  "call nat_platform [createString ''SORT'', createString ''l'', createString ''LIMIT'', createInteger 0, createInteger 0,
       createString ''STORE'', createString ''m''] [(''l'', ListKey [''1''])] =
     (Inr (createVector []), [(''l'', ListKey [''1'']), (''m'', ListKey [])])"
proof -
  have "strUCase ''LIMIT'' = ''LIMIT''" "strUCase ''STORE'' = ''STORE''"
    by (simp_all add: strUCase_def charToUpper_def charIsLower_def)
  then show ?thesis
    by (simp add: cmd_SORT_def executeSortOperation_def db_eval sort_options_init_def argInteger_def
        eatInteger_def eat_def sortThrowing_def sortOutput.simps Let_def map_erase_def less_list_code)
qed

lemma sort_negative_offset:
  "fst (call nat_platform [createString ''SORT'', createString ''l'', createString ''LIMIT'', createInteger (- 1), createInteger 1]
     [(''l'', ListKey [''1''])]) = Inl Undefined"
proof -
  have "strUCase ''LIMIT'' = ''LIMIT''"
    by (simp add: strUCase_def charToUpper_def charIsLower_def)
  then show ?thesis
    by (simp add: cmd_SORT_def executeSortOperation_def db_eval sort_options_init_def argInteger_def
        eatInteger_def eat_def sortThrowing_def sortOutput.simps Let_def to_int32_def)
qed

end
