(* ===== verification/Afl_Redis_Client.thy ===== *)
theory Afl_Redis_Client
  imports Afl_Redis_Laws
begin

text \<open>
  The client classes of afl/net/redis, which turn method calls into commands for a command
  handler (afl/net/commandhandler.cpp), and what they do when the handler is the internal
  database. A client object is the name of its key; its methods take the handler as an
  argument. \<open>Segment().pushBackString(...)\<close> chains are written as the list they build.
\<close>

section \<open>Command handlers\<close>

record ('s, 'f) command_handler =
  ch_call :: "'f segment \<Rightarrow> ('s, 'f reply) action"
  ch_callVoid :: "'f segment \<Rightarrow> ('s, unit) action"

definition orElse :: "'a option \<Rightarrow> 'a \<Rightarrow> 'a" where
  "orElse opt dflt = (case opt of None \<Rightarrow> dflt | Some x \<Rightarrow> x)"

definition callOptionalInt :: "'f platform \<Rightarrow> ('s, 'f) command_handler \<Rightarrow> 'f segment \<Rightarrow> ('s, int option) action" where
  "callOptionalInt pf ch command =
     bind (ch_call ch command) (\<lambda>result.
     case result of
       None \<Rightarrow> ret None
     | Some v \<Rightarrow> bind (lift (toInteger pf (Some v))) (\<lambda>i. ret (Some i)))"

definition callInt :: "'f platform \<Rightarrow> ('s, 'f) command_handler \<Rightarrow> 'f segment \<Rightarrow> ('s, int) action" where
  "callInt pf ch command = bind (callOptionalInt pf ch command) (\<lambda>v. ret (orElse v 0))"

definition callString :: "'f platform \<Rightarrow> ('s, 'f) command_handler \<Rightarrow> 'f segment \<Rightarrow> ('s, string) action" where
  "callString pf ch command = bind (ch_call ch command) (\<lambda>result. lift (toString pf result))"

definition InternalDatabase :: "'f platform \<Rightarrow> (db, 'f) command_handler" where
  "InternalDatabase pf = \<lparr>ch_call = call pf, ch_callVoid = callVoid pf\<rparr>"


section \<open>Keys\<close>

text \<open>A key is a handler and a name; renaming gives the new name of the object. The kinds of key are those of \<open>Key::Type\<close>.\<close>

datatype Key_Type = Type_None | Type_String | Type_List | Type_Set | Type_ZSet | Type_Hash | Type_Unknown

definition Key_exists :: "'f platform \<Rightarrow> ('s, 'f) command_handler \<Rightarrow> string \<Rightarrow> ('s, bool) action" where
  "Key_exists pf ch name = bind (callInt pf ch [createString ''EXISTS'', createString name]) (\<lambda>n. ret (n \<noteq> 0))"

definition Key_remove :: "('s, 'f) command_handler \<Rightarrow> string \<Rightarrow> ('s, unit) action" where
  "Key_remove ch name = ch_callVoid ch [createString ''DEL'', createString name]"

definition Key_renameTo :: "('s, 'f) command_handler \<Rightarrow> string \<Rightarrow> string \<Rightarrow> ('s, string) action" where
  "Key_renameTo ch name newName =
     bind (ch_callVoid ch [createString ''RENAME'', createString name, createString newName]) (\<lambda>_. ret newName)"

definition Key_renameToUnique :: "'f platform \<Rightarrow> ('s, 'f) command_handler \<Rightarrow> string \<Rightarrow> string \<Rightarrow> ('s, bool \<times> string) action" where
  "Key_renameToUnique pf ch name newName =
     bind (callInt pf ch [createString ''RENAMENX'', createString name, createString newName]) (\<lambda>result.
     ret (if result \<noteq> 0 then (True, newName) else (False, name)))"

definition Key_getType :: "'f platform \<Rightarrow> ('s, 'f) command_handler \<Rightarrow> string \<Rightarrow> ('s, Key_Type) action" where
  "Key_getType pf ch name =
     bind (callString pf ch [createString ''TYPE'', createString name]) (\<lambda>result.
     ret (if result = ''none'' then Type_None
          else if result = ''string'' then Type_String
          else if result = ''list'' then Type_List
          else if result = ''set'' then Type_Set
          else if result = ''zset'' then Type_ZSet
          else if result = ''hash'' then Type_Hash
          else Type_Unknown))"

section \<open>String keys\<close>

definition MAX_SIZE :: "nat" where
  "MAX_SIZE = 512 * 1024 * 1024"

definition StringKey_append :: "('s, 'f) command_handler \<Rightarrow> string \<Rightarrow> string \<Rightarrow> ('s, unit) action" where
  "StringKey_append ch name s = ch_callVoid ch [createString ''APPEND'', createString name, createString s]"

definition StringKey_get :: "'f platform \<Rightarrow> ('s, 'f) command_handler \<Rightarrow> string \<Rightarrow> ('s, string) action" where
  "StringKey_get pf ch name = callString pf ch [createString ''GET'', createString name]"

definition StringKey_substr :: "'f platform \<Rightarrow> ('s, 'f) command_handler \<Rightarrow> string \<Rightarrow> nat \<Rightarrow> nat \<Rightarrow> ('s, string) action" where
  "StringKey_substr pf ch name start len =
     (if start < MAX_SIZE \<and> len > 0
      then let len = (if len > MAX_SIZE then MAX_SIZE else len)
           in callString pf ch [createString ''GETRANGE'', createString name, createInteger (to_int32 (int start)), createInteger (to_int32 (int (start + len - 1)))]
      else ret [])"

definition StringKey_replaceBy :: "'f platform \<Rightarrow> ('s, 'f) command_handler \<Rightarrow> string \<Rightarrow> string \<Rightarrow> ('s, string) action" where
  "StringKey_replaceBy pf ch name newValue = callString pf ch [createString ''GETSET'', createString name, createString newValue]"

definition StringKey_set :: "('s, 'f) command_handler \<Rightarrow> string \<Rightarrow> string \<Rightarrow> ('s, unit) action" where
  "StringKey_set ch name newValue = ch_callVoid ch [createString ''SET'', createString name, createString newValue]"

definition StringKey_setUnique :: "'f platform \<Rightarrow> ('s, 'f) command_handler \<Rightarrow> string \<Rightarrow> string \<Rightarrow> ('s, bool) action" where
  "StringKey_setUnique pf ch name newValue = bind (callInt pf ch [createString ''SETNX'', createString name, createString newValue]) (\<lambda>n. ret (n \<noteq> 0))"

definition StringKey_size :: "'f platform \<Rightarrow> ('s, 'f) command_handler \<Rightarrow> string \<Rightarrow> ('s, nat) action" where
  "StringKey_size pf ch name =
     bind (callInt pf ch [createString ''STRLEN'', createString name]) (\<lambda>n.
     ret (if n < 0 \<or> to_int32 n \<noteq> n then 0 else nat n))"

section \<open>Integer keys\<close>

definition IntegerKey_dec :: "'f platform \<Rightarrow> ('s, 'f) command_handler \<Rightarrow> string \<Rightarrow> ('s, int) action" where
  "IntegerKey_dec pf ch name = callInt pf ch [createString ''DECR'', createString name]"

definition IntegerKey_sub :: "'f platform \<Rightarrow> ('s, 'f) command_handler \<Rightarrow> string \<Rightarrow> int \<Rightarrow> ('s, int) action" where
  "IntegerKey_sub pf ch name val = callInt pf ch [createString ''DECRBY'', createString name, createInteger val]"

definition IntegerKey_getOptional :: "'f platform \<Rightarrow> ('s, 'f) command_handler \<Rightarrow> string \<Rightarrow> ('s, int option) action" where
  "IntegerKey_getOptional pf ch name = callOptionalInt pf ch [createString ''GET'', createString name]"

definition IntegerKey_get :: "'f platform \<Rightarrow> ('s, 'f) command_handler \<Rightarrow> string \<Rightarrow> ('s, int) action" where
  "IntegerKey_get pf ch name = bind (IntegerKey_getOptional pf ch name) (\<lambda>v. ret (orElse v 0))"

definition IntegerKey_replaceBy :: "'f platform \<Rightarrow> ('s, 'f) command_handler \<Rightarrow> string \<Rightarrow> int \<Rightarrow> ('s, int) action" where
  "IntegerKey_replaceBy pf ch name newValue = callInt pf ch [createString ''GETSET'', createString name, createInteger newValue]"

definition IntegerKey_inc :: "'f platform \<Rightarrow> ('s, 'f) command_handler \<Rightarrow> string \<Rightarrow> ('s, int) action" where
  "IntegerKey_inc pf ch name = callInt pf ch [createString ''INCR'', createString name]"

definition IntegerKey_add :: "'f platform \<Rightarrow> ('s, 'f) command_handler \<Rightarrow> string \<Rightarrow> int \<Rightarrow> ('s, int) action" where
  "IntegerKey_add pf ch name val = callInt pf ch [createString ''INCRBY'', createString name, createInteger val]"

definition IntegerKey_set :: "('s, 'f) command_handler \<Rightarrow> string \<Rightarrow> int \<Rightarrow> ('s, unit) action" where
  "IntegerKey_set ch name newValue = ch_callVoid ch [createString ''SET'', createString name, createInteger newValue]"

definition IntegerKey_setUnique :: "'f platform \<Rightarrow> ('s, 'f) command_handler \<Rightarrow> string \<Rightarrow> int \<Rightarrow> ('s, bool) action" where
  "IntegerKey_setUnique pf ch name newValue = bind (callInt pf ch [createString ''SETNX'', createString name, createInteger newValue]) (\<lambda>n. ret (n \<noteq> 0))"

section \<open>Hash keys and fields\<close>

text \<open>A field is the name of its hash and its own name.\<close>

definition HashKey_size :: "'f platform \<Rightarrow> ('s, 'f) command_handler \<Rightarrow> string \<Rightarrow> ('s, int) action" where
  "HashKey_size pf ch name = callInt pf ch [createString ''HLEN'', createString name]"

definition HashKey_getFieldNames :: "'f platform \<Rightarrow> ('s, 'f) command_handler \<Rightarrow> string \<Rightarrow> ('s, string list) action" where
  "HashKey_getFieldNames pf ch name = bind (ch_call ch [createString ''HKEYS'', createString name]) (\<lambda>val. lift (toStringList pf val))"

definition HashKey_getAll :: "'f platform \<Rightarrow> ('s, 'f) command_handler \<Rightarrow> string \<Rightarrow> ('s, string list) action" where
  "HashKey_getAll pf ch name = bind (ch_call ch [createString ''HGETALL'', createString name]) (\<lambda>val. lift (toStringList pf val))"

definition HashKey_setAll :: "('s, 'f) command_handler \<Rightarrow> string \<Rightarrow> string list \<Rightarrow> ('s, unit) action" where
  "HashKey_setAll ch name vec =
     (if vec \<noteq> [] then ch_callVoid ch ([createString ''HMSET'', createString name] @ map createString vec) else ret ())"

definition Field_exists :: "'f platform \<Rightarrow> ('s, 'f) command_handler \<Rightarrow> string \<Rightarrow> string \<Rightarrow> ('s, bool) action" where
  "Field_exists pf ch hashName name = bind (callInt pf ch [createString ''HEXISTS'', createString hashName, createString name]) (\<lambda>n. ret (n \<noteq> 0))"

definition Field_remove :: "'f platform \<Rightarrow> ('s, 'f) command_handler \<Rightarrow> string \<Rightarrow> string \<Rightarrow> ('s, bool) action" where
  "Field_remove pf ch hashName name = bind (callInt pf ch [createString ''HDEL'', createString hashName, createString name]) (\<lambda>n. ret (n \<noteq> 0))"

definition Field_getRawValue :: "('s, 'f) command_handler \<Rightarrow> string \<Rightarrow> string \<Rightarrow> ('s, 'f reply) action" where
  "Field_getRawValue ch hashName name = ch_call ch [createString ''HGET'', createString hashName, createString name]"

definition StringField_set :: "'f platform \<Rightarrow> ('s, 'f) command_handler \<Rightarrow> string \<Rightarrow> string \<Rightarrow> string \<Rightarrow> ('s, bool) action" where
  "StringField_set pf ch hashName name val = bind (callInt pf ch [createString ''HSET'', createString hashName, createString name, createString val]) (\<lambda>n. ret (n \<noteq> 0))"

definition StringField_get :: "'f platform \<Rightarrow> ('s, 'f) command_handler \<Rightarrow> string \<Rightarrow> string \<Rightarrow> ('s, string) action" where
  "StringField_get pf ch hashName name = callString pf ch [createString ''HGET'', createString hashName, createString name]"

definition IntegerField_add :: "'f platform \<Rightarrow> ('s, 'f) command_handler \<Rightarrow> string \<Rightarrow> string \<Rightarrow> int \<Rightarrow> ('s, int) action" where
  "IntegerField_add pf ch hashName name incr = callInt pf ch [createString ''HINCRBY'', createString hashName, createString name, createInteger incr]"

definition IntegerField_inc :: "'f platform \<Rightarrow> ('s, 'f) command_handler \<Rightarrow> string \<Rightarrow> string \<Rightarrow> ('s, int) action" where
  "IntegerField_inc pf ch hashName name = IntegerField_add pf ch hashName name 1"

definition IntegerField_dec :: "'f platform \<Rightarrow> ('s, 'f) command_handler \<Rightarrow> string \<Rightarrow> string \<Rightarrow> ('s, int) action" where
  "IntegerField_dec pf ch hashName name = IntegerField_add pf ch hashName name (- 1)"

definition IntegerField_sub :: "'f platform \<Rightarrow> ('s, 'f) command_handler \<Rightarrow> string \<Rightarrow> string \<Rightarrow> int \<Rightarrow> ('s, int) action" where
  "IntegerField_sub pf ch hashName name decr =
     bind (lift (int32_result (- decr))) (\<lambda>incr. IntegerField_add pf ch hashName name incr)"

definition IntegerField_set :: "'f platform \<Rightarrow> ('s, 'f) command_handler \<Rightarrow> string \<Rightarrow> string \<Rightarrow> int \<Rightarrow> ('s, bool) action" where
  "IntegerField_set pf ch hashName name val = bind (callInt pf ch [createString ''HSET'', createString hashName, createString name, createInteger val]) (\<lambda>n. ret (n \<noteq> 0))"

definition IntegerField_getOptional :: "'f platform \<Rightarrow> ('s, 'f) command_handler \<Rightarrow> string \<Rightarrow> string \<Rightarrow> ('s, int option) action" where
  "IntegerField_getOptional pf ch hashName name = callOptionalInt pf ch [createString ''HGET'', createString hashName, createString name]"

definition IntegerField_get :: "'f platform \<Rightarrow> ('s, 'f) command_handler \<Rightarrow> string \<Rightarrow> string \<Rightarrow> ('s, int) action" where
  "IntegerField_get pf ch hashName name =
     bind (IntegerField_getOptional pf ch hashName name) (\<lambda>v. ret (orElse v 0))"

section \<open>List keys\<close>

definition ListKey_size :: "'f platform \<Rightarrow> ('s, 'f) command_handler \<Rightarrow> string \<Rightarrow> ('s, int) action" where
  "ListKey_size pf ch name = callInt pf ch [createString ''LLEN'', createString name]"

definition ListKey_empty :: "'f platform \<Rightarrow> ('s, 'f) command_handler \<Rightarrow> string \<Rightarrow> ('s, bool) action" where
  "ListKey_empty pf ch name = bind (ListKey_size pf ch name) (\<lambda>n. ret (n = 0))"

definition ListKey_trimToRange :: "('s, 'f) command_handler \<Rightarrow> string \<Rightarrow> int \<Rightarrow> int \<Rightarrow> ('s, unit) action" where
  "ListKey_trimToRange ch name start end1 = ch_callVoid ch [createString ''LTRIM'', createString name, createInteger start, createInteger end1]"

definition StringListKey_at :: "'f platform \<Rightarrow> ('s, 'f) command_handler \<Rightarrow> string \<Rightarrow> int \<Rightarrow> ('s, string) action" where
  "StringListKey_at pf ch name index = callString pf ch [createString ''LINDEX'', createString name, createInteger index]"

definition StringListKey_popFront :: "'f platform \<Rightarrow> ('s, 'f) command_handler \<Rightarrow> string \<Rightarrow> ('s, string) action" where
  "StringListKey_popFront pf ch name = callString pf ch [createString ''LPOP'', createString name]"

definition StringListKey_pushFront :: "'f platform \<Rightarrow> ('s, 'f) command_handler \<Rightarrow> string \<Rightarrow> string \<Rightarrow> ('s, int) action" where
  "StringListKey_pushFront pf ch name val = callInt pf ch [createString ''LPUSH'', createString name, createString val]"

definition StringListKey_popBack :: "'f platform \<Rightarrow> ('s, 'f) command_handler \<Rightarrow> string \<Rightarrow> ('s, string) action" where
  "StringListKey_popBack pf ch name = callString pf ch [createString ''RPOP'', createString name]"

definition StringListKey_pushBack :: "'f platform \<Rightarrow> ('s, 'f) command_handler \<Rightarrow> string \<Rightarrow> string \<Rightarrow> ('s, int) action" where
  "StringListKey_pushBack pf ch name val = callInt pf ch [createString ''RPUSH'', createString name, createString val]"

definition StringListKey_set :: "('s, 'f) command_handler \<Rightarrow> string \<Rightarrow> int \<Rightarrow> string \<Rightarrow> ('s, unit) action" where
  "StringListKey_set ch name index val = ch_callVoid ch [createString ''LSET'', createString name, createInteger index, createString val]"

definition StringListKey_removeValue :: "'f platform \<Rightarrow> ('s, 'f) command_handler \<Rightarrow> string \<Rightarrow> string \<Rightarrow> int \<Rightarrow> ('s, int) action" where
  "StringListKey_removeValue pf ch name val n = callInt pf ch [createString ''LREM'', createString name, createInteger n, createString val]"

definition StringListKey_transferElement :: "'f platform \<Rightarrow> ('s, 'f) command_handler \<Rightarrow> string \<Rightarrow> string \<Rightarrow> ('s, string) action" where
  "StringListKey_transferElement pf ch name other = callString pf ch [createString ''RPOPLPUSH'', createString name, createString other]"

definition StringListKey_getRange :: "'f platform \<Rightarrow> ('s, 'f) command_handler \<Rightarrow> string \<Rightarrow> int \<Rightarrow> int \<Rightarrow> ('s, string list) action" where
  "StringListKey_getRange pf ch name start end1 =
     bind (ch_call ch [createString ''LRANGE'', createString name, createInteger start, createInteger end1]) (\<lambda>val. lift (toStringList pf val))"

definition StringListKey_getAll :: "'f platform \<Rightarrow> ('s, 'f) command_handler \<Rightarrow> string \<Rightarrow> ('s, string list) action" where
  "StringListKey_getAll pf ch name = StringListKey_getRange pf ch name 0 (- 1)"

definition IntegerListKey_at :: "'f platform \<Rightarrow> ('s, 'f) command_handler \<Rightarrow> string \<Rightarrow> int \<Rightarrow> ('s, int) action" where
  "IntegerListKey_at pf ch name index = callInt pf ch [createString ''LINDEX'', createString name, createInteger index]"

definition IntegerListKey_popFront :: "'f platform \<Rightarrow> ('s, 'f) command_handler \<Rightarrow> string \<Rightarrow> ('s, int) action" where
  "IntegerListKey_popFront pf ch name = callInt pf ch [createString ''LPOP'', createString name]"

definition IntegerListKey_pushFront :: "'f platform \<Rightarrow> ('s, 'f) command_handler \<Rightarrow> string \<Rightarrow> int \<Rightarrow> ('s, int) action" where
  "IntegerListKey_pushFront pf ch name val = callInt pf ch [createString ''LPUSH'', createString name, createInteger val]"

definition IntegerListKey_popBack :: "'f platform \<Rightarrow> ('s, 'f) command_handler \<Rightarrow> string \<Rightarrow> ('s, int) action" where
  "IntegerListKey_popBack pf ch name = callInt pf ch [createString ''RPOP'', createString name]"

definition IntegerListKey_pushBack :: "'f platform \<Rightarrow> ('s, 'f) command_handler \<Rightarrow> string \<Rightarrow> int \<Rightarrow> ('s, int) action" where
  "IntegerListKey_pushBack pf ch name val = callInt pf ch [createString ''RPUSH'', createString name, createInteger val]"

definition IntegerListKey_set :: "('s, 'f) command_handler \<Rightarrow> string \<Rightarrow> int \<Rightarrow> int \<Rightarrow> ('s, unit) action" where
  "IntegerListKey_set ch name index val = ch_callVoid ch [createString ''LSET'', createString name, createInteger index, createInteger val]"

definition IntegerListKey_removeValue :: "'f platform \<Rightarrow> ('s, 'f) command_handler \<Rightarrow> string \<Rightarrow> int \<Rightarrow> int \<Rightarrow> ('s, int) action" where
  "IntegerListKey_removeValue pf ch name val n = callInt pf ch [createString ''LREM'', createString name, createInteger n, createInteger val]"

definition IntegerListKey_transferElement :: "'f platform \<Rightarrow> ('s, 'f) command_handler \<Rightarrow> string \<Rightarrow> string \<Rightarrow> ('s, int) action" where
  "IntegerListKey_transferElement pf ch name other = callInt pf ch [createString ''RPOPLPUSH'', createString name, createString other]"

definition IntegerListKey_getRange :: "'f platform \<Rightarrow> ('s, 'f) command_handler \<Rightarrow> string \<Rightarrow> int \<Rightarrow> int \<Rightarrow> ('s, int list) action" where
  "IntegerListKey_getRange pf ch name start end1 =
     bind (ch_call ch [createString ''LRANGE'', createString name, createInteger start, createInteger end1]) (\<lambda>val. lift (toIntegerList pf val))"

definition IntegerListKey_getAll :: "'f platform \<Rightarrow> ('s, 'f) command_handler \<Rightarrow> string \<Rightarrow> ('s, int list) action" where
  "IntegerListKey_getAll pf ch name = IntegerListKey_getRange pf ch name 0 (- 1)"

section \<open>Set keys\<close>

definition SetKey_size :: "'f platform \<Rightarrow> ('s, 'f) command_handler \<Rightarrow> string \<Rightarrow> ('s, int) action" where
  "SetKey_size pf ch name = callInt pf ch [createString ''SCARD'', createString name]"

definition SetKey_empty :: "'f platform \<Rightarrow> ('s, 'f) command_handler \<Rightarrow> string \<Rightarrow> ('s, bool) action" where
  "SetKey_empty pf ch name = bind (SetKey_size pf ch name) (\<lambda>n. ret (n = 0))"

definition StringSetKey_add :: "'f platform \<Rightarrow> ('s, 'f) command_handler \<Rightarrow> string \<Rightarrow> string \<Rightarrow> ('s, bool) action" where
  "StringSetKey_add pf ch name val = bind (callInt pf ch [createString ''SADD'', createString name, createString val]) (\<lambda>n. ret (n \<noteq> 0))"

definition StringSetKey_remove :: "'f platform \<Rightarrow> ('s, 'f) command_handler \<Rightarrow> string \<Rightarrow> string \<Rightarrow> ('s, bool) action" where
  "StringSetKey_remove pf ch name val = bind (callInt pf ch [createString ''SREM'', createString name, createString val]) (\<lambda>n. ret (n \<noteq> 0))"

definition StringSetKey_extractRandom :: "'f platform \<Rightarrow> ('s, 'f) command_handler \<Rightarrow> string \<Rightarrow> ('s, string) action" where
  "StringSetKey_extractRandom pf ch name = callString pf ch [createString ''SPOP'', createString name]"

definition StringSetKey_getRandom :: "'f platform \<Rightarrow> ('s, 'f) command_handler \<Rightarrow> string \<Rightarrow> ('s, string) action" where
  "StringSetKey_getRandom pf ch name = callString pf ch [createString ''SRANDMEMBER'', createString name]"

definition StringSetKey_moveTo :: "'f platform \<Rightarrow> ('s, 'f) command_handler \<Rightarrow> string \<Rightarrow> string \<Rightarrow> string \<Rightarrow> ('s, bool) action" where
  "StringSetKey_moveTo pf ch name val other =
     bind (callInt pf ch [createString ''SMOVE'', createString name, createString other, createString val]) (\<lambda>n. ret (n \<noteq> 0))"

definition StringSetKey_contains :: "'f platform \<Rightarrow> ('s, 'f) command_handler \<Rightarrow> string \<Rightarrow> string \<Rightarrow> ('s, bool) action" where
  "StringSetKey_contains pf ch name val = bind (callInt pf ch [createString ''SISMEMBER'', createString name, createString val]) (\<lambda>n. ret (n \<noteq> 0))"

definition StringSetKey_copyTo :: "('s, 'f) command_handler \<Rightarrow> string \<Rightarrow> string \<Rightarrow> ('s, unit) action" where
  "StringSetKey_copyTo ch name other = ch_callVoid ch [createString ''SINTERSTORE'', createString other, createString name]"

definition StringSetKey_getAll :: "'f platform \<Rightarrow> ('s, 'f) command_handler \<Rightarrow> string \<Rightarrow> ('s, string list) action" where
  "StringSetKey_getAll pf ch name = bind (ch_call ch [createString ''SMEMBERS'', createString name]) (\<lambda>val. lift (toStringList pf val))"

definition IntegerSetKey_add :: "'f platform \<Rightarrow> ('s, 'f) command_handler \<Rightarrow> string \<Rightarrow> int \<Rightarrow> ('s, bool) action" where
  "IntegerSetKey_add pf ch name val = bind (callInt pf ch [createString ''SADD'', createString name, createInteger val]) (\<lambda>n. ret (n \<noteq> 0))"

definition IntegerSetKey_remove :: "'f platform \<Rightarrow> ('s, 'f) command_handler \<Rightarrow> string \<Rightarrow> int \<Rightarrow> ('s, bool) action" where
  "IntegerSetKey_remove pf ch name val = bind (callInt pf ch [createString ''SREM'', createString name, createInteger val]) (\<lambda>n. ret (n \<noteq> 0))"

definition IntegerSetKey_extractRandom :: "'f platform \<Rightarrow> ('s, 'f) command_handler \<Rightarrow> string \<Rightarrow> ('s, int) action" where
  "IntegerSetKey_extractRandom pf ch name = callInt pf ch [createString ''SPOP'', createString name]"

definition IntegerSetKey_getRandom :: "'f platform \<Rightarrow> ('s, 'f) command_handler \<Rightarrow> string \<Rightarrow> ('s, int) action" where
  "IntegerSetKey_getRandom pf ch name = callInt pf ch [createString ''SRANDMEMBER'', createString name]"

definition IntegerSetKey_moveTo :: "'f platform \<Rightarrow> ('s, 'f) command_handler \<Rightarrow> string \<Rightarrow> int \<Rightarrow> string \<Rightarrow> ('s, bool) action" where
  "IntegerSetKey_moveTo pf ch name val other =
     bind (callInt pf ch [createString ''SMOVE'', createString name, createString other, createInteger val]) (\<lambda>n. ret (n \<noteq> 0))"

definition IntegerSetKey_contains :: "'f platform \<Rightarrow> ('s, 'f) command_handler \<Rightarrow> string \<Rightarrow> int \<Rightarrow> ('s, bool) action" where
  "IntegerSetKey_contains pf ch name val = bind (callInt pf ch [createString ''SISMEMBER'', createString name, createInteger val]) (\<lambda>n. ret (n \<noteq> 0))"

definition IntegerSetKey_copyTo :: "('s, 'f) command_handler \<Rightarrow> string \<Rightarrow> string \<Rightarrow> ('s, unit) action" where
  "IntegerSetKey_copyTo ch name other = ch_callVoid ch [createString ''SINTERSTORE'', createString other, createString name]"

definition IntegerSetKey_getAll :: "'f platform \<Rightarrow> ('s, 'f) command_handler \<Rightarrow> string \<Rightarrow> ('s, int list) action" where
  "IntegerSetKey_getAll pf ch name = bind (ch_call ch [createString ''SMEMBERS'', createString name]) (\<lambda>val. lift (toIntegerList pf val))"

section \<open>Set operations\<close>

text \<open>A set operation is the request it has built so far. The classes for strings and integers differ only in how the result is read.\<close>

definition SetOperation_init :: "string \<Rightarrow> string \<Rightarrow> string \<Rightarrow> 'f segment" where
  "SetOperation_init op a b = [createString op, createString a, createString b]"

definition SetOperation_andAlso :: "'f segment \<Rightarrow> string \<Rightarrow> 'f segment" where
  "SetOperation_andAlso m_request x = pushBackString x m_request"

definition SetKey_intersect :: "string \<Rightarrow> string \<Rightarrow> 'f segment" where
  "SetKey_intersect name other = SetOperation_init ''SINTER'' name other"

definition SetKey_merge :: "string \<Rightarrow> string \<Rightarrow> 'f segment" where
  "SetKey_merge name other = SetOperation_init ''SUNION'' name other"

definition SetKey_difference :: "string \<Rightarrow> string \<Rightarrow> 'f segment" where
  "SetKey_difference name other = SetOperation_init ''SDIFF'' name other"

definition StringSetOperation_getAll :: "'f platform \<Rightarrow> ('s, 'f) command_handler \<Rightarrow> 'f segment \<Rightarrow> ('s, string list) action" where
  "StringSetOperation_getAll pf ch m_request =
     bind (ch_call ch m_request) (\<lambda>val. lift (toStringList pf val))"

definition IntegerSetOperation_getAll :: "'f platform \<Rightarrow> ('s, 'f) command_handler \<Rightarrow> 'f segment \<Rightarrow> ('s, int list) action" where
  "IntegerSetOperation_getAll pf ch m_request =
     bind (ch_call ch m_request) (\<lambda>val. lift (toIntegerList pf val))"

definition SetOperation_storeTo :: "'f platform \<Rightarrow> ('s, 'f) command_handler \<Rightarrow> 'f segment \<Rightarrow> string \<Rightarrow> ('s, unit) action" where
  "SetOperation_storeTo pf ch m_request other =
     bind (lift (toString pf (Segment_get m_request 0))) (\<lambda>op.
     ch_callVoid ch (insertNew 1 (createString other) (setNew 0 (createString (op @ ''STORE'')) m_request)))"

section \<open>Sort operations\<close>

definition SortOperation_init :: "string \<Rightarrow> 'f segment" where
  "SortOperation_init name = [createString ''SORT'', createString name]"

definition SortOperation_by :: "string \<Rightarrow> 'f segment \<Rightarrow> 'f segment" where
  "SortOperation_by pattern m_request = pushBackString pattern (pushBackString ''BY'' m_request)"

definition SortOperation_byField :: "string \<Rightarrow> string \<Rightarrow> 'f segment \<Rightarrow> 'f segment" where
  "SortOperation_byField hashName name = SortOperation_by (hashName @ ''->'' @ name)"

definition SortOperation_get :: "string \<Rightarrow> 'f segment \<Rightarrow> 'f segment" where
  "SortOperation_get pattern m_request = pushBackString pattern (pushBackString ''GET'' m_request)"

definition SortOperation_getOrigin :: "'f segment \<Rightarrow> 'f segment" where
  "SortOperation_getOrigin = SortOperation_get ''#''"

definition SortOperation_getField :: "string \<Rightarrow> string \<Rightarrow> 'f segment \<Rightarrow> 'f segment" where
  "SortOperation_getField hashName name = SortOperation_get (hashName @ ''->'' @ name)"

definition SortOperation_limit :: "int \<Rightarrow> int \<Rightarrow> 'f segment \<Rightarrow> 'f segment" where
  "SortOperation_limit start n m_request =
     pushBackInteger n (pushBackInteger start (pushBackString ''LIMIT'' m_request))"

definition SortOperation_sortLexicographical :: "'f segment \<Rightarrow> 'f segment" where
  "SortOperation_sortLexicographical m_request = pushBackString ''ALPHA'' m_request"

definition SortOperation_sortReversed :: "'f segment \<Rightarrow> 'f segment" where
  "SortOperation_sortReversed m_request = pushBackString ''DESC'' m_request"

definition SortOperation_sortDisable :: "'f segment \<Rightarrow> 'f segment" where
  "SortOperation_sortDisable = SortOperation_by ''nosort''"

definition SortOperation_getStringResult :: "'f platform \<Rightarrow> ('s, 'f) command_handler \<Rightarrow> 'f segment \<Rightarrow> ('s, string list) action" where
  "SortOperation_getStringResult pf ch m_request =
     bind (ch_call ch m_request) (\<lambda>val. lift (toStringList pf val))"

definition SortOperation_getIntegerResult :: "'f platform \<Rightarrow> ('s, 'f) command_handler \<Rightarrow> 'f segment \<Rightarrow> ('s, int list) action" where
  "SortOperation_getIntegerResult pf ch m_request =
     bind (ch_call ch m_request) (\<lambda>val. lift (toIntegerList pf val))"

definition SortOperation_storeResult :: "('s, 'f) command_handler \<Rightarrow> 'f segment \<Rightarrow> string \<Rightarrow> ('s, unit) action" where
  "SortOperation_storeResult ch m_request out = ch_callVoid ch (pushBackString out (pushBackString ''STORE'' m_request))"

section \<open>Subtrees\<close>

text \<open>A subtree is the prefix of the names in it.\<close>

definition Subtree_key :: "string \<Rightarrow> string \<Rightarrow> string" where
  "Subtree_key m_name name = m_name @ name"

definition Subtree_subtree :: "string \<Rightarrow> string \<Rightarrow> string" where
  "Subtree_subtree m_name name = m_name @ name @ '':''"

definition Subtree_subtreeInt :: "string \<Rightarrow> int \<Rightarrow> string" where
  "Subtree_subtreeInt m_name name = Subtree_subtree m_name (Format ''%d'' [FormatSigned_format name])"

definition Subtree_getKeyNames :: "'f platform \<Rightarrow> ('s, 'f) command_handler \<Rightarrow> string \<Rightarrow> ('s, string list) action" where
  "Subtree_getKeyNames pf ch name =
     bind (ch_call ch [createString ''KEYS'', createString (name @ ''*'')]) (\<lambda>val.
     bind (lift (toStringList pf val)) (\<lambda>keys.
     ret (map (drop (length name)) (filter (\<lambda>key. length key \<ge> length name \<and> take (length name) key = name) keys))))"

section \<open>The contract of a handler that stores texts\<close>

text \<open>
  What the string and integer keys rely on, for any handler: \<open>lookup\<close> tells for every name whether
  the handler has a text for it, nothing, or something of another type.
\<close>

datatype stored = Missing | Text string | OtherType

fun number_of :: "stored \<Rightarrow> int option" where
  "number_of Missing = Some 0"
| "number_of (Text x) = sortNumber x"
| "number_of OtherType = None"

text \<open>A sequence of additions, and the condition that no intermediate sum overflows.\<close>

fun add_all :: "'f platform \<Rightarrow> ('s, 'f) command_handler \<Rightarrow> string \<Rightarrow> int list \<Rightarrow> ('s, unit) action" where
  "add_all pf ch name [] = ret ()"
| "add_all pf ch name (d # ds) = bind (IntegerKey_add pf ch name d) (\<lambda>_. add_all pf ch name ds)"

fun sums_ok :: "int \<Rightarrow> int list \<Rightarrow> bool" where
  "sums_ok acc [] = True"
| "sums_ok acc (d # ds) = (int32_ok (acc + d) \<and> sums_ok (acc + d) ds)"

lemma dec_int_not_Nil: "dec_int n \<noteq> []"
  by (simp add: dec_int_def dec_nat_digits)

lemma sortNumber_dec_int: "int32_ok n \<Longrightarrow> sortNumber (dec_int n) = Some n"
  by (simp add: sortNumber_def strToInteger_dec_int dec_int_not_Nil)

locale text_store =
  fixes pf :: "'f platform"
    and ch :: "('s, 'f) command_handler"
    and lookup :: "'s \<Rightarrow> string \<Rightarrow> stored"
  assumes set_text: "\<exists>s'. ch_callVoid ch [createString ''SET'', createString k, createString x] s = (Inr (), s')
      \<and> lookup s' = (lookup s)(k := Text x)"
    and set_int: "int32_ok i \<Longrightarrow>
      \<exists>s'. ch_callVoid ch [createString ''SET'', createString k, createInteger i] s = (Inr (), s')
      \<and> lookup s' = (lookup s)(k := Text (dec_int i))"
    and get_missing: "lookup s k = Missing \<Longrightarrow> ch_call ch [createString ''GET'', createString k] s = (Inr None, s)"
    and get_text: "lookup s k = Text x \<Longrightarrow> ch_call ch [createString ''GET'', createString k] s = (Inr (createString x), s)"
    and incrby: "number_of (lookup s k) = Some n \<Longrightarrow> int32_ok (n + d) \<Longrightarrow>
      \<exists>s'. ch_call ch [createString ''INCRBY'', createString k, createInteger d] s = (Inr (createInteger (n + d)), s')
      \<and> lookup s' = (lookup s)(k := Text (dec_int (n + d)))"
begin

lemma StringKey_get_text: "lookup s k = Text x \<Longrightarrow> StringKey_get pf ch k s = (Inr x, s)"
  by (simp add: StringKey_get_def callString_def bind_def get_text toString_def)

lemma StringKey_get_missing: "lookup s k = Missing \<Longrightarrow> StringKey_get pf ch k s = (Inr [], s)"
  by (simp add: StringKey_get_def callString_def bind_def get_missing toString_def)

lemma StringKey_set_get:
  "\<exists>s'. StringKey_set ch k x s = (Inr (), s') \<and> StringKey_get pf ch k s' = (Inr x, s')"
proof -
  obtain s' where "StringKey_set ch k x s = (Inr (), s')" "lookup s' = (lookup s)(k := Text x)"
    using set_text [of k x s] by (auto simp: StringKey_set_def)
  then show ?thesis using StringKey_get_text [of s' k x] by auto
qed

lemma IntegerKey_get_number:
  assumes "number_of (lookup s k) = Some n"
  shows "IntegerKey_get pf ch k s = (Inr n, s)"
proof (cases "lookup s k")
  case Missing
  with assms show ?thesis
    by (simp add: IntegerKey_get_def IntegerKey_getOptional_def callOptionalInt_def bind_def get_missing orElse_def)
next
  case (Text x)
  with assms show ?thesis
    by (auto simp: IntegerKey_get_def IntegerKey_getOptional_def callOptionalInt_def bind_def get_text
        orElse_def sortNumber_def split: if_splits)
next
  case OtherType
  with assms show ?thesis by simp
qed

lemma IntegerKey_set_number:
  assumes "int32_ok n"
  shows "\<exists>s'. IntegerKey_set ch k n s = (Inr (), s') \<and> lookup s' = (lookup s)(k := Text (dec_int n))"
  using set_int [OF assms, of k s] by (simp add: IntegerKey_set_def)

lemma add_all_number:
  "number_of (lookup s k) = Some n \<Longrightarrow> sums_ok n ds \<Longrightarrow>
   \<exists>s'. add_all pf ch k ds s = (Inr (), s') \<and> number_of (lookup s' k) = Some (n + sum_list ds)"
proof (induction ds arbitrary: s n)
  case (Cons d ds)
  then obtain s1 where s1: "ch_call ch [createString ''INCRBY'', createString k, createInteger d] s =
      (Inr (createInteger (n + d)), s1)" "lookup s1 = (lookup s)(k := Text (dec_int (n + d)))"
    using incrby [of s k n d] by auto
  with Cons.prems(2) have "number_of (lookup s1 k) = Some (n + d)" by (simp add: sortNumber_dec_int)
  from Cons.IH [OF this] Cons.prems(2) s1(1) show ?case
    by (auto simp: IntegerKey_add_def callInt_def callOptionalInt_def bind_def orElse_def add.assoc)
qed simp

lemma IntegerKey_set_add_get:
  assumes "int32_ok n" "sums_ok n ds"
  shows "\<exists>s' s''. IntegerKey_set ch k n s = (Inr (), s') \<and> add_all pf ch k ds s' = (Inr (), s'')
    \<and> IntegerKey_get pf ch k s'' = (Inr (n + sum_list ds), s'')"
proof -
  obtain s' where s': "IntegerKey_set ch k n s = (Inr (), s')" "lookup s' = (lookup s)(k := Text (dec_int n))"
    using IntegerKey_set_number [OF assms(1)] by blast
  then have "number_of (lookup s' k) = Some n" by (simp add: sortNumber_dec_int assms(1))
  from add_all_number [OF this assms(2)] obtain s'' where
    "add_all pf ch k ds s' = (Inr (), s'')" "number_of (lookup s'' k) = Some (n + sum_list ds)" by blast
  with s' IntegerKey_get_number show ?thesis by blast
qed

end

text \<open>The internal database keeps this contract.\<close>

definition db_lookup :: "db \<Rightarrow> string \<Rightarrow> stored" where
  "db_lookup m_data k =
     (case map_of m_data k of None \<Rightarrow> Missing | Some (StringKey x) \<Rightarrow> Text x | Some _ \<Rightarrow> OtherType)"

lemma db_lookup_map_set: "db_lookup (map_set k (StringKey x) m_data) = (db_lookup m_data)(k := Text x)"
  by (rule ext) (simp add: db_lookup_def)

lemma InternalDatabase_simps [simp]:
  "ch_call (InternalDatabase pf) = call pf" "ch_callVoid (InternalDatabase pf) = callVoid pf"
  by (simp_all add: InternalDatabase_def)

lemma db_lookup_map_erase_set:
  "db_lookup (map_set k (StringKey x) (map_erase k m_data)) = (db_lookup m_data)(k := Text x)"
  by (rule ext) (simp add: db_lookup_def)

lemma eatS_integer: "int32_ok i \<Longrightarrow> eatS pf (createInteger i # v) old = ret (dec_int i, v)"
  by (rule ext) (simp add: eatS_def eatString_Cons Format_dec_int int_simps size_mod_def)

interpretation internal: text_store pf "InternalDatabase pf" db_lookup
proof
  show "\<exists>s'. ch_callVoid (InternalDatabase pf) [createString ''SET'', createString k, createString x] s = (Inr (), s')
      \<and> db_lookup s' = (db_lookup s)(k := Text x)" for k x s
    by (simp add: callVoid_def cmd_SET_def setKeyNew_def db_eval db_lookup_map_erase_set)
  show "\<exists>s'. ch_callVoid (InternalDatabase pf) [createString ''SET'', createString k, createInteger i] s = (Inr (), s')
      \<and> db_lookup s' = (db_lookup s)(k := Text (dec_int i))" if "int32_ok i" for i k s
    using that by (simp add: callVoid_def cmd_SET_def setKeyNew_def db_eval eatS_integer db_lookup_map_erase_set)
  show "ch_call (InternalDatabase pf) [createString ''GET'', createString k] s = (Inr None, s)"
    if "db_lookup s k = Missing" for s k
    using that by (auto simp: cmd_GET_def db_eval db_lookup_def split: option.splits key.splits)
  show "ch_call (InternalDatabase pf) [createString ''GET'', createString k] s = (Inr (createString x), s)"
    if "db_lookup s k = Text x" for s k x
    using that by (auto simp: cmd_GET_def db_eval db_lookup_def split: option.splits key.splits)
  show "\<exists>s'. ch_call (InternalDatabase pf) [createString ''INCRBY'', createString k, createInteger d] s =
      (Inr (createInteger (n + d)), s') \<and> db_lookup s' = (db_lookup s)(k := Text (dec_int (n + d)))"
    if "number_of (db_lookup s k) = Some n" "int32_ok (n + d)" for s k n d
  proof -
    have modify: "String_modify x d = Inr (n + d, dec_int (n + d))" if "sortNumber x = Some n" for x
      using that \<open>int32_ok (n + d)\<close> Format_dec_int [of "n + d"]
      by (auto simp: String_modify_def sortNumber_def int32_result_def int_simps size_mod_def split: if_splits)
    show ?thesis
      using that modify [of "[]"] modify
      by (auto simp: cmd_INCRBY_def modifyKey_def db_eval db_lookup_map_set db_lookup_def sortNumber_def
          split: option.splits key.splits)
  qed
qed

section \<open>Properties of the clients on the internal database\<close>

text \<open> A string key gives back the text that was stored in it, whatever the key held before.
\<close>

theorem StringKey_roundtrip:
  "\<exists>m_data'. StringKey_set (InternalDatabase pf) k x m_data = (Inr (), m_data')
     \<and> StringKey_get pf (InternalDatabase pf) k m_data' = (Inr x, m_data')"
  by (rule internal.StringKey_set_get)

text \<open>
  C4: An integer key counts: after it was set to a number and a sequence of numbers was added,
  none of the sums leaving the range of \<open>int32_t\<close>, reading the key gives the total.
\<close>

theorem IntegerKey_counts:
  "int32_ok n \<Longrightarrow> sums_ok n ds \<Longrightarrow>
   \<exists>m1 m2. IntegerKey_set (InternalDatabase pf) k n m_data = (Inr (), m1)
     \<and> add_all pf (InternalDatabase pf) k ds m1 = (Inr (), m2)
     \<and> IntegerKey_get pf (InternalDatabase pf) k m2 = (Inr (n + sum_list ds), m2)"
  by (rule internal.IntegerKey_set_add_get)

theorem IntegerKey_counts_witness:
  "\<exists>m1 m2. IntegerKey_set (InternalDatabase nat_platform) ''n'' 2147483600 [] = (Inr (), m1)
     \<and> add_all nat_platform (InternalDatabase nat_platform) ''n'' [47, - 7] m1 = (Inr (), m2)
     \<and> IntegerKey_get nat_platform (InternalDatabase nat_platform) ''n'' m2 = (Inr 2147483640, m2)"
  using IntegerKey_counts [of 2147483600 "[47, - 7]" nat_platform "''n''" "[]"]
  by (simp add: int_simps)

lemma accessEach_strs:
  "\<forall>i\<in>set is. i < length xs \<Longrightarrow>
   accessEach (toString pf) (createVector (strs xs)) is = Inr (map ((!) xs) is)"
  by (induction "is") (auto simp: Segment_get_def strs_def toString_def)

lemma toStringList_strs: "toStringList pf (createVector (strs xs)) = Inr xs"
  by (simp add: toStringList_def accessEach_strs map_nth)

text \<open>The list that a name stands for: a missing key is an empty list.\<close>

definition list_of :: "db \<Rightarrow> string \<Rightarrow> string list option" where
  "list_of m_data k = (case map_of m_data k of None \<Rightarrow> Some [] | Some (ListKey xs) \<Rightarrow> Some xs | _ \<Rightarrow> None)"

lemma list_of_cases:
  assumes "list_of m_data k = Some xs"
  shows "map_of m_data k = None \<and> xs = [] \<or> map_of m_data k = Some (ListKey xs)"
  using assms by (auto simp: list_of_def split: option.splits key.splits)

lemma list_of_map_set [simp]: "list_of (map_set k (ListKey xs) m_data) k = Some xs"
  by (simp add: list_of_def)

lemma list_of_map_erase [simp]: "list_of (map_erase k m_data) k = Some []"
  by (simp add: list_of_def)

lemmas client_eval = callInt_def callOptionalInt_def callString_def orElse_def toString_def

text \<open>
  C5: A string list key is a double-ended queue: adding at either end, taking from either end
  (an empty text when there is nothing) and reading all elements do to the list of the key
  what they say, and nothing remains of the key once it is emptied this way.
\<close>

theorem StringListKey_deque:
  "list_of m_data k = Some xs \<Longrightarrow> int (length xs) < INT32_MAX \<Longrightarrow>
   (\<exists>m. StringListKey_pushBack pf (InternalDatabase pf) k x m_data = (Inr (int (length xs) + 1), m)
      \<and> list_of m k = Some (xs @ [x]))
   \<and> (\<exists>m. StringListKey_pushFront pf (InternalDatabase pf) k x m_data = (Inr (int (length xs) + 1), m)
      \<and> list_of m k = Some (x # xs))
   \<and> (\<exists>m. StringListKey_popBack pf (InternalDatabase pf) k m_data = (Inr (if xs = [] then [] else last xs), m)
      \<and> list_of m k = Some (butlast xs))
   \<and> (\<exists>m. StringListKey_popFront pf (InternalDatabase pf) k m_data = (Inr (if xs = [] then [] else hd xs), m)
      \<and> list_of m k = Some (tl xs))
   \<and> StringListKey_getAll pf (InternalDatabase pf) k m_data = (Inr xs, m_data)"
proof -
  assume list: "list_of m_data k = Some xs" and len: "int (length xs) < INT32_MAX"
  have size: "to_int32 (int (length xs) + 1) = int (length xs) + 1"
    using len by (intro to_int32_id) (simp add: int_simps)
  have size': "to_int32 (1 + int (length xs)) = int (length xs) + 1"
    using size by (simp add: add.commute)
  have push: "\<exists>m. StringListKey_pushBack pf (InternalDatabase pf) k x m_data = (Inr (int (length xs) + 1), m)
      \<and> list_of m k = Some (xs @ [x])"
    "\<exists>m. StringListKey_pushFront pf (InternalDatabase pf) k x m_data = (Inr (int (length xs) + 1), m)
      \<and> list_of m k = Some (x # xs)"
    using list_of_cases [OF list] size size'
    by (auto simp: StringListKey_pushBack_def StringListKey_pushFront_def client_eval cmd_RPUSH_def
        cmd_LPUSH_def db_eval push_back_def push_front_def)
  have pop: "\<exists>m. StringListKey_popBack pf (InternalDatabase pf) k m_data = (Inr (if xs = [] then [] else last xs), m)
      \<and> list_of m k = Some (butlast xs)"
    "\<exists>m. StringListKey_popFront pf (InternalDatabase pf) k m_data = (Inr (if xs = [] then [] else hd xs), m)
      \<and> list_of m k = Some (tl xs)"
    using list_of_cases [OF list] list
    by (cases xs; auto simp: StringListKey_popBack_def StringListKey_popFront_def client_eval cmd_RPOP_def
        cmd_LPOP_def db_eval)+
  have "call pf [createString ''LRANGE'', createString k, createInteger 0, createInteger (- 1)] m_data =
      (Inr (createVector (strs xs)), m_data)"
  proof (cases "map_of m_data k")
    case None
    with list_of_cases [OF list] show ?thesis by (simp add: cmd_LRANGE_def db_eval)
  next
    case (Some _)
    then have k: "map_of m_data k = Some (ListKey xs)" using list_of_cases [OF list] by auto
    show ?thesis
    proof (cases "xs = []")
      case True
      with k show ?thesis
        by (simp add: cmd_LRANGE_def db_eval convertIndex_def lrange_loop_take pushBackStrings_strs int32_result_def int_simps)
    next
      case False
      then have "range_of xs 0 (- 1) = xs" "- int (length xs) \<le> - 1"
        by (simp_all add: range_of_take position_def Suc_le_eq)
      with k len show ?thesis by (simp add: cmd_LRANGE_eval)
    qed
  qed
  then have "StringListKey_getAll pf (InternalDatabase pf) k m_data = (Inr xs, m_data)"
    by (simp add: StringListKey_getAll_def StringListKey_getRange_def bind_def toStringList_strs)
  with push pop show ?thesis by blast
qed

theorem StringListKey_deque_witness:
  "StringListKey_getAll nat_platform (InternalDatabase nat_platform) ''l'' [(''l'', ListKey [''a'', ''b''])] =
     (Inr [''a'', ''b''], [(''l'', ListKey [''a'', ''b''])])"
  using StringListKey_deque [of "[(''l'', ListKey [''a'', ''b''])]" "''l''" "[''a'', ''b'']" nat_platform "''x''"]
  by (simp add: list_of_def int_simps)

text \<open> Listing a subtree gives, in ascending order, the remainders of exactly those names in the
  database that begin with the name of the subtree, provided that name contains no asterisk.
\<close>

theorem Subtree_getKeyNames_correct:
  "db_wf m_data \<Longrightarrow> CHR ''*'' \<notin> set name \<Longrightarrow>
   \<exists>names. Subtree_getKeyNames pf (InternalDatabase pf) name m_data = (Inr names, m_data)
     \<and> sorted_wrt (<) (map ((@) name) names)
     \<and> set names = {rest. map_of m_data (name @ rest) \<noteq> None}"
proof -
  assume wf: "db_wf m_data" and star: "CHR ''*'' \<notin> set name"
  let ?keys = "filter (matchKey (name @ ''*'')) (map fst m_data)"
  let ?names = "map (drop (length name)) ?keys"
  have match: "matchKey (name @ ''*'') key \<longleftrightarrow> (\<exists>m. key = name @ m)" for key
    using matchKey_star [OF star, of "[]" key] by simp
  have "call pf [createString ''KEYS'', createString (name @ ''*'')] m_data = (Inr (createVector (strs ?keys)), m_data)"
    by (simp add: cmd_KEYS_def db_eval pushBackStrings_strs)
  moreover have "filter (\<lambda>key. length key \<ge> length name \<and> take (length name) key = name) ?keys = ?keys"
    by (rule filter_True) (auto simp: match)
  ultimately have "Subtree_getKeyNames pf (InternalDatabase pf) name m_data = (Inr ?names, m_data)"
    by (simp add: Subtree_getKeyNames_def bind_def toStringList_strs)
  moreover have "map ((@) name) ?names = ?keys"
    by (simp add: o_def, rule map_idI) (auto simp: match)
  then have "sorted_wrt (<) (map ((@) name) ?names)"
    using wf by (simp add: db_wf_def map_wf_def sorted_wrt_less_filter del: filter_map map_map)
  moreover have "set ?names = {rest. map_of m_data (name @ rest) \<noteq> None}"
    by (force simp: match map_of_eq_None_iff)
  ultimately show ?thesis by blast
qed

theorem Subtree_getKeyNames_correct_witness:
  "\<exists>names. Subtree_getKeyNames nat_platform (InternalDatabase nat_platform) ''u:''
       [(''u:1'', StringKey []), (''v'', StringKey [])] =
     (Inr names, [(''u:1'', StringKey []), (''v'', StringKey [])]) \<and> ''1'' \<in> set names \<and> ''v'' \<notin> set names"
  using Subtree_getKeyNames_correct [of "[(''u:1'', StringKey []), (''v'', StringKey [])]" "''u:''" nat_platform]
  by (auto simp: db_wf_def map_wf_def less_list_code)

end
