(* ===== verification/Afl_Resp.thy ===== *)
theory Afl_Resp
  imports Afl_Data
begin

text \<open>
  The Redis protocol of afl/io/resp: the push parser (parser.cpp) with its states, and the
  writer (writer.cpp).

  The parser is handed data in pieces of any size. The code works on whole pieces, one state
  object after the other, an array state with a parser of its own inside; the model does
  the same with fuel, since the nested calls do not recurse structurally. The reference is
  a machine that takes one octet at a time. The first theorem says that the code always
  finishes a piece and does exactly what the machine does, octet by octet, so the result
  does not depend on how the data is cut into pieces.
  A syntax error ends the parse; the state of the parser after it is not modelled.
\<close>

section \<open>Parser states\<close>

datatype int_kind = Kind_Integer | Kind_Bulk | Kind_Array

datatype int_state = Virgin | Positive | PositiveDigits | Negative | NegativeDigits

text \<open>\<open>Done v\<close> is a parser with a null \<open>m_pState\<close> and the result \<open>v\<close> in \<open>m_pValue\<close>. An array state
  has the number of elements that are missing, the elements so far, and the state of its
  inner parser.\<close>

datatype 'f parser_state =
    Done "'f Value option"
  | RootState
  | StringState bool string
  | IntState int_kind int_state int
  | BulkState nat string
  | ArrayState nat "'f segment" "'f parser_state"
  | ShortState string "'f segment"

fun is_Done :: "'f parser_state \<Rightarrow> bool" where
  "is_Done (Done v) = True"
| "is_Done _ = False"

definition SOURCE_ID :: string where "SOURCE_ID = ''<Parser>''"

definition syntaxError :: "'a result" where
  "syntaxError = Inl (FileFormatException ''Syntax error'')"

definition CR :: octet where "CR = CHR 0x0D"
definition LF :: octet where "LF = CHR 0x0A"
definition TAB :: octet where "TAB = CHR 0x09"

section \<open>The handlers of the states\<close>

text \<open>Each handler eats octets until the data is used up or the state changes, and gives the new
  state and the data that is left.\<close>

fun RootState_handleData :: "bool \<Rightarrow> octet list \<Rightarrow> ('f parser_state \<times> octet list) result" where
  "RootState_handleData acceptShort [] = Inr (RootState, [])"
| "RootState_handleData acceptShort (c # data) =
     (if c = CHR ''+'' then Inr (StringState True [], data)
      else if c = CHR ''-'' then Inr (StringState False [], data)
      else if c = CHR '':'' then Inr (IntState Kind_Integer Virgin 0, data)
      else if c = CHR ''$'' then Inr (IntState Kind_Bulk Virgin 0, data)
      else if c = CHR ''*'' then Inr (IntState Kind_Array Virgin 0, data)
      else if acceptShort \<and> (charIsUpper c \<or> charIsLower c) then Inr (ShortState [c] [], data)
      else syntaxError)"

fun StringState_handleData :: "bool \<Rightarrow> string \<Rightarrow> octet list \<Rightarrow> ('f parser_state \<times> octet list) result" where
  "StringState_handleData success val [] = Inr (StringState success val, [])"
| "StringState_handleData success val (c # data) =
     (if c = CR then StringState_handleData success val data
      else if c = LF then
        Inr (Done (Some (if success then StringValue val else ErrorValue SOURCE_ID val)), data)
      else StringState_handleData success (val @ [c]) data)"

text \<open>One character of a number that is not the end of the line: the new state and value.\<close>

definition intDigit :: "octet \<Rightarrow> int_state \<Rightarrow> int \<Rightarrow> (int_state \<times> int) result" where
  "intDigit ch st val =
     (if ch = CHR ''+'' then (if st \<noteq> Virgin then syntaxError else Inr (Positive, val))
      else if ch = CHR ''-'' then (if st \<noteq> Virgin then syntaxError else Inr (Negative, val))
      else if charIsDigit ch then
        let digit = int (of_char ch) - 48
        in if st = Negative \<or> st = NegativeDigits
           then if val < - 214748364 \<or> (val \<noteq> 0 \<and> 10 * val - INT32_MIN < digit) then syntaxError
                else Inr (NegativeDigits, 10 * val - digit)
           else if val > 214748364 \<or> INT32_MAX - 10 * val < digit then syntaxError
                else Inr (PositiveDigits, 10 * val + digit)
      else if ch = CR then Inr (st, val)
      else syntaxError)"

text \<open>The end of the line of a number.\<close>

definition intEnd :: "int_kind \<Rightarrow> int_state \<Rightarrow> int \<Rightarrow> 'f parser_state result" where
  "intEnd kind st val =
     (if st \<noteq> PositiveDigits \<and> st \<noteq> NegativeDigits then syntaxError
      else case kind of
        Kind_Integer \<Rightarrow> Inr (Done (Some (IntegerValue val)))
      | Kind_Array \<Rightarrow>
          if val < 0 then Inr (Done None)
          else if val = 0 then Inr (Done (Some (VectorValue [])))
          else Inr (ArrayState (nat val) [] RootState)
      | Kind_Bulk \<Rightarrow>
          if val < 0 then Inr (Done None) else Inr (BulkState (nat val) []))"

fun IntState_handleData :: "int_kind \<Rightarrow> int_state \<Rightarrow> int \<Rightarrow> octet list \<Rightarrow> ('f parser_state \<times> octet list) result" where
  "IntState_handleData kind st val [] = Inr (IntState kind st val, [])"
| "IntState_handleData kind st val (ch # data) =
     (if ch = LF then rbind (intEnd kind st val) (\<lambda>st. Inr (st, data))
      else rbind (intDigit ch st val) (\<lambda>(st, val). IntState_handleData kind st val data))"

text \<open>After the data of a bulk string, the rest of the line.\<close>

fun bulkEnd :: "string \<Rightarrow> octet list \<Rightarrow> ('f parser_state \<times> octet list) result" where
  "bulkEnd val [] = Inr (BulkState 0 val, [])"
| "bulkEnd val (c # data) =
     (if c = CR then bulkEnd val data
      else if c = LF then Inr (Done (Some (StringValue val)), data)
      else syntaxError)"

definition BulkState_handleData :: "nat \<Rightarrow> string \<Rightarrow> octet list \<Rightarrow> ('f parser_state \<times> octet list) result" where
  "BulkState_handleData m_size val data =
     (let now = take m_size data; data = drop m_size data; m_size = m_size - length now; val = val @ now
      in if m_size = 0 then bulkEnd val data else Inr (BulkState m_size val, data))"

fun ShortState_handleData :: "string \<Rightarrow> 'f segment \<Rightarrow> octet list \<Rightarrow> ('f parser_state \<times> octet list) result" where
  "ShortState_handleData acc val [] = Inr (ShortState acc val, [])"
| "ShortState_handleData acc val (c # data) =
     (if c = CHR '' '' \<or> c = TAB \<or> c = CR \<or> c = LF then
        let val = (if acc \<noteq> [] then pushBackString acc val else val)
        in if c = LF then Inr (Done (Some (VectorValue val)), data)
           else ShortState_handleData [] val data
      else ShortState_handleData (acc @ [c]) val data)"

text \<open>\<open>ArrayState::handleData\<close> and \<open>Parser::handleData\<close> call each other; \<open>None\<close> is lack of fuel.\<close>

fun Parser_handleData :: "nat \<Rightarrow> bool \<Rightarrow> 'f parser_state \<Rightarrow> octet list \<Rightarrow> ('f parser_state \<times> octet list) result option"
  and State_handleData :: "nat \<Rightarrow> bool \<Rightarrow> 'f parser_state \<Rightarrow> octet list \<Rightarrow> ('f parser_state \<times> octet list) result option"
  and ArrayState_handleData :: "nat \<Rightarrow> nat \<Rightarrow> 'f segment \<Rightarrow> 'f parser_state \<Rightarrow> octet list \<Rightarrow>
    ('f parser_state \<times> octet list) result option" where
  "Parser_handleData 0 acceptShort st data = None"
| "Parser_handleData (Suc fuel) acceptShort st data =
     (if is_Done st \<or> data = [] then Some (Inr (st, data))
      else case State_handleData fuel acceptShort st data of
             None \<Rightarrow> None
           | Some (Inl e) \<Rightarrow> Some (Inl e)
           | Some (Inr (st, data)) \<Rightarrow> Parser_handleData fuel acceptShort st data)"
| "State_handleData 0 acceptShort st data = None"
| "State_handleData (Suc fuel) acceptShort st data =
     (case st of
        Done v \<Rightarrow> Some (Inr (Done v, data))
      | RootState \<Rightarrow> Some (RootState_handleData acceptShort data)
      | StringState success val \<Rightarrow> Some (StringState_handleData success val data)
      | IntState kind ist val \<Rightarrow> Some (IntState_handleData kind ist val data)
      | BulkState m_size val \<Rightarrow> Some (BulkState_handleData m_size val data)
      | ArrayState m_size val inner \<Rightarrow> ArrayState_handleData fuel m_size val inner data
      | ShortState acc val \<Rightarrow> Some (ShortState_handleData acc val data))"
| "ArrayState_handleData 0 m_size val inner data = None"
| "ArrayState_handleData (Suc fuel) m_size val inner data =
     (if data \<noteq> [] \<and> m_size > 0
      then case Parser_handleData fuel False inner data of
             None \<Rightarrow> None
           | Some (Inl e) \<Rightarrow> Some (Inl e)
           | Some (Inr (Done v, data)) \<Rightarrow>
               ArrayState_handleData fuel (m_size - 1) (pushBackNew v val) RootState data
           | Some (Inr (inner, data)) \<Rightarrow> ArrayState_handleData fuel m_size val inner data
      else if m_size = 0 then Some (Inr (Done (Some (VectorValue val)), data))
      else Some (Inr (ArrayState m_size val inner, data)))"

fun nesting :: "'f parser_state \<Rightarrow> nat" where
  "nesting (ArrayState m_size val inner) = Suc (nesting inner)"
| "nesting _ = 0"

text \<open>\<open>Parser::handleData\<close>: four units of fuel for an octet and three for a level of nesting are
  enough, as the theorem below shows.\<close>

definition fuel_for :: "'f parser_state \<Rightarrow> octet list \<Rightarrow> nat" where
  "fuel_for st data = 4 * length data + 3 * nesting st + 3"

definition handleData :: "bool \<Rightarrow> 'f parser_state \<Rightarrow> octet list \<Rightarrow> ('f parser_state \<times> octet list) result option" where
  "handleData acceptShort st data = Parser_handleData (fuel_for st data) acceptShort st data"

definition Parser_extract :: "'f parser_state \<Rightarrow> ('f Value option \<times> 'f parser_state) result" where
  "Parser_extract st = (case st of Done v \<Rightarrow> Inr (v, RootState) | _ \<Rightarrow> Inl Undefined)"

section \<open>Writer\<close>

text \<open>The octets that are written, in order.\<close>

definition sendSuccess :: "string \<Rightarrow> octet list" where
  "sendSuccess str = ''+'' @ str @ [CR, LF]"

definition visitError :: "string \<Rightarrow> string \<Rightarrow> octet list" where
  "visitError source str = ''-'' @ takeWhile (\<lambda>c. c \<noteq> CR \<and> c \<noteq> LF) str @ [CR, LF]"

definition sendError :: "string \<Rightarrow> octet list" where
  "sendError str = visitError ''<resp::Writer>'' str"

definition visitString :: "string \<Rightarrow> octet list" where
  "visitString str =
     Format (''$%d'' @ [CHR 0x0D, CHR 0x0A]) [FormatUnsigned_format (length str)] @ str @ [CR, LF]"

definition visitInteger :: "int \<Rightarrow> octet list" where
  "visitInteger iv = visitString (Format ''%d'' [FormatSigned_format iv])"

definition visitFloat :: "'f platform \<Rightarrow> 'f \<Rightarrow> octet list" where
  "visitFloat pf fv = visitString (formatFloat pf fv)"

definition visitBoolean :: "bool \<Rightarrow> octet list" where
  "visitBoolean bv = visitString (if bv then ''1'' else ''0'')"

definition visitNull :: "octet list" where
  "visitNull = ''$-1'' @ [CR, LF]"

definition visitOther :: "octet list" where
  "visitOther = ''*-1'' @ [CR, LF]"

definition arrayHeader :: "nat \<Rightarrow> octet list" where
  "arrayHeader n = Format (''*%d'' @ [CHR 0x0D, CHR 0x0A]) [FormatUnsigned_format n]"

fun visit :: "'f platform \<Rightarrow> 'f Value \<Rightarrow> octet list"
  and visitSegment :: "'f platform \<Rightarrow> 'f segment \<Rightarrow> octet list"
  and visitFields :: "'f platform \<Rightarrow> string list \<Rightarrow> 'f segment \<Rightarrow> octet list" where
  "visit pf (StringValue str) = visitString str"
| "visit pf (IntegerValue iv) = visitInteger iv"
| "visit pf (FloatValue fv) = visitFloat pf fv"
| "visit pf (BooleanValue bv) = visitBoolean bv"
| "visit pf (HashValue keys values) = arrayHeader (2 * getNumNames keys) @ visitFields pf (m_names keys) values"
| "visit pf (VectorValue vv) = arrayHeader (length vv) @ visitSegment pf vv"
| "visit pf (ErrorValue source str) = visitError source str"
| "visit pf OtherValue = visitOther"
| "visitSegment pf [] = []"
| "visitSegment pf (None # vs) = visitNull @ visitSegment pf vs"
| "visitSegment pf (Some v # vs) = visit pf v @ visitSegment pf vs"
| "visitFields pf [] values = []"
| "visitFields pf (name # names) [] = visitString name @ visitNull @ visitFields pf names []"
| "visitFields pf (name # names) (None # vs) = visitString name @ visitNull @ visitFields pf names vs"
| "visitFields pf (name # names) (Some v # vs) = visitString name @ visit pf v @ visitFields pf names vs"

definition writeValue :: "'f platform \<Rightarrow> 'f Value option \<Rightarrow> octet list" where
  "writeValue pf v = (case v of None \<Rightarrow> visitNull | Some v \<Rightarrow> visit pf v)"

section \<open>The reference: one octet at a time\<close>

fun feed :: "bool \<Rightarrow> 'f parser_state \<Rightarrow> octet \<Rightarrow> 'f parser_state result" where
  "feed short (Done v) c = Inr (Done v)"
| "feed short RootState c = rbind (RootState_handleData short [c]) (\<lambda>(st, _). Inr st)"
| "feed short (StringState success val) c = rbind (StringState_handleData success val [c]) (\<lambda>(st, _). Inr st)"
| "feed short (IntState kind ist val) c = rbind (IntState_handleData kind ist val [c]) (\<lambda>(st, _). Inr st)"
| "feed short (BulkState m_size val) c =
     (if m_size > 0 then Inr (BulkState (m_size - 1) (val @ [c]))
      else rbind (bulkEnd val [c]) (\<lambda>(st, _). Inr st))"
| "feed short (ArrayState m_size val inner) c =
     rbind (feed False inner c) (\<lambda>inner.
     case inner of
       Done v \<Rightarrow> Inr (if m_size = 1 then Done (Some (VectorValue (val @ [v])))
                       else ArrayState (m_size - 1) (val @ [v]) RootState)
     | _ \<Rightarrow> Inr (ArrayState m_size val inner))"
| "feed short (ShortState acc val) c = rbind (ShortState_handleData acc val [c]) (\<lambda>(st, _). Inr st)"

text \<open>The machine stops at the end of a value and leaves the rest.\<close>

fun feedAll :: "bool \<Rightarrow> 'f parser_state \<Rightarrow> octet list \<Rightarrow> ('f parser_state \<times> octet list) result" where
  "feedAll short st [] = Inr (st, [])"
| "feedAll short st (c # data) =
     (if is_Done st then Inr (st, c # data) else rbind (feed short st c) (\<lambda>st. feedAll short st data))"

fun state_wf :: "'f parser_state \<Rightarrow> bool" where
  "state_wf (ArrayState m_size val inner) \<longleftrightarrow> m_size > 0 \<and> state_wf inner \<and> \<not> is_Done inner"
| "state_wf _ \<longleftrightarrow> True"

lemma is_Done_conv: "is_Done st \<longleftrightarrow> (\<exists>v. st = Done v)"
  by (cases st) auto

lemma feedAll_Done [simp]: "feedAll short (Done v) data = Inr (Done v, data)"
  by (cases data) auto

text \<open>Feeding a piece and then another is feeding their concatenation.\<close>

lemma feedAll_append:
  "feedAll short st (xs @ ys) =
     rbind (feedAll short st xs) (\<lambda>(st, rest). feedAll short st (rest @ ys))"
proof (induction xs arbitrary: st)
  case (Cons x xs)
  show ?case
  proof (cases "is_Done st")
    case True
    then show ?thesis by (auto simp: is_Done_conv)
  next
    case False
    then show ?thesis by (cases "feed short st x") (simp_all add: Cons.IH)
  qed
qed simp

lemma feedAll_leaf:
  "StringState_handleData success val data = r \<Longrightarrow>
     feedAll short (StringState success val) data = rbind r (\<lambda>(st, rest). feedAll short st rest)"
  "IntState_handleData kind ist i data = r \<Longrightarrow>
     feedAll short (IntState kind ist i) data = rbind r (\<lambda>(st, rest). feedAll short st rest)"
  "bulkEnd val data = r \<Longrightarrow>
     feedAll short (BulkState 0 val) data = rbind r (\<lambda>(st, rest). feedAll short st rest)"
  "ShortState_handleData val seg data = r \<Longrightarrow>
     feedAll short (ShortState val seg) data = rbind r (\<lambda>(st, rest). feedAll short st rest)"
proof -
  show "StringState_handleData success val data = r \<Longrightarrow>
     feedAll short (StringState success val) data = rbind r (\<lambda>(st, rest). feedAll short st rest)"
    by (induction success val data arbitrary: r rule: StringState_handleData.induct) auto
  show "IntState_handleData kind ist i data = r \<Longrightarrow>
     feedAll short (IntState kind ist i) data = rbind r (\<lambda>(st, rest). feedAll short st rest)"
  proof (induction kind ist i data arbitrary: r rule: IntState_handleData.induct)
    case (2 kind st val ch data)
    then show ?case
      by (cases "intDigit ch st val") (auto simp: rbind_assoc)
  qed auto
  show "bulkEnd val data = r \<Longrightarrow>
     feedAll short (BulkState 0 val) data = rbind r (\<lambda>(st, rest). feedAll short st rest)"
    by (induction val data arbitrary: r rule: bulkEnd.induct) (auto simp: syntaxError_def)
  show "ShortState_handleData val seg data = r \<Longrightarrow>
     feedAll short (ShortState val seg) data = rbind r (\<lambda>(st, rest). feedAll short st rest)"
    by (induction val seg data arbitrary: r rule: ShortState_handleData.induct) (auto simp: Let_def)
qed

lemma feedAll_bulk:
  "feedAll short (BulkState n val) data =
     (if n \<le> length data then feedAll short (BulkState 0 (val @ take n data)) (drop n data)
      else Inr (BulkState (n - length data) (val @ data), []))"
proof (induction data arbitrary: n val)
  case (Cons c data)
  then show ?case by (cases n) auto
qed auto

lemma BulkState_handleData_feed:
  "feedAll short (BulkState n val) data =
     rbind (BulkState_handleData n val data) (\<lambda>(st, rest). feedAll short st rest)"
  by (cases "n \<le> length data")
    (simp_all add: feedAll_bulk [of short n] BulkState_handleData_def Let_def min_def feedAll_leaf(3) [OF refl, of short])

text \<open>Progress: octets are consumed, and a new level of nesting costs at least one.\<close>

definition consumes :: "octet list \<Rightarrow> 'f parser_state \<times> octet list \<Rightarrow> bool" where
  "consumes data r \<longleftrightarrow> state_wf (fst r) \<and> nesting (fst r) \<le> 1 \<and> length (snd r) \<le> length data
     \<and> (data \<noteq> [] \<longrightarrow> length (snd r) < length data)"

lemma rall_consumes_Cons: "rall (consumes data) r \<Longrightarrow> rall (consumes (c # data)) r"
  by (auto simp: rall_def consumes_def le_imp_less_Suc)

lemma rall_consumes_next [simp]:
  "state_wf st \<Longrightarrow> nesting st \<le> 1 \<Longrightarrow> rall (consumes (c # data)) (Inr (st, data))"
  by (simp add: consumes_def rall_def)

lemma rall_consumes_Nil [simp]: "state_wf st \<Longrightarrow> nesting st \<le> 1 \<Longrightarrow> rall (consumes []) (Inr (st, []))"
  by (simp add: consumes_def rall_def)

lemma consumes_one:
  "rall (consumes [c]) r \<Longrightarrow> rbind r (\<lambda>(st, _). Inr st) = Inr st' \<Longrightarrow> state_wf st' \<and> nesting st' \<le> 1"
  by (auto simp: rall_def consumes_def rbind_eq_Inr)

lemma intEnd_wf: "intEnd kind ist i = Inr st \<Longrightarrow> state_wf st \<and> nesting st \<le> 1"
  by (auto simp: intEnd_def syntaxError_def split: if_splits int_kind.splits)

lemma handler_consumes:
  "rall (consumes data) (RootState_handleData short data)"
  "rall (consumes data) (StringState_handleData success val data)"
  "rall (consumes data) (IntState_handleData kind ist i data)"
  "rall (consumes data) (bulkEnd val data)"
  "rall (consumes data) (ShortState_handleData val seg data)"
proof -
  show "rall (consumes data) (RootState_handleData short data)"
    by (cases data) (auto simp: syntaxError_def rall_Inl)
  show "rall (consumes data) (StringState_handleData success val data)"
    by (induction success val data rule: StringState_handleData.induct) (auto intro: rall_consumes_Cons)
  show "rall (consumes data) (bulkEnd val data)"
    by (induction val data rule: bulkEnd.induct)
      (auto intro: rall_consumes_Cons simp: syntaxError_def rall_Inl)
  show "rall (consumes data) (ShortState_handleData val seg data)"
    by (induction val seg data rule: ShortState_handleData.induct)
      (auto intro: rall_consumes_Cons simp: Let_def)
  show "rall (consumes data) (IntState_handleData kind ist i data)"
  proof (induction kind ist i data rule: IntState_handleData.induct)
    case (2 kind st val ch data)
    then show ?case
      by (auto intro!: rall_rbind intro: rall_consumes_Cons dest!: intEnd_wf)
  qed simp
qed

lemma feed_progress:
  "state_wf st \<Longrightarrow> feed short st c = Inr st' \<Longrightarrow> state_wf st' \<and> nesting st' \<le> nesting st + 1"
proof (induction st arbitrary: short st')
  case (ArrayState m_size val inner)
  then obtain inner' where inner': "feed False inner c = Inr inner'" "state_wf inner'" "nesting inner' \<le> nesting inner + 1"
    by (auto simp: rbind_eq_Inr)
  with ArrayState.prems show ?case by (cases inner') auto
next
  case (BulkState m_size val)
  then show ?case using consumes_one [OF handler_consumes(4)] unfolding feed.simps
    by (fastforce simp del: bulkEnd.simps split: if_splits)
next
  case RootState
  then show ?case using consumes_one [OF handler_consumes(1)] unfolding feed.simps by fastforce
next
  case (StringState success val)
  then show ?case using consumes_one [OF handler_consumes(2)] unfolding feed.simps by fastforce
next
  case (IntState kind ist val)
  then show ?case using consumes_one [OF handler_consumes(3)] unfolding feed.simps by fastforce
next
  case (ShortState acc val)
  then show ?case using consumes_one [OF handler_consumes(5)] unfolding feed.simps by fastforce
qed auto

lemma feedAll_progress:
  "state_wf st \<Longrightarrow> feedAll short st data = Inr (st', rest) \<Longrightarrow>
   state_wf st' \<and> nesting st' + length rest \<le> nesting st + length data \<and> length rest \<le> length data
   \<and> (\<not> is_Done st \<and> data \<noteq> [] \<longrightarrow> length rest < length data) \<and> (rest \<noteq> [] \<longrightarrow> is_Done st')"
proof (induction data arbitrary: st)
  case (Cons c data)
  show ?case
  proof (cases "is_Done st")
    case True
    with Cons.prems show ?thesis by auto
  next
    case False
    then obtain st1 where st1: "feed short st c = Inr st1" "feedAll short st1 data = Inr (st', rest)"
      using Cons.prems(2) by (auto simp: rbind_eq_Inr)
    from feed_progress [OF Cons.prems(1) st1(1)] Cons.IH [OF _ st1(2)] show ?thesis by auto
  qed
qed auto

lemma feedAll_array:
  "\<not> is_Done inner \<Longrightarrow>
   feedAll short (ArrayState n val inner) data =
     rbind (feedAll False inner data) (\<lambda>(inner, rest).
       case inner of
         Done v \<Rightarrow> feedAll short (if n = 1 then Done (Some (VectorValue (val @ [v])))
                                  else ArrayState (n - 1) (val @ [v]) RootState) rest
       | _ \<Rightarrow> Inr (ArrayState n val inner, rest))"
proof (induction data arbitrary: inner)
  case Nil
  then show ?case by (cases inner) auto
next
  case (Cons c data)
  show ?case
  proof (cases "feed False inner c")
    case (Inr inner')
    show ?thesis
    proof (cases "is_Done inner'")
      case True
      with Inr Cons.prems show ?thesis by (auto simp: is_Done_conv)
    next
      case False
      then have "(case inner' of Done v \<Rightarrow> r v | _ \<Rightarrow> s) = s" for r and s :: "'a parser_state result"
        by (cases inner') auto
      with Inr Cons.IH [OF False] Cons.prems show ?thesis by simp
    qed
  qed (use Cons.prems in simp)
qed

text \<open>What one call of a state's handler gives, against the machine.\<close>

definition agrees :: "bool \<Rightarrow> 'f parser_state \<Rightarrow> octet list \<Rightarrow> ('f parser_state \<times> octet list) result \<Rightarrow> bool" where
  "agrees short st data r \<longleftrightarrow>
     feedAll short st data = rbind r (\<lambda>(st, rest). feedAll short st rest) \<and>
     rall (\<lambda>(st', rest). state_wf st' \<and> length rest < length data
       \<and> nesting st' + length rest \<le> nesting st + length data) r"

lemma agreesI:
  assumes "feedAll short st data = rbind r (\<lambda>(st, rest). feedAll short st rest)"
    and "rall (consumes data) r" "data \<noteq> []"
  shows "agrees short st data r"
  using assms by (auto simp: agrees_def rall_def consumes_def)

lemma RootState_feed:
  "feedAll short RootState data = rbind (RootState_handleData short data) (\<lambda>(st, rest). feedAll short st rest)"
  by (cases data) (auto simp: syntaxError_def)

lemma BulkState_consumes: "data \<noteq> [] \<Longrightarrow> rall (consumes data) (BulkState_handleData n val data)"
proof (cases "n \<le> length data")
  case True
  assume "data \<noteq> []"
  have "rall (consumes (drop n data)) (bulkEnd (val @ take n data) (drop n data))" by (rule handler_consumes)
  with True \<open>data \<noteq> []\<close> show ?thesis
    by (cases n) (auto simp: BulkState_handleData_def rall_def consumes_def min_def)
next
  case False
  assume "data \<noteq> []"
  with False show ?thesis by (auto simp: BulkState_handleData_def rall_def consumes_def)
qed

lemma leaf_agrees:
  assumes "data \<noteq> []" "\<not> is_Done st" "nesting st = 0"
  shows "\<exists>r. State_handleData (Suc n) short st data = Some r \<and> agrees short st data r"
  using assms
  by (cases st)
    (auto intro!: agreesI RootState_feed feedAll_leaf [OF refl] BulkState_handleData_feed handler_consumes
      BulkState_consumes)

text \<open>The array state, given that its inner parser does what the machine does.\<close>

lemma array_agrees:
  assumes wf: "state_wf (ArrayState m val inner)" and data: "data \<noteq> []"
    and inner: "Parser_handleData (Suc n) False inner data = Some (feedAll False inner data)"
    and rest: "\<And>v rest. m > 1 \<Longrightarrow> length rest < length data \<Longrightarrow>
      \<exists>r. ArrayState_handleData (Suc n) (m - 1) (val @ [v]) RootState rest = Some r \<and>
        (if rest = [] then r = Inr (ArrayState (m - 1) (val @ [v]) RootState, [])
         else agrees short (ArrayState (m - 1) (val @ [v]) RootState) rest r)"
  shows "\<exists>r. ArrayState_handleData (Suc (Suc n)) m val inner data = Some r \<and> agrees short (ArrayState m val inner) data r"
proof (cases "feedAll False inner data")
  case (Inl e)
  with wf data inner show ?thesis by (simp add: agrees_def feedAll_array rall_Inl)
next
  case (Inr p)
  obtain inner' rest' where p: "p = (inner', rest')" by fastforce
  have prog: "state_wf inner'" "nesting inner' + length rest' \<le> nesting inner + length data"
    "length rest' < length data" "rest' \<noteq> [] \<longrightarrow> is_Done inner'"
    using feedAll_progress [of inner False data inner' rest'] wf data Inr p by auto
  show ?thesis
  proof (cases "is_Done inner'")
    case False
    with prog have "rest' = []" by simp
    with False Inr p wf data inner prog show ?thesis
      by (cases inner') (simp_all add: agrees_def feedAll_array rall_Inr)
  next
    case True
    then obtain v where v: "inner' = Done v" by (auto simp: is_Done_conv)
    show ?thesis
    proof (cases "m = 1")
      case True
      with v Inr p wf data inner prog show ?thesis
        by (simp add: agrees_def feedAll_array rall_Inr pushBackNew_def)
    next
      case False
      with wf have "m > 1" by simp
      from rest [OF this prog(3), of v] obtain r where
        r: "ArrayState_handleData (Suc n) (m - 1) (val @ [v]) RootState rest' = Some r"
          "if rest' = [] then r = Inr (ArrayState (m - 1) (val @ [v]) RootState, [])
           else agrees short (ArrayState (m - 1) (val @ [v]) RootState) rest' r" by blast
      have "ArrayState_handleData (Suc (Suc n)) m val inner data = Some r"
        using v Inr p wf data inner r(1)
        by (simp add: pushBackNew_def del: ArrayState_handleData.simps)
          (simp add: ArrayState_handleData.simps(2) [of "Suc n"] pushBackNew_def del: ArrayState_handleData.simps)
      moreover have "feedAll short (ArrayState m val inner) data =
          feedAll short (ArrayState (m - 1) (val @ [v]) RootState) rest'"
        using v Inr p wf False by (simp add: feedAll_array)
      ultimately show ?thesis using r(2) prog \<open>m > 1\<close>
        by (cases "rest' = []") (auto simp: agrees_def rall_def)
    qed
  qed
qed

lemma fuel_enough:
  "(\<forall>short (st :: 'f parser_state) data. state_wf st \<longrightarrow> 4 * length data + 3 * nesting st + 3 \<le> n \<longrightarrow>
      Parser_handleData n short st data = Some (feedAll short st data))
   \<and> (\<forall>short (st :: 'f parser_state) data. state_wf st \<longrightarrow> \<not> is_Done st \<longrightarrow> data \<noteq> [] \<longrightarrow>
      4 * length data + 3 * nesting st + 2 \<le> n \<longrightarrow>
      (\<exists>r. State_handleData n short st data = Some r \<and> agrees short st data r))
   \<and> (\<forall>short m val (inner :: 'f parser_state) data. state_wf (ArrayState m val inner) \<longrightarrow>
      4 * length data + 3 * nesting inner + 4 \<le> n \<longrightarrow>
      (\<exists>r. ArrayState_handleData n m val inner data = Some r \<and>
        (if data = [] then r = Inr (ArrayState m val inner, []) else agrees short (ArrayState m val inner) data r)))"
  (is "?P n \<and> ?S n \<and> ?A n")
proof (induction n)
  case (Suc n)
  then have P: "?P n" and S: "?S n" and A: "?A n" by blast+
  have "?P (Suc n)"
  proof (intro allI impI)
    fix short and st :: "'f parser_state" and data :: "octet list"
    assume wf: "state_wf st" and n: "4 * length data + 3 * nesting st + 3 \<le> Suc n"
    show "Parser_handleData (Suc n) short st data = Some (feedAll short st data)"
    proof (cases "is_Done st \<or> data = []")
      case True
      then show ?thesis by (cases data) auto
    next
      case False
      then obtain r where r: "State_handleData n short st data = Some r" "agrees short st data r"
        using S [rule_format, of st data short] wf n by auto
      show ?thesis
      proof (cases r)
        case (Inl e)
        with r False show ?thesis by (simp add: agrees_def)
      next
        case (Inr q)
        obtain st' rest where q: "q = (st', rest)" by fastforce
        with r Inr have "state_wf st'" "length rest < length data"
          "nesting st' + length rest \<le> nesting st + length data"
          "feedAll short st data = feedAll short st' rest" by (auto simp: agrees_def rall_def)
        moreover from this n have "4 * length rest + 3 * nesting st' + 3 \<le> n" by linarith
        ultimately show ?thesis using P [rule_format, of st' rest short] False r(1) Inr q by simp
      qed
    qed
  qed
  moreover have "?S (Suc n)"
  proof (intro allI impI)
    fix short and st :: "'f parser_state" and data :: "octet list"
    assume st: "state_wf st" "\<not> is_Done st" "data \<noteq> []" "4 * length data + 3 * nesting st + 2 \<le> Suc n"
    show "\<exists>r. State_handleData (Suc n) short st data = Some r \<and> agrees short st data r"
    proof (cases "nesting st = 0")
      case True
      with st show ?thesis by (intro leaf_agrees) auto
    next
      case False
      then obtain m val inner where inner: "st = ArrayState m val inner" by (cases st) auto
      with st A [rule_format, of m val inner data short] show ?thesis by auto
    qed
  qed
  moreover have "?A (Suc n)"
  proof (intro allI impI)
    fix short m val and inner :: "'f parser_state" and data :: "octet list"
    assume wf: "state_wf (ArrayState m val inner)" and n: "4 * length data + 3 * nesting inner + 4 \<le> Suc n"
    then obtain k where k: "n = Suc k" by (cases n) auto
    show "\<exists>r. ArrayState_handleData (Suc n) m val inner data = Some r \<and>
        (if data = [] then r = Inr (ArrayState m val inner, []) else agrees short (ArrayState m val inner) data r)"
    proof (cases "data = []")
      case True
      with wf show ?thesis by simp
    next
      case False
      have inner: "Parser_handleData (Suc k) False inner data = Some (feedAll False inner data)"
        using P [rule_format, of inner data False] wf n k by simp
      have rest: "\<exists>r. ArrayState_handleData (Suc k) (m - 1) (val @ [v]) RootState rest = Some r \<and>
        (if rest = [] then r = Inr (ArrayState (m - 1) (val @ [v]) RootState, [])
         else agrees short (ArrayState (m - 1) (val @ [v]) RootState) rest r)"
        if "m > 1" "length rest < length data" for v rest
        using A [rule_format, of "m - 1" "val @ [v]" RootState rest short] that n k by simp
      from array_agrees [OF wf False inner rest] False k show ?thesis by auto
    qed
  qed
  ultimately show ?case by blast
qed simp

lemma handleData_feedAll: "state_wf st \<Longrightarrow> handleData short st data = Some (feedAll short st data)"
  using fuel_enough [of "fuel_for st data", THEN conjunct1, rule_format, of st data short]
  by (simp add: handleData_def fuel_for_def)

section \<open>Properties of the parser\<close>

text \<open>
  C25: The parser finishes every piece of data it is given, however deep the arrays are nested, and
  does exactly what the reference machine does octet by octet: same state, same rest, same
  syntax errors.
\<close>

theorem handleData_correct:
  "state_wf st \<Longrightarrow> handleData acceptShort st data = Some (feedAll acceptShort st data)"
  by (rule handleData_feedAll)

theorem handleData_correct_witness:
  "handleData True RootState (''*1'' @ [CR, LF]) = Some (feedAll True RootState (''*1'' @ [CR, LF]))"
  by (rule handleData_correct) simp



text \<open> Numbers never overflow: the value of the integer state stays within \<open>int32_t\<close> for every
  input, since a digit that would leave the range is refused as a syntax error.
\<close>

theorem intDigit_in_range:
  "int32_ok val \<Longrightarrow> (st \<in> {Virgin, Positive} \<longrightarrow> val = 0) \<Longrightarrow> (st = PositiveDigits \<longrightarrow> val \<ge> 0) \<Longrightarrow>
   (st \<in> {Negative, NegativeDigits} \<longrightarrow> val \<le> 0) \<Longrightarrow>
   intDigit ch st val = Inr (st', val') \<Longrightarrow>
   int32_ok val' \<and> (st' \<in> {Virgin, Positive} \<longrightarrow> val' = 0) \<and> (st' = PositiveDigits \<longrightarrow> val' \<ge> 0)
   \<and> (st' \<in> {Negative, NegativeDigits} \<longrightarrow> val' \<le> 0)"
  by (cases st)
    (auto simp: intDigit_def charIsDigit_iff int_simps syntaxError_def Let_def split: if_splits)

theorem intDigit_in_range_witness:
  "intDigit (CHR ''7'') PositiveDigits 214748364 = Inr (PositiveDigits, 2147483647) \<and> int32_ok 2147483647"
proof -
  have "intDigit (CHR ''7'') PositiveDigits 214748364 = Inr (PositiveDigits, 2147483647)"
    by (simp add: intDigit_def charIsDigit_def int_simps Let_def)
  then show ?thesis
    using intDigit_in_range [of 214748364 PositiveDigits "CHR ''7''" PositiveDigits 2147483647]
    by (simp add: int_simps)
qed

section \<open>Writing and parsing\<close>

text \<open>
  What the parser makes of a value that was written: numbers and booleans arrive as text, a hash
  as a list of names and values, an error with the first line of its text and the parser as
  its source, and what cannot be written as null.
\<close>

fun received :: "'f platform \<Rightarrow> 'f Value \<Rightarrow> 'f Value option"
  and receivedSegment :: "'f platform \<Rightarrow> 'f segment \<Rightarrow> 'f segment"
  and receivedFields :: "'f platform \<Rightarrow> string list \<Rightarrow> 'f segment \<Rightarrow> 'f segment" where
  "received pf (StringValue str) = Some (StringValue str)"
| "received pf (IntegerValue iv) = Some (StringValue (Format ''%d'' [FormatSigned_format iv]))"
| "received pf (FloatValue fv) = Some (StringValue (formatFloat pf fv))"
| "received pf (BooleanValue bv) = Some (StringValue (if bv then ''1'' else ''0''))"
| "received pf (HashValue keys values) = Some (VectorValue (receivedFields pf (m_names keys) values))"
| "received pf (VectorValue vv) = Some (VectorValue (receivedSegment pf vv))"
| "received pf (ErrorValue source str) =
     Some (ErrorValue SOURCE_ID (takeWhile (\<lambda>c. c \<noteq> CR \<and> c \<noteq> LF) str))"
| "received pf OtherValue = None"
| "receivedSegment pf [] = []"
| "receivedSegment pf (None # vs) = None # receivedSegment pf vs"
| "receivedSegment pf (Some v # vs) = received pf v # receivedSegment pf vs"
| "receivedFields pf [] values = []"
| "receivedFields pf (name # names) [] = Some (StringValue name) # None # receivedFields pf names []"
| "receivedFields pf (name # names) (None # vs) = Some (StringValue name) # None # receivedFields pf names vs"
| "receivedFields pf (name # names) (Some v # vs) =
     Some (StringValue name) # received pf v # receivedFields pf names vs"

text \<open>The protocol gives sizes as \<open>int32_t\<close>.\<close>

definition size_ok :: "nat \<Rightarrow> bool" where "size_ok n \<longleftrightarrow> int n \<le> INT32_MAX"

fun sendable :: "'f platform \<Rightarrow> 'f Value \<Rightarrow> bool"
  and sendableSegment :: "'f platform \<Rightarrow> 'f segment \<Rightarrow> bool"
  and sendableFields :: "'f platform \<Rightarrow> string list \<Rightarrow> 'f segment \<Rightarrow> bool" where
  "sendable pf (StringValue str) = size_ok (length str)"
| "sendable pf (IntegerValue iv) = size_ok (length (Format ''%d'' [FormatSigned_format iv]))"
| "sendable pf (FloatValue fv) = size_ok (length (formatFloat pf fv))"
| "sendable pf (BooleanValue bv) = True"
| "sendable pf (HashValue keys values) =
     (size_ok (2 * length (m_names keys)) \<and> sendableFields pf (m_names keys) values)"
| "sendable pf (VectorValue vv) = (size_ok (length vv) \<and> sendableSegment pf vv)"
| "sendable pf (ErrorValue source str) = True"
| "sendable pf OtherValue = True"
| "sendableSegment pf [] = True"
| "sendableSegment pf (None # vs) = sendableSegment pf vs"
| "sendableSegment pf (Some v # vs) = (sendable pf v \<and> sendableSegment pf vs)"
| "sendableFields pf [] values = True"
| "sendableFields pf (name # names) [] = (size_ok (length name) \<and> sendableFields pf names [])"
| "sendableFields pf (name # names) (None # vs) = (size_ok (length name) \<and> sendableFields pf names vs)"
| "sendableFields pf (name # names) (Some v # vs) =
     (size_ok (length name) \<and> sendable pf v \<and> sendableFields pf names vs)"

lemma CR_LF [simp]: "CR \<noteq> LF" "LF \<noteq> CR"
  by (simp_all add: CR_def LF_def)

lemma foldl_digits_ge: "v \<le> foldl (\<lambda>n c. 10 * n + (of_char c - 48)) v ds" for v :: nat
proof (induction ds arbitrary: v)
  case (Cons c ds)
  have "v \<le> 10 * v + (of_char c - 48)" by simp
  also have "\<dots> \<le> foldl (\<lambda>n c. 10 * n + (of_char c - 48)) v (c # ds)" using Cons.IH by simp
  finally show ?case .
qed simp

lemma feed_digits:
  "list_all charIsDigit ds \<Longrightarrow> size_ok (foldl (\<lambda>n c. 10 * n + (of_char c - 48)) v ds) \<Longrightarrow> ds \<noteq> [] \<Longrightarrow>
   st = Virgin \<or> st = PositiveDigits \<Longrightarrow>
   feedAll short (IntState kind st (int v)) (ds @ rest) =
     feedAll short (IntState kind PositiveDigits (int (foldl (\<lambda>n c. 10 * n + (of_char c - 48)) v ds))) rest"
proof (induction ds arbitrary: v st)
  case (Cons c ds)
  let ?v = "10 * v + (of_char c - 48) :: nat"
  have digit: "charIsDigit c" "48 \<le> (of_char c :: nat)" using Cons.prems(1) by (simp_all add: charIsDigit_iff)
  have "?v \<le> foldl (\<lambda>n c. 10 * n + (of_char c - 48)) v (c # ds)" using foldl_digits_ge [of ?v ds] by simp
  with Cons.prems(2) have le: "int ?v \<le> INT32_MAX" by (simp add: size_ok_def)
  have step: "intDigit c st (int v) = Inr (PositiveDigits, int ?v)"
    using digit le Cons.prems(4) digit_not [OF digit(1)]
    by (auto simp: intDigit_def Let_def of_nat_diff int_simps)
  have "c \<noteq> LF" using digit by (auto simp: LF_def)
  with step have feed: "feedAll short (IntState kind st (int v)) ((c # ds) @ rest) =
      feedAll short (IntState kind PositiveDigits (int ?v)) (ds @ rest)"
    by (simp del: of_nat_add of_nat_mult)
  show ?case
  proof (cases "ds = []")
    case True
    with feed show ?thesis by simp
  next
    case False
    with Cons.IH [of ?v PositiveDigits] Cons.prems show ?thesis unfolding feed by simp
  qed
qed simp

lemma feed_number_line:
  assumes "size_ok n"
  shows "feedAll short (IntState kind Virgin 0) (dec_nat n @ [CR, LF] @ rest) =
    rbind (intEnd kind PositiveDigits (int n)) (\<lambda>st. feedAll short st rest)"
proof -
  have "foldl (\<lambda>n c. 10 * n + (of_char c - 48)) 0 (dec_nat n) = n"
    using dec_nat_digits(2) [of n] by (simp add: dec_value_def)
  then have "feedAll short (IntState kind Virgin (int 0)) (dec_nat n @ [CR, LF] @ rest) =
      feedAll short (IntState kind PositiveDigits (int n)) ([CR, LF] @ rest)"
    using feed_digits [of "dec_nat n" 0 Virgin short kind "[CR, LF] @ rest"] assms dec_nat_digits [of n] by simp
  also have "\<dots> = rbind (intEnd kind PositiveDigits (int n)) (\<lambda>st. feedAll short st rest)"
    by (simp add: intDigit_def rbind_assoc CR_def [THEN eq_reflection, symmetric])
      (simp add: CR_def charIsDigit_def rbind_assoc)
  finally show ?thesis by simp
qed

lemma visitString_line: "visitString str = CHR ''$'' # dec_nat (length str) @ [CR, LF] @ str @ [CR, LF]"
  by (simp add: visitString_def Format_bulk [simplified] CR_def LF_def)

lemma arrayHeader_line: "arrayHeader n = CHR ''*'' # dec_nat n @ [CR, LF]"
  by (simp add: arrayHeader_def Format_array [simplified] CR_def LF_def)

lemma feed_string:
  "size_ok (length str) \<Longrightarrow>
   feedAll short RootState (visitString str @ rest) = Inr (Done (Some (StringValue str)), rest)"
  by (simp add: visitString_line feed_number_line [simplified] intEnd_def)
    (simp add: feedAll_bulk)

lemma feed_null:
  "feedAll short RootState (visitNull @ rest) = Inr (Done None, rest)"
  "feedAll short RootState (visitOther @ rest) = Inr (Done None, rest)"
proof -
  have "intDigit (CHR ''-'') Virgin 0 = Inr (Negative, 0)" "intDigit (CHR ''1'') Negative 0 = Inr (NegativeDigits, - 1)"
    "intDigit CR NegativeDigits (- 1) = Inr (NegativeDigits, - 1)"
    by (simp_all add: intDigit_def charIsDigit_def CR_def Let_def)
  moreover have "LF \<noteq> CHR ''-''" "LF \<noteq> CHR ''1''" by (simp_all add: LF_def)
  ultimately show "feedAll short RootState (visitNull @ rest) = Inr (Done None, rest)"
    "feedAll short RootState (visitOther @ rest) = Inr (Done None, rest)"
    by (simp_all add: visitNull_def visitOther_def intEnd_def)
qed

lemma feed_line:
  "CR \<notin> set str \<Longrightarrow> LF \<notin> set str \<Longrightarrow>
   feedAll short (StringState success val) (str @ [CR, LF] @ rest) =
     Inr (Done (Some (if success then StringValue (val @ str) else ErrorValue SOURCE_ID (val @ str))), rest)"
  by (induction str arbitrary: val) auto

lemma feed_error:
  "feedAll short RootState (visitError source str @ rest) =
     Inr (Done (Some (ErrorValue SOURCE_ID (takeWhile (\<lambda>c. c \<noteq> CR \<and> c \<noteq> LF) str))), rest)"
proof -
  have "CR \<notin> set (takeWhile (\<lambda>c. c \<noteq> CR \<and> c \<noteq> LF) str)" "LF \<notin> set (takeWhile (\<lambda>c. c \<noteq> CR \<and> c \<noteq> LF) str)"
    by (auto dest: set_takeWhileD)
  from feed_line [OF this, of short False "[]" rest] show ?thesis by (simp add: visitError_def)
qed

text \<open>An element of an array, and the header of one.\<close>

lemma feed_element:
  assumes "feedAll False RootState (x @ ys) = Inr (Done v, ys)"
  shows "feedAll short (ArrayState (Suc n) val RootState) (x @ ys) =
    feedAll short (if n = 0 then Done (Some (VectorValue (val @ [v]))) else ArrayState n (val @ [v]) RootState) ys"
  using assms by (simp add: feedAll_array)

lemma feed_array:
  assumes "size_ok n"
  shows "feedAll short RootState (arrayHeader n @ rest) =
    feedAll short (if n = 0 then Done (Some (VectorValue [])) else ArrayState n [] RootState) rest"
  using assms by (simp add: arrayHeader_line feed_number_line [simplified] intEnd_def)

lemma feed_field:
  assumes "size_ok (length name)" "feedAll False RootState (x @ ys) = Inr (Done v, ys)"
  shows "feedAll short (ArrayState (Suc (Suc n)) val RootState) (visitString name @ x @ ys) =
    feedAll short (if n = 0 then Done (Some (VectorValue (val @ [Some (StringValue name), v])))
                   else ArrayState n (val @ [Some (StringValue name), v]) RootState) ys"
  using feed_element [OF feed_string [OF assms(1)], of short "Suc n" val "x @ ys"]
    feed_element [OF assms(2), of short n "val @ [Some (StringValue name)]"] by simp

lemma feed_written:
  "sendable pf v \<Longrightarrow>
     feedAll short RootState (visit pf v @ rest) = Inr (Done (received pf v), rest)"
  "sendableSegment pf vs \<Longrightarrow> vs \<noteq> [] \<Longrightarrow>
     feedAll short (ArrayState (length vs) val RootState) (visitSegment pf vs @ rest) =
       Inr (Done (Some (VectorValue (val @ receivedSegment pf vs))), rest)"
  "sendableFields pf names vs \<Longrightarrow> names \<noteq> [] \<Longrightarrow>
     feedAll short (ArrayState (2 * length names) val RootState) (visitFields pf names vs @ rest) =
       Inr (Done (Some (VectorValue (val @ receivedFields pf names vs))), rest)"
proof (induction pf v and pf vs and pf names vs
    arbitrary: short rest and short "val" rest and short "val" rest
    rule: visit_visitSegment_visitFields.induct)
  case (5 pf keys vs)
  then show ?case
    by (cases "m_names keys = []") (simp_all add: feed_array getNumNames_def)
next
  case (6 pf vv)
  then show ?case by (cases "vv = []") (simp_all add: feed_array)
next
  case (10 pf vs)
  then show ?case
    using feed_element [OF feed_null(1), of short "length vs" val "visitSegment pf vs @ rest"]
    by (cases "vs = []") simp_all
next
  case (11 pf v vs)
  then show ?case
    using feed_element [of "visit pf v" "visitSegment pf vs @ rest" "received pf v" short "length vs" val]
    by (cases "vs = []") simp_all
next
  case (13 pf name names)
  then show ?case by (cases "names = []") (simp_all add: feed_field feed_null numeral_2_eq_2)
next
  case (14 pf name names vs)
  then show ?case by (cases "names = []") (simp_all add: feed_field feed_null numeral_2_eq_2)
next
  case (15 pf name names v vs)
  then show ?case by (cases "names = []") (simp_all add: feed_field numeral_2_eq_2)
qed (simp_all add: feed_string feed_null feed_error visitInteger_def visitFloat_def visitBoolean_def size_ok_def int_simps)

text \<open>
  C27: Every value that is written is understood: parsing what the writer produces gives the value
  back, in the form in which the protocol transmits it, and leaves exactly the octets that
  follow. Strings may contain any octet; sizes must fit the protocol's integers.
\<close>

theorem parse_written:
  "(case v of None \<Rightarrow> True | Some v \<Rightarrow> sendable pf v) \<Longrightarrow>
   handleData acceptShort RootState (writeValue pf v @ rest) =
     Some (Inr (Done (case v of None \<Rightarrow> None | Some v \<Rightarrow> received pf v), rest))"
  by (cases v) (simp_all add: handleData_feedAll writeValue_def feed_null feed_written)

theorem parse_written_witness:
  "handleData False (RootState :: nat parser_state) (writeValue nat_platform (Some (VectorValue [Some (StringValue [CR, LF]), None])) @ ''x'') =
     Some (Inr (Done (Some (VectorValue [Some (StringValue [CR, LF]), None])), ''x''))"
  using parse_written [where v = "Some (VectorValue [Some (StringValue [CR, LF]), None])" and pf = nat_platform
    and acceptShort = False and rest = "''x''"]
  by (simp add: size_ok_def int_simps)

end
