(* ===== verification/Afl_Charset.thy ===== *)
theory Afl_Charset
  imports Afl_String
begin

text \<open>
  UTF-8 of afl/charset: encoding of a character (utf8.cpp), the decoder (utf8reader.cpp), and the
  operations on UTF-8 text. A character is a natural number below 2^32. Shifts and masks on
  it are written as division and remainder; no value leaves 32 bits, as the decoder refuses
  another continuation byte when bits 26 to 31 are in use.
\<close>

section \<open>Characters\<close>

definition UNICODE_MAX :: nat where "UNICODE_MAX = 0x10FFFF"
definition UNICODE_HIGH_SURROGATE_MIN :: nat where "UNICODE_HIGH_SURROGATE_MIN = 0xD800"
definition UNICODE_HIGH_SURROGATE_MAX :: nat where "UNICODE_HIGH_SURROGATE_MAX = 0xDBFF"
definition UNICODE_LOW_SURROGATE_MIN :: nat where "UNICODE_LOW_SURROGATE_MIN = 0xDC00"
definition UNICODE_LOW_SURROGATE_MAX :: nat where "UNICODE_LOW_SURROGATE_MAX = 0xDFFF"
definition UNICODE_ERROR_MIN :: nat where "UNICODE_ERROR_MIN = 0xEF80"
definition UNICODE_ERROR_MAX :: nat where "UNICODE_ERROR_MAX = 0xEFFF"

lemmas unicode_consts = UNICODE_MAX_def UNICODE_HIGH_SURROGATE_MIN_def UNICODE_HIGH_SURROGATE_MAX_def
  UNICODE_LOW_SURROGATE_MIN_def UNICODE_LOW_SURROGATE_MAX_def UNICODE_ERROR_MIN_def UNICODE_ERROR_MAX_def

definition byte :: "nat \<Rightarrow> octet" where "byte n = char_of n"

definition makeErrorCharacter :: "octet \<Rightarrow> nat" where
  "makeErrorCharacter c = UNICODE_ERROR_MIN + (of_char c - 0x80)"

definition isErrorCharacter :: "nat \<Rightarrow> bool" where
  "isErrorCharacter uc \<longleftrightarrow> uc \<ge> UNICODE_ERROR_MIN \<and> uc \<le> UNICODE_ERROR_MAX"

definition getErrorCharacterId :: "nat \<Rightarrow> octet" where
  "getErrorCharacterId uc = byte (uc - UNICODE_ERROR_MIN + 0x80)"

datatype utf8_flag = AllowEncodedZero | AllowSurrogates | AllowNonMinimal | AllowNonCharacters | AllowErrorEscapes

section \<open>Encoding\<close>

fun extraBytes :: "nat \<Rightarrow> nat \<Rightarrow> octet list" where
  "extraBytes 0 ch = []"
| "extraBytes (Suc n) ch = byte (0x80 + ch div 2 ^ (6 * n) mod 64) # extraBytes n ch"

definition appendOne :: "nat \<Rightarrow> octet list" where
  "appendOne ch =
     (if ch \<le> 0x7FF then byte (0xC0 + ch div 2 ^ 6) # extraBytes 1 ch
      else if ch \<le> 0xFFFF then byte (0xE0 + ch div 2 ^ 12) # extraBytes 2 ch
      else if ch \<le> 0x1FFFFF then byte (0xF0 + ch div 2 ^ 18) # extraBytes 3 ch
      else if ch \<le> 0x3FFFFFF then byte (0xF8 + ch div 2 ^ 24) # extraBytes 4 ch
      else if ch \<le> 0x7FFFFFFF then byte (0xFC + ch div 2 ^ 30) # extraBytes 5 ch
      else byte 0xFE # extraBytes 6 ch)"

definition Utf8_append :: "utf8_flag set \<Rightarrow> string \<Rightarrow> nat \<Rightarrow> string" where
  "Utf8_append flags s ch =
     s @ (if AllowErrorEscapes \<in> flags \<and> isErrorCharacter ch then [getErrorCharacterId ch]
          else if ch \<ge> 0x10000 \<and> ch \<le> UNICODE_MAX \<and> AllowSurrogates \<in> flags then
            let ch = ch - 0x10000
            in appendOne (UNICODE_HIGH_SURROGATE_MIN + ch div 2 ^ 10 mod 0x400)
               @ appendOne (UNICODE_LOW_SURROGATE_MIN + ch mod 0x400)
          else if ch = 0 \<and> AllowEncodedZero \<in> flags then appendOne 0
          else if ch \<ge> 0x80 then appendOne ch
          else [byte ch])"

section \<open>Decoding\<close>

record character =
  m_value :: nat
  m_firstChar :: octet
  m_size :: nat

text \<open>The class of a first byte: the bits it contributes, the number of bytes that follow, and the
  least character of that length.\<close>

definition firstByte :: "nat \<Rightarrow> (nat \<times> nat \<times> nat) option" where
  "firstByte ch =
     (if ch < 0x80 then Some (ch, 0, 0)
      else if ch \<ge> 0xC0 \<and> ch < 0xE0 then Some (ch - 0xC0, 1, 0x80)
      else if ch \<ge> 0xE0 \<and> ch < 0xF0 then Some (ch - 0xE0, 2, 0x800)
      else if ch \<ge> 0xF0 \<and> ch < 0xF8 then Some (ch - 0xF0, 3, 0x10000)
      else if ch \<ge> 0xF8 \<and> ch < 0xFC then Some (ch - 0xF8, 4, 0x200000)
      else if ch \<ge> 0xFC \<and> ch < 0xFE then Some (ch - 0xFC, 5, 0x4000000)
      else if ch \<ge> 0xFE \<and> ch < 0xFF then Some (ch - 0xFE, 6, 0x80000000)
      else None)"

fun parseExtra :: "nat \<Rightarrow> octet list \<Rightarrow> nat \<Rightarrow> nat option" where
  "parseExtra 0 data rune = Some rune"
| "parseExtra (Suc n) [] rune = None"
| "parseExtra (Suc n) (c # data) rune =
     (if of_char c div 64 = (2 :: nat) \<and> rune < 2 ^ 26
      then parseExtra n data (rune * 64 + of_char c mod 64)
      else None)"

definition refused :: "utf8_flag set \<Rightarrow> nat \<Rightarrow> nat \<Rightarrow> nat \<Rightarrow> bool" where
  "refused flags rune extra minVal \<longleftrightarrow>
     (isErrorCharacter rune \<and> AllowErrorEscapes \<in> flags)
     \<or> (rune < minVal \<and> AllowNonMinimal \<notin> flags \<and> \<not> (rune = 0 \<and> AllowEncodedZero \<in> flags \<and> extra = 1))
     \<or> ((rune \<ge> UNICODE_MAX \<or> rune mod 0x10000 \<ge> 0xFFFE) \<and> AllowNonCharacters \<notin> flags)"

definition errorCharacter :: "octet \<Rightarrow> character" where
  "errorCharacter c = \<lparr>m_value = makeErrorCharacter c, m_firstChar = c, m_size = 1\<rparr>"

definition Utf8Reader_parse :: "utf8_flag set \<Rightarrow> octet list \<Rightarrow> character" where
  "Utf8Reader_parse flags data =
     (case data of
        [] \<Rightarrow> \<lparr>m_value = 0, m_firstChar = byte 0, m_size = 0\<rparr>
      | c # data \<Rightarrow>
          (case firstByte (of_char c) of
             None \<Rightarrow> errorCharacter c
           | Some (rune, extra, minVal) \<Rightarrow>
               (case parseExtra extra data rune of
                  None \<Rightarrow> errorCharacter c
                | Some rune \<Rightarrow>
                    if refused flags rune extra minVal then errorCharacter c
                    else \<lparr>m_value = rune, m_firstChar = c, m_size = 1 + extra\<rparr>)))"

definition isHighSurrogate :: "nat \<Rightarrow> bool" where
  "isHighSurrogate ch \<longleftrightarrow> ch \<ge> UNICODE_HIGH_SURROGATE_MIN \<and> ch \<le> UNICODE_HIGH_SURROGATE_MAX"

definition isLowSurrogate :: "nat \<Rightarrow> bool" where
  "isLowSurrogate ch \<longleftrightarrow> ch \<ge> UNICODE_LOW_SURROGATE_MIN \<and> ch \<le> UNICODE_LOW_SURROGATE_MAX"

text \<open>\<open>eat\<close> gives the character and the remaining data.\<close>

definition Utf8Reader_eat :: "utf8_flag set \<Rightarrow> octet list \<Rightarrow> nat \<times> octet list" where
  "Utf8Reader_eat flags data =
     (let first = Utf8Reader_parse flags data
      in if m_size first = 0 then (0, data)
         else if isHighSurrogate (m_value first) then
           if AllowSurrogates \<in> flags then
             let second = Utf8Reader_parse flags (drop (m_size first) data)
             in if isLowSurrogate (m_value second)
                then (0x10000 + m_value first mod 0x400 * 2 ^ 10 + m_value second mod 0x400,
                      drop (m_size first + m_size second) data)
                else (makeErrorCharacter (m_firstChar first), drop 1 data)
           else if AllowNonCharacters \<in> flags then (m_value first, drop (m_size first) data)
           else (makeErrorCharacter (m_firstChar first), drop 1 data)
         else if isLowSurrogate (m_value first) then
           if AllowNonCharacters \<in> flags then (m_value first, drop (m_size first) data)
           else (makeErrorCharacter (m_firstChar first), drop 1 data)
         else (m_value first, drop (m_size first) data))"

lemma Utf8Reader_parse_size: "data \<noteq> [] \<Longrightarrow> m_size (Utf8Reader_parse flags data) > 0"
  by (auto simp: Utf8Reader_parse_def errorCharacter_def split: list.split option.split)

lemma Utf8Reader_eat_shrinks: "data \<noteq> [] \<Longrightarrow> length (snd (Utf8Reader_eat flags data)) < length data"
  using Utf8Reader_parse_size [of data flags] by (simp add: Utf8Reader_eat_def Let_def)

text \<open>All characters of a text, as the loops over \<open>hasMore\<close> and \<open>eat\<close> see them.\<close>

function decode :: "utf8_flag set \<Rightarrow> octet list \<Rightarrow> nat list" where
  "decode flags data =
     (if data = [] then []
      else fst (Utf8Reader_eat flags data) # decode flags (snd (Utf8Reader_eat flags data)))"
  by auto
termination by (relation "measure (\<lambda>(flags, data). length data)") (auto intro: Utf8Reader_eat_shrinks)

declare decode.simps [simp del]

function Utf8Reader_count :: "utf8_flag set \<Rightarrow> octet list \<Rightarrow> nat" where
  "Utf8Reader_count flags data =
     (if data = [] then 0 else Suc (Utf8Reader_count flags (snd (Utf8Reader_eat flags data))))"
  by auto
termination by (relation "measure (\<lambda>(flags, data). length data)") (auto intro: Utf8Reader_eat_shrinks)

declare Utf8Reader_count.simps [simp del]

section \<open>Operations on UTF-8 text\<close>

fun skipChars :: "utf8_flag set \<Rightarrow> nat \<Rightarrow> octet list \<Rightarrow> octet list" where
  "skipChars flags 0 data = data"
| "skipChars flags (Suc n) data = (if data = [] then [] else skipChars flags n (snd (Utf8Reader_eat flags data)))"

definition Utf8_length :: "utf8_flag set \<Rightarrow> octet list \<Rightarrow> nat" where
  "Utf8_length flags text1 = Utf8Reader_count flags text1"

definition Utf8_substr :: "utf8_flag set \<Rightarrow> octet list \<Rightarrow> nat \<Rightarrow> nat \<Rightarrow> octet list" where
  "Utf8_substr flags text1 index count =
     (let tail = skipChars flags index text1
      in if count \<ge> length tail then tail
         else take (length tail - length (skipChars flags count tail)) tail)"

definition Utf8_charAt :: "utf8_flag set \<Rightarrow> octet list \<Rightarrow> nat \<Rightarrow> nat" where
  "Utf8_charAt flags text1 index =
     (if skipChars flags index text1 \<noteq> []
      then fst (Utf8Reader_eat flags (skipChars flags index text1)) else 0)"

definition charToBytePos :: "utf8_flag set \<Rightarrow> octet list \<Rightarrow> nat \<Rightarrow> nat" where
  "charToBytePos flags text1 charPos =
     (if charPos \<ge> length text1 then length text1
      else length text1 - length (skipChars flags charPos text1))"

text \<open>
  The loop of \<open>byteToCharPos\<close> runs while fewer than \<open>bytePos\<close> of \<open>size1\<close> octets are
  consumed; as \<open>bytePos < size1\<close> there, the reader is never asked at the end of the text.
\<close>

function byteToCharLoop :: "utf8_flag set \<Rightarrow> nat \<Rightarrow> nat \<Rightarrow> nat \<Rightarrow> octet list \<Rightarrow> nat" where
  "byteToCharLoop flags size1 bytePos result data =
     (if size1 - length data < bytePos \<and> data \<noteq> []
      then byteToCharLoop flags size1 bytePos (result + 1) (snd (Utf8Reader_eat flags data))
      else result)"
  by pat_completeness auto
termination by (relation "measure (\<lambda>(flags, size1, pos, result, data). length data)") (auto intro: Utf8Reader_eat_shrinks)

declare byteToCharLoop.simps [simp del]

definition byteToCharPos :: "utf8_flag set \<Rightarrow> octet list \<Rightarrow> nat \<Rightarrow> nat" where
  "byteToCharPos flags text1 bytePos =
     (if bytePos \<ge> length text1 then Utf8Reader_count flags text1
      else byteToCharLoop flags (length text1) bytePos 0 text1)"

definition isContinuationByte :: "octet \<Rightarrow> bool" where
  "isContinuationByte c \<longleftrightarrow> of_char c div 64 = (2 :: nat)"

section \<open>Encoding and decoding\<close>

lemma of_char_byte [simp]: "n < 256 \<Longrightarrow> of_char (byte n) = n"
  by (simp add: byte_def)

lemma byte_of_char [simp]: "byte (of_char c) = c"
  by (simp add: byte_def)

lemma of_char_le: "of_char c \<le> (255 :: nat)"
  using nat_of_char_less_256 [of c] by linarith

lemma byte_offset: "of_char c - k = (x :: nat) \<Longrightarrow> k \<le> of_char c \<Longrightarrow> byte (k + x) = c"
  by (metis byte_of_char le_add_diff_inverse)

lemma div_pow6: "ch div 2 ^ (6 * Suc n) = ch div 2 ^ (6 * n) div (64 :: nat)"
proof -
  have "(2 :: nat) ^ (6 * Suc n) = 2 ^ (6 * n) * 64" by (simp add: power_add)
  then show ?thesis by (simp only: div_mult2_eq)
qed

lemma parseExtra_encode:
  "parseExtra n data r = Some rune \<Longrightarrow>
   n \<le> length data \<and> rune div 2 ^ (6 * n) = r \<and> take n data = extraBytes n rune"
proof (induction n data r rule: parseExtra.induct)
  case (3 n c data r)
  let ?x = "of_char c :: nat"
  from 3 have c: "?x div 64 = 2" and IH: "n \<le> length data" "rune div 2 ^ (6 * n) = r * 64 + ?x mod 64"
    "take n data = extraBytes n rune" by (auto split: if_splits)
  have "rune div 2 ^ (6 * Suc n) = r" unfolding div_pow6 by (simp add: IH(2))
  moreover have "0x80 + rune div 2 ^ (6 * n) mod 64 = ?x"
    unfolding IH(2) using c div_mult_mod_eq [of ?x 64] by (simp del: div_mult_mod_eq)
  then have "byte (0x80 + rune div 2 ^ (6 * n) mod 64) = c" by (simp only: byte_of_char)
  ultimately show ?case using IH by (simp del: mult_Suc_right)
qed simp_all

lemma parseExtra_extraBytes:
  "ch < 2 ^ 32 \<Longrightarrow> parseExtra n (extraBytes n ch @ rest) (ch div 2 ^ (6 * n)) = Some ch"
proof (induction n)
  case (Suc n)
  define z where "z = ch div 2 ^ (6 * n)"
  have "z div 64 \<le> ch div 64" by (simp add: z_def div_le_mono)
  also have "\<dots> < 2 ^ 26" using Suc.prems by (simp add: less_mult_imp_div_less)
  finally have "z div 64 < 2 ^ 26" .
  moreover have "(0x80 + z mod 64) div 64 = 2" "(0x80 + z mod 64) mod 64 = z mod 64" "0x80 + z mod 64 < 256"
    using mod_less_divisor [of 64 z] mod_add_left_eq [of 128 64 "z mod 64"] by (simp_all add: div_add1_eq)
  ultimately show ?case using Suc
    by (simp del: mult_Suc_right power_Suc add: div_pow6 z_def [symmetric])
qed simp

text \<open>What the error escapes promise: a byte that is no part of a valid character becomes an error
  character, which is written as that byte.\<close>

lemma escape_error:
  assumes "of_char c \<ge> (128 :: nat)"
  shows "Utf8_append {AllowErrorEscapes} [] (makeErrorCharacter c) = [c]"
proof -
  have "makeErrorCharacter c - UNICODE_ERROR_MIN + 0x80 = of_char c"
    using assms by (simp add: makeErrorCharacter_def)
  moreover have "isErrorCharacter (makeErrorCharacter c)"
    using of_char_le [of c] by (simp add: makeErrorCharacter_def isErrorCharacter_def unicode_consts)
  ultimately show ?thesis by (simp add: Utf8_append_def getErrorCharacterId_def)
qed

lemma parse_cases:
  assumes "Utf8Reader_parse {AllowErrorEscapes} (c # data) = r"
  shows "r = errorCharacter c \<and> of_char c \<ge> (128 :: nat)
    \<or> m_firstChar r = c \<and> 0 < m_size r \<and> m_size r \<le> Suc (length data)
      \<and> Utf8_append {AllowErrorEscapes} [] (m_value r) = take (m_size r) (c # data)
      \<and> (of_char c < (128 :: nat) \<longrightarrow> m_value r < 128)"
proof (cases "firstByte (of_char c)")
  case None
  with assms show ?thesis by (auto simp: Utf8Reader_parse_def firstByte_def split: if_splits)
next
  case (Some f)
  then obtain r0 extra minVal where f: "firstByte (of_char c) = Some (r0, extra, minVal)" by (cases f) auto
  show ?thesis
  proof (cases "parseExtra extra data r0")
    case None
    with f assms show ?thesis
      by (auto simp: Utf8Reader_parse_def firstByte_def split: if_splits)
  next
    case (Some rune)
    note enc = parseExtra_encode [OF Some]
    show ?thesis
    proof (cases "refused {AllowErrorEscapes} rune extra minVal")
      case True
      have "of_char c \<ge> (128 :: nat)"
      proof (rule ccontr)
        assume "\<not> of_char c \<ge> (128 :: nat)"
        with f Some True show False
          by (auto simp: firstByte_def refused_def isErrorCharacter_def unicode_consts)
      qed
      with True f Some assms show ?thesis by (simp add: Utf8Reader_parse_def)
    next
      case False
      then have rune: "\<not> isErrorCharacter rune" "minVal \<le> rune" "rune < UNICODE_MAX"
        by (auto simp: refused_def)
      have r: "r = \<lparr>m_value = rune, m_firstChar = c, m_size = 1 + extra\<rparr>"
        using f Some False assms by (simp add: Utf8Reader_parse_def)
      have "Utf8_append {AllowErrorEscapes} [] rune = c # extraBytes extra rune"
        using f rune enc of_char_le [of c]
        by (auto simp: firstByte_def Utf8_append_def appendOne_def unicode_consts div_less_iff_less_mult
            intro!: byte_offset split: if_splits)
      moreover have "of_char c < (128 :: nat) \<longrightarrow> rune < 128"
        using f Some by (auto simp: firstByte_def)
      ultimately show ?thesis using r enc by simp
    qed
  qed
qed

lemma eat_lossless:
  assumes "data \<noteq> []"
  shows "Utf8_append {AllowErrorEscapes} [] (fst (Utf8Reader_eat {AllowErrorEscapes} data))
    @ snd (Utf8Reader_eat {AllowErrorEscapes} data) = data"
proof -
  obtain c rest where data: "data = c # rest" using assms by (cases data) auto
  let ?f = "Utf8Reader_parse {AllowErrorEscapes} data"
  have err: "Utf8_append {AllowErrorEscapes} [] (makeErrorCharacter c) @ drop 1 data = data"
    if "of_char c \<ge> (128 :: nat)" using that by (simp add: escape_error data)
  consider "?f = errorCharacter c" "of_char c \<ge> (128 :: nat)"
    | "m_firstChar ?f = c" "0 < m_size ?f" "Utf8_append {AllowErrorEscapes} [] (m_value ?f) = take (m_size ?f) data"
      "of_char c < (128 :: nat) \<longrightarrow> m_value ?f < 128"
    using parse_cases [of c rest ?f] data by auto
  then show ?thesis
  proof cases
    case 1
    then have "\<not> isHighSurrogate (m_value ?f)" "\<not> isLowSurrogate (m_value ?f)"
      using of_char_le [of c]
      by (simp_all add: errorCharacter_def makeErrorCharacter_def isHighSurrogate_def isLowSurrogate_def unicode_consts)
    with 1 err show ?thesis by (simp add: Utf8Reader_eat_def errorCharacter_def)
  next
    case 2
    have "of_char c \<ge> (128 :: nat)" if "isHighSurrogate (m_value ?f) \<or> isLowSurrogate (m_value ?f)"
      using 2(4) that by (auto simp: isHighSurrogate_def isLowSurrogate_def unicode_consts)
    with 2 err show ?thesis by (auto simp: Utf8Reader_eat_def Let_def)
  qed
qed

lemma decode_lossless: "concat (map (Utf8_append {AllowErrorEscapes} []) (decode {AllowErrorEscapes} data)) = data"
proof (induction data rule: measure_induct_rule [where f = length])
  case (less data)
  show ?case
  proof (cases "data = []")
    case True
    then show ?thesis by (simp add: decode.simps)
  next
    case False
    with less [OF Utf8Reader_eat_shrinks [OF False]] eat_lossless [OF False]
    show ?thesis by (subst decode.simps) simp
  qed
qed

lemma decode_append:
  assumes "ch < UNICODE_MAX" "ch mod 0x10000 < 0xFFFE" "\<not> isHighSurrogate ch" "\<not> isLowSurrogate ch"
  shows "Utf8Reader_eat {} (Utf8_append {} [] ch @ rest) = (ch, rest)"
proof -
  have ok: "\<not> refused {} ch extra minVal" if "minVal \<le> ch" for extra minVal
    using that assms by (simp add: refused_def)
  have parse: "Utf8Reader_parse {} (Utf8_append {} [] ch @ rest) =
      \<lparr>m_value = ch, m_firstChar = hd (Utf8_append {} [] ch), m_size = length (Utf8_append {} [] ch)\<rparr>"
  proof -
    have len: "length (extraBytes n ch) = n" for n by (induction n) auto
    have ch: "ch < 2 ^ 32" using assms(1) by (simp add: unicode_consts)
    have pe: "parseExtra (Suc 0) (extraBytes (Suc 0) ch @ rest) (ch div 64) = Some ch"
      "parseExtra 2 (extraBytes 2 ch @ rest) (ch div 4096) = Some ch"
      "parseExtra 3 (extraBytes 3 ch @ rest) (ch div 262144) = Some ch"
      using parseExtra_extraBytes [OF ch, of 1 rest] parseExtra_extraBytes [OF ch, of 2 rest]
        parseExtra_extraBytes [OF ch, of 3 rest] by simp_all
    consider "ch < 0x80" | "0x80 \<le> ch" "ch \<le> 0x7FF" | "0x7FF < ch" "ch \<le> 0xFFFF" | "0xFFFF < ch" "ch \<le> 0x1FFFFF"
      using assms(1) unfolding UNICODE_MAX_def by linarith
    then show ?thesis
    proof cases
      case 1
      then show ?thesis using ok
        by (simp add: Utf8_append_def Utf8Reader_parse_def firstByte_def)
    next
      case 2
      have d: "ch div 64 < 32" using 2 by (simp add: div_less_iff_less_mult)
      then have "firstByte (0xC0 + ch div 64) = Some (ch div 64, 1, 0x80)" by (simp add: firstByte_def)
      with 2 d ok pe(1) show ?thesis
        by (simp add: Utf8_append_def appendOne_def Utf8Reader_parse_def len del: extraBytes.simps parseExtra.simps)
    next
      case 3
      have d: "ch div 4096 < 16" using 3 by (simp add: div_less_iff_less_mult)
      then have "firstByte (0xE0 + ch div 4096) = Some (ch div 4096, 2, 0x800)" by (simp add: firstByte_def)
      with 3 d ok pe(2) show ?thesis
        by (simp add: Utf8_append_def appendOne_def Utf8Reader_parse_def len del: extraBytes.simps parseExtra.simps)
    next
      case 4
      have d: "ch div 262144 < 8" using 4 by (simp add: div_less_iff_less_mult)
      then have "firstByte (0xF0 + ch div 262144) = Some (ch div 262144, 3, 0x10000)" by (simp add: firstByte_def)
      with 4 d ok pe(3) show ?thesis
        by (simp add: Utf8_append_def appendOne_def Utf8Reader_parse_def len del: extraBytes.simps parseExtra.simps)
    qed
  qed
  have "Utf8_append {} [] ch \<noteq> []" by (auto simp: Utf8_append_def appendOne_def)
  with assms parse show ?thesis by (simp add: Utf8Reader_eat_def Let_def)
qed

lemma decode_length: "Utf8_length flags data = length (decode flags data)"
  unfolding Utf8_length_def
proof (induction flags data rule: decode.induct)
  case (1 flags data)
  then show ?case by (subst decode.simps, subst Utf8Reader_count.simps) simp
qed

lemma decode_skipChars: "decode flags (skipChars flags n data) = drop n (decode flags data)"
proof (induction n arbitrary: data)
  case (Suc n)
  then show ?case by (subst (2) decode.simps) (auto simp: decode.simps [of flags "[]"])
qed simp

section \<open>Properties\<close>

text \<open>
  C28: Decoding with error escapes loses nothing: any sequence of octets, valid UTF-8 or not, is
  restored exactly by encoding the decoded characters again.
\<close>

theorem utf8_lossless:
  "concat (map (Utf8_append {AllowErrorEscapes} []) (decode {AllowErrorEscapes} data)) = data"
  by (rule decode_lossless)

text \<open> Every Unicode character that is neither a surrogate nor a noncharacter is decoded from its
  encoding, whatever follows it.
\<close>

theorem utf8_roundtrip:
  "ch < UNICODE_MAX \<Longrightarrow> ch mod 0x10000 < 0xFFFE \<Longrightarrow> \<not> isHighSurrogate ch \<Longrightarrow> \<not> isLowSurrogate ch \<Longrightarrow>
   Utf8Reader_eat {} (Utf8_append {} [] ch @ rest) = (ch, rest)"
  by (rule decode_append)

theorem utf8_roundtrip_witness:
  "Utf8Reader_eat {} (Utf8_append {} [] 0x20AC @ ''x'') = (0x20AC, ''x'')"
  by (rule utf8_roundtrip) (simp_all add: unicode_consts isHighSurrogate_def isLowSurrogate_def)

text \<open> Counting and indexing agree with decoding: the length of a text is the number of its
  characters, and the character at an index is the one decoded there, or 0 beyond the end.
\<close>

theorem utf8_length_charAt:
  "Utf8_length flags data = length (decode flags data) \<and>
   Utf8_charAt flags data i = (if i < length (decode flags data) then decode flags data ! i else 0)"
proof
  show "Utf8_length flags data = length (decode flags data)" by (rule decode_length)
  let ?rest = "skipChars flags i data"
  have rest: "decode flags ?rest = drop i (decode flags data)" by (rule decode_skipChars)
  show "Utf8_charAt flags data i = (if i < length (decode flags data) then decode flags data ! i else 0)"
  proof (cases "?rest = []")
    case True
    with rest have "length (decode flags data) \<le> i" by (simp add: decode.simps [of flags "[]"])
    with True show ?thesis by (simp add: Utf8_charAt_def)
  next
    case False
    then have "decode flags ?rest = fst (Utf8Reader_eat flags ?rest) # decode flags (snd (Utf8Reader_eat flags ?rest))"
      by (subst decode.simps) simp
    with rest have "drop i (decode flags data) =
        fst (Utf8Reader_eat flags ?rest) # decode flags (snd (Utf8Reader_eat flags ?rest))" by simp
    then have "drop i (decode flags data) \<noteq> []" "hd (drop i (decode flags data)) = fst (Utf8Reader_eat flags ?rest)"
      by simp_all
    with False show ?thesis by (simp add: Utf8_charAt_def hd_drop_conv_nth not_le)
  qed
qed

end
