(* ===== verification/Afl_Json.thy ===== *)
theory Afl_Json
  imports Afl_Data Afl_Charset
begin

text \<open>
  JSON of afl/io/json: the recursive-descent parser (parser.cpp) and the writer with line length
  limit and pretty-printing (writer.cpp).

  The stream the parser reads is the list of the octets that are left; \<open>peekByte\<close> and
  \<open>readByte\<close> look at its head. Values nest without limit, so \<open>parse\<close> and the loops of
  arrays and objects recurse with fuel, and the first theorem shows how much is enough.
  \<open>toFloat\<close> stands for \<open>strToFloat\<close>, which is the C library's floating-point conversion.
\<close>

section \<open>Parser\<close>

definition endOfFile :: "'a result" where
  "endOfFile = Inl FileTooShortException"

definition json_syntaxError :: "'a result" where
  "json_syntaxError = Inl (FileFormatException ''Syntax error'')"

definition is_ws :: "octet \<Rightarrow> bool" where
  "is_ws c \<longleftrightarrow> c = CHR '' '' \<or> c = CHR 0x09 \<or> c = CHR 0x0D \<or> c = CHR 0x0A"

definition skipWhitespace :: "octet list \<Rightarrow> octet list" where
  "skipWhitespace s = dropWhile is_ws s"

definition parseChar1 :: "octet \<Rightarrow> octet list \<Rightarrow> unit result" where
  "parseChar1 which s =
     (case s of [] \<Rightarrow> endOfFile | c # _ \<Rightarrow> if c \<noteq> which then json_syntaxError else Inr ())"

definition parseChar2 :: "octet \<Rightarrow> octet \<Rightarrow> octet list \<Rightarrow> bool result" where
  "parseChar2 first second s =
     (case s of
        [] \<Rightarrow> endOfFile
      | c # _ \<Rightarrow> if c = first then Inr True else if c = second then Inr False else json_syntaxError)"

definition isIdentifierChar :: "octet \<Rightarrow> bool" where
  "isIdentifierChar c \<longleftrightarrow> charIsLower c \<or> charIsUpper c \<or> c = CHR ''_'' \<or> charIsDigit c"

fun keywordLoop :: "string \<Rightarrow> octet list \<Rightarrow> octet list result" where
  "keywordLoop [] s = Inr s"
| "keywordLoop (k # kw) [] = endOfFile"
| "keywordLoop (k # kw) (c # s) = (if c \<noteq> k then json_syntaxError else keywordLoop kw s)"

definition parseKeyword :: "string \<Rightarrow> octet list \<Rightarrow> octet list result" where
  "parseKeyword kw s =
     rbind (keywordLoop kw s) (\<lambda>s.
     case s of c # _ \<Rightarrow> if isIdentifierChar c then json_syntaxError else Inr s | [] \<Rightarrow> Inr s)"

definition hexValue :: "octet \<Rightarrow> nat option" where
  "hexValue c =
     (if CHR ''0'' \<le> c \<and> c \<le> CHR ''9'' then Some (of_char c - 48)
      else if CHR ''A'' \<le> c \<and> c \<le> CHR ''F'' then Some (of_char c - 65 + 10)
      else if CHR ''a'' \<le> c \<and> c \<le> CHR ''f'' then Some (of_char c - 97 + 10)
      else None)"

fun unicodeLoop :: "nat \<Rightarrow> nat \<Rightarrow> octet list \<Rightarrow> (nat \<times> octet list) result" where
  "unicodeLoop 0 result s = Inr (result, s)"
| "unicodeLoop (Suc n) result [] = endOfFile"
| "unicodeLoop (Suc n) result (c # s) =
     (case hexValue c of
        None \<Rightarrow> json_syntaxError
      | Some v \<Rightarrow> unicodeLoop n (result * 16 + v) s)"

definition parseUnicodeEscape :: "octet list \<Rightarrow> (nat \<times> octet list) result" where
  "parseUnicodeEscape s = unicodeLoop 4 0 s"

lemma unicodeLoop_length: "unicodeLoop n r s = Inr (u, s') \<Longrightarrow> length s' \<le> length s"
  by (induction n r s rule: unicodeLoop.induct) (auto simp: endOfFile_def json_syntaxError_def split: option.splits)

text \<open>The simple escapes: what the character after a backslash stands for.\<close>

definition simpleEscape :: "octet \<Rightarrow> octet option" where
  "simpleEscape c =
     (if c = CHR 0x22 then Some (CHR 0x22)
      else if c = CHR 0x27 then Some (CHR 0x27)
      else if c = CHR 0x5C then Some (CHR 0x5C)
      else if c = CHR ''/'' then Some (CHR ''/'')
      else if c = CHR ''b'' then Some (CHR 0x08)
      else if c = CHR ''f'' then Some (CHR 0x0C)
      else if c = CHR ''n'' then Some (CHR 0x0A)
      else if c = CHR ''r'' then Some (CHR 0x0D)
      else if c = CHR ''t'' then Some (CHR 0x09)
      else None)"

function stringLoop :: "string \<Rightarrow> octet list \<Rightarrow> (string \<times> octet list) result" where
  "stringLoop val [] = endOfFile"
| "stringLoop val (c # s) =
     (if c = CHR 0x22 then Inr (val, s)
      else if c = CHR 0x5C then
        (case s of
           [] \<Rightarrow> endOfFile
         | e # s \<Rightarrow>
             (case simpleEscape e of
                Some x \<Rightarrow> stringLoop (val @ [x]) s
              | None \<Rightarrow>
                  if e = CHR ''u''
                  then rbind (parseUnicodeEscape s) (\<lambda>us. stringLoop (Utf8_append {} val (fst us)) (snd us))
                  else json_syntaxError))
      else if of_char c < (0x20 :: nat) then json_syntaxError
      else stringLoop (val @ [c]) s)"
  by pat_completeness auto
termination
  by (relation "measure (\<lambda>(val, s). length s)")
    (auto simp: parseUnicodeEscape_def dest!: unicodeLoop_length)

text \<open>Upon entry, the stream is at the opening quote.\<close>

definition parseString :: "octet list \<Rightarrow> (string \<times> octet list) result" where
  "parseString s = stringLoop [] (drop 1 s)"

definition isNumberChar :: "octet \<Rightarrow> bool" where
  "isNumberChar c \<longleftrightarrow> c = CHR ''+'' \<or> c = CHR ''-'' \<or> c = CHR ''.'' \<or> c = CHR ''e'' \<or> c = CHR ''E'' \<or> charIsDigit c"

definition parseNumber :: "(string \<Rightarrow> 'f option) \<Rightarrow> octet list \<Rightarrow> ('f Value option \<times> octet list) result" where
  "parseNumber toFloat s =
     (let str = takeWhile isNumberChar s; s = dropWhile isNumberChar s
      in case strToInteger str of
           Some iv \<Rightarrow> Inr (Some (IntegerValue iv), s)
         | None \<Rightarrow>
             (case toFloat str of
                Some fv \<Rightarrow> Inr (Some (FloatValue fv), s)
              | None \<Rightarrow> json_syntaxError))"

fun parse :: "nat \<Rightarrow> (string \<Rightarrow> 'f option) \<Rightarrow> octet list \<Rightarrow> ('f Value option \<times> octet list) result option"
  and arrayLoop :: "nat \<Rightarrow> (string \<Rightarrow> 'f option) \<Rightarrow> 'f segment \<Rightarrow> octet list \<Rightarrow> ('f segment \<times> octet list) result option"
  and hashLoop :: "nat \<Rightarrow> (string \<Rightarrow> 'f option) \<Rightarrow> name_map \<times> 'f segment \<Rightarrow> octet list \<Rightarrow>
    ((name_map \<times> 'f segment) \<times> octet list) result option" where
  "parse 0 toFloat s = None"
| "parse (Suc fuel) toFloat s =
     (case skipWhitespace s of
        [] \<Rightarrow> Some endOfFile
      | c # s1 \<Rightarrow>
          if c = CHR ''['' then
            (let s = skipWhitespace s1
             in case s of
                  [] \<Rightarrow> Some endOfFile
                | c # s2 \<Rightarrow>
                    if c = CHR '']'' then Some (Inr (Some (VectorValue []), s2))
                    else map_option (\<lambda>r. rbind r (\<lambda>(vals, s). Inr (Some (VectorValue vals), s)))
                           (arrayLoop fuel toFloat [] s))
          else if c = CHR ''{'' then
            (let s = skipWhitespace s1
             in case s of
                  [] \<Rightarrow> Some endOfFile
                | c # s2 \<Rightarrow>
                    if c = CHR ''}'' then Some (Inr (Some (HashValue NameMap_init []), s2))
                    else map_option (\<lambda>r. rbind r (\<lambda>((names, vals), s). Inr (Some (HashValue names vals), s)))
                           (hashLoop fuel toFloat (NameMap_init, []) s))
          else if c = CHR 0x22 then
            Some (rbind (parseString (c # s1)) (\<lambda>(str, s). Inr (Some (StringValue str), s)))
          else if c = CHR ''n'' then Some (rbind (parseKeyword ''null'' (c # s1)) (\<lambda>s. Inr (None, s)))
          else if c = CHR ''t'' then
            Some (rbind (parseKeyword ''true'' (c # s1)) (\<lambda>s. Inr (Some (BooleanValue True), s)))
          else if c = CHR ''f'' then
            Some (rbind (parseKeyword ''false'' (c # s1)) (\<lambda>s. Inr (Some (BooleanValue False), s)))
          else if c = CHR ''-'' \<or> charIsDigit c then Some (parseNumber toFloat (c # s1))
          else Some json_syntaxError)"
| "arrayLoop 0 toFloat vals s = None"
| "arrayLoop (Suc fuel) toFloat vals s =
     (case parse fuel toFloat s of
        None \<Rightarrow> None
      | Some (Inl e) \<Rightarrow> Some (Inl e)
      | Some (Inr (v, s)) \<Rightarrow>
          (let vals = pushBackNew v vals; s = skipWhitespace s
           in case parseChar2 (CHR '','') (CHR '']'') s of
                Inl e \<Rightarrow> Some (Inl e)
              | Inr True \<Rightarrow> arrayLoop fuel toFloat vals (drop 1 s)
              | Inr False \<Rightarrow> Some (Inr (vals, drop 1 s))))"
| "hashLoop 0 toFloat h s = None"
| "hashLoop (Suc fuel) toFloat h s =
     (case rbind (parseChar1 (CHR 0x22) s) (\<lambda>_. parseString s) of
        Inl e \<Rightarrow> Some (Inl e)
      | Inr (name, s) \<Rightarrow>
          (case addMaybe name (fst h) of (index, names) \<Rightarrow>
           (let s = skipWhitespace s
            in case parseChar1 (CHR '':'') s of
                 Inl e \<Rightarrow> Some (Inl e)
               | Inr _ \<Rightarrow>
                   (case parse fuel toFloat (drop 1 s) of
                      None \<Rightarrow> None
                    | Some (Inl e) \<Rightarrow> Some (Inl e)
                    | Some (Inr (v, s)) \<Rightarrow>
                        (let h = (names, setNew index v (snd h)); s = skipWhitespace s
                         in case parseChar2 (CHR '','') (CHR ''}'') s of
                              Inl e \<Rightarrow> Some (Inl e)
                            | Inr True \<Rightarrow> hashLoop fuel toFloat h (skipWhitespace (drop 1 s))
                            | Inr False \<Rightarrow> Some (Inr (h, drop 1 s)))))))"

definition json_fuel :: "octet list \<Rightarrow> nat" where
  "json_fuel s = 2 * length s + 2"

definition parseComplete :: "(string \<Rightarrow> 'f option) \<Rightarrow> octet list \<Rightarrow> 'f Value option result option" where
  "parseComplete toFloat s =
     map_option (\<lambda>r. rbind r (\<lambda>(v, s). if skipWhitespace s \<noteq> [] then json_syntaxError else Inr v))
       (parse (json_fuel s) toFloat s)"

section \<open>Writer\<close>

record json_writer =
  m_lineLength :: nat
  m_indentStep :: nat
  m_currentLineLength :: nat
  m_currentIndentLevel :: nat
  m_currentAllowNewline :: bool

datatype write_flag = NewlineBefore | NewlineAfter | UndentBefore | IndentAfter

definition Writer_init :: json_writer where
  "Writer_init = \<lparr>m_lineLength = 0, m_indentStep = 0, m_currentLineLength = 0, m_currentIndentLevel = 0,
     m_currentAllowNewline = False\<rparr>"

definition setLineLength :: "nat \<Rightarrow> json_writer \<Rightarrow> json_writer" where
  "setLineLength n w = w\<lparr>m_lineLength := n\<rparr>"

definition setIndentStep :: "nat \<Rightarrow> json_writer \<Rightarrow> json_writer" where
  "setIndentStep n w = w\<lparr>m_indentStep := n\<rparr>"

text \<open>\<open>write\<close> gives the octets that go to the sink and the new state.\<close>

definition json_write :: "string \<Rightarrow> write_flag set \<Rightarrow> json_writer \<Rightarrow> octet list \<times> json_writer" where
  "json_write str flags w =
     (let w = (if UndentBefore \<in> flags then w\<lparr>m_currentIndentLevel := m_currentIndentLevel w - m_indentStep w\<rparr> else w);
          nl = (NewlineBefore \<in> flags \<or> m_currentAllowNewline w)
             \<and> (m_indentStep w > 0 \<or> (m_lineLength w \<noteq> 0 \<and> m_currentLineLength w + length str > m_lineLength w));
          out = (if nl then CHR 0x0A # replicate (m_currentIndentLevel w) (CHR '' '') else []);
          w = (if nl then w\<lparr>m_currentLineLength := m_currentIndentLevel w\<rparr> else w);
          w = w\<lparr>m_currentLineLength := m_currentLineLength w + length str\<rparr>;
          w = (if IndentAfter \<in> flags then w\<lparr>m_currentIndentLevel := m_currentIndentLevel w + m_indentStep w\<rparr> else w)
      in (out @ str, w\<lparr>m_currentAllowNewline := NewlineAfter \<in> flags\<rparr>))"

definition quoteChar :: "octet \<Rightarrow> string" where
  "quoteChar ch =
     (if ch = CHR 0x5C then [CHR 0x5C, CHR 0x5C]
      else if ch = CHR 0x22 then [CHR 0x5C, CHR 0x22]
      else if of_char ch \<ge> (32 :: nat) then [ch]
      else if ch = CHR 0x0A then [CHR 0x5C, CHR ''n'']
      else if ch = CHR 0x0D then [CHR 0x5C, CHR ''r'']
      else if ch = CHR 0x08 then [CHR 0x5C, CHR ''b'']
      else if ch = CHR 0x09 then [CHR 0x5C, CHR ''t'']
      else if ch = CHR 0x0C then [CHR 0x5C, CHR ''f'']
      else Format (CHR 0x5C # ''u%04X'') [FormatUnsigned_format (of_char ch)])"

definition quoteString :: "string \<Rightarrow> string" where
  "quoteString str = CHR 0x22 # concat (map quoteChar str) @ [CHR 0x22]"

definition json_visitString :: "string \<Rightarrow> json_writer \<Rightarrow> octet list \<times> json_writer" where
  "json_visitString str w = json_write (quoteString str) {} w"

definition json_visitNull :: "json_writer \<Rightarrow> octet list \<times> json_writer" where
  "json_visitNull w = json_write ''null'' {} w"

text \<open>One after the other.\<close>

definition andThen :: "('w \<Rightarrow> 'o list \<times> 'w) \<Rightarrow> ('w \<Rightarrow> 'o list \<times> 'w) \<Rightarrow> 'w \<Rightarrow> 'o list \<times> 'w" where
  "andThen f g w = (case f w of (out1, w) \<Rightarrow> case g w of (out2, w) \<Rightarrow> (out1 @ out2, w))"

fun json_visit :: "'f platform \<Rightarrow> 'f Value \<Rightarrow> json_writer \<Rightarrow> octet list \<times> json_writer"
  and json_elements :: "'f platform \<Rightarrow> bool \<Rightarrow> 'f segment \<Rightarrow> json_writer \<Rightarrow> octet list \<times> json_writer"
  and json_fields :: "'f platform \<Rightarrow> bool \<Rightarrow> string list \<Rightarrow> 'f segment \<Rightarrow> json_writer \<Rightarrow> octet list \<times> json_writer" where
  "json_visit pf (StringValue str) = json_visitString str"
| "json_visit pf (IntegerValue iv) = json_write (Format ''%d'' [FormatSigned_format iv]) {}"
| "json_visit pf (FloatValue fv) = json_write (formatFloat pf fv) {}"
| "json_visit pf (BooleanValue bv) = json_write (if bv then ''true'' else ''false'') {}"
| "json_visit pf (HashValue keys vals) =
     andThen (json_write ''{'' {NewlineAfter, IndentAfter})
       (andThen (json_fields pf True (m_names keys) vals) (json_write ''}'' {NewlineBefore, UndentBefore}))"
| "json_visit pf (VectorValue vv) =
     andThen (json_write ''['' {NewlineAfter, IndentAfter})
       (andThen (json_elements pf True vv) (json_write '']'' {NewlineBefore, UndentBefore}))"
| "json_visit pf (ErrorValue source str) = json_visitNull"
| "json_visit pf OtherValue = json_visitNull"
| "json_elements pf first [] = (\<lambda>w. ([], w))"
| "json_elements pf first (None # vs) =
     andThen (if first then (\<lambda>w. ([], w)) else json_write '','' {NewlineAfter})
       (andThen json_visitNull (json_elements pf False vs))"
| "json_elements pf first (Some v # vs) =
     andThen (if first then (\<lambda>w. ([], w)) else json_write '','' {NewlineAfter})
       (andThen (json_visit pf v) (json_elements pf False vs))"
| "json_fields pf first [] vals = (\<lambda>w. ([], w))"
| "json_fields pf first (name # names) [] =
     andThen (if first then (\<lambda>w. ([], w)) else json_write '','' {NewlineAfter})
       (andThen (json_visitString name) (andThen (json_write '':'' {})
         (andThen json_visitNull (json_fields pf False names []))))"
| "json_fields pf first (name # names) (None # vs) =
     andThen (if first then (\<lambda>w. ([], w)) else json_write '','' {NewlineAfter})
       (andThen (json_visitString name) (andThen (json_write '':'' {})
         (andThen json_visitNull (json_fields pf False names vs))))"
| "json_fields pf first (name # names) (Some v # vs) =
     andThen (if first then (\<lambda>w. ([], w)) else json_write '','' {NewlineAfter})
       (andThen (json_visitString name) (andThen (json_write '':'' {})
         (andThen (json_visit pf v) (json_fields pf False names vs))))"

section \<open>The parser always finishes\<close>

lemmas json_errors = endOfFile_def json_syntaxError_def

lemma skipWhitespace_length: "length (skipWhitespace s) \<le> length s"
  by (simp add: skipWhitespace_def length_dropWhile_le)

lemma skipWhitespace_Cons: "skipWhitespace s = c # s' \<Longrightarrow> length s' < length s"
  using skipWhitespace_length [of s] by simp

lemma stringLoop_shrinks: "rall (\<lambda>(str, s'). length s' < length s) (stringLoop val s)"
proof (induction val s rule: stringLoop.induct)
  case (2 val c s)
  show ?case
  proof (cases "c = CHR 0x5C")
    case False
    have "rall (\<lambda>(str, s'). length s' < length (c # s)) (stringLoop (val @ [c]) s)"
      if "c \<noteq> CHR 0x22" "\<not> of_char c < (0x20 :: nat)"
      using "2.IH"(3) [OF that(1) False that(2)] by (auto simp: rall_def)
    with False show ?thesis by (auto simp: rall_def json_errors)
  next
    case True
    show ?thesis
    proof (cases s)
      case Nil
      with True show ?thesis by (simp add: rall_def json_errors)
    next
      case (Cons e s1)
      have "rall (\<lambda>(str, s'). length s' < length (c # s)) (stringLoop (val @ [x]) s1)"
        if "simpleEscape e = Some x" for x
        using "2.IH"(2) [OF _ True Cons that] True Cons by (auto simp: rall_def)
      moreover have "rall (\<lambda>(str, s'). length s' < length (c # s))
          (stringLoop (Utf8_append {} val (fst us)) (snd us))"
        if "simpleEscape e = None" "e = CHR ''u''" "parseUnicodeEscape s1 = Inr us" for us
        using "2.IH"(1) [OF _ True Cons that] True Cons that(3) unicodeLoop_length [of 4 0 s1 "fst us" "snd us"]
        by (fastforce simp: rall_def parseUnicodeEscape_def)
      ultimately show ?thesis using True Cons
        by (auto simp: json_errors rall_Inl intro!: rall_rbind split: option.split)
    qed
  qed
qed (simp add: json_errors rall_Inl)

lemma stringLoop_length: "stringLoop val s = Inr (str, s') \<Longrightarrow> length s' < length s"
  using stringLoop_shrinks [of s val] by (simp add: rall_def)

lemma parseString_length: "parseString s = Inr (str, s') \<Longrightarrow> length s' < length s"
  using stringLoop_length [of "[]" "drop 1 s" str s'] by (simp add: parseString_def)

lemma keywordLoop_length: "keywordLoop kw s = Inr s' \<Longrightarrow> length s = length kw + length s'"
  by (induction kw s rule: keywordLoop.induct) (auto simp: json_errors split: if_splits)

lemma parseKeyword_length: "parseKeyword kw s = Inr s' \<Longrightarrow> length s = length kw + length s'"
  by (cases "keywordLoop kw s") (auto simp: parseKeyword_def json_errors dest!: keywordLoop_length split: list.splits if_splits)

lemma parseNumber_length:
  "parseNumber toFloat (c # s) = Inr (v, s') \<Longrightarrow> c = CHR ''-'' \<or> charIsDigit c \<Longrightarrow> length s' \<le> length s"
  by (auto simp: parseNumber_def Let_def json_errors isNumberChar_def length_dropWhile_le
      split: option.splits)

lemma parseChar2_eq:
  "parseChar2 a b s = Inr x \<Longrightarrow> \<exists>c s'. s = c # s' \<and> (c = a \<and> x \<or> c = b \<and> \<not> x)"
  by (auto simp: parseChar2_def json_errors split: list.splits if_splits)

lemma parseChar1_eq: "parseChar1 a s = Inr x \<Longrightarrow> \<exists>s'. s = a # s'"
  by (auto simp: parseChar1_def json_errors split: list.splits if_splits)

text \<open>
  A run that has an outcome, and that leaves fewer than \<open>n\<close> octets when it succeeds.
\<close>

definition settles :: "nat \<Rightarrow> ('a \<times> octet list) result option \<Rightarrow> bool" where
  "settles n x \<longleftrightarrow> (\<exists>r. x = Some r \<and> rall (\<lambda>(v, s). length s < n) r)"

lemma settles_error: "settles n (Some (Inl e))" "settles n (Some endOfFile)" "settles n (Some json_syntaxError)"
  by (simp_all add: settles_def rall_Inl json_errors)

lemma settles_value: "length s < n \<Longrightarrow> settles n (Some (Inr (v, s)))"
  by (simp add: settles_def rall_Inr)

lemma settles_result: "(\<And>v s. r = Inr (v, s) \<Longrightarrow> length s < n) \<Longrightarrow> settles n (Some r)"
  by (auto simp: settles_def rall_def)

lemma settles_if: "(b \<Longrightarrow> settles n x) \<Longrightarrow> (\<not> b \<Longrightarrow> settles n y) \<Longrightarrow> settles n (if b then x else y)"
  by simp

lemma settles_list:
  "(xs = [] \<Longrightarrow> settles n x) \<Longrightarrow> (\<And>y ys. xs = y # ys \<Longrightarrow> settles n (f y ys)) \<Longrightarrow>
   settles n (case xs of [] \<Rightarrow> x | y # ys \<Rightarrow> f y ys)"
  by (cases xs) simp_all

lemma settles_map:
  "settles m x \<Longrightarrow> m \<le> n \<Longrightarrow> settles n (map_option (\<lambda>r. rbind r (\<lambda>(v, s). Inr (g v, s))) x)"
  by (auto simp: settles_def rall_def rbind_eq_Inr)

lemma settles_map_pair:
  "settles m x \<Longrightarrow> m \<le> n \<Longrightarrow> settles n (map_option (\<lambda>r. rbind r (\<lambda>((v, w), s). Inr (g v w, s))) x)"
  by (auto simp: settles_def rall_def rbind_eq_Inr)

lemma settles_cases:
  assumes "settles n x"
  obtains e where "x = Some (Inl e)" | v s where "x = Some (Inr (v, s))" "length s < n"
  using assms by (auto simp: settles_def rall_def) (metis sum.exhaust prod.exhaust)

lemmas settles_rules = settles_error settles_value settles_if settles_list

lemma parse_settles:
  assumes "\<And>vals s. 2 * length s + 2 \<le> n \<Longrightarrow> settles (length s) (arrayLoop n toFloat vals s)"
    "\<And>h s. 2 * length s + 2 \<le> n \<Longrightarrow> settles (length s) (hashLoop n toFloat h s)"
    "2 * length s \<le> n"
  shows "settles (length s) (parse (Suc n) toFloat s)"
proof (cases "skipWhitespace s")
  case Nil
  then show ?thesis by (simp add: settles_rules)
next
  case (Cons c s1)
  have len: "length s1 < length s" "length (skipWhitespace s1) \<le> length s1"
    using skipWhitespace_Cons [OF Cons] skipWhitespace_length by auto
  have skip: "length s3 < length s" if "skipWhitespace s1 = c' # s3" for c' s3
    using skipWhitespace_Cons [OF that] len by simp
  have leaf: "settles (length s) (Some (rbind (parseString (c # s1)) (\<lambda>(str, s). Inr (f str, s))))"
    "settles (length s) (Some (rbind (parseKeyword (k # kw) (c # s1)) (\<lambda>s. Inr (v, s))))"
    "c = CHR ''-'' \<or> charIsDigit c \<Longrightarrow> settles (length s) (Some (parseNumber toFloat (c # s1)))"
    for f :: "string \<Rightarrow> 'a Value option" and k kw and v :: "'a Value option"
    using len by (auto intro!: settles_result simp: rbind_eq_Inr
        dest!: parseString_length parseKeyword_length parseNumber_length)
  have "2 * length (skipWhitespace s1) + 2 \<le> n" using assms(3) len by simp
  note loops = assms(1) [OF this] assms(2) [OF this]
  have "length (skipWhitespace s1) \<le> length s" using len by simp
  note loops = settles_map [OF loops(1) this] settles_map_pair [OF loops(2) this]
  show ?thesis
    unfolding parse.simps Cons list.case Let_def
    by (intro settles_if settles_list settles_error loops settles_value leaf skip; simp)
qed

lemma arrayLoop_settles:
  assumes "\<And>s. 2 * length s + 1 \<le> n \<Longrightarrow> settles (length s) (parse n toFloat s)"
    "\<And>vals s. 2 * length s + 2 \<le> n \<Longrightarrow> settles (length s) (arrayLoop n toFloat vals s)"
    "2 * length s + 1 \<le> n"
  shows "settles (length s) (arrayLoop (Suc n) toFloat vals s)"
  using assms(1) [OF assms(3)]
proof (cases rule: settles_cases)
  case (2 v s1)
  show ?thesis
  proof (cases "parseChar2 (CHR '','') (CHR '']'') (skipWhitespace s1)")
    case (Inr more)
    then obtain c s2 where s2: "skipWhitespace s1 = c # s2" by (auto dest: parseChar2_eq)
    then have len: "length s2 < length s1" by (rule skipWhitespace_Cons)
    then have "settles (length s2) (arrayLoop n toFloat (pushBackNew v vals) s2)"
      using 2 assms(3) by (intro assms(2)) simp
    then have "settles (length s) (arrayLoop n toFloat (pushBackNew v vals) s2)"
      using 2 len by (auto simp: settles_def rall_def)
    with 2 Inr s2 len show ?thesis by (cases more) (simp_all add: Let_def settles_value)
  qed (simp add: 2 Let_def settles_error)
qed (simp add: settles_error)

lemma hashLoop_settles:
  assumes "\<And>s. 2 * length s + 1 \<le> n \<Longrightarrow> settles (length s) (parse n toFloat s)"
    "\<And>h s. 2 * length s + 2 \<le> n \<Longrightarrow> settles (length s) (hashLoop n toFloat h s)"
    "2 * length s + 1 \<le> n"
  shows "settles (length s) (hashLoop (Suc n) toFloat h s)"
proof (cases "rbind (parseChar1 (CHR 0x22) s) (\<lambda>_. parseString s)")
  case (Inr name_s1)
  obtain name s1 where s1: "name_s1 = (name, s1)" by fastforce
  then have len1: "length s1 < length s" using Inr by (auto simp: rbind_eq_Inr dest!: parseString_length)
  obtain index names where idx: "addMaybe name (fst h) = (index, names)" by fastforce
  show ?thesis
  proof (cases "parseChar1 (CHR '':'') (skipWhitespace s1)")
    case colon: (Inr u)
    then obtain s2 where s2: "skipWhitespace s1 = CHR '':'' # s2" by (auto dest: parseChar1_eq)
    then have len2: "length s2 < length s1" by (rule skipWhitespace_Cons)
    then have "2 * length s2 + 1 \<le> n" using len1 assms(3) by simp
    from assms(1) [OF this] show ?thesis
    proof (cases rule: settles_cases)
      case (2 v s3)
      show ?thesis
      proof (cases "parseChar2 (CHR '','') (CHR ''}'') (skipWhitespace s3)")
        case more: (Inr more)
        then obtain c s4 where s4: "skipWhitespace s3 = c # s4" by (auto dest: parseChar2_eq)
        then have len4: "length s4 < length s3" by (rule skipWhitespace_Cons)
        have len5: "length (skipWhitespace s4) \<le> length s4" by (rule skipWhitespace_length)
        let ?loop = "hashLoop n toFloat (names, setNew index v (snd h)) (skipWhitespace s4)"
        have "settles (length (skipWhitespace s4)) ?loop"
          using 2 len1 len2 len4 len5 assms(3) by (intro assms(2)) simp
        then have "settles (length s) ?loop"
          using 2 len1 len2 len4 len5 by (auto simp: settles_def rall_def)
        with 2 Inr s1 idx s2 colon more s4 len1 len2 len4 show ?thesis
          by (cases more) (simp_all add: Let_def settles_value)
      qed (simp add: 2 Inr s1 idx s2 colon [unfolded s2] Let_def settles_error)
    qed (simp add: Inr s1 idx s2 colon [unfolded s2] Let_def settles_error)
  qed (simp add: Inr s1 idx Let_def settles_error)
qed (simp add: settles_error)

lemma json_fuel_enough:
  "(\<forall>s. 2 * length s + 1 \<le> n \<longrightarrow> settles (length s) (parse n toFloat s)) \<and>
   (\<forall>vals s. 2 * length s + 2 \<le> n \<longrightarrow> settles (length s) (arrayLoop n toFloat vals s)) \<and>
   (\<forall>h s. 2 * length s + 2 \<le> n \<longrightarrow> settles (length s) (hashLoop n toFloat h s))"
proof (induction n)
  case (Suc n)
  then show ?case
    by (auto simp del: parse.simps arrayLoop.simps hashLoop.simps
        intro!: parse_settles arrayLoop_settles hashLoop_settles)
qed simp

text \<open>
  C29: The parser returns on every input, however long or deeply nested: it gives a value or throws
  one of its exceptions, end of file or syntax error.
\<close>

theorem parseComplete_returns: "\<exists>r. parseComplete toFloat s = Some r"
  using json_fuel_enough [of "json_fuel s" toFloat, THEN conjunct1, rule_format, of s]
  by (auto simp: parseComplete_def json_fuel_def settles_def)

section \<open>Strings\<close>

lemma hex_digits:
  assumes "n < 256"
  shows "Format (CHR 0x5C # ''u%04X'') [FormatUnsigned_format n] =
    CHR 0x5C # ''u00'' @ [HEX_DIGITS_UPPER ! (n div 16), HEX_DIGITS_UPPER ! (n mod 16)]"
proof -
  let ?v = "formatUnsigned n CHR ''X''"
  have len: "length ?v < 4 \<and> replicate (4 - length ?v) CHR ''0'' @ ?v =
    ''00'' @ [HEX_DIGITS_UPPER ! (n div 16), HEX_DIGITS_UPPER ! (n mod 16)]"
  proof (cases "n < 16")
    case True
    then have "n = 0 \<or> formatDigits CHR ''X'' n [] = [HEX_DIGITS_UPPER ! n] \<and> n \<noteq> 0"
      by (subst formatDigits.simps) (auto simp: formatBase_def formatDigits.simps [of _ 0])
    with True show ?thesis
      by (auto simp: formatUnsigned_def Let_def formatDigits.simps [of _ 0] HEX_DIGITS_UPPER_def numeral_3_eq_3)
  next
    case False
    then have "formatDigits CHR ''X'' n [] = [HEX_DIGITS_UPPER ! (n div 16), HEX_DIGITS_UPPER ! (n mod 16)]"
      using assms by (subst formatDigits.simps, subst formatDigits.simps)
        (simp add: formatBase_def formatDigits.simps [of _ 0] div_eq_0_iff)
    then show ?thesis by (simp add: formatUnsigned_def numeral_2_eq_2)
  qed
  have "Format (CHR 0x5C # ''u%04X'') [FormatUnsigned_format n] =
      CHR 0x5C # CHR ''u'' # replicate (4 - length ?v) CHR ''0'' @ ?v"
    using len by (simp add: format_eval FormatUnsigned_format_def Let_def size_mod_def)
  with len show ?thesis by simp
qed

lemma hexValue_digit: "d < 16 \<Longrightarrow> hexValue (HEX_DIGITS_UPPER ! d) = Some d"
proof -
  have "list_all (\<lambda>d. hexValue (HEX_DIGITS_UPPER ! d) = Some d) [0..<16]" by code_simp
  then show "d < 16 \<Longrightarrow> hexValue (HEX_DIGITS_UPPER ! d) = Some d" by (simp add: list_all_iff)
qed

lemma parseUnicodeEscape_digits:
  assumes "n < 256"
  shows "parseUnicodeEscape (CHR ''0'' # CHR ''0'' # HEX_DIGITS_UPPER ! (n div 16) # HEX_DIGITS_UPPER ! (n mod 16) # s) = Inr (n, s)"
proof -
  have four: "(4 :: nat) = Suc (Suc (Suc (Suc 0)))" by simp
  have zero: "hexValue CHR ''0'' = Some 0" by (simp add: hexValue_def)
  have "hexValue (HEX_DIGITS_UPPER ! (n div 16)) = Some (n div 16)"
    "hexValue (HEX_DIGITS_UPPER ! (n mod 16)) = Some (n mod 16)"
    using assms by (simp_all add: hexValue_digit)
  then show ?thesis unfolding parseUnicodeEscape_def four by (simp add: zero)
qed

lemma quoteChar_cases:
  obtains "quoteChar c = [c]" "c \<noteq> CHR 0x5C" "c \<noteq> CHR 0x22" "32 \<le> (of_char c :: nat)"
  | e where "quoteChar c = [CHR 0x5C, e]" "simpleEscape e = Some c"
  | "quoteChar c = CHR 0x5C # CHR ''u'' # CHR ''0'' # CHR ''0''
      # HEX_DIGITS_UPPER ! (of_char c div 16) # [HEX_DIGITS_UPPER ! (of_char c mod 16)]"
    "(of_char c :: nat) < 128"
proof (cases "quoteChar c = Format (CHR 0x5C # ''u%04X'') [FormatUnsigned_format (of_char c)] \<and> of_char c < (32 :: nat)")
  case True
  then show thesis using that(3) hex_digits [of "of_char c"] by simp
next
  case False
  have "simpleEscape CHR ''n'' = Some (CHR 0x0A)" "simpleEscape CHR ''r'' = Some (CHR 0x0D)"
    "simpleEscape CHR ''b'' = Some (CHR 0x08)" "simpleEscape CHR ''t'' = Some (CHR 0x09)"
    "simpleEscape CHR ''f'' = Some (CHR 0x0C)" "simpleEscape CHR 0x5C = Some (CHR 0x5C)"
    "simpleEscape CHR 0x22 = Some (CHR 0x22)"
    by (simp_all add: simpleEscape_def)
  with False show thesis using that(1,2) by (simp add: quoteChar_def split: if_splits)
qed

lemma Utf8_append_ascii: "(of_char c :: nat) < 128 \<Longrightarrow> Utf8_append {} val (of_char c) = val @ [c]"
  by (simp add: Utf8_append_def byte_def)

lemma stringLoop_quoteChar: "stringLoop val (quoteChar c @ s) = stringLoop (val @ [c]) s"
proof (cases rule: quoteChar_cases [of c])
  case 3
  have "simpleEscape CHR ''u'' = None" by (simp add: simpleEscape_def)
  with 3 show ?thesis by (simp add: parseUnicodeEscape_digits Utf8_append_ascii)
qed simp_all

lemma stringLoop_quoted: "stringLoop val (concat (map quoteChar str) @ CHR 0x22 # s) = Inr (val @ str, s)"
  by (induction str arbitrary: val) (simp_all add: stringLoop_quoteChar del: stringLoop.simps(2), simp)

lemma parseString_quoteString: "parseString (quoteString str @ s) = Inr (str, s)"
  by (simp add: parseString_def quoteString_def stringLoop_quoted)

section \<open>Writing and parsing\<close>

text \<open>
  What is read back of a value: what JSON cannot express becomes null, and a float is read as the
  text it was written as, which may be that of an integer.
\<close>

fun reread :: "'f platform \<Rightarrow> (string \<Rightarrow> 'f option) \<Rightarrow> 'f Value \<Rightarrow> 'f Value option"
  and rereadSegment :: "'f platform \<Rightarrow> (string \<Rightarrow> 'f option) \<Rightarrow> 'f segment \<Rightarrow> 'f segment" where
  "reread pf toFloat (FloatValue fv) =
     (case strToInteger (formatFloat pf fv) of
        Some iv \<Rightarrow> Some (IntegerValue iv)
      | None \<Rightarrow> map_option FloatValue (toFloat (formatFloat pf fv)))"
| "reread pf toFloat (HashValue keys vals) = Some (HashValue keys (rereadSegment pf toFloat vals))"
| "reread pf toFloat (VectorValue vals) = Some (VectorValue (rereadSegment pf toFloat vals))"
| "reread pf toFloat (ErrorValue source str) = None"
| "reread pf toFloat OtherValue = None"
| "reread pf toFloat (StringValue str) = Some (StringValue str)"
| "reread pf toFloat (IntegerValue iv) = Some (IntegerValue iv)"
| "reread pf toFloat (BooleanValue bv) = Some (BooleanValue bv)"
| "rereadSegment pf toFloat [] = []"
| "rereadSegment pf toFloat (None # vs) = None # rereadSegment pf toFloat vs"
| "rereadSegment pf toFloat (Some v # vs) = reread pf toFloat v # rereadSegment pf toFloat vs"

text \<open>
  The values whose text is JSON: integers within their type, hashes as their operations build
  them, and floats that the platform writes as a number (not infinity or NaN) and can read.
\<close>

definition float_ok :: "(string \<Rightarrow> 'f option) \<Rightarrow> string \<Rightarrow> bool" where
  "float_ok toFloat str \<longleftrightarrow> str \<noteq> [] \<and> (hd str = CHR ''-'' \<or> charIsDigit (hd str)) \<and> list_all isNumberChar str
     \<and> (strToInteger str = None \<longrightarrow> toFloat str \<noteq> None)"

fun readable :: "'f platform \<Rightarrow> (string \<Rightarrow> 'f option) \<Rightarrow> 'f Value \<Rightarrow> bool"
  and readableSegment :: "'f platform \<Rightarrow> (string \<Rightarrow> 'f option) \<Rightarrow> 'f segment \<Rightarrow> bool" where
  "readable pf toFloat (FloatValue fv) = float_ok toFloat (formatFloat pf fv)"
| "readable pf toFloat (HashValue keys vals) = (hash_wf (keys, vals) \<and> readableSegment pf toFloat vals)"
| "readable pf toFloat (VectorValue vals) = readableSegment pf toFloat vals"
| "readable pf toFloat (IntegerValue iv) = int32_ok iv"
| "readable pf toFloat (ErrorValue source str) = True"
| "readable pf toFloat OtherValue = True"
| "readable pf toFloat (StringValue str) = True"
| "readable pf toFloat (BooleanValue bv) = True"
| "readableSegment pf toFloat [] = True"
| "readableSegment pf toFloat (None # vs) = readableSegment pf toFloat vs"
| "readableSegment pf toFloat (Some v # vs) = (readable pf toFloat v \<and> readableSegment pf toFloat vs)"

text \<open>The character after a value must not continue it.\<close>

definition delimited :: "octet list \<Rightarrow> bool" where
  "delimited s \<longleftrightarrow> (case s of [] \<Rightarrow> True | c # _ \<Rightarrow> \<not> isIdentifierChar c \<and> \<not> isNumberChar c)"

lemma skip_ws: "list_all is_ws ws \<Longrightarrow> skipWhitespace (ws @ s) = skipWhitespace s"
  by (simp add: skipWhitespace_def list_all_iff dropWhile_append1 dropWhile_append2)

lemma skip_nothing: "\<not> is_ws c \<Longrightarrow> skipWhitespace (c # s) = c # s"
  by (simp add: skipWhitespace_def)

lemma skip_skip [simp]: "skipWhitespace (skipWhitespace s) = skipWhitespace s"
  by (simp add: skipWhitespace_def)

lemma ws_chars [simp]: "\<not> is_ws CHR ''[''" "\<not> is_ws CHR '']''" "\<not> is_ws CHR ''{''" "\<not> is_ws CHR ''}''"
  "\<not> is_ws CHR '',''" "\<not> is_ws CHR '':''" "\<not> is_ws CHR 0x22"
  by (simp_all add: is_ws_def)

lemma ws_delimits: "is_ws c \<Longrightarrow> delimited (c # s)"
  by (auto simp: is_ws_def delimited_def isIdentifierChar_def isNumberChar_def charIsDigit_def
      charIsLower_def charIsUpper_def)

lemma delimited_ws: "list_all is_ws ws \<Longrightarrow> delimited s \<Longrightarrow> delimited (ws @ s)"
  by (cases ws) (simp_all add: ws_delimits)

lemma delimited_comma: "delimited (CHR '','' # s)" "delimited (CHR '']'' # s)" "delimited (CHR ''}'' # s)"
  by (simp_all add: delimited_def isIdentifierChar_def isNumberChar_def charIsDigit_def
      charIsLower_def charIsUpper_def)

lemma parse_skip: "parse n toFloat (skipWhitespace s) = parse n toFloat s"
  by (cases n) simp_all

lemma arrayLoop_skip: "arrayLoop n toFloat vals (skipWhitespace s) = arrayLoop n toFloat vals s"
  by (cases n) (simp_all add: parse_skip)

lemma parse_ws: "list_all is_ws ws \<Longrightarrow> parse n toFloat (ws @ s) = parse n toFloat s"
  by (metis parse_skip skip_ws)

text \<open>The writer puts nothing but whitespace before a token.\<close>

lemma json_write_out: "\<exists>ws. list_all is_ws ws \<and> fst (json_write str flags w) = ws @ str"
  by (rule exI [of _ "take (length (fst (json_write str flags w)) - length str) (fst (json_write str flags w))"])
    (auto simp: json_write_def Let_def list_all_iff is_ws_def)

lemma andThen_out: "fst (andThen f g w) = fst (f w) @ fst (g (snd (f w)))"
  by (simp add: andThen_def split: prod.split)

lemma parse_array:
  assumes "arrayLoop n toFloat [] s = Some (Inr (vals, rest))"
  shows "parse (Suc n) toFloat (CHR ''['' # s) = Some (Inr (Some (VectorValue vals), rest))"
proof -
  obtain m where n: "n = Suc m" using assms by (cases n) auto
  have "skipWhitespace s \<noteq> [] \<and> hd (skipWhitespace s) \<noteq> CHR '']''"
  proof (rule ccontr)
    assume "\<not> ?thesis"
    then have "parse m toFloat s = None \<or> parse m toFloat s = Some endOfFile \<or> parse m toFloat s = Some json_syntaxError"
      by (cases m; cases "skipWhitespace s") (auto simp: charIsDigit_def)
    with assms n show False by (auto simp: json_errors)
  qed
  with assms show ?thesis
    by (cases "skipWhitespace s") (auto simp: skip_nothing Let_def arrayLoop_skip [of _ _ _ s, symmetric])
qed

lemma parse_hash:
  assumes "hashLoop n toFloat (NameMap_init, []) (skipWhitespace s) = Some (Inr ((names, vals), rest))"
  shows "parse (Suc n) toFloat (CHR ''{'' # s) = Some (Inr (Some (HashValue names vals), rest))"
proof -
  have "\<exists>s'. skipWhitespace s = CHR 0x22 # s'"
    using assms by (cases n; cases "parseChar1 CHR 0x22 (skipWhitespace s)") (auto dest: parseChar1_eq)
  with assms show ?thesis by (auto simp: skip_nothing Let_def)
qed

text \<open>Tokens.\<close>

lemma keyword_chars:
  "delimited rest \<Longrightarrow> parseKeyword ''null'' (''null'' @ rest) = Inr rest"
  "delimited rest \<Longrightarrow> parseKeyword ''true'' (''true'' @ rest) = Inr rest"
  "delimited rest \<Longrightarrow> parseKeyword ''false'' (''false'' @ rest) = Inr rest"
  by (cases rest; simp add: parseKeyword_def delimited_def)+

lemma parse_keywords:
  assumes "delimited rest"
  shows "parse (Suc n) toFloat (''null'' @ rest) = Some (Inr (None, rest))"
    "parse (Suc n) toFloat (''true'' @ rest) = Some (Inr (Some (BooleanValue True), rest))"
    "parse (Suc n) toFloat (''false'' @ rest) = Some (Inr (Some (BooleanValue False), rest))"
proof -
  have "\<not> is_ws CHR ''n''" "\<not> is_ws CHR ''t''" "\<not> is_ws CHR ''f''" by (simp_all add: is_ws_def)
  then show "parse (Suc n) toFloat (''null'' @ rest) = Some (Inr (None, rest))"
    "parse (Suc n) toFloat (''true'' @ rest) = Some (Inr (Some (BooleanValue True), rest))"
    "parse (Suc n) toFloat (''false'' @ rest) = Some (Inr (Some (BooleanValue False), rest))"
    using keyword_chars [OF assms] by (simp_all add: skip_nothing)
qed

lemma parse_string: "parse (Suc n) toFloat (quoteString str @ rest) = Some (Inr (Some (StringValue str), rest))"
  using parseString_quoteString [of str rest] by (simp add: quoteString_def skip_nothing)

lemma parse_number:
  assumes "str \<noteq> []" "hd str = CHR ''-'' \<or> charIsDigit (hd str)" "list_all isNumberChar str" "delimited rest"
  shows "parse (Suc n) toFloat (str @ rest) = Some
    (case strToInteger str of
       Some iv \<Rightarrow> Inr (Some (IntegerValue iv), rest)
     | None \<Rightarrow> (case toFloat str of Some fv \<Rightarrow> Inr (Some (FloatValue fv), rest) | None \<Rightarrow> json_syntaxError))"
proof -
  obtain c cs where c: "str = c # cs" "c = CHR ''-'' \<or> charIsDigit c" using assms(1,2) by (cases str) auto
  have "takeWhile isNumberChar (str @ rest) = str" "dropWhile isNumberChar (str @ rest) = rest"
    using assms(3,4)
    by (cases rest; simp add: takeWhile_append2 dropWhile_append2 list_all_iff delimited_def)+
  then have "parseNumber toFloat (str @ rest) =
      (case strToInteger str of
         Some iv \<Rightarrow> Inr (Some (IntegerValue iv), rest)
       | None \<Rightarrow> (case toFloat str of Some fv \<Rightarrow> Inr (Some (FloatValue fv), rest) | None \<Rightarrow> json_syntaxError))"
    by (simp add: parseNumber_def)
  moreover have "\<not> is_ws c" "c \<notin> {CHR ''['', CHR ''{'', CHR 0x22, CHR ''n'', CHR ''t'', CHR ''f''}"
    using c(2) by (auto simp: is_ws_def charIsDigit_def)
  ultimately show ?thesis using c by (simp add: skip_nothing)
qed

lemma dec_int_number: "dec_int i \<noteq> []" "hd (dec_int i) = CHR ''-'' \<or> charIsDigit (hd (dec_int i))" "list_all isNumberChar (dec_int i)"
proof -
  obtain c cs where "dec_nat (nat \<bar>i\<bar>) = c # cs" using dec_nat_digits(3) by (cases "dec_nat (nat \<bar>i\<bar>)") auto
  moreover have "list_all charIsDigit (dec_nat (nat \<bar>i\<bar>))" by (rule dec_nat_digits)
  ultimately show "dec_int i \<noteq> []" "hd (dec_int i) = CHR ''-'' \<or> charIsDigit (hd (dec_int i))"
    "list_all isNumberChar (dec_int i)"
    by (auto simp: dec_int_def isNumberChar_def list_all_iff)
qed

text \<open>Elements and fields; the text of one is followed by a comma and the others, or by the end.\<close>

lemma elements_comma:
  assumes "vs \<noteq> []"
  obtains ws w' where "list_all is_ws ws"
    "fst (json_elements pf False vs w) = ws @ '','' @ fst (json_elements pf True vs w')"
proof -
  obtain v vs' where vs: "vs = v # vs'" using assms by (cases vs) auto
  have "json_elements pf False vs = andThen (json_write '','' {NewlineAfter}) (json_elements pf True vs)"
    unfolding vs by (cases v) (simp_all add: andThen_def fun_eq_iff split: prod.split)
  with json_write_out [of "'',''" "{NewlineAfter}" w] that show thesis by (auto simp: andThen_out)
qed

lemma fields_comma:
  assumes "names \<noteq> []" "length vs = length names"
  obtains ws w' where "list_all is_ws ws"
    "fst (json_fields pf False names vs w) = ws @ '','' @ fst (json_fields pf True names vs w')"
proof -
  obtain name names' v vs' where vs: "names = name # names'" "vs = v # vs'"
    using assms by (cases names; cases vs) auto
  have "json_fields pf False names vs = andThen (json_write '','' {NewlineAfter}) (json_fields pf True names vs)"
    unfolding vs by (cases v) (simp_all add: andThen_def fun_eq_iff split: prod.split)
  with json_write_out [of "'',''" "{NewlineAfter}" w] that show thesis by (auto simp: andThen_out)
qed

lemma arrayLoop_step:
  assumes elem: "\<And>rest m. delimited rest \<Longrightarrow> 2 * length (out @ rest) + 1 \<le> m \<Longrightarrow>
      parse m toFloat (out @ rest) = Some (Inr (v, rest))"
    and others: "\<And>m vals w. vs \<noteq> [] \<Longrightarrow> 2 * length (fst (json_elements pf True vs w) @ tail) + 2 \<le> m \<Longrightarrow>
      arrayLoop m toFloat vals (fst (json_elements pf True vs w) @ tail) = Some (Inr (vals @ vs', rest))"
    and tail: "skipWhitespace tail = CHR '']'' # rest" "delimited tail" "vs = [] \<longrightarrow> vs' = []"
    and n: "2 * length (out @ fst (json_elements pf False vs w) @ tail) + 2 \<le> n"
  shows "arrayLoop n toFloat vals (out @ fst (json_elements pf False vs w) @ tail) = Some (Inr (vals @ v # vs', rest))"
proof -
  obtain m where m: "n = Suc m" using n by (cases n) auto
  show ?thesis
  proof (cases "vs = []")
    case True
    with elem [OF tail(2), of m] n m tail show ?thesis
      by (simp add: Let_def parseChar2_def pushBackNew_def)
  next
    case False
    then obtain ws w' where ws: "list_all is_ws ws"
      "fst (json_elements pf False vs w) = ws @ '','' @ fst (json_elements pf True vs w')" by (rule elements_comma)
    have "delimited (fst (json_elements pf False vs w) @ tail)" using ws by (simp add: delimited_ws delimited_comma)
    from elem [OF this, of m] others [OF False, of w' m "vals @ [v]"] n m ws show ?thesis
      by (simp add: Let_def parseChar2_def pushBackNew_def skip_ws skip_nothing)
  qed
qed

lemma hashLoop_step:
  assumes elem: "\<And>rest m. delimited rest \<Longrightarrow> 2 * length (out @ rest) + 1 \<le> m \<Longrightarrow>
      parse m toFloat (out @ rest) = Some (Inr (v, rest))"
    and others: "\<And>m h w. names \<noteq> [] \<Longrightarrow> 2 * length (fst (json_fields pf True names vs w) @ tail) + 2 \<le> m \<Longrightarrow>
      hashLoop m toFloat h (skipWhitespace (fst (json_fields pf True names vs w) @ tail)) = Some (Inr (f h, rest))"
    and tail: "skipWhitespace tail = CHR ''}'' # rest" "delimited tail" "names = [] \<longrightarrow> f = id"
      "length vs = length names"
    and n: "2 * length (quoteString name @ colon @ out @ fst (json_fields pf False names vs w) @ tail) + 2 \<le> n"
    and colon: "colon = ws @ '':''" "list_all is_ws ws"
  shows "hashLoop n toFloat h (quoteString name @ colon @ out @ fst (json_fields pf False names vs w) @ tail) =
    Some (Inr (f (Hash_setNew name v h), rest))"
proof -
  obtain m where m: "n = Suc m" using n by (cases n) auto
  have str: "rbind (parseChar1 CHR 0x22 (quoteString name @ s)) (\<lambda>_. parseString (quoteString name @ s)) = Inr (name, s)" for s
    using parseString_quoteString [of name s] by (simp add: parseChar1_def quoteString_def)
  obtain index keys where idx: "addMaybe name (fst h) = (index, keys)" by fastforce
  have col: "skipWhitespace (colon @ s) = CHR '':'' # s" "parseChar1 CHR '':'' (CHR '':'' # s) = Inr ()" for s
    using colon by (simp_all add: skip_ws skip_nothing parseChar1_def)
  show ?thesis
  proof (cases "names = []")
    case True
    with elem [OF tail(2), of m] n m tail show ?thesis
      by (simp add: str idx col Let_def parseChar2_def Hash_setNew_def)
  next
    case False
    then obtain ws w' where ws: "list_all is_ws ws"
      "fst (json_fields pf False names vs w) = ws @ '','' @ fst (json_fields pf True names vs w')"
      using fields_comma tail(4) by blast
    have "delimited (fst (json_fields pf False names vs w) @ tail)" using ws by (simp add: delimited_ws delimited_comma)
    from elem [OF this, of m] others [OF False, of w' m "Hash_setNew name v h"] n m ws show ?thesis
      by (simp add: str idx col Let_def parseChar2_def Hash_setNew_def skip_ws skip_nothing)
  qed
qed

text \<open>Entering the fields of a well-formed hash one by one builds that hash.\<close>

lemma hash_rebuild_prefix:
  assumes "hash_wf h" "hash_wf (keys, vals)" "k \<le> length vals"
    "m_names (fst h) = take k (m_names keys)" "snd h = take k vals"
  shows "fold (\<lambda>(name, v). Hash_setNew name v) (zip (drop k (m_names keys)) (drop k vals)) h = (keys, vals)"
  using assms
proof (induction "length vals - k" arbitrary: h k)
  case 0
  then have "fst h = keys" by (intro nm_wf_unique) (auto simp: hash_wf_def)
  with 0 show ?case by (cases h) (simp add: hash_wf_def)
next
  case (Suc d)
  let ?name = "m_names keys ! k" and ?v = "vals ! k"
  have k: "k < length vals" "length (m_names keys) = length vals" "distinct (m_names keys)"
    using Suc by (auto simp: hash_wf_def)
  have "?name \<notin> set (take k (m_names keys))"
    using k by (auto simp: in_set_conv_nth distinct_conv_nth)
  then have none: "lastIndex (m_names (fst h)) ?name = None" using Suc by (simp add: lastIndex_None)
  let ?h = "Hash_setNew ?name ?v h"
  have "hash_wf ?h" "m_names (fst ?h) = take (Suc k) (m_names keys)" "snd ?h = take (Suc k) vals"
    using Suc.prems k none
    by (simp_all add: hash_wf_setNew, simp_all add: Hash_setNew_cases NameMap_add_def Let_def take_Suc_conv_app_nth)
  from Suc.hyps(1) [OF _ this(1) Suc.prems(2) _ this(2,3)] Suc.hyps(2) k
  show ?case by (simp add: Cons_nth_drop_Suc [symmetric])
qed

lemma hash_rebuild:
  "hash_wf (keys, vals) \<Longrightarrow> fold (\<lambda>(name, v). Hash_setNew name v) (zip (m_names keys) vals) (NameMap_init, []) = (keys, vals)"
  using hash_rebuild_prefix [OF hash_wf_init, of keys vals 0] by (simp add: NameMap_init_def)

lemma length_rereadSegment [simp]: "length (rereadSegment pf toFloat vs) = length vs"
  by (induction vs) (auto, metis option.exhaust length_Cons rereadSegment.simps(2,3))

lemma parse_written_token:
  assumes "\<And>m. parse (Suc m) toFloat (tok @ rest) = r" "0 < n"
  shows "parse n toFloat (fst (json_write tok flags w) @ rest) = r"
proof -
  obtain ws where "list_all is_ws ws" "fst (json_write tok flags w) = ws @ tok" using json_write_out by blast
  with assms show ?thesis by (cases n) (simp_all add: parse_ws del: parse.simps)
qed

lemma closing:
  "skipWhitespace (fst (json_write '']'' flags w) @ rest) = CHR '']'' # rest"
  "skipWhitespace (fst (json_write ''}'' flags w) @ rest) = CHR ''}'' # rest"
  "delimited (fst (json_write '']'' flags w) @ rest)" "delimited (fst (json_write ''}'' flags w) @ rest)"
  using json_write_out [of "'']''" flags w] json_write_out [of "''}''" flags w]
  by (auto simp: skip_ws skip_nothing delimited_ws delimited_comma)

lemma parse_visit_array:
  assumes "\<And>m w tail. vs \<noteq> [] \<Longrightarrow> skipWhitespace tail = CHR '']'' # rest \<Longrightarrow> delimited tail \<Longrightarrow>
      2 * length (fst (json_elements pf True vs w) @ tail) + 2 \<le> m \<Longrightarrow>
      arrayLoop m toFloat [] (fst (json_elements pf True vs w) @ tail) = Some (Inr (vs', rest))"
    "2 * length (fst (json_visit pf (VectorValue vs) w) @ rest) + 1 \<le> n" "vs = [] \<longrightarrow> vs' = []"
  shows "parse n toFloat (fst (json_visit pf (VectorValue vs) w) @ rest) = Some (Inr (Some (VectorValue vs'), rest))"
proof -
  obtain m where m: "n = Suc m" using assms(2) by (cases n) auto
  let ?w1 = "snd (json_write ''['' {NewlineAfter, IndentAfter} w)"
  let ?w2 = "snd (json_elements pf True vs ?w1)"
  let ?tail = "fst (json_write '']'' {NewlineBefore, UndentBefore} ?w2) @ rest"
  obtain ws where ws: "list_all is_ws ws" "fst (json_write ''['' {NewlineAfter, IndentAfter} w) = ws @ ''[''"
    using json_write_out by blast
  then have out: "fst (json_visit pf (VectorValue vs) w) @ rest = ws @ CHR ''['' # fst (json_elements pf True vs ?w1) @ ?tail"
    by (simp add: andThen_out)
  show ?thesis
  proof (cases "vs = []")
    case True
    have "parse n toFloat (CHR ''['' # ?tail) = Some (Inr (Some (VectorValue []), rest))"
      using m by (simp add: skip_nothing closing)
    then show ?thesis unfolding out using True assms(3) by (simp add: parse_ws [OF ws(1)])
  next
    case False
    have "2 * length (fst (json_elements pf True vs ?w1) @ ?tail) + 2 \<le> m"
      using assms(2) unfolding out m by simp
    from parse_array [OF assms(1) [OF False closing(1,3) this]] show ?thesis
      unfolding out m by (simp only: parse_ws [OF ws(1)])
  qed
qed

lemma parse_visit_hash:
  assumes "\<And>m w tail. names \<noteq> [] \<Longrightarrow> skipWhitespace tail = CHR ''}'' # rest \<Longrightarrow> delimited tail \<Longrightarrow>
      2 * length (fst (json_fields pf True names vs w) @ tail) + 2 \<le> m \<Longrightarrow>
      hashLoop m toFloat (NameMap_init, []) (skipWhitespace (fst (json_fields pf True names vs w) @ tail)) =
        Some (Inr ((keys', vs'), rest))"
    "2 * length (fst (json_visit pf (HashValue keys vs) w) @ rest) + 1 \<le> n" "names = [] \<longrightarrow> (keys', vs') = (NameMap_init, [])"
    "names = m_names keys"
  shows "parse n toFloat (fst (json_visit pf (HashValue keys vs) w) @ rest) = Some (Inr (Some (HashValue keys' vs'), rest))"
proof -
  obtain m where m: "n = Suc m" using assms(2) by (cases n) auto
  let ?w1 = "snd (json_write ''{'' {NewlineAfter, IndentAfter} w)"
  let ?w2 = "snd (json_fields pf True names vs ?w1)"
  let ?tail = "fst (json_write ''}'' {NewlineBefore, UndentBefore} ?w2) @ rest"
  obtain ws where ws: "list_all is_ws ws" "fst (json_write ''{'' {NewlineAfter, IndentAfter} w) = ws @ ''{''"
    using json_write_out by blast
  then have out: "fst (json_visit pf (HashValue keys vs) w) @ rest = ws @ CHR ''{'' # fst (json_fields pf True names vs ?w1) @ ?tail"
    by (simp add: andThen_out assms(4))
  show ?thesis
  proof (cases "names = []")
    case True
    have "parse n toFloat (CHR ''{'' # ?tail) = Some (Inr (Some (HashValue NameMap_init []), rest))"
      using m by (simp add: skip_nothing closing)
    then show ?thesis unfolding out using True assms(3) by (simp add: parse_ws [OF ws(1)])
  next
    case False
    have "2 * length (fst (json_fields pf True names vs ?w1) @ ?tail) + 2 \<le> m"
      using assms(2) unfolding out m by simp
    from parse_hash [OF assms(1) [OF False closing(2,4) this]] show ?thesis
      unfolding out m by (simp only: parse_ws [OF ws(1)])
  qed
qed

lemma fields_step:
  assumes elem: "\<And>rest m w. delimited rest \<Longrightarrow> 2 * length (fst (out w) @ rest) + 1 \<le> m \<Longrightarrow>
      parse m toFloat (fst (out w) @ rest) = Some (Inr (v, rest))"
    and others: "\<And>m h w. names \<noteq> [] \<Longrightarrow> 2 * length (fst (json_fields pf True names vs w) @ tail) + 2 \<le> m \<Longrightarrow>
      hashLoop m toFloat h (skipWhitespace (fst (json_fields pf True names vs w) @ tail)) = Some (Inr (f h, rest))"
    and tail: "skipWhitespace tail = CHR ''}'' # rest" "delimited tail" "names = [] \<longrightarrow> f = id"
      "length vs = length names"
    and n: "2 * length (fst (andThen (json_visitString name) (andThen (json_write '':'' {})
      (andThen out (json_fields pf False names vs))) w) @ tail) + 2 \<le> n"
  shows "hashLoop n toFloat h (skipWhitespace (fst (andThen (json_visitString name) (andThen (json_write '':'' {})
      (andThen out (json_fields pf False names vs))) w) @ tail)) = Some (Inr (f (Hash_setNew name v h), rest))"
proof -
  define w1 where "w1 = snd (json_visitString name w)"
  define w2 where "w2 = snd (json_write '':'' {} w1)"
  define w3 where "w3 = snd (out w2)"
  obtain ws where ws: "list_all is_ws ws" "fst (json_visitString name w) = ws @ quoteString name"
    using json_write_out unfolding json_visitString_def by blast
  obtain ws2 where ws2: "list_all is_ws ws2" "fst (json_write '':'' {} w1) = ws2 @ '':''"
    using json_write_out by blast
  let ?s = "quoteString name @ (ws2 @ '':'') @ fst (out w2) @ fst (json_fields pf False names vs w3) @ tail"
  have out: "fst (andThen (json_visitString name) (andThen (json_write '':'' {})
      (andThen out (json_fields pf False names vs))) w) @ tail = ws @ ?s"
    using ws(2) ws2(2) by (simp add: andThen_out w1_def [symmetric] w2_def [symmetric] w3_def [symmetric])
  have skip: "skipWhitespace (ws @ ?s) = ?s" using ws(1) by (simp add: skip_ws quoteString_def skip_nothing)
  have "2 * length ?s + 2 \<le> n" using n unfolding out by simp
  from hashLoop_step [OF elem others tail this refl ws2(1)] show ?thesis unfolding out skip .
qed

lemma parse_null_token: "delimited rest \<Longrightarrow> 0 < n \<Longrightarrow> parse n toFloat (fst (json_visitNull w) @ rest) = Some (Inr (None, rest))"
  unfolding json_visitNull_def by (rule parse_written_token) (rule parse_keywords)

lemma parse_integer_token:
  assumes "int32_ok iv" "delimited rest"
  shows "parse (Suc n) toFloat (Format ''%d'' [FormatSigned_format iv] @ rest) = Some (Inr (Some (IntegerValue iv), rest))"
proof -
  have "iv < int size_mod" using assms(1) by (simp add: int_simps size_mod_def)
  with parse_number [OF dec_int_number [of iv] assms(2), of n toFloat] assms(1) show ?thesis
    by (simp add: Format_dec_int strToInteger_dec_int del: parse.simps)
qed

lemma parse_float_token:
  "float_ok toFloat (formatFloat pf fv) \<Longrightarrow> delimited rest \<Longrightarrow>
   parse (Suc n) toFloat (formatFloat pf fv @ rest) = Some (Inr (reread pf toFloat (FloatValue fv), rest))"
  using parse_number [of "formatFloat pf fv" rest n toFloat]
  by (auto simp: float_ok_def simp del: parse.simps split: option.split)

lemma parse_visited:
  "readable pf toFloat v \<Longrightarrow> delimited rest \<Longrightarrow> 2 * length (fst (json_visit pf v w) @ rest) + 1 \<le> n \<Longrightarrow>
     parse n toFloat (fst (json_visit pf v w) @ rest) = Some (Inr (reread pf toFloat v, rest))"
  "readableSegment pf toFloat vs \<Longrightarrow> vs \<noteq> [] \<Longrightarrow> skipWhitespace tail = CHR '']'' # rest \<Longrightarrow> delimited tail \<Longrightarrow>
     2 * length (fst (json_elements pf True vs w) @ tail) + 2 \<le> n \<Longrightarrow>
     arrayLoop n toFloat vals (fst (json_elements pf True vs w) @ tail) =
       Some (Inr (vals @ rereadSegment pf toFloat vs, rest))"
  "readableSegment pf toFloat vs \<Longrightarrow> names \<noteq> [] \<Longrightarrow> length vs = length names \<Longrightarrow>
     skipWhitespace tail = CHR ''}'' # rest \<Longrightarrow> delimited tail \<Longrightarrow>
     2 * length (fst (json_fields pf True names vs w) @ tail) + 2 \<le> n \<Longrightarrow>
     hashLoop n toFloat h (skipWhitespace (fst (json_fields pf True names vs w) @ tail)) =
       Some (Inr (fold (\<lambda>(name, v). Hash_setNew name v) (zip names (rereadSegment pf toFloat vs)) h, rest))"
  for first :: bool
proof (induction pf v and pf first vs and pf first names vs
    arbitrary: rest w n and tail rest w n vals and tail rest w n h
    rule: json_visit_json_elements_json_fields.induct)
  case (5 pf keys vals)
  let ?vs = "rereadSegment pf toFloat vals"
  have wf: "hash_wf (keys, ?vs)" and len: "length vals = length (m_names keys)"
    using 5 by (auto simp: hash_wf_def)
  have "parse n toFloat (fst (json_visit pf (HashValue keys vals) w) @ rest) = Some (Inr (Some (HashValue keys ?vs), rest))"
  proof (rule parse_visit_hash [OF _ "5.prems"(3) _ refl])
    show "m_names keys = [] \<longrightarrow> (keys, ?vs) = (NameMap_init, [])"
      using hash_rebuild [OF wf] by auto
  next
    fix m w tail
    assume "m_names keys \<noteq> []" "skipWhitespace tail = CHR ''}'' # rest" "delimited tail"
      "2 * length (fst (json_fields pf True (m_names keys) vals w) @ tail) + 2 \<le> m"
    then show "hashLoop m toFloat (NameMap_init, []) (skipWhitespace (fst (json_fields pf True (m_names keys) vals w) @ tail)) =
        Some (Inr ((keys, ?vs), rest))"
      unfolding hash_rebuild [OF wf, symmetric] using "5.prems"(1) len by (intro "5.IH") simp_all
  qed
  then show ?case by simp
next
  case (6 pf vv)
  have "parse n toFloat (fst (json_visit pf (VectorValue vv) w) @ rest) =
      Some (Inr (Some (VectorValue (rereadSegment pf toFloat vv)), rest))"
    by (rule parse_visit_array [OF _ "6.prems"(3)]) (use 6 in simp_all)
  then show ?case by simp
next
  case (10 pf first vs)
  have out: "fst (json_elements pf True (None # vs) w) =
      fst (json_visitNull w) @ fst (json_elements pf False vs (snd (json_visitNull w)))" by (simp add: andThen_out)
  have "arrayLoop n toFloat vals (fst (json_visitNull w) @ fst (json_elements pf False vs (snd (json_visitNull w))) @ tail) =
      Some (Inr (vals @ None # rereadSegment pf toFloat vs, rest))"
    by (rule arrayLoop_step) (use 10 in \<open>simp_all add: parse_null_token andThen_out\<close>)
  then show ?case unfolding out by simp
next
  case (11 pf first v vs)
  have out: "fst (json_elements pf True (Some v # vs) w) =
      fst (json_visit pf v w) @ fst (json_elements pf False vs (snd (json_visit pf v w)))" by (simp add: andThen_out)
  have "arrayLoop n toFloat vals (fst (json_visit pf v w) @ fst (json_elements pf False vs (snd (json_visit pf v w))) @ tail) =
      Some (Inr (vals @ reread pf toFloat v # rereadSegment pf toFloat vs, rest))"
    by (rule arrayLoop_step) (use 11 in \<open>simp_all add: andThen_out\<close>)
  then show ?case unfolding out by simp
next
  case (14 pf first name names vs)
  have out: "fst (json_fields pf True (name # names) (None # vs) w) = fst (andThen (json_visitString name)
      (andThen (json_write '':'' {}) (andThen json_visitNull (json_fields pf False names vs))) w)" by (simp add: andThen_out)
  show ?case unfolding out zip_Cons_Cons rereadSegment.simps fold_simps prod.case
    by (rule fields_step) (use 14 in \<open>simp_all add: parse_null_token andThen_out fun_eq_iff\<close>)
next
  case (15 pf first name names v vs)
  have out: "fst (json_fields pf True (name # names) (Some v # vs) w) = fst (andThen (json_visitString name)
      (andThen (json_write '':'' {}) (andThen (json_visit pf v) (json_fields pf False names vs))) w)" by (simp add: andThen_out)
  show ?case unfolding out zip_Cons_Cons rereadSegment.simps fold_simps prod.case
    by (rule fields_step) (use 15 in \<open>simp_all add: andThen_out fun_eq_iff\<close>)
next
  case (1 pf str)
  then show ?case by (simp add: json_visitString_def parse_written_token [OF parse_string] del: parse.simps)
next
  case (2 pf iv)
  then show ?case by (simp add: parse_written_token [OF parse_integer_token] del: parse.simps)
next
  case (3 pf fv)
  then show ?case by (simp add: parse_written_token [OF parse_float_token] del: parse.simps reread.simps)
next
  case (4 pf bv)
  then show ?case by (cases bv) (simp_all add: parse_written_token [OF parse_keywords(2)] parse_written_token [OF parse_keywords(3)]
        del: parse.simps)
qed (simp_all add: parse_null_token)

lemma parseComplete_whole:
  "parse (json_fuel s) toFloat s = Some (Inr (v, [])) \<Longrightarrow> parseComplete toFloat s = Some (Inr v)"
  by (simp add: parseComplete_def skipWhitespace_def)

text \<open>Values that JSON expresses exactly.\<close>

fun plain :: "'f Value \<Rightarrow> bool" and plainSegment :: "'f segment \<Rightarrow> bool" where
  "plain (FloatValue fv) = False"
| "plain (ErrorValue source str) = False"
| "plain OtherValue = False"
| "plain (HashValue keys vals) = plainSegment vals"
| "plain (VectorValue vals) = plainSegment vals"
| "plain (StringValue str) = True"
| "plain (IntegerValue iv) = True"
| "plain (BooleanValue bv) = True"
| "plainSegment [] = True"
| "plainSegment (None # vs) = plainSegment vs"
| "plainSegment (Some v # vs) = (plain v \<and> plainSegment vs)"

lemma reread_plain:
  "plain v \<Longrightarrow> reread pf toFloat v = Some v"
  "plainSegment vs \<Longrightarrow> rereadSegment pf toFloat vs = vs"
  by (induction v and vs rule: plain_plainSegment.induct) simp_all

text \<open>
  C6: Whatever the line length, the indentation and the position within the line, the text the
  writer produces for a value parses completely, and to that value: strings with all their
  octets, numbers, booleans, null, vectors and hashes with their order of keys. What JSON
  cannot express (errors, foreign values) is null afterwards; floats depend on the platform's
  conversions.
\<close>

theorem json_roundtrip:
  assumes "readable pf toFloat v"
  shows "parseComplete toFloat (fst (json_visit pf v w)) = Some (Inr (reread pf toFloat v)) \<and>
    (plain v \<longrightarrow> parseComplete toFloat (fst (json_visit pf v w)) = Some (Inr (Some v)))"
proof -
  let ?s = "fst (json_visit pf v w)"
  have "parse (json_fuel ?s) toFloat (?s @ []) = Some (Inr (reread pf toFloat v, []))"
    by (rule parse_visited(1)) (use assms in \<open>simp_all add: json_fuel_def delimited_def\<close>)
  then have "parseComplete toFloat ?s = Some (Inr (reread pf toFloat v))" by (simp add: parseComplete_whole)
  then show ?thesis by (simp add: reread_plain)
qed

theorem json_roundtrip_witness:
  "parseComplete (\<lambda>_. None :: nat option) (fst (json_visit nat_platform (VectorValue [Some (StringValue ''a''), None]) (setIndentStep 2 Writer_init))) =
     Some (Inr (Some (VectorValue [Some (StringValue ''a''), None])))"
proof -
  let ?v = "VectorValue [Some (StringValue ''a''), None]"
  have ok: "readable nat_platform (\<lambda>_. None) ?v" and plain: "plain (?v :: nat Value)" by simp_all
  show ?thesis using json_roundtrip [OF ok, THEN conjunct2] plain by (rule mp)
qed

lemma hash_find_empty: "hash_find (NameMap_init, []) = Map.empty"
  by (rule ext) (rule hash_dict.find_empty)

text \<open> An object in which a name occurs several times is accepted, and the last value of the name
  is the one that is found afterwards; every other name finds its value.
\<close>

theorem json_last_field_wins:
  assumes "readableSegment pf toFloat vals" "length vals = length (m_names names)"
  shows "\<exists>keys vals'. parseComplete toFloat (fst (json_visit pf (HashValue names vals) w)) = Some (Inr (Some (HashValue keys vals')))
    \<and> hash_wf (keys, vals')
    \<and> hash_find (keys, vals') = map_of (rev (zip (m_names names) (rereadSegment pf toFloat vals)))"
proof -
  let ?s = "fst (json_visit pf (HashValue names vals) w)"
  let ?xs = "zip (m_names names) (rereadSegment pf toFloat vals)"
  let ?h = "fold (\<lambda>(name, v). Hash_setNew name v) ?xs (NameMap_init, [])"
  obtain keys vals' where h: "?h = (keys, vals')" by fastforce
  have "parse (json_fuel ?s) toFloat (?s @ []) = Some (Inr (Some (HashValue keys vals'), []))"
    by (rule parse_visit_hash [OF _ _ _ refl]) (use assms h in \<open>auto simp: json_fuel_def parse_visited(3)\<close>)
  moreover have "hash_wf ?h \<and> hash_find ?h = map_of (rev ?xs)"
    using hash_dict.invar_assign_all [OF hash_wf_init, of ?xs] hash_dict.find_assign_all [OF hash_wf_init, of ?xs]
    by (simp add: hash_find_empty)
  ultimately show ?thesis using h by (auto simp: parseComplete_whole)
qed

theorem json_last_field_wins_witness:
  "\<exists>keys vals'. parseComplete (\<lambda>_. None :: nat option) (fst (json_visit nat_platform
       (HashValue \<lparr>m_names = [''a'', ''a''], m_hashFirst = [], m_hashNext = []\<rparr> [Some (IntegerValue 1), None]) Writer_init)) =
       Some (Inr (Some (HashValue keys vals'))) \<and> hash_find (keys, vals') ''a'' = Some None"
proof -
  let ?names = "\<lparr>m_names = [''a'', ''a''], m_hashFirst = [], m_hashNext = []\<rparr> :: name_map"
  let ?vals = "[Some (IntegerValue 1), None] :: nat segment"
  have ok: "readableSegment nat_platform (\<lambda>_. None) ?vals" "length ?vals = length (m_names ?names)"
    by (simp_all add: int_simps)
  have "map_of (rev (zip (m_names ?names) (rereadSegment nat_platform (\<lambda>_. None) ?vals))) ''a'' = Some None" by simp
  with json_last_field_wins [OF ok, of Writer_init] show ?thesis by (elim exE conjE) (intro exI conjI, assumption, simp)
qed

end
