(* ===== verification/Afl_Encoding.thy ===== *)
theory Afl_Encoding
  imports Afl_Charset
begin

text \<open>
  The character set encoders and transport encodings of afl/charset: base64, hexadecimal, URL
  encoding, quoted-printable, single-octet code pages, and the identity for UTF-8. The interface
  \<open>Charset\<close> (encode, decode) is the locale \<open>lossless_charset\<close> where decoding undoes
  encoding.
\<close>

section \<open>Base64\<close>

definition g_base64Alphabet :: string where
  "g_base64Alphabet = ''ABCDEFGHIJKLMNOPQRSTUVWXYZabcdefghijklmnopqrstuvwxyz0123456789+/''"

fun memchr :: "'a list \<Rightarrow> 'a \<Rightarrow> nat option" where
  "memchr [] c = None"
| "memchr (x # xs) c = (if x = c then Some 0 else map_option Suc (memchr xs c))"

definition b64Value :: "octet \<Rightarrow> nat" where
  "b64Value c = (case memchr g_base64Alphabet c of Some p \<Rightarrow> p | None \<Rightarrow> 0)"

text \<open>The digit for the six bits at \<open>shift\<close>.\<close>

definition b64Digit :: "nat \<Rightarrow> nat \<Rightarrow> octet" where
  "b64Digit shift val = g_base64Alphabet ! (val div 2 ^ shift mod 64)"

fun Base64_encode :: "string \<Rightarrow> octet list" where
  "Base64_encode (a # b # c # s) =
     (let val = 65536 * of_char a + 256 * of_char b + of_char c
      in b64Digit 18 val # b64Digit 12 val # b64Digit 6 val # b64Digit 0 val # Base64_encode s)"
| "Base64_encode [a, b] =
     (let val = 65536 * of_char a + 256 * of_char b
      in [b64Digit 18 val, b64Digit 12 val, b64Digit 6 val, CHR ''=''])"
| "Base64_encode [a] =
     (let val = 65536 * of_char a
      in [b64Digit 18 val, b64Digit 12 val, CHR ''='', CHR ''=''])"
| "Base64_encode [] = []"

definition trimEquals :: "octet list \<Rightarrow> octet list" where
  "trimEquals s = rev (dropWhile (\<lambda>c. c = CHR ''='') (rev s))"

text \<open>
  One round of the loop eats up to four characters; the second, third and fourth of them each
  complete an octet.
\<close>

fun b64Loop :: "octet list \<Rightarrow> string" where
  "b64Loop [] = []"
| "b64Loop [a] = []"
| "b64Loop [a, b] =
     (let val = b64Value a * 2 ^ 18 + b64Value b * 2 ^ 12 in [byte (val div 2 ^ 16 mod 256)])"
| "b64Loop [a, b, c] =
     (let val = b64Value a * 2 ^ 18 + b64Value b * 2 ^ 12; val3 = val + b64Value c * 2 ^ 6
      in [byte (val div 2 ^ 16 mod 256), byte (val3 div 2 ^ 8 mod 256)])"
| "b64Loop (a # b # c # d # s) =
     (let val = b64Value a * 2 ^ 18 + b64Value b * 2 ^ 12; val3 = val + b64Value c * 2 ^ 6;
          val4 = val3 + b64Value d
      in byte (val div 2 ^ 16 mod 256) # byte (val3 div 2 ^ 8 mod 256) # byte (val4 mod 256) # b64Loop s)"

definition Base64_decode :: "octet list \<Rightarrow> string" where
  "Base64_decode s = b64Loop (trimEquals s)"

section \<open>Hexadecimal\<close>

definition HexEncoding_encode :: "string \<Rightarrow> string \<Rightarrow> octet list" where
  "HexEncoding_encode m_digits s =
     concat (map (\<lambda>c. [m_digits ! (of_char c div 16), m_digits ! (of_char c mod 16)]) s)"

fun HexEncoding_decode :: "octet list \<Rightarrow> string" where
  "HexEncoding_decode [] = []"
| "HexEncoding_decode (p # s) =
     (let a = getHexDigitValue p
      in if a \<ge> 0
         then (case s of
                 [] \<Rightarrow> []
               | q # s \<Rightarrow>
                   (let b = getHexDigitValue q
                    in (if b \<ge> 0 then [byte (nat (16 * a + b))] else []) @ HexEncoding_decode s))
         else HexEncoding_decode s)"

section \<open>URL encoding and quoted-printable\<close>

text \<open>\<open>escape\<close> is the character that introduces an octet in hexadecimal.\<close>

definition escapeOctet :: "octet \<Rightarrow> octet \<Rightarrow> octet list" where
  "escapeOctet escape u = [escape, HEX_DIGITS_UPPER ! (of_char u div 16), HEX_DIGITS_UPPER ! (of_char u mod 16)]"

definition urlQuoted :: "octet \<Rightarrow> bool" where
  "urlQuoted u \<longleftrightarrow> of_char u \<ge> (0x80 :: nat) \<or> of_char u < (0x20 :: nat)
     \<or> u = CHR ''%'' \<or> u = CHR ''&'' \<or> u = CHR ''+'' \<or> u = CHR ''=''"

definition UrlEncoding_encode :: "string \<Rightarrow> octet list" where
  "UrlEncoding_encode s =
     concat (map (\<lambda>u. if urlQuoted u then escapeOctet CHR ''%'' u
                      else if u = CHR '' '' then ''+'' else [u]) s)"

text \<open>An escape with two characters after it: the octet, or the three characters if they are no digits.\<close>

definition unescape :: "octet \<Rightarrow> octet \<Rightarrow> octet \<Rightarrow> string" where
  "unescape escape p q =
     (let a = getHexDigitValue p; b = getHexDigitValue q
      in if a \<ge> 0 \<and> b \<ge> 0 then [byte (nat (16 * a + b))] else [escape, p, q])"

fun UrlEncoding_decode :: "octet list \<Rightarrow> string" where
  "UrlEncoding_decode [] = []"
| "UrlEncoding_decode (pc # s) =
     (if pc = CHR ''%'' \<and> length s \<ge> 2
      then (case s of p # q # s \<Rightarrow> unescape pc p q @ UrlEncoding_decode s)
      else if pc = CHR ''+'' then CHR '' '' # UrlEncoding_decode s
      else pc # UrlEncoding_decode s)"

definition qpQuoted :: "octet \<Rightarrow> bool" where
  "qpQuoted u \<longleftrightarrow> of_char u \<ge> (0x80 :: nat) \<or> of_char u < (0x20 :: nat) \<or> u = CHR ''=''"

definition QuotedPrintable_encode :: "string \<Rightarrow> octet list" where
  "QuotedPrintable_encode s = concat (map (\<lambda>u. if qpQuoted u then escapeOctet CHR ''='' u else [u]) s)"

fun QuotedPrintable_decode :: "octet list \<Rightarrow> string" where
  "QuotedPrintable_decode [] = []"
| "QuotedPrintable_decode (pc # s) =
     (if pc = CHR ''='' \<and> length s \<ge> 2
      then (case s of p # q # s \<Rightarrow> unescape pc p q @ QuotedPrintable_decode s)
      else pc # QuotedPrintable_decode s)"

section \<open>UTF-8\<close>

definition Utf8Charset_encode :: "string \<Rightarrow> octet list" where "Utf8Charset_encode s = s"

definition Utf8Charset_decode :: "octet list \<Rightarrow> string" where "Utf8Charset_decode s = s"

section \<open>Code pages\<close>

text \<open>The upper half of a code page, 128 Unicode characters.\<close>

type_synonym codepage = "nat list"

definition encodeCharacter :: "codepage \<Rightarrow> nat \<Rightarrow> octet list" where
  "encodeCharacter m_codepage ch =
     (if ch < 0x80 then [byte ch]
      else case memchr m_codepage ch of Some i \<Rightarrow> [byte (0x80 + i)] | None \<Rightarrow> [])"

definition CodepageCharset_encode :: "codepage \<Rightarrow> string \<Rightarrow> octet list" where
  "CodepageCharset_encode m_codepage s = concat (map (encodeCharacter m_codepage) (decode {} s))"

definition CodepageCharset_decode :: "codepage \<Rightarrow> octet list \<Rightarrow> string" where
  "CodepageCharset_decode m_codepage s =
     foldl (\<lambda>result ch. Utf8_append {} result
              (if of_char ch < (0x80 :: nat) then of_char ch else m_codepage ! (of_char ch - 0x80))) [] s"

definition g_codepage437 :: codepage where
  "g_codepage437 = [
    0x00c7, 0x00fc, 0x00e9, 0x00e2, 0x00e4, 0x00e0, 0x00e5, 0x00e7,
    0x00ea, 0x00eb, 0x00e8, 0x00ef, 0x00ee, 0x00ec, 0x00c4, 0x00c5,
    0x00c9, 0x00e6, 0x00c6, 0x00f4, 0x00f6, 0x00f2, 0x00fb, 0x00f9,
    0x00ff, 0x00d6, 0x00dc, 0x00a2, 0x00a3, 0x00a5, 0x20a7, 0x0192,
    0x00e1, 0x00ed, 0x00f3, 0x00fa, 0x00f1, 0x00d1, 0x00aa, 0x00ba,
    0x00bf, 0x2310, 0x00ac, 0x00bd, 0x00bc, 0x00a1, 0x00ab, 0x00bb,
    0x2591, 0x2592, 0x2593, 0x2502, 0x2524, 0x2525, 0x2528, 0x2512,
    0x2511, 0x252b, 0x2503, 0x2513, 0x251b, 0x251a, 0x2519, 0x2510,
    0x2514, 0x2534, 0x252c, 0x251c, 0x2500, 0x253c, 0x251d, 0x2520,
    0x2517, 0x250f, 0x253b, 0x2533, 0x2523, 0x2501, 0x254b, 0x2537,
    0x2538, 0x252f, 0x2530, 0x2516, 0x2515, 0x250d, 0x250e, 0x2542,
    0x253f, 0x2518, 0x250c, 0x2588, 0x2584, 0x258c, 0x2590, 0x2580,
    0x03b1, 0x00df, 0x0393, 0x03c0, 0x03a3, 0x03c3, 0x03bc, 0x03c4,
    0x03a6, 0x0398, 0x03a9, 0x03b4, 0x221e, 0x03c6, 0x03b5, 0x2229,
    0x2261, 0x00b1, 0x2265, 0x2264, 0x2320, 0x2321, 0x00f7, 0x2248,
    0x00b0, 0x2219, 0x00b7, 0x221a, 0x207f, 0x00b2, 0x25a0, 0x00a0]"

definition g_codepage850 :: codepage where
  "g_codepage850 = [
    0x00c7, 0x00fc, 0x00e9, 0x00e2, 0x00e4, 0x00e0, 0x00e5, 0x00e7,
    0x00ea, 0x00eb, 0x00e8, 0x00ef, 0x00ee, 0x00ec, 0x00c4, 0x00c5,
    0x00c9, 0x00e6, 0x00c6, 0x00f4, 0x00f6, 0x00f2, 0x00fb, 0x00f9,
    0x00ff, 0x00d6, 0x00dc, 0x00f8, 0x00a3, 0x00d8, 0x00d7, 0x0192,
    0x00e1, 0x00ed, 0x00f3, 0x00fa, 0x00f1, 0x00d1, 0x00aa, 0x00ba,
    0x00bf, 0x00ae, 0x00ac, 0x00bd, 0x00bc, 0x00a1, 0x00ab, 0x00bb,
    0x2591, 0x2592, 0x2593, 0x2502, 0x2524, 0x00c1, 0x00c2, 0x00c0,
    0x00a9, 0x252b, 0x2503, 0x2513, 0x251b, 0x00a2, 0x00a5, 0x2510,
    0x2514, 0x2534, 0x252c, 0x251c, 0x2500, 0x253c, 0x00e3, 0x00c3,
    0x2517, 0x250f, 0x253b, 0x2533, 0x2523, 0x2501, 0x254b, 0x00a4,
    0x00f0, 0x00d0, 0x00ca, 0x00cb, 0x00c8, 0x0131, 0x00cd, 0x00ce,
    0x00cf, 0x2518, 0x250c, 0x2588, 0x2584, 0x00a6, 0x00cc, 0x2580,
    0x00d3, 0x00df, 0x00d4, 0x00d2, 0x00f5, 0x00d5, 0x03bc, 0x00fe,
    0x00de, 0x00da, 0x00db, 0x00d9, 0x00fd, 0x00dd, 0x00af, 0x00b4,
    0x00ad, 0x00b1, 0x2017, 0x00be, 0x00b6, 0x00a7, 0x00f7, 0x00b8,
    0x00b0, 0x00a8, 0x00b7, 0x00b9, 0x00b3, 0x00b2, 0x25a0, 0x00a0]"

definition g_codepage852 :: codepage where
  "g_codepage852 = [
    0x00c7, 0x00fc, 0x00e9, 0x00e2, 0x00e4, 0x016f, 0x0107, 0x00e7,
    0x0142, 0x00eb, 0x0150, 0x0151, 0x00ee, 0x0179, 0x00c4, 0x0106,
    0x00c9, 0x0139, 0x013a, 0x00f4, 0x00f6, 0x013d, 0x013e, 0x015a,
    0x015b, 0x00d6, 0x00dc, 0x0164, 0x0165, 0x0141, 0x00d7, 0x010d,
    0x00e1, 0x00ed, 0x00f3, 0x00fa, 0x0104, 0x0105, 0x017d, 0x017e,
    0x0118, 0x0119, 0x00ac, 0x017a, 0x010c, 0x015f, 0x00ab, 0x00bb,
    0x2591, 0x2592, 0x2593, 0x2502, 0x2524, 0x00c1, 0x00c2, 0x011a,
    0x015e, 0x252b, 0x2503, 0x2513, 0x251b, 0x017b, 0x017c, 0x2510,
    0x2514, 0x2534, 0x252c, 0x251c, 0x2500, 0x253c, 0x0102, 0x0103,
    0x2517, 0x250f, 0x253b, 0x2533, 0x2523, 0x2501, 0x254b, 0x00a4,
    0x0111, 0x0110, 0x010e, 0x00cb, 0x010f, 0x0147, 0x00cd, 0x00ce,
    0x011b, 0x2518, 0x250c, 0x2588, 0x2584, 0x0162, 0x016e, 0x2580,
    0x00d3, 0x00df, 0x00d4, 0x0143, 0x0144, 0x0148, 0x0160, 0x0161,
    0x0154, 0x00da, 0x0155, 0x0170, 0x00fd, 0x00dd, 0x0163, 0x00b4,
    0x00ad, 0x02dd, 0x02db, 0x02c7, 0x02d8, 0x00a7, 0x00f7, 0x00b8,
    0x00b0, 0x00a8, 0x02d9, 0x0171, 0x0158, 0x0159, 0x25a0, 0x00a0]"

definition g_codepage866 :: codepage where
  "g_codepage866 = [
    0x0410, 0x0411, 0x0412, 0x0413, 0x0414, 0x0415, 0x0416, 0x0417,
    0x0418, 0x0419, 0x041a, 0x041b, 0x041c, 0x041d, 0x041e, 0x041f,
    0x0420, 0x0421, 0x0422, 0x0423, 0x0424, 0x0425, 0x0426, 0x0427,
    0x0428, 0x0429, 0x042a, 0x042b, 0x042c, 0x042d, 0x042e, 0x042f,
    0x0430, 0x0431, 0x0432, 0x0433, 0x0434, 0x0435, 0x0436, 0x0437,
    0x0438, 0x0439, 0x043a, 0x043b, 0x043c, 0x043d, 0x043e, 0x043f,
    0x2591, 0x2592, 0x2593, 0x2502, 0x2524, 0x2525, 0x2528, 0x2512,
    0x2511, 0x252b, 0x2503, 0x2513, 0x251b, 0x251a, 0x2519, 0x2510,
    0x2514, 0x2534, 0x252c, 0x251c, 0x2500, 0x253c, 0x251d, 0x2520,
    0x2517, 0x250f, 0x253b, 0x2533, 0x2523, 0x2501, 0x254b, 0x2537,
    0x2538, 0x252f, 0x2530, 0x2516, 0x2515, 0x250d, 0x250e, 0x2542,
    0x253f, 0x2518, 0x250c, 0x2588, 0x2584, 0x258c, 0x2590, 0x2580,
    0x0440, 0x0441, 0x0442, 0x0443, 0x0444, 0x0445, 0x0446, 0x0447,
    0x0448, 0x0449, 0x044a, 0x044b, 0x044c, 0x044d, 0x044e, 0x044f,
    0x0401, 0x0451, 0x0404, 0x0454, 0x0407, 0x0457, 0x040e, 0x045e,
    0x00b0, 0x2219, 0x00b7, 0x221a, 0x2116, 0x00a4, 0x25a0, 0x00a0]"

definition g_codepage1250 :: codepage where
  "g_codepage1250 = [
    0x20ac, 0x0000, 0x201a, 0x0000, 0x201e, 0x2026, 0x2020, 0x2021,
    0x0000, 0x2030, 0x0160, 0x2039, 0x015a, 0x0164, 0x017d, 0x0179,
    0x0000, 0x2018, 0x2019, 0x201c, 0x201d, 0x2219, 0x2013, 0x2014,
    0x0000, 0x2122, 0x0161, 0x203a, 0x015b, 0x0165, 0x017e, 0x017a,
    0x00a0, 0x02c7, 0x02d8, 0x0141, 0x00a4, 0x0104, 0x00a6, 0x00a7,
    0x00a8, 0x00a9, 0x015e, 0x00ab, 0x00ac, 0x00ad, 0x00ae, 0x017b,
    0x00b0, 0x00b1, 0x02db, 0x0142, 0x00b4, 0x03bc, 0x00b6, 0x00b7,
    0x00b8, 0x0105, 0x015f, 0x00bb, 0x013d, 0x02dd, 0x013e, 0x017c,
    0x0154, 0x00c1, 0x00c2, 0x0102, 0x00c4, 0x0139, 0x0106, 0x00c7,
    0x010c, 0x00c9, 0x0118, 0x00cb, 0x011a, 0x00cd, 0x00ce, 0x010e,
    0x0110, 0x0143, 0x0147, 0x00d3, 0x00d4, 0x0150, 0x00d6, 0x00d7,
    0x0158, 0x016e, 0x00da, 0x0170, 0x00dc, 0x00dd, 0x0162, 0x00df,
    0x0155, 0x00e1, 0x00e2, 0x0103, 0x00e4, 0x013a, 0x0107, 0x00e7,
    0x010d, 0x00e9, 0x0119, 0x00eb, 0x011b, 0x00ed, 0x00ee, 0x010f,
    0x0111, 0x0144, 0x0148, 0x00f3, 0x00f4, 0x0151, 0x00f6, 0x00f7,
    0x0159, 0x016f, 0x00fa, 0x0171, 0x00fc, 0x00fd, 0x0163, 0x02d9]"

definition g_codepage1251 :: codepage where
  "g_codepage1251 = [
    0x0402, 0x0403, 0x201a, 0x0453, 0x201e, 0x2026, 0x2020, 0x2021,
    0x20ac, 0x2030, 0x0409, 0x2039, 0x040a, 0x040c, 0x040b, 0x040f,
    0x0452, 0x2018, 0x2019, 0x201c, 0x201d, 0x2219, 0x2013, 0x2014,
    0x0000, 0x2122, 0x0459, 0x203a, 0x045a, 0x045c, 0x045b, 0x045f,
    0x00a0, 0x040e, 0x045e, 0x0408, 0x00a4, 0x0490, 0x00a6, 0x00a7,
    0x0401, 0x00a9, 0x0404, 0x00ab, 0x00ac, 0x00ad, 0x00ae, 0x0407,
    0x00b0, 0x00b1, 0x0406, 0x0456, 0x0491, 0x03bc, 0x00b6, 0x00b7,
    0x0451, 0x2116, 0x0454, 0x00bb, 0x0458, 0x0405, 0x0455, 0x0457,
    0x0410, 0x0411, 0x0412, 0x0413, 0x0414, 0x0415, 0x0416, 0x0417,
    0x0418, 0x0419, 0x041a, 0x041b, 0x041c, 0x041d, 0x041e, 0x041f,
    0x0420, 0x0421, 0x0422, 0x0423, 0x0424, 0x0425, 0x0426, 0x0427,
    0x0428, 0x0429, 0x042a, 0x042b, 0x042c, 0x042d, 0x042e, 0x042f,
    0x0430, 0x0431, 0x0432, 0x0433, 0x0434, 0x0435, 0x0436, 0x0437,
    0x0438, 0x0439, 0x043a, 0x043b, 0x043c, 0x043d, 0x043e, 0x043f,
    0x0440, 0x0441, 0x0442, 0x0443, 0x0444, 0x0445, 0x0446, 0x0447,
    0x0448, 0x0449, 0x044a, 0x044b, 0x044c, 0x044d, 0x044e, 0x044f]"

definition g_codepage1252 :: codepage where
  "g_codepage1252 = [
    0x20ac, 0x0000, 0x201a, 0x0192, 0x201e, 0x2026, 0x2020, 0x2021,
    0x005e, 0x2030, 0x0160, 0x2039, 0x0152, 0x0000, 0x017d, 0x0000,
    0x0000, 0x2018, 0x2019, 0x201c, 0x201d, 0x2219, 0x2013, 0x2014,
    0x007e, 0x2122, 0x0161, 0x203a, 0x0153, 0x0000, 0x017e, 0x0178,
    0x00a0, 0x00a1, 0x00a2, 0x00a3, 0x00a4, 0x00a5, 0x00a6, 0x00a7,
    0x00a8, 0x00a9, 0x00aa, 0x00ab, 0x00ac, 0x00ad, 0x00ae, 0x00af,
    0x00b0, 0x00b1, 0x00b2, 0x00b3, 0x00b4, 0x03bc, 0x00b6, 0x00b7,
    0x00b8, 0x00b9, 0x00ba, 0x00bb, 0x00bc, 0x00bd, 0x00be, 0x00bf,
    0x00c0, 0x00c1, 0x00c2, 0x00c3, 0x00c4, 0x00c5, 0x00c6, 0x00c7,
    0x00c8, 0x00c9, 0x00ca, 0x00cb, 0x00cc, 0x00cd, 0x00ce, 0x00cf,
    0x00d0, 0x00d1, 0x00d2, 0x00d3, 0x00d4, 0x00d5, 0x00d6, 0x00d7,
    0x00d8, 0x00d9, 0x00da, 0x00db, 0x00dc, 0x00dd, 0x00de, 0x00df,
    0x00e0, 0x00e1, 0x00e2, 0x00e3, 0x00e4, 0x00e5, 0x00e6, 0x00e7,
    0x00e8, 0x00e9, 0x00ea, 0x00eb, 0x00ec, 0x00ed, 0x00ee, 0x00ef,
    0x00f0, 0x00f1, 0x00f2, 0x00f3, 0x00f4, 0x00f5, 0x00f6, 0x00f7,
    0x00f8, 0x00f9, 0x00fa, 0x00fb, 0x00fc, 0x00fd, 0x00fe, 0x00ff]"

definition g_codepageKOI8R :: codepage where
  "g_codepageKOI8R = [
    0x2500, 0x2502, 0x250c, 0x2510, 0x2514, 0x2518, 0x251c, 0x2524,
    0x252c, 0x2534, 0x253c, 0x2580, 0x2584, 0x2588, 0x258c, 0x2590,
    0x2591, 0x2592, 0x2593, 0x2320, 0x25a0, 0x2219, 0x221a, 0x2248,
    0x2264, 0x2265, 0x00a0, 0x2321, 0x00b0, 0x00b2, 0x00b7, 0x00f7,
    0x2501, 0x2503, 0x250d, 0x0451, 0x250e, 0x250f, 0x2511, 0x2512,
    0x2513, 0x2515, 0x2516, 0x2517, 0x2519, 0x251a, 0x251b, 0x251d,
    0x2520, 0x2523, 0x2525, 0x0401, 0x2528, 0x252b, 0x252f, 0x2530,
    0x2533, 0x2537, 0x2538, 0x253b, 0x253f, 0x2542, 0x254b, 0x00a9,
    0x044e, 0x0430, 0x0431, 0x0446, 0x0434, 0x0435, 0x0444, 0x0433,
    0x0445, 0x0438, 0x0439, 0x043a, 0x043b, 0x043c, 0x043d, 0x043e,
    0x043f, 0x044f, 0x0440, 0x0441, 0x0442, 0x0443, 0x0436, 0x0432,
    0x044c, 0x044b, 0x0437, 0x0448, 0x044d, 0x0449, 0x0447, 0x044a,
    0x042e, 0x0410, 0x0411, 0x0426, 0x0414, 0x0415, 0x0424, 0x0413,
    0x0425, 0x0418, 0x0419, 0x041a, 0x041b, 0x041c, 0x041d, 0x041e,
    0x041f, 0x042f, 0x0420, 0x0421, 0x0422, 0x0423, 0x0416, 0x0412,
    0x042c, 0x042b, 0x0417, 0x0428, 0x042d, 0x0429, 0x0427, 0x042a]"

definition g_codepageLatin1 :: codepage where
  "g_codepageLatin1 = [
    0x0080, 0x0081, 0x0082, 0x0083, 0x0084, 0x0085, 0x0086, 0x0087,
    0x0088, 0x0089, 0x008a, 0x008b, 0x008c, 0x008d, 0x008e, 0x008f,
    0x0090, 0x0091, 0x0092, 0x0093, 0x0094, 0x0095, 0x0096, 0x0097,
    0x0098, 0x0099, 0x009a, 0x009b, 0x009c, 0x009d, 0x009e, 0x009f,
    0x00a0, 0x00a1, 0x00a2, 0x00a3, 0x00a4, 0x00a5, 0x00a6, 0x00a7,
    0x00a8, 0x00a9, 0x00aa, 0x00ab, 0x00ac, 0x00ad, 0x00ae, 0x00af,
    0x00b0, 0x00b1, 0x00b2, 0x00b3, 0x00b4, 0x03bc, 0x00b6, 0x00b7,
    0x00b8, 0x00b9, 0x00ba, 0x00bb, 0x00bc, 0x00bd, 0x00be, 0x00bf,
    0x00c0, 0x00c1, 0x00c2, 0x00c3, 0x00c4, 0x00c5, 0x00c6, 0x00c7,
    0x00c8, 0x00c9, 0x00ca, 0x00cb, 0x00cc, 0x00cd, 0x00ce, 0x00cf,
    0x00d0, 0x00d1, 0x00d2, 0x00d3, 0x00d4, 0x00d5, 0x00d6, 0x00d7,
    0x00d8, 0x00d9, 0x00da, 0x00db, 0x00dc, 0x00dd, 0x00de, 0x00df,
    0x00e0, 0x00e1, 0x00e2, 0x00e3, 0x00e4, 0x00e5, 0x00e6, 0x00e7,
    0x00e8, 0x00e9, 0x00ea, 0x00eb, 0x00ec, 0x00ed, 0x00ee, 0x00ef,
    0x00f0, 0x00f1, 0x00f2, 0x00f3, 0x00f4, 0x00f5, 0x00f6, 0x00f7,
    0x00f8, 0x00f9, 0x00fa, 0x00fb, 0x00fc, 0x00fd, 0x00fe, 0x00ff]"

definition g_codepageLatin2 :: codepage where
  "g_codepageLatin2 = [
    0x0080, 0x0081, 0x0082, 0x0083, 0x0084, 0x0085, 0x0086, 0x0087,
    0x0088, 0x0089, 0x008a, 0x008b, 0x008c, 0x008d, 0x008e, 0x008f,
    0x0090, 0x0091, 0x0092, 0x0093, 0x0094, 0x0095, 0x0096, 0x0097,
    0x0098, 0x0099, 0x009a, 0x009b, 0x009c, 0x009d, 0x009e, 0x009f,
    0x00a0, 0x0104, 0x02d8, 0x0141, 0x00a4, 0x013d, 0x015a, 0x00a7,
    0x00a8, 0x0160, 0x015e, 0x0164, 0x0179, 0x00ad, 0x017d, 0x017b,
    0x00b0, 0x0105, 0x02db, 0x0142, 0x00b4, 0x013e, 0x015b, 0x02c7,
    0x00b8, 0x0161, 0x015f, 0x0165, 0x017a, 0x02dd, 0x017e, 0x017c,
    0x0154, 0x00c1, 0x00c2, 0x0102, 0x00c4, 0x0139, 0x0106, 0x00c7,
    0x010c, 0x00c9, 0x0118, 0x00cb, 0x011a, 0x00cd, 0x00ce, 0x010e,
    0x0110, 0x0143, 0x0147, 0x00d3, 0x00d4, 0x0150, 0x00d6, 0x00d7,
    0x0158, 0x016e, 0x00da, 0x0170, 0x00dc, 0x00dd, 0x0162, 0x00df,
    0x0155, 0x00e1, 0x00e2, 0x0103, 0x00e4, 0x013a, 0x0107, 0x00e7,
    0x010d, 0x00e9, 0x0119, 0x00eb, 0x011b, 0x00ed, 0x00ee, 0x010f,
    0x0111, 0x0144, 0x0148, 0x00f3, 0x00f4, 0x0151, 0x00f6, 0x00f7,
    0x0159, 0x016f, 0x00fa, 0x0171, 0x00fc, 0x00fd, 0x0163, 0x02d9]"

section \<open>The interface of a character set\<close>

text \<open>
  A character set in which every text can be expressed: decoding gives back what was encoded, so
  that different texts have different encodings.
\<close>

locale lossless_charset =
  fixes encode :: "string \<Rightarrow> octet list"
    and decode :: "octet list \<Rightarrow> string"
  assumes decode_encode: "decode (encode s) = s"
begin

lemma encode_eq_iff: "encode s = encode t \<longleftrightarrow> s = t"
  by (metis decode_encode)

lemma decode_encode_all: "map decode (map encode ss) = ss"
  by (simp add: decode_encode comp_def)

end

section \<open>Base64: facts\<close>

lemma memchr_nth: "distinct xs \<Longrightarrow> i < length xs \<Longrightarrow> memchr xs (xs ! i) = Some i"
proof (induction xs arbitrary: i)
  case (Cons x xs)
  then show ?case by (cases i) auto
qed simp

lemma memchr_Some: "memchr xs c = Some i \<Longrightarrow> i < length xs \<and> xs ! i = c"
  by (induction xs arbitrary: i) (auto split: if_splits)

lemma base64_alphabet: "distinct g_base64Alphabet" "length g_base64Alphabet = 64" "CHR ''='' \<notin> set g_base64Alphabet"
  by (code_simp, code_simp, code_simp)

lemma b64Value_digit: "b64Value (b64Digit shift val) = val div 2 ^ shift mod 64"
  unfolding b64Value_def b64Digit_def by (subst memchr_nth) (simp_all add: base64_alphabet)

lemma b64Digit_not_equals: "b64Digit shift val \<noteq> CHR ''=''"
proof
  assume "b64Digit shift val = CHR ''=''"
  then have "CHR ''='' = g_base64Alphabet ! (val div 2 ^ shift mod 64)" by (simp add: b64Digit_def)
  then have "CHR ''='' \<in> set g_base64Alphabet" by (simp add: base64_alphabet)
  then show False by (simp add: base64_alphabet)
qed

text \<open>The encoding without its padding.\<close>

fun b64Core :: "string \<Rightarrow> octet list" where
  "b64Core (a # b # c # s) =
     (let val = 65536 * of_char a + 256 * of_char b + of_char c
      in b64Digit 18 val # b64Digit 12 val # b64Digit 6 val # b64Digit 0 val # b64Core s)"
| "b64Core [a, b] =
     (let val = 65536 * of_char a + 256 * of_char b in [b64Digit 18 val, b64Digit 12 val, b64Digit 6 val])"
| "b64Core [a] = (let val = 65536 * of_char a in [b64Digit 18 val, b64Digit 12 val])"
| "b64Core [] = []"

lemma encode_core: "\<exists>n. Base64_encode s = b64Core s @ replicate n CHR ''=''"
proof (induction s rule: Base64_encode.induct)
  case (2 a b)
  show ?case by (rule exI [of _ 1]) (simp add: Let_def)
next
  case (3 a)
  show ?case by (rule exI [of _ 2]) (simp add: Let_def numeral_2_eq_2)
qed (auto simp: Let_def)

lemma core_no_equals: "CHR ''='' \<notin> set (b64Core s)"
  by (induction s rule: b64Core.induct) (auto simp: Let_def b64Digit_not_equals [symmetric])

lemma trimEquals_core: "trimEquals (Base64_encode s) = b64Core s"
proof -
  obtain n where n: "Base64_encode s = b64Core s @ replicate n CHR ''=''" using encode_core by blast
  have "dropWhile (\<lambda>c. c = CHR ''='') (rev (b64Core s)) = rev (b64Core s)"
    using core_no_equals [of s] by (cases "rev (b64Core s)") (auto simp: rev_eq_Cons_iff)
  moreover have "dropWhile (\<lambda>c. c = CHR ''='') (replicate n CHR ''='' @ xs) = dropWhile (\<lambda>c. c = CHR ''='') xs" for xs
    by (induction n) simp_all
  ultimately show ?thesis by (simp add: n trimEquals_def)
qed

text \<open>
  A group of three octets, each split where the digits are: the four digits are \<open>a1\<close>,
  \<open>16 * a0 + b1\<close>, \<open>4 * b0 + c1\<close> and \<open>c0\<close>.
\<close>

lemma b64_parts:
  fixes a1 a0 b1 b0 c1 c0 :: nat
  assumes "a1 < 64" "a0 < 4" "b1 < 16" "b0 < 16" "c1 < 4" "c0 < 64"
    and val: "val = 65536 * (4 * a1 + a0) + 256 * (16 * b1 + b0) + (64 * c1 + c0)"
  shows "val div 2 ^ 18 mod 64 = a1" "val div 2 ^ 12 mod 64 = 16 * a0 + b1"
    "val div 2 ^ 6 mod 64 = 4 * b0 + c1" "val div 2 ^ 0 mod 64 = c0"
    "(a1 * 2 ^ 18 + (16 * a0 + b1) * 2 ^ 12) div 2 ^ 16 mod 256 = 4 * a1 + a0"
    "(a1 * 2 ^ 18 + (16 * a0 + b1) * 2 ^ 12 + (4 * b0 + c1) * 2 ^ 6) div 2 ^ 8 mod 256 = 16 * b1 + b0"
    "(a1 * 2 ^ 18 + (16 * a0 + b1) * 2 ^ 12 + (4 * b0 + c1) * 2 ^ 6 + c0) mod 256 = 64 * c1 + c0"
proof -
  have "val div 262144 = a1" by (rule div_nat_eqI; insert assms; simp)
  then show "val div 2 ^ 18 mod 64 = a1" using assms by simp
  have "val div 4096 = (16 * a0 + b1) + 64 * a1" by (rule div_nat_eqI; insert assms; simp)
  then show "val div 2 ^ 12 mod 64 = 16 * a0 + b1" using assms by simp
  have "val div 64 = (4 * b0 + c1) + 64 * (64 * a1 + (16 * a0 + b1))" by (rule div_nat_eqI; insert assms; simp)
  then show "val div 2 ^ 6 mod 64 = 4 * b0 + c1" using assms(4,5) by (simp del: distrib_left_numeral)
  have "val = c0 + 64 * (4096 * a1 + 64 * (16 * a0 + b1) + (4 * b0 + c1))" using val by simp
  then show "val div 2 ^ 0 mod 64 = c0" using assms(6) by (simp del: distrib_left_numeral)
  have "(a1 * 262144 + (16 * a0 + b1) * 4096) div 65536 = 4 * a1 + a0" by (rule div_nat_eqI; insert assms; simp)
  then show "(a1 * 2 ^ 18 + (16 * a0 + b1) * 2 ^ 12) div 2 ^ 16 mod 256 = 4 * a1 + a0" using assms(1,2) by simp
  have "(a1 * 262144 + (16 * a0 + b1) * 4096 + (4 * b0 + c1) * 64) div 256 = (16 * b1 + b0) + 256 * (4 * a1 + a0)"
    by (rule div_nat_eqI; insert assms; simp)
  then show "(a1 * 2 ^ 18 + (16 * a0 + b1) * 2 ^ 12 + (4 * b0 + c1) * 2 ^ 6) div 2 ^ 8 mod 256 = 16 * b1 + b0"
    using assms(3,4) by (simp del: add_mult_distrib2 distrib_left_numeral)
  have eq: "a1 * 2 ^ 18 + (16 * a0 + b1) * 2 ^ 12 + (4 * b0 + c1) * 2 ^ 6 + c0 =
      (64 * c1 + c0) + 256 * (256 * (4 * a1 + a0) + (16 * b1 + b0))" by simp
  show "(a1 * 2 ^ 18 + (16 * a0 + b1) * 2 ^ 12 + (4 * b0 + c1) * 2 ^ 6 + c0) mod 256 = 64 * c1 + c0"
    unfolding eq mod_mult_self2 using assms(5,6) by simp
qed

lemma octet_parts:
  obtains q r :: nat where "of_char c = 4 * q + r" "q < 64" "r < 4"
  using of_char_le [of c] by (intro that [of "of_char c div 4" "of_char c mod 4"]) (simp_all add: div_less_iff_less_mult)

lemma octet_nibbles:
  obtains q r :: nat where "of_char c = 16 * q + r" "q < 16" "r < 16"
  using of_char_le [of c] by (intro that [of "of_char c div 16" "of_char c mod 16"]) (simp_all add: div_less_iff_less_mult)

lemma octet_top:
  obtains q r :: nat where "of_char c = 64 * q + r" "q < 4" "r < 64"
  using of_char_le [of c] by (intro that [of "of_char c div 64" "of_char c mod 64"]) (simp_all add: div_less_iff_less_mult)

lemma byte_eq: "of_char c = n \<Longrightarrow> byte n = c"
  by (metis byte_of_char)

lemma b64Loop_core: "b64Loop (b64Core s) = s"
proof (induction s rule: b64Core.induct)
  case (1 a b c s)
  obtain a1 a0 :: nat where a: "of_char a = 4 * a1 + a0" "a1 < 64" "a0 < 4" by (rule octet_parts)
  obtain b1 b0 :: nat where b: "of_char b = 16 * b1 + b0" "b1 < 16" "b0 < 16" by (rule octet_nibbles)
  obtain c1 c0 :: nat where c: "of_char c = 64 * c1 + c0" "c1 < 4" "c0 < 64" by (rule octet_top)
  note parts = b64_parts [OF a(2,3) b(2,3) c(2,3)]
  show ?case
    by (simp only: b64Core.simps b64Loop.simps Let_def b64Value_digit a(1) b(1) c(1) parts(1-4) [OF refl]
        parts(5-7) byte_eq [OF a(1)] byte_eq [OF b(1)] byte_eq [OF c(1)] 1)
next
  case (2 a b)
  obtain a1 a0 :: nat where a: "of_char a = 4 * a1 + a0" "a1 < 64" "a0 < 4" by (rule octet_parts)
  obtain b1 b0 :: nat where b: "of_char b = 16 * b1 + b0" "b1 < 16" "b0 < 16" by (rule octet_nibbles)
  note parts = b64_parts [OF a(2,3) b(2,3), of 0 0, OF _ _ refl]
  show ?case using parts
    by (simp only: b64Core.simps b64Loop.simps Let_def b64Value_digit a(1) b(1) byte_eq [OF a(1)] byte_eq [OF b(1)]
        mult_0_right add_0_right zero_less_numeral simp_thms)
next
  case (3 a)
  obtain a1 a0 :: nat where a: "of_char a = 4 * a1 + a0" "a1 < 64" "a0 < 4" by (rule octet_parts)
  note parts = b64_parts [OF a(2,3), of 0 0 0 0, OF _ _ _ _ refl]
  show ?case using parts
    by (simp only: b64Core.simps b64Loop.simps Let_def b64Value_digit a(1) byte_eq [OF a(1)]
        mult_0_right add_0_right zero_less_numeral simp_thms)
qed simp

interpretation base64: lossless_charset Base64_encode Base64_decode
  by unfold_locales (simp add: Base64_decode_def trimEquals_core b64Loop_core)

section \<open>Hexadecimal escapes: facts\<close>

lemma hex_digit_value:
  assumes "d < 16"
  shows "getHexDigitValue (HEX_DIGITS_UPPER ! d) = int d" "getHexDigitValue (HEX_DIGITS_LOWER ! d) = int d"
proof -
  have "list_all (\<lambda>d. getHexDigitValue (HEX_DIGITS_UPPER ! d) = int d \<and> getHexDigitValue (HEX_DIGITS_LOWER ! d) = int d) [0..<16]"
    by code_simp
  with assms show "getHexDigitValue (HEX_DIGITS_UPPER ! d) = int d" "getHexDigitValue (HEX_DIGITS_LOWER ! d) = int d"
    by (simp_all add: list_all_iff)
qed

lemma hex_octet: "of_char c div 16 < (16 :: nat)" "of_char c mod 16 < (16 :: nat)"
  "nat (16 * int (of_char c div 16) + int (of_char c mod 16)) = of_char c"
proof -
  show "of_char c div 16 < (16 :: nat)" using of_char_le [of c] by (simp add: div_less_iff_less_mult)
  show "of_char c mod 16 < (16 :: nat)" by simp
  have "16 * int (of_char c div 16) + int (of_char c mod 16) = int (16 * (of_char c div 16) + of_char c mod 16)"
    by (simp only: of_nat_add of_nat_mult of_nat_numeral)
  then show "nat (16 * int (of_char c div 16) + int (of_char c mod 16)) = of_char c" by (simp only: mult_div_mod_eq nat_int)
qed

lemma hex_decode_octet:
  "m_digits = HEX_DIGITS_UPPER \<or> m_digits = HEX_DIGITS_LOWER \<Longrightarrow>
   HexEncoding_decode (m_digits ! (of_char c div 16) # m_digits ! (of_char c mod 16) # s) = c # HexEncoding_decode s"
  using hex_octet [of c] by (auto simp: Let_def hex_digit_value)

lemma hex_decode_encode:
  "m_digits = HEX_DIGITS_UPPER \<or> m_digits = HEX_DIGITS_LOWER \<Longrightarrow> HexEncoding_decode (HexEncoding_encode m_digits s) = s"
  by (induction s) (simp_all add: HexEncoding_encode_def hex_decode_octet del: HexEncoding_decode.simps(2))

interpretation hex_upper: lossless_charset "HexEncoding_encode HEX_DIGITS_UPPER" HexEncoding_decode
  by unfold_locales (simp add: hex_decode_encode)

interpretation hex_lower: lossless_charset "HexEncoding_encode HEX_DIGITS_LOWER" HexEncoding_decode
  by unfold_locales (simp add: hex_decode_encode)

lemma unescape_octet:
  "unescape escape (HEX_DIGITS_UPPER ! (of_char c div 16)) (HEX_DIGITS_UPPER ! (of_char c mod 16)) = [c]"
  using hex_octet [of c] by (simp add: unescape_def Let_def hex_digit_value)

lemma url_decode_encode: "UrlEncoding_decode (UrlEncoding_encode s) = s"
  by (induction s) (auto simp: UrlEncoding_encode_def escapeOctet_def unescape_octet urlQuoted_def)

lemma qp_decode_encode: "QuotedPrintable_decode (QuotedPrintable_encode s) = s"
  by (induction s) (auto simp: QuotedPrintable_encode_def escapeOctet_def unescape_octet qpQuoted_def)

interpretation url: lossless_charset UrlEncoding_encode UrlEncoding_decode
  by unfold_locales (rule url_decode_encode)

interpretation quoted_printable: lossless_charset QuotedPrintable_encode QuotedPrintable_decode
  by unfold_locales (rule qp_decode_encode)

interpretation utf8: lossless_charset Utf8Charset_encode Utf8Charset_decode
  by unfold_locales (simp add: Utf8Charset_encode_def Utf8Charset_decode_def)

section \<open>Code pages: facts\<close>

text \<open>A code page that distinguishes its characters, all of them outside ASCII and valid.\<close>

definition cp_char_ok :: "nat \<Rightarrow> bool" where
  "cp_char_ok ch \<longleftrightarrow> 0x80 \<le> ch \<and> (ch < 0xD800 \<or> 0xE000 \<le> ch \<and> ch < 0xFFFE)"

definition cp_ok :: "codepage \<Rightarrow> bool" where
  "cp_ok cp \<longleftrightarrow> length cp = 128 \<and> distinct cp \<and> list_all cp_char_ok cp"

lemma eat_valid:
  "ch < 0x80 \<or> cp_char_ok ch \<Longrightarrow> Utf8Reader_eat {} (Utf8_append {} [] ch @ rest) = (ch, rest)"
  by (rule decode_append)
    (auto simp: cp_char_ok_def unicode_consts isHighSurrogate_def isLowSurrogate_def)

lemma decode_valid:
  "list_all (\<lambda>ch. ch < 0x80 \<or> cp_char_ok ch) chs \<Longrightarrow> decode {} (concat (map (Utf8_append {} []) chs)) = chs"
proof (induction chs)
  case Nil
  show ?case by (simp add: decode.simps)
next
  case (Cons ch chs)
  then have "ch < 0x80 \<or> cp_char_ok ch" by simp
  then have eat: "Utf8Reader_eat {} (Utf8_append {} [] ch @ rest) = (ch, rest)" for rest by (rule eat_valid)
  have "Utf8_append {} [] ch \<noteq> []" by (auto simp: Utf8_append_def appendOne_def)
  with Cons eat show ?case by (subst decode.simps) simp
qed

definition cp_char :: "codepage \<Rightarrow> octet \<Rightarrow> nat" where
  "cp_char cp c = (if of_char c < (0x80 :: nat) then of_char c else cp ! (of_char c - 0x80))"

lemma Utf8_append_result: "Utf8_append flags s ch = s @ Utf8_append flags [] ch"
  by (simp add: Utf8_append_def Let_def)

lemma codepage_decode: "CodepageCharset_decode cp s = concat (map (\<lambda>c. Utf8_append {} [] (cp_char cp c)) s)"
proof -
  have "foldl (\<lambda>result ch. Utf8_append {} result (cp_char cp ch)) r s = r @ concat (map (\<lambda>c. Utf8_append {} [] (cp_char cp c)) s)" for r
  proof (induction s arbitrary: r)
    case (Cons c s)
    show ?case by (simp add: Cons.IH Utf8_append_result [of _ r])
  qed simp
  then show ?thesis by (simp add: CodepageCharset_decode_def cp_char_def [symmetric])
qed

lemma encode_cp_char:
  assumes "cp_ok cp"
  shows "encodeCharacter cp (cp_char cp c) = [c]" "cp_char cp c < 0x80 \<or> cp_char_ok (cp_char cp c)"
proof -
  have i: "of_char c - 0x80 < length cp" if "\<not> of_char c < (0x80 :: nat)"
    using assms that of_char_le [of c] by (simp add: cp_ok_def)
  then have ok: "cp_char_ok (cp ! (of_char c - 0x80))" if "\<not> of_char c < (0x80 :: nat)"
    using assms that by (simp add: cp_ok_def list_all_iff)
  then show "cp_char cp c < 0x80 \<or> cp_char_ok (cp_char cp c)" by (simp add: cp_char_def)
  show "encodeCharacter cp (cp_char cp c) = [c]"
    using assms ok i memchr_nth [of cp "of_char c - 0x80"]
    by (cases "of_char c < (0x80 :: nat)") (auto simp: encodeCharacter_def cp_char_def cp_char_ok_def cp_ok_def intro: byte_eq)
qed

lemma codepage_restores:
  assumes "cp_ok cp"
  shows "CodepageCharset_encode cp (CodepageCharset_decode cp s) = s"
proof -
  have "decode {} (concat (map (Utf8_append {} []) (map (cp_char cp) s))) = map (cp_char cp) s"
    using encode_cp_char(2) [OF assms] by (intro decode_valid) (auto simp: list_all_iff)
  then have "CodepageCharset_encode cp (CodepageCharset_decode cp s) = concat (map (\<lambda>c. encodeCharacter cp (cp_char cp c)) s)"
    by (simp add: CodepageCharset_encode_def codepage_decode comp_def)
  then show ?thesis by (simp add: encode_cp_char(1) [OF assms])
qed

lemma distinct_via_int: "distinct (map int xs) \<Longrightarrow> distinct xs"
  by (simp add: distinct_map)

lemma cp437_ok: "cp_ok g_codepage437"
proof -
  have "distinct (map int g_codepage437)" unfolding g_codepage437_def list.map of_nat_numeral by code_simp
  then show ?thesis by (simp add: cp_ok_def distinct_via_int) (simp add: g_codepage437_def cp_char_ok_def)
qed

lemma cp850_ok: "cp_ok g_codepage850"
proof -
  have "distinct (map int g_codepage850)" unfolding g_codepage850_def list.map of_nat_numeral by code_simp
  then show ?thesis by (simp add: cp_ok_def distinct_via_int) (simp add: g_codepage850_def cp_char_ok_def)
qed

lemma cp852_ok: "cp_ok g_codepage852"
proof -
  have "distinct (map int g_codepage852)" unfolding g_codepage852_def list.map of_nat_numeral by code_simp
  then show ?thesis by (simp add: cp_ok_def distinct_via_int) (simp add: g_codepage852_def cp_char_ok_def)
qed

lemma cp866_ok: "cp_ok g_codepage866"
proof -
  have "distinct (map int g_codepage866)" unfolding g_codepage866_def list.map of_nat_numeral by code_simp
  then show ?thesis by (simp add: cp_ok_def distinct_via_int) (simp add: g_codepage866_def cp_char_ok_def)
qed

lemma cpKOI8R_ok: "cp_ok g_codepageKOI8R"
proof -
  have "distinct (map int g_codepageKOI8R)" unfolding g_codepageKOI8R_def list.map of_nat_numeral by code_simp
  then show ?thesis by (simp add: cp_ok_def distinct_via_int) (simp add: g_codepageKOI8R_def cp_char_ok_def)
qed

lemma cpLatin1_ok: "cp_ok g_codepageLatin1"
proof -
  have "distinct (map int g_codepageLatin1)" unfolding g_codepageLatin1_def list.map of_nat_numeral by code_simp
  then show ?thesis by (simp add: cp_ok_def distinct_via_int) (simp add: g_codepageLatin1_def cp_char_ok_def)
qed

lemma cpLatin2_ok: "cp_ok g_codepageLatin2"
proof -
  have "distinct (map int g_codepageLatin2)" unfolding g_codepageLatin2_def list.map of_nat_numeral by code_simp
  then show ?thesis by (simp add: cp_ok_def distinct_via_int) (simp add: g_codepageLatin2_def cp_char_ok_def)
qed

text \<open>
  Two entries that lose information: the micro sign of ISO 8859-1 is entered as the Greek letter, so
  that U+00B5 cannot be encoded; octet 0x88 of code page 1252 becomes an ASCII character.
\<close>

lemma latin1_micro_sign: "CodepageCharset_encode g_codepageLatin1 (Utf8_append {} [] 0xB5) = []"
proof -
  have "decode {} (concat (map (Utf8_append {} []) [0xB5])) = [0xB5]" by (rule decode_valid) (simp add: cp_char_ok_def)
  moreover have "memchr g_codepageLatin1 0xB5 = None" by (simp add: g_codepageLatin1_def)
  ultimately show ?thesis by (simp add: CodepageCharset_encode_def encodeCharacter_def)
qed

lemma cp1252_circumflex: "CodepageCharset_decode g_codepage1252 [byte 0x88] = ''^''"
  by (simp add: codepage_decode cp_char_def g_codepage1252_def Utf8_append_def byte_eq)

section \<open>Properties\<close>

lemma base64_length: "length (Base64_encode s) = (length s + 2) div 3 * 4"
proof (induction s rule: Base64_encode.induct)
  case (1 a b c s)
  have "(length (a # b # c # s) + 2) div 3 = (length s + 2) div 3 + 1" by simp
  with 1 show ?case by (simp only: Base64_encode.simps Let_def list.size) simp
qed (simp_all add: Let_def)

text \<open>
  C34: The transport encodings lose nothing: base64, hexadecimal (with either set of digits), URL
  encoding and quoted-printable decode what they have encoded to the original octets, whatever
  these are; base64 needs four octets for every three begun.
\<close>

theorem transport_encodings_lossless:
  "Base64_decode (Base64_encode s) = s \<and> length (Base64_encode s) = (length s + 2) div 3 * 4 \<and>
   HexEncoding_decode (HexEncoding_encode HEX_DIGITS_UPPER s) = s \<and>
   HexEncoding_decode (HexEncoding_encode HEX_DIGITS_LOWER s) = s \<and>
   UrlEncoding_decode (UrlEncoding_encode s) = s \<and>
   QuotedPrintable_decode (QuotedPrintable_encode s) = s"
  by (simp only: base64.decode_encode base64_length hex_upper.decode_encode hex_lower.decode_encode
      url.decode_encode quoted_printable.decode_encode simp_thms)

text \<open> Text in one of the MS-DOS, KOI8 and ISO code pages survives the way through UTF-8: every
  sequence of octets is restored by decoding and encoding it. (The Windows code pages have
  unassigned octets.)
\<close>

theorem codepage_roundtrip:
  "list_all (\<lambda>cp. CodepageCharset_encode cp (CodepageCharset_decode cp s) = s)
     [g_codepage437, g_codepage850, g_codepage852, g_codepage866, g_codepageKOI8R, g_codepageLatin1, g_codepageLatin2]"
  by (simp add: codepage_restores cp437_ok cp850_ok cp852_ok cp866_ok cpKOI8R_ok cpLatin1_ok cpLatin2_ok)

end
