(* ===== verification/Afl_Net.thy ===== *)
theory Afl_Net
  imports Afl_Data Afl_Encoding
begin

text \<open>
  Texts of network protocols, from afl/net: host names with service (name.cpp), URLs (url.cpp),
  form parameters in both directions (parameterencoder.cpp, http/formparser.cpp), and the header of
  a message: its fields (headerfield.cpp), the table of them (headertable.cpp) and the incremental
  parser (headerparser.cpp).

  A \<open>HeaderConsumer\<close> is called with one name and value after the other; it is the list of
  the pairs it was called with. \<open>String_t::npos\<close> is \<open>None\<close>.
\<close>

section \<open>Searching in strings\<close>

definition find_pos :: "('a \<Rightarrow> bool) \<Rightarrow> nat \<Rightarrow> 'a list \<Rightarrow> nat option" where
  "find_pos P n s =
     (let r = takeWhile (\<lambda>c. \<not> P c) (drop n s) in if n + length r < length s then Some (n + length r) else None)"

definition rfind_pos :: "('a \<Rightarrow> bool) \<Rightarrow> nat \<Rightarrow> 'a list \<Rightarrow> nat option" where
  "rfind_pos P n s = prevWhere (\<lambda>j. P (s ! j)) (min (n + 1) (length s))"

section \<open>Names\<close>

record net_name =
  m_name :: string
  m_service :: string

definition Name_isValid :: "net_name \<Rightarrow> bool" where
  "Name_isValid nm \<longleftrightarrow> m_name nm \<noteq> [] \<and> m_service nm \<noteq> []"

definition Name_setService :: "nat \<Rightarrow> net_name \<Rightarrow> net_name" where
  "Name_setService port nm = nm\<lparr>m_service := dec_nat port\<rparr>"

definition Name_parse :: "string \<Rightarrow> string \<Rightarrow> net_name" where
  "Name_parse name defaultService =
     (let plain =
        (case find_pos (\<lambda>c. c = CHR '':'') 0 name of
           Some n \<Rightarrow> \<lparr>m_name = take n name, m_service = drop (n + 1) name\<rparr>
         | None \<Rightarrow> \<lparr>m_name = name, m_service = defaultService\<rparr>)
      in if name \<noteq> [] \<and> name ! 0 = CHR ''['' then
           (case find_pos (\<lambda>c. c = CHR '']'') 0 name of
              None \<Rightarrow> plain
            | Some n \<Rightarrow>
                if n + 1 < length name \<and> name ! (n + 1) = CHR '':''
                then \<lparr>m_name = substr name 1 (n - 1), m_service = drop (n + 2) name\<rparr>
                else if n = length name - 1 then \<lparr>m_name = substr name 1 (n - 1), m_service = defaultService\<rparr>
                else plain)
         else plain)"

definition Name_toString :: "net_name \<Rightarrow> string" where
  "Name_toString nm =
     (if Name_isValid nm
      then (if CHR '':'' \<in> set (m_name nm) then ''['' @ m_name nm @ '']'' else m_name nm) @ '':'' @ m_service nm
      else [])"

section \<open>URLs\<close>

record url =
  m_scheme :: string
  m_user :: string
  m_password :: string
  m_host :: string
  m_port :: string
  m_path :: string
  m_fragment :: string

definition Url_init :: url where
  "Url_init = \<lparr>m_scheme = [], m_user = [], m_password = [], m_host = [], m_port = [], m_path = [], m_fragment = []\<rparr>"

text \<open>
  The steps of \<open>parse\<close>. Each has the position to go on at; a step that finds an error leaves
  what was stored so far (\<open>Inl\<close>), and \<open>parse\<close> returns false.
\<close>

definition parseScheme :: "string \<Rightarrow> url \<Rightarrow> url \<times> nat" where
  "parseScheme s u =
     (case find_pos (\<lambda>c. c \<in> set ''@:/#'') 0 s of
        Some n \<Rightarrow> if n \<noteq> 0 \<and> s ! n = CHR '':'' then (u\<lparr>m_scheme := UrlEncoding_decode (take n s)\<rparr>, n + 1) else (u, 0)
      | None \<Rightarrow> (u, 0))"

definition parseUser :: "string \<Rightarrow> url \<Rightarrow> nat \<Rightarrow> url + url \<times> nat" where
  "parseUser s u n =
     (case find_pos (\<lambda>c. c = CHR ''@'') n s of
        None \<Rightarrow> Inr (u\<lparr>m_user := [], m_password := []\<rparr>, n)
      | Some atPos \<Rightarrow>
          if atPos = n then Inl u
          else
            (let userOnly = Inr (u\<lparr>m_user := UrlEncoding_decode (substr s n (atPos - n)), m_password := []\<rparr>, atPos + 1)
             in case find_pos (\<lambda>c. c = CHR '':'') n s of
                  None \<Rightarrow> userOnly
                | Some colonPos \<Rightarrow>
                    if colonPos = n then Inl u
                    else if colonPos < atPos
                    then Inr (u\<lparr>m_user := UrlEncoding_decode (substr s n (colonPos - n)),
                                m_password := UrlEncoding_decode (substr s (colonPos + 1) (atPos - colonPos - 1))\<rparr>, atPos + 1)
                    else userOnly))"

definition parseHost :: "string \<Rightarrow> url \<Rightarrow> nat \<Rightarrow> url + url \<times> nat" where
  "parseHost s u n =
     (if n < length s \<and> s ! n = CHR ''['' then
        (case find_pos (\<lambda>c. c = CHR '']'') n s of
           None \<Rightarrow> Inl u
         | Some bracketPos \<Rightarrow>
             if bracketPos = n then Inl u
             else
               (let u = u\<lparr>m_host := UrlEncoding_decode (substr s (n + 1) (bracketPos - n - 1))\<rparr>; n = bracketPos + 1
                in if n < length s \<and> s ! n \<noteq> CHR '':'' \<and> s ! n \<noteq> CHR ''/'' \<and> s ! n \<noteq> CHR ''#''
                   then Inl u else Inr (u, n)))
      else
        (case find_pos (\<lambda>c. c \<in> set '':/#?'') n s of
           Some endPos \<Rightarrow> Inr (u\<lparr>m_host := UrlEncoding_decode (substr s n (endPos - n))\<rparr>, endPos)
         | None \<Rightarrow> Inr (u\<lparr>m_host := UrlEncoding_decode (drop n s)\<rparr>, length s)))"

definition parsePort :: "string \<Rightarrow> url \<Rightarrow> nat \<Rightarrow> url + url \<times> nat" where
  "parsePort s u n =
     (if n < length s \<and> s ! n = CHR '':'' then
        (let n = n + 1
         in case find_pos (\<lambda>c. c \<notin> set ''0123456789'') n s of
              None \<Rightarrow> Inr (u\<lparr>m_port := UrlEncoding_decode (drop n s)\<rparr>, length s)
            | Some portEndPos \<Rightarrow>
                if portEndPos = n then Inl u
                else
                  (let u = u\<lparr>m_port := UrlEncoding_decode (substr s n (portEndPos - n))\<rparr>; n = portEndPos
                   in if s ! n \<noteq> CHR ''/'' \<and> s ! n \<noteq> CHR ''#'' \<and> s ! n \<noteq> CHR ''?'' then Inl u else Inr (u, n)))
      else Inr (u, n))"

definition parsePath :: "string \<Rightarrow> bool \<Rightarrow> url \<Rightarrow> nat \<Rightarrow> url" where
  "parsePath s forceRoot u n =
     (let u = (case find_pos (\<lambda>c. c = CHR ''#'') n s of
                 Some fragPos \<Rightarrow> u\<lparr>m_path := substr s n (fragPos - n), m_fragment := UrlEncoding_decode (drop fragPos s)\<rparr>
               | None \<Rightarrow> u\<lparr>m_path := drop n s, m_fragment := []\<rparr>)
      in if forceRoot \<and> (m_path u = [] \<or> m_path u ! 0 \<noteq> CHR ''/'') then u\<lparr>m_path := CHR ''/'' # m_path u\<rparr> else u)"

definition Url_parse :: "string \<Rightarrow> bool \<times> url" where
  "Url_parse s =
     (case parseScheme s Url_init of (u, n) \<Rightarrow>
        if length s - n \<ge> 2 \<and> substr s n 2 = ''//'' then
          (case parseUser s u (n + 2) of
             Inl u \<Rightarrow> (False, u)
           | Inr (u, n) \<Rightarrow>
               (case parseHost s u n of
                  Inl u \<Rightarrow> (False, u)
                | Inr (u, n) \<Rightarrow>
                    (case parsePort s u n of
                       Inl u \<Rightarrow> (False, u)
                     | Inr (u, n) \<Rightarrow> (True, parsePath s True u n))))
        else (True, parsePath s False u n))"

definition Url_isNull :: "url \<Rightarrow> bool" where
  "Url_isNull u \<longleftrightarrow> m_scheme u = [] \<and> m_path u = [] \<and> m_fragment u = []"

definition Url_isValid :: "url \<Rightarrow> bool" where
  "Url_isValid u \<longleftrightarrow> m_scheme u \<noteq> [] \<and> m_path u \<noteq> []"

definition Url_isValidId :: "url \<Rightarrow> bool" where
  "Url_isValidId u \<longleftrightarrow> m_scheme u \<noteq> [] \<and> m_path u \<noteq> [] \<and> m_host u = []"

definition Url_isValidHost :: "url \<Rightarrow> bool" where
  "Url_isValidHost u \<longleftrightarrow> m_scheme u \<noteq> [] \<and> m_path u \<noteq> [] \<and> m_host u \<noteq> []"

definition Url_getName :: "string \<Rightarrow> url \<Rightarrow> net_name" where
  "Url_getName service u = \<lparr>m_name = m_host u, m_service = (if m_port u \<noteq> [] then m_port u else service)\<rparr>"

definition Url_setName :: "net_name \<Rightarrow> url \<Rightarrow> url" where
  "Url_setName nm u = u\<lparr>m_host := m_name nm, m_port := m_service nm\<rparr>"

definition Url_toString :: "url \<Rightarrow> string" where
  "Url_toString u =
     (if m_scheme u \<noteq> [] then m_scheme u @ '':'' else []) @
     (if m_host u \<noteq> [] then
        ''//'' @ (if m_user u \<noteq> [] then m_user u @ '':'' @ m_password u @ ''@'' else []) @
        (if CHR '':'' \<in> set (m_host u) then ''['' @ m_host u @ '']'' else m_host u) @
        (if m_port u \<noteq> [] then '':'' @ m_port u else []) @
        (if m_path u = [] \<or> m_path u ! 0 \<noteq> CHR ''/'' then ''/'' else [])
      else []) @
     m_path u @ m_fragment u"

subsection \<open>Merging\<close>

text \<open>The accumulated path ends in a slash, or is empty.\<close>

definition dropComponent :: "string \<Rightarrow> string" where
  "dropComponent result =
     (if length result \<ge> 2
      then (case rfind_pos (\<lambda>c. c = CHR ''/'') (length result - 2) result of
              Some d \<Rightarrow> take (d + 1) result | None \<Rightarrow> ''/'')
      else ''/'')"

definition dropFinal :: "string \<Rightarrow> string" where
  "dropFinal result =
     (if length result \<ge> 2
      then (case rfind_pos (\<lambda>c. c = CHR ''/'') (length result - 2) result of
              Some d \<Rightarrow> take d result | None \<Rightarrow> ''/'')
      else ''/'')"

text \<open>\<open>right\<close> is what is left from the position \<open>n\<close> of the code.\<close>

function mergeLoop :: "string \<Rightarrow> string \<Rightarrow> string" where
  "mergeLoop result right =
     (if CHR ''/'' \<in> set right then
        (let component = takeWhile (\<lambda>c. c \<noteq> CHR ''/'') right; right = drop (length component + 1) right
         in mergeLoop
              (if component = ''..'' then dropComponent result
               else if component = ''.'' then result
               else result @ component @ ''/'') right)
      else if right = ''..'' then dropFinal result
      else if right = ''.'' then result
      else result @ right)"
  by pat_completeness auto
termination
  by (relation "measure (\<lambda>(result, right). length right)") (auto simp: in_set_conv_decomp)

declare mergeLoop.simps [simp del]

definition mergePath :: "string \<Rightarrow> string \<Rightarrow> string" where
  "mergePath left right =
     mergeLoop (case rfind_pos (\<lambda>c. c = CHR ''/'') (length left) left of Some n \<Rightarrow> take (n + 1) left | None \<Rightarrow> left) right"

definition mergeFrom :: "url \<Rightarrow> url \<Rightarrow> url" where
  "mergeFrom other u =
     (let keep = (m_scheme u \<noteq> []);
          u = (if m_scheme u = [] then u\<lparr>m_scheme := m_scheme other\<rparr> else u);
          copy = (m_host u = [] \<and> \<not> keep);
          u = (if copy then u\<lparr>m_host := m_host other, m_port := m_port other, m_user := m_user other,
                              m_password := m_password other\<rparr> else u);
          keep = \<not> copy
      in if \<not> keep then
           (if m_path u \<noteq> [] \<and> m_path u ! 0 = CHR ''/'' then u
            else if m_path u = [] then u\<lparr>m_path := m_path other\<rparr>
            else u\<lparr>m_path := mergePath (m_path other) (m_path u)\<rparr>)
         else u)"

section \<open>Paths and arguments\<close>

definition matchPath :: "string \<Rightarrow> string \<Rightarrow> string option" where
  "matchPath path prefix =
     (if path = prefix then Some []
      else if length path > length prefix \<and> take (length prefix) path = prefix
           \<and> (path ! length prefix = CHR ''?'' \<or> path ! length prefix = CHR ''/'')
      then Some (drop (length prefix) path)
      else None)"

type_synonym header = "string \<times> string"

text \<open>
  One round of the loop of \<open>matchArguments\<close>, for the text after a \<open>?\<close> or \<open>&\<close>; \<open>end\<close> is
  the position of the next \<open>&\<close> in it.
\<close>

definition oneArgument :: "string \<Rightarrow> nat \<Rightarrow> header list" where
  "oneArgument rest end1 =
     (case find_pos (\<lambda>c. c = CHR ''='') 0 rest of
        Some eq \<Rightarrow>
          if eq < end1
          then [(UrlEncoding_decode (take eq rest), UrlEncoding_decode (substr rest (eq + 1) (end1 - eq - 1)))]
          else if end1 \<noteq> 0 then [(UrlEncoding_decode (take end1 rest), [])] else []
      | None \<Rightarrow> if end1 \<noteq> 0 then [(UrlEncoding_decode (take end1 rest), [])] else [])"

function argumentsLoop :: "string \<Rightarrow> header list" where
  "argumentsLoop s =
     (case s of
        [] \<Rightarrow> []
      | c # rest \<Rightarrow>
          (let end1 = (case find_pos (\<lambda>c. c = CHR ''&'') 0 rest of Some p \<Rightarrow> p | None \<Rightarrow> length rest)
           in oneArgument rest end1 @ argumentsLoop (drop end1 rest)))"
  by pat_completeness auto
termination by (relation "measure length") auto

declare argumentsLoop.simps [simp del]

definition matchArguments :: "string \<Rightarrow> header list \<times> string" where
  "matchArguments path =
     (case find_pos (\<lambda>c. c = CHR ''?'') 0 path of
        Some p \<Rightarrow> (argumentsLoop (drop p path), take p path)
      | None \<Rightarrow> ([], path))"

section \<open>Form parameters\<close>

record parameter_encoder =
  pe_result :: string
  pe_first :: bool
  pe_firstDelimiter :: char

definition ParameterEncoder_init :: "string \<Rightarrow> char \<Rightarrow> parameter_encoder" where
  "ParameterEncoder_init result firstDelimiter =
     \<lparr>pe_result = result, pe_first = True, pe_firstDelimiter = firstDelimiter\<rparr>"

definition ParameterEncoder_handleHeader :: "string \<Rightarrow> string \<Rightarrow> parameter_encoder \<Rightarrow> parameter_encoder" where
  "ParameterEncoder_handleHeader key val pe =
     (let pe = (if pe_first pe
                then pe\<lparr>pe_result := pe_result pe @ (if pe_firstDelimiter pe \<noteq> CHR 0x00 then [pe_firstDelimiter pe] else []),
                        pe_first := False\<rparr>
                else pe\<lparr>pe_result := pe_result pe @ ''&''\<rparr>)
      in pe\<lparr>pe_result := pe_result pe @ UrlEncoding_encode key @ ''='' @ UrlEncoding_encode val\<rparr>)"

datatype form_state = FormKey | FormValue

record form_parser =
  form_consumer :: "header list"
  form_state :: form_state
  form_key :: string
  form_value :: string

definition FormParser_init :: form_parser where
  "FormParser_init = \<lparr>form_consumer = [], form_state = FormKey, form_key = [], form_value = []\<rparr>"

definition handleDataComplete :: "form_parser \<Rightarrow> form_parser" where
  "handleDataComplete fp =
     (let fp = (if form_key fp \<noteq> [] \<or> form_value fp \<noteq> []
                then fp\<lparr>form_consumer := form_consumer fp @ [(UrlEncoding_decode (form_key fp), UrlEncoding_decode (form_value fp))],
                        form_key := [], form_value := []\<rparr>
                else fp)
      in fp\<lparr>form_state := FormKey\<rparr>)"

definition FormParser_step :: "form_parser \<Rightarrow> octet \<Rightarrow> form_parser" where
  "FormParser_step fp c =
     (if c = CHR ''&'' then handleDataComplete fp
      else if form_state fp = FormKey
      then (if c = CHR ''='' then fp\<lparr>form_state := FormValue\<rparr> else fp\<lparr>form_key := form_key fp @ [c]\<rparr>)
      else fp\<lparr>form_value := form_value fp @ [c]\<rparr>)"

definition FormParser_handleData :: "octet list \<Rightarrow> form_parser \<Rightarrow> form_parser" where
  "FormParser_handleData data fp = foldl FormParser_step fp data"

section \<open>Arguments: facts\<close>

text \<open>The reference: the text is cut at every \<open>&\<close>, and each piece at its first \<open>=\<close>.\<close>

function segments :: "string \<Rightarrow> string list" where
  "segments s =
     (if CHR ''&'' \<in> set s
      then takeWhile (\<lambda>c. c \<noteq> CHR ''&'') s # segments (tl (dropWhile (\<lambda>c. c \<noteq> CHR ''&'') s))
      else [s])"
  by pat_completeness auto
termination
proof (relation "measure length")
  fix s :: string
  assume "CHR ''&'' \<in> set s"
  then have "dropWhile (\<lambda>c. c \<noteq> CHR ''&'') s \<noteq> []" by simp
  then have "length (tl (dropWhile (\<lambda>c. c \<noteq> CHR ''&'') s)) < length (dropWhile (\<lambda>c. c \<noteq> CHR ''&'') s)" by simp
  also have "\<dots> \<le> length s" by (rule length_dropWhile_le)
  finally show "(tl (dropWhile (\<lambda>c. c \<noteq> CHR ''&'') s), s) \<in> measure length" by simp
qed simp

declare segments.simps [simp del]

definition segmentHeaders :: "string \<Rightarrow> header list" where
  "segmentHeaders seg =
     (if CHR ''='' \<in> set seg
      then [(UrlEncoding_decode (takeWhile (\<lambda>c. c \<noteq> CHR ''='') seg),
             UrlEncoding_decode (tl (dropWhile (\<lambda>c. c \<noteq> CHR ''='') seg)))]
      else if seg \<noteq> [] then [(UrlEncoding_decode seg, [])] else [])"

lemma find_pos_0:
  "find_pos P 0 s = (if \<exists>c\<in>set s. P c then Some (length (takeWhile (\<lambda>c. \<not> P c) s)) else None)"
proof (cases "\<exists>c\<in>set s. P c")
  case True
  then have "takeWhile (\<lambda>c. \<not> P c) s \<noteq> s" by (auto simp: takeWhile_eq_all_conv)
  then have "length (takeWhile (\<lambda>c. \<not> P c) s) < length s"
    by (metis length_takeWhile_le nat_less_le takeWhile_eq_take take_all_iff order_refl)
  with True show ?thesis by (simp add: find_pos_def)
next
  case False
  then have "length (takeWhile (\<lambda>c. \<not> P c) s) = length s" by (simp add: takeWhile_all)
  with False show ?thesis by (simp add: find_pos_def)
qed

lemma first_segment:
  "segments s = takeWhile (\<lambda>c. c \<noteq> CHR ''&'') s # (if CHR ''&'' \<in> set s then segments (tl (dropWhile (\<lambda>c. c \<noteq> CHR ''&'') s)) else [])"
  by (subst segments.simps) simp

lemma oneArgument_segment:
  "oneArgument s (length (takeWhile (\<lambda>c. c \<noteq> CHR ''&'') s)) = segmentHeaders (takeWhile (\<lambda>c. c \<noteq> CHR ''&'') s)"
proof -
  define seg where "seg = takeWhile (\<lambda>c. c \<noteq> CHR ''&'') s"
  obtain r where s: "s = seg @ r" unfolding seg_def by (metis takeWhile_dropWhile_id)
  have len: "length (takeWhile (\<lambda>c. c \<noteq> CHR ''='') seg) < length seg" if "CHR ''='' \<in> set seg"
    using that find_pos_0 [of "\<lambda>c. c = CHR ''=''" seg] by (auto simp: find_pos_def Let_def split: if_splits)
  have eq: "find_pos (\<lambda>c. c = CHR ''='') 0 s = Some (length (takeWhile (\<lambda>c. c \<noteq> CHR ''='') seg))" if "CHR ''='' \<in> set seg"
    using that by (simp add: s find_pos_0 takeWhile_append1)
  have ge: "length seg \<le> n" if "find_pos (\<lambda>c. c = CHR ''='') 0 s = Some n" "CHR ''='' \<notin> set seg" for n
    using that by (auto simp: s find_pos_0 split: if_splits)
  show ?thesis
  proof (cases "CHR ''='' \<in> set seg")
    case True
    let ?k = "takeWhile (\<lambda>c. c \<noteq> CHR ''='') seg"
    have drop: "dropWhile (\<lambda>c. c \<noteq> CHR ''='') seg = drop (length ?k) seg" by (simp add: dropWhile_eq_drop)
    have "take (length ?k) s = ?k" using len [OF True] by (simp add: s takeWhile_eq_take [symmetric])
    moreover have "substr s (length ?k + 1) (length seg - length ?k - 1) = tl (dropWhile (\<lambda>c. c \<noteq> CHR ''='') seg)"
      using len [OF True] by (simp add: s substr_def drop tl_drop drop_Suc)
    ultimately show ?thesis
      using True len [OF True] eq [OF True] by (simp add: oneArgument_def segmentHeaders_def seg_def [symmetric])
  next
    case False
    moreover have "take (length seg) s = seg" by (simp add: s)
    ultimately show ?thesis using ge
      by (auto simp: oneArgument_def segmentHeaders_def seg_def [symmetric] split: option.split)
  qed
qed

lemma argumentsLoop_segments: "argumentsLoop (c # s) = concat (map segmentHeaders (segments s))"
proof (induction "length s" arbitrary: c s rule: less_induct)
  case less
  let ?seg = "takeWhile (\<lambda>c. c \<noteq> CHR ''&'') s"
  let ?rest = "dropWhile (\<lambda>c. c \<noteq> CHR ''&'') s"
  have end1: "(case find_pos (\<lambda>c. c = CHR ''&'') 0 s of Some p \<Rightarrow> p | None \<Rightarrow> length s) = length ?seg"
    by (simp add: find_pos_0)
  have "argumentsLoop (c # s) = segmentHeaders ?seg @ argumentsLoop ?rest"
    by (subst argumentsLoop.simps) (simp add: end1 oneArgument_segment dropWhile_eq_drop [symmetric])
  also have "argumentsLoop ?rest = (if CHR ''&'' \<in> set s then concat (map segmentHeaders (segments (tl ?rest))) else [])"
  proof (cases "?rest")
    case Nil
    then have "CHR ''&'' \<notin> set s" by auto
    then show ?thesis by (simp add: argumentsLoop.simps [of "[]"])
  next
    case (Cons d rest)
    then have "d = CHR ''&''" using hd_dropWhile [of "\<lambda>c. c \<noteq> CHR ''&''" s] by simp
    then have "CHR ''&'' \<in> set s" using Cons set_dropWhileD [of d _ s] by (metis list.set_intros(1))
    moreover have "length rest < length s" using Cons length_dropWhile_le [of "\<lambda>c. c \<noteq> CHR ''&''" s] by simp
    ultimately show ?thesis using less Cons by simp
  qed
  also have "segmentHeaders ?seg @ (if CHR ''&'' \<in> set s then concat (map segmentHeaders (segments (tl ?rest))) else []) =
      concat (map segmentHeaders (segments s))"
    by (subst (2) first_segment) simp
  finally show ?case .
qed

lemma UrlEncoding_decode_eq_Nil [simp]: "UrlEncoding_decode s = [] \<longleftrightarrow> s = []"
proof (cases s)
  case (Cons c r)
  show ?thesis
  proof (cases "c = CHR ''%'' \<and> 2 \<le> length r")
    case True
    then obtain p q r' where "r = p # q # r'" by (cases r; cases "tl r") auto
    with Cons True show ?thesis by (simp add: unescape_def Let_def)
  next
    case False
    with Cons show ?thesis by auto
  qed
qed simp

text \<open>The form parser on one segment: first the value, then the key.\<close>

lemma form_value_loop:
  "form_state fp = FormValue \<Longrightarrow> CHR ''&'' \<notin> set seg \<Longrightarrow>
   foldl FormParser_step fp seg = fp\<lparr>form_value := form_value fp @ seg\<rparr>"
  by (induction seg arbitrary: fp) (auto simp: FormParser_step_def)

lemma form_key_loop:
  "form_state fp = FormKey \<Longrightarrow> form_value fp = [] \<Longrightarrow> CHR ''&'' \<notin> set seg \<Longrightarrow>
   foldl FormParser_step fp seg =
     (if CHR ''='' \<in> set seg
      then fp\<lparr>form_state := FormValue, form_key := form_key fp @ takeWhile (\<lambda>c. c \<noteq> CHR ''='') seg,
              form_value := tl (dropWhile (\<lambda>c. c \<noteq> CHR ''='') seg)\<rparr>
      else fp\<lparr>form_key := form_key fp @ seg\<rparr>)"
proof (induction seg arbitrary: fp)
  case (Cons c seg)
  show ?case
  proof (cases "c = CHR ''=''")
    case True
    with Cons.prems have "FormParser_step fp c = fp\<lparr>form_state := FormValue\<rparr>" by (simp add: FormParser_step_def)
    with True Cons.prems show ?thesis by (simp add: form_value_loop)
  next
    case False
    with Cons.prems have "FormParser_step fp c = fp\<lparr>form_key := form_key fp @ [c]\<rparr>"
      by (auto simp: FormParser_step_def)
    with False Cons show ?thesis by auto
  qed
qed simp

definition form_clean :: "form_parser \<Rightarrow> bool" where
  "form_clean fp \<longleftrightarrow> form_state fp = FormKey \<and> form_key fp = [] \<and> form_value fp = []"

lemma form_segment:
  assumes "form_clean fp" "CHR ''&'' \<notin> set seg"
  shows "handleDataComplete (foldl FormParser_step fp seg) =
    fp\<lparr>form_consumer := form_consumer fp @ filter (\<lambda>h. h \<noteq> ([], [])) (segmentHeaders seg)\<rparr>"
proof -
  have fp: "form_state fp = FormKey" "form_key fp = []" "form_value fp = []" using assms(1) by (simp_all add: form_clean_def)
  show ?thesis
    using assms(2) fp by (cases fp) (simp add: form_key_loop handleDataComplete_def segmentHeaders_def Let_def)
qed

lemma form_segments:
  "form_clean fp \<Longrightarrow> handleDataComplete (foldl FormParser_step fp s) =
    fp\<lparr>form_consumer := form_consumer fp @ filter (\<lambda>h. h \<noteq> ([], [])) (concat (map segmentHeaders (segments s)))\<rparr>"
proof (induction s arbitrary: fp rule: segments.induct)
  case (1 s)
  let ?seg = "takeWhile (\<lambda>c. c \<noteq> CHR ''&'') s"
  let ?rest = "tl (dropWhile (\<lambda>c. c \<noteq> CHR ''&'') s)"
  have seg: "CHR ''&'' \<notin> set ?seg" by (auto dest: set_takeWhileD)
  show ?case
  proof (cases "CHR ''&'' \<in> set s")
    case True
    then have "dropWhile (\<lambda>c. c \<noteq> CHR ''&'') s = CHR ''&'' # ?rest"
      using hd_dropWhile [of "\<lambda>c. c \<noteq> CHR ''&''" s] by (cases "dropWhile (\<lambda>c. c \<noteq> CHR ''&'') s") auto
    then have s: "s = ?seg @ CHR ''&'' # ?rest" by (metis takeWhile_dropWhile_id)
    let ?fp = "handleDataComplete (foldl FormParser_step fp ?seg)"
    have "foldl FormParser_step fp s = foldl FormParser_step ?fp ?rest"
      by (subst s) (simp add: FormParser_step_def)
    moreover have "form_clean ?fp" using 1(2) by (simp add: form_segment seg form_clean_def)
    ultimately show ?thesis
      using 1(1) [OF True, of ?fp] by (simp add: form_segment seg 1(2) segments.simps [of s] True)
  next
    case False
    then show ?thesis using form_segment [OF 1(2) False] by (simp add: segments.simps)
  qed
qed

text \<open>
  C33: Parameters in the body of a form and parameters in a URL are read alike: the form parser, fed
  with the text after the question mark, finds the pairs that \<open>matchArguments\<close> finds in the
  path, except that it drops pairs with neither name nor value.
\<close>

theorem form_parser_matches_arguments:
  assumes "CHR ''?'' \<notin> set path"
  shows "form_consumer (handleDataComplete (FormParser_handleData args FormParser_init)) =
      filter (\<lambda>h. h \<noteq> ([], [])) (fst (matchArguments (path @ ''?'' @ args)))
    \<and> snd (matchArguments (path @ ''?'' @ args)) = path"
proof -
  have "form_clean FormParser_init" by (simp add: form_clean_def FormParser_init_def)
  moreover have "matchArguments (path @ ''?'' @ args) = (argumentsLoop (''?'' @ args), path)"
    using assms by (simp add: matchArguments_def find_pos_0)
  ultimately show ?thesis
    using argumentsLoop_segments [of "CHR ''?''" args]
    by (simp add: FormParser_handleData_def form_segments) (simp add: FormParser_init_def)
qed

theorem form_parser_matches_arguments_witness:
  "form_consumer (handleDataComplete (FormParser_handleData ''a=b&c'' FormParser_init)) =
     filter (\<lambda>h. h \<noteq> ([], [])) (fst (matchArguments (''/x'' @ ''?'' @ ''a=b&c'')))"
  using form_parser_matches_arguments [of "''/x''" "''a=b&c''"] by simp

text \<open>The pair with neither name nor value: the two parsers do differ.\<close>

lemma empty_pair_differs:
  "fst (matchArguments ''?='') = [([], [])]"
  "form_consumer (handleDataComplete (FormParser_handleData ''='' FormParser_init)) = []"
  by (simp add: matchArguments_def find_pos_0 argumentsLoop.simps [of "''?=''"] oneArgument_def substr_def argumentsLoop.simps [of "[]"])
    (simp add: FormParser_handleData_def FormParser_step_def handleDataComplete_def FormParser_init_def)

section \<open>Encoding parameters\<close>

definition encodeParameters :: "header list \<Rightarrow> parameter_encoder \<Rightarrow> parameter_encoder" where
  "encodeParameters kvs pe = foldl (\<lambda>pe (key, val). ParameterEncoder_handleHeader key val pe) pe kvs"

definition parameterText :: "header \<Rightarrow> string" where
  "parameterText kv = UrlEncoding_encode (fst kv) @ ''='' @ UrlEncoding_encode (snd kv)"

lemma url_encode_chars:
  "CHR ''&'' \<notin> set (UrlEncoding_encode s)" "CHR ''='' \<notin> set (UrlEncoding_encode s)"
proof -
  have digit: "HEX_DIGITS_UPPER ! d \<in> set HEX_DIGITS_UPPER" if "d < 16" for d
    using that by (intro nth_mem) (simp add: HEX_DIGITS_UPPER_def)
  have "CHR ''&'' \<notin> set HEX_DIGITS_UPPER" "CHR ''='' \<notin> set HEX_DIGITS_UPPER" by (simp_all add: HEX_DIGITS_UPPER_def)
  with digit hex_octet show "CHR ''&'' \<notin> set (UrlEncoding_encode s)" "CHR ''='' \<notin> set (UrlEncoding_encode s)"
    by (auto simp: UrlEncoding_encode_def escapeOctet_def urlQuoted_def split: if_splits)
qed

lemma segmentHeaders_parameter: "segmentHeaders (parameterText kv) = [kv]"
  by (simp add: segmentHeaders_def parameterText_def url_encode_chars url.decode_encode)

lemma parameterText_no_amp: "CHR ''&'' \<notin> set (parameterText kv)"
  by (simp add: parameterText_def url_encode_chars)

lemma encode_more:
  "\<not> pe_first pe \<Longrightarrow> pe_result (encodeParameters kvs pe) = pe_result pe @ concat (map (\<lambda>kv. CHR ''&'' # parameterText kv) kvs)"
  by (induction kvs arbitrary: pe)
    (auto simp: encodeParameters_def ParameterEncoder_handleHeader_def Let_def parameterText_def)

lemma encode_first:
  "pe_result (encodeParameters (kv # kvs) (ParameterEncoder_init result delim)) =
     result @ (if delim \<noteq> CHR 0x00 then [delim] else []) @ parameterText kv @ concat (map (\<lambda>kv. CHR ''&'' # parameterText kv) kvs)"
proof -
  let ?pe = "ParameterEncoder_handleHeader (fst kv) (snd kv) (ParameterEncoder_init result delim)"
  have "encodeParameters (kv # kvs) (ParameterEncoder_init result delim) = encodeParameters kvs ?pe"
    by (simp add: encodeParameters_def case_prod_beta)
  moreover have "\<not> pe_first ?pe" "pe_result ?pe = result @ (if delim \<noteq> CHR 0x00 then [delim] else []) @ parameterText kv"
    by (simp_all add: ParameterEncoder_handleHeader_def ParameterEncoder_init_def Let_def parameterText_def)
  ultimately show ?thesis by (simp add: encode_more)
qed

lemma segments_parameters:
  "segments (parameterText kv @ concat (map (\<lambda>kv. CHR ''&'' # parameterText kv) kvs)) = map parameterText (kv # kvs)"
  by (induction kvs arbitrary: kv) (simp_all add: segments.simps parameterText_no_amp)

lemma concat_segmentHeaders: "concat (map segmentHeaders (map parameterText kvs)) = kvs"
  by (induction kvs) (simp_all add: segmentHeaders_parameter)

text \<open> Parameters arrive as they were sent: the pairs given to the parameter encoder are found in the
  same order and with the same octets by \<open>matchArguments\<close> in the URL it builds and, if they
  are not entirely empty, by the form parser in the body it builds.
\<close>

theorem parameters_roundtrip:
  assumes "CHR ''?'' \<notin> set path"
  shows "matchArguments (pe_result (encodeParameters kvs (ParameterEncoder_init path CHR ''?''))) = (kvs, path)
    \<and> form_consumer (handleDataComplete (FormParser_handleData
         (pe_result (encodeParameters kvs (ParameterEncoder_init [] CHR 0x00))) FormParser_init)) = filter (\<lambda>h. h \<noteq> ([], [])) kvs"
proof (cases kvs)
  case Nil
  with assms show ?thesis
    by (simp add: encodeParameters_def ParameterEncoder_init_def matchArguments_def find_pos_0
        FormParser_handleData_def handleDataComplete_def FormParser_init_def)
next
  case (Cons kv kvs')
  have clean: "form_clean FormParser_init" "form_consumer FormParser_init = []"
    by (simp_all add: form_clean_def FormParser_init_def)
  let ?args = "parameterText kv @ concat (map (\<lambda>kv. CHR ''&'' # parameterText kv) kvs')"
  have "matchArguments (path @ CHR ''?'' # ?args) = (argumentsLoop (CHR ''?'' # ?args), path)"
    using assms by (simp add: matchArguments_def find_pos_0)
  moreover have "argumentsLoop (CHR ''?'' # ?args) = kvs"
    by (simp only: argumentsLoop_segments segments_parameters concat_segmentHeaders Cons)
  moreover have "form_consumer (handleDataComplete (foldl FormParser_step FormParser_init ?args)) = filter (\<lambda>h. h \<noteq> ([], [])) kvs"
    by (simp only: form_segments [OF clean(1)] segments_parameters concat_segmentHeaders Cons) (simp add: clean(2))
  ultimately show ?thesis by (simp add: Cons encode_first FormParser_handleData_def)
qed

theorem parameters_roundtrip_witness:
  "matchArguments (pe_result (encodeParameters [(''a'', ''1&2''), ([], ''='')] (ParameterEncoder_init ''/x'' CHR ''?''))) =
     ([(''a'', ''1&2''), ([], ''='')], ''/x'')"
  using parameters_roundtrip [of "''/x''"] by simp

section \<open>URLs: writing and parsing\<close>

text \<open>
  The texts that URL decoding does not change and that contain no delimiter; \<open>toString\<close> does
  not encode.
\<close>

definition urlPlain :: "string \<Rightarrow> bool" where
  "urlPlain s \<longleftrightarrow> set s \<inter> set ''%+@:/#?[]'' = {}"

text \<open>
  URLs with a host, as \<open>parse\<close> produces them. The path must not contain \<open>@\<close>: the parser
  looks for the end of the user name in the whole URL.
\<close>

definition url_ok :: "url \<Rightarrow> bool" where
  "url_ok u \<longleftrightarrow> m_scheme u \<noteq> [] \<and> urlPlain (m_scheme u) \<and> urlPlain (m_user u) \<and> urlPlain (m_password u)
     \<and> (m_user u = [] \<longrightarrow> m_password u = [])
     \<and> m_host u \<noteq> [] \<and> urlPlain (filter (\<lambda>c. c \<noteq> CHR '':'') (m_host u))
     \<and> set (m_port u) \<subseteq> set ''0123456789''
     \<and> m_path u \<noteq> [] \<and> m_path u ! 0 = CHR ''/'' \<and> set (m_path u) \<inter> set ''@#'' = {}
     \<and> (m_fragment u = [] \<or> (m_fragment u ! 0 = CHR ''#'' \<and> urlPlain (tl (m_fragment u))))"

lemma decode_plain: "set s \<inter> set ''%+'' = {} \<Longrightarrow> UrlEncoding_decode s = s"
  by (induction s) auto

lemma find_pos_skip:
  "\<forall>c\<in>set xs. \<not> P c \<Longrightarrow> P d \<Longrightarrow> find_pos P (length ys) (ys @ xs @ d # zs) = Some (length ys + length xs)"
  by (simp add: find_pos_def takeWhile_append2)

lemma find_pos_None: "\<forall>c\<in>set xs. \<not> P c \<Longrightarrow> find_pos P (length ys) (ys @ xs) = None"
  by (simp add: find_pos_def takeWhile_all)

lemma urlPlain_decode: "urlPlain s \<Longrightarrow> UrlEncoding_decode s = s"
  by (rule decode_plain) (auto simp: urlPlain_def)

lemma urlPlain_chars:
  "urlPlain s \<Longrightarrow> c \<in> set s \<Longrightarrow> c \<noteq> CHR ''@'' \<and> c \<noteq> CHR '':'' \<and> c \<noteq> CHR ''/'' \<and> c \<noteq> CHR ''#'' \<and> c \<noteq> CHR ''?'' \<and> c \<noteq> CHR ''['' \<and> c \<noteq> CHR '']''"
  by (auto simp: urlPlain_def)

lemma parseScheme_text:
  assumes "scheme \<noteq> []" "urlPlain scheme"
  shows "parseScheme (scheme @ CHR '':'' # rest) u = (u\<lparr>m_scheme := scheme\<rparr>, length scheme + 1)"
proof -
  have "find_pos (\<lambda>c. c \<in> set ''@:/#'') (length ([] :: string)) ([] @ scheme @ CHR '':'' # rest) = Some (length ([] :: string) + length scheme)"
    using assms(2) by (intro find_pos_skip) (auto dest: urlPlain_chars)
  with assms show ?thesis by (simp add: parseScheme_def urlPlain_decode)
qed

lemma parseUser_text:
  assumes "user \<noteq> []" "urlPlain user" "urlPlain password"
  shows "parseUser (pre @ user @ CHR '':'' # password @ CHR ''@'' # rest) u (length pre) =
    Inr (u\<lparr>m_user := user, m_password := password\<rparr>, length (pre @ user @ CHR '':'' # password @ ''@''))"
proof -
  have "find_pos (\<lambda>c. c = CHR ''@'') (length pre) (pre @ (user @ CHR '':'' # password) @ CHR ''@'' # rest) =
      Some (length pre + length (user @ CHR '':'' # password))"
    using assms by (intro find_pos_skip) (auto dest: urlPlain_chars)
  moreover have "find_pos (\<lambda>c. c = CHR '':'') (length pre) (pre @ user @ CHR '':'' # password @ CHR ''@'' # rest) =
      Some (length pre + length user)"
    using assms by (intro find_pos_skip) (auto dest: urlPlain_chars)
  ultimately show ?thesis using assms
    by (simp add: parseUser_def substr_def urlPlain_decode)
qed

lemma parseUser_none:
  "CHR ''@'' \<notin> set rest \<Longrightarrow> parseUser (pre @ rest) u (length pre) = Inr (u\<lparr>m_user := [], m_password := []\<rparr>, length pre)"
  by (subst parseUser_def, subst find_pos_None) auto

definition hostText :: "string \<Rightarrow> string" where
  "hostText host = (if CHR '':'' \<in> set host then ''['' @ host @ '']'' else host)"

lemma parseHost_text:
  assumes "host \<noteq> []" "urlPlain (filter (\<lambda>c. c \<noteq> CHR '':'') host)" "d = CHR '':'' \<or> d = CHR ''/''"
  shows "parseHost (pre @ hostText host @ d # rest) u (length pre) = Inr (u\<lparr>m_host := host\<rparr>, length (pre @ hostText host))"
proof -
  have chars: "c \<noteq> CHR ''['' \<and> c \<noteq> CHR '']'' \<and> c \<noteq> CHR ''/'' \<and> c \<noteq> CHR ''#'' \<and> c \<noteq> CHR ''?'' \<and> c \<noteq> CHR ''%'' \<and> c \<noteq> CHR ''+''"
    if "c \<in> set host" for c
    using assms(2) that by (auto simp: urlPlain_def)
  then have dec: "UrlEncoding_decode host = host" by (intro decode_plain) auto
  show ?thesis
  proof (cases "CHR '':'' \<in> set host")
    case True
    have "find_pos (\<lambda>c. c = CHR '']'') (length pre) (pre @ (CHR ''['' # host) @ CHR '']'' # d # rest) =
        Some (length pre + length (CHR ''['' # host))"
      using chars by (intro find_pos_skip) auto
    with True assms(3) dec show ?thesis
      by (auto simp: parseHost_def hostText_def substr_def nth_append Let_def)
  next
    case False
    have "find_pos (\<lambda>c. c \<in> set '':/#?'') (length pre) (pre @ host @ d # rest) = Some (length pre + length host)"
      using chars False assms(3) by (intro find_pos_skip) auto
    moreover have "(host @ d # rest) ! 0 \<noteq> CHR ''[''" using assms(1) chars by (cases host) auto
    ultimately show ?thesis using False dec
      by (simp add: parseHost_def hostText_def substr_def nth_append)
  qed
qed

definition portText :: "string \<Rightarrow> string" where
  "portText port = (if port \<noteq> [] then CHR '':'' # port else [])"

lemma parsePort_text:
  assumes "set port \<subseteq> set ''0123456789''" "m_port u = []"
  shows "parsePort (pre @ portText port @ CHR ''/'' # rest) u (length pre) = Inr (u\<lparr>m_port := port\<rparr>, length (pre @ portText port))"
proof (cases "port = []")
  case True
  with assms(2) show ?thesis by (simp add: parsePort_def portText_def nth_append)
next
  case False
  have "find_pos (\<lambda>c. c \<notin> set ''0123456789'') (length (pre @ '':'')) ((pre @ '':'') @ port @ CHR ''/'' # rest) =
      Some (length (pre @ '':'') + length port)"
  proof (rule find_pos_skip)
    show "\<forall>c\<in>set port. \<not> c \<notin> set ''0123456789''" using assms(1) by blast
  qed simp
  moreover have "set ''0123456789'' \<inter> set ''%+'' = {}" by simp
  then have "UrlEncoding_decode port = port" using assms(1) by (intro decode_plain) blast
  moreover have "(pre @ CHR '':'' # port @ CHR ''/'' # rest) ! Suc (length pre + length port) = CHR ''/''"
    by (simp add: nth_append)
  ultimately show ?thesis using False
    by (simp add: parsePort_def portText_def substr_def Let_def)
qed

lemma parsePath_text:
  assumes "path \<noteq> []" "path ! 0 = CHR ''/''" "CHR ''#'' \<notin> set path"
    "fragment = [] \<or> (fragment ! 0 = CHR ''#'' \<and> urlPlain (tl fragment))" "m_fragment u = []"
  shows "parsePath (pre @ path @ fragment) True u (length pre) = u\<lparr>m_path := path, m_fragment := fragment\<rparr>"
proof (cases fragment)
  case Nil
  have "find_pos (\<lambda>c. c = CHR ''#'') (length pre) (pre @ path) = None"
    using assms(3) by (intro find_pos_None) auto
  with Nil assms(1,2,5) show ?thesis by (simp add: parsePath_def Let_def)
next
  case (Cons c f)
  then have c: "c = CHR ''#''" "urlPlain f" using assms(4) by auto
  have "find_pos (\<lambda>c. c = CHR ''#'') (length pre) (pre @ path @ c # f) = Some (length pre + length path)"
    using assms(3) c by (intro find_pos_skip) auto
  moreover have "UrlEncoding_decode (c # f) = c # f" using c by (simp add: urlPlain_decode)
  ultimately show ?thesis using Cons assms(1,2) by (simp add: parsePath_def substr_def Let_def)
qed

lemma toString_parts:
  assumes "m_scheme u \<noteq> []" "m_host u \<noteq> []" "m_path u \<noteq> []" "m_path u ! 0 = CHR ''/''"
  shows "Url_toString u = m_scheme u @ '':'' @ ''//'' @
    (if m_user u \<noteq> [] then m_user u @ CHR '':'' # m_password u @ ''@'' else []) @
    hostText (m_host u) @ portText (m_port u) @ m_path u @ m_fragment u"
  using assms by (simp add: Url_toString_def hostText_def portText_def)

text \<open>
  C32: A URL that is written with \<open>toString\<close> is parsed to the same parts, provided that its parts need no
  encoding (\<open>url_ok\<close>), which \<open>toString\<close> does not do: scheme and host are not empty; scheme, user, password and host
  have none of the characters \<open>%+@:/#?[]\<close>, but a host can have colons (an IPv6 address, which is written in
  brackets); there is a password only with a user; the port is empty or has only digits; the path begins with a slash
  and has neither \<open>@\<close> nor \<open>#\<close>; the fragment is empty or a \<open>#\<close> followed by none of these characters.
\<close>

theorem url_roundtrip:
  assumes "url_ok u"
  shows "Url_parse (Url_toString u) = (True, u)"
proof -
  define auth where "auth = (if m_user u \<noteq> [] then m_user u @ CHR '':'' # m_password u @ ''@'' else [])"
  define pre where "pre = m_scheme u @ ''://''"
  define rest where "rest = portText (m_port u) @ m_path u @ m_fragment u"
  note ok = assms [unfolded url_ok_def]
  obtain p ps where p: "m_path u = p # ps" "p = CHR ''/''" using ok by (cases "m_path u") auto
  obtain d rs where rest: "rest = d # rs" "d = CHR '':'' \<or> d = CHR ''/''" using p by (cases "m_port u = []") (auto simp: rest_def portText_def)
  have s: "Url_toString u = pre @ auth @ hostText (m_host u) @ rest"
    using ok by (simp add: toString_parts auth_def pre_def rest_def)
  have "CHR ''@'' \<notin> set (m_host u)" "CHR ''@'' \<notin> set (m_path u)" using ok by (auto simp: urlPlain_def)
  moreover have "CHR ''@'' \<notin> set (m_fragment u)" using ok by (cases "m_fragment u") (auto simp: urlPlain_def)
  moreover have "CHR ''@'' \<notin> set ''0123456789''" by simp
  then have "CHR ''@'' \<notin> set (m_port u)" using ok by blast
  ultimately have no_at: "CHR ''@'' \<notin> set (hostText (m_host u) @ rest)"
    by (simp add: hostText_def portText_def rest_def)
  let ?u1 = "Url_init\<lparr>m_scheme := m_scheme u\<rparr>"
  have scheme: "parseScheme (Url_toString u) Url_init = (?u1, length (m_scheme u) + 1)"
    using parseScheme_text [of "m_scheme u" "''//'' @ auth @ hostText (m_host u) @ rest" Url_init] ok
    by (simp add: s pre_def)
  have slashes: "substr (Url_toString u) (length (m_scheme u) + 1) 2 = ''//''" "2 \<le> length (Url_toString u) - (length (m_scheme u) + 1)"
    by (simp_all add: s pre_def substr_def)
  have n: "length (m_scheme u) + 1 + 2 = length pre" by (simp add: pre_def)
  let ?u2 = "?u1\<lparr>m_user := m_user u, m_password := m_password u\<rparr>"
  have user: "parseUser (Url_toString u) ?u1 (length pre) = Inr (?u2, length (pre @ auth))"
    using parseUser_text [of "m_user u" "m_password u" pre "hostText (m_host u) @ rest" ?u1]
      parseUser_none [OF no_at, of pre ?u1] ok by (auto simp: s auth_def)
  have host: "parseHost (Url_toString u) ?u2 (length (pre @ auth)) = Inr (?u2\<lparr>m_host := m_host u\<rparr>, length ((pre @ auth) @ hostText (m_host u)))"
    using parseHost_text [of "m_host u" d "pre @ auth" rs ?u2] ok rest by (simp add: s)
  let ?u3 = "?u2\<lparr>m_host := m_host u\<rparr>" and ?pre3 = "(pre @ auth) @ hostText (m_host u)"
  have port: "parsePort (Url_toString u) ?u3 (length ?pre3) = Inr (?u3\<lparr>m_port := m_port u\<rparr>, length (?pre3 @ portText (m_port u)))"
    using parsePort_text [of "m_port u" ?u3 ?pre3 "ps @ m_fragment u"] ok p by (simp add: s rest_def Url_init_def)
  have path: "parsePath (Url_toString u) True (?u3\<lparr>m_port := m_port u\<rparr>) (length (?pre3 @ portText (m_port u))) = u"
    using parsePath_text [of "m_path u" "m_fragment u" "?u3\<lparr>m_port := m_port u\<rparr>" "?pre3 @ portText (m_port u)"] ok
    by (simp add: s rest_def Url_init_def)
  show ?thesis
    unfolding Url_parse_def scheme prod.case n user sum.case host port path using slashes by simp
qed

theorem url_roundtrip_witness:
  "Url_parse (Url_toString \<lparr>m_scheme = ''http'', m_user = ''me'', m_password = [], m_host = ''::1'', m_port = ''80'',
      m_path = ''/a?b'', m_fragment = ''#c''\<rparr>) =
    (True, \<lparr>m_scheme = ''http'', m_user = ''me'', m_password = [], m_host = ''::1'', m_port = ''80'',
      m_path = ''/a?b'', m_fragment = ''#c''\<rparr>)"
  by (rule url_roundtrip) (simp add: url_ok_def urlPlain_def)

text \<open>A path with an at sign is taken apart as user name and host.\<close>

lemma at_sign_in_path: "m_host (snd (Url_parse ''http://h/a@b'')) = ''b''"
  by (simp add: Url_parse_def parseScheme_def parseUser_def parseHost_def parsePort_def parsePath_def find_pos_def
      substr_def Url_init_def Let_def)

text \<open>Going up from a file in a directory of the root leaves no path at all.\<close>

lemma merge_up_to_root: "mergePath ''/a/b'' ''..'' = []"
  by (simp add: mergePath_def rfind_pos_def mergeLoop.simps dropFinal_def eval_nat_numeral)

section \<open>Names: writing and parsing\<close>

text \<open>Names that can be told from an address in brackets.\<close>

definition name_ok :: "net_name \<Rightarrow> bool" where
  "name_ok nm \<longleftrightarrow> Name_isValid nm \<and>
     (if CHR '':'' \<in> set (m_name nm) then CHR '']'' \<notin> set (m_name nm) else m_name nm ! 0 \<noteq> CHR ''['')"

lemma name_roundtrip:
  assumes "name_ok nm"
  shows "Name_parse (Name_toString nm) defaultService = nm"
proof (cases "CHR '':'' \<in> set (m_name nm)")
  case True
  have "find_pos (\<lambda>c. c = CHR '']'') (length ([] :: string)) ([] @ (CHR ''['' # m_name nm) @ CHR '']'' # CHR '':'' # m_service nm) =
      Some (length ([] :: string) + length (CHR ''['' # m_name nm))"
    using assms True by (intro find_pos_skip) (auto simp: name_ok_def)
  with assms True show ?thesis
    by (simp add: Name_parse_def Name_toString_def name_ok_def substr_def nth_append)
next
  case False
  have "find_pos (\<lambda>c. c = CHR '':'') (length ([] :: string)) ([] @ m_name nm @ CHR '':'' # m_service nm) =
      Some (length ([] :: string) + length (m_name nm))"
    using False by (intro find_pos_skip) auto
  with assms False show ?thesis
    by (auto simp: Name_parse_def Name_toString_def name_ok_def Name_isValid_def nth_append)
qed

end
