(* ===== verification/Afl_Header.thy ===== *)
theory Afl_Header
  imports Afl_Net
begin

text \<open>
  The header of a message (HTTP, mail): the incremental parser of headerparser.cpp, the table of
  header fields of headertable.cpp, and the structured access to the value of a field of
  headerfield.cpp. A header field is the pair of its name and value.
\<close>

section \<open>Consuming octets\<close>

text \<open>
  The loop of a \<open>DataSink\<close> that handles one octet after the other until it is in a final state:
  \<open>while (!final && (p = bytes.eat()))\<close>. What is left is not consumed.
\<close>

fun feedLoop :: "('s \<Rightarrow> bool) \<Rightarrow> ('s \<Rightarrow> octet \<Rightarrow> 's) \<Rightarrow> 's \<Rightarrow> octet list \<Rightarrow> 's \<times> octet list" where
  "feedLoop final step st [] = (st, [])"
| "feedLoop final step st (c # data) = (if final st then (st, c # data) else feedLoop final step (step st c) data)"

lemma feedLoop_final: "final st \<Longrightarrow> feedLoop final step st data = (st, data)"
  by (cases data) simp_all

lemma feedLoop_append:
  "feedLoop final step st (xs @ ys) =
     (case feedLoop final step st xs of (st', rest) \<Rightarrow>
        if rest = [] then feedLoop final step st' ys else (st', rest @ ys))"
  by (induction xs arbitrary: st) simp_all

section \<open>Parser\<close>

datatype header_state = InitialState | KeyState | ValueState | NewlineState | ErrorState | FinalState

record header_parser =
  hp_consumer :: "header list"
  m_hasErrors :: bool
  m_hasFolding :: bool
  hp_key :: string
  hp_value :: string
  hp_state :: header_state

definition HeaderParser_init :: header_parser where
  "HeaderParser_init = \<lparr>hp_consumer = [], m_hasErrors = False, m_hasFolding = False, hp_key = [], hp_value = [],
     hp_state = InitialState\<rparr>"

definition flush :: "header_parser \<Rightarrow> header_parser" where
  "flush hp = hp\<lparr>hp_consumer := hp_consumer hp @ [(hp_key hp, hp_value hp)], hp_key := [], hp_value := []\<rparr>"

definition handleNewline :: "header_parser \<Rightarrow> header_parser" where
  "handleNewline hp =
     (case hp_state hp of
        InitialState \<Rightarrow> hp\<lparr>hp_state := FinalState\<rparr>
      | KeyState \<Rightarrow> hp\<lparr>m_hasErrors := True, hp_key := [], hp_state := InitialState\<rparr>
      | ValueState \<Rightarrow> hp\<lparr>hp_state := NewlineState\<rparr>
      | NewlineState \<Rightarrow> (flush hp)\<lparr>hp_state := FinalState\<rparr>
      | ErrorState \<Rightarrow> hp\<lparr>hp_key := [], hp_state := InitialState\<rparr>
      | FinalState \<Rightarrow> hp)"

definition handleBlank :: "octet \<Rightarrow> header_parser \<Rightarrow> header_parser" where
  "handleBlank c hp =
     (let appended = (\<lambda>hp. if hp_value hp \<noteq> [] then hp\<lparr>hp_value := hp_value hp @ [c]\<rparr> else hp)
      in case hp_state hp of
           InitialState \<Rightarrow> hp\<lparr>hp_key := [], m_hasErrors := True, hp_state := ErrorState\<rparr>
         | KeyState \<Rightarrow> hp\<lparr>hp_key := [], m_hasErrors := True, hp_state := ErrorState\<rparr>
         | ValueState \<Rightarrow> appended hp
         | NewlineState \<Rightarrow> appended (hp\<lparr>m_hasFolding := True, hp_state := ValueState\<rparr>)
         | ErrorState \<Rightarrow> hp
         | FinalState \<Rightarrow> hp)"

definition handleColon :: "header_parser \<Rightarrow> header_parser" where
  "handleColon hp =
     (case hp_state hp of
        InitialState \<Rightarrow> hp\<lparr>m_hasErrors := True, hp_state := ErrorState\<rparr>
      | KeyState \<Rightarrow> hp\<lparr>hp_state := ValueState\<rparr>
      | ValueState \<Rightarrow> hp\<lparr>hp_value := hp_value hp @ '':''\<rparr>
      | NewlineState \<Rightarrow> (flush hp)\<lparr>m_hasErrors := True, hp_state := ErrorState\<rparr>
      | ErrorState \<Rightarrow> hp
      | FinalState \<Rightarrow> hp)"

definition handleOther :: "octet \<Rightarrow> header_parser \<Rightarrow> header_parser" where
  "handleOther c hp =
     (case hp_state hp of
        InitialState \<Rightarrow> hp\<lparr>hp_key := hp_key hp @ [c], hp_state := KeyState\<rparr>
      | KeyState \<Rightarrow> hp\<lparr>hp_key := hp_key hp @ [c]\<rparr>
      | ValueState \<Rightarrow> hp\<lparr>hp_value := hp_value hp @ [c]\<rparr>
      | NewlineState \<Rightarrow> (let hp = flush hp in hp\<lparr>hp_key := hp_key hp @ [c], hp_state := KeyState\<rparr>)
      | ErrorState \<Rightarrow> hp
      | FinalState \<Rightarrow> hp)"

definition HeaderParser_step :: "header_parser \<Rightarrow> octet \<Rightarrow> header_parser" where
  "HeaderParser_step hp c =
     (if c = CHR 0x00 then hp\<lparr>m_hasErrors := True\<rparr>
      else if c = CHR 0x0D then hp
      else if c = CHR 0x0A then handleNewline hp
      else if c = CHR '' '' \<or> c = CHR 0x09 then handleBlank c hp
      else if c = CHR '':'' then handleColon hp
      else handleOther c hp)"

definition isCompleted :: "header_parser \<Rightarrow> bool" where
  "isCompleted hp \<longleftrightarrow> hp_state hp = FinalState"

definition HeaderParser_handleData :: "header_parser \<Rightarrow> octet list \<Rightarrow> header_parser \<times> octet list" where
  "HeaderParser_handleData hp bytes = feedLoop isCompleted HeaderParser_step hp bytes"

section \<open>Table of fields\<close>

type_synonym header_table = "header list"

fun HeaderTable_getIndex :: "string \<Rightarrow> header_table \<Rightarrow> nat option" where
  "HeaderTable_getIndex name [] = None"
| "HeaderTable_getIndex name (f # fs) =
     (if strCaseCompare name (fst f) = 0 then Some 0 else map_option Suc (HeaderTable_getIndex name fs))"

definition HeaderTable_get :: "string \<Rightarrow> header_table \<Rightarrow> header option" where
  "HeaderTable_get name m_headers = map_option (\<lambda>i. m_headers ! i) (HeaderTable_getIndex name m_headers)"

definition HeaderTable_add :: "string \<Rightarrow> string \<Rightarrow> header_table \<Rightarrow> header_table" where
  "HeaderTable_add name val m_headers = m_headers @ [(name, val)]"

definition HeaderTable_set :: "string \<Rightarrow> string \<Rightarrow> header_table \<Rightarrow> header_table" where
  "HeaderTable_set name val m_headers =
     (case HeaderTable_getIndex name m_headers of
        Some i \<Rightarrow> m_headers[i := (fst (m_headers ! i), val)]
      | None \<Rightarrow> HeaderTable_add name val m_headers)"

definition writeHeaders :: "header_table \<Rightarrow> octet list" where
  "writeHeaders m_headers = concat (map (\<lambda>f. fst f @ '': '' @ snd f @ [CHR 0x0D, CHR 0x0A]) m_headers)"

section \<open>Fields with structure\<close>

datatype header_mode = NoComments | NoQuotes | NoPrimary

datatype part_state = Raw | DQ | DQQ | Paren | ParenQ

text \<open>The part up to an unquoted semicolon, and what follows it.\<close>

fun extractLoop :: "header_mode set \<Rightarrow> part_state \<Rightarrow> string \<Rightarrow> string \<Rightarrow> string \<times> string" where
  "extractLoop mode state result [] = (result, [])"
| "extractLoop mode Raw result (c # s) =
     (if c = CHR 0x22 \<and> NoQuotes \<notin> mode then extractLoop mode DQ result s
      else if c = CHR ''('' \<and> NoComments \<notin> mode then extractLoop mode Paren result s
      else if c = CHR '';'' then (result, s)
      else extractLoop mode Raw (result @ [c]) s)"
| "extractLoop mode DQ result (c # s) =
     (if c = CHR 0x5C then extractLoop mode DQQ result s
      else if c = CHR 0x22 then extractLoop mode Raw result s
      else extractLoop mode DQ (result @ [c]) s)"
| "extractLoop mode DQQ result (c # s) = extractLoop mode DQ (result @ [c]) s"
| "extractLoop mode Paren result (c # s) =
     (if c = CHR '')'' then extractLoop mode Raw result s
      else if c = CHR 0x5C then extractLoop mode ParenQ result s
      else extractLoop mode Paren result s)"
| "extractLoop mode ParenQ result (c # s) = extractLoop mode Paren result s"

definition extractPart :: "header_mode set \<Rightarrow> string \<Rightarrow> string \<times> string" where
  "extractPart mode s = extractLoop mode Raw [] s"

definition getPrimaryValue :: "header_mode set \<Rightarrow> string \<Rightarrow> string" where
  "getPrimaryValue mode val = strTrim (fst (extractPart mode val))"

lemma extractLoop_le: "length (snd (extractLoop mode state result s)) \<le> length s"
  by (induction mode state result s rule: extractLoop.induct) auto

lemma extractLoop_length:
  assumes "s \<noteq> []"
  shows "length (snd (extractLoop mode state result s)) < length s"
proof -
  obtain c r where s: "s = c # r" using assms by (cases s) auto
  show ?thesis unfolding s by (cases state) (simp_all add: extractLoop_le less_Suc_eq_le)
qed

definition partHeader :: "string \<Rightarrow> header" where
  "partHeader part =
     (case find_pos (\<lambda>c. c = CHR ''='') 0 part of
        Some pos \<Rightarrow> (strTrim (take pos part), strTrim (drop (pos + 1) part))
      | None \<Rightarrow> (strTrim part, []))"

function secondaryLoop :: "header_mode set \<Rightarrow> string \<Rightarrow> header list" where
  "secondaryLoop mode s =
     (if s = [] then [] else partHeader (fst (extractPart mode s)) # secondaryLoop mode (snd (extractPart mode s)))"
  by pat_completeness auto
termination by (relation "measure (\<lambda>(mode, s). length s)") (auto simp: extractPart_def extractLoop_length)

declare secondaryLoop.simps [simp del]

definition enumerateSecondaryValues :: "header_mode set \<Rightarrow> string \<Rightarrow> header list" where
  "enumerateSecondaryValues mode val =
     secondaryLoop mode (if NoPrimary \<in> mode then val else snd (extractPart mode val))"

definition getSecondaryValue :: "header_mode set \<Rightarrow> string \<Rightarrow> string \<Rightarrow> string option" where
  "getSecondaryValue mode name val =
     map_option snd (find (\<lambda>h. strCaseCompare (fst h) name = 0) (enumerateSecondaryValues mode val))"

definition getAddressValue :: "string \<Rightarrow> string option" where
  "getAddressValue val =
     (let parsed = getPrimaryValue {} val;
          list = (case find_pos (\<lambda>c. c = CHR '','') 0 parsed of Some n \<Rightarrow> take n parsed | None \<Rightarrow> parsed);
          parsed =
            (case find_pos (\<lambda>c. c = CHR ''<'') 0 parsed of
               None \<Rightarrow> list
             | Some n \<Rightarrow>
                 (case find_pos (\<lambda>c. c = CHR ''>'') (n + 1) parsed of
                    None \<Rightarrow> list
                  | Some p \<Rightarrow> drop (n + 1) (take p parsed)));
          parsed = strTrim parsed
      in if CHR ''@'' \<notin> set parsed \<or> CHR '' '' \<in> set parsed \<or> CHR 0x09 \<in> set parsed then None else Some parsed)"

section \<open>The parser understands the writer\<close>

lemma header_chunks:
  "HeaderParser_handleData hp (xs @ ys) =
     (case HeaderParser_handleData hp xs of (hp', rest) \<Rightarrow>
        if rest = [] then HeaderParser_handleData hp' ys else (hp', rest @ ys))"
  unfolding HeaderParser_handleData_def by (rule feedLoop_append)

text \<open>
  Pieces of a message that are handled one after the other; what \<open>handleData\<close> leaves of them is the body.
\<close>

fun HeaderParser_handlePieces :: "header_parser \<Rightarrow> octet list list \<Rightarrow> header_parser \<times> octet list" where
  "HeaderParser_handlePieces hp [] = (hp, [])"
| "HeaderParser_handlePieces hp (p # ps) =
     (case HeaderParser_handleData hp p of (hp', rest) \<Rightarrow>
        case HeaderParser_handlePieces hp' ps of (hp'', rest') \<Rightarrow> (hp'', rest @ rest'))"

lemma feedLoop_rest: "feedLoop final step st data = (st', rest) \<Longrightarrow> rest \<noteq> [] \<Longrightarrow> final st'"
  by (induction data arbitrary: st) (auto split: if_splits)

lemma handlePieces_concat: "HeaderParser_handlePieces hp ps = HeaderParser_handleData hp (concat ps)"
proof (induction ps arbitrary: hp)
  case (Cons p ps)
  obtain hp' rest where h: "HeaderParser_handleData hp p = (hp', rest)" by (rule prod.exhaust)
  show ?case
  proof (cases "rest = []")
    case True
    with h Cons.IH show ?thesis by (simp add: header_chunks split: prod.split)
  next
    case False
    with h have "isCompleted hp'" unfolding HeaderParser_handleData_def by (rule feedLoop_rest)
    then have "HeaderParser_handleData hp' (concat ps) = (hp', concat ps)" unfolding HeaderParser_handleData_def by (rule feedLoop_final)
    with h Cons.IH False show ?thesis by (simp add: header_chunks)
  qed
qed (simp add: HeaderParser_handleData_def)

definition special :: "octet \<Rightarrow> bool" where
  "special c \<longleftrightarrow> c = CHR 0x00 \<or> c = CHR 0x0D \<or> c = CHR 0x0A"

definition blank :: "octet \<Rightarrow> bool" where
  "blank c \<longleftrightarrow> c = CHR '' '' \<or> c = CHR 0x09"

text \<open>
  Fields that can be transmitted: a name without blanks and colons, a value that does not start
  with a blank, and no line breaks or null characters.
\<close>

definition field_ok :: "header \<Rightarrow> bool" where
  "field_ok f \<longleftrightarrow> fst f \<noteq> [] \<and> list_all (\<lambda>c. \<not> special c \<and> \<not> blank c \<and> c \<noteq> CHR '':'') (fst f)
     \<and> list_all (\<lambda>c. \<not> special c) (snd f) \<and> (snd f \<noteq> [] \<longrightarrow> \<not> blank (hd (snd f)))"

lemma step_plain:
  "\<not> special c \<Longrightarrow> \<not> blank c \<Longrightarrow> c \<noteq> CHR '':'' \<Longrightarrow> HeaderParser_step hp c = handleOther c hp"
  by (simp add: HeaderParser_step_def special_def blank_def)

lemma feed_key:
  "list_all (\<lambda>c. \<not> special c \<and> \<not> blank c \<and> c \<noteq> CHR '':'') name \<Longrightarrow> hp_state hp = KeyState \<Longrightarrow>
   HeaderParser_handleData hp (name @ data) = HeaderParser_handleData (hp\<lparr>hp_key := hp_key hp @ name\<rparr>) data"
  unfolding HeaderParser_handleData_def
  by (induction name arbitrary: hp) (auto simp: step_plain handleOther_def isCompleted_def)

lemma step_value:
  "\<not> special c \<Longrightarrow> hp_state hp = ValueState \<Longrightarrow> hp_value hp \<noteq> [] \<or> \<not> blank c \<Longrightarrow>
   HeaderParser_step hp c = hp\<lparr>hp_value := hp_value hp @ [c]\<rparr>"
  by (auto simp: HeaderParser_step_def special_def blank_def handleBlank_def handleColon_def handleOther_def Let_def)

lemma feed_value_more:
  "list_all (\<lambda>c. \<not> special c) val \<Longrightarrow> hp_state hp = ValueState \<Longrightarrow> hp_value hp \<noteq> [] \<Longrightarrow>
   HeaderParser_handleData hp (val @ data) = HeaderParser_handleData (hp\<lparr>hp_value := hp_value hp @ val\<rparr>) data"
  unfolding HeaderParser_handleData_def
  by (induction val arbitrary: hp) (auto simp: step_value isCompleted_def)

lemma feed_value:
  assumes "list_all (\<lambda>c. \<not> special c) val" "hp_state hp = ValueState" "hp_value hp = []" "val \<noteq> [] \<longrightarrow> \<not> blank (hd val)"
  shows "HeaderParser_handleData hp (val @ data) = HeaderParser_handleData (hp\<lparr>hp_value := val\<rparr>) data"
proof (cases val)
  case Nil
  with assms(3) show ?thesis by (cases hp) simp
next
  case (Cons c cs)
  with assms have "HeaderParser_handleData hp (val @ data) = HeaderParser_handleData (hp\<lparr>hp_value := [c]\<rparr>) (cs @ data)"
    by (simp add: HeaderParser_handleData_def step_value isCompleted_def)
  with Cons assms feed_value_more [of cs "hp\<lparr>hp_value := [c]\<rparr>" data] show ?thesis by simp
qed

text \<open>One line, from the start of the header or after another line.\<close>

definition expecting :: "header_parser \<Rightarrow> bool" where
  "expecting hp \<longleftrightarrow> hp_state hp = InitialState \<and> hp_key hp = [] \<and> hp_value hp = [] \<or> hp_state hp = NewlineState"

definition delivered :: "header_parser \<Rightarrow> header list" where
  "delivered hp = hp_consumer hp @ (if hp_state hp = NewlineState then [(hp_key hp, hp_value hp)] else [])"

lemma feed_header_line:
  assumes "field_ok f" "expecting hp"
  shows "\<exists>hp'. HeaderParser_handleData hp (fst f @ '': '' @ snd f @ [CHR 0x0D, CHR 0x0A] @ data) = HeaderParser_handleData hp' data
    \<and> expecting hp' \<and> hp_state hp' = NewlineState \<and> delivered hp' = delivered hp @ [f] \<and> m_hasErrors hp' = m_hasErrors hp"
proof -
  obtain c cs where name: "fst f = c # cs" using assms(1) by (cases "fst f") (auto simp: field_ok_def)
  have c: "\<not> special c" "\<not> blank c" "c \<noteq> CHR '':''" and cs: "list_all (\<lambda>c. \<not> special c \<and> \<not> blank c \<and> c \<noteq> CHR '':'') cs"
    using assms(1) name by (auto simp: field_ok_def)
  let ?hp1 = "(if hp_state hp = NewlineState then flush hp else hp)\<lparr>hp_key := [c], hp_state := KeyState\<rparr>"
  have st: "\<not> isCompleted hp" using assms(2) by (auto simp: expecting_def isCompleted_def)
  have "HeaderParser_step hp c = ?hp1"
    using assms(2) c by (auto simp: step_plain handleOther_def expecting_def flush_def Let_def)
  with st have "HeaderParser_handleData hp (fst f @ '': '' @ snd f @ [CHR 0x0D, CHR 0x0A] @ data) =
      HeaderParser_handleData ?hp1 (cs @ '': '' @ snd f @ [CHR 0x0D, CHR 0x0A] @ data)"
    by (simp add: name HeaderParser_handleData_def)
  also have "\<dots> = HeaderParser_handleData (?hp1\<lparr>hp_key := fst f\<rparr>) ('': '' @ snd f @ [CHR 0x0D, CHR 0x0A] @ data)"
    using feed_key [OF cs, of ?hp1] by (simp add: name)
  also have "\<dots> = HeaderParser_handleData (?hp1\<lparr>hp_key := fst f, hp_state := ValueState\<rparr>) (snd f @ [CHR 0x0D, CHR 0x0A] @ data)"
    using assms(2) by (auto simp: HeaderParser_handleData_def isCompleted_def HeaderParser_step_def handleColon_def handleBlank_def
        expecting_def flush_def)
  also have "\<dots> = HeaderParser_handleData (?hp1\<lparr>hp_key := fst f, hp_state := ValueState, hp_value := snd f\<rparr>) ([CHR 0x0D, CHR 0x0A] @ data)"
  proof -
    let ?hp = "?hp1\<lparr>hp_key := fst f, hp_state := ValueState\<rparr>"
    have "hp_value ?hp = []" using assms(2) by (auto simp: expecting_def flush_def)
    moreover have "list_all (\<lambda>c. \<not> special c) (snd f)" "snd f \<noteq> [] \<longrightarrow> \<not> blank (hd (snd f))"
      using assms(1) by (simp_all add: field_ok_def)
    ultimately show ?thesis using feed_value [of "snd f" ?hp "[CHR 0x0D, CHR 0x0A] @ data"] by simp
  qed
  also have "\<dots> = HeaderParser_handleData (?hp1\<lparr>hp_key := fst f, hp_value := snd f, hp_state := NewlineState\<rparr>) data"
    by (simp add: HeaderParser_handleData_def isCompleted_def HeaderParser_step_def handleNewline_def)
  finally show ?thesis
    using assms(2)
    by (intro exI [of _ "?hp1\<lparr>hp_key := fst f, hp_value := snd f, hp_state := NewlineState\<rparr>"])
      (auto simp: expecting_def delivered_def flush_def)
qed

lemma feed_headers:
  "list_all field_ok fs \<Longrightarrow> expecting hp \<Longrightarrow>
   \<exists>hp'. HeaderParser_handleData hp (writeHeaders fs @ data) = HeaderParser_handleData hp' data
     \<and> expecting hp' \<and> delivered hp' = delivered hp @ fs \<and> m_hasErrors hp' = m_hasErrors hp"
proof (induction fs arbitrary: hp)
  case (Cons f fs)
  then obtain hp1 where hp1: "HeaderParser_handleData hp (fst f @ '': '' @ snd f @ [CHR 0x0D, CHR 0x0A] @ writeHeaders fs @ data) =
      HeaderParser_handleData hp1 (writeHeaders fs @ data)" "expecting hp1" "delivered hp1 = delivered hp @ [f]" "m_hasErrors hp1 = m_hasErrors hp"
    using feed_header_line [of f hp "writeHeaders fs @ data"] by auto
  with Cons.IH [of hp1] Cons.prems show ?case by (auto simp: writeHeaders_def)
qed (auto simp: writeHeaders_def)

text \<open>
  C30: A header that is written by a table of fields and ended by an empty line is parsed, in whatever pieces it
  arrives and whatever follows it, to exactly these fields in their order, without errors; the octets after the
  empty line are left for the body. The fields must be representable: names are not empty and have no blanks,
  colons, line ends or null octets, values have no line ends or null octets and do not start with a blank.
\<close>

theorem header_roundtrip:
  assumes "list_all field_ok fs" "concat pieces = writeHeaders fs @ [CHR 0x0D, CHR 0x0A] @ body"
  shows "\<exists>hp. HeaderParser_handlePieces HeaderParser_init pieces = (hp, body)
    \<and> isCompleted hp \<and> hp_consumer hp = fs \<and> \<not> m_hasErrors hp"
proof -
  have "expecting HeaderParser_init" by (simp add: expecting_def HeaderParser_init_def)
  from feed_headers [OF assms(1) this, of "[CHR 0x0D, CHR 0x0A] @ body"] obtain hp where
    hp: "HeaderParser_handlePieces HeaderParser_init pieces =
      HeaderParser_handleData hp ([CHR 0x0D, CHR 0x0A] @ body)" "expecting hp" "delivered hp = fs" "\<not> m_hasErrors hp"
    using assms(2) by (auto simp: handlePieces_concat HeaderParser_init_def delivered_def)
  have "\<not> isCompleted hp" using hp(2) by (auto simp: expecting_def isCompleted_def)
  then have "HeaderParser_handleData hp ([CHR 0x0D, CHR 0x0A] @ body) = feedLoop isCompleted HeaderParser_step (handleNewline hp) body"
    by (simp add: HeaderParser_handleData_def HeaderParser_step_def)
  moreover have "isCompleted (handleNewline hp)" "hp_consumer (handleNewline hp) = fs" "\<not> m_hasErrors (handleNewline hp)"
    using hp(2-4) by (auto simp: expecting_def delivered_def handleNewline_def flush_def isCompleted_def)
  ultimately show ?thesis using hp(1) by (auto simp: feedLoop_final)
qed

theorem header_roundtrip_witness:
  "\<exists>hp. HeaderParser_handlePieces HeaderParser_init
      [''Ho'', ''st: x: y'' @ [CHR 0x0D], [CHR 0x0A] @ ''A: '' @ [CHR 0x0D, CHR 0x0A, CHR 0x0D], [CHR 0x0A] @ ''bo'', ''dy''] = (hp, ''body'')
    \<and> isCompleted hp \<and> hp_consumer hp = [(''Host'', ''x: y''), (''A'', [])] \<and> \<not> m_hasErrors hp"
  by (rule header_roundtrip) (simp_all add: field_ok_def special_def blank_def writeHeaders_def)

section \<open>Looking up fields\<close>

lemma strCaseCompare_0: "strCaseCompare a b = 0 \<longleftrightarrow> strUCase a = strUCase b"
  using strCaseCompare_spec by blast

lemma getIndex_Some:
  "HeaderTable_getIndex name fs = Some i \<Longrightarrow>
   i < length fs \<and> strUCase (fst (fs ! i)) = strUCase name \<and> (\<forall>j<i. strUCase (fst (fs ! j)) \<noteq> strUCase name)"
proof (induction fs arbitrary: i)
  case (Cons f fs)
  show ?case
  proof (cases i)
    case 0
    with Cons.prems show ?thesis by (auto simp: strCaseCompare_0 split: if_splits)
  next
    case (Suc k)
    with Cons.prems have "HeaderTable_getIndex name fs = Some k" "strUCase name \<noteq> strUCase (fst f)"
      by (auto simp: strCaseCompare_0 split: if_splits)
    with Cons.IH [of k] Suc show ?thesis by (auto simp: nth_Cons split: nat.split)
  qed
qed simp

lemma getIndex_None: "HeaderTable_getIndex name fs = None \<longleftrightarrow> (\<forall>f\<in>set fs. strUCase (fst f) \<noteq> strUCase name)"
  by (induction fs) (auto simp: strCaseCompare_0)

lemma getIndex_cong:
  "map (\<lambda>f. strUCase (fst f)) fs = map (\<lambda>f. strUCase (fst f)) gs \<Longrightarrow>
   HeaderTable_getIndex name fs = HeaderTable_getIndex name gs"
proof (induction fs arbitrary: gs)
  case (Cons f fs)
  then obtain g gs' where gs: "gs = g # gs'" by (cases gs) auto
  with Cons.prems have "strUCase (fst f) = strUCase (fst g)" "HeaderTable_getIndex name fs = HeaderTable_getIndex name gs'"
    using Cons.IH [of gs'] by simp_all
  then show ?case by (simp add: gs strCaseCompare_0)
qed simp

lemma getIndex_snoc:
  "HeaderTable_getIndex name (fs @ [f]) =
     (case HeaderTable_getIndex name fs of
        Some i \<Rightarrow> Some i
      | None \<Rightarrow> if strUCase name = strUCase (fst f) then Some (length fs) else None)"
  by (induction fs) (auto simp: strCaseCompare_0 split: option.splits)

definition tableValue :: "string \<Rightarrow> header_table \<Rightarrow> string option" where
  "tableValue name fs = map_option snd (HeaderTable_get name fs)"

text \<open> A header field is found under its name in any case, with the value that was set last; setting
  a field neither moves nor changes any other one.
\<close>

theorem HeaderTable_set_get:
  "tableValue name' (HeaderTable_set name val fs) =
     (if strUCase name = strUCase name' then Some val else tableValue name' fs)"
proof (cases "HeaderTable_getIndex name fs")
  case None
  have "i < length fs" if "HeaderTable_getIndex name' fs = Some i" for i
    using getIndex_Some [OF that] by simp
  moreover have "HeaderTable_getIndex name' fs = None" if "strUCase name = strUCase name'"
    using None that by (simp add: getIndex_None)
  ultimately show ?thesis using None
    by (auto simp: tableValue_def HeaderTable_get_def HeaderTable_set_def HeaderTable_add_def getIndex_snoc nth_append
        split: option.split)
next
  case (Some i)
  note i = getIndex_Some [OF Some]
  have same: "HeaderTable_getIndex n (fs[i := (fst (fs ! i), val)]) = HeaderTable_getIndex n fs" for n
    using i by (intro getIndex_cong) (simp add: map_update list_update_same_conv)
  have "HeaderTable_getIndex name' fs = Some i" if "strUCase name = strUCase name'"
  proof -
    have "HeaderTable_getIndex n fs = HeaderTable_getIndex n' fs" if "strUCase n = strUCase n'" for n n'
      using that by (induction fs) (simp_all add: strCaseCompare_0)
    with that Some show ?thesis by metis
  qed
  moreover have "j \<noteq> i" if "HeaderTable_getIndex name' fs = Some j" "strUCase name \<noteq> strUCase name'" for j
    using getIndex_Some [OF that(1)] i that(2) by auto
  ultimately show ?thesis using Some i same
    by (cases "HeaderTable_getIndex name' fs")
      (auto simp: tableValue_def HeaderTable_get_def HeaderTable_set_def nth_list_update)
qed

section \<open>Quoted parts\<close>

text \<open>A text in double quotes, as it is written into a field.\<close>

definition quoted :: "string \<Rightarrow> string" where
  "quoted s = [CHR 0x22] @ concat (map (\<lambda>c. if c = CHR 0x22 \<or> c = CHR 0x5C then [CHR 0x5C, c] else [c]) s) @ [CHR 0x22]"

lemma extract_quoted_inner:
  "extractLoop mode DQ result (concat (map (\<lambda>c. if c = CHR 0x22 \<or> c = CHR 0x5C then [CHR 0x5C, c] else [c]) s) @ rest) =
   extractLoop mode DQ (result @ s) rest"
  by (induction s arbitrary: result) auto

lemma extract_quoted:
  "NoQuotes \<notin> mode \<Longrightarrow> extractLoop mode Raw result (quoted s @ rest) = extractLoop mode Raw (result @ s) rest"
  by (simp add: quoted_def extract_quoted_inner)

lemma extract_plain:
  "set s \<inter> {CHR 0x22, CHR ''('', CHR '';''} = {} \<Longrightarrow>
   extractLoop mode Raw result (s @ rest) = extractLoop mode Raw (result @ s) rest"
  by (induction s arbitrary: result) auto

end
