(* ===== verification/Afl_Checksum.thy ===== *)
theory Afl_Checksum
  imports Afl_Prelude "HOL-Library.Word"
begin

text \<open>
  The checksums of afl/checksums: byte sum, Adler-32, and table-driven CRC-16 and CRC-32. Registers
  are words of their width. A checksum continues from a previous value; the locale
  \<open>checksum\<close> says that data may be handed over in pieces.
\<close>

unbundle bit_operations_syntax

section \<open>Definitions\<close>

definition u32 :: "octet \<Rightarrow> 32 word" where
  "u32 c = of_nat (of_char c)"

definition ByteSum_add :: "octet list \<Rightarrow> 32 word \<Rightarrow> 32 word" where
  "ByteSum_add data prev = foldl (\<lambda>prev p. prev + u32 p) prev data"

subsection \<open>Adler-32\<close>

definition ADLER_BASE :: "32 word" where "ADLER_BASE = 65521"

definition adlerStep :: "32 word \<times> 32 word \<times> nat \<Rightarrow> octet \<Rightarrow> 32 word \<times> 32 word \<times> nat" where
  "adlerStep st p =
     (case st of (s1, s2, counter) \<Rightarrow>
        let counter = counter + 1;
            (s1, s2, counter) =
              (if counter > 5500 then (s1 mod ADLER_BASE, s2 mod ADLER_BASE, 0) else (s1, s2, counter));
            s1 = s1 + u32 p;
            s2 = s2 + s1
        in (s1, s2, counter))"

definition Adler32_add :: "octet list \<Rightarrow> 32 word \<Rightarrow> 32 word" where
  "Adler32_add data prev =
     (case foldl adlerStep (prev AND 0xFFFF, drop_bit 16 prev, 0) data of (s1, s2, counter) \<Rightarrow>
        push_bit 16 (s2 mod ADLER_BASE) OR (s1 mod ADLER_BASE))"

subsection \<open>Cyclic redundancy checks\<close>

text \<open>The two classes have the same code for registers of 16 and 32 bits.\<close>

definition crcShift :: "'w::len word \<Rightarrow> 'w word \<Rightarrow> 'w word" where
  "crcShift poly n = (if n AND 1 \<noteq> 0 then poly XOR drop_bit 1 n else drop_bit 1 n)"

definition crcTable :: "'w::len word \<Rightarrow> 'w word list" where
  "crcTable poly = map (\<lambda>i. (crcShift poly ^^ 8) (of_nat i)) [0..<256]"

definition crcOctet :: "octet \<Rightarrow> 'w::len word" where
  "crcOctet c = of_nat (of_char c)"

definition crcUpdate :: "'w::len word list \<Rightarrow> 'w word \<Rightarrow> octet \<Rightarrow> 'w word" where
  "crcUpdate m_table accum p = m_table ! unat ((crcOctet p XOR accum) AND 255) XOR drop_bit 8 accum"

definition CRC16_add :: "16 word list \<Rightarrow> octet list \<Rightarrow> 16 word \<Rightarrow> 16 word" where
  "CRC16_add m_table data prev = foldl (crcUpdate m_table) prev data"

definition CRC32_add :: "32 word list \<Rightarrow> octet list \<Rightarrow> 32 word \<Rightarrow> 32 word" where
  "CRC32_add m_table data prev = NOT (foldl (crcUpdate m_table) (NOT prev) data)"

definition CRC16_default :: "16 word list" where "CRC16_default = crcTable 0x8408"

definition CRC32_default :: "32 word list" where "CRC32_default = crcTable 0xEDB88320"

section \<open>The table does the work of the shift register\<close>

text \<open>
  The reference: a shift register with feedback that takes the bits of each octet one by one, the
  least significant first.
\<close>

definition registerStep :: "'w::len word \<Rightarrow> 'w word \<Rightarrow> bool \<Rightarrow> 'w word" where
  "registerStep poly accum b = (if bit accum 0 \<noteq> b then poly XOR drop_bit 1 accum else drop_bit 1 accum)"

definition octetBits :: "octet \<Rightarrow> bool list" where
  "octetBits c = map (bit (of_char c :: nat)) [0..<8]"

definition shiftRegister :: "'w::len word \<Rightarrow> 'w word \<Rightarrow> octet list \<Rightarrow> 'w word" where
  "shiftRegister poly accum data = foldl (registerStep poly) accum (concat (map octetBits data))"

lemma crcShift_alt: "crcShift poly n = drop_bit 1 n XOR (if bit n 0 then poly else 0)"
  by (simp add: crcShift_def and_one_eq xor.commute odd_iff_mod_2_eq_one [symmetric] bit_0)

lemma crcShift_xor: "crcShift poly (a XOR b) = crcShift poly a XOR crcShift poly b"
  by (auto simp: crcShift_alt drop_bit_xor bit_xor_iff intro!: bit_eqI)

lemma crcShifts_xor: "(crcShift poly ^^ k) (a XOR b) = (crcShift poly ^^ k) a XOR (crcShift poly ^^ k) b"
  by (induction k) (simp_all add: crcShift_xor)

lemma crcShifts_zero: "\<forall>i<k. \<not> bit x i \<Longrightarrow> (crcShift poly ^^ k) x = drop_bit k x"
proof (induction k arbitrary: x)
  case (Suc k)
  then have "crcShift poly x = drop_bit 1 x" by (simp add: crcShift_alt)
  moreover have "\<forall>i<k. \<not> bit (drop_bit 1 x) i" using Suc.prems by (simp add: bit_drop_bit_eq)
  ultimately show ?case using Suc.IH by (simp add: funpow_swap1 del: funpow.simps(2)) (simp add: funpow_swap1)
qed simp

lemma crcShifts_split: "(crcShift poly ^^ k) x = (crcShift poly ^^ k) (x AND mask k) XOR drop_bit k x"
proof -
  have "x = (x AND mask k) XOR (x AND NOT (mask k))"
    by (rule bit_eqI) (auto simp: bit_xor_iff bit_and_iff bit_not_iff)
  then have "(crcShift poly ^^ k) x = (crcShift poly ^^ k) (x AND mask k) XOR (crcShift poly ^^ k) (x AND NOT (mask k))"
    by (metis crcShifts_xor)
  also have "(crcShift poly ^^ k) (x AND NOT (mask k)) = drop_bit k (x AND NOT (mask k))"
    by (rule crcShifts_zero) (auto simp: bit_and_iff bit_not_iff bit_mask_iff dest: bit_imp_le_length)
  also have "drop_bit k (x AND NOT (mask k)) = drop_bit k x"
    by (rule bit_eqI) (auto simp: bit_drop_bit_eq bit_and_iff bit_not_iff bit_mask_iff dest: bit_imp_le_length)
  finally show ?thesis .
qed

lemma crcTable_nth: "i < 256 \<Longrightarrow> crcTable poly ! i = (crcShift poly ^^ 8) (of_nat i)"
  by (simp add: crcTable_def)

lemma mask_8: "(mask 8 :: 'w::len word) = 255"
  by (simp add: mask_eq_exp_minus_1)

lemma low_octet: "unat (x AND 255) < 256" for x :: "'w::len word"
proof -
  have "x AND 255 = take_bit 8 x" unfolding mask_8 [symmetric] by (rule take_bit_eq_mask [symmetric])
  moreover have "unat (take_bit 8 x) = take_bit 8 (unat x)" by (rule unsigned_take_bit_eq)
  moreover have "take_bit 8 (unat x) < 2 ^ 8" by (rule take_bit_nat_less_exp)
  ultimately show ?thesis by simp
qed

lemma bit_small: "m < 2 ^ k \<Longrightarrow> k \<le> n \<Longrightarrow> \<not> bit m n" for m :: nat
  by (metis bit_iff_odd div_less even_zero order_less_le_trans power_increasing_iff one_less_numeral_iff semiring_norm(76))

lemma bit_octet: "bit (crcOctet c :: 'w::len word) n \<longleftrightarrow> n < LENGTH('w) \<and> bit (of_char c :: nat) n"
  by (simp add: crcOctet_def bit_of_nat_iff possible_bit_word)

lemma drop_bit_octet: "drop_bit 8 (crcOctet c :: 'w::len word) = 0"
proof (rule bit_eqI)
  fix n
  have "of_char c < (2 :: nat) ^ 8" by simp
  then have "\<not> bit (of_char c :: nat) (8 + n)" by (rule bit_small) simp
  then show "bit (drop_bit 8 (crcOctet c :: 'w word)) n = bit (0 :: 'w word) n" by (simp add: bit_drop_bit_eq bit_octet)
qed

lemma crcUpdate_register: "crcUpdate (crcTable poly) accum p = (crcShift poly ^^ 8) (crcOctet p XOR accum)"
proof -
  let ?x = "crcOctet p XOR accum"
  have "(crcShift poly ^^ 8) ?x = (crcShift poly ^^ 8) (?x AND 255) XOR drop_bit 8 ?x"
    using crcShifts_split [of 8 poly ?x] unfolding mask_8 .
  moreover have "drop_bit 8 ?x = drop_bit 8 accum" by (simp add: drop_bit_xor drop_bit_octet)
  ultimately show ?thesis by (simp add: crcUpdate_def crcTable_nth low_octet)
qed

lemma registerStep_alt: "registerStep poly accum b = crcShift poly accum XOR (if b then poly else 0)"
  by (auto simp: registerStep_def crcShift_alt ac_simps)

lemma shift_of_nat:
  assumes "m < 2 ^ LENGTH('w)"
  shows "crcShift poly (of_nat m :: 'w::len word) = of_nat (m div 2) XOR (if odd m then poly else 0)"
proof -
  have "bit (of_nat m :: 'w word) (Suc n) \<longleftrightarrow> bit (of_nat (m div 2) :: 'w word) n" for n
    using bit_small [OF assms, of "Suc n"]
    by (cases "LENGTH('w) \<le> Suc n") (auto simp: bit_of_nat_iff possible_bit_word bit_Suc [of m, symmetric])
  then have "drop_bit 1 (of_nat m :: 'w word) = of_nat (m div 2)"
    by (intro bit_eqI) (simp add: bit_drop_bit_eq)
  moreover have "bit (of_nat m :: 'w word) 0 \<longleftrightarrow> odd m" by (simp add: bit_0)
  ultimately show ?thesis by (simp add: crcShift_alt)
qed

lemma register_bits:
  "m < 2 ^ LENGTH('w) \<Longrightarrow>
   foldl (registerStep poly) accum (map (bit m) [0..<k]) = (crcShift poly ^^ k) (accum XOR of_nat m) XOR of_nat (m div 2 ^ k)"
  for accum :: "'w::len word"
proof (induction k arbitrary: accum m)
  case (Suc k)
  have bits: "map (bit m) [0..<Suc k] = odd m # map (bit (m div 2)) [0..<k]"
    by (simp add: upt_conv_Cons map_Suc_upt [symmetric] bit_Suc bit_0 del: upt_Suc)
  have "m div 2 < 2 ^ LENGTH('w)" using Suc.prems by linarith
  note IH = Suc.IH [OF this]
  have "foldl (registerStep poly) accum (map (bit m) [0..<Suc k]) =
      (crcShift poly ^^ k) (registerStep poly accum (odd m) XOR of_nat (m div 2)) XOR of_nat (m div 2 div 2 ^ k)"
    unfolding bits using IH [of "registerStep poly accum (odd m)"] by simp
  also have "registerStep poly accum (odd m) XOR of_nat (m div 2) = crcShift poly (accum XOR of_nat m)"
    by (simp add: registerStep_alt crcShift_xor shift_of_nat [OF Suc.prems] ac_simps)
  finally show ?case by (simp add: funpow_swap1 div_mult2_eq)
qed (simp add: xor.assoc)

lemma shiftRegister_octet:
  assumes "8 \<le> LENGTH('w)"
  shows "foldl (registerStep poly) accum (octetBits c) = (crcShift poly ^^ 8) (crcOctet c XOR (accum :: 'w::len word))"
proof -
  have "of_char c < (2 :: nat) ^ 8" by simp
  also have "(2 :: nat) ^ 8 \<le> 2 ^ LENGTH('w)" using assms by (simp add: power_increasing del: power_numeral)
  finally show ?thesis using register_bits [of "of_char c" poly accum 8]
    by (simp add: octetBits_def crcOctet_def xor.commute)
qed

lemma crc_register:
  "8 \<le> LENGTH('w) \<Longrightarrow> foldl (crcUpdate (crcTable poly)) accum data = shiftRegister poly (accum :: 'w::len word) data"
  by (induction data arbitrary: accum) (simp_all add: shiftRegister_def crcUpdate_register shiftRegister_octet)

section \<open>Adler-32 never overflows\<close>

definition adlerRef :: "nat \<times> nat \<Rightarrow> octet \<Rightarrow> nat \<times> nat" where
  "adlerRef st c = (let a = (fst st + of_char c) mod 65521 in (a, (snd st + a) mod 65521))"

definition adlerReference :: "nat \<times> nat \<Rightarrow> octet list \<Rightarrow> nat \<times> nat" where
  "adlerReference st data = foldl adlerRef (fst st mod 65521, snd st mod 65521) data"

text \<open>
  The bounds while reductions are deferred, and the relation to the reference, which reduces after
  every octet.
\<close>

definition adlerInv :: "32 word \<times> 32 word \<times> nat \<Rightarrow> nat \<times> nat \<Rightarrow> bool" where
  "adlerInv st ref \<longleftrightarrow> (case st of (s1, s2, counter) \<Rightarrow>
     counter \<le> 5500 \<and> unat s1 \<le> 65535 + 255 * (counter + 1) \<and>
     2 * unat s2 \<le> 131070 * (counter + 2) + 255 * ((counter + 1) * (counter + 2)) \<and>
     unat s1 mod 65521 = fst ref \<and> unat s2 mod 65521 = snd ref)"

lemma unat_u32: "unat (u32 c) = of_char c"
proof -
  have "of_char c < (2 :: nat) ^ LENGTH(32)" by (rule order_less_trans [of _ 256]) simp_all
  then show ?thesis by (simp add: u32_def unat_of_nat)
qed

lemma unat_add_small: "unat x + unat y < 4294967296 \<Longrightarrow> unat (x + y) = unat x + unat y" for x y :: "32 word"
  using unat_add_lem [of x y] by simp

lemma unat_ADLER_BASE: "unat ADLER_BASE = 65521"
  by (simp add: ADLER_BASE_def)

text \<open>One octet, on registers that are small enough.\<close>

lemma adler_octet:
  assumes "a + of_char c \<le> 65535 + 255 * (n + 1)" "2 * b + 2 * (a + of_char c) \<le> 131070 * (n + 2) + 255 * ((n + 1) * (n + 2))"
    "n \<le> 5500" "unat s1 = a" "unat s2 = b" "a mod 65521 = fst ref" "b mod 65521 = snd ref"
  shows "adlerInv (s1 + u32 c, s2 + (s1 + u32 c), n) (adlerRef ref c)"
proof -
  define q where "q = (n + 1) * (n + 2)"
  have "q \<le> 5501 * 5502" unfolding q_def using assms(3) by (intro mult_le_mono) simp_all
  then have "b + (a + of_char c) < 4294967296" using assms(3) assms(2) [folded q_def] by simp
  moreover have "a + of_char c < 4294967296" using assms(1,3) by simp
  ultimately have s: "unat (s1 + u32 c) = a + of_char c" "unat (s2 + (s1 + u32 c)) = b + (a + of_char c)"
    using assms(4,5) by (simp_all add: unat_add_small unat_u32)
  have "(a + of_char c) mod 65521 = (fst ref + of_char c) mod 65521" using assms(6) by (metis mod_add_left_eq)
  moreover have "(b + (a + of_char c)) mod 65521 = (snd ref + (fst ref + of_char c) mod 65521) mod 65521"
    using assms(6,7) by (metis mod_add_eq mod_add_left_eq mod_mod_trivial)
  ultimately show ?thesis using assms(1-3) by (simp add: adlerInv_def s adlerRef_def Let_def)
qed

lemma adlerStep_inv:
  assumes "adlerInv st ref"
  shows "adlerInv (adlerStep st c) (adlerRef ref c)"
proof -
  obtain s1 s2 n where st: "st = (s1, s2, n)" by (cases st) auto
  note inv = assms [unfolded st adlerInv_def prod.case]
  have c: "of_char c \<le> (255 :: nat)" using nat_of_char_less_256 [of c] by linarith
  show ?thesis
  proof (cases "n + 1 > 5500")
    case True
    let ?a = "unat s1 mod 65521" and ?b = "unat s2 mod 65521"
    have "?a < 65521" "?b < 65521" by simp_all
    then have "adlerInv (s1 mod ADLER_BASE + u32 c, s2 mod ADLER_BASE + (s1 mod ADLER_BASE + u32 c), 0) (adlerRef ref c)"
      using inv c by (intro adler_octet [of ?a c 0 ?b]) (simp_all add: unat_mod unat_ADLER_BASE)
    with True show ?thesis by (simp add: st adlerStep_def Let_def)
  next
    case False
    have "2 * unat s2 + 2 * (unat s1 + of_char c) \<le> 131070 * (n + 1 + 2) + 255 * ((n + 1 + 1) * (n + 1 + 2))"
      using inv c by (simp add: algebra_simps)
    then have "adlerInv (s1 + u32 c, s2 + (s1 + u32 c), n + 1) (adlerRef ref c)"
      using inv c False by (intro adler_octet [of "unat s1" c "n + 1" "unat s2"]) simp_all
    with False show ?thesis by (simp add: st adlerStep_def Let_def)
  qed
qed

lemma adler_fold: "adlerInv st ref \<Longrightarrow> adlerInv (foldl adlerStep st data) (foldl adlerRef ref data)"
  by (induction data arbitrary: st ref) (simp_all add: adlerStep_inv)

definition adlerParts :: "32 word \<Rightarrow> nat \<times> nat" where
  "adlerParts prev = (unat prev mod 65536, unat prev div 65536)"

lemma adler_start: "adlerInv (prev AND 0xFFFF, drop_bit 16 prev, 0) (unat prev mod 65536 mod 65521, unat prev div 65536 mod 65521)"
proof -
  have "prev AND 0xFFFF = take_bit 16 prev" by (simp add: take_bit_eq_mask mask_eq_exp_minus_1)
  then have "unat (prev AND 0xFFFF) = unat prev mod 65536" by (simp add: take_bit_eq_mod unat_mod)
  moreover have "unat (drop_bit 16 prev) = unat prev div 65536" by (simp add: drop_bit_eq_div unat_div)
  moreover have "unat prev div 65536 < 65536" using unsigned_less [of prev, where ?'a = nat] by (simp add: div_less_iff_less_mult)
  moreover have "unat prev mod 65536 < 65536" by simp
  ultimately show ?thesis by (simp add: adlerInv_def)
qed

lemma pack_parts:
  assumes "a < 65536" "b < 65536"
  shows "unat (push_bit 16 (of_nat b) OR of_nat a :: 32 word) = 65536 * b + a"
proof -
  have "bit (push_bit 16 (of_nat b :: 32 word) AND of_nat a) i = bit (0 :: 32 word) i" for i
    using bit_small [of a 16 i] assms(1) by (auto simp: bit_and_iff bit_push_bit_iff bit_of_nat_iff)
  then have "push_bit 16 (of_nat b :: 32 word) AND of_nat a = 0" by (rule bit_eqI)
  then have "push_bit 16 (of_nat b) OR of_nat a = push_bit 16 (of_nat b :: 32 word) + of_nat a"
    by (rule disjunctive_add_eq_or [symmetric])
  also have "\<dots> = of_nat (65536 * b + a)" by (simp add: push_bit_eq_mult)
  finally have "unat (push_bit 16 (of_nat b) OR of_nat a :: 32 word) = (65536 * b + a) mod 2 ^ LENGTH(32)"
    by (simp only: unat_of_nat)
  then show ?thesis using assms by simp
qed

lemma Adler32_add_parts:
  assumes "adlerReference (adlerParts prev) data = (a, b)"
  shows "unat (Adler32_add data prev) = 65536 * b + a \<and> a < 65521 \<and> b < 65521"
proof -
  obtain s1 s2 n where st: "foldl adlerStep (prev AND 0xFFFF, drop_bit 16 prev, 0) data = (s1, s2, n)" by (metis prod_cases3)
  have ref: "foldl adlerRef (unat prev mod 65536 mod 65521, unat prev div 65536 mod 65521) data = (a, b)"
    using assms by (simp add: adlerReference_def adlerParts_def)
  have "unat s1 mod 65521 = a" "unat s2 mod 65521 = b"
    using adler_fold [OF adler_start, of prev data] by (simp_all add: st ref adlerInv_def)
  moreover from this have "a < 65521" "b < 65521" by auto
  moreover from calculation have "s1 mod ADLER_BASE = of_nat a" "s2 mod ADLER_BASE = of_nat b"
    by (simp_all add: word_unat_eq_iff unat_mod unat_ADLER_BASE unat_of_nat)
  ultimately show ?thesis by (simp add: Adler32_add_def st pack_parts)
qed

lemma adlerReference_append:
  "adlerReference st (xs @ ys) = adlerReference (adlerReference st xs) ys"
proof -
  have "fst (adlerReference st xs) < 65521 \<and> snd (adlerReference st xs) < 65521"
    unfolding adlerReference_def by (induction xs rule: rev_induct) (simp_all add: adlerRef_def Let_def)
  then show ?thesis by (simp add: adlerReference_def)
qed

lemma adlerParts_add: "adlerParts (Adler32_add data prev) = adlerReference (adlerParts prev) data"
proof -
  obtain a b where ab: "adlerReference (adlerParts prev) data = (a, b)" by fastforce
  from Adler32_add_parts [OF ab] show ?thesis unfolding adlerParts_def [of "Adler32_add data prev"] ab by simp
qed

lemma Adler32_add_eq: "adlerReference (adlerParts p) xs = adlerReference (adlerParts q) ys \<Longrightarrow> Adler32_add xs p = Adler32_add ys q"
  by (metis Adler32_add_parts prod.exhaust word_unat_eq_iff)

section \<open>Checksums over pieces\<close>

text \<open>What the interface \<open>Checksum\<close> promises: a checksum can be continued.\<close>

locale checksum =
  fixes add :: "octet list \<Rightarrow> 'w \<Rightarrow> 'w"
  assumes add_append: "add (xs @ ys) prev = add ys (add xs prev)"
begin

lemma add_pieces: "foldl (\<lambda>prev data. add data prev) (add xs prev) pieces = add (xs @ concat pieces) prev"
  by (induction pieces arbitrary: xs) (simp_all add: add_append [symmetric])

end

interpretation byteSum: checksum ByteSum_add
  by unfold_locales (simp add: ByteSum_add_def)

interpretation crc16: checksum "CRC16_add m_table" for m_table
  by unfold_locales (simp add: CRC16_add_def)

interpretation crc32: checksum "CRC32_add m_table" for m_table
  by unfold_locales (simp add: CRC32_add_def)

interpretation adler32: checksum Adler32_add
  by unfold_locales (rule Adler32_add_eq, simp add: adlerParts_add adlerReference_append)

section \<open>Properties\<close>

text \<open>
  C35: The table-driven checks compute what the shift register with feedback computes bit by bit,
  CRC-32 with inversion before and after, for every polynomial.
\<close>

theorem crc_is_shift_register:
  "CRC16_add (crcTable poly16) data prev16 = shiftRegister poly16 prev16 data \<and>
   CRC32_add (crcTable poly32) data prev32 = NOT (shiftRegister poly32 (NOT prev32) data)"
  by (simp add: CRC16_add_def CRC32_add_def crc_register)

text \<open>
  C36: Adler-32 with its deferred reductions is exact: no 32-bit register overflows, whatever the
  data and its length, and the result is that of reducing both sums modulo 65521 after every octet.
\<close>

theorem Adler32_exact:
  "unat (Adler32_add data prev) =
     65536 * snd (adlerReference (unat prev mod 65536, unat prev div 65536) data)
     + fst (adlerReference (unat prev mod 65536, unat prev div 65536) data)"
  using Adler32_add_parts [of prev data] by (metis adlerParts_def prod.collapse)

text \<open> The checksum of data that arrives in pieces is the checksum of the whole, for all four
  checksums.
\<close>

theorem checksums_of_pieces:
  "foldl (\<lambda>prev data. ByteSum_add data prev) (ByteSum_add xs p) pieces = ByteSum_add (xs @ concat pieces) p \<and>
   foldl (\<lambda>prev data. Adler32_add data prev) (Adler32_add xs p) pieces = Adler32_add (xs @ concat pieces) p \<and>
   foldl (\<lambda>prev data. CRC16_add m_table data prev) (CRC16_add m_table xs p16) pieces = CRC16_add m_table (xs @ concat pieces) p16 \<and>
   foldl (\<lambda>prev data. CRC32_add m_table32 data prev) (CRC32_add m_table32 xs p) pieces = CRC32_add m_table32 (xs @ concat pieces) p"
  by (intro conjI byteSum.add_pieces adler32.add_pieces crc16.add_pieces crc32.add_pieces)

end
