(* ===== verification/Afl_Memory.thy ===== *)
theory Afl_Memory
  imports Afl_Prelude
begin

text \<open>
  Memory descriptors (\<open>afl/base/memory.hpp\<close>) and growable memory (\<open>afl/base/growablememory.hpp\<close>).

  A descriptor is a pointer and a size. The memory it points into is an explicit store, the list of
  the elements of one array, and the pointer is an index there, so that two descriptors can overlap;
  the null pointer of an empty descriptor is index 0. Operations that write give the changed store.
  Copying is modelled element by element, in the direction in which the code copies.
\<close>

section \<open>Descriptors\<close>

record memory =
  m_ptr :: nat
  m_size :: nat

definition Memory_init :: memory where
  "Memory_init = \<lparr>m_ptr = 0, m_size = 0\<rparr>"

definition fromSingleObject :: "nat \<Rightarrow> memory" where
  "fromSingleObject obj = \<lparr>m_ptr = obj, m_size = 1\<rparr>"

definition Memory_empty :: "memory \<Rightarrow> bool" where
  "Memory_empty m \<longleftrightarrow> m_size m = 0"

definition Memory_subrange :: "nat \<Rightarrow> nat \<Rightarrow> memory \<Rightarrow> memory" where
  "Memory_subrange pos len m =
     (let realPos = min pos (m_size m);
          realSize = min len (m_size m - realPos)
      in if realSize \<noteq> 0 then \<lparr>m_ptr = m_ptr m + realPos, m_size = realSize\<rparr> else Memory_init)"

definition Memory_split :: "nat \<Rightarrow> memory \<Rightarrow> memory \<times> memory" where
  "Memory_split amount m =
     (let realSize = min amount (m_size m)
      in (\<lparr>m_ptr = m_ptr m, m_size = realSize\<rparr>,
          if realSize \<noteq> 0 then m\<lparr>m_ptr := m_ptr m + realSize, m_size := m_size m - realSize\<rparr> else m))"

text \<open>The amount can be of a signed type; no value of a 64-bit type is changed by \<open>size_t\<close>.\<close>

definition Memory_splitUpdate :: "int \<Rightarrow> memory \<Rightarrow> memory \<times> int \<times> memory" where
  "Memory_splitUpdate amount m =
     (let realSize = (if amount \<le> 0 then 0 else min (nat amount) (m_size m))
      in (\<lparr>m_ptr = m_ptr m, m_size = realSize\<rparr>,
          if realSize \<noteq> 0 then amount - int realSize else amount,
          if realSize \<noteq> 0 then m\<lparr>m_ptr := m_ptr m + realSize, m_size := m_size m - realSize\<rparr> else m))"

definition Memory_trim :: "nat \<Rightarrow> memory \<Rightarrow> memory" where
  "Memory_trim len m = m\<lparr>m_size := min (m_size m) len\<rparr>"

definition Memory_merge :: "memory \<Rightarrow> memory \<Rightarrow> bool \<times> memory" where
  "Memory_merge end m =
     (if m_size end = 0 then (True, m)
      else if m_size m = 0 then (True, end)
      else if m_ptr m + m_size m = m_ptr end then (True, m\<lparr>m_size := m_size m + m_size end\<rparr>)
      else (False, m))"

definition Memory_reset :: "memory \<Rightarrow> memory" where
  "Memory_reset m = m\<lparr>m_size := 0, m_ptr := 0\<rparr>"

definition Memory_at :: "nat \<Rightarrow> memory \<Rightarrow> nat option" where
  "Memory_at n m = (if n < m_size m then Some (m_ptr m + n) else None)"

definition Memory_eat :: "memory \<Rightarrow> nat option \<times> memory" where
  "Memory_eat m =
     (if m_size m = 0 then (None, m)
      else (Some (m_ptr m), m\<lparr>m_ptr := m_ptr m + 1, m_size := m_size m - 1\<rparr>))"

definition Memory_eatN :: "nat \<Rightarrow> memory \<Rightarrow> nat option \<times> memory" where
  "Memory_eatN n m =
     (if m_size m < n then (None, m)
      else (Some (m_ptr m), m\<lparr>m_ptr := m_ptr m + n, m_size := m_size m - n\<rparr>))"

definition Memory_atEnd :: "nat \<Rightarrow> memory \<Rightarrow> nat option" where
  "Memory_atEnd n m = (if n < m_size m then Some (m_ptr m + (m_size m - n - 1)) else None)"

definition Memory_removeEnd :: "nat \<Rightarrow> memory \<Rightarrow> memory" where
  "Memory_removeEnd n m = (if n < m_size m then m\<lparr>m_size := m_size m - n\<rparr> else m\<lparr>m_size := 0\<rparr>)"

definition Memory_same :: "memory \<Rightarrow> memory \<Rightarrow> bool" where
  "Memory_same other m \<longleftrightarrow> m_size m = m_size other \<and> (m_size m = 0 \<or> m_ptr m = m_ptr other)"

subsection \<open>Element-wise operations\<close>

fun equalLoop :: "'a list \<Rightarrow> nat \<Rightarrow> nat \<Rightarrow> nat \<Rightarrow> bool" where
  "equalLoop store a b 0 = True"
| "equalLoop store a b (Suc count) = (store ! a = store ! b \<and> equalLoop store (a + 1) (b + 1) count)"

fun compareLoop :: "'a::linorder list \<Rightarrow> nat \<Rightarrow> nat \<Rightarrow> nat \<Rightarrow> int" where
  "compareLoop store a b 0 = 0"
| "compareLoop store a b (Suc count) =
     (if store ! a = store ! b then compareLoop store (a + 1) (b + 1) count
      else if store ! a < store ! b then -1
      else 1)"

fun fillLoop :: "'a \<Rightarrow> nat \<Rightarrow> nat \<Rightarrow> 'a list \<Rightarrow> 'a list" where
  "fillLoop val a 0 store = store"
| "fillLoop val a (Suc count) store = fillLoop val (a + 1) count (store[a := val])"

text \<open>\<open>std::copy\<close> starts at the first element, \<open>std::copy_backward\<close> at the last.\<close>

fun copyLoop :: "nat \<Rightarrow> nat \<Rightarrow> nat \<Rightarrow> 'a list \<Rightarrow> 'a list" where
  "copyLoop src dest 0 store = store"
| "copyLoop src dest (Suc count) store = copyLoop (src + 1) (dest + 1) count (store[dest := store ! src])"

fun copyBackwardLoop :: "nat \<Rightarrow> nat \<Rightarrow> nat \<Rightarrow> 'a list \<Rightarrow> 'a list" where
  "copyBackwardLoop src dest 0 store = store"
| "copyBackwardLoop src dest (Suc count) store =
     copyBackwardLoop src dest count (store[dest + count := store ! (src + count)])"

definition Traits_copy :: "nat \<Rightarrow> nat \<Rightarrow> nat \<Rightarrow> 'a list \<Rightarrow> 'a list" where
  "Traits_copy dest src count store =
     (if src = dest then store
      else if src < dest \<and> dest < src + count then copyBackwardLoop src dest count store
      else copyLoop src dest count store)"

fun findLoop :: "'a list \<Rightarrow> nat \<Rightarrow> nat \<Rightarrow> 'a \<Rightarrow> nat" where
  "findLoop store a 0 val = 0"
| "findLoop store a (Suc count) val = (if store ! a = val then 0 else 1 + findLoop store (a + 1) count val)"

definition Memory_fill :: "'a \<Rightarrow> memory \<Rightarrow> 'a list \<Rightarrow> 'a list" where
  "Memory_fill elem m store = (if m_size m \<noteq> 0 then fillLoop elem (m_ptr m) (m_size m) store else store)"

definition Memory_equalContent :: "'a list \<Rightarrow> memory \<Rightarrow> memory \<Rightarrow> bool" where
  "Memory_equalContent store other m \<longleftrightarrow>
     m_size m = m_size other \<and> (m_size m = 0 \<or> equalLoop store (m_ptr m) (m_ptr other) (m_size m))"

definition Memory_compareContent :: "'a::linorder list \<Rightarrow> memory \<Rightarrow> memory \<Rightarrow> int" where
  "Memory_compareContent store other m =
     (let amountToCompare = min (m_size m) (m_size other);
          delta = (if amountToCompare \<noteq> 0 then compareLoop store (m_ptr m) (m_ptr other) amountToCompare else 0)
      in if delta \<noteq> 0 then delta
         else if m_size m = m_size other then 0
         else if m_size m < m_size other then -1
         else 1)"

definition Memory_copyFrom :: "memory \<Rightarrow> memory \<Rightarrow> 'a list \<Rightarrow> memory \<times> 'a list" where
  "Memory_copyFrom other m store =
     (let amountToCopy = min (m_size m) (m_size other)
      in (\<lparr>m_ptr = m_ptr m, m_size = amountToCopy\<rparr>,
          if amountToCopy \<noteq> 0 then Traits_copy (m_ptr m) (m_ptr other) amountToCopy store else store))"

definition Memory_fullRead :: "memory \<Rightarrow> memory \<Rightarrow> 'a list \<Rightarrow> bool \<times> memory \<times> 'a list" where
  "Memory_fullRead out m store =
     (if m_size m \<ge> m_size out
      then (case Memory_split (m_size out) m of (now, m) \<Rightarrow> (True, m, snd (Memory_copyFrom now out store)))
      else (False, Memory_reset m, store))"

definition Memory_find :: "'a list \<Rightarrow> 'a \<Rightarrow> memory \<Rightarrow> nat" where
  "Memory_find store elem m = findLoop store (m_ptr m) (m_size m) elem"

fun findNotLoop :: "'a list \<Rightarrow> 'a \<Rightarrow> nat \<Rightarrow> nat \<Rightarrow> nat" where
  "findNotLoop store elem a 0 = 0"
| "findNotLoop store elem a (Suc count) =
     (if store ! a = elem then 1 + findNotLoop store elem (a + 1) count else 0)"

definition Memory_findNot :: "'a list \<Rightarrow> 'a \<Rightarrow> memory \<Rightarrow> nat" where
  "Memory_findNot store elem m = findNotLoop store elem (m_ptr m) (m_size m)"

fun findFirstOfLoop :: "'a list \<Rightarrow> memory \<Rightarrow> nat \<Rightarrow> nat \<Rightarrow> nat" where
  "findFirstOfLoop store elems a 0 = 0"
| "findFirstOfLoop store elems a (Suc count) =
     (if Memory_find store (store ! a) elems = m_size elems then 1 + findFirstOfLoop store elems (a + 1) count
      else 0)"

definition Memory_findFirstOf :: "'a list \<Rightarrow> memory \<Rightarrow> memory \<Rightarrow> nat" where
  "Memory_findFirstOf store elems m =
     (if Memory_empty elems then m_size m else findFirstOfLoop store elems (m_ptr m) (m_size m))"

section \<open>Descriptors stay inside their memory\<close>

definition content :: "'a list \<Rightarrow> memory \<Rightarrow> 'a list" where
  "content store m = take (m_size m) (drop (m_ptr m) store)"

text \<open>A descriptor is inside a store; one descriptor covers another one (an empty one covers nothing).\<close>

definition inside :: "'a list \<Rightarrow> memory \<Rightarrow> bool" where
  "inside store m \<longleftrightarrow> m_ptr m + m_size m \<le> length store"

definition covers :: "memory \<Rightarrow> memory \<Rightarrow> bool" where
  "covers m m' \<longleftrightarrow> m_size m' = 0 \<or> (m_ptr m \<le> m_ptr m' \<and> m_ptr m' + m_size m' \<le> m_ptr m + m_size m)"

lemma length_content [simp]: "inside store m \<Longrightarrow> length (content store m) = m_size m"
  by (simp add: content_def inside_def)

lemma content_nth: "inside store m \<Longrightarrow> i < m_size m \<Longrightarrow> content store m ! i = store ! (m_ptr m + i)"
  by (simp add: content_def inside_def)

lemma content_subrange: "content store (Memory_subrange pos len m) = take len (drop pos (content store m))"
proof (cases "pos \<le> m_size m")
  case True
  then show ?thesis
    by (simp add: Memory_subrange_def Memory_init_def content_def Let_def drop_take add.commute min.absorb1)
next
  case False
  then show ?thesis by (simp add: Memory_subrange_def Memory_init_def content_def Let_def min.absorb2)
qed

lemma content_split:
  "content store (fst (Memory_split n m)) = take n (content store m)"
  "content store (snd (Memory_split n m)) = drop n (content store m)"
proof -
  show "content store (fst (Memory_split n m)) = take n (content store m)"
    by (simp add: Memory_split_def content_def Let_def)
  show "content store (snd (Memory_split n m)) = drop n (content store m)"
    by (cases "n \<le> m_size m") (auto simp: Memory_split_def content_def Let_def drop_take add.commute min.absorb1 min.absorb2)
qed

lemma content_trim: "content store (Memory_trim n m) = take n (content store m)"
  by (simp add: Memory_trim_def content_def min.commute)

lemma content_eat: "content store (snd (Memory_eat m)) = tl (content store m)"
  by (cases "m_size m") (simp_all add: Memory_eat_def content_def tl_take tl_drop drop_Suc)

lemma content_removeEnd: "inside store m \<Longrightarrow> content store (Memory_removeEnd n m) = take (m_size m - n) (content store m)"
  by (auto simp: Memory_removeEnd_def content_def)

lemma content_merge:
  "Memory_merge e m = (True, m') \<Longrightarrow> content store m' = content store m @ content store e"
  by (auto simp: Memory_merge_def content_def take_add add.commute [of "m_size e"] drop_drop [symmetric]
      simp del: drop_drop split: if_splits) (simp add: add.commute)

lemma content_Cons: "inside store m \<Longrightarrow> m_size m > 0 \<Longrightarrow> content store m = store ! m_ptr m # tl (content store m)"
  using length_content [of store m] content_nth [of store m 0] by (cases "content store m") auto

section \<open>Element-wise operations on contents\<close>

definition range_of :: "'a list \<Rightarrow> nat \<Rightarrow> nat \<Rightarrow> 'a list" where
  "range_of store a n = take n (drop a store)"

lemma range_of_0 [simp]: "range_of store a 0 = []"
  by (simp add: range_of_def)

lemma range_of_Suc: "a + Suc n \<le> length store \<Longrightarrow> range_of store a (Suc n) = store ! a # range_of store (a + 1) n"
  by (simp add: range_of_def Cons_nth_drop_Suc [symmetric])

lemma content_range_of: "content store m = range_of store (m_ptr m) (m_size m)"
  by (simp add: content_def range_of_def)

lemma length_range_of [simp]: "a + n \<le> length store \<Longrightarrow> length (range_of store a n) = n"
  by (simp add: range_of_def)

lemma equalLoop_spec:
  "a + n \<le> length store \<Longrightarrow> b + n \<le> length store \<Longrightarrow>
   equalLoop store a b n \<longleftrightarrow> range_of store a n = range_of store b n"
  by (induction n arbitrary: a b) (simp_all add: range_of_Suc)

text \<open>The sign of a lexicographic comparison.\<close>

definition order3 :: "'a::linorder \<Rightarrow> 'a \<Rightarrow> int" where
  "order3 x y = (if x = y then 0 else if x < y then -1 else 1)"

lemma compareLoop_spec:
  fixes store :: "'a::linorder list"
  shows "a + n \<le> length store \<Longrightarrow> b + n \<le> length store \<Longrightarrow>
   compareLoop store a b n = order3 (range_of store a n) (range_of store b n)"
  by (induction n arbitrary: a b) (auto simp: range_of_Suc order3_def)

lemma append_less_same_length:
  fixes us vs :: "'a::linorder list"
  shows "length us = length vs \<Longrightarrow> us @ xs < vs @ ys \<longleftrightarrow> us < vs \<or> us = vs \<and> xs < ys"
  by (induction us vs rule: list_induct2) auto

lemma order3_append:
  fixes us vs :: "'a::linorder list"
  shows "length us = length vs \<Longrightarrow> order3 (us @ xs) (vs @ ys) = (if us = vs then order3 xs ys else order3 us vs)"
  by (auto simp: order3_def append_less_same_length)

lemma findLoop_spec:
  "a + n \<le> length store \<Longrightarrow> findLoop store a n val = length (takeWhile (\<lambda>x. x \<noteq> val) (range_of store a n))"
  by (induction n arbitrary: a) (simp_all add: range_of_Suc)

lemma findNotLoop_spec:
  "a + n \<le> length store \<Longrightarrow> findNotLoop store val a n = length (takeWhile (\<lambda>x. x = val) (range_of store a n))"
  by (induction n arbitrary: a) (simp_all add: range_of_Suc)

lemma takeWhile_full: "length (takeWhile P xs) = length xs \<longleftrightarrow> (\<forall>x\<in>set xs. P x)"
  by (metis takeWhile_eq_all_conv takeWhile_eq_take take_all order_refl)

lemma find_missing: "inside store m \<Longrightarrow> Memory_find store val m = m_size m \<longleftrightarrow> val \<notin> set (content store m)"
  using takeWhile_full [of "\<lambda>x. x \<noteq> val" "content store m"]
  by (auto simp: Memory_find_def findLoop_spec inside_def content_range_of)

lemma findFirstOfLoop_spec:
  "a + n \<le> length store \<Longrightarrow> inside store elems \<Longrightarrow>
   findFirstOfLoop store elems a n = length (takeWhile (\<lambda>x. x \<notin> set (content store elems)) (range_of store a n))"
  by (induction n arbitrary: a) (simp_all add: range_of_Suc find_missing)

lemma fillLoop_spec:
  "a + n \<le> length store \<Longrightarrow> fillLoop val a n store = take a store @ replicate n val @ drop (a + n) store"
proof (induction n arbitrary: a store)
  case (Suc n)
  then have "fillLoop val a (Suc n) store =
      take (a + 1) (store[a := val]) @ replicate n val @ drop (a + 1 + n) (store[a := val])" by simp
  also have "take (a + 1) (store[a := val]) = take a store @ [val]"
    using Suc.prems by (simp add: take_Suc_conv_app_nth)
  finally show ?case by simp
qed simp

subsection \<open>Copying\<close>

lemma copyLoop_nth:
  "src + n \<le> length store \<Longrightarrow> dest + n \<le> length store \<Longrightarrow> dest \<le> src \<or> src + n \<le> dest \<Longrightarrow>
   length (copyLoop src dest n store) = length store \<and>
   (\<forall>i < length store. copyLoop src dest n store ! i =
      (if dest \<le> i \<and> i < dest + n then store ! (src + i - dest) else store ! i))"
proof (induction n arbitrary: src dest store)
  case (Suc n)
  let ?s = "store[dest := store ! src]"
  have IH: "length (copyLoop (src + 1) (dest + 1) n ?s) = length ?s \<and>
    (\<forall>i < length ?s. copyLoop (src + 1) (dest + 1) n ?s ! i =
      (if dest + 1 \<le> i \<and> i < dest + 1 + n then ?s ! (src + 1 + i - (dest + 1)) else ?s ! i))"
    using Suc.prems by (intro Suc.IH) auto
  have "?s ! (src + 1 + i - (dest + 1)) = store ! (src + i - dest)" if "dest + 1 \<le> i" "i < dest + 1 + n" for i
  proof -
    have "src + i - dest \<noteq> dest" using that Suc.prems by auto
    then show ?thesis by (simp add: nth_list_update)
  qed
  moreover have "i = dest" if "\<not> Suc dest \<le> i" "dest \<le> i" for i using that by simp
  ultimately have "copyLoop src dest (Suc n) store ! i =
      (if dest \<le> i \<and> i < dest + Suc n then store ! (src + i - dest) else store ! i)" if "i < length store" for i
    using IH Suc.prems that by (cases "i = dest") (auto simp: nth_list_update)
  with IH show ?case by simp
qed auto

lemma copyBackwardLoop_nth:
  "src + n \<le> length store \<Longrightarrow> dest + n \<le> length store \<Longrightarrow> src \<le> dest \<Longrightarrow>
   length (copyBackwardLoop src dest n store) = length store \<and>
   (\<forall>i < length store. copyBackwardLoop src dest n store ! i =
      (if dest \<le> i \<and> i < dest + n then store ! (src + i - dest) else store ! i))"
proof (induction n arbitrary: store)
  case (Suc n)
  let ?s = "store[dest + n := store ! (src + n)]"
  have IH: "length (copyBackwardLoop src dest n ?s) = length ?s \<and>
    (\<forall>i < length ?s. copyBackwardLoop src dest n ?s ! i =
      (if dest \<le> i \<and> i < dest + n then ?s ! (src + i - dest) else ?s ! i))"
    using Suc.prems by (intro Suc.IH) auto
  have "?s ! (src + i - dest) = store ! (src + i - dest)" if "dest \<le> i" "i < dest + n" for i
  proof -
    have "src + i - dest \<noteq> dest + n" using that Suc.prems by auto
    then show ?thesis by (simp add: nth_list_update)
  qed
  then have "copyBackwardLoop src dest (Suc n) store ! i =
      (if dest \<le> i \<and> i < dest + Suc n then store ! (src + i - dest) else store ! i)" if "i < length store" for i
    using IH Suc.prems that by (cases "i = dest + n") (auto simp: nth_list_update)
  with IH show ?case by simp
qed auto

definition overwrite :: "'a list \<Rightarrow> nat \<Rightarrow> 'a list \<Rightarrow> 'a list" where
  "overwrite xs p ys = take p xs @ ys @ drop (p + length ys) xs"

lemma length_overwrite [simp]: "p + length ys \<le> length xs \<Longrightarrow> length (overwrite xs p ys) = length xs"
  by (simp add: overwrite_def)

lemma overwrite_nth:
  "p + length ys \<le> length xs \<Longrightarrow> i < length xs \<Longrightarrow>
   overwrite xs p ys ! i = (if p \<le> i \<and> i < p + length ys then ys ! (i - p) else xs ! i)"
  by (auto simp: overwrite_def nth_append)

lemma Traits_copy_spec:
  assumes "src + n \<le> length store" "dest + n \<le> length store"
  shows "Traits_copy dest src n store = overwrite store dest (range_of store src n)"
proof (rule nth_equalityI)
  have *: "length (Traits_copy dest src n store) = length store \<and>
    (\<forall>i < length store. Traits_copy dest src n store ! i =
      (if dest \<le> i \<and> i < dest + n then store ! (src + i - dest) else store ! i))"
  proof (cases "src < dest \<and> dest < src + n")
    case True
    then show ?thesis using copyBackwardLoop_nth [OF assms] by (simp add: Traits_copy_def)
  next
    case False
    then have "dest \<le> src \<or> src + n \<le> dest" by auto
    then show ?thesis using False copyLoop_nth [OF assms] by (auto simp: Traits_copy_def)
  qed
  show "length (Traits_copy dest src n store) = length (overwrite store dest (range_of store src n))"
    using * assms by simp
  fix i
  assume "i < length (Traits_copy dest src n store)"
  then show "Traits_copy dest src n store ! i = overwrite store dest (range_of store src n) ! i"
    using * assms by (auto simp: overwrite_nth range_of_def)
qed

lemma copyFrom_spec:
  assumes "inside store m" "inside store other"
  shows "snd (Memory_copyFrom other m store) = overwrite store (m_ptr m) (take (m_size m) (content store other))"
  using assms
  by (auto simp: Memory_copyFrom_def Let_def Traits_copy_spec inside_def content_def range_of_def min_def overwrite_def)

section \<open>Growable memory\<close>

text \<open>
  The array behind \<open>m_data\<close> is the list of all its elements, used or not. Allocation is a parameter:
  \<open>alloc n\<close> is the new array of \<open>n\<close> elements with arbitrary values, or nothing where \<open>new\<close> throws.
  Sizes are computed modulo \<open>2 ^ 64\<close>.
\<close>

record 'a growable =
  g_data :: "'a list"
  g_capacity :: nat
  g_size :: nat

type_synonym 'a allocator = "nat \<Rightarrow> 'a list option"

definition size_add :: "nat \<Rightarrow> nat \<Rightarrow> nat" where
  "size_add a b = (a + b) mod 2 ^ 64"

definition MINIMUM_CAPACITY :: "nat \<Rightarrow> nat" where
  "MINIMUM_CAPACITY sizeof_T = 256 div sizeof_T"

definition GrowableMemory_init :: "'a growable" where
  "GrowableMemory_init = \<lparr>g_data = [], g_capacity = 0, g_size = 0\<rparr>"

definition toMemory :: "'a growable \<Rightarrow> memory" where
  "toMemory g = \<lparr>m_ptr = 0, m_size = g_size g\<rparr>"

definition ensureCapacityInternal :: "'a allocator \<Rightarrow> nat \<Rightarrow> nat \<Rightarrow> 'a growable \<Rightarrow> 'a growable result" where
  "ensureCapacityInternal alloc sizeof_T newCapacity g =
     (if newCapacity \<ge> g_capacity g
      then let newCapacity = max newCapacity (g_size g * 2 mod 2 ^ 64);
               newCapacity = max newCapacity (MINIMUM_CAPACITY sizeof_T)
           in case alloc newCapacity of
                None \<Rightarrow> Inl BadAlloc
              | Some n \<Rightarrow>
                  Inr (g\<lparr>g_data := (if g_size g \<noteq> 0 then overwrite n 0 (take (g_size g) (g_data g)) else n),
                         g_capacity := newCapacity\<rparr>)
      else Inr g)"

definition reserve :: "'a allocator \<Rightarrow> nat \<Rightarrow> nat \<Rightarrow> 'a growable \<Rightarrow> 'a growable result" where
  "reserve alloc sizeof_T newCapacity g = ensureCapacityInternal alloc sizeof_T newCapacity g"

definition ensureSize :: "'a allocator \<Rightarrow> nat \<Rightarrow> nat \<Rightarrow> 'a growable \<Rightarrow> 'a growable result" where
  "ensureSize alloc sizeof_T newSize g =
     (if newSize > g_size g
      then rbind (reserve alloc sizeof_T newSize g) (\<lambda>g. Inr (g\<lparr>g_size := newSize\<rparr>))
      else Inr g)"

definition GrowableMemory_trim :: "nat \<Rightarrow> 'a growable \<Rightarrow> 'a growable" where
  "GrowableMemory_trim len g = g\<lparr>g_size := min (g_size g) len\<rparr>"

definition resize :: "'a allocator \<Rightarrow> nat \<Rightarrow> nat \<Rightarrow> 'a growable \<Rightarrow> 'a growable result" where
  "resize alloc sizeof_T newSize g =
     (if newSize > g_size g then ensureSize alloc sizeof_T newSize g else Inr (GrowableMemory_trim newSize g))"

definition GrowableMemory_reset :: "'a growable \<Rightarrow> 'a growable" where
  "GrowableMemory_reset g = g\<lparr>g_size := 0\<rparr>"

definition GrowableMemory_removeEnd :: "nat \<Rightarrow> 'a growable \<Rightarrow> 'a growable" where
  "GrowableMemory_removeEnd n g = (if n < g_size g then g\<lparr>g_size := g_size g - n\<rparr> else g\<lparr>g_size := 0\<rparr>)"

definition append :: "'a allocator \<Rightarrow> nat \<Rightarrow> 'a list \<Rightarrow> 'a growable \<Rightarrow> 'a growable result" where
  "append alloc sizeof_T data g =
     (if data \<noteq> []
      then let newSize = size_add (g_size g) (length data)
           in if newSize < g_size g then Inl BadAlloc
              else rbind (ensureCapacityInternal alloc sizeof_T newSize g)
                     (\<lambda>g. Inr (g\<lparr>g_data := overwrite (g_data g) (g_size g) data,
                                 g_size := g_size g + length data\<rparr>))
      else Inr g)"

definition appendN :: "'a allocator \<Rightarrow> nat \<Rightarrow> 'a \<Rightarrow> nat \<Rightarrow> 'a growable \<Rightarrow> 'a growable result" where
  "appendN alloc sizeof_T what count g =
     (if count \<noteq> 0
      then if size_add (g_size g) count < g_size g then Inl BadAlloc
           else rbind (reserve alloc sizeof_T (size_add (g_size g) count) g)
                  (\<lambda>g. Inr (g\<lparr>g_data := fillLoop what (g_size g) count (g_data g),
                              g_size := g_size g + count\<rparr>))
      else Inr g)"

definition append1 :: "'a allocator \<Rightarrow> nat \<Rightarrow> 'a \<Rightarrow> 'a growable \<Rightarrow> 'a growable result" where
  "append1 alloc sizeof_T what g = appendN alloc sizeof_T what 1 g"

subsection \<open>Correctness\<close>

definition growable_ok :: "'a growable \<Rightarrow> bool" where
  "growable_ok g \<longleftrightarrow>
     g_size g \<le> g_capacity g \<and> length (g_data g) = g_capacity g \<and> g_capacity g < 2 ^ 64"

definition alloc_ok :: "'a allocator \<Rightarrow> bool" where
  "alloc_ok alloc \<longleftrightarrow> (\<forall>n xs. alloc n = Some xs \<longrightarrow> length xs = n \<and> n < 2 ^ 64)"

definition elements :: "'a growable \<Rightarrow> 'a list" where
  "elements g = take (g_size g) (g_data g)"

lemma alloc_okD: "alloc_ok alloc \<Longrightarrow> alloc n = Some xs \<Longrightarrow> length xs = n \<and> n < 2 ^ 64"
  by (simp add: alloc_ok_def)

lemma elements_content: "elements g = content (g_data g) (toMemory g)"
  by (simp add: elements_def content_def toMemory_def)

lemma length_elements: "growable_ok g \<Longrightarrow> length (elements g) = g_size g"
  by (simp add: elements_def growable_ok_def)

lemma ensureCapacityInternal_ok:
  assumes "growable_ok g" "alloc_ok alloc" "ensureCapacityInternal alloc w n g = Inr g'"
  shows "growable_ok g' \<and> elements g' = elements g \<and> g_size g' = g_size g \<and> n \<le> g_capacity g'"
proof (cases "n \<ge> g_capacity g")
  case True
  define c where "c = max (max n (g_size g * 2 mod 2 ^ 64)) (MINIMUM_CAPACITY w)"
  obtain xs where xs: "alloc c = Some xs"
      "g' = g\<lparr>g_data := (if g_size g \<noteq> 0 then overwrite xs 0 (take (g_size g) (g_data g)) else xs), g_capacity := c\<rparr>"
    using assms(3) True by (auto simp: ensureCapacityInternal_def Let_def c_def split: option.splits)
  have "g_size g \<le> c" "n \<le> c" using True assms(1) by (simp_all add: c_def growable_ok_def le_max_iff_disj)
  with xs alloc_okD [OF assms(2) xs(1)] assms(1) show ?thesis
    by (auto simp: growable_ok_def elements_def overwrite_def)
next
  case False
  then show ?thesis using assms by (auto simp: ensureCapacityInternal_def)
qed

lemma size_add_ok:
  assumes "\<not> size_add a b < a" "a < 2 ^ 64" "b < 2 ^ 64"
  shows "size_add a b = a + b"
proof (rule ccontr)
  assume "size_add a b \<noteq> a + b"
  then have "2 ^ 64 \<le> a + b" by (auto simp: size_add_def mod_less not_less [symmetric])
  then have "size_add a b = a + b - 2 ^ 64" using assms by (simp add: size_add_def le_mod_geq)
  then show False using assms \<open>2 ^ 64 \<le> a + b\<close> by simp
qed

lemma size_add_small: "a + b < 2 ^ 64 \<Longrightarrow> size_add a b = a + b"
  by (simp add: size_add_def)

lemma append_ok:
  assumes "growable_ok g" "alloc_ok alloc" "length data < 2 ^ 64" "append alloc w data g = Inr g'"
  shows "growable_ok g' \<and> elements g' = elements g @ data"
proof (cases "data = []")
  case False
  with assms(4) obtain g1 where nw: "\<not> size_add (g_size g) (length data) < g_size g"
    and g1: "ensureCapacityInternal alloc w (size_add (g_size g) (length data)) g = Inr g1"
    and g': "g' = g1\<lparr>g_data := overwrite (g_data g1) (g_size g1) data, g_size := g_size g1 + length data\<rparr>"
    by (auto simp: append_def Let_def rbind_eq_Inr split: if_splits)
  have "size_add (g_size g) (length data) = g_size g + length data"
    using assms nw by (intro size_add_ok) (auto simp: growable_ok_def)
  with ensureCapacityInternal_ok [OF assms(1,2) g1] have
    "growable_ok g1" "elements g1 = elements g" "g_size g1 = g_size g" "g_size g + length data \<le> g_capacity g1" by auto
  then show ?thesis using g' assms(1) by (auto simp: growable_ok_def elements_def overwrite_def)
qed (use assms in \<open>simp add: append_def\<close>)

lemma appendN_ok:
  assumes "growable_ok g" "alloc_ok alloc" "n < 2 ^ 64" "appendN alloc w x n g = Inr g'"
  shows "growable_ok g' \<and> elements g' = elements g @ replicate n x"
proof (cases "n = 0")
  case False
  with assms(4) obtain g1 where nw: "\<not> size_add (g_size g) n < g_size g"
    and g1: "ensureCapacityInternal alloc w (size_add (g_size g) n) g = Inr g1"
    and g': "g' = g1\<lparr>g_data := fillLoop x (g_size g1) n (g_data g1), g_size := g_size g1 + n\<rparr>"
    by (auto simp: appendN_def reserve_def rbind_eq_Inr split: if_splits)
  have "size_add (g_size g) n = g_size g + n"
    using assms nw by (intro size_add_ok) (auto simp: growable_ok_def)
  with ensureCapacityInternal_ok [OF assms(1,2) g1] have
    "growable_ok g1" "elements g1 = elements g" "g_size g1 = g_size g" "g_size g + n \<le> g_capacity g1" by auto
  then show ?thesis using g' assms(1) by (auto simp: growable_ok_def elements_def fillLoop_spec)
qed (use assms in \<open>simp add: appendN_def\<close>)

lemma ensureSize_ok:
  assumes "growable_ok g" "alloc_ok alloc" "ensureSize alloc w n g = Inr g'"
  shows "growable_ok g' \<and> g_size g' = max n (g_size g) \<and> take (g_size g) (elements g') = elements g"
proof (cases "n > g_size g")
  case True
  with assms(3) obtain g1 where g1: "ensureCapacityInternal alloc w n g = Inr g1" and g': "g' = g1\<lparr>g_size := n\<rparr>"
    by (auto simp: ensureSize_def reserve_def rbind_eq_Inr)
  from ensureCapacityInternal_ok [OF assms(1,2) g1] True g' show ?thesis
    by (auto simp: growable_ok_def elements_def)
qed (use assms in \<open>auto simp: ensureSize_def elements_def growable_ok_def\<close>)

lemma append_succeeds:
  assumes "growable_ok g" "g_size g + length data < 2 ^ 64" "\<forall>n < 2 ^ 64. alloc n \<noteq> None"
  shows "\<exists>g'. append alloc w data g = Inr g'"
proof -
  let ?c = "max (max (g_size g + length data) (g_size g * 2 mod 2 ^ 64)) (MINIMUM_CAPACITY w)"
  have "MINIMUM_CAPACITY w \<le> 256" by (simp add: MINIMUM_CAPACITY_def)
  then have "?c < 2 ^ 64" using assms(2) by simp
  then obtain xs where "alloc ?c = Some xs" using assms(3) by blast
  with assms(2) show ?thesis
    by (auto simp: append_def size_add_small ensureCapacityInternal_def Let_def split: option.splits)
qed

lemma size_add_big: "a < 2 ^ 64 \<Longrightarrow> b < 2 ^ 64 \<Longrightarrow> a + b \<ge> 2 ^ 64 \<Longrightarrow> size_add a b < a"
  by (simp add: size_add_def le_mod_geq)

section \<open>Properties\<close>

text \<open> Memory descriptors never leave the memory they describe: every descriptor made from another one
  (a part, the two parts of a split, what is left after elements were taken from the front or the
  back) covers only elements of it, and every pointer that is handed out points to one of them.
\<close>

theorem memory_stays_inside:
  "covers m (Memory_subrange p n m) \<and>
   covers m (fst (Memory_split n m)) \<and> covers m (snd (Memory_split n m)) \<and>
   covers m (fst (Memory_splitUpdate a m)) \<and> covers m (snd (snd (Memory_splitUpdate a m))) \<and>
   covers m (Memory_trim n m) \<and> covers m (Memory_removeEnd n m) \<and> covers m (Memory_reset m) \<and>
   covers m (snd (Memory_eat m)) \<and> covers m (snd (Memory_eatN n m)) \<and>
   set_option (Memory_at n m) \<union> set_option (Memory_atEnd n m) \<union> set_option (fst (Memory_eat m))
     \<subseteq> {m_ptr m ..< m_ptr m + m_size m}"
proof (intro conjI)
  show "covers m (Memory_subrange p n m)"
    by (auto simp: covers_def Memory_subrange_def Memory_init_def Let_def min_def)
  show "covers m (fst (Memory_split n m))" "covers m (snd (Memory_split n m))"
    by (auto simp: covers_def Memory_split_def Let_def min_def)
  show "covers m (fst (Memory_splitUpdate a m))" "covers m (snd (snd (Memory_splitUpdate a m)))"
    by (auto simp: covers_def Memory_splitUpdate_def Let_def min_def)
  show "covers m (Memory_trim n m)" "covers m (Memory_removeEnd n m)" "covers m (Memory_reset m)"
    by (auto simp: covers_def Memory_trim_def Memory_removeEnd_def Memory_reset_def)
  show "covers m (snd (Memory_eat m))" "covers m (snd (Memory_eatN n m))"
    by (auto simp: covers_def Memory_eat_def Memory_eatN_def)
  show "set_option (Memory_at n m) \<union> set_option (Memory_atEnd n m) \<union> set_option (fst (Memory_eat m))
     \<subseteq> {m_ptr m ..< m_ptr m + m_size m}"
    by (auto simp: Memory_at_def Memory_atEnd_def Memory_eat_def split: if_splits)
qed

text \<open> Copying between descriptors of the same memory is right even where they overlap: afterwards the
  destination holds what the source held before (as much of it as fits), and nothing else has changed.
\<close>

theorem copyFrom_moves:
  assumes "inside store m" "inside store other" "Memory_copyFrom other m store = (copied, store')"
  shows "content store' copied = take (m_size m) (content store other) \<and> length store' = length store \<and>
    (\<forall>i < length store. i \<notin> {m_ptr m ..< m_ptr m + m_size copied} \<longrightarrow> store' ! i = store ! i)"
proof (intro conjI)
  define d where "d = take (m_size m) (content store other)"
  have s: "store' = overwrite store (m_ptr m) d" using copyFrom_spec [OF assms(1,2)] assms(3) by (simp add: d_def)
  have c: "copied = \<lparr>m_ptr = m_ptr m, m_size = length d\<rparr>"
    using assms by (auto simp: Memory_copyFrom_def Let_def min.commute d_def)
  have fits: "m_ptr m + length d \<le> length store" using assms(1) by (simp add: inside_def d_def)
  have "content store' copied = d" using s c fits by (simp add: content_def overwrite_def)
  then show "content store' copied = take (m_size m) (content store other)" by (simp add: d_def)
  show "length store' = length store" using s fits by simp
  show "\<forall>i < length store. i \<notin> {m_ptr m ..< m_ptr m + m_size copied} \<longrightarrow> store' ! i = store ! i"
    using s c fits by (auto simp: overwrite_nth)
qed

theorem copyFrom_moves_witness:
  "content [1, 1, 2, 3, (5::nat)] \<lparr>m_ptr = 1, m_size = 3\<rparr> = [1, 2, 3]"
  using copyFrom_moves [of "[1, 2, 3, 4, 5::nat]" "\<lparr>m_ptr = 1, m_size = 3\<rparr>" "\<lparr>m_ptr = 0, m_size = 3\<rparr>"
      "\<lparr>m_ptr = 1, m_size = 3\<rparr>" "[1, 1, 2, 3, 5]"]
  by (simp add: inside_def Memory_copyFrom_def Traits_copy_def content_def eval_nat_numeral)

lemma compareContent_order:
  fixes store :: "'a::linorder list"
  assumes "inside store m" "inside store other"
  shows "Memory_compareContent store other m = order3 (content store m) (content store other)"
proof -
  let ?n = "min (m_size m) (m_size other)"
  let ?a = "range_of store (m_ptr m) ?n" and ?b = "range_of store (m_ptr other) ?n"
  have split: "content store d = range_of store (m_ptr d) ?n @ drop ?n (content store d)" if "d = m \<or> d = other" for d
    using append_take_drop_id [of ?n "content store d"] that by (auto simp: content_def range_of_def min_def)
  have len: "length ?a = length ?b" using assms by (simp add: inside_def)
  have "compareLoop store (m_ptr m) (m_ptr other) ?n = order3 ?a ?b"
    using assms by (intro compareLoop_spec) (auto simp: inside_def)
  moreover have "order3 (content store m) (content store other) =
      (if ?a = ?b then order3 (drop ?n (content store m)) (drop ?n (content store other)) else order3 ?a ?b)"
    using order3_append [OF len] split [of m] split [of other] by metis
  moreover have "order3 (drop ?n (content store m)) (drop ?n (content store other)) =
      (if m_size m = m_size other then 0 else if m_size m < m_size other then -1 else 1)"
    using assms by (auto simp: order3_def min_def not_less Nil_less_Cons neq_Nil_conv)
  ultimately show ?thesis
    by (cases "?n = 0") (auto simp: Memory_compareContent_def Let_def order3_def)
qed

text \<open>
  C37: Growable memory behaves as a sequence: whatever the allocator puts into fresh memory and however
  often the array has to be moved, appending a block or repeated elements leaves exactly the old
  elements followed by the new ones, with the size inside the allocated capacity; a size that does
  not fit into 64 bits is refused.
\<close>

theorem growable_sequence:
  assumes "growable_ok g" "alloc_ok alloc" "length data < 2 ^ 64" "n < 2 ^ 64"
  shows "(\<forall>g'. append alloc w data g = Inr g' \<longrightarrow> growable_ok g' \<and> elements g' = elements g @ data) \<and>
    (\<forall>g'. appendN alloc w x n g = Inr g' \<longrightarrow> growable_ok g' \<and> elements g' = elements g @ replicate n x) \<and>
    (\<forall>g'. ensureSize alloc w n g = Inr g' \<longrightarrow>
       growable_ok g' \<and> g_size g' = max n (g_size g) \<and> take (g_size g) (elements g') = elements g) \<and>
    (if g_size g + length data < 2 ^ 64
     then (\<forall>m < 2 ^ 64. alloc m \<noteq> None) \<longrightarrow> (\<exists>g'. append alloc w data g = Inr g')
     else append alloc w data g = Inl BadAlloc)"
proof (intro conjI)
  show "\<forall>g'. append alloc w data g = Inr g' \<longrightarrow> growable_ok g' \<and> elements g' = elements g @ data"
    using append_ok [OF assms(1-3)] by blast
  show "\<forall>g'. appendN alloc w x n g = Inr g' \<longrightarrow> growable_ok g' \<and> elements g' = elements g @ replicate n x"
    using appendN_ok [OF assms(1,2,4)] by blast
  show "\<forall>g'. ensureSize alloc w n g = Inr g' \<longrightarrow>
      growable_ok g' \<and> g_size g' = max n (g_size g) \<and> take (g_size g) (elements g') = elements g"
    using ensureSize_ok [OF assms(1,2)] by blast
  have "append alloc w data g = Inl BadAlloc" if big: "g_size g + length data \<ge> 2 ^ 64"
  proof -
    have "data \<noteq> []" using assms(1) big by (auto simp: growable_ok_def)
    moreover have "size_add (g_size g) (length data) < g_size g"
      using assms(1,3) big by (intro size_add_big) (auto simp: growable_ok_def)
    ultimately show ?thesis by (simp add: append_def)
  qed
  then show "if g_size g + length data < 2 ^ 64
     then (\<forall>m < 2 ^ 64. alloc m \<noteq> None) \<longrightarrow> (\<exists>g'. append alloc w data g = Inr g')
     else append alloc w data g = Inl BadAlloc"
    using append_succeeds [OF assms(1)] by auto
qed

theorem growable_sequence_witness:
  "\<exists>g1. append (\<lambda>n. if n < 2 ^ 64 then Some (replicate n (0::nat)) else None) 1 [7, 8] GrowableMemory_init = Inr g1 \<and>
     elements g1 = [7, 8]"
proof -
  let ?alloc = "\<lambda>n. if n < 2 ^ 64 then Some (replicate n (0::nat)) else None"
  obtain g1 where g1: "append ?alloc 1 [7, 8] GrowableMemory_init = Inr g1"
    by (auto simp: append_def GrowableMemory_init_def ensureCapacityInternal_def size_add_def MINIMUM_CAPACITY_def)
  have "growable_ok g1 \<and> elements g1 = elements GrowableMemory_init @ [7, 8]"
    using growable_sequence [of GrowableMemory_init ?alloc "[7, 8]" 0 1 0] g1
    by (auto simp: growable_ok_def GrowableMemory_init_def alloc_ok_def split: if_splits)
  then show ?thesis using g1 by (simp add: elements_def GrowableMemory_init_def)
qed

end
