(* ===== verification/Afl_Stream.thy ===== *)
theory Afl_Stream
  imports Afl_Memory
begin

text \<open>
  Byte streams (\<open>afl/io\<close>): the interface \<open>Stream\<close> with the operations it adds to the virtual
  methods, the streams in memory, and two streams that work on another stream: \<open>LimitedStream\<close>, a
  window, and \<open>BufferedStream\<close>.

  A stream is a record of functions, its virtual methods, over a state. \<open>read n\<close> stands for a read
  into a buffer of \<open>n\<close> octets and gives the octets it put there. Sizes and positions are 64-bit
  numbers. What the library relies on is stated as the locales \<open>readable_stream\<close> and
  \<open>writable_stream\<close>: reads and writes can be partial, but make progress.
\<close>

section \<open>The interface\<close>

datatype capability = CanRead | CanWrite | CanSeek

record 's stream_ops =
  s_read :: "nat \<Rightarrow> ('s, octet list) action"
  s_write :: "octet list \<Rightarrow> ('s, nat) action"
  s_flush :: "('s, unit) action"
  s_setPos :: "nat \<Rightarrow> ('s, unit) action"
  s_getPos :: "('s, nat) action"
  s_getSize :: "('s, nat) action"
  s_getCapabilities :: "('s, capability set) action"

abbreviation cannotWrite :: exn where "cannotWrite \<equiv> FileProblemException [] ''Cannot write''"
abbreviation rangeError :: exn where "rangeError \<equiv> FileProblemException [] ''Range error''"
abbreviation invalidOperation :: exn where "invalidOperation \<equiv> FileProblemException [] ''Invalid operation''"

function fullRead :: "'s stream_ops \<Rightarrow> nat \<Rightarrow> ('s, octet list) action" where
  "fullRead ops m s =
     (if m = 0 then (Inr [], s)
      else case s_read ops m s of
             (Inl e, s) \<Rightarrow> (Inl e, s)
           | (Inr d, s) \<Rightarrow>
               if d = [] then (Inl FileTooShortException, s)
               else case fullRead ops (m - length d) s of
                      (Inl e, s) \<Rightarrow> (Inl e, s)
                    | (Inr d', s) \<Rightarrow> (Inr (d @ d'), s))"
  by pat_completeness auto

termination by (relation "measure (\<lambda>(ops, m, s). m)") auto

function fullWrite :: "'s stream_ops \<Rightarrow> octet list \<Rightarrow> ('s, unit) action" where
  "fullWrite ops m s =
     (if m = [] then (Inr (), s)
      else case s_write ops m s of
             (Inl e, s) \<Rightarrow> (Inl e, s)
           | (Inr n, s) \<Rightarrow> if n = 0 then (Inl cannotWrite, s) else fullWrite ops (drop n m) s)"
  by pat_completeness auto

termination by (relation "measure (\<lambda>(ops, m, s). length m)") auto

declare fullRead.simps [simp del] fullWrite.simps [simp del]

definition hasCapabilities :: "'s stream_ops \<Rightarrow> capability set \<Rightarrow> ('s, bool) action" where
  "hasCapabilities ops which = bind (s_getCapabilities ops) (\<lambda>c. ret (c \<inter> which = which))"

text \<open>
  Copying works on the states of both streams. Without a size, the loop ends when the source gives no
  more data; a source that never ends makes it run for ever, which is the value \<open>None\<close>.
\<close>

partial_function (option) copyAll ::
  "'s stream_ops \<Rightarrow> 't stream_ops \<Rightarrow> 's \<times> 't \<Rightarrow> (unit result \<times> 's \<times> 't) option" where
  "copyAll ops other st =
     (case st of (s, t) \<Rightarrow>
        case s_read other 4096 t of
          (Inl e, t) \<Rightarrow> Some (Inl e, s, t)
        | (Inr m, t) \<Rightarrow>
            if m = [] then Some (Inr (), s, t)
            else case fullWrite ops m s of
                   (Inl e, s) \<Rightarrow> Some (Inl e, s, t)
                 | (Inr _, s) \<Rightarrow> copyAll ops other (s, t))"

function copySize :: "'s stream_ops \<Rightarrow> 't stream_ops \<Rightarrow> nat \<Rightarrow> 's \<times> 't \<Rightarrow> unit result \<times> 's \<times> 't" where
  "copySize ops other n st =
     (if n > 0
      then case st of (s, t) \<Rightarrow>
             case fullRead other (min n 4096) t of
               (Inl e, t) \<Rightarrow> (Inl e, s, t)
             | (Inr m, t) \<Rightarrow>
                 (case fullWrite ops m s of
                    (Inl e, s) \<Rightarrow> (Inl e, s, t)
                  | (Inr _, s) \<Rightarrow> copySize ops other (n - min n 4096) (s, t))
      else (Inr (), st))"
  by pat_completeness auto

termination by (relation "measure (\<lambda>(ops, other, n, st). n)") auto

declare copySize.simps [simp del]

text \<open>The octets of a mapping made by reading (\<open>InternalFileMapping\<close>).\<close>

function mappingInit :: "'s stream_ops \<Rightarrow> nat \<Rightarrow> ('s, octet list) action" where
  "mappingInit ops limit s =
     (if limit > 0
      then case s_read ops (min limit 4096) s of
             (Inl e, s) \<Rightarrow> (Inl e, s)
           | (Inr got, s) \<Rightarrow>
               if got = [] then (Inr [], s)
               else case mappingInit ops (limit - length got) s of
                      (Inl e, s) \<Rightarrow> (Inl e, s)
                    | (Inr rest, s) \<Rightarrow> (Inr (got @ rest), s)
      else (Inr [], s))"
  by pat_completeness auto

termination by (relation "measure (\<lambda>(ops, limit, s). limit)") auto

declare mappingInit.simps [simp del]

text \<open>A stream as a data sink: what is left of the data, and whether there is any.\<close>

definition Stream_handleData :: "'s stream_ops \<Rightarrow> octet list \<Rightarrow> ('s, bool \<times> octet list) action" where
  "Stream_handleData ops data =
     bind (s_write ops data) (\<lambda>n. ret (drop n data \<noteq> [], drop n data))"

section \<open>Streams in memory\<close>

abbreviation NUL :: octet where "NUL \<equiv> CHR 0x00"

record internal_stream =
  is_name :: string
  is_data :: "octet list"
  is_pos :: nat
  is_allowWrite :: bool

definition InternalStream_init :: internal_stream where
  "InternalStream_init = \<lparr>is_name = ''<internal>'', is_data = [], is_pos = 0, is_allowWrite = True\<rparr>"

definition InternalStream_read :: "nat \<Rightarrow> (internal_stream, octet list) action" where
  "InternalStream_read n = (\<lambda>s. let d = take n (drop (is_pos s) (is_data s)) in (Inr d, s\<lparr>is_pos := is_pos s + length d\<rparr>))"

definition InternalStream_write :: "octet list \<Rightarrow> (internal_stream, nat) action" where
  "InternalStream_write m = (\<lambda>s.
     if \<not> is_allowWrite s then (Inl cannotWrite, s)
     else let end = size_add (is_pos s) (length m)
          in if end < is_pos s then (Inl rangeError, s)
             else let data = (if is_pos s > length (is_data s)
                              then is_data s @ replicate (is_pos s - length (is_data s)) NUL else is_data s)
                  in (Inr (length m), s\<lparr>is_data := overwrite data (is_pos s) m, is_pos := is_pos s + length m\<rparr>))"

definition InternalStream_setPos :: "nat \<Rightarrow> (internal_stream, unit) action" where
  "InternalStream_setPos p = modify (\<lambda>s. s\<lparr>is_pos := p\<rparr>)"

definition InternalStream_getCapabilities :: "(internal_stream, capability set) action" where
  "InternalStream_getCapabilities = gets (\<lambda>s. {CanRead, CanSeek} \<union> (if is_allowWrite s then {CanWrite} else {}))"

definition InternalStream_ops :: "internal_stream stream_ops" where
  "InternalStream_ops =
     \<lparr>s_read = InternalStream_read, s_write = InternalStream_write, s_flush = ret (),
      s_setPos = InternalStream_setPos, s_getPos = gets is_pos, s_getSize = gets (\<lambda>s. length (is_data s)),
      s_getCapabilities = InternalStream_getCapabilities\<rparr>"

definition InternalStream_setName :: "string \<Rightarrow> internal_stream \<Rightarrow> internal_stream" where
  "InternalStream_setName name s = s\<lparr>is_name := name\<rparr>"

definition setWritePermission :: "bool \<Rightarrow> internal_stream \<Rightarrow> internal_stream" where
  "setWritePermission allowWrite s = s\<lparr>is_allowWrite := allowWrite\<rparr>"

definition getContent :: "internal_stream \<Rightarrow> octet list" where
  "getContent s = is_data s"

text \<open>\<open>MemoryStream\<close> and \<open>ConstMemoryStream\<close> have a fixed piece of memory.\<close>

record memory_stream =
  ms_mem :: "octet list"
  ms_pos :: nat

definition MemoryStream_init :: "octet list \<Rightarrow> memory_stream" where
  "MemoryStream_init mem = \<lparr>ms_mem = mem, ms_pos = 0\<rparr>"

definition MemoryStream_read :: "nat \<Rightarrow> (memory_stream, octet list) action" where
  "MemoryStream_read n = (\<lambda>s. let d = take n (drop (ms_pos s) (ms_mem s)) in (Inr d, s\<lparr>ms_pos := ms_pos s + length d\<rparr>))"

definition MemoryStream_write :: "octet list \<Rightarrow> (memory_stream, nat) action" where
  "MemoryStream_write m = (\<lambda>s.
     let amount = min (length m) (length (ms_mem s) - min (ms_pos s) (length (ms_mem s)))
     in (Inr amount, s\<lparr>ms_mem := (if amount \<noteq> 0 then overwrite (ms_mem s) (ms_pos s) (take amount m) else ms_mem s),
                       ms_pos := ms_pos s + amount\<rparr>))"

definition MemoryStream_setPos :: "nat \<Rightarrow> (memory_stream, unit) action" where
  "MemoryStream_setPos p = modify (\<lambda>s. s\<lparr>ms_pos := p\<rparr>)"

definition MemoryStream_ops :: "memory_stream stream_ops" where
  "MemoryStream_ops =
     \<lparr>s_read = MemoryStream_read, s_write = MemoryStream_write, s_flush = ret (), s_setPos = MemoryStream_setPos,
      s_getPos = gets ms_pos, s_getSize = gets (\<lambda>s. length (ms_mem s)),
      s_getCapabilities = ret {CanRead, CanWrite, CanSeek}\<rparr>"

definition ConstMemoryStream_ops :: "memory_stream stream_ops" where
  "ConstMemoryStream_ops =
     \<lparr>s_read = MemoryStream_read, s_write = (\<lambda>m. throw cannotWrite), s_flush = ret (), s_setPos = MemoryStream_setPos,
      s_getPos = gets ms_pos, s_getSize = gets (\<lambda>s. length (ms_mem s)), s_getCapabilities = ret {CanRead, CanSeek}\<rparr>"

record null_stream =
  ns_pos :: nat
  ns_size :: nat

definition NullStream_write :: "octet list \<Rightarrow> (null_stream, nat) action" where
  "NullStream_write m = (\<lambda>s.
     let s = s\<lparr>ns_pos := size_add (ns_pos s) (length m)\<rparr>
     in (Inr (length m), if ns_pos s > ns_size s then s\<lparr>ns_size := ns_pos s\<rparr> else s))"

definition NullStream_ops :: "null_stream stream_ops" where
  "NullStream_ops =
     \<lparr>s_read = (\<lambda>n. ret []), s_write = NullStream_write, s_flush = ret (),
      s_setPos = (\<lambda>p. modify (\<lambda>s. s\<lparr>ns_pos := p\<rparr>)), s_getPos = gets ns_pos, s_getSize = gets ns_size,
      s_getCapabilities = ret {CanWrite, CanSeek}\<rparr>"

section \<open>A window on another stream\<close>

definition nil :: nat where "nil = 2 ^ 64 - 1"

definition size_sub :: "nat \<Rightarrow> nat \<Rightarrow> nat" where
  "size_sub a b = (2 ^ 64 + a - b) mod 2 ^ 64"

record 's limited_stream =
  ls_parent :: 's
  ls_origin :: nat
  ls_length :: nat
  ls_position :: nat

definition hasPosition :: "'s limited_stream \<Rightarrow> bool" where
  "hasPosition s \<longleftrightarrow> ls_origin s \<noteq> nil"

definition hasLength :: "'s limited_stream \<Rightarrow> bool" where
  "hasLength s \<longleftrightarrow> ls_length s \<noteq> nil"

abbreviation parent :: "('s, 'a) action \<Rightarrow> ('s limited_stream, 'a) action" where
  "parent \<equiv> zoom ls_parent (\<lambda>p. ls_parent_update (\<lambda>_. p))"

definition LimitedStream_setPos :: "'s stream_ops \<Rightarrow> nat \<Rightarrow> ('s limited_stream, unit) action" where
  "LimitedStream_setPos ops p = (\<lambda>s.
     if \<not> hasPosition s then (Inl invalidOperation, s)
     else if hasLength s \<and> p > ls_length s then (Inl invalidOperation, s)
     else bind (parent (s_setPos ops (size_add (ls_origin s) p))) (\<lambda>_. modify (\<lambda>s. s\<lparr>ls_position := p\<rparr>)) s)"

definition LimitedStream_init :: "'s stream_ops \<Rightarrow> 's \<Rightarrow> nat \<Rightarrow> nat \<Rightarrow> unit result \<times> 's limited_stream" where
  "LimitedStream_init ops p origin len =
     (let s = \<lparr>ls_parent = p, ls_origin = origin, ls_length = len, ls_position = 0\<rparr>
      in if hasPosition s then LimitedStream_setPos ops 0 s else (Inr (), s))"

definition fixupPosition :: "'s stream_ops \<Rightarrow> nat \<Rightarrow> ('s limited_stream, unit) action" where
  "fixupPosition ops n = (\<lambda>s.
     if hasLength s
     then if hasPosition s
          then bind (parent (s_getPos ops))
                 (\<lambda>p. if p < ls_origin s then LimitedStream_setPos ops 0
                      else if p - ls_origin s > ls_length s then LimitedStream_setPos ops (ls_length s)
                      else modify (\<lambda>s. s\<lparr>ls_position := p - ls_origin s\<rparr>)) s
          else (Inr (), s\<lparr>ls_position := size_add (ls_position s) n\<rparr>)
     else (Inr (), s))"

text \<open>The number of octets a request is trimmed to.\<close>

definition limitTo :: "nat \<Rightarrow> 's limited_stream \<Rightarrow> nat" where
  "limitTo n s =
     (if hasLength s \<and> n > size_sub (ls_length s) (ls_position s) then size_sub (ls_length s) (ls_position s) else n)"

definition LimitedStream_read :: "'s stream_ops \<Rightarrow> nat \<Rightarrow> ('s limited_stream, octet list) action" where
  "LimitedStream_read ops n = (\<lambda>s.
     let n = limitTo n s
     in case parent (s_read ops n) s of
          (Inr result, s) \<Rightarrow> (Inr result, s\<lparr>ls_position := size_add (ls_position s) (length result)\<rparr>)
        | (Inl e, s) \<Rightarrow> bind (fixupPosition ops n) (\<lambda>_. throw e) s)"

definition LimitedStream_write :: "'s stream_ops \<Rightarrow> octet list \<Rightarrow> ('s limited_stream, nat) action" where
  "LimitedStream_write ops m = (\<lambda>s.
     let m = take (limitTo (length m) s) m
     in case parent (s_write ops m) s of
          (Inr result, s) \<Rightarrow> (Inr result, s\<lparr>ls_position := size_add (ls_position s) result\<rparr>)
        | (Inl e, s) \<Rightarrow> bind (fixupPosition ops (length m)) (\<lambda>_. throw e) s)"

definition LimitedStream_getCapabilities :: "'s stream_ops \<Rightarrow> ('s limited_stream, capability set) action" where
  "LimitedStream_getCapabilities ops = (\<lambda>s.
     bind (parent (s_getCapabilities ops)) (\<lambda>c. ret (if hasPosition s then c else c - {CanSeek})) s)"

definition LimitedStream_ops :: "'s stream_ops \<Rightarrow> 's limited_stream stream_ops" where
  "LimitedStream_ops ops =
     \<lparr>s_read = LimitedStream_read ops, s_write = LimitedStream_write ops, s_flush = parent (s_flush ops),
      s_setPos = LimitedStream_setPos ops, s_getPos = gets ls_position, s_getSize = gets ls_length,
      s_getCapabilities = LimitedStream_getCapabilities ops\<rparr>"

section \<open>A buffer for another stream\<close>

datatype buffer_mode = Neutral | Reading | Writing

definition BUFFER_SIZE :: nat where "BUFFER_SIZE = 1024"

record 's buffered_stream =
  bs_mode :: buffer_mode
  bs_stream :: 's
  bs_buffer :: memory
  bs_bufferFill :: nat
  bs_rawBuffer :: "octet list"

abbreviation inner :: "('s, 'a) action \<Rightarrow> ('s buffered_stream, 'a) action" where
  "inner \<equiv> zoom bs_stream (\<lambda>p. bs_stream_update (\<lambda>_. p))"

definition wholeBuffer :: memory where
  "wholeBuffer = \<lparr>m_ptr = 0, m_size = BUFFER_SIZE\<rparr>"

definition BufferedStream_init :: "octet list \<Rightarrow> 's \<Rightarrow> 's buffered_stream" where
  "BufferedStream_init raw s =
     \<lparr>bs_mode = Neutral, bs_stream = s, bs_buffer = Memory_init, bs_bufferFill = 0, bs_rawBuffer = raw\<rparr>"

definition flushBuffer :: "'s stream_ops \<Rightarrow> ('s buffered_stream, unit) action" where
  "flushBuffer ops =
     bind (\<lambda>s. if bs_bufferFill s \<noteq> 0
               then let s = s\<lparr>bs_buffer := Memory_trim (bs_bufferFill s) (bs_buffer s)\<rparr>
                    in inner (fullWrite ops (content (bs_rawBuffer s) (bs_buffer s))) s
               else (Inr (), s))
       (\<lambda>_. modify (\<lambda>s. s\<lparr>bs_buffer := wholeBuffer, bs_bufferFill := 0\<rparr>))"

definition refillBuffer :: "'s stream_ops \<Rightarrow> ('s buffered_stream, unit) action" where
  "refillBuffer ops =
     bind (modify (\<lambda>s. s\<lparr>bs_buffer := wholeBuffer\<rparr>))
       (\<lambda>_. bind (inner (s_read ops (m_size wholeBuffer)))
          (\<lambda>d. modify (\<lambda>s. s\<lparr>bs_rawBuffer := overwrite (bs_rawBuffer s) 0 d,
                             bs_buffer := Memory_trim (length d) (bs_buffer s)\<rparr>)))"

definition leaveMode :: "'s stream_ops \<Rightarrow> ('s buffered_stream, unit) action" where
  "leaveMode ops = (\<lambda>s.
     case bs_mode s of
       Reading \<Rightarrow>
         if \<not> Memory_empty (bs_buffer s)
         then bind (inner (s_getPos ops)) (\<lambda>p. inner (s_setPos ops (size_sub p (m_size (bs_buffer s))))) s
         else (Inr (), s)
     | Writing \<Rightarrow> flushBuffer ops s
     | Neutral \<Rightarrow> (Inr (), s))"

definition enterMode :: "'s stream_ops \<Rightarrow> buffer_mode \<Rightarrow> ('s buffered_stream, unit) action" where
  "enterMode ops m =
     (case m of
        Writing \<Rightarrow>
          bind (inner (hasCapabilities ops {CanWrite}))
            (\<lambda>can. if \<not> can then bind (modify (\<lambda>s. s\<lparr>bs_mode := Neutral\<rparr>)) (\<lambda>_. throw cannotWrite)
                   else modify (\<lambda>s. s\<lparr>bs_buffer := wholeBuffer, bs_bufferFill := 0\<rparr>))
      | Reading \<Rightarrow> modify (\<lambda>s. s\<lparr>bs_buffer := Memory_reset (bs_buffer s)\<rparr>)
      | Neutral \<Rightarrow> ret ())"

definition setMode :: "'s stream_ops \<Rightarrow> buffer_mode \<Rightarrow> ('s buffered_stream, unit) action" where
  "setMode ops m = (\<lambda>s.
     if m \<noteq> bs_mode s
     then bind (leaveMode ops) (\<lambda>_. bind (enterMode ops m) (\<lambda>_. modify (\<lambda>s. s\<lparr>bs_mode := m\<rparr>))) s
     else (Inr (), s))"

text \<open>The octet a pointer into the buffer points to.\<close>

definition eatBuffer :: "('s buffered_stream, octet option) action" where
  "eatBuffer = (\<lambda>s. case Memory_eat (bs_buffer s) of
     (p, m) \<Rightarrow> (Inr (map_option (\<lambda>i. bs_rawBuffer s ! i) p), s\<lparr>bs_buffer := m\<rparr>))"

definition readByte :: "'s stream_ops \<Rightarrow> ('s buffered_stream, octet option) action" where
  "readByte ops =
     bind (setMode ops Reading)
       (\<lambda>_. bind eatBuffer
          (\<lambda>result. if result = None then bind (refillBuffer ops) (\<lambda>_. eatBuffer) else ret result))"

definition peekBuffer :: "'s buffered_stream \<Rightarrow> octet option" where
  "peekBuffer s = map_option (\<lambda>i. bs_rawBuffer s ! i) (Memory_at 0 (bs_buffer s))"

definition peekByte :: "'s stream_ops \<Rightarrow> ('s buffered_stream, octet option) action" where
  "peekByte ops =
     bind (setMode ops Reading)
       (\<lambda>_. bind (gets peekBuffer)
          (\<lambda>result. if result = None then bind (refillBuffer ops) (\<lambda>_. gets peekBuffer) else ret result))"

fun BufferedStream_read :: "'s stream_ops \<Rightarrow> nat \<Rightarrow> ('s buffered_stream, octet list) action" where
  "BufferedStream_read ops 0 s = (Inr [], s)"
| "BufferedStream_read ops (Suc n) s =
     bind (readByte ops)
       (\<lambda>c. case c of None \<Rightarrow> ret [] | Some c \<Rightarrow> bind (BufferedStream_read ops n) (\<lambda>cs. ret (c # cs))) s"

text \<open>One round of the loop of \<open>write\<close>: the number of octets taken.\<close>

definition writeRound :: "'s stream_ops \<Rightarrow> octet list \<Rightarrow> ('s buffered_stream, nat) action" where
  "writeRound ops m = (\<lambda>s.
     if bs_bufferFill s = 0 \<and> length m \<ge> m_size (bs_buffer s)
     then bind (inner (s_write ops m)) (\<lambda>now. if now = 0 then throw cannotWrite else ret now) s
     else let room = Memory_subrange (bs_bufferFill s) nil (bs_buffer s);
              copied = min (m_size room) (length m)
          in if copied = 0 then (Inl AssertionFailed, s)
             else bind (modify (\<lambda>s. s\<lparr>bs_rawBuffer := overwrite (bs_rawBuffer s) (m_ptr room) (take copied m),
                                     bs_bufferFill := bs_bufferFill s + copied\<rparr>))
                    (\<lambda>_. bind (\<lambda>s. if bs_bufferFill s \<ge> m_size (bs_buffer s) then flushBuffer ops s else (Inr (), s))
                       (\<lambda>_. ret copied)) s)"

lemma writeRound_positive: "writeRound ops m s = (Inr k, s') \<Longrightarrow> 0 < k"
  by (auto simp: writeRound_def bind_def Let_def split: if_splits prod.splits sum.splits)

function writeLoop :: "'s stream_ops \<Rightarrow> nat \<Rightarrow> octet list \<Rightarrow> ('s buffered_stream, nat) action" where
  "writeLoop ops did m s =
     (if m = [] then (Inr did, s)
      else case writeRound ops m s of
             (Inl e, s) \<Rightarrow> (Inl e, s)
           | (Inr k, s) \<Rightarrow> writeLoop ops (did + k) (drop k m) s)"
  by pat_completeness auto

termination by (relation "measure (\<lambda>(ops, did, m, s). length m)") (auto dest: writeRound_positive [OF sym])

declare writeLoop.simps [simp del]

definition BufferedStream_write :: "'s stream_ops \<Rightarrow> octet list \<Rightarrow> ('s buffered_stream, nat) action" where
  "BufferedStream_write ops m = bind (setMode ops Writing) (\<lambda>_. writeLoop ops 0 m)"

definition BufferedStream_setPos :: "'s stream_ops \<Rightarrow> nat \<Rightarrow> ('s buffered_stream, unit) action" where
  "BufferedStream_setPos ops p = bind (setMode ops Neutral) (\<lambda>_. inner (s_setPos ops p))"

definition BufferedStream_getPos :: "'s stream_ops \<Rightarrow> ('s buffered_stream, nat) action" where
  "BufferedStream_getPos ops =
     bind (inner (s_getPos ops))
       (\<lambda>p. gets (\<lambda>s. case bs_mode s of
          Reading \<Rightarrow> size_sub p (m_size (bs_buffer s))
        | Writing \<Rightarrow> size_add p (bs_bufferFill s)
        | Neutral \<Rightarrow> p))"

definition BufferedStream_getSize :: "'s stream_ops \<Rightarrow> ('s buffered_stream, nat) action" where
  "BufferedStream_getSize ops =
     bind (inner (s_getSize ops))
       (\<lambda>p s. if bs_mode s = Writing
              then bind (inner (s_getPos ops)) (\<lambda>q. gets (\<lambda>s. max p (size_add q (bs_bufferFill s)))) s
              else (Inr p, s))"

definition BufferedStream_flush :: "'s stream_ops \<Rightarrow> ('s buffered_stream, unit) action" where
  "BufferedStream_flush ops = bind (setMode ops Neutral) (\<lambda>_. inner (s_flush ops))"

definition BufferedStream_ops :: "'s stream_ops \<Rightarrow> 's buffered_stream stream_ops" where
  "BufferedStream_ops ops =
     \<lparr>s_read = BufferedStream_read ops, s_write = BufferedStream_write ops, s_flush = BufferedStream_flush ops,
      s_setPos = BufferedStream_setPos ops, s_getPos = BufferedStream_getPos ops, s_getSize = BufferedStream_getSize ops,
      s_getCapabilities = inner (s_getCapabilities ops)\<rparr>"

end
