(* ===== verification/Afl_Stream_Laws.thy ===== *)
theory Afl_Stream_Laws
  imports Afl_Stream
begin

text \<open>
  The contract of streams as locales, what the common operations of \<open>Stream\<close> do on every stream
  that keeps it, and that the streams of the library keep it: the streams in memory, and the window
  and the buffer on any stream that keeps it.
\<close>

section \<open>Writing into a sequence\<close>

text \<open>Octets put at a position, with zeroes between the end and the position.\<close>

definition poke :: "octet list \<Rightarrow> nat \<Rightarrow> octet list \<Rightarrow> octet list" where
  "poke xs p ys = overwrite (xs @ replicate (p - length xs) NUL) p ys"

lemma length_poke [simp]: "length (poke xs p ys) = max (length xs) (p + length ys)"
  by (auto simp: poke_def overwrite_def)

lemma poke_poke: "poke (poke xs p ys) (p + length ys) zs = poke xs p (ys @ zs)"
  by (cases "p \<le> length xs") (simp_all add: poke_def overwrite_def add.assoc algebra_simps)

lemma poke_inside: "p + length ys \<le> length xs \<Longrightarrow> poke xs p ys = overwrite xs p ys"
  by (simp add: poke_def)

lemma poke_read: "take (length ys) (drop p (poke xs p ys)) = ys"
  by (simp add: poke_def overwrite_def)

lemma overwrite_extend: "overwrite (if length xs < p then xs @ replicate (p - length xs) NUL else xs) p ys = poke xs p ys"
  by (simp add: poke_def)

section \<open>The contract\<close>

text \<open>
  \<open>view\<close> gives the file, the position and the greatest possible position of a stream in good order.
\<close>

locale readable_stream =
  fixes ops :: "'s stream_ops"
    and view :: "'s \<Rightarrow> (octet list \<times> nat \<times> nat) option"
  assumes read_law: "view s = Some (f, p, r) \<Longrightarrow>
      \<exists>d s'. s_read ops n s = (Inr d, s') \<and> view s' = Some (f, p + length d, r) \<and>
        d = take (length d) (drop p f) \<and> length d \<le> n \<and> (d = [] \<longrightarrow> n = 0 \<or> length f \<le> p)"
    and setPos_law: "view s = Some (f, p, r) \<Longrightarrow> q \<le> r \<Longrightarrow>
      \<exists>s'. s_setPos ops q s = (Inr (), s') \<and> view s' = Some (f, q, r)"
    and getPos_law: "view s = Some (f, p, r) \<Longrightarrow> \<exists>s'. s_getPos ops s = (Inr p, s') \<and> view s' = Some (f, p, r)"
    and getSize_law: "view s = Some (f, p, r) \<Longrightarrow>
      \<exists>s'. s_getSize ops s = (Inr (length f), s') \<and> view s' = Some (f, p, r)"
    and view_bounds: "view s = Some (f, p, r) \<Longrightarrow> p \<le> r \<and> length f \<le> r \<and> r < 2 ^ 64"
begin

lemma fullRead_enough:
  "view s = Some (f, p, r) \<Longrightarrow> p + n \<le> length f \<Longrightarrow>
   \<exists>s'. fullRead ops n s = (Inr (take n (drop p f)), s') \<and> view s' = Some (f, p + n, r)"
proof (induction n arbitrary: s p rule: less_induct)
  case (less n)
  show ?case
  proof (cases "n = 0")
    case False
    from read_law [OF less.prems(1), of n] obtain d s1 where d: "s_read ops n s = (Inr d, s1)"
      "view s1 = Some (f, p + length d, r)" "d = take (length d) (drop p f)" "length d \<le> n" "d \<noteq> []"
      using False less.prems(2) by auto
    have len: "n - length d < n" "p + length d + (n - length d) \<le> length f" using d False less.prems(2) by auto
    from less.IH [OF this(1) d(2) this(2)] obtain s2 where
      "fullRead ops (n - length d) s1 = (Inr (take (n - length d) (drop (p + length d) f)), s2)"
      "view s2 = Some (f, p + length d + (n - length d), r)" by auto
    moreover have "d @ take (n - length d) (drop (p + length d) f) = take n (drop p f)"
      using d(3,4) take_add [of "length d" "n - length d" "drop p f"] by (simp add: add.commute)
    ultimately show ?thesis using d False by (simp add: fullRead.simps [of ops n s])
  qed (use less.prems in \<open>simp add: fullRead.simps\<close>)
qed

lemma fullRead_short:
  "view s = Some (f, p, r) \<Longrightarrow> length f < p + n \<Longrightarrow> n > 0 \<Longrightarrow>
   \<exists>s'. fullRead ops n s = (Inl FileTooShortException, s') \<and> view s' = Some (f, max p (length f), r)"
proof (induction n arbitrary: s p rule: less_induct)
  case (less n)
  from read_law [OF less.prems(1), of n] obtain d s1 where d: "s_read ops n s = (Inr d, s1)"
    "view s1 = Some (f, p + length d, r)" "d = take (length d) (drop p f)" "length d \<le> n"
    "d = [] \<longrightarrow> length f \<le> p" using less.prems(3) by auto
  show ?case
  proof (cases "d = []")
    case True
    then show ?thesis using d less.prems by (simp add: fullRead.simps [of ops n s] max.absorb1)
  next
    case False
    have "length d \<le> length f - p" using d(3) by (metis length_take length_drop min.cobounded1)
    then have *: "n - length d < n" "length f < p + length d + (n - length d)" "n - length d > 0"
        "max (p + length d) (length f) = max p (length f)"
      using False d(4) less.prems by auto
    from less.IH [OF *(1) d(2) *(2,3)] show ?thesis
      using False d less.prems(3) *(4) by (auto simp: fullRead.simps [of ops n s])
  qed
qed

text \<open>A mapping made by reading holds the rest of the file, up to the limit.\<close>

lemma mappingInit_rest:
  "view s = Some (f, p, r) \<Longrightarrow>
   \<exists>s'. mappingInit ops n s = (Inr (take n (drop p f)), s') \<and>
        view s' = Some (f, p + length (take n (drop p f)), r)"
proof (induction n arbitrary: s p rule: less_induct)
  case (less n)
  show ?case
  proof (cases "n = 0")
    case False
    from read_law [OF less.prems(1), of "min n 4096"] obtain d s1 where d: "s_read ops (min n 4096) s = (Inr d, s1)"
      "view s1 = Some (f, p + length d, r)" "d = take (length d) (drop p f)" "length d \<le> min n 4096"
      "d = [] \<longrightarrow> length f \<le> p" using False by auto
    show ?thesis
    proof (cases "d = []")
      case True
      then show ?thesis using d less.prems False by (simp add: mappingInit.simps [of ops n s])
    next
      case nonempty: False
      then have "n - length d < n" using False by simp
      from less.IH [OF this d(2)] obtain s2 where
        "mappingInit ops (n - length d) s1 = (Inr (take (n - length d) (drop (p + length d) f)), s2)"
        "view s2 = Some (f, p + length d + length (take (n - length d) (drop (p + length d) f)), r)" by blast
      moreover have eq: "d @ take (n - length d) (drop (p + length d) f) = take n (drop p f)"
        using d(3,4) take_add [of "length d" "n - length d" "drop p f"] by (simp add: add.commute)
      moreover have "length d + length (take (n - length d) (drop (p + length d) f)) = length (take n (drop p f))"
        using arg_cong [OF eq, of length] by simp
      ultimately show ?thesis using d False nonempty by (simp add: mappingInit.simps [of ops n s] add.assoc)
    qed
  qed (use less.prems in \<open>simp add: mappingInit.simps\<close>)
qed

end

locale writable_stream = readable_stream +
  assumes write_law: "view s = Some (f, p, r) \<Longrightarrow> m \<noteq> [] \<Longrightarrow> p + length m \<le> r \<Longrightarrow>
      \<exists>k s'. s_write ops m s = (Inr k, s') \<and> 0 < k \<and> k \<le> length m \<and>
        view s' = Some (poke f p (take k m), p + k, r)"
    and flush_law: "view s = Some (f, p, r) \<Longrightarrow> \<exists>s'. s_flush ops s = (Inr (), s') \<and> view s' = Some (f, p, r)"
    and capabilities_law: "view s = Some (f, p, r) \<Longrightarrow>
      \<exists>c s'. s_getCapabilities ops s = (Inr c, s') \<and> CanWrite \<in> c \<and> view s' = Some (f, p, r)"
begin

lemma fullWrite_all:
  "view s = Some (f, p, r) \<Longrightarrow> m \<noteq> [] \<Longrightarrow> p + length m \<le> r \<Longrightarrow>
   \<exists>s'. fullWrite ops m s = (Inr (), s') \<and> view s' = Some (poke f p m, p + length m, r)"
proof (induction m arbitrary: s f p rule: length_induct)
  case (1 m)
  from write_law [OF 1(2,3,4)] obtain k s1 where k: "s_write ops m s = (Inr k, s1)" "0 < k" "k \<le> length m"
    "view s1 = Some (poke f p (take k m), p + k, r)" by auto
  show ?case
  proof (cases "k = length m")
    case True
    then show ?thesis using k 1 by (simp add: fullWrite.simps)
  next
    case False
    have "length (drop k m) < length m" "drop k m \<noteq> []" "p + k + length (drop k m) \<le> r" using False k 1 by auto
    with 1(1) k(4) obtain s2 where "fullWrite ops (drop k m) s1 = (Inr (), s2)"
      "view s2 = Some (poke (poke f p (take k m)) (p + k) (drop k m), p + k + length (drop k m), r)" by blast
    then show ?thesis using k 1 poke_poke [of f p "take k m" "drop k m"]
      by (simp add: fullWrite.simps [of ops m s] min.absorb2)
  qed
qed

end

section \<open>Streams in memory keep the contract\<close>

definition internal_view :: "internal_stream \<Rightarrow> (octet list \<times> nat \<times> nat) option" where
  "internal_view s =
     (if is_allowWrite s \<and> is_pos s < 2 ^ 64 \<and> length (is_data s) < 2 ^ 64
      then Some (is_data s, is_pos s, 2 ^ 64 - 1) else None)"

definition memory_view :: "memory_stream \<Rightarrow> (octet list \<times> nat \<times> nat) option" where
  "memory_view s =
     (if ms_pos s \<le> length (ms_mem s) \<and> length (ms_mem s) < 2 ^ 64
      then Some (ms_mem s, ms_pos s, length (ms_mem s)) else None)"

lemma internal_read_law:
  "internal_view s = Some (f, p, r) \<Longrightarrow>
   \<exists>d s'. InternalStream_read n s = (Inr d, s') \<and> internal_view s' = Some (f, p + length d, r) \<and>
     d = take (length d) (drop p f) \<and> length d \<le> n \<and> (d = [] \<longrightarrow> n = 0 \<or> length f \<le> p)"
  by (auto simp: internal_view_def InternalStream_read_def Let_def min_def split: if_splits)

lemma internal_write_law:
  assumes "internal_view s = Some (f, p, r)" "m \<noteq> []" "p + length m \<le> r"
  shows "InternalStream_write m s = (Inr (length m), s\<lparr>is_data := poke f p m, is_pos := p + length m\<rparr>) \<and>
     internal_view (s\<lparr>is_data := poke f p m, is_pos := p + length m\<rparr>) = Some (poke f p m, p + length m, r)"
proof -
  have v: "is_allowWrite s" "f = is_data s" "p = is_pos s" "r = 2 ^ 64 - 1" "length f < 2 ^ 64"
    using assms(1) by (auto simp: internal_view_def split: if_splits)
  then have "size_add (is_pos s) (length m) = is_pos s + length m" using assms(3) by (intro size_add_small) simp
  then show ?thesis using v assms(3) by (simp add: InternalStream_write_def internal_view_def Let_def overwrite_extend)
qed

interpretation internal: writable_stream InternalStream_ops internal_view
proof
  fix s f p r n q and m :: "octet list"
  assume v: "internal_view s = Some (f, p, r)"
  then show "\<exists>d s'. s_read InternalStream_ops n s = (Inr d, s') \<and> internal_view s' = Some (f, p + length d, r) \<and>
      d = take (length d) (drop p f) \<and> length d \<le> n \<and> (d = [] \<longrightarrow> n = 0 \<or> length f \<le> p)"
    using internal_read_law by (simp add: InternalStream_ops_def)
  show "q \<le> r \<Longrightarrow> \<exists>s'. s_setPos InternalStream_ops q s = (Inr (), s') \<and> internal_view s' = Some (f, q, r)"
    using v by (auto simp: internal_view_def InternalStream_ops_def InternalStream_setPos_def split: if_splits)
  show "\<exists>s'. s_getPos InternalStream_ops s = (Inr p, s') \<and> internal_view s' = Some (f, p, r)"
    "\<exists>s'. s_getSize InternalStream_ops s = (Inr (length f), s') \<and> internal_view s' = Some (f, p, r)"
    "p \<le> r \<and> length f \<le> r \<and> r < 2 ^ 64"
    using v by (auto simp: internal_view_def InternalStream_ops_def split: if_splits)
  show "\<exists>s'. s_flush InternalStream_ops s = (Inr (), s') \<and> internal_view s' = Some (f, p, r)"
    using v by (simp add: InternalStream_ops_def)
  show "\<exists>c s'. s_getCapabilities InternalStream_ops s = (Inr c, s') \<and> CanWrite \<in> c \<and> internal_view s' = Some (f, p, r)"
    using v by (auto simp: internal_view_def InternalStream_ops_def InternalStream_getCapabilities_def split: if_splits)
  assume m: "m \<noteq> []" "p + length m \<le> r"
  show "\<exists>k s'. s_write InternalStream_ops m s = (Inr k, s') \<and> 0 < k \<and> k \<le> length m \<and>
      internal_view s' = Some (poke f p (take k m), p + k, r)"
    using internal_write_law [OF v m] m(1) by (auto simp: InternalStream_ops_def)
qed

lemma memory_read_law:
  "memory_view s = Some (f, p, r) \<Longrightarrow>
   \<exists>d s'. MemoryStream_read n s = (Inr d, s') \<and> memory_view s' = Some (f, p + length d, r) \<and>
     d = take (length d) (drop p f) \<and> length d \<le> n \<and> (d = [] \<longrightarrow> n = 0 \<or> length f \<le> p)"
  by (auto simp: memory_view_def MemoryStream_read_def Let_def min_def split: if_splits)

lemma memory_setPos_law:
  "memory_view s = Some (f, p, r) \<Longrightarrow> q \<le> r \<Longrightarrow>
   \<exists>s'. MemoryStream_setPos q s = (Inr (), s') \<and> memory_view s' = Some (f, q, r)"
  by (auto simp: memory_view_def MemoryStream_setPos_def split: if_splits)

interpretation const_memory: readable_stream ConstMemoryStream_ops memory_view
  using memory_read_law memory_setPos_law
  by unfold_locales (auto simp: ConstMemoryStream_ops_def memory_view_def split: if_splits)

interpretation memory: writable_stream MemoryStream_ops memory_view
proof
  fix s f p r n q and m :: "octet list"
  assume v: "memory_view s = Some (f, p, r)"
  then show "\<exists>d s'. s_read MemoryStream_ops n s = (Inr d, s') \<and> memory_view s' = Some (f, p + length d, r) \<and>
      d = take (length d) (drop p f) \<and> length d \<le> n \<and> (d = [] \<longrightarrow> n = 0 \<or> length f \<le> p)"
    using memory_read_law by (simp add: MemoryStream_ops_def)
  show "q \<le> r \<Longrightarrow> \<exists>s'. s_setPos MemoryStream_ops q s = (Inr (), s') \<and> memory_view s' = Some (f, q, r)"
    using v memory_setPos_law by (simp add: MemoryStream_ops_def)
  show "\<exists>s'. s_getPos MemoryStream_ops s = (Inr p, s') \<and> memory_view s' = Some (f, p, r)"
    "\<exists>s'. s_getSize MemoryStream_ops s = (Inr (length f), s') \<and> memory_view s' = Some (f, p, r)"
    "p \<le> r \<and> length f \<le> r \<and> r < 2 ^ 64"
    using v by (auto simp: memory_view_def MemoryStream_ops_def split: if_splits)
  show "\<exists>s'. s_flush MemoryStream_ops s = (Inr (), s') \<and> memory_view s' = Some (f, p, r)"
    "\<exists>c s'. s_getCapabilities MemoryStream_ops s = (Inr c, s') \<and> CanWrite \<in> c \<and> memory_view s' = Some (f, p, r)"
    using v by (simp_all add: MemoryStream_ops_def)
  assume "m \<noteq> []" "p + length m \<le> r"
  then show "\<exists>k s'. s_write MemoryStream_ops m s = (Inr k, s') \<and> 0 < k \<and> k \<le> length m \<and>
      memory_view s' = Some (poke f p (take k m), p + k, r)"
    using v by (auto simp: MemoryStream_ops_def MemoryStream_write_def memory_view_def Let_def poke_inside
        min.absorb1 min.absorb2 split: if_splits)
qed

section \<open>A window keeps the contract\<close>

lemma size_sub_le: "b \<le> a \<Longrightarrow> a < 2 ^ 64 \<Longrightarrow> size_sub a b = a - b"
  using mod_add_self2 [of "a - b" "2 ^ 64"] by (simp add: size_sub_def add.commute)

text \<open>
  The window is inside the file, between two pieces that do not change, and the position of the file is
  the one of the window.
\<close>

definition limited_view ::
  "octet list \<Rightarrow> octet list \<Rightarrow> ('s \<Rightarrow> (octet list \<times> nat \<times> nat) option) \<Rightarrow> 's limited_stream \<Rightarrow> (octet list \<times> nat \<times> nat) option" where
  "limited_view pre suf view s =
     (case view (ls_parent s) of
        None \<Rightarrow> None
      | Some (f, p, r) \<Rightarrow>
          if hasPosition s \<and> hasLength s \<and> ls_origin s + ls_length s \<le> length f \<and>
             p = ls_origin s + ls_position s \<and> ls_position s \<le> ls_length s \<and>
             take (ls_origin s) f = pre \<and> drop (ls_origin s + ls_length s) f = suf
          then Some (take (ls_length s) (drop (ls_origin s) f), ls_position s, ls_length s) else None)"

lemma limited_viewE:
  assumes "limited_view pre suf view s = Some (f, p, r)"
  obtains F R where "view (ls_parent s) = Some (F, ls_origin s + ls_position s, R)"
    "hasPosition s" "hasLength s" "ls_origin s + ls_length s \<le> length F" "ls_position s \<le> ls_length s"
    "f = take (ls_length s) (drop (ls_origin s) F)" "p = ls_position s" "r = ls_length s"
    "take (ls_origin s) F = pre" "drop (ls_origin s + ls_length s) F = suf"
proof (cases "view (ls_parent s)")
  case (Some v)
  then obtain F P R where v: "view (ls_parent s) = Some (F, P, R)" by (cases v) auto
  then have "hasPosition s \<and> hasLength s \<and> ls_origin s + ls_length s \<le> length F \<and> P = ls_origin s + ls_position s \<and>
      ls_position s \<le> ls_length s \<and> take (ls_origin s) F = pre \<and> drop (ls_origin s + ls_length s) F = suf"
    using assms by (simp add: limited_view_def split: if_splits)
  moreover from this have "f = take (ls_length s) (drop (ls_origin s) F)" "p = ls_position s" "r = ls_length s"
    using assms v by (auto simp: limited_view_def)
  ultimately show thesis using v that by blast
qed (use assms in \<open>simp add: limited_view_def\<close>)

lemma limited_viewI:
  assumes "view (ls_parent s) = Some (F, ls_origin s + ls_position s, R)"
    "hasPosition s" "hasLength s" "ls_origin s + ls_length s \<le> length F" "ls_position s \<le> ls_length s"
    "take (ls_origin s) F = pre" "drop (ls_origin s + ls_length s) F = suf"
  shows "limited_view pre suf view s = Some (take (ls_length s) (drop (ls_origin s) F), ls_position s, ls_length s)"
  using assms by (simp add: limited_view_def)

lemma hasPosition_update [simp]:
  "hasPosition (s\<lparr>ls_parent := q\<rparr>) = hasPosition s" "hasPosition (s\<lparr>ls_position := i\<rparr>) = hasPosition s"
  "hasLength (s\<lparr>ls_parent := q\<rparr>) = hasLength s" "hasLength (s\<lparr>ls_position := i\<rparr>) = hasLength s"
  by (simp_all add: hasPosition_def hasLength_def)

lemma window_overwrite:
  assumes "i + length ys \<le> n" "b + n \<le> length F"
  shows "take n (drop b (overwrite F (b + i) ys)) = overwrite (take n (drop b F)) i ys"
  using assms by (intro nth_equalityI) (auto simp: overwrite_nth)

lemma outside_overwrite:
  assumes "i + length ys \<le> n" "b + n \<le> length F"
  shows "take b (overwrite F (b + i) ys) = take b F" "drop (b + n) (overwrite F (b + i) ys) = drop (b + n) F"
  using assms by (auto simp: overwrite_def add.commute)

context readable_stream
begin

lemma limited_bounds:
  assumes "limited_view pre suf view s = Some (f, p, r)"
  shows "p \<le> r \<and> length f = r \<and> r < 2 ^ 64 \<and> ls_origin s + r < 2 ^ 64"
proof -
  obtain F R where "view (ls_parent s) = Some (F, ls_origin s + ls_position s, R)"
    "ls_origin s + ls_length s \<le> length F" "ls_position s \<le> ls_length s"
    "f = take (ls_length s) (drop (ls_origin s) F)" "p = ls_position s" "r = ls_length s"
    using assms by (rule limited_viewE)
  then show ?thesis using view_bounds by fastforce
qed

lemma limited_limitTo:
  assumes "limited_view pre suf view s = Some (f, p, r)"
  shows "limitTo n s = min n (r - p)"
proof -
  have "size_sub (ls_length s) (ls_position s) = r - p" "hasLength s"
    using limited_bounds [OF assms] assms by (auto elim!: limited_viewE simp: size_sub_le)
  then show ?thesis by (simp add: limitTo_def min_def)
qed

lemma limited_read:
  assumes v: "limited_view pre suf view s = Some (f, p, r)"
  shows "\<exists>d s'. LimitedStream_read ops n s = (Inr d, s') \<and> limited_view pre suf view s' = Some (f, p + length d, r) \<and>
     d = take (length d) (drop p f) \<and> length d \<le> n \<and> (d = [] \<longrightarrow> n = 0 \<or> length f \<le> p)"
proof -
  obtain F R where F: "view (ls_parent s) = Some (F, ls_origin s + ls_position s, R)"
    "hasPosition s" "hasLength s" "ls_origin s + ls_length s \<le> length F" "ls_position s \<le> ls_length s"
    "f = take (ls_length s) (drop (ls_origin s) F)" "p = ls_position s" "r = ls_length s"
    "take (ls_origin s) F = pre" "drop (ls_origin s + ls_length s) F = suf"
    using v by (rule limited_viewE)
  define k where "k = min n (r - p)"
  from read_law [OF F(1), of k] obtain d t where d: "s_read ops k (ls_parent s) = (Inr d, t)"
    "view t = Some (F, ls_origin s + ls_position s + length d, R)"
    "d = take (length d) (drop (ls_origin s + ls_position s) F)" "length d \<le> k"
    "d = [] \<longrightarrow> k = 0 \<or> length F \<le> ls_origin s + ls_position s" by blast
  have kr: "p + k \<le> r" using F by (simp add: k_def)
  have add: "size_add (ls_position s) (length d) = ls_position s + length d"
    using limited_bounds [OF v] d(4) kr F by (intro size_add_small) simp
  define s' where "s' = s\<lparr>ls_parent := t, ls_position := ls_position s + length d\<rparr>"
  have "LimitedStream_read ops n s = (Inr d, s')"
    using d(1) add limited_limitTo [OF v] by (simp add: LimitedStream_read_def zoom_def d(1) k_def s'_def)
  moreover have "limited_view pre suf view s' = Some (f, p + length d, r)"
    using limited_viewI [of view s' F R pre suf] F d kr by (simp add: s'_def add.assoc)
  moreover have "take (length d) (drop p f) = d"
  proof -
    have "length d \<le> ls_length s - ls_position s" using d(4) kr F by simp
    then show ?thesis using d(3) F by (simp add: drop_take min.absorb1 add.commute)
  qed
  moreover have "d = [] \<longrightarrow> n = 0 \<or> length f \<le> p"
    using d(5) F by (auto simp: k_def min_def split: if_splits)
  ultimately show ?thesis using d(4) by (auto simp: k_def)
qed

lemma limited_setPos:
  assumes v: "limited_view pre suf view s = Some (f, p, r)" and "q \<le> r"
  shows "\<exists>s'. LimitedStream_setPos ops q s = (Inr (), s') \<and> limited_view pre suf view s' = Some (f, q, r)"
proof -
  obtain F R where F: "view (ls_parent s) = Some (F, ls_origin s + ls_position s, R)"
    "hasPosition s" "hasLength s" "ls_origin s + ls_length s \<le> length F" "ls_position s \<le> ls_length s"
    "f = take (ls_length s) (drop (ls_origin s) F)" "p = ls_position s" "r = ls_length s"
    "take (ls_origin s) F = pre" "drop (ls_origin s + ls_length s) F = suf"
    using v by (rule limited_viewE)
  have add: "size_add (ls_origin s) q = ls_origin s + q"
    using limited_bounds [OF v] \<open>q \<le> r\<close> by (intro size_add_small) simp
  have "ls_origin s + q \<le> R" using view_bounds [OF F(1)] F \<open>q \<le> r\<close> by simp
  from setPos_law [OF F(1) this] obtain t where t: "s_setPos ops (ls_origin s + q) (ls_parent s) = (Inr (), t)"
    "view t = Some (F, ls_origin s + q, R)" by blast
  define s' where "s' = s\<lparr>ls_parent := t, ls_position := q\<rparr>"
  have "LimitedStream_setPos ops q s = (Inr (), s')"
    using F \<open>q \<le> r\<close> by (simp add: LimitedStream_setPos_def add bind_def zoom_def t(1) s'_def)
  moreover have "limited_view pre suf view s' = Some (f, q, r)"
    using limited_viewI [of view s' F R pre suf] F t \<open>q \<le> r\<close> by (simp add: s'_def)
  ultimately show ?thesis by blast
qed

lemma limited_readable: "readable_stream (LimitedStream_ops ops) (limited_view pre suf view)"
proof
  fix s f p r n q
  assume v: "limited_view pre suf view s = Some (f, p, r)"
  show "\<exists>d s'. s_read (LimitedStream_ops ops) n s = (Inr d, s') \<and> limited_view pre suf view s' = Some (f, p + length d, r) \<and>
      d = take (length d) (drop p f) \<and> length d \<le> n \<and> (d = [] \<longrightarrow> n = 0 \<or> length f \<le> p)"
    using limited_read [OF v] by (simp add: LimitedStream_ops_def)
  show "q \<le> r \<Longrightarrow> \<exists>s'. s_setPos (LimitedStream_ops ops) q s = (Inr (), s') \<and> limited_view pre suf view s' = Some (f, q, r)"
    using limited_setPos [OF v] by (simp add: LimitedStream_ops_def)
  show "\<exists>s'. s_getPos (LimitedStream_ops ops) s = (Inr p, s') \<and> limited_view pre suf view s' = Some (f, p, r)"
    "\<exists>s'. s_getSize (LimitedStream_ops ops) s = (Inr (length f), s') \<and> limited_view pre suf view s' = Some (f, p, r)"
    "p \<le> r \<and> length f \<le> r \<and> r < 2 ^ 64"
    using limited_bounds [OF v] v by (auto simp: LimitedStream_ops_def elim: limited_viewE)
qed

end

context writable_stream
begin

lemma limited_write:
  assumes v: "limited_view pre suf view s = Some (f, p, r)" and m: "m \<noteq> []" "p + length m \<le> r"
  shows "\<exists>k s'. LimitedStream_write ops m s = (Inr k, s') \<and> 0 < k \<and> k \<le> length m \<and>
      limited_view pre suf view s' = Some (poke f p (take k m), p + k, r)"
proof -
  obtain F R where F: "view (ls_parent s) = Some (F, ls_origin s + ls_position s, R)"
    "hasPosition s" "hasLength s" "ls_origin s + ls_length s \<le> length F" "ls_position s \<le> ls_length s"
    "f = take (ls_length s) (drop (ls_origin s) F)" "p = ls_position s" "r = ls_length s"
    "take (ls_origin s) F = pre" "drop (ls_origin s + ls_length s) F = suf"
    using v by (rule limited_viewE)
  have "ls_origin s + ls_position s + length m \<le> R" using view_bounds [OF F(1)] F m by simp
  from write_law [OF F(1) m(1) this] obtain k t where k: "s_write ops m (ls_parent s) = (Inr k, t)" "0 < k" "k \<le> length m"
    "view t = Some (poke F (ls_origin s + ls_position s) (take k m), ls_origin s + ls_position s + k, R)" by blast
  have lim: "take (limitTo (length m) s) m = m" using limited_limitTo [OF v] m by (simp add: min_def)
  have add: "size_add (ls_position s) k = ls_position s + k"
    using limited_bounds [OF v] k m F by (intro size_add_small) simp
  define s' where "s' = s\<lparr>ls_parent := t, ls_position := ls_position s + k\<rparr>"
  have "LimitedStream_write ops m s = (Inr k, s')"
    using k add lim by (simp add: LimitedStream_write_def zoom_def k(1) s'_def)
  moreover have "limited_view pre suf view s' = Some (poke f p (take k m), p + k, r)"
  proof -
    have "poke F (ls_origin s + ls_position s) (take k m) = overwrite F (ls_origin s + ls_position s) (take k m)"
      using F k m by (intro poke_inside) simp
    moreover have "take (ls_length s) (drop (ls_origin s) (overwrite F (ls_origin s + ls_position s) (take k m))) =
        poke f p (take k m)"
      using window_overwrite [of "ls_position s" "take k m" "ls_length s" "ls_origin s" F] F k m
      by (simp add: poke_inside)
    ultimately show ?thesis
      using limited_viewI [of view s' "overwrite F (ls_origin s + ls_position s) (take k m)" R pre suf] F k m
        outside_overwrite [of "ls_position s" "take k m" "ls_length s" "ls_origin s" F]
      by (simp add: s'_def add.assoc)
  qed
  ultimately show ?thesis using k by blast
qed

lemma limited_writable: "writable_stream (LimitedStream_ops ops) (limited_view pre suf view)"
proof (intro writable_stream.intro limited_readable writable_stream_axioms.intro)
  fix s f p r and m :: "octet list"
  assume v: "limited_view pre suf view s = Some (f, p, r)"
  show "m \<noteq> [] \<Longrightarrow> p + length m \<le> r \<Longrightarrow> \<exists>k s'. s_write (LimitedStream_ops ops) m s = (Inr k, s') \<and> 0 < k \<and>
      k \<le> length m \<and> limited_view pre suf view s' = Some (poke f p (take k m), p + k, r)"
    using limited_write [OF v] by (simp add: LimitedStream_ops_def)
  obtain F R where F: "view (ls_parent s) = Some (F, ls_origin s + ls_position s, R)" "hasPosition s"
    using v by (rule limited_viewE)
  obtain t where t: "s_flush ops (ls_parent s) = (Inr (), t)" "view t = Some (F, ls_origin s + ls_position s, R)"
    using flush_law [OF F(1)] by blast
  have "limited_view pre suf view (s\<lparr>ls_parent := t\<rparr>) = limited_view pre suf view s"
    using F t by (simp add: limited_view_def)
  then show "\<exists>s'. s_flush (LimitedStream_ops ops) s = (Inr (), s') \<and> limited_view pre suf view s' = Some (f, p, r)"
    using v by (auto simp: LimitedStream_ops_def zoom_def t(1))
  have same: "limited_view pre suf view (s\<lparr>ls_parent := t\<rparr>) = limited_view pre suf view s"
    if "view t = view (ls_parent s)" for t
    using that by (cases "view (ls_parent s)") (simp_all add: limited_view_def split: prod.split)
  obtain c t where c: "s_getCapabilities ops (ls_parent s) = (Inr c, t)" "CanWrite \<in> c"
    "view t = Some (F, ls_origin s + ls_position s, R)"
    using capabilities_law [OF F(1)] by blast
  then show "\<exists>c s'. s_getCapabilities (LimitedStream_ops ops) s = (Inr c, s') \<and> CanWrite \<in> c \<and> limited_view pre suf view s' = Some (f, p, r)"
    using F v same [of t] by (auto simp: LimitedStream_ops_def LimitedStream_getCapabilities_def bind_def zoom_def c(1))
qed

end

section \<open>The border of a window\<close>

text \<open>Streams that accept a request to write nothing when the position is in the file, and do nothing then.\<close>

locale window_parent = writable_stream +
  assumes write_nothing: "view s = Some (f, p, r) \<Longrightarrow> p \<le> length f \<Longrightarrow> \<exists>s'. s_write ops [] s = (Inr 0, s') \<and> view s' = Some (f, p, r)"
begin

text \<open>A window writes what fits, and nothing at its end.\<close>

lemma limited_write_part:
  assumes v: "limited_view pre suf view s = Some (f, p, r)" and m: "m \<noteq> []" "p < r"
  shows "\<exists>k s'. LimitedStream_write ops m s = (Inr k, s') \<and> 0 < k \<and> k \<le> length m \<and> p + k \<le> r \<and>
      limited_view pre suf view s' = Some (poke f p (take k m), p + k, r)"
proof -
  let ?m = "take (r - p) m"
  have m': "?m \<noteq> []" "p + length ?m \<le> r" using m by auto
  have "limitTo (length m) s = min (length m) (r - p)" "limitTo (length ?m) s = min (length ?m) (r - p)"
    using limited_limitTo [OF v] by blast+
  then have "take (limitTo (length m) s) m = take (limitTo (length ?m) s) ?m" by (simp add: min.commute)
  then have same: "LimitedStream_write ops m s = LimitedStream_write ops ?m s" unfolding LimitedStream_write_def Let_def by (simp only:)
  from limited_write [OF v m'] obtain k s' where k: "LimitedStream_write ops ?m s = (Inr k, s')" "0 < k" "k \<le> length ?m"
    "limited_view pre suf view s' = Some (poke f p (take k ?m), p + k, r)" by blast
  have "take k ?m = take k m" using k(3) by (simp add: min.absorb1)
  then show ?thesis using k same m(2) by (intro exI [of _ k] exI [of _ s']) auto
qed

lemma limited_write_end:
  assumes v: "limited_view pre suf view s = Some (f, r, r)"
  shows "\<exists>s'. LimitedStream_write ops m s = (Inr 0, s') \<and> limited_view pre suf view s' = Some (f, r, r)"
proof -
  obtain F R where F: "view (ls_parent s) = Some (F, ls_origin s + ls_position s, R)"
    "hasPosition s" "hasLength s" "ls_origin s + ls_length s \<le> length F" "ls_position s \<le> ls_length s"
    "f = take (ls_length s) (drop (ls_origin s) F)" "r = ls_position s" "r = ls_length s"
    "take (ls_origin s) F = pre" "drop (ls_origin s + ls_length s) F = suf"
    using v by (rule limited_viewE)
  have "ls_origin s + ls_position s \<le> length F" using F(4,5) by simp
  from write_nothing [OF F(1) this] obtain u where u: "s_write ops [] (ls_parent s) = (Inr 0, u)" "view u = Some (F, ls_origin s + ls_position s, R)" by blast
  have "limitTo (length m) s = 0" using limited_limitTo [OF v] by simp
  moreover have "size_add (ls_position s) 0 = ls_position s" using limited_bounds [OF v] F(7) by (intro trans [OF size_add_small]) simp_all
  ultimately have "LimitedStream_write ops m s = (Inr 0, s\<lparr>ls_parent := u\<rparr>)" using u(1) by (simp add: LimitedStream_write_def zoom_def)
  moreover have "limited_view pre suf view (s\<lparr>ls_parent := u\<rparr>) = Some (f, r, r)"
    using limited_viewI [of view "s\<lparr>ls_parent := u\<rparr>" F R pre suf] F u(2) by simp
  ultimately show ?thesis by blast
qed

text \<open>A write that does not fit fills the window and fails.\<close>

lemma limited_fullWrite_full:
  "limited_view pre suf view s = Some (f, p, r) \<Longrightarrow> r < p + length m \<Longrightarrow>
   \<exists>s'. fullWrite (LimitedStream_ops ops) m s = (Inl cannotWrite, s') \<and>
     limited_view pre suf view s' = Some (poke f p (take (r - p) m), r, r)"
proof (induction m arbitrary: s f p rule: length_induct)
  case (1 m)
  note v = "1.prems"(1)
  have b: "p \<le> r" "length f = r" using limited_bounds [OF v] by auto
  then have m: "m \<noteq> []" using "1.prems"(2) by auto
  have ops: "s_write (LimitedStream_ops ops) = LimitedStream_write ops" by (simp add: LimitedStream_ops_def)
  show ?case
  proof (cases "p = r")
    case True
    from limited_write_end [of pre suf s f r m] v True obtain s' where
      s': "LimitedStream_write ops m s = (Inr 0, s')" "limited_view pre suf view s' = Some (f, r, r)" by blast
    have "poke f p (take (r - p) m) = f" using True b by (simp add: poke_def overwrite_def)
    then show ?thesis using s' m by (simp add: fullWrite.simps [of _ m] ops)
  next
    case False
    then have "p < r" using b(1) by simp
    from limited_write_part [OF v m this] obtain k s1 where k: "LimitedStream_write ops m s = (Inr k, s1)" "0 < k" "k \<le> length m" "p + k \<le> r"
      "limited_view pre suf view s1 = Some (poke f p (take k m), p + k, r)" by blast
    have len: "length (drop k m) < length m" "r < p + k + length (drop k m)" using k "1.prems"(2) by auto
    with "1.IH" k(5) obtain s2 where s2: "fullWrite (LimitedStream_ops ops) (drop k m) s1 = (Inl cannotWrite, s2)"
      "limited_view pre suf view s2 = Some (poke (poke f p (take k m)) (p + k) (take (r - (p + k)) (drop k m)), r, r)" by blast
    have parts: "take k m @ take (r - (p + k)) (drop k m) = take (r - p) m"
      using take_add [of k "r - (p + k)" m] k(4) by simp
    have "poke (poke f p (take k m)) (p + k) (take (r - (p + k)) (drop k m)) = poke f p (take (r - p) m)"
      using poke_poke [of f p "take k m" "take (r - (p + k)) (drop k m)"] k(3) unfolding parts by (simp add: min.absorb2)
    then show ?thesis using s2 k(1,2) m by (simp add: fullWrite.simps [of _ m] ops)
  qed
qed

lemma limited_setPos_outside:
  assumes "limited_view pre suf view s = Some (f, p, r)" "r < q"
  shows "LimitedStream_setPos ops q s = (Inl invalidOperation, s)"
  using assms by (auto elim!: limited_viewE simp: LimitedStream_setPos_def)

end

interpretation internal_parent: window_parent InternalStream_ops internal_view
  by unfold_locales (auto simp: InternalStream_ops_def size_add_small InternalStream_write_def internal_view_def Let_def overwrite_def split: if_splits)

interpretation memory_parent: window_parent MemoryStream_ops memory_view
  by unfold_locales (auto simp: MemoryStream_ops_def MemoryStream_write_def memory_view_def Let_def overwrite_def split: if_splits)

end
