(* ===== verification/Afl_Stream_Buffer.thy ===== *)
theory Afl_Stream_Buffer
  imports Afl_Stream_Laws
begin

text \<open>
  The buffered stream keeps the contract of the stream it works on: whatever is still in the buffer,
  a client sees the file, the position and the size as if every operation had gone to the stream at
  once. \<open>buffered_view\<close> is what the client sees.
\<close>

section \<open>What a client of a buffered stream sees\<close>

definition buffered_view ::
  "('s \<Rightarrow> (octet list \<times> nat \<times> nat) option) \<Rightarrow> 's buffered_stream \<Rightarrow> (octet list \<times> nat \<times> nat) option" where
  "buffered_view view s =
     (case view (bs_stream s) of
        None \<Rightarrow> None
      | Some (f, p, r) \<Rightarrow>
          if length (bs_rawBuffer s) \<noteq> BUFFER_SIZE then None
          else case bs_mode s of
                 Neutral \<Rightarrow> Some (f, p, r)
               | Reading \<Rightarrow>
                   if inside (bs_rawBuffer s) (bs_buffer s) \<and> m_size (bs_buffer s) \<le> p \<and>
                      content (bs_rawBuffer s) (bs_buffer s) = take (m_size (bs_buffer s)) (drop (p - m_size (bs_buffer s)) f)
                   then Some (f, p - m_size (bs_buffer s), r) else None
               | Writing \<Rightarrow>
                   if bs_buffer s = wholeBuffer \<and> bs_bufferFill s < BUFFER_SIZE \<and> p + bs_bufferFill s \<le> r
                   then Some (if bs_bufferFill s = 0 then f else poke f p (take (bs_bufferFill s) (bs_rawBuffer s)),
                              p + bs_bufferFill s, r)
                   else None)"

lemma buffered_viewE:
  assumes "buffered_view view s = Some (F, P, r)"
  obtains f p where "view (bs_stream s) = Some (f, p, r)" "length (bs_rawBuffer s) = BUFFER_SIZE"
    "bs_mode s = Neutral \<Longrightarrow> F = f \<and> P = p"
    "bs_mode s = Reading \<Longrightarrow> F = f \<and> inside (bs_rawBuffer s) (bs_buffer s) \<and> m_size (bs_buffer s) \<le> p \<and>
       P = p - m_size (bs_buffer s) \<and>
       content (bs_rawBuffer s) (bs_buffer s) = take (m_size (bs_buffer s)) (drop P f)"
    "bs_mode s = Writing \<Longrightarrow> bs_buffer s = wholeBuffer \<and> bs_bufferFill s < BUFFER_SIZE \<and>
       P = p + bs_bufferFill s \<and> P \<le> r \<and>
       F = (if bs_bufferFill s = 0 then f else poke f p (take (bs_bufferFill s) (bs_rawBuffer s)))"
proof (cases "view (bs_stream s)")
  case (Some v)
  then obtain f p r' where v: "view (bs_stream s) = Some (f, p, r')" by (cases v) auto
  show thesis
  proof (cases "bs_mode s")
    case Neutral
    then show thesis using assms v that [of f p] by (auto simp: buffered_view_def split: if_splits)
  next
    case Reading
    then show thesis using assms v that [of f p] by (auto simp: buffered_view_def split: if_splits)
  next
    case Writing
    then show thesis using assms v that [of f p] by (auto simp: buffered_view_def split: if_splits)
  qed
qed (use assms in \<open>simp add: buffered_view_def\<close>)

lemma view_neutral:
  "view (bs_stream s) = Some v \<Longrightarrow> length (bs_rawBuffer s) = BUFFER_SIZE \<Longrightarrow> bs_mode s = Neutral \<Longrightarrow>
   buffered_view view s = Some v"
  by (cases v) (simp add: buffered_view_def)

lemma view_reading:
  "view (bs_stream s) = Some (f, p, r) \<Longrightarrow> length (bs_rawBuffer s) = BUFFER_SIZE \<Longrightarrow> bs_mode s = Reading \<Longrightarrow>
   inside (bs_rawBuffer s) (bs_buffer s) \<Longrightarrow> p = P + m_size (bs_buffer s) \<Longrightarrow>
   content (bs_rawBuffer s) (bs_buffer s) = take (m_size (bs_buffer s)) (drop P f) \<Longrightarrow>
   buffered_view view s = Some (f, P, r)"
  by (simp add: buffered_view_def)

lemma view_writing:
  "view (bs_stream s) = Some (f, p, r) \<Longrightarrow> length (bs_rawBuffer s) = BUFFER_SIZE \<Longrightarrow> bs_mode s = Writing \<Longrightarrow>
   bs_buffer s = wholeBuffer \<Longrightarrow> bs_bufferFill s < BUFFER_SIZE \<Longrightarrow> p + bs_bufferFill s \<le> r \<Longrightarrow>
   buffered_view view s =
     Some (if bs_bufferFill s = 0 then f else poke f p (take (bs_bufferFill s) (bs_rawBuffer s)), p + bs_bufferFill s, r)"
  by (simp add: buffered_view_def)

lemma inside_whole: "length raw = BUFFER_SIZE \<Longrightarrow> inside raw wholeBuffer"
  by (simp add: inside_def wholeBuffer_def)

lemma content_filled:
  "length raw = BUFFER_SIZE \<Longrightarrow> n \<le> BUFFER_SIZE \<Longrightarrow> content raw (Memory_trim n wholeBuffer) = take n raw"
  by (simp add: content_def Memory_trim_def wholeBuffer_def)

lemma overwrite_front: "length d \<le> length raw \<Longrightarrow> take (length d) (overwrite raw 0 d) = d"
  by (simp add: overwrite_def)

section \<open>Reading\<close>

context readable_stream
begin

lemma leave_reading:
  assumes v: "buffered_view view s = Some (F, P, r)" and mode: "bs_mode s = Reading"
  shows "\<exists>s'. leaveMode ops s = (Inr (), s') \<and> view (bs_stream s') = Some (F, P, r) \<and>
     length (bs_rawBuffer s') = BUFFER_SIZE"
proof -
  obtain f p where f: "view (bs_stream s) = Some (f, p, r)" "length (bs_rawBuffer s) = BUFFER_SIZE" "F = f"
    "m_size (bs_buffer s) \<le> p" "P = p - m_size (bs_buffer s)"
    using v mode by (elim buffered_viewE) auto
  show ?thesis
  proof (cases "m_size (bs_buffer s) = 0")
    case True
    then show ?thesis using f mode by (simp add: leaveMode_def Memory_empty_def)
  next
    case False
    have sub: "size_sub p (m_size (bs_buffer s)) = P"
      using f(4,5) view_bounds [OF f(1)] by (simp add: size_sub_le)
    have "P \<le> r" using f(5) view_bounds [OF f(1)] diff_le_self order_trans by blast
    obtain t0 where t0: "s_getPos ops (bs_stream s) = (Inr p, t0)" "view t0 = Some (f, p, r)" using getPos_law [OF f(1)] by blast
    from setPos_law [OF t0(2) \<open>P \<le> r\<close>] obtain t where t: "s_setPos ops P t0 = (Inr (), t)" "view t = Some (f, P, r)"
      by blast
    then have "leaveMode ops s = (Inr (), s\<lparr>bs_stream := t\<rparr>)"
      using False mode t0(1) sub by (simp add: leaveMode_def Memory_empty_def bind_def zoom_def)
    then show ?thesis using t f by simp
  qed
qed

lemma enter_reading:
  assumes "view (bs_stream s) = Some (F, P, r)" "length (bs_rawBuffer s) = BUFFER_SIZE"
  shows "\<exists>s'. bind (enterMode ops Reading) (\<lambda>_. modify (\<lambda>s. s\<lparr>bs_mode := Reading\<rparr>)) s = (Inr (), s') \<and>
     buffered_view view s' = Some (F, P, r) \<and> bs_mode s' = Reading"
  using assms by (simp add: enterMode_def buffered_view_def Memory_reset_def inside_def content_def)

lemma refill:
  assumes "view (bs_stream s) = Some (F, P, r)" "length (bs_rawBuffer s) = BUFFER_SIZE" "bs_mode s = Reading"
  shows "\<exists>s'. refillBuffer ops s = (Inr (), s') \<and> buffered_view view s' = Some (F, P, r) \<and> bs_mode s' = Reading \<and>
     (m_size (bs_buffer s') = 0 \<longrightarrow> length F \<le> P)"
proof -
  from read_law [OF assms(1), of "m_size wholeBuffer"] obtain d t where
    d: "s_read ops (m_size wholeBuffer) (bs_stream s) = (Inr d, t)" "view t = Some (F, P + length d, r)"
       "d = take (length d) (drop P F)" "length d \<le> BUFFER_SIZE" "d = [] \<longrightarrow> length F \<le> P"
    by (auto simp: wholeBuffer_def BUFFER_SIZE_def)
  define s' where "s' = s\<lparr>bs_stream := t, bs_rawBuffer := overwrite (bs_rawBuffer s) 0 d,
      bs_buffer := Memory_trim (length d) wholeBuffer\<rparr>"
  have "refillBuffer ops s = (Inr (), s')"
    using d(1) by (simp add: refillBuffer_def bind_def zoom_def s'_def)
  moreover have size: "m_size (bs_buffer s') = length d" "length (bs_rawBuffer s') = BUFFER_SIZE"
    using d(4) assms(2) by (auto simp: s'_def Memory_trim_def wholeBuffer_def)
  moreover have "content (bs_rawBuffer s') (bs_buffer s') = d"
    using content_filled [of "bs_rawBuffer s'" "length d"] size overwrite_front [of d "bs_rawBuffer s"] d(4) assms(2)
    by (simp add: s'_def)
  then have "buffered_view view s' = Some (F, P, r)"
    using d assms size by (intro view_reading [of view s' F "P + length d"])
      (auto simp: s'_def inside_def Memory_trim_def wholeBuffer_def)
  ultimately show ?thesis using d(5) assms(3) by (auto simp: s'_def)
qed

lemma eat_reading:
  assumes v: "buffered_view view s = Some (F, P, r)" and mode: "bs_mode s = Reading"
  shows "\<exists>s'. eatBuffer s = (Inr (if m_size (bs_buffer s) = 0 then None else Some (F ! P)), s') \<and>
     buffered_view view s' = Some (F, if m_size (bs_buffer s) = 0 then P else P + 1, r) \<and> bs_mode s' = Reading \<and>
     (0 < m_size (bs_buffer s) \<longrightarrow> P < length F)"
proof -
  obtain p where f: "view (bs_stream s) = Some (F, p, r)" "length (bs_rawBuffer s) = BUFFER_SIZE"
    "inside (bs_rawBuffer s) (bs_buffer s)" "p = P + m_size (bs_buffer s)"
    "content (bs_rawBuffer s) (bs_buffer s) = take (m_size (bs_buffer s)) (drop P F)"
    using v mode by (elim buffered_viewE) auto
  show ?thesis
  proof (cases "m_size (bs_buffer s) = 0")
    case True
    then show ?thesis using v mode by (simp add: eatBuffer_def Memory_eat_def)
  next
    case False
    define s' where "s' = s\<lparr>bs_buffer := snd (Memory_eat (bs_buffer s))\<rparr>"
    have len: "length (take (m_size (bs_buffer s)) (drop P F)) = m_size (bs_buffer s)"
      using f(3,5) length_content by metis
    then have "P < length F" using False by auto
    moreover have "bs_rawBuffer s ! m_ptr (bs_buffer s) = F ! P"
      using content_nth [OF f(3), of 0] f(5) False \<open>P < length F\<close> by simp
    then have "eatBuffer s = (Inr (Some (F ! P)), s')"
      using False by (simp add: eatBuffer_def Memory_eat_def s'_def)
    moreover have "content (bs_rawBuffer s) (snd (Memory_eat (bs_buffer s))) = take (m_size (bs_buffer s) - 1) (drop (P + 1) F)"
      using content_eat [of "bs_rawBuffer s" "bs_buffer s"] f(5) by (simp add: tl_take tl_drop drop_Suc)
    then have "buffered_view view s' = Some (F, P + 1, r)"
      using f False mode by (intro view_reading [of view s' F p]) (auto simp: s'_def Memory_eat_def inside_def)
    ultimately show ?thesis using False mode by (auto simp: s'_def)
  qed
qed

text \<open>Once the stream is in reading mode, a byte is the next one of the file.\<close>

lemma next_byte:
  assumes v: "buffered_view view s = Some (F, P, r)" and mode: "bs_mode s = Reading"
  shows "\<exists>s'. bind eatBuffer (\<lambda>result. if result = None then bind (refillBuffer ops) (\<lambda>_. eatBuffer) else ret result) s =
       (Inr (if P < length F then Some (F ! P) else None), s') \<and>
     buffered_view view s' = Some (F, if P < length F then P + 1 else P, r) \<and> bs_mode s' = Reading"
proof (cases "m_size (bs_buffer s) = 0")
  case False
  then show ?thesis using eat_reading [OF v mode] by (auto simp: bind_eval(1))
next
  case True
  then obtain s1 where s1: "eatBuffer s = (Inr None, s1)" "s1 = s"
    by (simp add: eatBuffer_def Memory_eat_def)
  have "view (bs_stream s) = Some (F, P, r)" "length (bs_rawBuffer s) = BUFFER_SIZE"
    using v mode True by (elim buffered_viewE, simp)+
  from refill [OF this mode] obtain s2 where s2: "refillBuffer ops s = (Inr (), s2)"
    "buffered_view view s2 = Some (F, P, r)" "bs_mode s2 = Reading" "m_size (bs_buffer s2) = 0 \<longrightarrow> length F \<le> P"
    by (elim exE conjE) (rule that)
  from eat_reading [OF s2(2,3)] s2(4) obtain s3 where
    "eatBuffer s2 = (Inr (if P < length F then Some (F ! P) else None), s3)"
    "buffered_view view s3 = Some (F, if P < length F then P + 1 else P, r)" "bs_mode s3 = Reading"
    by (cases "m_size (bs_buffer s2) = 0") auto
  then show ?thesis using s1 s2(1) by (simp add: bind_eval(1))
qed

end

section \<open>Writing, and changes of the mode\<close>

context writable_stream
begin

lemma flush_writing:
  assumes "view (bs_stream s) = Some (f, p, r)" "length (bs_rawBuffer s) = BUFFER_SIZE" "bs_mode s = Writing"
    "bs_buffer s = wholeBuffer" "bs_bufferFill s \<le> BUFFER_SIZE" "p + bs_bufferFill s \<le> r"
  shows "\<exists>s'. flushBuffer ops s = (Inr (), s') \<and>
     view (bs_stream s') = Some (if bs_bufferFill s = 0 then f else poke f p (take (bs_bufferFill s) (bs_rawBuffer s)),
       p + bs_bufferFill s, r) \<and>
     length (bs_rawBuffer s') = BUFFER_SIZE \<and> bs_mode s' = Writing \<and> bs_buffer s' = wholeBuffer \<and> bs_bufferFill s' = 0"
proof (cases "bs_bufferFill s = 0")
  case True
  then show ?thesis using assms by (simp add: flushBuffer_def bind_def)
next
  case False
  define m where "m = take (bs_bufferFill s) (bs_rawBuffer s)"
  have m: "m \<noteq> []" "length m = bs_bufferFill s" using False assms(2,5) by (auto simp: m_def BUFFER_SIZE_def)
  then have "p + length m \<le> r" using assms(6) by simp
  from fullWrite_all [OF assms(1) m(1) this] obtain t where
    t: "fullWrite ops m (bs_stream s) = (Inr (), t)" "view t = Some (poke f p m, p + length m, r)" by blast
  have "flushBuffer ops s = (Inr (), s\<lparr>bs_stream := t, bs_buffer := wholeBuffer, bs_bufferFill := 0\<rparr>)"
    using False t(1) content_filled [OF assms(2,5)] assms(4) by (simp add: flushBuffer_def bind_def zoom_def Let_def m_def)
  then show ?thesis using t(2) m assms False by (simp add: m_def)
qed

lemma leave_mode:
  assumes v: "buffered_view view s = Some (F, P, r)"
  shows "\<exists>s'. leaveMode ops s = (Inr (), s') \<and> view (bs_stream s') = Some (F, P, r) \<and>
     length (bs_rawBuffer s') = BUFFER_SIZE"
proof (cases "bs_mode s")
  case Reading
  with v show ?thesis by (rule leave_reading)
next
  case Neutral
  then show ?thesis using v by (elim buffered_viewE) (simp add: leaveMode_def)
next
  case Writing
  with v obtain f p where f: "view (bs_stream s) = Some (f, p, r)" "length (bs_rawBuffer s) = BUFFER_SIZE"
    "bs_buffer s = wholeBuffer" "bs_bufferFill s \<le> BUFFER_SIZE" "p + bs_bufferFill s \<le> r"
    "F = (if bs_bufferFill s = 0 then f else poke f p (take (bs_bufferFill s) (bs_rawBuffer s)))" "P = p + bs_bufferFill s"
    by (elim buffered_viewE) (simp add: less_imp_le)
  from flush_writing [OF f(1,2) Writing f(3-5)] show ?thesis using Writing f(6,7) by (auto simp: leaveMode_def)
qed

lemma enter_mode:
  assumes "view (bs_stream s) = Some (F, P, r)" "length (bs_rawBuffer s) = BUFFER_SIZE"
  shows "\<exists>s'. bind (enterMode ops m) (\<lambda>_. modify (\<lambda>s. s\<lparr>bs_mode := m\<rparr>)) s = (Inr (), s') \<and>
     buffered_view view s' = Some (F, P, r) \<and> bs_mode s' = m"
proof (cases m)
  case Reading
  with enter_reading [OF assms] show ?thesis by simp
next
  case Neutral
  then show ?thesis using assms by (simp add: enterMode_def buffered_view_def)
next
  case Writing
  obtain c t where c: "s_getCapabilities ops (bs_stream s) = (Inr c, t)" "CanWrite \<in> c" "view t = Some (F, P, r)"
    using capabilities_law [OF assms(1)] by blast
  define s' where "s' = s\<lparr>bs_stream := t, bs_buffer := wholeBuffer, bs_bufferFill := 0, bs_mode := Writing\<rparr>"
  have "bind (enterMode ops m) (\<lambda>_. modify (\<lambda>s. s\<lparr>bs_mode := m\<rparr>)) s = (Inr (), s')"
    using Writing c by (simp add: enterMode_def hasCapabilities_def bind_def zoom_def s'_def)
  moreover have "buffered_view view s' = Some (F, P, r)"
    using view_writing [of view s' F P r] assms c(3) view_bounds [OF assms(1)] by (simp add: s'_def BUFFER_SIZE_def)
  ultimately show ?thesis using Writing by (simp add: s'_def)
qed

lemma set_mode:
  assumes v: "buffered_view view s = Some (F, P, r)"
  shows "\<exists>s'. setMode ops m s = (Inr (), s') \<and> buffered_view view s' = Some (F, P, r) \<and> bs_mode s' = m"
proof (cases "m = bs_mode s")
  case True
  then show ?thesis using v by (simp add: setMode_def)
next
  case False
  obtain s1 where s1: "leaveMode ops s = (Inr (), s1)" "view (bs_stream s1) = Some (F, P, r)"
    "length (bs_rawBuffer s1) = BUFFER_SIZE" using leave_mode [OF v] by blast
  from enter_mode [OF s1(2,3), of m] show ?thesis using False s1(1) by (simp add: setMode_def bind_eval(1))
qed

lemma read_byte:
  assumes v: "buffered_view view s = Some (F, P, r)"
  shows "\<exists>s'. readByte ops s = (Inr (if P < length F then Some (F ! P) else None), s') \<and>
     buffered_view view s' = Some (F, if P < length F then P + 1 else P, r) \<and> bs_mode s' = Reading"
proof -
  obtain s1 where s1: "setMode ops Reading s = (Inr (), s1)" "buffered_view view s1 = Some (F, P, r)" "bs_mode s1 = Reading"
    using set_mode [OF v] by blast
  from next_byte [OF s1(2,3)] show ?thesis using s1(1) by (auto simp: readByte_def bind_eval(1))
qed

lemma buffered_read:
  "buffered_view view s = Some (F, P, r) \<Longrightarrow>
   \<exists>s'. BufferedStream_read ops n s = (Inr (take n (drop P F)), s') \<and>
     buffered_view view s' = Some (F, P + length (take n (drop P F)), r) \<and>
     bs_mode s' = (if n = 0 then bs_mode s else Reading)"
proof (induction n arbitrary: s P)
  case (Suc n)
  from read_byte [OF Suc.prems] obtain s1 where s1:
    "readByte ops s = (Inr (if P < length F then Some (F ! P) else None), s1)"
    "buffered_view view s1 = Some (F, if P < length F then P + 1 else P, r)" "bs_mode s1 = Reading" by blast
  show ?case
  proof (cases "P < length F")
    case True
    then have "buffered_view view s1 = Some (F, P + 1, r)" using s1(2) by simp
    from Suc.IH [OF this] obtain s2 where "BufferedStream_read ops n s1 = (Inr (take n (drop (P + 1) F)), s2)"
      "buffered_view view s2 = Some (F, P + 1 + length (take n (drop (P + 1) F)), r)"
      "bs_mode s2 = (if n = 0 then bs_mode s1 else Reading)" by blast
    moreover have "take (Suc n) (drop P F) = F ! P # take n (drop (P + 1) F)"
      using True by (simp add: Cons_nth_drop_Suc [symmetric])
    ultimately show ?thesis using True s1(1,3) by (simp add: bind_eval(1))
  qed (use s1 in \<open>simp add: bind_eval(1)\<close>)
qed simp

end

lemma room_in_buffer:
  "fill < BUFFER_SIZE \<Longrightarrow> Memory_subrange fill nil wholeBuffer = \<lparr>m_ptr = fill, m_size = BUFFER_SIZE - fill\<rparr>"
  by (simp add: Memory_subrange_def wholeBuffer_def BUFFER_SIZE_def nil_def Let_def)

lemma whole_size: "m_size wholeBuffer = BUFFER_SIZE"
  by (simp add: wholeBuffer_def)

lemma overwrite_append:
  "fill + length d \<le> length raw \<Longrightarrow> take (fill + length d) (overwrite raw fill d) = take fill raw @ d"
  by (simp add: overwrite_def)

context writable_stream
begin

lemma write_round_direct:
  assumes v: "buffered_view view s = Some (F, P, r)" and mode: "bs_mode s = Writing"
    and m: "m \<noteq> []" "P + length m \<le> r" and fill: "bs_bufferFill s = 0" "length m \<ge> BUFFER_SIZE"
  shows "\<exists>k s'. writeRound ops m s = (Inr k, s') \<and> k \<le> length m \<and>
     buffered_view view s' = Some (poke F P (take k m), P + k, r) \<and> bs_mode s' = Writing"
proof -
  have f: "view (bs_stream s) = Some (F, P, r)" "length (bs_rawBuffer s) = BUFFER_SIZE" "bs_buffer s = wholeBuffer"
    using v mode fill by (elim buffered_viewE, simp)+
  obtain k t where k: "s_write ops m (bs_stream s) = (Inr k, t)" "0 < k" "k \<le> length m"
    "view t = Some (poke F P (take k m), P + k, r)" using write_law [OF f(1) m] by blast
  have "writeRound ops m s = (Inr k, s\<lparr>bs_stream := t\<rparr>)"
    using fill f(3) k by (simp add: writeRound_def wholeBuffer_def bind_def zoom_def)
  moreover have "buffered_view view (s\<lparr>bs_stream := t\<rparr>) = Some (poke F P (take k m), P + k, r)"
    using view_writing [of view "s\<lparr>bs_stream := t\<rparr>" "poke F P (take k m)" "P + k" r] k f m mode fill
    by (simp add: BUFFER_SIZE_def)
  ultimately show ?thesis using k mode by auto
qed

lemma write_round_buffer:
  assumes v: "buffered_view view s = Some (F, P, r)" and mode: "bs_mode s = Writing"
    and m: "m \<noteq> []" "P + length m \<le> r" and "\<not> (bs_bufferFill s = 0 \<and> length m \<ge> BUFFER_SIZE)"
  shows "\<exists>k s'. writeRound ops m s = (Inr k, s') \<and> k \<le> length m \<and>
     buffered_view view s' = Some (poke F P (take k m), P + k, r) \<and> bs_mode s' = Writing"
proof -
  obtain f p where f: "view (bs_stream s) = Some (f, p, r)" "length (bs_rawBuffer s) = BUFFER_SIZE"
    "bs_buffer s = wholeBuffer" "bs_bufferFill s < BUFFER_SIZE" "P = p + bs_bufferFill s"
    "F = (if bs_bufferFill s = 0 then f else poke f p (take (bs_bufferFill s) (bs_rawBuffer s)))"
    using v mode by (elim buffered_viewE) simp
  define k where "k = min (BUFFER_SIZE - bs_bufferFill s) (length m)"
  define s1 where "s1 = s\<lparr>bs_rawBuffer := overwrite (bs_rawBuffer s) (bs_bufferFill s) (take k m),
      bs_bufferFill := bs_bufferFill s + k\<rparr>"
  have k: "0 < k" "k \<le> length m" "bs_bufferFill s + k \<le> BUFFER_SIZE" using f(4) m(1) by (auto simp: k_def)
  have raw: "length (bs_rawBuffer s1) = BUFFER_SIZE"
      "take (bs_bufferFill s1) (bs_rawBuffer s1) = take (bs_bufferFill s) (bs_rawBuffer s) @ take k m"
    using k f(2) overwrite_append [of "bs_bufferFill s" "take k m" "bs_rawBuffer s"] by (simp_all add: s1_def)
  have poked: "poke f p (take (bs_bufferFill s1) (bs_rawBuffer s1)) = poke F P (take k m)"
    using poke_poke [of f p "take (bs_bufferFill s) (bs_rawBuffer s)" "take k m"] raw(2) f(2,4,5,6) by simp
  have s1: "view (bs_stream s1) = Some (f, p, r)" "bs_mode s1 = Writing" "bs_buffer s1 = wholeBuffer"
      "bs_bufferFill s1 \<noteq> 0" "bs_bufferFill s1 \<le> BUFFER_SIZE" "p + bs_bufferFill s1 = P + k" "P + k \<le> r"
    using f k m mode by (auto simp: s1_def)
  have round: "writeRound ops m s =
      bind (\<lambda>s. if bs_bufferFill s \<ge> m_size (bs_buffer s) then flushBuffer ops s else (Inr (), s)) (\<lambda>_. ret k) s1"
    using assms(5) f(3,4) k(1) by (auto simp: writeRound_def room_in_buffer whole_size Let_def k_def [symmetric] s1_def)
  show ?thesis
  proof (cases "bs_bufferFill s1 = BUFFER_SIZE")
    case True
    have "p + bs_bufferFill s1 \<le> r" using s1 by simp
    from flush_writing [OF s1(1) raw(1) s1(2,3,5) this] obtain s2 where s2: "flushBuffer ops s1 = (Inr (), s2)"
      "view (bs_stream s2) = Some (poke F P (take k m), P + k, r)" "length (bs_rawBuffer s2) = BUFFER_SIZE"
      "bs_mode s2 = Writing" "bs_buffer s2 = wholeBuffer" "bs_bufferFill s2 = 0"
      using s1 poked by auto
    have "buffered_view view s2 = Some (poke F P (take k m), P + k, r)"
      using view_writing [of view s2, OF s2(2-5)] s2(6) s1(7) by (simp add: BUFFER_SIZE_def)
    then show ?thesis using round True s2(1,4) s1(3) k by (simp add: bind_eval(1) wholeBuffer_def)
  next
    case False
    then have "buffered_view view s1 = Some (poke F P (take k m), P + k, r)"
      using view_writing [of view s1, OF s1(1) raw(1) s1(2,3)] s1 poked by simp
    then show ?thesis using round False s1 k by (simp add: bind_eval(1) wholeBuffer_def)
  qed
qed

lemma write_round:
  assumes "buffered_view view s = Some (F, P, r)" "bs_mode s = Writing" "m \<noteq> []" "P + length m \<le> r"
  shows "\<exists>k s'. writeRound ops m s = (Inr k, s') \<and> k \<le> length m \<and>
     buffered_view view s' = Some (poke F P (take k m), P + k, r) \<and> bs_mode s' = Writing"
  using write_round_direct [OF assms] write_round_buffer [OF assms]
  by (cases "bs_bufferFill s = 0 \<and> length m \<ge> BUFFER_SIZE") auto

lemma write_loop:
  "buffered_view view s = Some (F, P, r) \<Longrightarrow> bs_mode s = Writing \<Longrightarrow> m \<noteq> [] \<Longrightarrow> P + length m \<le> r \<Longrightarrow>
   \<exists>s'. writeLoop ops did m s = (Inr (did + length m), s') \<and>
     buffered_view view s' = Some (poke F P m, P + length m, r)"
proof (induction m arbitrary: did s F P rule: length_induct)
  case (1 m)
  obtain k s1 where k: "writeRound ops m s = (Inr k, s1)" "k \<le> length m"
    "buffered_view view s1 = Some (poke F P (take k m), P + k, r)" "bs_mode s1 = Writing"
    using write_round [OF 1(2-5)] by blast
  have "0 < k" using writeRound_positive [OF k(1)] .
  show ?case
  proof (cases "k = length m")
    case True
    then show ?thesis using k 1(4) by (simp add: writeLoop.simps)
  next
    case False
    have "length (drop k m) < length m" "drop k m \<noteq> []" "P + k + length (drop k m) \<le> r"
      using False k(2) \<open>0 < k\<close> 1(4,5) by auto
    with 1(1) k(3,4) obtain s2 where "writeLoop ops (did + k) (drop k m) s1 = (Inr (did + k + length (drop k m)), s2)"
      "buffered_view view s2 = Some (poke (poke F P (take k m)) (P + k) (drop k m), P + k + length (drop k m), r)" by blast
    then show ?thesis using k 1(4) poke_poke [of F P "take k m" "drop k m"]
      by (simp add: writeLoop.simps [of ops did m s] min.absorb2)
  qed
qed

lemma buffered_write:
  assumes v: "buffered_view view s = Some (F, P, r)" and m: "m \<noteq> []" "P + length m \<le> r"
  shows "\<exists>s'. BufferedStream_write ops m s = (Inr (length m), s') \<and>
     buffered_view view s' = Some (poke F P m, P + length m, r)"
proof -
  obtain s1 where s1: "setMode ops Writing s = (Inr (), s1)" "buffered_view view s1 = Some (F, P, r)" "bs_mode s1 = Writing"
    using set_mode [OF v] by blast
  from write_loop [OF s1(2,3) m, of 0] show ?thesis using s1(1) by (simp add: BufferedStream_write_def bind_eval(1))
qed

lemma neutral_view:
  assumes "buffered_view view s = Some (F, P, r)" "bs_mode s = Neutral"
  shows "view (bs_stream s) = Some (F, P, r)" "length (bs_rawBuffer s) = BUFFER_SIZE"
  using assms by (elim buffered_viewE, simp)+

lemma buffered_setPos:
  assumes v: "buffered_view view s = Some (F, P, r)" and "q \<le> r"
  shows "\<exists>s'. BufferedStream_setPos ops q s = (Inr (), s') \<and> buffered_view view s' = Some (F, q, r)"
proof -
  obtain s1 where s1: "setMode ops Neutral s = (Inr (), s1)" "buffered_view view s1 = Some (F, P, r)" "bs_mode s1 = Neutral"
    using set_mode [OF v] by blast
  note n = neutral_view [OF s1(2,3)]
  obtain t where t: "s_setPos ops q (bs_stream s1) = (Inr (), t)" "view t = Some (F, q, r)"
    using setPos_law [OF n(1) \<open>q \<le> r\<close>] by blast
  have "BufferedStream_setPos ops q s = (Inr (), s1\<lparr>bs_stream := t\<rparr>)"
    using s1(1) t(1) by (simp add: BufferedStream_setPos_def bind_eval(1) zoom_def)
  then show ?thesis using view_neutral [of view "s1\<lparr>bs_stream := t\<rparr>"] t(2) n(2) s1(3) by simp
qed

lemma buffered_flush:
  assumes v: "buffered_view view s = Some (F, P, r)"
  shows "\<exists>s'. BufferedStream_flush ops s = (Inr (), s') \<and> buffered_view view s' = Some (F, P, r) \<and>
     view (bs_stream s') = Some (F, P, r)"
proof -
  obtain s1 where s1: "setMode ops Neutral s = (Inr (), s1)" "buffered_view view s1 = Some (F, P, r)" "bs_mode s1 = Neutral"
    using set_mode [OF v] by blast
  note n = neutral_view [OF s1(2,3)]
  obtain t where t: "s_flush ops (bs_stream s1) = (Inr (), t)" "view t = Some (F, P, r)"
    using flush_law [OF n(1)] by blast
  have "BufferedStream_flush ops s = (Inr (), s1\<lparr>bs_stream := t\<rparr>)"
    using s1(1) t(1) by (simp add: BufferedStream_flush_def bind_eval(1) zoom_def)
  then show ?thesis using view_neutral [of view "s1\<lparr>bs_stream := t\<rparr>"] t(2) n(2) s1(3) by simp
qed

lemma buffered_bounds:
  assumes v: "buffered_view view s = Some (F, P, r)"
  shows "P \<le> r \<and> length F \<le> r \<and> r < 2 ^ 64"
proof -
  obtain s' where "leaveMode ops s = (Inr (), s')" "view (bs_stream s') = Some (F, P, r)" using leave_mode [OF v] by blast
  from this(2) show ?thesis by (rule view_bounds)
qed

lemma buffered_getPos:
  assumes v: "buffered_view view s = Some (F, P, r)"
  shows "\<exists>t. BufferedStream_getPos ops s = (Inr P, s\<lparr>bs_stream := t\<rparr>) \<and> view t = view (bs_stream s)"
proof -
  obtain f p where f: "view (bs_stream s) = Some (f, p, r)"
    and "(case bs_mode s of Reading \<Rightarrow> size_sub p (m_size (bs_buffer s)) | Writing \<Rightarrow> size_add p (bs_bufferFill s) | Neutral \<Rightarrow> p) = P"
  proof (rule buffered_viewE [OF v])
    fix f p
    assume a: "view (bs_stream s) = Some (f, p, r)" "bs_mode s = Neutral \<Longrightarrow> F = f \<and> P = p"
      "bs_mode s = Reading \<Longrightarrow> F = f \<and> inside (bs_rawBuffer s) (bs_buffer s) \<and> m_size (bs_buffer s) \<le> p \<and>
         P = p - m_size (bs_buffer s) \<and> content (bs_rawBuffer s) (bs_buffer s) = take (m_size (bs_buffer s)) (drop P f)"
      "bs_mode s = Writing \<Longrightarrow> bs_buffer s = wholeBuffer \<and> bs_bufferFill s < BUFFER_SIZE \<and> P = p + bs_bufferFill s \<and> P \<le> r \<and>
         F = (if bs_bufferFill s = 0 then f else poke f p (take (bs_bufferFill s) (bs_rawBuffer s)))"
    have "p < 2 ^ 64" "P < 2 ^ 64" using view_bounds [OF a(1)] buffered_bounds [OF v] by auto
    then have "(case bs_mode s of Reading \<Rightarrow> size_sub p (m_size (bs_buffer s)) | Writing \<Rightarrow> size_add p (bs_bufferFill s) | Neutral \<Rightarrow> p) = P"
      using a(2-4) by (cases "bs_mode s") (simp_all add: size_sub_le size_add_small)
    then show thesis using a(1) that by blast
  qed
  moreover obtain t where "s_getPos ops (bs_stream s) = (Inr p, t)" "view t = Some (f, p, r)" using getPos_law [OF f] by blast
  ultimately have "BufferedStream_getPos ops s = (Inr P, s\<lparr>bs_stream := t\<rparr>)" "view t = view (bs_stream s)"
    using f by (cases "bs_mode s"; simp add: BufferedStream_getPos_def bind_def zoom_def)+
  then show ?thesis by blast
qed

lemma buffered_getSize:
  assumes v: "buffered_view view s = Some (F, P, r)" and written: "bs_mode s = Writing \<Longrightarrow> P \<le> length F"
  shows "\<exists>t. BufferedStream_getSize ops s = (Inr (length F), s\<lparr>bs_stream := t\<rparr>) \<and> view t = view (bs_stream s)"
proof (cases "bs_mode s = Writing")
  case True
  then obtain f p where f: "view (bs_stream s) = Some (f, p, r)" "P = p + bs_bufferFill s" "bs_bufferFill s < BUFFER_SIZE"
    "F = (if bs_bufferFill s = 0 then f else poke f p (take (bs_bufferFill s) (bs_rawBuffer s)))" "length (bs_rawBuffer s) = BUFFER_SIZE"
    using v by (elim buffered_viewE) simp
  have "size_add p (bs_bufferFill s) = P" using f(2) buffered_bounds [OF v] by (simp add: size_add_small)
  moreover have "max (length f) P = length F" using f(2-5) written [OF True] by auto
  moreover obtain t where t: "s_getSize ops (bs_stream s) = (Inr (length f), t)" "view t = Some (f, p, r)"
    using getSize_law [OF f(1)] by blast
  moreover obtain t' where "s_getPos ops t = (Inr p, t')" "view t' = Some (f, p, r)" using getPos_law [OF t(2)] by blast
  ultimately show ?thesis
    using True f(1) by (auto simp: BufferedStream_getSize_def bind_def zoom_def)
next
  case False
  then have "\<exists>p. view (bs_stream s) = Some (F, p, r)" using v by (elim buffered_viewE) (cases "bs_mode s", auto)
  then obtain p where p: "view (bs_stream s) = Some (F, p, r)" by blast
  then show ?thesis using False getSize_law [OF p] by (auto simp: BufferedStream_getSize_def bind_def zoom_def)
qed

end

section \<open>The buffered stream keeps the contract\<close>

text \<open>
  An empty write beyond the end of the file leaves the stream ready for writing with an empty buffer;
  \<open>getSize\<close> then counts the gap although nothing was written. A client that writes only what there
  is never sees this.
\<close>

definition client_view ::
  "('s \<Rightarrow> (octet list \<times> nat \<times> nat) option) \<Rightarrow> 's buffered_stream \<Rightarrow> (octet list \<times> nat \<times> nat) option" where
  "client_view view s =
     (case buffered_view view s of
        None \<Rightarrow> None
      | Some (f, p, r) \<Rightarrow> if bs_mode s = Writing \<and> length f < p then None else Some (f, p, r))"

lemma client_view_iff:
  "client_view view s = Some (f, p, r) \<longleftrightarrow>
   buffered_view view s = Some (f, p, r) \<and> (bs_mode s = Writing \<longrightarrow> p \<le> length f)"
  by (auto simp: client_view_def split: option.splits if_splits)

lemma client_view_stream:
  assumes "view t = view (bs_stream s)"
  shows "client_view view (s\<lparr>bs_stream := t\<rparr>) = client_view view s"
proof (cases "view (bs_stream s)")
  case None
  then show ?thesis using assms by (simp add: client_view_def buffered_view_def)
next
  case (Some v)
  obtain f p r where "v = (f, p, r)" by (cases v)
  then have "buffered_view view (s\<lparr>bs_stream := t\<rparr>) = buffered_view view s"
    using assms Some by (cases "bs_mode s") (simp_all add: buffered_view_def)
  then show ?thesis by (auto simp: client_view_def split: option.splits)
qed

lemma client_view_init: "length raw = BUFFER_SIZE \<Longrightarrow> client_view view (BufferedStream_init raw s) = view s"
  by (auto simp: client_view_def buffered_view_def BufferedStream_init_def split: option.splits)

context writable_stream
begin

lemma client_laws:
  assumes "client_view view s = Some (F, P, r)"
  shows "\<exists>s'. BufferedStream_read ops n s = (Inr (take n (drop P F)), s') \<and>
           client_view view s' = Some (F, P + length (take n (drop P F)), r)"
    and "q \<le> r \<Longrightarrow> \<exists>s'. BufferedStream_setPos ops q s = (Inr (), s') \<and> client_view view s' = Some (F, q, r)"
    and "m \<noteq> [] \<Longrightarrow> P + length m \<le> r \<Longrightarrow> \<exists>s'. BufferedStream_write ops m s = (Inr (length m), s') \<and>
           client_view view s' = Some (poke F P m, P + length m, r)"
    and "\<exists>s'. BufferedStream_flush ops s = (Inr (), s') \<and> client_view view s' = Some (F, P, r)"
proof -
  have v: "buffered_view view s = Some (F, P, r)" "bs_mode s = Writing \<longrightarrow> P \<le> length F"
    using assms by (simp_all add: client_view_iff)
  obtain s' where "BufferedStream_read ops n s = (Inr (take n (drop P F)), s')"
    "buffered_view view s' = Some (F, P + length (take n (drop P F)), r)"
    "bs_mode s' = (if n = 0 then bs_mode s else Reading)"
    using buffered_read [OF v(1), of n] by blast
  then show "\<exists>s'. BufferedStream_read ops n s = (Inr (take n (drop P F)), s') \<and>
      client_view view s' = Some (F, P + length (take n (drop P F)), r)"
    using v(2) by (auto simp: client_view_iff split: if_splits)
  show "m \<noteq> [] \<Longrightarrow> P + length m \<le> r \<Longrightarrow> \<exists>s'. BufferedStream_write ops m s = (Inr (length m), s') \<and>
      client_view view s' = Some (poke F P m, P + length m, r)"
    using buffered_write [OF v(1)] by (fastforce simp: client_view_iff)
  obtain s1 where s1: "setMode ops Neutral s = (Inr (), s1)" "bs_mode s1 = Neutral" using set_mode [OF v(1)] by blast
  show "\<exists>s'. BufferedStream_setPos ops q s = (Inr (), s') \<and> client_view view s' = Some (F, q, r)" if q: "q \<le> r"
  proof -
    obtain s' where s': "BufferedStream_setPos ops q s = (Inr (), s')" "buffered_view view s' = Some (F, q, r)"
      using buffered_setPos [OF v(1) q] by blast
    moreover have "bs_mode s' = Neutral"
      using s'(1) s1 by (auto simp: BufferedStream_setPos_def bind_eval(1) zoom_def split: prod.splits)
    ultimately show ?thesis by (simp add: client_view_iff)
  qed
  obtain s' where s': "BufferedStream_flush ops s = (Inr (), s')" "buffered_view view s' = Some (F, P, r)"
    using buffered_flush [OF v(1)] by blast
  moreover have "bs_mode s' = Neutral"
    using s'(1) s1 by (auto simp: BufferedStream_flush_def bind_eval(1) zoom_def split: prod.splits)
  ultimately show "\<exists>s'. BufferedStream_flush ops s = (Inr (), s') \<and> client_view view s' = Some (F, P, r)"
    by (simp add: client_view_iff)
qed

lemma buffered_writable: "writable_stream (BufferedStream_ops ops) (client_view view)"
proof
  fix s F P r n q and m :: "octet list"
  assume c: "client_view view s = Some (F, P, r)"
  then have v: "buffered_view view s = Some (F, P, r)" "bs_mode s = Writing \<longrightarrow> P \<le> length F"
    by (simp_all add: client_view_iff)
  obtain s' where "BufferedStream_read ops n s = (Inr (take n (drop P F)), s')"
    "client_view view s' = Some (F, P + length (take n (drop P F)), r)" using client_laws(1) [OF c, of n] by blast
  then show "\<exists>d s'. s_read (BufferedStream_ops ops) n s = (Inr d, s') \<and> client_view view s' = Some (F, P + length d, r) \<and>
      d = take (length d) (drop P F) \<and> length d \<le> n \<and> (d = [] \<longrightarrow> n = 0 \<or> length F \<le> P)"
    by (auto simp: BufferedStream_ops_def min_def)
  show "q \<le> r \<Longrightarrow> \<exists>s'. s_setPos (BufferedStream_ops ops) q s = (Inr (), s') \<and> client_view view s' = Some (F, q, r)"
    using client_laws(2) [OF c] by (simp add: BufferedStream_ops_def)
  show "\<exists>s'. s_getPos (BufferedStream_ops ops) s = (Inr P, s') \<and> client_view view s' = Some (F, P, r)"
    using buffered_getPos [OF v(1)] c by (auto simp: BufferedStream_ops_def client_view_stream)
  show "\<exists>s'. s_getSize (BufferedStream_ops ops) s = (Inr (length F), s') \<and> client_view view s' = Some (F, P, r)"
    using buffered_getSize [OF v(1)] v(2) c by (auto simp: BufferedStream_ops_def client_view_stream)
  show "P \<le> r \<and> length F \<le> r \<and> r < 2 ^ 64" by (rule buffered_bounds [OF v(1)])
  show "\<exists>s'. s_flush (BufferedStream_ops ops) s = (Inr (), s') \<and> client_view view s' = Some (F, P, r)"
    using client_laws(4) [OF c] by (simp add: BufferedStream_ops_def)
  show "m \<noteq> [] \<Longrightarrow> P + length m \<le> r \<Longrightarrow> \<exists>k s'. s_write (BufferedStream_ops ops) m s = (Inr k, s') \<and> 0 < k \<and>
      k \<le> length m \<and> client_view view s' = Some (poke F P (take k m), P + k, r)"
    using client_laws(3) [OF c, of m] by (auto simp: BufferedStream_ops_def)
  obtain f p where f: "view (bs_stream s) = Some (f, p, r)" using v(1) by (rule buffered_viewE)
  from capabilities_law [OF f] show "\<exists>c s'. s_getCapabilities (BufferedStream_ops ops) s = (Inr c, s') \<and> CanWrite \<in> c \<and>
      client_view view s' = Some (F, P, r)"
    using c f by (auto simp: BufferedStream_ops_def zoom_def client_view_stream)
qed

end

interpretation buffered_internal: writable_stream "BufferedStream_ops InternalStream_ops" "client_view internal_view"
  by (rule internal.buffered_writable)

interpretation limited_internal: writable_stream "LimitedStream_ops InternalStream_ops" "limited_view pre suf internal_view"
  for pre suf
  by (rule internal.limited_writable)

section \<open>Programs on streams\<close>

text \<open>
  A client of a stream, as the sequence of its requests and of the answers it gets. The answers are
  determined by the contract: they are those of a sequence of octets with a position.
\<close>

datatype request = Read nat | Write "octet list" | SetPos nat | GetPos | GetSize | Flush

datatype answer = Octets "octet list" | Number nat | Done | Failed exn

definition answerOf :: "('a \<Rightarrow> answer) \<Rightarrow> 'a result \<times> 's \<Rightarrow> answer \<times> 's" where
  "answerOf f x = (case x of (Inl e, s) \<Rightarrow> (Failed e, s) | (Inr y, s) \<Rightarrow> (f y, s))"

fun perform :: "'s stream_ops \<Rightarrow> request \<Rightarrow> 's \<Rightarrow> answer \<times> 's" where
  "perform ops (Read n) s = answerOf Octets (fullRead ops n s)"
| "perform ops (Write m) s = answerOf (\<lambda>_. Done) (fullWrite ops m s)"
| "perform ops (SetPos q) s = answerOf (\<lambda>_. Done) (s_setPos ops q s)"
| "perform ops GetPos s = answerOf Number (s_getPos ops s)"
| "perform ops GetSize s = answerOf Number (s_getSize ops s)"
| "perform ops Flush s = answerOf (\<lambda>_. Done) (s_flush ops s)"

fun performAll :: "'s stream_ops \<Rightarrow> request list \<Rightarrow> 's \<Rightarrow> answer list \<times> 's" where
  "performAll ops [] s = ([], s)"
| "performAll ops (c # cs) s =
     (case perform ops c s of (a, s) \<Rightarrow> case performAll ops cs s of (as, s) \<Rightarrow> (a # as, s))"

text \<open>What a file of at most \<open>r\<close> octets answers; a request that leaves it is outside the contract.\<close>

fun expected :: "nat \<Rightarrow> request \<Rightarrow> octet list \<times> nat \<Rightarrow> (answer \<times> octet list \<times> nat) option" where
  "expected r (Read n) (f, p) =
     (if n = 0 \<or> p + n \<le> length f then Some (Octets (take n (drop p f)), f, p + n)
      else Some (Failed FileTooShortException, f, max p (length f)))"
| "expected r (Write m) (f, p) =
     (if m = [] then Some (Done, f, p)
      else if p + length m \<le> r then Some (Done, poke f p m, p + length m)
      else None)"
| "expected r (SetPos q) (f, p) = (if q \<le> r then Some (Done, f, q) else None)"
| "expected r GetPos (f, p) = Some (Number p, f, p)"
| "expected r GetSize (f, p) = Some (Number (length f), f, p)"
| "expected r Flush (f, p) = Some (Done, f, p)"

fun expectedAll :: "nat \<Rightarrow> request list \<Rightarrow> octet list \<times> nat \<Rightarrow> (answer list \<times> octet list \<times> nat) option" where
  "expectedAll r [] x = Some ([], x)"
| "expectedAll r (c # cs) x =
     (case expected r c x of
        None \<Rightarrow> None
      | Some (a, x) \<Rightarrow> (case expectedAll r cs x of None \<Rightarrow> None | Some (as, x) \<Rightarrow> Some (a # as, x)))"

context writable_stream
begin

lemma perform_expected:
  assumes v: "view s = Some (f, p, r)" and e: "expected r c (f, p) = Some (a, f', p')"
  shows "\<exists>s'. perform ops c s = (a, s') \<and> view s' = Some (f', p', r)"
proof (cases c)
  case (Read n)
  show ?thesis
  proof (cases "n = 0 \<or> p + n \<le> length f")
    case True
    then show ?thesis using Read e v fullRead_enough [OF v, of n]
      by (cases "n = 0") (auto simp: answerOf_def fullRead.simps)
  next
    case False
    then show ?thesis using Read e fullRead_short [OF v, of n] by (auto simp: answerOf_def)
  qed
next
  case (Write m)
  show ?thesis
  proof (cases "m = []")
    case True
    then show ?thesis using Write e v by (simp add: answerOf_def fullWrite.simps)
  next
    case False
    then have "p + length m \<le> r" using Write e by (auto split: if_splits)
    then show ?thesis using Write e False fullWrite_all [OF v False] by (auto simp: answerOf_def)
  qed
next
  case (SetPos q)
  then show ?thesis using e setPos_law [OF v, of q] by (auto simp: answerOf_def split: if_splits)
next
  case GetPos
  then show ?thesis using e v getPos_law [OF v] by (auto simp: answerOf_def)
next
  case GetSize
  then show ?thesis using e v getSize_law [OF v] by (auto simp: answerOf_def)
next
  case Flush
  then show ?thesis using e flush_law [OF v] by (auto simp: answerOf_def)
qed

lemma performAll_expected:
  "view s = Some (f, p, r) \<Longrightarrow> expectedAll r cs (f, p) = Some (as, f', p') \<Longrightarrow>
   \<exists>s'. performAll ops cs s = (as, s') \<and> view s' = Some (f', p', r)"
proof (induction cs arbitrary: s f p as)
  case (Cons c cs)
  then obtain a f1 p1 as1 where a: "expected r c (f, p) = Some (a, f1, p1)"
    "expectedAll r cs (f1, p1) = Some (as1, f', p')" "as = a # as1"
    by (auto split: option.splits)
  from perform_expected [OF Cons.prems(1) a(1)] obtain s1 where s1: "perform ops c s = (a, s1)" "view s1 = Some (f1, p1, r)"
    by blast
  from Cons.IH [OF s1(2) a(2)] show ?case using s1(1) a(3) by auto
qed simp

end

text \<open>
  What a file of fixed size answers: a write that does not fit fills the file up to its end and fails, a position behind
  the end is refused.
\<close>

fun window_answer :: "request \<Rightarrow> octet list \<times> nat \<Rightarrow> answer \<times> octet list \<times> nat" where
  "window_answer (Read n) (f, p) =
     (if p + n \<le> length f then (Octets (take n (drop p f)), f, p + n) else (Failed FileTooShortException, f, length f))"
| "window_answer (Write m) (f, p) =
     (if p + length m \<le> length f then (Done, overwrite f p m, p + length m)
      else (Failed cannotWrite, overwrite f p (take (length f - p) m), length f))"
| "window_answer (SetPos q) (f, p) = (if q \<le> length f then (Done, f, q) else (Failed invalidOperation, f, p))"
| "window_answer GetPos (f, p) = (Number p, f, p)"
| "window_answer GetSize (f, p) = (Number (length f), f, p)"
| "window_answer Flush (f, p) = (Done, f, p)"

fun windowAll :: "request list \<Rightarrow> octet list \<times> nat \<Rightarrow> answer list \<times> octet list \<times> nat" where
  "windowAll [] x = ([], x)"
| "windowAll (c # cs) x = (case window_answer c x of (a, x) \<Rightarrow> case windowAll cs x of (as, x) \<Rightarrow> (a # as, x))"

context window_parent
begin

lemma window_inside:
  assumes "limited_view pre suf view w = Some (f, p, length f)" "p \<le> length f"
    and "case c of Write m \<Rightarrow> p + length m \<le> length f | SetPos q \<Rightarrow> q \<le> length f | _ \<Rightarrow> True"
  shows "\<exists>w'. perform (LimitedStream_ops ops) c w = (fst (window_answer c (f, p)), w') \<and>
    limited_view pre suf view w' = Some (fst (snd (window_answer c (f, p))), snd (snd (window_answer c (f, p))), length f)"
proof -
  have "overwrite f p [] = f" using assms(2) by (simp add: overwrite_def)
  then have "expected (length f) c (f, p) = Some (window_answer c (f, p))"
    using assms(2,3) by (cases c) (auto simp: poke_inside max_def)
  then show ?thesis
    using writable_stream.perform_expected [OF limited_writable assms(1)] by (metis prod.collapse)
qed

lemma window_performs:
  assumes "limited_view pre suf view w = Some (f, p, length f)" "window_answer c (f, p) = (a, f', p')"
  shows "\<exists>w'. perform (LimitedStream_ops ops) c w = (a, w') \<and> limited_view pre suf view w' = Some (f', p', length f')"
proof -
  have p: "p \<le> length f" using limited_bounds [OF assms(1)] by simp
  show ?thesis
  proof (cases "case c of Write m \<Rightarrow> p + length m \<le> length f | SetPos q \<Rightarrow> q \<le> length f | _ \<Rightarrow> True")
    case True
    have "length f' = length f" using assms(2) True p by (cases c) (auto simp: overwrite_def split: if_splits)
    then show ?thesis using window_inside [OF assms(1) p True] assms(2) by simp
  next
    case False
    then consider m where "c = Write m" "length f < p + length m" | q where "c = SetPos q" "length f < q"
      by (cases c) auto
    then show ?thesis
    proof cases
      case 1
      from limited_fullWrite_full [OF assms(1) 1(2)] obtain w' where
        w': "fullWrite (LimitedStream_ops ops) m w = (Inl cannotWrite, w')"
          "limited_view pre suf view w' = Some (poke f p (take (length f - p) m), length f, length f)" by blast
      have "poke f p (take (length f - p) m) = overwrite f p (take (length f - p) m)" "length (overwrite f p (take (length f - p) m)) = length f"
        using p 1(2) by (auto simp: poke_inside overwrite_def)
      then show ?thesis using w' assms(2) 1 by (auto simp: answerOf_def)
    next
      case 2
      then show ?thesis using limited_setPos_outside [OF assms(1) 2(2)] assms by (auto simp: answerOf_def LimitedStream_ops_def)
    qed
  qed
qed

lemma window_performsAll:
  "limited_view pre suf view w = Some (f, p, length f) \<Longrightarrow> windowAll cs (f, p) = (as, f', p') \<Longrightarrow>
   \<exists>w'. performAll (LimitedStream_ops ops) cs w = (as, w') \<and> limited_view pre suf view w' = Some (f', p', length f')"
proof (induction cs arbitrary: w f p as)
  case (Cons c cs)
  obtain a f1 p1 where a: "window_answer c (f, p) = (a, f1, p1)" by (rule prod_cases3)
  obtain as1 where as1: "windowAll cs (f1, p1) = (as1, f', p')" "as = a # as1" using Cons.prems(2) a by (auto split: prod.splits)
  from window_performs [OF Cons.prems(1) a] obtain w1 where
    w1: "perform (LimitedStream_ops ops) c w = (a, w1)" "limited_view pre suf view w1 = Some (f1, p1, length f1)" by blast
  from Cons.IH [OF w1(2) as1(1)] show ?case using w1(1) as1(2) by auto
qed simp

lemma limited_window:
  assumes "view s = Some (pre @ f @ suf, p, r)"
    and "length pre \<noteq> nil" "length f \<noteq> nil" "windowAll cs (f, 0) = (as, f', p')"
  shows "\<exists>w w' r'. LimitedStream_init ops s (length pre) (length f) = (Inr (), w) \<and>
     performAll (LimitedStream_ops ops) cs w = (as, w') \<and>
     view (ls_parent w') = Some (pre @ f' @ suf, length pre + p', r')"
proof -
  let ?w = "\<lambda>t. \<lparr>ls_parent = t, ls_origin = length pre, ls_length = length f, ls_position = 0\<rparr>"
  have "length pre \<le> r" "length pre < 2 ^ 64" using view_bounds [OF assms(1)] by auto
  then obtain t where t: "s_setPos ops (length pre) s = (Inr (), t)" "view t = Some (pre @ f @ suf, length pre, r)"
    using setPos_law [OF assms(1)] by blast
  have init: "LimitedStream_init ops s (length pre) (length f) = (Inr (), ?w t)"
    using t(1) assms(2) \<open>length pre < 2 ^ 64\<close>
    by (simp add: LimitedStream_init_def LimitedStream_setPos_def hasPosition_def size_add_small bind_def zoom_def)
  have "limited_view pre suf view (?w t) = Some (f, 0, length f)"
    using t(2) assms(2,3) by (simp add: limited_view_def hasPosition_def hasLength_def)
  from window_performsAll [OF this assms(4)] obtain w' where
    w': "performAll (LimitedStream_ops ops) cs (?w t) = (as, w')" "limited_view pre suf view w' = Some (f', p', length f')" by blast
  from w'(2) obtain F R where F: "view (ls_parent w') = Some (F, ls_origin w' + ls_position w', R)"
    "f' = take (ls_length w') (drop (ls_origin w') F)" "p' = ls_position w'"
    "take (ls_origin w') F = pre" "drop (ls_origin w' + ls_length w') F = suf" "ls_origin w' + ls_length w' \<le> length F"
    by (rule limited_viewE)
  have "length pre = ls_origin w'" using F(4,6) by auto
  moreover have "F = pre @ f' @ suf"
    using F by (metis append_take_drop_id drop_drop add.commute)
  ultimately show ?thesis using init w'(1) F(1,3) by auto
qed

end

section \<open>Copying\<close>

locale copying = src: readable_stream other view' + dst: writable_stream ops view
  for other :: "'t stream_ops" and view' and ops :: "'s stream_ops" and view
begin

lemma copySize_copies:
  "view' t = Some (g, q, r') \<Longrightarrow> view s = Some (f, p, r) \<Longrightarrow> 0 < n \<Longrightarrow> q + n \<le> length g \<Longrightarrow> p + n \<le> r \<Longrightarrow>
   \<exists>s' t'. copySize ops other n (s, t) = (Inr (), s', t') \<and> view s' = Some (poke f p (take n (drop q g)), p + n, r) \<and>
     view' t' = Some (g, q + n, r')"
proof (induction n arbitrary: s t f p q rule: less_induct)
  case (less n)
  define k where "k = min n 4096"
  have k: "k \<le> n" "0 < k" "q + k \<le> length g" using less.prems(3,4) by (auto simp: k_def)
  obtain t1 where t1: "fullRead other k t = (Inr (take k (drop q g)), t1)" "view' t1 = Some (g, q + k, r')"
    using src.fullRead_enough [OF less.prems(1) k(3)] by blast
  define m where "m = take k (drop q g)"
  have m: "m \<noteq> []" "length m = k" using k by (auto simp: m_def)
  then have "p + length m \<le> r" using less.prems(5) k by simp
  then obtain s1 where s1: "fullWrite ops m s = (Inr (), s1)" "view s1 = Some (poke f p m, p + k, r)"
    using dst.fullWrite_all [OF less.prems(2) m(1)] m(2) by auto
  have step: "copySize ops other n (s, t) = copySize ops other (n - k) (s1, t1)"
    using less.prems(3) t1(1) s1(1) by (simp add: copySize.simps [of ops other n] m_def k_def)
  show ?case
  proof (cases "n \<le> 4096")
    case True
    then show ?thesis using step s1(2) t1(2) by (simp add: copySize.simps [of ops other 0] m_def k_def)
  next
    case False
    then have *: "n - k < n" "0 < n - k" "q + k + (n - k) \<le> length g" "p + k + (n - k) \<le> r" using less.prems k by (auto simp: k_def)
    have "poke (poke f p m) (p + k) (take (n - k) (drop (q + k) g)) = poke f p (take n (drop q g))"
      using poke_poke [of f p m "take (n - k) (drop (q + k) g)"] m(2) take_add [of k "n - k" "drop q g"]
      k by (simp add: m_def add.commute)
    with less.IH [OF *(1) t1(2) s1(2) *(2-4)] show ?thesis using step k by auto
  qed
qed

text \<open>Without a size, the loop ends and everything up to the end of the source is copied.\<close>

lemma copyAll_copies:
  "view' t = Some (g, q, r') \<Longrightarrow> view s = Some (f, p, r) \<Longrightarrow> p + (length g - q) \<le> r \<Longrightarrow>
   \<exists>s' t'. copyAll ops other (s, t) = Some (Inr (), s', t') \<and>
     view s' = Some (if drop q g = [] then f else poke f p (drop q g), p + (length g - q), r)"
proof (induction "length g - q" arbitrary: s t f p q rule: less_induct)
  case less
  obtain d t1 where d: "s_read other 4096 t = (Inr d, t1)" "view' t1 = Some (g, q + length d, r')"
    "d = take (length d) (drop q g)" "d = [] \<longrightarrow> length g \<le> q"
    using src.read_law [OF less.prems(1), of 4096] by auto
  show ?case
  proof (cases "d = []")
    case True
    then show ?thesis using d less.prems by (simp add: copyAll.simps)
  next
    case False
    have len: "length d \<le> length g - q" using d(3) by (metis length_take length_drop min.cobounded1)
    then have "p + length d \<le> r" using less.prems(3) by simp
    then obtain s1 where s1: "fullWrite ops d s = (Inr (), s1)" "view s1 = Some (poke f p d, p + length d, r)"
      using dst.fullWrite_all [OF less.prems(2) False] by blast
    have *: "length g - (q + length d) < length g - q" "p + length d + (length g - (q + length d)) \<le> r"
      using False len less.prems(3) by (cases d; simp)+
    obtain s2 t2 where st: "copyAll ops other (s1, t1) = Some (Inr (), s2, t2)"
      "view s2 = Some (if drop (q + length d) g = [] then poke f p d
         else poke (poke f p d) (p + length d) (drop (q + length d) g), p + length d + (length g - (q + length d)), r)"
      using less.hyps [OF *(1) d(2) s1(2) *(2)] by blast
    have all: "drop q g = d @ drop (q + length d) g"
      using d(3) append_take_drop_id [of "length d" "drop q g"] by (simp add: add.commute)
    have "copyAll ops other (s, t) = Some (Inr (), s2, t2)"
      using d(1) False s1(1) st(1) by (simp add: copyAll.simps [of ops other "(s, t)"])
    moreover have "poke (poke f p d) (p + length d) (drop (q + length d) g) = poke f p (drop q g)"
      using poke_poke [of f p d "drop (q + length d) g"] all by simp
    moreover have "d = drop q g" if "drop (q + length d) g = []" using all that by simp
    moreover have "p + length d + (length g - (q + length d)) = p + (length g - q)" using len by simp
    moreover have "drop q g \<noteq> []" using all False by simp
    ultimately show ?thesis using st(2) by (auto split: if_splits)
  qed
qed

end

interpretation copy_memory: copying ConstMemoryStream_ops memory_view InternalStream_ops internal_view ..

section \<open>After a failed flush\<close>

text \<open>
  When the underlying stream refuses the buffered data, the buffer stays trimmed to them; the next
  write then finds no room in it and runs into the assertion that it has copied something.
\<close>

lemma failed_flush_asserts:
  assumes "bs_mode s = Writing" "bs_buffer s = wholeBuffer" "0 < bs_bufferFill s" "bs_bufferFill s \<le> BUFFER_SIZE"
    "length (bs_rawBuffer s) = BUFFER_SIZE" "fullWrite ops (take (bs_bufferFill s) (bs_rawBuffer s)) (bs_stream s) = (Inl e, t)"
  shows "\<exists>s'. BufferedStream_flush ops s = (Inl e, s') \<and> BufferedStream_write ops (c # cs) s' = (Inl AssertionFailed, s')"
proof -
  define s' where "s' = s\<lparr>bs_stream := t, bs_buffer := Memory_trim (bs_bufferFill s) wholeBuffer\<rparr>"
  have "BufferedStream_flush ops s = (Inl e, s')"
    using assms content_filled [OF assms(5,4)]
    by (simp add: BufferedStream_flush_def setMode_def leaveMode_def flushBuffer_def bind_def zoom_def Let_def s'_def)
  moreover have "writeRound ops (c # cs) s' = (Inl AssertionFailed, s')"
    using assms by (simp add: writeRound_def s'_def Memory_subrange_def Memory_trim_def wholeBuffer_def Memory_init_def Let_def)
  then have "BufferedStream_write ops (c # cs) s' = (Inl AssertionFailed, s')"
    using assms(1) by (simp add: BufferedStream_write_def setMode_def bind_def writeLoop.simps s'_def)
  ultimately show ?thesis by blast
qed

section \<open>Properties\<close>



text \<open>
  C11: A limited stream is a file that consists of its window, whatever its client requests: reads stop at its end, a write
  that does not fit fills the window up to its end and fails, positions behind the end are refused; and no request
  changes an octet of the underlying stream before or behind the window. The window is a part of the underlying stream,
  its start and length are not \<open>nil\<close>, and the underlying stream is one that does nothing when it is told to write
  nothing, as the streams in memory.
\<close>

theorem limited_stream_window:
  assumes "window_parent ops view" "view s = Some (pre @ f @ suf, p, r)"
    and "length pre \<noteq> nil" "length f \<noteq> nil" "windowAll cs (f, 0) = (as, f', p')"
  shows "\<exists>w w' r'. LimitedStream_init ops s (length pre) (length f) = (Inr (), w) \<and>
     performAll (LimitedStream_ops ops) cs w = (as, w') \<and>
     view (ls_parent w') = Some (pre @ f' @ suf, length pre + p', r')"
  by (rule window_parent.limited_window [OF assms])

theorem limited_stream_window_witness:
  "\<exists>w w' r'. LimitedStream_init InternalStream_ops
       \<lparr>is_name = [], is_data = ''headBODYtail'', is_pos = 9, is_allowWrite = True\<rparr> (length ''head'') (length ''BODY'') = (Inr (), w) \<and>
     performAll (LimitedStream_ops InternalStream_ops) [Read 2, Write ''dyTAIL'', SetPos 5, GetSize] w =
       ([Octets ''BO'', Failed cannotWrite, Failed invalidOperation, Number 4], w') \<and>
     internal_view (ls_parent w') = Some (''head'' @ ''BOdy'' @ ''tail'', length ''head'' + 4, r')"
proof (rule limited_stream_window [OF internal_parent.window_parent_axioms])
  show "internal_view \<lparr>is_name = [], is_data = ''headBODYtail'', is_pos = 9, is_allowWrite = True\<rparr> =
      Some (''head'' @ ''BODY'' @ ''tail'', 9, 2 ^ 64 - 1)" by (simp add: internal_view_def)
  show "length ''head'' \<noteq> nil" "length ''BODY'' \<noteq> nil" by (simp_all add: nil_def)
  show "windowAll [Read 2, Write ''dyTAIL'', SetPos 5, GetSize] (''BODY'', 0) =
      ([Octets ''BO'', Failed cannotWrite, Failed invalidOperation, Number 4], ''BOdy'', 4)" by (simp add: overwrite_def numeral_2_eq_2)
qed

text \<open> Copying a stream into another one ends, and has copied everything from the position of the source
  to its end to the position of the destination, whatever sizes the reads and writes of the two streams
  have.
\<close>

theorem copyFrom_terminates:
  assumes "readable_stream other view'" "writable_stream ops view"
    and "view' t = Some (g, q, r')" "view s = Some (f, p, r)" "q < length g" "p + (length g - q) \<le> r"
  shows "\<exists>s' t'. copyAll ops other (s, t) = Some (Inr (), s', t') \<and>
     view s' = Some (poke f p (drop q g), p + (length g - q), r)"
  using copying.copyAll_copies [OF copying.intro [OF assms(1,2)] assms(3,4,6)] assms(5) by simp

theorem copyFrom_terminates_witness:
  "\<exists>s' t'. copyAll InternalStream_ops ConstMemoryStream_ops (InternalStream_init, MemoryStream_init ''hello'') =
       Some (Inr (), s', t') \<and>
     internal_view s' = Some (poke [] 0 (drop 0 ''hello''), 0 + (length ''hello'' - 0), 2 ^ 64 - 1)"
proof (rule copyFrom_terminates [OF const_memory.readable_stream_axioms internal.writable_stream_axioms])
  show "memory_view (MemoryStream_init ''hello'') = Some (''hello'', 0, 5)"
    by (simp add: memory_view_def MemoryStream_init_def)
  show "internal_view InternalStream_init = Some ([], 0, 2 ^ 64 - 1)"
    by (simp add: internal_view_def InternalStream_init_def)
qed simp_all

end
