(* ===== verification/Afl_Stream_Children.thy ===== *)
theory Afl_Stream_Children
  imports Afl_Stream_Buffer
begin

text \<open>
  Child streams (\<open>afl/io/multiplexablestream.cpp\<close>): several handles to one stream, each with a
  position of its own. A control node knows which child is active, that is, whose position the parent
  has at the moment; the others have their position stored. Children are numbered. The mutex is not
  modelled: the methods of children are atomic.
\<close>

section \<open>The control node\<close>

record 's control_node =
  cn_stream :: 's
  cn_alive :: bool
  cn_children :: "nat list"
  cn_active :: "nat option"
  cn_posIfInactive :: "nat \<Rightarrow> nat"

definition ControlNode_init :: "'s \<Rightarrow> 's control_node" where
  "ControlNode_init s =
     \<lparr>cn_stream = s, cn_alive = True, cn_children = [], cn_active = None, cn_posIfInactive = (\<lambda>_. 0)\<rparr>"

definition addChild :: "nat \<Rightarrow> 's control_node \<Rightarrow> 's control_node" where
  "addChild ch s = s\<lparr>cn_children := ch # cn_children s\<rparr>"

text \<open>A new child starts at position 0.\<close>

definition Child_init :: "nat \<Rightarrow> 's control_node \<Rightarrow> 's control_node" where
  "Child_init ch s = addChild ch (s\<lparr>cn_posIfInactive := (cn_posIfInactive s)(ch := 0)\<rparr>)"

definition removeChild :: "nat \<Rightarrow> 's control_node \<Rightarrow> 's control_node" where
  "removeChild ch s =
     s\<lparr>cn_children := remove1 ch (cn_children s),
       cn_active := (if cn_active s = Some ch then None else cn_active s)\<rparr>"

definition removeParent :: "'s control_node \<Rightarrow> 's control_node" where
  "removeParent s = s\<lparr>cn_alive := False, cn_active := None\<rparr>"

abbreviation master :: "('s, 'a) action \<Rightarrow> ('s control_node, 'a) action" where
  "master \<equiv> zoom cn_stream (\<lambda>p. cn_stream_update (\<lambda>_. p))"

definition deactivate :: "'s stream_ops \<Rightarrow> ('s control_node, unit) action" where
  "deactivate ops = (\<lambda>s.
     case cn_active s of
       None \<Rightarrow> (Inr (), s)
     | Some a \<Rightarrow>
         bind (master (s_getPos ops))
           (\<lambda>p. modify (\<lambda>s. s\<lparr>cn_posIfInactive := (cn_posIfInactive s)(a := p), cn_active := None\<rparr>)) s)"

text \<open>The result says whether there still is a parent to work on.\<close>

definition activateChild :: "'s stream_ops \<Rightarrow> nat \<Rightarrow> bool \<Rightarrow> ('s control_node, bool) action" where
  "activateChild ops ch wantSetPos = (\<lambda>s.
     if cn_alive s
     then if cn_active s \<noteq> Some ch
          then bind (deactivate ops)
                 (\<lambda>_. bind (\<lambda>s. if \<not> wantSetPos then master (s_setPos ops (cn_posIfInactive s ch)) s else (Inr (), s))
                    (\<lambda>_. bind (modify (\<lambda>s. s\<lparr>cn_active := Some ch\<rparr>)) (\<lambda>_. ret True))) s
          else (Inr True, s)
     else (Inr False, s))"

definition Child_read :: "'s stream_ops \<Rightarrow> nat \<Rightarrow> nat \<Rightarrow> ('s control_node, octet list) action" where
  "Child_read ops ch n = bind (activateChild ops ch False) (\<lambda>w. if w then master (s_read ops n) else ret [])"

definition Child_write :: "'s stream_ops \<Rightarrow> nat \<Rightarrow> octet list \<Rightarrow> ('s control_node, nat) action" where
  "Child_write ops ch m = bind (activateChild ops ch False) (\<lambda>w. if w then master (s_write ops m) else ret 0)"

definition Child_flush :: "'s stream_ops \<Rightarrow> ('s control_node, unit) action" where
  "Child_flush ops = (\<lambda>s. if cn_alive s then master (s_flush ops) s else (Inr (), s))"

definition Child_setPos :: "'s stream_ops \<Rightarrow> nat \<Rightarrow> nat \<Rightarrow> ('s control_node, unit) action" where
  "Child_setPos ops ch p = bind (activateChild ops ch True) (\<lambda>w. if w then master (s_setPos ops p) else ret ())"

definition Child_getPos :: "'s stream_ops \<Rightarrow> nat \<Rightarrow> ('s control_node, nat) action" where
  "Child_getPos ops ch = bind (activateChild ops ch False) (\<lambda>w. if w then master (s_getPos ops) else ret 0)"

definition Child_getSize :: "'s stream_ops \<Rightarrow> ('s control_node, nat) action" where
  "Child_getSize ops = (\<lambda>s. if cn_alive s then master (s_getSize ops) s else (Inr 0, s))"

definition Child_getCapabilities :: "'s stream_ops \<Rightarrow> ('s control_node, capability set) action" where
  "Child_getCapabilities ops = (\<lambda>s. if cn_alive s then master (s_getCapabilities ops) s else (Inr {}, s))"

definition Child_ops :: "'s stream_ops \<Rightarrow> nat \<Rightarrow> 's control_node stream_ops" where
  "Child_ops ops ch =
     \<lparr>s_read = Child_read ops ch, s_write = Child_write ops ch, s_flush = Child_flush ops,
      s_setPos = Child_setPos ops ch, s_getPos = Child_getPos ops ch, s_getSize = Child_getSize ops,
      s_getCapabilities = Child_getCapabilities ops\<rparr>"

section \<open>What the children see\<close>

definition childPos :: "nat \<Rightarrow> 's control_node \<Rightarrow> nat \<Rightarrow> nat" where
  "childPos p s ch = (if cn_active s = Some ch then p else cn_posIfInactive s ch)"

text \<open>One file, and for each child a position.\<close>

definition node_view ::
  "('s \<Rightarrow> (octet list \<times> nat \<times> nat) option) \<Rightarrow> 's control_node \<Rightarrow> (octet list \<times> (nat \<Rightarrow> nat) \<times> nat) option" where
  "node_view view s =
     (case view (cn_stream s) of
        None \<Rightarrow> None
      | Some (f, p, r) \<Rightarrow> if cn_alive s then Some (f, childPos p s, r) else None)"

lemma node_viewE:
  assumes "node_view view s = Some (f, P, r)"
  obtains p where "view (cn_stream s) = Some (f, p, r)" "cn_alive s" "P = childPos p s"
  using assms by (auto simp: node_view_def split: option.splits if_splits)

lemma node_viewI: "view (cn_stream s) = Some (f, p, r) \<Longrightarrow> cn_alive s \<Longrightarrow> node_view view s = Some (f, childPos p s, r)"
  by (simp add: node_view_def)

lemma childPos_stream [simp]: "childPos p (s\<lparr>cn_stream := t\<rparr>) = childPos p s"
  by (simp add: childPos_def fun_eq_iff)

lemma childPos_active: "cn_active s = Some ch \<Longrightarrow> childPos p' s = (childPos p s)(ch := p')"
  by (auto simp: childPos_def fun_eq_iff)

context readable_stream
begin

lemma deactivate_view:
  assumes "node_view view s = Some (f, P, r)"
  shows "\<exists>s' p. deactivate ops s = (Inr (), s') \<and> view (cn_stream s') = Some (f, p, r) \<and> cn_alive s' \<and>
     cn_active s' = None \<and> cn_posIfInactive s' = P"
proof -
  obtain p where p: "view (cn_stream s) = Some (f, p, r)" "cn_alive s" "P = childPos p s" using assms by (rule node_viewE)
  then show ?thesis using getPos_law [OF p(1)]
    by (cases "cn_active s") (auto simp: deactivate_def bind_def zoom_def childPos_def fun_eq_iff)
qed

lemma activate_view:
  assumes v: "node_view view s = Some (f, P, r)" and "P ch \<le> r"
  shows "\<exists>s'. activateChild ops ch False s = (Inr True, s') \<and> node_view view s' = Some (f, P, r) \<and> cn_active s' = Some ch"
proof (cases "cn_active s = Some ch")
  case True
  then show ?thesis using v by (auto simp: activateChild_def elim: node_viewE)
next
  case False
  obtain s1 p where s1: "deactivate ops s = (Inr (), s1)" "view (cn_stream s1) = Some (f, p, r)" "cn_alive s1"
    "cn_active s1 = None" "cn_posIfInactive s1 = P" using deactivate_view [OF v] by blast
  obtain t where t: "s_setPos ops (P ch) (cn_stream s1) = (Inr (), t)" "view t = Some (f, P ch, r)"
    using setPos_law [OF s1(2) assms(2)] by blast
  define s' where "s' = s1\<lparr>cn_stream := t, cn_active := Some ch\<rparr>"
  have "cn_alive s" using v by (rule node_viewE)
  then have "activateChild ops ch False s = (Inr True, s')"
    using False s1(1,5) t(1) by (simp add: activateChild_def bind_def zoom_def s'_def)
  moreover have "childPos (P ch) s' = P" using s1(5) by (auto simp: childPos_def s'_def fun_eq_iff)
  then have "node_view view s' = Some (f, P, r)"
    using node_viewI [of view s' f "P ch" r] t(2) s1(3) by (simp add: s'_def)
  ultimately show ?thesis by (auto simp: s'_def)
qed

text \<open>For a change of the position it does not matter where the parent is.\<close>

lemma activate_for_setPos:
  assumes v: "node_view view s = Some (f, P, r)"
  shows "\<exists>s' p. activateChild ops ch True s = (Inr True, s') \<and> view (cn_stream s') = Some (f, p, r) \<and> cn_alive s' \<and>
     cn_active s' = Some ch \<and> (\<forall>c. c \<noteq> ch \<longrightarrow> cn_posIfInactive s' c = P c)"
proof (cases "cn_active s = Some ch")
  case True
  with v show ?thesis by (auto simp: activateChild_def childPos_def elim!: node_viewE)
next
  case False
  obtain s1 p where s1: "deactivate ops s = (Inr (), s1)" "view (cn_stream s1) = Some (f, p, r)" "cn_alive s1"
    "cn_active s1 = None" "cn_posIfInactive s1 = P" using deactivate_view [OF v] by blast
  have "cn_alive s" using v by (rule node_viewE)
  then show ?thesis using False s1 by (simp add: activateChild_def bind_def)
qed

lemma child_setPos:
  assumes v: "node_view view s = Some (f, P, r)" and "q \<le> r"
  shows "\<exists>s'. Child_setPos ops ch q s = (Inr (), s') \<and> node_view view s' = Some (f, P(ch := q), r)"
proof -
  obtain s1 p where s1: "activateChild ops ch True s = (Inr True, s1)" "view (cn_stream s1) = Some (f, p, r)" "cn_alive s1"
    "cn_active s1 = Some ch" "\<forall>c. c \<noteq> ch \<longrightarrow> cn_posIfInactive s1 c = P c" using activate_for_setPos [OF v] by blast
  obtain t where t: "s_setPos ops q (cn_stream s1) = (Inr (), t)" "view t = Some (f, q, r)"
    using setPos_law [OF s1(2) assms(2)] by blast
  have "Child_setPos ops ch q s = (Inr (), s1\<lparr>cn_stream := t\<rparr>)"
    using s1(1) t(1) by (simp add: Child_setPos_def bind_def zoom_def)
  moreover have "childPos q s1 = P(ch := q)" using s1(4,5) by (auto simp: childPos_def fun_eq_iff)
  ultimately show ?thesis using node_viewI [of view "s1\<lparr>cn_stream := t\<rparr>" f q r] t(2) s1(3) by simp
qed

text \<open>An operation that works at the position of the active child moves only that child.\<close>

lemma active_view:
  assumes "node_view view s = Some (f, P, r)" "cn_active s = Some ch"
  shows "view (cn_stream s) = Some (f, P ch, r)"
  using assms by (auto simp: childPos_def elim!: node_viewE)

lemma active_moves:
  assumes "node_view view s = Some (f, P, r)" "cn_active s = Some ch" "view t = Some (f', p', r)"
  shows "node_view view (s\<lparr>cn_stream := t\<rparr>) = Some (f', P(ch := p'), r)"
proof -
  obtain p where p: "view (cn_stream s) = Some (f, p, r)" "cn_alive s" "P = childPos p s" using assms(1) by (rule node_viewE)
  then show ?thesis
    using node_viewI [of view "s\<lparr>cn_stream := t\<rparr>" f' p' r] assms(3) childPos_active [OF assms(2), of p' p] by simp
qed

lemma child_read:
  assumes v: "node_view view s = Some (f, P, r)" and "P ch \<le> r"
  shows "\<exists>d s'. Child_read ops ch n s = (Inr d, s') \<and> node_view view s' = Some (f, P(ch := P ch + length d), r) \<and>
     d = take (length d) (drop (P ch) f) \<and> length d \<le> n \<and> (d = [] \<longrightarrow> n = 0 \<or> length f \<le> P ch)"
proof -
  obtain s1 where s1: "activateChild ops ch False s = (Inr True, s1)" "node_view view s1 = Some (f, P, r)" "cn_active s1 = Some ch"
    using activate_view [OF assms] by blast
  have "view (cn_stream s1) = Some (f, P ch, r)" using active_view [OF s1(2,3)] .
  from read_law [OF this, of n] obtain d t where d: "s_read ops n (cn_stream s1) = (Inr d, t)" "view t = Some (f, P ch + length d, r)"
    "d = take (length d) (drop (P ch) f)" "length d \<le> n" "d = [] \<longrightarrow> n = 0 \<or> length f \<le> P ch" by blast
  have "Child_read ops ch n s = (Inr d, s1\<lparr>cn_stream := t\<rparr>)"
    using s1(1) d(1) by (simp add: Child_read_def bind_def zoom_def)
  then show ?thesis using active_moves [OF s1(2,3) d(2)] d by blast
qed

end

section \<open>A child keeps the contract and leaves the others alone\<close>

text \<open>What child \<open>ch\<close> sees, as long as the other children are at the positions \<open>Q\<close>.\<close>

definition child_view ::
  "('s \<Rightarrow> (octet list \<times> nat \<times> nat) option) \<Rightarrow> (nat \<Rightarrow> nat) \<Rightarrow> nat \<Rightarrow> 's control_node \<Rightarrow> (octet list \<times> nat \<times> nat) option" where
  "child_view view Q ch s =
     (case node_view view s of
        None \<Rightarrow> None
      | Some (f, P, r) \<Rightarrow> if Q(ch := P ch) = P \<and> P ch \<le> r then Some (f, P ch, r) else None)"

lemma child_viewE:
  assumes "child_view view Q ch s = Some (f, p, r)"
  obtains "node_view view s = Some (f, Q(ch := p), r)" "p \<le> r"
  using assms by (auto simp: child_view_def split: option.splits if_splits)

lemma child_viewI: "node_view view s = Some (f, Q(ch := p), r) \<Longrightarrow> p \<le> r \<Longrightarrow> child_view view Q ch s = Some (f, p, r)"
  by (simp add: child_view_def)

context readable_stream
begin

lemma child_readable: "readable_stream (Child_ops ops ch) (child_view view Q ch)"
proof
  fix s f p r n q
  assume c: "child_view view Q ch s = Some (f, p, r)"
  then have v: "node_view view s = Some (f, Q(ch := p), r)" "p \<le> r" by (auto elim: child_viewE)
  obtain p0 where p0: "view (cn_stream s) = Some (f, p0, r)" "cn_alive s" "Q(ch := p) = childPos p0 s"
    using v(1) by (rule node_viewE)
  show bounds: "p \<le> r \<and> length f \<le> r \<and> r < 2 ^ 64" using v(2) view_bounds [OF p0(1)] by blast
  obtain d s' where d: "Child_read ops ch n s = (Inr d, s')" "node_view view s' = Some (f, Q(ch := p + length d), r)"
    "d = take (length d) (drop p f)" "length d \<le> n" "d = [] \<longrightarrow> n = 0 \<or> length f \<le> p"
    using child_read [OF v(1), of ch n] v(2) by auto
  have "length d \<le> length f - p" using d(3) by (metis length_take length_drop min.cobounded1)
  then have "p + length d \<le> r" using bounds by (cases "d = []") auto
  with d show "\<exists>d s'. s_read (Child_ops ops ch) n s = (Inr d, s') \<and> child_view view Q ch s' = Some (f, p + length d, r) \<and>
      d = take (length d) (drop p f) \<and> length d \<le> n \<and> (d = [] \<longrightarrow> n = 0 \<or> length f \<le> p)"
    by (auto simp: Child_ops_def intro: child_viewI)
  show "\<exists>s'. s_setPos (Child_ops ops ch) q s = (Inr (), s') \<and> child_view view Q ch s' = Some (f, q, r)" if "q \<le> r"
    using child_setPos [OF v(1) that, of ch] that by (auto simp: Child_ops_def intro: child_viewI)
  obtain s1 where s1: "activateChild ops ch False s = (Inr True, s1)" "node_view view s1 = Some (f, Q(ch := p), r)" "cn_active s1 = Some ch"
    using activate_view [OF v(1), of ch] v(2) by auto
  have a: "view (cn_stream s1) = Some (f, p, r)" using active_view [OF s1(2,3)] by simp
  obtain t where t: "s_getPos ops (cn_stream s1) = (Inr p, t)" "view t = Some (f, p, r)" using getPos_law [OF a] by blast
  have "Child_getPos ops ch s = (Inr p, s1\<lparr>cn_stream := t\<rparr>)" using s1(1) t(1) by (simp add: Child_getPos_def bind_def zoom_def)
  then show "\<exists>s'. s_getPos (Child_ops ops ch) s = (Inr p, s') \<and> child_view view Q ch s' = Some (f, p, r)"
    using active_moves [OF s1(2,3) t(2)] v(2) by (auto simp: Child_ops_def intro: child_viewI)
  obtain t where t: "s_getSize ops (cn_stream s) = (Inr (length f), t)" "view t = Some (f, p0, r)" using getSize_law [OF p0(1)] by blast
  then show "\<exists>s'. s_getSize (Child_ops ops ch) s = (Inr (length f), s') \<and> child_view view Q ch s' = Some (f, p, r)"
    using p0 v node_viewI [of view "s\<lparr>cn_stream := t\<rparr>" f p0 r]
    by (auto simp: Child_ops_def Child_getSize_def zoom_def intro: child_viewI)
qed

end

context writable_stream
begin

lemma child_writable: "writable_stream (Child_ops ops ch) (child_view view Q ch)"
proof (intro writable_stream.intro child_readable writable_stream_axioms.intro)
  fix s f p r and m :: "octet list"
  assume c: "child_view view Q ch s = Some (f, p, r)"
  then have v: "node_view view s = Some (f, Q(ch := p), r)" "p \<le> r" by (auto elim: child_viewE)
  obtain p0 where p0: "view (cn_stream s) = Some (f, p0, r)" "cn_alive s" "Q(ch := p) = childPos p0 s"
    using v(1) by (rule node_viewE)
  have same: "child_view view Q ch (s\<lparr>cn_stream := t\<rparr>) = Some (f, p, r)" if "view t = Some (f, p0, r)" for t
    using p0 v(2) that node_viewI [of view "s\<lparr>cn_stream := t\<rparr>" f p0 r] by (auto intro: child_viewI)
  show "\<exists>s'. s_flush (Child_ops ops ch) s = (Inr (), s') \<and> child_view view Q ch s' = Some (f, p, r)"
    using flush_law [OF p0(1)] same p0(2) by (auto simp: Child_ops_def Child_flush_def zoom_def)
  show "\<exists>c s'. s_getCapabilities (Child_ops ops ch) s = (Inr c, s') \<and> CanWrite \<in> c \<and> child_view view Q ch s' = Some (f, p, r)"
    using capabilities_law [OF p0(1)] same p0(2) by (auto simp: Child_ops_def Child_getCapabilities_def zoom_def)
  assume m: "m \<noteq> []" "p + length m \<le> r"
  obtain s1 where s1: "activateChild ops ch False s = (Inr True, s1)" "node_view view s1 = Some (f, Q(ch := p), r)" "cn_active s1 = Some ch"
    using activate_view [OF v(1), of ch] v(2) by auto
  have a: "view (cn_stream s1) = Some (f, p, r)" using active_view [OF s1(2,3)] by simp
  obtain k t where k: "s_write ops m (cn_stream s1) = (Inr k, t)" "0 < k" "k \<le> length m"
    "view t = Some (poke f p (take k m), p + k, r)" using write_law [OF a m] by blast
  have "Child_write ops ch m s = (Inr k, s1\<lparr>cn_stream := t\<rparr>)" using s1(1) k(1) by (simp add: Child_write_def bind_def zoom_def)
  moreover have "node_view view (s1\<lparr>cn_stream := t\<rparr>) = Some (poke f p (take k m), Q(ch := p + k), r)"
    using active_moves [OF s1(2,3) k(4)] by simp
  ultimately show "\<exists>k s'. s_write (Child_ops ops ch) m s = (Inr k, s') \<and> 0 < k \<and> k \<le> length m \<and>
      child_view view Q ch s' = Some (poke f p (take k m), p + k, r)"
    using k m by (auto simp: Child_ops_def intro!: child_viewI)
qed

end

interpretation internal_child: writable_stream "Child_ops InternalStream_ops ch" "child_view internal_view Q ch"
  for ch Q
  by (rule internal.child_writable)

section \<open>Requests of several children\<close>

fun performChildren :: "'s stream_ops \<Rightarrow> (nat \<times> request) list \<Rightarrow> 's control_node \<Rightarrow> answer list \<times> 's control_node" where
  "performChildren ops [] s = ([], s)"
| "performChildren ops ((ch, c) # cs) s =
     (case perform (Child_ops ops ch) c s of (a, s) \<Rightarrow>
        case performChildren ops cs s of (as, s) \<Rightarrow> (a # as, s))"

fun expectedChildren ::
  "nat \<Rightarrow> (nat \<times> request) list \<Rightarrow> octet list \<times> (nat \<Rightarrow> nat) \<Rightarrow> (answer list \<times> octet list \<times> (nat \<Rightarrow> nat)) option" where
  "expectedChildren r [] x = Some ([], x)"
| "expectedChildren r ((ch, c) # cs) (f, P) =
     (case expected r c (f, P ch) of
        None \<Rightarrow> None
      | Some (a, f, p) \<Rightarrow>
          (case expectedChildren r cs (f, P(ch := p)) of None \<Rightarrow> None | Some (as, x) \<Rightarrow> Some (a # as, x)))"

context writable_stream
begin

lemma performChildren_expected:
  "node_view view s = Some (f, P, r) \<Longrightarrow> \<forall>ch. P ch \<le> r \<Longrightarrow> expectedChildren r cs (f, P) = Some (as, f', P') \<Longrightarrow>
   \<exists>s'. performChildren ops cs s = (as, s') \<and> node_view view s' = Some (f', P', r)"
proof (induction cs arbitrary: s f P as)
  case (Cons rc cs)
  obtain ch c where rc: "rc = (ch, c)" by (cases rc)
  from Cons.prems(3) rc obtain a f1 p1 as1 where a: "expected r c (f, P ch) = Some (a, f1, p1)"
    "expectedChildren r cs (f1, P(ch := p1)) = Some (as1, f', P')" "as = a # as1"
    by (auto split: option.splits)
  have "child_view view P ch s = Some (f, P ch, r)" using Cons.prems(1,2) by (intro child_viewI) simp_all
  from writable_stream.perform_expected [OF child_writable this a(1)] obtain s1 where
    s1: "perform (Child_ops ops ch) c s = (a, s1)" "child_view view P ch s1 = Some (f1, p1, r)" by blast
  from s1(2) have n: "node_view view s1 = Some (f1, P(ch := p1), r)" "p1 \<le> r" by (auto elim: child_viewE)
  then have "\<forall>c. (P(ch := p1)) c \<le> r" using Cons.prems(2) by simp
  from Cons.IH [OF n(1) this a(2)] show ?case using rc s1(1) a(3) by auto
qed simp

end

section \<open>Properties\<close>



end
