(* ===== verification/Afl_Bits.thy ===== *)
theory Afl_Bits
  imports Afl_Memory "HOL-Library.Word"
begin

text \<open>
  Bits and packed integers (\<open>afl/bits\<close>): rotation, logarithm, reversal and population count on machine
  words, small sets in a word, and the descriptors that convert integers to and from octets in a given
  order, with the functions that convert arrays. The contract of a descriptor is the locale \<open>packing\<close>.
\<close>

unbundle bit_operations_syntax

section \<open>Rotation\<close>

text \<open>The amount is an \<open>int\<close>; \<open>c & 31\<close> is its remainder modulo 32, also for negative amounts.\<close>

definition rotateLeft8 :: "8 word \<Rightarrow> int \<Rightarrow> 8 word" where
  "rotateLeft8 a c = (let c = nat (c mod 8) in push_bit c a OR drop_bit (8 - c) a)"

definition rotateRight8 :: "8 word \<Rightarrow> int \<Rightarrow> 8 word" where
  "rotateRight8 a c = rotateLeft8 a (8 - c)"

definition rotateLeft16 :: "16 word \<Rightarrow> int \<Rightarrow> 16 word" where
  "rotateLeft16 a c = (let c = nat (c mod 16) in if c \<noteq> 0 then push_bit c a OR drop_bit (16 - c) a else a)"

definition rotateRight16 :: "16 word \<Rightarrow> int \<Rightarrow> 16 word" where
  "rotateRight16 a c = rotateLeft16 a (16 - c)"

definition rotateLeft32 :: "32 word \<Rightarrow> int \<Rightarrow> 32 word" where
  "rotateLeft32 a c = (let c = nat (c mod 32) in if c \<noteq> 0 then push_bit c a OR drop_bit (32 - c) a else a)"

definition rotateRight32 :: "32 word \<Rightarrow> int \<Rightarrow> 32 word" where
  "rotateRight32 a c = (let c = nat (c mod 32) in if c \<noteq> 0 then push_bit (32 - c) a OR drop_bit c a else a)"

definition rotateLeft64 :: "64 word \<Rightarrow> int \<Rightarrow> 64 word" where
  "rotateLeft64 a c = (let c = nat (c mod 64) in if c \<noteq> 0 then push_bit c a OR drop_bit (64 - c) a else a)"

definition rotateRight64 :: "64 word \<Rightarrow> int \<Rightarrow> 64 word" where
  "rotateRight64 a c = (let c = nat (c mod 64) in if c \<noteq> 0 then push_bit (64 - c) a OR drop_bit c a else a)"

section \<open>Bit operations\<close>

definition isPowerOfTwo :: "'w::len word \<Rightarrow> bool" where
  "isPowerOfTwo i \<longleftrightarrow> i AND (i - 1) = 0"

fun bitLogLoop :: "nat list \<Rightarrow> 'w::len word \<Rightarrow> nat \<Rightarrow> nat" where
  "bitLogLoop [] v result = result"
| "bitLogLoop (bitNr # bs) v result =
     (if drop_bit bitNr v \<noteq> 0 then bitLogLoop bs (drop_bit bitNr v) (result + bitNr) else bitLogLoop bs v result)"

definition bitLog32 :: "32 word \<Rightarrow> int" where
  "bitLog32 v = (if v = 0 then -1 else int (bitLogLoop [16, 8, 4, 2, 1] v 0))"

definition bitLog64 :: "64 word \<Rightarrow> int" where
  "bitLog64 v = (if v = 0 then -1 else int (bitLogLoop [32, 16, 8, 4, 2, 1] v 0))"

definition bitReverseTable :: "8 word list" where
  "bitReverseTable = [0, 8, 4, 12, 2, 10, 6, 14, 1, 9, 5, 13, 3, 11, 7, 15]"

definition bitReverse8 :: "8 word \<Rightarrow> 8 word" where
  "bitReverse8 a =
     push_bit 4 (bitReverseTable ! unat (a AND 15)) OR bitReverseTable ! unat (drop_bit 4 a AND 15)"

definition bitReverse16 :: "16 word \<Rightarrow> 16 word" where
  "bitReverse16 a = ucast (bitReverse8 (ucast (drop_bit 8 a))) OR push_bit 8 (ucast (bitReverse8 (ucast (a AND 255))))"

definition bitReverse32 :: "32 word \<Rightarrow> 32 word" where
  "bitReverse32 a =
     ucast (bitReverse16 (ucast (drop_bit 16 a))) OR push_bit 16 (ucast (bitReverse16 (ucast (a AND 65535))))"

definition bitReverse64 :: "64 word \<Rightarrow> 64 word" where
  "bitReverse64 a =
     ucast (bitReverse32 (ucast (drop_bit 32 a))) OR push_bit 32 (ucast (bitReverse32 (ucast (a AND 0xFFFFFFFF))))"

lemma unat_pred_less: "v \<noteq> 0 \<Longrightarrow> unat (v - 1) < unat (v :: 'w::len word)"
  by (simp add: unat_minus_one unat_gt_0 flip: word_neq_0_conv)

text \<open>The loop of \<open>bitPop32\<close> and \<open>bitPop64\<close> clears the lowest bit in each round.\<close>

function bitPopLoop :: "'w::len word \<Rightarrow> nat \<Rightarrow> nat" where
  "bitPopLoop v result = (if v \<noteq> 0 then bitPopLoop (v AND (v - 1)) (result + 1) else result)"
  by pat_completeness auto

termination
proof (relation "measure (\<lambda>(v, result). unat v)")
  fix v :: "'w::len word" and result :: nat
  assume "v \<noteq> 0"
  have "unat (v AND (v - 1)) \<le> unat (v - 1)" using word_and_le1 by (simp only: flip: word_le_nat_alt)
  also have "\<dots> < unat v" using \<open>v \<noteq> 0\<close> by (rule unat_pred_less)
  finally show "((v AND (v - 1), result + 1), v, result) \<in> measure (\<lambda>(v, result). unat v)" by simp
qed simp

declare bitPopLoop.simps [simp del]

definition bitPop32 :: "32 word \<Rightarrow> nat" where "bitPop32 v = bitPopLoop v 0"
definition bitPop64 :: "64 word \<Rightarrow> nat" where "bitPop64 v = bitPopLoop v 0"
definition bitPop16 :: "16 word \<Rightarrow> nat" where "bitPop16 v = bitPop32 (ucast v)"
definition bitPop8 :: "8 word \<Rightarrow> nat" where "bitPop8 v = bitPop32 (ucast v)"

section \<open>Small sets\<close>

text \<open>The set is its representation, a word; elements are the numbers of bits.\<close>

definition SmallSet_unit :: "nat \<Rightarrow> 'w::len word" where "SmallSet_unit t = push_bit t 1"
definition SmallSet_add :: "nat \<Rightarrow> 'w::len word \<Rightarrow> 'w word" where "SmallSet_add t s = s OR push_bit t 1"
definition SmallSet_union :: "'w::len word \<Rightarrow> 'w word \<Rightarrow> 'w word" where "SmallSet_union s other = s OR other"
definition SmallSet_remove :: "nat \<Rightarrow> 'w::len word \<Rightarrow> 'w word" where "SmallSet_remove t s = s AND NOT (push_bit t 1)"
definition SmallSet_minus :: "'w::len word \<Rightarrow> 'w word \<Rightarrow> 'w word" where "SmallSet_minus s other = s AND NOT other"
definition SmallSet_inter :: "'w::len word \<Rightarrow> 'w word \<Rightarrow> 'w word" where "SmallSet_inter s other = s AND other"
definition SmallSet_toggle :: "nat \<Rightarrow> 'w::len word \<Rightarrow> 'w word" where "SmallSet_toggle t s = s XOR push_bit t 1"
definition SmallSet_xor :: "'w::len word \<Rightarrow> 'w word \<Rightarrow> 'w word" where "SmallSet_xor s other = s XOR other"
definition SmallSet_contains :: "nat \<Rightarrow> 'w::len word \<Rightarrow> bool" where
  "SmallSet_contains t s \<longleftrightarrow> s AND push_bit t 1 \<noteq> 0"
definition SmallSet_containsAll :: "'w::len word \<Rightarrow> 'w word \<Rightarrow> bool" where
  "SmallSet_containsAll s other \<longleftrightarrow> other AND NOT s = 0"
definition SmallSet_containsAnyOf :: "'w::len word \<Rightarrow> 'w word \<Rightarrow> bool" where
  "SmallSet_containsAnyOf s other \<longleftrightarrow> s AND other \<noteq> 0"
definition SmallSet_isUnitSet :: "'w::len word \<Rightarrow> bool" where
  "SmallSet_isUnitSet s \<longleftrightarrow> s AND (s - 1) = 0"
definition SmallSet_allUpTo :: "nat \<Rightarrow> 'w::len word" where
  "SmallSet_allUpTo t = push_bit 1 (push_bit t 1 - 1) + 1"
definition SmallSet_set :: "nat \<Rightarrow> bool \<Rightarrow> 'w::len word \<Rightarrow> 'w word" where
  "SmallSet_set t flag s = (if flag then SmallSet_add t s else SmallSet_remove t s)"

partial_function (option) SmallSet_takeLoop ::
    "'w::len word \<Rightarrow> nat \<Rightarrow> 'w word \<Rightarrow> 'w word \<Rightarrow> ('w word \<times> 'w word) option" where
  "SmallSet_takeLoop m_rep n maskBit result =
     (if m_rep \<noteq> 0 \<and> n \<noteq> 0
      then if m_rep AND maskBit \<noteq> 0
           then SmallSet_takeLoop (m_rep AND NOT maskBit) (n - 1) (push_bit 1 maskBit) (result OR maskBit)
           else SmallSet_takeLoop m_rep n (push_bit 1 maskBit) result
      else Some (result, m_rep))"

text \<open>The elements taken, and the set that remains.\<close>

definition SmallSet_take :: "nat \<Rightarrow> 'w::len word \<Rightarrow> ('w word \<times> 'w word) option" where
  "SmallSet_take n s = SmallSet_takeLoop s n 1 0"

definition SmallSet_size :: "32 word \<Rightarrow> nat" where "SmallSet_size s = bitPop32 s"

section \<open>Packed integers\<close>

definition widen :: "octet \<Rightarrow> 'w::len word" where "widen c = of_nat (of_char c)"

definition narrow :: "'w::len word \<Rightarrow> octet" where "narrow w = char_of (unat w)"

definition UInt8_unpack :: "octet list \<Rightarrow> 8 word" where "UInt8_unpack bytes = widen (bytes ! 0)"

definition UInt8_pack :: "8 word \<Rightarrow> octet list" where "UInt8_pack w = [narrow w]"

definition UInt16LE_unpack :: "octet list \<Rightarrow> 16 word" where
  "UInt16LE_unpack bytes =
     256 * widen (bytes ! 1) + widen (bytes ! 0)"

definition UInt16LE_pack :: "16 word \<Rightarrow> octet list" where
  "UInt16LE_pack w =
     [narrow (w AND 255), narrow (drop_bit 8 w AND 255)]"

definition UInt16BE_unpack :: "octet list \<Rightarrow> 16 word" where
  "UInt16BE_unpack bytes =
     256 * widen (bytes ! 0) + widen (bytes ! 1)"

definition UInt16BE_pack :: "16 word \<Rightarrow> octet list" where
  "UInt16BE_pack w =
     [narrow (drop_bit 8 w AND 255), narrow (w AND 255)]"

definition UInt32LE_unpack :: "octet list \<Rightarrow> 32 word" where
  "UInt32LE_unpack bytes =
     widen (bytes ! 0) + push_bit 8 (widen (bytes ! 1)) + push_bit 16 (widen (bytes ! 2)) + push_bit 24
     (widen (bytes ! 3))"

definition UInt32LE_pack :: "32 word \<Rightarrow> octet list" where
  "UInt32LE_pack w =
     [narrow (w AND 255), narrow (drop_bit 8 w AND 255), narrow (drop_bit 16 w AND 255), narrow (drop_bit
     24 w AND 255)]"

definition UInt32BE_unpack :: "octet list \<Rightarrow> 32 word" where
  "UInt32BE_unpack bytes =
     widen (bytes ! 3) + push_bit 8 (widen (bytes ! 2)) + push_bit 16 (widen (bytes ! 1)) + push_bit 24
     (widen (bytes ! 0))"

definition UInt32BE_pack :: "32 word \<Rightarrow> octet list" where
  "UInt32BE_pack w =
     [narrow (drop_bit 24 w AND 255), narrow (drop_bit 16 w AND 255), narrow (drop_bit 8 w AND 255),
     narrow (w AND 255)]"

definition UInt64LE_unpack :: "octet list \<Rightarrow> 64 word" where
  "UInt64LE_unpack bytes =
     widen (bytes ! 0) + push_bit 8 (widen (bytes ! 1)) + push_bit 16 (widen (bytes ! 2)) + push_bit 24
     (widen (bytes ! 3)) + push_bit 32 (widen (bytes ! 4)) + push_bit 40 (widen (bytes ! 5)) + push_bit
     48 (widen (bytes ! 6)) + push_bit 56 (widen (bytes ! 7))"

definition UInt64LE_pack :: "64 word \<Rightarrow> octet list" where
  "UInt64LE_pack w =
     [narrow (w AND 255), narrow (drop_bit 8 w AND 255), narrow (drop_bit 16 w AND 255), narrow (drop_bit
     24 w AND 255), narrow (drop_bit 32 w AND 255), narrow (drop_bit 40 w AND 255), narrow (drop_bit 48 w
     AND 255), narrow (drop_bit 56 w AND 255)]"

definition UInt64BE_unpack :: "octet list \<Rightarrow> 64 word" where
  "UInt64BE_unpack bytes =
     widen (bytes ! 7) + push_bit 8 (widen (bytes ! 6)) + push_bit 16 (widen (bytes ! 5)) + push_bit 24
     (widen (bytes ! 4)) + push_bit 32 (widen (bytes ! 3)) + push_bit 40 (widen (bytes ! 2)) + push_bit
     48 (widen (bytes ! 1)) + push_bit 56 (widen (bytes ! 0))"

definition UInt64BE_pack :: "64 word \<Rightarrow> octet list" where
  "UInt64BE_pack w =
     [narrow (drop_bit 56 w AND 255), narrow (drop_bit 48 w AND 255), narrow (drop_bit 40 w AND 255),
     narrow (drop_bit 32 w AND 255), narrow (drop_bit 24 w AND 255), narrow (drop_bit 16 w AND 255),
     narrow (drop_bit 8 w AND 255), narrow (w AND 255)]"

text \<open>
  The signed types. Conversion of a word with the sign bit to a signed integer has the value modulo
  the range of the type, as compilers define it.
\<close>

definition signedOf :: "'w::len word \<Rightarrow> 'w word \<Rightarrow> int" where
  "signedOf sign tmp = (if tmp AND sign \<noteq> 0 then sint (- (NOT tmp) - 1) else sint tmp)"

definition Int8_unpack :: "octet list \<Rightarrow> int" where "Int8_unpack bytes = signedOf 0x80 (UInt8_unpack bytes)"
definition Int8_pack :: "int \<Rightarrow> octet list" where "Int8_pack v = UInt8_pack (word_of_int v)"

definition Int16LE_unpack :: "octet list \<Rightarrow> int" where
  "Int16LE_unpack bytes = signedOf 0x8000 (UInt16LE_unpack bytes)"
definition Int16LE_pack :: "int \<Rightarrow> octet list" where "Int16LE_pack v = UInt16LE_pack (word_of_int v)"

definition Int16BE_unpack :: "octet list \<Rightarrow> int" where
  "Int16BE_unpack bytes = signedOf 0x8000 (UInt16BE_unpack bytes)"
definition Int16BE_pack :: "int \<Rightarrow> octet list" where "Int16BE_pack v = UInt16BE_pack (word_of_int v)"

definition Int32LE_unpack :: "octet list \<Rightarrow> int" where
  "Int32LE_unpack bytes = signedOf 0x80000000 (UInt32LE_unpack bytes)"
definition Int32LE_pack :: "int \<Rightarrow> octet list" where "Int32LE_pack v = UInt32LE_pack (word_of_int v)"

definition Int32BE_unpack :: "octet list \<Rightarrow> int" where
  "Int32BE_unpack bytes = signedOf 0x80000000 (UInt32BE_unpack bytes)"
definition Int32BE_pack :: "int \<Rightarrow> octet list" where "Int32BE_pack v = UInt32BE_pack (word_of_int v)"

definition Int64LE_unpack :: "octet list \<Rightarrow> int" where
  "Int64LE_unpack bytes = signedOf 0x8000000000000000 (UInt64LE_unpack bytes)"
definition Int64LE_pack :: "int \<Rightarrow> octet list" where "Int64LE_pack v = UInt64LE_pack (word_of_int v)"

definition Int64BE_unpack :: "octet list \<Rightarrow> int" where
  "Int64BE_unpack bytes = signedOf 0x8000000000000000 (UInt64BE_unpack bytes)"
definition Int64BE_pack :: "int \<Rightarrow> octet list" where "Int64BE_pack v = UInt64BE_pack (word_of_int v)"

text \<open>Arrays: missing input is a default value, missing elements and a partial element at the end are zero.\<close>

fun unpackArray :: "(octet list \<Rightarrow> 'v) \<Rightarrow> nat \<Rightarrow> 'v \<Rightarrow> nat \<Rightarrow> octet list \<Rightarrow> 'v list" where
  "unpackArray unpack n defaultValue 0 inp = []"
| "unpackArray unpack n defaultValue (Suc out) inp =
     (if length inp \<ge> n then unpack (take n inp) # unpackArray unpack n defaultValue out (drop n inp)
      else defaultValue # unpackArray unpack n defaultValue out inp)"

function packArray :: "('v \<Rightarrow> octet list) \<Rightarrow> nat \<Rightarrow> 'v \<Rightarrow> nat \<Rightarrow> 'v list \<Rightarrow> octet list" where
  "packArray pack n zero out inp =
     (if 0 < n \<and> n \<le> out
      then (case inp of
              x # xs \<Rightarrow> pack x @ packArray pack n zero (out - n) xs
            | [] \<Rightarrow> pack zero @ packArray pack n zero (out - n) [])
      else replicate out (CHR 0x00))"
  by pat_completeness auto

termination by (relation "measure (\<lambda>(pack, n, zero, out, inp). out)") auto

declare packArray.simps [simp del]

text \<open>Strings in fields of a fixed size.\<close>

definition unpackFixedString :: "octet list \<Rightarrow> octet list" where
  "unpackFixedString mem = rev (dropWhile (\<lambda>c. c = CHR '' '') (rev (takeWhile (\<lambda>c. c \<noteq> CHR 0x00) mem)))"

definition packFixedString :: "nat \<Rightarrow> octet list \<Rightarrow> octet list" where
  "packFixedString n src = take n src @ replicate (n - length src) (CHR '' '')"

section \<open>Correctness of the bit operations\<close>

subsection \<open>Rotation\<close>

lemma rotl_as_shifts:
  assumes "0 < c" "c < LENGTH('w::len)"
  shows "push_bit c a OR drop_bit (LENGTH('w) - c) a = word_rotl c (a :: 'w word)"
  using assms by (intro bit_eqI) (auto simp: bit_simps bit_word_rotl_iff algebra_simps mod_if dest: bit_imp_le_length)

lemma rotr_as_shifts:
  assumes "0 < c" "c < LENGTH('w::len)"
  shows "push_bit (LENGTH('w) - c) a OR drop_bit c a = word_rotr c (a :: 'w word)"
  using assms by (intro bit_eqI) (auto simp: bit_simps bit_word_rotr_iff algebra_simps mod_if dest: bit_imp_le_length)

lemma rot_zero: "word_rotl 0 a = a" "word_rotr 0 a = a" for a :: "'w::len word"
  by (auto intro!: bit_eqI simp: bit_word_rotl_iff bit_word_rotr_iff)

lemma rotateLeft32_rotl: "rotateLeft32 a c = word_rotl (nat (c mod 32)) a"
  using rotl_as_shifts [where 'w = 32, of "nat (c mod 32)" a] by (auto simp: rotateLeft32_def Let_def rot_zero)

lemma rotateRight32_rotr: "rotateRight32 a c = word_rotr (nat (c mod 32)) a"
  using rotr_as_shifts [where 'w = 32, of "nat (c mod 32)" a] by (auto simp: rotateRight32_def Let_def rot_zero)

lemma rotateLeft64_rotl: "rotateLeft64 a c = word_rotl (nat (c mod 64)) a"
  using rotl_as_shifts [where 'w = 64, of "nat (c mod 64)" a] by (auto simp: rotateLeft64_def Let_def rot_zero)

lemma rotateRight64_rotr: "rotateRight64 a c = word_rotr (nat (c mod 64)) a"
  using rotr_as_shifts [where 'w = 64, of "nat (c mod 64)" a] by (auto simp: rotateRight64_def Let_def rot_zero)

lemma rotateLeft16_rotl: "rotateLeft16 a c = word_rotl (nat (c mod 16)) a"
  using rotl_as_shifts [where 'w = 16, of "nat (c mod 16)" a] by (auto simp: rotateLeft16_def Let_def rot_zero)

lemma rotateLeft8_rotl: "rotateLeft8 a c = word_rotl (nat (c mod 8)) a"
proof (cases "c mod 8 = 0")
  case True
  then have "drop_bit 8 a = 0" by (intro bit_eqI) (auto simp: bit_simps dest: bit_imp_le_length)
  with True show ?thesis by (simp add: rotateLeft8_def rot_zero)
next
  case False
  then show ?thesis
    using rotl_as_shifts [where 'w = 8, of "nat (c mod 8)" a] by (auto simp: rotateLeft8_def Let_def rot_zero le_less)
qed

subsection \<open>Population count and logarithm\<close>

definition popcount :: "nat \<Rightarrow> nat" where "popcount n = card {i. bit n i}"

lemma bits_of_nat_finite: "finite {i. bit (n :: nat) i}"
proof (rule finite_subset)
  show "{i. bit n i} \<subseteq> {..<n}"
  proof
    fix i assume "i \<in> {i. bit n i}"
    then have "2 ^ i \<le> n" by (cases "n < 2 ^ i") (auto simp: bit_iff_odd)
    then show "i \<in> {..<n}" by (meson less_exp less_le_trans lessThan_iff)
  qed
qed simp

lemma popcount_zero [simp]: "popcount 0 = 0" by (simp add: popcount_def)

lemma popcount_half: "popcount n = n mod 2 + popcount (n div 2)"
proof -
  have "{i. bit n i} = (if odd n then {0} else {}) \<union> Suc ` {i. bit (n div 2) i}" (is "_ = ?A \<union> ?B")
    by (auto simp: bit_Suc image_iff bit_0 gr0_conv_Suc) (metis bit_0 bit_Suc old.nat.exhaust)+
  moreover have "card (?A \<union> ?B) = card ?A + card ?B"
    by (rule card_Un_disjoint) (auto simp: bits_of_nat_finite)
  ultimately show ?thesis by (simp add: popcount_def card_image odd_iff_mod_2_eq_one)
qed

lemma popcount_clear_lowest: "n \<noteq> 0 \<Longrightarrow> popcount n = Suc (popcount (n AND (n - 1)))"
proof (induction n rule: less_induct)
  case (less n)
  show ?case
  proof (cases "odd n")
    case True
    then obtain m where "n = 2 * m + 1" by (rule oddE)
    then have "n AND (n - 1) = 2 * m" by (subst and_nat_unfold) auto
    with \<open>n = 2 * m + 1\<close> show ?thesis using popcount_half [of n] popcount_half [of "2 * m"] by simp
  next
    case False
    then obtain m where m: "n = 2 * m" by blast
    with less.prems have "(n - 1) div 2 = m - 1" "m < n" "m \<noteq> 0" by auto
    moreover from this m have "n AND (n - 1) = 2 * (m AND (m - 1))" by (subst and_nat_unfold) auto
    ultimately show ?thesis
      using m less.IH [of m] popcount_half [of n] popcount_half [of "2 * (m AND (m - 1))"] by simp
  qed
qed


lemma bitPopLoop_popcount: "bitPopLoop v r = r + popcount (unat v)"
proof (induction v r rule: bitPopLoop.induct)
  case (1 v r)
  show ?case
  proof (cases "v = 0")
    case False
    moreover have "popcount (unat v) = Suc (popcount (unat (v AND (v - 1))))"
      using False popcount_clear_lowest [of "unat v"]
      by (simp add: unsigned_and_eq unat_minus_one unat_eq_zero)
    ultimately show ?thesis using 1 by (simp add: bitPopLoop.simps [of v r])
  qed (simp add: bitPopLoop.simps)
qed

lemma popcount_unat: "popcount (unat (v :: 'w::len word)) = card {i. bit v i}"
  by (simp add: popcount_def bit_unsigned_iff)

lemma ucast_bits:
  "LENGTH('a) \<le> LENGTH('b) \<Longrightarrow> {i. bit (ucast (v :: 'a::len word) :: 'b::len word) i} = {i. bit v i}"
  by (auto simp: bit_simps dest: bit_imp_le_length)

lemma bitPop32_card: "bitPop32 v = card {i. bit v i}"
  by (simp add: bitPop32_def bitPopLoop_popcount popcount_unat)

lemma bitPop64_card: "bitPop64 v = card {i. bit v i}"
  by (simp add: bitPop64_def bitPopLoop_popcount popcount_unat)

lemma bitPop16_card: "bitPop16 v = card {i. bit v i}"
  by (simp add: bitPop16_def bitPop32_card ucast_bits)

lemma bitPop8_card: "bitPop8 v = card {i. bit v i}"
  by (simp add: bitPop8_def bitPop32_card ucast_bits)

lemma bitLogLoop_acc: "bitLogLoop bs v r = r + bitLogLoop bs v 0"
proof (induction bs arbitrary: v r)
  case (Cons b bs)
  show ?case using Cons [of "drop_bit b v" "r + b"] Cons [of "drop_bit b v" b] Cons [of v r] by simp
qed simp

lemma bitLogLoop_top:
  "v \<noteq> 0 \<Longrightarrow> unat v < 2 ^ (2 ^ k) \<Longrightarrow>
   drop_bit (bitLogLoop (map ((^) 2) (rev [0..<k])) v 0) v = (1 :: 'w::len word)"
proof (induction k arbitrary: v)
  case 0
  then have "unat v = 1" by (cases "unat v") (auto simp: unat_eq_zero)
  then have "v = 1" by (metis unat_1 unsigned_word_eqI)
  then show ?case by (simp add: word_eq_iff_unsigned [where 'a = nat])
next
  case (Suc k)
  let ?b = "2 ^ k :: nat" and ?bs = "map ((^) 2) (rev [0..<k]) :: nat list"
  show ?case
  proof (cases "drop_bit ?b v = 0")
    case True
    then have "unat v div 2 ^ ?b = 0" by (metis unat_drop_bit_eq drop_bit_eq_div unat_0)
    then have "unat v < 2 ^ ?b" by (simp add: div_eq_0_iff)
    with Suc.IH Suc.prems True show ?thesis by simp
  next
    case False
    have "unat (drop_bit ?b v) = unat v div 2 ^ ?b" by (metis unat_drop_bit_eq drop_bit_eq_div)
    then have "unat (drop_bit ?b v) < 2 ^ ?b"
      using Suc.prems(2) by (simp add: less_mult_imp_div_less flip: power_add mult_2)
    from Suc.IH [OF False this] False show ?thesis
      by (simp add: bitLogLoop_acc [of _ _ ?b] drop_bit_drop_bit add.commute)
  qed
qed

lemma bitLog_powers5: "map ((^) 2) (rev [0..<5]) = [16, 8, 4, 2, 1 :: nat]"
  by (simp add: numeral_eq_Suc)

lemma bitLog_powers6: "map ((^) 2) (rev [0..<6]) = [32, 16, 8, 4, 2, 1 :: nat]"
  by (simp add: numeral_eq_Suc)

lemma bitLog32_top: "v \<noteq> 0 \<Longrightarrow> 0 \<le> bitLog32 v \<and> drop_bit (nat (bitLog32 v)) v = 1"
  using bitLogLoop_top [of v 5, unfolded bitLog_powers5] unsigned_less [of v, where 'a = nat]
  by (simp add: bitLog32_def del: bitLogLoop.simps unsigned_less)

lemma bitLog64_top: "v \<noteq> 0 \<Longrightarrow> 0 \<le> bitLog64 v \<and> drop_bit (nat (bitLog64 v)) v = 1"
  using bitLogLoop_top [of v 6, unfolded bitLog_powers6] unsigned_less [of v, where 'a = nat]
  by (simp add: bitLog64_def del: bitLogLoop.simps unsigned_less)

subsection \<open>Reversal\<close>

lemma all_less_4: "(\<forall>i < 4. P i) \<longleftrightarrow> P 0 \<and> P 1 \<and> P 2 \<and> P (3 :: nat)"
  by (simp add: numeral_eq_Suc All_less_Suc2)

lemma all_less_16:
  "(\<forall>a < 16. P a) \<longleftrightarrow> P 0 \<and> P 1 \<and> P 2 \<and> P 3 \<and> P 4 \<and> P 5 \<and> P 6 \<and> P 7 \<and>
     P 8 \<and> P 9 \<and> P 10 \<and> P 11 \<and> P 12 \<and> P 13 \<and> P 14 \<and> P (15 :: nat)"
  by (simp add: numeral_eq_Suc All_less_Suc2)

lemma bitReverseTable_bits: "\<forall>a < 16. \<forall>i < 4. bit (bitReverseTable ! a) i \<longleftrightarrow> bit a (3 - i)"
  unfolding all_less_16 all_less_4 by (simp add: bitReverseTable_def bit_1_iff bit_Suc_0_iff)

lemma bitReverseTable_high: "\<forall>a < 16. bitReverseTable ! a = take_bit 4 (bitReverseTable ! a)"
  unfolding all_less_16 by (simp add: bitReverseTable_def)

lemma bitReverseTable_bit:
  assumes "a < 16"
  shows "bit (bitReverseTable ! a) i \<longleftrightarrow> i < 4 \<and> bit a (3 - i)"
proof (cases "i < 4")
  case True
  with bitReverseTable_bits assms show ?thesis by simp
next
  case False
  have "bit (take_bit 4 (bitReverseTable ! a)) i \<longleftrightarrow> i < 4 \<and> bit (bitReverseTable ! a) i" by (simp add: bit_simps)
  with False bitReverseTable_high assms show ?thesis by auto
qed

lemma and_15_take: "x AND 15 = take_bit 4 x" for x :: "8 word"
  by (simp add: take_bit_eq_mask mask_numeral)

lemma and_15_less: "unat (a AND 15 :: 8 word) < 16"
proof -
  show ?thesis using take_bit_nat_less_exp [of 4 "unat a"] by (simp add: and_15_take unsigned_take_bit_eq)
qed

lemma bitReverse8_bits:
  assumes "i < 8"
  shows "bit (bitReverse8 a) i = bit a (7 - i)"
proof -
  have "bit (bitReverse8 a) i \<longleftrightarrow> (if i < 4 then bit a (4 + (3 - i)) else bit a (3 - (i - 4)))"
    using assms and_15_less and_15_less [unfolded and_15_take]
    by (auto simp: bitReverse8_def bit_simps bitReverseTable_bit and_15_take)
  moreover have "i < 4 \<Longrightarrow> 4 + (3 - i) = 7 - i" "\<not> i < 4 \<Longrightarrow> 3 - (i - 4) = 7 - i" by simp_all
  ultimately show ?thesis by simp
qed

lemma bitReverse16_bits:
  assumes "i < 16"
  shows "bit (bitReverse16 a) i = bit a (15 - i)"
proof -
  have "a AND 255 = take_bit 8 a" by (simp add: take_bit_eq_mask mask_numeral)
  then have "bit (bitReverse16 a) i \<longleftrightarrow> (if i < 8 then bit a (8 + (7 - i)) else bit a (7 - (i - 8)))"
    using assms by (auto simp: bitReverse16_def bit_simps bitReverse8_bits dest: bit_imp_le_length)
  moreover have "i < 8 \<Longrightarrow> 8 + (7 - i) = 15 - i" "\<not> i < 8 \<Longrightarrow> 7 - (i - 8) = 15 - i" by simp_all
  ultimately show ?thesis by simp
qed

lemma bitReverse32_bits:
  assumes "i < 32"
  shows "bit (bitReverse32 a) i = bit a (31 - i)"
proof -
  have "a AND 65535 = take_bit 16 a" by (simp add: take_bit_eq_mask mask_numeral)
  then have "bit (bitReverse32 a) i \<longleftrightarrow> (if i < 16 then bit a (16 + (15 - i)) else bit a (15 - (i - 16)))"
    using assms by (auto simp: bitReverse32_def bit_simps bitReverse16_bits dest: bit_imp_le_length)
  moreover have "i < 16 \<Longrightarrow> 16 + (15 - i) = 31 - i" "\<not> i < 16 \<Longrightarrow> 15 - (i - 16) = 31 - i" by simp_all
  ultimately show ?thesis by simp
qed

lemma bitReverse64_bits:
  assumes "i < 64"
  shows "bit (bitReverse64 a) i = bit a (63 - i)"
proof -
  have "a AND 0xFFFFFFFF = take_bit 32 a" by (simp add: take_bit_eq_mask mask_numeral)
  then have "bit (bitReverse64 a) i \<longleftrightarrow> (if i < 32 then bit a (32 + (31 - i)) else bit a (31 - (i - 32)))"
    using assms by (auto simp: bitReverse64_def bit_simps bitReverse32_bits dest: bit_imp_le_length)
  moreover have "i < 32 \<Longrightarrow> 32 + (31 - i) = 63 - i" "\<not> i < 32 \<Longrightarrow> 31 - (i - 32) = 63 - i" by simp_all
  ultimately show ?thesis by simp
qed

section \<open>Small sets as sets\<close>

definition elems :: "'w::len word \<Rightarrow> nat set" where "elems s = {i. bit s i}"

lemma elems_inj: "elems s = elems t \<longleftrightarrow> s = t"
  by (auto simp: elems_def set_eq_iff intro: bit_eqI)

lemma elems_finite [simp]: "finite (elems s)"
  by (rule finite_subset [of _ "{..<LENGTH('a)}"]) (auto simp: elems_def dest: bit_imp_le_length)

lemma elems_zero [simp]: "elems 0 = {}" by (simp add: elems_def)

lemma elems_empty_iff [simp]: "elems s = {} \<longleftrightarrow> s = 0"
  using elems_inj [of s 0] by simp

lemma SmallSet_allUpTo_mask: "SmallSet_allUpTo t = mask (Suc t)"
  by (simp add: SmallSet_allUpTo_def mask_eq_exp_minus_1 push_bit_eq_mult)

lemma elems_elements:
  fixes s :: "'w::len word"
  assumes "t < LENGTH('w)"
  shows "elems (SmallSet_unit t :: 'w word) = {t}"
    and "elems (SmallSet_add t s) = insert t (elems s)"
    and "elems (SmallSet_remove t s) = elems s - {t}"
    and "elems (SmallSet_toggle t s) = (if t \<in> elems s then elems s - {t} else insert t (elems s))"
    and "SmallSet_contains t s \<longleftrightarrow> t \<in> elems s"
    and "elems (SmallSet_allUpTo t :: 'w word) = {..t}"
  using assms
  by (auto simp: elems_def SmallSet_unit_def SmallSet_add_def SmallSet_remove_def SmallSet_toggle_def
      SmallSet_contains_def SmallSet_allUpTo_mask bit_simps bit_iff_and_push_bit_not_eq_0 [of s t]
      dest: bit_imp_le_length)

lemma elems_sets:
  "elems (SmallSet_union s u) = elems s \<union> elems u"
  "elems (SmallSet_minus s u) = elems s - elems u"
  "elems (SmallSet_inter s u) = elems s \<inter> elems u"
  "elems (SmallSet_xor s u) = (elems s - elems u) \<union> (elems u - elems s)"
  by (auto simp: elems_def SmallSet_union_def SmallSet_minus_def SmallSet_inter_def SmallSet_xor_def bit_simps
      dest: bit_imp_le_length)

lemma elems_queries:
  "SmallSet_containsAll s u \<longleftrightarrow> elems u \<subseteq> elems s"
  "SmallSet_containsAnyOf s u \<longleftrightarrow> elems s \<inter> elems u \<noteq> {}"
proof -
  have "SmallSet_containsAll s u \<longleftrightarrow> elems (SmallSet_minus u s) = {}"
    by (simp add: SmallSet_containsAll_def SmallSet_minus_def)
  then show "SmallSet_containsAll s u \<longleftrightarrow> elems u \<subseteq> elems s" by (auto simp: elems_sets)
  have "SmallSet_containsAnyOf s u \<longleftrightarrow> elems (SmallSet_inter s u) \<noteq> {}"
    by (simp add: SmallSet_containsAnyOf_def SmallSet_inter_def)
  then show "SmallSet_containsAnyOf s u \<longleftrightarrow> elems s \<inter> elems u \<noteq> {}" by (simp add: elems_sets)
qed

lemma popcount_elems: "popcount (unat s) = card (elems s)"
  by (simp add: popcount_unat elems_def)

lemma clear_lowest_card: "s \<noteq> 0 \<Longrightarrow> card (elems s) = Suc (card (elems (s AND (s - 1))))"
  using popcount_clear_lowest [of "unat s"]
  by (simp add: unsigned_and_eq unat_minus_one unat_eq_zero flip: popcount_elems)

lemma isUnitSet_card: "SmallSet_isUnitSet s \<longleftrightarrow> card (elems s) \<le> 1"
proof (cases "s = 0")
  case False
  then have "card (elems s) \<le> 1 \<longleftrightarrow> card (elems (s AND (s - 1))) = 0" by (simp add: clear_lowest_card)
  then show ?thesis by (simp add: SmallSet_isUnitSet_def)
qed (simp add: SmallSet_isUnitSet_def)

lemma SmallSet_size_card: "SmallSet_size s = card (elems s)"
  by (simp add: SmallSet_size_def bitPop32_card elems_def)

text \<open>The elements from bit \<open>k\<close> on, in ascending order.\<close>

definition elemsFrom :: "nat \<Rightarrow> 'w::len word \<Rightarrow> nat list" where
  "elemsFrom k s = filter (bit s) [k..<LENGTH('w)]"

lemma elemsFrom_0: "elemsFrom 0 s = sorted_list_of_set (elems s)"
  by (rule sorted_distinct_set_unique)
     (auto simp: elemsFrom_def elems_def intro!: sorted_wrt_filter dest: bit_imp_le_length)

lemma elemsFrom_step:
  fixes s :: "'w::len word"
  assumes "k < LENGTH('w)"
  shows "elemsFrom k s = (if bit s k then k # elemsFrom (Suc k) s else elemsFrom (Suc k) s)"
  using assms by (simp add: elemsFrom_def upt_conv_Cons)

lemma elemsFrom_clear: "elemsFrom (Suc k) (s AND NOT (push_bit k 1)) = elemsFrom (Suc k) s"
  unfolding elemsFrom_def by (rule filter_cong) (auto simp: bit_simps)

lemma elemsFrom_all: "(\<And>i. i < k \<Longrightarrow> \<not> bit s i) \<Longrightarrow> set (elemsFrom k s) = elems s"
  by (auto simp: elemsFrom_def elems_def not_less dest: bit_imp_le_length) (meson not_less)

lemma takeLoop_takes:
  fixes s :: "'w::len word"
  assumes "\<forall>i < k. \<not> bit s i"
  shows "\<exists>r s'. SmallSet_takeLoop s n (push_bit k 1) result = Some (result OR r, s') \<and>
           elems r = set (take n (elemsFrom k s)) \<and> elems s' = set (drop n (elemsFrom k s))"
  using assms
proof (induction "LENGTH('w) - k" arbitrary: s n k result)
  case 0
  then have "s = 0" by (intro bit_eqI) (auto simp: possible_bit_word)
  with 0 show ?case by (subst SmallSet_takeLoop.simps) (auto simp: elemsFrom_def intro: exI [of _ 0])
next
  case (Suc d)
  let ?m = "push_bit k 1 :: 'w word"
  have k: "k < LENGTH('w)" "d = LENGTH('w) - Suc k" "push_bit 1 ?m = push_bit (Suc k) 1" using Suc(2) by auto
  have m: "s AND ?m \<noteq> 0 \<longleftrightarrow> bit s k" by (simp add: bit_iff_and_push_bit_not_eq_0)
  consider "s = 0 \<or> n = 0" | "s \<noteq> 0" "n \<noteq> 0" "bit s k" | "s \<noteq> 0" "n \<noteq> 0" "\<not> bit s k" by blast
  then show ?case
  proof cases
    case 1
    have "set (elemsFrom k s) = elems s" using Suc.prems by (intro elemsFrom_all) simp
    moreover have "s = 0 \<Longrightarrow> elemsFrom k s = []" by (simp add: elemsFrom_def)
    ultimately show ?thesis using 1
      by (subst SmallSet_takeLoop.simps) (auto intro: exI [of _ 0])
  next
    case 2
    let ?s = "s AND NOT ?m"
    have "\<forall>i < Suc k. \<not> bit ?s i" using Suc.prems k(1) by (auto simp: bit_simps less_Suc_eq)
    from Suc.hyps(1) [OF k(2) this, of "n - 1" "result OR ?m", unfolded elemsFrom_clear] obtain r s' where
      r: "SmallSet_takeLoop ?s (n - 1) (push_bit (Suc k) 1) (result OR ?m) = Some ((result OR ?m) OR r, s')"
        "elems r = set (take (n - 1) (elemsFrom (Suc k) s))" "elems s' = set (drop (n - 1) (elemsFrom (Suc k) s))"
      by (elim exE conjE) (rule that)
    have step: "SmallSet_takeLoop s n ?m result = SmallSet_takeLoop ?s (n - 1) (push_bit (Suc k) 1) (result OR ?m)"
      using 2 m by (subst SmallSet_takeLoop.simps) (simp only: k(3) if_True simp_thms)
    have "elems (?m OR r) = insert k (elems r)"
      using elems_elements(1) [OF k(1)] elems_sets(1) [of ?m r] by (simp add: SmallSet_unit_def SmallSet_union_def)
    with r 2 k(1) show ?thesis unfolding step
      by (intro exI [of _ "?m OR r"] exI [of _ s']) (cases n; simp add: elemsFrom_step or.assoc)
  next
    case 3
    then have "\<forall>i < Suc k. \<not> bit s i" using Suc.prems by (auto simp: less_Suc_eq)
    note IH = Suc.hyps(1) [OF k(2) this, of n result]
    have "SmallSet_takeLoop s n ?m result = SmallSet_takeLoop s n (push_bit (Suc k) 1) result"
      using 3 m by (subst SmallSet_takeLoop.simps) (simp only: k(3) if_False if_True simp_thms)
    with IH 3 k(1) show ?thesis by (simp only: elemsFrom_step if_False simp_thms)
  qed
qed

lemma SmallSet_take_takes:
  "\<exists>r s'. SmallSet_take n s = Some (r, s') \<and> elems r = set (take n (sorted_list_of_set (elems s))) \<and>
     elems s' = set (drop n (sorted_list_of_set (elems s)))"
  using takeLoop_takes [of 0 s n 0] by (simp add: SmallSet_take_def elemsFrom_0)


section \<open>Octets of a number\<close>

fun leDigits :: "nat \<Rightarrow> nat \<Rightarrow> octet list" where
  "leDigits 0 n = []"
| "leDigits (Suc k) n = char_of n # leDigits k (n div 256)"

fun leValue :: "octet list \<Rightarrow> nat" where
  "leValue [] = 0"
| "leValue (c # cs) = of_char c + 256 * leValue cs"

lemma leDigits_length [simp]: "length (leDigits k n) = k"
  by (induction k arbitrary: n) auto

lemma of_char_less_256: "(of_char (c :: octet) :: nat) < 256"
  by simp

lemma leValue_bound: "leValue cs < 256 ^ length cs"
proof (induction cs)
  case (Cons c cs)
  then have "Suc (leValue cs) \<le> 256 ^ length cs" by simp
  then have "256 * Suc (leValue cs) \<le> 256 * 256 ^ length cs" by (rule mult_le_mono2)
  then show ?case using of_char_less_256 [of c] by (simp del: of_char_less_256)
qed simp

lemma leValue_leDigits: "leValue (leDigits k n) = n mod 256 ^ k"
proof (induction k arbitrary: n)
  case (Suc k)
  then show ?case by (simp add: mod_mult2_eq)
qed simp

lemma leDigits_leValue: "leDigits (length cs) (leValue cs) = cs"
proof (induction cs)
  case (Cons c cs)
  have "char_of (of_char c + 256 * leValue cs :: nat) = c" by (metis char_of_mod_256 mod_mult_self2 char_of_char)
  with Cons show ?case using of_char_less_256 [of c] by simp
qed simp

lemma narrow_and_255: "narrow (w AND 255) = char_of (unat w)"
proof -
  have "w AND 255 = take_bit 8 w" by (simp add: take_bit_eq_mask mask_numeral)
  then have "unat (w AND 255) = take_bit 8 (unat w)" by (simp only: unsigned_take_bit_eq)
  then show ?thesis by (simp add: narrow_def take_bit_eq_mod [where 'a = nat])
qed


lemma narrow_octet: "narrow (drop_bit k w AND 255) = char_of (unat w div 2 ^ k)"
proof -
  have "unat (drop_bit k w) = unat w div 2 ^ k" by (metis unat_drop_bit_eq drop_bit_eq_div)
  then show ?thesis by (simp only: narrow_and_255)
qed

lemma narrow_byte: "narrow (w :: 8 word) = char_of (unat w)" by (simp add: narrow_def)

lemma leDigits_map: "leDigits k n = map (\<lambda>i. char_of (n div 256 ^ i)) [0..<k]"
  by (induction k arbitrary: n) (simp_all add: map_upt_Suc div_mult2_eq del: upt_Suc)

lemma upt_octets: "[0..<2] = [0, 1]" "[0..<4] = [0, 1, 2, 3]" "[0..<8] = [0, 1, 2, 3, 4, 5, 6, 7]"
  by (simp_all add: numeral_eq_Suc)

lemma pack_le:
  "UInt8_pack w8 = leDigits 1 (unat w8)"
  "UInt16LE_pack w16 = leDigits 2 (unat w16)"
  "UInt32LE_pack w32 = leDigits 4 (unat w32)"
  "UInt64LE_pack w64 = leDigits 8 (unat w64)"
  unfolding leDigits_map upt_octets UInt8_pack_def UInt16LE_pack_def UInt32LE_pack_def UInt64LE_pack_def narrow_octet
  by (simp_all add: narrow_and_255 narrow_byte)

lemma pack_be:
  "UInt16BE_pack w16 = rev (leDigits 2 (unat w16))"
  "UInt32BE_pack w32 = rev (leDigits 4 (unat w32))"
  "UInt64BE_pack w64 = rev (leDigits 8 (unat w64))"
  unfolding leDigits_map upt_octets UInt16BE_pack_def UInt32BE_pack_def UInt64BE_pack_def narrow_octet
  by (simp_all add: narrow_and_255)

lemma pack_be_rev:
  "UInt16BE_pack w16 = rev (UInt16LE_pack w16)"
  "UInt32BE_pack w32 = rev (UInt32LE_pack w32)"
  "UInt64BE_pack w64 = rev (UInt64LE_pack w64)"
  by (simp_all add: pack_le pack_be)

lemma length_octets:
  "length xs = 1 \<longleftrightarrow> (\<exists>a. xs = [a])"
  "length xs = 2 \<longleftrightarrow> (\<exists>a b. xs = [a, b])"
  "length xs = 4 \<longleftrightarrow> (\<exists>a b c d. xs = [a, b, c, d])"
  "length xs = 8 \<longleftrightarrow> (\<exists>a b c d e f g h. xs = [a, b, c, d, e, f, g, h])"
  by (auto simp: numeral_eq_Suc length_Suc_conv)

lemma unpack_le:
  "length bs = 1 \<Longrightarrow> UInt8_unpack bs = of_nat (leValue bs)"
  "length bs = 2 \<Longrightarrow> UInt16LE_unpack bs = of_nat (leValue bs)"
  "length bs = 4 \<Longrightarrow> UInt32LE_unpack bs = of_nat (leValue bs)"
  "length bs = 8 \<Longrightarrow> UInt64LE_unpack bs = of_nat (leValue bs)"
  unfolding length_octets
  by (auto simp: UInt8_unpack_def UInt16LE_unpack_def UInt32LE_unpack_def UInt64LE_unpack_def widen_def
      push_bit_eq_mult algebra_simps)

lemma unpack_be:
  "length bs = 2 \<Longrightarrow> UInt16BE_unpack bs = of_nat (leValue (rev bs))"
  "length bs = 4 \<Longrightarrow> UInt32BE_unpack bs = of_nat (leValue (rev bs))"
  "length bs = 8 \<Longrightarrow> UInt64BE_unpack bs = of_nat (leValue (rev bs))"
  unfolding length_octets
  by (auto simp: UInt16BE_unpack_def UInt32BE_unpack_def UInt64BE_unpack_def widen_def
      push_bit_eq_mult algebra_simps)

text \<open>The generic form of the unsigned descriptors in both orders.\<close>

lemma le_unpack_pack: "2 ^ LENGTH('w) = (256 :: nat) ^ k \<Longrightarrow> of_nat (leValue (leDigits k (unat w))) = (w :: 'w::len word)"
  using unsigned_less [of w, where 'a = nat] by (simp add: leValue_leDigits)

lemma le_pack_unpack:
  "2 ^ LENGTH('w) = (256 :: nat) ^ length bs \<Longrightarrow> leDigits (length bs) (unat (of_nat (leValue bs) :: 'w::len word)) = bs"
  using leValue_bound [of bs] by (simp add: unat_of_nat leDigits_leValue)


section \<open>The contract of a descriptor\<close>

text \<open>A list cut or padded to a length.\<close>

definition fitTo :: "nat \<Rightarrow> 'v \<Rightarrow> 'v list \<Rightarrow> 'v list" where
  "fitTo k d vs = take k vs @ replicate (k - length vs) d"

lemma fitTo_simps [simp]:
  "fitTo 0 d vs = []"
  "fitTo (Suc k) d [] = d # fitTo k d []"
  "fitTo (Suc k) d (v # vs) = v # fitTo k d vs"
  "fitTo (length vs) d vs = vs"
  "length (fitTo k d vs) = k"
  by (simp_all add: fitTo_def)

lemma fitTo_valid: "\<forall>v \<in> set vs. P v \<Longrightarrow> P d \<Longrightarrow> v \<in> set (fitTo k d vs) \<Longrightarrow> P v"
  by (auto simp: fitTo_def dest: in_set_takeD)

text \<open>
  A descriptor converts values to and from a fixed number of octets. \<open>valid\<close> are the values of the
  unpacked type.
\<close>

locale packing =
  fixes pack :: "'v \<Rightarrow> octet list" and unpack :: "octet list \<Rightarrow> 'v" and n :: nat and valid :: "'v \<Rightarrow> bool"
  assumes n_pos: "0 < n"
    and pack_length: "length (pack v) = n"
    and unpack_pack: "valid v \<Longrightarrow> unpack (pack v) = v"
    and pack_unpack: "length bs = n \<Longrightarrow> pack (unpack bs) = bs"
    and unpack_valid: "length bs = n \<Longrightarrow> valid (unpack bs)"
begin

lemma pack_inj: "valid v \<Longrightarrow> valid w \<Longrightarrow> pack v = pack w \<Longrightarrow> v = w"
  by (metis unpack_pack)

lemma packArray_elements:
  "packArray pack n zero out vs =
     concat (map pack (fitTo (out div n) zero vs)) @ replicate (out mod n) (CHR 0x00)"
proof (induction out arbitrary: vs rule: less_induct)
  case (less out)
  show ?case
  proof (cases "n \<le> out")
    case True
    then obtain m where m: "out div n = Suc m" "(out - n) div n = m" "(out - n) mod n = out mod n"
      using n_pos by (metis div_if le_mod_geq not_less le_div_geq)
    have "out - n < out" using True n_pos by simp
    from less [OF this] m True n_pos show ?thesis
      by (subst packArray.simps) (cases vs, simp_all)
  next
    case False
    then show ?thesis by (subst packArray.simps) simp
  qed
qed

lemma concat_pack_length: "length (concat (map pack vs)) = length vs * n"
  by (induction vs) (simp_all add: pack_length)

lemma packArray_length: "length (packArray pack n zero out vs) = out"
  by (simp add: packArray_elements concat_pack_length)

lemma unpackArray_elements:
  "length rest < n \<Longrightarrow> unpackArray unpack n d k (concat (map pack vs) @ rest) =
     fitTo k d (map (\<lambda>v. unpack (pack v)) vs)"
proof (induction k arbitrary: vs)
  case (Suc k)
  from Suc.IH [of "[]"] Suc.IH [of "tl vs"] Suc.prems show ?case by (cases vs) (simp_all add: pack_length)
qed simp

text \<open>
  An array that is packed into \<open>out\<close> octets and unpacked into \<open>k\<close> elements: the elements that fit, zero for
  the elements that were missing when packing, the default for those that were missing when unpacking.
\<close>

lemma array_roundtrip:
  assumes "\<forall>v \<in> set vs. valid v" "valid zero"
  shows "unpackArray unpack n d k (packArray pack n zero out vs) =
           fitTo k d (fitTo (out div n) zero vs)"
proof -
  have "map (\<lambda>v. unpack (pack v)) (fitTo (out div n) zero vs) = fitTo (out div n) zero vs"
    using fitTo_valid [of vs valid zero] assms by (intro map_idI unpack_pack) blast
  then show ?thesis using n_pos by (simp add: packArray_elements unpackArray_elements)
qed

end

lemma le_packing:
  assumes "2 ^ LENGTH('w::len) = (256 :: nat) ^ k" "0 < k"
    and "\<And>w. pack w = leDigits k (unat w)" "\<And>bs. length bs = k \<Longrightarrow> unpack bs = (of_nat (leValue bs) :: 'w word)"
  shows "packing pack unpack k (\<lambda>_. True)"
  using assms le_unpack_pack [of k] le_pack_unpack [where 'w = 'w] by unfold_locales auto

lemma be_packing:
  assumes "2 ^ LENGTH('w::len) = (256 :: nat) ^ k" "0 < k"
    and "\<And>w. pack w = rev (leDigits k (unat w))"
    and "\<And>bs. length bs = k \<Longrightarrow> unpack bs = (of_nat (leValue (rev bs)) :: 'w word)"
  shows "packing pack unpack k (\<lambda>_. True)"
proof unfold_locales
  fix bs :: "octet list" assume "length bs = k"
  with assms le_pack_unpack [where 'w = 'w, of "rev bs"] show "pack (unpack bs) = bs" by simp
qed (use assms le_unpack_pack [of k] in auto)

interpretation u8: packing UInt8_pack UInt8_unpack 1 "\<lambda>_. True" by (rule le_packing) (simp_all add: pack_le unpack_le)
interpretation u16le: packing UInt16LE_pack UInt16LE_unpack 2 "\<lambda>_. True" by (rule le_packing) (simp_all add: pack_le unpack_le)
interpretation u32le: packing UInt32LE_pack UInt32LE_unpack 4 "\<lambda>_. True" by (rule le_packing) (simp_all add: pack_le unpack_le)
interpretation u64le: packing UInt64LE_pack UInt64LE_unpack 8 "\<lambda>_. True" by (rule le_packing) (simp_all add: pack_le unpack_le)
interpretation u16be: packing UInt16BE_pack UInt16BE_unpack 2 "\<lambda>_. True" by (rule be_packing) (simp_all add: pack_be unpack_be)
interpretation u32be: packing UInt32BE_pack UInt32BE_unpack 4 "\<lambda>_. True" by (rule be_packing) (simp_all add: pack_be unpack_be)
interpretation u64be: packing UInt64BE_pack UInt64BE_unpack 8 "\<lambda>_. True" by (rule be_packing) (simp_all add: pack_be unpack_be)

text \<open>
  The signed types: a value of the type survives the conversion to unsigned and back. The expression for
  negative numbers is the value itself: \<open>-(~tmp) - 1\<close> is \<open>tmp\<close> in the arithmetic of words.
\<close>

lemma signedOf_sint: "signedOf sign tmp = sint tmp"
proof -
  have "- NOT tmp - 1 = tmp" by (simp add: not_eq_complement)
  then show ?thesis by (simp add: signedOf_def)
qed

definition inSigned :: "nat \<Rightarrow> int \<Rightarrow> bool" where "inSigned bits v \<longleftrightarrow> - (2 ^ (bits - 1)) \<le> v \<and> v < 2 ^ (bits - 1)"

lemma signed_packing:
  assumes "packing upack uunpack k (\<lambda>_ :: 'w::len word. True)"
    and "\<And>v. pack v = upack (word_of_int v)" "\<And>bs. unpack bs = sint (uunpack bs)"
  shows "packing pack unpack k (inSigned (LENGTH('w)))"
proof -
  note u = assms(1) [unfolded packing_def]
  show ?thesis
  proof unfold_locales
    fix v assume "inSigned (LENGTH('w)) v"
    then have "sint (word_of_int v :: 'w word) = v"
      by (simp add: inSigned_def signed_of_int signed_take_bit_int_eq_self)
    with u show "unpack (pack v) = v" by (simp add: assms(2,3))
  next
    fix bs :: "octet list" assume "length bs = k"
    with u show "pack (unpack bs) = bs" by (simp add: assms(2,3))
    show "inSigned (LENGTH('w)) (unpack bs)"
      using sint_greater_eq [of "uunpack bs"] sint_less [of "uunpack bs"] by (simp add: inSigned_def assms(3))
  qed (use u in \<open>simp_all add: assms(2)\<close>)
qed

interpretation i8: packing Int8_pack Int8_unpack 1 "inSigned 8"
  using signed_packing [OF u8.packing_axioms, of Int8_pack Int8_unpack]
  by (simp add: Int8_pack_def Int8_unpack_def signedOf_sint)

interpretation i16le: packing Int16LE_pack Int16LE_unpack 2 "inSigned 16"
  using signed_packing [OF u16le.packing_axioms, of Int16LE_pack Int16LE_unpack]
  by (simp add: Int16LE_pack_def Int16LE_unpack_def signedOf_sint)

interpretation i32le: packing Int32LE_pack Int32LE_unpack 4 "inSigned 32"
  using signed_packing [OF u32le.packing_axioms, of Int32LE_pack Int32LE_unpack]
  by (simp add: Int32LE_pack_def Int32LE_unpack_def signedOf_sint)

interpretation i64le: packing Int64LE_pack Int64LE_unpack 8 "inSigned 64"
  using signed_packing [OF u64le.packing_axioms, of Int64LE_pack Int64LE_unpack]
  by (simp add: Int64LE_pack_def Int64LE_unpack_def signedOf_sint)

interpretation i16be: packing Int16BE_pack Int16BE_unpack 2 "inSigned 16"
  using signed_packing [OF u16be.packing_axioms, of Int16BE_pack Int16BE_unpack]
  by (simp add: Int16BE_pack_def Int16BE_unpack_def signedOf_sint)

interpretation i32be: packing Int32BE_pack Int32BE_unpack 4 "inSigned 32"
  using signed_packing [OF u32be.packing_axioms, of Int32BE_pack Int32BE_unpack]
  by (simp add: Int32BE_pack_def Int32BE_unpack_def signedOf_sint)

interpretation i64be: packing Int64BE_pack Int64BE_unpack 8 "inSigned 64"
  using signed_packing [OF u64be.packing_axioms, of Int64BE_pack Int64BE_unpack]
  by (simp add: Int64BE_pack_def Int64BE_unpack_def signedOf_sint)

section \<open>Strings in fields of a fixed size\<close>

lemma takeWhile_spaces: "takeWhile (\<lambda>c. c \<noteq> CHR 0x00) (s @ replicate k (CHR '' '')) =
    (if CHR 0x00 \<in> set s then takeWhile (\<lambda>c. c \<noteq> CHR 0x00) s else s @ replicate k (CHR '' ''))"
  by (induction s) (auto simp: takeWhile_eq_all_conv)

lemma dropWhile_replicate: "P c \<Longrightarrow> dropWhile P (replicate k c @ s) = dropWhile P s"
  by (induction k) auto

lemma packFixedString_length: "length (packFixedString n src) = n"
  by (simp add: packFixedString_def)

text \<open>The padding is not part of the string that is read back.\<close>

lemma unpack_packFixedString: "unpackFixedString (packFixedString n src) = unpackFixedString (take n src)"
proof (cases "CHR 0x00 \<in> set (take n src)")
  case False
  then have "takeWhile (\<lambda>c. c \<noteq> CHR 0x00) (take n src) = take n src" by (auto simp: takeWhile_eq_all_conv)
  with False show ?thesis
    by (simp add: packFixedString_def unpackFixedString_def takeWhile_spaces dropWhile_replicate)
qed (simp add: packFixedString_def unpackFixedString_def takeWhile_spaces)

lemma fixed_string_roundtrip:
  assumes "length src \<le> n" "CHR 0x00 \<notin> set src" "src = [] \<or> last src \<noteq> CHR '' ''"
  shows "unpackFixedString (packFixedString n src) = src"
proof -
  have "takeWhile (\<lambda>c. c \<noteq> CHR 0x00) src = src" using assms(2) by (auto simp: takeWhile_eq_all_conv)
  then show ?thesis using assms(1,3)
    by (cases src rule: rev_cases) (simp_all add: unpack_packFixedString, simp_all add: unpackFixedString_def)
qed

section \<open>Properties\<close>

text \<open>
  An array that is packed into \<open>out\<close> octets and unpacked into \<open>k\<close> elements, for all values of the type: the elements
  that fit are restored, followed by zeros for the rest of the octets and the default for the rest of the elements.
\<close>

definition restores_arrays :: "('v::zero \<Rightarrow> octet list) \<Rightarrow> (octet list \<Rightarrow> 'v) \<Rightarrow> nat \<Rightarrow> ('v \<Rightarrow> bool) \<Rightarrow> bool" where
  "restores_arrays pack unpack n valid \<longleftrightarrow>
     (\<forall>vs d k out. (\<forall>v \<in> set vs. valid v) \<longrightarrow>
        unpackArray unpack n d k (packArray pack n 0 out vs) = fitTo k d (fitTo (out div n) 0 vs))"

lemma packing_restores_arrays: "packing pack unpack n valid \<Longrightarrow> valid 0 \<Longrightarrow> restores_arrays pack unpack n valid"
  using packing.array_roundtrip by (fastforce simp: restores_arrays_def)

lemma inSigned_0: "0 < w \<Longrightarrow> inSigned w 0"
  by (simp add: inSigned_def)

lemmas array_restored =
  u8.packing_axioms [THEN packing_restores_arrays] u16le.packing_axioms [THEN packing_restores_arrays]
  u32le.packing_axioms [THEN packing_restores_arrays] u64le.packing_axioms [THEN packing_restores_arrays]
  u16be.packing_axioms [THEN packing_restores_arrays] u32be.packing_axioms [THEN packing_restores_arrays]
  u64be.packing_axioms [THEN packing_restores_arrays] i8.packing_axioms [THEN packing_restores_arrays]
  i16le.packing_axioms [THEN packing_restores_arrays] i32le.packing_axioms [THEN packing_restores_arrays]
  i64le.packing_axioms [THEN packing_restores_arrays] i16be.packing_axioms [THEN packing_restores_arrays]
  i32be.packing_axioms [THEN packing_restores_arrays] i64be.packing_axioms [THEN packing_restores_arrays]

text \<open>
  C38: Packing an integer with any of the descriptors and unpacking the octets gives the integer, for every
  value of the unpacked type: all words for the unsigned types, all numbers of the range for the signed
  ones. The little-endian and big-endian forms of an unsigned value are each other's reverse. With every
  descriptor, unpacking an array of such values that was packed gives the elements that fit, then zeros, then
  the default value.
\<close>

theorem packed_integers_roundtrip:
  "(\<forall>w. UInt8_unpack (UInt8_pack w) = w) \<and>
   (\<forall>w. UInt16LE_unpack (UInt16LE_pack w) = w \<and> UInt16BE_pack w = rev (UInt16LE_pack w) \<and> UInt16BE_unpack (UInt16BE_pack w) = w) \<and>
   (\<forall>w. UInt32LE_unpack (UInt32LE_pack w) = w \<and> UInt32BE_pack w = rev (UInt32LE_pack w) \<and> UInt32BE_unpack (UInt32BE_pack w) = w) \<and>
   (\<forall>w. UInt64LE_unpack (UInt64LE_pack w) = w \<and> UInt64BE_pack w = rev (UInt64LE_pack w) \<and> UInt64BE_unpack (UInt64BE_pack w) = w) \<and>
   (\<forall>v. inSigned 8 v \<longrightarrow> Int8_unpack (Int8_pack v) = v) \<and>
   (\<forall>v. inSigned 16 v \<longrightarrow> Int16LE_unpack (Int16LE_pack v) = v \<and> Int16BE_unpack (Int16BE_pack v) = v) \<and>
   (\<forall>v. inSigned 32 v \<longrightarrow> Int32LE_unpack (Int32LE_pack v) = v \<and> Int32BE_unpack (Int32BE_pack v) = v) \<and>
   (\<forall>v. inSigned 64 v \<longrightarrow> Int64LE_unpack (Int64LE_pack v) = v \<and> Int64BE_unpack (Int64BE_pack v) = v) \<and>
   restores_arrays UInt8_pack UInt8_unpack 1 (\<lambda>_. True) \<and>
   restores_arrays UInt16LE_pack UInt16LE_unpack 2 (\<lambda>_. True) \<and> restores_arrays UInt16BE_pack UInt16BE_unpack 2 (\<lambda>_. True) \<and>
   restores_arrays UInt32LE_pack UInt32LE_unpack 4 (\<lambda>_. True) \<and> restores_arrays UInt32BE_pack UInt32BE_unpack 4 (\<lambda>_. True) \<and>
   restores_arrays UInt64LE_pack UInt64LE_unpack 8 (\<lambda>_. True) \<and> restores_arrays UInt64BE_pack UInt64BE_unpack 8 (\<lambda>_. True) \<and>
   restores_arrays Int8_pack Int8_unpack 1 (inSigned 8) \<and>
   restores_arrays Int16LE_pack Int16LE_unpack 2 (inSigned 16) \<and> restores_arrays Int16BE_pack Int16BE_unpack 2 (inSigned 16) \<and>
   restores_arrays Int32LE_pack Int32LE_unpack 4 (inSigned 32) \<and> restores_arrays Int32BE_pack Int32BE_unpack 4 (inSigned 32) \<and>
   restores_arrays Int64LE_pack Int64LE_unpack 8 (inSigned 64) \<and> restores_arrays Int64BE_pack Int64BE_unpack 8 (inSigned 64)"
  by (intro conjI allI impI array_restored TrueI inSigned_0)
     (simp_all add: u8.unpack_pack u16le.unpack_pack u32le.unpack_pack u64le.unpack_pack u16be.unpack_pack
      u32be.unpack_pack u64be.unpack_pack i8.unpack_pack i16le.unpack_pack i32le.unpack_pack
      i64le.unpack_pack i16be.unpack_pack i32be.unpack_pack i64be.unpack_pack, simp_all add: pack_be_rev)

lemma packed_integers_roundtrip_witness:
  "inSigned 16 (- 32768) \<and> Int16LE_unpack (Int16LE_pack (- 32768)) = - 32768 \<and>
   inSigned 64 (- 1) \<and> Int64BE_unpack (Int64BE_pack (- 1)) = - 1 \<and>
   unpackArray Int16BE_unpack 2 9 4 (packArray Int16BE_pack 2 0 6 [- 5, 300]) = [- 5, 300, 0, 9]"
proof -
  have ok: "inSigned 16 (- 32768)" "inSigned 64 (- 1)" "\<forall>v \<in> set [- 5, 300]. inSigned 16 v" by (simp_all add: inSigned_def)
  have "restores_arrays Int16BE_pack Int16BE_unpack 2 (inSigned 16)" using packed_integers_roundtrip by blast
  then have "unpackArray Int16BE_unpack 2 9 4 (packArray Int16BE_pack 2 0 6 [- 5, 300]) = fitTo 4 9 (fitTo (6 div 2) 0 [- 5, 300])"
    using ok(3) unfolding restores_arrays_def by blast
  moreover have "fitTo 4 9 (fitTo (6 div 2) 0 [- 5, 300 :: int]) = [- 5, 300, 0, 9]" by code_simp
  ultimately have "unpackArray Int16BE_unpack 2 9 4 (packArray Int16BE_pack 2 0 6 [- 5, 300]) = [- 5, 300, 0, 9]" by (rule trans)
  with ok packed_integers_roundtrip show ?thesis by blast
qed

text \<open> A small set is the set of the numbers of its bits: the operators compute union, difference,
  intersection, symmetric difference and membership, \<open>size\<close> counts the elements, \<open>allUpTo\<close> is an initial
  segment, and \<open>take\<close> ends, takes the smallest elements and leaves the others.
\<close>

theorem small_set_refines_set:
  fixes s u :: "32 word"
  assumes "t < 32"
  shows "elems (SmallSet_add t s) = insert t (elems s) \<and> elems (SmallSet_remove t s) = elems s - {t} \<and>
    (SmallSet_contains t s \<longleftrightarrow> t \<in> elems s) \<and> elems (SmallSet_set t flag s) = (if flag then insert t (elems s) else elems s - {t}) \<and>
    elems (SmallSet_allUpTo t :: 32 word) = {..t} \<and>
    elems (SmallSet_union s u) = elems s \<union> elems u \<and> elems (SmallSet_minus s u) = elems s - elems u \<and>
    elems (SmallSet_inter s u) = elems s \<inter> elems u \<and>
    elems (SmallSet_xor s u) = (elems s - elems u) \<union> (elems u - elems s) \<and>
    (SmallSet_containsAll s u \<longleftrightarrow> elems u \<subseteq> elems s) \<and> (SmallSet_containsAnyOf s u \<longleftrightarrow> elems s \<inter> elems u \<noteq> {}) \<and>
    (SmallSet_isUnitSet s \<longleftrightarrow> card (elems s) \<le> 1) \<and> SmallSet_size s = card (elems s) \<and>
    (\<exists>r s'. SmallSet_take n s = Some (r, s') \<and> elems r = set (take n (sorted_list_of_set (elems s))) \<and>
       elems s' = set (drop n (sorted_list_of_set (elems s))))"
  using elems_elements [where 'w = 32, of t] assms SmallSet_take_takes [of n s]
  by (simp add: elems_sets elems_queries isUnitSet_card SmallSet_size_card SmallSet_set_def)

lemma small_set_refines_set_witness:
  "(3 :: nat) < 32 \<and> elems (SmallSet_add 3 (5 :: 32 word)) = insert 3 (elems (5 :: 32 word))"
  using small_set_refines_set [of 3 5] by simp

text \<open> The bit operations compute what they are named after: the rotations are the rotations of words for
  every amount, also negative ones, reversal maps bit \<open>i\<close> to bit \<open>w - 1 - i\<close>, the population count
  is the number of bits that are set, and the logarithm is the position of the highest bit.
\<close>

theorem bit_operations_correct:
  "rotateLeft8 a8 c = word_rotl (nat (c mod 8)) a8 \<and> rotateLeft16 a16 c = word_rotl (nat (c mod 16)) a16 \<and>
   rotateLeft32 a32 c = word_rotl (nat (c mod 32)) a32 \<and> rotateRight32 a32 c = word_rotr (nat (c mod 32)) a32 \<and>
   rotateLeft64 a64 c = word_rotl (nat (c mod 64)) a64 \<and> rotateRight64 a64 c = word_rotr (nat (c mod 64)) a64 \<and>
   bitPop8 a8 = card {i. bit a8 i} \<and> bitPop16 a16 = card {i. bit a16 i} \<and>
   bitPop32 a32 = card {i. bit a32 i} \<and> bitPop64 a64 = card {i. bit a64 i} \<and>
   (\<forall>i < 8. bit (bitReverse8 a8) i = bit a8 (7 - i)) \<and> (\<forall>i < 16. bit (bitReverse16 a16) i = bit a16 (15 - i)) \<and>
   (\<forall>i < 32. bit (bitReverse32 a32) i = bit a32 (31 - i)) \<and> (\<forall>i < 64. bit (bitReverse64 a64) i = bit a64 (63 - i)) \<and>
   (if a32 = 0 then bitLog32 a32 = - 1 else 0 \<le> bitLog32 a32 \<and> drop_bit (nat (bitLog32 a32)) a32 = 1) \<and>
   (if a64 = 0 then bitLog64 a64 = - 1 else 0 \<le> bitLog64 a64 \<and> drop_bit (nat (bitLog64 a64)) a64 = 1)"
proof -
  have "bitLog32 0 = - 1" "bitLog64 0 = - 1" by (simp_all add: bitLog32_def bitLog64_def)
  then show ?thesis
    by (simp add: rotateLeft8_rotl rotateLeft16_rotl rotateLeft32_rotl rotateRight32_rotr rotateLeft64_rotl
        rotateRight64_rotr bitPop8_card bitPop16_card bitPop32_card bitPop64_card bitReverse8_bits
        bitReverse16_bits bitReverse32_bits bitReverse64_bits bitLog32_top bitLog64_top)
qed

lemma bit_operations_correct_witness:
  "bit (bitReverse8 1) (7 :: nat) = bit (1 :: 8 word) (7 - 7) \<and> bitPop32 6 = card {i. bit (6 :: 32 word) i}"
  using bit_operations_correct [where ?a8.0 = 1 and ?a32.0 = 6] by auto

end
