(* ===== verification/Afl_Digest.thy ===== *)
theory Afl_Digest
  imports Afl_Bits Afl_String
begin

text \<open>
  The message digests of \<open>afl/checksums\<close>: MD5, SHA-1 and the SHA-2 family, with their block buffers and
  counters, and the operations of the base class \<open>Hash\<close>: HMAC, PBKDF2 and hexadecimal output. A digest is
  a record of its virtual methods; \<open>getHash\<close> takes the size of the caller's buffer and gives the octets of
  the range it returns.
\<close>

unbundle bit_operations_syntax

section \<open>The interface\<close>

record 's hash_ops =
  h_clear :: "'s \<Rightarrow> 's"
  h_add :: "octet list \<Rightarrow> 's \<Rightarrow> 's"
  h_getHashSize :: nat
  h_getBlockSize :: nat
  h_getHash :: "nat \<Rightarrow> 's \<Rightarrow> octet list"

text \<open>A while loop that eats whole blocks: the new state, and the data that is left.\<close>

function eatBlocks :: "nat \<Rightarrow> ('h \<Rightarrow> octet list \<Rightarrow> 'h) \<Rightarrow> 'h \<Rightarrow> octet list \<Rightarrow> 'h \<times> octet list" where
  "eatBlocks n f h data =
     (if 0 < n \<and> n \<le> length data then eatBlocks n f (f h (take n data)) (drop n data) else (h, data))"
  by pat_completeness auto

termination by (relation "measure (\<lambda>(n, f, h, data). length data)") auto

declare eatBlocks.simps [simp del]

section \<open>MD5\<close>

record md5 =
  md5_count :: "64 word"
  md5_state :: "32 word list"
  md5_buffer :: "octet list"

abbreviation (input) S11 :: int where "S11 \<equiv> 7"
abbreviation (input) S12 :: int where "S12 \<equiv> 12"
abbreviation (input) S13 :: int where "S13 \<equiv> 17"
abbreviation (input) S14 :: int where "S14 \<equiv> 22"
abbreviation (input) S21 :: int where "S21 \<equiv> 5"
abbreviation (input) S22 :: int where "S22 \<equiv> 9"
abbreviation (input) S23 :: int where "S23 \<equiv> 14"
abbreviation (input) S24 :: int where "S24 \<equiv> 20"
abbreviation (input) S31 :: int where "S31 \<equiv> 4"
abbreviation (input) S32 :: int where "S32 \<equiv> 11"
abbreviation (input) S33 :: int where "S33 \<equiv> 16"
abbreviation (input) S34 :: int where "S34 \<equiv> 23"
abbreviation (input) S41 :: int where "S41 \<equiv> 6"
abbreviation (input) S42 :: int where "S42 \<equiv> 10"
abbreviation (input) S43 :: int where "S43 \<equiv> 15"
abbreviation (input) S44 :: int where "S44 \<equiv> 21"

definition PADDING :: "octet list" where
  "PADDING = CHR 0x80 # replicate 63 (CHR 0x00)"

definition MD5_F :: "32 word \<Rightarrow> 32 word \<Rightarrow> 32 word \<Rightarrow> 32 word" where
  "MD5_F x y z = (x AND y) OR (NOT x AND z)"

definition MD5_G :: "32 word \<Rightarrow> 32 word \<Rightarrow> 32 word \<Rightarrow> 32 word" where
  "MD5_G x y z = (x AND z) OR (y AND NOT z)"

definition MD5_H :: "32 word \<Rightarrow> 32 word \<Rightarrow> 32 word \<Rightarrow> 32 word" where
  "MD5_H x y z = x XOR y XOR z"

definition MD5_I :: "32 word \<Rightarrow> 32 word \<Rightarrow> 32 word \<Rightarrow> 32 word" where
  "MD5_I x y z = y XOR (x OR NOT z)"

definition MD5_FF :: "32 word \<Rightarrow> 32 word \<Rightarrow> 32 word \<Rightarrow> 32 word \<Rightarrow> 32 word \<Rightarrow> int \<Rightarrow> 32 word \<Rightarrow> 32 word" where
  "MD5_FF a b c d x s ac = rotateLeft32 (a + (MD5_F b c d + x + ac)) s + b"

definition MD5_GG :: "32 word \<Rightarrow> 32 word \<Rightarrow> 32 word \<Rightarrow> 32 word \<Rightarrow> 32 word \<Rightarrow> int \<Rightarrow> 32 word \<Rightarrow> 32 word" where
  "MD5_GG a b c d x s ac = rotateLeft32 (a + (MD5_G b c d + x + ac)) s + b"

definition MD5_HH :: "32 word \<Rightarrow> 32 word \<Rightarrow> 32 word \<Rightarrow> 32 word \<Rightarrow> 32 word \<Rightarrow> int \<Rightarrow> 32 word \<Rightarrow> 32 word" where
  "MD5_HH a b c d x s ac = rotateLeft32 (a + (MD5_H b c d + x + ac)) s + b"

definition MD5_II :: "32 word \<Rightarrow> 32 word \<Rightarrow> 32 word \<Rightarrow> 32 word \<Rightarrow> 32 word \<Rightarrow> int \<Rightarrow> 32 word \<Rightarrow> 32 word" where
  "MD5_II a b c d x s ac = rotateLeft32 (a + (MD5_I b c d + x + ac)) s + b"

definition MD5_transform :: "32 word list \<Rightarrow> octet list \<Rightarrow> 32 word list" where
  "MD5_transform state block =
     (let a = state ! 0; b = state ! 1; c = state ! 2; d = state ! 3;
          x = unpackArray UInt32LE_unpack 4 0 16 block;
          a = MD5_FF a b c d (x ! 0) S11 0xD76AA478;
          d = MD5_FF d a b c (x ! 1) S12 0xE8C7B756;
          c = MD5_FF c d a b (x ! 2) S13 0x242070DB;
          b = MD5_FF b c d a (x ! 3) S14 0xC1BDCEEE;
          a = MD5_FF a b c d (x ! 4) S11 0xF57C0FAF;
          d = MD5_FF d a b c (x ! 5) S12 0x4787C62A;
          c = MD5_FF c d a b (x ! 6) S13 0xA8304613;
          b = MD5_FF b c d a (x ! 7) S14 0xFD469501;
          a = MD5_FF a b c d (x ! 8) S11 0x698098D8;
          d = MD5_FF d a b c (x ! 9) S12 0x8B44F7AF;
          c = MD5_FF c d a b (x ! 10) S13 0xFFFF5BB1;
          b = MD5_FF b c d a (x ! 11) S14 0x895CD7BE;
          a = MD5_FF a b c d (x ! 12) S11 0x6B901122;
          d = MD5_FF d a b c (x ! 13) S12 0xFD987193;
          c = MD5_FF c d a b (x ! 14) S13 0xA679438E;
          b = MD5_FF b c d a (x ! 15) S14 0x49B40821;
          a = MD5_GG a b c d (x ! 1) S21 0xF61E2562;
          d = MD5_GG d a b c (x ! 6) S22 0xC040B340;
          c = MD5_GG c d a b (x ! 11) S23 0x265E5A51;
          b = MD5_GG b c d a (x ! 0) S24 0xE9B6C7AA;
          a = MD5_GG a b c d (x ! 5) S21 0xD62F105D;
          d = MD5_GG d a b c (x ! 10) S22 0x2441453;
          c = MD5_GG c d a b (x ! 15) S23 0xD8A1E681;
          b = MD5_GG b c d a (x ! 4) S24 0xE7D3FBC8;
          a = MD5_GG a b c d (x ! 9) S21 0x21E1CDE6;
          d = MD5_GG d a b c (x ! 14) S22 0xC33707D6;
          c = MD5_GG c d a b (x ! 3) S23 0xF4D50D87;
          b = MD5_GG b c d a (x ! 8) S24 0x455A14ED;
          a = MD5_GG a b c d (x ! 13) S21 0xA9E3E905;
          d = MD5_GG d a b c (x ! 2) S22 0xFCEFA3F8;
          c = MD5_GG c d a b (x ! 7) S23 0x676F02D9;
          b = MD5_GG b c d a (x ! 12) S24 0x8D2A4C8A;
          a = MD5_HH a b c d (x ! 5) S31 0xFFFA3942;
          d = MD5_HH d a b c (x ! 8) S32 0x8771F681;
          c = MD5_HH c d a b (x ! 11) S33 0x6D9D6122;
          b = MD5_HH b c d a (x ! 14) S34 0xFDE5380C;
          a = MD5_HH a b c d (x ! 1) S31 0xA4BEEA44;
          d = MD5_HH d a b c (x ! 4) S32 0x4BDECFA9;
          c = MD5_HH c d a b (x ! 7) S33 0xF6BB4B60;
          b = MD5_HH b c d a (x ! 10) S34 0xBEBFBC70;
          a = MD5_HH a b c d (x ! 13) S31 0x289B7EC6;
          d = MD5_HH d a b c (x ! 0) S32 0xEAA127FA;
          c = MD5_HH c d a b (x ! 3) S33 0xD4EF3085;
          b = MD5_HH b c d a (x ! 6) S34 0x4881D05;
          a = MD5_HH a b c d (x ! 9) S31 0xD9D4D039;
          d = MD5_HH d a b c (x ! 12) S32 0xE6DB99E5;
          c = MD5_HH c d a b (x ! 15) S33 0x1FA27CF8;
          b = MD5_HH b c d a (x ! 2) S34 0xC4AC5665;
          a = MD5_II a b c d (x ! 0) S41 0xF4292244;
          d = MD5_II d a b c (x ! 7) S42 0x432AFF97;
          c = MD5_II c d a b (x ! 14) S43 0xAB9423A7;
          b = MD5_II b c d a (x ! 5) S44 0xFC93A039;
          a = MD5_II a b c d (x ! 12) S41 0x655B59C3;
          d = MD5_II d a b c (x ! 3) S42 0x8F0CCC92;
          c = MD5_II c d a b (x ! 10) S43 0xFFEFF47D;
          b = MD5_II b c d a (x ! 1) S44 0x85845DD1;
          a = MD5_II a b c d (x ! 8) S41 0x6FA87E4F;
          d = MD5_II d a b c (x ! 15) S42 0xFE2CE6E0;
          c = MD5_II c d a b (x ! 6) S43 0xA3014314;
          b = MD5_II b c d a (x ! 13) S44 0x4E0811A1;
          a = MD5_II a b c d (x ! 4) S41 0xF7537E82;
          d = MD5_II d a b c (x ! 11) S42 0xBD3AF235;
          c = MD5_II c d a b (x ! 2) S43 0x2AD7D2BB;
          b = MD5_II b c d a (x ! 9) S44 0xEB86D391
      in [state ! 0 + a, state ! 1 + b, state ! 2 + c, state ! 3 + d])"

definition MD5_clear :: "md5 \<Rightarrow> md5" where
  "MD5_clear s = s\<lparr>md5_count := 0, md5_state := [0x67452301, 0xEFCDAB89, 0x98BADCFE, 0x10325476]\<rparr>"

text \<open>The constructor; the content of the buffer is not initialized.\<close>

definition MD5_new :: "octet list \<Rightarrow> md5" where
  "MD5_new junk = MD5_clear \<lparr>md5_count = 0, md5_state = replicate 4 0, md5_buffer = junk\<rparr>"

definition MD5_add :: "octet list \<Rightarrow> md5 \<Rightarrow> md5" where
  "MD5_add data s =
     (let index = unat (md5_count s AND 0x3F);
          remainder = 64 - index;
          s = s\<lparr>md5_count := md5_count s + of_nat (length data)\<rparr>
      in if length data \<ge> remainder
         then let buffer = overwrite (md5_buffer s) index (take remainder data);
                  state = MD5_transform (md5_state s) buffer;
                  (state, rest) = eatBlocks 64 MD5_transform state (drop remainder data)
              in s\<lparr>md5_state := state, md5_buffer := overwrite buffer 0 rest\<rparr>
         else s\<lparr>md5_buffer := overwrite (md5_buffer s) index data\<rparr>)"

definition MD5_getHash :: "nat \<Rightarrow> md5 \<Rightarrow> octet list" where
  "MD5_getHash n s =
     (let bits = UInt64LE_pack (push_bit 3 (md5_count s));
          index = unat (md5_count s AND 0x3F);
          padLen = (if index < 56 then 56 - index else 120 - index);
          clone = MD5_add bits (MD5_add (take padLen PADDING) s)
      in take n (packArray UInt32LE_pack 4 0 16 (md5_state clone)))"

definition MD5_ops :: "md5 hash_ops" where
  "MD5_ops = \<lparr>h_clear = MD5_clear, h_add = MD5_add, h_getHashSize = 16, h_getBlockSize = 64, h_getHash = MD5_getHash\<rparr>"

section \<open>SHA-1\<close>

record sha1 =
  sha1_block :: "octet list"
  sha1_state :: "32 word list"
  sha1_bytes :: "64 word"

text \<open>One loop of 20 rounds, with the function and the constant of the loop.\<close>

fun SHA1_rounds :: "(32 word \<Rightarrow> 32 word \<Rightarrow> 32 word \<Rightarrow> 32 word) \<Rightarrow> 32 word \<Rightarrow> 32 word list \<Rightarrow>
    32 word \<times> 32 word \<times> 32 word \<times> 32 word \<times> 32 word \<Rightarrow> 32 word \<times> 32 word \<times> 32 word \<times> 32 word \<times> 32 word" where
  "SHA1_rounds f K [] regs = regs"
| "SHA1_rounds f K (w # ws) (A, B, C, D, E) =
     SHA1_rounds f K ws (rotateLeft32 A 5 + f B C D + E + w + K, A, rotateLeft32 B 30, C, D)"

text \<open>The message schedule: \<open>W[t]\<close> for \<open>t\<close> from 16 to 79.\<close>

definition SHA1_schedule :: "32 word list \<Rightarrow> 32 word list" where
  "SHA1_schedule W =
     fold (\<lambda>t W. W @ [rotateLeft32 (W ! (t - 3) XOR W ! (t - 8) XOR W ! (t - 14) XOR W ! (t - 16)) 1]) [16..<80] W"

definition SHA1_processBlock :: "32 word list \<Rightarrow> octet list \<Rightarrow> 32 word list" where
  "SHA1_processBlock state block =
     (let K0 = 0x5A827999; K1 = 0x6ED9EBA1; K2 = 0x8F1BBCDC; K3 = 0xCA62C1D6;
          W = SHA1_schedule (unpackArray UInt32BE_unpack 4 0 16 block);
          regs = (state ! 0, state ! 1, state ! 2, state ! 3, state ! 4);
          regs = SHA1_rounds (\<lambda>B C D. (B AND C) OR (NOT B AND D)) K0 (take 20 W) regs;
          regs = SHA1_rounds (\<lambda>B C D. B XOR C XOR D) K1 (take 20 (drop 20 W)) regs;
          regs = SHA1_rounds (\<lambda>B C D. (B AND C) OR ((B OR C) AND D)) K2 (take 20 (drop 40 W)) regs;
          (A, B, C, D, E) = SHA1_rounds (\<lambda>B C D. B XOR C XOR D) K3 (take 20 (drop 60 W)) regs
      in [state ! 0 + A, state ! 1 + B, state ! 2 + C, state ! 3 + D, state ! 4 + E])"

definition SHA1_clear :: "sha1 \<Rightarrow> sha1" where
  "SHA1_clear s = s\<lparr>sha1_bytes := 0, sha1_state := [0x67452301, 0xEFCDAB89, 0x98BADCFE, 0x10325476, 0xC3D2E1F0]\<rparr>"

definition SHA1_new :: "octet list \<Rightarrow> sha1" where
  "SHA1_new junk = SHA1_clear \<lparr>sha1_block = junk, sha1_state = replicate 5 0, sha1_bytes = 0\<rparr>"

definition SHA1_add :: "octet list \<Rightarrow> sha1 \<Rightarrow> sha1" where
  "SHA1_add data s =
     (let index = unat (sha1_bytes s mod 64);
          s = s\<lparr>sha1_bytes := sha1_bytes s + of_nat (length data)\<rparr>;
          room = 64 - index;
          (block, state, index, data) =
            (if index \<noteq> 0 \<and> length data \<ge> room
             then let block = overwrite (sha1_block s) index (take room data)
                  in (block, SHA1_processBlock (sha1_state s) block, 0, drop room data)
             else (sha1_block s, sha1_state s, index, data));
          (state, rest) = eatBlocks 64 SHA1_processBlock state data
      in s\<lparr>sha1_state := state, sha1_block := overwrite block index rest\<rparr>)"

definition SHA1_padMessage :: "sha1 \<Rightarrow> sha1" where
  "SHA1_padMessage s =
     (let index = unat (sha1_bytes s mod 64);
          encodedSize = UInt64BE_pack (push_bit 3 (sha1_bytes s));
          padSize = (if index > 55 then 120 - index else 56 - index)
      in SHA1_add encodedSize (SHA1_add (take padSize PADDING) s))"

definition SHA1_getHash :: "nat \<Rightarrow> sha1 \<Rightarrow> octet list" where
  "SHA1_getHash n s = take n (packArray UInt32BE_pack 4 0 20 (sha1_state (SHA1_padMessage s)))"

definition SHA1_ops :: "sha1 hash_ops" where
  "SHA1_ops = \<lparr>h_clear = SHA1_clear, h_add = SHA1_add, h_getHashSize = 20, h_getBlockSize = 64, h_getHash = SHA1_getHash\<rparr>"

section \<open>SHA-2\<close>

text \<open>The template parameter: the elementary functions and the constants of a word size.\<close>

record 'w sha2_traits =
  t_ch :: "'w \<Rightarrow> 'w \<Rightarrow> 'w \<Rightarrow> 'w"
  t_maj :: "'w \<Rightarrow> 'w \<Rightarrow> 'w \<Rightarrow> 'w"
  t_bsig0 :: "'w \<Rightarrow> 'w"
  t_bsig1 :: "'w \<Rightarrow> 'w"
  t_ssig0 :: "'w \<Rightarrow> 'w"
  t_ssig1 :: "'w \<Rightarrow> 'w"
  t_ks :: "'w list"
  t_iterations :: nat
  t_unpack :: "octet list \<Rightarrow> 'w list"
  t_pack_length :: "64 word \<Rightarrow> 64 word \<Rightarrow> octet list"
  t_blockSize :: nat
  t_lengthSize :: nat

record 'w sha2 =
  s2_hs :: "'w list"
  s2_counterLo :: "64 word"
  s2_counterHi :: "64 word"
  s2_fill :: nat
  s2_block :: "octet list"

definition SHA2Core_init :: "'w list \<Rightarrow> 'w sha2 \<Rightarrow> 'w sha2" where
  "SHA2Core_init init s = s\<lparr>s2_hs := init, s2_counterLo := 0, s2_counterHi := 0, s2_fill := 0\<rparr>"

definition SHA2Core_schedule :: "('w::plus) sha2_traits \<Rightarrow> 'w list \<Rightarrow> 'w list" where
  "SHA2Core_schedule T ms =
     fold (\<lambda>t ws. ws @ [t_ssig1 T (ws ! (t - 2)) + ws ! (t - 7) + t_ssig0 T (ws ! (t - 15)) + ws ! (t - 16)])
       [16..<t_iterations T] ms"

fun SHA2Core_rounds :: "('w::plus) sha2_traits \<Rightarrow> ('w \<times> 'w) list \<Rightarrow>
    'w \<times> 'w \<times> 'w \<times> 'w \<times> 'w \<times> 'w \<times> 'w \<times> 'w \<Rightarrow> 'w \<times> 'w \<times> 'w \<times> 'w \<times> 'w \<times> 'w \<times> 'w \<times> 'w" where
  "SHA2Core_rounds T [] regs = regs"
| "SHA2Core_rounds T ((k, w) # kws) (a, b, c, d, e, f, g, h) =
     (let T1 = h + t_bsig1 T e + t_ch T e f g + k + w;
          T2 = t_bsig0 T a + t_maj T a b c
      in SHA2Core_rounds T kws (T1 + T2, a, b, c, d + T1, e, f, g))"

definition SHA2Core_block :: "('w::plus) sha2_traits \<Rightarrow> 'w list \<Rightarrow> 'w list \<Rightarrow> 'w list" where
  "SHA2Core_block T hs ms =
     (let ws = SHA2Core_schedule T ms;
          (a, b, c, d, e, f, g, h) =
            SHA2Core_rounds T (zip (t_ks T) ws) (hs ! 0, hs ! 1, hs ! 2, hs ! 3, hs ! 4, hs ! 5, hs ! 6, hs ! 7)
      in [hs ! 0 + a, hs ! 1 + b, hs ! 2 + c, hs ! 3 + d, hs ! 4 + e, hs ! 5 + f, hs ! 6 + g, hs ! 7 + h])"

text \<open>
  One round of the loop of \<open>add\<close>, with the octets that fit; the loop ends since a round takes at least one
  octet as long as the block is not full, which it is not between two calls.
\<close>

definition SHA2Core_step :: "('w::plus) sha2_traits \<Rightarrow> octet list \<Rightarrow> 'w sha2 \<Rightarrow> 'w sha2" where
  "SHA2Core_step T buf s =
     (let now = length buf;
          lo = s2_counterLo s + 8 * of_nat now;
          s = s\<lparr>s2_block := overwrite (s2_block s) (s2_fill s) buf, s2_fill := s2_fill s + now, s2_counterLo := lo,
                s2_counterHi := (if lo < 8 * of_nat now then s2_counterHi s + 1 else s2_counterHi s)\<rparr>
      in if s2_fill s \<ge> t_blockSize T
         then s\<lparr>s2_hs := SHA2Core_block T (s2_hs s) (t_unpack T (s2_block s)), s2_fill := 0\<rparr>
         else s)"

function SHA2Core_add :: "('w::plus) sha2_traits \<Rightarrow> octet list \<Rightarrow> 'w sha2 \<Rightarrow> 'w sha2" where
  "SHA2Core_add T buf s =
     (if buf \<noteq> [] \<and> s2_fill s < t_blockSize T
      then let now = min (length buf) (t_blockSize T - s2_fill s)
           in SHA2Core_add T (drop now buf) (SHA2Core_step T (take now buf) s)
      else s)"
  by pat_completeness auto

termination by (relation "measure (\<lambda>(T, buf, s). length buf)") auto

declare SHA2Core_add.simps [simp del]

text \<open>The loop that pads with zeros; at most as many rounds as a block has octets.\<close>

fun SHA2Core_zeros :: "nat \<Rightarrow> ('w::plus) sha2_traits \<Rightarrow> 'w sha2 \<Rightarrow> 'w sha2" where
  "SHA2Core_zeros 0 T s = s"
| "SHA2Core_zeros (Suc fuel) T s =
     (if s2_fill s \<noteq> t_blockSize T - t_lengthSize T then SHA2Core_zeros fuel T (SHA2Core_add T [CHR 0x00] s) else s)"

definition SHA2Core_pad :: "('w::plus) sha2_traits \<Rightarrow> 'w sha2 \<Rightarrow> 'w sha2" where
  "SHA2Core_pad T s =
     (let len = s2_counterLo s; len_hi = s2_counterHi s;
          s = SHA2Core_add T [CHR 0x80] s;
          s = SHA2Core_zeros (t_blockSize T) T s
      in SHA2Core_add T (t_pack_length T len len_hi) s)"

definition SHA2_ch :: "'w::len word \<Rightarrow> 'w word \<Rightarrow> 'w word \<Rightarrow> 'w word" where
  "SHA2_ch x y z = (x AND y) XOR (NOT x AND z)"

definition SHA2_maj :: "'w::len word \<Rightarrow> 'w word \<Rightarrow> 'w word \<Rightarrow> 'w word" where
  "SHA2_maj x y z = (x AND y) XOR (x AND z) XOR (y AND z)"

definition SHA2_32 :: "32 word sha2_traits" where
  "SHA2_32 = \<lparr>
     t_ch = SHA2_ch, t_maj = SHA2_maj,
     t_bsig0 = (\<lambda>x. rotateRight32 x 2 XOR rotateRight32 x 13 XOR rotateRight32 x 22),
     t_bsig1 = (\<lambda>x. rotateRight32 x 6 XOR rotateRight32 x 11 XOR rotateRight32 x 25),
     t_ssig0 = (\<lambda>x. rotateRight32 x 7 XOR rotateRight32 x 18 XOR drop_bit 3 x),
     t_ssig1 = (\<lambda>x. rotateRight32 x 17 XOR rotateRight32 x 19 XOR drop_bit 10 x),
     t_ks =
      [0x428A2F98, 0x71374491, 0xB5C0FBCF, 0xE9B5DBA5, 0x3956C25B, 0x59F111F1, 0x923F82A4, 0xAB1C5ED5,
      0xD807AA98, 0x12835B01, 0x243185BE, 0x550C7DC3, 0x72BE5D74, 0x80DEB1FE, 0x9BDC06A7, 0xC19BF174,
      0xE49B69C1, 0xEFBE4786, 0xFC19DC6, 0x240CA1CC, 0x2DE92C6F, 0x4A7484AA, 0x5CB0A9DC, 0x76F988DA,
      0x983E5152, 0xA831C66D, 0xB00327C8, 0xBF597FC7, 0xC6E00BF3, 0xD5A79147, 0x6CA6351, 0x14292967,
      0x27B70A85, 0x2E1B2138, 0x4D2C6DFC, 0x53380D13, 0x650A7354, 0x766A0ABB, 0x81C2C92E, 0x92722C85,
      0xA2BFE8A1, 0xA81A664B, 0xC24B8B70, 0xC76C51A3, 0xD192E819, 0xD6990624, 0xF40E3585, 0x106AA070,
      0x19A4C116, 0x1E376C08, 0x2748774C, 0x34B0BCB5, 0x391C0CB3, 0x4ED8AA4A, 0x5B9CCA4F, 0x682E6FF3,
      0x748F82EE, 0x78A5636F, 0x84C87814, 0x8CC70208, 0x90BEFFFA, 0xA4506CEB, 0xBEF9A3F7, 0xC67178F2],
     t_iterations = 64,
     t_unpack = unpackArray UInt32BE_unpack 4 0 16,
     t_pack_length = (\<lambda>lo hi. UInt64BE_pack lo),
     t_blockSize = 64, t_lengthSize = 8\<rparr>"

definition SHA2_64 :: "64 word sha2_traits" where
  "SHA2_64 = \<lparr>
     t_ch = SHA2_ch, t_maj = SHA2_maj,
     t_bsig0 = (\<lambda>x. rotateRight64 x 28 XOR rotateRight64 x 34 XOR rotateRight64 x 39),
     t_bsig1 = (\<lambda>x. rotateRight64 x 14 XOR rotateRight64 x 18 XOR rotateRight64 x 41),
     t_ssig0 = (\<lambda>x. rotateRight64 x 1 XOR rotateRight64 x 8 XOR drop_bit 7 x),
     t_ssig1 = (\<lambda>x. rotateRight64 x 19 XOR rotateRight64 x 61 XOR drop_bit 6 x),
     t_ks =
      [0x428A2F98D728AE22, 0x7137449123EF65CD, 0xB5C0FBCFEC4D3B2F, 0xE9B5DBA58189DBBC,
      0x3956C25BF348B538, 0x59F111F1B605D019, 0x923F82A4AF194F9B, 0xAB1C5ED5DA6D8118,
      0xD807AA98A3030242, 0x12835B0145706FBE, 0x243185BE4EE4B28C, 0x550C7DC3D5FFB4E2,
      0x72BE5D74F27B896F, 0x80DEB1FE3B1696B1, 0x9BDC06A725C71235, 0xC19BF174CF692694,
      0xE49B69C19EF14AD2, 0xEFBE4786384F25E3, 0xFC19DC68B8CD5B5, 0x240CA1CC77AC9C65,
      0x2DE92C6F592B0275, 0x4A7484AA6EA6E483, 0x5CB0A9DCBD41FBD4, 0x76F988DA831153B5,
      0x983E5152EE66DFAB, 0xA831C66D2DB43210, 0xB00327C898FB213F, 0xBF597FC7BEEF0EE4,
      0xC6E00BF33DA88FC2, 0xD5A79147930AA725, 0x6CA6351E003826F, 0x142929670A0E6E70,
      0x27B70A8546D22FFC, 0x2E1B21385C26C926, 0x4D2C6DFC5AC42AED, 0x53380D139D95B3DF,
      0x650A73548BAF63DE, 0x766A0ABB3C77B2A8, 0x81C2C92E47EDAEE6, 0x92722C851482353B,
      0xA2BFE8A14CF10364, 0xA81A664BBC423001, 0xC24B8B70D0F89791, 0xC76C51A30654BE30,
      0xD192E819D6EF5218, 0xD69906245565A910, 0xF40E35855771202A, 0x106AA07032BBD1B8,
      0x19A4C116B8D2D0C8, 0x1E376C085141AB53, 0x2748774CDF8EEB99, 0x34B0BCB5E19B48A8,
      0x391C0CB3C5C95A63, 0x4ED8AA4AE3418ACB, 0x5B9CCA4F7763E373, 0x682E6FF3D6B2B8A3,
      0x748F82EE5DEFB2FC, 0x78A5636F43172F60, 0x84C87814A1F0AB72, 0x8CC702081A6439EC,
      0x90BEFFFA23631E28, 0xA4506CEBDE82BDE9, 0xBEF9A3F7B2C67915, 0xC67178F2E372532B,
      0xCA273ECEEA26619C, 0xD186B8C721C0C207, 0xEADA7DD6CDE0EB1E, 0xF57D4F7FEE6ED178,
      0x6F067AA72176FBA, 0xA637DC5A2C898A6, 0x113F9804BEF90DAE, 0x1B710B35131C471B,
      0x28DB77F523047D84, 0x32CAAB7B40C72493, 0x3C9EBE0A15C9BEBC, 0x431D67C49C100D4C,
      0x4CC5D4BECB3E42B6, 0x597F299CFC657E2A, 0x5FCB6FAB3AD6FAEC, 0x6C44198C4A475817],
     t_iterations = 80,
     t_unpack = unpackArray UInt64BE_unpack 8 0 16,
     t_pack_length = (\<lambda>lo hi. UInt64BE_pack hi @ UInt64BE_pack lo),
     t_blockSize = 128, t_lengthSize = 16\<rparr>"

text \<open>The digests of the family differ in the initial value, the word size and the size of the digest.\<close>

definition SHA224_INIT :: "32 word list" where
  "SHA224_INIT =
     [0xC1059ED8, 0x367CD507, 0x3070DD17, 0xF70E5939,
      0xFFC00B31, 0x68581511, 0x64F98FA7, 0xBEFA4FA4]"

definition SHA224_clear :: "32 word sha2 \<Rightarrow> 32 word sha2" where
  "SHA224_clear s = SHA2Core_init SHA224_INIT s"

definition SHA224_add :: "octet list \<Rightarrow> 32 word sha2 \<Rightarrow> 32 word sha2" where
  "SHA224_add data s = SHA2Core_add SHA2_32 data s"

definition SHA224_getHash :: "nat \<Rightarrow> 32 word sha2 \<Rightarrow> octet list" where
  "SHA224_getHash n s = packArray UInt32BE_pack 4 0 (min n 28) (s2_hs (SHA2Core_pad SHA2_32 s))"

definition SHA224_ops :: "32 word sha2 hash_ops" where
  "SHA224_ops = \<lparr>h_clear = SHA224_clear, h_add = SHA224_add, h_getHashSize = 28, h_getBlockSize = 64,
     h_getHash = SHA224_getHash\<rparr>"

definition SHA256_INIT :: "32 word list" where
  "SHA256_INIT =
     [0x6A09E667, 0xBB67AE85, 0x3C6EF372, 0xA54FF53A,
      0x510E527F, 0x9B05688C, 0x1F83D9AB, 0x5BE0CD19]"

definition SHA256_clear :: "32 word sha2 \<Rightarrow> 32 word sha2" where
  "SHA256_clear s = SHA2Core_init SHA256_INIT s"

definition SHA256_add :: "octet list \<Rightarrow> 32 word sha2 \<Rightarrow> 32 word sha2" where
  "SHA256_add data s = SHA2Core_add SHA2_32 data s"

definition SHA256_getHash :: "nat \<Rightarrow> 32 word sha2 \<Rightarrow> octet list" where
  "SHA256_getHash n s = packArray UInt32BE_pack 4 0 (min n 32) (s2_hs (SHA2Core_pad SHA2_32 s))"

definition SHA256_ops :: "32 word sha2 hash_ops" where
  "SHA256_ops = \<lparr>h_clear = SHA256_clear, h_add = SHA256_add, h_getHashSize = 32, h_getBlockSize = 64,
     h_getHash = SHA256_getHash\<rparr>"

definition SHA384_INIT :: "64 word list" where
  "SHA384_INIT =
     [0xCBBB9D5DC1059ED8, 0x629A292A367CD507, 0x9159015A3070DD17, 0x152FECD8F70E5939,
      0x67332667FFC00B31, 0x8EB44A8768581511, 0xDB0C2E0D64F98FA7, 0x47B5481DBEFA4FA4]"

definition SHA384_clear :: "64 word sha2 \<Rightarrow> 64 word sha2" where
  "SHA384_clear s = SHA2Core_init SHA384_INIT s"

definition SHA384_add :: "octet list \<Rightarrow> 64 word sha2 \<Rightarrow> 64 word sha2" where
  "SHA384_add data s = SHA2Core_add SHA2_64 data s"

definition SHA384_getHash :: "nat \<Rightarrow> 64 word sha2 \<Rightarrow> octet list" where
  "SHA384_getHash n s = packArray UInt64BE_pack 8 0 (min n 48) (s2_hs (SHA2Core_pad SHA2_64 s))"

definition SHA384_ops :: "64 word sha2 hash_ops" where
  "SHA384_ops = \<lparr>h_clear = SHA384_clear, h_add = SHA384_add, h_getHashSize = 48, h_getBlockSize = 128,
     h_getHash = SHA384_getHash\<rparr>"

definition SHA512_INIT :: "64 word list" where
  "SHA512_INIT =
     [0x6A09E667F3BCC908, 0xBB67AE8584CAA73B, 0x3C6EF372FE94F82B, 0xA54FF53A5F1D36F1,
      0x510E527FADE682D1, 0x9B05688C2B3E6C1F, 0x1F83D9ABFB41BD6B, 0x5BE0CD19137E2179]"

definition SHA512_clear :: "64 word sha2 \<Rightarrow> 64 word sha2" where
  "SHA512_clear s = SHA2Core_init SHA512_INIT s"

definition SHA512_add :: "octet list \<Rightarrow> 64 word sha2 \<Rightarrow> 64 word sha2" where
  "SHA512_add data s = SHA2Core_add SHA2_64 data s"

definition SHA512_getHash :: "nat \<Rightarrow> 64 word sha2 \<Rightarrow> octet list" where
  "SHA512_getHash n s = packArray UInt64BE_pack 8 0 (min n 64) (s2_hs (SHA2Core_pad SHA2_64 s))"

definition SHA512_ops :: "64 word sha2 hash_ops" where
  "SHA512_ops = \<lparr>h_clear = SHA512_clear, h_add = SHA512_add, h_getHashSize = 64, h_getBlockSize = 128,
     h_getHash = SHA512_getHash\<rparr>"

section \<open>Operations on digests\<close>

definition MAX_HASH_SIZE :: nat where "MAX_HASH_SIZE = 64"

definition MAX_BLOCK_SIZE :: nat where "MAX_BLOCK_SIZE = 128"

definition xorOctet :: "octet \<Rightarrow> octet \<Rightarrow> octet" where
  "xorOctet a b = char_of ((of_char a XOR of_char b) :: nat)"

text \<open>A buffer filled with zeros, with a key copied to its start, and each octet combined with a constant.\<close>

definition padKey :: "octet list \<Rightarrow> octet \<Rightarrow> octet list" where
  "padKey k c = map (\<lambda>b. xorOctet b c) (take MAX_BLOCK_SIZE k @ replicate (MAX_BLOCK_SIZE - length k) (CHR 0x00))"

definition computeHMAC :: "'s hash_ops \<Rightarrow> octet list \<Rightarrow> octet list \<Rightarrow> 's \<Rightarrow> 's result" where
  "computeHMAC ops k data s =
     (let hashSize = h_getHashSize ops; blockSize = h_getBlockSize ops
      in if hashSize > MAX_HASH_SIZE \<or> blockSize > MAX_BLOCK_SIZE \<or> hashSize > blockSize
         then Inl (UnsupportedException ''hmac'')
         else let (k, s) = (if length k > blockSize
                            then let s = h_add ops k (h_clear ops s) in (h_getHash ops MAX_HASH_SIZE s, s)
                            else (k, s));
                  k_ipad = padKey k (CHR 0x36);
                  k_opad = padKey k (CHR 0x5C);
                  s = h_add ops data (h_add ops (take blockSize k_ipad) (h_clear ops s));
                  digest = h_getHash ops MAX_HASH_SIZE s
              in Inr (h_add ops digest (h_add ops (take blockSize k_opad) (h_clear ops s))))"

text \<open>The iterations of a block: \<open>prev\<close> is the last value and \<open>acc\<close> the sum of all values.\<close>

fun pbkdf2_iterate :: "'s hash_ops \<Rightarrow> octet list \<Rightarrow> nat \<Rightarrow> octet list \<Rightarrow> octet list \<Rightarrow> 's \<Rightarrow>
    (octet list \<times> octet list \<times> 's) result" where
  "pbkdf2_iterate ops password 0 prev acc s = Inr (prev, acc, s)"
| "pbkdf2_iterate ops password (Suc n) prev acc s =
     (case computeHMAC ops password prev s of
        Inl e \<Rightarrow> Inl e
      | Inr s \<Rightarrow>
          let nxt = h_getHash ops MAX_HASH_SIZE s
          in if length nxt \<noteq> length prev then Inl AssertionFailed
             else pbkdf2_iterate ops password n nxt (map2 xorOctet acc nxt) s)"

text \<open>The loop over the blocks of output; \<open>out\<close> is the number of octets that are missing.\<close>

function pbkdf2_blocks :: "'s hash_ops \<Rightarrow> octet list \<Rightarrow> octet list \<Rightarrow> 32 word \<Rightarrow> nat \<Rightarrow> 32 word \<Rightarrow> 's \<Rightarrow>
    (octet list \<times> 's) result" where
  "pbkdf2_blocks ops password salt numIterations out index s =
     (if out = 0 then Inr ([], s)
      else let index = index + 1
           in case computeHMAC ops password (salt @ UInt32BE_pack index) s of
                Inl e \<Rightarrow> Inl e
              | Inr s \<Rightarrow>
                  let prev = h_getHash ops MAX_HASH_SIZE s
                  in (case pbkdf2_iterate ops password (unat numIterations - 1) prev prev s of
                        Inl e \<Rightarrow> Inl e
                      | Inr (prev', acc, s) \<Rightarrow>
                          if length prev = 0 then Inl AssertionFailed
                          else (case pbkdf2_blocks ops password salt numIterations (out - length prev) index s of
                                  Inl e \<Rightarrow> Inl e
                                | Inr (octets, s) \<Rightarrow> Inr (take (min out (length prev)) acc @ octets, s))))"
  by pat_completeness auto

termination by (relation "measure (\<lambda>(ops, password, salt, numIterations, out, index, s). out)") auto

declare pbkdf2_blocks.simps [simp del]

text \<open>The salt and the index have to fit into a buffer of \<open>MAX_BLOCK_SIZE + 4\<close> octets.\<close>

definition computePBKDF2 :: "'s hash_ops \<Rightarrow> nat \<Rightarrow> octet list \<Rightarrow> octet list \<Rightarrow> 32 word \<Rightarrow> 's \<Rightarrow> (octet list \<times> 's) result" where
  "computePBKDF2 ops out password salt numIterations s =
     (if length salt > MAX_BLOCK_SIZE then Inl (UnsupportedException ''pbkdf2'')
      else pbkdf2_blocks ops password salt numIterations out 0 s)"

definition getHashAsHexString :: "'s hash_ops \<Rightarrow> 's \<Rightarrow> string" where
  "getHashAsHexString ops s = fold (\<lambda>p result. putHexByte result p HEX_DIGITS_LOWER) (h_getHash ops MAX_HASH_SIZE s) []"

end
