(* ===== verification/Afl_Hash.thy ===== *)
theory Afl_Hash
  imports Afl_Digest
begin

text \<open>
  Correctness of the message digests. Each class refines one machine: a chaining value and the octets that
  wait for a complete block (\<open>eatBlocks\<close>). From the laws of the locale \<open>hash_function\<close>, HMAC and PBKDF2 are
  proved to be the functions of their RFCs; MD5, SHA-1 and the four members of SHA-2 are its instances.
\<close>

unbundle bit_operations_syntax

section \<open>Blocks\<close>

definition chunks :: "nat \<Rightarrow> 'a list \<Rightarrow> 'a list list" where
  "chunks n xs = map (\<lambda>i. take n (drop (i * n) xs)) [0..<length xs div n]"

lemma chunks_short: "length xs < n \<Longrightarrow> chunks n xs = []"
  by (simp add: chunks_def)

lemma chunks_step:
  assumes "0 < n" "n \<le> length xs"
  shows "chunks n xs = take n xs # chunks n (drop n xs)"
proof -
  have "length xs div n = Suc ((length xs - n) div n)" using assms by (simp add: le_div_geq)
  then show ?thesis by (simp add: chunks_def map_upt_Suc algebra_simps del: upt_Suc)
qed

lemma eatBlocks_chunks:
  "0 < n \<Longrightarrow> eatBlocks n f h data = (foldl f h (chunks n data), drop (length data - length data mod n) data)"
proof (induction n f h data rule: eatBlocks.induct)
  case (1 n f h data)
  show ?case
  proof (cases "n \<le> length data")
    case True
    have "(length data - n) mod n \<le> length data - n" by simp
    then have "length data - n - (length data - n) mod n + n = length data - (length data - n) mod n" using True by linarith
    with True have "drop (length data - n - (length data - n) mod n) (drop n data) = drop (length data - length data mod n) data"
      by (simp add: le_mod_geq)
    with True 1 show ?thesis by (simp add: eatBlocks.simps [of n f h] chunks_step le_mod_geq)
  next
    case False
    then show ?thesis by (simp add: eatBlocks.simps [of n f h] chunks_short)
  qed
qed

lemma eatBlocks_append:
  "0 < n \<Longrightarrow> eatBlocks n f h (a @ b) = (case eatBlocks n f h a of (h', r) \<Rightarrow> eatBlocks n f h' (r @ b))"
proof (induction n f h a rule: eatBlocks.induct)
  case (1 n f h a)
  then show ?case by (cases "n \<le> length a") (simp_all add: eatBlocks.simps [of n f h] split: prod.splits)
qed

lemma eatBlocks_short: "length data < n \<Longrightarrow> eatBlocks n f h data = (h, data)"
  by (simp add: eatBlocks.simps)

lemma eatBlocks_full: "0 < n \<Longrightarrow> length b = n \<Longrightarrow> eatBlocks n f h (b @ data) = eatBlocks n f (f h b) data"
  by (simp add: eatBlocks.simps [of n f h])

lemma eatBlocks_rest: "0 < n \<Longrightarrow> length (snd (eatBlocks n f h data)) = length data mod n"
  by (simp add: eatBlocks_chunks)

lemma overwrite_take: "length (overwrite xs i ys) = length xs \<Longrightarrow> i + length ys \<le> length xs \<Longrightarrow>
   take (i + length ys) (overwrite xs i ys) = take i xs @ ys"
  by (simp add: overwrite_def)

lemma overwrite_start: "length ys \<le> length xs \<Longrightarrow> take (length ys) (overwrite xs 0 ys) = ys"
  by (simp add: overwrite_def)

lemma overwrite_full: "i + length ys = length xs \<Longrightarrow> overwrite xs i ys = take i xs @ ys"
  by (simp add: overwrite_def)

text \<open>
  Completing a block: the data that fits is copied behind the pending octets, the block is processed, and
  the loop goes on with the rest.
\<close>

lemma complete_block:
  assumes "length buf = n" "i < n" "n - i \<le> length data"
    and "b = overwrite buf i (take (n - i) data)" "eatBlocks n f (f h b) (drop (n - i) data) = (st, rest)"
  shows "length b = n" "eatBlocks n f h (take i buf @ data) = (st, rest)" "length rest = (i + length data) mod n"
    "take (length rest) (overwrite b 0 rest) = rest" "length (overwrite b 0 rest) = n"
proof -
  have b: "b = take i buf @ take (n - i) data" using assms(1-4) by (simp add: overwrite_full)
  then show l: "length b = n" using assms(1-3) by simp
  have "take i buf @ data = b @ drop (n - i) data" by (simp add: b)
  then show "eatBlocks n f h (take i buf @ data) = (st, rest)"
    using assms(2,5) l by (simp add: eatBlocks_full)
  have "length rest = (length data - (n - i)) mod n"
    using eatBlocks_rest [of n f "f h b" "drop (n - i) data"] assms(2,5) by simp
  also have "\<dots> = (i + length data) mod n" using assms(2,3) by (simp add: le_mod_geq add.commute)
  finally show r: "length rest = (i + length data) mod n" .
  have "length rest \<le> n" using r assms(2) by (simp add: order_less_imp_le)
  with l show "take (length rest) (overwrite b 0 rest) = rest" "length (overwrite b 0 rest) = n"
    by (simp_all add: overwrite_start)
qed

lemma append_block:
  assumes "length buf = n" "i + length data < n"
  shows "eatBlocks n f h (take i buf @ data) = (h, take (i + length data) (overwrite buf i data))"
    "length (overwrite buf i data) = n"
  using assms by (simp_all add: eatBlocks_short overwrite_take)

section \<open>MD5\<close>

lemma and_3F: "unat (w AND 0x3F :: 64 word) = unat w mod 64"
proof -
  have "w AND 0x3F = take_bit 6 w" by (simp add: take_bit_eq_mask mask_numeral)
  then have "unat (w AND 0x3F) = take_bit 6 (unat w)" by (simp only: unsigned_take_bit_eq)
  then show ?thesis by (simp add: take_bit_eq_mod [where 'a = nat])
qed

lemma count_mod_64: "unat (of_nat k :: 64 word) mod 64 = k mod 64"
proof -
  have "k mod 2 ^ 64 mod 64 = k mod (64 :: nat)" by (rule mod_mod_cancel) simp
  then show ?thesis by (simp add: unat_of_nat)
qed

definition MD5_INIT :: "32 word list" where
  "MD5_INIT = [0x67452301, 0xEFCDAB89, 0x98BADCFE, 0x10325476]"

definition md5_abs :: "md5 \<Rightarrow> 32 word list \<times> octet list" where
  "md5_abs s = (md5_state s, take (unat (md5_count s) mod 64) (md5_buffer s))"

lemma count_add_mod_64: "unat (c + of_nat k :: 64 word) mod 64 = (unat c mod 64 + k) mod 64"
proof -
  have "c + of_nat k = of_nat (unat c + k)" by simp
  then show ?thesis by (simp only: count_mod_64 mod_add_left_eq)
qed

lemma MD5_add_refines:
  assumes "length (md5_buffer s) = 64"
  shows "md5_abs (MD5_add data s) = eatBlocks 64 MD5_transform (md5_state s) (snd (md5_abs s) @ data) \<and>
    length (md5_buffer (MD5_add data s)) = 64 \<and> md5_count (MD5_add data s) = md5_count s + of_nat (length data)"
proof -
  define i where "i = unat (md5_count s) mod 64"
  have i: "i < 64" by (simp add: i_def)
  have c: "unat (md5_count s + of_nat (length data)) mod 64 = (i + length data) mod 64"
    by (simp add: count_add_mod_64 i_def)
  show ?thesis
  proof (cases "64 - i \<le> length data")
    case True
    define b where "b = overwrite (md5_buffer s) i (take (64 - i) data)"
    obtain st rest where st: "eatBlocks 64 MD5_transform (MD5_transform (md5_state s) b) (drop (64 - i) data) = (st, rest)"
      by (rule prod.exhaust)
    note complete_block [OF assms i True b_def st]
    with True st c show ?thesis
      by (simp add: MD5_add_def Let_def and_3F md5_abs_def flip: i_def b_def)
  next
    case False
    then have "i + length data < 64" by simp
    from append_block(1) [OF assms this, of MD5_transform "md5_state s"] append_block(2) [OF assms this] False this c show ?thesis
      by (simp add: MD5_add_def Let_def and_3F md5_abs_def flip: i_def)
  qed
qed


definition mdPadding :: "nat \<Rightarrow> octet list \<Rightarrow> octet list \<Rightarrow> octet list" where
  "mdPadding n lengthField m =
     CHR 0x80 # replicate ((2 * n - 1 - length lengthField - length m mod n) mod n) (CHR 0x00) @ lengthField"

definition md5_digest :: "octet list \<Rightarrow> octet list" where
  "md5_digest m =
     concat (map UInt32LE_pack
       (foldl MD5_transform MD5_INIT (chunks 64 (m @ mdPadding 64 (UInt64LE_pack (of_nat (8 * length m))) m))))"

definition md5_holds :: "md5 \<Rightarrow> octet list \<Rightarrow> bool" where
  "md5_holds s m \<longleftrightarrow> length (md5_buffer s) = 64 \<and> md5_count s = of_nat (length m) \<and>
     md5_abs s = eatBlocks 64 MD5_transform MD5_INIT m"

lemma MD5_clear_holds: "length (md5_buffer s) = 64 \<Longrightarrow> md5_holds (MD5_clear s) []"
  by (simp add: md5_holds_def MD5_clear_def md5_abs_def MD5_INIT_def eatBlocks_short)

lemma MD5_add_holds:
  assumes "md5_holds s m"
  shows "md5_holds (MD5_add d s) (m @ d)"
proof -
  have "eatBlocks 64 MD5_transform (md5_state s) (snd (md5_abs s) @ d) = eatBlocks 64 MD5_transform MD5_INIT (m @ d)"
    using assms eatBlocks_append [of 64 MD5_transform MD5_INIT m d]
    by (simp add: md5_holds_def) (metis fst_conv md5_abs_def old.prod.case snd_conv)
  with assms MD5_add_refines [of s d] show ?thesis by (simp add: md5_holds_def)
qed

lemma padding_length: "length (m @ mdPadding n lengthField m) mod n = 0"
  if "length lengthField < n"
proof -
  define r where "r = length m mod n"
  have "r < n" using that by (simp add: r_def)
  define x where "x = 2 * n - 1 - length lengthField - r"
  have "(x mod n + (r + 1 + length lengthField)) mod n = (x + (r + 1 + length lengthField)) mod n" by (rule mod_add_left_eq)
  also have "x + (r + 1 + length lengthField) = 2 * n" using that \<open>r < n\<close> unfolding x_def by linarith
  finally have "(r + Suc (x mod n + length lengthField)) mod n = 0" by (simp add: algebra_simps)
  then have "(length m + Suc (x mod n + length lengthField)) mod n = 0" unfolding r_def by (metis mod_add_left_eq)
  then show ?thesis by (simp add: mdPadding_def x_def r_def)
qed

lemma take_PADDING: "0 < k \<Longrightarrow> k \<le> 64 \<Longrightarrow> take k PADDING = CHR 0x80 # replicate (k - 1) (CHR 0x00)"
  by (cases k) (simp_all add: PADDING_def)

lemma padding_64:
  assumes "length lengthField = 8" "k = (if length m mod 64 < 56 then 56 - length m mod 64 else 120 - length m mod 64)"
  shows "take k PADDING @ lengthField = mdPadding 64 lengthField m"
proof -
  define r where "r = length m mod 64"
  have "r < 64" by (simp add: r_def)
  then have "0 < k" "k \<le> 64" "k - 1 = (2 * 64 - 1 - 8 - r) mod 64"
    using assms(2) by (auto simp: r_def [symmetric] le_mod_geq)
  with assms(1) show ?thesis by (simp add: mdPadding_def take_PADDING r_def)
qed

lemma length_Let: "(\<And>x. length (f x) = k) \<Longrightarrow> length (Let t f) = k"
  by (simp add: Let_def)

lemma MD5_transform_length: "length (MD5_transform st b) = 4"
  unfolding MD5_transform_def by (rule length_Let)+ simp

lemma foldl_length: "(\<And>st b. length (f st b) = k) \<Longrightarrow> length h = k \<Longrightarrow> length (foldl f h bs) = k"
  by (induction bs arbitrary: h) auto

lemma MD5_getHash_digest:
  assumes "md5_holds s m"
  shows "MD5_getHash n s = take n (md5_digest m)"
proof -
  define pad where "pad = mdPadding 64 (UInt64LE_pack (of_nat (8 * length m))) m"
  have c: "md5_count s = of_nat (length m)" using assms by (simp add: md5_holds_def)
  have bits: "push_bit 3 (md5_count s) = of_nat (8 * length m)" by (simp add: c push_bit_eq_mult)
  have index: "unat (md5_count s AND 0x3F) = length m mod 64" by (simp add: and_3F c count_mod_64)
  define k where "k = (if length m mod 64 < 56 then 56 - length m mod 64 else 120 - length m mod 64)"
  have "take k PADDING @ UInt64LE_pack (of_nat (8 * length m)) = pad"
    unfolding pad_def by (rule padding_64) (simp_all only: u64le.pack_length k_def)
  then have "md5_holds (MD5_add (UInt64LE_pack (of_nat (8 * length m))) (MD5_add (take k PADDING) s)) (m @ pad)"
    using MD5_add_holds [OF MD5_add_holds [OF assms]] by (metis append.assoc)
  then have st: "md5_state (MD5_add (UInt64LE_pack (of_nat (8 * length m))) (MD5_add (take k PADDING) s)) =
      foldl MD5_transform MD5_INIT (chunks 64 (m @ pad))" (is "_ = ?st")
    by (simp add: md5_holds_def md5_abs_def eatBlocks_chunks)
  have "length ?st = 4" by (rule foldl_length) (simp_all add: MD5_transform_length MD5_INIT_def)
  then have "packArray UInt32LE_pack 4 0 16 ?st = concat (map UInt32LE_pack ?st)"
    by (simp add: u32le.packArray_elements fitTo_def)
  then show ?thesis
    unfolding MD5_getHash_def Let_def bits index k_def [symmetric] st by (simp add: md5_digest_def pad_def)
qed


section \<open>SHA-1\<close>

definition SHA1_INIT :: "32 word list" where
  "SHA1_INIT = [0x67452301, 0xEFCDAB89, 0x98BADCFE, 0x10325476, 0xC3D2E1F0]"

definition sha1_abs :: "sha1 \<Rightarrow> 32 word list \<times> octet list" where
  "sha1_abs s = (sha1_state s, take (unat (sha1_bytes s) mod 64) (sha1_block s))"

lemma SHA1_add_refines:
  assumes "length (sha1_block s) = 64"
  shows "sha1_abs (SHA1_add data s) = eatBlocks 64 SHA1_processBlock (sha1_state s) (snd (sha1_abs s) @ data) \<and>
    length (sha1_block (SHA1_add data s)) = 64 \<and> sha1_bytes (SHA1_add data s) = sha1_bytes s + of_nat (length data)"
proof -
  define i where "i = unat (sha1_bytes s) mod 64"
  have i: "i < 64" by (simp add: i_def)
  have m: "unat (sha1_bytes s mod 64) = i" by (simp add: i_def unat_mod)
  have c: "unat (sha1_bytes s + of_nat (length data)) mod 64 = (i + length data) mod 64"
    by (simp add: count_add_mod_64 i_def)
  show ?thesis
  proof (cases "i \<noteq> 0 \<and> 64 - i \<le> length data")
    case True
    define b where "b = overwrite (sha1_block s) i (take (64 - i) data)"
    obtain st rest where st: "eatBlocks 64 SHA1_processBlock (SHA1_processBlock (sha1_state s) b) (drop (64 - i) data) = (st, rest)"
      by (rule prod.exhaust)
    note complete_block [OF assms i conjunct2 [OF True] b_def st]
    with True st c show ?thesis
      by (simp add: SHA1_add_def Let_def m sha1_abs_def flip: i_def b_def)
  next
    case False
    obtain st rest where st: "eatBlocks 64 SHA1_processBlock (sha1_state s) data = (st, rest)" by (rule prod.exhaust)
    then have l: "length rest = length data mod 64"
      using eatBlocks_rest [of 64 SHA1_processBlock "sha1_state s" data] by simp
    show ?thesis
    proof (cases "i = 0")
      case True
      have "length rest \<le> 64" using l by simp
      with True st l c m assms show ?thesis
        by (simp add: SHA1_add_def Let_def sha1_abs_def flip: i_def) (simp add: overwrite_def)
    next
      case nonzero: False
      with False i have short: "length data < 64" "i + length data < 64" by auto
      from append_block(1) [OF assms short(2), of SHA1_processBlock "sha1_state s"] append_block(2) [OF assms short(2)] False nonzero short c m show ?thesis
        by (simp add: SHA1_add_def Let_def sha1_abs_def eatBlocks_short flip: i_def)
    qed
  qed
qed

definition sha1_digest :: "octet list \<Rightarrow> octet list" where
  "sha1_digest m =
     concat (map UInt32BE_pack
       (foldl SHA1_processBlock SHA1_INIT (chunks 64 (m @ mdPadding 64 (UInt64BE_pack (of_nat (8 * length m))) m))))"

definition sha1_holds :: "sha1 \<Rightarrow> octet list \<Rightarrow> bool" where
  "sha1_holds s m \<longleftrightarrow> length (sha1_block s) = 64 \<and> sha1_bytes s = of_nat (length m) \<and>
     sha1_abs s = eatBlocks 64 SHA1_processBlock SHA1_INIT m"

lemma SHA1_clear_holds: "length (sha1_block s) = 64 \<Longrightarrow> sha1_holds (SHA1_clear s) []"
  by (simp add: sha1_holds_def SHA1_clear_def sha1_abs_def SHA1_INIT_def eatBlocks_short)

lemma SHA1_add_holds:
  assumes "sha1_holds s m"
  shows "sha1_holds (SHA1_add d s) (m @ d)"
proof -
  have "eatBlocks 64 SHA1_processBlock (sha1_state s) (snd (sha1_abs s) @ d) = eatBlocks 64 SHA1_processBlock SHA1_INIT (m @ d)"
    using assms eatBlocks_append [of 64 SHA1_processBlock SHA1_INIT m d]
    by (simp add: sha1_holds_def) (metis fst_conv sha1_abs_def old.prod.case snd_conv)
  with assms SHA1_add_refines [of s d] show ?thesis by (simp add: sha1_holds_def)
qed

lemma SHA1_processBlock_length: "length (SHA1_processBlock st b) = 5"
  unfolding SHA1_processBlock_def by ((rule length_Let)+, simp split: prod.split)

lemma SHA1_getHash_digest:
  assumes "sha1_holds s m"
  shows "SHA1_getHash n s = take n (sha1_digest m)"
proof -
  define pad where "pad = mdPadding 64 (UInt64BE_pack (of_nat (8 * length m))) m"
  have c: "sha1_bytes s = of_nat (length m)" using assms by (simp add: sha1_holds_def)
  have bits: "push_bit 3 (sha1_bytes s) = of_nat (8 * length m)" by (simp add: c push_bit_eq_mult)
  have index: "unat (sha1_bytes s mod 64) = length m mod 64" by (simp add: unat_mod c count_mod_64)
  define k where "k = (if length m mod 64 > 55 then 120 - length m mod 64 else 56 - length m mod 64)"
  have "take k PADDING @ UInt64BE_pack (of_nat (8 * length m)) = pad"
    unfolding pad_def by (rule padding_64) (auto simp: u64be.pack_length k_def)
  then have "sha1_holds (SHA1_add (UInt64BE_pack (of_nat (8 * length m))) (SHA1_add (take k PADDING) s)) (m @ pad)"
    using SHA1_add_holds [OF SHA1_add_holds [OF assms]] by (metis append.assoc)
  then have st: "sha1_state (SHA1_add (UInt64BE_pack (of_nat (8 * length m))) (SHA1_add (take k PADDING) s)) =
      foldl SHA1_processBlock SHA1_INIT (chunks 64 (m @ pad))" (is "_ = ?st")
    by (simp add: sha1_holds_def sha1_abs_def eatBlocks_chunks)
  have "length ?st = 5" by (rule foldl_length) (simp_all add: SHA1_processBlock_length SHA1_INIT_def)
  then have "packArray UInt32BE_pack 4 0 20 ?st = concat (map UInt32BE_pack ?st)"
    by (simp add: u32be.packArray_elements fitTo_def)
  then show ?thesis
    unfolding SHA1_getHash_def SHA1_padMessage_def Let_def bits index k_def [symmetric] st
    by (simp add: sha1_digest_def pad_def)
qed


section \<open>SHA-2\<close>

definition sha2_compress :: "('w::plus) sha2_traits \<Rightarrow> 'w list \<Rightarrow> octet list \<Rightarrow> 'w list" where
  "sha2_compress T h b = SHA2Core_block T h (t_unpack T b)"

text \<open>The counter of bits has 128 bits, in two words.\<close>

definition sha2_holds :: "('w::plus) sha2_traits \<Rightarrow> 'w list \<Rightarrow> 'w sha2 \<Rightarrow> octet list \<Rightarrow> bool" where
  "sha2_holds T init s m \<longleftrightarrow> length (s2_block s) = t_blockSize T \<and> s2_fill s = length m mod t_blockSize T \<and>
     s2_counterLo s = of_nat (8 * length m) \<and> s2_counterHi s = of_nat (8 * length m div 2 ^ 64) \<and>
     (s2_hs s, take (s2_fill s) (s2_block s)) = eatBlocks (t_blockSize T) (sha2_compress T) init m"

lemma carry_add:
  fixes k n :: nat
  assumes "k < 2 ^ 64"
  shows "(if (of_nat (n + k) :: 64 word) < of_nat k then of_nat (n div 2 ^ 64) + 1 else of_nat (n div 2 ^ 64)) =
           (of_nat ((n + k) div 2 ^ 64) :: 64 word)"
proof -
  define q r where "q = n div 2 ^ 64" and "r = n mod 2 ^ 64"
  have n: "n = q * 2 ^ 64 + r" "r < 2 ^ 64" by (simp_all add: q_def r_def)
  have u: "unat (of_nat (n + k) :: 64 word) = (r + k) mod 2 ^ 64" "unat (of_nat k :: 64 word) = k"
    using assms by (simp_all add: unat_of_nat r_def mod_add_left_eq del: of_nat_add)
  show ?thesis
  proof (cases "r + k < 2 ^ 64")
    case True
    then have "\<not> (of_nat (n + k) :: 64 word) < of_nat k" by (simp only: word_less_nat_alt u) simp
    moreover have "(n + k) div 2 ^ 64 = q" using True n by (simp add: n(1))
    ultimately show ?thesis by (simp only: if_False flip: q_def)
  next
    case False
    then have "(r + k) mod 2 ^ 64 = r + k - 2 ^ 64" using n(2) assms by (simp add: le_mod_geq)
    moreover have "r + k - 2 ^ 64 < k" using False n(2) by linarith
    ultimately have "(of_nat (n + k) :: 64 word) < of_nat k" by (simp only: word_less_nat_alt u)
    moreover have "(n + k) div 2 ^ 64 = q + 1"
    proof (rule div_nat_eqI)
      show "2 ^ 64 * (q + 1) \<le> n + k" using False n(1) by simp
      show "n + k < 2 ^ 64 * Suc (q + 1)" using n assms by simp
    qed
    ultimately show ?thesis by (simp only: if_True of_nat_add of_nat_1 flip: q_def)
  qed
qed

text \<open>The block size of a member of the family is small enough that a round adds less than $2^{64}$ bits.\<close>

definition sha2_sizes :: "('w::plus) sha2_traits \<Rightarrow> bool" where
  "sha2_sizes T \<longleftrightarrow> 0 < t_lengthSize T \<and> t_lengthSize T < t_blockSize T \<and> t_blockSize T \<le> 128 \<and>
     (\<forall>lo hi. length (t_pack_length T lo hi) = t_lengthSize T)"

lemma SHA2Core_step_holds:
  assumes "sha2_holds T init s m" "sha2_sizes T" "d \<noteq> []" "length d \<le> t_blockSize T - s2_fill s"
  shows "sha2_holds T init (SHA2Core_step T d s) (m @ d)"
proof -
  let ?B = "t_blockSize T" and ?i = "s2_fill s"
  define b where "b = overwrite (s2_block s) ?i d"
  have B: "0 < ?B" "8 * length d < 2 ^ 64" "length (s2_block s) = ?B" using assms(1,2,4) by (auto simp: sha2_sizes_def sha2_holds_def)
  have m: "?i = length m mod ?B" using assms(1) by (simp add: sha2_holds_def)
  then have "?i < ?B" using B(1) by simp
  with m assms(4) have i: "?i = length m mod ?B" "?i < ?B" "?i + length d \<le> ?B" by linarith+
  have eat: "eatBlocks ?B (sha2_compress T) init (m @ d) = eatBlocks ?B (sha2_compress T) (s2_hs s) (take ?i (s2_block s) @ d)"
    using assms(1) eatBlocks_append [OF B(1), of "sha2_compress T" init m d]
    unfolding sha2_holds_def by (metis old.prod.case)
  have lo: "s2_counterLo s + 8 * of_nat (length d) = of_nat (8 * length m + 8 * length d)"
    using assms(1) by (simp add: sha2_holds_def)
  have hi: "(if (of_nat (8 * length m + 8 * length d) :: 64 word) < of_nat (8 * length d) then s2_counterHi s + 1 else s2_counterHi s) =
      of_nat ((8 * length m + 8 * length d) div 2 ^ 64)"
    using assms(1) carry_add [OF B(2), of "8 * length m"] by (simp only: sha2_holds_def)
  have b: "length b = ?B" "take (?i + length d) b = take ?i (s2_block s) @ d" using B i by (simp_all add: b_def overwrite_take)
  have f: "length (m @ d) mod ?B = (?i + length d) mod ?B" by (simp add: i(1) mod_add_left_eq)
  show ?thesis
  proof (cases "?i + length d = ?B")
    case True
    with b have "b = take ?i (s2_block s) @ d" by simp
    then have "eatBlocks ?B (sha2_compress T) (s2_hs s) (take ?i (s2_block s) @ d) = (sha2_compress T (s2_hs s) b, [])"
      using eatBlocks_full [of ?B b "sha2_compress T" "s2_hs s" "[]"] b B(1) by (simp add: eatBlocks_short)
    with True eat f b lo hi show ?thesis
      by (simp add: sha2_holds_def SHA2Core_step_def Let_def sha2_compress_def flip: b_def)
  next
    case False
    with i have "?i + length d < ?B" by simp
    with eat f b lo hi B show ?thesis
      by (simp add: sha2_holds_def SHA2Core_step_def Let_def eatBlocks_short flip: b_def)
  qed
qed

lemma SHA2Core_add_holds:
  "sha2_sizes T \<Longrightarrow> sha2_holds T init s m \<Longrightarrow> sha2_holds T init (SHA2Core_add T d s) (m @ d)"
proof (induction T d s arbitrary: m rule: SHA2Core_add.induct)
  case (1 T d s)
  let ?now = "min (length d) (t_blockSize T - s2_fill s)"
  have f: "s2_fill s < t_blockSize T" using 1(2,3) by (simp add: sha2_holds_def sha2_sizes_def)
  show ?case
  proof (cases "d = []")
    case False
    have "sha2_holds T init (SHA2Core_step T (take ?now d) s) (m @ take ?now d)"
      using f False by (intro SHA2Core_step_holds 1(2,3)) auto
    from 1(1) [OF _ refl 1(2) this] False f show ?thesis
      by (simp add: SHA2Core_add.simps [of T d s] Let_def)
  qed (use 1 in \<open>simp add: SHA2Core_add.simps\<close>)
qed


text \<open>The loop that adds zeros stops in front of the length, after as many rounds as the padding has zeros.\<close>

lemma SHA2Core_zeros_holds:
  assumes "sha2_sizes T" "sha2_holds T init s m" "k \<le> fuel"
    and "k = (t_blockSize T - t_lengthSize T + t_blockSize T - length m mod t_blockSize T) mod t_blockSize T"
  shows "sha2_holds T init (SHA2Core_zeros fuel T s) (m @ replicate k (CHR 0x00))"
  using assms(2-4)
proof (induction fuel arbitrary: s m k)
  case 0
  then show ?case by simp
next
  case (Suc fuel)
  let ?B = "t_blockSize T" and ?goal = "t_blockSize T - t_lengthSize T" and ?r = "length m mod t_blockSize T"
  have B: "0 < ?B" "?goal < ?B" "?r < ?B" using assms(1) by (auto simp: sha2_sizes_def)
  have fill: "s2_fill s = ?r" using Suc.prems(1) by (simp add: sha2_holds_def)
  show ?case
  proof (cases "?r = ?goal")
    case True
    then have "k = 0" using Suc.prems(3) by simp
    with True fill Suc.prems(1) show ?thesis by simp
  next
    case False
    have r': "length (m @ [CHR 0x00]) mod ?B = (if Suc ?r = ?B then 0 else Suc ?r)" by (simp add: mod_Suc)
    have k: "k = (if ?r \<le> ?goal then ?goal - ?r else ?goal + ?B - ?r)"
      using Suc.prems(3) B by (auto simp: le_mod_geq)
    have k0: "0 < k" unfolding k using False B(3) by (cases "?r \<le> ?goal") simp_all
    moreover have "k - 1 = (?goal + ?B - length (m @ [CHR 0x00]) mod ?B) mod ?B"
      unfolding r' k using False B by (auto simp: le_mod_geq)
    moreover have "sha2_holds T init (SHA2Core_add T [CHR 0x00] s) (m @ [CHR 0x00])"
      by (rule SHA2Core_add_holds) (use assms(1) Suc.prems(1) in auto)
    ultimately have "sha2_holds T init (SHA2Core_zeros fuel T (SHA2Core_add T [CHR 0x00] s)) ((m @ [CHR 0x00]) @ replicate (k - 1) (CHR 0x00))"
      using Suc.prems(2) by (intro Suc.IH) auto
    moreover have "(m @ [CHR 0x00]) @ replicate (k - 1) (CHR 0x00) = m @ replicate k (CHR 0x00)"
      using k0 by (cases k) simp_all
    ultimately show ?thesis using False fill by simp
  qed
qed

lemma SHA2Core_pad_holds:
  assumes "sha2_sizes T" "sha2_holds T init s m"
  shows "sha2_holds T init (SHA2Core_pad T s)
     (m @ mdPadding (t_blockSize T) (t_pack_length T (of_nat (8 * length m)) (of_nat (8 * length m div 2 ^ 64))) m)"
proof -
  let ?B = "t_blockSize T" and ?L = "t_lengthSize T"
  let ?len = "t_pack_length T (of_nat (8 * length m)) (of_nat (8 * length m div 2 ^ 64))"
  define k where "k = (?B - ?L + ?B - length (m @ [CHR 0x80]) mod ?B) mod ?B"
  have B: "0 < ?B" "?L < ?B" "0 < ?L" "length ?len = ?L" using assms(1) by (auto simp: sha2_sizes_def)
  have zeros: "sha2_holds T init (SHA2Core_zeros ?B T (SHA2Core_add T [CHR 0x80] s)) ((m @ [CHR 0x80]) @ replicate k (CHR 0x00))"
    using SHA2Core_add_holds [OF assms] B(1)
    by (intro SHA2Core_zeros_holds assms(1)) (auto simp: k_def order_less_imp_le)
  have counters: "s2_counterLo s = of_nat (8 * length m)" "s2_counterHi s = of_nat (8 * length m div 2 ^ 64)"
    using assms(2) by (simp_all only: sha2_holds_def)
  from SHA2Core_add_holds [OF assms(1) zeros, of ?len]
  have "sha2_holds T init (SHA2Core_pad T s) (m @ CHR 0x80 # replicate k (CHR 0x00) @ ?len)"
    by (simp only: SHA2Core_pad_def Let_def counters append.assoc append_Cons append_Nil)
  moreover have "k = (2 * ?B - 1 - ?L - length m mod ?B) mod ?B"
  proof (cases "Suc (length m mod ?B) = ?B")
    case True
    then have "length (m @ [CHR 0x80]) mod ?B = 0" by (simp add: mod_Suc)
    then have "k = (?B - ?L + ?B) mod ?B" by (simp only: k_def diff_zero)
    then have "k = ?B - ?L" using B by (simp only: mod_add_self2) simp
    moreover have "2 * ?B - 1 - ?L - length m mod ?B = ?B - ?L" using True B by linarith
    ultimately show ?thesis using B by simp
  next
    case False
    then have "length (m @ [CHR 0x80]) mod ?B = Suc (length m mod ?B)" by (simp add: mod_Suc)
    then show ?thesis using B by (simp add: k_def mult_2 diff_right_commute) 
  qed
  ultimately show ?thesis using B(4) by (simp add: mdPadding_def)
qed


text \<open>The digest of a member of the family: the first words of the state that result from the padded message.\<close>

definition sha2_digest :: "('w::plus) sha2_traits \<Rightarrow> 'w list \<Rightarrow> ('w \<Rightarrow> octet list) \<Rightarrow> nat \<Rightarrow> octet list \<Rightarrow> octet list" where
  "sha2_digest T init pack k m =
     concat (map pack (take k (foldl (sha2_compress T) init
       (chunks (t_blockSize T)
         (m @ mdPadding (t_blockSize T) (t_pack_length T (of_nat (8 * length m)) (of_nat (8 * length m div 2 ^ 64))) m)))))"

lemma SHA2Core_pad_state:
  assumes "sha2_sizes T" "sha2_holds T init s m"
  shows "concat (map pack (take k (s2_hs (SHA2Core_pad T s)))) = sha2_digest T init pack k m"
proof -
  have "0 < t_blockSize T" using assms(1) by (auto simp: sha2_sizes_def)
  then show ?thesis using SHA2Core_pad_holds [OF assms] by (simp only: sha2_holds_def sha2_digest_def eatBlocks_chunks prod.inject)
qed

lemma sha2_compress_length: "length (sha2_compress T h b) = 8"
  by (simp add: sha2_compress_def SHA2Core_block_def Let_def split: prod.split)

lemma SHA2Core_pad_length:
  assumes "sha2_sizes T" "sha2_holds T init s m" "length init = 8"
  shows "length (s2_hs (SHA2Core_pad T s)) = 8"
proof -
  have "0 < t_blockSize T" using assms(1) by (auto simp: sha2_sizes_def)
  then have "s2_hs (SHA2Core_pad T s) = fst (eatBlocks (t_blockSize T) (sha2_compress T) init (m @
      mdPadding (t_blockSize T) (t_pack_length T (of_nat (8 * length m)) (of_nat (8 * length m div 2 ^ 64))) m))"
    using SHA2Core_pad_holds [OF assms(1,2)] unfolding sha2_holds_def by (metis fst_conv)
  then show ?thesis using \<open>0 < t_blockSize T\<close> assms(3) foldl_length [of "sha2_compress T" 8]
    by (simp only: eatBlocks_chunks fst_conv sha2_compress_length)
qed

lemma SHA2_32_sizes: "sha2_sizes SHA2_32"
  by (simp add: sha2_sizes_def SHA2_32_def u64be.pack_length)

lemma SHA2_64_sizes: "sha2_sizes SHA2_64"
  by (simp add: sha2_sizes_def SHA2_64_def u64be.pack_length)

lemma SHA2_blockSizes: "t_blockSize SHA2_32 = 64" "t_blockSize SHA2_64 = 128"
  by (simp_all add: SHA2_32_def SHA2_64_def)

lemma SHA2Core_init_holds:
  "length (s2_block s) = t_blockSize T \<Longrightarrow> sha2_sizes T \<Longrightarrow> sha2_holds T init (SHA2Core_init init s) []"
  by (auto simp: sha2_holds_def SHA2Core_init_def eatBlocks_short sha2_sizes_def)

section \<open>The contract of a digest\<close>

text \<open>
  \<open>holds s m\<close> says that the octets \<open>m\<close> have been added to the object since it was cleared. The digest of \<open>m\<close>
  does not depend on how they were cut into pieces.
\<close>

locale hash_function =
  fixes ops :: "'s hash_ops" and holds :: "'s \<Rightarrow> octet list \<Rightarrow> bool" and digest :: "octet list \<Rightarrow> octet list"
  assumes clear_holds: "holds s m \<Longrightarrow> holds (h_clear ops s) []"
    and add_holds: "holds s m \<Longrightarrow> holds (h_add ops d s) (m @ d)"
    and getHash_digest: "holds s m \<Longrightarrow> h_getHashSize ops \<le> n \<Longrightarrow> h_getHash ops n s = digest m"
    and digest_length: "length (digest m) = h_getHashSize ops"
    and sizes: "0 < h_getHashSize ops" "h_getHashSize ops \<le> 64" "h_getHashSize ops \<le> h_getBlockSize ops" "h_getBlockSize ops \<le> 128"
begin

lemma pieces_hold: "holds s m \<Longrightarrow> holds (fold (h_add ops) ds s) (m @ concat ds)"
  by (induction ds arbitrary: s m) (use add_holds in \<open>fastforce+\<close>)

lemma getHash_pieces: "holds s [] \<Longrightarrow> h_getHash ops 64 (fold (h_add ops) ds s) = digest (concat ds)"
  using pieces_hold [of s "[]" ds] getHash_digest sizes(2) by simp

lemma getHash_max: "holds s m \<Longrightarrow> h_getHash ops MAX_HASH_SIZE s = digest m"
  using getHash_digest sizes(2) by (simp add: MAX_HASH_SIZE_def)

lemma hex_string: "holds s m \<Longrightarrow>
    getHashAsHexString ops s = concat (map (\<lambda>b. [HEX_DIGITS_LOWER ! (of_char b div 16), HEX_DIGITS_LOWER ! (of_char b mod 16)]) (digest m))"
proof -
  have "fold (\<lambda>p result. putHexByte result p HEX_DIGITS_LOWER) bs r =
      r @ concat (map (\<lambda>b. [HEX_DIGITS_LOWER ! (of_char b div 16), HEX_DIGITS_LOWER ! (of_char b mod 16)]) bs)" for bs r
  proof (induction bs arbitrary: r)
    case (Cons b bs)
    have "(of_char b :: nat) div 16 < 16" by (rule less_mult_imp_div_less) simp
    then have "of_char b div 16 mod 16 = (of_char b div 16 :: nat)" by (rule mod_less)
    with Cons show ?case by (simp add: putHexByte_def)
  qed simp
  then show "holds s m \<Longrightarrow> ?thesis" by (simp add: getHashAsHexString_def getHash_max)
qed

end

text \<open>RFC 2104: the key is hashed when it is longer than a block, padded with zeros to a block, and combined with the pads.\<close>

definition hmacKey :: "nat \<Rightarrow> (octet list \<Rightarrow> octet list) \<Rightarrow> octet list \<Rightarrow> octet list" where
  "hmacKey blockSize digest k = fitTo blockSize (CHR 0x00) (if length k > blockSize then digest k else k)"

definition hmac :: "nat \<Rightarrow> (octet list \<Rightarrow> octet list) \<Rightarrow> octet list \<Rightarrow> octet list \<Rightarrow> octet list" where
  "hmac blockSize digest k d =
     digest (map (\<lambda>b. xorOctet b (CHR 0x5C)) (hmacKey blockSize digest k) @
       digest (map (\<lambda>b. xorOctet b (CHR 0x36)) (hmacKey blockSize digest k) @ d))"

text \<open>RFC 2898: the values of a block are iterated and summed.\<close>

fun pbkdf2_sum :: "(octet list \<Rightarrow> octet list) \<Rightarrow> nat \<Rightarrow> octet list \<Rightarrow> octet list \<Rightarrow> octet list" where
  "pbkdf2_sum hm 0 u acc = acc"
| "pbkdf2_sum hm (Suc n) u acc = pbkdf2_sum hm n (hm u) (map2 xorOctet acc (hm u))"

definition pbkdf2_T :: "(octet list \<Rightarrow> octet list) \<Rightarrow> octet list \<Rightarrow> nat \<Rightarrow> 32 word \<Rightarrow> octet list" where
  "pbkdf2_T hm salt c i = (let u = hm (salt @ UInt32BE_pack i) in pbkdf2_sum hm (c - 1) u u)"

text \<open>
  What is promised of \<open>computeHMAC\<close> and \<open>computePBKDF2\<close> with a digest of the given block size and size, started on an
  object in state \<open>s\<close>.
\<close>

definition computes_keyed :: "'s hash_ops \<Rightarrow> nat \<Rightarrow> nat \<Rightarrow> (octet list \<Rightarrow> octet list) \<Rightarrow> 's \<Rightarrow> bool" where
  "computes_keyed ops B n digest s \<longleftrightarrow>
     (\<forall>k d. \<exists>s'. computeHMAC ops k d s = Inr s' \<and> h_getHash ops n s' = hmac B digest k d) \<and>
     (\<forall>out k salt c.
        if length salt \<le> 128
        then \<exists>s'. computePBKDF2 ops out k salt c s =
          Inr (take out (concat (map (\<lambda>j. pbkdf2_T (hmac B digest k) salt (unat c) (of_nat j)) [1..<Suc out])), s')
        else computePBKDF2 ops out k salt c s = Inl (UnsupportedException ''pbkdf2''))"

lemma take_padKey:
  assumes "n \<le> 128" "length k \<le> n"
  shows "take n (padKey k c) = map (\<lambda>b. xorOctet b c) (fitTo n (CHR 0x00) k)"
proof -
  have "take n (take MAX_BLOCK_SIZE k @ replicate (MAX_BLOCK_SIZE - length k) (CHR 0x00)) = fitTo n (CHR 0x00) k"
    using assms by (simp add: MAX_BLOCK_SIZE_def fitTo_def min_def)
  then show ?thesis by (simp only: padKey_def take_map)
qed

lemma take_concat_blocks:
  fixes T :: "nat \<Rightarrow> 'v list"
  assumes "0 < out" "0 < h" "\<And>j. length (T j) = h"
  shows "take out (concat (map T [Suc i..<Suc i + out])) =
    take (min out h) (T (Suc i)) @ take (out - h) (concat (map T [Suc (Suc i)..<Suc (Suc i) + (out - h)]))"
proof -
  let ?n = "out - h" and ?a = "Suc (Suc i)"
  have "?a + ?n \<le> Suc i + out" using assms(1,2) by simp
  then have "[?a..<Suc i + out] = [?a..<?a + ?n] @ [?a + ?n..<Suc i + out]"
    using upt_add_eq_append [of ?a "?a + ?n" "Suc i + out - (?a + ?n)"] by (simp del: upt_Suc)
  moreover have "length (concat (map T [?a..<?a + ?n])) = ?n * h"
    by (simp add: length_concat comp_def assms(3) sum_list_triv del: upt_Suc)
  moreover have "out \<le> h + ?n * h"
  proof -
    have "?n * 1 \<le> ?n * h" using assms(2) by (intro mult_le_mono2) simp
    then show ?thesis by linarith
  qed
  moreover have "[Suc i..<Suc i + out] = Suc i # [?a..<Suc i + out]" using assms(1) by (simp add: upt_conv_Cons)
  moreover have "take out (T (Suc i)) = take (min out h) (T (Suc i))" using assms(3) [of "Suc i"] by (simp add: min_def)
  ultimately show ?thesis by (simp add: assms(3) del: upt_Suc)
qed

context hash_function
begin

lemma computeHMAC_holds:
  assumes "holds s m"
  shows "\<exists>s'. computeHMAC ops k d s = Inr s' \<and>
    holds s' (map (\<lambda>b. xorOctet b (CHR 0x5C)) (hmacKey (h_getBlockSize ops) digest k) @
       digest (map (\<lambda>b. xorOctet b (CHR 0x36)) (hmacKey (h_getBlockSize ops) digest k) @ d))"
proof -
  let ?B = "h_getBlockSize ops"
  define s1 where "s1 = (if length k > ?B then h_add ops k (h_clear ops s) else s)"
  define k1 where "k1 = (if length k > ?B then digest k else k)"
  have k1: "length k1 \<le> ?B" using digest_length sizes by (simp add: k1_def)
  have long: "holds (h_add ops k (h_clear ops s)) k" using add_holds [OF clear_holds [OF assms]] by simp
  then obtain m1 where s1: "holds s1 m1" using assms by (cases "length k > ?B") (auto simp: s1_def)
  have pads: "take ?B (padKey k1 c) = map (\<lambda>b. xorOctet b c) (hmacKey ?B digest k)" for c
    using take_padKey [OF sizes(4) k1] by (simp add: hmacKey_def k1_def)
  define s2 where "s2 = h_add ops d (h_add ops (take ?B (padKey k1 (CHR 0x36))) (h_clear ops s1))"
  have s2: "holds s2 (take ?B (padKey k1 (CHR 0x36)) @ d)"
    using add_holds [OF add_holds [OF clear_holds [OF s1]]] by (simp add: s2_def)
  have "holds (h_add ops (digest (take ?B (padKey k1 (CHR 0x36)) @ d)) (h_add ops (take ?B (padKey k1 (CHR 0x5C))) (h_clear ops s2)))
      (take ?B (padKey k1 (CHR 0x5C)) @ digest (take ?B (padKey k1 (CHR 0x36)) @ d))"
    using add_holds [OF add_holds [OF clear_holds [OF s2]]] by simp
  moreover have "computeHMAC ops k d s = Inr (h_add ops (digest (take ?B (padKey k1 (CHR 0x36)) @ d))
      (h_add ops (take ?B (padKey k1 (CHR 0x5C))) (h_clear ops s2)))"
    using sizes getHash_max [OF s2] getHash_max [OF long]
    by (cases "length k > ?B") (simp_all add: computeHMAC_def Let_def MAX_HASH_SIZE_def MAX_BLOCK_SIZE_def s2_def s1_def k1_def)
  ultimately show ?thesis unfolding pads by blast
qed

lemma computeHMAC_result:
  assumes "holds s m"
  obtains s' m' where "computeHMAC ops k d s = Inr s'" "holds s' m'"
    "h_getHash ops MAX_HASH_SIZE s' = hmac (h_getBlockSize ops) digest k d"
  using computeHMAC_holds [OF assms, of k d] getHash_max unfolding hmac_def by blast

lemma hmac_length: "length (hmac n digest k d) = h_getHashSize ops"
  by (simp add: hmac_def digest_length)

lemma pbkdf2_iterate_sum:
  assumes "holds s m" "length u = h_getHashSize ops"
  shows "\<exists>u' s' m'. pbkdf2_iterate ops password n u acc s =
    Inr (u', pbkdf2_sum (hmac (h_getBlockSize ops) digest password) n u acc, s') \<and> holds s' m'"
  using assms
proof (induction n arbitrary: s m u acc)
  case (Suc n)
  obtain s' m' where s': "computeHMAC ops password u s = Inr s'" "holds s' m'"
      "h_getHash ops MAX_HASH_SIZE s' = hmac (h_getBlockSize ops) digest password u"
    using computeHMAC_result [OF Suc.prems(1)] .
  from Suc.IH [OF s'(2) hmac_length] s' Suc.prems(2) show ?case by (simp add: hmac_length Let_def)
qed auto

lemma pbkdf2_sum_length: "length acc = h_getHashSize ops \<Longrightarrow>
    length (pbkdf2_sum (hmac n digest password) c u acc) = h_getHashSize ops"
  by (induction c arbitrary: u acc) (simp_all add: hmac_length)

lemma pbkdf2_T_length: "length (pbkdf2_T (hmac n digest password) salt c i) = h_getHashSize ops"
  by (simp add: pbkdf2_T_def Let_def pbkdf2_sum_length hmac_length)

lemma pbkdf2_blocks_T:
  assumes "holds s m"
  shows "\<exists>s' m'. pbkdf2_blocks ops password salt c out (of_nat i) s =
    Inr (take out (concat (map (\<lambda>j. pbkdf2_T (hmac (h_getBlockSize ops) digest password) salt (unat c) (of_nat j)) [Suc i..<Suc i + out])), s') \<and> holds s' m'"
  using assms
proof (induction out arbitrary: i s m rule: less_induct)
  case (less out)
  let ?hm = "hmac (h_getBlockSize ops) digest password" and ?h = "h_getHashSize ops"
  let ?T = "\<lambda>j. pbkdf2_T ?hm salt (unat c) (of_nat j)"
  show ?case
  proof (cases "out = 0")
    case False
    define u where "u = ?hm (salt @ UInt32BE_pack (of_nat (Suc i)))"
    obtain s1 m1 where s1: "computeHMAC ops password (salt @ UInt32BE_pack (of_nat (Suc i))) s = Inr s1" "holds s1 m1"
        "h_getHash ops MAX_HASH_SIZE s1 = u"
      using computeHMAC_result [OF less.prems] unfolding u_def .
    have lu: "length u = ?h" by (simp add: u_def hmac_length)
    obtain u' s2 m2 where s2: "pbkdf2_iterate ops password (unat c - 1) u u s1 = Inr (u', ?T (Suc i), s2)" "holds s2 m2"
      using pbkdf2_iterate_sum [OF s1(2) lu, of password "unat c - 1" u]
      by (auto simp: pbkdf2_T_def Let_def u_def)
    define tail where "tail = take (out - ?h) (concat (map ?T [Suc (Suc i)..<Suc (Suc i) + (out - ?h)]))"
    obtain s3 m3 where s3: "pbkdf2_blocks ops password salt c (out - ?h) (of_nat (Suc i)) s2 = Inr (tail, s3)" "holds s3 m3"
      using less.IH [OF _ s2(2), of "out - ?h" "Suc i"] False sizes(1) unfolding tail_def by auto
    have "take out (concat (map ?T [Suc i..<Suc i + out])) = take (min out ?h) (?T (Suc i)) @ tail"
      unfolding tail_def using False sizes(1) by (intro take_concat_blocks) (auto simp: pbkdf2_T_length)
    moreover have "pbkdf2_blocks ops password salt c out (of_nat i) s = Inr (take (min out ?h) (?T (Suc i)) @ tail, s3)"
      using s1 s2 s3(1) lu sizes(1) False by (subst pbkdf2_blocks.simps) (simp add: Let_def add.commute)
    ultimately show ?thesis using s3(2) by metis
  qed (use less.prems in \<open>auto simp: pbkdf2_blocks.simps\<close>)
qed

lemma computePBKDF2_result:
  assumes "holds s m" "length salt \<le> 128"
  shows "\<exists>s' m'. computePBKDF2 ops out password salt c s =
    Inr (take out (concat (map (\<lambda>j. pbkdf2_T (hmac (h_getBlockSize ops) digest password) salt (unat c) (of_nat j)) [1..<Suc out])), s') \<and> holds s' m'"
  using pbkdf2_blocks_T [OF assms(1), of password salt c out 0] assms(2)
  by (simp add: computePBKDF2_def MAX_BLOCK_SIZE_def del: upt_Suc)

lemma keyed: "holds s m \<Longrightarrow> computes_keyed ops (h_getBlockSize ops) (h_getHashSize ops) digest s"
  unfolding computes_keyed_def
proof (intro conjI allI)
  fix k d
  assume "holds s m"
  from computeHMAC_holds [OF this, of k d]
  show "\<exists>s'. computeHMAC ops k d s = Inr s' \<and> h_getHash ops (h_getHashSize ops) s' = hmac (h_getBlockSize ops) digest k d"
    using getHash_digest by (fastforce simp: hmac_def)
next
  fix out k salt c
  assume "holds s m"
  from computePBKDF2_result [OF this, of salt out k c]
  show "if length salt \<le> 128
     then \<exists>s'. computePBKDF2 ops out k salt c s =
       Inr (take out (concat (map (\<lambda>j. pbkdf2_T (hmac (h_getBlockSize ops) digest k) salt (unat c) (of_nat j)) [1..<Suc out])), s')
     else computePBKDF2 ops out k salt c s = Inl (UnsupportedException ''pbkdf2'')"
    by (auto simp: computePBKDF2_def MAX_BLOCK_SIZE_def simp del: upt_Suc)
qed

end

interpretation md5: hash_function MD5_ops md5_holds md5_digest
proof
  fix s m d n
  show "md5_holds s m \<Longrightarrow> md5_holds (h_clear MD5_ops s) []"
    using MD5_clear_holds [of s] md5_holds_def [of s m] by (simp add: MD5_ops_def)
  show "md5_holds s m \<Longrightarrow> md5_holds (h_add MD5_ops d s) (m @ d)"
    by (simp add: MD5_ops_def MD5_add_holds)
  show l: "length (md5_digest m) = h_getHashSize MD5_ops"
    by (simp add: MD5_ops_def md5_digest_def u32le.concat_pack_length foldl_length MD5_transform_length MD5_INIT_def)
  show "md5_holds s m \<Longrightarrow> h_getHashSize MD5_ops \<le> n \<Longrightarrow> h_getHash MD5_ops n s = md5_digest m"
    using l by (simp add: MD5_ops_def MD5_getHash_digest)
qed (simp_all add: MD5_ops_def)

interpretation sha1: hash_function SHA1_ops sha1_holds sha1_digest
proof
  fix s m d n
  show "sha1_holds s m \<Longrightarrow> sha1_holds (h_clear SHA1_ops s) []"
    using SHA1_clear_holds [of s] sha1_holds_def [of s m] by (simp add: SHA1_ops_def)
  show "sha1_holds s m \<Longrightarrow> sha1_holds (h_add SHA1_ops d s) (m @ d)"
    by (simp add: SHA1_ops_def SHA1_add_holds)
  show l: "length (sha1_digest m) = h_getHashSize SHA1_ops"
    by (simp add: SHA1_ops_def sha1_digest_def u32be.concat_pack_length foldl_length SHA1_processBlock_length SHA1_INIT_def)
  show "sha1_holds s m \<Longrightarrow> h_getHashSize SHA1_ops \<le> n \<Longrightarrow> h_getHash SHA1_ops n s = sha1_digest m"
    using l by (simp add: SHA1_ops_def SHA1_getHash_digest)
qed (simp_all add: SHA1_ops_def)

text \<open>All members of the SHA-2 family at once.\<close>

lemma sha2_hash_function:
  fixes T :: "('w::len word) sha2_traits"
  assumes "sha2_sizes T" "length init = 8" "packing pack unpack w valid" "k \<le> 8" "0 < k" "k * w \<le> 64" "k * w \<le> t_blockSize T"
    and "ops = \<lparr>h_clear = SHA2Core_init init, h_add = SHA2Core_add T, h_getHashSize = k * w, h_getBlockSize = t_blockSize T,
      h_getHash = (\<lambda>n s. packArray pack w 0 (min n (k * w)) (s2_hs (SHA2Core_pad T s)))\<rparr>"
  shows "hash_function ops (sha2_holds T init) (sha2_digest T init pack k)"
proof
  fix s m d n
  note pk = assms(3)
  show "sha2_holds T init s m \<Longrightarrow> sha2_holds T init (h_clear ops s) []"
    using SHA2Core_init_holds [of s T init] sha2_holds_def [of T init s m] assms(1,8) by simp
  show "sha2_holds T init s m \<Longrightarrow> sha2_holds T init (h_add ops d s) (m @ d)"
    using assms(1,8) by (simp add: SHA2Core_add_holds)
  show "length (sha2_digest T init pack k m) = h_getHashSize ops"
    using assms(2,4,8) by (simp add: sha2_digest_def packing.concat_pack_length [OF pk] foldl_length sha2_compress_length)
  show "h_getHash ops n s = sha2_digest T init pack k m" if h: "sha2_holds T init s m" "h_getHashSize ops \<le> n"
  proof -
    have "length (s2_hs (SHA2Core_pad T s)) = 8" by (rule SHA2Core_pad_length [OF assms(1) h(1) assms(2)])
    moreover have "min n (k * w) = k * w" "0 < w" using h(2) assms(8) packing.n_pos [OF pk] by simp_all
    ultimately show ?thesis
      using SHA2Core_pad_state [OF assms(1) h(1), of pack k] assms(4,8)
      by (simp add: packing.packArray_elements [OF pk] fitTo_def)
  qed
  show "0 < h_getHashSize ops" "h_getHashSize ops \<le> 64" "h_getHashSize ops \<le> h_getBlockSize ops" "h_getBlockSize ops \<le> 128"
    using assms(1,5-8) packing.n_pos [OF pk] by (simp_all add: sha2_sizes_def)
qed

interpretation sha224: hash_function SHA224_ops "sha2_holds SHA2_32 SHA224_INIT" "sha2_digest SHA2_32 SHA224_INIT UInt32BE_pack 7"
  by (rule sha2_hash_function [OF SHA2_32_sizes _ u32be.packing_axioms])
     (simp_all add: SHA224_INIT_def SHA2_32_def SHA224_ops_def SHA224_clear_def [abs_def] SHA224_add_def [abs_def] SHA224_getHash_def [abs_def])

interpretation sha256: hash_function SHA256_ops "sha2_holds SHA2_32 SHA256_INIT" "sha2_digest SHA2_32 SHA256_INIT UInt32BE_pack 8"
  by (rule sha2_hash_function [OF SHA2_32_sizes _ u32be.packing_axioms])
     (simp_all add: SHA256_INIT_def SHA2_32_def SHA256_ops_def SHA256_clear_def [abs_def] SHA256_add_def [abs_def] SHA256_getHash_def [abs_def])

interpretation sha384: hash_function SHA384_ops "sha2_holds SHA2_64 SHA384_INIT" "sha2_digest SHA2_64 SHA384_INIT UInt64BE_pack 6"
  by (rule sha2_hash_function [OF SHA2_64_sizes _ u64be.packing_axioms])
     (simp_all add: SHA384_INIT_def SHA2_64_def SHA384_ops_def SHA384_clear_def [abs_def] SHA384_add_def [abs_def] SHA384_getHash_def [abs_def])

interpretation sha512: hash_function SHA512_ops "sha2_holds SHA2_64 SHA512_INIT" "sha2_digest SHA2_64 SHA512_INIT UInt64BE_pack 8"
  by (rule sha2_hash_function [OF SHA2_64_sizes _ u64be.packing_axioms])
     (simp_all add: SHA512_INIT_def SHA2_64_def SHA512_ops_def SHA512_clear_def [abs_def] SHA512_add_def [abs_def] SHA512_getHash_def [abs_def])

section \<open>Properties\<close>

text \<open>
  C23: The digest an object reports depends only on the octets that were added, not on the pieces they came
  in, the previous use of the object or the content of its buffer: it is the digest of the whole
  message, computed from the blocks of the padded message. \<open>getHash\<close> of MD5 and SHA-1 truncates it to the
  buffer of the caller.
\<close>

theorem digests_of_pieces:
  assumes "length (md5_buffer m0) = 64" "length (sha1_block s0) = 64" "length (s2_block s1) = 64" "length (s2_block s2) = 128"
  shows "MD5_getHash n (fold MD5_add ds (MD5_clear m0)) = take n (md5_digest (concat ds)) \<and>
    SHA1_getHash n (fold SHA1_add ds (SHA1_clear s0)) = take n (sha1_digest (concat ds)) \<and>
    SHA224_getHash 28 (fold SHA224_add ds (SHA224_clear s1)) = sha2_digest SHA2_32 SHA224_INIT UInt32BE_pack 7 (concat ds) \<and>
    SHA256_getHash 32 (fold SHA256_add ds (SHA256_clear s1)) = sha2_digest SHA2_32 SHA256_INIT UInt32BE_pack 8 (concat ds) \<and>
    SHA384_getHash 48 (fold SHA384_add ds (SHA384_clear s2)) = sha2_digest SHA2_64 SHA384_INIT UInt64BE_pack 6 (concat ds) \<and>
    SHA512_getHash 64 (fold SHA512_add ds (SHA512_clear s2)) = sha2_digest SHA2_64 SHA512_INIT UInt64BE_pack 8 (concat ds)"
proof (intro conjI)
  show "MD5_getHash n (fold MD5_add ds (MD5_clear m0)) = take n (md5_digest (concat ds))"
    using md5.pieces_hold [OF MD5_clear_holds [OF assms(1)], of ds] by (simp add: MD5_getHash_digest MD5_ops_def)
  show "SHA1_getHash n (fold SHA1_add ds (SHA1_clear s0)) = take n (sha1_digest (concat ds))"
    using sha1.pieces_hold [OF SHA1_clear_holds [OF assms(2)], of ds] by (simp add: SHA1_getHash_digest SHA1_ops_def)
  show "SHA224_getHash 28 (fold SHA224_add ds (SHA224_clear s1)) = sha2_digest SHA2_32 SHA224_INIT UInt32BE_pack 7 (concat ds)"
  proof -
    have "sha2_holds SHA2_32 SHA224_INIT (SHA224_clear s1) []"
      using assms(3) by (simp add: SHA224_clear_def SHA2Core_init_holds SHA2_32_sizes SHA2_blockSizes)
    from sha224.getHash_digest [OF sha224.pieces_hold [OF this, of ds], of 28] show ?thesis by (simp add: SHA224_ops_def)
  qed
  show "SHA256_getHash 32 (fold SHA256_add ds (SHA256_clear s1)) = sha2_digest SHA2_32 SHA256_INIT UInt32BE_pack 8 (concat ds)"
  proof -
    have "sha2_holds SHA2_32 SHA256_INIT (SHA256_clear s1) []"
      using assms(3) by (simp add: SHA256_clear_def SHA2Core_init_holds SHA2_32_sizes SHA2_blockSizes)
    from sha256.getHash_digest [OF sha256.pieces_hold [OF this, of ds], of 32] show ?thesis by (simp add: SHA256_ops_def)
  qed
  show "SHA384_getHash 48 (fold SHA384_add ds (SHA384_clear s2)) = sha2_digest SHA2_64 SHA384_INIT UInt64BE_pack 6 (concat ds)"
  proof -
    have "sha2_holds SHA2_64 SHA384_INIT (SHA384_clear s2) []"
      using assms(4) by (simp add: SHA384_clear_def SHA2Core_init_holds SHA2_64_sizes SHA2_blockSizes)
    from sha384.getHash_digest [OF sha384.pieces_hold [OF this, of ds], of 48] show ?thesis by (simp add: SHA384_ops_def)
  qed
  show "SHA512_getHash 64 (fold SHA512_add ds (SHA512_clear s2)) = sha2_digest SHA2_64 SHA512_INIT UInt64BE_pack 8 (concat ds)"
  proof -
    have "sha2_holds SHA2_64 SHA512_INIT (SHA512_clear s2) []"
      using assms(4) by (simp add: SHA512_clear_def SHA2Core_init_holds SHA2_64_sizes SHA2_blockSizes)
    from sha512.getHash_digest [OF sha512.pieces_hold [OF this, of ds], of 64] show ?thesis by (simp add: SHA512_ops_def)
  qed
qed

definition junk :: "nat \<Rightarrow> octet list" where "junk n = replicate n (CHR ''x'')"

lemma digests_of_pieces_witness:
  "length (md5_buffer (MD5_new (junk 64))) = 64 \<and>
   MD5_getHash 16 (fold MD5_add [''a'', ''bc''] (MD5_clear (MD5_new (junk 64)))) = take 16 (md5_digest ''abc'')"
proof -
  have "length (md5_buffer (MD5_new (junk 64))) = 64" "length (sha1_block (SHA1_new (junk 64))) = 64"
    "length (s2_block \<lparr>s2_hs = [], s2_counterLo = 0, s2_counterHi = 0, s2_fill = 0, s2_block = junk 64\<rparr>) = 64"
    "length (s2_block \<lparr>s2_hs = [], s2_counterLo = 0, s2_counterHi = 0, s2_fill = 0, s2_block = junk 128\<rparr>) = 128"
    by (simp_all add: MD5_new_def MD5_clear_def SHA1_new_def SHA1_clear_def junk_def)
  from digests_of_pieces [OF this, of 16 "[''a'', ''bc'']"] this(1) show ?thesis by simp
qed

text \<open>
  C24: With each of the six digests, \<open>computeHMAC\<close> succeeds for keys and data of any length and computes the code of
  RFC 2104, and \<open>computePBKDF2\<close> fills an output of any size with the blocks of RFC 2898, for salts of up to 128 octets;
  longer ones are refused. The objects may have been used before.
\<close>

theorem hmac_pbkdf2_correct:
  assumes "length (md5_buffer m0) = 64" "length (sha1_block s0) = 64" "length (s2_block s1) = 64" "length (s2_block s2) = 128"
  shows "computes_keyed MD5_ops 64 16 md5_digest (MD5_clear m0) \<and>
    computes_keyed SHA1_ops 64 20 sha1_digest (SHA1_clear s0) \<and>
    computes_keyed SHA224_ops 64 28 (sha2_digest SHA2_32 SHA224_INIT UInt32BE_pack 7) (SHA224_clear s1) \<and>
    computes_keyed SHA256_ops 64 32 (sha2_digest SHA2_32 SHA256_INIT UInt32BE_pack 8) (SHA256_clear s1) \<and>
    computes_keyed SHA384_ops 128 48 (sha2_digest SHA2_64 SHA384_INIT UInt64BE_pack 6) (SHA384_clear s2) \<and>
    computes_keyed SHA512_ops 128 64 (sha2_digest SHA2_64 SHA512_INIT UInt64BE_pack 8) (SHA512_clear s2)"
proof (intro conjI)
  show "computes_keyed MD5_ops 64 16 md5_digest (MD5_clear m0)"
    using md5.keyed [OF MD5_clear_holds [OF assms(1)]] by (simp add: MD5_ops_def)
  show "computes_keyed SHA1_ops 64 20 sha1_digest (SHA1_clear s0)"
    using sha1.keyed [OF SHA1_clear_holds [OF assms(2)]] by (simp add: SHA1_ops_def)
  have holds: "sha2_holds SHA2_32 SHA224_INIT (SHA224_clear s1) []" "sha2_holds SHA2_32 SHA256_INIT (SHA256_clear s1) []"
      "sha2_holds SHA2_64 SHA384_INIT (SHA384_clear s2) []" "sha2_holds SHA2_64 SHA512_INIT (SHA512_clear s2) []"
    using assms(3,4) by (simp_all add: SHA224_clear_def SHA256_clear_def SHA384_clear_def SHA512_clear_def
        SHA2Core_init_holds SHA2_32_sizes SHA2_64_sizes SHA2_blockSizes)
  show "computes_keyed SHA224_ops 64 28 (sha2_digest SHA2_32 SHA224_INIT UInt32BE_pack 7) (SHA224_clear s1)"
    using sha224.keyed [OF holds(1)] by (simp add: SHA224_ops_def)
  show "computes_keyed SHA256_ops 64 32 (sha2_digest SHA2_32 SHA256_INIT UInt32BE_pack 8) (SHA256_clear s1)"
    using sha256.keyed [OF holds(2)] by (simp add: SHA256_ops_def)
  show "computes_keyed SHA384_ops 128 48 (sha2_digest SHA2_64 SHA384_INIT UInt64BE_pack 6) (SHA384_clear s2)"
    using sha384.keyed [OF holds(3)] by (simp add: SHA384_ops_def)
  show "computes_keyed SHA512_ops 128 64 (sha2_digest SHA2_64 SHA512_INIT UInt64BE_pack 8) (SHA512_clear s2)"
    using sha512.keyed [OF holds(4)] by (simp add: SHA512_ops_def)
qed

lemma hmac_pbkdf2_correct_witness:
  "\<exists>s s'. computeHMAC SHA1_ops ''k'' ''data'' (SHA1_clear (SHA1_new (junk 64))) = Inr s \<and> h_getHash SHA1_ops 20 s = hmac 64 sha1_digest ''k'' ''data'' \<and>
     computePBKDF2 MD5_ops 10 ''k'' ''salt'' 3 (MD5_clear (MD5_new (junk 64))) =
       Inr (take 10 (concat (map (\<lambda>j. pbkdf2_T (hmac 64 md5_digest ''k'') ''salt'' (unat (3 :: 32 word)) (of_nat j)) [1..<Suc 10])), s')"
proof -
  have "length (md5_buffer (MD5_new (junk 64))) = 64" "length (sha1_block (SHA1_new (junk 64))) = 64"
    "length (s2_block \<lparr>s2_hs = [], s2_counterLo = 0, s2_counterHi = 0, s2_fill = 0, s2_block = junk 64\<rparr>) = 64"
    "length (s2_block \<lparr>s2_hs = [], s2_counterLo = 0, s2_counterHi = 0, s2_fill = 0, s2_block = junk 128\<rparr>) = 128"
    by (simp_all add: MD5_new_def MD5_clear_def SHA1_new_def SHA1_clear_def junk_def)
  from hmac_pbkdf2_correct [OF this] have c: "computes_keyed SHA1_ops 64 20 sha1_digest (SHA1_clear (SHA1_new (junk 64)))"
    "computes_keyed MD5_ops 64 16 md5_digest (MD5_clear (MD5_new (junk 64)))" by blast+
  from c(1) obtain s where "computeHMAC SHA1_ops ''k'' ''data'' (SHA1_clear (SHA1_new (junk 64))) = Inr s" "h_getHash SHA1_ops 20 s = hmac 64 sha1_digest ''k'' ''data''"
    unfolding computes_keyed_def by blast
  moreover have "length ''salt'' \<le> 128" by simp
  with conjunct2 [OF c(2) [unfolded computes_keyed_def], THEN spec, of 10, THEN spec, of "''k''", THEN spec, of "''salt''", THEN spec, of 3]
  obtain s' where "computePBKDF2 MD5_ops 10 ''k'' ''salt'' 3 (MD5_clear (MD5_new (junk 64))) =
       Inr (take 10 (concat (map (\<lambda>j. pbkdf2_T (hmac 64 md5_digest ''k'') ''salt'' (unat (3 :: 32 word)) (of_nat j)) [1..<Suc 10])), s')"
    by (simp only: if_True) blast
  ultimately show ?thesis by blast
qed

section \<open>Evaluated\<close>

text \<open>A test vector of RFC 1321.\<close>

lemma MD5_test_vector:
  "getHashAsHexString MD5_ops (MD5_new (replicate 64 (CHR 0x00))) = ''d41d8cd98f00b204e9800998ecf8427e''"
  by code_simp

text \<open>
  A digest that is larger than the caller's buffer should be truncated (\<open>hash.hpp\<close>). The SHA-2 classes pack
  whole words only, so that the octets of a word that does not fit completely are zero.
\<close>

lemma SHA256_short_buffer: "n < 4 \<Longrightarrow> SHA256_getHash n s = replicate n (CHR 0x00)"
  by (simp add: SHA256_getHash_def packArray.simps)

end
