(* ===== verification/Afl_Async.thy ===== *)
theory Afl_Async
  imports Afl_Prelude "HOL-Library.Word"
begin

text \<open>
  Synchronisation between threads (\<open>afl/async\<close>): operations, controllers with their queues of completed
  operations, semaphores, recursive mutexes, message exchanges and timers. A thread is identified by its
  controller; controllers and operations are numbers, which stand for their addresses. Every method
  holds the mutex of its object, so that a method is one atomic step; an execution is a sequence
  of steps of all threads in any order. The protocol that wakes a sleeping thread is in \<open>Afl_Wakeup\<close>.
\<close>

section \<open>Operations and controllers\<close>

type_synonym controller = nat

type_synonym operation = nat

text \<open>
  What all objects share: the controller that is set in each operation (\<open>m_pController\<close>, read only after it
  was set), and the list of completed operations of each controller.
\<close>

record queues =
  op_controller :: "operation \<Rightarrow> controller"
  completed :: "controller \<Rightarrow> operation list"

definition pushBack :: "operation \<Rightarrow> operation list \<Rightarrow> operation list" where
  "pushBack op xs = xs @ [op]"

fun extractFront :: "operation list \<Rightarrow> operation option \<times> operation list" where
  "extractFront [] = (None, [])"
| "extractFront (op # xs) = (Some op, xs)"

fun extractByController :: "(operation \<Rightarrow> controller) \<Rightarrow> controller \<Rightarrow> operation list \<Rightarrow> operation option \<times> operation list" where
  "extractByController ctlOf ctl [] = (None, [])"
| "extractByController ctlOf ctl (op # xs) =
     (if ctlOf op = ctl then (Some op, xs)
      else let (result, xs) = extractByController ctlOf ctl xs in (result, op # xs))"

fun OperationList_remove :: "operation \<Rightarrow> operation list \<Rightarrow> bool \<times> operation list" where
  "OperationList_remove op [] = (False, [])"
| "OperationList_remove op (x # xs) =
     (if x = op then (True, xs) else let (found, xs) = OperationList_remove op xs in (found, x # xs))"

definition setController :: "operation \<Rightarrow> controller \<Rightarrow> queues \<Rightarrow> queues" where
  "setController op ctl q = q\<lparr>op_controller := (op_controller q)(op := ctl)\<rparr>"

definition Controller_post :: "controller \<Rightarrow> operation \<Rightarrow> queues \<Rightarrow> queues" where
  "Controller_post ctl op q = q\<lparr>completed := (completed q)(ctl := pushBack op (completed q ctl))\<rparr>"

definition revertPost :: "controller \<Rightarrow> operation \<Rightarrow> queues \<Rightarrow> queues" where
  "revertPost ctl op q = q\<lparr>completed := (completed q)(ctl := snd (OperationList_remove op (completed q ctl)))\<rparr>"

text \<open>The default notifier posts an operation to its controller.\<close>

definition notify :: "operation \<Rightarrow> queues \<Rightarrow> queues" where
  "notify op q = Controller_post (op_controller q op) op q"

text \<open>The check for a given operation in \<open>Controller::wait(op)\<close>, and for any operation in \<open>Controller::wait()\<close>.\<close>

definition Controller_check :: "controller \<Rightarrow> operation \<Rightarrow> queues \<Rightarrow> bool \<times> queues" where
  "Controller_check ctl op q =
     (let (found, xs) = OperationList_remove op (completed q ctl)
      in (found, q\<lparr>completed := (completed q)(ctl := xs)\<rparr>))"

definition Controller_checkAny :: "controller \<Rightarrow> queues \<Rightarrow> operation option \<times> queues" where
  "Controller_checkAny ctl q =
     (let (op, xs) = extractFront (completed q ctl) in (op, q\<lparr>completed := (completed q)(ctl := xs)\<rparr>))"

section \<open>Semaphores\<close>

record semaphore =
  sem_waiters :: "operation list"
  sem_value :: "32 word"

definition Semaphore_init :: "32 word \<Rightarrow> semaphore" where
  "Semaphore_init initialValue = \<lparr>sem_waiters = [], sem_value = initialValue\<rparr>"

definition Semaphore_post :: "semaphore \<times> queues \<Rightarrow> semaphore \<times> queues" where
  "Semaphore_post = (\<lambda>(s, q).
     case extractFront (sem_waiters s) of
       (Some op, ws) \<Rightarrow> (s\<lparr>sem_waiters := ws\<rparr>, notify op q)
     | (None, ws) \<Rightarrow> (s\<lparr>sem_value := sem_value s + 1\<rparr>, q))"

definition Semaphore_waitAsync :: "controller \<Rightarrow> operation \<Rightarrow> semaphore \<times> queues \<Rightarrow> semaphore \<times> queues" where
  "Semaphore_waitAsync ctl op = (\<lambda>(s, q).
     let q = setController op ctl q
     in if sem_value s = 0 then (s\<lparr>sem_waiters := pushBack op (sem_waiters s)\<rparr>, q)
        else (s\<lparr>sem_value := sem_value s - 1\<rparr>, notify op q))"

definition Semaphore_cancel :: "controller \<Rightarrow> operation \<Rightarrow> semaphore \<times> queues \<Rightarrow> semaphore \<times> queues" where
  "Semaphore_cancel ctl op = (\<lambda>(s, q).
     (s\<lparr>sem_waiters := snd (OperationList_remove op (sem_waiters s))\<rparr>, revertPost ctl op q))"

section \<open>Mutexes\<close>

text \<open>The level of nesting is an \<open>uint32_t\<close>.\<close>

record mutex =
  mx_waiters :: "operation list"
  mx_nestingLevel :: nat
  mx_owner :: "controller option"

definition Mutex_init :: mutex where
  "Mutex_init = \<lparr>mx_waiters = [], mx_nestingLevel = 0, mx_owner = None\<rparr>"

definition Mutex_waitAsync :: "controller \<Rightarrow> operation \<Rightarrow> mutex \<times> queues \<Rightarrow> mutex \<times> queues" where
  "Mutex_waitAsync ctl op = (\<lambda>(m, q).
     let q = setController op ctl q
     in if mx_owner m = Some ctl then (m\<lparr>mx_nestingLevel := (mx_nestingLevel m + 1) mod 2 ^ 32\<rparr>, notify op q)
        else if mx_owner m = None then (m\<lparr>mx_owner := Some ctl, mx_nestingLevel := 1\<rparr>, notify op q)
        else (m\<lparr>mx_waiters := pushBack op (mx_waiters m)\<rparr>, q))"

text \<open>The loop that grants the nested acquisitions of a new owner.\<close>

lemma extractByController_shorter:
  "extractByController ctlOf ctl xs = (Some op, ys) \<Longrightarrow> length ys < length xs"
  by (induction xs arbitrary: ys) (auto simp: Let_def split: if_splits prod.splits)

function grantNested :: "controller \<Rightarrow> mutex \<times> queues \<Rightarrow> mutex \<times> queues" where
  "grantNested newOwner (m, q) =
     (case extractByController (op_controller q) newOwner (mx_waiters m) of
        (Some op2, ws) \<Rightarrow>
          grantNested newOwner (m\<lparr>mx_waiters := ws, mx_nestingLevel := (mx_nestingLevel m + 1) mod 2 ^ 32\<rparr>, notify op2 q)
      | (None, ws) \<Rightarrow> (m, q))"
  by pat_completeness auto

termination
  by (relation "measure (\<lambda>(newOwner, m, q). length (mx_waiters m))")
     (auto dest!: extractByController_shorter [OF sym])

declare grantNested.simps [simp del]

definition Mutex_post :: "controller \<Rightarrow> mutex \<times> queues \<Rightarrow> mutex \<times> queues" where
  "Mutex_post ctl = (\<lambda>(m, q).
     if mx_owner m = Some ctl
     then let m = m\<lparr>mx_nestingLevel := (mx_nestingLevel m + 2 ^ 32 - 1) mod 2 ^ 32\<rparr>
          in if mx_nestingLevel m = 0
             then (case extractFront (mx_waiters m) of
                     (Some op, ws) \<Rightarrow>
                       let newOwner = op_controller q op
                       in grantNested newOwner
                            (m\<lparr>mx_waiters := ws, mx_owner := Some newOwner, mx_nestingLevel := 1\<rparr>, notify op q)
                   | (None, ws) \<Rightarrow> (m\<lparr>mx_owner := None\<rparr>, q))
             else (m, q)
     else (m, q))"

definition Mutex_cancel :: "controller \<Rightarrow> operation \<Rightarrow> mutex \<times> queues \<Rightarrow> mutex \<times> queues" where
  "Mutex_cancel ctl op = (\<lambda>(m, q).
     (m\<lparr>mx_waiters := snd (OperationList_remove op (mx_waiters m))\<rparr>, revertPost ctl op q))"

section \<open>Timers\<close>

record timer =
  tm_waiters :: "operation list"
  tm_numSignals :: "32 word"
  tm_interval :: "32 word"
  tm_active :: bool
  tm_cyclic :: bool
  tm_lastCheck :: "32 word"

definition INFINITE_TIMEOUT :: "32 word" where "INFINITE_TIMEOUT = - 1"

definition Timer_init :: timer where
  "Timer_init = \<lparr>tm_waiters = [], tm_numSignals = 0, tm_interval = 0, tm_active = False, tm_cyclic = False, tm_lastCheck = 0\<rparr>"

text \<open>\<open>now\<close> is the tick counter, a number of milliseconds that wraps around.\<close>

definition Timer_start :: "32 word \<Rightarrow> 32 word \<Rightarrow> bool \<Rightarrow> timer \<Rightarrow> timer" where
  "Timer_start now interval cyclic t =
     t\<lparr>tm_interval := interval, tm_active := True, tm_cyclic := cyclic, tm_lastCheck := now\<rparr>"

definition Timer_stop :: "timer \<Rightarrow> timer" where
  "Timer_stop t = t\<lparr>tm_interval := 0, tm_active := False, tm_cyclic := False, tm_numSignals := 0\<rparr>"

definition Timer_waitAsync :: "controller \<Rightarrow> operation \<Rightarrow> timer \<times> queues \<Rightarrow> timer \<times> queues" where
  "Timer_waitAsync ctl op = (\<lambda>(t, q).
     let q = setController op ctl q
     in if tm_numSignals t = 0 then (t\<lparr>tm_waiters := pushBack op (tm_waiters t)\<rparr>, q)
        else (t\<lparr>tm_numSignals := tm_numSignals t - 1\<rparr>, notify op q))"

definition Timer_cancel :: "controller \<Rightarrow> operation \<Rightarrow> timer \<times> queues \<Rightarrow> timer \<times> queues" where
  "Timer_cancel ctl op = (\<lambda>(t, q).
     (t\<lparr>tm_waiters := snd (OperationList_remove op (tm_waiters t))\<rparr>, revertPost ctl op q))"

text \<open>One check of a timer: whether it fires, and when to check again.\<close>

definition Timer_update :: "32 word \<Rightarrow> timer \<times> queues \<Rightarrow> 32 word \<times> timer \<times> queues" where
  "Timer_update now = (\<lambda>(t, q).
     if \<not> tm_active t then (INFINITE_TIMEOUT, t, q)
     else let elapsed = now - tm_lastCheck t;
              (elapsed, t, q) =
                (if elapsed \<ge> tm_interval t
                 then let (t, q) = (case extractFront (tm_waiters t) of
                                      (Some op, ws) \<Rightarrow> (t\<lparr>tm_waiters := ws\<rparr>, notify op q)
                                    | (None, ws) \<Rightarrow> (t\<lparr>tm_numSignals := tm_numSignals t + 1\<rparr>, q))
                      in (elapsed - tm_interval t,
                          t\<lparr>tm_active := tm_cyclic t, tm_lastCheck := tm_lastCheck t + tm_interval t\<rparr>, q)
                 else (elapsed, t, q))
          in if elapsed \<ge> tm_interval t then (1, t\<lparr>tm_lastCheck := now - tm_interval t + 1\<rparr>, q)
             else (tm_interval t - elapsed, t, q))"

text \<open>The timer thread checks all timers and sleeps until the first of them.\<close>

fun Manager_update :: "32 word \<Rightarrow> 32 word \<Rightarrow> timer list \<times> queues \<Rightarrow> 32 word \<times> timer list \<times> queues" where
  "Manager_update now result ([], q) = (result, [], q)"
| "Manager_update now result (t # ts, q) =
     (let (n, t, q) = Timer_update now (t, q);
          (result, ts, q) = Manager_update now (if n < result then n else result) (ts, q)
      in (result, t # ts, q))"

section \<open>Message exchange\<close>

text \<open>The data of send operations and the buffers of receive operations, with what was transferred so far.\<close>

record messages =
  tx_data :: "operation \<Rightarrow> octet list"
  tx_sent :: "operation \<Rightarrow> nat"
  rx_size :: "operation \<Rightarrow> nat"
  rx_received :: "operation \<Rightarrow> octet list"

definition ReceiveOperation_copyFrom :: "operation \<Rightarrow> operation \<Rightarrow> messages \<Rightarrow> messages" where
  "ReceiveOperation_copyFrom rx tx d =
     (let unsent = drop (tx_sent d tx) (tx_data d tx);
          copied = take (rx_size d rx - length (rx_received d rx)) unsent
      in d\<lparr>rx_received := (rx_received d)(rx := rx_received d rx @ copied),
           tx_sent := (tx_sent d)(tx := tx_sent d tx + length copied)\<rparr>)"

record exchange =
  ex_pendingSends :: "operation list"
  ex_pendingReceives :: "operation list"
  ex_messages :: messages

definition sendAsync :: "controller \<Rightarrow> operation \<Rightarrow> exchange \<times> queues \<Rightarrow> exchange \<times> queues" where
  "sendAsync ctl op = (\<lambda>(x, q).
     let q = setController op ctl q
     in case extractFront (ex_pendingReceives x) of
          (Some rx, rs) \<Rightarrow>
            (x\<lparr>ex_pendingReceives := rs, ex_messages := ReceiveOperation_copyFrom rx op (ex_messages x)\<rparr>, notify op (notify rx q))
        | (None, rs) \<Rightarrow> (x\<lparr>ex_pendingSends := pushBack op (ex_pendingSends x)\<rparr>, q))"

definition receiveAsync :: "controller \<Rightarrow> operation \<Rightarrow> exchange \<times> queues \<Rightarrow> exchange \<times> queues" where
  "receiveAsync ctl op = (\<lambda>(x, q).
     let q = setController op ctl q
     in case extractFront (ex_pendingSends x) of
          (Some tx, ss) \<Rightarrow>
            (x\<lparr>ex_pendingSends := ss, ex_messages := ReceiveOperation_copyFrom op tx (ex_messages x)\<rparr>, notify op (notify tx q))
        | (None, ss) \<Rightarrow> (x\<lparr>ex_pendingReceives := pushBack op (ex_pendingReceives x)\<rparr>, q))"

definition MessageExchange_cancel :: "controller \<Rightarrow> operation \<Rightarrow> exchange \<times> queues \<Rightarrow> exchange \<times> queues" where
  "MessageExchange_cancel ctl op = (\<lambda>(x, q).
     (x\<lparr>ex_pendingSends := snd (OperationList_remove op (ex_pendingSends x)),
        ex_pendingReceives := snd (OperationList_remove op (ex_pendingReceives x))\<rparr>, revertPost ctl op q))"

end
