(* ===== verification/Afl_Async_Laws.thy ===== *)
theory Afl_Async_Laws
  imports Afl_Async
begin

text \<open>
  What the synchronisation objects guarantee, in every interleaving of the threads that use them: the contract
  that semaphores, mutexes and timers share is the locale \<open>sync_object\<close>; semaphores serve in order, mutexes
  exclude and are handed over, message exchanges pair in order, and no timer is missed.
\<close>

section \<open>Lists of operations\<close>

lemma OperationList_remove_eq [simp]: "OperationList_remove op xs = (op \<in> set xs, remove1 op xs)"
  by (induction xs) auto

lemma extractFront_eq: "extractFront xs = (case xs of [] \<Rightarrow> (None, []) | op # ys \<Rightarrow> (Some op, ys))"
  by (cases xs) auto

lemma filter_head: "filter P xs = x # ys \<Longrightarrow> P x"
  by (auto simp: filter_eq_Cons_iff)

lemma extractByController_eq:
  "extractByController ctlOf c xs =
     (case filter (\<lambda>op. ctlOf op = c) xs of [] \<Rightarrow> (None, xs) | op # _ \<Rightarrow> (Some op, remove1 op xs))"
  by (induction xs) (auto simp: Let_def split: list.splits dest: filter_head)

text \<open>
  Where operations are: an operation waits at most once in an object, and a controller has only operations of
  its own, each once, that do not wait any more. A fresh operation is referenced nowhere.
\<close>

definition placed :: "operation list \<Rightarrow> queues \<Rightarrow> bool" where
  "placed ws q \<longleftrightarrow> distinct ws \<and> (\<forall>c. distinct (completed q c) \<and>
     (\<forall>op \<in> set (completed q c). op_controller q op = c \<and> op \<notin> set ws))"

definition fresh :: "operation \<Rightarrow> operation list \<Rightarrow> queues \<Rightarrow> bool" where
  "fresh op ws q \<longleftrightarrow> op \<notin> set ws \<and> (\<forall>c. op \<notin> set (completed q c))"

lemma queues_simps [simp]:
  "op_controller (notify op q) = op_controller q"
  "completed (notify op q) = (completed q)(op_controller q op := completed q (op_controller q op) @ [op])"
  "op_controller (setController op c q) = (op_controller q)(op := c)"
  "completed (setController op c q) = completed q"
  "op_controller (revertPost c op q) = op_controller q"
  "completed (revertPost c op q) = (completed q)(c := remove1 op (completed q c))"
  by (simp_all add: notify_def Controller_post_def setController_def revertPost_def pushBack_def)

lemma Controller_check_eq [simp]:
  "Controller_check c op q = (op \<in> set (completed q c), q\<lparr>completed := (completed q)(c := remove1 op (completed q c))\<rparr>)"
  by (simp add: Controller_check_def Let_def)

lemma placed_push: "placed ws q \<Longrightarrow> fresh op ws q \<Longrightarrow> placed (ws @ [op]) (setController op c q)"
  by (auto simp: placed_def fresh_def)

lemma placed_grant: "placed ws q \<Longrightarrow> fresh op ws q \<Longrightarrow> placed ws (notify op (setController op c q))"
  by (auto simp: placed_def fresh_def)

lemma placed_serve: "placed (ws1 @ op # ws2) q \<Longrightarrow> placed (ws1 @ ws2) (notify op q)"
  by (auto simp: placed_def)

lemma placed_remove: "placed ws q \<Longrightarrow> placed (remove1 op ws) q"
  by (auto simp: placed_def dest: notin_set_remove1)

lemma placed_uncomplete:
  "placed ws q \<Longrightarrow> completed q' = (completed q)(c := remove1 op (completed q c)) \<Longrightarrow> op_controller q' = op_controller q \<Longrightarrow> placed ws q'"
  by (auto simp: placed_def dest: notin_set_remove1)

lemma placed_check: "placed ws q \<Longrightarrow> placed ws (q\<lparr>completed := (completed q)(c := remove1 op (completed q c))\<rparr>)"
  by (rule placed_uncomplete) simp_all

lemma placed_controller: "placed ws q \<Longrightarrow> op \<in> set (completed q c) \<Longrightarrow> op_controller q op = c \<and> op \<notin> set ws"
  by (auto simp: placed_def)

lemmas placed_intros = placed_push placed_grant placed_serve placed_remove

section \<open>Synchronisation objects\<close>

text \<open>
  The contract of a synchronisation object: a wait either queues the operation or hands it to its controller,
  and \<open>cancel\<close> removes it from the object and from the controller.
\<close>

locale sync_object =
  fixes waitAsync :: "controller \<Rightarrow> operation \<Rightarrow> 'o \<times> queues \<Rightarrow> 'o \<times> queues"
    and cancel :: "controller \<Rightarrow> operation \<Rightarrow> 'o \<times> queues \<Rightarrow> 'o \<times> queues"
    and waiters :: "'o \<Rightarrow> operation list"
  assumes wait_queues_or_grants: "waitAsync c op (s, q) = (s', q') \<Longrightarrow>
      waiters s' = waiters s @ [op] \<and> q' = setController op c q \<or> waiters s' = waiters s \<and> q' = notify op (setController op c q)"
    and cancel_removes: "cancel c op (s, q) = (s', q') \<Longrightarrow> waiters s' = remove1 op (waiters s) \<and> q' = revertPost c op q"
begin

definition ok :: "'o \<times> queues \<Rightarrow> bool" where
  "ok w \<longleftrightarrow> placed (waiters (fst w)) (snd w)"

lemma ok_wait: "ok (s, q) \<Longrightarrow> fresh op (waiters s) q \<Longrightarrow> ok (waitAsync c op (s, q))"
  using wait_queues_or_grants [of c op s q] placed_push placed_grant
  by (cases "waitAsync c op (s, q)") (auto simp: ok_def)

lemma ok_cancel: "ok (s, q) \<Longrightarrow> ok (cancel c op (s, q))"
  using cancel_removes [of c op s q] placed_remove [of "waiters s" q op]
  by (cases "cancel c op (s, q)") (auto simp: ok_def elim: placed_uncomplete)

lemma pending_after_wait:
  "waitAsync c op (s, q) = (s', q') \<Longrightarrow> op \<in> set (waiters s') \<or> op \<in> set (completed q' c)"
  using wait_queues_or_grants by fastforce

text \<open>
  A synchronous wait ends when its controller takes the operation, or with \<open>cancel\<close>. Then nothing refers to
  the operation, which is a local variable of the caller.
\<close>

lemma take_fresh:
  assumes "ok (s, q)" "op \<in> set (completed q c)" "Controller_check c op q = (b, q')"
  shows "b \<and> fresh op (waiters s) q' \<and> ok (s, q')"
proof -
  have p: "placed (waiters s) q" using assms(1) by (simp add: ok_def)
  then have d: "distinct (completed q c)" "op_controller q op = c" "op \<notin> set (waiters s)"
    using placed_controller [OF p assms(2)] by (simp_all add: placed_def)
  have q': "b" "q' = q\<lparr>completed := (completed q)(c := remove1 op (completed q c))\<rparr>" using assms(2,3) by auto
  have "op \<notin> set (completed q' c')" for c'
    using placed_controller [OF p, of op c'] d q'(2) by (cases "c' = c") auto
  moreover have "placed (waiters s) q'" unfolding q' by (rule placed_check [OF p])
  ultimately show ?thesis using d q'(1) by (simp add: ok_def fresh_def)
qed

lemma cancel_fresh:
  assumes "ok (s, q)" "op_controller q op = c" "cancel c op (s, q) = (s', q')"
  shows "fresh op (waiters s') q' \<and> ok (s', q')"
proof -
  have s': "waiters s' = remove1 op (waiters s)" "q' = revertPost c op q" using cancel_removes [OF assms(3)] by blast+
  have p: "placed (waiters s) q" using assms(1) by (simp add: ok_def)
  then have d: "distinct (waiters s)" "distinct (completed q c)" by (simp_all add: placed_def)
  have "op \<notin> set (completed q' c')" for c'
    using placed_controller [OF p, of op c'] assms(2) s'(2) d by (cases "c' = c") auto
  moreover have "op \<notin> set (waiters s')" using d s'(1) by simp
  moreover have "ok (s', q')" using ok_cancel [OF assms(1), of c op] assms(3) by simp
  ultimately show ?thesis by (simp add: fresh_def)
qed

end

interpretation sem: sync_object Semaphore_waitAsync Semaphore_cancel sem_waiters
  by unfold_locales (auto simp: Semaphore_waitAsync_def Semaphore_cancel_def pushBack_def Let_def split: if_splits)

interpretation mx: sync_object Mutex_waitAsync Mutex_cancel mx_waiters
  by unfold_locales (auto simp: Mutex_waitAsync_def Mutex_cancel_def pushBack_def Let_def split: if_splits)

interpretation tm: sync_object Timer_waitAsync Timer_cancel tm_waiters
  by unfold_locales (auto simp: Timer_waitAsync_def Timer_cancel_def pushBack_def Let_def split: if_splits)


section \<open>Semaphores\<close>

text \<open>
  The steps of threads that use one semaphore. \<open>SemTake\<close> is the check of a controller for an operation, in a
  wait. An operation is used for one wait at a time, and cancelled only by the thread it belongs to.
\<close>

datatype sem_event =
    SemPost
  | SemWait controller operation
  | SemCancel controller operation
  | SemTake controller operation

fun sem_step :: "sem_event \<Rightarrow> semaphore \<times> queues \<Rightarrow> semaphore \<times> queues" where
  "sem_step SemPost w = Semaphore_post w"
| "sem_step (SemWait c op) w = Semaphore_waitAsync c op w"
| "sem_step (SemCancel c op) w = Semaphore_cancel c op w"
| "sem_step (SemTake c op) (s, q) = (s, snd (Controller_check c op q))"

fun sem_allowed :: "sem_event \<Rightarrow> semaphore \<times> queues \<Rightarrow> bool" where
  "sem_allowed (SemWait c op) (s, q) \<longleftrightarrow> fresh op (sem_waiters s) q"
| "sem_allowed (SemCancel c op) (s, q) \<longleftrightarrow> op_controller q op = c"
| "sem_allowed _ _ \<longleftrightarrow> True"

inductive sem_run :: "semaphore \<times> queues \<Rightarrow> sem_event list \<Rightarrow> semaphore \<times> queues \<Rightarrow> bool" for w where
  sem_run_nil: "sem_run w [] w"
| sem_run_step: "sem_run w es w' \<Longrightarrow> sem_allowed e w' \<Longrightarrow> sem_run w (es @ [e]) (sem_step e w')"

inductive_cases sem_run_nilE: "sem_run w [] w'"

text \<open>Whether a step hands an operation to its controller.\<close>

fun sem_grants :: "sem_event \<Rightarrow> semaphore \<times> queues \<Rightarrow> bool" where
  "sem_grants SemPost (s, q) \<longleftrightarrow> sem_waiters s \<noteq> []"
| "sem_grants (SemWait c op) (s, q) \<longleftrightarrow> sem_value s \<noteq> 0"
| "sem_grants _ _ \<longleftrightarrow> False"

fun sem_granted :: "sem_event list \<Rightarrow> semaphore \<times> queues \<Rightarrow> nat" where
  "sem_granted [] w = 0"
| "sem_granted (e # es) w = of_bool (sem_grants e w) + sem_granted es (sem_step e w)"

definition sem_inv :: "semaphore \<times> queues \<Rightarrow> bool" where
  "sem_inv w \<longleftrightarrow> sem.ok w \<and> (sem_value (fst w) \<noteq> 0 \<longrightarrow> sem_waiters (fst w) = [])"

lemma sem_step_inv: "sem_inv w \<Longrightarrow> sem_allowed e w \<Longrightarrow> sem_inv (sem_step e w)"
proof (cases w)
  fix s q assume w: "w = (s, q)" "sem_inv w" "sem_allowed e w"
  then have p: "placed (sem_waiters s) q" "sem_value s \<noteq> 0 \<longrightarrow> sem_waiters s = []" by (simp_all add: sem_inv_def sem.ok_def)
  show "sem_inv (sem_step e w)"
  proof (cases e)
    case SemPost
    then show ?thesis using p w(1) placed_serve [of "[]"]
      by (cases "sem_waiters s") (auto simp: Semaphore_post_def sem_inv_def sem.ok_def)
  next
    case (SemWait c op)
    then show ?thesis using p w placed_push [of "sem_waiters s" q op c] placed_grant [of "sem_waiters s" q op c]
      by (auto simp: Semaphore_waitAsync_def sem_inv_def sem.ok_def Let_def pushBack_def)
  next
    case (SemCancel c op)
    then show ?thesis using p w sem.ok_cancel [of s q c op]
      by (auto simp: Semaphore_cancel_def sem_inv_def sem.ok_def)
  next
    case (SemTake c op)
    then show ?thesis using p w(1) placed_check [OF p(1)] by (simp add: sem_inv_def sem.ok_def)
  qed
qed

lemma sem_run_inv: "sem_run w es w' \<Longrightarrow> sem_inv w \<Longrightarrow> sem_inv w'"
  by (induction rule: sem_run.induct) (auto intro: sem_step_inv)

lemma sem_run_fold: "sem_run w es w' \<Longrightarrow> w' = fold sem_step es w"
  by (induction rule: sem_run.induct) auto

lemma sem_granted_append: "sem_granted (es @ [e]) w = sem_granted es w + of_bool (sem_grants e (fold sem_step es w))"
  by (induction es arbitrary: w) auto

definition posts :: "sem_event list \<Rightarrow> nat" where "posts es = length (filter (\<lambda>e. e = SemPost) es)"

lemma posts_append [simp]: "posts [] = 0" "posts (es @ [e]) = posts es + of_bool (e = SemPost)"
  by (simp_all add: posts_def)

lemma sem_step_value: "sem_value (fst (sem_step e w)) + of_bool (sem_grants e w) = sem_value (fst w) + of_bool (e = SemPost)"
  by (cases w; cases e)
     (auto simp: Semaphore_post_def Semaphore_waitAsync_def Semaphore_cancel_def Let_def extractFront_eq split: list.splits)

lemma sem_run_conserves:
  "sem_run w es w' \<Longrightarrow> sem_value (fst w') + of_nat (sem_granted es w) = sem_value (fst w) + of_nat (posts es)"
proof (induction rule: sem_run.induct)
  case (sem_run_step es w' e)
  then have "w' = fold sem_step es w" by (simp add: sem_run_fold)
  with sem_run_step sem_step_value [of e w'] show ?case
    by (simp add: sem_granted_append algebra_simps)
qed simp


text \<open>
  An operation is served in order: it waits behind at most \<open>n\<close> others minus the posts so far, or it has been
  handed to its controller.
\<close>

definition served :: "operation \<Rightarrow> controller \<Rightarrow> sem_event list \<Rightarrow> semaphore \<times> queues \<Rightarrow> bool" where
  "served op c es w \<longleftrightarrow> op \<in> set (completed (snd w) c) \<or> SemTake c op \<in> set es"

definition waits_behind :: "operation \<Rightarrow> controller \<Rightarrow> nat \<Rightarrow> semaphore \<times> queues \<Rightarrow> bool" where
  "waits_behind op c n w \<longleftrightarrow> op_controller (snd w) op = c \<and>
     (\<exists>xs ys. sem_waiters (fst w) = xs @ op # ys \<and> length xs \<le> n)"

lemma waits_behind_step:
  assumes "waits_behind op c n w" "sem_allowed e w" "e \<noteq> SemCancel c op"
  shows "op \<in> set (completed (snd (sem_step e w)) c) \<or>
    waits_behind op c (n - of_bool (e = SemPost)) (sem_step e w) \<and> (e = SemPost \<longrightarrow> 0 < n)"
proof -
  obtain s q xs ys where w: "w = (s, q)" "op_controller q op = c" "sem_waiters s = xs @ op # ys" "length xs \<le> n"
    using assms(1) by (cases w) (auto simp: waits_behind_def)
  show ?thesis
  proof (cases e)
    case SemPost
    show ?thesis
    proof (cases xs)
      case Nil
      with w SemPost show ?thesis by (simp add: Semaphore_post_def)
    next
      case (Cons x xs')
      with w SemPost have "sem_waiters (fst (sem_step e w)) = xs' @ op # ys" "length xs' \<le> n - 1" "0 < n"
        "op_controller (snd (sem_step e w)) op = c" by (auto simp: Semaphore_post_def)
      with SemPost show ?thesis unfolding waits_behind_def by auto
    qed
  next
    case (SemWait c' op')
    with w assms(2) have "op' \<noteq> op" by (auto simp: fresh_def)
    with w SemWait show ?thesis
      by (auto simp: waits_behind_def Semaphore_waitAsync_def Let_def pushBack_def)
  next
    case (SemCancel c' op')
    with w assms(2,3) have "op' \<noteq> op" by auto
    then have "remove1 op' (xs @ op # ys) = remove1 op' xs @ op # ys \<or> remove1 op' (xs @ op # ys) = xs @ op # remove1 op' ys"
      by (simp add: remove1_append)
    moreover have "length (remove1 op' xs) \<le> n" using w(4) by (auto simp: length_remove1)
    ultimately show ?thesis using w SemCancel by (auto simp: waits_behind_def Semaphore_cancel_def)
  next
    case (SemTake c' op')
    with w show ?thesis by (auto simp: waits_behind_def)
  qed
qed

lemma completed_step:
  assumes "op \<in> set (completed (snd w) c)" "sem_inv w" "sem_allowed e w" "e \<noteq> SemCancel c op"
  shows "op \<in> set (completed (snd (sem_step e w)) c) \<or> e = SemTake c op"
proof -
  obtain s q where w: "w = (s, q)" by (cases w)
  have "op_controller q op = c" using assms(1,2) w placed_controller by (auto simp: sem_inv_def sem.ok_def)
  then show ?thesis using assms w
    by (cases e) (auto simp: Semaphore_post_def Semaphore_waitAsync_def Semaphore_cancel_def Let_def extractFront_eq
        split: list.splits)
qed

lemma sem_run_serves:
  assumes "sem_run w es w'" "sem_inv w" "waits_behind op c n w" "SemCancel c op \<notin> set es"
  shows "served op c es w' \<or> waits_behind op c (n - posts es) w' \<and> posts es \<le> n"
  using assms
proof (induction rule: sem_run.induct)
  case (sem_run_step es w' e)
  then have IH: "served op c es w' \<or> waits_behind op c (n - posts es) w' \<and> posts es \<le> n" and e: "e \<noteq> SemCancel c op" by auto
  have "sem_inv w'" using sem_run_step by (blast intro: sem_run_inv)
  then consider "SemTake c op \<in> set es" | "op \<in> set (completed (snd w') c)"
    | "waits_behind op c (n - posts es) w'" "posts es \<le> n" using IH by (auto simp: served_def)
  then show ?case
  proof cases
    case 3
    from waits_behind_step [OF 3(1) sem_run_step(2) e] 3(2) show ?thesis by (auto simp: served_def)
  qed (use completed_step [OF _ \<open>sem_inv w'\<close> sem_run_step(2) e] in \<open>auto simp: served_def\<close>)
qed simp

section \<open>Mutexes\<close>

lemma grantNested_eq:
  assumes "mx_nestingLevel m + length (mx_waiters m) < 2 ^ 32" "distinct (mx_waiters m)"
  shows "grantNested c (m, q) =
    (m\<lparr>mx_waiters := filter (\<lambda>op. op_controller q op \<noteq> c) (mx_waiters m),
       mx_nestingLevel := mx_nestingLevel m + length (filter (\<lambda>op. op_controller q op = c) (mx_waiters m))\<rparr>,
     q\<lparr>completed := (completed q)(c := completed q c @ filter (\<lambda>op. op_controller q op = c) (mx_waiters m))\<rparr>)"
  using assms
proof (induction c "(m, q)" arbitrary: m q rule: grantNested.induct)
  case (1 c m q)
  let ?mine = "filter (\<lambda>op. op_controller q op = c) (mx_waiters m)"
  show ?case
  proof (cases ?mine)
    case Nil
    then have "filter (\<lambda>op. op_controller q op \<noteq> c) (mx_waiters m) = mx_waiters m" by (auto simp: filter_empty_conv filter_id_conv)
    with Nil show ?thesis by (simp add: grantNested.simps extractByController_eq)
  next
    case (Cons op rest)
    let ?ws = "remove1 op (mx_waiters m)"
    let ?m = "m\<lparr>mx_waiters := ?ws, mx_nestingLevel := (mx_nestingLevel m + 1) mod 2 ^ 32\<rparr>"
    have op: "op_controller q op = c" using filter_head [OF Cons] .
    have mem: "op \<in> set (mx_waiters m)" using Cons by (auto simp: filter_eq_Cons_iff)
    have rest: "filter (\<lambda>op. op_controller q op = c) ?ws = rest"
      using Cons by (metis filter_remove1 remove1.simps(2)) 
    have others: "filter (\<lambda>op. op_controller q op \<noteq> c) ?ws = filter (\<lambda>op. op_controller q op \<noteq> c) (mx_waiters m)"
      using op filter_remove1 [of "\<lambda>op. op_controller q op \<noteq> c" op "mx_waiters m"] by (simp add: remove1_idem)
    have len: "length ?ws = length (mx_waiters m) - 1" using mem by (simp add: length_remove1)
    have lt: "mx_nestingLevel m + 1 < 2 ^ 32" using 1(2) mem by (cases "mx_waiters m") auto
    have "grantNested c (m, q) = grantNested c (?m, notify op q)"
      using Cons by (simp add: grantNested.simps [of c m q] extractByController_eq)
    also have "\<dots> = (?m\<lparr>mx_waiters := filter (\<lambda>op. op_controller q op \<noteq> c) ?ws,
        mx_nestingLevel := mx_nestingLevel ?m + length (filter (\<lambda>op. op_controller q op = c) ?ws)\<rparr>,
      (notify op q)\<lparr>completed := (completed (notify op q))(c := completed (notify op q) c @ filter (\<lambda>op. op_controller q op = c) ?ws)\<rparr>)"
      using 1(1) [of "Some op" ?ws op ] Cons 1(2,3) len lt mem by (simp add: extractByController_eq)
    finally show ?thesis unfolding rest others using Cons op lt
      by (simp add: notify_def Controller_post_def pushBack_def)
  qed
qed


definition mutex_inv :: "mutex \<times> queues \<Rightarrow> bool" where
  "mutex_inv w \<longleftrightarrow> (case w of (m, q) \<Rightarrow> placed (mx_waiters m) q \<and> mx_nestingLevel m + length (mx_waiters m) < 2 ^ 32 \<and>
     (case mx_owner m of
        None \<Rightarrow> mx_nestingLevel m = 0 \<and> mx_waiters m = []
      | Some c \<Rightarrow> 0 < mx_nestingLevel m \<and> (\<forall>op \<in> set (mx_waiters m). op_controller q op \<noteq> c)))"

text \<open>How often each controller holds the mutex: acquisitions handed to it, less its releases.\<close>

definition handed :: "queues \<Rightarrow> queues \<Rightarrow> (controller \<Rightarrow> nat) \<Rightarrow> controller \<Rightarrow> nat" where
  "handed q q' h c = h c + (length (completed q' c) - length (completed q c))"

text \<open>
  The steps of threads that use one mutex, with the number of times each of them holds it as a history
  variable. Fewer than $2^{32}$ acquisitions and waits exist at a time.
\<close>

inductive mutex_run :: "mutex \<times> queues \<Rightarrow> (controller \<Rightarrow> nat) \<Rightarrow> bool" where
  mutex_start: "placed [] q \<Longrightarrow> mutex_run (Mutex_init, q) (\<lambda>c. 0)"
| mutex_wait: "mutex_run (m, q) h \<Longrightarrow> fresh op (mx_waiters m) q \<Longrightarrow> mx_nestingLevel m + length (mx_waiters m) + 1 < 2 ^ 32 \<Longrightarrow>
    Mutex_waitAsync c op (m, q) = (m', q') \<Longrightarrow> mutex_run (m', q') (handed q q' h)"
| mutex_post: "mutex_run (m, q) h \<Longrightarrow> Mutex_post c (m, q) = (m', q') \<Longrightarrow> mutex_run (m', q') (handed q q' (h(c := h c - 1)))"
| mutex_cancel: "mutex_run (m, q) h \<Longrightarrow> op_controller q op = c \<Longrightarrow> Mutex_cancel c op (m, q) = (m', q') \<Longrightarrow> mutex_run (m', q') h"
| mutex_take: "mutex_run (m, q) h \<Longrightarrow> Controller_check c op q = (b, q') \<Longrightarrow> mutex_run (m, q') h"

definition holds_of :: "mutex \<Rightarrow> controller \<Rightarrow> nat" where
  "holds_of m c = (if mx_owner m = Some c then mx_nestingLevel m else 0)"

lemma Mutex_waitAsync_step:
  assumes "mutex_inv (m, q)" "fresh op (mx_waiters m) q" "mx_nestingLevel m + length (mx_waiters m) + 1 < 2 ^ 32"
    "Mutex_waitAsync c op (m, q) = (m', q')"
  shows "mutex_inv (m', q') \<and> holds_of m' = handed q q' (holds_of m)"
proof -
  have p: "placed (mx_waiters m) q" using assms(1) by (simp add: mutex_inv_def)
  have g: "placed (mx_waiters m) (notify op (setController op c q))" using placed_grant [OF p assms(2)] .
  have w: "placed (mx_waiters m @ [op]) (setController op c q)" using placed_push [OF p assms(2)] .
  have f: "op \<notin> set (mx_waiters m)" using assms(2) by (simp add: fresh_def)
  consider "mx_owner m = Some c" | "mx_owner m = None" | d where "mx_owner m = Some d" "d \<noteq> c" by fastforce
  then show ?thesis
  proof cases
    case 1
    with assms g f show ?thesis
      by (auto simp: Mutex_waitAsync_def Let_def mutex_inv_def holds_of_def handed_def fun_eq_iff)
  next
    case 2
    with assms g f show ?thesis
      by (auto simp: Mutex_waitAsync_def Let_def mutex_inv_def holds_of_def handed_def fun_eq_iff)
  next
    case 3
    with assms w f show ?thesis
      by (auto simp: Mutex_waitAsync_def Let_def mutex_inv_def holds_of_def handed_def fun_eq_iff pushBack_def)
  qed
qed

text \<open>A release by the last holder hands the mutex to the first waiter, with all that its controller waits for.\<close>

lemma Mutex_post_hand_over:
  assumes "mutex_inv (m, q)" "mx_owner m = Some c" "mx_nestingLevel m = 1" "mx_waiters m = op # ws"
  shows "Mutex_post c (m, q) =
    (\<lparr>mx_waiters = filter (\<lambda>x. op_controller q x \<noteq> op_controller q op) ws,
      mx_nestingLevel = 1 + length (filter (\<lambda>x. op_controller q x = op_controller q op) ws),
      mx_owner = Some (op_controller q op)\<rparr>,
     q\<lparr>completed := (completed q)(op_controller q op :=
        completed q (op_controller q op) @ op # filter (\<lambda>x. op_controller q x = op_controller q op) ws)\<rparr>)"
proof -
  let ?d = "op_controller q op"
  let ?m = "\<lparr>mx_waiters = ws, mx_nestingLevel = 1, mx_owner = Some ?d\<rparr>"
  have d: "distinct ws" "1 + length ws < 2 ^ 32" using assms by (auto simp: mutex_inv_def placed_def)
  have "Mutex_post c (m, q) = grantNested ?d (?m, notify op q)"
    using assms(2-4) by (cases m) (simp add: Mutex_post_def Let_def)
  also have "\<dots> = (?m\<lparr>mx_waiters := filter (\<lambda>x. op_controller q x \<noteq> ?d) ws,
      mx_nestingLevel := 1 + length (filter (\<lambda>x. op_controller q x = ?d) ws)\<rparr>,
      (notify op q)\<lparr>completed := (completed (notify op q))(?d := completed (notify op q) ?d @ filter (\<lambda>x. op_controller q x = ?d) ws)\<rparr>)"
    using d by (subst grantNested_eq) simp_all
  finally show ?thesis by (simp add: notify_def Controller_post_def pushBack_def)
qed

lemma Mutex_post_step:
  assumes "mutex_inv (m, q)" "Mutex_post c (m, q) = (m', q')"
  shows "mutex_inv (m', q') \<and> holds_of m' = handed q q' ((holds_of m)(c := holds_of m c - 1))"
proof -
  have pos: "mx_owner m = Some c \<Longrightarrow> 0 < mx_nestingLevel m" using assms(1) by (simp add: mutex_inv_def)
  consider "mx_owner m \<noteq> Some c" | "mx_owner m = Some c" "1 < mx_nestingLevel m"
    | "mx_owner m = Some c" "mx_nestingLevel m = 1" "mx_waiters m = []"
    | op ws where "mx_owner m = Some c" "mx_nestingLevel m = 1" "mx_waiters m = op # ws"
    using pos by (metis One_nat_def Suc_lessI list.exhaust)
  then show ?thesis
  proof cases
    case 1
    with assms show ?thesis by (auto simp: Mutex_post_def holds_of_def handed_def fun_eq_iff)
  next
    case 2
    have "mx_nestingLevel m - 1 < 2 ^ 32" using assms(1) by (auto simp: mutex_inv_def)
    with 2 have "(mx_nestingLevel m + 2 ^ 32 - 1) mod 2 ^ 32 = mx_nestingLevel m - 1" by (simp add: le_mod_geq)
    with 2 assms show ?thesis
      by (auto simp: Mutex_post_def Let_def mutex_inv_def holds_of_def handed_def fun_eq_iff)
  next
    case 3
    with assms show ?thesis
      by (auto simp: Mutex_post_def Let_def mutex_inv_def holds_of_def handed_def fun_eq_iff)
  next
    case 4
    let ?d = "op_controller q op" and ?mine = "filter (\<lambda>x. op_controller q x = op_controller q op) ws"
    have p: "placed (op # ws) q" "1 + length (op # ws) < 2 ^ 32" "c \<noteq> ?d"
      using assms(1) 4 by (auto simp: mutex_inv_def)
    have len: "length (filter (\<lambda>x. op_controller q x \<noteq> ?d) ws) + length ?mine = length ws"
      using sum_length_filter_compl [of "\<lambda>x. op_controller q x = ?d" ws] by simp
    have "placed (filter (\<lambda>x. op_controller q x \<noteq> ?d) ws) (q\<lparr>completed := (completed q)(?d := completed q ?d @ op # ?mine)\<rparr>)"
      using p(1) by (auto simp: placed_def)
    then show ?thesis
      using Mutex_post_hand_over [OF assms(1) 4] assms(2) 4 p(2,3) len
      by (auto simp: mutex_inv_def holds_of_def handed_def fun_eq_iff)
  qed
qed

lemma mutex_run_inv: "mutex_run w h \<Longrightarrow> mutex_inv w \<and> h = holds_of (fst w)"
proof (induction rule: mutex_run.induct)
  case (mutex_start q)
  then show ?case by (simp add: mutex_inv_def Mutex_init_def holds_of_def)
next
  case (mutex_wait m q h op c m' q')
  then show ?case using Mutex_waitAsync_step by fastforce
next
  case (mutex_post m q h c m' q')
  then show ?case using Mutex_post_step by fastforce
next
  case (mutex_cancel m q h op c m' q')
  then have "mx_waiters m' = remove1 op (mx_waiters m)" "q' = revertPost c op q" "mx_owner m' = mx_owner m" "mx_nestingLevel m' = mx_nestingLevel m"
    by (auto simp: Mutex_cancel_def)
  moreover have "placed (remove1 op (mx_waiters m)) (revertPost c op q)"
    using mutex_cancel placed_uncomplete [OF placed_remove [of "mx_waiters m" q op]] by (simp add: mutex_inv_def)
  ultimately show ?case using mutex_cancel.IH
    by (auto simp: mutex_inv_def holds_of_def fun_eq_iff length_remove1 split: option.splits dest: notin_set_remove1)
next
  case (mutex_take m q h c op b q')
  then show ?case using placed_check by (auto simp: mutex_inv_def split: option.splits)
qed


section \<open>Message exchange\<close>

datatype exchange_event =
    XSend controller operation
  | XReceive controller operation

fun exchange_step :: "exchange_event \<Rightarrow> exchange \<times> queues \<Rightarrow> exchange \<times> queues" where
  "exchange_step (XSend c op) w = sendAsync c op w"
| "exchange_step (XReceive c op) w = receiveAsync c op w"

fun sends :: "exchange_event list \<Rightarrow> operation list" where
  "sends [] = []"
| "sends (XSend c op # es) = op # sends es"
| "sends (XReceive c op # es) = sends es"

fun receives :: "exchange_event list \<Rightarrow> operation list" where
  "receives [] = []"
| "receives (XSend c op # es) = receives es"
| "receives (XReceive c op # es) = op # receives es"

lemma sends_append [simp]: "sends (es @ fs) = sends es @ sends fs"
  by (induction es rule: sends.induct) auto

lemma receives_append [simp]: "receives (es @ fs) = receives es @ receives fs"
  by (induction es rule: receives.induct) auto

text \<open>The messages transferred after some sends and receives: the first send goes to the first receive, and so on.\<close>

definition transferred :: "messages \<Rightarrow> operation list \<Rightarrow> operation list \<Rightarrow> messages \<Rightarrow> bool" where
  "transferred d0 S R d \<longleftrightarrow> tx_data d = tx_data d0 \<and> rx_size d = rx_size d0 \<and>
     (\<forall>i < min (length S) (length R). rx_received d (R ! i) = take (rx_size d0 (R ! i)) (tx_data d0 (S ! i)) \<and>
        tx_sent d (S ! i) = min (rx_size d0 (R ! i)) (length (tx_data d0 (S ! i)))) \<and>
     (\<forall>op. op \<notin> set (take (length R) S) \<longrightarrow> tx_sent d op = 0) \<and> (\<forall>op. op \<notin> set (take (length S) R) \<longrightarrow> rx_received d op = [])"

definition exchange_state :: "messages \<Rightarrow> operation list \<Rightarrow> operation list \<Rightarrow> exchange \<Rightarrow> bool" where
  "exchange_state d0 S R x \<longleftrightarrow> ex_pendingSends x = drop (length R) S \<and> ex_pendingReceives x = drop (length S) R \<and>
     transferred d0 S R (ex_messages x)"

lemma nth_notin_take: "distinct xs \<Longrightarrow> k < length xs \<Longrightarrow> xs ! k \<notin> set (take k xs)"
  by (auto simp: in_set_conv_nth nth_eq_iff_index_eq)

text \<open>Pairing the next send with the next receive.\<close>

lemma transferred_pair:
  assumes "transferred d0 S R d" "min (length S) (length R) = k" "distinct S'" "distinct R'"
    "take k S' = take k S" "take k R' = take k R" "k < length S'" "k < length R'" "min (length S') (length R') = Suc k"
    "take (length R) S = take k S" "take (length S) R = take k R"
  shows "transferred d0 S' R' (ReceiveOperation_copyFrom (R' ! k) (S' ! k) d)"
proof -
  let ?tx = "S' ! k" and ?rx = "R' ! k"
  define d' where "d' = ReceiveOperation_copyFrom ?rx ?tx d"
  have new: "?tx \<notin> set (take k S)" "?rx \<notin> set (take k R)"
    using nth_notin_take [OF assms(3,7)] nth_notin_take [OF assms(4,8)] assms(5,6) by simp_all
  then have zero: "tx_sent d ?tx = 0" "rx_received d ?rx = []" using assms(1,10,11) by (simp_all add: transferred_def)
  have d': "tx_data d' = tx_data d0" "rx_size d' = rx_size d0"
    "rx_received d' = (rx_received d)(?rx := take (rx_size d0 ?rx) (tx_data d0 ?tx))"
    "tx_sent d' = (tx_sent d)(?tx := min (rx_size d0 ?rx) (length (tx_data d0 ?tx)))"
    using assms(1) zero by (simp_all add: d'_def ReceiveOperation_copyFrom_def Let_def transferred_def min.commute)
  have old: "S' ! i = S ! i" "R' ! i = R ! i" "S' ! i \<noteq> ?tx" "R' ! i \<noteq> ?rx" if "i < k" for i
  proof -
    show "S' ! i = S ! i" "R' ! i = R ! i" using that assms(5,6) by (metis nth_take)+
    show "S' ! i \<noteq> ?tx" "R' ! i \<noteq> ?rx" using that assms(3,4,7,8) by (simp_all add: nth_eq_iff_index_eq)
  qed
  have "take (length R') S' = take k S @ [?tx]"
  proof -
    have "take (length R') S' = take (Suc k) S'" using assms(9) by (metis min.commute take_all_iff min_def take_equalityI nle_le)
    then show ?thesis using assms(5,7) by (simp add: take_Suc_conv_app_nth)
  qed
  moreover have "take (length S') R' = take k R @ [?rx]"
  proof -
    have "take (length S') R' = take (Suc k) R'" using assms(9) by (metis min.commute take_all_iff min_def nle_le)
    then show ?thesis using assms(6,8) by (simp add: take_Suc_conv_app_nth)
  qed
  moreover have "rx_received d' (R' ! i) = take (rx_size d0 (R' ! i)) (tx_data d0 (S' ! i)) \<and>
      tx_sent d' (S' ! i) = min (rx_size d0 (R' ! i)) (length (tx_data d0 (S' ! i)))" if "i < Suc k" for i
  proof (cases "i = k")
    case False
    with that old [of i] assms(1,2) show ?thesis by (simp add: d' transferred_def)
  qed (simp add: d')
  ultimately show ?thesis
    using assms(1,9,10,11) unfolding d'_def [symmetric] by (auto simp: transferred_def d')
qed

lemma exchange_send:
  assumes "exchange_state d0 S R x" "distinct (S @ [op])" "distinct R" "sendAsync c op (x, q) = (x', q')"
  shows "exchange_state d0 (S @ [op]) R x'"
proof (cases "length S < length R")
  case True
  let ?rx = "R ! length S"
  have d: "drop (length S) R = ?rx # drop (Suc (length S)) R" using True by (simp add: Cons_nth_drop_Suc)
  then have x': "x' = x\<lparr>ex_pendingReceives := drop (Suc (length S)) R, ex_messages := ReceiveOperation_copyFrom ?rx op (ex_messages x)\<rparr>"
    using assms(1,4) by (auto simp: sendAsync_def Let_def exchange_state_def)
  have "transferred d0 (S @ [op]) R (ReceiveOperation_copyFrom ?rx op (ex_messages x))"
    using transferred_pair [of d0 S R "ex_messages x" "length S" "S @ [op]" R] assms(1-3) True by (simp add: exchange_state_def)
  then show ?thesis using assms(1) True by (simp add: x' exchange_state_def)
next
  case False
  then have x': "x' = x\<lparr>ex_pendingSends := drop (length R) S @ [op]\<rparr>"
    using assms(1,4) by (auto simp: sendAsync_def Let_def exchange_state_def pushBack_def)
  with False assms(1) show ?thesis by (auto simp: exchange_state_def transferred_def nth_append min_def)
qed

lemma exchange_receive:
  assumes "exchange_state d0 S R x" "distinct S" "distinct (R @ [op])" "receiveAsync c op (x, q) = (x', q')"
  shows "exchange_state d0 S (R @ [op]) x'"
proof (cases "length R < length S")
  case True
  let ?tx = "S ! length R"
  have d: "drop (length R) S = ?tx # drop (Suc (length R)) S" using True by (simp add: Cons_nth_drop_Suc)
  then have x': "x' = x\<lparr>ex_pendingSends := drop (Suc (length R)) S, ex_messages := ReceiveOperation_copyFrom op ?tx (ex_messages x)\<rparr>"
    using assms(1,4) by (auto simp: receiveAsync_def Let_def exchange_state_def)
  have "transferred d0 S (R @ [op]) (ReceiveOperation_copyFrom op ?tx (ex_messages x))"
    using transferred_pair [of d0 S R "ex_messages x" "length R" S "R @ [op]"] assms(1-3) True by (simp add: exchange_state_def)
  then show ?thesis using assms(1) True by (simp add: x' exchange_state_def)
next
  case False
  then have x': "x' = x\<lparr>ex_pendingReceives := drop (length S) R @ [op]\<rparr>"
    using assms(1,4) by (auto simp: receiveAsync_def Let_def exchange_state_def pushBack_def)
  with False assms(1) show ?thesis by (auto simp: exchange_state_def transferred_def nth_append min_def)
qed

lemma exchange_run:
  assumes "exchange_state d0 [] [] x" "distinct (sends es)" "distinct (receives es)"
  shows "exchange_state d0 (sends es) (receives es) (fst (fold exchange_step es (x, q)))"
  using assms(2,3)
proof (induction es rule: rev_induct)
  case (snoc e es)
  obtain x1 q1 where w: "fold exchange_step es (x, q) = (x1, q1)" by (rule prod.exhaust)
  with snoc have IH: "exchange_state d0 (sends es) (receives es) x1" by simp
  show ?case
  proof (cases e)
    case (XSend c op)
    obtain x2 q2 where s: "sendAsync c op (x1, q1) = (x2, q2)" by (rule prod.exhaust)
    with exchange_send [OF IH _ _ s] snoc.prems XSend w show ?thesis by simp
  next
    case (XReceive c op)
    obtain x2 q2 where s: "receiveAsync c op (x1, q1) = (x2, q2)" by (rule prod.exhaust)
    with exchange_receive [OF IH _ _ s] snoc.prems XReceive w show ?thesis by simp
  qed
qed (use assms(1) in simp)


section \<open>Timers\<close>

definition due :: "timer \<Rightarrow> 32 word \<Rightarrow> bool" where
  "due t now \<longleftrightarrow> tm_active t \<and> tm_interval t \<le> now - tm_lastCheck t"

text \<open>A timer is not due before the time that is left has passed, and due then.\<close>

lemma due_after:
  fixes e n k I :: "32 word"
  assumes "e < I" "n = I - e"
  shows "I \<le> e + n" "0 < n" "n \<le> I" "k < n \<Longrightarrow> e + k < I"
proof -
  have n: "unat n = unat I - unat e" using assms unat_sub [of e I] by (simp add: order_less_imp_le)
  show "I \<le> e + n" using assms by simp
  show "0 < n" using n assms(1) by (simp add: word_less_nat_alt)
  show "n \<le> I" using n by (simp add: word_le_nat_alt)
  assume "k < n"
  then have "unat k < unat I - unat e" using n by (simp add: word_less_nat_alt)
  then have "unat e + unat k < unat I" by simp
  moreover then have "unat (e + k) = unat e + unat k"
    using unsigned_less [of I, where 'a = nat] by (intro unat_add_lem [THEN iffD1]) simp
  ultimately show "e + k < I" by (simp add: word_less_nat_alt)
qed

text \<open>A timer that fires signals the first waiter, or counts a signal for the next one.\<close>

definition fired :: "timer \<Rightarrow> queues \<Rightarrow> timer \<Rightarrow> queues \<Rightarrow> bool" where
  "fired t q t' q' \<longleftrightarrow> (case tm_waiters t of
       [] \<Rightarrow> tm_waiters t' = [] \<and> tm_numSignals t' = tm_numSignals t + 1 \<and> q' = q
     | op # ws \<Rightarrow> tm_waiters t' = ws \<and> tm_numSignals t' = tm_numSignals t \<and> q' = notify op q)"

definition scheduled :: "32 word \<Rightarrow> 32 word \<Rightarrow> timer \<Rightarrow> bool" where
  "scheduled now n t \<longleftrightarrow> (tm_active t \<longrightarrow> due t (now + n) \<and> (\<forall>k < n. \<not> due t (now + k)))"

lemma Timer_update_schedule:
  assumes "tm_active t" "0 < tm_interval t" "Timer_update now (t, q) = (n, t', q')"
  shows "0 < n \<and> n \<le> tm_interval t \<and> scheduled now n t' \<and> (if due t now then fired t q t' q' else t' = t \<and> q' = q)"
proof -
  let ?I = "tm_interval t" and ?e = "now - tm_lastCheck t"
  consider "?e < ?I" | "?I \<le> ?e" "?e - ?I < ?I" | "?I \<le> ?e" "?I \<le> ?e - ?I" by (meson not_le)
  then show ?thesis
  proof cases
    case 1
    then have n: "n = ?I - ?e" "t' = t" "q' = q" "\<not> due t now"
      using assms by (auto simp: Timer_update_def Let_def due_def not_le [symmetric])
    have D: "due t' (now + k) \<longleftrightarrow> tm_active t' \<and> ?I \<le> ?e + k" for k using n by (simp add: due_def algebra_simps)
    have "scheduled now n t'" unfolding scheduled_def D using due_after [OF 1 n(1)] by (meson not_le)
    with n due_after [OF 1 n(1)] show ?thesis by simp
  next
    case 2
    then have n: "n = ?I - (?e - ?I)" "tm_active t' = tm_cyclic t" "tm_interval t' = ?I" "tm_lastCheck t' = tm_lastCheck t + ?I" "due t now"
      "fired t q t' q'"
      using assms by (auto simp: Timer_update_def Let_def due_def fired_def not_le [symmetric] extractFront_eq split: list.splits)
    have D: "due t' (now + k) \<longleftrightarrow> tm_active t' \<and> ?I \<le> (?e - ?I) + k" for k using n by (simp add: due_def algebra_simps)
    have "scheduled now n t'" unfolding scheduled_def D using due_after [OF 2(2) n(1)] by (meson not_le)
    with n due_after [OF 2(2) n(1)] show ?thesis by simp
  next
    case 3
    then have n: "n = 1" "tm_active t' = tm_cyclic t" "tm_interval t' = ?I" "tm_lastCheck t' = now - ?I + 1" "due t now"
      "fired t q t' q'"
      using assms by (auto simp: Timer_update_def Let_def due_def fired_def not_le [symmetric] extractFront_eq split: list.splits)
    have I: "0 < unat ?I" using assms(2) by (simp add: word_less_nat_alt)
    then have less: "?I - 1 < ?I" by (simp add: word_less_nat_alt unat_minus_one unat_gt_0)
    have le: "1 \<le> ?I" using I by (simp add: word_le_nat_alt)
    have zero: "k < (1 :: 32 word) \<Longrightarrow> k = 0" for k by (simp add: word_less_nat_alt unat_eq_zero)
    have D: "due t' (now + k) \<longleftrightarrow> tm_active t' \<and> ?I \<le> ?I - 1 + k" for k
    proof -
      have "now + k - tm_lastCheck t' = ?I - 1 + k" unfolding n(4) by simp
      then show ?thesis by (simp only: due_def n(3))
    qed
    have "scheduled now n t'" unfolding scheduled_def D n(1) using less
      by (metis (no_types, lifting) add.right_neutral diff_add_cancel not_le order_refl zero)
    with n le show ?thesis by simp
  qed
qed

lemma Timer_update_inactive: "\<not> tm_active t \<Longrightarrow> Timer_update now (t, q) = (INFINITE_TIMEOUT, t, q)"
  by (simp add: Timer_update_def)

text \<open>
  What a check at time \<open>now\<close> does with a timer, and the longest time the thread may sleep afterwards. A timer whose time
  has not come stays as it is. A timer whose time has come fires once: the first waiter is served, or a signal is kept
  for the next one; a cyclic timer goes on with the next interval, without drift. Only a timer that is behind by a whole
  interval or more (which is always so for an interval of 0) drops the intervals that have passed, and is due
  again after one millisecond.
\<close>

definition checked :: "32 word \<Rightarrow> 32 word \<Rightarrow> timer \<Rightarrow> timer \<Rightarrow> bool" where
  "checked now n t t' \<longleftrightarrow>
     (if \<not> due t now then t' = t \<and> (tm_active t \<longrightarrow> n \<le> tm_interval t - (now - tm_lastCheck t))
      else tm_waiters t' = tl (tm_waiters t) \<and> tm_numSignals t' = (if tm_waiters t = [] then tm_numSignals t + 1 else tm_numSignals t) \<and>
        tm_active t' = tm_cyclic t \<and> tm_cyclic t' = tm_cyclic t \<and> tm_interval t' = tm_interval t \<and>
        (let late = now - tm_lastCheck t - tm_interval t in
         if late < tm_interval t then tm_lastCheck t' = tm_lastCheck t + tm_interval t \<and> n \<le> tm_interval t - late
         else tm_lastCheck t' = now - tm_interval t + 1 \<and> n \<le> 1))"

definition served_by :: "32 word \<Rightarrow> timer \<Rightarrow> operation list" where
  "served_by now t = (if due t now then take 1 (tm_waiters t) else [])"

lemma INFINITE_pos: "0 < INFINITE_TIMEOUT"
  by (simp add: INFINITE_TIMEOUT_def word_gt_0)

lemma Timer_update_time:
  "fst (Timer_update now (t, q)) =
     (let e = now - tm_lastCheck t; late = (if due t now then e - tm_interval t else e) in
      if \<not> tm_active t then INFINITE_TIMEOUT else if tm_interval t \<le> late then 1 else tm_interval t - late)"
  by (cases "tm_waiters t") (simp_all add: Timer_update_def Let_def due_def extractFront_eq)

lemma Timer_update_checked:
  assumes "Timer_update now (t, q) = (n, t', q')"
  shows "checked now n t t'" "q' = fold notify (served_by now t) q" "0 < n"
proof -
  show "checked now n t t'" "q' = fold notify (served_by now t) q"
    using assms by (auto simp: Timer_update_def Let_def due_def checked_def served_by_def not_le not_less extractFront_eq split: if_splits list.splits)
  have n: "n = fst (Timer_update now (t, q))" using assms by simp
  have "0 < I - e" if "\<not> I \<le> e" for e I :: "32 word" using due_after(2) [of e I] that by simp
  then show "0 < n" unfolding n Timer_update_time Let_def using INFINITE_pos by auto
qed

lemma checked_mono: "checked now n t t' \<Longrightarrow> k \<le> n \<Longrightarrow> checked now k t t'"
  by (auto simp: checked_def Let_def)

lemma Manager_update_checked:
  assumes "0 < r" "Manager_update now r (ts, q) = (n, ts', q')"
  shows "0 < n \<and> n \<le> r \<and> list_all2 (checked now n) ts ts' \<and> q' = fold notify (concat (map (served_by now) ts)) q"
  using assms
proof (induction ts arbitrary: r q n ts' q')
  case (Cons t ts)
  obtain n1 t1 q1 where u: "Timer_update now (t, q) = (n1, t1, q1)" by (metis prod_cases3)
  obtain n2 ts2 q2 where m: "Manager_update now (if n1 < r then n1 else r) (ts, q1) = (n2, ts2, q2)" by (metis prod_cases3)
  have e: "n = n2" "ts' = t1 # ts2" "q' = q2" using Cons.prems(2) u m by (auto simp: Let_def)
  note c = Timer_update_checked [OF u]
  have "0 < (if n1 < r then n1 else r)" using c(3) Cons.prems(1) by simp
  from Cons.IH [OF this m] have IH: "0 < n2" "n2 \<le> (if n1 < r then n1 else r)" "list_all2 (checked now n2) ts ts2"
    "q2 = fold notify (concat (map (served_by now) ts)) q1" by blast+
  have "n2 \<le> r" "n2 \<le> n1" using IH(2) by (auto split: if_splits)
  then show ?case using IH(1,3,4) e c(2) checked_mono [OF c(1)] by simp
qed simp

text \<open>While the timer thread sleeps, no timer becomes due.\<close>

lemma Manager_update_sleeps:
  assumes "\<forall>t \<in> set ts. tm_active t \<longrightarrow> 0 < tm_interval t" "Manager_update now r (ts, q) = (n, ts', q')"
  shows "n \<le> r \<and> (\<forall>t \<in> set ts'. \<forall>k < n. \<not> due t (now + k))"
  using assms
proof (induction ts arbitrary: r q n ts' q')
  case (Cons t ts)
  obtain n1 t1 q1 where u: "Timer_update now (t, q) = (n1, t1, q1)" by (metis prod_cases3)
  obtain n2 ts2 q2 where m: "Manager_update now (if n1 < r then n1 else r) (ts, q1) = (n2, ts2, q2)" by (metis prod_cases3)
  have e: "n = n2" "ts' = t1 # ts2" using Cons.prems(2) u m by (auto simp: Let_def)
  have IH: "n2 \<le> (if n1 < r then n1 else r)" "\<forall>t \<in> set ts2. \<forall>k < n2. \<not> due t (now + k)"
    using Cons.IH [OF _ m] Cons.prems(1) by auto
  have le: "n2 \<le> r" "n2 \<le> n1" using IH(1) by (auto split: if_splits)
  have "\<not> due t1 (now + k)" if "k < n2" for k
  proof (cases "tm_active t")
    case True
    then have "scheduled now n1 t1" using Timer_update_schedule [OF _ _ u] Cons.prems(1) by simp
    moreover have "k < n1" using that le(2) by (rule less_le_trans)
    ultimately show ?thesis by (auto simp: scheduled_def due_def)
  next
    case False
    then show ?thesis using u by (simp add: Timer_update_inactive due_def)
  qed
  then show ?case using IH(2) e le by simp
qed simp


section \<open>Properties\<close>

text \<open>An operation that a thread waits with stays where the thread can get it, whatever other threads do.\<close>

definition pending :: "operation \<Rightarrow> controller \<Rightarrow> semaphore \<times> queues \<Rightarrow> bool" where
  "pending op c w \<longleftrightarrow> op_controller (snd w) op = c \<and> (op \<in> set (sem_waiters (fst w)) \<or> op \<in> set (completed (snd w) c))"

lemma pending_step:
  assumes "pending op c w" "sem_allowed e w" "e \<noteq> SemTake c op" "e \<noteq> SemCancel c op"
  shows "pending op c (sem_step e w)"
proof -
  obtain s q where w: "w = (s, q)" by (rule prod.exhaust)
  show ?thesis using assms unfolding w
    by (cases e) (auto simp: pending_def Semaphore_post_def Semaphore_waitAsync_def Semaphore_cancel_def Let_def fresh_def
        pushBack_def extractFront_eq split: list.splits if_splits, metis in_set_remove1)
qed

lemma pending_run:
  "sem_run w es w' \<Longrightarrow> pending op c w \<Longrightarrow> SemTake c op \<notin> set es \<Longrightarrow> SemCancel c op \<notin> set es \<Longrightarrow> pending op c w'"
  by (induction rule: sem_run.induct) (auto intro: pending_step)

text \<open>
  C20: A thread that waits for a semaphore with a local operation can leave at any time: after it has taken the
  completed operation, or has cancelled it, neither the semaphore nor any controller refers to the
  operation, whatever other threads did in between; until then the operation is not lost.
\<close>

theorem semaphore_wait_safe:
  assumes "sem_inv (s, q)" "fresh op (sem_waiters s) q" "sem_run (Semaphore_waitAsync c op (s, q)) es (s1, q1)"
    "SemTake c op \<notin> set es" "SemCancel c op \<notin> set es"
  shows "(op \<in> set (sem_waiters s1) \<or> op \<in> set (completed q1 c)) \<and>
    (op \<in> set (completed q1 c) \<longrightarrow> (case sem_step (SemTake c op) (s1, q1) of (s2, q2) \<Rightarrow> fresh op (sem_waiters s2) q2)) \<and>
    (case sem_step (SemCancel c op) (s1, q1) of (s2, q2) \<Rightarrow> fresh op (sem_waiters s2) q2)"
proof -
  have "sem_inv (Semaphore_waitAsync c op (s, q))" using sem_step_inv [of "(s, q)" "SemWait c op"] assms(1,2) by simp
  then have inv: "sem.ok (s1, q1)" using sem_run_inv [OF assms(3)] by (simp add: sem_inv_def)
  have "pending op c (Semaphore_waitAsync c op (s, q))"
    by (auto simp: pending_def Semaphore_waitAsync_def Let_def pushBack_def)
  from pending_run [OF assms(3) this assms(4,5)] have p: "pending op c (s1, q1)" .
  show ?thesis
    using p sem.take_fresh [OF inv, of op c] sem.cancel_fresh [OF inv, of op c]
    by (cases "Semaphore_cancel c op (s1, q1)") (auto simp: pending_def)
qed

lemma semaphore_wait_safe_witness:
  "sem_inv (Semaphore_init 0, \<lparr>op_controller = (\<lambda>op. 0), completed = (\<lambda>c. [])\<rparr>) \<and>
   (7 \<in> set (sem_waiters (fst (Semaphore_waitAsync 1 7 (Semaphore_init 0, \<lparr>op_controller = (\<lambda>op. 0), completed = (\<lambda>c. [])\<rparr>)))) \<or>
    7 \<in> set (completed (snd (Semaphore_waitAsync 1 7 (Semaphore_init 0, \<lparr>op_controller = (\<lambda>op. 0), completed = (\<lambda>c. [])\<rparr>))) 1))"
proof -
  let ?q = "\<lparr>op_controller = (\<lambda>op. 0 :: nat), completed = (\<lambda>c :: nat. [] :: nat list)\<rparr>"
  obtain s1 q1 where w: "Semaphore_waitAsync 1 7 (Semaphore_init 0, ?q) = (s1, q1)" by (rule prod.exhaust)
  have i: "sem_inv (Semaphore_init 0, ?q)" "fresh 7 (sem_waiters (Semaphore_init 0)) ?q"
    by (simp_all add: sem_inv_def sem.ok_def placed_def fresh_def Semaphore_init_def)
  have "sem_run (Semaphore_waitAsync 1 7 (Semaphore_init 0, ?q)) [] (s1, q1)" unfolding w by (rule sem_run_nil)
  from semaphore_wait_safe [OF i this] i(1) w show ?thesis by simp
qed

text \<open>
  C17: A semaphore serves its waiters in order: unless it is cancelled, an operation that waits behind \<open>n\<close> others
  has been handed to its controller after \<open>n + 1\<close> posts at the latest, whatever other operations, cancellations
  included, come in between. The value of the semaphore and the number of operations it has handed out together are
  the initial value and the posts: every post either wakes one waiter or adds one to the value. An operation that was
  handed out counts even if it is cancelled before its controller takes it; the signal it has received is then lost
  (the FIXME in \<open>Semaphore::wait\<close>, \<open>semaphore_loses_signal\<close>). A semaphore with a value has no waiters.
\<close>

theorem semaphore_serves_in_order:
  assumes "sem_inv w" "sem_run w es w'" "op_controller (snd w) op = c" "sem_waiters (fst w) = xs @ op # ys"
    "SemCancel c op \<notin> set es" "length xs < posts es"
  shows "(op \<in> set (completed (snd w') c) \<or> SemTake c op \<in> set es) \<and>
    sem_value (fst w') + of_nat (sem_granted es w) = sem_value (fst w) + of_nat (posts es) \<and>
    (sem_value (fst w') \<noteq> 0 \<longrightarrow> sem_waiters (fst w') = [])"
proof -
  have "waits_behind op c (length xs) w" using assms(3,4) by (auto simp: waits_behind_def)
  from sem_run_serves [OF assms(2,1) this assms(5)] assms(6) sem_run_conserves [OF assms(2)] sem_run_inv [OF assms(2,1)]
  show ?thesis by (simp add: served_def sem_inv_def)
qed

lemma semaphore_serves_in_order_witness:
  "let q = \<lparr>op_controller = (\<lambda>op. 1), completed = (\<lambda>c. [])\<rparr>; w = (\<lparr>sem_waiters = [7], sem_value = 0\<rparr>, q) in
   sem_inv w \<and> (7 \<in> set (completed (snd (sem_step SemPost w)) 1) \<or> SemTake 1 7 \<in> set [SemPost])"
proof -
  let ?q = "\<lparr>op_controller = (\<lambda>op. 1 :: nat), completed = (\<lambda>c :: nat. [] :: nat list)\<rparr>"
  let ?w = "(\<lparr>sem_waiters = [7], sem_value = 0\<rparr>, ?q)"
  have i: "sem_inv ?w" by (simp add: sem_inv_def sem.ok_def placed_def)
  have r: "sem_run ?w [SemPost] (sem_step SemPost ?w)" using sem_run_step [OF sem_run_nil, of SemPost ?w] by simp
  from semaphore_serves_in_order [OF i r, of 7 1 "[]" "[]"] i show ?thesis by (simp add: Let_def posts_def)
qed

text \<open>
  C18: A mutex is held by one thread at a time: in every execution, a controller holds it as often as the mutex
  says it is nested when it is the owner, and otherwise not at all. Threads wait only while another one
  is the owner.
\<close>

theorem mutex_exclusive:
  assumes "mutex_run (m, q) h"
  shows "(\<forall>c. h c = (if mx_owner m = Some c then mx_nestingLevel m else 0)) \<and>
    (\<forall>c d. 0 < h c \<and> 0 < h d \<longrightarrow> c = d) \<and> (mx_owner m = None \<longrightarrow> mx_waiters m = []) \<and>
    (\<forall>op \<in> set (mx_waiters m). mx_owner m \<noteq> Some (op_controller q op))"
proof -
  have "mutex_inv (m, q)" "h = holds_of m" using mutex_run_inv [OF assms] by simp_all
  then show ?thesis by (auto simp: mutex_inv_def holds_of_def split: option.splits)
qed

lemma mutex_exclusive_witness:
  "let q = \<lparr>op_controller = (\<lambda>op. 0), completed = (\<lambda>c. [])\<rparr>; w = Mutex_waitAsync 1 7 (Mutex_init, q) in
   mutex_run w (handed q (snd w) (\<lambda>c. 0)) \<and> handed q (snd w) (\<lambda>c. 0) 1 = mx_nestingLevel (fst w)"
proof -
  let ?q = "\<lparr>op_controller = (\<lambda>op. 0 :: nat), completed = (\<lambda>c :: nat. [] :: nat list)\<rparr>"
  obtain m q where w: "Mutex_waitAsync 1 7 (Mutex_init, ?q) = (m, q)" by (rule prod.exhaust)
  have "mutex_run (Mutex_init, ?q) (\<lambda>c. 0)" by (rule mutex_start) (simp add: placed_def)
  then have r: "mutex_run (m, q) (handed ?q q (\<lambda>c. 0))"
    by (rule mutex_wait [OF _ _ _ w]) (simp_all add: fresh_def Mutex_init_def)
  moreover have "mx_owner m = Some 1" using w by (auto simp: Mutex_waitAsync_def Mutex_init_def Let_def)
  ultimately show ?thesis using conjunct1 [OF mutex_exclusive [OF r], THEN spec, of 1] unfolding Let_def w by simp
qed



text \<open>
  C21: A message exchange pairs sends and receives in the order they were started, in every interleaving: the
  \<open>i\<close>-th receive gets the message of the \<open>i\<close>-th send, cut to the size of its buffer, both sides know how
  much was transferred, and what has no partner yet waits in order.
\<close>

theorem exchange_pairs_in_order:
  assumes "ex_pendingSends x = []" "ex_pendingReceives x = []" "\<forall>op. tx_sent (ex_messages x) op = 0" "\<forall>op. rx_received (ex_messages x) op = []"
    "distinct (sends es)" "distinct (receives es)" "fold exchange_step es (x, q) = (x', q')" "S = sends es" "R = receives es"
  shows "ex_pendingSends x' = drop (length R) S \<and> ex_pendingReceives x' = drop (length S) R \<and>
    (\<forall>i < min (length S) (length R).
       rx_received (ex_messages x') (R ! i) = take (rx_size (ex_messages x) (R ! i)) (tx_data (ex_messages x) (S ! i)) \<and>
       tx_sent (ex_messages x') (S ! i) = length (rx_received (ex_messages x') (R ! i)))"
proof -
  have "exchange_state (ex_messages x) [] [] x" using assms(1-4) by (simp add: exchange_state_def transferred_def)
  from exchange_run [OF this assms(5,6), of q] assms(7-9) show ?thesis
    by (simp add: exchange_state_def transferred_def min.commute)
qed

lemma exchange_pairs_in_order_witness:
  "let d = \<lparr>tx_data = (\<lambda>op. ''hello''), tx_sent = (\<lambda>op. 0), rx_size = (\<lambda>op. 4), rx_received = (\<lambda>op. [])\<rparr>;
       x = \<lparr>ex_pendingSends = [], ex_pendingReceives = [], ex_messages = d\<rparr>
   in rx_received (ex_messages (fst (fold exchange_step [XReceive 1 8, XSend 2 7] (x, \<lparr>op_controller = (\<lambda>op. 0), completed = (\<lambda>c. [])\<rparr>)))) 8 = ''hell''"
proof -
  let ?d = "\<lparr>tx_data = (\<lambda>op. ''hello''), tx_sent = (\<lambda>op. 0), rx_size = (\<lambda>op. 4), rx_received = (\<lambda>op. [])\<rparr>"
  let ?x = "\<lparr>ex_pendingSends = [], ex_pendingReceives = [], ex_messages = ?d\<rparr>" and ?es = "[XReceive 1 8, XSend 2 7]"
  obtain x' q' where w: "fold exchange_step ?es (?x, \<lparr>op_controller = (\<lambda>op. 0), completed = (\<lambda>c. [])\<rparr>) = (x', q')" by (rule prod.exhaust)
  have "sends ?es = [7]" "receives ?es = [8]" by simp_all
  with exchange_pairs_in_order [of ?x ?es, OF _ _ _ _ _ _ w refl refl] w show ?thesis by (simp add: Let_def)
qed

text \<open>
  C22: The timer thread checks all timers and never sleeps past the next time of one of them, for every interval and with a
  tick counter that wraps around. Exactly the timers whose time has come are served, each once, in their order; their
  next time is one interval after the last one, and the thread sleeps until then at most. Only a timer that is behind
  by a whole interval or more (which is always so for an interval of 0) skips what it missed, and is due again one
  millisecond later. The thread always sleeps; while it does, no timer with a positive interval becomes due.
\<close>

theorem timers_not_missed:
  assumes "Manager_update now INFINITE_TIMEOUT (ts, q) = (n, ts', q')"
  shows "0 < n \<and> list_all2 (checked now n) ts ts' \<and> q' = fold notify (concat (map (served_by now) ts)) q \<and>
    ((\<forall>t \<in> set ts. tm_active t \<longrightarrow> 0 < tm_interval t) \<longrightarrow> (\<forall>t \<in> set ts'. \<forall>j < n. \<not> due t (now + j)))"
  using Manager_update_checked [OF _ assms] Manager_update_sleeps [OF _ assms] INFINITE_pos by simp

lemma timers_not_missed_witness:
  "let q = \<lparr>op_controller = (\<lambda>op. 0), completed = (\<lambda>c. [])\<rparr>; t = Timer_start 0xFFFFFFF0 20 True Timer_init;
       (n, ts, q') = Manager_update 10 INFINITE_TIMEOUT ([t], q)
   in 0 < n \<and> list_all2 (checked 10 n) [t] ts \<and> (\<forall>t \<in> set ts. \<forall>j < n. \<not> due t (10 + j))"
proof -
  let ?q = "\<lparr>op_controller = (\<lambda>op. 0 :: nat), completed = (\<lambda>c :: nat. [] :: nat list)\<rparr>" and ?t = "Timer_start 0xFFFFFFF0 20 True Timer_init"
  obtain n ts q' where m: "Manager_update 10 INFINITE_TIMEOUT ([?t], ?q) = (n, ts, q')" by (rule prod_cases3)
  have "\<forall>t \<in> set [?t]. tm_active t \<longrightarrow> 0 < tm_interval t" by (simp add: Timer_start_def)
  with timers_not_missed [OF m] show ?thesis unfolding Let_def m by blast
qed

section \<open>Evaluated\<close>

text \<open>
  A signal can be lost, which a comment in \<open>Semaphore::wait\<close> mentions: another thread posts between the time the
  wait gives up and the cancellation. The post completes the operation, which the cancellation takes back.
\<close>

lemma semaphore_loses_signal:
  "let q = \<lparr>op_controller = (\<lambda>op. 0), completed = (\<lambda>c. [])\<rparr>;
       w = fold sem_step [SemWait 1 7, SemTake 1 7, SemPost, SemCancel 1 7] (Semaphore_init 0, q)
   in sem_value (fst w) = 0 \<and> sem_waiters (fst w) = [] \<and> completed (snd w) 1 = []"
  by (simp add: Let_def Semaphore_init_def Semaphore_waitAsync_def Semaphore_post_def Semaphore_cancel_def pushBack_def)

end
