(* ===== verification/Afl_Wakeup.thy ===== *)
theory Afl_Wakeup
  imports Afl_Async
begin

text \<open>
  How a thread sleeps in \<open>Controller::wait\<close> and is woken (\<open>async/controller.cpp\<close> with
  \<open>arch/posix/posixcontrollerimpl.cpp\<close>). Unlike in \<open>Afl_Async\<close>, a step is here one access to shared
  state: the queue, the mode, the semaphore or the pipe, each of which has its own lock. The thread
  that owns the controller waits for one operation without a time limit, any number of other threads post
  operations. The theory shows that no wake-up is lost.
\<close>

section \<open>The controller implementation\<close>

datatype wait_mode = NotWaiting | WaitingForSemaphore | WaitingForFileDescriptor

text \<open>
  The state that threads share: the completed operations of the controller, the mode, the semaphore, the
  number of octets in the pipe, and whether there are requests for file descriptors. \<open>sh_ready\<close> says that a file
  descriptor is ready or that the system call will be interrupted.
\<close>

record shared =
  sh_queue :: "operation list"
  sh_mode :: wait_mode
  sh_sem :: nat
  sh_pipe :: nat
  sh_requests :: bool
  sh_ready :: bool

definition Impl_prepare :: "shared \<Rightarrow> shared" where
  "Impl_prepare s = s\<lparr>sh_mode := if sh_requests s then WaitingForFileDescriptor else WaitingForSemaphore\<rparr>"

definition Impl_finish :: "shared \<Rightarrow> shared" where
  "Impl_finish s = s\<lparr>sh_mode := NotWaiting\<rparr>"

text \<open>The action of \<open>wake\<close> for the mode it has read; a write to a full pipe has no effect.\<close>

fun Impl_wake :: "nat \<Rightarrow> wait_mode \<Rightarrow> shared \<Rightarrow> shared" where
  "Impl_wake capacity NotWaiting s = s"
| "Impl_wake capacity WaitingForSemaphore s = s\<lparr>sh_sem := sh_sem s + 1\<rparr>"
| "Impl_wake capacity WaitingForFileDescriptor s = s\<lparr>sh_pipe := if sh_pipe s < capacity then sh_pipe s + 1 else sh_pipe s\<rparr>"

text \<open>
  Where the owner is in the loop of \<open>wait\<close>, and where a thread that posts is: it has added its operation and
  has not yet read the mode, or has read it.
\<close>

datatype owner_pc =
    AtPrepare
  | AtCheck
  | AtWait
  | InSemaphore
  | InPoll
  | AtDrain
  | AtLeave
  | AtHandle
  | AtFinish
  | Returned

datatype poster_pc = Idle | Pushed | Waking wait_mode

record controller_state =
  cs_shared :: shared
  cs_owner :: owner_pc
  cs_posters :: "nat \<Rightarrow> poster_pc"

datatype actor = Owner | Poster nat | Environment

text \<open>The steps of the owner, which waits for \<open>op\<close>.\<close>

inductive owner_step :: "operation \<Rightarrow> owner_pc \<Rightarrow> shared \<Rightarrow> owner_pc \<Rightarrow> shared \<Rightarrow> bool" for op where
  owner_prepare: "owner_step op AtPrepare s AtCheck (Impl_prepare s)"
| owner_found: "OperationList_remove op (sh_queue s) = (True, xs) \<Longrightarrow> owner_step op AtCheck s AtFinish (s\<lparr>sh_queue := xs\<rparr>)"
| owner_missing: "OperationList_remove op (sh_queue s) = (False, xs) \<Longrightarrow> owner_step op AtCheck s AtWait (s\<lparr>sh_queue := xs\<rparr>)"
| owner_semaphore: "sh_mode s \<noteq> WaitingForFileDescriptor \<Longrightarrow> owner_step op AtWait s InSemaphore s"
| owner_poll: "sh_mode s = WaitingForFileDescriptor \<Longrightarrow> owner_step op AtWait s InPoll s"
| owner_woken: "0 < sh_sem s \<Longrightarrow> owner_step op InSemaphore s AtPrepare (s\<lparr>sh_sem := sh_sem s - 1\<rparr>)"
| owner_polled: "0 < sh_pipe s \<Longrightarrow> owner_step op InPoll s AtDrain s"
| owner_ready: "sh_ready s \<Longrightarrow> owner_step op InPoll s AtLeave s"
| owner_drain: "owner_step op AtDrain s AtLeave (s\<lparr>sh_pipe := 0\<rparr>)"
| owner_leave: "owner_step op AtLeave s AtHandle (s\<lparr>sh_mode := NotWaiting\<rparr>)"
| owner_handle: "owner_step op AtHandle s AtPrepare (s\<lparr>sh_queue := sh_queue s @ xs, sh_requests := b\<rparr>)"
| owner_finish: "owner_step op AtFinish s Returned (Impl_finish s)"

text \<open>The steps of a thread that posts an operation.\<close>

inductive poster_step :: "nat \<Rightarrow> poster_pc \<Rightarrow> shared \<Rightarrow> poster_pc \<Rightarrow> shared \<Rightarrow> bool" for capacity where
  poster_push: "poster_step capacity Idle s Pushed (s\<lparr>sh_queue := pushBack x (sh_queue s)\<rparr>)"
| poster_mode: "poster_step capacity Pushed s (Waking (sh_mode s)) s"
| poster_wake: "poster_step capacity (Waking m) s Idle (Impl_wake capacity m s)"

text \<open>Steps of the whole system; the environment changes which file descriptors are ready, or nothing.\<close>

inductive wait_step :: "nat \<Rightarrow> operation \<Rightarrow> actor \<Rightarrow> controller_state \<Rightarrow> controller_state \<Rightarrow> bool" for capacity op where
  step_owner: "owner_step op (cs_owner s) (cs_shared s) pc sh \<Longrightarrow>
    wait_step capacity op Owner s (s\<lparr>cs_shared := sh, cs_owner := pc\<rparr>)"
| step_poster: "poster_step capacity (cs_posters s p) (cs_shared s) pc sh \<Longrightarrow>
    wait_step capacity op (Poster p) s (s\<lparr>cs_shared := sh, cs_posters := (cs_posters s)(p := pc)\<rparr>)"
| step_environment: "wait_step capacity op Environment s (s\<lparr>cs_shared := (cs_shared s)\<lparr>sh_ready := b\<rparr>\<rparr>)"

inductive_cases owner_stepE: "owner_step op pc s pc' s'"
inductive_cases poster_stepE: "poster_step capacity pc s pc' s'"
inductive_cases wait_stepE: "wait_step capacity op a s s'"

section \<open>Requests for file descriptors\<close>

text \<open>
  The list of requests the owner polls. While the handlers of ready requests run, they may add and remove
  requests; a removal then only marks a request. \<open>'e\<close> is what the handlers work on.
\<close>

record request =
  rq_request :: nat
  rq_operation :: operation
  rq_fd :: int
  rq_read :: bool
  rq_cancelled :: bool

datatype cancel_state = CancelIdle | CancelBlocked | CancelDirty

record requests =
  rs_requests :: "request list"
  rs_cancelState :: cancel_state

definition addRequest :: "nat \<Rightarrow> operation \<Rightarrow> int \<Rightarrow> bool \<Rightarrow> requests \<Rightarrow> requests" where
  "addRequest req op fd read r =
     r\<lparr>rs_requests := rs_requests r @ [\<lparr>rq_request = req, rq_operation = op, rq_fd = fd, rq_read = read, rq_cancelled = False\<rparr>]\<rparr>"

fun removeLoop :: "operation \<Rightarrow> bool \<Rightarrow> request list \<Rightarrow> bool \<times> request list" where
  "removeLoop op erase [] = (False, [])"
| "removeLoop op erase (x # xs) =
     (if rq_operation x = op \<and> \<not> rq_cancelled x
      then (True, if erase then xs else x\<lparr>rq_cancelled := True\<rparr> # xs)
      else let (found, xs) = removeLoop op erase xs in (found, x # xs))"

definition removeRequest :: "operation \<Rightarrow> requests \<Rightarrow> requests" where
  "removeRequest op r =
     (let (found, xs) = removeLoop op (rs_cancelState r = CancelIdle) (rs_requests r)
      in r\<lparr>rs_requests := xs,
           rs_cancelState := if found \<and> rs_cancelState r \<noteq> CancelIdle then CancelDirty else rs_cancelState r\<rparr>)"

text \<open>The loop over the requests that were polled; \<open>i\<close> is the position in the list, \<open>revents\<close> what \<open>poll\<close> reported.\<close>

fun checkWaiters :: "(request \<Rightarrow> requests \<times> 'e \<Rightarrow> bool \<times> requests \<times> 'e) \<Rightarrow> bool list \<Rightarrow> nat \<Rightarrow> requests \<times> 'e \<Rightarrow> requests \<times> 'e" where
  "checkWaiters handler [] i (r, e) = (r, e)"
| "checkWaiters handler (ready # revents) i (r, e) =
     (let (finished, r, e) = (if ready then handler (rs_requests r ! i) (r, e) else (False, r, e))
      in if finished then checkWaiters handler revents i (r\<lparr>rs_requests := take i (rs_requests r) @ drop (Suc i) (rs_requests r)\<rparr>, e)
         else checkWaiters handler revents (Suc i) (r, e))"

definition handlePolled :: "(request \<Rightarrow> requests \<times> 'e \<Rightarrow> bool \<times> requests \<times> 'e) \<Rightarrow> bool list \<Rightarrow> requests \<times> 'e \<Rightarrow> requests \<times> 'e" where
  "handlePolled handler revents = (\<lambda>(r, e).
     let r = (if rs_cancelState r = CancelIdle then r\<lparr>rs_cancelState := CancelBlocked\<rparr> else r);
         (r, e) = checkWaiters handler revents 0 (r, e);
         r = (if rs_cancelState r = CancelDirty then r\<lparr>rs_requests := filter (\<lambda>x. \<not> rq_cancelled x) (rs_requests r)\<rparr> else r)
     in (r\<lparr>rs_cancelState := CancelIdle\<rparr>, e))"

section \<open>No wake-up is lost\<close>

lemma remove_found [simp]: "OperationList_remove op xs = (b, ys) \<longleftrightarrow> b = (op \<in> set xs) \<and> ys = remove1 op xs"
  by (induction xs arbitrary: b ys) (auto split: prod.splits)

text \<open>A wake-up is under way: a thread is between its push and its wake-up, or the signal is there.\<close>

definition wakeup_pending :: "controller_state \<Rightarrow> bool" where
  "wakeup_pending s \<longleftrightarrow> (\<exists>p. cs_posters s p = Pushed \<or> cs_posters s p = Waking (sh_mode (cs_shared s))) \<or>
     (if sh_mode (cs_shared s) = WaitingForFileDescriptor then 0 < sh_pipe (cs_shared s) else 0 < sh_sem (cs_shared s))"

definition sleeping :: "owner_pc \<Rightarrow> bool" where
  "sleeping pc \<longleftrightarrow> pc \<in> {AtWait, InSemaphore, InPoll}"

definition wakeup_inv :: "operation \<Rightarrow> controller_state \<Rightarrow> bool" where
  "wakeup_inv op s \<longleftrightarrow>
     (cs_owner s \<in> {AtCheck, AtWait} \<longrightarrow> sh_mode (cs_shared s) \<noteq> NotWaiting) \<and>
     (cs_owner s = InSemaphore \<longrightarrow> sh_mode (cs_shared s) = WaitingForSemaphore) \<and>
     (cs_owner s = InPoll \<longrightarrow> sh_mode (cs_shared s) = WaitingForFileDescriptor) \<and>
     (sleeping (cs_owner s) \<and> op \<in> set (sh_queue (cs_shared s)) \<longrightarrow> wakeup_pending s)"

lemma Impl_wake_simps [simp]:
  "sh_mode (Impl_wake capacity m s) = sh_mode s"
  "sh_queue (Impl_wake capacity m s) = sh_queue s"
  by (cases m; simp)+

lemma wakeup_pending_wake:
  assumes "wakeup_pending s" "cs_posters s p = Waking m" "sh_mode (cs_shared s) \<noteq> NotWaiting" "0 < capacity"
  shows "wakeup_pending (s\<lparr>cs_shared := Impl_wake capacity m (cs_shared s), cs_posters := (cs_posters s)(p := Idle)\<rparr>)"
proof (cases "m = sh_mode (cs_shared s)")
  case True
  with assms(3,4) show ?thesis by (cases m) (auto simp: wakeup_pending_def)
next
  case False
  from assms(1) consider q where "q \<noteq> p" "cs_posters s q = Pushed \<or> cs_posters s q = Waking (sh_mode (cs_shared s))"
    | "if sh_mode (cs_shared s) = WaitingForFileDescriptor then 0 < sh_pipe (cs_shared s) else 0 < sh_sem (cs_shared s)"
    using assms(2) False unfolding wakeup_pending_def by (metis poster_pc.distinct(5) poster_pc.inject)
  then show ?thesis
  proof cases
    case 1
    show ?thesis unfolding wakeup_pending_def using 1 by - (rule disjI1, rule exI [of _ q], simp)
  next
    case 2
    then show ?thesis by (cases m) (auto simp: wakeup_pending_def)
  qed
qed

lemma wakeup_inv_owner:
  assumes "owner_step op (cs_owner s) (cs_shared s) pc sh" "wakeup_inv op s"
  shows "wakeup_inv op (s\<lparr>cs_shared := sh, cs_owner := pc\<rparr>)"
  using assms
  by (cases rule: owner_step.cases; cases "sh_mode (cs_shared s)")
     (auto simp: wakeup_inv_def sleeping_def wakeup_pending_def Impl_prepare_def Impl_finish_def)

lemma wakeup_inv_poster:
  assumes "poster_step capacity (cs_posters s p) (cs_shared s) pc sh" "wakeup_inv op s" "0 < capacity"
  shows "wakeup_inv op (s\<lparr>cs_shared := sh, cs_posters := (cs_posters s)(p := pc)\<rparr>)"
  using assms(1)
proof (cases rule: poster_step.cases)
  case (poster_push x)
  then show ?thesis using assms(2) by (auto simp: wakeup_inv_def wakeup_pending_def)
next
  case poster_mode
  then show ?thesis using assms(2) by (auto simp: wakeup_inv_def wakeup_pending_def) 
next
  case (poster_wake m)
  have "sleeping (cs_owner s) \<Longrightarrow> sh_mode (cs_shared s) \<noteq> NotWaiting"
    using assms(2) by (auto simp: wakeup_inv_def sleeping_def)
  then show ?thesis using assms(2,3) wakeup_pending_wake [of s p m capacity] poster_wake
    by (auto simp: wakeup_inv_def)
qed

lemma wakeup_inv_step:
  assumes "wait_step capacity op a s s'" "wakeup_inv op s" "0 < capacity"
  shows "wakeup_inv op s'"
  using assms(1)
proof (cases rule: wait_step.cases)
  case (step_owner pc sh)
  then show ?thesis using wakeup_inv_owner assms(2) by simp
next
  case (step_poster p pc sh)
  then show ?thesis using wakeup_inv_poster assms(2,3) by simp
next
  case (step_environment b)
  with assms(2) show ?thesis by (auto simp: wakeup_inv_def wakeup_pending_def)
qed


section \<open>Progress\<close>

text \<open>How far the owner is from its return once the operation is in the queue.\<close>

fun rank :: "owner_pc \<Rightarrow> nat" where
  "rank AtWait = 9"
| "rank InSemaphore = 8"
| "rank InPoll = 8"
| "rank AtDrain = 7"
| "rank AtLeave = 6"
| "rank AtHandle = 5"
| "rank AtPrepare = 4"
| "rank AtCheck = 3"
| "rank AtFinish = 2"
| "rank Returned = 0"

definition arriving :: "operation \<Rightarrow> controller_state \<Rightarrow> bool" where
  "arriving op s \<longleftrightarrow> wakeup_inv op s \<and> (op \<in> set (sh_queue (cs_shared s)) \<or> cs_owner s \<in> {AtFinish, Returned})"

lemma owner_step_rank:
  assumes "owner_step op pc s pc' s'" "op \<in> set (sh_queue s) \<or> pc \<in> {AtFinish, Returned}"
  shows "rank pc' < rank pc \<and> (op \<in> set (sh_queue s') \<or> pc' \<in> {AtFinish, Returned})"
  using assms by (cases rule: owner_step.cases) (auto simp: Impl_prepare_def)

lemma arriving_step:
  assumes "wait_step capacity op a s s'" "arriving op s" "0 < capacity"
  shows "arriving op s' \<and> rank (cs_owner s') \<le> rank (cs_owner s) \<and> (a = Owner \<longrightarrow> rank (cs_owner s') < rank (cs_owner s))"
proof -
  have inv: "wakeup_inv op s'" using wakeup_inv_step assms by (auto simp: arriving_def)
  from assms(1) show ?thesis
  proof (cases rule: wait_step.cases)
    case (step_owner pc sh)
    then show ?thesis using owner_step_rank [of op "cs_owner s" "cs_shared s" pc sh] assms(2) inv
      by (auto simp: arriving_def)
  next
    case (step_poster p pc sh)
    then show ?thesis using assms(2) inv by (auto simp: arriving_def pushBack_def elim!: poster_stepE)
  next
    case (step_environment b)
    then show ?thesis using assms(2) inv by (auto simp: arriving_def)
  qed
qed

definition owner_enabled :: "operation \<Rightarrow> controller_state \<Rightarrow> bool" where
  "owner_enabled op s \<longleftrightarrow> (\<exists>pc sh. owner_step op (cs_owner s) (cs_shared s) pc sh)"

lemma owner_enabled_iff:
  "owner_enabled op s \<longleftrightarrow> (case cs_owner s of
     InSemaphore \<Rightarrow> 0 < sh_sem (cs_shared s)
   | InPoll \<Rightarrow> 0 < sh_pipe (cs_shared s) \<or> sh_ready (cs_shared s)
   | Returned \<Rightarrow> False
   | _ \<Rightarrow> True)"
proof (cases "cs_owner s")
  case AtCheck
  then show ?thesis unfolding owner_enabled_def
    using owner_found [of op "cs_shared s"] owner_missing [of op "cs_shared s"] by (cases "op \<in> set (sh_queue (cs_shared s))") auto
next
  case AtWait
  then show ?thesis unfolding owner_enabled_def
    using owner_semaphore [of "cs_shared s" op] owner_poll [of "cs_shared s" op] by (cases "sh_mode (cs_shared s) = WaitingForFileDescriptor") auto
qed (auto simp: owner_enabled_def elim!: owner_stepE intro: owner_step.intros exI)

text \<open>
  Runs of the system. Every thread that can make a step makes one at some time: the owner when it is not
  blocked, a thread that posts when it has pushed its operation. Threads that are idle need not post.
\<close>

definition wait_run :: "nat \<Rightarrow> operation \<Rightarrow> (nat \<Rightarrow> controller_state) \<Rightarrow> (nat \<Rightarrow> actor) \<Rightarrow> bool" where
  "wait_run capacity op \<sigma> act \<longleftrightarrow> (\<forall>i. wait_step capacity op (act i) (\<sigma> i) (\<sigma> (Suc i)))"

definition fair :: "operation \<Rightarrow> (nat \<Rightarrow> controller_state) \<Rightarrow> (nat \<Rightarrow> actor) \<Rightarrow> bool" where
  "fair op \<sigma> act \<longleftrightarrow>
     (\<forall>i. (\<forall>j \<ge> i. owner_enabled op (\<sigma> j)) \<longrightarrow> (\<exists>j \<ge> i. act j = Owner)) \<and>
     (\<forall>p i. (\<forall>j \<ge> i. cs_posters (\<sigma> j) p \<noteq> Idle) \<longrightarrow> (\<exists>j \<ge> i. act j = Poster p))"

lemma wait_step_other:
  assumes "wait_step capacity op a s s'"
  shows "a \<noteq> Owner \<Longrightarrow> cs_owner s' = cs_owner s \<and> sh_mode (cs_shared s') = sh_mode (cs_shared s) \<and>
      sh_sem (cs_shared s) \<le> sh_sem (cs_shared s') \<and> sh_pipe (cs_shared s) \<le> sh_pipe (cs_shared s')"
    "a \<noteq> Poster p \<Longrightarrow> cs_posters s' p = cs_posters s p"
proof -
  have "sh_sem s \<le> sh_sem (Impl_wake capacity m s)" "sh_pipe s \<le> sh_pipe (Impl_wake capacity m s)" for m s
    by (cases m; simp)+
  with assms show "a \<noteq> Owner \<Longrightarrow> cs_owner s' = cs_owner s \<and> sh_mode (cs_shared s') = sh_mode (cs_shared s) \<and>
      sh_sem (cs_shared s) \<le> sh_sem (cs_shared s') \<and> sh_pipe (cs_shared s) \<le> sh_pipe (cs_shared s')"
    by (cases rule: wait_step.cases) (auto elim!: poster_stepE)
  from assms show "a \<noteq> Poster p \<Longrightarrow> cs_posters s' p = cs_posters s p"
    by (cases rule: wait_step.cases) auto
qed

text \<open>What stays while the owner does not move.\<close>

lemma owner_stays:
  assumes "wait_run capacity op \<sigma> act" "\<forall>j \<ge> i. act j \<noteq> Owner" "i \<le> j"
  shows "cs_owner (\<sigma> j) = cs_owner (\<sigma> i) \<and> sh_mode (cs_shared (\<sigma> j)) = sh_mode (cs_shared (\<sigma> i)) \<and>
    sh_sem (cs_shared (\<sigma> i)) \<le> sh_sem (cs_shared (\<sigma> j)) \<and> sh_pipe (cs_shared (\<sigma> i)) \<le> sh_pipe (cs_shared (\<sigma> j))"
  using assms(3)
proof (induction rule: dec_induct)
  case (step j)
  then have "act j \<noteq> Owner" using assms(2) by simp
  with wait_step_other(1) [of capacity op "act j" "\<sigma> j" "\<sigma> (Suc j)"] assms(1) step show ?case
    by (auto simp: wait_run_def)
qed simp

text \<open>A thread that has pushed an operation makes its next step.\<close>

lemma poster_moves:
  assumes "wait_run capacity op \<sigma> act" "fair op \<sigma> act" "cs_posters (\<sigma> i) p \<noteq> Idle"
  obtains j where "i \<le> j" "act j = Poster p" "cs_posters (\<sigma> j) p = cs_posters (\<sigma> i) p"
proof -
  have "\<exists>j \<ge> i. act j = Poster p"
  proof (rule ccontr)
    assume none: "\<not> ?thesis"
    have "cs_posters (\<sigma> j) p = cs_posters (\<sigma> i) p" if "i \<le> j" for j
      using that
    proof (induction rule: dec_induct)
      case (step j)
      with none wait_step_other(2) [of capacity op "act j" "\<sigma> j" "\<sigma> (Suc j)" p] assms(1) show ?case by (auto simp: wait_run_def)
    qed simp
    with assms(2,3) none show False unfolding fair_def by metis
  qed
  then have ex: "\<exists>j. i \<le> j \<and> act j = Poster p" by blast
  define j where "j = (LEAST j. i \<le> j \<and> act j = Poster p)"
  have j: "i \<le> j" "act j = Poster p" using LeastI_ex [OF ex] by (simp_all add: j_def)
  have first: "act k \<noteq> Poster p" if "i \<le> k" "k < j" for k
    using that not_less_Least [of k "\<lambda>j. i \<le> j \<and> act j = Poster p"] by (auto simp: j_def)
  have "cs_posters (\<sigma> k) p = cs_posters (\<sigma> i) p" if "i \<le> k" "k \<le> j" for k
    using that
  proof (induction rule: dec_induct)
    case (step k)
    with first [of k] wait_step_other(2) [of capacity op "act k" "\<sigma> k" "\<sigma> (Suc k)" p] assms(1) show ?case by (auto simp: wait_run_def)
  qed simp
  with j that show ?thesis by blast
qed


definition signalled :: "shared \<Rightarrow> bool" where
  "signalled s \<longleftrightarrow> (if sh_mode s = WaitingForFileDescriptor then 0 < sh_pipe s else 0 < sh_sem s)"

lemma signalled_wake: "0 < capacity \<Longrightarrow> sh_mode s \<noteq> NotWaiting \<Longrightarrow> signalled (Impl_wake capacity (sh_mode s) s)"
  by (cases "sh_mode s") (simp_all add: signalled_def)

lemma waking_signals:
  assumes "wait_run capacity op \<sigma> act" "fair op \<sigma> act" "0 < capacity" "\<forall>j \<ge> i. act j \<noteq> Owner"
    "sh_mode (cs_shared (\<sigma> i)) \<noteq> NotWaiting" "cs_posters (\<sigma> i) p = Waking (sh_mode (cs_shared (\<sigma> i)))"
  shows "\<exists>k \<ge> i. signalled (cs_shared (\<sigma> k))"
proof -
  obtain j where j: "i \<le> j" "act j = Poster p" "cs_posters (\<sigma> j) p = cs_posters (\<sigma> i) p"
    using poster_moves [OF assms(1,2), of i p] assms(6) by auto
  have m: "sh_mode (cs_shared (\<sigma> j)) = sh_mode (cs_shared (\<sigma> i))" using owner_stays [OF assms(1,4) j(1)] by simp
  have "wait_step capacity op (Poster p) (\<sigma> j) (\<sigma> (Suc j))" using assms(1) j(2) by (metis wait_run_def)
  then have "cs_shared (\<sigma> (Suc j)) = Impl_wake capacity (sh_mode (cs_shared (\<sigma> j))) (cs_shared (\<sigma> j))"
    using j(3) assms(6) m by (cases rule: wait_step.cases) (auto elim!: poster_stepE)
  then have "signalled (cs_shared (\<sigma> (Suc j)))" using signalled_wake [of capacity "cs_shared (\<sigma> j)"] assms(3,5) m by simp
  then show ?thesis using j(1) by (intro exI [of _ "Suc j"]) simp
qed

lemma pending_signals:
  assumes "wait_run capacity op \<sigma> act" "fair op \<sigma> act" "0 < capacity" "\<forall>j \<ge> i. act j \<noteq> Owner"
    "sh_mode (cs_shared (\<sigma> i)) \<noteq> NotWaiting" "wakeup_pending (\<sigma> i)"
  shows "\<exists>k \<ge> i. signalled (cs_shared (\<sigma> k))"
proof -
  consider p where "cs_posters (\<sigma> i) p = Pushed" | p where "cs_posters (\<sigma> i) p = Waking (sh_mode (cs_shared (\<sigma> i)))"
    | "signalled (cs_shared (\<sigma> i))"
    using assms(6) by (auto simp: wakeup_pending_def signalled_def)
  then show ?thesis
  proof cases
    case (1 p)
    obtain j where j: "i \<le> j" "act j = Poster p" "cs_posters (\<sigma> j) p = cs_posters (\<sigma> i) p"
      using poster_moves [OF assms(1,2), of i p] 1 by auto
    have "wait_step capacity op (Poster p) (\<sigma> j) (\<sigma> (Suc j))" using assms(1) j(2) by (metis wait_run_def)
    then have w: "cs_posters (\<sigma> (Suc j)) p = Waking (sh_mode (cs_shared (\<sigma> (Suc j))))"
      using j(3) 1 by (cases rule: wait_step.cases) (auto elim!: poster_stepE)
    have "sh_mode (cs_shared (\<sigma> (Suc j))) \<noteq> NotWaiting"
      using owner_stays [OF assms(1,4), of "Suc j"] j(1) assms(5) by simp
    from waking_signals [OF assms(1-3) _ this w] assms(4) j(1) show ?thesis
      by (metis Suc_leD le_trans)
  next
    case (2 p)
    then show ?thesis using waking_signals [OF assms(1-5)] by blast
  qed blast
qed

lemma owner_moves:
  assumes "wait_run capacity op \<sigma> act" "fair op \<sigma> act" "0 < capacity" "arriving op (\<sigma> i)" "cs_owner (\<sigma> i) \<noteq> Returned"
  shows "\<exists>j \<ge> i. act j = Owner"
proof (rule ccontr)
  assume "\<not> ?thesis"
  then have none: "\<forall>j \<ge> i. act j \<noteq> Owner" by simp
  note stays = owner_stays [OF assms(1) none]
  let ?pc = "cs_owner (\<sigma> i)"
  have blocked: "\<not> (\<forall>j \<ge> k. owner_enabled op (\<sigma> j))" if "i \<le> k" for k
    using assms(2) none that unfolding fair_def by (meson le_trans)
  show False
  proof (cases "?pc = InSemaphore \<or> ?pc = InPoll")
    case False
    then have "owner_enabled op (\<sigma> j)" if "i \<le> j" for j
      using stays [OF that] assms(5) unfolding owner_enabled_iff by (cases ?pc) auto
    with blocked show False by blast
  next
    case True
    then have p: "wakeup_pending (\<sigma> i)" "sh_mode (cs_shared (\<sigma> i)) \<noteq> NotWaiting"
      "?pc = InPoll \<longleftrightarrow> sh_mode (cs_shared (\<sigma> i)) = WaitingForFileDescriptor"
      using assms(4) by (auto simp: arriving_def wakeup_inv_def sleeping_def)
    obtain k where k: "i \<le> k" "signalled (cs_shared (\<sigma> k))" using pending_signals [OF assms(1-3) none p(2,1)] by blast
    have "owner_enabled op (\<sigma> j)" if "k \<le> j" for j
    proof -
      have none': "\<forall>j \<ge> k. act j \<noteq> Owner" using none k(1) by simp
      have "i \<le> j" using k(1) that by simp
      from stays [OF this] stays [OF k(1)] owner_stays [OF assms(1) none' that] k(2) True p(3)
      show ?thesis unfolding owner_enabled_iff signalled_def by auto
    qed
    with blocked k(1) show False by blast
  qed
qed

text \<open>Until the owner moves, it keeps on arriving.\<close>

lemma arriving_until:
  assumes "wait_run capacity op \<sigma> act" "0 < capacity" "arriving op (\<sigma> i)" "i \<le> j"
  shows "arriving op (\<sigma> j) \<and> rank (cs_owner (\<sigma> j)) \<le> rank (cs_owner (\<sigma> i))"
  using assms(4)
proof (induction rule: dec_induct)
  case (step j)
  then show ?case using arriving_step [of capacity op "act j" "\<sigma> j" "\<sigma> (Suc j)"] assms(1,2)
    by (auto simp: wait_run_def)
qed (use assms(3) in simp)

lemma arriving_returns:
  assumes "wait_run capacity op \<sigma> act" "fair op \<sigma> act" "0 < capacity" "arriving op (\<sigma> i)"
  shows "\<exists>j \<ge> i. cs_owner (\<sigma> j) = Returned"
  using assms(4)
proof (induction "rank (cs_owner (\<sigma> i))" arbitrary: i rule: less_induct)
  case (less i)
  show ?case
  proof (cases "cs_owner (\<sigma> i) = Returned")
    case False
    obtain j where j: "i \<le> j" "act j = Owner" using owner_moves [OF assms(1-3) less.prems False] by blast
    have a: "arriving op (\<sigma> j)" "rank (cs_owner (\<sigma> j)) \<le> rank (cs_owner (\<sigma> i))"
      using arriving_until [OF assms(1,3) less.prems j(1)] by simp_all
    have "arriving op (\<sigma> (Suc j))" "rank (cs_owner (\<sigma> (Suc j))) < rank (cs_owner (\<sigma> j))"
      using arriving_step [OF _ a(1) assms(3), of Owner "\<sigma> (Suc j)"] assms(1) j(2) by (metis wait_run_def)+
    with less.hyps [of "Suc j"] a(2) j(1) show ?thesis by (meson Suc_leD le_trans less_le_trans)
  qed blast
qed


section \<open>Properties\<close>

lemma wakeup_inv_run:
  assumes "wait_run capacity op \<sigma> act" "0 < capacity" "cs_owner (\<sigma> 0) = AtPrepare"
  shows "wakeup_inv op (\<sigma> i)"
proof (induction i)
  case 0
  then show ?case using assms(3) by (simp add: wakeup_inv_def sleeping_def)
next
  case (Suc i)
  then show ?case using wakeup_inv_step assms(1,2) by (metis wait_run_def)
qed

text \<open>
  C16: No wake-up is lost. A thread waits for an operation; other threads post operations at any time, and the
  accesses to the queue, the mode, the semaphore and the pipe interleave in any way. When the operation is in
  the queue, a thread that is asleep has a signal or will get one; and in every fair execution the
  wait returns.
\<close>

theorem no_lost_wakeup:
  assumes "wait_run capacity op \<sigma> act" "fair op \<sigma> act" "0 < capacity" "cs_owner (\<sigma> 0) = AtPrepare"
    "op \<in> set (sh_queue (cs_shared (\<sigma> i)))"
  shows "(cs_owner (\<sigma> i) \<in> {InSemaphore, InPoll} \<longrightarrow> wakeup_pending (\<sigma> i)) \<and> (\<exists>j \<ge> i. cs_owner (\<sigma> j) = Returned)"
proof -
  have inv: "wakeup_inv op (\<sigma> i)" using wakeup_inv_run [OF assms(1,3,4)] .
  then have "arriving op (\<sigma> i)" using assms(5) by (simp add: arriving_def)
  from arriving_returns [OF assms(1-3) this] inv assms(5) show ?thesis by (auto simp: wakeup_inv_def sleeping_def)
qed

text \<open>A run in which the operation was posted before the thread waits for it.\<close>

definition example_state :: "operation list \<Rightarrow> wait_mode \<Rightarrow> owner_pc \<Rightarrow> controller_state" where
  "example_state queue mode pc = \<lparr>cs_shared = \<lparr>sh_queue = queue, sh_mode = mode, sh_sem = 0, sh_pipe = 0, sh_requests = False, sh_ready = False\<rparr>,
     cs_owner = pc, cs_posters = (\<lambda>p. Idle)\<rparr>"

definition example_run :: "nat \<Rightarrow> controller_state" where
  "example_run i = (if i = 0 then example_state [7] NotWaiting AtPrepare
     else if i = 1 then example_state [7] WaitingForSemaphore AtCheck
     else if i = 2 then example_state [] WaitingForSemaphore AtFinish
     else example_state [] NotWaiting Returned)"

definition example_actors :: "nat \<Rightarrow> actor" where
  "example_actors i = (if i < 3 then Owner else Environment)"

lemma example_steps: "wait_run 1 7 example_run example_actors"
proof (unfold wait_run_def, intro allI)
  fix i
  have prepare: "wait_step 1 7 Owner (example_run 0) (example_run 1)"
    using step_owner [of 7 "example_run 0" AtCheck "Impl_prepare (cs_shared (example_run 0))" 1] owner_prepare [of 7 "cs_shared (example_run 0)"]
    by (simp add: example_run_def example_state_def Impl_prepare_def)
  have found: "wait_step 1 7 Owner (example_run 1) (example_run 2)"
    using step_owner [of 7 "example_run 1" AtFinish "(cs_shared (example_run 1))\<lparr>sh_queue := []\<rparr>" 1]
      owner_found [of 7 "cs_shared (example_run 1)" "[]"]
    by (simp add: example_run_def example_state_def)
  have finish: "wait_step 1 7 Owner (example_run 2) (example_run 3)"
    using step_owner [of 7 "example_run 2" Returned "Impl_finish (cs_shared (example_run 2))" 1] owner_finish [of 7 "cs_shared (example_run 2)"]
    by (simp add: example_run_def example_state_def Impl_finish_def)
  have rest: "wait_step 1 7 Environment (example_run i) (example_run (Suc i))" if "3 \<le> i"
    using step_environment [of 1 7 "example_run i" False] that by (simp add: example_run_def example_state_def)
  show "wait_step 1 7 (example_actors i) (example_run i) (example_run (Suc i))"
    using prepare found finish rest
    by (cases "i = 0 \<or> i = 1 \<or> i = 2") (auto simp: example_actors_def numeral_eq_Suc)
qed

lemma example_fair: "fair 7 example_run example_actors"
proof -
  have "\<not> owner_enabled 7 (example_run (i + 3))" for i
    by (simp add: owner_enabled_iff example_run_def example_state_def)
  moreover have "cs_posters (example_run i) p = Idle" for i p by (simp add: example_run_def example_state_def)
  ultimately show ?thesis unfolding fair_def by (metis le_add1 order_refl)
qed

lemma no_lost_wakeup_witness: "\<exists>j \<ge> 0. cs_owner (example_run j) = Returned"
proof -
  have "cs_owner (example_run 0) = AtPrepare" "7 \<in> set (sh_queue (cs_shared (example_run 0)))"
    by (simp_all add: example_run_def example_state_def)
  from no_lost_wakeup [OF example_steps example_fair _ this] show ?thesis by simp
qed


section \<open>Deferred cancellation\<close>

text \<open>Handlers change the list of requests only by adding and removing requests.\<close>

inductive requests_changed :: "requests \<Rightarrow> requests \<Rightarrow> bool" for r where
  changed_none: "requests_changed r r"
| changed_add: "requests_changed r r' \<Longrightarrow> requests_changed r (addRequest req op fd rd r')"
| changed_remove: "requests_changed r r' \<Longrightarrow> requests_changed r (removeRequest op r')"

definition polite :: "(request \<Rightarrow> requests \<times> 'e \<Rightarrow> bool \<times> requests \<times> 'e) \<Rightarrow> bool" where
  "polite handler \<longleftrightarrow> (\<forall>x r e. requests_changed r (fst (snd (handler x (r, e)))))"

definition dispatching :: "requests \<Rightarrow> bool" where
  "dispatching r \<longleftrightarrow> rs_cancelState r \<noteq> CancelIdle \<and> (rs_cancelState r = CancelBlocked \<longrightarrow> (\<forall>x \<in> set (rs_requests r). \<not> rq_cancelled x))"

lemma removeLoop_not_found: "removeLoop op erase xs = (False, ys) \<Longrightarrow> ys = xs"
  by (induction xs arbitrary: ys) (auto simp: Let_def split: if_splits prod.splits)

lemma dispatching_change: "requests_changed r r' \<Longrightarrow> dispatching r \<Longrightarrow> dispatching r'"
proof (induction rule: requests_changed.induct)
  case (changed_remove r' op)
  then show ?case
    by (auto simp: dispatching_def removeRequest_def Let_def split: prod.splits dest!: removeLoop_not_found)
qed (auto simp: dispatching_def addRequest_def)

lemma checkWaiters_dispatching:
  assumes "polite handler"
  shows "dispatching r \<Longrightarrow> checkWaiters handler revents i (r, e) = (r', e') \<Longrightarrow> dispatching r'"
proof (induction revents arbitrary: i r e)
  case (Cons ready revents)
  obtain b r1 e1 where h: "(if ready then handler (rs_requests r ! i) (r, e) else (False, r, e)) = (b, r1, e1)" by (rule prod_cases3)
  have "requests_changed r r1" using h assms changed_none unfolding polite_def by (metis fst_conv snd_conv)
  then have d: "dispatching r1" using Cons.prems(1) by (rule dispatching_change)
  then have "dispatching (r1\<lparr>rs_requests := take i (rs_requests r1) @ drop (Suc i) (rs_requests r1)\<rparr>)"
    by (auto simp: dispatching_def dest: in_set_takeD in_set_dropD)
  with Cons.IH Cons.prems(2) h d show ?case by (auto simp: Let_def split: if_splits)
qed simp

text \<open>After the handlers have run, no cancelled request is left, and requests can be removed directly again.\<close>

lemma handlePolled_clean:
  assumes "polite handler" "\<forall>x \<in> set (rs_requests r). \<not> rq_cancelled x" "rs_cancelState r = CancelIdle"
    "handlePolled handler revents (r, e) = (r', e')"
  shows "rs_cancelState r' = CancelIdle \<and> (\<forall>x \<in> set (rs_requests r'). \<not> rq_cancelled x)"
proof -
  obtain r1 e1 where c: "checkWaiters handler revents 0 (r\<lparr>rs_cancelState := CancelBlocked\<rparr>, e) = (r1, e1)" by (rule prod.exhaust)
  have "dispatching (r\<lparr>rs_cancelState := CancelBlocked\<rparr>)" using assms(2) by (simp add: dispatching_def)
  then have "dispatching r1" using checkWaiters_dispatching [OF assms(1) _ c] by blast
  then show ?thesis using assms(3,4) c
    by (cases "rs_cancelState r1") (auto simp: handlePolled_def Let_def dispatching_def)
qed

text \<open>
  A request that was cancelled is to be treated as deleted (\<open>posixcontrollerimpl.hpp\<close>), since the object it
  refers to may be deleted. The loop calls its handler nevertheless when its file descriptor is ready: here the
  handler of request 1 cancels operation 20, and the handler of request 2, which belongs to it, is called after that.
\<close>

definition cancelling_handler :: "request \<Rightarrow> requests \<times> nat list \<Rightarrow> bool \<times> requests \<times> nat list" where
  "cancelling_handler x = (\<lambda>(r, called). (True, if rq_request x = 1 then removeRequest 20 r else r, called @ [rq_request x]))"

lemma cancelled_handler_called:
  "snd (handlePolled cancelling_handler [True, True]
     (addRequest 2 20 5 True (addRequest 1 10 4 True \<lparr>rs_requests = [], rs_cancelState = CancelIdle\<rparr>), [])) = [1, 2]"
  by (simp add: handlePolled_def Let_def addRequest_def removeRequest_def cancelling_handler_def)

end
