(* ===== verification/Afl_Xml.thy ===== *)
theory Afl_Xml
  imports Afl_Net Afl_Stream
begin

text \<open>
  XML (\<open>afl/io/xml\<close>): the tree of nodes, the writer, the tokenizer \<open>Reader\<close> on a byte stream, the tokenizer
  \<open>NodeReader\<close> on a tree, and the parser, which builds a tree from either of them through the interface
  \<open>BaseReader\<close>. The loops of the tokenizer and the parser end only if the stream does, so they have fuel and
  give \<open>NoReturn\<close> when it is used up; \<open>Afl_Xml_Laws\<close> shows how much is enough.
\<close>

section \<open>Nodes\<close>

record named =
  nn_name :: string
  nn_attributeNames :: name_map
  nn_attributeValues :: "string list"

datatype node = PINode named | TagNode named "node list" | TextNode string

definition NamedNode_init :: "string \<Rightarrow> named" where
  "NamedNode_init name = \<lparr>nn_name = name, nn_attributeNames = NameMap_init, nn_attributeValues = []\<rparr>"

definition setName :: "string \<Rightarrow> named \<Rightarrow> named" where
  "setName name n = n\<lparr>nn_name := name\<rparr>"

definition setAttribute :: "string \<Rightarrow> string \<Rightarrow> named \<Rightarrow> named" where
  "setAttribute name val n =
     (let (index, names) = addMaybe name (nn_attributeNames n);
          values = nn_attributeValues n;
          values = (if length values \<le> index then values @ replicate (index + 1 - length values) [] else values)
      in n\<lparr>nn_attributeNames := names, nn_attributeValues := values[index := val]\<rparr>)"

text \<open>The index that stands for no attribute is larger than every index.\<close>

definition getAttributeByIndex :: "named \<Rightarrow> nat \<Rightarrow> string" where
  "getAttributeByIndex n index =
     (if index < length (nn_attributeValues n) then nn_attributeValues n ! index else [])"

definition getAttributeByName :: "named \<Rightarrow> string \<Rightarrow> string" where
  "getAttributeByName n name =
     (case getIndexByName (nn_attributeNames n) name of None \<Rightarrow> [] | Some index \<Rightarrow> getAttributeByIndex n index)"

definition addNewChild :: "node option \<Rightarrow> node list \<Rightarrow> node list" where
  "addNewChild p children = (case p of None \<Rightarrow> children | Some n \<Rightarrow> children @ [n])"

text \<open>The visitor of \<open>getTextContent\<close> descends into tags and collects texts.\<close>

fun getTextContent :: "node \<Rightarrow> string" where
  "getTextContent (PINode n) = []"
| "getTextContent (TagNode n ch) = concat (map getTextContent ch)"
| "getTextContent (TextNode s) = s"

section \<open>Writer\<close>

text \<open>What the writer sends to its sink, in order.\<close>

definition escapeXml :: "char \<Rightarrow> string" where
  "escapeXml c =
     (if c = CHR ''<'' then ''&lt;''
      else if c = CHR ''>'' then ''&gt;''
      else if c = CHR ''&'' then ''&amp;''
      else if c = CHR 0x22 then ''&quot;''
      else [c])"

definition escape :: "string \<Rightarrow> string" where
  "escape s = concat (map escapeXml s)"

definition writeAttributes :: "named \<Rightarrow> octet list" where
  "writeAttributes n = concat (map (\<lambda>i.
     '' '' @ getNameByIndex (nn_attributeNames n) i @ ''='' @ [CHR 0x22] @ escape (getAttributeByIndex n i) @ [CHR 0x22])
     [0..<getNumNames (nn_attributeNames n)])"

fun Writer_visit :: "node \<Rightarrow> octet list" where
  "Writer_visit (PINode n) = ''<?'' @ nn_name n @ writeAttributes n @ ''?>''"
| "Writer_visit (TagNode n ch) =
     ''<'' @ nn_name n @ writeAttributes n @
     (if ch = [] then ''/>''
      else ''>'' @ concat (map Writer_visit ch) @ ''</'' @ nn_name n @ ''>'')"
| "Writer_visit (TextNode s) = escape s"

definition Writer_visitNodes :: "node list \<Rightarrow> octet list" where
  "Writer_visitNodes nodes = concat (map Writer_visit nodes)"

section \<open>Tokens\<close>

datatype token = Eof | TagStart | TagAttribute | TagEnd | PIStart | PIAttribute | Comment | Text | Null | Error

datatype whitespace_mode = TrimWS | SingleWS | AllWS

text \<open>The virtual methods of \<open>BaseReader\<close> that the parser calls.\<close>

record 'r base_reader =
  br_readNext :: "('r, token) action"
  br_getTag :: "'r \<Rightarrow> string"
  br_getName :: "'r \<Rightarrow> string"
  br_getValue :: "'r \<Rightarrow> string"

section \<open>Characters of a stream\<close>

datatype encoding = Utf8 | Codepage | Utf16LE | Utf16BE

record 's char_source =
  cs_stream :: 's
  cs_buffer :: "octet list"
  cs_bufferPos :: nat
  cs_encoding :: encoding
  cs_codepage :: "codepage option"
  cs_haveCurrentCharacter :: bool
  cs_currentCharacter :: nat
  cs_charPos :: nat

definition Reader_refillBuffer :: "'s stream_ops \<Rightarrow> ('s char_source, unit) action" where
  "Reader_refillBuffer ops =
     bind (gets cs_buffer) (\<lambda>b.
     if b \<noteq> [] then throw AssertionFailed
     else bind (zoom cs_stream (\<lambda>s c. c\<lparr>cs_stream := s\<rparr>) (s_read ops 1024)) (\<lambda>d.
          modify (\<lambda>c. c\<lparr>cs_buffer := d\<rparr>)))"

definition Reader_readByte :: "'s stream_ops \<Rightarrow> ('s char_source, nat option) action" where
  "Reader_readByte ops =
     bind (gets cs_buffer) (\<lambda>b.
     bind (if b = [] then Reader_refillBuffer ops else ret ()) (\<lambda>_.
     bind (gets cs_buffer) (\<lambda>b.
       case b of
         [] \<Rightarrow> ret None
       | x # xs \<Rightarrow> bind (modify (\<lambda>c. c\<lparr>cs_buffer := xs, cs_bufferPos := cs_bufferPos c + 1\<rparr>)) (\<lambda>_. ret (Some (of_char x))))))"

definition haveChar :: "nat \<Rightarrow> ('s char_source, unit) action" where
  "haveChar ch = modify (\<lambda>c. c\<lparr>cs_currentCharacter := ch, cs_haveCurrentCharacter := True\<rparr>)"

definition noChar :: "('s char_source, unit) action" where
  "noChar = modify (\<lambda>c. c\<lparr>cs_haveCurrentCharacter := False\<rparr>)"

text \<open>Shifts and masks are written as multiplication and remainder.\<close>

definition readNextChar :: "'s stream_ops \<Rightarrow> ('s char_source, unit) action" where
  "readNextChar ops =
     bind (modify (\<lambda>c. c\<lparr>cs_charPos := cs_bufferPos c\<rparr>)) (\<lambda>_.
     bind (gets cs_encoding) (\<lambda>encoding.
     bind (gets cs_codepage) (\<lambda>codepage.
     bind (Reader_readByte ops) (\<lambda>a.
     case a of
       None \<Rightarrow> noChar
     | Some a \<Rightarrow>
         (case encoding of
            Codepage \<Rightarrow>
              haveChar (case codepage of None \<Rightarrow> a | Some cp \<Rightarrow> if a \<ge> 0x80 then cp ! (a - 0x80) else a)
          | Utf8 \<Rightarrow>
              if a \<ge> 0xC0 \<and> a < 0xE0 then
                bind (Reader_readByte ops) (\<lambda>b. case b of
                  None \<Rightarrow> noChar
                | Some b \<Rightarrow> haveChar (a mod 32 * 64 + b mod 64))
              else if a \<ge> 0xE0 \<and> a < 0xF0 then
                bind (Reader_readByte ops) (\<lambda>b. case b of
                  None \<Rightarrow> noChar
                | Some b \<Rightarrow> bind (Reader_readByte ops) (\<lambda>c. case c of
                    None \<Rightarrow> noChar
                  | Some c \<Rightarrow> haveChar (a mod 16 * 4096 + b mod 64 * 64 + c mod 64)))
              else haveChar a
          | Utf16BE \<Rightarrow>
              bind (Reader_readByte ops) (\<lambda>b. case b of None \<Rightarrow> noChar | Some b \<Rightarrow> haveChar (256 * a + b))
          | Utf16LE \<Rightarrow>
              bind (Reader_readByte ops) (\<lambda>b. case b of None \<Rightarrow> noChar | Some b \<Rightarrow> haveChar (256 * b + a)))))))"

definition detectEncoding :: "'s char_source \<Rightarrow> 's char_source" where
  "detectEncoding c =
     (let b = map of_char (cs_buffer c) :: nat list
      in if length b \<ge> 2 then
           if length b \<ge> 3 \<and> b ! 0 = 0xEF \<and> b ! 1 = 0xBB \<and> b ! 2 = 0xBF
           then c\<lparr>cs_encoding := Utf8, cs_buffer := drop 3 (cs_buffer c)\<rparr>
           else if b ! 0 = 0xFE \<and> b ! 1 = 0xFF then c\<lparr>cs_encoding := Utf16BE, cs_buffer := drop 2 (cs_buffer c)\<rparr>
           else if b ! 0 = 0xFF \<and> b ! 1 = 0xFE then c\<lparr>cs_encoding := Utf16LE, cs_buffer := drop 2 (cs_buffer c)\<rparr>
           else if b ! 0 = 0 \<and> b ! 1 \<noteq> 0 then c\<lparr>cs_encoding := Utf16BE\<rparr>
           else if b ! 0 \<noteq> 0 \<and> b ! 1 = 0 then c\<lparr>cs_encoding := Utf16LE\<rparr>
           else c\<lparr>cs_encoding := Utf8\<rparr>
         else c\<lparr>cs_encoding := Utf8\<rparr>)"

section \<open>Reader\<close>

datatype lex_state = Main | InTag | InPI

text \<open>\<open>rd_tmp\<close> is the local string of \<open>readNextToken\<close>.\<close>

record 's reader =
  rd_source :: "'s char_source"
  rd_whitespaceMode :: whitespace_mode
  rd_state :: lex_state
  rd_tag :: string
  rd_name :: string
  rd_value :: string
  rd_tmp :: string
  rd_tagPos :: nat

text \<open>
  A reader uses a stream, an entity handler and a factory for character sets. Of a character set it only asks
  whether it is a code page; \<open>Utf8Charset\<close> stands for all others.
\<close>

datatype charset = CodepageCharset codepage | Utf8Charset

record 's reader_env =
  re_stream :: "'s stream_ops"
  re_expandEntityReference :: "string \<Rightarrow> string"
  re_createCharset :: "string \<Rightarrow> charset option"

definition nextChar :: "'s reader_env \<Rightarrow> ('s reader, unit) action" where
  "nextChar env = zoom rd_source (\<lambda>c r. r\<lparr>rd_source := c\<rparr>) (readNextChar (re_stream env))"

abbreviation haveCurrent :: "'s reader \<Rightarrow> bool" where "haveCurrent r \<equiv> cs_haveCurrentCharacter (rd_source r)"
abbreviation current :: "'s reader \<Rightarrow> nat" where "current r \<equiv> cs_currentCharacter (rd_source r)"

datatype char_class =
    WhitespaceChar | LTChar | GTChar | EQChar | BangChar | QuesChar | SlashChar | MinusChar | LBracketChar | AnyChar
  | ProcessQuotes

definition classOf :: "nat \<Rightarrow> char_class" where
  "classOf ch =
     (if ch \<le> 0x20 \<or> ch = 0x85 \<or> ch = 0x2028 then WhitespaceChar
      else if ch = 0x3C then LTChar
      else if ch = 0x3E then GTChar
      else if ch = 0x3D then EQChar
      else if ch = 0x21 then BangChar
      else if ch = 0x3F then QuesChar
      else if ch = 0x2F then SlashChar
      else if ch = 0x2D then MinusChar
      else if ch = 0x5B then LBracketChar
      else AnyChar)"

text \<open>The string a sequence of characters is appended to.\<close>

datatype accum = NoAccum | ToTag | ToName | ToValue | ToTmp

fun appendTo :: "accum \<Rightarrow> string \<Rightarrow> 's reader \<Rightarrow> 's reader" where
  "appendTo NoAccum s r = r"
| "appendTo ToTag s r = r\<lparr>rd_tag := rd_tag r @ s\<rparr>"
| "appendTo ToName s r = r\<lparr>rd_name := rd_name r @ s\<rparr>"
| "appendTo ToValue s r = r\<lparr>rd_value := rd_value r @ s\<rparr>"
| "appendTo ToTmp s r = r\<lparr>rd_tmp := rd_tmp r @ s\<rparr>"

text \<open>The loop of \<open>readCharacterSequence\<close>; \<open>currentQuote\<close> is 0 outside quotes.\<close>

fun readSequence :: "'s reader_env \<Rightarrow> char_class set \<Rightarrow> accum \<Rightarrow> nat \<Rightarrow> nat \<Rightarrow> nat \<Rightarrow> ('s reader, nat) action" where
  "readSequence env acceptClasses accum 0 count currentQuote = throw NoReturn"
| "readSequence env acceptClasses accum (Suc fuel) count currentQuote = (\<lambda>r.
      if haveCurrent r then
        if currentQuote \<noteq> 0 \<and> current r = currentQuote then
          bind (nextChar env) (\<lambda>_. readSequence env acceptClasses accum fuel count 0) r
        else if ProcessQuotes \<in> acceptClasses \<and> currentQuote = 0 \<and> (current r = 0x22 \<or> current r = 0x27) then
          bind (nextChar env) (\<lambda>_. readSequence env acceptClasses accum fuel count (current r)) r
        else if classOf (current r) \<in> acceptClasses \<or> currentQuote \<noteq> 0 then
          bind (nextChar env) (\<lambda>_. readSequence env acceptClasses accum fuel (count + 1) currentQuote)
            (appendTo accum (Utf8_append {} [] (current r)) r)
        else (Inr count, r)
      else (Inr count, r))"

definition readCharacterSequence :: "nat \<Rightarrow> 's reader_env \<Rightarrow> char_class set \<Rightarrow> accum \<Rightarrow> ('s reader, nat) action" where
  "readCharacterSequence fuel env acceptClasses accum = readSequence env acceptClasses accum fuel 0 0"

text \<open>\<open>readUnparsedCharacterData\<close> to \<open>m_value\<close>; \<open>n\<close> is the number of brackets seen.\<close>

fun readUnparsed :: "'s reader_env \<Rightarrow> nat \<Rightarrow> nat \<Rightarrow> ('s reader, unit) action" where
  "readUnparsed env 0 n = throw NoReturn"
| "readUnparsed env (Suc fuel) n = (\<lambda>r.
      if haveCurrent r then
        if n = 0 then
          if current r = 0x5D then bind (nextChar env) (\<lambda>_. readUnparsed env fuel 1) r
          else bind (nextChar env) (\<lambda>_. readUnparsed env fuel 0) (appendTo ToValue (Utf8_append {} [] (current r)) r)
        else if n = 1 then
          if current r = 0x5D then bind (nextChar env) (\<lambda>_. readUnparsed env fuel 2) r
          else bind (nextChar env) (\<lambda>_. readUnparsed env fuel 0)
                 (appendTo ToValue ('']'' @ Utf8_append {} [] (current r)) r)
        else if current r = 0x3E then nextChar env r
        else if current r = 0x5D then bind (nextChar env) (\<lambda>_. readUnparsed env fuel 2) (appendTo ToValue '']'' r)
        else bind (nextChar env) (\<lambda>_. readUnparsed env fuel 0)
               (appendTo ToValue ('']]'' @ Utf8_append {} [] (current r)) r)
      else (Inr (), r))"

text \<open>On the part of the string that is not expanded yet.\<close>

function expandEntities :: "(string \<Rightarrow> string) \<Rightarrow> string \<Rightarrow> string" where
  "expandEntities expandEntityReference s =
     (let prefix = takeWhile (\<lambda>c. c \<noteq> CHR ''&'') s;
          reference = takeWhile (\<lambda>c. c \<noteq> CHR '';'') (drop (length prefix) s);
          q = length prefix + length reference
      in if q < length s
         then prefix @ expandEntityReference (drop 1 reference) @ expandEntities expandEntityReference (drop (q + 1) s)
         else s)"
  by pat_completeness auto

termination by (relation "measure (\<lambda>(f, s). length s)") auto

declare expandEntities.simps [simp del]

abbreviation setState :: "lex_state \<Rightarrow> ('s reader, unit) action" where
  "setState st \<equiv> modify (\<lambda>r. r\<lparr>rd_state := st\<rparr>)"
abbreviation clearTag :: "('s reader, unit) action" where "clearTag \<equiv> modify (\<lambda>r. r\<lparr>rd_tag := []\<rparr>)"
abbreviation clearName :: "('s reader, unit) action" where "clearName \<equiv> modify (\<lambda>r. r\<lparr>rd_name := []\<rparr>)"
abbreviation clearValue :: "('s reader, unit) action" where "clearValue \<equiv> modify (\<lambda>r. r\<lparr>rd_value := []\<rparr>)"

text \<open>The end of a tag: everything up to and including the closing angle bracket.\<close>

definition skipTag :: "nat \<Rightarrow> 's reader_env \<Rightarrow> ('s reader, unit) action" where
  "skipTag fuel env = bind (readCharacterSequence fuel env (- {GTChar}) NoAccum) (\<lambda>_. nextChar env)"

text \<open>The loop over the content of a comment.\<close>

fun commentLoop :: "'s reader_env \<Rightarrow> nat \<Rightarrow> bool \<Rightarrow> ('s reader, unit) action" where
  "commentLoop env 0 loop = throw NoReturn"
| "commentLoop env (Suc fuel) loop =
     bind (if loop then modify (appendTo ToValue ''-'') else ret ()) (\<lambda>_.
     bind (readCharacterSequence fuel env (- {MinusChar, ProcessQuotes}) ToValue) (\<lambda>_.
     bind (gets current) (\<lambda>ch.
     if ch = 0x2D
     then bind (readCharacterSequence fuel env {MinusChar} NoAccum) (\<lambda>n.
          if n < 2 then commentLoop env fuel True else ret ())
     else ret ())))"

definition isWhitespaceOnly :: "string \<Rightarrow> bool" where
  "isWhitespaceOnly s \<longleftrightarrow> list_all (\<lambda>c. c \<in> {CHR 0x0D, CHR 0x0A, CHR 0x09, CHR 0x20}) s"

text \<open>After the opening angle bracket and an exclamation mark.\<close>

definition readBang :: "nat \<Rightarrow> 's reader_env \<Rightarrow> ('s reader, token) action" where
  "readBang fuel env =
     bind (nextChar env) (\<lambda>_. \<lambda>r.
     if \<not> haveCurrent r then (Inr Eof, r)
     else if current r = 0x5B then
       bind (modify (\<lambda>r. r\<lparr>rd_tmp := []\<rparr>)) (\<lambda>_.
       bind (nextChar env) (\<lambda>_.
       bind (readCharacterSequence fuel env (- {LBracketChar, ProcessQuotes}) ToTmp) (\<lambda>_.
       bind (gets rd_tmp) (\<lambda>tmp.
       if tmp = ''CDATA''
       then bind (nextChar env) (\<lambda>_. bind clearValue (\<lambda>_. bind (readUnparsed env fuel 0) (\<lambda>_. ret Text)))
       else bind (skipTag fuel env) (\<lambda>_. ret Error))))) r
     else if current r = 0x2D then
       bind clearValue (\<lambda>_.
       bind (readCharacterSequence fuel env {MinusChar} NoAccum) (\<lambda>n.
       bind (if n \<ge> 2 then commentLoop env fuel False else ret ()) (\<lambda>_.
       bind (skipTag fuel env) (\<lambda>_. ret Comment)))) r
     else bind (skipTag fuel env) (\<lambda>_. ret Null) r)"

text \<open>After the opening angle bracket.\<close>

definition readMarkup :: "nat \<Rightarrow> 's reader_env \<Rightarrow> ('s reader, token) action" where
  "readMarkup fuel env =
     bind (readCharacterSequence fuel env {WhitespaceChar} NoAccum) (\<lambda>_. \<lambda>r.
     if \<not> haveCurrent r then (Inr Eof, r)
     else if current r = 0x3F then
       bind (nextChar env) (\<lambda>_.
       bind clearTag (\<lambda>_.
       bind (readCharacterSequence fuel env {WhitespaceChar} NoAccum) (\<lambda>_.
       bind (readCharacterSequence fuel env (- {WhitespaceChar, GTChar, QuesChar}) ToTag) (\<lambda>_.
       bind (setState InPI) (\<lambda>_. ret PIStart))))) r
     else if current r = 0x2F then
       bind (nextChar env) (\<lambda>_.
       bind clearTag (\<lambda>_.
       bind (readCharacterSequence fuel env {WhitespaceChar} NoAccum) (\<lambda>_.
       bind (readCharacterSequence fuel env (- {WhitespaceChar, GTChar}) ToTag) (\<lambda>_.
       bind (skipTag fuel env) (\<lambda>_. ret TagEnd))))) r
     else if current r = 0x21 then readBang fuel env r
     else
       bind clearTag (\<lambda>_.
       bind (readCharacterSequence fuel env (- {WhitespaceChar, GTChar, SlashChar}) ToTag) (\<lambda>_.
       bind (setState InTag) (\<lambda>_. ret TagStart))) r)"

text \<open>Text that only consists of white-space is treated as the mode says.\<close>

definition finishText :: "'s reader_env \<Rightarrow> 's reader \<Rightarrow> 's reader" where
  "finishText env r =
     (if rd_whitespaceMode r \<noteq> AllWS \<and> isWhitespaceOnly (rd_value r)
      then r\<lparr>rd_value := if rd_whitespaceMode r = SingleWS then '' '' else []\<rparr>
      else r\<lparr>rd_value := expandEntities (re_expandEntityReference env) (rd_value r)\<rparr>)"

definition readMain :: "nat \<Rightarrow> 's reader_env \<Rightarrow> ('s reader, token) action" where
  "readMain fuel env = (\<lambda>r.
     if current r = 0x3C then bind (nextChar env) (\<lambda>_. readMarkup fuel env) r
     else
       bind clearValue (\<lambda>_.
       bind (readCharacterSequence fuel env (- {LTChar, ProcessQuotes}) ToValue) (\<lambda>_.
       bind (modify (finishText env)) (\<lambda>_. ret Text))) r)"

text \<open>An attribute of a tag, in parts: after its name, and the whole.\<close>

definition readTagValue :: "nat \<Rightarrow> 's reader_env \<Rightarrow> ('s reader, token) action" where
  "readTagValue fuel env = (\<lambda>r.
     if \<not> haveCurrent r then (Inr Eof, r)
     else if current r = 0x3D then
       bind (nextChar env) (\<lambda>_.
       bind clearValue (\<lambda>_.
       bind (readCharacterSequence fuel env {WhitespaceChar} NoAccum) (\<lambda>_.
       bind (readCharacterSequence fuel env (- {WhitespaceChar, GTChar, SlashChar}) ToValue) (\<lambda>_.
       bind (modify (\<lambda>r. r\<lparr>rd_value := expandEntities (re_expandEntityReference env) (rd_value r)\<rparr>)) (\<lambda>_.
       ret TagAttribute))))) r
     else (Inr TagAttribute, r\<lparr>rd_value := rd_name r\<rparr>))"

definition readTagAttribute :: "nat \<Rightarrow> 's reader_env \<Rightarrow> ('s reader, token) action" where
  "readTagAttribute fuel env =
     bind clearName (\<lambda>_.
     bind (readCharacterSequence fuel env (- {WhitespaceChar, EQChar, GTChar, SlashChar}) ToName) (\<lambda>_.
     bind (readCharacterSequence fuel env {WhitespaceChar} NoAccum) (\<lambda>_. readTagValue fuel env)))"

definition readInTag :: "nat \<Rightarrow> 's reader_env \<Rightarrow> ('s reader, token) action" where
  "readInTag fuel env =
     bind (readCharacterSequence fuel env {WhitespaceChar} NoAccum) (\<lambda>_. \<lambda>r.
     if \<not> haveCurrent r then (Inr Eof, r)
     else if current r = 0x2F then
       bind (skipTag fuel env) (\<lambda>_. bind (setState Main) (\<lambda>_. ret TagEnd)) r
     else if current r = 0x3E then
       bind (nextChar env) (\<lambda>_. bind (setState Main) (\<lambda>_. ret Null)) r
     else readTagAttribute fuel env r)"

text \<open>The encoding attribute of the XML declaration.\<close>

definition checkEncoding :: "'s reader_env \<Rightarrow> 's reader \<Rightarrow> 's reader" where
  "checkEncoding env r =
     (if (cs_encoding (rd_source r) = Utf8 \<or> cs_encoding (rd_source r) = Codepage) \<and> rd_tag r = ''xml'' \<and> rd_name r = ''encoding''
      then r\<lparr>rd_source :=
        (case re_createCharset env (rd_value r) of
           Some (CodepageCharset cp) \<Rightarrow> (rd_source r)\<lparr>cs_codepage := Some cp, cs_encoding := Codepage\<rparr>
         | _ \<Rightarrow> (rd_source r)\<lparr>cs_codepage := None, cs_encoding := Utf8\<rparr>)\<rparr>
      else r)"

definition readPIValue :: "nat \<Rightarrow> 's reader_env \<Rightarrow> ('s reader, token) action" where
  "readPIValue fuel env = (\<lambda>r.
     if \<not> haveCurrent r then (Inr Eof, r)
     else
       bind (if current r = 0x3D then
               bind (nextChar env) (\<lambda>_.
               bind clearValue (\<lambda>_.
               bind (readCharacterSequence fuel env {WhitespaceChar} NoAccum) (\<lambda>_.
               bind (readCharacterSequence fuel env (- {WhitespaceChar, QuesChar, GTChar}) ToValue) (\<lambda>_. ret ()))))
             else modify (\<lambda>r. r\<lparr>rd_value := rd_name r\<rparr>)) (\<lambda>_.
       bind (modify (checkEncoding env)) (\<lambda>_. ret PIAttribute)) r)"

definition readPIAttribute :: "nat \<Rightarrow> 's reader_env \<Rightarrow> ('s reader, token) action" where
  "readPIAttribute fuel env =
     bind clearName (\<lambda>_.
     bind (readCharacterSequence fuel env (- {WhitespaceChar, EQChar, QuesChar, GTChar}) ToName) (\<lambda>_.
     bind (readCharacterSequence fuel env {WhitespaceChar} NoAccum) (\<lambda>_. readPIValue fuel env)))"

definition readInPI :: "nat \<Rightarrow> 's reader_env \<Rightarrow> ('s reader, token) action" where
  "readInPI fuel env =
     bind (readCharacterSequence fuel env {WhitespaceChar} NoAccum) (\<lambda>_. \<lambda>r.
     if \<not> haveCurrent r then (Inr Eof, r)
     else if current r = 0x3F \<or> current r = 0x3E then
       bind (skipTag fuel env) (\<lambda>_. bind (setState Main) (\<lambda>_. ret Null)) r
     else readPIAttribute fuel env r)"

definition readNextToken :: "nat \<Rightarrow> 's reader_env \<Rightarrow> ('s reader, token) action" where
  "readNextToken fuel env = (\<lambda>r.
     if \<not> haveCurrent r then (Inr Eof, r)
     else
       bind (modify (\<lambda>r. r\<lparr>rd_tagPos := cs_charPos (rd_source r)\<rparr>)) (\<lambda>_.
       bind (gets rd_state) (\<lambda>st.
       case st of Main \<Rightarrow> readMain fuel env | InTag \<Rightarrow> readInTag fuel env | InPI \<Rightarrow> readInPI fuel env)) r)"

fun Reader_readNext :: "nat \<Rightarrow> 's reader_env \<Rightarrow> ('s reader, token) action" where
  "Reader_readNext 0 env = throw NoReturn"
| "Reader_readNext (Suc fuel) env =
     bind (readNextToken fuel env) (\<lambda>t.
     bind (gets rd_value) (\<lambda>v.
     if t = Null \<or> t = Text \<and> v = [] then Reader_readNext fuel env else ret t))"

definition Reader_new :: "'s reader_env \<Rightarrow> 's \<Rightarrow> unit result \<times> 's reader" where
  "Reader_new env s =
     bind (zoom (\<lambda>r. cs_stream (rd_source r)) (\<lambda>s r. r\<lparr>rd_source := (rd_source r)\<lparr>cs_stream := s\<rparr>\<rparr>) (s_getPos (re_stream env))) (\<lambda>pos.
     bind (modify (\<lambda>r. r\<lparr>rd_source := (rd_source r)\<lparr>cs_bufferPos := pos\<rparr>\<rparr>)) (\<lambda>_.
     bind (zoom rd_source (\<lambda>c r. r\<lparr>rd_source := c\<rparr>) (Reader_refillBuffer (re_stream env))) (\<lambda>_.
     bind (modify (\<lambda>r. r\<lparr>rd_source := detectEncoding (rd_source r)\<rparr>)) (\<lambda>_.
     nextChar env))))
     \<lparr>rd_source = \<lparr>cs_stream = s, cs_buffer = [], cs_bufferPos = 0, cs_encoding = Utf8, cs_codepage = None,
        cs_haveCurrentCharacter = False, cs_currentCharacter = 0, cs_charPos = 0\<rparr>,
      rd_whitespaceMode = TrimWS, rd_state = Main, rd_tag = [], rd_name = [], rd_value = [], rd_tmp = [], rd_tagPos = 0\<rparr>"

definition Reader_setPos :: "'s reader_env \<Rightarrow> nat \<Rightarrow> ('s reader, unit) action" where
  "Reader_setPos env pos =
     bind (zoom (\<lambda>r. cs_stream (rd_source r)) (\<lambda>s r. r\<lparr>rd_source := (rd_source r)\<lparr>cs_stream := s\<rparr>\<rparr>) (s_setPos (re_stream env) pos)) (\<lambda>_.
     bind (modify (\<lambda>r. r\<lparr>rd_source := (rd_source r)\<lparr>cs_bufferPos := pos, cs_charPos := pos, cs_buffer := []\<rparr>, rd_tagPos := pos, rd_state := Main\<rparr>)) (\<lambda>_.
     nextChar env))"

definition setWhitespaceMode :: "whitespace_mode \<Rightarrow> 's reader \<Rightarrow> 's reader" where
  "setWhitespaceMode mode r = r\<lparr>rd_whitespaceMode := mode\<rparr>"

definition Reader_ops :: "nat \<Rightarrow> 's reader_env \<Rightarrow> 's reader base_reader" where
  "Reader_ops fuel env =
     \<lparr>br_readNext = Reader_readNext fuel env, br_getTag = rd_tag, br_getName = rd_name, br_getValue = rd_value\<rparr>"

section \<open>Entities and character sets\<close>

text \<open>\<open>strtoul\<close> with base 16: white-space, a sign, a prefix, digits.\<close>

definition hex_value :: "string \<Rightarrow> nat" where
  "hex_value ds = foldl (\<lambda>n c. 16 * n + nat (getHexDigitValue c)) 0 ds"

definition c_strtoul16 :: "string \<Rightarrow> nat" where
  "c_strtoul16 c =
     (let k = scanWhile c_isspace c 0;
          neg = (k < length c \<and> c ! k = CHR ''-'');
          k = (if k < length c \<and> (c ! k = CHR ''+'' \<or> c ! k = CHR ''-'') then k + 1 else k);
          digit = (\<lambda>c. getHexDigitValue c \<noteq> -1);
          k = (if k + 2 < length c \<and> c ! k = CHR ''0'' \<and> c ! (k + 1) \<in> {CHR ''x'', CHR ''X''} \<and> digit (c ! (k + 2)) then k + 2 else k);
          v = hex_value (takeWhile digit (drop k c))
      in if ULONG_MAX < v then ULONG_MAX else if neg then (size_mod - v) mod size_mod else v)"

definition expandEntityReference :: "string \<Rightarrow> string" where
  "expandEntityReference name =
     (if name = [] then []
      else if name ! 0 = CHR ''#'' then
        if length name > 2 \<and> name ! 1 = CHR ''x''
        then Utf8_append {} [] (c_strtoul16 (c_str (drop 2 name)) mod 2 ^ 32)
        else Utf8_append {} [] (fst (c_strtoul (c_str (drop 1 name))) mod 2 ^ 32)
      else if name = ''lt'' then ''<''
      else if name = ''gt'' then ''>''
      else if name = ''apos'' then [CHR 0x27]
      else if name = ''quot'' then [CHR 0x22]
      else if name = ''amp'' then ''&''
      else if name = ''nbsp'' then [CHR 0xC2, CHR 0xA0]
      else name)"

definition createCharset :: "string \<Rightarrow> charset option" where
  "createCharset name =
     (let name = filter (\<lambda>c. c \<noteq> CHR ''-'') name;
          is = (\<lambda>s. strCaseCompare name s = 0)
      in if is ''cp1250'' \<or> is ''windows1250'' then Some (CodepageCharset g_codepage1250)
         else if is ''cp1251'' \<or> is ''windows1251'' then Some (CodepageCharset g_codepage1251)
         else if is ''cp1252'' \<or> is ''windows1252'' then Some (CodepageCharset g_codepage1252)
         else if is ''cp437'' \<or> is ''ibm437'' then Some (CodepageCharset g_codepage437)
         else if is ''cp850'' \<or> is ''ibm850'' then Some (CodepageCharset g_codepage850)
         else if is ''cp852'' \<or> is ''ibm852'' then Some (CodepageCharset g_codepage852)
         else if is ''cp866'' \<or> is ''ibm866'' then Some (CodepageCharset g_codepage866)
         else if is ''koi8r'' then Some (CodepageCharset g_codepageKOI8R)
         else if is ''latin1'' \<or> is ''iso88591'' \<or> is ''ansi'' then Some (CodepageCharset g_codepageLatin1)
         else if is ''latin2'' \<or> is ''iso88592'' then Some (CodepageCharset g_codepageLatin2)
         else if is ''utf8'' then Some Utf8Charset
         else None)"

section \<open>Reading from a tree\<close>

record node_data =
  nd_tag :: string
  nd_name :: string
  nd_value :: string

datatype tag_state = TagOpen | TagAttributes | TagContent | TagClose | TagDone
datatype pi_state = PIOpen | PIAttributes | PIDone

datatype worker =
    TagWorker named "node list" tag_state nat "worker option"
  | PIWorker named pi_state nat
  | TextWorker string bool

fun makeWorker :: "node \<Rightarrow> worker" where
  "makeWorker (PINode n) = PIWorker n PIOpen 0"
| "makeWorker (TagNode n ch) = TagWorker n ch TagOpen 0 None"
| "makeWorker (TextNode s) = TextWorker s False"

text \<open>An upper bound for the work a worker has left.\<close>

primrec weight :: "worker \<Rightarrow> nat" where
  "weight (TagWorker n ch st i child) =
     Suc (sum_list (map (\<lambda>c. 3 * size c + 3) (drop (if st = TagContent then i else 0) ch)) + (case map_option weight child of None \<Rightarrow> 0 | Some w \<Rightarrow> Suc w))"
| "weight (PIWorker n st i) = 1"
| "weight (TextWorker s d) = 1"

lemma weight_makeWorker: "Suc (weight (makeWorker n)) < 3 * size n + 3"
proof (cases n)
  case (TagNode x2 ch)
  have "sum_list (map (\<lambda>c. 3 * size c + 3) ch) \<le> 3 * size_list size ch" by (induction ch) auto
  then show ?thesis using TagNode by simp
qed auto

lemma sum_list_drop: "i < length xs \<Longrightarrow> sum_list (map f (drop i xs)) = f (xs ! i) + sum_list (map f (drop (Suc i) xs) :: nat list)"
  by (simp flip: Cons_nth_drop_Suc)

lemma weight_next:
  assumes "i < length ch"
  shows "weight (TagWorker n ch TagContent (Suc i) (Some (makeWorker (ch ! i)))) < weight (TagWorker n ch TagContent i None)"
  using weight_makeWorker [of "ch ! i"] sum_list_drop [of i ch "\<lambda>c. 3 * size c + 3"] assms by simp

function Worker_readNext :: "whitespace_mode \<Rightarrow> worker \<Rightarrow> node_data \<Rightarrow> token \<times> worker \<times> node_data"
  and TagWorker_content :: "whitespace_mode \<Rightarrow> named \<Rightarrow> node list \<Rightarrow> nat \<Rightarrow> worker option \<Rightarrow> node_data \<Rightarrow> token \<times> worker \<times> node_data"
where
  "Worker_readNext mode (TagWorker n ch st i child) d =
     (if st = TagOpen then (TagStart, TagWorker n ch TagAttributes 0 child, d\<lparr>nd_tag := nn_name n\<rparr>)
      else if st = TagAttributes \<and> i < getNumNames (nn_attributeNames n) then
        (TagAttribute, TagWorker n ch TagAttributes (i + 1) child,
         d\<lparr>nd_tag := nn_name n, nd_name := getNameByIndex (nn_attributeNames n) i, nd_value := getAttributeByIndex n i\<rparr>)
      else if st = TagAttributes then
        TagWorker_content mode n ch 0 child d
      else if st = TagContent then TagWorker_content mode n ch i child d
      else if st = TagClose then (TagEnd, TagWorker n ch TagDone i child, d\<lparr>nd_tag := nn_name n\<rparr>)
      else (Eof, TagWorker n ch st i child, d))"
| "Worker_readNext mode (PIWorker n st i) d =
     (if st = PIOpen then (PIStart, PIWorker n PIAttributes 0, d\<lparr>nd_tag := nn_name n\<rparr>)
      else if st = PIAttributes \<and> i < getNumNames (nn_attributeNames n) then
        (PIAttribute, PIWorker n PIAttributes (i + 1),
         d\<lparr>nd_tag := nn_name n, nd_name := getNameByIndex (nn_attributeNames n) i, nd_value := getAttributeByIndex n i\<rparr>)
      else (Eof, if st = PIAttributes then PIWorker n PIDone 0 else PIWorker n st i, d))"
| "Worker_readNext mode (TextWorker s did) d =
     (if did then (Eof, TextWorker s True, d)
      else let d = d\<lparr>nd_value := s\<rparr>
           in if mode \<noteq> AllWS
              then if isWhitespaceOnly s \<and> mode = TrimWS then (Eof, TextWorker s True, d)
                   else (Text, TextWorker s True, d\<lparr>nd_value := '' ''\<rparr>)
              else (Text, TextWorker s True, d))"
| "TagWorker_content mode n ch i child d =
     (case child of
        Some w \<Rightarrow>
          (case Worker_readNext mode w d of (t, w, d) \<Rightarrow>
             if t \<noteq> Eof then (t, TagWorker n ch TagContent i (Some w), d)
             else TagWorker_content mode n ch i None d)
      | None \<Rightarrow>
          if i < length ch then TagWorker_content mode n ch (i + 1) (Some (makeWorker (ch ! i))) d
          else (TagEnd, TagWorker n ch TagDone i None, d\<lparr>nd_tag := nn_name n\<rparr>))"
  by pat_completeness auto

termination
  by (relation "measure (\<lambda>x. case x of Inl (mode, w, d) \<Rightarrow> Suc (2 * weight w)
    | Inr (mode, n, ch, i, child, d) \<Rightarrow> 2 * weight (TagWorker n ch TagContent i child))")
    (auto simp del: weight.simps simp: weight_next, simp_all)

declare Worker_readNext.simps [simp del] TagWorker_content.simps [simp del]

record node_reader =
  nr_nodes :: "node list"
  nr_worker :: "worker option"
  nr_whitespaceMode :: whitespace_mode
  nr_data :: node_data

definition NodeReader_init :: node_reader where
  "NodeReader_init = \<lparr>nr_nodes = [], nr_worker = None, nr_whitespaceMode = AllWS, nr_data = \<lparr>nd_tag = [], nd_name = [], nd_value = []\<rparr>\<rparr>"

definition addNode :: "node option \<Rightarrow> node_reader \<Rightarrow> node_reader" where
  "addNode p r = (case p of None \<Rightarrow> r | Some n \<Rightarrow> r\<lparr>nr_nodes := nr_nodes r @ [n]\<rparr>)"

function NodeReader_readNext :: "node_reader \<Rightarrow> token \<times> node_reader" where
  "NodeReader_readNext r =
     (case nr_worker r of
        Some w \<Rightarrow>
          (case Worker_readNext (nr_whitespaceMode r) w (nr_data r) of (t, w, d) \<Rightarrow>
             if t \<noteq> Eof then (t, r\<lparr>nr_worker := Some w, nr_data := d\<rparr>)
             else NodeReader_readNext (r\<lparr>nr_worker := None, nr_data := d\<rparr>))
      | None \<Rightarrow>
          (case nr_nodes r of
             [] \<Rightarrow> (Eof, r)
           | n # nodes \<Rightarrow> NodeReader_readNext (r\<lparr>nr_worker := Some (makeWorker n), nr_nodes := nodes\<rparr>)))"
  by pat_completeness auto

termination
  by (relation "measure (\<lambda>r. 2 * length (nr_nodes r) + (if nr_worker r = None then 0 else 1))") auto

declare NodeReader_readNext.simps [simp del]

definition NodeReader_ops :: "node_reader base_reader" where
  "NodeReader_ops =
     \<lparr>br_readNext = (\<lambda>r. case NodeReader_readNext r of (t, r) \<Rightarrow> (Inr t, r)),
      br_getTag = (\<lambda>r. nd_tag (nr_data r)), br_getName = (\<lambda>r. nd_name (nr_data r)), br_getValue = (\<lambda>r. nd_value (nr_data r))\<rparr>"

section \<open>Parser\<close>

record 'r parser =
  ps_reader :: 'r
  ps_token :: token

definition Parser_readNext :: "'r base_reader \<Rightarrow> ('r parser, unit) action" where
  "Parser_readNext br =
     bind (zoom ps_reader (\<lambda>x p. p\<lparr>ps_reader := x\<rparr>) (br_readNext br)) (\<lambda>t. modify (\<lambda>p. p\<lparr>ps_token := t\<rparr>))"

definition Parser_new :: "'r base_reader \<Rightarrow> 'r \<Rightarrow> unit result \<times> 'r parser" where
  "Parser_new br x = Parser_readNext br \<lparr>ps_reader = x, ps_token = Null\<rparr>"

text \<open>The loop over the attributes of a tag or a processing instruction.\<close>

fun parseAttributes :: "'r base_reader \<Rightarrow> token \<Rightarrow> nat \<Rightarrow> named \<Rightarrow> ('r parser, named) action" where
  "parseAttributes br t 0 n = throw NoReturn"
| "parseAttributes br t (Suc fuel) n = (\<lambda>p.
      if ps_token p = t then
        bind (Parser_readNext br) (\<lambda>_. parseAttributes br t fuel (setAttribute (br_getName br (ps_reader p)) (br_getValue br (ps_reader p)) n)) p
      else (Inr n, p))"

definition parsePI :: "nat \<Rightarrow> 'r base_reader \<Rightarrow> ('r parser, node) action" where
  "parsePI fuel br =
     bind (gets (\<lambda>p. br_getTag br (ps_reader p))) (\<lambda>tag.
     bind (Parser_readNext br) (\<lambda>_.
     bind (parseAttributes br PIAttribute fuel (NamedNode_init tag)) (\<lambda>n. ret (PINode n))))"

fun Parser_parse :: "nat \<Rightarrow> 'r base_reader \<Rightarrow> ('r parser, node option) action"
  and parseNodes :: "nat \<Rightarrow> 'r base_reader \<Rightarrow> node list \<Rightarrow> ('r parser, node list) action"
  and parseTag :: "nat \<Rightarrow> 'r base_reader \<Rightarrow> ('r parser, node) action"
where
  "Parser_parse 0 br = throw NoReturn"
| "Parser_parse (Suc fuel) br =
     bind (gets ps_token) (\<lambda>t.
     case t of
       Eof \<Rightarrow> ret None
     | TagStart \<Rightarrow> bind (parseTag fuel br) (\<lambda>n. ret (Some n))
     | TagEnd \<Rightarrow> ret None
     | PIStart \<Rightarrow> bind (parsePI fuel br) (\<lambda>n. ret (Some n))
     | TagAttribute \<Rightarrow> bind (Parser_readNext br) (\<lambda>_. Parser_parse fuel br)
     | PIAttribute \<Rightarrow> bind (Parser_readNext br) (\<lambda>_. Parser_parse fuel br)
     | Comment \<Rightarrow> bind (Parser_readNext br) (\<lambda>_. Parser_parse fuel br)
     | Text \<Rightarrow> bind (gets (\<lambda>p. br_getValue br (ps_reader p))) (\<lambda>v. bind (Parser_readNext br) (\<lambda>_. ret (Some (TextNode v))))
     | Null \<Rightarrow> ret None
     | Error \<Rightarrow> ret None)"
| "parseNodes 0 br nodes = throw NoReturn"
| "parseNodes (Suc fuel) br nodes =
     bind (Parser_parse fuel br) (\<lambda>p. case p of None \<Rightarrow> ret nodes | Some n \<Rightarrow> parseNodes fuel br (nodes @ [n]))"
| "parseTag 0 br = throw NoReturn"
| "parseTag (Suc fuel) br =
     bind (gets (\<lambda>p. br_getTag br (ps_reader p))) (\<lambda>tag.
     bind (Parser_readNext br) (\<lambda>_.
     bind (parseAttributes br TagAttribute fuel (NamedNode_init tag)) (\<lambda>n.
     bind (parseNodes fuel br []) (\<lambda>ch.
     bind (\<lambda>p. if ps_token p = TagEnd \<and> br_getTag br (ps_reader p) = nn_name n then Parser_readNext br p else (Inr (), p)) (\<lambda>_.
     ret (TagNode n ch))))))"

end
