(* ===== verification/Afl_Xml_Laws.thy ===== *)
theory Afl_Xml_Laws
  imports Afl_Xml Afl_Stream_Laws "HOL-Library.Sublist"
begin

text \<open>
  What the XML classes do.
\<close>

section \<open>Nodes\<close>

definition named_wf :: "named \<Rightarrow> bool" where
  "named_wf n \<longleftrightarrow> nm_wf (nn_attributeNames n) \<and> distinct (m_names (nn_attributeNames n)) \<and>
     length (nn_attributeValues n) = length (m_names (nn_attributeNames n))"

fun node_wf :: "node \<Rightarrow> bool" where
  "node_wf (PINode n) = named_wf n"
| "node_wf (TagNode n ch) = (named_wf n \<and> list_all node_wf ch)"
| "node_wf (TextNode s) = True"

lemma named_wf_init: "named_wf (NamedNode_init name)"
  by (simp add: named_wf_def NamedNode_init_def nm_wf_init) (simp add: NameMap_init_def)

lemma setAttribute_cases:
  assumes "named_wf n"
  shows "setAttribute name v n =
    (case lastIndex (m_names (nn_attributeNames n)) name of
       None \<Rightarrow> n\<lparr>nn_attributeNames := snd (NameMap_add name (nn_attributeNames n)), nn_attributeValues := nn_attributeValues n @ [v]\<rparr>
     | Some i \<Rightarrow> n\<lparr>nn_attributeValues := (nn_attributeValues n)[i := v]\<rparr>)"
  using assms lastIndex_Some_nth [of "m_names (nn_attributeNames n)" name]
  by (auto simp: setAttribute_def addMaybe_def getIndexByName_wf named_wf_def NameMap_add_def Let_def list_update_append split: option.split)

lemma named_wf_set:
  assumes "named_wf n"
  shows "named_wf (setAttribute name v n)"
proof (cases "lastIndex (m_names (nn_attributeNames n)) name")
  case None
  then have "name \<notin> set (m_names (nn_attributeNames n))" by (simp add: lastIndex_None)
  with None assms nm_wf_add [of "nn_attributeNames n" name] show ?thesis
    by (simp add: setAttribute_cases named_wf_def) (simp add: NameMap_add_def Let_def)
next
  case (Some i)
  with assms show ?thesis by (simp add: setAttribute_cases named_wf_def)
qed

text \<open>Setting an attribute and getting it.\<close>

lemma getAttributeByName_set:
  assumes "named_wf n"
  shows "getAttributeByName (setAttribute name v n) key = (if key = name then v else getAttributeByName n key)"
proof -
  let ?names = "m_names (nn_attributeNames n)"
  have wf: "nm_wf (nn_attributeNames n)" "length (nn_attributeValues n) = length ?names" using assms by (simp_all add: named_wf_def)
  have add: "getIndexByName (snd (NameMap_add name (nn_attributeNames n))) key = lastIndex (?names @ [name]) key"
    using getIndexByName_wf [OF nm_wf_add [OF wf(1)]] by (simp add: NameMap_add_def Let_def)
  show ?thesis
  proof (cases "lastIndex ?names name")
    case None
    then show ?thesis using assms add wf lastIndex_Some_nth [of ?names key]
      by (auto simp: setAttribute_cases getAttributeByName_def getAttributeByIndex_def getIndexByName_wf lastIndex_snoc nth_append split: option.split)
  next
    case (Some i)
    then show ?thesis using assms wf lastIndex_Some_nth [of ?names name] lastIndex_Some_nth [of ?names key]
      by (auto simp: setAttribute_cases getAttributeByName_def getAttributeByIndex_def getIndexByName_wf nth_list_update split: option.split)
  qed
qed

text \<open>What the parser builds, whatever the reader gives it.\<close>

lemma bind_Inr: "bind m f s = (Inr y, s'') \<longleftrightarrow> (\<exists>x s'. m s = (Inr x, s') \<and> f x s' = (Inr y, s''))"
  by (auto simp: bind_def split: prod.splits sum.splits)

lemma parseAttributes_wf: "parseAttributes br t fuel n p = (Inr n', p') \<Longrightarrow> named_wf n \<Longrightarrow> named_wf n'"
proof (induction fuel arbitrary: n p)
  case (Suc fuel)
  then show ?case by (auto simp: bind_Inr named_wf_set split: if_splits)
qed simp

lemma parsePI_wf: "parsePI fuel br p = (Inr n, p') \<Longrightarrow> node_wf n"
  using parseAttributes_wf named_wf_init by (fastforce simp: parsePI_def bind_Inr)

lemma parser_wf:
  shows "Parser_parse fuel br p = (Inr (Some n), p') \<Longrightarrow> node_wf n"
    and "parseNodes fuel br nodes p = (Inr nodes', p') \<Longrightarrow> list_all node_wf nodes \<Longrightarrow> list_all node_wf nodes'"
    and "parseTag fuel br p = (Inr n, p') \<Longrightarrow> node_wf n"
proof (induction fuel arbitrary: n p nodes nodes' p')
  case (Suc fuel)
  {
    case 1
    then show ?case using Suc.IH(1,3) parsePI_wf
      by (cases "ps_token p") (auto simp: bind_Inr)
  next
    case 2
    then show ?case using Suc.IH(1,2) by (fastforce simp: bind_Inr split: option.splits)
  next
    case 3
    then show ?case using Suc.IH(2) [of "[]"] parseAttributes_wf named_wf_init by (fastforce simp: bind_Inr)
  }
qed simp_all

section \<open>Characters\<close>

abbreviation enc :: "nat \<Rightarrow> octet list" where "enc ch \<equiv> Utf8_append {} [] ch"

definition encs :: "nat list \<Rightarrow> octet list" where "encs xs = concat (map enc xs)"

lemma encs_simps [simp]: "encs [] = []" "encs (x # xs) = enc x @ encs xs" "encs (xs @ ys) = encs xs @ encs ys"
  by (simp_all add: encs_def)

lemma extraBytes_2: "extraBytes 2 ch = [byte (0x80 + ch div 64 mod 64), byte (0x80 + ch mod 64)]"
proof -
  have "extraBytes (Suc (Suc 0)) ch = [byte (0x80 + ch div 2 ^ 6 mod 64), byte (0x80 + ch mod 64)]" by simp
  then show ?thesis by (simp flip: numeral_2_eq_2)
qed

lemma octet_bits: "q < 32 \<Longrightarrow> (192 + q) mod 32 = (q :: nat)" "q < 16 \<Longrightarrow> (224 + q) mod 16 = (q :: nat)" "(128 + q) mod 64 = (q mod 64 :: nat)"
  using mod_mult_self1 [of q 6 32] mod_mult_self1 [of q 14 16] mod_mult_self1 [of q 2 64] by (simp_all add: add.commute)

lemma two_octets: "ch < 0x800 \<Longrightarrow> (192 + ch div 64) mod 32 * 64 + (128 + ch mod 64) mod 64 = (ch :: nat)"
  by (simp add: octet_bits div_less_iff_less_mult)

lemma three_octets:
  assumes "ch < 0x10000"
  shows "(224 + ch div 4096) mod 16 * 4096 + (128 + ch div 64 mod 64) mod 64 * 64 + (128 + ch mod 64) mod 64 = (ch :: nat)"
proof -
  have a: "ch div 64 * 64 + ch mod 64 = ch" "ch div 4096 * 64 + ch div 64 mod 64 = ch div 64"
    using div_mult2_eq [of ch 64 64] div_mult_mod_eq [of "ch div 64" 64] by simp_all
  have "ch div 4096 * 4096 + ch div 64 mod 64 * 64 + ch mod 64 = ch" using a by arith
  then show ?thesis using assms by (simp add: octet_bits div_less_iff_less_mult)
qed

lemma readNextChar_utf8:
  assumes "cs_encoding c = Utf8" "Reader_readByte ops (c\<lparr>cs_charPos := cs_bufferPos c\<rparr>) = (Inr (Some a), c1)"
  shows "a < 0xC0 \<Longrightarrow> readNextChar ops c = haveChar a c1"
    and "0xC0 \<le> a \<Longrightarrow> a < 0xE0 \<Longrightarrow> Reader_readByte ops c1 = (Inr (Some b), c2) \<Longrightarrow> readNextChar ops c = haveChar (a mod 32 * 64 + b mod 64) c2"
    and "0xE0 \<le> a \<Longrightarrow> a < 0xF0 \<Longrightarrow> Reader_readByte ops c1 = (Inr (Some b), c2) \<Longrightarrow> Reader_readByte ops c2 = (Inr (Some d), c3) \<Longrightarrow>
      readNextChar ops c = haveChar (a mod 16 * 4096 + b mod 64 * 64 + d mod 64) c3"
  using assms by (simp_all add: readNextChar_def bind_eval)

lemma enc_cases:
  assumes "ch < 0x10000"
  shows "ch < 0x80 \<and> enc ch = [byte ch] \<or>
    0x80 \<le> ch \<and> ch < 0x800 \<and> enc ch = [byte (0xC0 + ch div 64), byte (0x80 + ch mod 64)] \<or>
    0x800 \<le> ch \<and> enc ch = [byte (0xE0 + ch div 4096), byte (0x80 + ch div 64 mod 64), byte (0x80 + ch mod 64)]"
  using assms by (auto simp: Utf8_append_def appendOne_def extraBytes_2)

lemma enc_octets:
  assumes "0 < x" "x < 0x10000" "a \<in> set (enc x)"
  shows "of_char a \<noteq> (0 :: nat) \<and> of_char a \<noteq> (0xFE :: nat) \<and> of_char a \<noteq> (0xFF :: nat)"
  using enc_cases [OF assms(2)] assms by auto

lemma byte_eq_iff: "m < 256 \<Longrightarrow> n < 256 \<Longrightarrow> byte m = byte n \<longleftrightarrow> m = n"
  by (metis of_char_byte)

lemma no_mark:
  assumes "encs xs = d @ e" "\<forall>x\<in>set xs. 0 < x \<and> x < 0x10000" "xs \<noteq> [] \<longrightarrow> hd xs \<noteq> 0xFEFF"
  shows "map of_char (take 3 d) \<noteq> [0xEF, 0xBB, 0xBF :: nat]"
proof
  assume m: "map of_char (take 3 d) = [0xEF, 0xBB, 0xBF :: nat]"
  have "take 3 d = map (\<lambda>c. byte (of_char c)) (take 3 d)" by simp
  also have "\<dots> = [byte 0xEF, byte 0xBB, byte 0xBF]" using arg_cong [OF m, of "map byte"] by (simp add: comp_def)
  finally obtain d' where d: "d = [byte 0xEF, byte 0xBB, byte 0xBF] @ d'" by (metis append_take_drop_id)
  then obtain x ys where xs: "xs = x # ys" using assms(1) by (cases xs) auto
  then have "enc x @ encs ys = [byte 0xEF, byte 0xBB, byte 0xBF] @ d' @ e" using d assms(1) by simp
  then show False using enc_cases [of x] three_octets [of x] xs assms(2,3) by (auto simp: byte_eq_iff)
qed

text \<open>The octets that are still to be read, in the buffer and in the stream.\<close>

definition remains :: "('s \<Rightarrow> (octet list \<times> nat \<times> nat) option) \<Rightarrow> 's char_source \<Rightarrow> octet list \<Rightarrow> bool" where
  "remains view c bs \<longleftrightarrow> (\<exists>f p q. view (cs_stream c) = Some (f, p, q) \<and> bs = cs_buffer c @ drop p f)"

text \<open>
  The characters that are still to come, with the current one first; \<open>z\<close> is the last character of the
  document, which stays in \<open>m_currentCharacter\<close> at the end.
\<close>

definition upcoming :: "('s \<Rightarrow> (octet list \<times> nat \<times> nat) option) \<Rightarrow> nat \<Rightarrow> nat list \<Rightarrow> 's char_source \<Rightarrow> bool" where
  "upcoming view z xs c \<longleftrightarrow>
     remains view c (encs (tl xs)) \<and> cs_encoding c = Utf8 \<and> cs_haveCurrentCharacter c = (xs \<noteq> []) \<and>
     cs_currentCharacter c = (if xs = [] then z else hd xs) \<and> (\<forall>x\<in>set xs. x < 0x10000) \<and> (xs \<noteq> [] \<longrightarrow> last xs = z)"

lemma upcoming_simps:
  "upcoming view z xs c \<Longrightarrow> cs_haveCurrentCharacter c \<longleftrightarrow> xs \<noteq> []"
  "upcoming view z (x # xs) c \<Longrightarrow> cs_currentCharacter c = x"
  "upcoming view z [] c \<Longrightarrow> cs_currentCharacter c = z"
  "upcoming view z xs c \<Longrightarrow> cs_encoding c = Utf8"
  by (auto simp: upcoming_def)

section \<open>Runs that return\<close>

lemma runs_update [simp]:
  "runs (\<lambda>r. bind m f (rd_tag_update g r)) r P \<longleftrightarrow> runs (bind m f) (rd_tag_update g r) P"
  "runs (\<lambda>r. bind m f (rd_name_update g r)) r P \<longleftrightarrow> runs (bind m f) (rd_name_update g r) P"
  "runs (\<lambda>r. bind m f (rd_value_update g r)) r P \<longleftrightarrow> runs (bind m f) (rd_value_update g r) P"
  "runs (\<lambda>r. bind m f (rd_tmp_update g r)) r P \<longleftrightarrow> runs (bind m f) (rd_tmp_update g r) P"
  by (simp_all add: runs_def)

section \<open>Sequences of characters\<close>

text \<open>What \<open>readCharacterSequence\<close> does to the characters that come: those it keeps and those it leaves.\<close>

fun scan :: "char_class set \<Rightarrow> nat \<Rightarrow> nat list \<Rightarrow> nat list \<times> nat list" where
  "scan A q [] = ([], [])"
| "scan A q (x # xs) =
     (if q \<noteq> 0 \<and> x = q then scan A 0 xs
      else if ProcessQuotes \<in> A \<and> q = 0 \<and> (x = 0x22 \<or> x = 0x27) then scan A x xs
      else if classOf x \<in> A \<or> q \<noteq> 0 then (case scan A q xs of (ys, zs) \<Rightarrow> (x # ys, zs))
      else ([], x # xs))"

lemma appendTo_source [simp]:
  "rd_source (appendTo acc s r) = rd_source r"
  "(appendTo acc s r)\<lparr>rd_source := c\<rparr> = appendTo acc s (r\<lparr>rd_source := c\<rparr>)"
  by (cases acc; simp)+

lemma appendTo_append [simp]: "appendTo acc t (appendTo acc s r) = appendTo acc (s @ t) r" "appendTo acc [] r = r"
  by (cases acc; simp)+

lemma classOf_iff [simp]:
  "classOf x = LTChar \<longleftrightarrow> x = 0x3C"
  "classOf x = GTChar \<longleftrightarrow> x = 0x3E"
  "classOf x = EQChar \<longleftrightarrow> x = 0x3D"
  "classOf x = QuesChar \<longleftrightarrow> x = 0x3F"
  "classOf x = SlashChar \<longleftrightarrow> x = 0x2F"
  "classOf x = MinusChar \<longleftrightarrow> x = 0x2D"
  "classOf x = LBracketChar \<longleftrightarrow> x = 0x5B"
  "classOf x \<noteq> ProcessQuotes"
  by (auto simp: classOf_def)

lemma scan_rest:
  "scan A q xs = (ys, zs) \<Longrightarrow> length ys + length zs \<le> length xs \<and>
     (zs \<noteq> [] \<longrightarrow> classOf (hd zs) \<notin> A \<and> (ProcessQuotes \<in> A \<longrightarrow> hd zs \<noteq> 0x22 \<and> hd zs \<noteq> 0x27))"
proof (induction A q xs arbitrary: ys zs rule: scan.induct)
  case (2 A q x xs)
  show ?case
  proof (cases "q \<noteq> 0 \<and> x = q \<or> ProcessQuotes \<in> A \<and> q = 0 \<and> (x = 0x22 \<or> x = 0x27)")
    case True
    then show ?thesis using 2 by (auto split: if_splits intro: le_SucI)
  next
    case False
    then show ?thesis using 2 by (auto split: if_splits prod.splits)
  qed
qed simp

text \<open>
  What the end of a document must look like: the character that comes last is not a hyphen, and no character is cut off.
  For octets in UTF-8 or a code page, valid or not, this is so when the last two are ASCII characters and the last
  one cannot be the end of a (non-minimal) form of the hyphen; for octets in UTF-16 when their number is even and
  the last two are not the hyphen.
\<close>

definition last_octet :: "octet \<Rightarrow> bool" where
  "last_octet a \<longleftrightarrow> of_char a < (0x80 :: nat) \<and> of_char a mod 64 \<noteq> (0x2D :: nat)"

fun ends8 :: "octet list \<Rightarrow> bool" where
  "ends8 [] = True"
| "ends8 [a] = last_octet a"
| "ends8 [b, a] = (of_char b < (0x80 :: nat) \<and> last_octet a)"
| "ends8 (x # y # z # bs) = ends8 (y # z # bs)"

fun ends16 :: "bool \<Rightarrow> octet list \<Rightarrow> bool" where
  "ends16 be [] = True"
| "ends16 be [a] = False"
| "ends16 be [a, b] = ((if be then 256 * of_char a + of_char b else 256 * of_char b + of_char a) \<noteq> (0x2D :: nat))"
| "ends16 be (a # b # c # bs) = ends16 be (c # bs)"

fun ends_well :: "encoding \<Rightarrow> octet list \<Rightarrow> bool" where
  "ends_well Utf16BE bs = ends16 True bs"
| "ends_well Utf16LE bs = ends16 False bs"
| "ends_well _ bs = ends8 bs"

lemma last_bits: "(a * 4096 + b * 64 + c mod 64) mod 64 = (c :: nat) mod 64"
proof -
  have "a * 4096 + b * 64 + c mod 64 = c mod 64 + (a * 64 + b) * 64" by simp
  then show ?thesis by (simp only: mod_mult_self1 mod_mod_trivial)
qed

lemma ends8_Cons: "ends8 (x # bs) \<Longrightarrow> ends8 bs"
  by (cases bs rule: ends8.cases) auto

lemma ends8_last: "ends8 [x] \<Longrightarrow> of_char x < (0x80 :: nat) \<and> of_char x \<noteq> (0x2D :: nat)"
  by (auto simp: last_octet_def)

lemma ends8_lead: "ends8 (x # bs) \<Longrightarrow> 0x80 \<le> (of_char x :: nat) \<Longrightarrow> \<exists>y z zs. bs = y # z # zs"
  by (cases bs rule: ends8.cases) (auto simp: last_octet_def)

lemma ends16_more: "ends16 be (a # bs) \<Longrightarrow> \<exists>b bs'. bs = b # bs' \<and> ends16 be bs'"
  by (cases bs rule: ends8.cases) auto

text \<open>At most \<open>k\<close> characters are still to come, the current one included; at the end, the current character is not a hyphen.\<close>

definition coming :: "('s \<Rightarrow> (octet list \<times> nat \<times> nat) option) \<Rightarrow> nat \<Rightarrow> 's char_source \<Rightarrow> bool" where
  "coming view k c \<longleftrightarrow> (\<exists>bs. remains view c bs \<and> length bs + of_bool (cs_haveCurrentCharacter c) \<le> k \<and>
     (cs_haveCurrentCharacter c \<or> bs = []) \<and> (bs = [] \<longrightarrow> cs_currentCharacter c \<noteq> 0x2D) \<and> ends_well (cs_encoding c) bs)"

definition within :: "('s \<Rightarrow> (octet list \<times> nat \<times> nat) option) \<Rightarrow> nat \<Rightarrow> 's reader \<Rightarrow> bool" where
  "within view k r \<longleftrightarrow> coming view k (rd_source r)"

lemma within_update [simp]:
  "within view k (rd_tag_update f r) = within view k r"
  "within view k (rd_name_update f r) = within view k r"
  "within view k (rd_value_update f r) = within view k r"
  "within view k (rd_tmp_update f r) = within view k r"
  "within view k (rd_state_update g r) = within view k r"
  "within view k (rd_tagPos_update h r) = within view k r"
  "within view k (rd_whitespaceMode_update m r) = within view k r"
  "within view k (appendTo acc s r) = within view k r"
  by (simp_all add: within_def)

lemma within_have: "within view k r \<Longrightarrow> haveCurrent r \<Longrightarrow> 0 < k"
  by (auto simp: within_def coming_def)

lemma within_end: "within view k r \<Longrightarrow> \<not> haveCurrent r \<Longrightarrow> current r \<noteq> 0x2D"
  by (auto simp: within_def coming_def)

lemma within_done: "within view k r \<Longrightarrow> \<not> haveCurrent r \<Longrightarrow> within view l r"
  by (auto simp: within_def coming_def)

lemma coming_mono: "coming view k c \<Longrightarrow> k \<le> l \<Longrightarrow> coming view l c"
  by (force simp: coming_def)

lemma within_mono: "within view k r \<Longrightarrow> k \<le> l \<Longrightarrow> within view l r"
  unfolding within_def by (rule coming_mono)

lemma within_pred: "within view (k - Suc 0) r \<Longrightarrow> within view k r"
  by (erule within_mono) simp

locale xml_input = readable_stream "re_stream env" view
  for env :: "'s reader_env" and view
begin

lemma Reader_readByte_more:
  assumes "remains view c (x # bs)"
  shows "\<exists>s b. Reader_readByte (re_stream env) c = (Inr (Some (of_char x)), c\<lparr>cs_stream := s, cs_buffer := b, cs_bufferPos := cs_bufferPos c + 1\<rparr>) \<and>
    remains view (c\<lparr>cs_stream := s, cs_buffer := b, cs_bufferPos := cs_bufferPos c + 1\<rparr>) bs"
proof -
  obtain f p q where v: "view (cs_stream c) = Some (f, p, q)" "x # bs = cs_buffer c @ drop p f"
    using assms by (auto simp: remains_def)
  show ?thesis
  proof (cases "cs_buffer c")
    case (Cons y ys)
    then show ?thesis using v
      by (intro exI [of _ "cs_stream c"] exI [of _ ys]) (auto simp: bind_def Reader_readByte_def remains_def)
  next
    case Nil
    from read_law [OF v(1), of 1024] obtain d s where d: "s_read (re_stream env) 1024 (cs_stream c) = (Inr d, s)"
      "view s = Some (f, p + length d, q)" "d = take (length d) (drop p f)" "d = [] \<longrightarrow> length f \<le> p" by auto
    have all: "d @ drop (p + length d) f = x # bs" using d(3) v(2) Nil
      by (metis add.commute append_Nil append_take_drop_id drop_drop)
    have "d \<noteq> []" using d(4) v(2) Nil by auto
    then obtain ds where "d = x # ds" using all by (cases d) auto
    note ds = this
    then have "bs = ds @ drop (p + length d) f" using all by simp
    then show ?thesis using d(1,2) ds Nil
      by (intro exI [of _ s] exI [of _ ds]) (simp add: bind_def Reader_readByte_def Reader_refillBuffer_def remains_def zoom_def)
  qed
qed

lemma Reader_readByte_end:
  assumes "remains view c []"
  shows "\<exists>s. Reader_readByte (re_stream env) c = (Inr None, c\<lparr>cs_stream := s\<rparr>) \<and> remains view (c\<lparr>cs_stream := s\<rparr>) []"
proof -
  obtain f p q where v: "view (cs_stream c) = Some (f, p, q)" "cs_buffer c = []" "drop p f = []"
    using assms by (auto simp: remains_def)
  from read_law [OF v(1), of 1024] obtain s where "s_read (re_stream env) 1024 (cs_stream c) = (Inr [], s)"
    "view s = Some (f, p, q)" using v(3) by force
  then show ?thesis using v
    by (intro exI [of _ s]) (simp add: bind_def Reader_readByte_def Reader_refillBuffer_def remains_def zoom_def)
qed

lemma readNextChar_remains:
  assumes "remains view c (encs xs)" "cs_encoding c = Utf8" "\<forall>x\<in>set xs. x < 0x10000"
    "xs = [] \<longrightarrow> cs_currentCharacter c = z" "xs \<noteq> [] \<longrightarrow> last xs = z"
  shows "\<exists>c'. readNextChar (re_stream env) c = (Inr (), c') \<and> upcoming view z xs c'"
proof -
  let ?c = "c\<lparr>cs_charPos := cs_bufferPos c\<rparr>"
  have r: "remains view ?c (encs xs)" using assms(1) by (simp add: remains_def)
  note u = assms(2-)
  show ?thesis
  proof (cases xs)
    case Nil
    then obtain c1 where "Reader_readByte (re_stream env) ?c = (Inr None, c1)" "remains view c1 []"
      "cs_encoding c1 = Utf8" "cs_currentCharacter c1 = z" using Reader_readByte_end [of ?c] r u by auto
    then show ?thesis using Nil u(1) by (simp add: bind_eval readNextChar_def noChar_def upcoming_def remains_def)
  next
    case (Cons y ys)
    have y: "y < 0x10000" using u(2) Cons by simp
    consider (one) "y < 0x80" "enc y = [byte y]"
      | (two) "0x80 \<le> y" "y < 0x800" "enc y = [byte (0xC0 + y div 64), byte (0x80 + y mod 64)]"
      | (three) "0x800 \<le> y" "enc y = [byte (0xE0 + y div 4096), byte (0x80 + y div 64 mod 64), byte (0x80 + y mod 64)]"
      using enc_cases [OF y] by blast
    moreover have fin: ?thesis if "readNextChar (re_stream env) c = haveChar y c'" "remains view c' (encs ys)" "cs_encoding c' = Utf8" for c'
      using that u Cons by (simp add: haveChar_def upcoming_def remains_def)
    ultimately show ?thesis
    proof cases
      case one
      then have "remains view ?c (byte y # encs ys)" using r Cons by simp
      from Reader_readByte_more [OF this] obtain c1 where "Reader_readByte (re_stream env) ?c = (Inr (Some y), c1)"
        "remains view c1 (encs ys)" "cs_encoding c1 = Utf8" using u(1) one by auto
      then show ?thesis using fin readNextChar_utf8(1) [OF u(1)] one by simp
    next
      case two
      then have "remains view ?c (byte (0xC0 + y div 64) # byte (0x80 + y mod 64) # encs ys)" using r Cons by simp
      from Reader_readByte_more [OF this] obtain c1 where 1: "Reader_readByte (re_stream env) ?c = (Inr (Some (0xC0 + y div 64)), c1)"
        "remains view c1 (byte (0x80 + y mod 64) # encs ys)" "cs_encoding c1 = Utf8" using u(1) two by auto
      from Reader_readByte_more [OF 1(2)] obtain c2 where 2: "Reader_readByte (re_stream env) c1 = (Inr (Some (0x80 + y mod 64)), c2)"
        "remains view c2 (encs ys)" "cs_encoding c2 = Utf8" using 1(3) by auto
      show ?thesis using fin [of c2] 2 two readNextChar_utf8(2) [OF u(1) 1(1) _ _ 2(1)] by (simp add: two_octets)
    next
      case three
      then have "remains view ?c (byte (0xE0 + y div 4096) # byte (0x80 + y div 64 mod 64) # byte (0x80 + y mod 64) # encs ys)"
        using r Cons by simp
      from Reader_readByte_more [OF this] obtain c1 where 1: "Reader_readByte (re_stream env) ?c = (Inr (Some (0xE0 + y div 4096)), c1)"
        "remains view c1 (byte (0x80 + y div 64 mod 64) # byte (0x80 + y mod 64) # encs ys)" "cs_encoding c1 = Utf8"
        using u(1) y by auto
      from Reader_readByte_more [OF 1(2)] obtain c2 where 2: "Reader_readByte (re_stream env) c1 = (Inr (Some (0x80 + y div 64 mod 64)), c2)"
        "remains view c2 (byte (0x80 + y mod 64) # encs ys)" "cs_encoding c2 = Utf8" using 1(3) by auto
      from Reader_readByte_more [OF 2(2)] obtain c3 where 3: "Reader_readByte (re_stream env) c2 = (Inr (Some (0x80 + y mod 64)), c3)"
        "remains view c3 (encs ys)" "cs_encoding c3 = Utf8" using 2(3) by auto
      show ?thesis using fin [of c3] 3 y readNextChar_utf8(3) [OF u(1) 1(1) _ _ 2(1) 3(1)] by (simp add: three_octets)
    qed
  qed
qed

lemma readNextChar_upcoming:
  assumes "upcoming view z xs c"
  shows "\<exists>c'. readNextChar (re_stream env) c = (Inr (), c') \<and> upcoming view z (tl xs) c'"
  by (rule readNextChar_remains) (use assms in \<open>cases xs; auto simp: upcoming_def split: if_splits\<close>)+

lemma runs_nextChar:
  assumes "upcoming view z xs (rd_source r)"
  shows "runs (nextChar env) r (\<lambda>_ r'. \<exists>c. r' = r\<lparr>rd_source := c\<rparr> \<and> upcoming view z (tl xs) c)"
  using readNextChar_upcoming [OF assms] by (auto simp: runs_def nextChar_def zoom_def)

lemma readSequence_scan:
  assumes "upcoming view z xs (rd_source r)" "length xs < fuel" "scan A q xs = (ys, zs)"
  shows "\<exists>c. readSequence env A acc fuel n q r = (Inr (n + length ys), appendTo acc (encs ys) (r\<lparr>rd_source := c\<rparr>)) \<and> upcoming view z zs c"
  using assms
proof (induction A q xs arbitrary: r fuel n ys zs rule: scan.induct)
  case (1 A q)
  then show ?case by (cases fuel) (auto simp: upcoming_simps intro!: exI [of _ "rd_source r"])
next
  case (2 A q x xs)
  obtain fuel' where f: "fuel = Suc fuel'" "length xs < fuel'" using "2.prems"(2) by (cases fuel) auto
  have nxt: "\<exists>c. nextChar env r1 = (Inr (), r1\<lparr>rd_source := c\<rparr>) \<and> upcoming view z xs c" if "rd_source r1 = rd_source r" for r1
    using runs_nextChar [of z "x # xs" r1] that "2.prems"(1) by (auto simp: runs_def)
  have cur: "haveCurrent r" "current r = x" using "2.prems"(1) by (auto simp: upcoming_simps)
  consider (ends) "q \<noteq> 0" "x = q"
    | (begins) "\<not> (q \<noteq> 0 \<and> x = q)" "ProcessQuotes \<in> A" "q = 0" "x = 0x22 \<or> x = 0x27"
    | (accept) "\<not> (q \<noteq> 0 \<and> x = q)" "\<not> (ProcessQuotes \<in> A \<and> q = 0 \<and> (x = 0x22 \<or> x = 0x27))" "classOf x \<in> A \<or> q \<noteq> 0"
    | (stop) "\<not> (q \<noteq> 0 \<and> x = q)" "\<not> (ProcessQuotes \<in> A \<and> q = 0 \<and> (x = 0x22 \<or> x = 0x27))" "\<not> (classOf x \<in> A \<or> q \<noteq> 0)"
    by blast
  then show ?case
  proof cases
    case ends
    obtain c where c: "nextChar env r = (Inr (), r\<lparr>rd_source := c\<rparr>)" "upcoming view z xs c" using nxt [of r] by blast
    have "scan A 0 xs = (ys, zs)" using "2.prems"(3) ends by simp
    with "2.IH"(1) [OF _ _ f(2) this, of "r\<lparr>rd_source := c\<rparr>" n] ends c cur f show ?thesis by (simp add: bind_eval)
  next
    case begins
    obtain c where c: "nextChar env r = (Inr (), r\<lparr>rd_source := c\<rparr>)" "upcoming view z xs c" using nxt [of r] by blast
    have "scan A x xs = (ys, zs)" using "2.prems"(3) begins by (simp split: if_splits)
    with "2.IH"(2) [OF _ _ _ f(2) this, of "r\<lparr>rd_source := c\<rparr>" n] begins c cur f show ?thesis by (auto simp: bind_eval)
  next
    case accept
    obtain ys' where ys: "scan A q xs = (ys', zs)" "ys = x # ys'"
      using "2.prems"(3) accept by (auto split: prod.splits if_splits)
    obtain c where c: "nextChar env (appendTo acc (enc x) r) = (Inr (), appendTo acc (enc x) (r\<lparr>rd_source := c\<rparr>))" "upcoming view z xs c"
      using nxt [of "appendTo acc (enc x) r"] by (auto simp: appendTo_source)
    have "readSequence env A acc fuel n q r = readSequence env A acc fuel' (n + 1) q (appendTo acc (enc x) (r\<lparr>rd_source := c\<rparr>))"
      using accept cur f c(1) by (auto simp: bind_eval)
    then show ?thesis using "2.IH"(3) [OF accept(1,2,3) _ f(2) ys(1), of "appendTo acc (enc x) (r\<lparr>rd_source := c\<rparr>)" "n + 1"] c(2) ys(2)
      by (auto simp: appendTo_source appendTo_append)
  next
    case stop
    then show ?thesis using "2.prems" cur f by (auto intro!: exI [of _ "rd_source r"])
  qed
qed

lemma runs_sequence:
  assumes "upcoming view z xs (rd_source r)" "length xs < fuel" "scan A 0 xs = (ys, zs)"
  shows "runs (readCharacterSequence fuel env A acc) r
    (\<lambda>n r'. \<exists>c. n = length ys \<and> r' = appendTo acc (encs ys) (r\<lparr>rd_source := c\<rparr>) \<and> upcoming view z zs c)"
  using readSequence_scan [OF assms, of acc 0] by (auto simp: runs_def readCharacterSequence_def)

text \<open>Any octets: a character takes at least one of them, whatever the encoding.\<close>

lemma readNextChar_octets:
  assumes "remains view c bs" "ends_well (cs_encoding c) bs" "bs = [] \<longrightarrow> cs_currentCharacter c \<noteq> 0x2D"
  shows "\<exists>c'. readNextChar (re_stream env) c = (Inr (), c') \<and> coming view (length bs) c'"
proof -
  let ?c = "c\<lparr>cs_charPos := cs_bufferPos c\<rparr>"
  have r: "remains view ?c bs" using assms(1) by (simp add: remains_def)
  show ?thesis
  proof (cases bs)
    case Nil
    then obtain s where "Reader_readByte (re_stream env) ?c = (Inr None, ?c\<lparr>cs_stream := s\<rparr>)" "remains view (?c\<lparr>cs_stream := s\<rparr>) []"
      using Reader_readByte_end [of ?c] r by auto
    then show ?thesis using Nil assms(2,3)
      by (simp add: readNextChar_def bind_eval noChar_def coming_def remains_def)
  next
    case (Cons x bs1)
    from Reader_readByte_more [of ?c x bs1] r Cons obtain c1 where
      c1: "Reader_readByte (re_stream env) ?c = (Inr (Some (of_char x)), c1)" "remains view c1 bs1" "cs_encoding c1 = cs_encoding c" by auto
    have fin: "coming view (length bs) (c'\<lparr>cs_currentCharacter := ch, cs_haveCurrentCharacter := True\<rparr>)"
      if "remains view c' rest" "cs_encoding c' = cs_encoding c" "length rest < length bs" "ends_well (cs_encoding c) rest" "rest = [] \<longrightarrow> ch \<noteq> 0x2D" for c' rest ch
      using that by (auto simp: coming_def remains_def)
    have more: "\<exists>c'. Reader_readByte (re_stream env) c0 = (Inr (Some (of_char y)), c') \<and> remains view c' rest \<and> cs_encoding c' = cs_encoding c"
      if "remains view c0 (y # rest)" "cs_encoding c0 = cs_encoding c" for c0 y rest
      using Reader_readByte_more [OF that(1)] that(2) by auto
    show ?thesis
    proof (cases "cs_encoding c")
      case Utf8
      have e: "ends8 (x # bs1)" using assms(2) Utf8 Cons by simp
      consider (one) "of_char x < (0xC0 :: nat) \<or> 0xF0 \<le> (of_char x :: nat)" | (two) "0xC0 \<le> (of_char x :: nat)" "of_char x < (0xE0 :: nat)"
        | (three) "0xE0 \<le> (of_char x :: nat)" "of_char x < (0xF0 :: nat)" by linarith
      then show ?thesis
      proof cases
        case one
        then have "readNextChar (re_stream env) c = haveChar (of_char x) c1" using c1(1) Utf8 by (auto simp: readNextChar_def bind_eval)
        moreover have "bs1 = [] \<longrightarrow> of_char x \<noteq> (0x2D :: nat)" using ends8_last e by auto
        ultimately show ?thesis using fin [OF c1(2,3)] ends8_Cons [OF e] Utf8 Cons by (simp add: haveChar_def)
      next
        case two
        then obtain y z zs where bs1: "bs1 = y # z # zs" using ends8_lead [OF e] by auto
        obtain c2 where c2: "Reader_readByte (re_stream env) c1 = (Inr (Some (of_char y)), c2)" "remains view c2 (z # zs)" "cs_encoding c2 = cs_encoding c"
          using more [of c1 y "z # zs"] c1 bs1 by auto
        have "readNextChar (re_stream env) c = haveChar (of_char x mod 32 * 64 + of_char y mod 64) c2"
          using two c1(1) c2(1) Utf8 by (simp add: readNextChar_def bind_eval)
        then show ?thesis using fin [OF c2(2,3)] e bs1 Utf8 Cons ends8_Cons by (simp add: haveChar_def)
      next
        case three
        then obtain y z zs where bs1: "bs1 = y # z # zs" using ends8_lead [OF e] by auto
        obtain c2 where c2: "Reader_readByte (re_stream env) c1 = (Inr (Some (of_char y)), c2)" "remains view c2 (z # zs)" "cs_encoding c2 = cs_encoding c"
          using more [of c1 y "z # zs"] c1 bs1 by auto
        obtain c3 where c3: "Reader_readByte (re_stream env) c2 = (Inr (Some (of_char z)), c3)" "remains view c3 zs" "cs_encoding c3 = cs_encoding c"
          using more [of c2 z zs] c2 by auto
        let ?ch = "of_char x mod 16 * 4096 + of_char y mod 64 * 64 + of_char z mod 64 :: nat"
        have "readNextChar (re_stream env) c = haveChar ?ch c3"
          using three c1(1) c2(1) c3(1) Utf8 by (simp add: readNextChar_def bind_eval)
        moreover have z: "ends8 (z # zs)" using e bs1 ends8_Cons by blast
        moreover have "zs = [] \<longrightarrow> ?ch \<noteq> 0x2D"
        proof
          assume "zs = []"
          then have "of_char z mod 64 \<noteq> (0x2D :: nat)" using z by (simp add: last_octet_def)
          moreover have "?ch mod 64 = of_char z mod 64" by (rule last_bits)
          ultimately show "?ch \<noteq> 0x2D" by auto
        qed
        ultimately show ?thesis using fin [OF c3(2,3)] ends8_Cons [OF z] bs1 Utf8 Cons by (simp add: haveChar_def)
      qed
    next
      case Codepage
      have e: "ends8 (x # bs1)" using assms(2) Codepage Cons by simp
      obtain ch where "readNextChar (re_stream env) c = haveChar ch c1" "of_char x < (0x80 :: nat) \<longrightarrow> ch = of_char x"
        using c1(1) Codepage by (cases "cs_codepage c") (auto simp: readNextChar_def bind_eval)
      moreover have "bs1 = [] \<longrightarrow> of_char x < (0x80 :: nat) \<and> of_char x \<noteq> (0x2D :: nat)" using ends8_last e by auto
      ultimately show ?thesis using fin [OF c1(2,3)] ends8_Cons [OF e] Codepage Cons by (auto simp: haveChar_def)
    next
      case Utf16LE
      then obtain y zs where bs1: "bs1 = y # zs" "ends16 False zs" using ends16_more [of False x bs1] assms(2) Cons by auto
      obtain c2 where c2: "Reader_readByte (re_stream env) c1 = (Inr (Some (of_char y)), c2)" "remains view c2 zs" "cs_encoding c2 = cs_encoding c"
        using more [of c1 y zs] c1 bs1 by auto
      have "zs = [] \<longrightarrow> 256 * of_char y + of_char x \<noteq> (0x2D :: nat)" using assms(2) Cons bs1 Utf16LE by auto
      then show ?thesis using fin [OF c2(2,3), of "256 * of_char y + of_char x"] bs1 Cons c1(1) c2(1) Utf16LE
        by (simp add: readNextChar_def bind_eval haveChar_def)
    next
      case Utf16BE
      then obtain y zs where bs1: "bs1 = y # zs" "ends16 True zs" using ends16_more [of True x bs1] assms(2) Cons by auto
      obtain c2 where c2: "Reader_readByte (re_stream env) c1 = (Inr (Some (of_char y)), c2)" "remains view c2 zs" "cs_encoding c2 = cs_encoding c"
        using more [of c1 y zs] c1 bs1 by auto
      have "zs = [] \<longrightarrow> 256 * of_char x + of_char y \<noteq> (0x2D :: nat)" using assms(2) Cons bs1 Utf16BE by auto
      then show ?thesis using fin [OF c2(2,3), of "256 * of_char x + of_char y"] bs1 Cons c1(1) c2(1) Utf16BE
        by (simp add: readNextChar_def bind_eval haveChar_def)
    qed
  qed
qed

lemma runs_next: "within view k r \<Longrightarrow> runs (nextChar env) r (\<lambda>_. within view (k - 1))"
proof -
  assume "within view k r"
  then obtain bs where bs: "remains view (rd_source r) bs" "length bs + of_bool (haveCurrent r) \<le> k" "haveCurrent r \<or> bs = []"
    "bs = [] \<longrightarrow> current r \<noteq> 0x2D" "ends_well (cs_encoding (rd_source r)) bs" by (auto simp: within_def coming_def)
  from readNextChar_octets [OF bs(1,5,4)] obtain c where
    c: "readNextChar (re_stream env) (rd_source r) = (Inr (), c)" "coming view (length bs) c" by blast
  have "length bs \<le> k - 1" using bs(2,3) by auto
  then have "coming view (k - 1) c" using c(2) by (rule coming_mono [rotated])
  then show ?thesis using c(1) by (simp add: runs_def nextChar_def zoom_def within_def)
qed

lemma runs_readSequence:
  "within view k r \<Longrightarrow> k < fuel \<Longrightarrow>
   runs (readSequence env A acc fuel n q) r (\<lambda>_ r'. within view k r' \<and> (haveCurrent r' \<longrightarrow> classOf (current r') \<notin> A))"
proof (induction fuel arbitrary: k n q r)
  case (Suc fuel)
  show ?case
  proof (cases "haveCurrent r")
    case True
    have k: "0 < k" using within_have [OF Suc.prems(1) True] .
    have step: "runs (bind (nextChar env) (\<lambda>_. readSequence env A acc fuel m p)) (appendTo acc s r)
        (\<lambda>_ r'. within view k r' \<and> (haveCurrent r' \<longrightarrow> classOf (current r') \<notin> A))" for m p s
      using Suc.prems k
      by - (rule runs_bind [OF runs_next [of k]], simp, rule runs_mono [OF Suc.IH [of "k - 1"]], auto intro: within_mono)
    show ?thesis using True step [of _ _ "[]"] step Suc.prems(1) by (auto simp: runs_def)
  qed (use Suc.prems in simp)
qed simp

lemma runs_seq:
  assumes "within view k r" "k < fuel"
  shows "runs (readCharacterSequence fuel env A acc) r (\<lambda>n r'. within view k r' \<and> (haveCurrent r' \<longrightarrow> classOf (current r') \<notin> A))"
  unfolding readCharacterSequence_def by (rule runs_readSequence [OF assms])

lemma runs_seq_some:
  assumes "within view k r" "k < fuel" "haveCurrent r" "classOf (current r) \<in> A"
  shows "runs (readCharacterSequence fuel env A acc) r (\<lambda>n. within view (k - 1))"
proof -
  obtain f where f: "fuel = Suc f" using assms(2) by (cases fuel) auto
  have "0 < k" using within_have [OF assms(1,3)] .
  then have "runs (bind (nextChar env) (\<lambda>_. readSequence env A acc f m p)) (appendTo acc s r) (\<lambda>_. within view (k - 1))" for m p s
    using assms(1,2) f
    by - (rule runs_bind [OF runs_next [of k]], simp, rule runs_mono [OF runs_readSequence [of "k - 1"]], auto)
  from this [of _ _ "[]"] this show ?thesis using assms(3,4) f by (auto simp: runs_def readCharacterSequence_def)
qed

lemma runs_seq_none:
  assumes "within view k r" "k < fuel" "haveCurrent r" "classOf (current r) \<notin> A" "current r \<noteq> 0x22" "current r \<noteq> 0x27"
  shows "runs (readCharacterSequence fuel env A acc) r (\<lambda>n r'. within view k r' \<and> haveCurrent r' \<and> current r' = current r)"
  using assms by (cases fuel) (auto simp: runs_def readCharacterSequence_def)

lemma runs_skipTag:
  assumes "within view k r" "k < fuel"
  shows "runs (skipTag fuel env) r (\<lambda>_. within view (k - 1))"
  unfolding skipTag_def by (rule runs_bind [OF runs_seq [OF assms]]) (elim conjE, rule runs_next)

lemma runs_readUnparsed:
  "within view k r \<Longrightarrow> k < fuel \<Longrightarrow> runs (readUnparsed env fuel n) r (\<lambda>_. within view k)"
proof (induction fuel arbitrary: k n r)
  case (Suc fuel)
  show ?case
  proof (cases "haveCurrent r")
    case True
    then have k: "0 < k" using within_have [OF Suc.prems(1)] by auto
    have step: "runs (bind (nextChar env) (\<lambda>_. readUnparsed env fuel m)) (appendTo ToValue s r) (\<lambda>_. within view k)" for m s
      using Suc.prems k
      by - (rule runs_bind [OF runs_next [of k]], simp, rule runs_mono [OF Suc.IH [of "k - 1"]], auto intro: within_mono)
    have last: "runs (nextChar env) r (\<lambda>_. within view k)"
      by (rule runs_mono [OF runs_next [OF Suc.prems(1)]]) (auto intro: within_mono)
    show ?thesis using True step [of _ "[]"] step last by (simp add: runs_def)
  qed (use Suc.prems in simp)
qed simp

text \<open>Rules for the steps after the one that makes progress.\<close>

lemma seq_le:
  "within view k r \<Longrightarrow> k < fuel \<Longrightarrow> (\<And>n r'. within view k r' \<Longrightarrow> runs (f n) r' P) \<Longrightarrow>
   runs (bind (readCharacterSequence fuel env A acc) f) r P"
  by (rule runs_bind [OF runs_seq]) auto

lemma next_le:
  "within view k r \<Longrightarrow> (\<And>r'. within view k r' \<Longrightarrow> runs (f ()) r' P) \<Longrightarrow> runs (bind (nextChar env) f) r P"
  by (rule runs_bind [OF runs_next]) (auto dest: within_pred)

lemma skip_le:
  "within view k r \<Longrightarrow> k < fuel \<Longrightarrow> (\<And>r'. within view k r' \<Longrightarrow> runs (f ()) r' P) \<Longrightarrow> runs (bind (skipTag fuel env) f) r P"
  by (rule runs_bind [OF runs_skipTag]) (auto dest: within_pred)

lemma unparsed_le:
  "within view k r \<Longrightarrow> k < fuel \<Longrightarrow> (\<And>r'. within view k r' \<Longrightarrow> runs (f ()) r' P) \<Longrightarrow> runs (bind (readUnparsed env fuel n) f) r P"
  by (rule runs_bind [OF runs_readUnparsed]) auto

lemma runs_commentLoop:
  "within view k r \<Longrightarrow> Suc k < fuel \<Longrightarrow> runs (commentLoop env fuel loop) r (\<lambda>_. within view k)"
proof (induction fuel arbitrary: k r loop)
  case (Suc fuel)
  define r1 where "r1 = (if loop then appendTo ToValue ''-'' r else r)"
  have "within view k r1" using Suc.prems(1) by (simp add: r1_def)
  moreover have "runs (if current r' = 0x2D
       then bind (readCharacterSequence fuel env {MinusChar} NoAccum) (\<lambda>n. if n < 2 then commentLoop env fuel True else ret ())
       else ret ()) r' (\<lambda>_. within view k)" if w: "within view k r'" for r'
  proof (cases "current r' = 0x2D")
    case True
    then have h: "haveCurrent r'" using within_end [OF w] by auto
    then have k: "0 < k" using within_have [OF w] by auto
    have "runs (if n < 2 then commentLoop env fuel True else ret ()) r2 (\<lambda>_. within view k)" if "within view (k - 1) r2" for r2 and n :: nat
    proof -
      have "runs (commentLoop env fuel True) r2 (\<lambda>_. within view k)"
        by (rule runs_mono [OF Suc.IH [OF that]]) (use Suc.prems(2) k in \<open>auto dest: within_pred\<close>)
      moreover have "within view k r2" using that within_pred by simp
      ultimately show ?thesis by simp
    qed
    moreover have "classOf (current r') \<in> {MinusChar}" using True by (simp add: classOf_def)
    ultimately have "runs (bind (readCharacterSequence fuel env {MinusChar} NoAccum) (\<lambda>n. if n < 2 then commentLoop env fuel True else ret ())) r' (\<lambda>_. within view k)"
      using Suc.prems(2) by - (rule runs_bind [OF runs_seq_some [OF w _ h]], auto)
    then show ?thesis using True by simp
  qed (use w in simp)
  ultimately have "runs (bind (readCharacterSequence fuel env (- {MinusChar, ProcessQuotes}) ToValue) (\<lambda>_.
      bind (gets current) (\<lambda>ch. if ch = 0x2D
         then bind (readCharacterSequence fuel env {MinusChar} NoAccum) (\<lambda>n. if n < 2 then commentLoop env fuel True else ret ())
         else ret ()))) r1 (\<lambda>_. within view k)"
    using Suc.prems(2) by - (rule seq_le, assumption, simp, simp only: runs_simps)
  then show ?case by (cases loop) (simp_all add: r1_def runs_def)
qed simp

lemma runs_readBang:
  assumes "within view k r" "Suc k < fuel"
  shows "runs (readBang fuel env) r (\<lambda>_. within view k)"
proof -
  have comment: "runs (bind (if n \<ge> 2 then commentLoop env fuel False else ret ()) (\<lambda>_. bind (skipTag fuel env) (\<lambda>_. ret Comment))) r' (\<lambda>_. within view k)"
    if "within view k r'" for r' and n :: nat
    using that assms(2)
    by (cases "n \<ge> 2") (auto intro!: skip_le [of k] runs_bind [OF runs_commentLoop [of k]])
  show ?thesis unfolding readBang_def
    by (rule next_le [OF assms(1)])
      (use assms(2) comment in \<open>auto intro!: next_le [of k] seq_le [of k] skip_le [of k] unparsed_le [of k]\<close>)
qed

lemma runs_readMarkup:
  assumes "within view k r" "Suc k < fuel"
  shows "runs (readMarkup fuel env) r (\<lambda>_. within view k)"
  unfolding readMarkup_def
  by (rule seq_le [OF assms(1)])
    (use assms(2) in \<open>auto intro!: next_le [of k] seq_le [of k] skip_le [of k] runs_readBang\<close>)

lemma within_finishText [simp]: "within view k (finishText env r) = within view k r"
  by (simp add: finishText_def)

lemma runs_readMain:
  assumes "within view k r" "haveCurrent r" "k < fuel"
  shows "runs (readMain fuel env) r (\<lambda>_. within view (k - 1))"
proof (cases "current r = 0x3C")
  case True
  have "0 < k" using within_have [OF assms(1,2)] by auto
  then show ?thesis using True assms
    by (auto simp: readMain_def intro!: runs_bind [OF runs_next [OF assms(1)]] runs_readMarkup)
next
  case False
  then have "classOf (current r) \<in> - {LTChar, ProcessQuotes}" by (simp add: classOf_def)
  then show ?thesis using False assms(1-3)
    by (auto simp: readMain_def intro!: runs_bind [OF runs_seq_some [of k]])
qed

text \<open>An attribute name, or the equals sign after it, makes progress.\<close>

lemma name_progress:
  assumes "within view k r" "haveCurrent r" "k < fuel" "classOf (current r) \<in> A \<or> current r = 0x3D \<and> EQChar \<notin> A"
    "\<And>r'. within view (k - 1) r' \<Longrightarrow> runs f r' P"
    "\<And>r'. within view k r' \<Longrightarrow> haveCurrent r' \<Longrightarrow> current r' = 0x3D \<Longrightarrow> runs f r' P"
  shows "runs (bind (readCharacterSequence fuel env A acc) (\<lambda>_. bind (readCharacterSequence fuel env {WhitespaceChar} NoAccum) (\<lambda>_. f))) r P"
proof (cases "classOf (current r) \<in> A")
  case True
  show ?thesis
    by (rule runs_bind [OF runs_seq_some [OF assms(1,3,2) True]], rule seq_le [of "k - 1"]) (use assms(3,5) in auto)
next
  case False
  then have eq: "current r = 0x3D" "classOf (current r) \<notin> A" "classOf (current r) \<notin> {WhitespaceChar}"
    using assms(4) by (auto simp: classOf_def)
  then have q: "current r \<noteq> 0x22" "current r \<noteq> 0x27" by simp_all
  show ?thesis
  proof (rule runs_bind [OF runs_seq_none [OF assms(1,3,2) eq(2) q]], elim conjE)
    fix n r' assume r': "within view k r'" "haveCurrent r'" "current r' = current r"
    show "runs (bind (readCharacterSequence fuel env {WhitespaceChar} NoAccum) (\<lambda>_. f)) r' P"
      by (rule runs_bind [OF runs_seq_none [OF r'(1) assms(3) r'(2)]]) (use r'(3) eq(1,3) assms(6) in auto)
  qed
qed

lemma runs_readTagValue:
  assumes "within view k r" "k < fuel"
  shows "current r = 0x3D \<Longrightarrow> runs (readTagValue fuel env) r (\<lambda>_. within view (k - 1))"
    and "runs (readTagValue fuel env) r (\<lambda>_. within view k)"
proof -
  have f: "k - 1 < fuel" using assms(2) by simp
  show 1: "runs (readTagValue fuel env) r (\<lambda>_. within view (k - 1))" if "current r = 0x3D"
    unfolding readTagValue_def using that assms(1) f
    by (auto simp: within_done intro!: runs_bind [OF runs_next [OF assms(1)]] seq_le [of "k - Suc 0"])
  show "runs (readTagValue fuel env) r (\<lambda>_. within view k)"
  proof (cases "current r = 0x3D")
    case True
    show ?thesis by (rule runs_mono [OF 1 [OF True]]) (auto dest: within_pred)
  next
    case False
    then show ?thesis using assms(1) by (auto simp: readTagValue_def runs_def)
  qed
qed

lemma runs_readTagAttribute:
  assumes "within view k r" "haveCurrent r" "k < fuel" "classOf (current r) \<notin> {WhitespaceChar, GTChar, SlashChar}"
  shows "runs (readTagAttribute fuel env) r (\<lambda>_. within view (k - 1))"
proof -
  have "classOf (current r) \<in> - {WhitespaceChar, EQChar, GTChar, SlashChar} \<or> current r = 0x3D"
    using assms(4) by auto
  then have "runs (bind (readCharacterSequence fuel env (- {WhitespaceChar, EQChar, GTChar, SlashChar}) ToName)
      (\<lambda>_. bind (readCharacterSequence fuel env {WhitespaceChar} NoAccum) (\<lambda>_. readTagValue fuel env))) (r\<lparr>rd_name := []\<rparr>) (\<lambda>_. within view (k - 1))"
    using assms(1-3) runs_readTagValue(2) [of "k - 1"] runs_readTagValue(1) [of k]
    by - (rule name_progress [of k], auto)
  then show ?thesis by (simp add: readTagAttribute_def)
qed

lemma runs_readInTag:
  assumes "within view k r" "k < fuel"
  shows "runs (readInTag fuel env) r (\<lambda>_. within view (k - 1))"
  unfolding readInTag_def
proof (rule runs_bind [OF runs_seq [OF assms]], elim conjE)
  fix n r' assume r': "within view k r'" "haveCurrent r' \<longrightarrow> classOf (current r') \<notin> {WhitespaceChar}"
  have attr: "runs (readTagAttribute fuel env) r' (\<lambda>_. within view (k - 1))"
    if "haveCurrent r'" "current r' \<noteq> 0x2F" "current r' \<noteq> 0x3E"
    using runs_readTagAttribute [OF r'(1) that(1) assms(2)] that r'(2) by simp
  show "runs (\<lambda>r. if \<not> haveCurrent r then (Inr Eof, r)
     else if current r = 0x2F then bind (skipTag fuel env) (\<lambda>_. bind (setState Main) (\<lambda>_. ret TagEnd)) r
     else if current r = 0x3E then bind (nextChar env) (\<lambda>_. bind (setState Main) (\<lambda>_. ret Null)) r
     else readTagAttribute fuel env r) r' (\<lambda>_. within view (k - 1))"
    using attr r'(1) assms(2)
    by (auto simp: within_done intro!: runs_bind [OF runs_skipTag [OF r'(1)]] runs_bind [OF runs_next [OF r'(1)]])
qed

lemma within_checkEncoding: "within view k r \<Longrightarrow> within view k (checkEncoding env r)"
  by (auto simp: within_def coming_def checkEncoding_def remains_def split: option.splits charset.splits)

lemma runs_readPIValue:
  assumes "within view k r" "k < fuel"
  shows "current r = 0x3D \<Longrightarrow> runs (readPIValue fuel env) r (\<lambda>_. within view (k - 1))"
    and "runs (readPIValue fuel env) r (\<lambda>_. within view k)"
proof -
  have f: "k - 1 < fuel" using assms(2) by simp
  show 1: "runs (readPIValue fuel env) r (\<lambda>_. within view (k - 1))" if "current r = 0x3D"
  proof (cases "haveCurrent r")
    case True
    have "runs (bind (nextChar env) (\<lambda>_. bind clearValue (\<lambda>_.
        bind (readCharacterSequence fuel env {WhitespaceChar} NoAccum) (\<lambda>_.
        bind (readCharacterSequence fuel env (- {WhitespaceChar, QuesChar, GTChar}) ToValue) (\<lambda>_.
        bind (modify (checkEncoding env)) (\<lambda>_. ret PIAttribute)))))) r (\<lambda>_. within view (k - 1))"
      using f by (auto intro!: runs_bind [OF runs_next [OF assms(1)]] seq_le [of "k - Suc 0"] within_checkEncoding)
    then show ?thesis using that True by (simp add: readPIValue_def runs_def bind_assoc bind_ret del: action_apply bind_apply_simps)
  next
    case False
    then show ?thesis using assms(1) by (simp add: readPIValue_def within_done)
  qed
  show "runs (readPIValue fuel env) r (\<lambda>_. within view k)"
  proof (cases "current r = 0x3D")
    case True
    show ?thesis by (rule runs_mono [OF 1 [OF True]]) (auto dest: within_pred)
  next
    case False
    then show ?thesis using assms(1) within_checkEncoding by (auto simp: readPIValue_def runs_def)
  qed
qed

lemma runs_readPIAttribute:
  assumes "within view k r" "haveCurrent r" "k < fuel" "classOf (current r) \<notin> {WhitespaceChar, QuesChar, GTChar}"
  shows "runs (readPIAttribute fuel env) r (\<lambda>_. within view (k - 1))"
proof -
  have "classOf (current r) \<in> - {WhitespaceChar, EQChar, QuesChar, GTChar} \<or> current r = 0x3D"
    using assms(4) by auto
  then have "runs (bind (readCharacterSequence fuel env (- {WhitespaceChar, EQChar, QuesChar, GTChar}) ToName)
      (\<lambda>_. bind (readCharacterSequence fuel env {WhitespaceChar} NoAccum) (\<lambda>_. readPIValue fuel env))) (r\<lparr>rd_name := []\<rparr>) (\<lambda>_. within view (k - 1))"
    using assms(1-3) runs_readPIValue(2) [of "k - 1"] runs_readPIValue(1) [of k]
    by - (rule name_progress [of k], auto)
  then show ?thesis by (simp add: readPIAttribute_def)
qed

lemma runs_readInPI:
  assumes "within view k r" "k < fuel"
  shows "runs (readInPI fuel env) r (\<lambda>_. within view (k - 1))"
  unfolding readInPI_def
proof (rule runs_bind [OF runs_seq [OF assms(1,2)]], elim conjE)
  fix n r' assume r': "within view k r'" "haveCurrent r' \<longrightarrow> classOf (current r') \<notin> {WhitespaceChar}"
  have attr: "runs (readPIAttribute fuel env) r' (\<lambda>_. within view (k - 1))"
    if "haveCurrent r'" "current r' \<noteq> 0x3F" "current r' \<noteq> 0x3E"
    using runs_readPIAttribute [OF r'(1) that(1) assms(2)] that r'(2) by simp
  show "runs (\<lambda>r. if \<not> haveCurrent r then (Inr Eof, r)
     else if current r = 0x3F \<or> current r = 0x3E then bind (skipTag fuel env) (\<lambda>_. bind (setState Main) (\<lambda>_. ret Null)) r
     else readPIAttribute fuel env r) r' (\<lambda>_. within view (k - 1))"
    using attr r'(1) assms(2) by (auto simp: within_done intro!: runs_bind [OF runs_skipTag [OF r'(1)]])
qed

lemma runs_readNextToken:
  assumes "within view k r" "haveCurrent r" "k < fuel"
  shows "runs (readNextToken fuel env) r (\<lambda>_. within view (k - 1))"
proof -
  let ?r = "r\<lparr>rd_tagPos := cs_charPos (rd_source r)\<rparr>"
  have "within view k ?r" "haveCurrent ?r" using assms by simp_all
  then have "runs (readMain fuel env) ?r (\<lambda>_. within view (k - 1))" "runs (readInTag fuel env) ?r (\<lambda>_. within view (k - 1))"
    "runs (readInPI fuel env) ?r (\<lambda>_. within view (k - 1))"
    using runs_readMain runs_readInTag runs_readInPI assms(3) by blast+
  then show ?thesis using assms(2) unfolding readNextToken_def
    by (cases "rd_state r") (simp_all add: runs_def bind_def)
qed

text \<open>A token makes progress, but at the end of the document.\<close>

lemma runs_Reader_readNext:
  "within view k r \<Longrightarrow> Suc k < fuel \<Longrightarrow>
    runs (Reader_readNext fuel env) r (\<lambda>t r'. if haveCurrent r then 0 < k \<and> within view (k - 1) r' else t = Eof \<and> r' = r)"
proof (induction fuel arbitrary: k r)
  case (Suc fuel)
  show ?case
  proof (cases "haveCurrent r")
    case False
    then show ?thesis by (simp add: runs_def bind_def readNextToken_def)
  next
    case True
    then have k: "0 < k" using within_have [OF Suc.prems(1)] by auto
    have "runs (bind (readNextToken fuel env) (\<lambda>t. bind (gets rd_value) (\<lambda>v.
        if t = Null \<or> t = Text \<and> v = [] then Reader_readNext fuel env else ret t))) r (\<lambda>t. within view (k - 1))"
    proof (rule runs_bind [OF runs_readNextToken [OF Suc.prems(1) True]])
      fix t r' assume r': "within view (k - 1) r'"
      have "runs (Reader_readNext fuel env) r' (\<lambda>t. within view (k - 1))"
        by (rule runs_mono [OF Suc.IH [OF r']]) (use Suc.prems(2) k r' in \<open>auto split: if_splits intro: within_mono\<close>)
      then show "runs (bind (gets rd_value) (\<lambda>v. if t = Null \<or> t = Text \<and> v = [] then Reader_readNext fuel env else ret t)) r'
        (\<lambda>t. within view (k - 1))" using r' by simp
    qed (use Suc.prems(2) in simp)
    then show ?thesis using True k by simp
  qed
qed simp

text \<open>What a new reader sees of a document.\<close>

lemma detectEncoding_utf8:
  assumes "prefix (cs_buffer c) (encs xs)" "\<forall>x\<in>set xs. 0 < x \<and> x < 0x10000" "xs \<noteq> [] \<longrightarrow> hd xs \<noteq> 0xFEFF"
  shows "detectEncoding c = c\<lparr>cs_encoding := Utf8\<rparr>"
proof -
  have b: "of_char a \<noteq> (0 :: nat) \<and> of_char a \<noteq> (0xFE :: nat) \<and> of_char a \<noteq> (0xFF :: nat)" if "a \<in> set (cs_buffer c)" for a
  proof -
    have "a \<in> set (encs xs)" using that set_mono_prefix [OF assms(1)] by blast
    then obtain x where "x \<in> set xs" "a \<in> set (enc x)" by (auto simp: encs_def)
    then show ?thesis using assms(2) enc_octets by blast
  qed
  have "\<not> (map of_char (take 3 (cs_buffer c)) = [0xEF, 0xBB, 0xBF :: nat])"
    using no_mark [of xs] assms by (metis prefixE)
  then have bom: "\<not> (length (cs_buffer c) \<ge> 3 \<and> of_char (cs_buffer c ! 0) = (0xEF :: nat) \<and> of_char (cs_buffer c ! 1) = (0xBB :: nat) \<and>
      of_char (cs_buffer c ! 2) = (0xBF :: nat))"
    by (auto simp: numeral_3_eq_3 numeral_2_eq_2 Suc_le_length_iff)
  show ?thesis
  proof (cases "2 \<le> length (cs_buffer c)")
    case True
    then have "cs_buffer c ! 0 \<in> set (cs_buffer c)" "cs_buffer c ! 1 \<in> set (cs_buffer c)" by (auto intro!: nth_mem)
    moreover have "map of_char (cs_buffer c) ! 0 = (of_char (cs_buffer c ! 0) :: nat)" using True by (cases "cs_buffer c") simp_all
    ultimately show ?thesis using b bom True by (auto simp: detectEncoding_def Let_def)
  qed (simp add: detectEncoding_def Let_def)
qed

lemma Reader_new_upcoming:
  assumes "view s = Some (encs xs, 0, q)" "\<forall>x\<in>set xs. 0 < x \<and> x < 0x10000" "xs \<noteq> [] \<longrightarrow> hd xs \<noteq> 0xFEFF"
  shows "\<exists>r. Reader_new env s = (Inr (), r) \<and> upcoming view (last (0 # xs)) xs (rd_source r) \<and>
    rd_whitespaceMode r = TrimWS \<and> rd_state r = Main"
proof -
  obtain s1 where s1: "s_getPos (re_stream env) s = (Inr 0, s1)" "view s1 = Some (encs xs, 0, q)"
    using getPos_law [OF assms(1)] by auto
  from read_law [OF s1(2), of 1024] obtain d s2 where d: "s_read (re_stream env) 1024 s1 = (Inr d, s2)"
    "view s2 = Some (encs xs, length d, q)" "d = take (length d) (encs xs)" by auto
  let ?c = "\<lparr>cs_stream = s2, cs_buffer = d, cs_bufferPos = 0, cs_encoding = Utf8, cs_codepage = None,
        cs_haveCurrentCharacter = False, cs_currentCharacter = 0, cs_charPos = 0\<rparr>"
  have "prefix (cs_buffer ?c) (encs xs)" using d(3) by (metis char_source.select_convs(2) take_is_prefix)
  from detectEncoding_utf8 [OF this assms(2,3)] have det: "detectEncoding ?c = ?c" by simp
  have "remains view ?c (encs xs)" using d(2,3) by (auto simp: remains_def) (metis append_take_drop_id)
  from readNextChar_remains [OF this, of "last (0 # xs)"] assms(2) obtain c' where
    c': "readNextChar (re_stream env) ?c = (Inr (), c')" "upcoming view (last (0 # xs)) xs c'" by auto
  then show ?thesis using s1 d c'(2) det
    by (auto simp: Reader_new_def bind_def zoom_def Reader_refillBuffer_def nextChar_def)
qed

end

section \<open>The parser ends\<close>

text \<open>
  A source of tokens that ends: \<open>left k r\<close> says that at most \<open>k\<close> tokens are left.
\<close>

locale finite_tokens =
  fixes br :: "'r base_reader" and left :: "nat \<Rightarrow> 'r \<Rightarrow> bool"
  assumes progress: "left k r \<Longrightarrow> runs (br_readNext br) r (\<lambda>t r'. t = Eof \<and> left 0 r' \<or> 0 < k \<and> left (k - 1) r')"
    and left_mono: "left k r \<Longrightarrow> k \<le> l \<Longrightarrow> left l r"
begin

text \<open>The same for a parser, whose current token counts.\<close>

definition pending :: "nat \<Rightarrow> 'r parser \<Rightarrow> bool" where
  "pending n p \<longleftrightarrow> ps_token p = Eof \<and> left 0 (ps_reader p) \<or> (\<exists>k < n. left k (ps_reader p))"

lemma pending_mono: "pending n p \<Longrightarrow> n \<le> m \<Longrightarrow> pending m p"
  unfolding pending_def by (meson less_le_trans)

lemma pending_pos: "pending n p \<Longrightarrow> ps_token p \<noteq> Eof \<Longrightarrow> 0 < n"
  by (auto simp: pending_def)

lemma runs_readNext_left:
  assumes "left k (ps_reader p)"
  shows "runs (Parser_readNext br) p (\<lambda>_. pending k)"
  unfolding Parser_readNext_def
  by (rule runs_bind [where Q = "\<lambda>t p'. t = Eof \<and> left 0 (ps_reader p') \<or> 0 < k \<and> left (k - 1) (ps_reader p')"])
    (use progress [OF assms] in \<open>auto simp: runs_def zoom_def pending_def intro: exI [of _ "k - 1"]\<close>)

lemma runs_Parser_readNext:
  assumes "pending n p"
  shows "runs (Parser_readNext br) p (\<lambda>_. pending (n - 1))"
proof -
  obtain k where k: "left k (ps_reader p)" "k \<le> n - 1"
  proof -
    from assms consider "left 0 (ps_reader p)" | k where "k < n" "left k (ps_reader p)" by (auto simp: pending_def)
    then show ?thesis by cases (auto intro: that)
  qed
  show ?thesis by (rule runs_mono [OF runs_readNext_left [OF k(1)]]) (use k(2) in \<open>auto intro: pending_mono\<close>)
qed

lemma runs_parseAttributes:
  "pending n p \<Longrightarrow> n < fuel \<Longrightarrow> t \<noteq> Eof \<Longrightarrow> runs (parseAttributes br t fuel a) p (\<lambda>_. pending n)"
proof (induction fuel arbitrary: n p a)
  case (Suc fuel)
  show ?case
  proof (cases "ps_token p = t")
    case True
    have n: "0 < n" using pending_pos [OF Suc.prems(1)] True Suc.prems(3) by simp
    have "runs (bind (Parser_readNext br) (\<lambda>_. parseAttributes br t fuel b)) p (\<lambda>_. pending n)" for b
      by (rule runs_bind [OF runs_Parser_readNext [OF Suc.prems(1)]], rule runs_mono [OF Suc.IH [of "n - 1"]])
        (use Suc.prems n in \<open>auto intro: pending_mono\<close>)
    then show ?thesis using True by (simp add: runs_def)
  qed (use Suc.prems in simp)
qed simp

lemma runs_parsePI:
  assumes "pending n p" "n < fuel"
  shows "runs (parsePI fuel br) p (\<lambda>_. pending (n - 1))"
  unfolding parsePI_def runs_simps
  by (rule runs_bind [OF runs_Parser_readNext [OF assms(1)]], rule runs_bind [OF runs_parseAttributes [of "n - 1"]])
    (use assms(2) in auto)

definition parsed :: "nat \<Rightarrow> node option \<Rightarrow> 'r parser \<Rightarrow> bool" where
  "parsed n x p \<longleftrightarrow> (case x of None \<Rightarrow> pending n p | Some _ \<Rightarrow> 0 < n \<and> pending (n - 1) p)"

lemma parsed_mono: "parsed (n - 1) x p \<Longrightarrow> 0 < n \<Longrightarrow> parsed n x p"
  by (auto simp: parsed_def split: option.splits intro: pending_mono)

lemma runs_parser:
  shows "pending n p \<Longrightarrow> 3 * n + 1 < fuel \<Longrightarrow> runs (Parser_parse fuel br) p (parsed n)"
    and "pending n p \<Longrightarrow> 3 * n + 2 < fuel \<Longrightarrow> runs (parseNodes fuel br nodes) p (\<lambda>_. pending n)"
    and "pending n p \<Longrightarrow> 3 * n < fuel \<Longrightarrow> 0 < n \<Longrightarrow> runs (parseTag fuel br) p (\<lambda>_. pending (n - 1))"
proof (induction fuel arbitrary: n p nodes)
  case (Suc fuel)
  {
    case 1
    have skip: "runs (bind (Parser_readNext br) (\<lambda>_. Parser_parse fuel br)) p (parsed n)" if "0 < n"
      by (rule runs_bind [OF runs_Parser_readNext [OF 1(1)]], rule runs_mono [OF Suc.IH(1) [of "n - 1"]])
        (use 1(2) that in \<open>auto intro: parsed_mono\<close>)
    have tag: "runs (bind (parseTag fuel br) (\<lambda>n. ret (Some n))) p (parsed n)" if "0 < n"
      by (rule runs_bind [OF Suc.IH(3) [OF 1(1) _ that]]) (use 1(2) that in \<open>auto simp: parsed_def\<close>)
    have pi: "runs (bind (parsePI fuel br) (\<lambda>n. ret (Some n))) p (parsed n)" if "0 < n"
      by (rule runs_bind [OF runs_parsePI [OF 1(1)]]) (use 1(2) that in \<open>auto simp: parsed_def\<close>)
    have leaf: "runs (bind (Parser_readNext br) (\<lambda>_. ret (Some (TextNode v)))) p (parsed n)" if "0 < n" for v
      by (rule runs_bind [OF runs_Parser_readNext [OF 1(1)]]) (use that in \<open>auto simp: parsed_def\<close>)
    have stop: "parsed n None p" using 1(1) by (simp add: parsed_def)
    show ?case using skip tag pi leaf stop pending_pos [OF 1(1)] by (cases "ps_token p") (simp_all add: runs_def)
  next
    case 2
    have "runs (case x of None \<Rightarrow> ret nodes | Some n \<Rightarrow> parseNodes fuel br (nodes @ [n])) p' (\<lambda>_. pending n)"
      if x: "parsed n x p'" for x p'
    proof (cases x)
      case (Some y)
      then have y: "0 < n" "pending (n - 1) p'" using x by (simp_all add: parsed_def)
      have "runs (parseNodes fuel br (nodes @ [y])) p' (\<lambda>_. pending n)"
        by (rule runs_mono [OF Suc.IH(2) [OF y(2)]]) (use 2(2) y(1) in \<open>auto intro: pending_mono\<close>)
      then show ?thesis using Some by simp
    qed (use x in \<open>simp add: parsed_def\<close>)
    then have "runs (bind (Parser_parse fuel br) (\<lambda>p. case p of None \<Rightarrow> ret nodes | Some n \<Rightarrow> parseNodes fuel br (nodes @ [n]))) p (\<lambda>_. pending n)"
      using 2 by - (rule runs_bind [OF Suc.IH(1)], auto)
    then show ?case by simp
  next
    case 3
    have close: "runs (\<lambda>p. if ps_token p = TagEnd \<and> br_getTag br (ps_reader p) = nn_name a then Parser_readNext br p else (Inr (), p)) p'
        (\<lambda>_. pending (n - 1))" if "pending (n - 1) p'" for p' a
    proof -
      have "runs (Parser_readNext br) p' (\<lambda>_. pending (n - 1))"
        by (rule runs_mono [OF runs_Parser_readNext [OF that]]) (auto intro: pending_mono)
      then show ?thesis using that by simp
    qed
    have "runs (bind (Parser_readNext br) (\<lambda>_. bind (parseAttributes br TagAttribute fuel (NamedNode_init tag)) (\<lambda>n.
       bind (parseNodes fuel br []) (\<lambda>ch.
       bind (\<lambda>p. if ps_token p = TagEnd \<and> br_getTag br (ps_reader p) = nn_name n then Parser_readNext br p else (Inr (), p)) (\<lambda>_.
       ret (TagNode n ch)))))) p (\<lambda>_. pending (n - 1))" for tag
      by (rule runs_bind [OF runs_Parser_readNext [OF 3(1)]], rule runs_bind [OF runs_parseAttributes [of "n - 1"]], assumption)
        (use 3(2,3) in \<open>auto intro!: runs_bind [OF Suc.IH(2) [of "n - 1"]] runs_bind [OF close]\<close>)
    then show ?case by (simp add: runs_def)
  }
qed simp_all

lemma parser_ends:
  assumes "left k r" "3 * k + 2 < fuel"
  shows "\<exists>p nodes p'. Parser_new br r = (Inr (), p) \<and> parseNodes fuel br [] p = (Inr nodes, p')"
proof -
  have "runs (Parser_readNext br) \<lparr>ps_reader = r, ps_token = Null\<rparr> (\<lambda>_. pending k)"
    using assms(1) by (intro runs_readNext_left) simp
  then obtain p where p: "Parser_new br r = (Inr (), p)" "pending k p" by (auto simp: runs_def Parser_new_def)
  then show ?thesis using runs_parser(2) [OF p(2) assms(2), of "[]"] by (auto simp: runs_def)
qed

end

section \<open>Properties of whole documents\<close>

text \<open>A document as the contents of a stream in memory, and what the parser makes of it.\<close>

definition xml_env :: "(string \<Rightarrow> charset option) \<Rightarrow> internal_stream reader_env" where
  "xml_env factory = \<lparr>re_stream = InternalStream_ops, re_expandEntityReference = expandEntityReference, re_createCharset = factory\<rparr>"

definition parseDocument :: "nat \<Rightarrow> (string \<Rightarrow> charset option) \<Rightarrow> whitespace_mode \<Rightarrow> octet list \<Rightarrow> node list result" where
  "parseDocument fuel factory mode text =
     (case Reader_new (xml_env factory) (InternalStream_init\<lparr>is_data := text\<rparr>) of
        (Inl e, _) \<Rightarrow> Inl e
      | (Inr _, r) \<Rightarrow>
          (case Parser_new (Reader_ops fuel (xml_env factory)) (setWhitespaceMode mode r) of
             (Inl e, _) \<Rightarrow> Inl e
           | (Inr _, p) \<Rightarrow> fst (parseNodes fuel (Reader_ops fuel (xml_env factory)) [] p)))"

interpretation xml_internal: xml_input "xml_env factory" internal_view
  unfolding xml_input_def xml_env_def by (simp add: internal.readable_stream_axioms)

text \<open>The tokens of a reader on such a stream.\<close>

definition reader_left :: "nat \<Rightarrow> nat \<Rightarrow> internal_stream reader \<Rightarrow> bool" where
  "reader_left fuel k r \<longleftrightarrow> (\<exists>j \<le> k. within internal_view j r \<and> Suc j < fuel)"

interpretation reader_ends: finite_tokens "Reader_ops fuel (xml_env factory)" "reader_left fuel"
proof
  fix k r
  assume l: "reader_left fuel k r"
  then obtain j where j: "j \<le> k" "within internal_view j r" "Suc j < fuel" by (auto simp: reader_left_def)
  have "reader_left fuel 0 r" if "\<not> haveCurrent r"
    using l j(3) within_done [OF j(2) that] by (auto simp: reader_left_def)
  moreover have "reader_left fuel (k - 1) r'" if "within internal_view (j - 1) r'" for r'
    using l j that by (auto simp: reader_left_def intro!: exI [of _ "j - 1"])
  ultimately have "runs (Reader_readNext fuel (xml_env factory)) r
      (\<lambda>t r'. t = Eof \<and> reader_left fuel 0 r' \<or> 0 < k \<and> reader_left fuel (k - 1) r')"
    by (intro runs_mono [OF xml_internal.runs_Reader_readNext [OF j(2,3)]]) (use j(1) in \<open>auto split: if_splits\<close>)
  then show "runs (br_readNext (Reader_ops fuel (xml_env factory))) r
      (\<lambda>t r'. t = Eof \<and> reader_left fuel 0 r' \<or> 0 < k \<and> reader_left fuel (k - 1) r')"
    by (simp add: Reader_ops_def)
qed (unfold reader_left_def, meson le_trans)

text \<open>The encoding that is detected from the first octets of a document, and the octets after a byte order mark.\<close>

definition source_of :: "octet list \<Rightarrow> unit char_source" where
  "source_of text = \<lparr>cs_stream = (), cs_buffer = text, cs_bufferPos = 0, cs_encoding = Utf8, cs_codepage = None,
     cs_haveCurrentCharacter = False, cs_currentCharacter = 0, cs_charPos = 0\<rparr>"

definition document_ends :: "octet list \<Rightarrow> bool" where
  "document_ends text \<longleftrightarrow> (let c = detectEncoding (source_of text) in ends_well (cs_encoding c) (cs_buffer c))"

definition detected :: "nat list \<Rightarrow> encoding \<times> nat" where
  "detected b =
     (if length b \<ge> 2 then
        if length b \<ge> 3 \<and> b ! 0 = 0xEF \<and> b ! 1 = 0xBB \<and> b ! 2 = 0xBF then (Utf8, 3)
        else if b ! 0 = 0xFE \<and> b ! 1 = 0xFF then (Utf16BE, 2)
        else if b ! 0 = 0xFF \<and> b ! 1 = 0xFE then (Utf16LE, 2)
        else if b ! 0 = 0 \<and> b ! 1 \<noteq> 0 then (Utf16BE, 0)
        else if b ! 0 \<noteq> 0 \<and> b ! 1 = 0 then (Utf16LE, 0)
        else (Utf8, 0)
      else (Utf8, 0))"

lemma detectEncoding_detected:
  "detectEncoding c = (case detected (map of_char (cs_buffer c)) of (e, k) \<Rightarrow> c\<lparr>cs_encoding := e, cs_buffer := drop k (cs_buffer c)\<rparr>)"
  by (simp add: detectEncoding_def detected_def Let_def del: nth_map)

lemma detected_take:
  assumes "3 \<le> n"
  shows "detected (take n b) = detected b"
proof -
  have "2 \<le> length (take n b) \<longleftrightarrow> 2 \<le> length b" "3 \<le> length (take n b) \<longleftrightarrow> 3 \<le> length b"
    "take n b ! 0 = b ! 0" "take n b ! 1 = b ! 1" "take n b ! 2 = b ! 2" using assms by auto
  then show ?thesis unfolding detected_def by (simp only:)
qed

lemma detected_skip: "snd (detected b) \<le> length b \<and> snd (detected b) \<le> 3"
  by (simp add: detected_def)

lemma detectEncoding_buffer:
  assumes "cs_buffer c = take n text" "3 \<le> n"
  shows "cs_encoding (detectEncoding c) = cs_encoding (detectEncoding (source_of text))"
    "cs_buffer (detectEncoding c) @ drop n text = cs_buffer (detectEncoding (source_of text))"
    "cs_stream (detectEncoding c) = cs_stream c" "cs_currentCharacter (detectEncoding c) = cs_currentCharacter c"
proof -
  obtain e k where d: "detected (map of_char text) = (e, k)" by (rule prod.exhaust)
  have "detected (map of_char (take n text)) = (e, k)" using detected_take [OF assms(2), of "map of_char text"] d by (simp add: take_map)
  moreover have "k \<le> length (take n text)" using detected_skip [of "map of_char text"] d assms(2) by simp
  moreover have "drop k text = drop k (take n text) @ drop n text"
    using drop_append [of k "take n text" "drop n text"] calculation(2) by simp
  ultimately show "cs_encoding (detectEncoding c) = cs_encoding (detectEncoding (source_of text))"
    "cs_buffer (detectEncoding c) @ drop n text = cs_buffer (detectEncoding (source_of text))"
    "cs_stream (detectEncoding c) = cs_stream c" "cs_currentCharacter (detectEncoding c) = cs_currentCharacter c"
    using assms(1) d by (simp_all add: detectEncoding_detected source_of_def)
qed

text \<open>
  C9: Every tree the parser builds is well-formed, whatever the reader and the document: the attributes of each
  node are a consistent map with one value for each name. An attribute has the value that was set last.
\<close>

theorem xml_nodes_wf:
  assumes "parseNodes fuel br [] p = (Inr nodes, p')"
  shows "list_all node_wf nodes \<and>
    (\<forall>n name v key. named_wf n \<longrightarrow> named_wf (setAttribute name v n) \<and>
       getAttributeByName (setAttribute name v n) key = (if key = name then v else getAttributeByName n key))"
  using parser_wf(2) [OF assms] named_wf_set getAttributeByName_set by simp

lemma xml_nodes_wf_witness:
  "let p = snd (Parser_new NodeReader_ops (addNode (Some (TextNode ''x'')) NodeReader_init));
       res = fst (parseNodes 5 NodeReader_ops [] p)
   in res = Inr [TextNode ''x''] \<and> list_all node_wf [TextNode ''x''] \<and>
      getAttributeByName (setAttribute ''k'' ''v'' (NamedNode_init ''tag'')) ''k'' = ''v''"
proof -
  let ?p = "snd (Parser_new NodeReader_ops (addNode (Some (TextNode ''x'')) NodeReader_init))"
  obtain q where e: "parseNodes 5 NodeReader_ops [] ?p = (Inr [TextNode ''x''], q)"
    by (simp add: Parser_new_def Parser_readNext_def NodeReader_ops_def addNode_def NodeReader_init_def zoom_def bind_def
        NodeReader_readNext.simps Worker_readNext.simps eval_nat_numeral)
  show ?thesis using xml_nodes_wf [OF e] named_wf_init [of "''tag''"] by (simp add: Let_def e)
qed

text \<open>
  C8: The parser ends on every document, whatever its octets are, well-formed or not, in whatever encoding, with or
  without a byte order mark, and whatever character sets the factory knows, if the document does not end with a hyphen or
  within a character: octets in UTF-16 are an even number and do not end with a hyphen; octets in another encoding end
  with two ASCII characters of which the last is neither \<open>-\<close> nor \<open>m\<close> (\<open>m\<close> would end a non-minimal form of the
  hyphen). Three rounds for each octet and three more are enough for all its loops.
\<close>

theorem xml_parser_ends:
  assumes "document_ends text" "length text < 2 ^ 64" "3 * length text + 2 < fuel"
  shows "\<exists>nodes. parseDocument fuel factory mode text = Inr nodes"
proof -
  let ?s = "InternalStream_init\<lparr>is_data := text\<rparr>" let ?s1 = "?s\<lparr>is_pos := length (take 1024 text)\<rparr>"
  let ?c = "\<lparr>cs_stream = ?s1, cs_buffer = take 1024 text, cs_bufferPos = 0, cs_encoding = Utf8, cs_codepage = None,
        cs_haveCurrentCharacter = False, cs_currentCharacter = 0, cs_charPos = 0\<rparr>"
  define d where "d = detectEncoding ?c"
  let ?rest = "cs_buffer (detectEncoding (source_of text))"
  have d: "cs_encoding d = cs_encoding (detectEncoding (source_of text))" "cs_buffer d @ drop 1024 text = ?rest"
    "cs_stream d = ?s1" "cs_currentCharacter d = 0" using detectEncoding_buffer [of ?c 1024 "text"] by (simp_all add: d_def)
  have "internal_view ?s1 = Some (text, length (take 1024 text), 2 ^ 64 - 1)"
    using assms(2) by (simp add: internal_view_def InternalStream_init_def)
  moreover have "drop (length (take 1024 text)) text = drop 1024 text" by (simp add: min_def)
  ultimately have "remains internal_view d ?rest" using d(2,3) by (auto simp: remains_def)
  moreover have "ends_well (cs_encoding d) ?rest" using assms(1) d(1) by (simp add: document_ends_def Let_def)
  moreover have "cs_currentCharacter d \<noteq> 0x2D" using d(4) by simp
  ultimately obtain c where c: "readNextChar (re_stream (xml_env factory)) d = (Inr (), c)" "coming internal_view (length ?rest) c"
    using xml_internal.readNextChar_octets by blast
  have "length ?rest \<le> length text"
    by (simp add: detectEncoding_detected source_of_def split: prod.split)
  obtain r where r: "Reader_new (xml_env factory) ?s = (Inr (), r)" "rd_source r = c"
    using c(1) unfolding d_def by (simp add: Reader_new_def bind_def zoom_def Reader_refillBuffer_def nextChar_def xml_env_def InternalStream_ops_def
        InternalStream_read_def InternalStream_init_def Let_def)
  have "within internal_view (length text) (setWhitespaceMode mode r)"
    using c(2) r(2) \<open>length ?rest \<le> length text\<close> unfolding setWhitespaceMode_def within_update unfolding within_def by (blast intro: coming_mono)
  then have "reader_left fuel (length text) (setWhitespaceMode mode r)" using assms(3) by (auto simp: reader_left_def)
  from reader_ends.parser_ends [OF this assms(3), of factory] show ?thesis using r(1) by (auto simp: parseDocument_def)
qed

text \<open>The document \<open>\<langle>a b='c'\<rangle>\<close>, which is not closed, with the character sets of the library.\<close>

lemma xml_parser_ends_witness:
  "\<exists>nodes. parseDocument 100 createCharset TrimWS ''<a b='c'>'' = Inr nodes"
  by (rule xml_parser_ends) (simp_all add: document_ends_def detectEncoding_def source_of_def last_octet_def)

text \<open>
  A document that ends with a hyphen inside a comment makes the loop over the content of the comment run for ever:
  the loop looks at \<open>m_currentCharacter\<close>, which keeps its value at the end of the document, and so
  no fuel is enough.
\<close>

lemma comment_never_ends:
  assumes "\<not> haveCurrent r" "current r = 0x2D"
  shows "fst (commentLoop env fuel loop r) = Inl NoReturn"
  using assms
proof (induction fuel arbitrary: r loop)
  case (Suc fuel)
  have seq: "readCharacterSequence fuel env A acc r = (if fuel = 0 then (Inl NoReturn, r) else (Inr 0, r))" if "\<not> haveCurrent r" for A acc r
    using that by (cases fuel) (simp_all add: readCharacterSequence_def)
  define r1 where "r1 = (if loop then appendTo ToValue ''-'' r else r)"
  have r1: "\<not> haveCurrent r1" "current r1 = 0x2D" using Suc.prems by (simp_all add: r1_def)
  have "commentLoop env (Suc fuel) loop r = bind (readCharacterSequence fuel env (- {MinusChar, ProcessQuotes}) ToValue) (\<lambda>_.
      bind (gets current) (\<lambda>ch. if ch = 0x2D
         then bind (readCharacterSequence fuel env {MinusChar} NoAccum) (\<lambda>n. if n < 2 then commentLoop env fuel True else ret ())
         else ret ())) r1"
    by (simp add: r1_def)
  then show ?case using Suc.IH [OF r1, of True] seq [OF r1(1)] r1(2) by (cases fuel) (simp_all add: bind_def del: commentLoop.simps)
qed simp

end
