(* ===== verification/Afl_Xml_Roundtrip.thy ===== *)
theory Afl_Xml_Roundtrip
  imports Afl_Xml_Laws
begin

text \<open>
  What is written as XML is read back. A reader is seen as a source of events; the parser is proved correct for
  every such source (\<open>token_source\<close>), and both readers, the one on a tree and the one on the text the
  writer produces, are such sources. The text is described by a grammar, \<open>lexes\<close>.
\<close>

section \<open>Events\<close>

datatype event =
    ETagStart string
  | ETagAttribute string string string
  | ETagEnd string
  | EPIStart string
  | EPIAttribute string string string
  | EText string

fun event_token :: "event \<Rightarrow> token" where
  "event_token (ETagStart t) = TagStart"
| "event_token (ETagAttribute t n v) = TagAttribute"
| "event_token (ETagEnd t) = TagEnd"
| "event_token (EPIStart t) = PIStart"
| "event_token (EPIAttribute t n v) = PIAttribute"
| "event_token (EText v) = Text"

lemma event_token_Eof [simp]: "event_token e \<noteq> Eof"
  by (cases e) simp_all

text \<open>The tag, the name and the value that go with an event.\<close>

fun presents :: "event \<Rightarrow> string \<Rightarrow> string \<Rightarrow> string \<Rightarrow> bool" where
  "presents (ETagStart t) tag name v \<longleftrightarrow> tag = t"
| "presents (ETagAttribute t n x) tag name v \<longleftrightarrow> tag = t \<and> name = n \<and> v = x"
| "presents (ETagEnd t) tag name v \<longleftrightarrow> tag = t"
| "presents (EPIStart t) tag name v \<longleftrightarrow> tag = t"
| "presents (EPIAttribute t n x) tag name v \<longleftrightarrow> tag = t \<and> name = n \<and> v = x"
| "presents (EText x) tag name v \<longleftrightarrow> v = x"

definition attributes :: "named \<Rightarrow> (string \<times> string) list" where
  "attributes n = map (\<lambda>i. (getNameByIndex (nn_attributeNames n) i, getAttributeByIndex n i)) [0..<getNumNames (nn_attributeNames n)]"

fun node_events :: "node \<Rightarrow> event list" where
  "node_events (PINode n) = EPIStart (nn_name n) # map (\<lambda>(k, v). EPIAttribute (nn_name n) k v) (attributes n)"
| "node_events (TagNode n ch) =
     ETagStart (nn_name n) # map (\<lambda>(k, v). ETagAttribute (nn_name n) k v) (attributes n) @
     concat (map node_events ch) @ [ETagEnd (nn_name n)]"
| "node_events (TextNode s) = [EText s]"

section \<open>Attributes\<close>

lemma named_eqI:
  assumes "named_wf a" "named_wf b" "nn_name a = nn_name b"
    "m_names (nn_attributeNames a) = m_names (nn_attributeNames b)" "nn_attributeValues a = nn_attributeValues b"
  shows "a = b"
proof -
  have "nn_attributeNames a = nn_attributeNames b"
    using assms(1,2,4) by (auto simp: named_wf_def nm_wf_def intro!: name_map.equality nth_equalityI)
  then show ?thesis using assms(3,5) by simp
qed

definition set_all :: "(string \<times> string) list \<Rightarrow> named \<Rightarrow> named" where
  "set_all kvs n = foldl (\<lambda>n (k, v). setAttribute k v n) n kvs"

lemma set_all_append:
  assumes "named_wf n" "distinct (m_names (nn_attributeNames n) @ map fst kvs)"
  shows "named_wf (set_all kvs n) \<and> nn_name (set_all kvs n) = nn_name n \<and>
    m_names (nn_attributeNames (set_all kvs n)) = m_names (nn_attributeNames n) @ map fst kvs \<and>
    nn_attributeValues (set_all kvs n) = nn_attributeValues n @ map snd kvs"
  using assms
proof (induction kvs arbitrary: n)
  case (Cons kv kvs)
  obtain k v where kv: "kv = (k, v)" by (rule prod.exhaust)
  have "lastIndex (m_names (nn_attributeNames n)) k = None" using Cons.prems(2) kv by (simp add: lastIndex_None)
  then have s: "setAttribute k v n = n\<lparr>nn_attributeNames := snd (NameMap_add k (nn_attributeNames n)), nn_attributeValues := nn_attributeValues n @ [v]\<rparr>"
    using setAttribute_cases [OF Cons.prems(1)] by simp
  have m: "m_names (nn_attributeNames (setAttribute k v n)) = m_names (nn_attributeNames n) @ [k]"
    using s by (simp add: NameMap_add_def Let_def)
  have "named_wf (set_all kvs (setAttribute k v n)) \<and> nn_name (set_all kvs (setAttribute k v n)) = nn_name (setAttribute k v n) \<and>
    m_names (nn_attributeNames (set_all kvs (setAttribute k v n))) = m_names (nn_attributeNames (setAttribute k v n)) @ map fst kvs \<and>
    nn_attributeValues (set_all kvs (setAttribute k v n)) = nn_attributeValues (setAttribute k v n) @ map snd kvs"
    using Cons.IH [OF named_wf_set [OF Cons.prems(1), of k v]] Cons.prems(2) kv m by simp
  then show ?case using kv m s by (simp add: set_all_def)
qed (simp add: set_all_def)

text \<open>A node is rebuilt from its name and its attributes.\<close>

lemma set_all_attributes:
  assumes "named_wf n"
  shows "set_all (attributes n) (NamedNode_init (nn_name n)) = n"
proof -
  have names: "map fst (attributes n) = m_names (nn_attributeNames n)"
    by (simp add: attributes_def comp_def getNameByIndex_def getNumNames_def map_nth)
  have "map snd (attributes n) = nn_attributeValues n"
    using assms by (auto simp: attributes_def comp_def getAttributeByIndex_def getNumNames_def named_wf_def intro: nth_equalityI)
  moreover have "m_names (nn_attributeNames (NamedNode_init (nn_name n))) = []" "nn_attributeValues (NamedNode_init (nn_name n)) = []"
    "nn_name (NamedNode_init (nn_name n)) = nn_name n" by (simp_all add: NamedNode_init_def NameMap_init_def)
  ultimately show ?thesis
    using set_all_append [OF named_wf_init, of "nn_name n" "attributes n"] names assms by (intro named_eqI) (auto simp: named_wf_def)
qed

section \<open>The parser on a source of events\<close>

locale token_source =
  fixes br :: "'r base_reader" and coming :: "event list \<Rightarrow> 'r \<Rightarrow> bool"
  assumes next_event: "coming (e # es) r \<Longrightarrow> runs (br_readNext br) r (\<lambda>t r'. t = event_token e \<and>
      presents e (br_getTag br r') (br_getName br r') (br_getValue br r') \<and> coming es r')"
    and next_end: "coming [] r \<Longrightarrow> runs (br_readNext br) r (\<lambda>t r'. t = Eof \<and> coming [] r')"
begin

text \<open>The parser has read the first event.\<close>

fun ready :: "event list \<Rightarrow> 'r parser \<Rightarrow> bool" where
  "ready [] p \<longleftrightarrow> ps_token p = Eof \<and> coming [] (ps_reader p)"
| "ready (e # es) p \<longleftrightarrow> ps_token p = event_token e \<and>
     presents e (br_getTag br (ps_reader p)) (br_getName br (ps_reader p)) (br_getValue br (ps_reader p)) \<and> coming es (ps_reader p)"

lemma runs_advance:
  assumes "coming es (ps_reader p)"
  shows "runs (Parser_readNext br) p (\<lambda>_. ready es)"
proof (cases es)
  case Nil
  then show ?thesis using next_end assms by (fastforce simp: Parser_readNext_def runs_def zoom_def bind_def)
next
  case (Cons e es')
  then show ?thesis using next_event [of e es' "ps_reader p"] assms by (fastforce simp: Parser_readNext_def runs_def zoom_def bind_def)
qed

text \<open>The attributes of a node, with \<open>mk\<close> one of the constructors of attribute events.\<close>

lemma runs_attributes:
  assumes "\<And>k v. event_token (mk k v) = t" "\<And>k v tag name x. presents (mk k v) tag name x \<Longrightarrow> name = k \<and> x = v"
    "es \<noteq> [] \<longrightarrow> event_token (hd es) \<noteq> t" "t \<noteq> Eof"
  shows "ready (map (\<lambda>(k, v). mk k v) kvs @ es) p \<Longrightarrow> length kvs < fuel \<Longrightarrow>
    runs (parseAttributes br t fuel n) p (\<lambda>n' p'. n' = set_all kvs n \<and> ready es p')"
proof (induction kvs arbitrary: p fuel n)
  case Nil
  then have "ps_token p \<noteq> t" using assms(3,4) by (cases es) auto
  then show ?case using Nil by (cases fuel) (auto simp: set_all_def)
next
  case (Cons kv kvs)
  obtain k v where kv: "kv = (k, v)" by (rule prod.exhaust)
  obtain fuel' where f: "fuel = Suc fuel'" using Cons.prems(2) by (cases fuel) auto
  have p: "ps_token p = t" "br_getName br (ps_reader p) = k" "br_getValue br (ps_reader p) = v"
    "coming (map (\<lambda>(k, v). mk k v) kvs @ es) (ps_reader p)"
    using Cons.prems(1) assms(1,2) kv by auto
  have "runs (bind (Parser_readNext br) (\<lambda>_. parseAttributes br t fuel' (setAttribute k v n))) p (\<lambda>n' p'. n' = set_all (kv # kvs) n \<and> ready es p')"
    by (rule runs_bind [OF runs_advance [OF p(4)]], rule runs_mono [OF Cons.IH])
      (use Cons.prems(2) f kv in \<open>auto simp: set_all_def\<close>)
  then show ?case using f p(1-3) by (simp add: runs_def)
qed

definition no_attribute :: "event list \<Rightarrow> bool" where
  "no_attribute es \<longleftrightarrow> es = [] \<or> event_token (hd es) \<notin> {TagAttribute, PIAttribute}"

lemma first_event: "no_attribute (node_events n @ es)" "node_events n \<noteq> []"
  by (cases n; simp add: no_attribute_def)+

lemma no_attribute_nodes: "no_attribute es \<Longrightarrow> no_attribute (concat (map node_events ns) @ es)"
  by (cases ns) (auto simp: first_event)

lemma runs_parsePI_events:
  assumes "ready (node_events (PINode n) @ es) p" "named_wf n" "no_attribute es" "length (node_events (PINode n)) \<le> fuel"
  shows "runs (parsePI fuel br) p (\<lambda>x p'. x = PINode n \<and> ready es p')"
proof -
  have p: "br_getTag br (ps_reader p) = nn_name n"
    "coming (map (\<lambda>(k, v). EPIAttribute (nn_name n) k v) (attributes n) @ es) (ps_reader p)" using assms(1) by simp_all
  have a: "runs (parseAttributes br PIAttribute fuel (NamedNode_init (nn_name n))) p' (\<lambda>n' p'. n' = n \<and> ready es p')"
    if "ready (map (\<lambda>(k, v). EPIAttribute (nn_name n) k v) (attributes n) @ es) p'" for p'
    by (rule runs_mono [OF runs_attributes [OF _ _ _ _ that]])
      (use assms in \<open>auto simp: no_attribute_def set_all_attributes\<close>)
  show ?thesis unfolding parsePI_def runs_simps p(1)
    by (rule runs_bind [OF runs_advance [OF p(2)]], rule runs_bind [OF a]) auto
qed

lemma runs_parseTag_events:
  assumes "ready (node_events (TagNode a ch) @ es) p" "named_wf a" "length (attributes a) < g"
    "\<And>p'. ready (concat (map node_events ch) @ ETagEnd (nn_name a) # es) p' \<Longrightarrow>
       runs (parseNodes g br []) p' (\<lambda>x p''. x = ch \<and> ready (ETagEnd (nn_name a) # es) p'')"
  shows "runs (parseTag (Suc g) br) p (\<lambda>x p'. x = TagNode a ch \<and> ready es p')"
proof -
  let ?rest = "concat (map node_events ch) @ ETagEnd (nn_name a) # es"
  have p: "br_getTag br (ps_reader p) = nn_name a"
    "coming (map (\<lambda>(k, v). ETagAttribute (nn_name a) k v) (attributes a) @ ?rest) (ps_reader p)" using assms(1) by simp_all
  have "no_attribute ?rest" by (rule no_attribute_nodes) (simp add: no_attribute_def)
  then have attrs: "runs (parseAttributes br TagAttribute g (NamedNode_init (nn_name a))) p' (\<lambda>n' p'. n' = a \<and> ready ?rest p')"
    if "ready (map (\<lambda>(k, v). ETagAttribute (nn_name a) k v) (attributes a) @ ?rest) p'" for p'
    by (intro runs_mono [OF runs_attributes [OF _ _ _ _ that]])
      (use assms(2,3) in \<open>auto simp: no_attribute_def set_all_attributes\<close>)
  have close: "runs (\<lambda>p. if ps_token p = TagEnd \<and> br_getTag br (ps_reader p) = nn_name a then Parser_readNext br p else (Inr (), p)) p' (\<lambda>_. ready es)"
    if "ready (ETagEnd (nn_name a) # es) p'" for p'
    using that runs_advance by simp
  have "runs (bind (Parser_readNext br) (\<lambda>_. bind (parseAttributes br TagAttribute g (NamedNode_init (nn_name a))) (\<lambda>n.
       bind (parseNodes g br []) (\<lambda>ch.
       bind (\<lambda>p. if ps_token p = TagEnd \<and> br_getTag br (ps_reader p) = nn_name n then Parser_readNext br p else (Inr (), p)) (\<lambda>_.
       ret (TagNode n ch)))))) p (\<lambda>x p'. x = TagNode a ch \<and> ready es p')"
    by (rule runs_bind [OF runs_advance [OF p(2)]], rule runs_bind [OF attrs], assumption)
      (auto intro!: runs_bind [OF assms(4)] runs_bind [OF close])
  then show ?thesis using p(1) by (simp add: runs_def)
qed

lemma runs_parse_events:
  shows "ready (node_events n @ es) p \<Longrightarrow> node_wf n \<Longrightarrow> no_attribute es \<Longrightarrow> 3 * length (node_events n) \<le> fuel \<Longrightarrow>
      runs (Parser_parse fuel br) p (\<lambda>x p'. x = Some n \<and> ready es p')"
    and "ready (concat (map node_events ns) @ es) p \<Longrightarrow> list_all node_wf ns \<Longrightarrow> es = [] \<or> event_token (hd es) = TagEnd \<Longrightarrow>
      3 * length (concat (map node_events ns)) + 2 \<le> fuel \<Longrightarrow>
      runs (parseNodes fuel br nodes) p (\<lambda>x p'. x = nodes @ ns \<and> ready es p')"
proof (induction fuel arbitrary: n es p ns nodes rule: less_induct)
  case (less fuel)
  {
    case 1
    obtain f where f: "fuel = Suc f" using 1(4) first_event(2) [of n] by (cases fuel) auto
    show ?case
    proof (cases n)
      case (TextNode s)
      have "runs (bind (Parser_readNext br) (\<lambda>_. ret (Some (TextNode s)))) p (\<lambda>x p'. x = Some n \<and> ready es p')"
        by (rule runs_bind [OF runs_advance]) (use TextNode 1(1) in auto)
      then show ?thesis using TextNode 1(1) f by (simp add: runs_def)
    next
      case (PINode a)
      have "runs (bind (parsePI f br) (\<lambda>n. ret (Some n))) p (\<lambda>x p'. x = Some n \<and> ready es p')"
        by (rule runs_bind [OF runs_parsePI_events]) (use PINode 1 f in auto)
      then show ?thesis using PINode 1(1) f by (simp add: runs_def)
    next
      case (TagNode a ch)
      obtain g where g: "f = Suc g" using 1(4) f TagNode by (cases f) auto
      have "runs (parseTag f br) p (\<lambda>x p'. x = n \<and> ready es p')" unfolding g TagNode
      proof (rule runs_parseTag_events)
        fix p' assume "ready (concat (map node_events ch) @ ETagEnd (nn_name a) # es) p'"
        then show "runs (parseNodes g br []) p' (\<lambda>x p''. x = ch \<and> ready (ETagEnd (nn_name a) # es) p'')"
          using less(2) [of g ch "ETagEnd (nn_name a) # es" p' "[]"] 1(2,4) TagNode f g by simp
      qed (use 1 TagNode f g in auto)
      then have "runs (bind (parseTag f br) (\<lambda>n. ret (Some n))) p (\<lambda>x p'. x = Some n \<and> ready es p')"
        by (rule runs_bind) auto
      then show ?thesis using TagNode 1(1) f by (simp add: runs_def)
    qed
  next
    case 2
    obtain f where f: "fuel = Suc f" using 2(4) by (cases fuel) auto
    have step: "runs (Parser_parse f br) p (\<lambda>x p'. case x of None \<Rightarrow> ns = [] \<and> ready es p'
        | Some n \<Rightarrow> \<exists>ns'. ns = n # ns' \<and> ready (concat (map node_events ns') @ es) p')"
    proof (cases ns)
      case Nil
      then have "ps_token p \<in> {Eof, TagEnd}" using 2(1,3) by (cases es) auto
      then show ?thesis using Nil 2(1,4) f by (cases f) (auto simp: runs_def)
    next
      case (Cons n ns')
      have "no_attribute (concat (map node_events ns') @ es)" using 2(3) by (intro no_attribute_nodes) (auto simp: no_attribute_def)
      then show ?thesis using less(1) [of f n "concat (map node_events ns') @ es" p] 2 f Cons first_event(2) [of n]
        by (auto intro: runs_mono)
    qed
    have rest: "runs (case x of None \<Rightarrow> ret nodes | Some n \<Rightarrow> parseNodes f br (nodes @ [n])) p' (\<lambda>x p'. x = nodes @ ns \<and> ready es p')"
      if x: "case x of None \<Rightarrow> ns = [] \<and> ready es p' | Some n \<Rightarrow> \<exists>ns'. ns = n # ns' \<and> ready (concat (map node_events ns') @ es) p'" for x p'
    proof (cases x)
      case (Some n)
      then obtain ns' where ns: "ns = n # ns'" "ready (concat (map node_events ns') @ es) p'" using x by auto
      have "3 * length (concat (map node_events ns')) + 2 \<le> f"
        using 2(4) ns(1) f first_event(2) [of n] by (cases "node_events n") auto
      then show ?thesis using Some less(2) [of f ns' es p' "nodes @ [n]"] 2(2-4) ns f by simp
    qed (use x in auto)
    have "runs (bind (Parser_parse f br) (\<lambda>x. case x of None \<Rightarrow> ret nodes | Some n \<Rightarrow> parseNodes f br (nodes @ [n]))) p
      (\<lambda>x p'. x = nodes @ ns \<and> ready es p')" by (rule runs_bind [OF step]) (rule rest)
    then show ?case using f by simp
  }
qed

lemma parser_correct:
  assumes "coming (concat (map node_events ns)) r" "list_all node_wf ns" "3 * length (concat (map node_events ns)) + 2 \<le> fuel"
  shows "\<exists>p p'. Parser_new br r = (Inr (), p) \<and> parseNodes fuel br [] p = (Inr ns, p')"
proof -
  have "runs (Parser_readNext br) \<lparr>ps_reader = r, ps_token = Null\<rparr> (\<lambda>_. ready (concat (map node_events ns)))"
    using assms(1) by (intro runs_advance) simp
  then obtain p where p: "Parser_new br r = (Inr (), p)" "ready (concat (map node_events ns)) p" by (auto simp: runs_def Parser_new_def)
  then show ?thesis using runs_parse_events(2) [of ns "[]" p fuel "[]"] assms(2,3) by (auto simp: runs_def)
qed

end

section \<open>Reading from a tree\<close>

fun worker_events :: "worker \<Rightarrow> event list" where
  "worker_events (TagWorker n ch st i child) =
     (let attrs = map (\<lambda>(k, v). ETagAttribute (nn_name n) k v) (attributes n);
          rest = (\<lambda>i. (case child of None \<Rightarrow> [] | Some w \<Rightarrow> worker_events w) @ concat (map node_events (drop i ch)) @ [ETagEnd (nn_name n)])
      in case st of
           TagOpen \<Rightarrow> ETagStart (nn_name n) # attrs @ rest 0
         | TagAttributes \<Rightarrow> drop i attrs @ rest 0
         | TagContent \<Rightarrow> rest i
         | TagClose \<Rightarrow> [ETagEnd (nn_name n)]
         | TagDone \<Rightarrow> [])"
| "worker_events (PIWorker n st i) =
     (let attrs = map (\<lambda>(k, v). EPIAttribute (nn_name n) k v) (attributes n)
      in case st of PIOpen \<Rightarrow> EPIStart (nn_name n) # attrs | PIAttributes \<Rightarrow> drop i attrs | PIDone \<Rightarrow> [])"
| "worker_events (TextWorker s did) = (if did then [] else [EText s])"

lemma worker_events_make: "worker_events (makeWorker n) = node_events n"
  by (cases n) simp_all

definition gives :: "event list \<Rightarrow> token \<times> worker \<times> node_data \<Rightarrow> bool" where
  "gives es res \<longleftrightarrow> (case res of (t, w, d) \<Rightarrow>
     case es of [] \<Rightarrow> t = Eof | e # es \<Rightarrow> t = event_token e \<and> presents e (nd_tag d) (nd_name d) (nd_value d) \<and> worker_events w = es)"

lemma drop_attributes:
  assumes "i < getNumNames (nn_attributeNames n)"
  shows "drop i (attributes n) = (getNameByIndex (nn_attributeNames n) i, getAttributeByIndex n i) # drop (Suc i) (attributes n)"
proof -
  have "i < length (attributes n)" using assms by (simp add: attributes_def)
  then have "drop i (attributes n) = attributes n ! i # drop (Suc i) (attributes n)" by (rule Cons_nth_drop_Suc [symmetric])
  then show ?thesis using assms by (simp add: attributes_def)
qed

lemma length_attributes: "length (attributes n) = getNumNames (nn_attributeNames n)"
  by (simp add: attributes_def)

lemma worker_gives:
  shows "mode = AllWS \<Longrightarrow> gives (worker_events w) (Worker_readNext mode w d)"
    and "mode = AllWS \<Longrightarrow> gives (worker_events (TagWorker n ch TagContent i child)) (TagWorker_content mode n ch i child d)"
proof (induction mode w d and mode n ch i child d rule: Worker_readNext_TagWorker_content.induct)
  case (1 mode n ch st i child d)
  show ?case
  proof (cases st)
    case TagAttributes
    then show ?thesis using 1 by (cases "i < getNumNames (nn_attributeNames n)")
        (auto simp: Worker_readNext.simps gives_def drop_map drop_attributes length_attributes Let_def)
  qed (use 1 in \<open>auto simp: Worker_readNext.simps gives_def Let_def\<close>)
next
  case (2 mode n st i d)
  show ?case
  proof (cases st)
    case PIAttributes
    then show ?thesis by (cases "i < getNumNames (nn_attributeNames n)")
        (auto simp: Worker_readNext.simps gives_def drop_map drop_attributes length_attributes Let_def)
  qed (auto simp: Worker_readNext.simps gives_def Let_def)
next
  case (3 mode s did d)
  then show ?case by (simp add: Worker_readNext.simps gives_def Let_def)
next
  case (4 mode n ch i child d)
  show ?case
  proof (cases child)
    case None
    show ?thesis
    proof (cases "i < length ch")
      case True
      then have "worker_events (TagWorker n ch TagContent (i + 1) (Some (makeWorker (ch ! i)))) = worker_events (TagWorker n ch TagContent i None)"
        by (simp add: worker_events_make Let_def flip: Cons_nth_drop_Suc)
      then show ?thesis using 4(1) [OF None True 4(4)] None True
        by (simp add: TagWorker_content.simps [of mode n ch i None] del: worker_events.simps)
    next
      case False
      then show ?thesis using None by (simp add: TagWorker_content.simps gives_def Let_def)
    qed
  next
    case (Some w)
    obtain t w' d' where r: "Worker_readNext mode w d = (t, w', d')" by (rule prod_cases3)
    have g: "gives (worker_events w) (t, w', d')" using 4(2) [OF Some 4(4)] r by simp
    show ?thesis
    proof (cases "worker_events w")
      case Nil
      then have "t = Eof" using g by (simp add: gives_def)
      then show ?thesis using 4(3) [OF Some r [symmetric] refl _ 4(4)] Some r Nil
        by (simp add: TagWorker_content.simps [of mode n ch i "Some w" d] Let_def)
    next
      case (Cons e es)
      then show ?thesis using g Some r by (simp add: TagWorker_content.simps gives_def Let_def)
    qed
  qed
qed

text \<open>The events of the worker and of the nodes that wait.\<close>

definition node_reader_events :: "node_reader \<Rightarrow> event list" where
  "node_reader_events r = (case nr_worker r of None \<Rightarrow> [] | Some w \<Rightarrow> worker_events w) @ concat (map node_events (nr_nodes r))"

lemma NodeReader_gives:
  assumes "nr_whitespaceMode r = AllWS" "NodeReader_readNext r = (t, r')"
  shows "nr_whitespaceMode r' = AllWS \<and> (case node_reader_events r of
      [] \<Rightarrow> t = Eof \<and> node_reader_events r' = []
    | e # es \<Rightarrow> t = event_token e \<and> presents e (nd_tag (nr_data r')) (nd_name (nr_data r')) (nd_value (nr_data r')) \<and> node_reader_events r' = es)"
  using assms
proof (induction r rule: NodeReader_readNext.induct)
  case (1 r)
  show ?case
  proof (cases "nr_worker r")
    case None
    then show ?thesis
    proof (cases "nr_nodes r")
      case Nil
      then show ?thesis using None 1(3,4) by (auto simp: NodeReader_readNext.simps [of r] node_reader_events_def)
    next
      case (Cons n ns)
      have "node_reader_events (r\<lparr>nr_worker := Some (makeWorker n), nr_nodes := ns\<rparr>) = node_reader_events r"
        using None Cons by (simp add: node_reader_events_def worker_events_make)
      then show ?thesis using 1(1) [OF None Cons] None Cons 1(3,4) by (simp add: NodeReader_readNext.simps [of r])
    qed
  next
    case (Some w)
    obtain u w' d where w: "Worker_readNext (nr_whitespaceMode r) w (nr_data r) = (u, w', d)" by (rule prod_cases3)
    have g: "gives (worker_events w) (u, w', d)" using worker_gives(1) [OF 1(3), of w "nr_data r"] w by simp
    show ?thesis
    proof (cases "worker_events w")
      case Nil
      then have "u = Eof" using g by (simp add: gives_def)
      moreover have "node_reader_events (r\<lparr>nr_worker := None, nr_data := d\<rparr>) = node_reader_events r"
        using Some Nil by (simp add: node_reader_events_def)
      ultimately show ?thesis using 1(2) [OF Some w [symmetric] refl] Some w 1(3,4) by (simp add: NodeReader_readNext.simps [of r])
    next
      case (Cons e es)
      then show ?thesis using g Some w 1(3,4) by (auto simp: NodeReader_readNext.simps [of r] gives_def node_reader_events_def)
    qed
  qed
qed

interpretation tree: token_source NodeReader_ops "\<lambda>es r. nr_whitespaceMode r = AllWS \<and> node_reader_events r = es"
proof
  fix e es r
  assume r: "nr_whitespaceMode r = AllWS \<and> node_reader_events r = e # es"
  obtain t r' where n: "NodeReader_readNext r = (t, r')" by (rule prod.exhaust)
  show "runs (br_readNext NodeReader_ops) r (\<lambda>t r'. t = event_token e \<and>
      presents e (br_getTag NodeReader_ops r') (br_getName NodeReader_ops r') (br_getValue NodeReader_ops r') \<and>
      nr_whitespaceMode r' = AllWS \<and> node_reader_events r' = es)"
    using NodeReader_gives [OF _ n] r n by (simp add: runs_def NodeReader_ops_def)
next
  fix r
  assume r: "nr_whitespaceMode r = AllWS \<and> node_reader_events r = []"
  obtain t r' where n: "NodeReader_readNext r = (t, r')" by (rule prod.exhaust)
  show "runs (br_readNext NodeReader_ops) r (\<lambda>t r'. t = Eof \<and> nr_whitespaceMode r' = AllWS \<and> node_reader_events r' = [])"
    using NodeReader_gives [OF _ n] r n by (simp add: runs_def NodeReader_ops_def)
qed

section \<open>Reading text\<close>

text \<open>Characters that a sequence takes without quotes, and characters that end it.\<close>

definition plain :: "char_class set \<Rightarrow> nat list \<Rightarrow> bool" where
  "plain A xs \<longleftrightarrow> (\<forall>x\<in>set xs. classOf x \<in> A \<and> x \<noteq> 0x22 \<and> x \<noteq> 0x27)"

definition stops :: "char_class set \<Rightarrow> nat list \<Rightarrow> bool" where
  "stops A xs \<longleftrightarrow> xs = [] \<or> classOf (hd xs) \<notin> A \<and> hd xs \<noteq> 0x22 \<and> hd xs \<noteq> 0x27"

lemma scan_plain: "plain A xs \<Longrightarrow> stops A zs \<Longrightarrow> scan A 0 (xs @ zs) = (xs, zs)"
proof (induction xs)
  case Nil
  then show ?case by (cases zs) (auto simp: stops_def)
qed (auto simp: plain_def)

lemma scan_unquoted: "ProcessQuotes \<notin> A \<Longrightarrow> \<forall>x\<in>set xs. classOf x \<in> A \<Longrightarrow> zs = [] \<or> classOf (hd zs) \<notin> A \<Longrightarrow> scan A 0 (xs @ zs) = (xs, zs)"
proof (induction xs)
  case Nil
  then show ?case by (cases zs) auto
qed auto

lemma scan_quoted:
  assumes "ProcessQuotes \<in> A" "0x22 \<notin> set xs" "stops A zs"
  shows "scan A 0 (0x22 # xs @ 0x22 # zs) = (xs, zs)"
proof -
  have "scan A 0x22 (xs @ 0x22 # zs) = (xs, zs)"
    using assms(2)
  proof (induction xs)
    case Nil
    then show ?case using scan_plain [of A "[]" zs] assms(3) by (simp add: plain_def)
  qed auto
  then show ?thesis using assms(1) by simp
qed

lemma class_of_quote: "classOf 0x22 = AnyChar"
  by (simp add: classOf_def)

text \<open>
  The grammar of the texts considered: the characters, from a state of the reader with a tag on, and the events
  they stand for. The rules for the end of a tag and of a processing instruction give no event.
\<close>

abbreviation tagChars :: "char_class set" where "tagChars \<equiv> - {WhitespaceChar, GTChar, SlashChar}"
abbreviation piChars :: "char_class set" where "piChars \<equiv> - {WhitespaceChar, GTChar, QuesChar}"
abbreviation endChars :: "char_class set" where "endChars \<equiv> - {WhitespaceChar, GTChar}"
abbreviation nameChars :: "char_class set" where "nameChars \<equiv> - {WhitespaceChar, EQChar, GTChar, SlashChar}"
abbreviation piNameChars :: "char_class set" where "piNameChars \<equiv> - {WhitespaceChar, EQChar, QuesChar, GTChar}"

inductive lexes :: "'s reader_env \<Rightarrow> whitespace_mode \<Rightarrow> lex_state \<Rightarrow> string \<Rightarrow> nat list \<Rightarrow> event list \<Rightarrow> bool" for env mode where
  lex_end: "lexes env mode Main tag [] []"
| lex_start: "lexes env mode InTag (encs t) rest es \<Longrightarrow> plain tagChars t \<Longrightarrow> t \<noteq> [] \<Longrightarrow> hd t \<notin> {0x3F, 0x21} \<Longrightarrow> stops tagChars rest \<Longrightarrow>
    lexes env mode Main tag (0x3C # t @ rest) (ETagStart (encs t) # es)"
| lex_attribute: "lexes env mode InTag tag rest es \<Longrightarrow> plain nameChars n \<Longrightarrow> n \<noteq> [] \<Longrightarrow> 0x22 \<notin> set v \<Longrightarrow> stops tagChars rest \<Longrightarrow>
    lexes env mode InTag tag (0x20 # n @ 0x3D # 0x22 # v @ 0x22 # rest)
      (ETagAttribute tag (encs n) (expandEntities (re_expandEntityReference env) (encs v)) # es)"
| lex_content: "lexes env mode Main tag rest es \<Longrightarrow> lexes env mode InTag tag (0x3E # rest) es"
| lex_empty: "lexes env mode Main tag rest es \<Longrightarrow> lexes env mode InTag tag (0x2F # 0x3E # rest) (ETagEnd tag # es)"
| lex_close: "lexes env mode Main (encs t) rest es \<Longrightarrow> plain endChars t \<Longrightarrow>
    lexes env mode Main tag (0x3C # 0x2F # t @ 0x3E # rest) (ETagEnd (encs t) # es)"
| lex_text: "lexes env mode Main tag rest es \<Longrightarrow> x \<noteq> [] \<Longrightarrow> 0x3C \<notin> set x \<Longrightarrow> rest = [] \<or> hd rest = 0x3C \<Longrightarrow>
    mode = AllWS \<or> \<not> isWhitespaceOnly (encs x) \<Longrightarrow> expandEntities (re_expandEntityReference env) (encs x) \<noteq> [] \<Longrightarrow>
    lexes env mode Main tag (x @ rest) (EText (expandEntities (re_expandEntityReference env) (encs x)) # es)"
| lex_pi: "lexes env mode InPI (encs t) rest es \<Longrightarrow> plain piChars t \<Longrightarrow> stops piChars rest \<Longrightarrow> rest \<noteq> [] \<Longrightarrow> t \<noteq> [] \<Longrightarrow>
    lexes env mode Main tag (0x3C # 0x3F # t @ rest) (EPIStart (encs t) # es)"
| lex_pi_attribute: "lexes env mode InPI tag rest es \<Longrightarrow> plain piNameChars n \<Longrightarrow> n \<noteq> [] \<Longrightarrow> 0x22 \<notin> set v \<Longrightarrow> stops piChars rest \<Longrightarrow>
    tag \<noteq> ''xml'' \<or> encs n \<noteq> ''encoding'' \<or> (\<forall>cp. re_createCharset env (encs v) \<noteq> Some (CodepageCharset cp)) \<Longrightarrow>
    lexes env mode InPI tag (0x20 # n @ 0x3D # 0x22 # v @ 0x22 # rest) (EPIAttribute tag (encs n) (encs v) # es)"
| lex_pi_end: "lexes env mode Main tag rest es \<Longrightarrow> lexes env mode InPI tag (0x3F # 0x3E # rest) es"

context xml_input
begin

lemma seqI:
  assumes "upcoming view z xs (rd_source r)" "length xs < fuel" "scan A 0 xs = (ys, zs)"
    "\<And>c. upcoming view z zs c \<Longrightarrow> runs (f (length ys)) (appendTo acc (encs ys) (r\<lparr>rd_source := c\<rparr>)) P"
  shows "runs (bind (readCharacterSequence fuel env A acc) f) r P"
  by (rule runs_bind [OF runs_sequence [OF assms(1-3)]]) (use assms(4) in auto)

lemma nextI:
  assumes "upcoming view z (x # xs) (rd_source r)" "\<And>c. upcoming view z xs c \<Longrightarrow> runs (f ()) (r\<lparr>rd_source := c\<rparr>) P"
  shows "runs (bind (nextChar env) f) r P"
  by (rule runs_bind [OF runs_nextChar [OF assms(1)]]) (use assms(2) in auto)

lemma skipI:
  assumes "upcoming view z (xs @ 0x3E # zs) (rd_source r)" "length (xs @ 0x3E # zs) < fuel" "plain (- {GTChar}) xs"
    "\<And>c. upcoming view z zs c \<Longrightarrow> runs (f ()) (r\<lparr>rd_source := c\<rparr>) P"
  shows "runs (bind (skipTag fuel env) f) r P"
proof -
  have "scan (- {GTChar}) 0 (xs @ 0x3E # zs) = (xs, 0x3E # zs)" using assms(3) by (rule scan_plain) (simp add: stops_def)
  then show ?thesis unfolding skipTag_def bind_assoc
    by (rule seqI [OF assms(1,2)]) (simp, rule nextI, auto intro: assms(4))
qed

lemma tokenI:
  assumes "haveCurrent r" "runs (case rd_state r of Main \<Rightarrow> readMain fuel env | InTag \<Rightarrow> readInTag fuel env | InPI \<Rightarrow> readInPI fuel env)
      (r\<lparr>rd_tagPos := cs_charPos (rd_source r)\<rparr>) P"
  shows "runs (readNextToken fuel env) r P"
  using assms by (simp add: readNextToken_def runs_def bind_def)

definition arrives :: "nat \<Rightarrow> lex_state \<Rightarrow> string \<Rightarrow> whitespace_mode \<Rightarrow> nat list \<Rightarrow> 's reader \<Rightarrow> bool" where
  "arrives z st tag mode xs r \<longleftrightarrow> rd_state r = st \<and> rd_tag r = tag \<and> rd_whitespaceMode r = mode \<and> upcoming view z xs (rd_source r)"

lemma white_none: "xs \<noteq> [] \<Longrightarrow> classOf (hd xs) \<noteq> WhitespaceChar \<Longrightarrow> scan {WhitespaceChar} 0 xs = ([], xs)"
  by (cases xs) auto

lemma plain_hd: "plain A xs \<Longrightarrow> xs \<noteq> [] \<Longrightarrow> classOf (hd xs) \<in> A"
  by (cases xs) (auto simp: plain_def)

lemma token_start:
  assumes "arrives z Main tag mode (0x3C # t @ rest) r" "length (t @ rest) < fuel"
    "plain tagChars t" "t \<noteq> []" "hd t \<notin> {0x3F, 0x21}" "stops tagChars rest"
  shows "runs (readNextToken fuel env) r (\<lambda>k r'. k = TagStart \<and> arrives z InTag (encs t) mode rest r')"
proof -
  have a: "upcoming view z (0x3C # t @ rest) (rd_source r)" "rd_state r = Main" "rd_whitespaceMode r = mode"
    using assms(1) by (simp_all add: arrives_def)
  have h: "classOf (hd t) \<in> tagChars" using plain_hd assms(3,4) by blast
  have w: "scan {WhitespaceChar} 0 (t @ rest) = ([], t @ rest)" using h assms(4) by (intro white_none) auto
  have cur: "cs_haveCurrentCharacter c" "cs_currentCharacter c = hd t" if "upcoming view z (t @ rest) c" for c
    using that assms(4) by (cases t; auto simp: upcoming_simps)+
  have "runs (bind (nextChar env) (\<lambda>_. readMarkup fuel env)) (r\<lparr>rd_tagPos := cs_charPos (rd_source r)\<rparr>)
      (\<lambda>k r'. k = TagStart \<and> arrives z InTag (encs t) mode rest r')"
    unfolding readMarkup_def
    by (rule nextI [where z = z and x = "0x3C" and xs = "t @ rest"], simp add: a(1), rule seqI [OF _ assms(2) w, where z = z], simp)
      (use h assms(2,5) in \<open>auto simp: cur arrives_def a intro!: seqI [OF _ assms(2) scan_plain [OF assms(3,6)], where z = z]\<close>)
  then show ?thesis using a by (intro tokenI) (auto simp: upcoming_simps readMain_def)
qed

lemma token_close:
  assumes "arrives z Main tag mode (0x3C # 0x2F # t @ 0x3E # rest) r" "length (0x2F # t @ 0x3E # rest) < fuel" "plain endChars t"
  shows "runs (readNextToken fuel env) r (\<lambda>k r'. k = TagEnd \<and> arrives z Main (encs t) mode rest r')"
proof -
  have a: "upcoming view z (0x3C # 0x2F # t @ 0x3E # rest) (rd_source r)" "rd_state r = Main" "rd_whitespaceMode r = mode"
    using assms(1) by (simp_all add: arrives_def)
  have w: "scan {WhitespaceChar} 0 (0x2F # t @ 0x3E # rest) = ([], 0x2F # t @ 0x3E # rest)" by (intro white_none) (auto simp: classOf_def)
  have w': "scan {WhitespaceChar} 0 (t @ 0x3E # rest) = ([], t @ 0x3E # rest)"
    using plain_hd [OF assms(3)] by (intro white_none) (cases t; auto simp: classOf_def)+
  have t: "scan endChars 0 (t @ 0x3E # rest) = (t, 0x3E # rest)" by (rule scan_plain [OF assms(3)]) (simp add: stops_def)
  have "runs (bind (nextChar env) (\<lambda>_. readMarkup fuel env)) (r\<lparr>rd_tagPos := cs_charPos (rd_source r)\<rparr>)
      (\<lambda>k r'. k = TagEnd \<and> arrives z Main (encs t) mode rest r')"
    unfolding readMarkup_def
    by (rule nextI [where z = z and x = "0x3C" and xs = "0x2F # t @ 0x3E # rest"], simp add: a(1), rule seqI [OF _ assms(2) w, where z = z], simp)
      (use assms(2) in \<open>auto simp: upcoming_simps arrives_def a plain_def intro!: nextI [where z = z and x = "0x2F" and xs = "t @ 0x3E # rest"]
        seqI [OF _ _ w', where z = z] seqI [OF _ _ t, where z = z] skipI [where z = z and xs = "[]" and zs = rest]\<close>)
  then show ?thesis using a by (intro tokenI) (auto simp: upcoming_simps readMain_def)
qed

lemma token_pi:
  assumes "arrives z Main tag mode (0x3C # 0x3F # t @ rest) r" "length (0x3F # t @ rest) < fuel" "plain piChars t" "t \<noteq> []" "stops piChars rest"
  shows "runs (readNextToken fuel env) r (\<lambda>k r'. k = PIStart \<and> arrives z InPI (encs t) mode rest r')"
proof -
  have a: "upcoming view z (0x3C # 0x3F # t @ rest) (rd_source r)" "rd_state r = Main" "rd_whitespaceMode r = mode"
    using assms(1) by (simp_all add: arrives_def)
  have w: "scan {WhitespaceChar} 0 (0x3F # t @ rest) = ([], 0x3F # t @ rest)" by (intro white_none) (auto simp: classOf_def)
  have w': "scan {WhitespaceChar} 0 (t @ rest) = ([], t @ rest)"
    using plain_hd [OF assms(3,4)] assms(4) by (intro white_none) auto
  have "runs (bind (nextChar env) (\<lambda>_. readMarkup fuel env)) (r\<lparr>rd_tagPos := cs_charPos (rd_source r)\<rparr>)
      (\<lambda>k r'. k = PIStart \<and> arrives z InPI (encs t) mode rest r')"
    unfolding readMarkup_def
    by (rule nextI [where z = z and x = "0x3C" and xs = "0x3F # t @ rest"], simp add: a(1), rule seqI [OF _ assms(2) w, where z = z], simp)
      (use assms(2) in \<open>auto simp: upcoming_simps arrives_def a intro!: nextI [where z = z and x = "0x3F" and xs = "t @ rest"]
        seqI [OF _ _ w', where z = z] seqI [OF _ _ scan_plain [OF assms(3,5)], where z = z]\<close>)
  then show ?thesis using a by (intro tokenI) (auto simp: upcoming_simps readMain_def)
qed

lemma token_text:
  assumes "arrives z Main tag mode (x @ rest) r" "length (x @ rest) < fuel" "x \<noteq> []" "0x3C \<notin> set x" "rest = [] \<or> hd rest = 0x3C"
    "mode = AllWS \<or> \<not> isWhitespaceOnly (encs x)"
  shows "runs (readNextToken fuel env) r (\<lambda>k r'. k = Text \<and> rd_value r' = expandEntities (re_expandEntityReference env) (encs x) \<and>
    arrives z Main tag mode rest r')"
proof -
  have a: "upcoming view z (x @ rest) (rd_source r)" "rd_state r = Main" "rd_whitespaceMode r = mode" "rd_tag r = tag"
    using assms(1) by (simp_all add: arrives_def)
  have cur: "haveCurrent r" "current r = hd x" using a(1) assms(3) by (cases x; auto simp: upcoming_simps)+
  have "scan (- {LTChar, ProcessQuotes}) 0 (x @ rest) = (x, rest)"
    using assms(4,5) by (intro scan_unquoted) (auto)
  then have "runs (bind clearValue (\<lambda>_. bind (readCharacterSequence fuel env (- {LTChar, ProcessQuotes}) ToValue) (\<lambda>_.
       bind (modify (finishText env)) (\<lambda>_. ret Text)))) (r\<lparr>rd_tagPos := cs_charPos (rd_source r)\<rparr>)
      (\<lambda>k r'. k = Text \<and> rd_value r' = expandEntities (re_expandEntityReference env) (encs x) \<and> arrives z Main tag mode rest r')"
    using a assms(2,6) by (auto intro!: seqI [where z = z] simp: finishText_def arrives_def)
  moreover have "hd x \<noteq> 0x3C" using assms(3,4) by (cases x) auto
  ultimately show ?thesis using a cur by (intro tokenI) (auto simp: readMain_def runs_def)
qed

lemma token_content:
  assumes "arrives z InTag tag mode (0x3E # rest) r" "length (0x3E # rest) < fuel"
  shows "runs (readNextToken fuel env) r (\<lambda>k r'. k = Null \<and> arrives z Main tag mode rest r')"
proof -
  have a: "upcoming view z (0x3E # rest) (rd_source r)" "rd_state r = InTag" "rd_whitespaceMode r = mode" "rd_tag r = tag"
    using assms(1) by (simp_all add: arrives_def)
  have w: "scan {WhitespaceChar} 0 (0x3E # rest) = ([], 0x3E # rest)" by (intro white_none) (auto simp: classOf_def)
  have "runs (readInTag fuel env) (r\<lparr>rd_tagPos := cs_charPos (rd_source r)\<rparr>) (\<lambda>k r'. k = Null \<and> arrives z Main tag mode rest r')"
    unfolding readInTag_def
    by (rule seqI [OF _ assms(2) w, where z = z], simp add: a(1))
      (auto simp: upcoming_simps arrives_def a intro!: nextI [where z = z and x = "0x3E" and xs = rest])
  then show ?thesis using a by (intro tokenI) (auto simp: upcoming_simps)
qed

lemma token_empty:
  assumes "arrives z InTag tag mode (0x2F # 0x3E # rest) r" "length (0x2F # 0x3E # rest) < fuel"
  shows "runs (readNextToken fuel env) r (\<lambda>k r'. k = TagEnd \<and> arrives z Main tag mode rest r')"
proof -
  have a: "upcoming view z (0x2F # 0x3E # rest) (rd_source r)" "rd_state r = InTag" "rd_whitespaceMode r = mode" "rd_tag r = tag"
    using assms(1) by (simp_all add: arrives_def)
  have w: "scan {WhitespaceChar} 0 (0x2F # 0x3E # rest) = ([], 0x2F # 0x3E # rest)" by (intro white_none) (auto simp: classOf_def)
  have "runs (readInTag fuel env) (r\<lparr>rd_tagPos := cs_charPos (rd_source r)\<rparr>) (\<lambda>k r'. k = TagEnd \<and> arrives z Main tag mode rest r')"
    unfolding readInTag_def
    by (rule seqI [OF _ assms(2) w, where z = z], simp add: a(1))
      (use assms(2) in \<open>auto simp: upcoming_simps arrives_def a plain_def intro!: skipI [where z = z and xs = "[0x2F]" and zs = rest]\<close>)
  then show ?thesis using a by (intro tokenI) (auto simp: upcoming_simps)
qed

lemma token_pi_end:
  assumes "arrives z InPI tag mode (0x3F # 0x3E # rest) r" "length (0x3F # 0x3E # rest) < fuel"
  shows "runs (readNextToken fuel env) r (\<lambda>k r'. k = Null \<and> arrives z Main tag mode rest r')"
proof -
  have a: "upcoming view z (0x3F # 0x3E # rest) (rd_source r)" "rd_state r = InPI" "rd_whitespaceMode r = mode" "rd_tag r = tag"
    using assms(1) by (simp_all add: arrives_def)
  have w: "scan {WhitespaceChar} 0 (0x3F # 0x3E # rest) = ([], 0x3F # 0x3E # rest)" by (intro white_none) (auto simp: classOf_def)
  have "runs (readInPI fuel env) (r\<lparr>rd_tagPos := cs_charPos (rd_source r)\<rparr>) (\<lambda>k r'. k = Null \<and> arrives z Main tag mode rest r')"
    unfolding readInPI_def
    by (rule seqI [OF _ assms(2) w, where z = z], simp add: a(1))
      (use assms(2) in \<open>auto simp: upcoming_simps arrives_def a plain_def intro!: skipI [where z = z and xs = "[0x3F]" and zs = rest]\<close>)
  then show ?thesis using a by (intro tokenI) (auto simp: upcoming_simps)
qed

text \<open>The name and the value of an attribute, for tags and processing instructions.\<close>

lemma name_scans:
  assumes "plain A n" "n \<noteq> []" "A \<in> {nameChars, piNameChars}" "xs = 0x3D # ys"
  shows "scan {WhitespaceChar} 0 (0x20 # n @ xs) = ([0x20], n @ xs)" "scan A 0 (n @ xs) = (n, xs)" "scan {WhitespaceChar} 0 xs = ([], xs)"
proof -
  have "classOf (hd n) \<noteq> WhitespaceChar" using plain_hd [OF assms(1,2)] assms(3) by auto
  then have "scan {WhitespaceChar} 0 (n @ xs) = ([], n @ xs)" using assms(2) by (intro white_none) auto
  then show "scan {WhitespaceChar} 0 (0x20 # n @ xs) = ([0x20], n @ xs)" by (simp add: classOf_def)
  show "scan A 0 (n @ xs) = (n, xs)" by (rule scan_plain [OF assms(1)]) (use assms(3,4) in \<open>auto simp: stops_def\<close>)
  show "scan {WhitespaceChar} 0 xs = ([], xs)" unfolding assms(4) by (intro white_none) (auto simp: classOf_def)
qed

lemma quote_no_white: "scan {WhitespaceChar} 0 (0x22 # xs) = ([], 0x22 # xs)"
  by (simp add: classOf_def)

lemma runs_readTagValue_quoted:
  assumes "upcoming view z (0x3D # 0x22 # v @ 0x22 # rest) (rd_source r)" "length (0x22 # v @ 0x22 # rest) < fuel" "0x22 \<notin> set v" "stops tagChars rest"
  shows "runs (readTagValue fuel env) r (\<lambda>k r'. k = TagAttribute \<and>
    (\<exists>c. r' = r\<lparr>rd_source := c, rd_value := expandEntities (re_expandEntityReference env) (encs v)\<rparr> \<and> upcoming view z rest c))"
proof -
  have q: "scan tagChars 0 (0x22 # v @ 0x22 # rest) = (v, rest)" by (rule scan_quoted) (use assms(3,4) in auto)
  have "runs (bind (nextChar env) (\<lambda>_. bind clearValue (\<lambda>_.
       bind (readCharacterSequence fuel env {WhitespaceChar} NoAccum) (\<lambda>_.
       bind (readCharacterSequence fuel env tagChars ToValue) (\<lambda>_.
       bind (modify (\<lambda>r. r\<lparr>rd_value := expandEntities (re_expandEntityReference env) (rd_value r)\<rparr>)) (\<lambda>_. ret TagAttribute))))))
     r (\<lambda>k r'. k = TagAttribute \<and>
    (\<exists>c. r' = r\<lparr>rd_source := c, rd_value := expandEntities (re_expandEntityReference env) (encs v)\<rparr> \<and> upcoming view z rest c))"
    by (rule nextI [OF assms(1)])
      (use assms(2) in \<open>auto intro!: seqI [OF _ assms(2) quote_no_white, where z = z] seqI [OF _ assms(2) q, where z = z]\<close>)
  then show ?thesis using assms(1) by (simp add: readTagValue_def upcoming_simps runs_def)
qed

lemma token_attribute:
  assumes "arrives z InTag tag mode (0x20 # n @ 0x3D # 0x22 # v @ 0x22 # rest) r" "length (0x20 # n @ 0x3D # 0x22 # v @ 0x22 # rest) < fuel"
    "plain nameChars n" "n \<noteq> []" "0x22 \<notin> set v" "stops tagChars rest"
  shows "runs (readNextToken fuel env) r (\<lambda>k r'. k = TagAttribute \<and> rd_name r' = encs n \<and>
    rd_value r' = expandEntities (re_expandEntityReference env) (encs v) \<and> arrives z InTag tag mode rest r')"
proof -
  let ?v = "0x3D # 0x22 # v @ 0x22 # rest"
  have a: "upcoming view z (0x20 # n @ ?v) (rd_source r)" "rd_state r = InTag" "rd_whitespaceMode r = mode" "rd_tag r = tag"
    using assms(1) by (simp_all add: arrives_def)
  have "nameChars \<in> {nameChars, piNameChars}" by simp
  note sc = name_scans [OF assms(3,4) this refl, of "0x22 # v @ 0x22 # rest"]
  have h: "classOf (hd n) \<in> nameChars" using plain_hd assms(3,4) by blast
  have attr: "runs (readTagAttribute fuel env) r' (\<lambda>k r'. k = TagAttribute \<and> rd_name r' = encs n \<and>
    rd_value r' = expandEntities (re_expandEntityReference env) (encs v) \<and> arrives z InTag tag mode rest r')"
    if "arrives z InTag tag mode (n @ ?v) r'" for r'
    unfolding readTagAttribute_def runs_simps
    by (rule seqI [OF _ _ sc(2), where z = z], use that assms(2) in \<open>simp_all add: arrives_def\<close>,
        rule seqI [OF _ _ sc(3), where z = z], simp_all)
      (rule runs_mono [OF runs_readTagValue_quoted], use assms in \<open>auto simp: arrives_def\<close>)
  have "runs (readInTag fuel env) (r\<lparr>rd_tagPos := cs_charPos (rd_source r)\<rparr>) (\<lambda>k r'. k = TagAttribute \<and> rd_name r' = encs n \<and>
    rd_value r' = expandEntities (re_expandEntityReference env) (encs v) \<and> arrives z InTag tag mode rest r')"
    unfolding readInTag_def
  proof (rule seqI [OF _ assms(2) sc(1), where z = z])
    fix c assume c: "upcoming view z (n @ ?v) c"
    have "cs_haveCurrentCharacter c" "cs_currentCharacter c = hd n" using c assms(4) by (cases n; auto simp: upcoming_simps)+
    then show "runs (\<lambda>r. if \<not> haveCurrent r then (Inr Eof, r)
       else if current r = 0x2F then bind (skipTag fuel env) (\<lambda>_. bind (setState Main) (\<lambda>_. ret TagEnd)) r
       else if current r = 0x3E then bind (nextChar env) (\<lambda>_. bind (setState Main) (\<lambda>_. ret Null)) r
       else readTagAttribute fuel env r) (appendTo NoAccum (encs [0x20]) (r\<lparr>rd_tagPos := cs_charPos (rd_source r), rd_source := c\<rparr>))
      (\<lambda>k r'. k = TagAttribute \<and> rd_name r' = encs n \<and>
        rd_value r' = expandEntities (re_expandEntityReference env) (encs v) \<and> arrives z InTag tag mode rest r')"
      using attr h c a by (auto simp: arrives_def)
  qed (use a(1) in simp)
  then show ?thesis using a by (intro tokenI) (auto simp: upcoming_simps)
qed

lemma runs_readPIValue_quoted:
  assumes "upcoming view z (0x3D # 0x22 # v @ 0x22 # rest) (rd_source r)" "length (0x22 # v @ 0x22 # rest) < fuel" "0x22 \<notin> set v" "stops piChars rest"
    "rd_tag r \<noteq> ''xml'' \<or> rd_name r \<noteq> ''encoding'' \<or> (\<forall>cp. re_createCharset env (encs v) \<noteq> Some (CodepageCharset cp))"
  shows "runs (readPIValue fuel env) r (\<lambda>k r'. k = PIAttribute \<and>
    (\<exists>c. r' = r\<lparr>rd_source := c, rd_value := encs v\<rparr> \<and> upcoming view z rest c))"
proof -
  have set: "- {WhitespaceChar, QuesChar, GTChar} = piChars" by auto
  have q: "scan piChars 0 (0x22 # v @ 0x22 # rest) = (v, rest)" by (rule scan_quoted) (use assms(3,4) in auto)
  have check: "\<exists>c'. checkEncoding env (r\<lparr>rd_source := c, rd_value := encs v\<rparr>) = r\<lparr>rd_source := c', rd_value := encs v\<rparr> \<and> upcoming view z rest c'"
    if "upcoming view z rest c" for c
  proof (cases "rd_tag r \<noteq> ''xml'' \<or> rd_name r \<noteq> ''encoding''")
    case True
    then show ?thesis using that by (intro exI [of _ c]) (auto simp: checkEncoding_def)
  next
    case False
    then have "checkEncoding env (r\<lparr>rd_source := c, rd_value := encs v\<rparr>) = r\<lparr>rd_source := c\<lparr>cs_codepage := None, cs_encoding := Utf8\<rparr>, rd_value := encs v\<rparr>"
      using assms(5) that by (auto simp: checkEncoding_def upcoming_simps split: option.split charset.split)
    moreover have "upcoming view z rest (c\<lparr>cs_codepage := None, cs_encoding := Utf8\<rparr>)" using that by (simp add: upcoming_def remains_def)
    ultimately show ?thesis by blast
  qed
  have "runs (bind (nextChar env) (\<lambda>_. bind clearValue (\<lambda>_.
       bind (readCharacterSequence fuel env {WhitespaceChar} NoAccum) (\<lambda>_.
       bind (readCharacterSequence fuel env piChars ToValue) (\<lambda>_.
       bind (modify (checkEncoding env)) (\<lambda>_. ret PIAttribute))))))
     r (\<lambda>k r'. k = PIAttribute \<and> (\<exists>c. r' = r\<lparr>rd_source := c, rd_value := encs v\<rparr> \<and> upcoming view z rest c))"
    by (rule nextI [OF assms(1)])
      (use assms(2) check in \<open>auto intro!: seqI [OF _ assms(2) quote_no_white, where z = z] seqI [OF _ assms(2) q, where z = z]\<close>)
  then show ?thesis using assms(1) unfolding readPIValue_def set
    by (simp add: upcoming_simps runs_def bind_assoc bind_ret del: action_apply bind_apply_simps)
qed

lemma token_pi_attribute:
  assumes "arrives z InPI tag mode (0x20 # n @ 0x3D # 0x22 # v @ 0x22 # rest) r" "length (0x20 # n @ 0x3D # 0x22 # v @ 0x22 # rest) < fuel"
    "plain piNameChars n" "n \<noteq> []" "0x22 \<notin> set v" "stops piChars rest"
    "tag \<noteq> ''xml'' \<or> encs n \<noteq> ''encoding'' \<or> (\<forall>cp. re_createCharset env (encs v) \<noteq> Some (CodepageCharset cp))"
  shows "runs (readNextToken fuel env) r (\<lambda>k r'. k = PIAttribute \<and> rd_name r' = encs n \<and> rd_value r' = encs v \<and> arrives z InPI tag mode rest r')"
proof -
  let ?v = "0x3D # 0x22 # v @ 0x22 # rest"
  have a: "upcoming view z (0x20 # n @ ?v) (rd_source r)" "rd_state r = InPI" "rd_whitespaceMode r = mode" "rd_tag r = tag"
    using assms(1) by (simp_all add: arrives_def)
  have "piNameChars \<in> {nameChars, piNameChars}" by simp
  note sc = name_scans [OF assms(3,4) this refl, of "0x22 # v @ 0x22 # rest"]
  have h: "classOf (hd n) \<in> piNameChars" using plain_hd assms(3,4) by blast
  have attr: "runs (readPIAttribute fuel env) r' (\<lambda>k r'. k = PIAttribute \<and> rd_name r' = encs n \<and> rd_value r' = encs v \<and> arrives z InPI tag mode rest r')"
    if "arrives z InPI tag mode (n @ ?v) r'" for r'
    unfolding readPIAttribute_def runs_simps
    by (rule seqI [OF _ _ sc(2), where z = z], use that assms(2) in \<open>simp_all add: arrives_def\<close>,
        rule seqI [OF _ _ sc(3), where z = z], simp_all)
      (rule runs_mono [OF runs_readPIValue_quoted], use assms in \<open>auto simp: arrives_def\<close>)
  have "runs (readInPI fuel env) (r\<lparr>rd_tagPos := cs_charPos (rd_source r)\<rparr>)
    (\<lambda>k r'. k = PIAttribute \<and> rd_name r' = encs n \<and> rd_value r' = encs v \<and> arrives z InPI tag mode rest r')"
    unfolding readInPI_def
  proof (rule seqI [OF _ assms(2) sc(1), where z = z])
    fix c assume c: "upcoming view z (n @ ?v) c"
    have "cs_haveCurrentCharacter c" "cs_currentCharacter c = hd n" using c assms(4) by (cases n; auto simp: upcoming_simps)+
    then show "runs (\<lambda>r. if \<not> haveCurrent r then (Inr Eof, r)
       else if current r = 0x3F \<or> current r = 0x3E then bind (skipTag fuel env) (\<lambda>_. bind (setState Main) (\<lambda>_. ret Null)) r
       else readPIAttribute fuel env r) (appendTo NoAccum (encs [0x20]) (r\<lparr>rd_tagPos := cs_charPos (rd_source r), rd_source := c\<rparr>))
      (\<lambda>k r'. k = PIAttribute \<and> rd_name r' = encs n \<and> rd_value r' = encs v \<and> arrives z InPI tag mode rest r')"
      using attr h c a by (auto simp: arrives_def)
  qed (use a(1) in simp)
  then show ?thesis using a by (intro tokenI) (auto simp: upcoming_simps)
qed

text \<open>Reading follows the grammar.\<close>

definition lexing :: "nat \<Rightarrow> whitespace_mode \<Rightarrow> nat \<Rightarrow> event list \<Rightarrow> 's reader \<Rightarrow> bool" where
  "lexing fuel mode z es r \<longleftrightarrow>
     (\<exists>st tag xs. lexes env mode st tag xs es \<and> arrives z st tag mode xs r \<and> Suc (length xs) < fuel)"

lemma readNext_token:
  assumes "runs (readNextToken fuel env) r (\<lambda>k r'. k = t \<and> Q r')" "t \<noteq> Null" "t = Text \<longrightarrow> (\<forall>r'. Q r' \<longrightarrow> rd_value r' \<noteq> [])"
  shows "runs (Reader_readNext (Suc fuel) env) r (\<lambda>k r'. k = t \<and> Q r')"
  unfolding Reader_readNext.simps by (rule runs_bind [OF assms(1)]) (use assms(2,3) in auto)

lemma readNext_null:
  assumes "runs (readNextToken fuel env) r (\<lambda>k r'. k = Null \<and> Q r')" "\<And>r'. Q r' \<Longrightarrow> runs (Reader_readNext fuel env) r' P"
  shows "runs (Reader_readNext (Suc fuel) env) r P"
  unfolding Reader_readNext.simps by (rule runs_bind [OF assms(1)]) (use assms(2) in auto)

definition follows :: "nat \<Rightarrow> whitespace_mode \<Rightarrow> nat \<Rightarrow> event list \<Rightarrow> token \<Rightarrow> 's reader \<Rightarrow> bool" where
  "follows fuel mode z es t r \<longleftrightarrow> (case es of
     [] \<Rightarrow> t = Eof \<and> lexing fuel mode z [] r
   | e # es \<Rightarrow> t = event_token e \<and> presents e (rd_tag r) (rd_name r) (rd_value r) \<and> lexing fuel mode z es r)"

lemma follows_token:
  assumes "runs (readNextToken (fuel - 1) env) r (\<lambda>k r'. k = event_token e \<and> presents e (rd_tag r') (rd_name r') (rd_value r') \<and> arrives z st tag mode rest r')"
    "lexes env mode st tag rest es" "Suc (length rest) < limit" "0 < fuel" "\<And>v. e = EText v \<Longrightarrow> v \<noteq> []"
  shows "runs (Reader_readNext fuel env) r (follows limit mode z (e # es))"
proof -
  obtain f where f: "fuel = Suc f" using assms(4) by (cases fuel) auto
  have "runs (Reader_readNext (Suc f) env) r (\<lambda>k r'. k = event_token e \<and> presents e (rd_tag r') (rd_name r') (rd_value r') \<and> arrives z st tag mode rest r')"
    by (rule readNext_token) (use assms(1,5) f in \<open>cases e; auto\<close>)+
  then show ?thesis unfolding f
    by (rule runs_mono) (use assms(2,3) in \<open>auto simp: follows_def lexing_def\<close>)
qed

lemma lexing_next:
  assumes "lexes env mode st tag xs es"
  shows "arrives z st tag mode xs r \<Longrightarrow> Suc (length xs) < fuel \<Longrightarrow> fuel \<le> limit \<Longrightarrow> runs (Reader_readNext fuel env) r (follows limit mode z es)"
  using assms
proof (induction arbitrary: r fuel rule: lexes.induct)
  case (lex_end tag)
  have "readNextToken (fuel - 1) env r = (Inr Eof, r)"
    using lex_end(1) by (auto simp: arrives_def readNextToken_def upcoming_simps)
  moreover have "lexing limit mode z [] r" using lex_end lexes.lex_end [of env mode tag] unfolding lexing_def by fastforce
  ultimately show ?case using lex_end(2) by (cases fuel) (auto simp: runs_def bind_def follows_def)
next
  case (lex_start t rest es tag)
  show ?case
    by (rule follows_token [OF _ lex_start(1)], rule runs_mono [OF token_start])
      (use lex_start in \<open>auto simp: arrives_def\<close>)
next
  case (lex_attribute tag rest es n v)
  show ?case
    by (rule follows_token [OF _ lex_attribute(1)], rule runs_mono [OF token_attribute])
      (use lex_attribute in \<open>auto simp: arrives_def\<close>)
next
  case (lex_content tag rest es)
  then obtain f where f: "fuel = Suc f" by (cases fuel) auto
  show ?case unfolding f by (rule readNext_null [OF token_content]) (use lex_content f in auto)
next
  case (lex_empty tag rest es)
  show ?case
    by (rule follows_token [OF _ lex_empty(1)], rule runs_mono [OF token_empty])
      (use lex_empty in \<open>auto simp: arrives_def\<close>)
next
  case (lex_close t rest es tag)
  show ?case
    by (rule follows_token [OF _ lex_close(1)], rule runs_mono [OF token_close])
      (use lex_close in \<open>auto simp: arrives_def\<close>)
next
  case (lex_text tag rest es x)
  show ?case
    by (rule follows_token [OF _ lex_text(1)], rule runs_mono [OF token_text])
      (use lex_text in \<open>auto simp: arrives_def\<close>)
next
  case (lex_pi t rest es tag)
  show ?case
    by (rule follows_token [OF _ lex_pi(1)], rule runs_mono [OF token_pi [OF lex_pi.prems(1) _ lex_pi(2,5,3)]])
      (use lex_pi in \<open>auto simp: arrives_def\<close>)
next
  case (lex_pi_attribute tag rest es n v)
  show ?case
    by (rule follows_token [OF _ lex_pi_attribute(1)], rule runs_mono [OF token_pi_attribute])
      (use lex_pi_attribute in \<open>auto simp: arrives_def\<close>)
next
  case (lex_pi_end tag rest es)
  then obtain f where f: "fuel = Suc f" by (cases fuel) auto
  show ?case unfolding f by (rule readNext_null [OF token_pi_end]) (use lex_pi_end f in auto)
qed

lemma runs_lexing:
  assumes "lexing fuel mode z es r"
  shows "runs (Reader_readNext fuel env) r (follows fuel mode z es)"
  using assms lexing_next unfolding lexing_def by blast

end

interpretation written: token_source "Reader_ops fuel (xml_env factory)" "xml_input.lexing (xml_env factory) internal_view fuel mode z"
proof
  fix e es r
  assume "xml_input.lexing (xml_env factory) internal_view fuel mode z (e # es) r"
  from xml_internal.runs_lexing [OF this]
  show "runs (br_readNext (Reader_ops fuel (xml_env factory))) r (\<lambda>t r'. t = event_token e \<and>
      presents e (br_getTag (Reader_ops fuel (xml_env factory)) r') (br_getName (Reader_ops fuel (xml_env factory)) r')
        (br_getValue (Reader_ops fuel (xml_env factory)) r') \<and> xml_input.lexing (xml_env factory) internal_view fuel mode z es r')"
    unfolding xml_internal.follows_def by (simp add: Reader_ops_def)
next
  fix r
  assume "xml_input.lexing (xml_env factory) internal_view fuel mode z [] r"
  from xml_internal.runs_lexing [OF this]
  show "runs (br_readNext (Reader_ops fuel (xml_env factory))) r (\<lambda>t r'. t = Eof \<and> xml_input.lexing (xml_env factory) internal_view fuel mode z [] r')"
    unfolding xml_internal.follows_def by (simp add: Reader_ops_def)
qed

section \<open>Entities\<close>

lemma expand_plain: "c \<noteq> CHR ''&'' \<Longrightarrow> expandEntities f (c # s) = c # expandEntities f s"
  by (subst (1 2) expandEntities.simps) (simp add: Let_def)

lemma expand_reference: "CHR '';'' \<notin> set name \<Longrightarrow> expandEntities f (CHR ''&'' # name @ CHR '';'' # s) = f name @ expandEntities f s"
  by (subst expandEntities.simps) (simp add: Let_def takeWhile_append2)

lemma expand_Nil: "expandEntities f [] = []"
  by (subst expandEntities.simps) simp

lemma expand_escape: "expandEntities expandEntityReference (escape s) = s"
proof (induction s)
  case (Cons c s)
  have ref: "expandEntities expandEntityReference (CHR ''&'' # name @ CHR '';'' # escape s) = expandEntityReference name @ s"
    if "CHR '';'' \<notin> set name" for name using expand_reference [OF that] Cons.IH by simp
  have val: "expandEntityReference ''lt'' = ''<''" "expandEntityReference ''gt'' = ''>''" "expandEntityReference ''amp'' = ''&''"
    "expandEntityReference ''quot'' = [CHR 0x22]" by (simp_all add: expandEntityReference_def)
  have "expandEntities expandEntityReference (escapeXml c @ escape s) = c # s"
    using ref [of "''lt''"] ref [of "''gt''"] ref [of "''amp''"] ref [of "''quot''"] Cons.IH
    by (auto simp: escapeXml_def expand_plain val)
  then show ?case by (simp add: escape_def)
qed (simp add: escape_def expand_Nil)

section \<open>Text as characters\<close>

definition chars :: "string \<Rightarrow> nat list" where "chars s = decode {} s"

definition well_encoded :: "string \<Rightarrow> bool" where
  "well_encoded s \<longleftrightarrow> encs (chars s) = s \<and> (\<forall>x\<in>set (chars s). 0 < x \<and> x < 0x10000)"

definition escape_char :: "nat \<Rightarrow> nat list" where
  "escape_char x = (if x < 0x80 then map of_char (escapeXml (byte x)) else [x])"

lemma encs_ascii: "\<forall>c\<in>set s. of_char c < (0x80 :: nat) \<Longrightarrow> encs (map of_char s) = s"
  by (induction s) (auto simp: Utf8_append_def)

lemma escape_char_enc:
  assumes "x < 0x10000"
  shows "encs (escape_char x) = concat (map escapeXml (enc x))"
proof (cases "x < 0x80")
  case True
  then have "enc x = [byte x]" by (simp add: Utf8_append_def)
  moreover have "\<forall>c\<in>set (escapeXml (byte x)). of_char c < (0x80 :: nat)" using True by (auto simp: escapeXml_def)
  ultimately show ?thesis using True encs_ascii by (simp add: escape_char_def)
next
  case False
  have high: "escapeXml (byte m) = [byte m]" if "0x80 \<le> m" "m < 256" for m
  proof -
    have "byte m \<noteq> c" if "of_char c < (0x80 :: nat)" for c using that \<open>0x80 \<le> m\<close> \<open>m < 256\<close> by auto
    then show ?thesis by (simp add: escapeXml_def)
  qed
  show ?thesis using enc_cases [OF assms] False assms by (auto simp: escape_char_def high)
qed

lemma byte_ascii: "byte 0x22 = CHR 0x22" "byte 0x3C = CHR ''<''"
  using byte_of_char [of "CHR 0x22"] byte_of_char [of "CHR ''<''"] by simp_all

lemma escape_char_set: "x \<in> set (escape_char c) \<Longrightarrow> 0 < c \<Longrightarrow> c < 0x10000 \<Longrightarrow> 0 < x \<and> x < 0x10000 \<and> x \<noteq> 0x22 \<and> x \<noteq> 0x3C"
  by (auto simp: escape_char_def escapeXml_def byte_ascii split: if_splits)

section \<open>What the writer writes\<close>

definition echars :: "string \<Rightarrow> nat list" where "echars s = concat (map escape_char (chars s))"

lemma encs_echars:
  assumes "well_encoded s"
  shows "encs (echars s) = escape s"
proof -
  have "encs (concat (map escape_char xs)) = escape (encs xs)" if "\<forall>x\<in>set xs. x < 0x10000" for xs
    using that by (induction xs) (auto simp: escape_def escape_char_enc)
  then show ?thesis using assms by (auto simp: echars_def well_encoded_def)
qed

definition good :: "nat list \<Rightarrow> bool" where "good xs \<longleftrightarrow> (\<forall>x\<in>set xs. 0 < x \<and> x < 0x10000)"

lemma good_simps [simp]: "good []" "good (x # xs) \<longleftrightarrow> 0 < x \<and> x < 0x10000 \<and> good xs" "good (xs @ ys) \<longleftrightarrow> good xs \<and> good ys"
  by (auto simp: good_def)

lemma echars_good: "well_encoded s \<Longrightarrow> good (echars s) \<and> 0x22 \<notin> set (echars s) \<and> 0x3C \<notin> set (echars s)"
  using escape_char_set by (fastforce simp: echars_def good_def well_encoded_def)

lemma encs_chars: "well_encoded s \<Longrightarrow> encs (chars s) = s \<and> good (chars s)"
  by (simp add: well_encoded_def good_def)

lemma enc_ascii [simp]:
  "enc 0x20 = '' ''" "enc 0x22 = [CHR 0x22]" "enc 0x2F = ''/''" "enc 0x3C = ''<''" "enc 0x3D = ''=''" "enc 0x3E = ''>''" "enc 0x3F = ''?''"
  using byte_of_char [of "CHR 0x20"] byte_of_char [of "CHR 0x22"] byte_of_char [of "CHR 0x2F"] byte_of_char [of "CHR 0x3C"]
    byte_of_char [of "CHR 0x3D"] byte_of_char [of "CHR 0x3E"] byte_of_char [of "CHR 0x3F"]
  by (simp_all add: Utf8_append_def)

definition attribute_chars :: "string \<times> string \<Rightarrow> nat list" where
  "attribute_chars = (\<lambda>(k, v). 0x20 # chars k @ 0x3D # 0x22 # echars v @ [0x22])"

fun node_chars :: "node \<Rightarrow> nat list" where
  "node_chars (PINode n) = 0x3C # 0x3F # chars (nn_name n) @ concat (map attribute_chars (attributes n)) @ [0x3F, 0x3E]"
| "node_chars (TagNode n ch) = 0x3C # chars (nn_name n) @ concat (map attribute_chars (attributes n)) @
     (if ch = [] then [0x2F, 0x3E] else 0x3E # concat (map node_chars ch) @ 0x3C # 0x2F # chars (nn_name n) @ [0x3E])"
| "node_chars (TextNode s) = echars s"

text \<open>
  The nodes that text can represent: names without special characters, characters below U+10000 and no null
  characters, no text next to another text, and in processing instructions only values that need no escaping.
\<close>

definition xml_name_ok :: "char_class set \<Rightarrow> string \<Rightarrow> bool" where
  "xml_name_ok A s \<longleftrightarrow> well_encoded s \<and> s \<noteq> [] \<and> plain A (chars s)"

definition attribute_ok :: "char_class set \<Rightarrow> string \<times> string \<Rightarrow> bool" where
  "attribute_ok A = (\<lambda>(k, v). xml_name_ok A k \<and> well_encoded v)"

fun is_text :: "node \<Rightarrow> bool" where
  "is_text (TextNode s) \<longleftrightarrow> True"
| "is_text _ \<longleftrightarrow> False"

fun separated :: "node list \<Rightarrow> bool" where
  "separated (a # b # ns) \<longleftrightarrow> \<not> (is_text a \<and> is_text b) \<and> separated (b # ns)"
| "separated _ \<longleftrightarrow> True"

definition no_codepage :: "(string \<Rightarrow> charset option) \<Rightarrow> string \<Rightarrow> bool" where
  "no_codepage factory v \<longleftrightarrow> (case factory v of Some (CodepageCharset cp) \<Rightarrow> False | _ \<Rightarrow> True)"

fun node_ok :: "whitespace_mode \<Rightarrow> (string \<Rightarrow> charset option) \<Rightarrow> node \<Rightarrow> bool" where
  "node_ok mode factory (PINode n) \<longleftrightarrow> xml_name_ok piChars (nn_name n) \<and>
     list_all (\<lambda>(k, v). attribute_ok piNameChars (k, v) \<and> escape v = v \<and>
       (nn_name n = ''xml'' \<and> k = ''encoding'' \<longrightarrow> no_codepage factory v)) (attributes n)"
| "node_ok mode factory (TagNode n ch) \<longleftrightarrow> xml_name_ok tagChars (nn_name n) \<and> hd (chars (nn_name n)) \<notin> {0x3F, 0x21} \<and>
     list_all (attribute_ok nameChars) (attributes n) \<and> list_all (node_ok mode factory) ch \<and> separated ch"
| "node_ok mode factory (TextNode s) \<longleftrightarrow> well_encoded s \<and> s \<noteq> [] \<and> (mode = AllWS \<or> \<not> isWhitespaceOnly s)"

lemma chars_Nil: "well_encoded s \<Longrightarrow> chars s = [] \<longleftrightarrow> s = []"
  by (metis chars_def decode.simps encs_simps(1) well_encoded_def)

lemma attributes_written:
  assumes "list_all (attribute_ok A) kvs"
  shows "encs (concat (map attribute_chars kvs)) = concat (map (\<lambda>(k, v). '' '' @ k @ ''='' @ [CHR 0x22] @ escape v @ [CHR 0x22]) kvs) \<and>
    good (concat (map attribute_chars kvs))"
  using assms
proof (induction kvs)
  case (Cons kv kvs)
  then show ?case using encs_chars echars_good encs_echars
    by (auto simp: attribute_chars_def attribute_ok_def xml_name_ok_def split: prod.splits)
qed simp

lemma writeAttributes_attributes:
  "writeAttributes n = concat (map (\<lambda>(k, v). '' '' @ k @ ''='' @ [CHR 0x22] @ escape v @ [CHR 0x22]) (attributes n))"
  by (simp add: writeAttributes_def attributes_def comp_def)

lemma node_written: "node_ok mode factory n \<Longrightarrow> encs (node_chars n) = Writer_visit n \<and> good (node_chars n)"
proof (induction n)
  case (PINode n)
  then have "list_all (attribute_ok piNameChars) (attributes n)" by (auto simp: list_all_iff)
  then show ?case using PINode attributes_written encs_chars by (auto simp: xml_name_ok_def writeAttributes_attributes)
next
  case (TagNode n ch)
  have "encs (concat (map node_chars ch)) = concat (map Writer_visit ch) \<and> good (concat (map node_chars ch))"
    if "list_all (node_ok mode factory) ch" using TagNode.IH that by (induction ch) auto
  then show ?case using TagNode.prems attributes_written encs_chars by (auto simp: xml_name_ok_def writeAttributes_attributes)
next
  case (TextNode s)
  then show ?case using encs_echars echars_good by simp
qed

section \<open>What is written is in the grammar\<close>

lemma lexes_Main_any: "lexes env mode st tag xs es \<Longrightarrow> st = Main \<Longrightarrow> lexes env mode Main tag' xs es"
  by (induction rule: lexes.induct) (auto intro: lexes.intros)

lemma lexes_length: "lexes env mode st tag xs es \<Longrightarrow> length es \<le> length xs"
proof (induction rule: lexes.induct)
  case (lex_text tag rest es x)
  then show ?case by (cases x) auto
qed auto

lemma stops_space: "stops tagChars (0x20 # xs)" "stops piChars (0x20 # xs)"
  by (simp_all add: stops_def classOf_def)

lemma attributes_lex:
  assumes "lexes (xml_env factory) mode InTag tag rest es" "stops tagChars rest"
  shows "list_all (attribute_ok nameChars) kvs \<Longrightarrow>
    lexes (xml_env factory) mode InTag tag (concat (map attribute_chars kvs) @ rest) (map (\<lambda>(k, v). ETagAttribute tag k v) kvs @ es) \<and>
    stops tagChars (concat (map attribute_chars kvs) @ rest)"
proof (induction kvs)
  case (Cons kv kvs)
  obtain k v where kv: "kv = (k, v)" by (rule prod.exhaust)
  have ok: "well_encoded k" "well_encoded v" "chars k \<noteq> []" "plain nameChars (chars k)"
    using Cons.prems kv chars_Nil by (auto simp: attribute_ok_def xml_name_ok_def)
  have IH: "lexes (xml_env factory) mode InTag tag (concat (map attribute_chars kvs) @ rest) (map (\<lambda>(k, v). ETagAttribute tag k v) kvs @ es)"
    "stops tagChars (concat (map attribute_chars kvs) @ rest)" using Cons by auto
  from lex_attribute [OF IH(1) ok(4,3) _ IH(2), of "echars v"] show ?case
    using kv ok echars_good encs_chars encs_echars expand_escape by (simp add: attribute_chars_def stops_space xml_env_def)
qed (use assms in simp)

lemma pi_attributes_lex:
  assumes "lexes (xml_env factory) mode InPI tag rest es" "stops piChars rest"
  shows "list_all (\<lambda>(k, v). attribute_ok piNameChars (k, v) \<and> escape v = v \<and> (tag = ''xml'' \<and> k = ''encoding'' \<longrightarrow> no_codepage factory v)) kvs \<Longrightarrow>
    lexes (xml_env factory) mode InPI tag (concat (map attribute_chars kvs) @ rest) (map (\<lambda>(k, v). EPIAttribute tag k v) kvs @ es) \<and>
    stops piChars (concat (map attribute_chars kvs) @ rest)"
proof (induction kvs)
  case (Cons kv kvs)
  obtain k v where kv: "kv = (k, v)" by (rule prod.exhaust)
  have ok: "well_encoded k" "well_encoded v" "chars k \<noteq> []" "plain piNameChars (chars k)" "escape v = v"
    "tag = ''xml'' \<and> k = ''encoding'' \<longrightarrow> no_codepage factory v"
    using Cons.prems kv chars_Nil by (auto simp: attribute_ok_def xml_name_ok_def)
  have e: "encs (chars k) = k" "encs (echars v) = v" "0x22 \<notin> set (echars v)" using ok encs_chars encs_echars echars_good by auto
  have c: "tag \<noteq> ''xml'' \<or> encs (chars k) \<noteq> ''encoding'' \<or> (\<forall>cp. re_createCharset (xml_env factory) (encs (echars v)) \<noteq> Some (CodepageCharset cp))"
    using ok(6) e by (auto simp: no_codepage_def xml_env_def)
  have IH: "lexes (xml_env factory) mode InPI tag (concat (map attribute_chars kvs) @ rest) (map (\<lambda>(k, v). EPIAttribute tag k v) kvs @ es)"
    "stops piChars (concat (map attribute_chars kvs) @ rest)" using Cons by auto
  from lex_pi_attribute [OF IH(1) ok(4,3) e(3) IH(2) c] show ?case using kv e by (simp add: attribute_chars_def stops_space)
qed (use assms in simp)

lemma starts_with_bracket: "\<not> is_text n \<Longrightarrow> \<exists>xs. node_chars n = 0x3C # xs"
  by (cases n) auto

lemma whitespace_escape: "isWhitespaceOnly (escape s) \<Longrightarrow> isWhitespaceOnly s"
  by (induction s) (auto simp: isWhitespaceOnly_def escape_def escapeXml_def split: if_splits)

lemma echars_Nil: "well_encoded s \<Longrightarrow> s \<noteq> [] \<Longrightarrow> echars s \<noteq> []"
  by (metis encs_echars encs_simps(1) expand_Nil expand_escape)

lemma nodes_lexes:
  assumes "\<And>n t tag rest es. n \<in> set ns \<Longrightarrow> node_ok mode factory n \<Longrightarrow> lexes (xml_env factory) mode Main t rest es \<Longrightarrow>
      is_text n \<longrightarrow> rest = [] \<or> hd rest = 0x3C \<Longrightarrow> lexes (xml_env factory) mode Main tag (node_chars n @ rest) (node_events n @ es)"
    "list_all (node_ok mode factory) ns" "separated ns" "lexes (xml_env factory) mode Main t rest es" "rest = [] \<or> hd rest = 0x3C"
  shows "lexes (xml_env factory) mode Main tag (concat (map node_chars ns) @ rest) (concat (map node_events ns) @ es)"
  using assms
proof (induction ns arbitrary: tag)
  case Nil
  then show ?case using lexes_Main_any [OF Nil.prems(4) refl] by simp
next
  case (Cons n ns)
  have sep: "separated ns" using Cons.prems(3) by (cases ns) auto
  have rest: "lexes (xml_env factory) mode Main tag (concat (map node_chars ns) @ rest) (concat (map node_events ns) @ es)"
    using Cons.IH Cons.prems sep by simp
  have "is_text n \<longrightarrow> concat (map node_chars ns) @ rest = [] \<or> hd (concat (map node_chars ns) @ rest) = 0x3C"
  proof (cases ns)
    case (Cons b bs)
    then show ?thesis using Cons.prems(3) starts_with_bracket [of b] by auto
  qed (use Cons.prems(5) in simp)
  from Cons.prems(1) [OF _ _ rest this] show ?case using Cons.prems(2) by simp
qed

lemma node_lexes:
  "node_ok mode factory n \<Longrightarrow> lexes (xml_env factory) mode Main t rest es \<Longrightarrow> is_text n \<longrightarrow> rest = [] \<or> hd rest = 0x3C \<Longrightarrow>
   lexes (xml_env factory) mode Main tag (node_chars n @ rest) (node_events n @ es)"
proof (induction n arbitrary: t tag rest es)
  case (TextNode s)
  have ok: "well_encoded s" "s \<noteq> []" "mode = AllWS \<or> \<not> isWhitespaceOnly s" using TextNode.prems(1) by auto
  have e: "expandEntities (re_expandEntityReference (xml_env factory)) (encs (echars s)) = s"
    using ok(1) by (simp add: encs_echars xml_env_def expand_escape)
  have "lexes (xml_env factory) mode Main tag (echars s @ rest)
      (EText (expandEntities (re_expandEntityReference (xml_env factory)) (encs (echars s))) # es)"
    by (rule lex_text [OF lexes_Main_any [OF TextNode.prems(2) refl]])
      (use TextNode.prems(3) ok e echars_Nil echars_good encs_echars [OF ok(1)] whitespace_escape in auto)
  then show ?case using e by simp
next
  case (PINode n)
  have ok: "well_encoded (nn_name n)" "chars (nn_name n) \<noteq> []" "plain piChars (chars (nn_name n))"
    using PINode.prems(1) chars_Nil by (auto simp: xml_name_ok_def)
  have "lexes (xml_env factory) mode InPI (nn_name n) ([0x3F, 0x3E] @ rest) es"
    using lex_pi_end lexes_Main_any PINode.prems(2) by fastforce
  moreover have "stops piChars ([0x3F, 0x3E] @ rest)" by (simp add: stops_def)
  ultimately have a: "lexes (xml_env factory) mode InPI (nn_name n) (concat (map attribute_chars (attributes n)) @ [0x3F, 0x3E] @ rest)
        (map (\<lambda>(k, v). EPIAttribute (nn_name n) k v) (attributes n) @ es)"
      "stops piChars (concat (map attribute_chars (attributes n)) @ [0x3F, 0x3E] @ rest)"
    using pi_attributes_lex PINode.prems(1) by auto
  have "lexes (xml_env factory) mode InPI (encs (chars (nn_name n))) (concat (map attribute_chars (attributes n)) @ [0x3F, 0x3E] @ rest)
        (map (\<lambda>(k, v). EPIAttribute (nn_name n) k v) (attributes n) @ es)" using a(1) encs_chars ok(1) by simp
  from lex_pi [OF this ok(3) a(2) _ ok(2)] show ?case using encs_chars ok(1) by simp
next
  case (TagNode n ch)
  let ?name = "chars (nn_name n)"
  have ok: "well_encoded (nn_name n)" "?name \<noteq> []" "plain tagChars ?name" "hd ?name \<notin> {0x3F, 0x21}"
    using TagNode.prems(1) chars_Nil by (auto simp: xml_name_ok_def)
  have enc: "encs ?name = nn_name n" using encs_chars ok(1) by simp
  let ?rest = "(if ch = [] then [0x2F, 0x3E] else 0x3E # concat (map node_chars ch) @ 0x3C # 0x2F # ?name @ [0x3E]) @ rest"
  have "plain endChars ?name" using ok(3) by (auto simp: plain_def)
  then have close: "lexes (xml_env factory) mode Main (nn_name n) (0x3C # 0x2F # ?name @ 0x3E # rest) (ETagEnd (nn_name n) # es)"
    using lex_close [OF lexes_Main_any [OF TagNode.prems(2) refl]] enc by metis
  have "lexes (xml_env factory) mode InTag (nn_name n) ?rest (concat (map node_events ch) @ ETagEnd (nn_name n) # es)"
  proof (cases "ch = []")
    case True
    then show ?thesis using lex_empty [OF lexes_Main_any [OF TagNode.prems(2) refl]] by simp
  next
    case False
    have "lexes (xml_env factory) mode Main (nn_name n) (concat (map node_chars ch) @ 0x3C # 0x2F # ?name @ 0x3E # rest)
        (concat (map node_events ch) @ ETagEnd (nn_name n) # es)"
      using nodes_lexes [OF TagNode.IH _ _ close] TagNode.prems(1) by simp
    then show ?thesis using False lex_content by fastforce
  qed
  moreover have "stops tagChars ?rest" by (simp add: stops_def)
  ultimately have a: "lexes (xml_env factory) mode InTag (nn_name n) (concat (map attribute_chars (attributes n)) @ ?rest)
        (map (\<lambda>(k, v). ETagAttribute (nn_name n) k v) (attributes n) @ concat (map node_events ch) @ ETagEnd (nn_name n) # es)"
      "stops tagChars (concat (map attribute_chars (attributes n)) @ ?rest)"
    using attributes_lex TagNode.prems(1) by auto
  have "lexes (xml_env factory) mode InTag (encs ?name) (concat (map attribute_chars (attributes n)) @ ?rest)
        (map (\<lambda>(k, v). ETagAttribute (nn_name n) k v) (attributes n) @ concat (map node_events ch) @ ETagEnd (nn_name n) # es)"
    using a(1) enc by simp
  from lex_start [OF this ok(3,2,4) a(2)] show ?case using enc by simp
qed

section \<open>Round trips\<close>

lemma length_encs: "length xs \<le> length (encs xs)"
proof (induction xs)
  case (Cons x xs)
  have "enc x \<noteq> []" by (simp add: Utf8_append_def appendOne_def)
  then show ?case using Cons by (cases "enc x") auto
qed simp

text \<open>
  C7: What the XML writer writes is read back. For every list of nodes that text can represent and that does not
  start with a text, parsing the text the writer produces gives the same nodes, with all attributes; so does
  reading the nodes through a node reader, without any restriction on names and texts.
\<close>

theorem xml_roundtrip:
  assumes "list_all node_wf nodes"
  shows "(list_all (node_ok mode factory) nodes \<and> separated nodes \<and> (nodes \<noteq> [] \<longrightarrow> \<not> is_text (hd nodes)) \<and>
      length (Writer_visitNodes nodes) < 2 ^ 64 \<and> 3 * length (Writer_visitNodes nodes) + 2 < fuel \<longrightarrow>
      parseDocument fuel factory mode (Writer_visitNodes nodes) = Inr nodes) \<and>
    (3 * length (concat (map node_events nodes)) + 2 \<le> fuel \<longrightarrow>
      (\<exists>p p'. Parser_new NodeReader_ops (NodeReader_init\<lparr>nr_nodes := nodes\<rparr>) = (Inr (), p) \<and>
         parseNodes fuel NodeReader_ops [] p = (Inr nodes, p')))"
proof (intro conjI impI; (elim conjE)?)
  let ?xs = "concat (map node_chars nodes)"
  assume ok: "list_all (node_ok mode factory) nodes" "separated nodes" "nodes \<noteq> [] \<longrightarrow> \<not> is_text (hd nodes)"
    and size: "length (Writer_visitNodes nodes) < 2 ^ 64" "3 * length (Writer_visitNodes nodes) + 2 < fuel"
  have xs: "encs ?xs = Writer_visitNodes nodes \<and> good ?xs"
    using ok(1) node_written by (induction nodes) (auto simp: Writer_visitNodes_def)
  have first: "?xs \<noteq> [] \<longrightarrow> hd ?xs \<noteq> 0xFEFF"
    using ok(3) starts_with_bracket [of "hd nodes"] by (cases nodes) auto
  have "internal_view (InternalStream_init\<lparr>is_data := encs ?xs\<rparr>) = Some (encs ?xs, 0, 2 ^ 64 - 1)"
    using size(1) xs by (simp add: internal_view_def InternalStream_init_def)
  from xml_internal.Reader_new_upcoming [OF this _ first, of factory] obtain r where
    r: "Reader_new (xml_env factory) (InternalStream_init\<lparr>is_data := Writer_visitNodes nodes\<rparr>) = (Inr (), r)"
      "upcoming internal_view (last (0 # ?xs)) ?xs (rd_source r)" "rd_state r = Main" using xs by (auto simp: good_def)
  have lex: "lexes (xml_env factory) mode Main (rd_tag r) (?xs @ []) (concat (map node_events nodes) @ [])"
    by (rule nodes_lexes [OF node_lexes ok(1,2) lex_end]) auto
  have len: "length ?xs \<le> length (Writer_visitNodes nodes)" using length_encs [of ?xs] xs by simp
  have "xml_input.lexing (xml_env factory) internal_view fuel mode (last (0 # ?xs)) (concat (map node_events nodes)) (setWhitespaceMode mode r)"
    unfolding xml_internal.lexing_def xml_internal.arrives_def using lex r(2,3) len size(2)
    by (intro exI conjI) (auto simp: setWhitespaceMode_def)
  moreover have "3 * length (concat (map node_events nodes)) + 2 \<le> fuel" using lexes_length [OF lex] len size(2) by simp
  ultimately obtain p p' where "Parser_new (Reader_ops fuel (xml_env factory)) (setWhitespaceMode mode r) = (Inr (), p)"
      "parseNodes fuel (Reader_ops fuel (xml_env factory)) [] p = (Inr nodes, p')"
    using written.parser_correct [OF _ assms] by blast
  then show "parseDocument fuel factory mode (Writer_visitNodes nodes) = Inr nodes" using r(1) by (simp add: parseDocument_def)
next
  assume f: "3 * length (concat (map node_events nodes)) + 2 \<le> fuel"
  show "\<exists>p p'. Parser_new NodeReader_ops (NodeReader_init\<lparr>nr_nodes := nodes\<rparr>) = (Inr (), p) \<and>
         parseNodes fuel NodeReader_ops [] p = (Inr nodes, p')"
    by (rule tree.parser_correct [OF _ assms f]) (simp add: NodeReader_init_def node_reader_events_def)
qed

lemma attributes_one: "attributes (setAttribute k v (NamedNode_init tag)) = [(k, v)]" "nn_name (setAttribute k v (NamedNode_init tag)) = tag"
  using set_all_append [OF named_wf_init, of tag "[(k, v)]"]
  by (simp_all add: set_all_def NamedNode_init_def NameMap_init_def attributes_def getNameByIndex_def getAttributeByIndex_def getNumNames_def)

lemma chars_ascii: "\<forall>c\<in>set s. of_char c < (0x80 :: nat) \<Longrightarrow> chars s = map of_char s"
proof (induction s)
  case (Cons c s)
  then have "Utf8Reader_eat {} (c # s) = (of_char c, s)"
    using decode_append [of "of_char c" s] by (simp add: Utf8_append_def unicode_consts isHighSurrogate_def isLowSurrogate_def)
  then show ?case using Cons by (simp add: chars_def decode.simps [of _ "c # s"])
qed (simp add: chars_def decode.simps)

lemma well_encoded_ascii: "\<forall>c\<in>set s. 0 < (of_char c :: nat) \<and> of_char c < (0x80 :: nat) \<Longrightarrow> well_encoded s"
  using chars_ascii [of s] encs_ascii [of s] by (auto simp: well_encoded_def)

text \<open>A tag with an attribute that needs escaping, and a text in it.\<close>

theorem xml_roundtrip_witness:
  "let nodes = [TagNode (setAttribute ''k'' ''<'' (NamedNode_init ''a'')) [TextNode ''x'']] in
   Writer_visitNodes nodes = ''<a k='' @ [CHR 0x22] @ ''&lt;'' @ [CHR 0x22] @ ''>x</a>'' \<and>
   parseDocument 100 (\<lambda>_. None) TrimWS (Writer_visitNodes nodes) = Inr nodes"
proof -
  let ?nodes = "[TagNode (setAttribute ''k'' ''<'' (NamedNode_init ''a'')) [TextNode ''x'']]"
  have w: "Writer_visitNodes ?nodes = ''<a k='' @ [CHR 0x22] @ ''&lt;'' @ [CHR 0x22] @ ''>x</a>''"
    by (simp add: Writer_visitNodes_def writeAttributes_attributes attributes_one escape_def escapeXml_def)
  have "list_all (node_ok TrimWS (\<lambda>_. None)) ?nodes"
    by (simp add: attributes_one xml_name_ok_def attribute_ok_def well_encoded_ascii chars_ascii plain_def
        classOf_def isWhitespaceOnly_def)
  moreover have "list_all node_wf ?nodes" using named_wf_set [OF named_wf_init] by simp
  ultimately show ?thesis using xml_roundtrip [of ?nodes TrimWS "\<lambda>_. None" 100] by (simp add: w)
qed

end
