(* ===== verification/Afl_MultiList.thy ===== *)
theory Afl_MultiList
  imports Afl_Prelude "HOL-Library.Multiset"
begin

text \<open>
  Lists of pointers with several iterators: \<open>container/ptrmultilistbase.cpp\<close>, \<open>ptrmultilistbase.hpp\<close> and
  \<open>ptrmultilist.hpp\<close>. The nodes are linked in an explicit heap: a node has the address of the next node and the
  place of the pointer to itself, which is \<open>m_firstNode\<close> or the \<open>m_nextNode\<close> of another node. An access to a
  node that is not allocated is undefined. The iterators that belong to a list are registered with it; the doubly
  linked list from \<open>m_firstIterator\<close> is the list \<open>m_iterators\<close>, in its order. An iterator is known by its address;
  one that is not registered is at the end of all lists.
\<close>

section \<open>Nodes, iterators and lists\<close>

datatype place = FirstNode | NextOf nat

record 'a mnode =
  m_nextNode :: "nat option"
  m_pThisNode :: place
  m_data :: "'a option"

record iter =
  m_item :: "nat option"
  m_nextItem :: "nat option"

record 'a mlist =
  m_firstNode :: "nat option"
  m_pLastNode :: place
  m_heap :: "nat \<rightharpoonup> 'a mnode"
  m_iterators :: "(nat \<times> iter) list"
  m_fresh :: nat

text \<open>\<open>m_fresh\<close> is the next address that has never been used, for nodes and iterators.\<close>

definition MultiList_init :: "'a mlist" where
  "MultiList_init = \<lparr>m_firstNode = None, m_pLastNode = FirstNode, m_heap = Map.empty, m_iterators = [], m_fresh = 0\<rparr>"

section \<open>Access to nodes\<close>

definition load :: "nat \<Rightarrow> ('a mlist, 'a mnode) action" where
  "load a = (\<lambda>l. case m_heap l a of None \<Rightarrow> (Inl Undefined, l) | Some n \<Rightarrow> (Inr n, l))"

definition writeNode :: "nat \<Rightarrow> 'a mnode \<Rightarrow> ('a mlist, unit) action" where
  "writeNode a n = modify (\<lambda>l. l\<lparr>m_heap := (m_heap l)(a \<mapsto> n)\<rparr>)"

definition writePlace :: "place \<Rightarrow> nat option \<Rightarrow> ('a mlist, unit) action" where
  "writePlace p v =
     (case p of
        FirstNode \<Rightarrow> modify (\<lambda>l. l\<lparr>m_firstNode := v\<rparr>)
      | NextOf a \<Rightarrow> bind (load a) (\<lambda>n. writeNode a (n\<lparr>m_nextNode := v\<rparr>)))"

definition newNode :: "'a mnode \<Rightarrow> ('a mlist, nat) action" where
  "newNode n = (\<lambda>l. (Inr (m_fresh l), l\<lparr>m_heap := (m_heap l)(m_fresh l \<mapsto> n), m_fresh := Suc (m_fresh l)\<rparr>))"

section \<open>Iterators\<close>

definition iterator_end :: iter where
  "iterator_end = \<lparr>m_item = None, m_nextItem = None\<rparr>"

definition iterator_at :: "'a mlist \<Rightarrow> nat \<Rightarrow> iter" where
  "iterator_at l i = (case map_of (m_iterators l) i of Some s \<Rightarrow> s | None \<Rightarrow> iterator_end)"

definition iterator_set :: "nat \<Rightarrow> iter \<Rightarrow> ('a mlist, unit) action" where
  "iterator_set i s = modify (\<lambda>l. l\<lparr>m_iterators := map (\<lambda>(k, t). (k, if k = i then s else t)) (m_iterators l)\<rparr>)"

text \<open>The constructor that registers the iterator.\<close>

definition iterator_new :: "nat option \<Rightarrow> ('a mlist, nat) action" where
  "iterator_new item =
     bind (case item of None \<Rightarrow> ret None | Some a \<Rightarrow> bind (load a) (\<lambda>n. ret (m_nextNode n))) (\<lambda>n l.
       (Inr (m_fresh l), l\<lparr>m_iterators := (m_fresh l, \<lparr>m_item = item, m_nextItem = n\<rparr>) # m_iterators l, m_fresh := Suc (m_fresh l)\<rparr>))"

definition iterator_unlink :: "nat \<Rightarrow> ('a mlist, unit) action" where
  "iterator_unlink i = modify (\<lambda>l. l\<lparr>m_iterators := filter (\<lambda>(k, s). k \<noteq> i) (m_iterators l)\<rparr>)"

text \<open>\<open>link\<close>: the new iterator goes before the other one, with its item.\<close>

fun link_before :: "nat \<Rightarrow> nat \<Rightarrow> (nat \<times> iter) list \<Rightarrow> (nat \<times> iter) list" where
  "link_before j i [] = []"
| "link_before j i ((k, s) # its) = (if k = i then (j, s) # (k, s) # its else (k, s) # link_before j i its)"

text \<open>Copy constructor.\<close>

definition iterator_copy :: "nat \<Rightarrow> ('a mlist, nat) action" where
  "iterator_copy i = (\<lambda>l. (Inr (m_fresh l), l\<lparr>m_iterators := link_before (m_fresh l) i (m_iterators l), m_fresh := Suc (m_fresh l)\<rparr>))"

text \<open>Assignment \<open>j = i\<close>.\<close>

definition iterator_assign :: "nat \<Rightarrow> nat \<Rightarrow> ('a mlist, unit) action" where
  "iterator_assign j i =
     (if j \<noteq> i then bind (iterator_unlink j) (\<lambda>_. modify (\<lambda>l. l\<lparr>m_iterators := link_before j i (m_iterators l)\<rparr>)) else ret ())"

definition iterator_valid :: "'a mlist \<Rightarrow> nat \<Rightarrow> bool" where
  "iterator_valid l i \<longleftrightarrow> m_item (iterator_at l i) \<noteq> None"

definition iterator_next :: "nat \<Rightarrow> ('a mlist, unit) action" where
  "iterator_next i =
     bind (gets (\<lambda>l. m_nextItem (iterator_at l i))) (\<lambda>nextItem.
       case nextItem of
         None \<Rightarrow> iterator_set i iterator_end
       | Some a \<Rightarrow> bind (load a) (\<lambda>n. iterator_set i \<lparr>m_item = Some a, m_nextItem = m_nextNode n\<rparr>))"

definition iterator_equal :: "'a mlist \<Rightarrow> nat \<Rightarrow> nat \<Rightarrow> bool" where
  "iterator_equal l i j \<longleftrightarrow> iterator_at l i = iterator_at l j"

text \<open>Comparison with \<open>end()\<close>.\<close>

definition iterator_is_end :: "'a mlist \<Rightarrow> nat \<Rightarrow> bool" where
  "iterator_is_end l i \<longleftrightarrow> iterator_at l i = iterator_end"

definition iterator_get :: "nat \<Rightarrow> ('a mlist, 'a option) action" where
  "iterator_get i =
     bind (gets (\<lambda>l. m_item (iterator_at l i))) (\<lambda>item.
       case item of None \<Rightarrow> ret None | Some a \<Rightarrow> bind (load a) (\<lambda>n. ret (m_data n)))"

definition iterator_invalidate :: "nat \<Rightarrow> ('a mlist, unit) action" where
  "iterator_invalidate i = iterator_unlink i"

section \<open>Operations of the list\<close>

definition MultiList_empty :: "'a mlist \<Rightarrow> bool" where
  "MultiList_empty l \<longleftrightarrow> m_firstNode l = None"

definition insertAtEnd :: "'a option \<Rightarrow> ('a mlist, nat) action" where
  "insertAtEnd d =
     bind (gets m_pLastNode) (\<lambda>p.
     bind (newNode \<lparr>m_nextNode = None, m_pThisNode = p, m_data = d\<rparr>) (\<lambda>n.
     bind (writePlace p (Some n)) (\<lambda>_.
     bind (modify (\<lambda>l. l\<lparr>m_pLastNode := NextOf n\<rparr>)) (\<lambda>_.
     ret n))))"

definition insertBefore :: "nat \<Rightarrow> 'a option \<Rightarrow> ('a mlist, nat) action" where
  "insertBefore item d =
     bind (load item) (\<lambda>it.
     bind (newNode \<lparr>m_nextNode = Some item, m_pThisNode = m_pThisNode it, m_data = d\<rparr>) (\<lambda>n.
     bind (writePlace (m_pThisNode it) (Some n)) (\<lambda>_.
     bind (load item) (\<lambda>it.
     bind (writeNode item (it\<lparr>m_pThisNode := NextOf n\<rparr>)) (\<lambda>_.
     bind (modify (\<lambda>l. l\<lparr>m_iterators := map (\<lambda>(k, s). (k,
         if m_item s \<noteq> None \<and> m_nextItem s = Some item then s\<lparr>m_nextItem := Some n\<rparr> else s)) (m_iterators l)\<rparr>)) (\<lambda>_.
     ret n))))))"

definition MultiList_pushBackNew :: "'a option \<Rightarrow> ('a mlist, unit) action" where
  "MultiList_pushBackNew d = bind (insertAtEnd d) (\<lambda>_. ret ())"

definition MultiList_pushFrontNew :: "'a option \<Rightarrow> ('a mlist, unit) action" where
  "MultiList_pushFrontNew d =
     bind (gets m_firstNode) (\<lambda>first.
     bind (newNode \<lparr>m_nextNode = first, m_pThisNode = FirstNode, m_data = d\<rparr>) (\<lambda>n.
     bind (if first = None then modify (\<lambda>l. l\<lparr>m_pLastNode := NextOf n\<rparr>) else ret ()) (\<lambda>_.
     modify (\<lambda>l. l\<lparr>m_firstNode := Some n\<rparr>))))"

text \<open>The loop over the registered iterators when \<open>item\<close>, with the given successor, is removed.\<close>

definition forgetItem :: "nat \<Rightarrow> nat option \<Rightarrow> iter \<Rightarrow> iter" where
  "forgetItem item successor s =
     (if m_item s = Some item then s\<lparr>m_item := None\<rparr>
      else if m_nextItem s = Some item then s\<lparr>m_nextItem := successor\<rparr>
      else s)"

definition MultiList_extractElement :: "nat \<Rightarrow> ('a mlist, 'a option) action" where
  "MultiList_extractElement i =
     bind (gets (\<lambda>l. m_item (iterator_at l i))) (\<lambda>p.
     case p of
       None \<Rightarrow> ret None
     | Some item \<Rightarrow>
         bind (load item) (\<lambda>n.
         bind (modify (\<lambda>l. l\<lparr>m_iterators := map (\<lambda>(k, s). (k, forgetItem item (m_nextNode n) s)) (m_iterators l)\<rparr>)) (\<lambda>_.
         bind (writePlace (m_pThisNode n) (m_nextNode n)) (\<lambda>_.
         bind (case m_nextNode n of
             Some b \<Rightarrow> bind (load b) (\<lambda>nb. writeNode b (nb\<lparr>m_pThisNode := m_pThisNode n\<rparr>))
           | None \<Rightarrow> modify (\<lambda>l. l\<lparr>m_pLastNode := m_pThisNode n\<rparr>)) (\<lambda>_.
         bind (modify (\<lambda>l. l\<lparr>m_heap := (m_heap l)(item := None)\<rparr>)) (\<lambda>_.
         ret (m_data n)))))))"

text \<open>The element that \<open>erase\<close> deletes is its result here.\<close>

definition MultiList_erase :: "nat \<Rightarrow> ('a mlist, 'a option) action" where
  "MultiList_erase i = MultiList_extractElement i"

definition MultiList_insert :: "nat \<Rightarrow> 'a option \<Rightarrow> ('a mlist, nat) action" where
  "MultiList_insert i d =
     bind (gets (\<lambda>l. iterator_at l i)) (\<lambda>s.
     bind (case m_item s of
         None \<Rightarrow> (case m_nextItem s of None \<Rightarrow> insertAtEnd d | Some b \<Rightarrow> insertBefore b d)
       | Some a \<Rightarrow> insertBefore a d) (\<lambda>n.
     iterator_new (Some n)))"

text \<open>Both iterators must point at elements; otherwise a null pointer is followed.\<close>

definition MultiList_swapElements :: "nat \<Rightarrow> nat \<Rightarrow> ('a mlist, unit) action" where
  "MultiList_swapElements i j =
     bind (gets (\<lambda>l. (m_item (iterator_at l i), m_item (iterator_at l j)))) (\<lambda>p.
     case p of
       (Some a, Some b) \<Rightarrow>
         bind (load a) (\<lambda>na. bind (load b) (\<lambda>nb.
         bind (writeNode a (na\<lparr>m_data := m_data nb\<rparr>)) (\<lambda>_.
         bind (load b) (\<lambda>nb. writeNode b (nb\<lparr>m_data := m_data na\<rparr>)))))
     | _ \<Rightarrow> throw Undefined)"

definition MultiList_begin :: "('a mlist, nat) action" where
  "MultiList_begin = bind (gets m_firstNode) iterator_new"

definition MultiList_front :: "('a mlist, 'a option) action" where
  "MultiList_front = bind (gets m_firstNode) (\<lambda>p. case p of None \<Rightarrow> throw Undefined | Some a \<Rightarrow> bind (load a) (\<lambda>n. ret (m_data n)))"

text \<open>The temporary iterator of \<open>extractFront\<close> is destroyed at the end of the expression.\<close>

definition MultiList_extractFront :: "('a mlist, 'a option) action" where
  "MultiList_extractFront =
     bind MultiList_begin (\<lambda>i. bind (MultiList_extractElement i) (\<lambda>d. bind (iterator_unlink i) (\<lambda>_. ret d)))"

definition MultiList_popFront :: "('a mlist, unit) action" where
  "MultiList_popFront = bind MultiList_begin (\<lambda>i. bind (MultiList_erase i) (\<lambda>_. iterator_unlink i))"

definition invalidateAllIterators :: "('a mlist, unit) action" where
  "invalidateAllIterators = modify (\<lambda>l. l\<lparr>m_iterators := []\<rparr>)"

fun clearLoop :: "nat \<Rightarrow> ('a mlist, unit) action" where
  "clearLoop 0 = throw NoReturn"
| "clearLoop (Suc fuel) =
     bind (gets MultiList_empty) (\<lambda>e. if e then ret () else bind MultiList_extractFront (\<lambda>_. clearLoop fuel))"

definition MultiList_clear :: "nat \<Rightarrow> ('a mlist, unit) action" where
  "MultiList_clear fuel = bind invalidateAllIterators (\<lambda>_. clearLoop fuel)"

fun sizeLoop :: "nat \<Rightarrow> nat option \<Rightarrow> nat \<Rightarrow> ('a mlist, nat) action" where
  "sizeLoop 0 p n = throw NoReturn"
| "sizeLoop (Suc fuel) None n = ret n"
| "sizeLoop (Suc fuel) (Some a) n = bind (load a) (\<lambda>node. sizeLoop fuel (m_nextNode node) (n + 1))"

definition MultiList_size :: "nat \<Rightarrow> ('a mlist, nat) action" where
  "MultiList_size fuel = bind (gets m_firstNode) (\<lambda>p. sizeLoop fuel p 0)"

section \<open>Merging and sorting\<close>

text \<open>Two lists: the object and another one.\<close>

definition on_this :: "('a mlist, 'b) action \<Rightarrow> ('a mlist \<times> 'a mlist, 'b) action" where
  "on_this m = zoom fst (\<lambda>p s. (p, snd s)) m"

definition on_other :: "('a mlist, 'b) action \<Rightarrow> ('a mlist \<times> 'a mlist, 'b) action" where
  "on_other m = zoom snd (\<lambda>p s. (fst s, p)) m"

text \<open>The inner loop of \<open>merge\<close>: skip the elements that are less.\<close>

fun skipLess :: "nat \<Rightarrow> ('a option \<Rightarrow> 'a option \<Rightarrow> bool) \<Rightarrow> nat \<Rightarrow> 'a option \<Rightarrow> ('a mlist, unit) action" where
  "skipLess 0 p i elem = throw NoReturn"
| "skipLess (Suc fuel) p i elem =
     bind (gets (\<lambda>l. iterator_is_end l i)) (\<lambda>e.
       if e then ret ()
       else bind (iterator_get i) (\<lambda>x. if p x elem then bind (iterator_next i) (\<lambda>_. skipLess fuel p i elem) else ret ()))"

fun multiMergeLoop :: "nat \<Rightarrow> ('a option \<Rightarrow> 'a option \<Rightarrow> bool) \<Rightarrow> nat \<Rightarrow> ('a mlist \<times> 'a mlist, unit) action" where
  "multiMergeLoop 0 p i = throw NoReturn"
| "multiMergeLoop (Suc fuel) p i =
     bind (gets (\<lambda>s. MultiList_empty (snd s))) (\<lambda>e.
       if e then ret ()
       else
         bind (on_other MultiList_extractFront) (\<lambda>elem.
         bind (on_this (skipLess fuel p i elem)) (\<lambda>_.
         bind (on_this (MultiList_insert i elem)) (\<lambda>j.
         bind (on_this (iterator_unlink j)) (\<lambda>_.
         multiMergeLoop fuel p i)))))"

definition MultiList_merge :: "nat \<Rightarrow> ('a option \<Rightarrow> 'a option \<Rightarrow> bool) \<Rightarrow> ('a mlist \<times> 'a mlist, unit) action" where
  "MultiList_merge fuel p =
     bind (on_this MultiList_begin) (\<lambda>i. bind (multiMergeLoop fuel p i) (\<lambda>_. on_this (iterator_unlink i)))"

text \<open>The loop of \<open>sort\<close> that moves every other element into the other list, and counts the elements.\<close>

fun splitLoop :: "nat \<Rightarrow> nat \<Rightarrow> nat \<Rightarrow> ('a mlist \<times> 'a mlist, nat) action" where
  "splitLoop 0 i n = throw NoReturn"
| "splitLoop (Suc fuel) i n =
     bind (gets (\<lambda>s. iterator_is_end (fst s) i)) (\<lambda>e.
       if e then ret n
       else
         bind (if odd n then
             bind (on_this (iterator_copy i)) (\<lambda>j.
             bind (on_this (MultiList_extractElement j)) (\<lambda>d.
             bind (on_this (iterator_unlink j)) (\<lambda>_.
             on_other (MultiList_pushBackNew d))))
           else ret ()) (\<lambda>_.
         bind (on_this (iterator_next i)) (\<lambda>_.
         splitLoop fuel i (n + 1))))"

fun MultiList_sort :: "nat \<Rightarrow> ('a option \<Rightarrow> 'a option \<Rightarrow> bool) \<Rightarrow> ('a mlist, unit) action" where
  "MultiList_sort 0 p = throw NoReturn"
| "MultiList_sort (Suc fuel) p = (\<lambda>l.
     case bind (on_this MultiList_begin) (\<lambda>i.
       bind (splitLoop (Suc fuel) i 0) (\<lambda>n.
       bind (on_this (iterator_unlink i)) (\<lambda>_.
       bind (if n > 2 then bind (on_other (MultiList_sort fuel p)) (\<lambda>_. on_this (MultiList_sort fuel p)) else ret ()) (\<lambda>_.
       MultiList_merge (Suc fuel) p)))) (l, MultiList_init) of
       (r, l', tmp) \<Rightarrow> (r, l'))"

end
