(* ===== verification/Afl_MultiList_Laws.thy ===== *)
theory Afl_MultiList_Laws
  imports Afl_MultiList
begin

text \<open>
  The linked nodes of a multi-list represent a list of addresses with their elements. The operations on the
  pointers are operations on that list, no operation follows a dangling pointer whatever the iterators do, and
  sorting sorts.
\<close>

section \<open>Lists in the heap\<close>

definition first_of :: "(nat \<times> 'a option) list \<Rightarrow> nat option \<Rightarrow> nat option" where
  "first_of xs z = (case xs of [] \<Rightarrow> z | x # _ \<Rightarrow> Some (fst x))"

lemma first_of_simps [simp]: "first_of [] z = z" "first_of (x # xs) z = Some (fst x)"
  "first_of (xs @ ys) z = first_of xs (first_of ys z)"
  by (simp_all add: first_of_def split: list.split)

lemma first_of_ne: "xs \<noteq> [] \<Longrightarrow> first_of xs z = Some (fst (hd xs))"
  by (cases xs) simp_all

fun chain :: "(nat \<rightharpoonup> 'a mnode) \<Rightarrow> place \<Rightarrow> (nat \<times> 'a option) list \<Rightarrow> nat option \<Rightarrow> bool" where
  "chain h p [] z \<longleftrightarrow> True"
| "chain h p ((a, d) # xs) z \<longleftrightarrow> h a = Some \<lparr>m_nextNode = first_of xs z, m_pThisNode = p, m_data = d\<rparr> \<and> chain h (NextOf a) xs z"

definition last_place :: "place \<Rightarrow> (nat \<times> 'a option) list \<Rightarrow> place" where
  "last_place p xs = (if xs = [] then p else NextOf (fst (last xs)))"

lemma last_place_simps [simp]: "last_place p [] = p"
  "last_place p (x # xs) = last_place (NextOf (fst x)) xs" "last_place p (xs @ ys) = last_place (last_place p xs) ys"
  by (auto simp: last_place_def)

lemma chain_append: "chain h p (xs @ ys) z \<longleftrightarrow> chain h p xs (first_of ys z) \<and> chain h (last_place p xs) ys z"
proof (induction xs arbitrary: p)
  case (Cons x xs)
  then show ?case by (cases x) simp
qed simp

declare image_Un [simp]

lemma chain_upd [simp]: "a \<notin> fst ` set xs \<Longrightarrow> chain (h(a := n)) p xs z \<longleftrightarrow> chain h p xs z"
  by (induction xs arbitrary: p) auto

definition represents :: "'a mlist \<Rightarrow> (nat \<times> 'a option) list \<Rightarrow> bool" where
  "represents l xs \<longleftrightarrow> chain (m_heap l) FirstNode xs None \<and> m_firstNode l = first_of xs None \<and>
     m_pLastNode l = last_place FirstNode xs \<and> distinct (map fst xs) \<and> dom (m_heap l) = fst ` set xs \<and>
     (\<forall>(a, d)\<in>set xs. a < m_fresh l) \<and> (\<forall>(k, s)\<in>set (m_iterators l). k < m_fresh l)"

lemma represents_init: "represents MultiList_init []"
  by (simp add: represents_def MultiList_init_def)

lemma representsD:
  assumes "represents l (xs @ (a, d) # ys)"
  shows "m_heap l a = Some \<lparr>m_nextNode = first_of ys None, m_pThisNode = last_place FirstNode xs, m_data = d\<rparr>"
  using assms by (simp add: represents_def chain_append)

lemma chain_unique:
  "chain h p xs None \<Longrightarrow> chain h p ys None \<Longrightarrow> first_of xs None = first_of ys None \<Longrightarrow> xs = ys"
proof (induction xs arbitrary: p ys)
  case Nil
  then show ?case by (cases ys) auto
next
  case (Cons x xs)
  then obtain y ys' where ys: "ys = y # ys'" by (cases ys) auto
  obtain a d e where x: "x = (a, d)" "y = (a, e)" using Cons.prems(3) ys by (cases x; cases y) auto
  then have "d = e" "first_of xs None = first_of ys' None" using Cons.prems ys by auto
  then show ?case using Cons ys x by auto
qed

lemma represents_unique: "represents l xs \<Longrightarrow> represents l ys \<Longrightarrow> xs = ys"
  using chain_unique unfolding represents_def by metis

lemma load_node:
  "represents l (xs @ (a, d) # ys) \<Longrightarrow>
   load a l = (Inr \<lparr>m_nextNode = first_of ys None, m_pThisNode = last_place FirstNode xs, m_data = d\<rparr>, l)"
  by (simp add: load_def representsD)

lemma represents_iterators:
  assumes "represents l xs" "\<And>k s. (k, s) \<in> set its \<Longrightarrow> k < m_fresh l"
  shows "represents (l\<lparr>m_iterators := its\<rparr>) xs"
  using assms by (auto simp: represents_def)

lemma represents_new:
  assumes "represents l xs" "\<And>k s. (k, s) \<in> set its \<Longrightarrow> k = m_fresh l \<or> (k, s) \<in> set (m_iterators l)"
  shows "represents (l\<lparr>m_iterators := its, m_fresh := Suc (m_fresh l)\<rparr>) xs"
proof -
  have "\<forall>(a, d)\<in>set xs. a < Suc (m_fresh l)" "\<forall>(k, s)\<in>set (m_iterators l). k < Suc (m_fresh l)"
    using assms(1) unfolding represents_def by auto
  then show ?thesis using assms unfolding represents_def by auto
qed

lemma represents_bounds:
  assumes "represents l xs"
  shows "(a, d) \<in> set xs \<Longrightarrow> a < m_fresh l" "(k, s) \<in> set (m_iterators l) \<Longrightarrow> k < m_fresh l" "m_fresh l \<notin> fst ` set xs"
    "distinct (map fst xs)"
  using assms by (auto simp: represents_def)

text \<open>The content of a place.\<close>

lemma writePlace_last:
  assumes "chain (m_heap l) FirstNode xs z" "distinct (map fst xs)"
  shows "\<exists>h. writePlace (last_place FirstNode xs) v l = (Inr (), l\<lparr>m_firstNode := if xs = [] then v else m_firstNode l, m_heap := h\<rparr>) \<and>
    chain h FirstNode xs v \<and> (\<forall>b. b \<notin> fst ` set xs \<longrightarrow> h b = m_heap l b) \<and> dom h = dom (m_heap l)"
proof (cases xs rule: rev_cases)
  case (snoc ys y)
  obtain a d where y: "y = (a, d)" by (rule prod.exhaust)
  have c: "chain (m_heap l) FirstNode ys (Some a)" "m_heap l a = Some \<lparr>m_nextNode = z, m_pThisNode = last_place FirstNode ys, m_data = d\<rparr>"
    "a \<notin> fst ` set ys" using assms snoc y by (auto simp: chain_append)
  then show ?thesis using snoc y
    by (intro exI [of _ "(m_heap l)(a \<mapsto> \<lparr>m_nextNode = v, m_pThisNode = last_place FirstNode ys, m_data = d\<rparr>)"])
      (auto simp: writePlace_def load_def writeNode_def bind_def modify_def chain_append)
qed (simp add: writePlace_def exI [of _ "m_heap l"])

lemma chain_cong: "(\<And>b. b \<in> fst ` set xs \<Longrightarrow> h b = g b) \<Longrightarrow> chain h p xs z = chain g p xs z"
proof (induction xs arbitrary: p)
  case (Cons x xs)
  then show ?case by (cases x) simp
qed simp

section \<open>The operations on the list\<close>

lemma insertAtEnd_runs:
  assumes "represents l xs"
  shows "\<exists>l'. insertAtEnd d l = (Inr (m_fresh l), l') \<and> represents l' (xs @ [(m_fresh l, d)]) \<and>
    m_iterators l' = m_iterators l \<and> m_fresh l' = Suc (m_fresh l)"
proof -
  let ?n = "m_fresh l"
  let ?l = "l\<lparr>m_heap := (m_heap l)(?n \<mapsto> \<lparr>m_nextNode = None, m_pThisNode = last_place FirstNode xs, m_data = d\<rparr>), m_fresh := Suc ?n\<rparr>"
  note new = represents_bounds [OF assms]
  have "chain (m_heap ?l) FirstNode xs None" using assms new(3) by (simp add: represents_def)
  from writePlace_last [OF this new(4), of "Some ?n"] obtain h where
    h: "writePlace (last_place FirstNode xs) (Some ?n) ?l = (Inr (), ?l\<lparr>m_firstNode := if xs = [] then Some ?n else m_firstNode ?l, m_heap := h\<rparr>)"
      "chain h FirstNode xs (Some ?n)" "\<forall>b. b \<notin> fst ` set xs \<longrightarrow> h b = m_heap ?l b" "dom h = dom (m_heap ?l)" by blast
  let ?l' = "?l\<lparr>m_firstNode := if xs = [] then Some ?n else m_firstNode ?l, m_heap := h, m_pLastNode := NextOf ?n\<rparr>"
  have e: "insertAtEnd d l = (Inr ?n, ?l')"
    using assms h(1) by (simp add: insertAtEnd_def newNode_def bind_def represents_def)
  have "h ?n = m_heap ?l ?n" using h(3) new(3) by blast
  moreover have "m_firstNode ?l' = first_of (xs @ [(?n, d)]) None" using assms by (cases xs) (auto simp: represents_def)
  ultimately have "represents ?l' (xs @ [(?n, d)])"
    using assms new h(2,4) unfolding represents_def by (auto simp: chain_append intro: less_SucI)
  then show ?thesis using e by simp
qed

lemma insertBefore_runs:
  assumes "represents l (xs @ (a, e) # ys)"
  shows "\<exists>l'. insertBefore a d l = (Inr (m_fresh l), l') \<and> represents l' (xs @ (m_fresh l, d) # (a, e) # ys) \<and>
    m_iterators l' = map (\<lambda>(k, s). (k, if m_item s \<noteq> None \<and> m_nextItem s = Some a then s\<lparr>m_nextItem := Some (m_fresh l)\<rparr> else s)) (m_iterators l) \<and>
    m_fresh l' = Suc (m_fresh l)"
proof -
  let ?n = "m_fresh l"
  let ?node = "\<lparr>m_nextNode = first_of ys None, m_pThisNode = last_place FirstNode xs, m_data = e\<rparr>"
  let ?l = "l\<lparr>m_heap := (m_heap l)(?n \<mapsto> \<lparr>m_nextNode = Some a, m_pThisNode = last_place FirstNode xs, m_data = d\<rparr>), m_fresh := Suc ?n\<rparr>"
  note new = represents_bounds [OF assms]
  have "chain (m_heap ?l) FirstNode xs (Some a)" "distinct (map fst xs)" using assms new by (simp_all add: represents_def chain_append)
  from writePlace_last [OF this, of "Some ?n"] obtain h where
    h: "writePlace (last_place FirstNode xs) (Some ?n) ?l = (Inr (), ?l\<lparr>m_firstNode := if xs = [] then Some ?n else m_firstNode ?l, m_heap := h\<rparr>)"
      "chain h FirstNode xs (Some ?n)" "\<forall>b. b \<notin> fst ` set xs \<longrightarrow> h b = m_heap ?l b" "dom h = dom (m_heap ?l)" by blast
  have a: "h a = Some ?node" "h ?n = m_heap ?l ?n" "a \<noteq> ?n" using h(3) new(3,4) representsD [OF assms] by auto
  let ?l' = "?l\<lparr>m_firstNode := if xs = [] then Some ?n else m_firstNode ?l, m_heap := h(a \<mapsto> ?node\<lparr>m_pThisNode := NextOf ?n\<rparr>),
     m_iterators := map (\<lambda>(k, s). (k, if m_item s \<noteq> None \<and> m_nextItem s = Some a then s\<lparr>m_nextItem := Some ?n\<rparr> else s)) (m_iterators l)\<rparr>"
  have run: "insertBefore a d l = (Inr ?n, ?l')"
    using load_node [OF assms] h(1) a by (simp add: insertBefore_def newNode_def bind_def load_def writeNode_def)
  have "chain (m_heap l) (NextOf a) ys None" using assms by (simp add: represents_def chain_append)
  moreover have "h b = m_heap l b" if "b \<in> fst ` set ys" for b
  proof -
    have "fst ` set xs \<inter> fst ` set ys = {}" "?n \<notin> fst ` set ys" using new(3,4) by simp_all
    then have "b \<notin> fst ` set xs" "b \<noteq> ?n" using that by (metis disjoint_iff)+
    then show ?thesis using h(3) by simp
  qed
  ultimately have "chain h (NextOf a) ys None" using chain_cong [of ys h "m_heap l"] by simp
  then have "represents ?l' (xs @ (?n, d) # (a, e) # ys)"
    unfolding represents_def using assms a h(2,4) new
    by (auto simp: represents_def chain_append first_of_ne intro: less_SucI)
  then show ?thesis using run by simp
qed

lemma extractElement_runs:
  assumes "represents l (xs @ (a, d) # ys)" "m_item (iterator_at l i) = Some a"
  shows "\<exists>l'. MultiList_extractElement i l = (Inr d, l') \<and> represents l' (xs @ ys) \<and>
    m_iterators l' = map (\<lambda>(k, s). (k, forgetItem a (first_of ys None) s)) (m_iterators l) \<and> m_fresh l' = m_fresh l"
proof -
  let ?l = "l\<lparr>m_iterators := map (\<lambda>(k, s). (k, forgetItem a (first_of ys None) s)) (m_iterators l)\<rparr>"
  note new = represents_bounds [OF assms(1)]
  have "chain (m_heap ?l) FirstNode xs (Some a)" "distinct (map fst xs)" using assms new by (simp_all add: represents_def chain_append)
  from writePlace_last [OF this, of "first_of ys None"] obtain h where
    h: "writePlace (last_place FirstNode xs) (first_of ys None) ?l =
        (Inr (), ?l\<lparr>m_firstNode := if xs = [] then first_of ys None else m_firstNode ?l, m_heap := h\<rparr>)"
      "chain h FirstNode xs (first_of ys None)" "\<forall>b. b \<notin> fst ` set xs \<longrightarrow> h b = m_heap ?l b" "dom h = dom (m_heap ?l)" by blast
  have frame: "h b = m_heap l b" if "b \<in> fst ` set ys" for b
  proof -
    have "fst ` set xs \<inter> fst ` set ys = {}" using new(4) by simp
    then have "b \<notin> fst ` set xs" using that by (metis disjoint_iff)
    then show ?thesis using h(3) by simp
  qed
  have ys: "chain h (NextOf a) ys None" using assms(1) chain_cong [of ys h "m_heap l", OF frame] by (simp add: represents_def chain_append)
  let ?h = "(case ys of [] \<Rightarrow> h | (b, e) # zs \<Rightarrow> h(b \<mapsto> \<lparr>m_nextNode = first_of zs None, m_pThisNode = last_place FirstNode xs, m_data = e\<rparr>))(a := None)"
  let ?l' = "?l\<lparr>m_firstNode := if xs = [] then first_of ys None else m_firstNode ?l, m_heap := ?h,
     m_pLastNode := if ys = [] then last_place FirstNode xs else m_pLastNode l\<rparr>"
  have run: "MultiList_extractElement i l = (Inr d, ?l')"
  proof (cases ys)
    case Nil
    then show ?thesis using assms(2) load_node [OF assms(1)] h(1) by (simp add: MultiList_extractElement_def bind_def)
  next
    case (Cons y zs)
    then show ?thesis using assms(2) load_node [OF assms(1)] h(1) ys
      by (cases y) (simp add: MultiList_extractElement_def bind_def load_def writeNode_def)
  qed
  have "represents ?l' (xs @ ys)"
  proof (cases ys)
    case Nil
    then show ?thesis using assms(1) h(2,4) new ys by (auto simp: represents_def first_of_ne)
  next
    case (Cons y zs)
    obtain b e where y: "y = (b, e)" by (rule prod.exhaust)
    then show ?thesis using Cons assms(1) h(2,4) new ys by (auto simp: represents_def chain_append first_of_ne)
  qed
  then show ?thesis using run by simp
qed

lemma size_runs:
  assumes "represents l xs" "length xs < fuel"
  shows "MultiList_size fuel l = (Inr (length xs), l)"
proof -
  have "sizeLoop fuel (first_of zs None) n l = (Inr (n + length zs), l)" if "represents l (ys @ zs)" "length zs < fuel" for ys zs n
    using that
  proof (induction zs arbitrary: ys n fuel)
    case Nil
    then show ?case by (cases fuel) simp_all
  next
    case (Cons z zs)
    then obtain f where f: "fuel = Suc f" by (cases fuel) auto
    show ?case using Cons.IH [of "ys @ [z]" f "n + 1"] Cons.prems f load_node [of l ys "fst z" "snd z" zs] by (simp add: bind_def)
  qed
  from this [of "[]" xs 0] show ?thesis using assms by (simp add: MultiList_size_def represents_def)
qed

section \<open>Iterators\<close>

text \<open>An iterator in front of the elements \<open>zs\<close>, and one whose element was removed in front of them.\<close>

definition pos :: "(nat \<times> 'a option) list \<Rightarrow> iter" where
  "pos zs = \<lparr>m_item = first_of zs None, m_nextItem = first_of (tl zs) None\<rparr>"

definition gone :: "(nat \<times> 'a option) list \<Rightarrow> iter" where
  "gone zs = \<lparr>m_item = None, m_nextItem = first_of zs None\<rparr>"

lemma pos_simps [simp]: "m_item (pos zs) = first_of zs None" "m_nextItem (pos zs) = first_of (tl zs) None"
  "pos zs = iterator_end \<longleftrightarrow> zs = []" "m_item (gone zs) = None" "m_nextItem (gone zs) = first_of zs None"
  "pos [] = iterator_end" "gone [] = iterator_end" "m_item iterator_end = None" "m_nextItem iterator_end = None"
  by (cases zs; auto simp: pos_def gone_def iterator_end_def)+

lemma iterator_at_map:
  assumes "m_iterators l' = map (\<lambda>(k, s). (k, f s)) (m_iterators l)" "f iterator_end = iterator_end"
  shows "iterator_at l' i = f (iterator_at l i)"
  using assms by (auto simp: iterator_at_def map_of_map split: option.split)

lemma iterator_at_same: "m_iterators l' = m_iterators l \<Longrightarrow> iterator_at l' i = iterator_at l i"
  by (simp add: iterator_at_def)

lemma forgetItem_end [simp]: "forgetItem a b iterator_end = iterator_end"
  by (simp add: forgetItem_def)

lemma iterator_at_fresh: "represents l xs \<Longrightarrow> iterator_at l (m_fresh l) = iterator_end"
  by (auto simp: iterator_at_def represents_def split: option.split dest: map_of_SomeD)

lemma map_of_set: "map_of (map (\<lambda>(k, t). (k, if k = i then s else t)) its) j =
  (if j = i then (case map_of its i of None \<Rightarrow> None | Some _ \<Rightarrow> Some s) else map_of its j)"
  by (induction its) auto

lemma iterator_set_at:
  assumes "iterator_at l i \<noteq> iterator_end \<or> s = iterator_end"
  shows "\<exists>l'. iterator_set i s l = (Inr (), l') \<and> iterator_at l' = (iterator_at l)(i := s) \<and> m_fresh l' = m_fresh l \<and> (represents l xs \<longrightarrow> represents l' xs)"
proof -
  let ?l = "l\<lparr>m_iterators := map (\<lambda>(k, t). (k, if k = i then s else t)) (m_iterators l)\<rparr>"
  have "represents l xs \<longrightarrow> represents ?l xs" by (auto intro!: represents_iterators dest: represents_bounds(2))
  moreover have "iterator_at ?l = (iterator_at l)(i := s)" using assms by (auto simp: iterator_at_def map_of_set split: option.splits)
  ultimately show ?thesis by (simp add: iterator_set_def)
qed

lemma iterator_unlink_runs:
  "\<exists>l'. iterator_unlink i l = (Inr (), l') \<and> iterator_at l' = (iterator_at l)(i := iterator_end) \<and> m_fresh l' = m_fresh l \<and> (represents l xs \<longrightarrow> represents l' xs)"
proof -
  let ?l = "l\<lparr>m_iterators := filter (\<lambda>(k, s). k \<noteq> i) (m_iterators l)\<rparr>"
  have "map_of (filter (\<lambda>(k, s). k \<noteq> i) its) j = (if j = i then None else map_of its j)" for its :: "(nat \<times> iter) list" and j
    by (induction its) auto
  then have "iterator_at ?l = (iterator_at l)(i := iterator_end)" by (auto simp: iterator_at_def)
  moreover have "represents l xs \<longrightarrow> represents ?l xs" by (auto intro!: represents_iterators dest: represents_bounds(2))
  ultimately show ?thesis by (simp add: iterator_unlink_def)
qed

lemma link_before_at: "j \<notin> fst ` set its \<Longrightarrow> map_of (link_before j i its) k = (if k = j then map_of its i else map_of its k)"
  by (induction j i its rule: link_before.induct) auto

lemma link_before_set: "(k, s) \<in> set (link_before j i its) \<Longrightarrow> k = j \<or> (k, s) \<in> set its"
  by (induction j i its rule: link_before.induct) (auto split: if_splits)

lemma iterator_copy_runs:
  assumes "represents l xs"
  shows "\<exists>l'. iterator_copy i l = (Inr (m_fresh l), l') \<and> represents l' xs \<and> iterator_at l' = (iterator_at l)(m_fresh l := iterator_at l i) \<and>
    m_fresh l' = Suc (m_fresh l)"
proof -
  let ?l = "l\<lparr>m_iterators := link_before (m_fresh l) i (m_iterators l), m_fresh := Suc (m_fresh l)\<rparr>"
  have "represents ?l xs" using link_before_set by (intro represents_new [OF assms]) blast
  moreover have "m_fresh l \<notin> fst ` set (m_iterators l)" using assms by (auto simp: represents_def)
  then have "iterator_at ?l = (iterator_at l)(m_fresh l := iterator_at l i)" by (auto simp: iterator_at_def link_before_at)
  ultimately show ?thesis by (simp add: iterator_copy_def)
qed

lemma iterator_new_runs:
  assumes "represents l (ys @ zs)"
  shows "\<exists>l'. iterator_new (first_of zs None) l = (Inr (m_fresh l), l') \<and> represents l' (ys @ zs) \<and>
    iterator_at l' = (iterator_at l)(m_fresh l := pos zs) \<and> m_fresh l' = Suc (m_fresh l)"
proof -
  let ?l = "l\<lparr>m_iterators := (m_fresh l, pos zs) # m_iterators l, m_fresh := Suc (m_fresh l)\<rparr>"
  have "iterator_new (first_of zs None) l = (Inr (m_fresh l), ?l)"
  proof (cases zs)
    case (Cons z ws)
    then show ?thesis using load_node [of l ys "fst z" "snd z" ws] assms by (simp add: iterator_new_def bind_def pos_def)
  qed (simp add: iterator_new_def iterator_end_def pos_def)
  moreover have "represents ?l (ys @ zs)" by (intro represents_new [OF assms]) auto
  ultimately show ?thesis by (auto simp: iterator_at_def)
qed

lemma iterator_next_runs:
  assumes "represents l (ys @ zs)" "m_nextItem (iterator_at l i) = first_of zs None"
  shows "\<exists>l'. iterator_next i l = (Inr (), l') \<and> represents l' (ys @ zs) \<and> iterator_at l' = (iterator_at l)(i := pos zs) \<and> m_fresh l' = m_fresh l"
proof (cases zs)
  case Nil
  then show ?thesis using assms iterator_set_at [of l i iterator_end "ys @ zs"] by (auto simp: iterator_next_def)
next
  case (Cons z ws)
  then show ?thesis using assms load_node [of l ys "fst z" "snd z" ws] iterator_set_at [of l i "pos zs" "ys @ zs"]
    by (cases "iterator_at l i = iterator_end") (auto simp: iterator_next_def bind_def pos_def)
qed

lemma iterator_get_runs:
  assumes "represents l (ys @ z # zs)" "m_item (iterator_at l i) = Some (fst z)"
  shows "iterator_get i l = (Inr (snd z), l)"
  using assms load_node [of l ys "fst z" "snd z" zs] by (simp add: iterator_get_def bind_def)

lemma begin_runs:
  assumes "represents l xs"
  shows "\<exists>l'. MultiList_begin l = (Inr (m_fresh l), l') \<and> represents l' xs \<and> iterator_at l' = (iterator_at l)(m_fresh l := pos xs) \<and>
    m_fresh l' = Suc (m_fresh l)"
proof -
  have "m_firstNode l = first_of xs None" using assms by (simp add: represents_def)
  then show ?thesis using iterator_new_runs [of l "[]" xs] assms by (simp add: MultiList_begin_def bind_def gets_def)
qed

lemma extractFront_runs:
  assumes "represents l (x # xs)"
  shows "\<exists>l'. MultiList_extractFront l = (Inr (snd x), l') \<and> represents l' xs"
proof -
  from begin_runs [OF assms] obtain l1 where
    l1: "MultiList_begin l = (Inr (m_fresh l), l1)" "represents l1 ([] @ (fst x, snd x) # xs)" "iterator_at l1 (m_fresh l) = pos (x # xs)" by auto
  from extractElement_runs [OF l1(2), of "m_fresh l"] l1(3) obtain l2 where
    l2: "MultiList_extractElement (m_fresh l) l1 = (Inr (snd x), l2)" "represents l2 xs" by auto
  from iterator_unlink_runs [of "m_fresh l" l2 xs] l2(2) obtain l3 where "iterator_unlink (m_fresh l) l2 = (Inr (), l3)" "represents l3 xs" by auto
  then show ?thesis using l1(1) l2(1) by (simp add: MultiList_extractFront_def bind_def)
qed

lemma clear_runs:
  assumes "represents l xs" "length xs < fuel"
  shows "\<exists>l'. MultiList_clear fuel l = (Inr (), l') \<and> represents l' []"
proof -
  have "\<exists>l'. clearLoop fuel l = (Inr (), l') \<and> represents l' []" if "represents l xs" "length xs < fuel" for l :: "'a mlist" and xs
    using that
  proof (induction xs arbitrary: l fuel)
    case Nil
    then have "m_firstNode l = None" by (simp add: represents_def)
    then show ?case using Nil by (cases fuel) (simp_all add: MultiList_empty_def)
  next
    case (Cons x xs)
    then obtain f where f: "fuel = Suc f" by (cases fuel) auto
    have "MultiList_empty l = False" using Cons.prems(1) by (simp add: MultiList_empty_def represents_def)
    then show ?case using Cons.IH [of _ f] Cons.prems extractFront_runs [OF Cons.prems(1)] f by (auto simp: bind_def)
  qed
  from this [of "l\<lparr>m_iterators := []\<rparr>"] show ?thesis using assms represents_iterators [OF assms(1), of "[]"]
    by (simp add: MultiList_clear_def invalidateAllIterators_def)
qed

text \<open>Insertion in front of an iterator keeps the iterator.\<close>

lemma insert_runs:
  assumes "represents l (ys @ zs)" "iterator_at l i = pos zs" "i < m_fresh l"
  shows "\<exists>l' j n. MultiList_insert i d l = (Inr j, l') \<and> represents l' (ys @ (n, d) # zs) \<and> iterator_at l' i = pos zs \<and> j \<noteq> i \<and>
    m_fresh l < m_fresh l'"
proof -
  have "\<exists>l1. (case first_of zs None of None \<Rightarrow> insertAtEnd d | Some a \<Rightarrow> insertBefore a d) l = (Inr (m_fresh l), l1) \<and>
      represents l1 (ys @ (m_fresh l, d) # zs) \<and> iterator_at l1 i = pos zs \<and> m_fresh l1 = Suc (m_fresh l)"
  proof (cases zs)
    case Nil
    then show ?thesis using insertAtEnd_runs [of l ys d] assms iterator_at_same by fastforce
  next
    case (Cons z ws)
    obtain a e where z: "z = (a, e)" by (rule prod.exhaust)
    from insertBefore_runs [of l ys a e ws d] assms(1) Cons z obtain l1 where
      l1: "insertBefore a d l = (Inr (m_fresh l), l1)" "represents l1 (ys @ (m_fresh l, d) # zs)" "m_fresh l1 = Suc (m_fresh l)"
        "m_iterators l1 = map (\<lambda>(k, s). (k, if m_item s \<noteq> None \<and> m_nextItem s = Some a then s\<lparr>m_nextItem := Some (m_fresh l)\<rparr> else s)) (m_iterators l)"
      by auto
    have "first_of ws None \<noteq> Some a" using represents_bounds(4) [OF assms(1)] Cons z by (cases ws) auto
    then have "iterator_at l1 i = pos zs" using iterator_at_map [OF l1(4), of i] assms(2) Cons by simp
    then show ?thesis using l1 Cons z by auto
  qed
  then obtain l1 where l1: "(case first_of zs None of None \<Rightarrow> insertAtEnd d | Some a \<Rightarrow> insertBefore a d) l = (Inr (m_fresh l), l1)"
      "represents l1 (ys @ (m_fresh l, d) # zs)" "iterator_at l1 i = pos zs" "m_fresh l1 = Suc (m_fresh l)" by blast
  from iterator_new_runs [OF l1(2)] obtain l2 where
    l2: "iterator_new (Some (m_fresh l)) l1 = (Inr (m_fresh l1), l2)" "represents l2 (ys @ (m_fresh l, d) # zs)"
      "iterator_at l2 i = pos zs" "m_fresh l < m_fresh l2" using l1(3,4) assms(3) by auto
  have "MultiList_insert i d l = (Inr (m_fresh l1), l2)"
    using l1(1) l2(1) assms(2) by (cases zs) (simp_all add: MultiList_insert_def bind_def)
  then show ?thesis using l2 l1(4) assms(3) by auto
qed

section \<open>Merging\<close>

lemma skipLess_runs:
  assumes "represents l (ys @ zs)" "iterator_at l i = pos zs" "length zs < fuel"
  shows "\<exists>l'. skipLess fuel p i d l = (Inr (), l') \<and> represents l' (ys @ zs) \<and>
    iterator_at l' i = pos (dropWhile (\<lambda>x. p (snd x) d) zs) \<and> m_fresh l' = m_fresh l"
  using assms
proof (induction fuel arbitrary: l ys zs)
  case (Suc fuel)
  show ?case
  proof (cases zs)
    case Nil
    then show ?thesis using Suc.prems by (simp add: iterator_is_end_def)
  next
    case (Cons z ws)
    have g: "iterator_get i l = (Inr (snd z), l)" using Suc.prems Cons by (intro iterator_get_runs) auto
    from iterator_next_runs [of l "ys @ [z]" ws i] Suc.prems Cons obtain l1 where
      l1: "iterator_next i l = (Inr (), l1)" "represents l1 ((ys @ [z]) @ ws)" "iterator_at l1 i = pos ws" "m_fresh l1 = m_fresh l"
      by (auto simp: iterator_end_def pos_def)
    then show ?thesis using Suc.IH [OF l1(2,3)] Suc.prems Cons g by (auto simp: iterator_is_end_def bind_def)
  qed
qed simp

text \<open>What \<open>merge\<close> computes.\<close>

fun merged :: "('b \<Rightarrow> 'b \<Rightarrow> bool) \<Rightarrow> 'b list \<Rightarrow> 'b list \<Rightarrow> 'b list" where
  "merged p xs [] = xs"
| "merged p xs (y # ys) = takeWhile (\<lambda>x. p x y) xs @ y # merged p (dropWhile (\<lambda>x. p x y) xs) ys"

lemma multiMergeLoop_runs:
  assumes "represents l (ys @ zs)" "iterator_at l i = pos zs" "i < m_fresh l" "represents t ws" "length zs + length ws < fuel"
  shows "\<exists>l' t' us. multiMergeLoop fuel p i (l, t) = (Inr (), l', t') \<and> represents l' us \<and> represents t' [] \<and>
    map snd us = map snd ys @ merged p (map snd zs) (map snd ws)"
  using assms
proof (induction ws arbitrary: fuel l t ys zs)
  case Nil
  then obtain f where "fuel = Suc f" by (cases fuel) auto
  moreover have "m_firstNode t = None" using Nil.prems(4) by (simp add: represents_def)
  ultimately show ?case using Nil by (auto simp: MultiList_empty_def intro: exI [of _ "ys @ zs"])
next
  case (Cons w ws)
  obtain f where f: "fuel = Suc f" using Cons.prems(5) by (cases fuel) auto
  let ?P = "\<lambda>x. p (snd x) (snd w)"
  let ?ys = "ys @ takeWhile ?P zs" and ?zs = "dropWhile ?P zs"
  have len: "length ?zs \<le> length zs" by (rule length_dropWhile_le)
  from extractFront_runs [OF Cons.prems(4)] obtain t1 where t1: "MultiList_extractFront t = (Inr (snd w), t1)" "represents t1 ws" by auto
  from skipLess_runs [OF Cons.prems(1,2), of f p "snd w"] f Cons.prems(5) obtain l1 where
    l1: "skipLess f p i (snd w) l = (Inr (), l1)" "represents l1 (?ys @ ?zs)" "iterator_at l1 i = pos ?zs" "i < m_fresh l1"
    using Cons.prems(3) by auto
  from insert_runs [OF l1(2-4), of "snd w"] obtain l2 j n where
    l2: "MultiList_insert i (snd w) l1 = (Inr j, l2)" "represents l2 ((?ys @ [(n, snd w)]) @ ?zs)" "iterator_at l2 i = pos ?zs" "j \<noteq> i" "i < m_fresh l2"
    using l1(4) by fastforce
  from iterator_unlink_runs [of j l2 "(?ys @ [(n, snd w)]) @ ?zs"] l2 obtain l3 where
    l3: "iterator_unlink j l2 = (Inr (), l3)" "represents l3 ((?ys @ [(n, snd w)]) @ ?zs)" "iterator_at l3 i = pos ?zs" "i < m_fresh l3" by auto
  have "MultiList_empty t = False" using Cons.prems(4) by (simp add: MultiList_empty_def represents_def)
  then have step: "multiMergeLoop fuel p i (l, t) = multiMergeLoop f p i (l3, t1)"
    using f t1(1) l1(1) l2(1) l3(1) by (simp add: bind_def on_this_def on_other_def zoom_def)
  have "length ?zs + length ws < f" using len Cons.prems(5) f by simp
  from Cons.IH [OF l3(2-4) t1(2) this] step show ?case
    by (auto simp: takeWhile_map dropWhile_map comp_def)
qed

lemma merge_runs:
  assumes "represents l zs" "represents t ws" "length zs + length ws < fuel"
  shows "\<exists>l' t' us. MultiList_merge fuel p (l, t) = (Inr (), l', t') \<and> represents l' us \<and> map snd us = merged p (map snd zs) (map snd ws)"
proof -
  from begin_runs [OF assms(1)] obtain l1 where
    l1: "MultiList_begin l = (Inr (m_fresh l), l1)" "represents l1 ([] @ zs)" "iterator_at l1 (m_fresh l) = pos zs" "m_fresh l < m_fresh l1" by auto
  from multiMergeLoop_runs [OF l1(2-4) assms(2,3), of p] obtain l2 t2 us where
    l2: "multiMergeLoop fuel p (m_fresh l) (l1, t) = (Inr (), l2, t2)" "represents l2 us" "map snd us = merged p (map snd zs) (map snd ws)" by auto
  from iterator_unlink_runs [of "m_fresh l" l2 us] l2(2) obtain l3 where "iterator_unlink (m_fresh l) l2 = (Inr (), l3)" "represents l3 us" by auto
  then show ?thesis using l1(1) l2 by (auto simp: MultiList_merge_def bind_def on_this_def zoom_def)
qed

section \<open>Sorting\<close>

fun every_other :: "bool \<Rightarrow> 'b list \<Rightarrow> 'b list" where
  "every_other b [] = []"
| "every_other True (x # xs) = x # every_other False xs"
| "every_other False (x # xs) = every_other True xs"

lemma splitLoop_runs:
  assumes "represents l (ys @ zs)" "iterator_at l i = pos zs" "i < m_fresh l" "represents t ws" "length zs < fuel"
  shows "\<exists>l' t' us vs. splitLoop fuel i n (l, t) = (Inr (n + length zs), l', t') \<and> represents l' us \<and> represents t' vs \<and>
    map snd us = map snd ys @ every_other (even n) (map snd zs) \<and> map snd vs = map snd ws @ every_other (odd n) (map snd zs)"
  using assms
proof (induction zs arbitrary: fuel l t ys ws n)
  case Nil
  then obtain f where "fuel = Suc f" by (cases fuel) auto
  then show ?case using Nil by (auto simp: iterator_is_end_def)
next
  case (Cons z zs)
  obtain f where f: "fuel = Suc f" using Cons.prems(5) by (cases fuel) auto
  have nonempty: "iterator_at l i \<noteq> iterator_end" using Cons.prems(2) by simp
  show ?case
  proof (cases "odd n")
    case False
    from iterator_next_runs [of l "ys @ [z]" zs i] Cons.prems(1,2) obtain l1 where
      l1: "iterator_next i l = (Inr (), l1)" "represents l1 ((ys @ [z]) @ zs)" "iterator_at l1 i = pos zs" "m_fresh l1 = m_fresh l" by auto
    have "splitLoop fuel i n (l, t) = splitLoop f i (n + 1) (l1, t)"
      using f False nonempty l1(1) by (simp add: iterator_is_end_def bind_def on_this_def zoom_def)
    then show ?thesis using Cons.IH [OF l1(2,3) _ Cons.prems(4), of f "n + 1"] Cons.prems(3,5) f l1(4) False by auto
  next
    case True
    let ?j = "m_fresh l"
    from iterator_copy_runs [OF Cons.prems(1), of i] obtain l1 where
      l1: "iterator_copy i l = (Inr ?j, l1)" "represents l1 (ys @ (fst z, snd z) # zs)" "iterator_at l1 i = pos (z # zs)"
        "iterator_at l1 ?j = pos (z # zs)" "i < m_fresh l1" using Cons.prems(2,3) by auto
    from extractElement_runs [OF l1(2), of ?j] l1(4) obtain l2 where
      l2: "MultiList_extractElement ?j l1 = (Inr (snd z), l2)" "represents l2 (ys @ zs)" "m_fresh l2 = m_fresh l1"
        "m_iterators l2 = map (\<lambda>(k, s). (k, forgetItem (fst z) (first_of zs None) s)) (m_iterators l1)" by auto
    have "iterator_at l2 i = gone zs"
      using iterator_at_map [OF l2(4), of i] l1(3) by (simp add: forgetItem_def pos_def gone_def)
    with iterator_unlink_runs [of ?j l2 "ys @ zs"] l2(2) Cons.prems(3) obtain l3 where
      l3: "iterator_unlink ?j l2 = (Inr (), l3)" "represents l3 (ys @ zs)" "iterator_at l3 i = gone zs" "m_fresh l3 = m_fresh l2" by auto
    from iterator_next_runs [OF l3(2), of i] l3(3) obtain l4 where
      l4: "iterator_next i l3 = (Inr (), l4)" "represents l4 (ys @ zs)" "iterator_at l4 i = pos zs" "i < m_fresh l4"
      using l1(5) l2(3) l3(4) by auto
    from insertAtEnd_runs [OF Cons.prems(4), of "snd z"] obtain t1 k where
      t1: "MultiList_pushBackNew (snd z) t = (Inr (), t1)" "represents t1 (ws @ [(k, snd z)])" by (auto simp: MultiList_pushBackNew_def bind_def)
    have "splitLoop fuel i n (l, t) = splitLoop f i (n + 1) (l4, t1)"
      using f True nonempty l1(1) l2(1) l3(1) l4(1) t1(1) by (simp add: iterator_is_end_def bind_def on_this_def on_other_def zoom_def)
    then show ?thesis using Cons.IH [OF l4(2-4) t1(2), of f "n + 1"] Cons.prems(5) f True by auto
  qed
qed

lemma every_other_length: "length (every_other b xs) \<le> (length xs + (if b then 1 else 0)) div 2"
  by (induction b xs rule: every_other.induct) auto

lemma every_other_mset: "mset (every_other b xs) + mset (every_other (\<not> b) xs) = mset xs"
  by (induction b xs rule: every_other.induct) auto

lemma every_other_length_sum: "length (every_other b xs) + length (every_other (\<not> b) xs) = length xs"
  by (induction b xs rule: every_other.induct) auto

lemma merged_mset: "mset (merged p xs ys) = mset xs + mset ys"
proof (induction p xs ys rule: merged.induct)
  case (2 p xs y ys)
  have "mset xs = mset (takeWhile (\<lambda>x. p x y) xs) + mset (dropWhile (\<lambda>x. p x y) xs)"
    by (metis mset_append takeWhile_dropWhile_id)
  then show ?case using 2 by simp
qed simp

lemma merged_set: "set (merged p xs ys) = set xs \<union> set ys"
  using merged_mset [of p xs ys] by (metis set_mset_mset set_mset_union)

text \<open>The order that a comparison stands for.\<close>

abbreviation (input) not_after :: "('b \<Rightarrow> 'b \<Rightarrow> bool) \<Rightarrow> 'b \<Rightarrow> 'b \<Rightarrow> bool" where
  "not_after p x y \<equiv> \<not> p y x"

lemma merged_sorted:
  assumes "asymp p" "transp (not_after p)" "sorted_wrt (not_after p) xs" "sorted_wrt (not_after p) ys"
  shows "sorted_wrt (not_after p) (merged p xs ys)"
  using assms
proof (induction p xs ys rule: merged.induct)
  case (2 p xs y ys)
  let ?P = "\<lambda>x. p x y"
  have "sorted_wrt (not_after p) (takeWhile ?P xs @ dropWhile ?P xs)" using "2.prems"(3) by simp
  then have parts: "sorted_wrt (not_after p) (takeWhile ?P xs)" "sorted_wrt (not_after p) (dropWhile ?P xs)"
    "\<forall>a\<in>set (takeWhile ?P xs). \<forall>b\<in>set (dropWhile ?P xs). \<not> p b a" by (auto simp only: sorted_wrt_append)
  have low: "\<not> p y a" if "a \<in> set (takeWhile ?P xs)" for a
    using set_takeWhileD [OF that] asympD [OF "2.prems"(1)] by blast
  have high: "\<not> p b y" if b: "b \<in> set (dropWhile ?P xs)" for b
  proof -
    obtain z zs where z: "dropWhile ?P xs = z # zs" using b by (cases "dropWhile ?P xs") auto
    then have "\<not> p z y" using hd_dropWhile [of ?P xs] by simp
    moreover have "b = z \<or> \<not> p b z" using b z parts(2) by auto
    ultimately show ?thesis using transpD [OF "2.prems"(2)] by blast
  qed
  have ys: "\<not> p b y" if "b \<in> set ys" for b using "2.prems"(4) that by simp
  have rest: "\<not> p b a" if "a \<in> set (takeWhile ?P xs)" "b \<in> set ys" for a b
    using transpD [OF "2.prems"(2)] low ys that by blast
  have "sorted_wrt (not_after p) (merged p (dropWhile ?P xs) ys)" using "2.IH" "2.prems"(1,2,4) parts(2) by simp
  moreover have "\<forall>b\<in>set (merged p (dropWhile ?P xs) ys). \<not> p b y" unfolding merged_set using high ys by blast
  moreover have "\<forall>a\<in>set (takeWhile ?P xs). \<forall>b\<in>set (y # merged p (dropWhile ?P xs) ys). \<not> p b a"
  proof (intro ballI)
    fix a b assume a: "a \<in> set (takeWhile ?P xs)" and "b \<in> set (y # merged p (dropWhile ?P xs) ys)"
    then consider "b = y" | "b \<in> set (dropWhile ?P xs)" | "b \<in> set ys" using merged_set [of p "dropWhile ?P xs" ys] by auto
    then show "\<not> p b a"
    proof cases
      case 1
      then show ?thesis using low [OF a] by simp
    next
      case 2
      then show ?thesis using parts(3) a by metis
    next
      case 3
      then show ?thesis by (rule rest [OF a])
    qed
  qed
  ultimately show ?case using parts(1) unfolding merged.simps sorted_wrt_append sorted_wrt.simps by (intro conjI)
qed simp

lemma sorted_short: "length xs \<le> 1 \<Longrightarrow> sorted_wrt r (map f xs)"
  by (cases xs) simp_all

text \<open>Sorted, where the comparison is a strict weak order.\<close>

definition in_order :: "('b \<Rightarrow> 'b \<Rightarrow> bool) \<Rightarrow> 'b list \<Rightarrow> bool" where
  "in_order p xs \<longleftrightarrow> (asymp p \<and> transp (not_after p) \<longrightarrow> sorted_wrt (not_after p) xs)"

lemma in_order_short: "length xs \<le> 1 \<Longrightarrow> in_order p (map f xs)"
  using sorted_short by (auto simp: in_order_def)

lemma in_order_merged: "in_order p xs \<Longrightarrow> in_order p ys \<Longrightarrow> in_order p (merged p xs ys)"
  using merged_sorted by (auto simp: in_order_def)

lemma sort_runs:
  assumes "represents l xs" "length xs < fuel"
  shows "\<exists>l' us. MultiList_sort fuel p l = (Inr (), l') \<and> represents l' us \<and>
    mset (map snd us) = mset (map snd xs) \<and> in_order p (map snd us)"
  using assms
proof (induction fuel arbitrary: l xs)
  case (Suc fuel)
  from begin_runs [OF Suc.prems(1)] obtain l1 where
    l1: "MultiList_begin l = (Inr (m_fresh l), l1)" "represents l1 ([] @ xs)" "iterator_at l1 (m_fresh l) = pos xs" "m_fresh l < m_fresh l1" by auto
  from splitLoop_runs [OF l1(2-4) represents_init Suc.prems(2), of 0] obtain l2 t2 us vs where
    l2: "splitLoop (Suc fuel) (m_fresh l) 0 (l1, MultiList_init) = (Inr (length xs), l2, t2)" "represents l2 us" "represents t2 vs"
      "map snd us = every_other True (map snd xs)" "map snd vs = every_other False (map snd xs)" by auto
  from iterator_unlink_runs [of "m_fresh l" l2 us] l2(2) obtain l3 where
    l3: "iterator_unlink (m_fresh l) l2 = (Inr (), l3)" "represents l3 us" by auto
  have len: "length us \<le> (length xs + 1) div 2" "length vs \<le> length xs div 2" "length us + length vs = length xs"
    using every_other_length [of True "map snd xs"] every_other_length [of False "map snd xs"] every_other_length_sum [of True "map snd xs"]
      arg_cong [OF l2(4), of length] arg_cong [OF l2(5), of length] by simp_all
  have mset: "mset (map snd us) + mset (map snd vs) = mset (map snd xs)" using every_other_mset [of True "map snd xs"] l2(4,5) by simp
  have "\<exists>l4 t4 us' vs'. (if length xs > 2 then bind (on_other (MultiList_sort fuel p)) (\<lambda>_. on_this (MultiList_sort fuel p)) else ret ()) (l3, t2) =
      (Inr (), l4, t4) \<and> represents l4 us' \<and> represents t4 vs' \<and> mset (map snd us') = mset (map snd us) \<and> mset (map snd vs') = mset (map snd vs) \<and>
      in_order p (map snd us') \<and> in_order p (map snd vs')"
  proof (cases "length xs > 2")
    case True
    then have bound: "length vs < fuel" "length us < fuel" using len(1,2) Suc.prems(2) by linarith+
    from Suc.IH [OF l2(3) bound(1)] obtain t4 vs' where
      t4: "MultiList_sort fuel p t2 = (Inr (), t4)" "represents t4 vs'" "mset (map snd vs') = mset (map snd vs)" "in_order p (map snd vs')" by blast
    from Suc.IH [OF l3(2) bound(2)] obtain l4 us' where
      l4: "MultiList_sort fuel p l3 = (Inr (), l4)" "represents l4 us'" "mset (map snd us') = mset (map snd us)" "in_order p (map snd us')" by blast
    show ?thesis using True t4 l4 by (simp add: bind_def on_this_def on_other_def zoom_def) blast
  next
    case False
    then have "length us \<le> 1" "length vs \<le> 1" using len by simp_all
    then have "in_order p (map snd us)" "in_order p (map snd vs)" by (simp_all only: in_order_short)
    then show ?thesis using False l3(2) l2(3) by auto
  qed
  then obtain l4 t4 us' vs' where
    l4: "(if length xs > 2 then bind (on_other (MultiList_sort fuel p)) (\<lambda>_. on_this (MultiList_sort fuel p)) else ret ()) (l3, t2) = (Inr (), l4, t4)"
      "represents l4 us'" "represents t4 vs'" "mset (map snd us') = mset (map snd us)" "mset (map snd vs') = mset (map snd vs)"
      "in_order p (map snd us')" "in_order p (map snd vs')" by blast
  have "size (mset (map snd us')) + size (mset (map snd vs')) = length xs" unfolding l4(4,5) using len(3) by simp
  then have "length us' + length vs' < Suc fuel" using Suc.prems(2) by simp
  from merge_runs [OF l4(2,3) this, of p] obtain l5 t5 ws where
    l5: "MultiList_merge (Suc fuel) p (l4, t4) = (Inr (), l5, t5)" "represents l5 ws" "map snd ws = merged p (map snd us') (map snd vs')" by blast
  have "MultiList_sort (Suc fuel) p l = (Inr (), l5)"
    using l1(1) l2(1) l3(1) l4(1) l5(1) by (simp add: bind_def on_this_def zoom_def split: if_splits)
  moreover have "mset (map snd ws) = mset (map snd xs)" unfolding l5(3) merged_mset using l4(4,5) mset by simp
  moreover have "in_order p (map snd ws)" unfolding l5(3) by (rule in_order_merged [OF l4(6,7)])
  ultimately show ?case using l5(2) by blast
qed simp

section \<open>Every sequence of operations\<close>

text \<open>
  What a client can do. It can assign to every iterator that has been created, and swap the elements of iterators that
  point at elements, as \<open>swapElements\<close> demands; the other list of a \<open>merge\<close> is one on which any operations have been
  performed. The loops of \<open>clear\<close>, \<open>sort\<close> and \<open>merge\<close> need as many rounds as there are nodes and one more; the number
  of addresses that have been used is enough. There is no \<open>pushFrontNew\<close>, which breaks the list
  (\<open>pushFront_loses_elements\<close>).
\<close>

datatype 'a mop =
    PushBack "'a option"
  | Insert nat "'a option"
  | Extract nat
  | ExtractFront
  | Swap nat nat
  | Clear
  | Sort "'a option \<Rightarrow> 'a option \<Rightarrow> bool"
  | Merge "'a option \<Rightarrow> 'a option \<Rightarrow> bool" "'a mop list"
  | Begin
  | Copy nat
  | Assign nat nat
  | Unlink nat
  | Next nat
  | Get nat

fun perform_op :: "'a mop \<Rightarrow> ('a mlist, 'a option) action" and perform_all :: "'a mop list \<Rightarrow> ('a mlist, unit) action" where
  "perform_op (PushBack d) = bind (MultiList_pushBackNew d) (\<lambda>_. ret None)"
| "perform_op (Insert i d) = bind (MultiList_insert i d) (\<lambda>_. ret None)"
| "perform_op (Extract i) = MultiList_extractElement i"
| "perform_op ExtractFront = MultiList_extractFront"
| "perform_op (Swap i j) =
     bind (gets (\<lambda>l. iterator_valid l i \<and> iterator_valid l j)) (\<lambda>v. if v then bind (MultiList_swapElements i j) (\<lambda>_. ret None) else ret None)"
| "perform_op Clear = bind (gets m_fresh) (\<lambda>n. bind (MultiList_clear (Suc n)) (\<lambda>_. ret None))"
| "perform_op (Sort p) = bind (gets m_fresh) (\<lambda>n. bind (MultiList_sort (Suc n) p) (\<lambda>_. ret None))"
| "perform_op (Merge p ops) = (\<lambda>l.
     case perform_all ops MultiList_init of
       (Inl e, t) \<Rightarrow> (Inl e, l)
     | (Inr _, t) \<Rightarrow> (case bind (MultiList_merge (Suc (m_fresh l + m_fresh t)) p) (\<lambda>_. ret None) (l, t) of (r, l', t') \<Rightarrow> (r, l')))"
| "perform_op Begin = bind MultiList_begin (\<lambda>_. ret None)"
| "perform_op (Copy i) = bind (iterator_copy i) (\<lambda>_. ret None)"
| "perform_op (Assign j i) =
     bind (gets (\<lambda>l. j < m_fresh l)) (\<lambda>v. if v then bind (iterator_assign j i) (\<lambda>_. ret None) else ret None)"
| "perform_op (Unlink i) = bind (iterator_invalidate i) (\<lambda>_. ret None)"
| "perform_op (Next i) = bind (iterator_next i) (\<lambda>_. ret None)"
| "perform_op (Get i) = iterator_get i"
| "perform_all [] = ret ()"
| "perform_all (op # ops) = bind (perform_op op) (\<lambda>_. perform_all ops)"

text \<open>
  The states an iterator can be in: in front of an element, on a removed element, or on an element that was the last
  one when the iterator reached it and has got a successor since, which the iterator does not know.
\<close>

definition stale :: "(nat \<times> 'a option) list \<Rightarrow> iter" where
  "stale zs = \<lparr>m_item = first_of zs None, m_nextItem = None\<rparr>"

definition tracked :: "(nat \<times> 'a option) list \<Rightarrow> iter \<Rightarrow> bool" where
  "tracked xs s \<longleftrightarrow> (\<exists>ys zs. xs = ys @ zs \<and> s \<in> {pos zs, gone zs, stale zs})"

definition safe :: "'a mlist \<Rightarrow> (nat \<times> 'a option) list \<Rightarrow> bool" where
  "safe l xs \<longleftrightarrow> represents l xs \<and> (\<forall>i. tracked xs (iterator_at l i))"

text \<open>
  The contract of the operations, on the list of elements. Insertion is in front of the element of the iterator, or of
  the one after a removed element.
\<close>

abbreviation (input) elements_from :: "nat \<Rightarrow> (nat \<times> 'a option) list \<Rightarrow> (nat \<times> 'a option) list" where
  "elements_from a xs \<equiv> dropWhile (\<lambda>y. fst y \<noteq> a) xs"

definition insert_before :: "nat option \<Rightarrow> (nat \<times> 'a option) \<Rightarrow> (nat \<times> 'a option) list \<Rightarrow> (nat \<times> 'a option) list" where
  "insert_before p x xs = (case p of None \<Rightarrow> xs @ [x] | Some a \<Rightarrow> takeWhile (\<lambda>y. fst y \<noteq> a) xs @ x # elements_from a xs)"

definition insertion_point :: "iter \<Rightarrow> nat option" where
  "insertion_point s = (case m_item s of None \<Rightarrow> m_nextItem s | Some a \<Rightarrow> Some a)"

definition element_at :: "(nat \<times> 'a option) list \<Rightarrow> nat option \<Rightarrow> 'a option" where
  "element_at xs p = (case p of None \<Rightarrow> None | Some a \<Rightarrow> (case map_of xs a of None \<Rightarrow> None | Some d \<Rightarrow> d))"

definition store_at :: "nat option \<Rightarrow> 'a option \<Rightarrow> (nat \<times> 'a option) list \<Rightarrow> (nat \<times> 'a option) list" where
  "store_at p d xs = map (\<lambda>(a, e). (a, if p = Some a then d else e)) xs"

text \<open>An iterator after the removal of an element: on the removed element, or where it was, with the new successor.\<close>

definition after_removal :: "nat option \<Rightarrow> (nat \<times> 'a option) list \<Rightarrow> iter \<Rightarrow> iter" where
  "after_removal p xs s = (case p of None \<Rightarrow> s | Some a \<Rightarrow> forgetItem a (first_of (tl (elements_from a xs)) None) s)"

text \<open>An iterator after an insertion: where it was; when the new element is behind its element, that is its next one.\<close>

definition after_insertion :: "nat option \<Rightarrow> nat \<Rightarrow> iter \<Rightarrow> iter" where
  "after_insertion p n s = (if p \<noteq> None \<and> m_item s \<noteq> None \<and> m_nextItem s = p then s\<lparr>m_nextItem := Some n\<rparr> else s)"

text \<open>
  Where an iterator moves: from an element to the next one, from a removed element to the one that was behind it; an
  iterator that does not know that its element has got a successor moves to the end.
\<close>

definition moves_on :: "(nat \<times> 'a option) list \<Rightarrow> iter \<Rightarrow> iter \<Rightarrow> bool" where
  "moves_on xs s s' \<longleftrightarrow>
     (\<forall>ys zs. xs = ys @ zs \<longrightarrow>
       (s = pos zs \<longrightarrow> s' = pos (tl zs)) \<and> (s = gone zs \<longrightarrow> s' = pos zs) \<and> (s = stale zs \<longrightarrow> s' = iterator_end))"

fun effect :: "'a mop \<Rightarrow> 'a mlist \<Rightarrow> (nat \<times> 'a option) list \<Rightarrow> 'a option \<Rightarrow> 'a mlist \<Rightarrow> (nat \<times> 'a option) list \<Rightarrow> bool" where
  "effect (PushBack d) l xs r l' xs' \<longleftrightarrow> xs' = xs @ [(m_fresh l, d)] \<and> iterator_at l' = iterator_at l"
| "effect (Insert i d) l xs r l' xs' \<longleftrightarrow>
     (let p = insertion_point (iterator_at l i); n = m_fresh l in
       xs' = insert_before p (n, d) xs \<and>
       iterator_at l' = (\<lambda>k. after_insertion p n (iterator_at l k))(Suc n := pos (elements_from n xs')))"
| "effect (Extract i) l xs r l' xs' \<longleftrightarrow>
     (let p = m_item (iterator_at l i) in
       r = element_at xs p \<and> xs' = filter (\<lambda>x. p \<noteq> Some (fst x)) xs \<and>
       iterator_at l' = (\<lambda>k. after_removal p xs (iterator_at l k)))"
| "effect ExtractFront l xs r l' xs' \<longleftrightarrow>
     r = element_at xs (first_of xs None) \<and> xs' = tl xs \<and>
     iterator_at l' = (\<lambda>k. after_removal (first_of xs None) xs (iterator_at l k))"
| "effect (Swap i j) l xs r l' xs' \<longleftrightarrow>
     (let p = m_item (iterator_at l i); q = m_item (iterator_at l j) in
       xs' = (if p \<noteq> None \<and> q \<noteq> None then store_at q (element_at xs p) (store_at p (element_at xs q) xs) else xs) \<and>
       iterator_at l' = iterator_at l)"
| "effect Clear l xs r l' xs' \<longleftrightarrow> xs' = [] \<and> iterator_at l' = (\<lambda>_. iterator_end)"
| "effect (Sort p) l xs r l' xs' \<longleftrightarrow> mset (map snd xs') = mset (map snd xs) \<and> in_order p (map snd xs')"
| "effect (Merge p ops) l xs r l' xs' \<longleftrightarrow>
     (\<exists>t ys. perform_all ops MultiList_init = (Inr (), t) \<and> represents t ys \<and> map snd xs' = merged p (map snd xs) (map snd ys))"
| "effect Begin l xs r l' xs' \<longleftrightarrow> xs' = xs \<and> iterator_at l' = (iterator_at l)(m_fresh l := pos xs)"
| "effect (Copy i) l xs r l' xs' \<longleftrightarrow> xs' = xs \<and> iterator_at l' = (iterator_at l)(m_fresh l := iterator_at l i)"
| "effect (Assign j i) l xs r l' xs' \<longleftrightarrow>
     xs' = xs \<and> iterator_at l' = (if j < m_fresh l then (iterator_at l)(j := iterator_at l i) else iterator_at l)"
| "effect (Unlink i) l xs r l' xs' \<longleftrightarrow> xs' = xs \<and> iterator_at l' = (iterator_at l)(i := iterator_end)"
| "effect (Next i) l xs r l' xs' \<longleftrightarrow>
     xs' = xs \<and> moves_on xs (iterator_at l i) (iterator_at l' i) \<and> iterator_at l' = (iterator_at l)(i := iterator_at l' i)"
| "effect (Get i) l xs r l' xs' \<longleftrightarrow> r = element_at xs (m_item (iterator_at l i)) \<and> xs' = xs \<and> iterator_at l' = iterator_at l"

lemma stale_simps [simp]: "m_item (stale zs) = first_of zs None" "m_nextItem (stale zs) = None" "stale [] = iterator_end"
  by (simp_all add: stale_def iterator_end_def)

lemma tracked_end [simp]: "tracked xs iterator_end"
  unfolding tracked_def by (intro exI [of _ xs] exI [of _ "[]"]) simp

lemma trackedI: "s \<in> {pos zs, gone zs, stale zs} \<Longrightarrow> tracked (ys @ zs) s"
  by (auto simp: tracked_def)

lemma tracked_append:
  assumes "tracked xs s"
  shows "tracked (xs @ [x]) s"
proof -
  obtain ys zs where s: "xs = ys @ zs" "s \<in> {pos zs, gone zs, stale zs}" using assms by (auto simp: tracked_def)
  consider "zs = []" | z where "zs = [z]" | z y ws where "zs = z # y # ws" by (metis list.exhaust)
  then have "s = iterator_end \<or> s \<in> {pos (zs @ [x]), gone (zs @ [x]), stale (zs @ [x])}"
    using s(2) by cases (auto simp: pos_def gone_def stale_def iterator_end_def)
  then show ?thesis using s(1) trackedI [of s "zs @ [x]" ys] by auto
qed

lemma same_split: "distinct (map fst xs) \<Longrightarrow> xs = us @ (a, d) # vs \<Longrightarrow> xs = ys @ (a, e) # zs \<Longrightarrow> us = ys \<and> d = e \<and> vs = zs"
  by (auto simp: append_eq_append_conv2 Cons_eq_append_conv append_eq_Cons_conv)

lemma tracked_forget:
  assumes "tracked xs s" "distinct (map fst xs)" "xs = us @ (a, d) # vs"
  shows "tracked (us @ vs) (forgetItem a (first_of vs None) s)"
proof -
  obtain ys zs where s: "xs = ys @ zs" "s \<in> {pos zs, gone zs, stale zs}" using assms(1) by (auto simp: tracked_def)
  let ?keep = "filter (\<lambda>x. fst x \<noteq> a)"
  have "us @ vs = ?keep xs" using assms(2,3) by (auto simp: filter_id_conv rev_image_eqI intro!: arg_cong2 [of _ _ _ _ append] filter_True [symmetric])
  then have keep: "us @ vs = ?keep ys @ ?keep zs" using s(1) by simp
  have "forgetItem a (first_of vs None) s \<in> {iterator_end, pos (?keep zs), gone (?keep zs), stale (?keep zs)}"
  proof (cases zs)
    case (Cons z ws)
    show ?thesis
    proof (cases "fst z = a")
      case True
      then have "vs = ws" using same_split [OF assms(2,3), of ys "snd z" ws] s(1) Cons by (cases z) simp
      moreover have "?keep zs = ws" using True Cons assms(2) s(1) by (auto simp: filter_id_conv rev_image_eqI)
      ultimately show ?thesis using s(2) Cons True by (auto simp: forgetItem_def pos_def gone_def stale_def iterator_end_def)
    next
      case z: False
      show ?thesis
      proof (cases "first_of ws None = Some a")
        case True
        then obtain e us' where ws: "ws = (a, e) # us'" by (cases ws) auto
        then have "vs = us'" using same_split [OF assms(2,3), of "ys @ [z]" e us'] s(1) Cons by simp
        moreover have "?keep us' = us'" using ws Cons assms(2) s(1) by (auto simp: filter_id_conv rev_image_eqI)
        ultimately show ?thesis using s(2) Cons ws z by (auto simp: forgetItem_def pos_def gone_def stale_def)
      next
        case False
        then have "first_of (?keep ws) None = first_of ws None" by (cases ws) auto
        then show ?thesis using s(2) Cons z False by (auto simp: forgetItem_def pos_def gone_def stale_def)
      qed
    qed
  qed (use s(2) in auto)
  then show ?thesis using keep trackedI [of _ "?keep zs" "?keep ys"] by auto
qed

lemma tracked_insert:
  assumes "tracked (us @ (a, e) # vs) s" "distinct (map fst (us @ (a, e) # vs))"
  shows "tracked (us @ (n, d) # (a, e) # vs) (if m_item s \<noteq> None \<and> m_nextItem s = Some a then s\<lparr>m_nextItem := Some n\<rparr> else s)"
    (is "tracked ?xs ?s")
proof -
  obtain ys zs where s: "us @ (a, e) # vs = ys @ zs" "s \<in> {pos zs, gone zs, stale zs}" using assms(1) by (auto simp: tracked_def)
  consider ws where "us = ys @ ws" "zs = ws @ (a, e) # vs" | ws where "ys = us @ (a, e) # ws" "vs = ws @ zs"
    using s(1) by (auto simp: append_eq_append_conv2 Cons_eq_append_conv)
  then show ?thesis
  proof cases
    case 1
    show ?thesis
    proof (cases ws)
      case Nil
      then have "?s = s" using s(2) 1 assms(2) by (cases vs) (auto simp: pos_def gone_def stale_def)
      then show ?thesis using trackedI [OF s(2), of "us @ [(n, d)]"] 1 Nil by simp
    next
      case (Cons w ws')
      have "?s \<in> {pos (ws @ (n, d) # (a, e) # vs), gone (ws @ (n, d) # (a, e) # vs), stale (ws @ (n, d) # (a, e) # vs)}"
        using s(2) 1 Cons assms(2) by (cases ws') (auto simp: pos_def gone_def stale_def)
      from trackedI [OF this, of ys] show ?thesis using 1 by simp
    qed
  next
    case 2
    have "a \<notin> fst ` set zs" using assms(2) 2 by simp
    then have "?s = s" using s(2) by (cases zs; cases "tl zs") (auto simp: pos_def gone_def stale_def)
    then show ?thesis using trackedI [OF s(2), of "us @ (n, d) # (a, e) # ws"] 2 by simp
  qed
qed

lemma safeD: "safe l xs \<Longrightarrow> represents l xs" "safe l xs \<Longrightarrow> tracked xs (iterator_at l i)" "safe l xs \<Longrightarrow> distinct (map fst xs)"
  using represents_bounds(4) by (auto simp: safe_def)

lemma safe_init: "safe MultiList_init []"
  using represents_init by (auto simp: safe_def iterator_at_def MultiList_init_def)

lemma safe_update: "represents l' xs \<Longrightarrow> iterator_at l' = (iterator_at l)(i := s) \<Longrightarrow> safe l xs \<Longrightarrow> tracked xs s \<Longrightarrow> safe l' xs"
  by (simp add: safe_def)

lemma safe_item: "safe l xs \<Longrightarrow> m_item (iterator_at l i) = Some a \<or> m_nextItem (iterator_at l i) = Some a \<Longrightarrow> \<exists>ys d zs. xs = ys @ (a, d) # zs"
proof -
  assume safe: "safe l xs" and a: "m_item (iterator_at l i) = Some a \<or> m_nextItem (iterator_at l i) = Some a"
  obtain ys zs where s: "xs = ys @ zs" "iterator_at l i \<in> {pos zs, gone zs, stale zs}" using safeD(2) [OF safe, of i] unfolding tracked_def by blast
  have "a \<in> fst ` set zs" using s(2) a by (cases zs; cases "tl zs") auto
  then obtain d where "(a, d) \<in> set xs" using s(1) by fastforce
  then show ?thesis using split_list by fast
qed

lemma safe_pushBack:
  "safe l xs \<Longrightarrow> runs (insertAtEnd d) l (\<lambda>n l'. n = m_fresh l \<and> safe l' (xs @ [(n, d)]) \<and> iterator_at l' = iterator_at l \<and> m_fresh l' = Suc n)"
proof -
  assume safe: "safe l xs"
  obtain l' where l': "insertAtEnd d l = (Inr (m_fresh l), l')" "represents l' (xs @ [(m_fresh l, d)])" "m_iterators l' = m_iterators l"
      "m_fresh l' = Suc (m_fresh l)"
    using insertAtEnd_runs [OF safeD(1) [OF safe]] by blast
  have "iterator_at l' = iterator_at l" using iterator_at_same [OF l'(3)] by blast
  then show ?thesis using l' safeD(2) [OF safe] by (simp add: runs_def safe_def tracked_append)
qed

lemma safe_insertBefore:
  assumes "safe l (us @ (a, e) # vs)"
  shows "runs (insertBefore a d) l (\<lambda>n l'. n = m_fresh l \<and> safe l' (us @ (n, d) # (a, e) # vs) \<and>
    iterator_at l' = (\<lambda>k. after_insertion (Some a) n (iterator_at l k)) \<and> m_fresh l' = Suc n)"
proof -
  let ?f = "\<lambda>s. if m_item s \<noteq> None \<and> m_nextItem s = Some a then s\<lparr>m_nextItem := Some (m_fresh l)\<rparr> else s"
  obtain l' where l': "insertBefore a d l = (Inr (m_fresh l), l')" "represents l' (us @ (m_fresh l, d) # (a, e) # vs)"
      "m_iterators l' = map (\<lambda>(k, s). (k, ?f s)) (m_iterators l)" "m_fresh l' = Suc (m_fresh l)"
    using insertBefore_runs [OF safeD(1) [OF assms], of d] by blast
  have at: "iterator_at l' k = ?f (iterator_at l k)" for k using iterator_at_map [of l' ?f l k, OF l'(3)] by simp
  have "tracked (us @ (m_fresh l, d) # (a, e) # vs) (iterator_at l' i)" for i
    using tracked_insert [OF safeD(2) [OF assms] safeD(3) [OF assms], of "m_fresh l" d i] at by simp
  moreover have "iterator_at l' = (\<lambda>k. after_insertion (Some a) (m_fresh l) (iterator_at l k))" by (simp add: fun_eq_iff at after_insertion_def)
  ultimately show ?thesis using l' by (simp add: runs_def safe_def)
qed

lemma safe_iterator_new:
  assumes "safe l xs" "xs = ys @ zs"
  shows "runs (iterator_new (first_of zs None)) l (\<lambda>j l'. j = m_fresh l \<and> safe l' xs \<and> iterator_at l' = (iterator_at l)(m_fresh l := pos zs))"
proof -
  obtain l' where l': "iterator_new (first_of zs None) l = (Inr (m_fresh l), l')" "represents l' xs" "iterator_at l' = (iterator_at l)(m_fresh l := pos zs)"
    using iterator_new_runs [of l ys zs] safeD(1) [OF assms(1)] assms(2) by blast
  then show ?thesis using safe_update [OF l'(2,3) assms(1)] trackedI [of "pos zs" zs ys] assms(2) by (simp add: runs_def)
qed

lemma elements_from_split [simp]: "a \<notin> fst ` set us \<Longrightarrow> elements_from a (us @ (a, e) # vs) = (a, e) # vs"
  by (induction us) auto

lemma before_split [simp]: "a \<notin> fst ` set us \<Longrightarrow> takeWhile (\<lambda>y. fst y \<noteq> a) (us @ (a, e) # vs) = us"
  by (induction us) auto

lemma element_at_split [simp]: "a \<notin> fst ` set us \<Longrightarrow> element_at (us @ (a, e) # vs) (Some a) = e"
  by (induction us) (auto simp: element_at_def)

lemma element_at_None [simp]: "element_at xs None = None"
  by (simp add: element_at_def)

lemma safe_split:
  assumes "safe l (us @ (a, d) # vs)"
  shows "a \<notin> fst ` set us \<and> a \<notin> fst ` set vs"
  using safeD(3) [OF assms] by simp

lemma safe_extract:
  assumes "safe l xs"
  shows "runs (MultiList_extractElement i) l (\<lambda>r l'. \<exists>xs'. safe l' xs' \<and> effect (Extract i) l xs r l' xs')"
proof (cases "m_item (iterator_at l i)")
  case None
  then show ?thesis using assms by (simp add: MultiList_extractElement_def runs_def after_removal_def fun_eq_iff)
next
  case (Some a)
  then obtain us d vs where xs: "xs = us @ (a, d) # vs" using safe_item [OF assms] by blast
  have rep: "represents l (us @ (a, d) # vs)" using safeD(1) [OF assms] xs by simp
  obtain l' where l': "MultiList_extractElement i l = (Inr d, l')" "represents l' (us @ vs)"
      "m_iterators l' = map (\<lambda>(k, s). (k, forgetItem a (first_of vs None) s)) (m_iterators l)"
    using extractElement_runs [OF rep Some] by blast
  have new: "a \<notin> fst ` set us" "a \<notin> fst ` set vs" using safe_split assms xs by blast+
  then have "filter (\<lambda>x. Some a \<noteq> Some (fst x)) us = us" "filter (\<lambda>x. Some a \<noteq> Some (fst x)) vs = vs"
    by (auto simp: filter_id_conv rev_image_eqI)
  then have "filter (\<lambda>x. m_item (iterator_at l i) \<noteq> Some (fst x)) xs = us @ vs" using Some xs by simp
  moreover have at: "iterator_at l' k = forgetItem a (first_of vs None) (iterator_at l k)" for k using iterator_at_map [OF l'(3)] by simp
  then have "tracked (us @ vs) (iterator_at l' k)" for k
    using tracked_forget [OF safeD(2) [OF assms] safeD(3) [OF assms] xs] by simp
  ultimately show ?thesis using l' Some at new xs by (simp add: runs_def safe_def after_removal_def fun_eq_iff)
qed

lemma safe_unlink: "safe l xs \<Longrightarrow> runs (iterator_unlink i) l (\<lambda>_ l'. safe l' xs \<and> iterator_at l' = (iterator_at l)(i := iterator_end))"
  using iterator_unlink_runs [of i l xs] safeD(1) [of l xs] safe_update [of _ xs l i iterator_end] unfolding runs_def by fastforce

lemma safe_copy: "safe l xs \<Longrightarrow> runs (iterator_copy i) l (\<lambda>_ l'. safe l' xs \<and> iterator_at l' = (iterator_at l)(m_fresh l := iterator_at l i))"
  using iterator_copy_runs [OF safeD(1), of l xs i] safeD(2) safe_update [of _ xs l "m_fresh l" "iterator_at l i"] unfolding runs_def by fastforce

lemma first_of_suffix: "distinct (map fst (ys @ zs)) \<Longrightarrow> ys @ zs = us @ vs \<Longrightarrow> first_of zs None = first_of vs None \<Longrightarrow> zs = vs"
proof (cases zs; cases vs)
  fix z zs' v vs' assume d: "distinct (map fst (ys @ zs))" and eq: "ys @ zs = us @ vs" and zs: "zs = z # zs'" and vs: "vs = v # vs'"
    and f: "first_of zs None = first_of vs None"
  have "fst z = fst v" using f zs vs by simp
  then have "us = ys \<and> snd v = snd z \<and> vs' = zs'"
    using same_split [OF d, of us "fst z" "snd v" vs' ys "snd z" zs'] eq zs vs by (cases z; cases v) simp
  then show "zs = vs" using zs vs \<open>fst z = fst v\<close> by (simp add: prod_eq_iff)
qed simp_all

lemma moves_on_split:
  assumes "distinct (map fst (ys @ zs))" "m_nextItem s = first_of zs None"
  shows "moves_on (ys @ zs) s (pos zs)"
  unfolding moves_on_def
proof (intro allI impI conjI)
  fix us vs assume eq: "ys @ zs = us @ vs"
  note same = first_of_suffix [OF assms(1)]
  { assume "s = pos vs"
    then have "first_of zs None = first_of (tl vs) None" using assms(2) by simp
    moreover have "\<exists>ws. ys @ zs = ws @ tl vs" using eq by (cases vs) (auto intro: exI [of _ "us @ [hd vs]"] exI [of _ "us"])
    ultimately show "pos zs = pos (tl vs)" using same by metis }
  { assume "s = gone vs"
    then show "pos zs = pos vs" using same [OF eq] assms(2) by simp }
  { assume "s = stale vs"
    then have "first_of zs None = None" using assms(2) by simp
    then show "pos zs = iterator_end" by (cases zs) simp_all }
qed

lemma safe_next:
  assumes "safe l xs"
  shows "runs (iterator_next i) l (\<lambda>_ l'. safe l' xs \<and> effect (Next i) l xs r l' xs)"
proof -
  have "\<exists>ys zs. xs = ys @ zs \<and> m_nextItem (iterator_at l i) = first_of zs None"
  proof (cases "m_nextItem (iterator_at l i)")
    case (Some b)
    then show ?thesis using safe_item [OF assms, of i b] by (metis first_of_simps(2) fst_conv)
  qed (auto intro: exI [of _ xs])
  then obtain ys zs where split: "xs = ys @ zs" "m_nextItem (iterator_at l i) = first_of zs None" by blast
  then obtain l' where l': "iterator_next i l = (Inr (), l')" "represents l' xs" "iterator_at l' = (iterator_at l)(i := pos zs)"
    using iterator_next_runs [of l ys zs i] safeD(1) [OF assms] by blast
  have "moves_on xs (iterator_at l i) (pos zs)" using moves_on_split [of ys zs] safeD(3) [OF assms] split by blast
  then show ?thesis using safe_update [OF l'(2,3) assms] trackedI [of "pos zs" zs ys] split(1) l' by (simp add: runs_def)
qed

lemma safe_get: "safe l xs \<Longrightarrow> runs (iterator_get i) l (\<lambda>r l'. safe l' xs \<and> effect (Get i) l xs r l' xs)"
proof (cases "m_item (iterator_at l i)")
  case (Some a)
  assume safe: "safe l xs"
  then obtain ys d zs where xs: "xs = ys @ (a, d) # zs" using safe_item Some by blast
  have "iterator_get i l = (Inr d, l)" using iterator_get_runs [of l ys "(a, d)" zs i] safeD(1) [OF safe] Some xs by simp
  then show ?thesis using safe safe_split [of l ys a d zs] Some xs by (simp add: runs_def)
qed (simp add: runs_def iterator_get_def bind_def gets_def)

lemma safe_begin: "safe l xs \<Longrightarrow> runs MultiList_begin l (\<lambda>j l'. j = m_fresh l \<and> safe l' xs \<and> iterator_at l' = (iterator_at l)(m_fresh l := pos xs))"
  using safe_iterator_new [of l xs "[]" xs] safeD(1) [of l xs] by (simp add: MultiList_begin_def runs_def bind_def gets_def represents_def)

lemma safe_insert:
  assumes "safe l xs"
  shows "runs (MultiList_insert i d) l (\<lambda>_ l'. \<exists>xs'. safe l' xs' \<and> effect (Insert i d) l xs r l' xs')"
proof -
  let ?p = "insertion_point (iterator_at l i)" and ?n = "m_fresh l"
  let ?at = "\<lambda>k. after_insertion ?p ?n (iterator_at l k)"
  have "\<exists>us vs. insert_before ?p (?n, d) xs = us @ (?n, d) # vs \<and> ?n \<notin> fst ` set us \<and> 
    runs (case ?p of None \<Rightarrow> insertAtEnd d | Some a \<Rightarrow> insertBefore a d) l
      (\<lambda>n l'. n = ?n \<and> safe l' (us @ (?n, d) # vs) \<and> iterator_at l' = ?at \<and> m_fresh l' = Suc ?n)"
  proof (cases ?p)
    case None
    then show ?thesis using safe_pushBack [OF assms, of d] represents_bounds(3) [OF safeD(1) [OF assms]]
      by (intro exI [of _ xs] exI [of _ "[]"]) (simp add: insert_before_def after_insertion_def runs_def)
  next
    case (Some a)
    then obtain us e vs where xs: "xs = us @ (a, e) # vs"
      using safe_item [OF assms, of i a] by (auto simp: insertion_point_def split: option.splits)
    have "a \<notin> fst ` set us" using safe_split assms xs by blast
    then have "insert_before ?p (?n, d) xs = us @ (?n, d) # (a, e) # vs" using xs Some by (simp add: insert_before_def)
    moreover have "?n \<notin> fst ` set us" using represents_bounds(3) [OF safeD(1) [OF assms]] xs by simp
    ultimately show ?thesis using safe_insertBefore [of l us a e vs d] assms xs Some by (intro exI conjI) (auto elim: runs_mono)
  qed
  then obtain us vs where new: "insert_before ?p (?n, d) xs = us @ (?n, d) # vs" "?n \<notin> fst ` set us"
    "runs (case ?p of None \<Rightarrow> insertAtEnd d | Some a \<Rightarrow> insertBefore a d) l
      (\<lambda>n l'. n = ?n \<and> safe l' (us @ (?n, d) # vs) \<and> iterator_at l' = ?at \<and> m_fresh l' = Suc ?n)" by blast
  have "MultiList_insert i d l = bind (case ?p of None \<Rightarrow> insertAtEnd d | Some a \<Rightarrow> insertBefore a d) (\<lambda>n. iterator_new (Some n)) l"
    by (simp add: MultiList_insert_def insertion_point_def bind_def gets_def split: option.split)
  moreover have "runs (iterator_new (Some ?n)) l' (\<lambda>_ l''. \<exists>xs'. safe l'' xs' \<and> effect (Insert i d) l xs r l'' xs')"
    if "safe l' (us @ (?n, d) # vs)" "iterator_at l' = ?at" "m_fresh l' = Suc ?n" for l'
    using safe_iterator_new [OF that(1) refl] that(2,3) new(1,2) by (auto simp: Let_def elim!: runs_mono)
  then have "runs (bind (case ?p of None \<Rightarrow> insertAtEnd d | Some a \<Rightarrow> insertBefore a d) (\<lambda>n. iterator_new (Some n))) l
      (\<lambda>_ l'. \<exists>xs'. safe l' xs' \<and> effect (Insert i d) l xs r l' xs')" by (intro runs_bind [OF new(3)]) blast
  ultimately show ?thesis by (simp add: runs_def)
qed

lemma safe_extractFront: "safe l xs \<Longrightarrow> runs MultiList_extractFront l (\<lambda>r l'. \<exists>xs'. safe l' xs' \<and> effect ExtractFront l xs r l' xs')"
  unfolding MultiList_extractFront_def
proof (rule runs_bind [OF safe_begin], assumption, elim conjE)
  fix j l' assume dist: "safe l xs" and l': "j = m_fresh l" "safe l' xs" "iterator_at l' = (iterator_at l)(m_fresh l := pos xs)"
  have at: "m_item (iterator_at l' j) = first_of xs None" using l'(1,3) by simp
  have rest: "filter (\<lambda>x. first_of xs None \<noteq> Some (fst x)) xs = tl xs"
    using safeD(3) [OF dist] by (cases xs) (auto simp: filter_id_conv rev_image_eqI)
  have fresh: "iterator_at l j = iterator_end" using iterator_at_fresh [OF safeD(1) [OF dist]] l'(1) by simp
  have "after_removal p ys iterator_end = iterator_end" for p and ys :: "(nat \<times> 'a option) list" by (simp add: after_removal_def split: option.split)
  then have same: "(\<lambda>k. after_removal (first_of xs None) xs (iterator_at l' k))(j := iterator_end) =
      (\<lambda>k. after_removal (first_of xs None) xs (iterator_at l k))" using l'(1,3) fresh by (auto simp: fun_eq_iff)
  show "runs (bind (MultiList_extractElement j) (\<lambda>d. bind (iterator_unlink j) (\<lambda>_. ret d))) l'
      (\<lambda>r l''. \<exists>xs'. safe l'' xs' \<and> effect ExtractFront l xs r l'' xs')"
  proof (rule runs_bind [OF safe_extract [OF l'(2)]], elim exE conjE)
    fix d l2 xs2 assume l2: "safe l2 xs2" "effect (Extract j) l' xs d l2 xs2"
    then show "runs (bind (iterator_unlink j) (\<lambda>_. ret d)) l2 (\<lambda>r l''. \<exists>xs'. safe l'' xs' \<and> effect ExtractFront l xs r l'' xs')"
      using at rest same by (intro runs_bind [OF safe_unlink [OF l2(1)]]) (auto simp: Let_def)
  qed
qed

lemma safe_assign:
  assumes "safe l xs" "j < m_fresh l"
  shows "runs (iterator_assign j i) l (\<lambda>_ l'. safe l' xs \<and> iterator_at l' = (iterator_at l)(j := iterator_at l i))"
proof (cases "j = i")
  case False
  let ?l = "l\<lparr>m_iterators := filter (\<lambda>(k, s). k \<noteq> j) (m_iterators l)\<rparr>"
  let ?l' = "?l\<lparr>m_iterators := link_before j i (m_iterators ?l)\<rparr>"
  have safe: "safe ?l xs" "iterator_at ?l = (iterator_at l)(j := iterator_end)"
    using safe_unlink [OF assms(1), of j] by (simp_all add: iterator_unlink_def)
  have "j \<notin> fst ` set (m_iterators ?l)" by auto
  then have at: "iterator_at ?l' = (iterator_at ?l)(j := iterator_at ?l i)" by (auto simp: iterator_at_def link_before_at)
  have "represents ?l' xs" using assms(2) represents_bounds(2) [OF safeD(1) [OF safe(1)]]
    by (intro represents_iterators [OF safeD(1) [OF safe(1)]]) (use link_before_set in fastforce)
  from safe_update [OF this at safe(1) safeD(2) [OF safe(1)]] show ?thesis
    using False at safe(2) by (simp add: iterator_assign_def iterator_unlink_def)
qed (use assms in \<open>simp add: iterator_assign_def\<close>)

subsection \<open>Swapping\<close>

lemma store_at_simps [simp]: "store_at p d [] = []" "store_at p d (xs @ ys) = store_at p d xs @ store_at p d ys"
  "first_of (store_at p d xs) z = first_of xs z" "map fst (store_at p d xs) = map fst xs" "tl (store_at p d xs) = store_at p d (tl xs)"
  by (auto simp: store_at_def first_of_def map_tl split: list.split prod.split)

lemma store_at_addresses [simp]: "fst ` set (store_at p d xs) = fst ` set xs"
  by (metis list.set_map store_at_simps(4))

lemma store_at_last_place [simp]: "last_place q (store_at p d xs) = last_place q xs"
  by (induction xs arbitrary: q) (auto simp: store_at_def)

lemma store_at_chain:
  assumes "h a = Some n" "chain h q xs z"
  shows "chain (h(a \<mapsto> n\<lparr>m_data := d\<rparr>)) q (store_at (Some a) d xs) z"
  using assms
proof (induction xs arbitrary: q)
  case (Cons x xs)
  then show ?case using store_at_simps(3) [of "Some a" d xs z] by (cases x) (auto simp: store_at_def)
qed simp

lemma store_at_tracked: "tracked xs s \<Longrightarrow> tracked (store_at p d xs) s"
  unfolding tracked_def pos_def gone_def stale_def by (metis (lifting) store_at_simps(2,3,5))

lemma safe_store:
  assumes "safe l xs" "m_heap l a = Some n"
  shows "safe (l\<lparr>m_heap := (m_heap l)(a \<mapsto> n\<lparr>m_data := d\<rparr>)\<rparr>) (store_at (Some a) d xs)"
proof -
  let ?l = "l\<lparr>m_heap := (m_heap l)(a \<mapsto> n\<lparr>m_data := d\<rparr>)\<rparr>"
  have "\<forall>(a, d)\<in>set (store_at (Some a) d xs). a < m_fresh l" using safeD(1) [OF assms(1)] by (fastforce simp: represents_def store_at_def)
  moreover have "a \<in> fst ` set xs" using safeD(1) [OF assms(1)] assms(2) by (auto simp: represents_def dom_def)
  ultimately have "represents ?l (store_at (Some a) d xs)"
    using safeD(1) [OF assms(1)] store_at_chain [of "m_heap l" a n FirstNode xs None d] assms(2) by (auto simp: represents_def)
  moreover have "iterator_at ?l = iterator_at l" by (simp add: iterator_at_def fun_eq_iff)
  ultimately show ?thesis using store_at_tracked [OF safeD(2) [OF assms(1)]] by (simp add: safe_def)
qed

lemma safe_swap:
  assumes "safe l xs"
  shows "runs (perform_op (Swap i j)) l (\<lambda>r l'. \<exists>xs'. safe l' xs' \<and> effect (Swap i j) l xs r l' xs')"
proof (cases "iterator_valid l i \<and> iterator_valid l j")
  case True
  then obtain a b where it: "m_item (iterator_at l i) = Some a" "m_item (iterator_at l j) = Some b" by (auto simp: iterator_valid_def)
  obtain us d vs where a: "xs = us @ (a, d) # vs" using safe_item [OF assms, of i a] it by blast
  obtain us' e vs' where b: "xs = us' @ (b, e) # vs'" using safe_item [OF assms, of j b] it by blast
  obtain na where na: "m_heap l a = Some na" "m_data na = d" using representsD [of l us a d vs] safeD(1) [OF assms] a by auto
  obtain nb where nb: "m_heap l b = Some nb" "m_data nb = e" using representsD [of l us' b e vs'] safeD(1) [OF assms] b by auto
  have el: "element_at xs (Some a) = d" "element_at xs (Some b) = e"
    using safe_split [of l us a d vs] safe_split [of l us' b e vs'] assms a b by (metis element_at_split)+
  let ?l1 = "l\<lparr>m_heap := (m_heap l)(a \<mapsto> na\<lparr>m_data := e\<rparr>)\<rparr>"
  obtain nb' where nb': "m_heap ?l1 b = Some nb'" using nb by (cases "a = b") auto
  let ?l2 = "?l1\<lparr>m_heap := (m_heap ?l1)(b \<mapsto> nb'\<lparr>m_data := d\<rparr>)\<rparr>"
  have "perform_op (Swap i j) l = (Inr None, ?l2)"
    using True it na nb nb' by (cases "a = b") (auto simp: MultiList_swapElements_def bind_def load_def writeNode_def)
  moreover have "safe ?l2 (store_at (Some b) d (store_at (Some a) e xs))" using safe_store [OF safe_store [OF assms na(1)] nb'] .
  moreover have "iterator_at ?l2 = iterator_at l" by (simp add: iterator_at_def fun_eq_iff)
  ultimately show ?thesis using it el by (simp add: runs_def Let_def)
qed (use assms in \<open>auto simp: iterator_valid_def Let_def\<close>)

subsection \<open>Clearing, sorting and merging\<close>

text \<open>
  Actions that leave a list whose iterators are tracked, on one list and on two lists. Sorting and merging are made of
  such actions; which elements they leave has been shown above.
\<close>

definition tracks :: "('a mlist, 'b) action \<Rightarrow> bool" where
  "tracks m \<longleftrightarrow> (\<forall>l xs. safe l xs \<longrightarrow> (\<exists>xs'. safe (snd (m l)) xs'))"

definition tracks_both :: "('a mlist \<times> 'a mlist, 'b) action \<Rightarrow> bool" where
  "tracks_both m \<longleftrightarrow> (\<forall>l t xs ys. safe l xs \<longrightarrow> safe t ys \<longrightarrow> (\<exists>xs' ys'. safe (fst (snd (m (l, t)))) xs' \<and> safe (snd (snd (m (l, t)))) ys'))"

lemma tracksI: "(\<And>l xs. safe l xs \<Longrightarrow> runs m l (\<lambda>_ l'. \<exists>xs'. safe l' xs')) \<Longrightarrow> tracks m"
  unfolding tracks_def runs_def by (metis snd_conv)

lemma tracks_bind: "tracks m \<Longrightarrow> (\<And>x. tracks (f x)) \<Longrightarrow> tracks (bind m f)"
  unfolding tracks_def bind_def by (metis (mono_tags, lifting) case_prod_beta' snd_conv sum.case_eq_if)

lemma tracks_both_bind: "tracks_both m \<Longrightarrow> (\<And>x. tracks_both (f x)) \<Longrightarrow> tracks_both (bind m f)"
  unfolding tracks_both_def bind_def by (simp split: prod.split sum.split) (metis fst_conv snd_conv)

lemma tracks_simple: "tracks (ret x)" "tracks (throw e)" "tracks (gets h)" "tracks_both (ret x)" "tracks_both (throw e)" "tracks_both (gets g)"
  by (auto simp: tracks_def tracks_both_def)

lemma tracks_on: "tracks m \<Longrightarrow> tracks_both (on_this m)" "tracks m \<Longrightarrow> tracks_both (on_other m)"
  by (auto simp: tracks_def tracks_both_def on_this_def on_other_def zoom_def split: prod.split sum.split) (metis snd_conv)+

lemma tracks_steps:
  "tracks (iterator_unlink i)" "tracks (iterator_next i)" "tracks (iterator_get i)" "tracks (iterator_copy i)" "tracks MultiList_begin"
  "tracks (MultiList_insert i d)" "tracks (MultiList_extractElement i)" "tracks MultiList_extractFront" "tracks (insertAtEnd d)"
  by (rule tracksI, rule runs_mono, (erule safe_unlink safe_next safe_get safe_copy safe_begin safe_insert safe_extract safe_extractFront
    safe_pushBack), blast)+

lemma tracks_if: "tracks m \<Longrightarrow> tracks n \<Longrightarrow> tracks (if b then m else n)" "tracks_both m' \<Longrightarrow> tracks_both n' \<Longrightarrow> tracks_both (if b then m' else n')"
  by simp_all

lemmas tracks_intros = tracks_bind tracks_both_bind tracks_simple tracks_on tracks_steps tracks_if

lemma tracks_skipLess: "tracks (skipLess fuel p i d)"
  by (induction fuel; simp only: skipLess.simps; intro tracks_intros)

lemma tracks_mergeLoop: "tracks_both (multiMergeLoop fuel p i)"
  by (induction fuel; simp only: multiMergeLoop.simps; intro tracks_intros tracks_skipLess)

lemma tracks_merge: "tracks_both (MultiList_merge fuel p)"
  unfolding MultiList_merge_def by (intro tracks_intros tracks_mergeLoop)

lemma tracks_splitLoop: "tracks_both (splitLoop fuel i n)"
  by (induction fuel arbitrary: n; simp only: splitLoop.simps MultiList_pushBackNew_def; intro tracks_intros)

lemma tracks_sort: "tracks (MultiList_sort fuel p)"
proof (induction fuel)
  case (Suc fuel)
  let ?m = "bind (on_this MultiList_begin) (\<lambda>i. bind (splitLoop (Suc fuel) i 0) (\<lambda>n. bind (on_this (iterator_unlink i)) (\<lambda>_.
    bind (if n > 2 then bind (on_other (MultiList_sort fuel p)) (\<lambda>_. on_this (MultiList_sort fuel p)) else ret ()) (\<lambda>_.
    MultiList_merge (Suc fuel) p))))"
  have "tracks_both ?m" by (intro tracks_intros tracks_splitLoop tracks_merge Suc)
  then show ?case using safe_init by (fastforce simp: tracks_def tracks_both_def simp del: splitLoop.simps split: prod.split)
qed (simp only: MultiList_sort.simps tracks_simple)

lemma safe_keeps: "tracks m \<Longrightarrow> safe l xs \<Longrightarrow> m l = (r, l') \<Longrightarrow> represents l' us \<Longrightarrow> safe l' us"
  unfolding tracks_def using represents_unique safeD(1) by (metis snd_conv)

lemma represents_length: "represents l xs \<Longrightarrow> length xs \<le> m_fresh l"
proof -
  assume rep: "represents l xs"
  then have "set (map fst xs) \<subseteq> {..< m_fresh l}" by (auto simp: represents_def)
  then have "card (set (map fst xs)) \<le> m_fresh l" by (metis card_lessThan card_mono finite_lessThan)
  then show ?thesis using distinct_card [OF represents_bounds(4) [OF rep]] by simp
qed

lemma safe_sort:
  assumes "safe l xs" "length xs < fuel"
  shows "runs (MultiList_sort fuel p) l (\<lambda>_ l'. \<exists>xs'. safe l' xs' \<and> mset (map snd xs') = mset (map snd xs) \<and> in_order p (map snd xs'))"
  using sort_runs [OF safeD(1) [OF assms(1)] assms(2), of p] safe_keeps [OF tracks_sort assms(1)] unfolding runs_def by metis

lemma after_removal_end [simp]: "after_removal p xs iterator_end = iterator_end"
  by (simp add: after_removal_def split: option.split)

lemma safe_clearLoop:
  assumes "safe l xs" "iterator_at l = (\<lambda>_. iterator_end)" "length xs < fuel"
  shows "runs (clearLoop fuel) l (\<lambda>_ l'. safe l' [] \<and> iterator_at l' = (\<lambda>_. iterator_end))"
  using assms
proof (induction xs arbitrary: l fuel)
  case Nil
  have "m_firstNode l = None" using safeD(1) [OF Nil.prems(1)] by (simp add: represents_def)
  then show ?case using Nil by (cases fuel) (simp_all add: MultiList_empty_def runs_def)
next
  case (Cons x xs)
  then obtain f where f: "fuel = Suc f" by (cases fuel) auto
  have ne: "MultiList_empty l = False" using safeD(1) [OF Cons.prems(1)] by (simp add: MultiList_empty_def represents_def)
  have "runs (bind MultiList_extractFront (\<lambda>_. clearLoop f)) l (\<lambda>_ l'. safe l' [] \<and> iterator_at l' = (\<lambda>_. iterator_end))"
    using Cons.prems f by (intro runs_bind [OF safe_extractFront [OF Cons.prems(1)]] Cons.IH) auto
  then show ?case using f ne by (simp add: runs_def)
qed

lemma safe_clear:
  assumes "safe l xs"
  shows "runs (perform_op Clear) l (\<lambda>r l'. \<exists>xs'. safe l' xs' \<and> effect Clear l xs r l' xs')"
proof -
  let ?l = "l\<lparr>m_iterators := []\<rparr>"
  have at: "iterator_at ?l = (\<lambda>_. iterator_end)" by (simp add: iterator_at_def fun_eq_iff)
  moreover have "represents ?l xs" by (rule represents_iterators [OF safeD(1) [OF assms]]) simp
  ultimately have "safe ?l xs" by (simp add: safe_def)
  from safe_clearLoop [OF this at, of "Suc (m_fresh l)"] represents_length [OF safeD(1) [OF assms]] show ?thesis
    by (auto simp: MultiList_clear_def invalidateAllIterators_def runs_def bind_def simp del: clearLoop.simps)
qed

lemma safe_merge:
  assumes "safe l xs" "safe t ys"
  shows "\<exists>l' t' xs'. MultiList_merge (Suc (m_fresh l + m_fresh t)) p (l, t) = (Inr (), l', t') \<and> safe l' xs' \<and>
    map snd xs' = merged p (map snd xs) (map snd ys)"
proof -
  let ?fuel = "Suc (m_fresh l + m_fresh t)"
  have "length xs + length ys < ?fuel" using represents_length [OF safeD(1) [OF assms(1)]] represents_length [OF safeD(1) [OF assms(2)]] by simp
  from merge_runs [OF safeD(1) [OF assms(1)] safeD(1) [OF assms(2)] this, of p] obtain l' t' us where
    l': "MultiList_merge ?fuel p (l, t) = (Inr (), l', t')" "represents l' us" "map snd us = merged p (map snd xs) (map snd ys)" by blast
  have "\<exists>xs'. safe l' xs'" using tracks_merge [of ?fuel p] assms l'(1) unfolding tracks_both_def by (metis fst_conv snd_conv)
  then have "safe l' us" using represents_unique [OF l'(2)] safeD(1) by blast
  then show ?thesis using l' by blast
qed

subsection \<open>All operations\<close>

lemma perform_safe:
  "safe l xs \<Longrightarrow> runs (perform_op op) l (\<lambda>r l'. \<exists>xs'. safe l' xs' \<and> effect op l xs r l' xs')"
  "safe l xs \<Longrightarrow> runs (perform_all ops) l (\<lambda>_ l'. \<exists>xs'. safe l' xs')"
proof (induction op and ops arbitrary: l xs and l xs rule: perform_op_perform_all.induct)
  case (1 d)
  have "runs (MultiList_pushBackNew d) l (\<lambda>_ l'. safe l' (xs @ [(m_fresh l, d)]) \<and> iterator_at l' = iterator_at l)"
    unfolding MultiList_pushBackNew_def by (rule runs_bind [OF safe_pushBack [OF 1]]) simp
  then show ?case by (auto simp: runs_def bind_def)
next
  case (2 i d)
  show ?case unfolding perform_op.simps by (rule runs_bind [OF safe_insert [OF 2]]) (simp del: effect.simps)
next
  case (3 i)
  show ?case unfolding perform_op.simps by (rule safe_extract [OF 3])
next
  case 4
  show ?case unfolding perform_op.simps by (rule safe_extractFront [OF 4])
next
  case (5 i j)
  then show ?case by (rule safe_swap)
next
  case 6
  then show ?case by (rule safe_clear)
next
  case (7 p)
  from safe_sort [OF 7, of "Suc (m_fresh l)" p] represents_length [OF safeD(1) [OF 7]] show ?case
    by (auto simp: runs_def bind_def simp del: MultiList_sort.simps)
next
  case (8 p ops)
  from 8(1) [OF safe_init] obtain t ys where t: "perform_all ops MultiList_init = (Inr (), t)" "safe t ys" by (auto simp: runs_def)
  from safe_merge [OF 8(2) t(2), of p] t safeD(1) [OF t(2)] show ?case by (fastforce simp: runs_def bind_def)
next
  case 9
  then show ?case by (auto intro!: runs_bind [OF safe_begin])
next
  case (10 i)
  then show ?case by (auto intro!: runs_bind [OF safe_copy])
next
  case (11 j i)
  then show ?case using safe_assign [OF 11, of j i] by (auto simp: runs_def bind_def)
next
  case (12 i)
  then show ?case by (auto simp: iterator_invalidate_def intro!: runs_bind [OF safe_unlink])
next
  case (13 i)
  then show ?case by (auto intro!: runs_bind [OF safe_next])
next
  case (14 i)
  then show ?case using safe_get [OF 14] by (auto elim: runs_mono)
next
  case 15
  then show ?case by auto
next
  case (16 op ops)
  then show ?case by (auto intro!: runs_bind [OF 16(1)])
qed


text \<open>
  C15: Sorting a list that any sequence of operations has left (all but \<open>pushFrontNew\<close>, after which \<open>sort\<close> can lose
  elements, \<open>sort_loses_pushed\<close>) sorts it: it returns, with as many rounds in its loops as there are elements and one
  more, no element is lost or duplicated, and no element is after one it is less than, for every comparison that is a
  strict weak order.
\<close>

theorem multilist_sort:
  assumes "asymp p" "transp (\<lambda>x y. \<not> p y x)"
  shows "\<exists>l xs. perform_all ops MultiList_init = (Inr (), l) \<and> represents l xs \<and>
    (\<forall>n. \<exists>l' us. MultiList_sort (length xs + 1 + n) p l = (Inr (), l') \<and> represents l' us \<and>
      mset (map snd us) = mset (map snd xs) \<and> sorted_wrt (\<lambda>x y. \<not> p y x) (map snd us))"
proof -
  from perform_safe(2) [OF safe_init, of ops] obtain l xs where l: "perform_all ops MultiList_init = (Inr (), l)" "safe l xs" by (auto simp: runs_def)
  have "\<exists>l' us. MultiList_sort (length xs + 1 + n) p l = (Inr (), l') \<and> represents l' us \<and>
      mset (map snd us) = mset (map snd xs) \<and> sorted_wrt (\<lambda>x y. \<not> p y x) (map snd us)" for n
    using sort_runs [OF safeD(1) [OF l(2)], of "length xs + 1 + n" p] assms by (simp add: in_order_def)
  then show ?thesis using l(1) safeD(1) [OF l(2)] by blast
qed

text \<open>Three numbers, added one after the other.\<close>

theorem multilist_sort_witness:
  "\<exists>l xs l' us. perform_all (map (PushBack \<circ> Some) [3, 1, 2 :: nat]) MultiList_init = (Inr (), l) \<and> represents l xs \<and>
     MultiList_sort (length xs + 1) (\<lambda>x y. the x < the y) l = (Inr (), l') \<and> represents l' us \<and>
     mset (map snd us) = mset (map snd xs) \<and> sorted_wrt (\<lambda>x y. \<not> the y < the x) (map snd us)"
proof -
  have "asymp (\<lambda>x y. the x < the (y :: nat option))" "transp (\<lambda>x y. \<not> the y < the (x :: nat option))"
    by (auto intro!: asympI transpI)
  from multilist_sort [OF this, of "map (PushBack \<circ> Some) [3, 1, 2]"] obtain l xs where
    l: "perform_all (map (PushBack \<circ> Some) [3, 1, 2 :: nat]) MultiList_init = (Inr (), l)" "represents l xs"
      "\<forall>n. \<exists>l' us. MultiList_sort (length xs + 1 + n) (\<lambda>x y. the x < the y) l = (Inr (), l') \<and> represents l' us \<and>
        mset (map snd us) = mset (map snd xs) \<and> sorted_wrt (\<lambda>x y. \<not> the y < the x) (map snd us)" by blast
  from l(3) [rule_format, of 0] show ?thesis using l(1,2) by auto
qed

section \<open>Defects\<close>

text \<open>
  \<open>pushFrontNew\<close> does not tell the old first node that the pointer to it is now in the new node. When the element
  that was first is removed, the list loses the element that was put in front of it.
\<close>

definition push_front_example :: "nat mlist" where
  "push_front_example = snd (bind (MultiList_pushBackNew (Some 1)) (\<lambda>_. MultiList_pushFrontNew (Some 2)) MultiList_init)"

lemma pushFront_loses_elements:
  "fst (MultiList_size 5 push_front_example) = Inr 2"
  "fst (bind MultiList_begin (\<lambda>i. bind (iterator_next i) (\<lambda>_. bind (MultiList_extractElement i) (\<lambda>d. bind (MultiList_size 5) (\<lambda>n. ret (d, n)))))
     push_front_example) = Inr (Some 1, 0)"
  by code_simp+

text \<open>Sorting removes elements: after two \<open>pushFrontNew\<close> it leaves one element.\<close>

lemma sort_loses_pushed:
  "fst (bind (MultiList_pushFrontNew (Some (1 :: nat))) (\<lambda>_. bind (MultiList_pushFrontNew (Some 2)) (\<lambda>_.
     bind (MultiList_size 5) (\<lambda>m. bind (MultiList_sort 5 (\<lambda>x y. the x < the y)) (\<lambda>_. bind (MultiList_size 5) (\<lambda>n. ret (m, n)))))) MultiList_init) = Inr (2, 1)"
  by code_simp

text \<open>
  An iterator on the last element does not see an element that is appended: the next position is the end.
\<close>

lemma appended_element_not_visited:
  "fst (bind (MultiList_pushBackNew (Some (1 :: nat))) (\<lambda>_. bind MultiList_begin (\<lambda>i. bind (MultiList_pushBackNew (Some 2)) (\<lambda>_.
     bind (iterator_next i) (\<lambda>_. gets (\<lambda>l. iterator_is_end l i))))) MultiList_init) = Inr True"
  by code_simp

end
