(* ===== verification/Afl_FileNames.thy ===== *)
theory Afl_FileNames
  imports Afl_Prelude
begin

text \<open>
  File names: \<open>string/posixfilenames.cpp\<close> and \<open>string/win32filenames.cpp\<close>. Both have the same loop over the
  components of a name; it is one definition here, with the separator as its argument. Reading the character after
  the last one of a string gives the null character.
\<close>

section \<open>Canonical names\<close>

text \<open>What happens with one component: the names kept so far, and how often \<open>..\<close> went beyond them.\<close>

definition processComponent :: "string \<Rightarrow> nat \<times> string list \<Rightarrow> nat \<times> string list" where
  "processComponent c = (\<lambda>(upCount, out).
     if c = [] then (upCount, out)
     else if c = ''.'' then (upCount, out)
     else if c = ''..'' then (if out \<noteq> [] then (upCount, butlast out) else (upCount + 1, out))
     else (upCount, out @ [c]))"

lemma length_dropWhile_less: "name \<noteq> [] \<Longrightarrow> length (dropWhile P name) - Suc 0 < length name"
proof -
  assume "name \<noteq> []"
  then have "0 < length name" by simp
  then show ?thesis using length_dropWhile_le [of P name] by linarith
qed

function canonicalLoop :: "char \<Rightarrow> string \<Rightarrow> nat \<times> string list \<Rightarrow> nat \<times> string list" where
  "canonicalLoop sep name st =
     (if name = [] then st
      else let st' = processComponent (takeWhile (\<lambda>c. c \<noteq> sep) name) st;
               rest = dropWhile (\<lambda>c. c \<noteq> sep) name
           in if rest = [] then st' else canonicalLoop sep (tl rest) st')"
  by pat_completeness auto
termination
  by (relation "measure (\<lambda>(sep, name, st). length name)")
    (auto simp: length_dropWhile_less)

declare canonicalLoop.simps [simp del]

fun joinNames :: "char \<Rightarrow> string list \<Rightarrow> string" where
  "joinNames sep [] = []"
| "joinNames sep [x] = x"
| "joinNames sep (x # y # xs) = x @ [sep] @ joinNames sep (y # xs)"

definition canonicalOutput :: "char \<Rightarrow> bool \<Rightarrow> nat \<times> string list \<Rightarrow> string" where
  "canonicalOutput sep isAbsolute = (\<lambda>(upCount, out).
     let s = (if isAbsolute then [sep] else concat (replicate upCount (''..'' @ [sep]))) @ joinNames sep out
     in if s = [] then ''.'' else s)"

definition canonicalPathName :: "char \<Rightarrow> string \<Rightarrow> string" where
  "canonicalPathName sep name =
     (let isAbsolute = (name \<noteq> [] \<and> hd name = sep)
      in canonicalOutput sep isAbsolute (canonicalLoop sep (if isAbsolute then tl name else name) (0, [])))"

section \<open>POSIX\<close>

definition Posix_isAbsolutePathName :: "string \<Rightarrow> bool" where
  "Posix_isAbsolutePathName path \<longleftrightarrow> path \<noteq> [] \<and> hd path = CHR ''/''"

definition Posix_isPathSeparator :: "char \<Rightarrow> bool" where
  "Posix_isPathSeparator c \<longleftrightarrow> c = CHR ''/''"

definition Posix_makePathName :: "string \<Rightarrow> string \<Rightarrow> string" where
  "Posix_makePathName path name =
     (if Posix_isAbsolutePathName name then name
      else if path = ''.'' then name
      else (if path \<noteq> [] \<and> \<not> Posix_isPathSeparator (last path) then path @ ''/'' else path) @ name)"

definition Posix_getCanonicalPathName :: "string \<Rightarrow> string" where
  "Posix_getCanonicalPathName name = canonicalPathName (CHR ''/'') name"

text \<open>\<open>rfind\<close>: the position of the last occurrence.\<close>

definition rfind_of :: "(char \<Rightarrow> bool) \<Rightarrow> string \<Rightarrow> nat option" where
  "rfind_of P s = (if \<exists>c\<in>set s. P c then Some (length s - 1 - length (takeWhile (\<lambda>c. \<not> P c) (rev s))) else None)"

definition Posix_getFileName :: "string \<Rightarrow> string" where
  "Posix_getFileName name = (case rfind_of (\<lambda>c. c = CHR ''/'') name of Some n \<Rightarrow> drop (n + 1) name | None \<Rightarrow> name)"

definition Posix_getDirectoryName :: "string \<Rightarrow> string" where
  "Posix_getDirectoryName name =
     (case rfind_of (\<lambda>c. c = CHR ''/'') name of
        Some n \<Rightarrow> if n = 0 then ''/'' else take n name
      | None \<Rightarrow> ''.'')"

section \<open>Windows\<close>

abbreviation backslash :: char where "backslash \<equiv> CHR 0x5C"

definition char_at :: "string \<Rightarrow> nat \<Rightarrow> char" where
  "char_at s i = (if i < length s then s ! i else CHR 0x00)"

definition flipSlashes :: "string \<Rightarrow> string" where
  "flipSlashes name = map (\<lambda>c. if c = CHR ''/'' then backslash else c) name"

definition Win32_isAbsolutePathName :: "string \<Rightarrow> bool" where
  "Win32_isAbsolutePathName path \<longleftrightarrow> length path > 2 \<and> path ! 1 = CHR '':'' \<and> (path ! 2 = backslash \<or> path ! 2 = CHR ''/'')"

definition Win32_isPathSeparator :: "char \<Rightarrow> bool" where
  "Win32_isPathSeparator c \<longleftrightarrow> c = backslash \<or> c = CHR '':'' \<or> c = CHR ''/''"

definition Win32_makePathName :: "string \<Rightarrow> string \<Rightarrow> string" where
  "Win32_makePathName path name =
     (if Win32_isAbsolutePathName name \<or> (length name \<ge> 2 \<and> name ! 1 = CHR '':'') \<or> (name \<noteq> [] \<and> (hd name = CHR ''/'' \<or> hd name = backslash))
      then name
      else if path = ''.'' then name
      else (if path \<noteq> [] \<and> \<not> Win32_isPathSeparator (last path) then path @ [backslash] else path) @ name)"

definition Win32_getCanonicalPathName :: "string \<Rightarrow> string" where
  "Win32_getCanonicalPathName name =
     (let name = flipSlashes name;
          drive = (length name \<ge> 1 \<and> char_at name 1 = CHR '':'')
      in (if drive then take 2 name else []) @ canonicalPathName backslash (if drive then drop 2 name else name))"

definition Win32_getFileName :: "string \<Rightarrow> string" where
  "Win32_getFileName name =
     (case rfind_of (\<lambda>c. c \<in> {backslash, CHR '':'', CHR ''/''}) name of
        Some d \<Rightarrow> if name ! d = backslash \<or> name ! d = CHR ''/'' \<or> d = 1 then drop (d + 1) name else name
      | None \<Rightarrow> name)"

definition Win32_getDirectoryName :: "string \<Rightarrow> string" where
  "Win32_getDirectoryName name =
     (let name = flipSlashes name
      in case rfind_of (\<lambda>c. c \<in> {backslash, CHR '':''}) name of
           Some d \<Rightarrow>
             if d = 0 \<and> name ! d = backslash then [backslash]
             else if d = 1 \<and> name ! 1 = CHR '':'' then take 2 name
             else if d = 2 \<and> name ! 1 = CHR '':'' \<and> name ! 2 = backslash then take 3 name
             else if name ! d = backslash then take d name
             else ''.''
         | None \<Rightarrow> ''.'')"

section \<open>What a name stands for\<close>

text \<open>
  The reference: a directory is the list of the names from the root to it. A name is followed component by component;
  \<open>..\<close> goes up, and stays at the root.
\<close>

fun split_names :: "char \<Rightarrow> string \<Rightarrow> string list" where
  "split_names sep [] = [[]]"
| "split_names sep (c # cs) = (if c = sep then [] # split_names sep cs else (case split_names sep cs of x # xs \<Rightarrow> (c # x) # xs | [] \<Rightarrow> [[c]]))"

definition step_into :: "string list \<Rightarrow> string \<Rightarrow> string list" where
  "step_into dir c = (if c = [] \<or> c = ''.'' then dir else if c = ''..'' then butlast dir else dir @ [c])"

definition follow :: "char \<Rightarrow> string list \<Rightarrow> string \<Rightarrow> string list" where
  "follow sep dir name = foldl step_into (if name \<noteq> [] \<and> hd name = sep then [] else dir) (split_names sep name)"

lemma split_names_ne [simp]: "split_names sep s \<noteq> []"
  by (induction s) (auto split: list.splits)

lemma split_names_take:
  "split_names sep s = takeWhile (\<lambda>c. c \<noteq> sep) s # (case dropWhile (\<lambda>c. c \<noteq> sep) s of [] \<Rightarrow> [] | _ # rest \<Rightarrow> split_names sep rest)"
  by (induction s) (auto split: list.splits)

lemma canonicalLoop_fold: "canonicalLoop sep name st = foldl (\<lambda>st c. processComponent c st) st (split_names sep name)"
proof (induction sep name st rule: canonicalLoop.induct)
  case (1 sep name st)
  show ?case
  proof (cases "name = []")
    case True
    then show ?thesis by (auto simp: canonicalLoop.simps processComponent_def)
  next
    case False
    show ?thesis
    proof (cases "dropWhile (\<lambda>c. c \<noteq> sep) name")
      case Nil
      then show ?thesis using False
        by (simp add: canonicalLoop.simps [of _ name] Let_def split_names_take [of sep name] del: dropWhile_eq_Nil_conv)
    next
      case (Cons c rest)
      then show ?thesis using False 1 [OF False refl refl] by (simp add: canonicalLoop.simps [of _ name] Let_def split_names_take [of sep name])
    qed
  qed
qed

text \<open>Going up \<open>n\<close> times.\<close>

abbreviation up :: "nat \<Rightarrow> string list \<Rightarrow> string list" where
  "up n dir \<equiv> (butlast ^^ n) dir"

lemma process_follow:
  "step_into (up u dir @ out) c = (case processComponent c (u, out) of (u', out') \<Rightarrow> up u' dir @ out')"
  by (auto simp: step_into_def processComponent_def butlast_append)

lemma loop_follow:
  "foldl step_into (up u dir @ out) cs = (case foldl (\<lambda>st c. processComponent c st) (u, out) cs of (u', out') \<Rightarrow> up u' dir @ out')"
proof (induction cs arbitrary: u out)
  case (Cons c cs)
  then show ?case using process_follow [of u dir out c] by (cases "processComponent c (u, out)") simp
qed simp

text \<open>The names that are kept are real names.\<close>

definition real_name :: "char \<Rightarrow> string \<Rightarrow> bool" where
  "real_name sep c \<longleftrightarrow> c \<noteq> [] \<and> c \<noteq> ''.'' \<and> c \<noteq> ''..'' \<and> sep \<notin> set c"

lemma split_names_sep: "c \<in> set (split_names sep s) \<Longrightarrow> sep \<notin> set c"
  by (induction s arbitrary: c) (auto split: if_splits list.splits)

lemma loop_real:
  assumes "\<forall>c\<in>set out. real_name sep c" "\<forall>c\<in>set cs. sep \<notin> set c"
  shows "\<forall>c\<in>set (snd (foldl (\<lambda>st c. processComponent c st) (u, out) cs)). real_name sep c"
  using assms
proof (induction cs arbitrary: u out)
  case (Cons c cs)
  obtain u' out' where p: "processComponent c (u, out) = (u', out')" by (rule prod.exhaust)
  have "\<forall>c\<in>set out'. real_name sep c"
    using p Cons.prems by (auto simp: processComponent_def real_name_def dest: in_set_butlastD split: if_splits)
  then show ?case using Cons p by simp
qed simp

lemma step_real: "real_name sep c \<Longrightarrow> step_into dir c = dir @ [c]"
  by (simp add: step_into_def real_name_def)

lemma real_sep: "real_name sep c \<Longrightarrow> sep \<notin> set c" "real_name sep c \<Longrightarrow> c \<noteq> []"
  by (simp_all add: real_name_def)

lemma split_joined: "sep \<notin> set x \<Longrightarrow> split_names sep (x @ sep # s) = x # split_names sep s"
  by (induction x) auto

lemma split_single: "sep \<notin> set x \<Longrightarrow> split_names sep x = [x]"
  by (induction x) auto

lemma split_joinNames: "\<forall>c\<in>set xs. real_name sep c \<Longrightarrow> xs \<noteq> [] \<Longrightarrow> split_names sep (joinNames sep xs) = xs"
  by (induction sep xs rule: joinNames.induct) (simp_all add: real_sep split_single split_joined)

lemma foldl_real: "\<forall>c\<in>set xs. real_name sep c \<Longrightarrow> foldl step_into dir xs = dir @ xs"
  by (induction xs arbitrary: dir) (auto simp: step_real [of sep])

lemma follow_joinNames:
  assumes "\<forall>c\<in>set xs. real_name sep c"
  shows "foldl step_into dir (split_names sep (joinNames sep xs)) = dir @ xs"
  using assms by (cases "xs = []") (auto simp: split_joinNames foldl_real step_into_def)

lemma follow_ups:
  assumes "sep \<noteq> CHR ''.''"
  shows "foldl step_into dir (split_names sep (concat (replicate u (''..'' @ [sep])) @ s)) = foldl step_into (up u dir) (split_names sep s)"
proof (induction u arbitrary: dir)
  case (Suc u)
  let ?t = "concat (replicate u (''..'' @ [sep])) @ s"
  have "split_names sep (concat (replicate (Suc u) (''..'' @ [sep])) @ s) = ''..'' # split_names sep ?t"
    using split_joined [of sep "''..''" ?t] assms by simp
  then show ?case using Suc [of "butlast dir"] by (simp add: step_into_def funpow_swap1 del: replicate.simps)
qed simp

lemma hd_joinNames: "\<forall>c\<in>set xs. real_name sep c \<Longrightarrow> xs \<noteq> [] \<Longrightarrow> joinNames sep xs \<noteq> [] \<and> hd (joinNames sep xs) \<noteq> sep"
proof (induction sep xs rule: joinNames.induct)
  case (2 sep x)
  then show ?case using real_sep [of sep x] by (metis joinNames.simps(2) list.set_intros(1) list.set_sel(1))
next
  case (3 sep x y xs)
  then have "x \<noteq> []" "hd x \<noteq> sep" using real_sep [of sep x] by (auto intro: list.set_sel(1))
  then show ?case by simp
qed simp

lemma canonical_follow:
  assumes "sep \<noteq> CHR ''.''"
  shows "follow sep dir (canonicalPathName sep name) = follow sep dir name"
proof -
  define abs where "abs \<longleftrightarrow> name \<noteq> [] \<and> hd name = sep"
  define body where "body = (if abs then tl name else name)"
  obtain u out where loop: "canonicalLoop sep body (0, []) = (u, out)" by (rule prod.exhaust)
  have real: "\<forall>c\<in>set out. real_name sep c"
    using loop_real [of "[]" sep "split_names sep body" 0] loop split_names_sep by (simp add: canonicalLoop_fold)
  have body: "foldl step_into d (split_names sep body) = up u d @ out" for d
    using loop_follow [of 0 d "[]" "split_names sep body"] loop by (simp add: canonicalLoop_fold)
  have name: "follow sep dir name = up u (if abs then [] else dir) @ out"
  proof (cases abs)
    case True
    then have "split_names sep name = [] # split_names sep body" by (cases name) (auto simp: abs_def body_def)
    then show ?thesis using True body by (auto simp: follow_def abs_def step_into_def)
  qed (use body in \<open>auto simp: follow_def abs_def body_def\<close>)
  have root: "up n [] = []" for n :: nat by (induction n) auto
  have out: "canonicalPathName sep name = canonicalOutput sep abs (u, out)"
    using loop by (simp add: canonicalPathName_def abs_def body_def Let_def)
  show ?thesis
  proof (cases abs)
    case True
    then have "canonicalPathName sep name = sep # joinNames sep out" using out by (simp add: canonicalOutput_def Let_def)
    then show ?thesis using True name root follow_joinNames [OF real] by (simp add: follow_def step_into_def)
  next
    case False
    let ?s = "concat (replicate u (''..'' @ [sep])) @ joinNames sep out"
    have first: "?s \<noteq> [] \<longrightarrow> hd ?s \<noteq> sep"
    proof (cases u)
      case 0
      then show ?thesis using hd_joinNames [OF real] by (cases out) auto
    qed (use assms in simp)
    show ?thesis
    proof (cases "?s = []")
      case True
      then have "u = 0" by (cases u) auto
      moreover have "out = []" using True hd_joinNames [OF real] by auto
      ultimately show ?thesis using out False name assms by (simp add: canonicalOutput_def follow_def step_into_def)
    next
      case s: False
      then have "canonicalPathName sep name = ?s" using out False by (simp add: canonicalOutput_def Let_def)
      then show ?thesis using False s first name follow_ups [OF assms] follow_joinNames [OF real] by (simp add: follow_def)
    qed
  qed
qed

lemma canonical_idem:
  assumes "sep \<noteq> CHR ''.''"
  shows "canonicalPathName sep (canonicalPathName sep name) = canonicalPathName sep name"
proof -
  define abs where "abs \<longleftrightarrow> name \<noteq> [] \<and> hd name = sep"
  define body where "body = (if abs then tl name else name)"
  obtain u out where loop: "canonicalLoop sep body (0, []) = (u, out)" by (rule prod.exhaust)
  have real: "\<forall>c\<in>set out. real_name sep c"
    using loop_real [of "[]" sep "split_names sep body" 0] loop split_names_sep by (simp add: canonicalLoop_fold)
  have out: "canonicalPathName sep name = canonicalOutput sep abs (u, out)"
    using loop by (simp add: canonicalPathName_def abs_def body_def Let_def)
  have real_loop: "foldl (\<lambda>st c. processComponent c st) (v, ys) xs = (v, ys @ xs)" if "\<forall>c\<in>set xs. real_name sep c" for v ys xs
    using that by (induction xs arbitrary: ys) (simp_all add: processComponent_def real_name_def)
  have joined: "canonicalLoop sep (joinNames sep out) (v, []) = (v, out)" for v
    using real real_loop [OF real, of v "[]"] by (cases "out = []") (auto simp: canonicalLoop_fold split_joinNames processComponent_def)
  have ups: "canonicalLoop sep (concat (replicate n (''..'' @ [sep])) @ joinNames sep out) (v, []) = (v + n, out)" for n v
    using joined assms
  proof (induction n arbitrary: v)
    case (Suc n)
    let ?t = "concat (replicate n (''..'' @ [sep])) @ joinNames sep out"
    have "split_names sep (concat (replicate (Suc n) (''..'' @ [sep])) @ joinNames sep out) = ''..'' # split_names sep ?t"
      using split_joined [of sep "''..''" ?t] assms by simp
    then show ?case using Suc.IH [of "Suc v"] Suc.prems by (simp add: canonicalLoop_fold processComponent_def del: replicate.simps)
  qed simp
  show ?thesis
  proof (cases abs)
    case True
    then have "canonicalPathName sep name = sep # joinNames sep out" using out by (simp add: canonicalOutput_def Let_def)
    then show ?thesis using joined [of 0] by (simp add: canonicalPathName_def canonicalOutput_def Let_def)
  next
    case False
    let ?s = "concat (replicate u (''..'' @ [sep])) @ joinNames sep out"
    have first: "?s \<noteq> [] \<longrightarrow> hd ?s \<noteq> sep"
    proof (cases u)
      case 0
      then show ?thesis using hd_joinNames [OF real] by (cases out) auto
    qed (use assms in simp)
    show ?thesis
    proof (cases "?s = []")
      case True
      then show ?thesis using out False assms
        by (auto simp: canonicalOutput_def canonicalPathName_def canonicalLoop_fold processComponent_def)
    next
      case s: False
      then have "canonicalPathName sep name = ?s" using out False by (simp add: canonicalOutput_def Let_def)
      moreover have "canonicalPathName sep ?s = canonicalOutput sep False (u, out)"
        unfolding canonicalPathName_def Let_def using s first ups [of u 0] by (simp del: append_is_Nil_conv)
      ultimately show ?thesis using s by (simp add: canonicalOutput_def Let_def)
    qed
  qed
qed

section \<open>Names with drives\<close>

text \<open>
  The reference for Windows: a name may start with a drive, which has a directory of its own that relative names start
  from. Both kinds of slashes separate components.
\<close>

fun win_drive :: "string \<Rightarrow> string" where
  "win_drive (c # d # s) = (if d = CHR '':'' then [c, d] else [])"
| "win_drive s = []"

definition win_place :: "(string \<Rightarrow> string list) \<Rightarrow> string \<Rightarrow> string \<times> string list" where
  "win_place cwd name =
     (let s = flipSlashes name; drive = win_drive s in (drive, follow backslash (cwd drive) (drop (length drive) s)))"

lemma drive_condition: "length s \<ge> 1 \<and> char_at s 1 = CHR '':'' \<longleftrightarrow> win_drive s \<noteq> []"
  by (cases s rule: win_drive.cases) (auto simp: char_at_def)

lemma drive_rest: "win_drive s @ drop (length (win_drive s)) s = s"
  by (cases s rule: win_drive.cases) simp_all

lemma drive_take: "win_drive s \<noteq> [] \<Longrightarrow> win_drive s = take 2 s \<and> length (win_drive s) = 2"
  by (cases s rule: win_drive.cases) (simp_all split: if_splits)

lemma drive_again: "win_drive s \<noteq> [] \<Longrightarrow> win_drive (win_drive s @ t) = win_drive s"
  by (cases s rule: win_drive.cases) (auto split: if_splits)

lemma Win32_canonical_parts:
  "Win32_getCanonicalPathName name =
     win_drive (flipSlashes name) @ canonicalPathName backslash (drop (length (win_drive (flipSlashes name))) (flipSlashes name))"
  using drive_condition [of "flipSlashes name"] drive_take [of "flipSlashes name"]
  by (cases "win_drive (flipSlashes name) = []") (auto simp: Win32_getCanonicalPathName_def Let_def)

text \<open>A canonical name has no characters but those of the name, dots and separators.\<close>

lemma split_names_chars: "c \<in> set (split_names sep s) \<Longrightarrow> x \<in> set c \<Longrightarrow> x \<in> set s"
proof (induction s arbitrary: c)
  case (Cons a s)
  obtain y ys where "split_names sep s = y # ys" by (meson neq_Nil_conv split_names_ne)
  then show ?case using Cons.prems Cons.IH [of y] Cons.IH [of c] by (auto split: if_splits)
qed simp

lemma loop_chars:
  "c \<in> set (snd (foldl (\<lambda>st c. processComponent c st) (u, out) cs)) \<Longrightarrow> x \<in> set c \<Longrightarrow> \<exists>d \<in> set out \<union> set cs. x \<in> set d"
proof (induction cs arbitrary: u out)
  case (Cons d cs)
  obtain u' out' where st: "processComponent d (u, out) = (u', out')" by (rule prod.exhaust)
  then have "set out' \<subseteq> insert d (set out)" by (auto simp: processComponent_def split: if_splits dest: in_set_butlastD)
  then show ?case using Cons.IH [of u' out'] Cons.prems st by auto
qed auto

lemma joinNames_chars: "x \<in> set (joinNames sep xs) \<Longrightarrow> x = sep \<or> (\<exists>c \<in> set xs. x \<in> set c)"
  by (induction sep xs rule: joinNames.induct) auto

lemma canonical_chars:
  assumes "x \<in> set (canonicalPathName sep name)"
  shows "x = sep \<or> x = CHR ''.'' \<or> x \<in> set name"
proof -
  define abs where "abs \<longleftrightarrow> name \<noteq> [] \<and> hd name = sep"
  define body where "body = (if abs then tl name else name)"
  obtain u out where loop: "canonicalLoop sep body (0, []) = (u, out)" by (rule prod.exhaust)
  have body: "y \<in> set body \<Longrightarrow> y \<in> set name" for y by (cases name) (auto simp: body_def split: if_splits)
  have out: "y \<in> set name" if "c \<in> set out" "y \<in> set c" for c y
    using loop_chars [of c 0 "[]" "split_names sep body" y] split_names_chars that loop body by (fastforce simp: canonicalLoop_fold)
  have "x \<in> set (canonicalOutput sep abs (u, out))"
    using assms loop by (simp add: canonicalPathName_def abs_def body_def Let_def)
  then have "x = sep \<or> x = CHR ''.'' \<or> x \<in> set (joinNames sep out)" by (auto simp: canonicalOutput_def Let_def split: if_splits)
  then show ?thesis using joinNames_chars [of x sep out] out by blast
qed

lemma flip_flipped: "CHR ''/'' \<notin> set s \<Longrightarrow> flipSlashes s = s"
  by (auto simp: flipSlashes_def intro!: map_idI)

lemma flipSlashes_none: "CHR ''/'' \<notin> set (flipSlashes s)"
  by (auto simp: flipSlashes_def)

lemma Win32_canonical_flipped: "flipSlashes (Win32_getCanonicalPathName name) = Win32_getCanonicalPathName name"
proof -
  let ?s = "flipSlashes name" let ?b = "drop (length (win_drive ?s)) ?s"
  have "CHR ''/'' \<notin> set ?b" "CHR ''/'' \<notin> set (win_drive ?s)"
    using flipSlashes_none [of name] drive_rest [of ?s] by (metis Un_iff set_append)+
  then have "CHR ''/'' \<notin> set (Win32_getCanonicalPathName name)" using canonical_chars [of _ backslash ?b] by (auto simp: Win32_canonical_parts)
  then show ?thesis by (rule flip_flipped)
qed

text \<open>The drive stays, unless a name without drive gets something that looks like one to its front.\<close>

lemma Win32_canonical_same:
  assumes "win_drive (Win32_getCanonicalPathName name) = win_drive (flipSlashes name)"
  shows "win_place cwd (Win32_getCanonicalPathName name) = win_place cwd name"
    "Win32_getCanonicalPathName (Win32_getCanonicalPathName name) = Win32_getCanonicalPathName name"
proof -
  let ?s = "flipSlashes name" let ?b = "drop (length (win_drive ?s)) ?s"
  have rest: "drop (length (win_drive ?s)) (Win32_getCanonicalPathName name) = canonicalPathName backslash ?b" by (simp add: Win32_canonical_parts)
  show "win_place cwd (Win32_getCanonicalPathName name) = win_place cwd name"
    using assms rest by (simp add: win_place_def Let_def Win32_canonical_flipped canonical_follow)
  show "Win32_getCanonicalPathName (Win32_getCanonicalPathName name) = Win32_getCanonicalPathName name"
    using Win32_canonical_parts [of "Win32_getCanonicalPathName name", unfolded Win32_canonical_flipped assms rest]
      Win32_canonical_parts [of name] canonical_idem [of backslash ?b] by simp
qed

lemma Win32_canonical_drive: "win_drive (flipSlashes name) \<noteq> [] \<Longrightarrow> win_drive (Win32_getCanonicalPathName name) = win_drive (flipSlashes name)"
  using drive_again [of "flipSlashes name"] by (simp add: Win32_canonical_parts)

section \<open>Properties\<close>

text \<open>
  C31: On POSIX systems, a canonical name stands for the same place as the name it was made from, wherever one starts,
  and making a canonical name canonical changes nothing. On Windows, the same holds for a name with a drive letter, with
  the same drive, and for a name without a drive letter whose canonical name has none either. (It is false for
  other names, whose second character becomes a colon: \<open>Win32_canonical_changes_drive\<close>.)
\<close>

theorem canonical_names:
  "follow (CHR ''/'') dir (Posix_getCanonicalPathName name) = follow (CHR ''/'') dir name \<and>
   Posix_getCanonicalPathName (Posix_getCanonicalPathName name) = Posix_getCanonicalPathName name \<and>
   (win_drive (flipSlashes name) \<noteq> [] \<or> win_drive (Win32_getCanonicalPathName name) = [] \<longrightarrow>
      win_place cwd (Win32_getCanonicalPathName name) = win_place cwd name \<and>
      Win32_getCanonicalPathName (Win32_getCanonicalPathName name) = Win32_getCanonicalPathName name)"
proof (intro conjI impI)
  assume "win_drive (flipSlashes name) \<noteq> [] \<or> win_drive (Win32_getCanonicalPathName name) = []"
  then have "win_drive (Win32_getCanonicalPathName name) = win_drive (flipSlashes name)"
    using Win32_canonical_drive [of name] by (cases "win_drive (flipSlashes name) = []") simp_all
  from Win32_canonical_same [OF this] show "win_place cwd (Win32_getCanonicalPathName name) = win_place cwd name"
    "Win32_getCanonicalPathName (Win32_getCanonicalPathName name) = Win32_getCanonicalPathName name" by simp_all
qed (simp_all add: Posix_getCanonicalPathName_def canonical_follow canonical_idem)

theorem canonical_names_witness:
  "win_drive (flipSlashes ''c:a/../b'') \<noteq> [] \<and>
   win_place (\<lambda>_. [''d'']) (Win32_getCanonicalPathName ''c:a/../b'') = (''c:'', [''d'', ''b''])"
proof -
  have "win_drive (flipSlashes ''c:a/../b'') \<noteq> []" "win_place (\<lambda>_. [''d'']) ''c:a/../b'' = (''c:'', [''d'', ''b''])"
    by (simp_all add: flipSlashes_def win_place_def follow_def step_into_def)
  then show ?thesis using canonical_names [of "[]" "''c:a/../b''" "\<lambda>_. [''d'']"] by simp
qed

text \<open>A name is put together again from its directory and its last component.\<close>

lemma rfind_of_split:
  "rfind_of P s = Some n \<Longrightarrow> n < length s \<and> P (s ! n) \<and> (\<forall>c\<in>set (drop (n + 1) s). \<not> P c)"
proof -
  assume n: "rfind_of P s = Some n"
  then obtain ys z zs where s: "s = ys @ z # zs" "P z" "\<forall>c\<in>set zs. \<not> P c"
    using split_list_last_prop [of s P] by (auto simp: rfind_of_def split: if_splits)
  have "takeWhile (\<lambda>c. \<not> P c) (rev s) = rev zs" using s by (simp add: takeWhile_append)
  then have "n = length ys" using n s(1) by (auto simp: rfind_of_def split: if_splits)
  then show ?thesis using s by simp
qed

lemma Posix_join_split:
  assumes "\<not> Posix_isAbsolutePathName (Posix_getFileName name)"
  shows "Posix_makePathName (Posix_getDirectoryName name) (Posix_getFileName name) = name \<or>
    (\<exists>d f. name = d @ ''//'' @ f \<and> Posix_makePathName (Posix_getDirectoryName name) (Posix_getFileName name) = d @ ''/'' @ f) \<or>
    (\<exists>f. name = ''./'' @ f \<and> Posix_makePathName (Posix_getDirectoryName name) (Posix_getFileName name) = f)"
proof (cases "rfind_of (\<lambda>c. c = CHR ''/'') name")
  case None
  then show ?thesis using assms by (simp add: Posix_getDirectoryName_def Posix_getFileName_def Posix_makePathName_def)
next
  case (Some n)
  define d f where "d = take n name" and "f = drop (n + 1) name"
  have n: "n < length name" "name ! n = CHR ''/''" using rfind_of_split [OF Some] by auto
  then have split: "name = d @ CHR ''/'' # f" unfolding d_def f_def by (metis Suc_eq_plus1 id_take_nth_drop)
  have "n = 0 \<longleftrightarrow> d = []" using n by (auto simp: d_def)
  then have parts: "Posix_getDirectoryName name = (if d = [] then ''/'' else d)" "Posix_getFileName name = f"
    using Some by (simp_all add: Posix_getDirectoryName_def Posix_getFileName_def d_def f_def)
  have make: "Posix_makePathName (Posix_getDirectoryName name) (Posix_getFileName name) =
      (if d = ''.'' then f else (if d = [] \<or> last d \<noteq> CHR ''/'' then d @ ''/'' else d) @ f)"
    using assms unfolding parts by (simp add: Posix_makePathName_def Posix_isPathSeparator_def)
  consider "d = ''.''" | "d \<noteq> ''.''" "d = [] \<or> last d \<noteq> CHR ''/''" | e where "d \<noteq> ''.''" "d = e @ ''/''"
    by (metis append_butlast_last_id)
  then show ?thesis
  proof cases
    case 3
    then have "Posix_makePathName (Posix_getDirectoryName name) (Posix_getFileName name) = e @ ''/'' @ f" unfolding make by simp
    moreover have "name = e @ ''//'' @ f" using split 3 by simp
    ultimately show ?thesis by blast
  next
    case 1
    then have "Posix_makePathName (Posix_getDirectoryName name) (Posix_getFileName name) = f" unfolding make by simp
    moreover have "name = ''./'' @ f" using split 1 by simp
    ultimately show ?thesis by blast
  next
    case 2
    then have "Posix_makePathName (Posix_getDirectoryName name) (Posix_getFileName name) = name" unfolding make using split by simp
    then show ?thesis by blast
  qed
qed

section \<open>Defects\<close>

text \<open>
  For the name of a stream of a file in a directory, the functions for Windows find the colon and not the separator
  before it: the file name contains the directory, and the directory is the current one.
\<close>

lemma Win32_stream_names:
  "Win32_getFileName (''dir'' @ [backslash] @ ''file:stream'') = ''dir'' @ [backslash] @ ''file:stream''"
  "Win32_getDirectoryName (''dir'' @ [backslash] @ ''file:stream'') = ''.''"
  by (simp_all add: Win32_getFileName_def Win32_getDirectoryName_def rfind_of_def flipSlashes_def)

text \<open>
  A component that looks like a drive letter can come to the front of a canonical name: \<open>x:y\<close> in the current directory
  (the stream \<open>y\<close> of the file \<open>x\<close>) becomes the file \<open>y\<close> on drive \<open>x\<close>, and the canonical name of the canonical name
  is another one.
\<close>

lemma Win32_canonical_changes_drive:
  "Win32_getCanonicalPathName (''.'' @ [backslash] @ ''x:y'') = ''x:y''"
  "win_place (\<lambda>_. []) (''.'' @ [backslash] @ ''x:y'') = ([], [''x:y''])" "win_place (\<lambda>_. []) ''x:y'' = (''x:'', [''y''])"
  "Win32_getCanonicalPathName (''.'' @ [backslash] @ ''c:'') = ''c:''" "Win32_getCanonicalPathName ''c:'' = ''c:.''"
  by (simp_all add: Win32_getCanonicalPathName_def flipSlashes_def char_at_def canonicalPathName_def canonicalLoop.simps
      processComponent_def canonicalOutput_def win_place_def follow_def step_into_def)

end
