(* ===== verification/Afl_FileSystem.thy ===== *)
theory Afl_FileSystem
  imports Afl_FileNames Afl_MultiList Afl_Stream_Children
begin

text \<open>
  The file system in memory: \<open>io/internalfilesystem.cpp\<close>, with the base classes \<open>io/directory.cpp\<close>,
  \<open>io/directoryentry.cpp\<close> and \<open>io/filesystem.cpp\<close>. Node lists, nodes and streams are objects in a store; a
  node list is a multi-list of pointers to nodes. A pointer to a node that has been deleted, or a null pointer, must
  not be followed. Objects of class \<open>Dir\<close> and \<open>Entry\<close> have no state of their own but names and references, and, in
  an entry, the information that has been fetched. Reference counts are not modelled: lists and streams live for ever.
\<close>

section \<open>Messages\<close>

abbreviation fileNotFound :: string where "fileNotFound \<equiv> ''File not found''"
abbreviation fileExists :: string where "fileExists \<equiv> ''File exists''"
abbreviation invalidFileName :: string where "invalidFileName \<equiv> ''Invalid file name''"
abbreviation invalidOperationMessage :: string where "invalidOperationMessage \<equiv> ''Invalid operation''"
abbreviation cannotAccessFiles :: string where "cannotAccessFiles \<equiv> ''Cannot access files here''"
abbreviation cannotAccessDirectories :: string where "cannotAccessDirectories \<equiv> ''Cannot access directories''"
abbreviation rootDirTitle :: string where "rootDirTitle \<equiv> ''Root''"
abbreviation rootLinkTitle :: string where "rootLinkTitle \<equiv> ''Root Directory''"

section \<open>Nodes, lists, directories\<close>

text \<open>The content of a \<open>FileNode\<close> is a stream, that of a \<open>DirectoryNode\<close> a node list.\<close>

datatype file_ref = FileRef nat | DirectoryRef nat

record fnode =
  fn_name :: string
  fn_content :: file_ref

record file_system =
  fs_lists :: "nat \<Rightarrow> nat mlist"
  fs_nodes :: "nat \<rightharpoonup> fnode"
  fs_streams :: "nat \<Rightarrow> internal_stream control_node"
  fs_fresh :: nat

text \<open>The list \<open>m_root\<close> has the address 0.\<close>

definition InternalFileSystem_init :: file_system where
  "InternalFileSystem_init =
     \<lparr>fs_lists = (\<lambda>_. MultiList_init), fs_nodes = Map.empty, fs_streams = (\<lambda>_. ControlNode_init InternalStream_init), fs_fresh = 1\<rparr>"

abbreviation m_root :: nat where "m_root \<equiv> 0"

datatype directory =
    Dir (dir_name: string) (dir_content: nat) (dir_parent: "directory option")
  | RootDir (dir_content: nat)

datatype open_mode = OpenRead | OpenWrite | Create | CreateNew

type_synonym 'a fs_action = "(file_system, 'a) action"

section \<open>Access to objects\<close>

definition on_list :: "nat \<Rightarrow> (nat mlist, 'a) action \<Rightarrow> 'a fs_action" where
  "on_list a m = zoom (\<lambda>s. fs_lists s a) (\<lambda>l s. s\<lparr>fs_lists := (fs_lists s)(a := l)\<rparr>) m"

definition readFNode :: "nat \<Rightarrow> fnode fs_action" where
  "readFNode p = (\<lambda>s. case fs_nodes s p of None \<Rightarrow> (Inl Undefined, s) | Some n \<Rightarrow> (Inr n, s))"

definition writeFNode :: "nat \<Rightarrow> fnode \<Rightarrow> unit fs_action" where
  "writeFNode p n = modify (\<lambda>s. s\<lparr>fs_nodes := (fs_nodes s)(p \<mapsto> n)\<rparr>)"

definition allocate :: "nat fs_action" where
  "allocate = (\<lambda>s. (Inr (fs_fresh s), s\<lparr>fs_fresh := Suc (fs_fresh s)\<rparr>))"

text \<open>\<open>new FileNode\<close> and \<open>new DirectoryNode\<close>, with their contents, and \<open>delete\<close>.\<close>

definition newStream :: "nat fs_action" where
  "newStream =
     bind allocate (\<lambda>a. bind (modify (\<lambda>s. s\<lparr>fs_streams := (fs_streams s)(a := ControlNode_init InternalStream_init)\<rparr>)) (\<lambda>_. ret a))"

definition newFileNode :: "string \<Rightarrow> nat fs_action" where
  "newFileNode name =
     bind newStream (\<lambda>a. bind allocate (\<lambda>p. bind (writeFNode p \<lparr>fn_name = name, fn_content = FileRef a\<rparr>) (\<lambda>_. ret p)))"

definition newDirectoryNode :: "string \<Rightarrow> nat fs_action" where
  "newDirectoryNode name =
     bind allocate (\<lambda>a. bind (modify (\<lambda>s. s\<lparr>fs_lists := (fs_lists s)(a := MultiList_init)\<rparr>)) (\<lambda>_.
     bind allocate (\<lambda>p. bind (writeFNode p \<lparr>fn_name = name, fn_content = DirectoryRef a\<rparr>) (\<lambda>_. ret p))))"

definition deleteNode :: "nat option \<Rightarrow> unit fs_action" where
  "deleteNode p = (case p of None \<Rightarrow> ret () | Some a \<Rightarrow> modify (\<lambda>s. s\<lparr>fs_nodes := (fs_nodes s)(a := None)\<rparr>))"

text \<open>The casts \<open>dynamic_cast<FileNode*>\<close> and \<open>dynamic_cast<DirectoryNode*>\<close>: the address of the content, if the node has the type.\<close>

definition asFile :: "nat option \<Rightarrow> nat option fs_action" where
  "asFile p = (case p of None \<Rightarrow> ret None | Some a \<Rightarrow>
     bind (readFNode a) (\<lambda>n. ret (case fn_content n of FileRef c \<Rightarrow> Some c | DirectoryRef c \<Rightarrow> None)))"

definition asDirectory :: "nat option \<Rightarrow> nat option fs_action" where
  "asDirectory p = (case p of None \<Rightarrow> ret None | Some a \<Rightarrow>
     bind (readFNode a) (\<lambda>n. ret (case fn_content n of DirectoryRef c \<Rightarrow> Some c | FileRef c \<Rightarrow> None)))"

text \<open>\<open>createChild\<close> of a stream: a handle is the stream and the number of the child.\<close>

definition createChild :: "nat \<Rightarrow> (nat \<times> nat) fs_action" where
  "createChild a =
     bind allocate (\<lambda>ch. bind (modify (\<lambda>s. s\<lparr>fs_streams := (fs_streams s)(a := Child_init ch (fs_streams s a))\<rparr>)) (\<lambda>_. ret (a, ch)))"

definition setStreamName :: "nat \<Rightarrow> string \<Rightarrow> unit fs_action" where
  "setStreamName a name = modify (\<lambda>s. s\<lparr>fs_streams := (fs_streams s)
     (a := cn_stream_update (InternalStream_setName name) (fs_streams s a))\<rparr>)"

section \<open>File name components\<close>

definition prepareFileName :: "string \<Rightarrow> string" where
  "prepareFileName name = (if name \<noteq> [] \<and> hd name = CHR ''/'' then tl name else name)"

definition componentValid :: "string \<Rightarrow> bool" where
  "componentValid str \<longleftrightarrow> \<not> (str = [] \<or> CHR ''/'' \<in> set str \<or> str = ''.'')"

definition verifyFileNameComponent :: "string \<Rightarrow> unit fs_action" where
  "verifyFileNameComponent str = (if componentValid str then ret () else throw (FileProblemException str invalidFileName))"

definition isDot :: "string \<Rightarrow> bool" where
  "isDot name \<longleftrightarrow> name = ''.''"

section \<open>NodeList\<close>

text \<open>The loop has as many rounds as addresses have been used in the list.\<close>

fun findNodeLoop :: "nat \<Rightarrow> nat \<Rightarrow> nat \<Rightarrow> string \<Rightarrow> unit fs_action" where
  "findNodeLoop 0 a it name = throw NoReturn"
| "findNodeLoop (Suc fuel) a it name =
     bind (gets (\<lambda>s. iterator_is_end (fs_lists s a) it)) (\<lambda>e.
       if e then ret ()
       else
         bind (on_list a (iterator_get it)) (\<lambda>p.
         bind (case p of None \<Rightarrow> ret False | Some n \<Rightarrow> bind (readFNode n) (\<lambda>n. ret (fn_name n = name))) (\<lambda>found.
         if found then ret ()
         else bind (on_list a (iterator_next it)) (\<lambda>_. findNodeLoop fuel a it name))))"

definition findIterator :: "nat \<Rightarrow> string \<Rightarrow> nat fs_action" where
  "findIterator a name =
     bind (on_list a MultiList_begin) (\<lambda>it.
     bind (gets (\<lambda>s. Suc (m_fresh (fs_lists s a)))) (\<lambda>fuel.
     bind (findNodeLoop fuel a it name) (\<lambda>_. ret it)))"

text \<open>An iterator is destroyed at the end of its scope, also by an exception.\<close>

definition scoped :: "nat \<Rightarrow> nat \<Rightarrow> 'a fs_action \<Rightarrow> 'a fs_action" where
  "scoped a it m = (\<lambda>s. case m s of (r, s') \<Rightarrow> (case on_list a (iterator_unlink it) s' of (_, s'') \<Rightarrow> (r, s'')))"

definition findNode :: "nat \<Rightarrow> string \<Rightarrow> nat option fs_action" where
  "findNode a name =
     bind (findIterator a name) (\<lambda>it.
     scoped a it
       (bind (gets (\<lambda>s. iterator_is_end (fs_lists s a) it)) (\<lambda>e. if \<not> e then on_list a (iterator_get it) else ret None)))"

fun Dir_getDirectoryName :: "directory \<Rightarrow> string" where
  "Dir_getDirectoryName (Dir name c p) = name"
| "Dir_getDirectoryName (RootDir c) = []"

function findDirectoryLoop :: "directory \<Rightarrow> string \<Rightarrow> string \<Rightarrow> (directory \<times> string) fs_action" where
  "findDirectoryLoop meDir pathName fullName =
     (if CHR ''/'' \<notin> set pathName then ret (meDir, pathName)
      else
        let componentName = takeWhile (\<lambda>c. c \<noteq> CHR ''/'') pathName;
            pathName = tl (dropWhile (\<lambda>c. c \<noteq> CHR ''/'') pathName)
        in
          if \<not> isDot componentName then
            bind (findNode (dir_content meDir) componentName) (\<lambda>n.
            bind (asDirectory n) (\<lambda>dn.
            case dn of
              None \<Rightarrow> throw (FileProblemException fullName fileNotFound)
            | Some c \<Rightarrow> findDirectoryLoop (Dir (Posix_makePathName (Dir_getDirectoryName meDir) componentName) c (Some meDir)) pathName fullName))
          else findDirectoryLoop meDir pathName fullName)"
  by pat_completeness auto
termination
  by (relation "measure (\<lambda>(d, p, f). length p)") (auto intro!: length_dropWhile_less)

declare findDirectoryLoop.simps [simp del]

definition findDirectory :: "nat \<Rightarrow> string \<Rightarrow> string \<Rightarrow> (directory \<times> string) fs_action" where
  "findDirectory a pathName fullName = findDirectoryLoop (Dir ''/'' a None) pathName fullName"

section \<open>Dir\<close>

type_synonym entry = "directory \<times> string"

definition Dir_getDirectoryEntryByName :: "directory \<Rightarrow> string \<Rightarrow> entry fs_action" where
  "Dir_getDirectoryEntryByName d name = bind (verifyFileNameComponent name) (\<lambda>_. ret (d, name))"

fun Dir_getParentDirectory :: "directory \<Rightarrow> directory option" where
  "Dir_getParentDirectory (Dir name c p) = p"
| "Dir_getParentDirectory (RootDir c) = None"

fun Dir_getTitle :: "directory \<Rightarrow> string" where
  "Dir_getTitle (Dir name c p) = (if p = None then rootDirTitle else Posix_getFileName name)"
| "Dir_getTitle (RootDir c) = rootDirTitle"

text \<open>The file that \<open>Create\<close> and \<open>CreateNew\<close> add to the directory; the result is the stream.\<close>

definition addFile :: "nat \<Rightarrow> string \<Rightarrow> nat fs_action" where
  "addFile a name =
     bind (newFileNode name) (\<lambda>p.
     bind (on_list a (MultiList_pushBackNew (Some p))) (\<lambda>_.
     bind (asFile (Some p)) (\<lambda>c. case c of None \<Rightarrow> throw Undefined | Some c \<Rightarrow> ret c)))"

definition resetContent :: "nat \<Rightarrow> nat fs_action" where
  "resetContent p =
     bind newStream (\<lambda>c. bind (readFNode p) (\<lambda>n. bind (writeFNode p (n\<lparr>fn_content := FileRef c\<rparr>)) (\<lambda>_. ret c)))"

definition finishOpen :: "nat fs_action \<Rightarrow> string \<Rightarrow> (nat \<times> nat) fs_action" where
  "finishOpen m fullName = bind m (\<lambda>c. bind (setStreamName c fullName) (\<lambda>_. createChild c))"

text \<open>\<open>Dir::open\<close> after the node has been looked up.\<close>

definition Dir_openNode :: "nat \<Rightarrow> string \<Rightarrow> string \<Rightarrow> open_mode \<Rightarrow> nat option \<Rightarrow> nat option \<Rightarrow> (nat \<times> nat) fs_action" where
  "Dir_openNode a name fullName mode node fileNode =
     (if node \<noteq> None \<and> fileNode = None then throw (FileProblemException fullName fileExists)
      else case mode of
        OpenRead \<Rightarrow> (case fileNode of None \<Rightarrow> throw (FileProblemException fullName fileNotFound) | Some c \<Rightarrow> createChild c)
      | OpenWrite \<Rightarrow> (case fileNode of None \<Rightarrow> throw (FileProblemException fullName fileNotFound) | Some c \<Rightarrow> createChild c)
      | Create \<Rightarrow> finishOpen (case node of None \<Rightarrow> addFile a name | Some p \<Rightarrow> resetContent p) fullName
      | CreateNew \<Rightarrow>
          if fileNode \<noteq> None then throw (FileProblemException fullName fileExists) else finishOpen (addFile a name) fullName)"

definition Dir_open :: "directory \<Rightarrow> string \<Rightarrow> string \<Rightarrow> open_mode \<Rightarrow> (nat \<times> nat) fs_action" where
  "Dir_open d name fullName mode =
     bind (verifyFileNameComponent name) (\<lambda>_.
     bind (findNode (dir_content d) name) (\<lambda>node.
     bind (asFile node) (\<lambda>fileNode.
     Dir_openNode (dir_content d) name fullName mode node fileNode)))"

section \<open>DirectoryEntry\<close>

text \<open>The information about an entry that has been requested and that is available; the bit masks are sets.\<close>

datatype info = InfoType | InfoSize | InfoLinkText | InfoModificationTime | InfoFlags
datatype file_type = tUnknown | tFile | tDirectory | tArchive | tRoot | tDevice | tOther
datatype file_flag = Hidden | Link | Executable

record entry_info =
  m_availableInfo :: "info set"
  m_requestedInfo :: "info set"
  m_fileSize :: nat
  m_fileType :: file_type
  m_linkText :: string
  m_modificationTime :: int
  m_flags :: "file_flag set"

definition DirectoryEntry_init :: entry_info where
  "DirectoryEntry_init =
     \<lparr>m_availableInfo = {}, m_requestedInfo = {}, m_fileSize = 0, m_fileType = tUnknown, m_linkText = [], m_modificationTime = 0, m_flags = {}\<rparr>"

definition setFileType :: "file_type \<Rightarrow> entry_info \<Rightarrow> entry_info" where
  "setFileType t i = i\<lparr>m_fileType := t, m_availableInfo := insert InfoType (m_availableInfo i)\<rparr>"

definition setFileSize :: "nat \<Rightarrow> entry_info \<Rightarrow> entry_info" where
  "setFileSize n i = i\<lparr>m_fileSize := n, m_availableInfo := insert InfoSize (m_availableInfo i)\<rparr>"

definition setLinkText :: "string \<Rightarrow> entry_info \<Rightarrow> entry_info" where
  "setLinkText t i = i\<lparr>m_linkText := t, m_availableInfo := insert InfoLinkText (m_availableInfo i)\<rparr>"

definition setModificationTime :: "int \<Rightarrow> entry_info \<Rightarrow> entry_info" where
  "setModificationTime t i = i\<lparr>m_modificationTime := t, m_availableInfo := insert InfoModificationTime (m_availableInfo i)\<rparr>"

definition setFlags :: "file_flag set \<Rightarrow> entry_info \<Rightarrow> entry_info" where
  "setFlags f i = i\<lparr>m_flags := f, m_availableInfo := insert InfoFlags (m_availableInfo i)\<rparr>"

definition clearInfo :: "entry_info \<Rightarrow> entry_info" where
  "clearInfo i = i\<lparr>m_requestedInfo := {}, m_availableInfo := {}\<rparr>"

text \<open>
  An entry is an object: its methods work on the file system and on its information. The virtual method
  \<open>updateInfo\<close> is an argument of the methods that fetch information.
\<close>

type_synonym ('s, 'a) entry_action = "('s \<times> entry_info, 'a) action"

definition on_system :: "('s, 'a) action \<Rightarrow> ('s, 'a) entry_action" where
  "on_system m = zoom fst (\<lambda>p s. (p, snd s)) m"

definition on_info :: "(entry_info \<Rightarrow> entry_info) \<Rightarrow> ('s, unit) entry_action" where
  "on_info f = modify (\<lambda>(s, i). (s, f i))"

definition fetchInfo :: "(info set \<Rightarrow> ('s, unit) entry_action) \<Rightarrow> info set \<Rightarrow> ('s, bool) entry_action" where
  "fetchInfo updateInfo requested =
     bind (gets snd) (\<lambda>i.
     if requested \<subseteq> m_availableInfo i then ret True
     else
       bind (if \<not> requested \<subseteq> m_requestedInfo i
             then bind (on_info (\<lambda>i. i\<lparr>m_requestedInfo := m_requestedInfo i \<union> requested\<rparr>)) (\<lambda>_. updateInfo requested)
             else ret ()) (\<lambda>_.
       gets (\<lambda>(s, i). requested \<subseteq> m_availableInfo i)))"

definition getInfo :: "(info set \<Rightarrow> ('s, unit) entry_action) \<Rightarrow> info \<Rightarrow> (entry_info \<Rightarrow> 'a) \<Rightarrow> 'a \<Rightarrow> ('s, 'a) entry_action" where
  "getInfo updateInfo k f none = bind (fetchInfo updateInfo {k}) (\<lambda>b. if b then gets (\<lambda>(s, i). f i) else ret none)"

definition getFileType :: "(info set \<Rightarrow> ('s, unit) entry_action) \<Rightarrow> ('s, file_type) entry_action" where
  "getFileType updateInfo = getInfo updateInfo InfoType m_fileType tUnknown"

definition getFileSize :: "(info set \<Rightarrow> ('s, unit) entry_action) \<Rightarrow> ('s, nat) entry_action" where
  "getFileSize updateInfo = getInfo updateInfo InfoSize m_fileSize 0"

definition getLinkText :: "(info set \<Rightarrow> ('s, unit) entry_action) \<Rightarrow> ('s, string) entry_action" where
  "getLinkText updateInfo = getInfo updateInfo InfoLinkText m_linkText []"

definition getModificationTime :: "(info set \<Rightarrow> ('s, unit) entry_action) \<Rightarrow> ('s, int) entry_action" where
  "getModificationTime updateInfo = getInfo updateInfo InfoModificationTime m_modificationTime 0"

definition getFlags :: "(info set \<Rightarrow> ('s, unit) entry_action) \<Rightarrow> ('s, file_flag set) entry_action" where
  "getFlags updateInfo = getInfo updateInfo InfoFlags m_flags {}"

text \<open>\<open>renameTo\<close>, \<open>moveTo\<close>, \<open>erase\<close>, \<open>createAsDirectory\<close> and \<open>setFlag\<close> drop the information and call the virtual method.\<close>

definition changing :: "('s, 'a) action \<Rightarrow> ('s, 'a) entry_action" where
  "changing m = bind (on_info clearInfo) (\<lambda>_. on_system m)"

text \<open>The variants \<open>NT\<close> report a \<open>FileProblemException\<close> as false.\<close>

definition noThrow :: "('s, 'a) action \<Rightarrow> ('s, bool) action" where
  "noThrow m = (\<lambda>s. case m s of
       (Inr x, s') \<Rightarrow> (Inr True, s')
     | (Inl (FileProblemException f t), s') \<Rightarrow> (Inr False, s')
     | (Inl e, s') \<Rightarrow> (Inl e, s'))"

definition renameTo :: "(string \<Rightarrow> ('s, unit) action) \<Rightarrow> string \<Rightarrow> ('s, unit) entry_action" where
  "renameTo doRename newName = changing (doRename newName)"

definition renameToNT :: "(string \<Rightarrow> ('s, unit) action) \<Rightarrow> string \<Rightarrow> ('s, bool) entry_action" where
  "renameToNT doRename newName = noThrow (renameTo doRename newName)"

definition moveTo :: "('d \<Rightarrow> string \<Rightarrow> ('s, unit) action) \<Rightarrow> 'd \<Rightarrow> string \<Rightarrow> ('s, unit) entry_action" where
  "moveTo doMoveTo dir newName = changing (doMoveTo dir newName)"

definition moveToNT :: "('d \<Rightarrow> string \<Rightarrow> ('s, unit) action) \<Rightarrow> 'd \<Rightarrow> string \<Rightarrow> ('s, bool) entry_action" where
  "moveToNT doMoveTo dir newName = noThrow (moveTo doMoveTo dir newName)"

definition entry_erase :: "('s, unit) action \<Rightarrow> ('s, unit) entry_action" where
  "entry_erase doErase = changing doErase"

definition entry_eraseNT :: "('s, unit) action \<Rightarrow> ('s, bool) entry_action" where
  "entry_eraseNT doErase = noThrow (entry_erase doErase)"

definition createAsDirectory :: "('s, unit) action \<Rightarrow> ('s, unit) entry_action" where
  "createAsDirectory doCreateAsDirectory = changing doCreateAsDirectory"

definition entry_setFlag :: "(file_flag \<Rightarrow> bool \<Rightarrow> ('s, unit) action) \<Rightarrow> file_flag \<Rightarrow> bool \<Rightarrow> ('s, unit) entry_action" where
  "entry_setFlag doSetFlag flag v = changing (doSetFlag flag v)"

definition copiedInfo :: "entry_info \<Rightarrow> info set \<Rightarrow> entry_info \<Rightarrow> entry_info" where
  "copiedInfo other requested i =
     (let requested = requested \<inter> m_availableInfo other;
          i = (if InfoType \<in> requested then setFileType (m_fileType other) i else i);
          i = (if InfoSize \<in> requested then setFileSize (m_fileSize other) i else i);
          i = (if InfoLinkText \<in> requested then setLinkText (m_linkText other) i else i);
          i = (if InfoModificationTime \<in> requested then setModificationTime (m_modificationTime other) i else i)
      in if InfoFlags \<in> requested then setFlags (m_flags other) i else i)"

text \<open>The other entry updates its information first; its new information is the result.\<close>

definition copyInfo :: "(info set \<Rightarrow> ('s, unit) entry_action) \<Rightarrow> entry_info \<Rightarrow> info set \<Rightarrow> ('s, entry_info) entry_action" where
  "copyInfo updateOther other requested = (\<lambda>(s, i).
     case updateOther requested (s, other) of
       (Inl e, (s', other')) \<Rightarrow> (Inl e, (s', i))
     | (Inr _, (s', other')) \<Rightarrow> (Inr other', (s', copiedInfo other' requested i)))"

section \<open>Entry\<close>

definition Entry_getPathName :: "entry \<Rightarrow> string" where
  "Entry_getPathName e = Posix_makePathName (Dir_getDirectoryName (fst e)) (snd e)"

definition Entry_openFile :: "entry \<Rightarrow> open_mode \<Rightarrow> (nat \<times> nat) fs_action" where
  "Entry_openFile e mode = Dir_open (fst e) (snd e) (Entry_getPathName e) mode"

definition Entry_openDirectory :: "entry \<Rightarrow> directory fs_action" where
  "Entry_openDirectory e =
     bind (findNode (dir_content (fst e)) (snd e)) (\<lambda>n.
     bind (asDirectory n) (\<lambda>dn.
     case dn of
       Some c \<Rightarrow> ret (Dir (Entry_getPathName e) c (Some (fst e)))
     | None \<Rightarrow> throw (FileProblemException (Entry_getPathName e) fileNotFound)))"

definition Entry_openContainingDirectory :: "entry \<Rightarrow> directory" where
  "Entry_openContainingDirectory e = fst e"

definition Entry_updateInfo :: "entry \<Rightarrow> info set \<Rightarrow> (file_system, unit) entry_action" where
  "Entry_updateInfo e requested =
     bind (on_system (findNode (dir_content (fst e)) (snd e))) (\<lambda>n.
     bind (on_system (asDirectory n)) (\<lambda>dn.
     if dn \<noteq> None then on_info (setFileType tDirectory)
     else bind (on_system (asFile n)) (\<lambda>fn.
       case fn of
         Some c \<Rightarrow>
           bind (on_info (setFileType tFile)) (\<lambda>_.
           bind (gets (\<lambda>(s, i). length (is_data (cn_stream (fs_streams s c))))) (\<lambda>k.
           on_info (setFileSize k)))
       | None \<Rightarrow> on_info (setFileType tUnknown))))"

definition renameNode :: "nat \<Rightarrow> string \<Rightarrow> unit fs_action" where
  "renameNode p name = bind (readFNode p) (\<lambda>n. writeFNode p (n\<lparr>fn_name := name\<rparr>))"

definition eraseNode :: "nat \<Rightarrow> nat \<Rightarrow> unit fs_action" where
  "eraseNode a it = bind (on_list a (MultiList_erase it)) deleteNode"

definition entryProblem :: "entry \<Rightarrow> string \<Rightarrow> 'a fs_action" where
  "entryProblem e t = throw (FileProblemException (Entry_getPathName e) t)"

text \<open>The node \<open>p\<close> of a file replaces the file that the iterator found under the new name, if any.\<close>

definition Entry_renameFile :: "entry \<Rightarrow> nat \<Rightarrow> string \<Rightarrow> nat \<Rightarrow> unit fs_action" where
  "Entry_renameFile e p newName it =
     (let a = dir_content (fst e) in
     bind (gets (\<lambda>s. iterator_is_end (fs_lists s a) it)) (\<lambda>isEnd.
     bind (if \<not> isEnd then
         bind (on_list a (iterator_get it)) (\<lambda>q.
         bind (asFile q) (\<lambda>qf.
         if q = Some p \<or> qf = None then entryProblem e fileExists else eraseNode a it))
       else ret ()) (\<lambda>_.
     renameNode p newName)))"

definition Entry_doRename :: "entry \<Rightarrow> string \<Rightarrow> unit fs_action" where
  "Entry_doRename e newName =
     (let a = dir_content (fst e) in
     bind (verifyFileNameComponent newName) (\<lambda>_.
     bind (findNode a (snd e)) (\<lambda>n.
     case n of
       None \<Rightarrow> entryProblem e fileNotFound
     | Some p \<Rightarrow>
         if newName \<noteq> snd e then
           bind (asFile n) (\<lambda>fn.
           if fn \<noteq> None then bind (findIterator a newName) (\<lambda>it. scoped a it (Entry_renameFile e p newName it))
           else
             bind (asDirectory n) (\<lambda>dn.
             if dn \<noteq> None then
               bind (findNode a newName) (\<lambda>q.
               if q \<noteq> None then entryProblem e fileExists else renameNode p newName)
             else entryProblem e fileNotFound))
         else ret ())))"

definition Entry_eraseFound :: "entry \<Rightarrow> nat \<Rightarrow> unit fs_action" where
  "Entry_eraseFound e it =
     (let a = dir_content (fst e) in
     bind (gets (\<lambda>s. iterator_is_end (fs_lists s a) it)) (\<lambda>isEnd.
     if isEnd then entryProblem e fileNotFound
     else
       bind (on_list a (iterator_get it)) (\<lambda>p.
       bind (asDirectory p) (\<lambda>dn.
       case dn of
         Some c \<Rightarrow>
           bind (gets (\<lambda>s. MultiList_empty (fs_lists s c))) (\<lambda>empty.
           if \<not> empty then entryProblem e fileExists else eraseNode a it)
       | None \<Rightarrow>
           bind (asFile p) (\<lambda>fn. if fn \<noteq> None then eraseNode a it else entryProblem e fileNotFound)))))"

definition Entry_doErase :: "entry \<Rightarrow> unit fs_action" where
  "Entry_doErase e =
     bind (findIterator (dir_content (fst e)) (snd e)) (\<lambda>it. scoped (dir_content (fst e)) it (Entry_eraseFound e it))"

definition Entry_doCreateAsDirectory :: "entry \<Rightarrow> unit fs_action" where
  "Entry_doCreateAsDirectory e =
     (let a = dir_content (fst e) in
     bind (findNode a (snd e)) (\<lambda>n.
     if n \<noteq> None then entryProblem e fileExists
     else bind (newDirectoryNode (snd e)) (\<lambda>p. on_list a (MultiList_pushBackNew (Some p)))))"

definition Entry_doSetFlag :: "entry \<Rightarrow> file_flag \<Rightarrow> bool \<Rightarrow> unit fs_action" where
  "Entry_doSetFlag e flag v = entryProblem e invalidOperationMessage"

text \<open>\<open>extractElement\<close> takes a copy of the iterator. When it gives a null pointer, the assignment of the name follows it.\<close>

definition moveNode :: "nat \<Rightarrow> nat \<Rightarrow> nat \<Rightarrow> string \<Rightarrow> unit fs_action" where
  "moveNode srcList srcIt destList name =
     bind (on_list srcList (iterator_copy srcIt)) (\<lambda>j.
     bind (on_list srcList (MultiList_extractElement j)) (\<lambda>p.
     bind (on_list srcList (iterator_unlink j)) (\<lambda>_.
     bind (on_list destList (MultiList_pushBackNew p)) (\<lambda>_.
     case p of None \<Rightarrow> throw Undefined | Some n \<Rightarrow> renameNode n name))))"

text \<open>The part of \<open>doMoveTo\<close> after the destination has been looked for: remove the destination file, and move.\<close>

definition Entry_moveFound :: "nat \<Rightarrow> nat \<Rightarrow> string \<Rightarrow> nat \<Rightarrow> nat \<Rightarrow> string \<Rightarrow> unit fs_action" where
  "Entry_moveFound srcList srcIt dirName destList destIt name =
     (let exists = throw (FileProblemException (Posix_makePathName dirName name) fileExists) in
     bind (on_list srcList (iterator_get srcIt)) (\<lambda>p.
     bind (asFile p) (\<lambda>fn.
     bind (gets (\<lambda>s. iterator_is_end (fs_lists s destList) destIt)) (\<lambda>destEnd.
     bind (if destEnd then ret ()
           else if fn \<noteq> None then
             bind (on_list destList (iterator_get destIt)) (\<lambda>q.
             bind (asFile q) (\<lambda>qf. if qf = None then exists else eraseNode destList destIt))
           else exists) (\<lambda>_.
     moveNode srcList srcIt destList name)))))"

definition Entry_doMoveTo :: "entry \<Rightarrow> directory \<Rightarrow> string \<Rightarrow> unit fs_action" where
  "Entry_doMoveTo e dir name =
     (case dir of
        RootDir c \<Rightarrow> entryProblem e invalidOperationMessage
      | Dir dirName destList par \<Rightarrow>
          let srcList = dir_content (fst e) in
          bind (findIterator srcList (snd e)) (\<lambda>srcIt.
          scoped srcList srcIt
            (bind (gets (\<lambda>s. iterator_is_end (fs_lists s srcList) srcIt)) (\<lambda>isEnd.
             if isEnd then entryProblem e fileNotFound
             else
               bind (findIterator destList name) (\<lambda>destIt.
               scoped destList destIt (Entry_moveFound srcList srcIt dirName destList destIt name))))))"

section \<open>Enum\<close>

text \<open>The enumerator is the directory and the iterator.\<close>

definition Enum_init :: "directory \<Rightarrow> (directory \<times> nat) fs_action" where
  "Enum_init d = bind (on_list (dir_content d) MultiList_begin) (\<lambda>it. ret (d, it))"

fun Enum_loop :: "nat \<Rightarrow> directory \<times> nat \<Rightarrow> entry option fs_action" where
  "Enum_loop 0 en = throw NoReturn"
| "Enum_loop (Suc fuel) en =
     (case en of (d, it) \<Rightarrow>
        bind (gets (\<lambda>s. iterator_is_end (fs_lists s (dir_content d)) it)) (\<lambda>e.
        if e then ret None
        else
          bind (on_list (dir_content d) (iterator_get it)) (\<lambda>p.
          case p of
            Some n \<Rightarrow>
              bind (readFNode n) (\<lambda>n.
              bind (on_list (dir_content d) (iterator_next it)) (\<lambda>_. ret (Some (d, fn_name n))))
          | None \<Rightarrow> bind (on_list (dir_content d) (iterator_next it)) (\<lambda>_. Enum_loop fuel en))))"

definition Enum_getNextElement :: "directory \<times> nat \<Rightarrow> entry option fs_action" where
  "Enum_getNextElement en =
     bind (gets (\<lambda>s. Suc (m_fresh (fs_lists s (dir_content (fst en)))))) (\<lambda>fuel. Enum_loop fuel en)"

section \<open>RootDir, RootEntry, RootEnum\<close>

definition RootDir_getDirectoryEntryByName :: "string \<Rightarrow> 'a fs_action" where
  "RootDir_getDirectoryEntryByName name = throw (FileProblemException name cannotAccessFiles)"

definition RootEntry_openFile :: "open_mode \<Rightarrow> 'a fs_action" where
  "RootEntry_openFile mode = throw (FileProblemException rootDirTitle cannotAccessFiles)"

definition RootEntry_openDirectory :: "directory \<Rightarrow> directory" where
  "RootEntry_openDirectory root = Dir ''/'' (dir_content root) None"

definition RootEntry_updateInfo :: "info set \<Rightarrow> (file_system, unit) entry_action" where
  "RootEntry_updateInfo requested = on_info (setLinkText ''/'' \<circ> setFlags {Link} \<circ> setFileType tDirectory)"

definition RootEntry_doRename :: "string \<Rightarrow> unit fs_action" where
  "RootEntry_doRename newName = throw (FileProblemException rootDirTitle cannotAccessFiles)"

definition RootEntry_doErase :: "unit fs_action" where
  "RootEntry_doErase = throw (FileProblemException rootDirTitle cannotAccessFiles)"

definition RootEntry_doCreateAsDirectory :: "unit fs_action" where
  "RootEntry_doCreateAsDirectory = throw (FileProblemException rootDirTitle cannotAccessDirectories)"

definition RootEntry_doSetFlag :: "file_flag \<Rightarrow> bool \<Rightarrow> unit fs_action" where
  "RootEntry_doSetFlag flag v = throw (FileProblemException rootDirTitle cannotAccessFiles)"

definition RootEntry_doMoveTo :: "directory \<Rightarrow> string \<Rightarrow> unit fs_action" where
  "RootEntry_doMoveTo dir name = throw (FileProblemException rootDirTitle cannotAccessFiles)"

text \<open>The state of the enumerator is \<open>m_did\<close>; its only element is the entry of the root.\<close>

definition RootEnum_getNextElement :: "(bool, bool) action" where
  "RootEnum_getNextElement = (\<lambda>did. if \<not> did then (Inr True, True) else (Inr False, did))"

section \<open>InternalFileSystem\<close>

definition createDirectory :: "string \<Rightarrow> unit fs_action" where
  "createDirectory dirName =
     bind (findDirectory m_root (prepareFileName dirName) dirName) (\<lambda>(dir, name).
     bind (verifyFileNameComponent name) (\<lambda>_.
     \<lambda>s. case createAsDirectory (Entry_doCreateAsDirectory (dir, name)) (s, DirectoryEntry_init) of (r, (s', i)) \<Rightarrow> (r, s')))"

definition openFile :: "string \<Rightarrow> open_mode \<Rightarrow> (nat \<times> nat) fs_action" where
  "openFile fileName mode =
     bind (findDirectory m_root (prepareFileName fileName) fileName) (\<lambda>(dir, name). Dir_open dir name fileName mode)"

definition openDirectory :: "string \<Rightarrow> directory fs_action" where
  "openDirectory dirName =
     bind (findDirectory m_root (prepareFileName dirName) dirName) (\<lambda>(dir, name).
     if name \<noteq> [] \<and> \<not> isDot name then
       bind (findNode (dir_content dir) name) (\<lambda>n.
       bind (asDirectory n) (\<lambda>dn.
       case dn of
         None \<Rightarrow> throw (FileProblemException dirName fileNotFound)
       | Some c \<Rightarrow> ret (Dir (Posix_makePathName (Dir_getDirectoryName dir) name) c (Some dir))))
     else ret dir)"

definition openRootDirectory :: directory where
  "openRootDirectory = RootDir m_root"

definition getWorkingDirectoryName :: string where
  "getWorkingDirectoryName = ''/''"

definition getAbsolutePathName :: "string \<Rightarrow> string" where
  "getAbsolutePathName name = Posix_getCanonicalPathName (Posix_makePathName getWorkingDirectoryName name)"

section \<open>FileSystem and Directory\<close>

definition openFileNT :: "string \<Rightarrow> open_mode \<Rightarrow> (nat \<times> nat) option fs_action" where
  "openFileNT name mode = (\<lambda>s.
     case openFile name mode s of
       (Inr h, s') \<Rightarrow> (Inr (Some h), s')
     | (Inl (FileProblemException f t), s') \<Rightarrow> (Inr None, s')
     | (Inl e, s') \<Rightarrow> (Inl e, s'))"

definition Directory_openDirectory :: "directory \<Rightarrow> string \<Rightarrow> directory fs_action" where
  "Directory_openDirectory d name = bind (Dir_getDirectoryEntryByName d name) Entry_openDirectory"

definition Directory_openFile :: "directory \<Rightarrow> string \<Rightarrow> open_mode \<Rightarrow> (nat \<times> nat) fs_action" where
  "Directory_openFile d name mode = bind (Dir_getDirectoryEntryByName d name) (\<lambda>e. Entry_openFile e mode)"

text \<open>An action of a new entry object, which is dropped afterwards.\<close>

definition with_entry :: "entry \<Rightarrow> (file_system, 'a) entry_action \<Rightarrow> 'a fs_action" where
  "with_entry e m = (\<lambda>s. case m (s, DirectoryEntry_init) of (r, (s', i)) \<Rightarrow> (r, s'))"

definition Directory_erase :: "directory \<Rightarrow> string \<Rightarrow> unit fs_action" where
  "Directory_erase d name = bind (Dir_getDirectoryEntryByName d name) (\<lambda>e. with_entry e (entry_erase (Entry_doErase e)))"

definition Directory_eraseNT :: "directory \<Rightarrow> string \<Rightarrow> bool fs_action" where
  "Directory_eraseNT d name = noThrow (Directory_erase d name)"

text \<open>The list of the entries that \<open>eraseContentRecursively\<close> starts with.\<close>

fun collectEntries :: "nat \<Rightarrow> directory \<times> nat \<Rightarrow> entry list fs_action" where
  "collectEntries 0 en = throw NoReturn"
| "collectEntries (Suc fuel) en =
     bind (Enum_getNextElement en) (\<lambda>e.
     case e of None \<Rightarrow> ret [] | Some e \<Rightarrow> bind (collectEntries fuel en) (\<lambda>es. ret (e # es)))"

fun eraseContentRecursively :: "nat \<Rightarrow> directory \<Rightarrow> unit fs_action"
  and eraseEntries :: "nat \<Rightarrow> entry list \<Rightarrow> unit fs_action" where
  "eraseContentRecursively 0 d = throw NoReturn"
| "eraseContentRecursively (Suc fuel) d =
     bind (Enum_init d) (\<lambda>en.
     scoped (dir_content d) (snd en)
       (bind (gets (\<lambda>s. Suc (m_fresh (fs_lists s (dir_content d))))) (\<lambda>n.
        bind (collectEntries n en) (\<lambda>es. eraseEntries fuel es))))"
| "eraseEntries fuel [] = ret ()"
| "eraseEntries 0 (e # es) = throw NoReturn"
| "eraseEntries (Suc fuel) (e # es) =
     bind (with_entry e
       (bind (getFileType (Entry_updateInfo e)) (\<lambda>t.
        bind (if t = tDirectory then bind (getFlags (Entry_updateInfo e)) (\<lambda>fl. ret (Link \<notin> fl)) else ret False) (\<lambda>descend.
        bind (if descend
              then bind (on_system (Entry_openDirectory e)) (\<lambda>d. on_system (eraseContentRecursively fuel d))
              else ret ()) (\<lambda>_.
        entry_erase (Entry_doErase e)))))) (\<lambda>_.
     eraseEntries (Suc fuel) es)"

end
