(* ===== verification/Afl_FileSystem_Laws.thy ===== *)
theory Afl_FileSystem_Laws
  imports Afl_FileSystem Afl_MultiList_Laws "HOL-Library.AList"
begin

text \<open>
  The file system in memory implements directories that are association lists from names to files and directories.
  The invariant relates the lists of pointers with the nodes; every operation on an entry is proved to do what the
  specification on association lists does, its errors included.
\<close>

section \<open>Changes that a client does not see\<close>

text \<open>Operations that only look for nodes change nothing but addresses for iterators.\<close>

definition quiet_list :: "'a mlist \<Rightarrow> 'a mlist \<Rightarrow> bool" where
  "quiet_list l l' \<longleftrightarrow> (\<forall>ys. safe l ys \<longrightarrow> safe l' ys) \<and> iterator_at l' = iterator_at l \<and> m_fresh l \<le> m_fresh l' \<and> m_firstNode l' = m_firstNode l"

definition quiet :: "file_system \<Rightarrow> file_system \<Rightarrow> bool" where
  "quiet s s' \<longleftrightarrow> fs_nodes s' = fs_nodes s \<and> fs_streams s' = fs_streams s \<and> fs_fresh s' = fs_fresh s \<and>
     (\<forall>a. quiet_list (fs_lists s a) (fs_lists s' a))"

lemma quiet_refl [simp]: "quiet s s" "quiet_list l l"
  by (simp_all add: quiet_def quiet_list_def)

lemma quiet_trans: "quiet s t \<Longrightarrow> quiet t u \<Longrightarrow> quiet s u"
  unfolding quiet_def quiet_list_def by (metis order_trans)

abbreviation with_list :: "file_system \<Rightarrow> nat \<Rightarrow> nat mlist \<Rightarrow> file_system" where
  "with_list s a l \<equiv> s\<lparr>fs_lists := (fs_lists s)(a := l)\<rparr>"

lemma quiet_with_list: "quiet_list (fs_lists s a) l \<Longrightarrow> quiet s (with_list s a l)"
  by (simp add: quiet_def)

lemma on_list_runs: "m (fs_lists s a) = (r, l) \<Longrightarrow> on_list a m s = (r, with_list s a l)"
  by (simp add: on_list_def zoom_def)

lemma safe_fresh: "safe l ys \<Longrightarrow> iterator_at l (m_fresh l) = iterator_end"
  using iterator_at_fresh safeD(1) by blast

lemma safe_first: "safe l ys \<Longrightarrow> m_firstNode l = first_of ys None"
  using safeD(1) by (auto simp: represents_def)

lemma safe_length:
  assumes "safe l ys"
  shows "length ys \<le> m_fresh l"
proof -
  have "fst ` set ys \<subseteq> {..<m_fresh l}" using represents_bounds(1) [OF safeD(1) [OF assms]] by auto
  then have "card (fst ` set ys) \<le> m_fresh l" by (metis card_lessThan card_mono finite_lessThan)
  then show ?thesis using safeD(3) [OF assms] by (metis distinct_card length_map list.set_map)
qed

section \<open>Looking for a name\<close>

definition node_name :: "file_system \<Rightarrow> nat \<Rightarrow> string" where
  "node_name s p = fn_name (the (fs_nodes s p))"

definition has_name :: "file_system \<Rightarrow> string \<Rightarrow> nat \<times> nat option \<Rightarrow> bool" where
  "has_name s name y \<longleftrightarrow> node_name s (the (snd y)) = name"

definition alive :: "file_system \<Rightarrow> (nat \<times> nat option) list \<Rightarrow> bool" where
  "alive s ys \<longleftrightarrow> (\<forall>y\<in>set ys. \<exists>p n. snd y = Some p \<and> fs_nodes s p = Some n)"

lemma safe_update_pos:
  assumes "safe l (ys @ zs)" "represents l' (ys @ zs)" "iterator_at l' = (iterator_at l)(i := pos zs)"
  shows "safe l' (ys @ zs)"
  using assms trackedI [of "pos zs" zs ys] by (simp add: safe_def)

lemma findNodeLoop_runs:
  assumes "safe (fs_lists s a) (ys @ zs)" "iterator_at (fs_lists s a) it = pos zs" "alive s zs" "length zs < fuel"
  shows "\<exists>l. findNodeLoop fuel a it name s = (Inr (), with_list s a l) \<and> safe l (ys @ zs) \<and> m_fresh l = m_fresh (fs_lists s a) \<and>
    iterator_at l = (iterator_at (fs_lists s a))(it := pos (dropWhile (\<lambda>y. \<not> has_name s name y) zs))"
  using assms
proof (induction zs arbitrary: s ys fuel)
  case Nil
  then obtain f where "fuel = Suc f" by (cases fuel) auto
  then show ?case using Nil by (intro exI [of _ "fs_lists s a"]) (simp add: iterator_is_end_def fun_upd_idem)
next
  case (Cons z zs)
  let ?l = "fs_lists s a"
  obtain f where f: "fuel = Suc f" using Cons.prems(4) by (cases fuel) auto
  obtain p n where p: "snd z = Some p" "fs_nodes s p = Some n" using Cons.prems(3) by (auto simp: alive_def)
  have get: "iterator_get it ?l = (Inr (Some p), ?l)"
    using iterator_get_runs [OF safeD(1) [OF Cons.prems(1)]] Cons.prems(2) p(1) by simp
  have here: "iterator_is_end ?l it = False" using Cons.prems(2) by (simp add: iterator_is_end_def)
  show ?case
  proof (cases "has_name s name z")
    case True
    then have "findNodeLoop fuel a it name s = (Inr (), with_list s a ?l)"
      using f here get p by (simp add: on_list_def zoom_def bind_def readFNode_def has_name_def node_name_def)
    then show ?thesis using Cons.prems True by (intro exI [of _ ?l]) (simp add: fun_upd_idem)
  next
    case False
    from iterator_next_runs [of ?l "ys @ [z]" zs it] safeD(1) [OF Cons.prems(1)] Cons.prems(2) obtain l1 where
      l1: "iterator_next it ?l = (Inr (), l1)" "represents l1 ((ys @ [z]) @ zs)" "iterator_at l1 = (iterator_at ?l)(it := pos zs)" "m_fresh l1 = m_fresh ?l" by auto
    have safe1: "safe l1 ((ys @ [z]) @ zs)" using safe_update_pos [OF _ l1(2,3)] Cons.prems(1) by simp
    have step: "findNodeLoop fuel a it name s = findNodeLoop f a it name (with_list s a l1)"
      using f here get p False l1(1) by (simp add: on_list_def zoom_def bind_def readFNode_def has_name_def node_name_def)
    have same: "has_name (with_list s a l1) = has_name s" by (simp add: has_name_def node_name_def fun_eq_iff)
    have "alive (with_list s a l1) zs" using Cons.prems(3) by (simp add: alive_def)
    moreover have "safe (fs_lists (with_list s a l1) a) ((ys @ [z]) @ zs)" "iterator_at (fs_lists (with_list s a l1) a) it = pos zs" "length zs < f"
      using safe1 l1(3) Cons.prems(4) f by simp_all
    ultimately obtain l where "findNodeLoop f a it name (with_list s a l1) = (Inr (), with_list (with_list s a l1) a l)" "safe l ((ys @ [z]) @ zs)"
      "m_fresh l = m_fresh (fs_lists (with_list s a l1) a)"
      "iterator_at l = (iterator_at (fs_lists (with_list s a l1) a))(it := pos (dropWhile (\<lambda>y. \<not> has_name (with_list s a l1) name y) zs))"
      using Cons.IH by blast
    then have "findNodeLoop fuel a it name s = (Inr (), with_list s a l) \<and> safe l (ys @ z # zs) \<and> m_fresh l = m_fresh (fs_lists s a) \<and>
        iterator_at l = (iterator_at (fs_lists s a))(it := pos (dropWhile (\<lambda>y. \<not> has_name s name y) (z # zs)))"
      using step l1(3,4) False same by simp
    then show ?thesis by blast
  qed
qed

lemma findIterator_runs:
  assumes "safe (fs_lists s a) ys" "alive s ys"
  shows "\<exists>l. findIterator a name s = (Inr (m_fresh (fs_lists s a)), with_list s a l) \<and> safe l ys \<and> m_fresh l = Suc (m_fresh (fs_lists s a)) \<and>
    iterator_at l = (iterator_at (fs_lists s a))(m_fresh (fs_lists s a) := pos (dropWhile (\<lambda>y. \<not> has_name s name y) ys))"
proof -
  let ?l = "fs_lists s a"
  from begin_runs [OF safeD(1) [OF assms(1)]] obtain l1 where
    l1: "MultiList_begin ?l = (Inr (m_fresh ?l), l1)" "represents l1 ys" "iterator_at l1 = (iterator_at ?l)(m_fresh ?l := pos ys)" "m_fresh l1 = Suc (m_fresh ?l)" by auto
  have safe1: "safe l1 ([] @ ys)" using safe_update_pos [of ?l "[]" ys l1] assms(1) l1(2,3) by simp
  let ?s = "with_list s a l1"
  have same: "has_name ?s = has_name s" by (simp add: has_name_def node_name_def fun_eq_iff)
  have "length ys < Suc (m_fresh l1)" using safe_length [OF safe1] by simp
  from findNodeLoop_runs [of ?s a "[]" ys "m_fresh ?l" "Suc (m_fresh l1)" name] safe1 l1(3) assms(2) this obtain l2 where
    l2: "findNodeLoop (Suc (m_fresh l1)) a (m_fresh ?l) name ?s = (Inr (), with_list ?s a l2)" "safe l2 ys" "m_fresh l2 = m_fresh l1"
      "iterator_at l2 = (iterator_at l1)(m_fresh ?l := pos (dropWhile (\<lambda>y. \<not> has_name s name y) ys))"
    unfolding same by (auto simp: alive_def)
  have "findIterator a name s = (Inr (m_fresh ?l), with_list ?s a l2)"
    using l1(1) l2(1) by (simp add: findIterator_def on_list_def zoom_def bind_def del: findNodeLoop.simps)
  then show ?thesis using l2(2-4) l1(3,4) by (intro exI [of _ l2]) simp
qed

text \<open>The first element with the name.\<close>

definition lookup_name :: "file_system \<Rightarrow> string \<Rightarrow> (nat \<times> nat option) list \<Rightarrow> nat option" where
  "lookup_name s name ys = (case dropWhile (\<lambda>y. \<not> has_name s name y) ys of [] \<Rightarrow> None | y # _ \<Rightarrow> snd y)"

lemma unlink_fresh_quiet:
  assumes "safe l ys" "safe l1 ys" "iterator_at l1 = (iterator_at l)(m_fresh l := x)" "m_fresh l \<le> m_fresh l1"
  shows "\<exists>l2. iterator_unlink (m_fresh l) l1 = (Inr (), l2) \<and> quiet_list l l2"
proof -
  from safe_unlink [OF assms(2), of "m_fresh l"] obtain l2 where
    l2: "iterator_unlink (m_fresh l) l1 = (Inr (), l2)" "safe l2 ys" "iterator_at l2 = (iterator_at l1)(m_fresh l := iterator_end)"
    by (auto simp: runs_def)
  have fresh: "m_fresh l \<le> m_fresh l2" using l2(1) assms(4) by (auto simp: iterator_unlink_def)
  have at: "iterator_at l2 = iterator_at l" using l2(3) assms(3) safe_fresh [OF assms(1)] by auto
  have "safe l2 zs" if "safe l zs" for zs
    using represents_unique [OF safeD(1) [OF that] safeD(1) [OF assms(1)]] l2(2) by simp
  moreover have "m_firstNode l2 = m_firstNode l" using safe_first [OF l2(2)] safe_first [OF assms(1)] by simp
  ultimately show ?thesis using l2(1) fresh at by (auto simp: quiet_list_def)
qed

lemma findNode_runs:
  assumes "safe (fs_lists s a) ys" "alive s ys"
  shows "\<exists>s'. findNode a name s = (Inr (lookup_name s name ys), s') \<and> quiet s s'"
proof -
  let ?l = "fs_lists s a" and ?zs = "dropWhile (\<lambda>y. \<not> has_name s name y) ys"
  from findIterator_runs [OF assms, of name] obtain l1 where
    l1: "findIterator a name s = (Inr (m_fresh ?l), with_list s a l1)" "safe l1 ys" "m_fresh l1 = Suc (m_fresh ?l)"
      "iterator_at l1 = (iterator_at ?l)(m_fresh ?l := pos ?zs)" by blast
  from unlink_fresh_quiet [OF assms(1) l1(2,4)] l1(3) obtain l2 where
    l2: "iterator_unlink (m_fresh ?l) l1 = (Inr (), l2)" "quiet_list ?l l2" by auto
  have "(if \<not> iterator_is_end l1 (m_fresh ?l) then on_list a (iterator_get (m_fresh ?l)) else ret None) (with_list s a l1) =
      (Inr (lookup_name s name ys), with_list s a l1)"
  proof (cases ?zs)
    case Nil
    then show ?thesis using l1(4) by (simp add: iterator_is_end_def lookup_name_def del: dropWhile_eq_Nil_conv)
  next
    case (Cons z zs)
    then obtain us where "ys = us @ z # zs" by (metis takeWhile_dropWhile_id)
    then have "iterator_get (m_fresh ?l) l1 = (Inr (snd z), l1)"
      using iterator_get_runs [of l1 us z zs] safeD(1) [OF l1(2)] l1(4) Cons by simp
    then show ?thesis using Cons l1(4) by (simp add: iterator_is_end_def lookup_name_def on_list_def zoom_def fun_upd_idem)
  qed
  then have "findNode a name s = (Inr (lookup_name s name ys), with_list s a l2)"
    using l1(1) l2(1) by (simp add: findNode_def bind_def scoped_def on_list_def zoom_def split: if_splits)
  then show ?thesis using quiet_with_list [OF l2(2)] by blast
qed

section \<open>The invariant\<close>

text \<open>
  \<open>cs\<close> gives the pointers to the nodes in each list. Names in a directory are valid and distinct; no node is in two lists.
\<close>

definition listing :: "file_system \<Rightarrow> nat list \<Rightarrow> (string \<times> file_ref) list" where
  "listing s ps = map (\<lambda>p. (fn_name (the (fs_nodes s p)), fn_content (the (fs_nodes s p)))) ps"

definition fs_inv :: "file_system \<Rightarrow> (nat \<Rightarrow> nat list) \<Rightarrow> bool" where
  "fs_inv s cs \<longleftrightarrow>
     (\<forall>a. \<exists>ys. safe (fs_lists s a) ys \<and> map snd ys = map Some (cs a)) \<and>
     (\<forall>a p. p \<in> set (cs a) \<longrightarrow> p < fs_fresh s \<and> fs_nodes s p \<noteq> None) \<and>
     (\<forall>a. distinct (cs a)) \<and> (\<forall>a b. a \<noteq> b \<longrightarrow> set (cs a) \<inter> set (cs b) = {}) \<and>
     (\<forall>a. distinct (map fst (listing s (cs a)))) \<and> (\<forall>a. \<forall>x\<in>set (listing s (cs a)). componentValid (fst x)) \<and>
     (\<forall>a. fs_fresh s \<le> a \<longrightarrow> cs a = [])"

lemma fs_invD:
  assumes "fs_inv s cs"
  shows "\<exists>ys. safe (fs_lists s a) ys \<and> map snd ys = map Some (cs a)"
    and "p \<in> set (cs a) \<Longrightarrow> p < fs_fresh s" and "p \<in> set (cs a) \<Longrightarrow> \<exists>n. fs_nodes s p = Some n"
    and "distinct (cs a)" and "a \<noteq> b \<Longrightarrow> p \<in> set (cs a) \<Longrightarrow> p \<notin> set (cs b)"
    and "distinct (map fst (listing s (cs a)))" and "x \<in> set (listing s (cs a)) \<Longrightarrow> componentValid (fst x)"
    and "fs_fresh s \<le> a \<Longrightarrow> cs a = []"
  using assms unfolding fs_inv_def by blast+

lemma fs_inv_init: "fs_inv InternalFileSystem_init (\<lambda>_. [])"
  using safe_init by (auto simp: fs_inv_def InternalFileSystem_init_def listing_def intro: exI [of _ "[]"])

lemma fs_inv_quiet: "quiet s s' \<Longrightarrow> fs_inv s cs \<Longrightarrow> fs_inv s' cs"
  unfolding fs_inv_def quiet_def quiet_list_def listing_def by fastforce

lemma alive_cs:
  assumes "fs_inv s cs" "map snd ys = map Some (cs a)"
  shows "alive s ys"
proof -
  have "\<exists>p. snd y = Some p \<and> p \<in> set (cs a)" if "y \<in> set ys" for y
    using that assms(2) by (metis (no_types, lifting) image_iff list.set_map)
  then show ?thesis using fs_invD(3) [OF assms(1)] unfolding alive_def by blast
qed

text \<open>What is found under a name: the pointer, and what it refers to.\<close>

definition pointer :: "file_system \<Rightarrow> string \<Rightarrow> nat list \<Rightarrow> nat option" where
  "pointer s name ps = List.find (\<lambda>p. node_name s p = name) ps"

lemma lookup_pointer: "map snd ys = map Some ps \<Longrightarrow> lookup_name s name ys = pointer s name ps"
  by (induction ys arbitrary: ps) (auto simp: lookup_name_def pointer_def has_name_def map_eq_Cons_conv)

lemma findNode_inv:
  assumes "fs_inv s cs"
  shows "\<exists>s'. findNode a name s = (Inr (pointer s name (cs a)), s') \<and> quiet s s'"
proof -
  obtain ys where ys: "safe (fs_lists s a) ys" "map snd ys = map Some (cs a)" using fs_invD(1) [OF assms] by blast
  from findNode_runs [OF ys(1) alive_cs [OF assms ys(2)], of name] show ?thesis using lookup_pointer [OF ys(2)] by simp
qed

lemma pointer_None: "pointer s name ps = None \<longleftrightarrow> map_of (listing s ps) name = None"
  by (induction ps) (auto simp: pointer_def listing_def node_name_def)

lemma pointer_Some:
  assumes "pointer s name ps = Some p"
  shows "p \<in> set ps" "node_name s p = name" "map_of (listing s ps) name = Some (fn_content (the (fs_nodes s p)))"
  using assms by (induction ps) (auto simp: pointer_def listing_def node_name_def split: if_splits)

lemma asFile_inv:
  assumes "fs_inv s cs" "pointer s name (cs a) = q"
  shows "asFile q s = (Inr (case map_of (listing s (cs a)) name of Some (FileRef c) \<Rightarrow> Some c | _ \<Rightarrow> None), s)"
proof (cases q)
  case None
  then show ?thesis using assms(2) pointer_None [of s name "cs a"] by (simp add: asFile_def)
next
  case (Some p)
  then have p: "pointer s name (cs a) = Some p" using assms(2) by simp
  obtain n where n: "fs_nodes s p = Some n" using fs_invD(3) [OF assms(1) pointer_Some(1) [OF p]] by blast
  then show ?thesis using pointer_Some(3) [OF p] Some by (auto simp: asFile_def readFNode_def bind_def split: file_ref.splits)
qed

lemma asDirectory_inv:
  assumes "fs_inv s cs" "pointer s name (cs a) = q"
  shows "asDirectory q s = (Inr (case map_of (listing s (cs a)) name of Some (DirectoryRef c) \<Rightarrow> Some c | _ \<Rightarrow> None), s)"
proof (cases q)
  case None
  then show ?thesis using assms(2) pointer_None [of s name "cs a"] by (simp add: asDirectory_def)
next
  case (Some p)
  then have p: "pointer s name (cs a) = Some p" using assms(2) by simp
  obtain n where n: "fs_nodes s p = Some n" using fs_invD(3) [OF assms(1) pointer_Some(1) [OF p]] by blast
  then show ?thesis using pointer_Some(3) [OF p] Some by (auto simp: asDirectory_def readFNode_def bind_def split: file_ref.splits)
qed

lemma quiet_reads:
  assumes "quiet s s'"
  shows "listing s' ps = listing s ps" "pointer s' name ps = pointer s name ps" "fs_fresh s' = fs_fresh s" "fs_streams s' = fs_streams s"
  using assms by (simp_all add: quiet_def listing_def pointer_def node_name_def)

text \<open>States that differ only in iterators.\<close>

definition similar :: "file_system \<Rightarrow> file_system \<Rightarrow> bool" where
  "similar s s' \<longleftrightarrow> fs_nodes s' = fs_nodes s \<and> fs_streams s' = fs_streams s \<and> fs_fresh s' = fs_fresh s \<and>
     (\<forall>a ys. safe (fs_lists s a) ys \<longrightarrow> safe (fs_lists s' a) ys)"

lemma similar_rules: "similar s s" "quiet s s' \<Longrightarrow> similar s s'" "similar s t \<Longrightarrow> similar t u \<Longrightarrow> similar s u"
  by (auto simp: similar_def quiet_def quiet_list_def)

lemma similar_with_list: "(\<And>ys. safe (fs_lists s a) ys \<Longrightarrow> safe l ys) \<Longrightarrow> similar s (with_list s a l)"
  by (simp add: similar_def)

lemma fs_inv_similar: "similar s s' \<Longrightarrow> fs_inv s cs \<Longrightarrow> fs_inv s' cs"
  unfolding fs_inv_def similar_def listing_def by fastforce

lemma similar_reads:
  assumes "similar s s'"
  shows "listing s' ps = listing s ps" "pointer s' name ps = pointer s name ps" "fs_fresh s' = fs_fresh s" "fs_streams s' = fs_streams s"
    "fs_nodes s' = fs_nodes s"
  using assms by (simp_all add: similar_def listing_def pointer_def node_name_def)

lemma scoped_similar:
  assumes "m s = (r, s')" "\<exists>ys. safe (fs_lists s' a) ys"
  shows "\<exists>s''. scoped a it m s = (r, s'') \<and> similar s' s''"
proof -
  obtain ys where ys: "safe (fs_lists s' a) ys" using assms(2) by blast
  from safe_unlink [OF ys, of it] obtain l where l: "iterator_unlink it (fs_lists s' a) = (Inr (), l)" "safe l ys" by (auto simp: runs_def)
  have "similar s' (with_list s' a l)" using represents_unique [OF safeD(1) safeD(1) [OF ys]] l(2) by (intro similar_with_list) metis
  then show ?thesis using assms(1) l(1) by (auto simp: scoped_def on_list_def zoom_def)
qed

section \<open>Changes of directories\<close>

text \<open>A new node at the end of a list.\<close>

lemma push_node:
  assumes inv: "fs_inv s cs" and nodes: "fs_nodes s1 = (fs_nodes s)(p \<mapsto> n)" and p: "fs_fresh s \<le> p" "p < fs_fresh s1" and a: "a < fs_fresh s"
    and lists: "\<forall>b. fs_lists s1 b = fs_lists s b \<or> fs_fresh s \<le> b \<and> fs_lists s1 b = MultiList_init"
    and name: "componentValid (fn_name n)" "map_of (listing s (cs a)) (fn_name n) = None"
  shows "\<exists>s2 cs'. on_list a (MultiList_pushBackNew (Some p)) s1 = (Inr (), s2) \<and> fs_inv s2 cs' \<and>
    (\<forall>b. listing s2 (cs' b) = (if b = a then listing s (cs a) @ [(fn_name n, fn_content n)] else listing s (cs b))) \<and>
    fs_nodes s2 = fs_nodes s1 \<and> fs_streams s2 = fs_streams s1 \<and> fs_fresh s2 = fs_fresh s1"
proof -
  obtain ys where ys: "safe (fs_lists s a) ys" "map snd ys = map Some (cs a)" using fs_invD(1) [OF inv] by blast
  have "fs_lists s1 a = fs_lists s a" using lists a by (metis not_less)
  with safe_pushBack [OF ys(1), of "Some p"] obtain l k where
    l: "MultiList_pushBackNew (Some p) (fs_lists s1 a) = (Inr (), l)" "safe l (ys @ [(k, Some p)])"
    by (auto simp: runs_def MultiList_pushBackNew_def bind_def)
  let ?s = "with_list s1 a l" and ?cs = "cs(a := cs a @ [p])"
  have new: "p \<notin> set (cs b)" for b using fs_invD(2) [OF inv, of p b] p(1) by auto
  have old: "listing ?s (cs b) = listing s (cs b)" for b using new [of b] nodes by (auto simp: listing_def)
  have list: "listing ?s (?cs b) = (if b = a then listing s (cs a) @ [(fn_name n, fn_content n)] else listing s (cs b))" for b
    using old nodes by (simp add: listing_def)
  have lists': "\<exists>zs. safe (fs_lists ?s b) zs \<and> map snd zs = map Some (?cs b)" for b
  proof (cases "b = a")
    case True
    then show ?thesis using l(2) ys(2) by (intro exI [of _ "ys @ [(k, Some p)]"]) simp
  next
    case False
    consider "fs_lists s1 b = fs_lists s b" | "fs_fresh s \<le> b" "fs_lists s1 b = MultiList_init" using lists by blast
    then show ?thesis
    proof cases
      case 1
      then show ?thesis using False fs_invD(1) [OF inv, of b] by simp
    next
      case 2
      then show ?thesis using False fs_invD(8) [OF inv, of b] safe_init by (intro exI [of _ "[]"]) simp
    qed
  qed
  have "fn_name n \<notin> fst ` set (listing s (cs a))" using name(2) by (simp add: map_of_eq_None_iff)
  then have names: "distinct (map fst (listing ?s (?cs b)))" "\<forall>x\<in>set (listing ?s (?cs b)). componentValid (fst x)" for b
    using fs_invD(6,7) [OF inv] name(1) unfolding list by auto
  have le: "fs_fresh s \<le> fs_fresh s1" using p by simp
  have "fs_inv ?s ?cs"
    unfolding fs_inv_def
  proof (intro conjI allI impI)
    fix b q assume "q \<in> set (?cs b)"
    then show "q < fs_fresh ?s" "fs_nodes ?s q \<noteq> None"
      using fs_invD(2,3) [OF inv, of q b] p le nodes by (auto split: if_splits)
  next
    fix b c :: nat assume "b \<noteq> c"
    then show "set (?cs b) \<inter> set (?cs c) = {}" using fs_invD(5) [OF inv] new by auto
  next
    fix b assume "fs_fresh ?s \<le> b"
    then show "?cs b = []" using fs_invD(8) [OF inv, of b] le a by auto
  qed (use lists' names fs_invD(4) [OF inv] new in auto)
  moreover have "on_list a (MultiList_pushBackNew (Some p)) s1 = (Inr (), ?s)" using l(1) by (simp add: on_list_def zoom_def)
  ultimately show ?thesis using list by (intro exI [of _ ?s] exI [of _ ?cs]) simp
qed

text \<open>A node of a list changes.\<close>

lemma update_node:
  assumes inv: "fs_inv s cs" and p: "p \<in> set (cs a)" and nodes: "fs_nodes s1 = (fs_nodes s)(p \<mapsto> n)" and fresh: "fs_fresh s \<le> fs_fresh s1"
    and lists: "\<And>b. fs_lists s1 b = fs_lists s b"
    and names: "distinct (map fst (listing s1 (cs a)))" "componentValid (fn_name n)"
  shows "fs_inv s1 cs" "b \<noteq> a \<Longrightarrow> listing s1 (cs b) = listing s (cs b)"
proof -
  have other: "listing s1 (cs b) = listing s (cs b)" if "b \<noteq> a" for b
    using fs_invD(5) [OF inv that [symmetric] p] nodes by (auto simp: listing_def)
  then show "b \<noteq> a \<Longrightarrow> listing s1 (cs b) = listing s (cs b)" .
  have "componentValid (fst x)" if "x \<in> set (listing s1 (cs a))" for x
    using that fs_invD(7) [OF inv, of _ a] names(2) nodes by (fastforce simp: listing_def split: if_splits)
  then have valid: "\<forall>x\<in>set (listing s1 (cs b)). componentValid (fst x)" for b using other fs_invD(7) [OF inv, of _ b] by (cases "b = a") auto
  have dist: "distinct (map fst (listing s1 (cs b)))" for b using other names(1) fs_invD(6) [OF inv, of b] by (cases "b = a") auto
  show "fs_inv s1 cs"
    unfolding fs_inv_def
  proof (intro conjI allI impI)
    fix b q assume "q \<in> set (cs b)"
    then show "q < fs_fresh s1" "fs_nodes s1 q \<noteq> None" using fs_invD(2,3) [OF inv, of q b] fresh nodes by auto
  next
    fix b assume "fs_fresh s1 \<le> b"
    then show "cs b = []" using fs_invD(8) [OF inv, of b] fresh by simp
  qed (use lists fs_invD(1,4,5) [OF inv] dist valid in auto)
qed

text \<open>An iterator on the element that points to a node.\<close>

definition points_at :: "file_system \<Rightarrow> nat \<Rightarrow> nat \<Rightarrow> nat \<Rightarrow> bool" where
  "points_at s a it p \<longleftrightarrow> (\<exists>us k vs. safe (fs_lists s a) (us @ (k, Some p) # vs) \<and> m_item (iterator_at (fs_lists s a) it) = Some k)"

lemma points_get: "points_at s a it p \<Longrightarrow> on_list a (iterator_get it) s = (Inr (Some p), s)"
  using iterator_get_runs safeD(1) by (fastforce simp: points_at_def on_list_def zoom_def fun_upd_idem)

lemma points_not_end: "points_at s a it p \<Longrightarrow> \<not> iterator_is_end (fs_lists s a) it"
  by (auto simp: points_at_def iterator_is_end_def)

lemma findIterator_inv:
  assumes "fs_inv s cs"
  shows "\<exists>s' it. findIterator a name s = (Inr it, s') \<and> similar s s' \<and> it = m_fresh (fs_lists s a) \<and>
    iterator_is_end (fs_lists s' a) it = (pointer s name (cs a) = None) \<and> (\<forall>p. pointer s name (cs a) = Some p \<longrightarrow> points_at s' a it p) \<and>
    (\<forall>b j. (b, j) \<noteq> (a, it) \<longrightarrow> iterator_at (fs_lists s' b) j = iterator_at (fs_lists s b) j)"
proof -
  let ?l = "fs_lists s a"
  obtain ys where ys: "safe ?l ys" "map snd ys = map Some (cs a)" using fs_invD(1) [OF assms] by blast
  let ?zs = "dropWhile (\<lambda>y. \<not> has_name s name y) ys"
  from findIterator_runs [OF ys(1) alive_cs [OF assms ys(2)], of name] obtain l where
    l: "findIterator a name s = (Inr (m_fresh ?l), with_list s a l)" "safe l ys" "iterator_at l = (iterator_at ?l)(m_fresh ?l := pos ?zs)" by blast
  have sim: "similar s (with_list s a l)" using represents_unique [OF safeD(1) safeD(1) [OF ys(1)]] l(2) by (intro similar_with_list) metis
  have found: "pointer s name (cs a) = (case ?zs of [] \<Rightarrow> None | y # _ \<Rightarrow> snd y)"
    using lookup_pointer [OF ys(2), of s name] by (simp add: lookup_name_def)
  have some: "snd y \<noteq> None" if "y \<in> set ys" for y using that alive_cs [OF assms ys(2)] by (auto simp: alive_def)
  have "pointer s name (cs a) = None \<longleftrightarrow> ?zs = []"
  proof (cases ?zs)
    case (Cons y zs)
    then have "y \<in> set ys" by (metis list.set_intros(1) set_dropWhileD)
    then show ?thesis using found Cons some by auto
  qed (use found in \<open>simp del: dropWhile_eq_Nil_conv\<close>)
  then have isEnd: "iterator_is_end l (m_fresh ?l) = (pointer s name (cs a) = None)" using l(3) by (simp add: iterator_is_end_def)
  have "points_at (with_list s a l) a (m_fresh ?l) p" if ptr: "pointer s name (cs a) = Some p" for p
  proof (cases ?zs)
    case (Cons y zs)
    then have "snd y = Some p" using ptr found by simp
    then have "ys = takeWhile (\<lambda>y. \<not> has_name s name y) ys @ (fst y, Some p) # zs" using Cons by (metis prod.collapse takeWhile_dropWhile_id)
    then have "safe l (takeWhile (\<lambda>y. \<not> has_name s name y) ys @ (fst y, Some p) # zs)" using l(2) by simp
    moreover have "m_item (iterator_at l (m_fresh ?l)) = Some (fst y)" using l(3) Cons by simp
    ultimately show ?thesis unfolding points_at_def by auto
  qed (use ptr found in \<open>simp del: dropWhile_eq_Nil_conv\<close>)
  then show ?thesis using l(1,3) sim isEnd by (intro exI [of _ "with_list s a l"] exI [of _ "m_fresh ?l"]) simp
qed

lemma listing_names: "map fst (listing s ps) = map (node_name s) ps"
  by (simp add: listing_def node_name_def)

lemma listing_filter: "filter (\<lambda>x. fst x \<noteq> name) (listing s ps) = listing s (filter (\<lambda>p. node_name s p \<noteq> name) ps)"
  by (simp add: listing_def filter_map comp_def node_name_def)

lemma listing_simps [simp]: "listing s [] = []" "listing s (p # ps) = (node_name s p, fn_content (the (fs_nodes s p))) # listing s ps"
  "listing s (ps @ qs) = listing s ps @ listing s qs"
  by (simp_all add: listing_def node_name_def)

lemma erase_at:
  assumes inv: "fs_inv s cs" and at: "points_at s a it p"
  shows "p \<in> set (cs a)"
    "\<exists>s'. eraseNode a it s = (Inr (), s') \<and> fs_inv s' (cs(a := remove1 p (cs a))) \<and> fs_nodes s' = (fs_nodes s)(p := None) \<and>
       fs_streams s' = fs_streams s \<and> fs_fresh s' = fs_fresh s \<and>
       (\<forall>b. listing s' ((cs(a := remove1 p (cs a))) b) = (if b = a then filter (\<lambda>x. fst x \<noteq> node_name s p) (listing s (cs a)) else listing s (cs b)))"
proof -
  obtain us k vs where yv: "safe (fs_lists s a) (us @ (k, Some p) # vs)" "m_item (iterator_at (fs_lists s a) it) = Some k"
    using at by (auto simp: points_at_def)
  obtain ys where "safe (fs_lists s a) ys" "map snd ys = map Some (cs a)" using fs_invD(1) [OF inv] by blast
  then have ys: "map snd (us @ (k, Some p) # vs) = map Some (cs a)" using represents_unique [OF safeD(1) safeD(1)] yv(1) by metis
  then obtain ps qs where cs: "cs a = ps @ p # qs" "map snd us = map Some ps" "map snd vs = map Some qs"
    by (auto simp: map_eq_append_conv append_eq_map_conv map_eq_Cons_conv Cons_eq_map_conv)
  then show "p \<in> set (cs a)" by simp
  have dist: "p \<notin> set ps" "p \<notin> set qs" using fs_invD(4) [OF inv, of a] cs(1) by auto
  have rem: "remove1 p (cs a) = ps @ qs" using cs(1) dist by (simp add: remove1_append)
  have "filter (\<lambda>x. m_item (iterator_at (fs_lists s a) it) \<noteq> Some (fst x)) (us @ (k, Some p) # vs) = us @ vs"
  proof -
    have "k \<notin> fst ` set us" "k \<notin> fst ` set vs" using safeD(3) [OF yv(1)] by auto
    then have "filter (\<lambda>x. k \<noteq> fst x) us = us" "filter (\<lambda>x. k \<noteq> fst x) vs = vs" by (auto simp: filter_id_conv rev_image_eqI)
    then show ?thesis using yv(2) by simp
  qed
  with safe_extract [OF yv(1), of it] obtain l d where l: "MultiList_extractElement it (fs_lists s a) = (Inr d, l)" "safe l (us @ vs)"
    by (auto simp: runs_def Let_def)
  have "d = Some p" using extractElement_runs [OF safeD(1) [OF yv(1)] yv(2)] l(1) by auto
  then have run: "eraseNode a it s = (Inr (), (with_list s a l)\<lparr>fs_nodes := (fs_nodes s)(p := None)\<rparr>)"
    using l(1) by (simp add: eraseNode_def MultiList_erase_def on_list_def zoom_def bind_def deleteNode_def)
  let ?s = "(with_list s a l)\<lparr>fs_nodes := (fs_nodes s)(p := None)\<rparr>" and ?cs = "cs(a := remove1 p (cs a))"
  have p: "p \<in> set (cs a)" using cs(1) by simp
  have gone: "p \<notin> set (?cs b)" for b using fs_invD(5) [OF inv _ p, of b] rem dist by auto
  have same: "listing ?s (?cs b) = listing s (?cs b)" for b using gone [of b] by (auto simp: listing_def)
  have name: "node_name s q \<noteq> node_name s p" if "q \<in> set (ps @ qs)" for q
  proof -
    have "node_name s p \<notin> node_name s ` set (ps @ qs)" using fs_invD(6) [OF inv, of a] cs(1) unfolding listing_names by simp
    then show ?thesis using that by (metis imageI)
  qed
  have "listing s (ps @ qs) = filter (\<lambda>x. fst x \<noteq> node_name s p) (listing s (cs a))"
  proof -
    have "filter (\<lambda>q. node_name s q \<noteq> node_name s p) (cs a) = ps @ qs" using name unfolding cs(1) by (simp add: filter_id_conv)
    then show ?thesis unfolding listing_filter by simp
  qed
  then have list: "listing ?s (?cs b) = (if b = a then filter (\<lambda>x. fst x \<noteq> node_name s p) (listing s (cs a)) else listing s (cs b))" for b
    using same [of b] rem by auto
  have names: "distinct (map fst (listing ?s (?cs b)))" "\<forall>x\<in>set (listing ?s (?cs b)). componentValid (fst x)" for b
    using fs_invD(6,7) [OF inv] unfolding list by (auto simp: distinct_map_filter)
  have "fs_inv ?s ?cs"
    unfolding fs_inv_def
  proof (intro conjI allI impI)
    fix b show "\<exists>zs. safe (fs_lists ?s b) zs \<and> map snd zs = map Some (?cs b)"
      using fs_invD(1) [OF inv, of b] l(2) cs(2,3) rem by (cases "b = a") auto
  next
    fix b q assume q: "q \<in> set (?cs b)"
    then have "q \<in> set (cs b)" "q \<noteq> p" using gone [of b] set_remove1_subset [of p "cs a"] by (auto split: if_splits)
    then show "q < fs_fresh ?s" "fs_nodes ?s q \<noteq> None" using fs_invD(2,3) [OF inv, of q b] by auto
  next
    fix b c :: nat assume "b \<noteq> c"
    moreover have "set (?cs d) \<subseteq> set (cs d)" for d using set_remove1_subset [of p "cs a"] by simp
    ultimately show "set (?cs b) \<inter> set (?cs c) = {}" using fs_invD(5) [OF inv, of b c] by blast
  next
    fix b assume "fs_fresh ?s \<le> b"
    then show "?cs b = []" using fs_invD(8) [OF inv, of b] by auto
  qed (use names fs_invD(4) [OF inv] in \<open>auto simp: distinct_remove1\<close>)
  then show "\<exists>s'. eraseNode a it s = (Inr (), s') \<and> fs_inv s' (cs(a := remove1 p (cs a))) \<and> fs_nodes s' = (fs_nodes s)(p := None) \<and>
       fs_streams s' = fs_streams s \<and> fs_fresh s' = fs_fresh s \<and>
       (\<forall>b. listing s' ((cs(a := remove1 p (cs a))) b) = (if b = a then filter (\<lambda>x. fst x \<noteq> node_name s p) (listing s (cs a)) else listing s (cs b)))"
    using run list by (intro exI [of _ ?s]) simp
qed

section \<open>The specification\<close>

text \<open>A directory is an association list; \<open>new\<close> is the address of a new object.\<close>

type_synonym dir_list = "(string \<times> file_ref) list"

definition spec_open :: "string \<Rightarrow> string \<Rightarrow> open_mode \<Rightarrow> nat \<Rightarrow> dir_list \<Rightarrow> (nat \<times> dir_list) result" where
  "spec_open name fullName mode new dir =
     (if \<not> componentValid name then Inl (FileProblemException name invalidFileName)
      else case map_of dir name of
        Some (DirectoryRef c) \<Rightarrow> Inl (FileProblemException fullName fileExists)
      | Some (FileRef c) \<Rightarrow>
          (if mode = CreateNew then Inl (FileProblemException fullName fileExists)
           else if mode = Create then Inr (new, AList.update name (FileRef new) dir)
           else Inr (c, dir))
      | None \<Rightarrow>
          (if mode = Create \<or> mode = CreateNew then Inr (new, AList.update name (FileRef new) dir)
           else Inl (FileProblemException fullName fileNotFound)))"

definition spec_erase :: "string \<Rightarrow> string \<Rightarrow> (nat \<Rightarrow> dir_list) \<Rightarrow> dir_list \<Rightarrow> dir_list result" where
  "spec_erase path name D dir =
     (case map_of dir name of
        None \<Rightarrow> Inl (FileProblemException path fileNotFound)
      | Some (FileRef c) \<Rightarrow> Inr (AList.delete name dir)
      | Some (DirectoryRef c) \<Rightarrow> if D c \<noteq> [] then Inl (FileProblemException path fileExists) else Inr (AList.delete name dir))"

definition rename_entry :: "string \<Rightarrow> string \<Rightarrow> dir_list \<Rightarrow> dir_list" where
  "rename_entry old new dir = map (\<lambda>(k, v). (if k = old then new else k, v)) dir"

definition spec_rename :: "string \<Rightarrow> string \<Rightarrow> string \<Rightarrow> dir_list \<Rightarrow> dir_list result" where
  "spec_rename path old new dir =
     (if \<not> componentValid new then Inl (FileProblemException new invalidFileName)
      else case map_of dir old of
        None \<Rightarrow> Inl (FileProblemException path fileNotFound)
      | Some r \<Rightarrow>
          if new = old then Inr dir
          else case (r, map_of dir new) of
            (_, None) \<Rightarrow> Inr (rename_entry old new dir)
          | (FileRef c, Some (FileRef c')) \<Rightarrow> Inr (rename_entry old new (AList.delete new dir))
          | _ \<Rightarrow> Inl (FileProblemException path fileExists))"

definition spec_create_directory :: "string \<Rightarrow> string \<Rightarrow> nat \<Rightarrow> dir_list \<Rightarrow> dir_list result" where
  "spec_create_directory path name new dir =
     (if map_of dir name \<noteq> None then Inl (FileProblemException path fileExists) else Inr (dir @ [(name, DirectoryRef new)]))"

definition implements :: "file_system \<Rightarrow> (nat \<Rightarrow> dir_list) \<Rightarrow> bool" where
  "implements s D \<longleftrightarrow> (\<exists>cs. fs_inv s cs \<and> D = (\<lambda>a. listing s (cs a)))"

text \<open>The content of all files that exist stays.\<close>

definition same_files :: "file_system \<Rightarrow> file_system \<Rightarrow> bool" where
  "same_files s s' \<longleftrightarrow> (\<forall>c < fs_fresh s. is_data (cn_stream (fs_streams s' c)) = is_data (cn_stream (fs_streams s c))) \<and> fs_fresh s \<le> fs_fresh s'"

lemma similar_implements: "similar s s' \<Longrightarrow> implements s D \<Longrightarrow> implements s' D"
  unfolding implements_def using fs_inv_similar similar_reads(1) by metis

lemma similar_files: "similar s s' \<Longrightarrow> same_files s s'"
  by (simp add: same_files_def similar_def)

section \<open>Opening files\<close>

lemma AList_update_new: "map_of dir k = None \<Longrightarrow> AList.update k v dir = dir @ [(k, v)]"
  by (induction dir) (auto split: if_splits)

lemma createChild_runs:
  "\<exists>s' ch. createChild c s = (Inr (c, ch), s') \<and> fs_nodes s' = fs_nodes s \<and> fs_lists s' = fs_lists s \<and> fs_fresh s' = Suc (fs_fresh s) \<and>
     (\<forall>b. is_data (cn_stream (fs_streams s' b)) = is_data (cn_stream (fs_streams s b)))"
  by (simp add: createChild_def allocate_def bind_def Child_init_def addChild_def)

lemma fs_inv_streams:
  assumes "fs_inv s cs" "fs_nodes s' = fs_nodes s" "fs_lists s' = fs_lists s" "fs_fresh s \<le> fs_fresh s'"
  shows "fs_inv s' cs" "listing s' ps = listing s ps"
proof -
  show list: "listing s' ps = listing s ps" for ps using assms(2) by (simp add: listing_def)
  show "fs_inv s' cs" using assms unfolding fs_inv_def list by (auto intro: order.strict_trans2)
qed

lemma finishOpen_runs:
  assumes "m s = (Inr c, s1)"
  shows "\<exists>s' ch. finishOpen m fullName s = (Inr (c, ch), s') \<and> fs_nodes s' = fs_nodes s1 \<and> fs_lists s' = fs_lists s1 \<and> fs_fresh s' = Suc (fs_fresh s1) \<and>
    (\<forall>b. is_data (cn_stream (fs_streams s' b)) = is_data (cn_stream (fs_streams s1 b)))"
proof -
  obtain s2 where s2: "setStreamName c fullName s1 = (Inr (), s2)" "fs_nodes s2 = fs_nodes s1" "fs_lists s2 = fs_lists s1" "fs_fresh s2 = fs_fresh s1"
      "\<forall>b. is_data (cn_stream (fs_streams s2 b)) = is_data (cn_stream (fs_streams s1 b))"
    by (simp add: setStreamName_def InternalStream_setName_def)
  then show ?thesis using createChild_runs [of c s2] assms by (auto simp: finishOpen_def bind_def)
qed

lemma addFile_runs:
  assumes "fs_inv s cs" "a < fs_fresh s" "componentValid name" "map_of (listing s (cs a)) name = None"
  shows "\<exists>s' cs'. addFile a name s = (Inr (fs_fresh s), s') \<and> fs_inv s' cs' \<and>
    (\<forall>b. listing s' (cs' b) = (if b = a then listing s (cs a) @ [(name, FileRef (fs_fresh s))] else listing s (cs b))) \<and>
    fs_fresh s' = fs_fresh s + 2 \<and> fs_streams s' = (fs_streams s)(fs_fresh s := ControlNode_init InternalStream_init)"
proof -
  let ?n = "\<lparr>fn_name = name, fn_content = FileRef (fs_fresh s)\<rparr>" and ?p = "Suc (fs_fresh s)"
  let ?s = "s\<lparr>fs_streams := (fs_streams s)(fs_fresh s := ControlNode_init InternalStream_init), fs_nodes := (fs_nodes s)(?p \<mapsto> ?n), fs_fresh := Suc ?p\<rparr>"
  have new: "newFileNode name s = (Inr ?p, ?s)" by (simp add: newFileNode_def newStream_def allocate_def writeFNode_def bind_def)
  from push_node [OF assms(1), of ?s ?p ?n a] assms(2-4) obtain s2 cs' where
    s2: "on_list a (MultiList_pushBackNew (Some ?p)) ?s = (Inr (), s2)" "fs_inv s2 cs'"
      "\<forall>b. listing s2 (cs' b) = (if b = a then listing s (cs a) @ [(name, FileRef (fs_fresh s))] else listing s (cs b))"
      "fs_nodes s2 = fs_nodes ?s" "fs_streams s2 = fs_streams ?s" "fs_fresh s2 = fs_fresh ?s" by auto
  have "addFile a name s = (Inr (fs_fresh s), s2)"
    using new s2(1,4) by (simp add: addFile_def bind_def asFile_def readFNode_def)
  then show ?thesis using s2 by (intro exI [of _ s2] exI [of _ cs']) simp
qed

lemma listing_update:
  assumes "distinct (map (node_name s) ps)" "p \<in> set ps" "fs_nodes s' = (fs_nodes s)(p \<mapsto> n)" "fn_name n = node_name s p"
  shows "listing s' ps = AList.update (node_name s p) (fn_content n) (listing s ps)"
  using assms(1,2)
proof (induction ps)
  case (Cons q ps)
  show ?case
  proof (cases "q = p")
    case True
    then have "p \<notin> set ps" using Cons.prems(1) by auto
    then have "listing s' ps = listing s ps" using assms(3) by (auto simp: listing_def)
    then show ?thesis using True assms(3,4) by (simp add: node_name_def)
  next
    case False
    then have p: "p \<in> set ps" using Cons.prems(2) by simp
    then have "node_name s q \<noteq> node_name s p" using Cons.prems(1) by (metis distinct.simps(2) image_eqI list.map(2) list.set_map)
    moreover have "listing s' ps = AList.update (node_name s p) (fn_content n) (listing s ps)" using Cons.IH Cons.prems(1) p by simp
    ultimately show ?thesis using False assms(3) by (simp add: node_name_def)
  qed
qed simp

lemma resetContent_runs:
  assumes "fs_inv s cs" "pointer s name (cs a) = Some p"
  shows "\<exists>s'. resetContent p s = (Inr (fs_fresh s), s') \<and> fs_inv s' cs \<and>
    (\<forall>b. listing s' (cs b) = (if b = a then AList.update name (FileRef (fs_fresh s)) (listing s (cs a)) else listing s (cs b))) \<and>
    fs_fresh s' = Suc (fs_fresh s) \<and> fs_streams s' = (fs_streams s)(fs_fresh s := ControlNode_init InternalStream_init)"
proof -
  note p = pointer_Some [OF assms(2)]
  obtain n where n: "fs_nodes s p = Some n" using fs_invD(3) [OF assms(1) p(1)] by blast
  let ?n = "n\<lparr>fn_content := FileRef (fs_fresh s)\<rparr>"
  let ?s = "s\<lparr>fs_streams := (fs_streams s)(fs_fresh s := ControlNode_init InternalStream_init), fs_nodes := (fs_nodes s)(p \<mapsto> ?n), fs_fresh := Suc (fs_fresh s)\<rparr>"
  have run: "resetContent p s = (Inr (fs_fresh s), ?s)"
    using n by (simp add: resetContent_def newStream_def allocate_def readFNode_def writeFNode_def bind_def)
  have dist: "distinct (map (node_name s) (cs a))" using fs_invD(6) [OF assms(1), of a] unfolding listing_names .
  have name: "node_name s p = name" "fn_name n = name" using p(2) n by (auto simp: node_name_def)
  have list: "listing ?s (cs a) = AList.update name (FileRef (fs_fresh s)) (listing s (cs a))"
    using listing_update [OF dist p(1), of ?s ?n] name n by simp
  have valid: "componentValid name" using fs_invD(7) [OF assms(1), of _ a] map_of_SomeD [OF p(3)] by fastforce
  have "distinct (map fst (listing ?s (cs a)))" using fs_invD(6) [OF assms(1), of a] unfolding list by (rule distinct_update)
  from update_node [OF assms(1) p(1), of ?s ?n, OF _ _ _ this] valid name show ?thesis using run list by (intro exI [of _ ?s]) simp
qed

lemma implementsI: "fs_inv s cs \<Longrightarrow> (\<And>b. listing s (cs b) = D b) \<Longrightarrow> implements s D"
  unfolding implements_def by (intro exI [of _ cs]) auto

text \<open>A handle to an existing file, and one to a new file.\<close>

lemma opened_refines:
  assumes "implements s D" "quiet s0 s"
  shows "\<exists>s' ch. createChild c s = (Inr (c, ch), s') \<and> implements s' D \<and> same_files s0 s'"
proof -
  from createChild_runs [of c s] obtain s' ch where
    s': "createChild c s = (Inr (c, ch), s')" "fs_nodes s' = fs_nodes s" "fs_lists s' = fs_lists s" "fs_fresh s' = Suc (fs_fresh s)"
      "\<forall>b. is_data (cn_stream (fs_streams s' b)) = is_data (cn_stream (fs_streams s b))" by blast
  obtain cs where cs: "fs_inv s cs" "D = (\<lambda>a. listing s (cs a))" using assms(1) by (auto simp: implements_def)
  from fs_inv_streams [OF cs(1) s'(2,3)] s'(4) have "fs_inv s' cs" "\<And>ps. listing s' ps = listing s ps" by auto
  then have "implements s' D" using cs(2) by (intro implementsI) auto
  then show ?thesis using s' quiet_reads(3,4) [OF assms(2)] by (auto simp: same_files_def)
qed

lemma created_refines:
  assumes "m s = (Inr (fs_fresh s), s1)" "implements s1 D'" "fs_fresh s \<le> fs_fresh s1"
    "fs_streams s1 = (fs_streams s)(fs_fresh s := ControlNode_init InternalStream_init)" "quiet s0 s"
  shows "\<exists>s' ch. finishOpen m fullName s = (Inr (fs_fresh s0, ch), s') \<and> implements s' D' \<and> same_files s0 s' \<and>
    is_data (cn_stream (fs_streams s' (fs_fresh s0))) = []"
proof -
  from finishOpen_runs [of m s, OF assms(1), of fullName] obtain s' ch where
    s': "finishOpen m fullName s = (Inr (fs_fresh s, ch), s')" "fs_nodes s' = fs_nodes s1" "fs_lists s' = fs_lists s1" "fs_fresh s' = Suc (fs_fresh s1)"
      "\<forall>b. is_data (cn_stream (fs_streams s' b)) = is_data (cn_stream (fs_streams s1 b))" by blast
  obtain cs where cs: "fs_inv s1 cs" "D' = (\<lambda>a. listing s1 (cs a))" using assms(2) by (auto simp: implements_def)
  from fs_inv_streams [OF cs(1) s'(2,3)] s'(4) have "fs_inv s' cs" "\<And>ps. listing s' ps = listing s1 ps" by auto
  then have "implements s' D'" using cs(2) by (intro implementsI) auto
  then show ?thesis using s' assms(3,4) quiet_reads(3,4) [OF assms(5)] by (auto simp: same_files_def ControlNode_init_def InternalStream_init_def)
qed

lemma open_refines:
  assumes "implements s D" "dir_content d < fs_fresh s"
  shows "case spec_open name fullName mode (fs_fresh s) (D (dir_content d)) of
      Inl e \<Rightarrow> \<exists>s'. Dir_open d name fullName mode s = (Inl e, s') \<and> implements s' D \<and> same_files s s'
    | Inr (c, dir) \<Rightarrow> \<exists>s' ch. Dir_open d name fullName mode s = (Inr (c, ch), s') \<and> implements s' (D(dir_content d := dir)) \<and> same_files s s' \<and>
        (dir \<noteq> D (dir_content d) \<longrightarrow> is_data (cn_stream (fs_streams s' c)) = [])"
proof (cases "componentValid name")
  case False
  then show ?thesis using assms by (simp add: spec_open_def Dir_open_def verifyFileNameComponent_def same_files_def)
next
  case True
  let ?a = "dir_content d" and ?new = "AList.update name (FileRef (fs_fresh s))"
  obtain cs where cs: "fs_inv s cs" "D = (\<lambda>a. listing s (cs a))" using assms(1) by (auto simp: implements_def)
  obtain s1 where s1: "findNode ?a name s = (Inr (pointer s name (cs ?a)), s1)" "quiet s s1" using findNode_inv [OF cs(1)] by blast
  note reads = quiet_reads [OF s1(2)]
  have sim: "similar s s1" using s1(2) similar_rules by blast
  have inv: "fs_inv s1 cs" using fs_inv_quiet [OF s1(2) cs(1)] .
  have imp: "implements s1 D" using similar_implements [OF sim assms(1)] .
  have isFile: "asFile (pointer s1 name (cs ?a)) s1 = (Inr (case map_of (D ?a) name of Some (FileRef c) \<Rightarrow> Some c | _ \<Rightarrow> None), s1)"
    using asFile_inv [OF inv refl, of name ?a] reads(1) cs(2) by simp
  have node: "pointer s1 name (cs ?a) = None \<longleftrightarrow> map_of (D ?a) name = None" using pointer_None [of s1 name] reads(1) cs(2) by simp
  have start: "Dir_open d name fullName mode s =
      Dir_openNode ?a name fullName mode (pointer s1 name (cs ?a)) (case map_of (D ?a) name of Some (FileRef c) \<Rightarrow> Some c | _ \<Rightarrow> None) s1"
    using True s1(1) isFile reads(2) by (simp add: Dir_open_def verifyFileNameComponent_def bind_def)
  show ?thesis
  proof (cases "map_of (D ?a) name")
    case None
    then have none: "map_of (listing s1 (cs ?a)) name = None" "?new (D ?a) = D ?a @ [(name, FileRef (fs_fresh s))]"
      using reads(1) cs(2) AList_update_new by simp_all
    from addFile_runs [OF inv _ True none(1)] assms(2) reads(3) obtain s2 cs2 where
      s2: "addFile ?a name s1 = (Inr (fs_fresh s1), s2)" "fs_inv s2 cs2" "fs_fresh s2 = fs_fresh s1 + 2"
        "\<forall>b. listing s2 (cs2 b) = (if b = ?a then listing s1 (cs ?a) @ [(name, FileRef (fs_fresh s1))] else listing s1 (cs b))"
        "fs_streams s2 = (fs_streams s1)(fs_fresh s1 := ControlNode_init InternalStream_init)" by auto
    have "implements s2 (D(?a := ?new (D ?a)))" using s2(2,4) reads cs(2) none(2) by (intro implementsI) auto
    from created_refines [where m = "addFile ?a name", OF s2(1) this _ s2(5) s1(2), of fullName] s2(3) show ?thesis
      using start None node True imp similar_files [OF sim] by (cases mode) (auto simp: spec_open_def Dir_openNode_def)
  next
    case (Some r)
    then obtain p where p: "pointer s1 name (cs ?a) = Some p" using node by auto
    from resetContent_runs [OF inv p] obtain s2 where
      s2: "resetContent p s1 = (Inr (fs_fresh s1), s2)" "fs_inv s2 cs" "fs_fresh s2 = Suc (fs_fresh s1)"
        "\<forall>b. listing s2 (cs b) = (if b = ?a then AList.update name (FileRef (fs_fresh s1)) (listing s1 (cs ?a)) else listing s1 (cs b))"
        "fs_streams s2 = (fs_streams s1)(fs_fresh s1 := ControlNode_init InternalStream_init)" by blast
    have "implements s2 (D(?a := ?new (D ?a)))" using s2(2,4) reads cs(2) by (intro implementsI) auto
    note created = created_refines [where m = "resetContent p", OF s2(1) this _ s2(5) s1(2), of fullName]
    have "D(?a := D ?a) = D" by simp
    then show ?thesis using created s2(3) start Some p True imp similar_files [OF sim] opened_refines [OF imp s1(2)]
      by (cases r; cases mode) (auto simp: spec_open_def Dir_openNode_def)
  qed
qed

section \<open>Erasing, creating and renaming\<close>

lemma delete_listing: "AList.delete name (listing s ps) = filter (\<lambda>x. fst x \<noteq> name) (listing s ps)"
  by (simp add: AList.delete_eq case_prod_unfold eq_commute)

lemma empty_listing:
  assumes "fs_inv s cs"
  shows "MultiList_empty (fs_lists s a) \<longleftrightarrow> listing s (cs a) = []"
proof -
  obtain ys where ys: "safe (fs_lists s a) ys" "map snd ys = map Some (cs a)" using fs_invD(1) [OF assms] by blast
  then have "ys = [] \<longleftrightarrow> cs a = []" by (metis map_is_Nil_conv)
  then show ?thesis using safe_first [OF ys(1)] by (cases ys) (auto simp: MultiList_empty_def listing_def)
qed

lemma scoped_implements:
  assumes "m s = (r, s')" "implements s' D" "same_files s0 s'"
  shows "\<exists>s''. scoped a it m s = (r, s'') \<and> implements s'' D \<and> same_files s0 s''"
proof -
  have "\<exists>ys. safe (fs_lists s' a) ys" using assms(2) fs_invD(1) unfolding implements_def by blast
  from scoped_similar [where m = m, OF assms(1) this, of it] obtain s'' where s'': "scoped a it m s = (r, s'')" "similar s' s''" by blast
  then show ?thesis using similar_implements [OF s''(2) assms(2)] assms(3) similar_reads(3,4) [OF s''(2)] by (auto simp: same_files_def)
qed

lemma erase_refines:
  assumes "implements s D"
  shows "case spec_erase (Entry_getPathName e) (snd e) D (D (dir_content (fst e))) of
      Inl x \<Rightarrow> \<exists>s'. Entry_doErase e s = (Inl x, s') \<and> implements s' D \<and> same_files s s'
    | Inr dir \<Rightarrow> \<exists>s'. Entry_doErase e s = (Inr (), s') \<and> implements s' (D(dir_content (fst e) := dir)) \<and> same_files s s'"
proof -
  let ?a = "dir_content (fst e)" and ?name = "snd e"
  obtain cs where cs: "fs_inv s cs" "D = (\<lambda>a. listing s (cs a))" using assms by (auto simp: implements_def)
  obtain s1 it where s1: "findIterator ?a ?name s = (Inr it, s1)" "similar s s1" "iterator_is_end (fs_lists s1 ?a) it = (pointer s ?name (cs ?a) = None)"
      "\<forall>p. pointer s ?name (cs ?a) = Some p \<longrightarrow> points_at s1 ?a it p" using findIterator_inv [OF cs(1)] by metis
  note reads = similar_reads [OF s1(2)]
  have inv: "fs_inv s1 cs" using fs_inv_similar [OF s1(2) cs(1)] .
  have imp: "implements s1 D" using similar_implements [OF s1(2) assms] .
  have start: "Entry_doErase e s = scoped ?a it (Entry_eraseFound e it) s1" using s1(1) by (simp add: Entry_doErase_def bind_def)
  have failed: "\<exists>s'. Entry_doErase e s = (Inl x, s') \<and> implements s' D \<and> same_files s s'" if "Entry_eraseFound e it s1 = (Inl x, s1)" for x
    unfolding start using scoped_implements [where m = "Entry_eraseFound e it", OF that imp similar_files [OF s1(2)]] .
  show ?thesis
  proof (cases "pointer s ?name (cs ?a)")
    case None
    then have "map_of (D ?a) ?name = None" using pointer_None cs(2) by simp
    then show ?thesis using None s1(3) failed by (simp add: spec_erase_def Entry_eraseFound_def Let_def entryProblem_def)
  next
    case (Some p)
    note p = pointer_Some [OF Some]
    have at: "points_at s1 ?a it p" using s1(4) Some by simp
    obtain s2 where s2: "eraseNode ?a it s1 = (Inr (), s2)" "fs_inv s2 (cs(?a := remove1 p (cs ?a)))" "fs_streams s2 = fs_streams s1" "fs_fresh s2 = fs_fresh s1"
        "\<forall>b. listing s2 ((cs(?a := remove1 p (cs ?a))) b) = (if b = ?a then filter (\<lambda>x. fst x \<noteq> node_name s1 p) (listing s1 (cs ?a)) else listing s1 (cs b))"
      using erase_at(2) [OF inv at] by blast
    have name: "node_name s1 p = ?name" using p(2) reads(5) by (simp add: node_name_def)
    have erased: "implements s2 (D(?a := AList.delete ?name (D ?a)))"
    proof (rule implementsI [OF s2(2)])
      fix b show "listing s2 ((cs(?a := remove1 p (cs ?a))) b) = (D(?a := AList.delete ?name (D ?a))) b"
        using s2(5) [rule_format, of b] name reads(1) cs(2) by (simp add: delete_listing)
    qed
    have files: "same_files s s2" using s2(3,4) reads(3,4) by (simp add: same_files_def)
    have ptr: "pointer s1 ?name (cs ?a) = Some p" using Some reads(2) by simp
    obtain r where r: "map_of (D ?a) ?name = Some r" using p(3) cs(2) by simp
    have casts: "asFile (Some p) s1 = (Inr (case r of FileRef c \<Rightarrow> Some c | _ \<Rightarrow> None), s1)"
        "asDirectory (Some p) s1 = (Inr (case r of DirectoryRef c \<Rightarrow> Some c | _ \<Rightarrow> None), s1)"
      using asFile_inv [OF inv ptr] asDirectory_inv [OF inv ptr] r reads(1) cs(2) by simp_all
    have "Entry_eraseFound e it s1 =
        (case r of FileRef c \<Rightarrow> (Inr (), s2) | DirectoryRef c \<Rightarrow> if D c \<noteq> [] then (Inl (FileProblemException (Entry_getPathName e) fileExists), s1) else (Inr (), s2))"
      using points_get [OF at] points_not_end [OF at] casts s2(1) empty_listing [OF inv] reads(1) cs(2)
      by (simp add: Entry_eraseFound_def Let_def bind_def entryProblem_def split: file_ref.splits)
    then show ?thesis using r failed scoped_implements [where m = "Entry_eraseFound e it" and s = s1, OF _ erased files] unfolding start
      by (auto simp: spec_erase_def split: file_ref.splits if_splits)
  qed
qed

lemma create_directory_refines:
  assumes "implements s D" "dir_content (fst e) < fs_fresh s" "componentValid (snd e)"
  shows "case spec_create_directory (Entry_getPathName e) (snd e) (fs_fresh s) (D (dir_content (fst e))) of
      Inl x \<Rightarrow> \<exists>s'. Entry_doCreateAsDirectory e s = (Inl x, s') \<and> implements s' D \<and> same_files s s'
    | Inr dir \<Rightarrow> \<exists>s'. Entry_doCreateAsDirectory e s = (Inr (), s') \<and> implements s' (D(dir_content (fst e) := dir)) \<and> same_files s s'"
proof -
  let ?a = "dir_content (fst e)" and ?name = "snd e"
  obtain cs where cs: "fs_inv s cs" "D = (\<lambda>a. listing s (cs a))" using assms(1) by (auto simp: implements_def)
  obtain s1 where s1: "findNode ?a ?name s = (Inr (pointer s ?name (cs ?a)), s1)" "quiet s s1" using findNode_inv [OF cs(1)] by blast
  note reads = quiet_reads [OF s1(2)]
  have sim: "similar s s1" using s1(2) similar_rules by blast
  show ?thesis
  proof (cases "map_of (D ?a) ?name")
    case (Some r)
    then have "pointer s ?name (cs ?a) \<noteq> None" using pointer_None cs(2) by auto
    then show ?thesis using Some s1(1) similar_implements [OF sim assms(1)] similar_files [OF sim]
      by (auto simp: spec_create_directory_def Entry_doCreateAsDirectory_def Let_def bind_def entryProblem_def)
  next
    case None
    let ?c = "fs_fresh s1" let ?p = "Suc ?c" let ?n = "\<lparr>fn_name = ?name, fn_content = DirectoryRef ?c\<rparr>"
    let ?s = "s1\<lparr>fs_lists := (fs_lists s1)(?c := MultiList_init), fs_nodes := (fs_nodes s1)(?p \<mapsto> ?n), fs_fresh := Suc ?p\<rparr>"
    have new: "newDirectoryNode ?name s1 = (Inr ?p, ?s)" by (simp add: newDirectoryNode_def allocate_def writeFNode_def bind_def)
    have none: "map_of (listing s1 (cs ?a)) ?name = None" "pointer s ?name (cs ?a) = None" using None pointer_None reads(1) cs(2) by simp_all
    have lists: "\<forall>b. fs_lists ?s b = fs_lists s1 b \<or> fs_fresh s1 \<le> b \<and> fs_lists ?s b = MultiList_init" by simp
    have a: "?a < fs_fresh s1" using assms(2) reads(3) by simp
    have name: "componentValid (fn_name ?n)" "map_of (listing s1 (cs ?a)) (fn_name ?n) = None" using assms(3) none(1) by simp_all
    have addr: "fs_nodes ?s = (fs_nodes s1)(?p \<mapsto> ?n)" "fs_fresh s1 \<le> ?p" "?p < fs_fresh ?s" by simp_all
    from push_node [OF fs_inv_quiet [OF s1(2) cs(1)] addr a lists name] obtain s2 cs2 where
      s2: "on_list ?a (MultiList_pushBackNew (Some ?p)) ?s = (Inr (), s2)" "fs_inv s2 cs2"
        "\<forall>b. listing s2 (cs2 b) = (if b = ?a then listing s1 (cs ?a) @ [(?name, DirectoryRef ?c)] else listing s1 (cs b))"
        "fs_streams s2 = fs_streams ?s" "fs_fresh s2 = fs_fresh ?s" by (elim exE conjE) simp
    have "Entry_doCreateAsDirectory e s = (Inr (), s2)"
      using s1(1) none(2) new s2(1) by (simp add: Entry_doCreateAsDirectory_def Let_def bind_def)
    moreover have "implements s2 (D(?a := D ?a @ [(?name, DirectoryRef (fs_fresh s))]))" using s2(2,3) reads(1,3) cs(2) by (intro implementsI) auto
    moreover have "same_files s s2" using s2(4,5) reads(3,4) by (simp add: same_files_def)
    ultimately show ?thesis using None by (simp add: spec_create_directory_def)
  qed
qed

lemma rename_entry_names: "map fst (rename_entry old new dir) = map (\<lambda>k. if k = old then new else k) (map fst dir)"
  by (simp add: rename_entry_def case_prod_unfold)

lemma rename_entry_distinct:
  assumes "distinct (map fst dir)" "new \<notin> fst ` set dir"
  shows "distinct (map fst (rename_entry old new dir))"
proof -
  have "inj_on (\<lambda>k. if k = old then new else k) (set (map fst dir))" using assms(2) by (auto simp: inj_on_def)
  then show ?thesis unfolding rename_entry_names distinct_map [of _ "map fst dir"] using assms(1) by blast
qed

lemma renameNode_runs:
  assumes "fs_inv s cs" "p \<in> set (cs a)" "componentValid new" "map_of (listing s (cs a)) new = None"
  shows "\<exists>s'. renameNode p new s = (Inr (), s') \<and>
    implements s' ((\<lambda>b. listing s (cs b))(a := rename_entry (node_name s p) new (listing s (cs a)))) \<and> fs_streams s' = fs_streams s \<and> fs_fresh s' = fs_fresh s"
proof -
  obtain n where n: "fs_nodes s p = Some n" using fs_invD(3) [OF assms(1,2)] by blast
  let ?s = "s\<lparr>fs_nodes := (fs_nodes s)(p \<mapsto> n\<lparr>fn_name := new\<rparr>)\<rparr>"
  have run: "renameNode p new s = (Inr (), ?s)" using n by (simp add: renameNode_def readFNode_def writeFNode_def bind_def)
  have dist: "distinct (map (node_name s) (cs a))" using fs_invD(6) [OF assms(1), of a] unfolding listing_names .
  have "node_name s q = node_name s p \<longleftrightarrow> q = p" if "q \<in> set (cs a)" for q
    using dist assms(2) that by (auto simp: distinct_map inj_on_def)
  then have list: "listing ?s (cs a) = rename_entry (node_name s p) new (listing s (cs a))"
    using n by (auto simp: listing_def rename_entry_def node_name_def)
  have "new \<notin> fst ` set (listing s (cs a))" using assms(4) by (simp add: map_of_eq_None_iff)
  then have "distinct (map fst (listing ?s (cs a)))" using list rename_entry_distinct [OF fs_invD(6) [OF assms(1), of a]] by simp
  from update_node [OF assms(1,2), of ?s "n\<lparr>fn_name := new\<rparr>", OF _ _ _ this] assms(3)
  have "fs_inv ?s cs" "\<And>b. b \<noteq> a \<Longrightarrow> listing ?s (cs b) = listing s (cs b)" by simp_all
  then have "implements ?s ((\<lambda>b. listing s (cs b))(a := rename_entry (node_name s p) new (listing s (cs a))))" using list by (intro implementsI) auto
  then show ?thesis using run by (intro exI [of _ ?s]) simp
qed

text \<open>The part of the renaming of a file after the new name has been looked for.\<close>

lemma renameFile_runs:
  assumes inv: "fs_inv s cs" and old: "pointer s (snd e) (cs (dir_content (fst e))) = Some p" and new: "new \<noteq> snd e" "componentValid new"
    and it: "iterator_is_end (fs_lists s (dir_content (fst e))) it = (pointer s new (cs (dir_content (fst e))) = None)"
      "\<forall>q. pointer s new (cs (dir_content (fst e))) = Some q \<longrightarrow> points_at s (dir_content (fst e)) it q"
  shows "\<exists>r s'. Entry_renameFile e p new it s = (r, s') \<and> same_files s s' \<and>
    (let D = (\<lambda>b. listing s (cs b)); dir = D (dir_content (fst e)) in
     case map_of dir new of
       None \<Rightarrow> r = Inr () \<and> implements s' (D(dir_content (fst e) := rename_entry (snd e) new dir))
     | Some (FileRef c) \<Rightarrow> r = Inr () \<and> implements s' (D(dir_content (fst e) := rename_entry (snd e) new (AList.delete new dir)))
     | Some (DirectoryRef c) \<Rightarrow> r = Inl (FileProblemException (Entry_getPathName e) fileExists) \<and> s' = s)"
proof -
  let ?a = "dir_content (fst e)" let ?D = "\<lambda>b. listing s (cs b)"
  note p = pointer_Some [OF old]
  show ?thesis
  proof (cases "pointer s new (cs ?a)")
    case None
    then have none: "map_of (?D ?a) new = None" using pointer_None by blast
    from renameNode_runs [OF inv p(1) new(2) none] obtain s' where
      s': "renameNode p new s = (Inr (), s')" "implements s' (?D(?a := rename_entry (snd e) new (?D ?a)))" "fs_streams s' = fs_streams s" "fs_fresh s' = fs_fresh s"
      unfolding p(2) by blast
    then have "Entry_renameFile e p new it s = (Inr (), s')" using it(1) None by (simp add: Entry_renameFile_def Let_def bind_def)
    then show ?thesis using s' none by (auto simp: same_files_def)
  next
    case (Some q)
    note q = pointer_Some [OF Some]
    have at: "points_at s ?a it q" using it(2) Some by blast
    have ne: "q \<noteq> p" using p(2) q(2) new(1) by auto
    obtain r where r: "map_of (?D ?a) new = Some r" using q(3) by blast
    have cast: "asFile (Some q) s = (Inr (case r of FileRef c \<Rightarrow> Some c | _ \<Rightarrow> None), s)" using asFile_inv [OF inv Some] r by simp
    let ?cs = "cs(?a := remove1 q (cs ?a))"
    obtain s1 where s1: "eraseNode ?a it s = (Inr (), s1)" "fs_inv s1 ?cs" "fs_nodes s1 = (fs_nodes s)(q := None)" "fs_streams s1 = fs_streams s" "fs_fresh s1 = fs_fresh s"
        "\<forall>b. listing s1 (?cs b) = (if b = ?a then filter (\<lambda>x. fst x \<noteq> node_name s q) (?D ?a) else ?D b)"
      using erase_at(2) [OF inv at] by blast
    have list: "listing s1 (?cs b) = (?D(?a := AList.delete new (?D ?a))) b" for b
      using s1(6) [rule_format, of b] q(2) by (simp add: delete_listing)
    have p': "p \<in> set (?cs ?a)" using p(1) ne by simp
    have name: "node_name s1 p = snd e" using p(2) s1(3) ne by (simp add: node_name_def)
    have "map_of (listing s1 (?cs ?a)) new = None" unfolding list by (simp add: delete_conv')
    from renameNode_runs [OF s1(2) p' new(2) this] obtain s' where
      s': "renameNode p new s1 = (Inr (), s')" "implements s' ((\<lambda>b. listing s1 (?cs b))(?a := rename_entry (snd e) new (listing s1 (?cs ?a))))"
        "fs_streams s' = fs_streams s1" "fs_fresh s' = fs_fresh s1" unfolding name by blast
    have "(\<lambda>b. listing s1 (?cs b))(?a := rename_entry (snd e) new (listing s1 (?cs ?a))) = ?D(?a := rename_entry (snd e) new (AList.delete new (?D ?a)))"
      unfolding list by (simp add: fun_eq_iff)
    then have imp: "implements s' (?D(?a := rename_entry (snd e) new (AList.delete new (?D ?a))))" using s'(2) by simp
    have "Entry_renameFile e p new it s =
        (case r of FileRef c \<Rightarrow> (Inr (), s') | DirectoryRef c \<Rightarrow> (Inl (FileProblemException (Entry_getPathName e) fileExists), s))"
      using points_get [OF at] points_not_end [OF at] cast ne s1(1) s'(1)
      by (simp add: Entry_renameFile_def Let_def bind_def entryProblem_def split: file_ref.splits)
    then show ?thesis using r imp s'(3,4) s1(4,5) by (cases r) (auto simp: same_files_def)
  qed
qed

lemma rename_refines:
  assumes "implements s D"
  shows "case spec_rename (Entry_getPathName e) (snd e) new (D (dir_content (fst e))) of
      Inl x \<Rightarrow> \<exists>s'. Entry_doRename e new s = (Inl x, s') \<and> implements s' D \<and> same_files s s'
    | Inr dir \<Rightarrow> \<exists>s'. Entry_doRename e new s = (Inr (), s') \<and> implements s' (D(dir_content (fst e) := dir)) \<and> same_files s s'"
proof (cases "componentValid new")
  case False
  then show ?thesis using assms by (simp add: spec_rename_def Entry_doRename_def verifyFileNameComponent_def Let_def same_files_def)
next
  case True
  let ?a = "dir_content (fst e)" and ?path = "Entry_getPathName e"
  obtain cs where cs: "fs_inv s cs" "D = (\<lambda>a. listing s (cs a))" using assms by (auto simp: implements_def)
  obtain s1 where s1: "findNode ?a (snd e) s = (Inr (pointer s (snd e) (cs ?a)), s1)" "quiet s s1" using findNode_inv [OF cs(1)] by blast
  note reads = quiet_reads [OF s1(2)]
  have sim1: "similar s s1" using s1(2) similar_rules by blast
  have inv1: "fs_inv s1 cs" using fs_inv_quiet [OF s1(2) cs(1)] .
  have imp1: "implements s1 D" using similar_implements [OF sim1 assms] .
  have keep: "D(?a := D ?a) = D" by simp
  show ?thesis
  proof (cases "pointer s (snd e) (cs ?a)")
    case None
    then have "map_of (D ?a) (snd e) = None" using pointer_None cs(2) by simp
    then show ?thesis using None True s1(1) imp1 similar_files [OF sim1]
      by (auto simp: spec_rename_def Entry_doRename_def verifyFileNameComponent_def Let_def bind_def entryProblem_def)
  next
    case (Some p)
    note p = pointer_Some [OF Some]
    obtain r where r: "map_of (D ?a) (snd e) = Some r" using p(3) cs(2) by simp
    have ptr: "pointer s1 (snd e) (cs ?a) = Some p" using Some reads(2) by simp
    have casts: "asFile (Some p) s1 = (Inr (case r of FileRef c \<Rightarrow> Some c | _ \<Rightarrow> None), s1)"
        "asDirectory (Some p) s1 = (Inr (case r of DirectoryRef c \<Rightarrow> Some c | _ \<Rightarrow> None), s1)"
      using asFile_inv [OF inv1 ptr] asDirectory_inv [OF inv1 ptr] r reads(1) cs(2) by simp_all
    show ?thesis
    proof (cases "new = snd e")
      case same: True
      then show ?thesis using Some True s1(1) r imp1 similar_files [OF sim1] keep
        by (auto simp: spec_rename_def Entry_doRename_def verifyFileNameComponent_def Let_def bind_def)
    next
      case new: False
      show ?thesis
      proof (cases r)
        case (FileRef c)
        obtain s2 it where s2: "findIterator ?a new s1 = (Inr it, s2)" "similar s1 s2" "iterator_is_end (fs_lists s2 ?a) it = (pointer s1 new (cs ?a) = None)"
            "\<forall>p. pointer s1 new (cs ?a) = Some p \<longrightarrow> points_at s2 ?a it p" using findIterator_inv [OF inv1] by metis
        note reads2 = similar_reads [OF s2(2)]
        have run: "Entry_doRename e new s = scoped ?a it (Entry_renameFile e p new it) s2"
          using True Some new s1(1) casts(1) s2(1) FileRef by (simp add: Entry_doRename_def verifyFileNameComponent_def Let_def bind_def)
        have imp2: "implements s2 D" using similar_implements [OF s2(2) imp1] .
        have ptr2: "pointer s2 (snd e) (cs ?a) = Some p" using ptr reads2(2) by simp
        have it: "iterator_is_end (fs_lists s2 ?a) it = (pointer s2 new (cs ?a) = None)" "\<forall>q. pointer s2 new (cs ?a) = Some q \<longrightarrow> points_at s2 ?a it q"
          using s2(3,4) reads2(2) by simp_all
        have D: "(\<lambda>b. listing s2 (cs b)) = D" using reads2(1) reads(1) cs(2) by simp
        from renameFile_runs [OF fs_inv_similar [OF s2(2) inv1] ptr2 new True it] obtain q s3 where
          s3: "Entry_renameFile e p new it s2 = (q, s3)" "same_files s2 s3"
            "case map_of (D ?a) new of
               None \<Rightarrow> q = Inr () \<and> implements s3 (D(?a := rename_entry (snd e) new (D ?a)))
             | Some (FileRef c) \<Rightarrow> q = Inr () \<and> implements s3 (D(?a := rename_entry (snd e) new (AList.delete new (D ?a))))
             | Some (DirectoryRef c) \<Rightarrow> q = Inl (FileProblemException ?path fileExists) \<and> s3 = s2"
          unfolding D Let_def by blast
        have files: "same_files s s3" using s3(2) reads2(3,4) reads(3,4) by (simp add: same_files_def)
        show ?thesis using s3(3) r FileRef new True imp2 scoped_implements [where m = "Entry_renameFile e p new it", OF s3(1) _ files, of _ ?a it]
          unfolding run by (auto simp: spec_rename_def split: option.splits file_ref.splits)
      next
        case (DirectoryRef c)
        obtain s2 where s2: "findNode ?a new s1 = (Inr (pointer s1 new (cs ?a)), s2)" "quiet s1 s2" using findNode_inv [OF inv1] by blast
        note reads2 = quiet_reads [OF s2(2)]
        have inv2: "fs_inv s2 cs" using fs_inv_quiet [OF s2(2) inv1] .
        have sim2: "similar s s2" using sim1 s2(2) similar_rules by blast
        have D: "(\<lambda>b. listing s2 (cs b)) = D" using reads2(1) reads(1) cs(2) by simp
        have run: "Entry_doRename e new s = (if pointer s1 new (cs ?a) \<noteq> None then entryProblem e fileExists else renameNode p new) s2"
          using True Some new s1(1) casts s2(1) DirectoryRef by (simp add: Entry_doRename_def verifyFileNameComponent_def Let_def bind_def)
        show ?thesis
        proof (cases "map_of (D ?a) new")
          case none: None
          then have none': "map_of (listing s2 (cs ?a)) new = None" "pointer s1 new (cs ?a) = None"
            using pointer_None reads2(1) reads(1) cs(2) by simp_all
          have name: "node_name s2 p = snd e" using pointer_Some(2) [of s2 "snd e" "cs ?a" p] ptr reads2(2) by simp
          from renameNode_runs [OF inv2 p(1) True none'(1)] obtain s3 where
            s3: "renameNode p new s2 = (Inr (), s3)" "implements s3 (D(?a := rename_entry (snd e) new (D ?a)))" "fs_streams s3 = fs_streams s2" "fs_fresh s3 = fs_fresh s2"
            unfolding name D by (metis D)
          then show ?thesis using run none none'(2) r DirectoryRef new True reads2(3,4) reads(3,4) by (auto simp: spec_rename_def same_files_def)
        next
          case some: (Some r')
          then have "pointer s1 new (cs ?a) \<noteq> None" using pointer_None [of s1] reads(1) cs(2) by auto
          then show ?thesis using run some r DirectoryRef new True similar_implements [OF sim2 assms] similar_files [OF sim2]
            by (auto simp: spec_rename_def entryProblem_def)
        qed
      qed
    qed
  qed
qed

section \<open>Operations on entries\<close>

text \<open>The operations of an entry of a directory, and what each does to the association list of the directory.\<close>

datatype entry_op = OpOpen open_mode | OpErase | OpRename string | OpCreateDirectory

fun entry_run :: "entry \<Rightarrow> entry_op \<Rightarrow> nat option fs_action" where
  "entry_run e (OpOpen mode) = bind (Entry_openFile e mode) (\<lambda>(c, ch). ret (Some c))"
| "entry_run e OpErase = bind (Entry_doErase e) (\<lambda>_. ret None)"
| "entry_run e (OpRename name) = bind (Entry_doRename e name) (\<lambda>_. ret None)"
| "entry_run e OpCreateDirectory = bind (Entry_doCreateAsDirectory e) (\<lambda>_. ret None)"

fun entry_spec :: "string \<Rightarrow> string \<Rightarrow> entry_op \<Rightarrow> nat \<Rightarrow> (nat \<Rightarrow> dir_list) \<Rightarrow> dir_list \<Rightarrow> (nat option \<times> dir_list) result" where
  "entry_spec path name (OpOpen mode) new D dir = map_sum id (\<lambda>(c, dir). (Some c, dir)) (spec_open name path mode new dir)"
| "entry_spec path name OpErase new D dir = map_sum id (Pair None) (spec_erase path name D dir)"
| "entry_spec path name (OpRename name') new D dir = map_sum id (Pair None) (spec_rename path name name' dir)"
| "entry_spec path name OpCreateDirectory new D dir = map_sum id (Pair None) (spec_create_directory path name new dir)"

text \<open>
  C13: every operation on an entry of the file system in memory - opening in any mode, erasing, renaming, creating a
  directory - does to its directory exactly what the specification on association lists says, with the same result or
  the same exception; when it throws, no directory changes. No operation changes the content of a file that exists,
  and a file that is created is empty.
\<close>

theorem filesystem_refines:
  assumes "implements s D" "dir_content (fst e) < fs_fresh s" "componentValid (snd e)"
  shows "\<exists>r s'. entry_run e op s = (r, s') \<and> same_files s s' \<and>
    (case entry_spec (Entry_getPathName e) (snd e) op (fs_fresh s) D (D (dir_content (fst e))) of
       Inl x \<Rightarrow> r = Inl x \<and> implements s' D
     | Inr (c, dir) \<Rightarrow> r = Inr c \<and> implements s' (D(dir_content (fst e) := dir)) \<and>
         (\<forall>n. c = Some n \<and> dir \<noteq> D (dir_content (fst e)) \<longrightarrow> is_data (cn_stream (fs_streams s' n)) = []))"
proof (cases op)
  case (OpOpen mode)
  show ?thesis using open_refines [OF assms(1,2), of "snd e" "Entry_getPathName e" mode] OpOpen
    by (fastforce simp: Entry_openFile_def bind_def split: sum.splits)
next
  case OpErase
  show ?thesis using erase_refines [OF assms(1), of e] OpErase by (auto simp: bind_def split: sum.splits)
next
  case (OpRename name)
  show ?thesis using rename_refines [OF assms(1), of e name] OpRename by (auto simp: bind_def split: sum.splits)
next
  case OpCreateDirectory
  show ?thesis using create_directory_refines [OF assms] OpCreateDirectory by (auto simp: bind_def split: sum.splits)
qed

theorem filesystem_refines_witness:
  "\<exists>s. entry_run (Dir ''/'' 0 None, ''f'') (OpOpen Create) InternalFileSystem_init = (Inr (Some 1), s) \<and>
     implements s ((\<lambda>_. [])(0 := [(''f'', FileRef 1)])) \<and> is_data (cn_stream (fs_streams s 1)) = []"
proof -
  have "implements InternalFileSystem_init (\<lambda>_. [])" using fs_inv_init by (intro implementsI) auto
  moreover have "dir_content (fst (Dir ''/'' 0 None, ''f'')) < fs_fresh InternalFileSystem_init" "componentValid (snd (Dir ''/'' 0 None, ''f''))"
    by (simp_all add: InternalFileSystem_init_def componentValid_def isDot_def)
  ultimately show ?thesis using filesystem_refines [of InternalFileSystem_init "\<lambda>_. []" "(Dir ''/'' 0 None, ''f'')" "OpOpen Create"]
    by (auto simp: InternalFileSystem_init_def spec_open_def componentValid_def isDot_def)
qed

end
