(* ===== verification/Spec2Isabelle.thy ===== *)
theory Spec2Isabelle
  imports Afl_Redis_Client Afl_Resp Afl_Json Afl_Header Afl_Checksum Afl_Stream_Children Afl_Hash Afl_Async_Laws Afl_Wakeup Afl_Xml_Roundtrip Afl_MultiList_Laws Afl_FileNames Afl_FileSystem_Laws
begin

text \<open>
  A verification library for afl, a C++ library of basic services: strings, number formats, data
  models, character sets, streams, file formats, network protocols and a database in memory. The
  sources are under \<open>src/afl\<close>. The development models the parts of the library that compute; what
  only talks to the operating system is left out.

  \<^bold>\<open>Conventions.\<close>
  An octet is a HOL \<open>char\<close>; \<open>String_t\<close>, \<open>ConstBytes_t\<close> and \<open>GrowableBytes_t\<close> are lists of
  octets, and strings are ordered by unsigned octets. \<open>size_t\<close>, \<open>long\<close> and \<open>FileSize_t\<close> have 64
  bits. Sizes are \<open>nat\<close> with the wrap-around written out where the code can reach it; \<open>int32_t\<close> is
  \<open>int\<close>, and an execution with signed overflow ends with the exception \<open>Undefined\<close>; checksums are
  machine words. \<open>npos\<close>, \<open>nil\<close> indexes and null pointers are \<open>None\<close>. A method that throws gives
  \<open>Inl\<close> of an exception; a method that changes its object is an action, a function that also gives the
  new state, with what was changed before a throw (\<open>Afl_Prelude\<close>). A \<open>HeaderConsumer\<close> is the list of
  the pairs it was called with. Floating-point numbers are an abstract type with their operations as
  parameters. A mutex makes a method atomic; ownership and sharing through reference counts are not
  visible in values and not modelled.

  \<^bold>\<open>Parts and theories.\<close>

  \<^item> \<open>Afl_Prelude\<close>: exceptions, results, actions and what they keep, fixed-width integers,
    \<open>std::map\<close> and \<open>std::set\<close> as sorted lists.
  \<^item> \<open>Afl_String\<close> (\<open>string/char.hpp\<close>, \<open>string.cpp\<close>, \<open>hex.cpp\<close>): character classes, comparison,
    trimming, splitting, words. \<open>Afl_Parse\<close> (\<open>string/parse.cpp\<close>): all integer parsers, and that the
    replacements for \<open>strtoll\<close> agree with the C library. \<open>Afl_Format\<close> (\<open>string/format.cpp\<close>,
    \<open>formatstate.cpp\<close>, \<open>formattraits.cpp\<close>): the interpreter of format strings for strings and
    integers, and that a formatted number is parsed to the same number.
  \<^item> \<open>Afl_Data\<close> (\<open>data/\<close>): values, segments, views, name maps with their hash chains, hashes, access.
  \<^item> \<open>Afl_Redis\<close> (\<open>net/redis/internaldatabase.cpp\<close>): the database in memory, one definition per
    command, the dispatcher and the wrapping of errors. \<open>Afl_Redis_Inv\<close>: its invariant and that every
    command, failing ones included, keeps it and changes only the keys it names. \<open>Afl_Redis_Laws\<close>:
    what the commands do. \<open>Afl_Redis_Client\<close> (the other files of \<open>net/redis\<close>): the classes that build
    commands for a handler, and that they refine counters, deques and subtrees on the database.
  \<^item> \<open>Afl_Resp\<close> (\<open>io/resp/\<close>): the incremental parser and the writer of the RESP protocol; the parser
    loops have fuel, \<open>fuel_for\<close>, one step for each octet and each state on the stack, which is proved
    to be enough. \<open>Afl_Json\<close> (\<open>io/json/\<close>): parser and writer; the fuel of the parser is twice the
    number of octets plus two, which is proved to be enough.
  \<^item> \<open>Afl_Xml\<close> (\<open>io/xml/\<close>): nodes, writer, the tokenizers on streams and on trees, and the parser. The
    loops have fuel; \<open>Afl_Xml_Laws\<close> shows that three rounds for each octet are enough, and what the
    parser builds; \<open>Afl_Xml_Roundtrip\<close> proves the parser correct for every source of tokens, and that the
    written text is such a source, so that what is written is read back.
  \<^item> \<open>Afl_Charset\<close> (\<open>charset/utf8.cpp\<close>, \<open>utf8reader.cpp\<close>, \<open>unicode.hpp\<close>): UTF-8 with all its flags.
    \<open>Afl_Encoding\<close> (the other character sets and transport encodings of \<open>charset/\<close>): the contract of
    a lossless encoding as a locale, with the encodings of the library as its instances, and code pages.
  \<^item> \<open>Afl_Net\<close> (\<open>net/name.cpp\<close>, \<open>url.cpp\<close>, \<open>parameterencoder.cpp\<close>, \<open>http/formparser.cpp\<close>) and
    \<open>Afl_Header\<close> (\<open>net/headerparser.cpp\<close>, \<open>headertable.cpp\<close>, \<open>headerfield.cpp\<close>): names, URLs,
    parameters, forms and message headers, with the incremental parsers.
  \<^item> \<open>Afl_Checksum\<close> (\<open>checksums/\<close>): byte sum, Adler-32 and cyclic redundancy checks on machine words.
  \<^item> \<open>Afl_Memory\<close> (\<open>base/memory.hpp\<close>, \<open>growablememory.hpp\<close>): memory descriptors over an explicit
    store, and growable memory with allocation as a parameter.
  \<^item> \<open>Afl_MultiList\<close> (\<open>container/ptrmultilistbase.cpp\<close>, \<open>ptrmultilist.hpp\<close>): lists with several iterators,
    with their nodes in a heap. \<open>Afl_MultiList_Laws\<close>: the pointers represent a list, no dangling pointer is
    followed, every operation keeps its contract on the elements and the iterators, and sorting sorts; the loops
    have fuel, one round more than there are elements is enough. All this is for lists without \<open>pushFrontNew\<close>,
    which breaks the pointers (\<open>pushFront_loses_elements\<close>, \<open>sort_loses_pushed\<close>).
  \<^item> \<open>Afl_FileNames\<close> (\<open>string/posixfilenames.cpp\<close>, \<open>win32filenames.cpp\<close>): joining, splitting and
    canonical names, and that a canonical name stands for the same place.
  \<^item> \<open>Afl_FileSystem\<close> (\<open>io/internalfilesystem.cpp\<close>, \<open>directory.cpp\<close>, \<open>directoryentry.cpp\<close>,
    \<open>filesystem.cpp\<close>): the file system in memory on multi-lists of nodes; loops over a list have as many
    rounds as its heap has addresses, which is proved to be enough. \<open>Afl_FileSystem_Laws\<close>: its operations
    refine association lists from names to files and directories.
  \<^item> \<open>Afl_Bits\<close> (\<open>bits/\<close>): bit operations, small sets, and the descriptors of packed integers with
    their contract as a locale.
  \<^item> \<open>Afl_Digest\<close> (\<open>checksums/md5.cpp\<close>, \<open>sha1.cpp\<close>, \<open>sha2core.hpp\<close>, \<open>sha224.cpp\<close> to \<open>sha512.cpp\<close>,
    \<open>hash.cpp\<close>): message digests with their block buffers, HMAC and PBKDF2. The loop that pads SHA-2 has
    as many rounds as a block has octets, which is proved to be enough. \<open>Afl_Hash\<close>: that pieces do not
    matter, from the contract of a digest as a locale, and HMAC and PBKDF2 from that contract.
  \<^item> \<open>Afl_Stream\<close> (\<open>io/stream.cpp\<close> and the streams of \<open>io/\<close>): streams as records of their virtual
    methods. \<open>Afl_Stream_Laws\<close> states the contract of streams as locales, proves the common operations
    from it, and shows that streams in memory and windows keep it; \<open>Afl_Stream_Buffer\<close> shows it for
    the buffered stream, \<open>Afl_Stream_Children\<close> for the children of a stream
    (\<open>io/multiplexablestream.cpp\<close>).
  \<^item> \<open>Afl_Async\<close> (\<open>async/\<close>): operations, controllers, semaphores, mutexes, message exchanges and timers;
    a method is one atomic step. \<open>Afl_Async_Laws\<close>: what they guarantee in every interleaving of the
    steps of the threads. \<open>Afl_Wakeup\<close> (\<open>async/controller.cpp\<close> with
    \<open>arch/posix/posixcontrollerimpl.cpp\<close>): sleeping and waking, in steps of one access to shared state
    each, and that no wake-up is lost; the list of requests for file descriptors.

  \<^bold>\<open>Interactions.\<close>
  The database takes and gives the values of \<open>Afl_Data\<close>, parses and formats numbers with \<open>Afl_Parse\<close>
  and \<open>Afl_Format\<close>; its clients call it through the handler interface. The RESP and JSON parsers
  build the same values that the writers take. URLs, forms and headers use the URL encoding. Buffered,
  limited and child streams work on any stream that keeps the contract, and keep it themselves, so
  that they can be stacked.

  \<^bold>\<open>Findings.\<close>
  Where the model shows a defect of the code, a lemma evaluates it on a concrete input; these lemmas
  are named in the text before them.

  \<^bold>\<open>Not modelled.\<close>
  Operating system interfaces (\<open>src/arch\<close> but the controller, \<open>sys/\<close>, sockets), the test framework and the programs in
  \<open>src/app\<close>, bindings to zlib and OpenSSL, and floating-point formatting and parsing. Archives and the
  HTTP client and server, which rest on compression and sockets, and MIME bodies and cookies are outside the scope of
  the development. Of the file systems, only the one in memory is modelled;
  the others are calls of the operating system.
\<close>

end
